(* ===== verification/QcmsPrelude.thy ===== *)
theory QcmsPrelude
  imports Complex_Main "HOL-Library.AList" "HOL-Library.Sublist"
begin

text \<open>
  What the components share: the JavaScript values that cross the untyped boundary of the
  kernel, the loops with an early return as combinators over an error sum, the insertion
  ordered \<^verbatim>\<open>Set\<close> and \<^verbatim>\<open>Map\<close> of the language as lists, and the collections of rewrite
  rules the component theories extend.
\<close>

named_theorems loop_simps \<open>equations and inversion rules for the early-return loops\<close>
named_theorems id_simps \<open>facts on branded identifiers and answer keys\<close>
named_theorems check_simps \<open>membership in the reports of the publish checks\<close>

section \<open>JavaScript values\<close>

text \<open>
  A string is its list of UTF-16 code units, restricted to the code units below 256. A
  number is a double: the finite ones are rationals (both zeros are the rational zero, which
  no operation of the kernel tells apart), beside them stand the two infinities and NaN.
\<close>

datatype jsnum = NaN | PosInf | NegInf | Fin rat

fun num_isFinite :: "jsnum \<Rightarrow> bool" where
  "num_isFinite (Fin _) = True"
| "num_isFinite _ = False"

fun num_isInteger :: "jsnum \<Rightarrow> bool" where
  "num_isInteger (Fin q) = (of_int (floor q) = q)"
| "num_isInteger _ = False"

fun num_lt :: "jsnum \<Rightarrow> jsnum \<Rightarrow> bool" where
  "num_lt (Fin a) (Fin b) = (a < b)"
| "num_lt NegInf (Fin _) = True"
| "num_lt NegInf PosInf = True"
| "num_lt (Fin _) PosInf = True"
| "num_lt _ _ = False"

fun num_eq :: "jsnum \<Rightarrow> jsnum \<Rightarrow> bool" where
  "num_eq NaN _ = False"
| "num_eq a b = (a = b)"

lemma num_lt_irrefl [simp]: "\<not> num_lt a a"
  by (cases a) auto

lemma num_lt_asym: "num_lt a b \<Longrightarrow> \<not> num_lt b a"
  by (cases a; cases b) auto

lemma num_eq_sym: "num_eq a b = num_eq b a"
  by (cases a; cases b) auto

lemma num_eq_trans: "num_eq a b \<Longrightarrow> num_eq b c \<Longrightarrow> num_eq a c"
  by (cases a; cases b; cases c) auto

lemma num_eq_refl: "num_eq a a \<longleftrightarrow> a \<noteq> NaN"
  by (cases a) auto

lemma num_finite_trichotomy:
  "num_isFinite a \<Longrightarrow> num_isFinite b \<Longrightarrow> num_lt a b \<or> num_eq a b \<or> num_lt b a"
  by (cases a; cases b) auto

datatype jsval =
    JUndefined
  | JNull
  | JBool bool
  | JNum jsnum
  | JStr string
  | JArr "jsval list"
  | JObj "(string \<times> jsval) list"

text \<open>The order of the language on strings: by code unit, a proper prefix first.\<close>

fun str_lt :: "string \<Rightarrow> string \<Rightarrow> bool" where
  "str_lt [] [] = False"
| "str_lt [] (_ # _) = True"
| "str_lt (_ # _) [] = False"
| "str_lt (a # as) (b # bs) =
     (if (of_char a :: nat) < of_char b then True
      else if (of_char b :: nat) < of_char a then False
      else str_lt as bs)"

lemma str_lt_irrefl [simp]: "\<not> str_lt s s"
  by (induction s) auto

lemma str_lt_asym: "str_lt s t \<Longrightarrow> \<not> str_lt t s"
  by (induction s t rule: str_lt.induct) (auto split: if_splits)

lemma str_lt_trans: "str_lt s t \<Longrightarrow> str_lt t u \<Longrightarrow> str_lt s u"
proof (induction s t arbitrary: u rule: str_lt.induct)
  case (4 a as b bs)
  then show ?case by (cases u) (auto split: if_splits)
qed (auto elim: str_lt.elims)

lemma str_lt_total: "s \<noteq> t \<Longrightarrow> str_lt s t \<or> str_lt t s"
  by (induction s t rule: str_lt.induct) (auto simp: of_char_eq_iff)

text \<open>
  \<^verbatim>\<open>String.prototype.trim\<close> removes white space and line terminators; below 256 these are
  tab, line feed, vertical tab, form feed, carriage return, space and the no-break space.
\<close>

definition is_js_space :: "char \<Rightarrow> bool" where
  "is_js_space c \<longleftrightarrow> (of_char c :: nat) \<in> {9, 10, 11, 12, 13, 32, 160}"

definition js_trim :: "string \<Rightarrow> string" where
  "js_trim s = rev (dropWhile is_js_space (rev (dropWhile is_js_space s)))"

lemma js_trim_empty_iff: "js_trim s = [] \<longleftrightarrow> list_all is_js_space s"
proof
  assume "js_trim s = []"
  then have "dropWhile is_js_space (rev (dropWhile is_js_space s)) = []"
    by (simp only: js_trim_def rev_is_Nil_conv)
  then have *: "\<forall>c \<in> set (dropWhile is_js_space s). is_js_space c"
    by (simp only: dropWhile_eq_Nil_conv set_rev)
  have "dropWhile is_js_space s = []"
  proof (cases "dropWhile is_js_space s")
    case (Cons c cs)
    then have "\<not> is_js_space c"
      by (metis hd_dropWhile list.discI list.sel(1))
    with * Cons show ?thesis by simp
  qed simp
  then have "\<forall>c \<in> set s. is_js_space c" by (simp only: dropWhile_eq_Nil_conv)
  then show "list_all is_js_space s" by (simp add: list_all_iff)
next
  assume "list_all is_js_space s"
  then have "dropWhile is_js_space s = []"
    by (simp only: dropWhile_eq_Nil_conv list_all_iff)
  then show "js_trim s = []" by (simp only: js_trim_def rev.simps dropWhile.simps)
qed

text \<open>\<^verbatim>\<open>join\<close>, and \<^verbatim>\<open>split\<close> at one character: the pieces between its occurrences.\<close>

fun js_join :: "string \<Rightarrow> string list \<Rightarrow> string" where
  "js_join sep [] = []"
| "js_join sep [x] = x"
| "js_join sep (x # y # xs) = x @ sep @ js_join sep (y # xs)"

fun js_split :: "char \<Rightarrow> string \<Rightarrow> string list" where
  "js_split sep [] = [[]]"
| "js_split sep (c # cs) =
     (if c = sep then [] # js_split sep cs
      else case js_split sep cs of [] \<Rightarrow> [[c]] | p # ps \<Rightarrow> (c # p) # ps)"

lemma js_split_plain: "sep \<notin> set s \<Longrightarrow> js_split sep s = [s]"
  by (induction s) auto

lemma js_split_sep: "sep \<notin> set s \<Longrightarrow> js_split sep (s @ sep # t) = s # js_split sep t"
  by (induction s) auto

lemma js_split_not_Nil [simp]: "js_split sep s \<noteq> []"
  by (cases s) (auto split: list.splits)

lemma js_split_join:
  "ps \<noteq> [] \<Longrightarrow> \<forall>p \<in> set ps. sep \<notin> set p \<Longrightarrow> js_split sep (js_join [sep] ps) = ps"
  by (induction "[sep]" ps rule: js_join.induct) (simp_all add: js_split_plain js_split_sep)

lemma js_join_split: "js_join [sep] (js_split sep s) = s"
proof (induction s)
  case (Cons c cs)
  then show ?case by (cases "js_split sep cs"; cases "tl (js_split sep cs)") (auto simp: neq_Nil_conv)
qed simp

section \<open>Insertion-ordered sets and maps\<close>

text \<open>The spread of a \<^verbatim>\<open>Set\<close>, \<^verbatim>\<open>[...new Set(xs)]\<close>: the first occurrence of each element.\<close>

fun dedup :: "'a list \<Rightarrow> 'a list" where
  "dedup [] = []"
| "dedup (x # xs) = x # removeAll x (dedup xs)"

lemma set_dedup [simp]: "set (dedup xs) = set xs"
  by (induction xs) auto

lemma distinct_dedup [simp]: "distinct (dedup xs)"
  by (induction xs) (auto simp: distinct_removeAll)

lemma dedup_distinct_id [simp]: "distinct xs \<Longrightarrow> dedup xs = xs"
  by (induction xs) auto

lemma dedup_idem: "dedup (dedup xs) = dedup xs"
  by simp

lemma dedup_Nil_iff [simp]: "dedup xs = [] \<longleftrightarrow> xs = []"
  by (cases xs) auto

lemma length_dedup_le: "length (dedup xs) \<le> length xs"
  by (metis card_length distinct_card distinct_dedup set_dedup)

text \<open>
  A \<^verbatim>\<open>Map\<close> is its list of entries in insertion order: \<^verbatim>\<open>set\<close> is \<^const>\<open>AList.update\<close>, which
  overwrites in place or appends, and \<^verbatim>\<open>get\<close> is \<^const>\<open>map_of\<close>.
\<close>

lemma map_of_update [simp]: "map_of (AList.update k v m) = (map_of m)(k \<mapsto> v)"
  by (simp add: update_conv')

lemma map_of_append_fresh:
  "k \<notin> fst ` set m \<Longrightarrow> map_of (m @ [(k, v)]) = (map_of m)(k \<mapsto> v)"
  by (induction m) (auto simp: fun_eq_iff)

definition opt_default :: "'a \<Rightarrow> 'a option \<Rightarrow> 'a" where
  "opt_default d x = (case x of None \<Rightarrow> d | Some v \<Rightarrow> v)"

lemma opt_default_simps [simp]:
  "opt_default d None = d"
  "opt_default d (Some v) = v"
  by (simp_all add: opt_default_def)

section \<open>Loops with an early return\<close>

text \<open>
  The three loop shapes of the kernel over a fallible body: the conjunction loop of
  \<^verbatim>\<open>and\<close> (stop at the first error or the first false), the disjunction loop of \<^verbatim>\<open>or\<close>, and
  the loop that threads a state and stops at the first error.
\<close>

fun all_ok :: "('a \<Rightarrow> 'e + bool) \<Rightarrow> 'a list \<Rightarrow> 'e + bool" where
  "all_ok f [] = Inr True"
| "all_ok f (x # xs) =
     (case f x of Inl e \<Rightarrow> Inl e | Inr b \<Rightarrow> if b then all_ok f xs else Inr False)"

fun any_ok :: "('a \<Rightarrow> 'e + bool) \<Rightarrow> 'a list \<Rightarrow> 'e + bool" where
  "any_ok f [] = Inr False"
| "any_ok f (x # xs) =
     (case f x of Inl e \<Rightarrow> Inl e | Inr b \<Rightarrow> if b then Inr True else any_ok f xs)"

fun fold_ok :: "('a \<Rightarrow> 's \<Rightarrow> 'e + 's) \<Rightarrow> 'a list \<Rightarrow> 's \<Rightarrow> 'e + 's" where
  "fold_ok f [] s = Inr s"
| "fold_ok f (x # xs) s = (case f x s of Inl e \<Rightarrow> Inl e | Inr s' \<Rightarrow> fold_ok f xs s')"

lemma all_ok_cong [fundef_cong]:
  "xs = ys \<Longrightarrow> (\<And>x. x \<in> set ys \<Longrightarrow> f x = g x) \<Longrightarrow> all_ok f xs = all_ok g ys"
  by (induction xs arbitrary: ys) (auto split: sum.splits)

lemma any_ok_cong [fundef_cong]:
  "xs = ys \<Longrightarrow> (\<And>x. x \<in> set ys \<Longrightarrow> f x = g x) \<Longrightarrow> any_ok f xs = any_ok g ys"
  by (induction xs arbitrary: ys) (auto split: sum.splits)

lemma fold_ok_cong [fundef_cong]:
  "xs = ys \<Longrightarrow> s = t \<Longrightarrow> (\<And>x s. x \<in> set ys \<Longrightarrow> f x s = g x s) \<Longrightarrow> fold_ok f xs s = fold_ok g ys t"
  by (induction xs arbitrary: ys s t) (auto split: sum.splits)

lemma all_ok_pure [loop_simps]:
  "(\<And>x. x \<in> set xs \<Longrightarrow> f x = Inr (p x)) \<Longrightarrow> all_ok f xs = Inr (\<forall>x \<in> set xs. p x)"
  by (induction xs) auto

lemma any_ok_pure [loop_simps]:
  "(\<And>x. x \<in> set xs \<Longrightarrow> f x = Inr (p x)) \<Longrightarrow> any_ok f xs = Inr (\<exists>x \<in> set xs. p x)"
  by (induction xs) auto

lemma all_ok_Inl: "all_ok f xs = Inl e \<Longrightarrow> \<exists>x \<in> set xs. f x = Inl e"
  by (induction xs) (auto split: sum.splits if_splits)

lemma any_ok_Inl: "any_ok f xs = Inl e \<Longrightarrow> \<exists>x \<in> set xs. f x = Inl e"
  by (induction xs) (auto split: sum.splits if_splits)

lemma any_ok_True: "any_ok f xs = Inr True \<Longrightarrow> \<exists>x \<in> set xs. f x = Inr True"
  by (induction xs) (auto split: sum.splits if_splits)

lemma fold_ok_append [loop_simps]:
  "fold_ok f (xs @ ys) s = (case fold_ok f xs s of Inl e \<Rightarrow> Inl e | Inr s' \<Rightarrow> fold_ok f ys s')"
  by (induction xs arbitrary: s) (auto split: sum.splits)

lemma fold_ok_invariant:
  assumes "fold_ok f xs s = Inr s'" "P s"
    and "\<And>x s s'. x \<in> set xs \<Longrightarrow> P s \<Longrightarrow> f x s = Inr s' \<Longrightarrow> P s'"
  shows "P s'"
  using assms
proof (induction xs arbitrary: s)
  case (Cons x xs)
  then obtain s1 where "f x s = Inr s1" "fold_ok f xs s1 = Inr s'"
    by (auto split: sum.splits)
  with Cons.IH [of s1] Cons.prems show ?case by (meson list.set_intros)
qed simp

lemma fold_ok_Inl:
  assumes "fold_ok f xs s = Inl e" "P s"
    and "\<And>x s s'. x \<in> set xs \<Longrightarrow> P s \<Longrightarrow> f x s = Inr s' \<Longrightarrow> P s'"
  shows "\<exists>x \<in> set xs. \<exists>s. P s \<and> f x s = Inl e"
  using assms
proof (induction xs arbitrary: s)
  case (Cons x xs)
  show ?case
  proof (cases "f x s")
    case (Inl e')
    with Cons.prems show ?thesis by auto
  next
    case (Inr s')
    with Cons.prems have "fold_ok f xs s' = Inl e" "P s'" by auto
    from Cons.IH [OF this] Cons.prems(3) show ?thesis by auto
  qed
qed simp

text \<open>Two runs of a loop that stay related, where the relation may only hold below a bound.\<close>

lemma fold_ok_sim:
  assumes "fold_ok f xs s = Inr s'" "R s t"
    and "\<And>x s s' t. x \<in> set xs \<Longrightarrow> R s t \<Longrightarrow> f x s = Inr s' \<Longrightarrow> \<exists>t'. g x t = Inr t' \<and> R s' t'"
  shows "\<exists>t'. fold_ok g xs t = Inr t' \<and> R s' t'"
  using assms
proof (induction xs arbitrary: s t)
  case (Cons x xs)
  then obtain s1 where s1: "f x s = Inr s1" "fold_ok f xs s1 = Inr s'"
    by (auto split: sum.splits)
  with Cons.prems obtain t1 where "g x t = Inr t1" "R s1 t1"
    by (meson list.set_intros(1))
  with s1 Cons.IH [of s1 t1] Cons.prems(3) show ?case by auto
qed auto

lemma foldl_invariant:
  assumes "P s" "\<And>x s. x \<in> set xs \<Longrightarrow> P s \<Longrightarrow> P (f s x)"
  shows "P (foldl f s xs)"
  using assms by (induction xs arbitrary: s) auto

text \<open>
  The contract of the scanners of the kernel: a loop over an index into a text whose body
  either stops with a result or moves the index forward. Such a loop ends, and what its
  body keeps true holds where it ends.
\<close>

locale scanner =
  fixes step :: "'s \<Rightarrow> 'r + 's"
    and pos :: "'s \<Rightarrow> nat"
    and len :: nat
    and loop :: "'s \<Rightarrow> 'r + 's"
  assumes progress: "pos s < len \<Longrightarrow> step s = Inr s' \<Longrightarrow> pos s < pos s'"
    and unfold_loop: "loop s =
      (if pos s < len then (case step s of Inl r \<Rightarrow> Inl r | Inr s' \<Rightarrow> loop s') else Inr s)"
begin

lemma loop_outcome:
  assumes "P s"
    and keep: "\<And>s s'. P s \<Longrightarrow> pos s < len \<Longrightarrow> step s = Inr s' \<Longrightarrow> P s'"
    and stop: "\<And>s r. P s \<Longrightarrow> pos s < len \<Longrightarrow> step s = Inl r \<Longrightarrow> Q r"
  shows "(\<exists>r. loop s = Inl r \<and> Q r) \<or> (\<exists>s'. loop s = Inr s' \<and> P s' \<and> len \<le> pos s')"
  using assms(1)
proof (induction "len - pos s" arbitrary: s rule: less_induct)
  case less
  show ?case
  proof (cases "pos s < len")
    case False
    with less.prems show ?thesis by (auto simp: unfold_loop [of s])
  next
    case True
    show ?thesis
    proof (cases "step s")
      case (Inl r)
      with stop [OF less.prems True] show ?thesis
        using True by (auto simp: unfold_loop [of s])
    next
      case (Inr s')
      from progress [OF True Inr] True have "len - pos s' < len - pos s" by simp
      from less.hyps [OF this keep [OF less.prems True Inr]] Inr True show ?thesis
        by (simp add: unfold_loop [of s])
    qed
  qed
qed

lemma loop_Inl: "loop s = Inl r \<Longrightarrow> \<exists>t. pos t < len \<and> step t = Inl r"
  using loop_outcome [where P = "\<lambda>_. True" and Q = "\<lambda>r. \<exists>t. pos t < len \<and> step t = Inl r" and s = s]
  by auto

lemma loop_Inr: "loop s = Inr s' \<Longrightarrow> len \<le> pos s'"
  using loop_outcome [where P = "\<lambda>_. True" and Q = "\<lambda>_. True" and s = s] by auto

lemma loop_total:
  assumes "P s"
    and "\<And>s s'. P s \<Longrightarrow> pos s < len \<Longrightarrow> step s = Inr s' \<Longrightarrow> P s'"
    and "\<And>s r. P s \<Longrightarrow> pos s < len \<Longrightarrow> step s \<noteq> Inl r"
  obtains s' where "loop s = Inr s'" "P s'" "len \<le> pos s'"
proof -
  have "(\<exists>r. loop s = Inl r \<and> False) \<or> (\<exists>s'. loop s = Inr s' \<and> P s' \<and> len \<le> pos s')"
    by (rule loop_outcome) (use assms in blast)+
  with that show thesis by blast
qed

end

section \<open>Encodings\<close>

text \<open>
  The contract of every encoding of the kernel (answer keys, base64url segments): decoding
  what was encoded gives it back. The stronger contract also says that only encoded values
  decode, so the encoding has one spelling per value.
\<close>

locale codec =
  fixes enc :: "'a \<Rightarrow> 'b"
    and dec :: "'b \<Rightarrow> 'a option"
    and valid :: "'a \<Rightarrow> bool"
  assumes dec_enc: "valid x \<Longrightarrow> dec (enc x) = Some x"
begin

lemma enc_eq_iff: "valid x \<Longrightarrow> valid y \<Longrightarrow> enc x = enc y \<longleftrightarrow> x = y"
  by (metis dec_enc option.inject)

lemma enc_inj_on: "inj_on enc (Collect valid)"
  by (rule inj_onI) (simp add: enc_eq_iff)

lemma distinct_map_enc: "list_all valid xs \<Longrightarrow> distinct (map enc xs) \<longleftrightarrow> distinct xs"
  by (auto simp: distinct_map list_all_iff intro: inj_on_subset [OF enc_inj_on])

end

locale canonical_codec = codec +
  assumes enc_dec: "dec y = Some x \<Longrightarrow> valid x \<and> enc x = y"
begin

lemma dec_inj: "dec y = Some x \<Longrightarrow> dec z = Some x \<Longrightarrow> y = z"
  using enc_dec [of y x] enc_dec [of z x] by simp

lemma dec_Some_iff: "dec y = Some x \<longleftrightarrow> valid x \<and> enc x = y"
  by (auto intro: dec_enc dest: enc_dec)

end

section \<open>Lists\<close>

lemma list_all_mono': "list_all p xs \<Longrightarrow> (\<And>x. x \<in> set xs \<Longrightarrow> p x \<Longrightarrow> q x) \<Longrightarrow> list_all q xs"
  by (simp add: list_all_iff)

lemma find_Some_iff_mem: "List.find p xs = Some x \<Longrightarrow> x \<in> set xs \<and> p x"
  by (auto simp: find_Some_iff)

lemma concat_map_Nil_iff: "concat (map f xs) = [] \<longleftrightarrow> (\<forall>x \<in> set xs. f x = [])"
  by auto

text \<open>
  \<^verbatim>\<open>Array.prototype.sort\<close> is stable: for a comparator that is a total preorder every stable
  sort returns the same list, here by insertion.
\<close>

fun insort_cmp :: "('a \<Rightarrow> 'a \<Rightarrow> int) \<Rightarrow> 'a \<Rightarrow> 'a list \<Rightarrow> 'a list" where
  "insort_cmp c x [] = [x]"
| "insort_cmp c x (y # ys) = (if c x y \<le> 0 then x # y # ys else y # insort_cmp c x ys)"

fun js_sort :: "('a \<Rightarrow> 'a \<Rightarrow> int) \<Rightarrow> 'a list \<Rightarrow> 'a list" where
  "js_sort c [] = []"
| "js_sort c (x # xs) = insort_cmp c x (js_sort c xs)"

lemma set_insort_cmp [simp]: "set (insort_cmp c x xs) = insert x (set xs)"
  by (induction xs) auto

lemma set_js_sort [simp]: "set (js_sort c xs) = set xs"
  by (induction xs) auto

lemma length_insort_cmp [simp]: "length (insort_cmp c x xs) = Suc (length xs)"
  by (induction xs) auto

lemma length_js_sort [simp]: "length (js_sort c xs) = length xs"
  by (induction xs) auto

end
