(* ===== verification/Errors.thy ===== *)
theory Errors
  imports QcmsPrelude
begin

text \<open>
  \<^verbatim>\<open>packages/core/src/errors.ts\<close> and \<^verbatim>\<open>packages/core/src/internal/\<close>: the error record, the
  result type and the two helpers that turn a schema failure into coded errors. A
  \<^verbatim>\<open>Result<T, E>\<close> is the sum \<open>'e + 'a\<close>, so \<^verbatim>\<open>ok\<close> is \<^const>\<open>Inr\<close> and \<^verbatim>\<open>err\<close> is \<^const>\<open>Inl\<close>.

  The schema library is not part of the repository. A schema is what the code observes of
  it: a function from an untyped value to the parsed value or to nothing, and, where the code
  walks the issues of a failure, the tree of issues below.
\<close>

section \<open>The error model\<close>

datatype path_seg = Key string | Index nat

record qcms_error =
  err_code :: string
  err_message :: string
  err_path :: "path_seg list option"

type_synonym ('e, 'a) result = "'e + 'a"

definition ok :: "'a \<Rightarrow> ('e, 'a) result" where
  "ok v = Inr v"

definition err :: "'e \<Rightarrow> ('e, 'a) result" where
  "err e = Inl e"

definition qcmsError :: "string \<Rightarrow> string \<Rightarrow> path_seg list option \<Rightarrow> qcms_error" where
  "qcmsError code message path =
     \<lparr>err_code = code, err_message = message, err_path = path\<rparr>"

section \<open>Schema issues\<close>

text \<open>
  One issue of a failed parse. \<open>iss_qcms\<close> is the \<^verbatim>\<open>params.qcms\<close> tag that \<^verbatim>\<open>addCodedIssue\<close>
  attaches to a custom issue, and \<open>Union\<close> carries the issues of each branch.
\<close>

datatype issue =
    Custom (iss_path: "path_seg list") (iss_message: string) (iss_qcms: "string option")
  | Structural (iss_path: "path_seg list") (iss_message: string)
  | Union (iss_path: "path_seg list") (iss_message: string) (iss_errors: "issue list list")

type_synonym 'a schema = "jsval \<Rightarrow> issue list + 'a"

text \<open>A schema given by what it accepts; the issues of a refusal are the schema library's.\<close>

definition opt_schema :: "(jsval \<Rightarrow> issue list) \<Rightarrow> (jsval \<Rightarrow> 'a option) \<Rightarrow> 'a schema" where
  "opt_schema issues p v = (case p v of Some x \<Rightarrow> Inr x | None \<Rightarrow> Inl (issues v))"

lemma opt_schema_Inr_iff [simp]: "opt_schema w p v = Inr x \<longleftrightarrow> p v = Some x"
  by (auto simp: opt_schema_def split: option.splits)

definition addCodedIssue :: "string \<Rightarrow> string \<Rightarrow> path_seg list \<Rightarrow> issue list \<Rightarrow> issue list" where
  "addCodedIssue code message path ctx = ctx @ [Custom path message (Some code)]"

text \<open>\<^verbatim>\<open>codes\<close> is the enumeration the caller wraps: a tag outside it is no code.\<close>

fun qcmsCodeOf :: "string list \<Rightarrow> issue \<Rightarrow> string option" where
  "qcmsCodeOf codes (Custom _ _ (Some c)) = (if c \<in> set codes then Some c else None)"
| "qcmsCodeOf codes _ = None"

fun prefix_issue :: "path_seg list \<Rightarrow> issue \<Rightarrow> issue" where
  "prefix_issue p (Custom q m c) = Custom (p @ q) m c"
| "prefix_issue p (Structural q m) = Structural (p @ q) m"
| "prefix_issue p (Union q m es) = Union (p @ q) m es"

lemma size_prefix_issue [simp]: "size (prefix_issue p i) = size i"
  by (cases i) auto

lemma iss_path_prefix_issue [simp]: "iss_path (prefix_issue p i) = p @ iss_path i"
  by (cases i) auto

text \<open>
  The branch a union issue expands to: the unique one with the fewest issues among those that
  have any, unless all its issues sit at the union node itself.
\<close>

definition union_winner :: "issue list list \<Rightarrow> issue list option" where
  "union_winner errors =
     (let branches = filter (\<lambda>b. 0 < length b) errors in
      if branches = [] then None
      else
        let fewest = Min (set (map length branches));
            winners = filter (\<lambda>b. length b = fewest) branches in
        case winners of
          [best] \<Rightarrow> if list_all (\<lambda>i. iss_path i = []) best then None else Some best
        | _ \<Rightarrow> None)"

lemma union_winner_mem: "union_winner errors = Some best \<Longrightarrow> best \<in> set errors \<and> best \<noteq> []"
proof -
  assume *: "union_winner errors = Some best"
  let ?bs = "filter (\<lambda>b. 0 < length b) errors"
  from * have "filter (\<lambda>b. length b = Min (set (map length ?bs))) ?bs = [best]"
    by (auto simp: union_winner_def Let_def split: if_splits list.splits)
  then have "best \<in> set ?bs" by (metis filter_is_subset list.set_intros(1) subsetD)
  then show ?thesis by auto
qed

lemma size_union_winner:
  assumes "union_winner errors = Some best" "i \<in> set best"
  shows "size i < size (Union p m errors)"
proof -
  have "best \<in> set errors" using assms(1) union_winner_mem by blast
  then have "size_list size best < Suc (size_list (size_list size) errors)"
    by (metis less_Suc_eq_le size_list_estimation' order_refl)
  moreover have "size i \<le> size_list size best"
    using assms(2) by (metis size_list_estimation' order_refl)
  ultimately show ?thesis by simp
qed

function expandUnionIssue :: "issue \<Rightarrow> issue list" where
  "expandUnionIssue (Custom p m c) = [Custom p m c]"
| "expandUnionIssue (Structural p m) = [Structural p m]"
| "expandUnionIssue (Union p m errors) =
     (case union_winner errors of
        None \<Rightarrow> [Union p m errors]
      | Some best \<Rightarrow> concat (map (\<lambda>nested. expandUnionIssue (prefix_issue p nested)) best))"
  by pat_completeness auto
termination
  by (relation "measure size") (auto dest: size_union_winner)

record coded_error =
  ce_code :: string
  ce_message :: string
  ce_path :: "path_seg list"

definition toCodedErrors :: "string list \<Rightarrow> issue list \<Rightarrow> string \<Rightarrow> coded_error list" where
  "toCodedErrors codes issues fallback =
     map (\<lambda>issue. \<lparr>ce_code = opt_default fallback (qcmsCodeOf codes issue),
                     ce_message = iss_message issue, ce_path = iss_path issue\<rparr>)
       (concat (map expandUnionIssue issues))"

section \<open>Parse helpers\<close>

fun seg_string :: "(nat \<Rightarrow> string) \<Rightarrow> path_seg \<Rightarrow> string" where
  "seg_string showNat (Key k) = k"
| "seg_string showNat (Index n) = showNat n"

text \<open>Decimal digits of an index, as a template literal prints it.\<close>

fun nat_digits :: "nat \<Rightarrow> string" where
  "nat_digits n =
     (if n < 10 then [char_of (48 + n)] else nat_digits (n div 10) @ [char_of (48 + n mod 10)])"

declare nat_digits.simps [simp del]

definition issue_detail :: "issue \<Rightarrow> string" where
  "issue_detail i =
     (if iss_path i \<noteq> []
      then js_join ''.'' (map (seg_string nat_digits) (iss_path i)) @ '': '' @ iss_message i
      else iss_message i)"

definition parseWithCode :: "'a schema \<Rightarrow> string \<Rightarrow> string \<Rightarrow> jsval \<Rightarrow> (qcms_error, 'a) result" where
  "parseWithCode schema code label value =
     (case schema value of
        Inr data \<Rightarrow> ok data
      | Inl issues \<Rightarrow>
          err (qcmsError code (label @ '': '' @ js_join ''; '' (map issue_detail issues)) None))"

definition schema_accepts :: "'a schema \<Rightarrow> jsval \<Rightarrow> bool" where
  "schema_accepts schema value = (case schema value of Inr _ \<Rightarrow> True | Inl _ \<Rightarrow> False)"

lemma parseWithCode_Inr_iff: "parseWithCode s c l v = Inr d \<longleftrightarrow> s v = Inr d"
  by (auto simp: parseWithCode_def ok_def err_def split: sum.splits)

lemma parseWithCode_Inl_code: "parseWithCode s c l v = Inl e \<Longrightarrow> err_code e = c \<and> err_path e = None"
  by (auto simp: parseWithCode_def ok_def err_def qcmsError_def split: sum.splits)

lemma schema_accepts_iff: "schema_accepts s v \<longleftrightarrow> (\<exists>d. parseWithCode s c l v = Inr d)"
  by (auto simp: schema_accepts_def parseWithCode_Inr_iff split: sum.splits)

text \<open>
  Expanding a union only refines where the failure is: no issue is lost and every reported
  path extends the path of the issue it came from.
\<close>

lemma expandUnionIssue_nonempty: "expandUnionIssue i \<noteq> []"
proof (induction i rule: expandUnionIssue.induct)
  case (3 p m errors)
  show ?case
  proof (cases "union_winner errors")
    case (Some best)
    then obtain i rest where "best = i # rest"
      using union_winner_mem by (metis neq_Nil_conv)
    with Some 3 show ?thesis by simp
  qed simp
qed auto

lemma expandUnionIssue_path:
  "j \<in> set (expandUnionIssue i) \<Longrightarrow> \<exists>q. iss_path j = iss_path i @ q"
proof (induction i rule: expandUnionIssue.induct)
  case (3 p m errors)
  show ?case
  proof (cases "union_winner errors")
    case (Some best)
    with 3 obtain n where n: "n \<in> set best" "j \<in> set (expandUnionIssue (prefix_issue p n))"
      by auto
    from 3(1) [OF Some n] show ?thesis by auto
  qed (use 3 in simp)
qed auto

end
