(* ===== verification/Ids.thy ===== *)
theory Ids
  imports Errors
begin

text \<open>
  \<^verbatim>\<open>packages/core/src/ids.ts\<close> and \<^verbatim>\<open>localized-text.ts\<close>. A branded id is a string whose
  kind is its prefix, so the patterns below are what tells a step target of a rule from a
  question target. The two patterns of the code, \<^verbatim>\<open>^prefix_[a-z0-9_]+$\<close> and the
  instance-qualified answer key, are boolean functions.
\<close>

type_synonym question_id = string
type_synonym form_id = string
type_synonym step_id = string
type_synonym option_id = string
type_synonym rule_id = string
type_synonym group_id = string
type_synonym instance_id = string
type_synonym answer_key = string

section \<open>Branded identifiers\<close>

definition id_char :: "char \<Rightarrow> bool" where
  "id_char c \<longleftrightarrow>
     (let n = (of_char c :: nat) in (97 \<le> n \<and> n \<le> 122) \<or> (48 \<le> n \<and> n \<le> 57) \<or> n = 95)"

definition idPattern :: "string \<Rightarrow> string \<Rightarrow> bool" where
  "idPattern pre s \<longleftrightarrow>
     take (length pre + 1) s = pre @ ''_'' \<and> length pre + 1 < length s \<and>
     list_all id_char (drop (length pre + 1) s)"

definition QuestionId :: "string \<Rightarrow> bool" where "QuestionId = idPattern ''q''"
definition FormId :: "string \<Rightarrow> bool" where "FormId = idPattern ''frm''"
definition StepId :: "string \<Rightarrow> bool" where "StepId = idPattern ''stp''"
definition OptionId :: "string \<Rightarrow> bool" where "OptionId = idPattern ''opt''"
definition RuleId :: "string \<Rightarrow> bool" where "RuleId = idPattern ''rul''"
definition SessionId :: "string \<Rightarrow> bool" where "SessionId = idPattern ''ses''"
definition LinkId :: "string \<Rightarrow> bool" where "LinkId = idPattern ''lnk''"
definition GroupId :: "string \<Rightarrow> bool" where "GroupId = idPattern ''grp''"
definition InstanceId :: "string \<Rightarrow> bool" where "InstanceId = idPattern ''ins''"

lemmas id_defs = QuestionId_def FormId_def StepId_def OptionId_def RuleId_def SessionId_def
  LinkId_def GroupId_def InstanceId_def

text \<open>A string schema with a pattern.\<close>

fun str_with :: "(string \<Rightarrow> bool) \<Rightarrow> jsval \<Rightarrow> string option" where
  "str_with p (JStr s) = (if p s then Some s else None)"
| "str_with p _ = None"

definition pattern_schema :: "(jsval \<Rightarrow> issue list) \<Rightarrow> (string \<Rightarrow> bool) \<Rightarrow> string schema" where
  "pattern_schema w p = opt_schema w (str_with p)"

lemma str_with_Some_iff [simp]: "str_with p v = Some s \<longleftrightarrow> v = JStr s \<and> p s"
  by (cases v) auto

lemma pattern_schema_Inr_iff: "pattern_schema w p v = Inr s \<longleftrightarrow> v = JStr s \<and> p s"
  by (auto simp: pattern_schema_def)

definition parseQuestionId where
  "parseQuestionId w = parseWithCode (pattern_schema w QuestionId) ''INVALID_QUESTION_ID'' ''QuestionId''"
definition parseFormId where
  "parseFormId w = parseWithCode (pattern_schema w FormId) ''INVALID_FORM_ID'' ''FormId''"
definition parseStepId where
  "parseStepId w = parseWithCode (pattern_schema w StepId) ''INVALID_STEP_ID'' ''StepId''"
definition parseOptionId where
  "parseOptionId w = parseWithCode (pattern_schema w OptionId) ''INVALID_OPTION_ID'' ''OptionId''"
definition parseRuleId where
  "parseRuleId w = parseWithCode (pattern_schema w RuleId) ''INVALID_RULE_ID'' ''RuleId''"
definition parseSessionId where
  "parseSessionId w = parseWithCode (pattern_schema w SessionId) ''INVALID_SESSION_ID'' ''SessionId''"
definition parseLinkId where
  "parseLinkId w = parseWithCode (pattern_schema w LinkId) ''INVALID_LINK_ID'' ''LinkId''"
definition parseGroupId where
  "parseGroupId w = parseWithCode (pattern_schema w GroupId) ''INVALID_GROUP_ID'' ''GroupId''"
definition parseInstanceId where
  "parseInstanceId w = parseWithCode (pattern_schema w InstanceId) ''INVALID_INSTANCE_ID'' ''InstanceId''"

text \<open>The type guards on an untyped value; on a value already a string they are the patterns.\<close>

fun is_str_with :: "(string \<Rightarrow> bool) \<Rightarrow> jsval \<Rightarrow> bool" where
  "is_str_with p (JStr s) = p s"
| "is_str_with p _ = False"

definition isOptionId :: "jsval \<Rightarrow> bool" where "isOptionId = is_str_with OptionId"
definition isStepId :: "string \<Rightarrow> bool" where "isStepId s = StepId s"
definition isQuestionId :: "jsval \<Rightarrow> bool" where "isQuestionId = is_str_with QuestionId"
definition isFormId :: "jsval \<Rightarrow> bool" where "isFormId = is_str_with FormId"
definition isRuleId :: "jsval \<Rightarrow> bool" where "isRuleId = is_str_with RuleId"
definition isSessionId :: "jsval \<Rightarrow> bool" where "isSessionId = is_str_with SessionId"
definition isLinkId :: "jsval \<Rightarrow> bool" where "isLinkId = is_str_with LinkId"
definition isGroupId :: "jsval \<Rightarrow> bool" where "isGroupId = is_str_with GroupId"
definition isInstanceId :: "jsval \<Rightarrow> bool" where "isInstanceId = is_str_with InstanceId"

lemma idPattern_Cons_prefix:
  "idPattern pre s \<Longrightarrow> \<exists>rest. s = pre @ ''_'' @ rest \<and> rest \<noteq> [] \<and> list_all id_char rest"
proof -
  assume *: "idPattern pre s"
  then have "s = (pre @ ''_'') @ drop (length pre + 1) s"
    by (metis append_take_drop_id idPattern_def)
  moreover have "drop (length pre + 1) s \<noteq> []" "list_all id_char (drop (length pre + 1) s)"
    using * by (auto simp: idPattern_def)
  ultimately show ?thesis by (metis append_assoc)
qed

lemma idPattern_intro: "rest \<noteq> [] \<Longrightarrow> list_all id_char rest \<Longrightarrow> idPattern pre (pre @ ''_'' @ rest)"
  by (simp add: idPattern_def)

lemma idPattern_iff:
  "idPattern pre s \<longleftrightarrow> (\<exists>rest. s = pre @ ''_'' @ rest \<and> rest \<noteq> [] \<and> list_all id_char rest)"
  using idPattern_Cons_prefix idPattern_intro by blast

lemma id_char_code [simp]:
  "id_char CHR ''q''" "id_char CHR ''_''" "id_char CHR ''i''" "id_char CHR ''n''"
  "id_char CHR ''s''" "\<not> id_char CHR ''/''"
  by (simp_all add: id_char_def)

lemma no_separator_idPattern:
  "idPattern pre s \<Longrightarrow> list_all id_char pre \<Longrightarrow> CHR ''/'' \<notin> set s"
  using id_char_code(6) by (fastforce simp: idPattern_iff list_all_iff)

lemma question_not_step [id_simps]: "QuestionId s \<Longrightarrow> \<not> StepId s"
  by (auto simp: QuestionId_def StepId_def idPattern_iff)

section \<open>Answer keys\<close>

definition ANSWER_KEY_SEPARATOR :: string where
  "ANSWER_KEY_SEPARATOR = ''/''"

definition InstanceAnswerKey :: "string \<Rightarrow> bool" where
  "InstanceAnswerKey s \<longleftrightarrow>
     (let inst = takeWhile (\<lambda>c. c \<noteq> CHR ''/'') s; rest = dropWhile (\<lambda>c. c \<noteq> CHR ''/'') s in
      rest \<noteq> [] \<and> idPattern ''ins'' inst \<and> idPattern ''q'' (tl rest))"

definition isInstanceAnswerKey :: "jsval \<Rightarrow> bool" where
  "isInstanceAnswerKey = is_str_with InstanceAnswerKey"

definition answerKey :: "question_id \<Rightarrow> instance_id option \<Rightarrow> answer_key" where
  "answerKey questionId instanceId =
     (case instanceId of
        None \<Rightarrow> questionId
      | Some i \<Rightarrow> i @ ANSWER_KEY_SEPARATOR @ questionId)"

definition answerKeyParts :: "answer_key \<Rightarrow> instance_id option \<times> question_id" where
  "answerKeyParts key =
     (if CHR ''/'' \<notin> set key then (None, key)
      else (Some (takeWhile (\<lambda>c. c \<noteq> CHR ''/'') key), tl (dropWhile (\<lambda>c. c \<noteq> CHR ''/'') key)))"

text \<open>The values the type \<^verbatim>\<open>AnswerKey\<close> admits, and its parse: a bare question id or a qualified one.\<close>

definition valid_key_parts :: "instance_id option \<times> question_id \<Rightarrow> bool" where
  "valid_key_parts p \<longleftrightarrow> QuestionId (snd p) \<and> (\<forall>i \<in> set_option (fst p). InstanceId i)"

definition decode_answer_key :: "string \<Rightarrow> (instance_id option \<times> question_id) option" where
  "decode_answer_key k =
     (if QuestionId k \<or> InstanceAnswerKey k then Some (answerKeyParts k) else None)"

lemma question_no_separator: "QuestionId q \<Longrightarrow> CHR ''/'' \<notin> set q"
  unfolding QuestionId_def by (erule no_separator_idPattern) simp

lemma instance_no_separator: "InstanceId i \<Longrightarrow> CHR ''/'' \<notin> set i"
  unfolding InstanceId_def by (erule no_separator_idPattern) simp

lemma take_drop_separator:
  assumes "CHR ''/'' \<notin> set i"
  shows "takeWhile (\<lambda>c. c \<noteq> CHR ''/'') (i @ ''/'' @ q) = i"
    and "dropWhile (\<lambda>c. c \<noteq> CHR ''/'') (i @ ''/'' @ q) = CHR ''/'' # q"
  using assms by (induction i) auto

lemma answerKeyParts_answerKey:
  "valid_key_parts (i, q) \<Longrightarrow> answerKeyParts (answerKey q i) = (i, q)"
  by (cases i)
     (auto simp: valid_key_parts_def answerKey_def answerKeyParts_def ANSWER_KEY_SEPARATOR_def
        take_drop_separator [simplified] instance_no_separator dest: question_no_separator)

lemma answerKey_matches_pattern:
  "valid_key_parts (Some i, q) \<Longrightarrow> InstanceAnswerKey (answerKey q (Some i))"
  by (simp add: valid_key_parts_def answerKey_def ANSWER_KEY_SEPARATOR_def InstanceAnswerKey_def
      take_drop_separator [simplified] instance_no_separator Let_def)
     (simp add: InstanceId_def QuestionId_def)

lemma answerKey_answerKeyParts:
  "decode_answer_key k = Some p \<Longrightarrow> valid_key_parts p \<and> answerKey (snd p) (fst p) = k"
proof -
  assume *: "decode_answer_key k = Some p"
  show ?thesis
  proof (cases "QuestionId k")
    case True
    with * question_no_separator [OF True] show ?thesis
      by (auto simp: decode_answer_key_def answerKeyParts_def valid_key_parts_def answerKey_def)
  next
    case False
    with * have ik: "InstanceAnswerKey k" and p: "p = answerKeyParts k"
      by (auto simp: decode_answer_key_def split: if_splits)
    from ik have "\<not> list_all (\<lambda>c. c \<noteq> CHR ''/'') k"
      by (auto simp: InstanceAnswerKey_def Let_def dropWhile_eq_Nil_conv list_all_iff)
    then have "CHR ''/'' \<in> set k" by (auto simp: list_all_iff)
    then obtain i r where k: "k = i @ ''/'' @ r" and i: "CHR ''/'' \<notin> set i"
      by (auto dest!: split_list_first)
    note sp = take_drop_separator [OF i, of r]
    from ik have "InstanceId i" "QuestionId r"
      unfolding InstanceAnswerKey_def Let_def k sp InstanceId_def QuestionId_def by simp_all
    moreover have "p = (Some i, r)"
      unfolding p k answerKeyParts_def sp by simp
    ultimately show ?thesis
      by (simp add: valid_key_parts_def answerKey_def ANSWER_KEY_SEPARATOR_def k)
  qed
qed

interpretation ak: canonical_codec
  "\<lambda>(i, q). answerKey q i" decode_answer_key valid_key_parts
proof
  fix x :: "instance_id option \<times> question_id"
  assume v: "valid_key_parts x"
  obtain i q where x: "x = (i, q)" by (cases x)
  have "QuestionId (answerKey q i) \<or> InstanceAnswerKey (answerKey q i)"
  proof (cases i)
    case None
    with v x show ?thesis by (simp add: valid_key_parts_def answerKey_def)
  next
    case (Some j)
    with v x show ?thesis by (simp add: answerKey_matches_pattern)
  qed
  with v x show "decode_answer_key ((\<lambda>(i, q). answerKey q i) x) = Some x"
    by (simp add: decode_answer_key_def answerKeyParts_answerKey)
next
  fix y x
  assume "decode_answer_key y = Some x"
  then show "valid_key_parts x \<and> (\<lambda>(i, q). answerKey q i) x = y"
    by (cases x) (auto dest: answerKey_answerKeyParts)
qed

lemma answerKey_eq_iff [id_simps]:
  assumes "valid_key_parts (i, q)" "valid_key_parts (j, r)"
  shows "answerKey q i = answerKey r j \<longleftrightarrow> i = j \<and> q = r"
  using ak.enc_eq_iff [OF assms] by simp

lemma answerKey_None [simp]: "answerKey q None = q"
  by (simp add: answerKey_def)

section \<open>Localized text\<close>

text \<open>
  A record over locale codes is the list of its entries in insertion order, which is the
  order \<^verbatim>\<open>Object.entries\<close> walks.
\<close>

type_synonym locale_code = string
type_synonym localized_text = "(locale_code \<times> string) list"

definition lower_char :: "char \<Rightarrow> bool" where
  "lower_char c \<longleftrightarrow> 97 \<le> (of_char c :: nat) \<and> (of_char c :: nat) \<le> 122"

definition upper_char :: "char \<Rightarrow> bool" where
  "upper_char c \<longleftrightarrow> 65 \<le> (of_char c :: nat) \<and> (of_char c :: nat) \<le> 90"

definition LocaleCode :: "string \<Rightarrow> bool" where
  "LocaleCode s \<longleftrightarrow>
     (length s = 2 \<and> list_all lower_char s) \<or>
     (length s = 5 \<and> list_all lower_char (take 2 s) \<and> s ! 2 = CHR ''-'' \<and>
      list_all upper_char (drop 3 s))"

text \<open>What a parsed localized text satisfies: locale keys, each once, with non-empty strings.\<close>

definition LocalizedText :: "localized_text \<Rightarrow> bool" where
  "LocalizedText t \<longleftrightarrow>
     distinct (map fst t) \<and> list_all (\<lambda>(l, s). LocaleCode l \<and> s \<noteq> []) t"

definition parseLocaleCode where
  "parseLocaleCode w = parseWithCode (pattern_schema w LocaleCode) ''INVALID_LOCALE_CODE'' ''LocaleCode''"

definition isLocaleCode :: "jsval \<Rightarrow> bool" where
  "isLocaleCode = is_str_with LocaleCode"

text \<open>The record schema on an untyped value: an object of locale keys and non-empty strings.\<close>

fun text_entries :: "(string \<times> jsval) list \<Rightarrow> localized_text option" where
  "text_entries [] = Some []"
| "text_entries ((k, v) # props) =
     (case (v, text_entries props) of
        (JStr s, Some t) \<Rightarrow> if LocaleCode k \<and> 1 \<le> length s then Some ((k, s) # t) else None
      | _ \<Rightarrow> None)"

fun LocalizedText_js :: "jsval \<Rightarrow> localized_text option" where
  "LocalizedText_js (JObj props) = text_entries props"
| "LocalizedText_js _ = None"

definition parseLocalizedText where
  "parseLocalizedText w =
     parseWithCode (opt_schema w LocalizedText_js) ''INVALID_LOCALIZED_TEXT'' ''LocalizedText''"

definition isLocalizedText :: "jsval \<Rightarrow> bool" where
  "isLocalizedText v = (LocalizedText_js v \<noteq> None)"

lemma text_entries_Some:
  "text_entries props = Some t \<Longrightarrow> map fst t = map fst props \<and> list_all (\<lambda>(l, s). LocaleCode l \<and> s \<noteq> []) t"
proof (induction props arbitrary: t)
  case (Cons p props)
  then show ?case by (cases p) (auto split: jsval.splits option.splits if_splits)
qed simp

lemma LocalizedText_js_shape:
  "distinct (map fst props) \<Longrightarrow> LocalizedText_js (JObj props) = Some t \<Longrightarrow> LocalizedText t"
  by (auto simp: LocalizedText_def dest!: text_entries_Some)

definition resolveText ::
  "localized_text \<Rightarrow> locale_code \<Rightarrow> locale_code \<Rightarrow> (qcms_error, string) result" where
  "resolveText text loc defaultLocale =
     (case map_of text loc of
        Some exact \<Rightarrow> ok exact
      | None \<Rightarrow>
          (case map_of text defaultLocale of
             Some fallback \<Rightarrow> ok fallback
           | None \<Rightarrow>
               err (qcmsError ''LOCALIZED_TEXT_MISSING''
                 (''LocalizedText has no entry for \"'' @ loc @ ''\" nor default \"''
                   @ defaultLocale @ ''\"'') (Some [Key loc]))))"

definition isCompleteFor :: "localized_text \<Rightarrow> locale_code \<Rightarrow> bool" where
  "isCompleteFor text loc = (case map_of text loc of None \<Rightarrow> False | Some entry \<Rightarrow> 0 < length entry)"

lemma isCompleteFor_resolveText:
  "isCompleteFor text d \<Longrightarrow> \<exists>s. resolveText text loc d = Inr s"
  by (auto simp: isCompleteFor_def resolveText_def ok_def split: option.splits)

lemma resolveText_Inl_iff:
  "(\<exists>e. resolveText text loc d = Inl e) \<longleftrightarrow> map_of text loc = None \<and> map_of text d = None"
  by (auto simp: resolveText_def ok_def err_def split: option.splits)

end
