(* ===== verification/Answers.thy ===== *)
theory Answers
  imports Ids
begin

text \<open>
  \<^verbatim>\<open>packages/core/src/answer-value.ts\<close>: the canonical encodings of answers, their parse, the
  order the ordered operators use and the equality the value operators use.

  Unicode normalization is the host's: every definition that normalizes takes it as the
  argument \<open>nfc\<close>, of which the facts below use at most that it is idempotent.
\<close>

type_synonym normalizer = "string \<Rightarrow> string"

text \<open>
  An untagged answer by its runtime type: a string (text, date or single choice), a number,
  a boolean or an array of option ids.
\<close>

datatype answer_value =
    AText string
  | ANum jsnum
  | ABool bool
  | AMulti "option_id list"

fun av_to_js :: "answer_value \<Rightarrow> jsval" where
  "av_to_js (AText s) = JStr s"
| "av_to_js (ANum n) = JNum n"
| "av_to_js (ABool b) = JBool b"
| "av_to_js (AMulti ids) = JArr (map JStr ids)"

section \<open>Calendar dates\<close>

definition isLeapYear :: "nat \<Rightarrow> bool" where
  "isLeapYear year \<longleftrightarrow> year mod 4 = 0 \<and> (year mod 100 \<noteq> 0 \<or> year mod 400 = 0)"

definition DAYS_PER_MONTH :: "nat list" where
  "DAYS_PER_MONTH = [31, 28, 31, 30, 31, 30, 31, 31, 30, 31, 30, 31]"

definition is_digit :: "char \<Rightarrow> bool" where
  "is_digit c \<longleftrightarrow> 48 \<le> (of_char c :: nat) \<and> (of_char c :: nat) \<le> 57"

definition digit_val :: "char \<Rightarrow> nat" where
  "digit_val c = of_char c - 48"

text \<open>\<^verbatim>\<open>Number(s)\<close> on a string of decimal digits.\<close>

definition digits_val :: "string \<Rightarrow> nat" where
  "digits_val s = foldl (\<lambda>n c. 10 * n + digit_val c) 0 s"

definition js_slice :: "nat \<Rightarrow> nat \<Rightarrow> 'a list \<Rightarrow> 'a list" where
  "js_slice from to s = take (to - from) (drop from s)"

definition days_in_month :: "nat \<Rightarrow> nat \<Rightarrow> nat" where
  "days_in_month year month =
     (if month = 2 \<and> isLeapYear year then 29
      else if month - 1 < length DAYS_PER_MONTH then DAYS_PER_MONTH ! (month - 1) else 0)"

definition isRealCalendarDate :: "string \<Rightarrow> bool" where
  "isRealCalendarDate s =
     (let year = digits_val (js_slice 0 4 s);
          month = digits_val (js_slice 5 7 s);
          day = digits_val (js_slice 8 10 s) in
      if month < 1 \<or> month > 12 \<or> day < 1 then False
      else day \<le> days_in_month year month)"

definition date_shape :: "string \<Rightarrow> bool" where
  "date_shape s \<longleftrightarrow>
     length s = 10 \<and> list_all is_digit (js_slice 0 4 s) \<and> s ! 4 = CHR ''-'' \<and>
     list_all is_digit (js_slice 5 7 s) \<and> s ! 7 = CHR ''-'' \<and> list_all is_digit (js_slice 8 10 s)"

definition DateAnswerValue :: "string \<Rightarrow> bool" where
  "DateAnswerValue s \<longleftrightarrow> date_shape s \<and> isRealCalendarDate s"

section \<open>Encodings and their parse\<close>

fun TextAnswerValue :: "normalizer \<Rightarrow> jsval \<Rightarrow> string option" where
  "TextAnswerValue nfc (JStr s) = Some (nfc s)"
| "TextAnswerValue nfc _ = None"

fun NumberAnswerValue :: "jsval \<Rightarrow> jsnum option" where
  "NumberAnswerValue (JNum n) = (if num_isFinite n then Some n else None)"
| "NumberAnswerValue _ = None"

fun BooleanAnswerValue :: "jsval \<Rightarrow> bool option" where
  "BooleanAnswerValue (JBool b) = Some b"
| "BooleanAnswerValue _ = None"

definition SingleChoiceAnswerValue :: "jsval \<Rightarrow> option_id option" where
  "SingleChoiceAnswerValue = str_with OptionId"

fun parse_all :: "('a \<Rightarrow> 'b option) \<Rightarrow> 'a list \<Rightarrow> 'b list option" where
  "parse_all p [] = Some []"
| "parse_all p (x # xs) =
     (case p x of None \<Rightarrow> None | Some y \<Rightarrow> map_option ((#) y) (parse_all p xs))"

fun MultiChoiceAnswerValue :: "jsval \<Rightarrow> option_id list option" where
  "MultiChoiceAnswerValue (JArr xs) = map_option dedup (parse_all (str_with OptionId) xs)"
| "MultiChoiceAnswerValue _ = None"

fun AnswerValue :: "normalizer \<Rightarrow> jsval \<Rightarrow> answer_value option" where
  "AnswerValue nfc v =
     (case TextAnswerValue nfc v of
        Some s \<Rightarrow> Some (AText s)
      | None \<Rightarrow>
     (case NumberAnswerValue v of
        Some n \<Rightarrow> Some (ANum n)
      | None \<Rightarrow>
     (case BooleanAnswerValue v of
        Some b \<Rightarrow> Some (ABool b)
      | None \<Rightarrow> map_option AMulti (MultiChoiceAnswerValue v))))"

definition DateAnswerValue_js :: "jsval \<Rightarrow> string option" where
  "DateAnswerValue_js = str_with DateAnswerValue"

definition Comparable :: "jsval \<Rightarrow> answer_value option" where
  "Comparable v =
     (case NumberAnswerValue v of
        Some n \<Rightarrow> Some (ANum n)
      | None \<Rightarrow> map_option AText (DateAnswerValue_js v))"

definition parseTextAnswerValue where
  "parseTextAnswerValue w nfc =
     parseWithCode (opt_schema w (TextAnswerValue nfc)) ''INVALID_TEXT_ANSWER'' ''TextAnswerValue''"
definition parseNumberAnswerValue where
  "parseNumberAnswerValue w =
     parseWithCode (opt_schema w NumberAnswerValue) ''INVALID_NUMBER_ANSWER'' ''NumberAnswerValue''"
definition parseDateAnswerValue where
  "parseDateAnswerValue w =
     parseWithCode (opt_schema w DateAnswerValue_js) ''INVALID_DATE_ANSWER'' ''DateAnswerValue''"
definition parseBooleanAnswerValue where
  "parseBooleanAnswerValue w =
     parseWithCode (opt_schema w BooleanAnswerValue) ''INVALID_BOOLEAN_ANSWER'' ''BooleanAnswerValue''"
definition parseSingleChoiceAnswerValue where
  "parseSingleChoiceAnswerValue w =
     parseWithCode (opt_schema w SingleChoiceAnswerValue)
       ''INVALID_SINGLE_CHOICE_ANSWER'' ''SingleChoiceAnswerValue''"
definition parseMultiChoiceAnswerValue where
  "parseMultiChoiceAnswerValue w =
     parseWithCode (opt_schema w MultiChoiceAnswerValue)
       ''INVALID_MULTI_CHOICE_ANSWER'' ''MultiChoiceAnswerValue''"
definition parseAnswerValue where
  "parseAnswerValue w nfc =
     parseWithCode (opt_schema w (AnswerValue nfc)) ''INVALID_ANSWER_VALUE'' ''AnswerValue''"
definition parseComparable where
  "parseComparable w = parseWithCode (opt_schema w Comparable) ''INVALID_COMPARABLE'' ''Comparable''"

definition isDateAnswerValue :: "jsval \<Rightarrow> bool" where
  "isDateAnswerValue v = (DateAnswerValue_js v \<noteq> None)"

definition isAnswerValue :: "normalizer \<Rightarrow> jsval \<Rightarrow> bool" where
  "isAnswerValue nfc v = (AnswerValue nfc v \<noteq> None)"

definition isComparable :: "jsval \<Rightarrow> bool" where
  "isComparable v \<longleftrightarrow> Comparable v \<noteq> None"

section \<open>Order and equality\<close>

datatype ordering = Less | Same | Greater

instantiation ordering :: linorder
begin

definition less_eq_ordering :: "ordering \<Rightarrow> ordering \<Rightarrow> bool" where
  "less_eq_ordering a b \<longleftrightarrow> a = b \<or> a = Less \<or> b = Greater"

definition less_ordering :: "ordering \<Rightarrow> ordering \<Rightarrow> bool" where
  "less_ordering a b \<longleftrightarrow> a \<le> b \<and> a \<noteq> b"

instance
proof
  fix x y z :: ordering
  show "x < y \<longleftrightarrow> x \<le> y \<and> \<not> y \<le> x"
    by (cases x; cases y) (auto simp: less_eq_ordering_def less_ordering_def)
  show "x \<le> x" by (simp add: less_eq_ordering_def)
  show "x \<le> y \<Longrightarrow> y \<le> z \<Longrightarrow> x \<le> z"
    by (cases x; cases y; cases z) (auto simp: less_eq_ordering_def)
  show "x \<le> y \<Longrightarrow> y \<le> x \<Longrightarrow> x = y"
    by (cases x; cases y) (auto simp: less_eq_ordering_def)
  show "x \<le> y \<or> y \<le> x"
    by (cases x; cases y) (auto simp: less_eq_ordering_def)
qed

end

lemma ordering_cmp_simps [simp]:
  "Same < o' \<longleftrightarrow> o' = Greater" "o' < Same \<longleftrightarrow> o' = Less"
  "Same \<le> o' \<longleftrightarrow> o' \<noteq> Less" "o' \<le> Same \<longleftrightarrow> o' \<noteq> Greater"
  by (cases o'; simp add: less_ordering_def less_eq_ordering_def)+

text \<open>\<^verbatim>\<open>orderingOf\<close> over a strict order of its operands.\<close>

definition orderingOf :: "('a \<Rightarrow> 'a \<Rightarrow> bool) \<Rightarrow> 'a \<Rightarrow> 'a \<Rightarrow> ordering" where
  "orderingOf lt a b = (if lt a b then Less else if lt b a then Greater else Same)"

datatype comparable_kind = KNumber | KDate

definition comparableKind :: "answer_value \<Rightarrow> comparable_kind option" where
  "comparableKind value =
     (if \<not> isComparable (av_to_js value) then None
      else Some (case value of ANum _ \<Rightarrow> KNumber | _ \<Rightarrow> KDate))"

fun kind_name :: "comparable_kind \<Rightarrow> string" where
  "kind_name KNumber = ''number''"
| "kind_name KDate = ''date''"

definition not_comparable :: "string \<Rightarrow> qcms_error" where
  "not_comparable message = qcmsError ''NOT_COMPARABLE'' message None"

definition compareValues :: "answer_value \<Rightarrow> answer_value \<Rightarrow> (qcms_error, ordering) result" where
  "compareValues a b =
     (case (a, b) of
        (ANum m, ANum n) \<Rightarrow>
          if \<not> num_isFinite m \<or> \<not> num_isFinite n
          then err (not_comparable ''Numbers must be finite to be ordered'')
          else ok (orderingOf num_lt m n)
      | (AText s, AText t) \<Rightarrow>
          if \<not> DateAnswerValue s \<or> \<not> DateAnswerValue t
          then err (not_comparable ''Strings are ordered only as canonical YYYY-MM-DD dates'')
          else ok (orderingOf str_lt s t)
      | _ \<Rightarrow>
          (case (comparableKind a, comparableKind b) of
             (Some k, Some l) \<Rightarrow>
               err (qcmsError ''COMPARE_TYPE_MISMATCH''
                 (''Cannot order '' @ kind_name k @ '' against '' @ kind_name l) None)
           | _ \<Rightarrow>
               err (not_comparable
                 ''Both operands must be finite numbers or canonical YYYY-MM-DD dates'')))"

definition isBlankAnswerValue :: "answer_value \<Rightarrow> bool" where
  "isBlankAnswerValue value = (case value of AText s \<Rightarrow> js_trim s = [] | _ \<Rightarrow> False)"

definition valuesEqual :: "normalizer \<Rightarrow> answer_value \<Rightarrow> answer_value \<Rightarrow> bool" where
  "valuesEqual nfc a b =
     (case (a, b) of
        (AMulti xs, AMulti ys) \<Rightarrow>
          let setA = dedup xs; setB = dedup ys in
          if length setA \<noteq> length setB then False
          else list_all (\<lambda>i. i \<in> set setB) setA
      | (AMulti _, _) \<Rightarrow> False
      | (_, AMulti _) \<Rightarrow> False
      | (AText s, AText t) \<Rightarrow> nfc s = nfc t
      | (ANum m, ANum n) \<Rightarrow> num_eq m n
      | (ABool p, ABool q) \<Rightarrow> p = q
      | _ \<Rightarrow> False)"

section \<open>Facts on the parse\<close>

lemma parse_all_Some_iff:
  "parse_all p xs = Some ys \<longleftrightarrow> list_all2 (\<lambda>x y. p x = Some y) xs ys"
  by (induction xs arbitrary: ys) (auto simp: list_all2_Cons1 split: option.splits)

lemma parse_all_JStr [simp]:
  "parse_all (str_with p) (map JStr ys) = (if list_all p ys then Some ys else None)"
  by (induction ys) auto

lemma parse_all_str_with_iff:
  "parse_all (str_with p) xs = Some ys \<longleftrightarrow> xs = map JStr ys \<and> list_all p ys"
proof
  assume *: "parse_all (str_with p) xs = Some ys"
  then show "xs = map JStr ys \<and> list_all p ys"
    by (induction xs arbitrary: ys) (auto split: option.splits)
qed auto

lemma MultiChoiceAnswerValue_iff:
  "MultiChoiceAnswerValue v = Some ids \<longleftrightarrow>
     (\<exists>raw. v = JArr (map JStr raw) \<and> list_all OptionId raw \<and> ids = dedup raw)"
  by (cases v) (auto simp: parse_all_str_with_iff)

text \<open>The canonical values are the fixed points of the parse.\<close>

definition canonical_value :: "normalizer \<Rightarrow> answer_value \<Rightarrow> bool" where
  "canonical_value nfc v =
     (case v of
        AText s \<Rightarrow> nfc s = s
      | ANum n \<Rightarrow> num_isFinite n
      | ABool _ \<Rightarrow> True
      | AMulti ids \<Rightarrow> distinct ids \<and> list_all OptionId ids)"

lemma canonical_value_fixed: "canonical_value nfc v \<longleftrightarrow> AnswerValue nfc (av_to_js v) = Some v"
proof (cases v)
  case (AMulti ids)
  have "dedup ids = ids \<longleftrightarrow> distinct ids" by (metis dedup_distinct_id distinct_dedup)
  with AMulti show ?thesis by (auto simp: canonical_value_def)
qed (auto simp: canonical_value_def)

lemma AnswerValue_canonical:
  assumes "AnswerValue nfc j = Some v" and nfc: "\<And>s. nfc (nfc s) = nfc s"
  shows "canonical_value nfc v"
  using assms(1)
  by (cases j) (auto simp: canonical_value_def nfc parse_all_str_with_iff list_all_iff split: if_splits)

lemma AnswerValue_cases:
  "AnswerValue nfc (JStr s) = Some (AText (nfc s))"
  "AnswerValue nfc (JBool b) = Some (ABool b)"
  "AnswerValue nfc (JNum n) = (if num_isFinite n then Some (ANum n) else None)"
  "AnswerValue nfc (JArr xs) = map_option AMulti (MultiChoiceAnswerValue (JArr xs))"
  "AnswerValue nfc (JObj fs) = None" "AnswerValue nfc JNull = None" "AnswerValue nfc JUndefined = None"
  by auto

declare AnswerValue.simps [simp del] AnswerValue_cases [simp]

section \<open>Facts on equality\<close>

lemma length_dedup_card: "length (dedup xs) = card (set xs)"
  by (metis distinct_card distinct_dedup set_dedup)

lemma valuesEqual_AMulti [simp]: "valuesEqual nfc (AMulti xs) (AMulti ys) \<longleftrightarrow> set xs = set ys"
  by (auto simp: valuesEqual_def Let_def length_dedup_card list_all_iff)
     (metis List.finite_set card_subset_eq subsetD subsetI)

lemma valuesEqual_simps [simp]:
  "valuesEqual nfc (AText s) (AText t) \<longleftrightarrow> nfc s = nfc t"
  "valuesEqual nfc (ANum m) (ANum n) \<longleftrightarrow> num_eq m n"
  "valuesEqual nfc (ABool p) (ABool q) \<longleftrightarrow> p = q"
  "\<not> valuesEqual nfc (AText s) (ANum n)" "\<not> valuesEqual nfc (AText s) (ABool b)"
  "\<not> valuesEqual nfc (AText s) (AMulti xs)" "\<not> valuesEqual nfc (ANum n) (AText s)"
  "\<not> valuesEqual nfc (ANum n) (ABool b)" "\<not> valuesEqual nfc (ANum n) (AMulti xs)"
  "\<not> valuesEqual nfc (ABool b) (AText s)" "\<not> valuesEqual nfc (ABool b) (ANum n)"
  "\<not> valuesEqual nfc (ABool b) (AMulti xs)" "\<not> valuesEqual nfc (AMulti xs) (AText s)"
  "\<not> valuesEqual nfc (AMulti xs) (ANum n)" "\<not> valuesEqual nfc (AMulti xs) (ABool b)"
  by (simp_all add: valuesEqual_def)

lemma valuesEqual_sym: "valuesEqual nfc a b = valuesEqual nfc b a"
  by (cases a; cases b) (auto simp: num_eq_sym)

lemma valuesEqual_trans: "valuesEqual nfc a b \<Longrightarrow> valuesEqual nfc b c \<Longrightarrow> valuesEqual nfc a c"
  by (cases a; cases b; cases c) (auto intro: num_eq_trans)

lemma valuesEqual_refl_iff: "valuesEqual nfc a a \<longleftrightarrow> a \<noteq> ANum NaN"
  by (cases a) (auto simp: num_eq_refl)

section \<open>Facts on order\<close>

lemma digits_val_Cons:
  "digits_val (c # cs) = digit_val c * 10 ^ length cs + digits_val cs"
proof -
  have gen: "foldl (\<lambda>n c. 10 * n + digit_val c) k cs
      = k * 10 ^ length cs + foldl (\<lambda>n c. 10 * n + digit_val c) 0 cs" for k
  proof (induction cs arbitrary: k)
    case (Cons d ds)
    have "foldl (\<lambda>n c. 10 * n + digit_val c) k (d # ds)
        = (10 * k + digit_val d) * 10 ^ length ds + foldl (\<lambda>n c. 10 * n + digit_val c) 0 ds"
      using Cons [of "10 * k + digit_val d"] by simp
    moreover have "foldl (\<lambda>n c. 10 * n + digit_val c) 0 (d # ds)
        = digit_val d * 10 ^ length ds + foldl (\<lambda>n c. 10 * n + digit_val c) 0 ds"
      using Cons [of "digit_val d"] by simp
    ultimately show ?case by (simp add: algebra_simps)
  qed simp
  show ?thesis using gen [of "digit_val c"] by (simp add: digits_val_def)
qed

lemma digit_val_le: "is_digit c \<Longrightarrow> digit_val c \<le> 9"
  by (auto simp: is_digit_def digit_val_def)

lemma digits_val_bound: "list_all is_digit cs \<Longrightarrow> digits_val cs < 10 ^ length cs"
proof (induction cs)
  case (Cons c cs)
  then have "digit_val c * 10 ^ length cs \<le> 9 * 10 ^ length cs" "digits_val cs < 10 ^ length cs"
    by (simp_all add: digit_val_le)
  moreover have "(10 :: nat) ^ length (c # cs) = 9 * 10 ^ length cs + 10 ^ length cs" by simp
  ultimately show ?case unfolding digits_val_Cons by linarith
qed (simp add: digits_val_def)

text \<open>On digit strings of one length the string order is the numeric order.\<close>

lemma str_lt_digits:
  "length s = length t \<Longrightarrow> list_all is_digit s \<Longrightarrow> list_all is_digit t \<Longrightarrow>
     str_lt s t \<longleftrightarrow> digits_val s < digits_val t"
proof (induction s t rule: list_induct2)
  case (Cons a as b bs)
  have bounds: "digits_val as < 10 ^ length as" "digits_val bs < 10 ^ length as"
    using Cons digits_val_bound [of as] digits_val_bound [of bs] by simp_all
  have step: "x * P + u < y * P + v" if "x < y" "u < P" for x y u v P :: nat
  proof -
    from that(1) have "Suc x * P \<le> y * P" by (intro mult_le_mono1) simp
    with that(2) show ?thesis by simp
  qed
  have vals: "digit_val a = of_char a - 48" "digit_val b = of_char b - 48"
    "48 \<le> (of_char a :: nat)" "48 \<le> (of_char b :: nat)"
    using Cons.prems by (auto simp: digit_val_def is_digit_def)
  consider "(of_char a :: nat) < of_char b" | "(of_char b :: nat) < of_char a"
    | "(of_char a :: nat) = of_char b" by linarith
  then show ?case
  proof cases
    case 1
    with vals have "digit_val a < digit_val b" by arith
    from step [OF this bounds(1), of "digits_val bs"] 1 Cons.hyps show ?thesis
      by (simp add: digits_val_Cons)
  next
    case 2
    with vals have "digit_val b < digit_val a" by arith
    from step [OF this bounds(2), of "digits_val as"] 2 Cons.hyps show ?thesis
      by (simp add: digits_val_Cons)
  next
    case 3
    with Cons show ?thesis by (simp add: digits_val_Cons digit_val_def)
  qed
qed simp

lemma digits_val_inj:
  "length s = length t \<Longrightarrow> list_all is_digit s \<Longrightarrow> list_all is_digit t \<Longrightarrow>
     digits_val s = digits_val t \<Longrightarrow> s = t"
  using str_lt_digits [of s t] str_lt_digits [of t s] str_lt_total [of s t] by auto

lemma str_lt_append:
  "length a = length c \<Longrightarrow> str_lt (a @ b) (c @ d) \<longleftrightarrow> str_lt a c \<or> (a = c \<and> str_lt b d)"
  by (induction a c rule: list_induct2) (auto simp: of_char_eq_iff)

text \<open>The three fields of a date, and the split of a date into them.\<close>

definition date_year :: "string \<Rightarrow> nat" where "date_year s = digits_val (js_slice 0 4 s)"
definition date_month :: "string \<Rightarrow> nat" where "date_month s = digits_val (js_slice 5 7 s)"
definition date_day :: "string \<Rightarrow> nat" where "date_day s = digits_val (js_slice 8 10 s)"

lemma date_shape_split:
  assumes "date_shape s"
  obtains y m d where "s = y @ ''-'' @ m @ ''-'' @ d" "length y = 4" "length m = 2" "length d = 2"
    "list_all is_digit y" "list_all is_digit m" "list_all is_digit d"
    "date_year s = digits_val y" "date_month s = digits_val m" "date_day s = digits_val d"
proof -
  from assms have "length s = 10" by (simp add: date_shape_def)
  then obtain a b c d e f g h i j where "s = [a, b, c, d, e, f, g, h, i, j]"
    by (auto simp: eval_nat_numeral length_Suc_conv)
  with assms that [of "[a, b, c, d]" "[f, g]" "[i, j]"] show thesis
    by (simp add: date_shape_def js_slice_def date_year_def date_month_def date_day_def)
qed

lemma str_lt_date:
  assumes "date_shape s" "date_shape t"
  shows "str_lt s t \<longleftrightarrow>
     date_year s < date_year t \<or> (date_year s = date_year t \<and>
      (date_month s < date_month t \<or> (date_month s = date_month t \<and> date_day s < date_day t)))"
proof -
  obtain y m d where s: "s = y @ ''-'' @ m @ ''-'' @ d" "length y = 4" "length m = 2" "length d = 2"
    "list_all is_digit y" "list_all is_digit m" "list_all is_digit d"
    "date_year s = digits_val y" "date_month s = digits_val m" "date_day s = digits_val d"
    using assms(1) by (rule date_shape_split)
  obtain y' m' d' where t: "t = y' @ ''-'' @ m' @ ''-'' @ d'" "length y' = 4" "length m' = 2"
    "length d' = 2" "list_all is_digit y'" "list_all is_digit m'" "list_all is_digit d'"
    "date_year t = digits_val y'" "date_month t = digits_val m'" "date_day t = digits_val d'"
    using assms(2) by (rule date_shape_split)
  have "str_lt s t \<longleftrightarrow> str_lt y y' \<or> (y = y' \<and> (str_lt m m' \<or> (m = m' \<and> str_lt d d')))"
    unfolding s(1) t(1) using s(2-4) t(2-4) by (simp add: str_lt_append)
  then show ?thesis
    using str_lt_digits [of y y'] str_lt_digits [of m m'] str_lt_digits [of d d']
      digits_val_inj [of y y'] digits_val_inj [of m m'] s t by auto
qed

lemma compareValues_dates:
  "DateAnswerValue s \<Longrightarrow> DateAnswerValue t \<Longrightarrow>
     compareValues (AText s) (AText t) = Inr (orderingOf str_lt s t)"
  by (simp add: compareValues_def ok_def)

lemma compareValues_numbers:
  "num_isFinite m \<Longrightarrow> num_isFinite n \<Longrightarrow>
     compareValues (ANum m) (ANum n) = Inr (orderingOf num_lt m n)"
  by (simp add: compareValues_def ok_def)

lemma isComparable_av:
  "isComparable (av_to_js v) \<longleftrightarrow>
     (case v of ANum n \<Rightarrow> num_isFinite n | AText s \<Rightarrow> DateAnswerValue s | _ \<Rightarrow> False)"
  by (cases v) (auto simp: isComparable_def Comparable_def DateAnswerValue_js_def)

text \<open>Ordering never fails on two values of one comparable kind, and fails on all others.\<close>

lemma compareValues_Inr_iff:
  "(\<exists>r. compareValues a b = Inr r) \<longleftrightarrow>
     (case (a, b) of
        (ANum m, ANum n) \<Rightarrow> num_isFinite m \<and> num_isFinite n
      | (AText s, AText t) \<Rightarrow> DateAnswerValue s \<and> DateAnswerValue t
      | _ \<Rightarrow> False)"
  by (cases a; cases b) (auto simp: compareValues_def ok_def err_def split: option.splits)

definition flip_ordering :: "ordering \<Rightarrow> ordering" where
  "flip_ordering r = (case r of Less \<Rightarrow> Greater | Same \<Rightarrow> Same | Greater \<Rightarrow> Less)"

lemma compareValues_flip:
  "compareValues a b = Inr r \<Longrightarrow> compareValues b a = Inr (flip_ordering r)"
  by (cases a; cases b)
     (auto simp: compareValues_def ok_def err_def orderingOf_def flip_ordering_def
        split: option.splits if_splits dest: num_lt_asym str_lt_asym)

lemma num_lt_trans: "num_lt a b \<Longrightarrow> num_lt b c \<Longrightarrow> num_lt a c"
  by (cases a; cases b; cases c) auto

lemma compareValues_Less_trans:
  "compareValues a b = Inr Less \<Longrightarrow> compareValues b c = Inr Less \<Longrightarrow> compareValues a c = Inr Less"
  by (cases a; cases b; cases c)
     (auto simp: compareValues_def ok_def err_def orderingOf_def
        split: option.splits if_splits intro: num_lt_trans str_lt_trans)

lemma compareValues_Same_eq:
  "compareValues a b = Inr Same \<Longrightarrow> a = b"
  by (cases a; cases b)
     (auto simp: compareValues_def ok_def err_def orderingOf_def
        split: option.splits if_splits dest: str_lt_total num_finite_trichotomy
        elim!: num_eq.elims)

end
