(* ===== verification/Csv.thy ===== *)
theory Csv
  imports Answers
begin

text \<open>
  \<^verbatim>\<open>packages/csv/src/index.ts\<close> and \<^verbatim>\<open>file-name.ts\<close>: one field of a CSV export under its two
  quoting policies, behind the guard against formulas, and the name an export downloads under.
\<close>

section \<open>Fields\<close>

definition FORMULA_LEAD :: "string \<Rightarrow> bool" where
  "FORMULA_LEAD s \<longleftrightarrow>
     s \<noteq> [] \<and> hd s \<in> {CHR ''='', CHR ''+'', CHR ''-'', CHR ''@'', CHR 0x09, CHR 0x0D}"

definition MUST_QUOTE :: "string \<Rightarrow> bool" where
  "MUST_QUOTE s \<longleftrightarrow> list_ex (\<lambda>c. c \<in> {CHR 0x22, CHR '','', CHR 0x0D, CHR 0x0A}) s"

definition NUMERIC_LITERAL :: "string \<Rightarrow> bool" where
  "NUMERIC_LITERAL s \<longleftrightarrow>
     (let digits = (if s \<noteq> [] \<and> hd s = CHR ''-'' then tl s else s); rest = dropWhile is_digit digits in
      takeWhile is_digit digits \<noteq> [] \<and>
      (rest = [] \<or> (hd rest = CHR ''.'' \<and> tl rest \<noteq> [] \<and> list_all is_digit (tl rest))))"

definition guardFormulaLead :: "string \<Rightarrow> string" where
  "guardFormulaLead value =
     (if \<not> FORMULA_LEAD value then value
      else if NUMERIC_LITERAL value then value else CHR 0x27 # value)"

definition double_quote :: "char \<Rightarrow> string" where
  "double_quote c = (if c = CHR 0x22 then [CHR 0x22, CHR 0x22] else [c])"

definition quote :: "string \<Rightarrow> string" where
  "quote value = CHR 0x22 # concat (map double_quote value) @ [CHR 0x22]"

definition csvField :: "string \<Rightarrow> string" where
  "csvField value =
     (let guarded = guardFormulaLead value in if MUST_QUOTE guarded then quote guarded else guarded)"

definition csvFieldAlwaysQuoted :: "string \<Rightarrow> string" where
  "csvFieldAlwaysQuoted value = quote (guardFormulaLead value)"

section \<open>File names\<close>

datatype export_extension = ExtCsv | ExtZip | ExtJson

fun extension_text :: "export_extension \<Rightarrow> string" where
  "extension_text ExtCsv = ''csv''" | "extension_text ExtZip = ''zip''" | "extension_text ExtJson = ''json''"

record export_name =
  ex_formId :: string
  ex_environment :: string
  ex_version :: "nat option"
  ex_extension :: export_extension

definition responseExportFileName :: "export_name \<Rightarrow> string" where
  "responseExportFileName input =
     ex_formId input @ ''-'' @ ex_environment input
     @ (case ex_version input of None \<Rightarrow> [] | Some v \<Rightarrow> ''-v'' @ nat_digits v)
     @ ''-responses.'' @ extension_text (ex_extension input)"

section \<open>Reading a field back\<close>

text \<open>A reader after RFC 4180: a field is quoted, a doubled quote being one, or runs to a separator.\<close>

fun read_quoted :: "string \<Rightarrow> (string \<times> string) option" where
  "read_quoted [] = None"
| "read_quoted (c # cs) =
     (if c = CHR 0x22 then
        (case cs of
           d # ds \<Rightarrow> if d = CHR 0x22 then map_option (\<lambda>(f, rest). (CHR 0x22 # f, rest)) (read_quoted ds) else Some ([], cs)
         | [] \<Rightarrow> Some ([], []))
      else map_option (\<lambda>(f, rest). (c # f, rest)) (read_quoted cs))"

definition csv_separator :: "char \<Rightarrow> bool" where
  "csv_separator c \<longleftrightarrow> c \<in> {CHR '','', CHR 0x0D, CHR 0x0A}"

definition read_field :: "string \<Rightarrow> (string \<times> string) option" where
  "read_field s =
     (if s \<noteq> [] \<and> hd s = CHR 0x22 then read_quoted (tl s)
      else Some (takeWhile (\<lambda>c. \<not> csv_separator c) s, dropWhile (\<lambda>c. \<not> csv_separator c) s))"

fun read_row :: "nat \<Rightarrow> string \<Rightarrow> string list option" where
  "read_row 0 s = None"
| "read_row (Suc n) s =
     (case read_field s of
        None \<Rightarrow> None
      | Some (f, rest) \<Rightarrow>
          if rest = [] then Some [f]
          else if hd rest = CHR '','' then map_option ((#) f) (read_row n (tl rest)) else None)"

definition field_end :: "string \<Rightarrow> bool" where
  "field_end rest \<longleftrightarrow> rest = [] \<or> csv_separator (hd rest)"

lemma read_quoted_doubled:
  "field_end rest \<Longrightarrow> read_quoted (concat (map double_quote s) @ CHR 0x22 # rest) = Some (s, rest)"
proof (induction s)
  case Nil
  then show ?case by (cases rest) (auto simp: field_end_def csv_separator_def)
qed (auto simp: double_quote_def)

lemma read_field_quote: "field_end rest \<Longrightarrow> read_field (quote s @ rest) = Some (s, rest)"
  by (simp add: read_field_def quote_def read_quoted_doubled)

lemma read_field_bare:
  assumes "\<not> MUST_QUOTE s" "field_end rest"
  shows "read_field (s @ rest) = Some (s, rest)"
proof -
  have plain: "\<forall>c \<in> set s. \<not> csv_separator c" "CHR 0x22 \<notin> set s"
    using assms(1) by (auto simp: MUST_QUOTE_def list_ex_iff csv_separator_def)
  have "takeWhile (\<lambda>c. \<not> csv_separator c) rest = []" "dropWhile (\<lambda>c. \<not> csv_separator c) rest = rest"
    using assms(2) by (cases rest; simp add: field_end_def)+
  moreover have "\<not> (s @ rest \<noteq> [] \<and> hd (s @ rest) = CHR 0x22)"
  proof (cases s)
    case Nil
    with assms(2) show ?thesis by (cases rest) (auto simp: field_end_def csv_separator_def)
  qed (use plain in auto)
  ultimately show ?thesis using plain(1) by (auto simp: read_field_def takeWhile_append dropWhile_append)
qed

lemma read_csvField:
  assumes "field_end rest"
  shows "read_field (csvField v @ rest) = Some (guardFormulaLead v, rest)"
    "read_field (csvFieldAlwaysQuoted v @ rest) = Some (guardFormulaLead v, rest)"
  using assms by (simp_all add: csvField_def csvFieldAlwaysQuoted_def Let_def read_field_quote read_field_bare)

text \<open>A row of fields, under either policy or a mixture.\<close>

lemma read_row_fields:
  assumes "\<And>v rest. field_end rest \<Longrightarrow> read_field (emit v @ rest) = Some (guardFormulaLead v, rest)"
  shows "length vs \<le> n \<Longrightarrow> vs \<noteq> [] \<Longrightarrow>
    read_row n (js_join '','' (map emit vs)) = Some (map guardFormulaLead vs)"
proof (induction vs arbitrary: n)
  case (Cons v vs)
  from Cons.prems obtain m where n: "n = Suc m" "length vs \<le> m" by (cases n) auto
  show ?case
  proof (cases vs)
    case Nil
    with assms [of "[]" v] n show ?thesis by (simp add: field_end_def)
  next
    case (Cons w ws)
    let ?rest = "js_join '','' (map emit vs)"
    have "field_end (CHR '','' # ?rest)" by (simp add: field_end_def csv_separator_def)
    from assms [OF this, of v] Cons.IH [OF n(2)] Cons n(1) \<open>vs = w # ws\<close> show ?thesis by simp
  qed
qed simp

section \<open>The guard\<close>

lemma guard_inert:
  "guardFormulaLead v = v \<or> guardFormulaLead v = CHR 0x27 # v"
  "FORMULA_LEAD (guardFormulaLead v) \<longrightarrow> guardFormulaLead v = v \<and> NUMERIC_LITERAL v"
  by (auto simp: guardFormulaLead_def FORMULA_LEAD_def)

lemma numeric_lead: "NUMERIC_LITERAL v \<Longrightarrow> FORMULA_LEAD v \<Longrightarrow> hd v = CHR ''-''"
  by (cases v) (auto simp: NUMERIC_LITERAL_def FORMULA_LEAD_def Let_def is_digit_def split: if_splits)

end
