(* ===== verification/AccessPolicy.thy ===== *)
theory AccessPolicy
  imports QcmsPrelude
begin

text \<open>
  \<^verbatim>\<open>features/membership/policy.ts\<close> of the API: the closed vocabulary of resources and
  actions, the six roles and the three emptied ones, the scope of a grant, and the decision
  whether one of the grants a caller holds covers an act. The library that declares roles
  is outside the repository: \<^verbatim>\<open>authorize\<close> is an argument of every definition that asks it,
  and \<^verbatim>\<open>authorize_law\<close> is what its documentation says of it.
\<close>

section \<open>Resources, actions and roles\<close>

datatype resource = RsQuestion | RsForm | RsRelease | RsLink | RsWebhook | RsResponse
  | RsMembership | RsWorkspace | RsAudit

fun resource_name :: "resource \<Rightarrow> string" where
  "resource_name RsQuestion = ''question''"
| "resource_name RsForm = ''form''"
| "resource_name RsRelease = ''release''"
| "resource_name RsLink = ''link''"
| "resource_name RsWebhook = ''webhook''"
| "resource_name RsResponse = ''response''"
| "resource_name RsMembership = ''membership''"
| "resource_name RsWorkspace = ''workspace''"
| "resource_name RsAudit = ''audit''"

definition RESOURCES :: "resource list" where
  "RESOURCES = [RsQuestion, RsForm, RsRelease, RsLink, RsWebhook, RsResponse,
     RsMembership, RsWorkspace, RsAudit]"

fun ACTIONS :: "resource \<Rightarrow> string list" where
  "ACTIONS RsQuestion = [''read'', ''write'']"
| "ACTIONS RsForm = [''read'', ''write'', ''publish'', ''preview'', ''close'']"
| "ACTIONS RsRelease = [''read'', ''create'']"
| "ACTIONS RsLink = [''read'', ''mint'', ''revoke'']"
| "ACTIONS RsWebhook = [''read'', ''configure'']"
| "ACTIONS RsResponse = [''read'', ''export'', ''erase'', ''dispose'', ''history'']"
| "ACTIONS RsMembership = [''read'', ''write'']"
| "ACTIONS RsWorkspace = [''read'', ''update'', ''archive'']"
| "ACTIONS RsAudit = [''read'']"

text \<open>The statements a role is declared with, and what the library promises of asking a role.\<close>

type_synonym statements = "(resource \<times> string list) list"
type_synonym authorizer = "statements \<Rightarrow> resource \<Rightarrow> string \<Rightarrow> bool"

definition authorize_law :: "authorizer \<Rightarrow> bool" where
  "authorize_law authorize \<longleftrightarrow> (\<forall>st r a. authorize st r a \<longleftrightarrow>
     (\<exists>acts. map_of st r = Some acts \<and> a \<in> set acts))"

definition formsViewer :: statements where
  "formsViewer =
    [(RsQuestion, [''read'']), (RsForm, [''read'']), (RsRelease, [''read'']),
     (RsLink, [''read'']), (RsWebhook, [''read''])]"

definition formsEditor :: statements where
  "formsEditor =
    [(RsQuestion, [''read'', ''write'']),
     (RsForm, [''read'', ''write'', ''publish'', ''preview'', ''close'']),
     (RsRelease, [''read'', ''create'']),
     (RsLink, [''read'', ''mint'', ''revoke'']),
     (RsWebhook, [''read'', ''configure''])]"

definition formsApprover :: statements where
  "formsApprover =
    [(RsQuestion, [''read'']), (RsForm, [''read'', ''close'']),
     (RsRelease, [''read'', ''create'']),
     (RsLink, [''read'', ''mint'', ''revoke'']),
     (RsWebhook, [''read'', ''configure''])]"

definition formsOwner :: statements where
  "formsOwner =
    [(RsMembership, [''read'', ''write'']), (RsWorkspace, [''read'', ''update'', ''archive'']),
     (RsAudit, [''read''])]"

definition responsesViewer :: statements where
  "responsesViewer = [(RsResponse, [''read'', ''export''])]"

definition responsesEraser :: statements where
  "responsesEraser = [(RsResponse, [''erase'', ''dispose''])]"

text \<open>The keys of the library's own resources are not requests this type can make.\<close>

definition emptyStatements :: statements where
  "emptyStatements = map (\<lambda>r. (r, [])) RESOURCES"

definition role_table :: "(string \<times> statements) list" where
  "role_table =
    [(''forms.viewer'', formsViewer), (''forms.editor'', formsEditor),
     (''forms.approver'', formsApprover), (''forms.owner'', formsOwner),
     (''responses.viewer'', responsesViewer), (''responses.eraser'', responsesEraser),
     (''admin'', emptyStatements), (''member'', emptyStatements), (''owner'', emptyStatements)]"

definition ROLE_NAMES :: "string list" where
  "ROLE_NAMES = [''forms.viewer'', ''forms.editor'', ''forms.approver'', ''forms.owner'',
     ''responses.viewer'', ''responses.eraser'']"

definition EMPTY_ROLE_NAMES :: "string list" where
  "EMPTY_ROLE_NAMES = [''admin'', ''member'', ''owner'']"

definition PRODUCTION_ENVIRONMENT :: string where
  "PRODUCTION_ENVIRONMENT = ''prod''"

text \<open>
  \<^verbatim>\<open>declared[name]\<close> on a plain object: a role of the table, nothing, or one of the names
  every object inherits, whose value has no \<^verbatim>\<open>authorize\<close>, so that calling it throws.
\<close>

datatype declared = Declares statements | Inherits | Undeclared

definition OBJECT_PROTOTYPE :: "string list" where
  "OBJECT_PROTOTYPE = [''constructor'', ''__defineGetter__'', ''__defineSetter__'',
     ''hasOwnProperty'', ''__lookupGetter__'', ''__lookupSetter__'', ''isPrototypeOf'',
     ''propertyIsEnumerable'', ''toString'', ''valueOf'', ''__proto__'', ''toLocaleString'']"

definition declared_role :: "string \<Rightarrow> declared" where
  "declared_role name = (case map_of role_table name of
     Some st \<Rightarrow> Declares st
   | None \<Rightarrow> if name \<in> set OBJECT_PROTOTYPE then Inherits else Undeclared)"

section \<open>Scopes\<close>

definition ENVIRONMENT_SCOPED :: "string list" where
  "ENVIRONMENT_SCOPED = [''form:close'', ''release:create'', ''link:mint'', ''link:revoke'',
     ''webhook:configure'', ''response:read'', ''response:export'', ''response:erase'',
     ''response:dispose'']"

definition FORM_SCOPED :: "string list" where
  "FORM_SCOPED = [''response:read'', ''response:export'', ''response:erase'', ''response:dispose'']"

definition FORMS_FAMILY_RESOURCES :: "resource list" where
  "FORMS_FAMILY_RESOURCES = [RsQuestion, RsForm, RsRelease, RsLink, RsWebhook]"

definition isEnvironmentScoped :: "resource \<Rightarrow> string \<Rightarrow> bool" where
  "isEnvironmentScoped resource action \<longleftrightarrow>
     resource_name resource @ '':'' @ action \<in> set ENVIRONMENT_SCOPED"

definition isFormScoped :: "resource \<Rightarrow> string \<Rightarrow> bool" where
  "isFormScoped resource action \<longleftrightarrow>
     resource_name resource @ '':'' @ action \<in> set FORM_SCOPED"

record held_grant =
  hg_role :: string
  hg_environments :: "string list"
  hg_forms :: "string list"
  hg_name :: "string option"

record access_request =
  rq_resource :: resource
  rq_action :: string
  rq_environment :: "string option"
  rq_formId :: "string option"

record access_decision =
  allowed :: bool
  dc_role :: "string option"
  dc_name :: "string option"
  dc_reason :: "string option"

definition SCOPE_ALL :: string where
  "SCOPE_ALL = ''all''"

definition scopeAllows :: "string list \<Rightarrow> string option \<Rightarrow> bool" where
  "scopeAllows scope value \<longleftrightarrow> (length scope = 1 \<and> scope ! 0 = SCOPE_ALL) \<or>
     (case value of None \<Rightarrow> False | Some v \<Rightarrow> v \<in> set scope)"

section \<open>The decision\<close>

datatype thrown = TypeErrorThrown

definition grantAllows :: "authorizer \<Rightarrow> held_grant \<Rightarrow> access_request \<Rightarrow> thrown + bool" where
  "grantAllows authorize grant request = (case declared_role (hg_role grant) of
     Undeclared \<Rightarrow> Inr False
   | Inherits \<Rightarrow> Inl TypeErrorThrown
   | Declares st \<Rightarrow> Inr (
       if \<not> authorize st (rq_resource request) (rq_action request) then False
       else if isEnvironmentScoped (rq_resource request) (rq_action request) \<and>
          (rq_environment request = None \<or>
           \<not> scopeAllows (hg_environments grant) (rq_environment request)) then False
       else if isFormScoped (rq_resource request) (rq_action request) \<and>
          (rq_formId request = None \<or> \<not> scopeAllows (hg_forms grant) (rq_formId request)) then False
       else if rq_environment request = Some PRODUCTION_ENVIRONMENT \<and>
          isEnvironmentScoped (rq_resource request) (rq_action request) \<and>
          rq_resource request \<in> set FORMS_FAMILY_RESOURCES \<and>
          hg_role grant \<noteq> ''forms.approver'' then False
       else True))"

definition refusalReason :: "access_request \<Rightarrow> string" where
  "refusalReason request =
    (let whr = (case rq_environment request of None \<Rightarrow> [] | Some e \<Rightarrow> '' in the '' @ e @ '' environment'');
         which = (case rq_formId request of None \<Rightarrow> [] | Some _ \<Rightarrow> '' for this form'')
     in ''This needs a grant carrying '' @ resource_name (rq_resource request) @ '': '' @
        rq_action request @ whr @ which @ '' in the workspace that owns it. '' @
        ''Your own grants are at GET /admin/me/access.'')"

definition member_grant :: "string \<Rightarrow> held_grant" where
  "member_grant role = \<lparr>hg_role = role, hg_environments = [SCOPE_ALL], hg_forms = [SCOPE_ALL], hg_name = None\<rparr>"

definition held_grants :: "string option \<Rightarrow> held_grant list \<Rightarrow> held_grant list" where
  "held_grants memberRole grants =
    (case memberRole of None \<Rightarrow> grants | Some role \<Rightarrow> member_grant role # grants)"

fun decide_held :: "authorizer \<Rightarrow> access_request \<Rightarrow> held_grant list \<Rightarrow> thrown + access_decision" where
  "decide_held authorize request [] =
     Inr \<lparr>allowed = False, dc_role = None, dc_name = None, dc_reason = Some (refusalReason request)\<rparr>"
| "decide_held authorize request (grant # rest) = (case grantAllows authorize grant request of
     Inl e \<Rightarrow> Inl e
   | Inr True \<Rightarrow> Inr \<lparr>allowed = True, dc_role = Some (hg_role grant), dc_name = hg_name grant, dc_reason = None\<rparr>
   | Inr False \<Rightarrow> decide_held authorize request rest)"

definition decideAccess ::
  "authorizer \<Rightarrow> string option \<Rightarrow> held_grant list \<Rightarrow> access_request \<Rightarrow> thrown + access_decision" where
  "decideAccess authorize memberRole grants request =
     decide_held authorize request (held_grants memberRole grants)"

definition role_holds :: "authorizer \<Rightarrow> resource \<Rightarrow> string \<Rightarrow> string \<Rightarrow> thrown + bool" where
  "role_holds authorize resource action name = (case declared_role name of
     Undeclared \<Rightarrow> Inr False
   | Inherits \<Rightarrow> Inl TypeErrorThrown
   | Declares st \<Rightarrow> Inr (authorize st resource action))"

definition holdsStatement ::
  "authorizer \<Rightarrow> string option \<Rightarrow> held_grant list \<Rightarrow> resource \<Rightarrow> string \<Rightarrow> thrown + bool" where
  "holdsStatement authorize memberRole grants resource action =
     any_ok (role_holds authorize resource action)
       ((case memberRole of None \<Rightarrow> [] | Some role \<Rightarrow> [role]) @ map hg_role grants)"

definition rolesHolding :: "authorizer \<Rightarrow> resource \<Rightarrow> string \<Rightarrow> string list" where
  "rolesHolding authorize resource action =
     filter (\<lambda>name. case map_of role_table name of Some st \<Rightarrow> authorize st resource action | None \<Rightarrow> False)
       ROLE_NAMES"

section \<open>What a grant covers\<close>

text \<open>
  The contract, free of the order of the checks: the role of the grant is declared with the
  act; an act of the environment dimension names an environment the scope has, and in
  production an act on the control plane is an approver's; an act on responses names a form
  the scope has.
\<close>

definition role_may :: "string \<Rightarrow> resource \<Rightarrow> string \<Rightarrow> bool" where
  "role_may role resource action \<longleftrightarrow>
     (\<exists>st acts. map_of role_table role = Some st \<and> map_of st resource = Some acts \<and> action \<in> set acts)"

definition in_scope :: "string list \<Rightarrow> string \<Rightarrow> bool" where
  "in_scope scope value \<longleftrightarrow> scope = [''all''] \<or> value \<in> set scope"

definition environment_acts :: "(resource \<times> string) set" where
  "environment_acts = {(RsForm, ''close''), (RsRelease, ''create''), (RsLink, ''mint''),
     (RsLink, ''revoke''), (RsWebhook, ''configure'')}"

definition response_acts :: "(resource \<times> string) set" where
  "response_acts = {(RsResponse, ''read''), (RsResponse, ''export''), (RsResponse, ''erase''),
     (RsResponse, ''dispose'')}"

definition covers :: "held_grant \<Rightarrow> access_request \<Rightarrow> bool" where
  "covers grant request \<longleftrightarrow>
     role_may (hg_role grant) (rq_resource request) (rq_action request) \<and>
     ((rq_resource request, rq_action request) \<in> environment_acts \<union> response_acts \<longrightarrow>
        (\<exists>e. rq_environment request = Some e \<and> in_scope (hg_environments grant) e)) \<and>
     ((rq_resource request, rq_action request) \<in> environment_acts \<and> rq_environment request = Some ''prod'' \<longrightarrow>
        hg_role grant = ''forms.approver'') \<and>
     ((rq_resource request, rq_action request) \<in> response_acts \<longrightarrow>
        (\<exists>f. rq_formId request = Some f \<and> in_scope (hg_forms grant) f))"

lemma isEnvironmentScoped_iff:
  "isEnvironmentScoped r a \<longleftrightarrow> (r, a) \<in> environment_acts \<union> response_acts"
  by (cases r) (auto simp: isEnvironmentScoped_def ENVIRONMENT_SCOPED_def environment_acts_def
    response_acts_def)

lemma isFormScoped_iff: "isFormScoped r a \<longleftrightarrow> (r, a) \<in> response_acts"
  by (cases r) (auto simp: isFormScoped_def FORM_SCOPED_def response_acts_def)

lemma scopeAllows_Some: "scopeAllows scope (Some v) \<longleftrightarrow> in_scope scope v"
  by (auto simp: scopeAllows_def in_scope_def SCOPE_ALL_def length_Suc_conv)

lemma forms_family_environment:
  "(r, a) \<in> environment_acts \<union> response_acts \<Longrightarrow>
   r \<in> set FORMS_FAMILY_RESOURCES \<longleftrightarrow> (r, a) \<in> environment_acts"
  by (auto simp: environment_acts_def response_acts_def FORMS_FAMILY_RESOURCES_def)

lemma grantAllows_covers:
  assumes "authorize_law authorize" "hg_role g \<notin> set OBJECT_PROTOTYPE"
  shows "grantAllows authorize g rq = Inr (covers g rq)"
proof (cases "map_of role_table (hg_role g)")
  case None
  with assms(2) show ?thesis by (simp add: grantAllows_def declared_role_def covers_def role_may_def)
next
  case (Some st)
  then have may: "authorize st (rq_resource rq) (rq_action rq) \<longleftrightarrow>
      role_may (hg_role g) (rq_resource rq) (rq_action rq)"
    using assms(1) by (simp add: authorize_law_def role_may_def)
  show ?thesis using forms_family_environment [of "rq_resource rq" "rq_action rq"]
    by (cases "rq_environment rq"; cases "rq_formId rq")
      (auto simp: grantAllows_def declared_role_def Some may covers_def isEnvironmentScoped_iff
        isFormScoped_iff scopeAllows_Some PRODUCTION_ENVIRONMENT_def)
qed

definition plain_names :: "string option \<Rightarrow> held_grant list \<Rightarrow> bool" where
  "plain_names memberRole grants \<longleftrightarrow>
     (\<forall>g \<in> set (held_grants memberRole grants). hg_role g \<notin> set OBJECT_PROTOTYPE)"

lemma decide_held_find:
  assumes "authorize_law authorize" "\<forall>g \<in> set gs. hg_role g \<notin> set OBJECT_PROTOTYPE"
  shows "decide_held authorize rq gs = Inr (case List.find (\<lambda>g. covers g rq) gs of
      None \<Rightarrow> \<lparr>allowed = False, dc_role = None, dc_name = None, dc_reason = Some (refusalReason rq)\<rparr>
    | Some g \<Rightarrow> \<lparr>allowed = True, dc_role = Some (hg_role g), dc_name = hg_name g, dc_reason = None\<rparr>)"
  using assms(2) by (induction gs) (simp_all add: grantAllows_covers [OF assms(1)])

lemma decideAccess_find:
  assumes "authorize_law authorize" "plain_names memberRole grants"
  shows "decideAccess authorize memberRole grants rq =
    Inr (case List.find (\<lambda>g. covers g rq) (held_grants memberRole grants) of
      None \<Rightarrow> \<lparr>allowed = False, dc_role = None, dc_name = None, dc_reason = Some (refusalReason rq)\<rparr>
    | Some g \<Rightarrow> \<lparr>allowed = True, dc_role = Some (hg_role g), dc_name = hg_name g, dc_reason = None\<rparr>)"
  unfolding decideAccess_def using assms by (intro decide_held_find) (simp_all add: plain_names_def)

text \<open>Whatever the role names are, an act is only allowed by a grant that covers it.\<close>

lemma grantAllows_True:
  assumes "authorize_law authorize" "grantAllows authorize g rq = Inr True"
  shows "covers g rq"
proof (cases "hg_role g \<in> set OBJECT_PROTOTYPE")
  case True
  then have "map_of role_table (hg_role g) = None"
    by (auto simp: role_table_def OBJECT_PROTOTYPE_def)
  with True assms(2) show ?thesis by (simp add: grantAllows_def declared_role_def)
qed (use grantAllows_covers [OF assms(1)] assms(2) in auto)

lemma decide_held_allowed:
  assumes "authorize_law authorize" "decide_held authorize rq gs = Inr d" "allowed d"
  shows "\<exists>g \<in> set gs. covers g rq \<and> dc_role d = Some (hg_role g)"
  using assms(2,3)
  by (induction gs) (auto split: sum.splits bool.splits dest: grantAllows_True [OF assms(1)])

lemma decideAccess_allowed:
  assumes "authorize_law authorize" "decideAccess authorize memberRole grants rq = Inr d" "allowed d"
  obtains g where "g \<in> set (held_grants memberRole grants)" "covers g rq" "dc_role d = Some (hg_role g)"
  using decide_held_allowed [OF assms(1) assms(2) [unfolded decideAccess_def] assms(3)] that by blast

lemma holdsStatement_iff:
  assumes "authorize_law authorize" "plain_names memberRole grants"
  shows "holdsStatement authorize memberRole grants r a =
    Inr (\<exists>g \<in> set (held_grants memberRole grants). role_may (hg_role g) r a)"
proof -
  let ?names = "(case memberRole of None \<Rightarrow> [] | Some role \<Rightarrow> [role]) @ map hg_role grants"
  have names: "set ?names = hg_role ` set (held_grants memberRole grants)"
    by (cases memberRole) (simp_all add: held_grants_def member_grant_def)
  have "role_holds authorize r a n = Inr (role_may n r a)" if "n \<in> set ?names" for n
  proof -
    from that have "n \<in> hg_role ` set (held_grants memberRole grants)" by (simp only: names)
    with assms(2) have "n \<notin> set OBJECT_PROTOTYPE" by (auto simp: plain_names_def)
    with assms(1) show ?thesis
      by (simp add: role_holds_def declared_role_def role_may_def authorize_law_def split: option.splits)
  qed
  then have "holdsStatement authorize memberRole grants r a = Inr (\<exists>n \<in> set ?names. role_may n r a)"
    unfolding holdsStatement_def by (rule any_ok_pure)
  then show ?thesis unfolding names by simp
qed

section \<open>Who may do what\<close>

lemma role_may_response:
  "role_may role RsResponse a \<longleftrightarrow> role = ''responses.viewer'' \<and> a \<in> {''read'', ''export''} \<or>
     role = ''responses.eraser'' \<and> a \<in> {''erase'', ''dispose''}"
  by (auto simp: role_may_def role_table_def formsViewer_def formsEditor_def formsApprover_def
    formsOwner_def responsesViewer_def responsesEraser_def emptyStatements_def RESOURCES_def
    split: if_splits)

lemma role_may_authoring:
  "role_may role RsForm ''publish'' \<longleftrightarrow> role = ''forms.editor''"
  "role_may role RsForm ''write'' \<longleftrightarrow> role = ''forms.editor''"
  "role_may role RsForm ''preview'' \<longleftrightarrow> role = ''forms.editor''"
  "role_may role RsQuestion ''write'' \<longleftrightarrow> role = ''forms.editor''"
  by (auto simp: role_may_def role_table_def formsViewer_def formsEditor_def formsApprover_def
    formsOwner_def responsesViewer_def responsesEraser_def emptyStatements_def RESOURCES_def
    split: if_splits)

lemma role_may_owner:
  "r \<in> {RsMembership, RsWorkspace, RsAudit} \<Longrightarrow> role_may role r a \<Longrightarrow> role = ''forms.owner''"
  by (auto simp: role_may_def role_table_def formsViewer_def formsEditor_def formsApprover_def
    formsOwner_def responsesViewer_def responsesEraser_def emptyStatements_def RESOURCES_def
    split: if_splits)

lemma role_may_in_vocabulary: "role_may role r a \<Longrightarrow> a \<in> set (ACTIONS r)"
  by (cases r) (auto simp: role_may_def role_table_def formsViewer_def formsEditor_def formsApprover_def
    formsOwner_def responsesViewer_def responsesEraser_def emptyStatements_def RESOURCES_def
    split: if_splits)

lemma rolesHolding_role_may:
  assumes "authorize_law authorize"
  shows "set (rolesHolding authorize r a) = {role \<in> set ROLE_NAMES. role_may role r a}"
  using assms by (auto simp: rolesHolding_def authorize_law_def role_may_def split: option.splits)

lemma empty_roles_grant_nothing: "role \<in> set EMPTY_ROLE_NAMES \<Longrightarrow> \<not> role_may role r a"
  by (cases r) (auto simp: EMPTY_ROLE_NAMES_def role_may_def role_table_def emptyStatements_def
    RESOURCES_def)

end
