(* ===== verification/RoutePolicy.thy ===== *)
theory RoutePolicy
  imports AccessPolicy
begin

text \<open>
  \<^verbatim>\<open>features/membership/route-policy.ts\<close>: the authorisation matrix of the admin routes, one
  row per method and path, how a request finds its row, and the facts the rest of the
  gate relies on: no two rows answer one request equally well, and a row names an
  environment and a form exactly when its acts have those dimensions.
\<close>

section \<open>Rows\<close>

datatype http_method = GET | POST | PUT | PATCH | DELETE

fun method_name :: "http_method \<Rightarrow> string" where
  "method_name GET = ''GET''"
| "method_name POST = ''POST''"
| "method_name PUT = ''PUT''"
| "method_name PATCH = ''PATCH''"
| "method_name DELETE = ''DELETE''"

datatype WorkspaceSource = FromForm | FromQuestion | FromPath | FromBody | FromCaller | FromInstallation

datatype environment_source = EnvBody | EnvSwitcher | EnvQuery | EnvTargets

type_synonym cell = "resource \<times> string"

record route_policy =
  rp_method :: http_method
  rp_path :: string
  rp_resource :: resource
  rp_action :: string
  rp_workspace :: WorkspaceSource
  rp_namesEnvironment :: bool
  rp_environmentFrom :: "environment_source option"
  rp_also :: "cell option"
  rp_anyOf :: "cell list option"
  rp_namesForm :: bool
  rp_installationOnly :: bool
  rp_audit :: "string option"

text \<open>A row that names only the fields the interface requires.\<close>

definition route ::
  "http_method \<Rightarrow> string \<Rightarrow> resource \<Rightarrow> string \<Rightarrow> WorkspaceSource \<Rightarrow> route_policy" where
  "route method path resource action workspace =
     \<lparr>rp_method = method, rp_path = path, rp_resource = resource, rp_action = action,
      rp_workspace = workspace, rp_namesEnvironment = False, rp_environmentFrom = None,
      rp_also = None, rp_anyOf = None, rp_namesForm = False, rp_installationOnly = False,
      rp_audit = None\<rparr>"

definition OPERATIONAL_CELLS :: "cell list" where
  "OPERATIONAL_CELLS = [(RsForm, ''read''), (RsResponse, ''read''), (RsResponse, ''erase''),
     (RsResponse, ''dispose'')]"

definition AGENT_SCREEN_CELLS :: "cell list" where
  "AGENT_SCREEN_CELLS = [(RsForm, ''read''), (RsQuestion, ''read''), (RsResponse, ''read''),
     (RsMembership, ''read''), (RsWebhook, ''read''), (RsAudit, ''read'')]"

section \<open>The matrix\<close>

text \<open>The rows in the order of the source, which lists them by path, in six parts.\<close>

definition workspace_routes :: "route_policy list" where
  "workspace_routes =
    [(route POST ''/admin/workspaces'' RsWorkspace ''update'' FromInstallation)
        \<lparr>rp_installationOnly := True\<rparr>,
     (route PUT ''/admin/workspaces/{id}/shared'' RsWorkspace ''update'' FromInstallation)
        \<lparr>rp_installationOnly := True\<rparr>,
     (route PUT ''/admin/release-workflow'' RsWorkspace ''update'' FromInstallation)
        \<lparr>rp_installationOnly := True, rp_audit := Some ''setting''\<rparr>,
     route GET ''/admin/release-workflow'' RsRelease ''read'' FromCaller,
     route GET ''/admin/workspaces'' RsWorkspace ''read'' FromCaller,
     route POST ''/admin/workspaces/{id}/archive'' RsWorkspace ''archive'' FromPath,
     route GET ''/admin/workspaces/{id}/members'' RsMembership ''read'' FromPath,
     (route PUT ''/admin/workspaces/{id}/members/{userId}'' RsMembership ''write'' FromPath)
        \<lparr>rp_audit := Some ''grant''\<rparr>,
     route GET ''/admin/workspaces/{id}/access-groups'' RsMembership ''read'' FromPath,
     route POST ''/admin/workspaces/{id}/access-groups'' RsMembership ''write'' FromPath,
     route PUT ''/admin/workspaces/{id}/access-groups/{teamId}'' RsMembership ''write'' FromPath,
     (route DELETE ''/admin/workspaces/{id}/access-groups/{teamId}'' RsMembership ''write'' FromPath)
        \<lparr>rp_audit := Some ''revoke''\<rparr>,
     (route POST ''/admin/workspaces/{id}/access-groups/{teamId}/holders'' RsMembership ''write'' FromPath)
        \<lparr>rp_audit := Some ''grant''\<rparr>,
     (route DELETE ''/admin/workspaces/{id}/access-groups/{teamId}/holders/{userId}'' RsMembership ''write'' FromPath)
        \<lparr>rp_audit := Some ''revoke''\<rparr>,
     (route PUT ''/admin/workspaces/{id}/settings'' RsWorkspace ''update'' FromPath)
        \<lparr>rp_audit := Some ''setting''\<rparr>,
     route GET ''/admin/workspaces/{id}/audit'' RsAudit ''read'' FromPath,
     route GET ''/admin/workspaces/{id}/agent-actions'' RsAudit ''read'' FromPath]"

definition question_routes :: "route_policy list" where
  "question_routes =
    [route GET ''/admin/questions'' RsQuestion ''read'' FromCaller,
     route POST ''/admin/questions'' RsQuestion ''write'' FromBody,
     route GET ''/admin/questions/{id}'' RsQuestion ''read'' FromQuestion,
     route POST ''/admin/questions/{id}/versions'' RsQuestion ''write'' FromQuestion,
     route PUT ''/admin/questions/{id}/versions/{v}'' RsQuestion ''write'' FromQuestion,
     route POST ''/admin/questions/{id}/versions/{v}/deprecate'' RsQuestion ''write'' FromQuestion,
     route GET ''/admin/questions/{id}/versions/{v}/preview'' RsQuestion ''read'' FromQuestion,
     route POST ''/admin/questions/{id}/versions/{v}/publish'' RsQuestion ''write'' FromQuestion,
     route POST ''/admin/questions/{id}/workspace'' RsWorkspace ''update'' FromQuestion]"

definition form_routes :: "route_policy list" where
  "form_routes =
    [route GET ''/admin/forms'' RsForm ''read'' FromCaller,
     route POST ''/admin/forms'' RsForm ''write'' FromBody,
     route GET ''/admin/forms/{id}'' RsForm ''read'' FromForm,
     route PUT ''/admin/forms/{id}/draft'' RsForm ''write'' FromForm,
     (route POST ''/admin/assist'' RsForm ''read'' FromCaller)
        \<lparr>rp_namesEnvironment := True, rp_environmentFrom := Some EnvSwitcher, rp_anyOf := Some AGENT_SCREEN_CELLS\<rparr>,
     route POST ''/admin/forms/{id}/draft/assist'' RsForm ''write'' FromForm,
     (route POST ''/admin/forms/{id}/draft/assist/accept'' RsForm ''write'' FromForm)
        \<lparr>rp_also := Some (RsQuestion, ''write'')\<rparr>,
     route POST ''/admin/forms/{id}/draft/validate'' RsForm ''write'' FromForm,
     route POST ''/admin/forms/{id}/draft/preview'' RsForm ''preview'' FromForm,
     route POST ''/admin/forms/{id}/draft/preview-condition'' RsForm ''preview'' FromForm,
     route PATCH ''/admin/forms/{id}/settings'' RsForm ''write'' FromForm,
     route GET ''/admin/forms/{id}/versions/{v}'' RsForm ''read'' FromForm,
     route POST ''/admin/forms/{id}/publish'' RsForm ''publish'' FromForm]"

definition release_routes :: "route_policy list" where
  "release_routes =
    [(route POST ''/admin/forms/{id}/publish-and-release'' RsForm ''publish'' FromForm)
        \<lparr>rp_namesEnvironment := True, rp_environmentFrom := Some EnvBody, rp_also := Some (RsRelease, ''create'')\<rparr>,
     (route POST ''/admin/forms/{id}/publish-batch'' RsForm ''publish'' FromForm)
        \<lparr>rp_namesEnvironment := True, rp_environmentFrom := Some EnvTargets, rp_also := Some (RsRelease, ''create'')\<rparr>,
     route GET ''/admin/forms/{id}/releases'' RsRelease ''read'' FromForm,
     route POST ''/admin/forms/{id}/release-review'' RsRelease ''read'' FromForm,
     (route POST ''/admin/forms/{id}/releases'' RsRelease ''create'' FromForm)
        \<lparr>rp_namesEnvironment := True, rp_environmentFrom := Some EnvBody\<rparr>,
     (route POST ''/admin/forms/{id}/release-batch'' RsRelease ''create'' FromForm)
        \<lparr>rp_namesEnvironment := True, rp_environmentFrom := Some EnvTargets\<rparr>,
     route GET ''/admin/forms/{id}/release-batches/{key}'' RsRelease ''read'' FromForm,
     (route POST ''/admin/forms/{id}/close'' RsForm ''close'' FromForm)
        \<lparr>rp_namesEnvironment := True, rp_environmentFrom := Some EnvBody\<rparr>,
     (route POST ''/admin/forms/{id}/reopen'' RsForm ''close'' FromForm)
        \<lparr>rp_namesEnvironment := True, rp_environmentFrom := Some EnvBody\<rparr>,
     route POST ''/admin/forms/{id}/workspace'' RsWorkspace ''update'' FromForm]"

definition link_webhook_routes :: "route_policy list" where
  "link_webhook_routes =
    [route GET ''/admin/forms/{id}/links'' RsLink ''read'' FromForm,
     (route POST ''/admin/forms/{id}/links'' RsLink ''mint'' FromForm)
        \<lparr>rp_namesEnvironment := True, rp_environmentFrom := Some EnvBody\<rparr>,
     (route POST ''/admin/forms/{id}/links/{linkId}/revoke'' RsLink ''revoke'' FromForm)
        \<lparr>rp_namesEnvironment := True, rp_environmentFrom := Some EnvSwitcher\<rparr>,
     route GET ''/admin/forms/{id}/webhooks'' RsWebhook ''read'' FromForm,
     (route POST ''/admin/forms/{id}/webhooks'' RsWebhook ''configure'' FromForm)
        \<lparr>rp_namesEnvironment := True, rp_environmentFrom := Some EnvSwitcher\<rparr>,
     (route PUT ''/admin/forms/{id}/webhooks/{webhookId}'' RsWebhook ''configure'' FromForm)
        \<lparr>rp_namesEnvironment := True, rp_environmentFrom := Some EnvSwitcher\<rparr>,
     (route DELETE ''/admin/forms/{id}/webhooks/{webhookId}'' RsWebhook ''configure'' FromForm)
        \<lparr>rp_namesEnvironment := True, rp_environmentFrom := Some EnvSwitcher\<rparr>,
     route GET ''/admin/forms/{id}/webhooks/proposals'' RsWebhook ''read'' FromForm,
     (route POST ''/admin/forms/{id}/webhooks/proposals/{proposalId}/confirm'' RsWebhook ''configure'' FromForm)
        \<lparr>rp_namesEnvironment := True, rp_environmentFrom := Some EnvSwitcher\<rparr>,
     (route DELETE ''/admin/forms/{id}/webhooks/proposals/{proposalId}'' RsWebhook ''configure'' FromForm)
        \<lparr>rp_namesEnvironment := True, rp_environmentFrom := Some EnvSwitcher\<rparr>,
     route GET ''/admin/forms/{id}/deliveries'' RsWebhook ''read'' FromForm,
     (route POST ''/admin/forms/{id}/deliveries/{deliveryId}/redeliver'' RsWebhook ''configure'' FromForm)
        \<lparr>rp_namesEnvironment := True, rp_environmentFrom := Some EnvSwitcher\<rparr>,
     (route GET ''/admin/outbox/dead-letters'' RsWebhook ''read'' FromInstallation)
        \<lparr>rp_installationOnly := True\<rparr>]"

definition response_routes :: "route_policy list" where
  "response_routes =
    [(route GET ''/admin/operations/forms'' RsForm ''read'' FromCaller)
        \<lparr>rp_namesEnvironment := True, rp_environmentFrom := Some EnvQuery, rp_anyOf := Some OPERATIONAL_CELLS\<rparr>,
     (route GET ''/admin/forms/{id}/responses'' RsResponse ''read'' FromForm)
        \<lparr>rp_namesEnvironment := True, rp_environmentFrom := Some EnvSwitcher, rp_namesForm := True, rp_audit := Some ''read''\<rparr>,
     (route GET ''/admin/forms/{id}/responses/{sessionId}'' RsResponse ''read'' FromForm)
        \<lparr>rp_namesEnvironment := True, rp_environmentFrom := Some EnvSwitcher, rp_namesForm := True, rp_audit := Some ''read''\<rparr>,
     (route GET ''/admin/forms/{id}/export'' RsResponse ''export'' FromForm)
        \<lparr>rp_namesEnvironment := True, rp_environmentFrom := Some EnvSwitcher, rp_namesForm := True, rp_audit := Some ''export''\<rparr>,
     (route POST ''/admin/forms/{id}/responses/{sessionId}/erase'' RsResponse ''erase'' FromForm)
        \<lparr>rp_namesEnvironment := True, rp_environmentFrom := Some EnvSwitcher, rp_namesForm := True, rp_audit := Some ''erasure''\<rparr>,
     (route GET ''/admin/forms/{id}/responses/{sessionId}/erasure-scope'' RsResponse ''erase'' FromForm)
        \<lparr>rp_namesEnvironment := True, rp_environmentFrom := Some EnvSwitcher, rp_namesForm := True\<rparr>,
     (route POST ''/admin/forms/{id}/responses/{sessionId}/unflag'' RsResponse ''dispose'' FromForm)
        \<lparr>rp_namesEnvironment := True, rp_environmentFrom := Some EnvSwitcher, rp_namesForm := True\<rparr>,
     (route GET ''/admin/erasures'' RsResponse ''history'' FromInstallation)
        \<lparr>rp_installationOnly := True\<rparr>]"

definition ROUTE_POLICIES :: "route_policy list" where
  "ROUTE_POLICIES = workspace_routes @ question_routes @ form_routes @ release_routes @
     link_webhook_routes @ response_routes"

definition GRANT_EXEMPT_ROUTES :: "string list" where
  "GRANT_EXEMPT_ROUTES = [''GET /admin/me/access'', ''GET /admin/environments'']"

section \<open>Finding the row of a request\<close>

definition is_placeholder :: "string \<Rightarrow> bool" where
  "is_placeholder segment = (case segment of [] \<Rightarrow> False | c # _ \<Rightarrow> c = CHR ''{'')"

definition segments :: "string \<Rightarrow> string list" where
  "segments path = js_split (CHR ''/'') path"

definition matchesTemplate :: "string \<Rightarrow> string \<Rightarrow> bool" where
  "matchesTemplate template path =
    (let want = segments template; got = segments path
     in if length want \<noteq> length got then False
        else list_all (\<lambda>i. is_placeholder (want ! i) \<or> want ! i = got ! i) [0..<length want])"

definition literalSegments :: "string \<Rightarrow> nat" where
  "literalSegments template = length (filter (\<lambda>s. \<not> is_placeholder s) (segments template))"

definition policyForRequest :: "string \<Rightarrow> string \<Rightarrow> route_policy option" where
  "policyForRequest method path =
    (case filter (\<lambda>row. method_name (rp_method row) = method \<and> matchesTemplate (rp_path row) path)
       ROUTE_POLICIES of
       [] \<Rightarrow> None
     | [first] \<Rightarrow> Some first
     | first # rest \<Rightarrow> Some (foldl (\<lambda>best row.
         if literalSegments (rp_path best) < literalSegments (rp_path row) then row else best)
         first (first # rest)))"

section \<open>One row per request\<close>

text \<open>
  Two templates are told apart by a place where both are literal and differ, or by their
  length. Rows that are not told apart differ in the number of their literal segments, so
  the longest match of a request is one row whatever the order of the table.
\<close>

fun told_apart :: "string list \<Rightarrow> string list \<Rightarrow> bool" where
  "told_apart (a # as) (b # bs) =
     (if is_placeholder a then told_apart as bs else if is_placeholder b then told_apart as bs
      else if a = b then told_apart as bs else True)"
| "told_apart [] [] = False"
| "told_apart _ _ = True"

definition distinguished :: "route_policy \<Rightarrow> route_policy \<Rightarrow> bool" where
  "distinguished r s \<longleftrightarrow> rp_method r \<noteq> rp_method s \<or>
     told_apart (segments (rp_path r)) (segments (rp_path s)) \<or>
     literalSegments (rp_path r) \<noteq> literalSegments (rp_path s)"

definition row_key :: "route_policy \<Rightarrow> http_method \<times> string list \<times> nat" where
  "row_key r = (rp_method r, segments (rp_path r), literalSegments (rp_path r))"

fun keys_differ :: "http_method \<times> string list \<times> nat \<Rightarrow> http_method \<times> string list \<times> nat \<Rightarrow> bool" where
  "keys_differ (m, a, i) (n, b, j) =
     (if m \<noteq> n then True else if i \<noteq> j then True
      else if length a \<noteq> length b then True else told_apart a b)"

lemma told_apart_length: "length a \<noteq> length b \<Longrightarrow> told_apart a b"
  by (induction a b rule: told_apart.induct) auto

lemma keys_differ_distinguished: "keys_differ (row_key r) (row_key s) \<Longrightarrow> distinguished r s"
  by (auto simp: row_key_def distinguished_def told_apart_length split: if_splits)

lemma row_keys_differ: "sorted_wrt keys_differ (map row_key ROUTE_POLICIES)"
  by code_simp

lemma rows_distinguished: "sorted_wrt distinguished ROUTE_POLICIES"
  using row_keys_differ unfolding sorted_wrt_map
  by (rule sorted_wrt_mono_rel [rotated]) (rule keys_differ_distinguished)

fun fits :: "string list \<Rightarrow> string list \<Rightarrow> bool" where
  "fits (w # ws) (g # gs) = ((is_placeholder w \<or> w = g) \<and> fits ws gs)"
| "fits [] [] = True"
| "fits _ _ = False"

lemma fits_iff: "fits ws gs \<longleftrightarrow> length ws = length gs \<and>
    (\<forall>i < length ws. is_placeholder (ws ! i) \<or> ws ! i = gs ! i)"
  by (induction ws gs rule: fits.induct) (auto simp: less_Suc_eq_0_disj)

lemma matchesTemplate_fits: "matchesTemplate t p \<longleftrightarrow> fits (segments t) (segments p)"
  by (auto simp: matchesTemplate_def Let_def fits_iff list_all_iff)

lemma told_apart_fits: "told_apart a b \<Longrightarrow> fits a g \<Longrightarrow> fits b g \<Longrightarrow> False"
  by (induction a b arbitrary: g rule: told_apart.induct; case_tac g) (auto split: if_splits)

lemma told_apart_sym: "told_apart a b \<longleftrightarrow> told_apart b a"
  by (induction a b rule: told_apart.induct) auto

lemma distinguished_sym: "distinguished a b \<Longrightarrow> distinguished b a"
  unfolding distinguished_def by (metis told_apart_sym)

lemma sorted_wrt_sym_pair:
  assumes "sorted_wrt R xs" "\<And>a b. R a b \<Longrightarrow> R b a" "x \<in> set xs" "y \<in> set xs" "x \<noteq> y"
  shows "R x y"
  using assms by (induction xs) auto

lemma one_row_per_request:
  assumes "r \<in> set ROUTE_POLICIES" "s \<in> set ROUTE_POLICIES" "rp_method r = rp_method s"
    "matchesTemplate (rp_path r) path" "matchesTemplate (rp_path s) path"
    "literalSegments (rp_path r) = literalSegments (rp_path s)"
  shows "r = s"
proof (rule ccontr)
  assume "r \<noteq> s"
  with rows_distinguished assms(1,2) have "distinguished r s"
    by (blast intro: sorted_wrt_sym_pair distinguished_sym)
  with assms(3-) show False
    by (auto simp: distinguished_def matchesTemplate_fits dest: told_apart_fits)
qed

lemma longest_fold:
  "foldl (\<lambda>best row. if f best < (f row :: nat) then row else best) b rows \<in> insert b (set rows) \<and>
   (\<forall>r \<in> insert b (set rows). f r \<le> f (foldl (\<lambda>best row. if f best < f row then row else best) b rows))"
proof (induction rows arbitrary: b)
  case (Cons r rs)
  from Cons [of r] Cons [of b] show ?case
    by (cases "f b < f r") (auto intro: order_trans)
qed simp

definition candidate :: "string \<Rightarrow> string \<Rightarrow> route_policy \<Rightarrow> bool" where
  "candidate method path row \<longleftrightarrow> row \<in> set ROUTE_POLICIES \<and>
     method_name (rp_method row) = method \<and> matchesTemplate (rp_path row) path"

lemma policyForRequest_Some:
  assumes "policyForRequest method path = Some row"
  shows "candidate method path row"
    "\<And>r. candidate method path r \<Longrightarrow> literalSegments (rp_path r) \<le> literalSegments (rp_path row)"
proof -
  let ?c = "filter (\<lambda>row. method_name (rp_method row) = method \<and> matchesTemplate (rp_path row) path) ROUTE_POLICIES"
  have set: "set ?c = Collect (candidate method path)" by (auto simp: candidate_def)
  obtain b rs where c: "?c = b # rs"
    using assms by (cases ?c) (simp_all only: policyForRequest_def list.case option.distinct)
  have row: "row = foldl (\<lambda>best row. if literalSegments (rp_path best) < literalSegments (rp_path row) then row else best) b ?c"
    using assms unfolding policyForRequest_def c by (cases rs) auto
  have "row \<in> set ?c \<and> (\<forall>r \<in> set ?c. literalSegments (rp_path r) \<le> literalSegments (rp_path row))"
    using longest_fold [of "\<lambda>r. literalSegments (rp_path r)" b ?c] unfolding row [symmetric] by (auto simp: c)
  then show "candidate method path row"
    "\<And>r. candidate method path r \<Longrightarrow> literalSegments (rp_path r) \<le> literalSegments (rp_path row)"
    unfolding set by auto
qed

lemma policyForRequest_None: "policyForRequest method path = None \<longleftrightarrow> (\<forall>row. \<not> candidate method path row)"
proof -
  let ?c = "filter (\<lambda>row. method_name (rp_method row) = method \<and> matchesTemplate (rp_path row) path) ROUTE_POLICIES"
  have "policyForRequest method path = None \<longleftrightarrow> ?c = []"
  proof (cases ?c)
    case Nil
    then show ?thesis by (simp add: policyForRequest_def)
  next
    case (Cons b rs)
    then show ?thesis unfolding policyForRequest_def Cons by (cases rs) simp_all
  qed
  also have "\<dots> \<longleftrightarrow> (\<forall>row. \<not> candidate method path row)"
    by (simp only: filter_empty_conv candidate_def) blast
  finally show ?thesis .
qed

lemma method_name_inj: "method_name a = method_name b \<longleftrightarrow> a = b"
  by (cases a; cases b) simp_all

text \<open>The row of a request is the candidate that beats every other one.\<close>

lemma policyForRequest_iff:
  "policyForRequest method path = Some row \<longleftrightarrow> candidate method path row \<and>
     (\<forall>r. candidate method path r \<longrightarrow> r = row \<or> literalSegments (rp_path r) < literalSegments (rp_path row))"
    (is "?L \<longleftrightarrow> ?R")
proof -
  have one: "r = s" if "candidate method path r" "candidate method path s"
      "literalSegments (rp_path r) = literalSegments (rp_path s)" for r s
  proof (rule one_row_per_request [where path = path, OF _ _ _ _ _ that(3)])
    show "rp_method r = rp_method s"
      using that(1,2) unfolding candidate_def by (metis method_name_inj)
  qed (use that(1,2) in \<open>simp_all add: candidate_def\<close>)
  show ?thesis
  proof
    assume ?L
    from policyForRequest_Some [OF this] one show ?R by (auto simp: le_less)
  next
    assume R: ?R
    then obtain row' where row': "policyForRequest method path = Some row'"
      using policyForRequest_None by (cases "policyForRequest method path") auto
    from policyForRequest_Some [OF row'] R have "row' = row" by (metis leD)
    with row' show ?L by simp
  qed
qed

section \<open>Rows and the dimensions of their acts\<close>

definition row_cells :: "route_policy \<Rightarrow> cell list" where
  "row_cells row = (rp_resource row, rp_action row) #
     (case rp_also row of None \<Rightarrow> [] | Some cell \<Rightarrow> [cell])"

definition row_agrees :: "route_policy \<Rightarrow> bool" where
  "row_agrees row \<longleftrightarrow>
     (rp_action row \<in> set (ACTIONS (rp_resource row))) \<and>
     ((rp_environmentFrom row \<noteq> None) = rp_namesEnvironment row) \<and>
     (rp_namesForm row \<longrightarrow> rp_workspace row = FromForm) \<and>
     (rp_installationOnly row \<or> rp_anyOf row \<noteq> None \<or>
       rp_workspace row \<noteq> FromInstallation \<and>
       rp_namesEnvironment row = list_ex (\<lambda>(r, a). isEnvironmentScoped r a) (row_cells row) \<and>
       rp_namesForm row = list_ex (\<lambda>(r, a). isFormScoped r a) (row_cells row))"

lemma rows_agree: "list_all row_agrees ROUTE_POLICIES"
  by code_simp

definition path_names_id :: "route_policy \<Rightarrow> bool" where
  "path_names_id row \<longleftrightarrow> (rp_workspace row \<in> {FromForm, FromQuestion, FromPath} \<longrightarrow>
     list_ex (\<lambda>s. s = ''{id}'') (segments (rp_path row)))"

lemma rows_name_their_object: "list_all path_names_id ROUTE_POLICIES"
  by code_simp

lemma only_unions_act_elsewhere:
  "list_all (\<lambda>row. rp_anyOf row \<noteq> None \<longrightarrow> rp_workspace row = FromCaller) ROUTE_POLICIES"
  by code_simp

end
