(* ===== verification/ServerPrelude.thy ===== *)
theory ServerPrelude
  imports QcmsPrelude "HOL-Library.Multiset"
begin

text \<open>
  What the components of the API server share: the sequencing of handlers that throw, as
  the error sum; filters whose predicate may throw; the reading of an optional property;
  and the contract of a query with an \<^verbatim>\<open>order by\<close>, whose ties the database breaks as it
  likes.
\<close>

named_theorems throw_simps \<open>inversion of sequenced handlers\<close>

section \<open>Handlers that throw\<close>

definition bind_ok :: "'e + 'a \<Rightarrow> ('a \<Rightarrow> 'e + 'b) \<Rightarrow> 'e + 'b" where
  "bind_ok m k = (case m of Inl e \<Rightarrow> Inl e | Inr x \<Rightarrow> k x)"

definition throw_if :: "bool \<Rightarrow> 'e \<Rightarrow> 'e + unit" where
  "throw_if b e = (if b then Inl e else Inr ())"

fun filter_ok :: "('a \<Rightarrow> 'e + bool) \<Rightarrow> 'a list \<Rightarrow> 'e + 'a list" where
  "filter_ok p [] = Inr []"
| "filter_ok p (x # xs) = (case p x of Inl e \<Rightarrow> Inl e
     | Inr b \<Rightarrow> (case filter_ok p xs of Inl e \<Rightarrow> Inl e | Inr ys \<Rightarrow> Inr (if b then x # ys else ys)))"

fun each_ok :: "('a \<Rightarrow> 'e + unit) \<Rightarrow> 'a list \<Rightarrow> 'e + unit" where
  "each_ok f [] = Inr ()"
| "each_ok f (x # xs) = (case f x of Inl e \<Rightarrow> Inl e | Inr _ \<Rightarrow> each_ok f xs)"

lemma bind_ok_simps [simp]:
  "bind_ok (Inl e) k = Inl e"
  "bind_ok (Inr x) k = k x"
  by (simp_all add: bind_ok_def)

lemma bind_ok_Inr [throw_simps]: "bind_ok m k = Inr y \<longleftrightarrow> (\<exists>x. m = Inr x \<and> k x = Inr y)"
  by (cases m) auto

lemma bind_ok_Inl [throw_simps]: "bind_ok m k = Inl e \<longleftrightarrow> m = Inl e \<or> (\<exists>x. m = Inr x \<and> k x = Inl e)"
  by (cases m) auto

lemma throw_if_Inr [throw_simps]: "throw_if b e = Inr u \<longleftrightarrow> \<not> b"
  by (auto simp: throw_if_def)

lemma throw_if_Inl [throw_simps]: "throw_if b e = Inl e' \<longleftrightarrow> b \<and> e' = e"
  by (auto simp: throw_if_def)

lemma filter_ok_Inr [throw_simps]:
  "filter_ok p xs = Inr ys \<longleftrightarrow> (\<forall>x \<in> set xs. \<exists>b. p x = Inr b) \<and> ys = filter (\<lambda>x. p x = Inr True) xs"
proof (induction xs arbitrary: ys)
  case (Cons x xs)
  from Cons [of "filter (\<lambda>x. p x = Inr True) xs"] Cons [of ys] Cons [of "tl ys"] show ?case
    by (cases "p x"; cases "filter_ok p xs") auto
qed auto

lemma each_ok_Inr [throw_simps]: "each_ok f xs = Inr u \<longleftrightarrow> (\<forall>x \<in> set xs. f x = Inr ())"
  by (induction xs) (auto split: sum.splits)

section \<open>Properties of a parsed body\<close>

text \<open>\<^verbatim>\<open>(value as { name?: unknown } | undefined)?.name\<close>.\<close>

fun js_prop :: "string \<Rightarrow> jsval \<Rightarrow> jsval" where
  "js_prop name (JObj props) = (case map_of props name of None \<Rightarrow> JUndefined | Some v \<Rightarrow> v)"
| "js_prop name _ = JUndefined"

fun js_string :: "jsval \<Rightarrow> string option" where
  "js_string (JStr s) = Some s"
| "js_string _ = None"

section \<open>Strings\<close>

fun js_includes :: "string \<Rightarrow> string \<Rightarrow> bool" where
  "js_includes [] part = (part = [])"
| "js_includes (c # cs) part = (take (length part) (c # cs) = part \<or> js_includes cs part)"

definition js_startsWith :: "string \<Rightarrow> string \<Rightarrow> bool" where
  "js_startsWith s part \<longleftrightarrow> take (length part) s = part"

definition js_endsWith :: "string \<Rightarrow> string \<Rightarrow> bool" where
  "js_endsWith s part \<longleftrightarrow> length part \<le> length s \<and> drop (length s - length part) s = part"

section \<open>Queries\<close>

text \<open>
  \<^verbatim>\<open>order by\<close>: the rows of the query in some order, the same rows. What the order is does
  not matter to a client that only asks which rows there are.
\<close>

definition ordering_law :: "('r list \<Rightarrow> 'r list) \<Rightarrow> bool" where
  "ordering_law arrange \<longleftrightarrow> (\<forall>rows. mset (arrange rows) = mset rows)"

lemma ordering_set: "ordering_law arrange \<Longrightarrow> set (arrange rows) = set rows"
  unfolding ordering_law_def by (metis set_mset_mset)

end
