(* ===== verification/GrantCheck.thy ===== *)
theory GrantCheck
  imports RoutePolicy ServerPrelude Ids
begin

text \<open>
  The gate in front of every admin route: \<^verbatim>\<open>features/membership/resolver.ts\<close>,
  \<^verbatim>\<open>context.ts\<close> and \<^verbatim>\<open>middleware.ts\<close>, with the queries of
  \<^verbatim>\<open>packages/db/src/queries/grants.ts\<close> it reads the grants with and
  \<^verbatim>\<open>features/workspaces/resolve.ts\<close>. The control database is the tables the gate reads.
  A request is what the framework hands over: the method, the path of the URL as it was
  sent, the parsed body. A handler that throws is the left side of a sum.
\<close>

section \<open>The control database\<close>

record member_row =
  mb_userId :: string
  mb_organizationId :: string
  mb_role :: string

record team_row =
  tm_id :: string
  tm_organizationId :: string
  tm_name :: string
  tm_role :: string
  tm_environments :: "string list"
  tm_forms :: "string list"

record team_member_row =
  tmm_teamId :: string
  tmm_userId :: string

record workspace_row =
  ws_id :: string
  ws_archived :: bool

record owned_row =
  ow_id :: string
  ow_workspaceId :: string

record control_db =
  db_members :: "member_row list"
  db_teams :: "team_row list"
  db_teamMembers :: "team_member_row list"
  db_workspaces :: "workspace_row list"
  db_forms :: "owned_row list"
  db_questions :: "owned_row list"

text \<open>\<^verbatim>\<open>arrange\<close> is the order of the database by name, by slug or by age.\<close>

definition team_grants :: "control_db \<Rightarrow> string \<Rightarrow> team_row list" where
  "team_grants db userId = concat (map (\<lambda>tmm. filter (\<lambda>t. tm_id t = tmm_teamId tmm) (db_teams db))
     (filter (\<lambda>tmm. tmm_userId tmm = userId) (db_teamMembers db)))"

definition resolveMembership ::
  "(team_row list \<Rightarrow> team_row list) \<Rightarrow> control_db \<Rightarrow> string \<Rightarrow> string \<Rightarrow> string option \<times> team_row list" where
  "resolveMembership arrange db userId workspaceId =
    (let members = filter (\<lambda>m. mb_userId m = userId \<and> mb_organizationId m = workspaceId) (db_members db)
     in (case members of [] \<Rightarrow> None | m # _ \<Rightarrow> Some (mb_role m),
         arrange (filter (\<lambda>t. tm_organizationId t = workspaceId) (team_grants db userId))))"

definition workspace_exists :: "control_db \<Rightarrow> string \<Rightarrow> bool" where
  "workspace_exists db w \<longleftrightarrow> w \<in> ws_id ` set (db_workspaces db)"

definition listGrantsForUser :: "(team_row list \<Rightarrow> team_row list) \<Rightarrow> control_db \<Rightarrow> string \<Rightarrow> team_row list" where
  "listGrantsForUser arrange db userId =
     arrange (filter (\<lambda>t. workspace_exists db (tm_organizationId t)) (team_grants db userId))"

definition listMemberWorkspacesForUser ::
  "(member_row list \<Rightarrow> member_row list) \<Rightarrow> control_db \<Rightarrow> string \<Rightarrow> member_row list" where
  "listMemberWorkspacesForUser arrange db userId =
     arrange (filter (\<lambda>m. mb_userId m = userId \<and> workspace_exists db (mb_organizationId m)) (db_members db))"

definition getForm :: "control_db \<Rightarrow> string \<Rightarrow> owned_row option" where
  "getForm db i = List.find (\<lambda>r. ow_id r = i) (db_forms db)"

definition getQuestion :: "control_db \<Rightarrow> string \<Rightarrow> owned_row option" where
  "getQuestion db i = List.find (\<lambda>r. ow_id r = i) (db_questions db)"

definition getWorkspace :: "control_db \<Rightarrow> string \<Rightarrow> workspace_row option" where
  "getWorkspace db i = List.find (\<lambda>r. ws_id r = i) (db_workspaces db)"

definition listActiveWorkspaces :: "control_db \<Rightarrow> workspace_row list" where
  "listActiveWorkspaces db = filter (\<lambda>w. \<not> ws_archived w) (db_workspaces db)"

section \<open>Refusals\<close>

datatype gate_error =
    NoPrincipal
  | UndecidedRoute string string
  | Refused string
  | ClaimOnly
  | NoSuchWorkspace
  | NoSuchObject string
  | EnvironmentMissing
  | EnvironmentInQueryMissing
  | NoTargets
  | EnvironmentNotInBody
  | NoEnvironmentPool string
  | RoleLookupThrew
  | NoWorkspaceYet
  | WorkspaceRequired
  | WorkspaceArchived

definition requireOpenWorkspace :: "control_db \<Rightarrow> string \<Rightarrow> gate_error + workspace_row" where
  "requireOpenWorkspace db workspaceId = (case getWorkspace db workspaceId of
     None \<Rightarrow> Inl NoSuchWorkspace
   | Some workspace \<Rightarrow> if ws_archived workspace then Inl WorkspaceArchived else Inr workspace)"

definition resolveWorkspaceForNewObject :: "control_db \<Rightarrow> string option \<Rightarrow> gate_error + string" where
  "resolveWorkspaceForNewObject db workspaceId = (case workspaceId of
     Some named \<Rightarrow> bind_ok (requireOpenWorkspace db named) (\<lambda>w. Inr (ws_id w))
   | None \<Rightarrow> (case listActiveWorkspaces db of
        [] \<Rightarrow> Inl NoWorkspaceYet
      | only # rest \<Rightarrow> if rest \<noteq> [] then Inl WorkspaceRequired else Inr (ws_id only)))"

section \<open>What a caller holds\<close>

record resolved_membership =
  rm_workspaceId :: string
  rm_memberRole :: "string option"
  rm_grants :: "held_grant list"

definition INSTALLATION_CLAIM :: string where
  "INSTALLATION_CLAIM = ''admin''"

definition holdsInstallationClaim :: "string option \<Rightarrow> bool" where
  "holdsInstallationClaim role \<longleftrightarrow> role = Some INSTALLATION_CLAIM"

definition CLAIM_GRANT :: held_grant where
  "CLAIM_GRANT = \<lparr>hg_role = ''forms.owner'', hg_environments = [''all''], hg_forms = [''all''], hg_name = None\<rparr>"

definition team_grant :: "team_row \<Rightarrow> held_grant" where
  "team_grant t = \<lparr>hg_role = tm_role t, hg_environments = tm_environments t, hg_forms = tm_forms t,
     hg_name = Some (tm_name t)\<rparr>"

record query_order =
  qo_teams :: "team_row list \<Rightarrow> team_row list"
  qo_members :: "member_row list \<Rightarrow> member_row list"
  qo_workspaces :: "workspace_row list \<Rightarrow> workspace_row list"

definition query_laws :: "query_order \<Rightarrow> bool" where
  "query_laws qo \<longleftrightarrow> ordering_law (qo_teams qo) \<and> ordering_law (qo_members qo) \<and>
     ordering_law (qo_workspaces qo)"

definition resolveGrants ::
  "query_order \<Rightarrow> control_db \<Rightarrow> string \<Rightarrow> string \<Rightarrow> bool \<Rightarrow> resolved_membership" where
  "resolveGrants qo db userId workspaceId claim =
    (let membership = resolveMembership (qo_teams qo) db userId workspaceId
     in \<lparr>rm_workspaceId = workspaceId, rm_memberRole = fst membership,
         rm_grants = map team_grant (snd membership) @ (if claim then [CLAIM_GRANT] else [])\<rparr>)"

text \<open>The map from workspaces to what is held there, in the order the workspaces come up.\<close>

type_synonym slots = "(string \<times> (string option \<times> held_grant list)) list"

definition slot_of :: "slots \<Rightarrow> string \<Rightarrow> string option \<times> held_grant list" where
  "slot_of byWorkspace w = opt_default (None, []) (map_of byWorkspace w)"

definition slot_member :: "slots \<Rightarrow> member_row \<Rightarrow> slots" where
  "slot_member byWorkspace m =
     AList.update (mb_organizationId m) (Some (mb_role m), snd (slot_of byWorkspace (mb_organizationId m)))
       byWorkspace"

definition slot_grant :: "slots \<Rightarrow> team_row \<Rightarrow> slots" where
  "slot_grant byWorkspace t =
    (let held = slot_of byWorkspace (tm_organizationId t)
     in AList.update (tm_organizationId t) (fst held, snd held @ [team_grant t]) byWorkspace)"

definition slot_workspace :: "slots \<Rightarrow> workspace_row \<Rightarrow> slots" where
  "slot_workspace byWorkspace w = AList.update (ws_id w) (slot_of byWorkspace (ws_id w)) byWorkspace"

definition resolveCallerWorkspaces ::
  "query_order \<Rightarrow> control_db \<Rightarrow> string \<Rightarrow> bool \<Rightarrow> resolved_membership list" where
  "resolveCallerWorkspaces qo db userId claim =
    (let memberships = listMemberWorkspacesForUser (qo_members qo) db userId;
         teamGrants = listGrantsForUser (qo_teams qo) db userId;
         held = foldl slot_grant (foldl slot_member [] memberships) teamGrants;
         byWorkspace = (if claim then foldl slot_workspace held (qo_workspaces qo (db_workspaces db)) else held)
     in map (\<lambda>(w, h). \<lparr>rm_workspaceId = w, rm_memberRole = fst h,
          rm_grants = snd h @ (if claim then [CLAIM_GRANT] else [])\<rparr>) byWorkspace)"

text \<open>A role name that is no role but is a name of every object makes the lookup throw.\<close>

definition asks :: "thrown + 'a \<Rightarrow> gate_error + 'a" where
  "asks m = (case m of Inl _ \<Rightarrow> Inl RoleLookupThrew | Inr x \<Rightarrow> Inr x)"

definition decide_in :: "authorizer \<Rightarrow> resolved_membership \<Rightarrow> access_request \<Rightarrow> gate_error + access_decision" where
  "decide_in authorize resolved request =
     asks (decideAccess authorize (rm_memberRole resolved) (rm_grants resolved) request)"

definition workspacesAllowing ::
  "authorizer \<Rightarrow> resolved_membership list \<Rightarrow> access_request \<Rightarrow> gate_error + string list" where
  "workspacesAllowing authorize resolved request =
     bind_ok (filter_ok (\<lambda>m. bind_ok (decide_in authorize m request) (\<lambda>d. Inr (allowed d))) resolved)
       (\<lambda>ms. Inr (map rm_workspaceId ms))"

section \<open>The request\<close>

record admin_request =
  ar_method :: string
  ar_path :: string
  ar_query :: "(string \<times> string) list"
  ar_principal :: "(string \<times> string option) option"
  ar_switcher :: "string option"
  ar_contentType :: "string option"
  ar_body :: "jsval option"
  ar_matched :: "string option list"

record grant_context =
  gc_policy :: route_policy
  gc_workspaceId :: "string option"
  gc_workspaceIds :: "string list option"
  gc_memberships :: "resolved_membership list option"
  gc_environment :: "string option"
  gc_environments :: "string list option"
  gc_role :: "string option"
  gc_endpointUrl :: "string option"

definition context_of :: "route_policy \<Rightarrow> grant_context" where
  "context_of policy = \<lparr>gc_policy = policy, gc_workspaceId = None, gc_workspaceIds = None,
     gc_memberships = None, gc_environment = None, gc_environments = None, gc_role = None,
     gc_endpointUrl = None\<rparr>"

text \<open>\<^verbatim>\<open>undefined\<close> for a body that is not JSON or does not parse.\<close>

definition readBody :: "admin_request \<Rightarrow> jsval" where
  "readBody req = (if \<not> js_includes (opt_default [] (ar_contentType req)) ''application/json'' then JUndefined
     else opt_default JUndefined (ar_body req))"

definition segment :: "string \<Rightarrow> string \<Rightarrow> string \<Rightarrow> string option" where
  "segment template path name =
    (let want = segments template; got = segments path; hole = ''{'' @ name @ ''}'';
         index = length (takeWhile (\<lambda>s. s \<noteq> hole) want)
     in if index = length want then None
        else if index < length got then Some (got ! index) else None)"

definition workspaceFromBody :: "control_db \<Rightarrow> jsval \<Rightarrow> gate_error + string" where
  "workspaceFromBody db body = resolveWorkspaceForNewObject db
     (case js_string (js_prop ''workspaceId'' body) of
        Some named \<Rightarrow> if named \<noteq> [] then Some named else None
      | None \<Rightarrow> None)"

definition forRequest :: "string list \<Rightarrow> string option \<Rightarrow> gate_error + string" where
  "forRequest served environment =
    (let chosen = opt_default PRODUCTION_ENVIRONMENT environment
     in if chosen \<in> set served then Inr chosen else Inl (NoEnvironmentPool chosen))"

definition environmentFor :: "string list \<Rightarrow> admin_request \<Rightarrow> route_policy \<Rightarrow> gate_error + string option" where
  "environmentFor served req policy =
    (if \<not> rp_namesEnvironment policy then Inr None
     else bind_ok (forRequest served (ar_switcher req)) (\<lambda>switcher.
       let inBody = js_string (js_prop ''environment'' (readBody req))
       in (case rp_environmentFrom policy of
            Some EnvQuery \<Rightarrow>
              if inBody \<noteq> None then Inl EnvironmentNotInBody
              else (case map_of (ar_query req) ''environment'' of
                  None \<Rightarrow> Inl EnvironmentInQueryMissing
                | Some inQuery \<Rightarrow> if inQuery = [] then Inl EnvironmentInQueryMissing else Inr (Some inQuery))
          | Some EnvTargets \<Rightarrow> Inr None
          | Some EnvBody \<Rightarrow> (case inBody of
                None \<Rightarrow> Inl EnvironmentMissing
              | Some e \<Rightarrow> if e = [] then Inl EnvironmentMissing else Inr (Some e))
          | _ \<Rightarrow> if inBody \<noteq> None then Inl EnvironmentNotInBody else Inr (Some switcher))))"

definition targetsFor :: "admin_request \<Rightarrow> route_policy \<Rightarrow> gate_error + string list" where
  "targetsFor req policy =
    (if rp_environmentFrom policy \<noteq> Some EnvTargets then Inr []
     else if js_string (js_prop ''environment'' (readBody req)) \<noteq> None then Inl EnvironmentNotInBody
     else (case js_prop ''targets'' (readBody req) of
         JArr targets \<Rightarrow> Inr (List.map_filter (\<lambda>t. js_string (js_prop ''environment'' t)) targets)
       | _ \<Rightarrow> Inr []))"

datatype workspace_resolution = InWorkspace string | NoWorkspace | Defer

definition workspaceFor ::
  "(jsval \<Rightarrow> issue list) \<Rightarrow> control_db \<Rightarrow> admin_request \<Rightarrow> route_policy \<Rightarrow> gate_error + workspace_resolution" where
  "workspaceFor w db req policy = (case rp_workspace policy of
     FromInstallation \<Rightarrow> Inr NoWorkspace
   | FromCaller \<Rightarrow> Inr NoWorkspace
   | FromPath \<Rightarrow> (case segment (rp_path policy) (ar_path req) ''id'' of
         None \<Rightarrow> Inl NoSuchWorkspace
       | Some i \<Rightarrow> if i = [] then Inl NoSuchWorkspace else Inr (InWorkspace i))
   | FromBody \<Rightarrow> bind_ok (workspaceFromBody db (readBody req)) (\<lambda>i. Inr (InWorkspace i))
   | FromForm \<Rightarrow>
       (case parseFormId w (JStr (opt_default [] (segment (rp_path policy) (ar_path req) ''id''))) of
          Inl _ \<Rightarrow> Inr Defer
        | Inr i \<Rightarrow> (case getForm db i of
             None \<Rightarrow> Inl (NoSuchObject ''form'')
           | Some form \<Rightarrow> Inr (InWorkspace (ow_workspaceId form))))
   | FromQuestion \<Rightarrow>
       (case parseQuestionId w (JStr (opt_default [] (segment (rp_path policy) (ar_path req) ''id''))) of
          Inl _ \<Rightarrow> Inr Defer
        | Inr i \<Rightarrow> (case getQuestion db i of
             None \<Rightarrow> Inl (NoSuchObject ''question'')
           | Some question \<Rightarrow> Inr (InWorkspace (ow_workspaceId question)))))"

section \<open>The decision\<close>

definition request_for :: "cell \<Rightarrow> string option \<Rightarrow> string option \<Rightarrow> access_request" where
  "request_for cell environment formId =
     \<lparr>rq_resource = fst cell, rq_action = snd cell, rq_environment = environment, rq_formId = formId\<rparr>"

definition primary_cell :: "route_policy \<Rightarrow> cell" where
  "primary_cell policy = (rp_resource policy, rp_action policy)"

text \<open>One cell asked of what is held in one workspace, refused with its reason.\<close>

definition require_cell :: "authorizer \<Rightarrow> resolved_membership \<Rightarrow> access_request \<Rightarrow> gate_error + access_decision" where
  "require_cell authorize resolved request =
     bind_ok (decide_in authorize resolved request) (\<lambda>d.
       if \<not> allowed d then Inl (Refused (opt_default ''Refused'' (dc_reason d))) else Inr d)"

definition decideOverTargets ::
  "authorizer \<Rightarrow> query_order \<Rightarrow> control_db \<Rightarrow> route_policy \<Rightarrow> string \<Rightarrow> bool \<Rightarrow> string \<Rightarrow> string list \<Rightarrow>
     gate_error + grant_context" where
  "decideOverTargets authorize qo db policy userId claim workspaceId targets =
    (let resolved = resolveGrants qo db userId workspaceId claim;
         decide = (\<lambda>request. bind_ok (require_cell authorize resolved request) (\<lambda>_. Inr ()));
         primaryScoped = isEnvironmentScoped (rp_resource policy) (rp_action policy);
         cells = (if primaryScoped then [primary_cell policy] else []) @
                 (case rp_also policy of None \<Rightarrow> [] | Some cell \<Rightarrow> [cell])
     in bind_ok (throw_if (primaryScoped \<and> targets = []) NoTargets) (\<lambda>_.
        bind_ok (if primaryScoped then Inr () else decide (request_for (primary_cell policy) None None)) (\<lambda>_.
        bind_ok (each_ok (\<lambda>environment. each_ok (\<lambda>cell. decide (request_for cell (Some environment) None)) cells)
                   targets) (\<lambda>_.
        Inr ((context_of policy)\<lparr>gc_workspaceId := Some workspaceId, gc_environments := Some targets\<rparr>)))))"

definition anyOfContext ::
  "authorizer \<Rightarrow> route_policy \<Rightarrow> resolved_membership list \<Rightarrow> string option \<Rightarrow> gate_error + grant_context" where
  "anyOfContext authorize policy resolved environment =
    (let cells = opt_default [] (rp_anyOf policy)
     in bind_ok (filter_ok (\<lambda>m. any_ok (\<lambda>cell.
            asks (holdsStatement authorize (rm_memberRole m) (rm_grants m) (fst cell) (snd cell))) cells) resolved)
        (\<lambda>holding. if holding = []
           then Inl (Refused (refusalReason (request_for (primary_cell policy) None None)))
           else Inr ((context_of policy)\<lparr>gc_workspaceIds := Some (map rm_workspaceId holding),
             gc_memberships := Some holding, gc_environment := environment\<rparr>)))"

definition endpointUrlVisibility ::
  "authorizer \<Rightarrow> route_policy \<Rightarrow> resolved_membership \<Rightarrow> gate_error + string option" where
  "endpointUrlVisibility authorize policy resolved =
    (if rp_resource policy \<noteq> RsWebhook \<or> rp_action policy \<noteq> ''read'' then Inr None
     else bind_ok (asks (holdsStatement authorize (rm_memberRole resolved) (rm_grants resolved) RsWebhook ''configure''))
       (\<lambda>mayConfigure. Inr (Some (if mayConfigure then ''whole'' else ''masked''))))"

definition decideInOneWorkspace ::
  "authorizer \<Rightarrow> query_order \<Rightarrow> control_db \<Rightarrow> admin_request \<Rightarrow> route_policy \<Rightarrow> string \<Rightarrow> bool \<Rightarrow> string \<Rightarrow>
     string option \<Rightarrow> gate_error + grant_context" where
  "decideInOneWorkspace authorize qo db req policy userId claim workspaceId environment =
    (let formId = (if rp_namesForm policy then segment (rp_path policy) (ar_path req) ''id'' else None);
         resolved = resolveGrants qo db userId workspaceId claim
     in bind_ok (require_cell authorize resolved (request_for (primary_cell policy) environment formId)) (\<lambda>decision.
        bind_ok (case rp_also policy of
            None \<Rightarrow> Inr ()
          | Some cell \<Rightarrow> bind_ok (require_cell authorize resolved (request_for cell environment formId)) (\<lambda>_. Inr ())) (\<lambda>_.
        bind_ok (endpointUrlVisibility authorize policy resolved) (\<lambda>visibility.
        Inr ((context_of policy)\<lparr>gc_workspaceId := Some workspaceId, gc_environment := environment,
          gc_role := dc_role decision, gc_endpointUrl := visibility\<rparr>)))))"

definition claimContext :: "string list \<Rightarrow> admin_request \<Rightarrow> route_policy \<Rightarrow> gate_error + grant_context" where
  "claimContext served req policy = bind_ok (environmentFor served req policy) (\<lambda>environment.
     let named = segment (rp_path policy) (ar_path req) ''id''
     in Inr ((context_of policy)\<lparr>
          gc_workspaceId := (if js_includes (rp_path policy) ''/workspaces/{id}'' then named else None),
          gc_environment := environment\<rparr>))"

text \<open>\<^term>\<open>None\<close> is the deferral: nothing was authorised, and the handler is to refuse.\<close>

definition decideRequest ::
  "authorizer \<Rightarrow> query_order \<Rightarrow> (jsval \<Rightarrow> issue list) \<Rightarrow> control_db \<Rightarrow> string list \<Rightarrow> admin_request \<Rightarrow>
     route_policy \<Rightarrow> string \<Rightarrow> bool \<Rightarrow> gate_error + grant_context option" where
  "decideRequest authorize qo w db served req policy userId claim =
    (if rp_installationOnly policy then
       (if \<not> claim then Inl ClaimOnly
        else bind_ok (claimContext served req policy) (\<lambda>context. Inr (Some context)))
     else bind_ok (environmentFor served req policy) (\<lambda>environment.
       if rp_workspace policy = FromCaller then
         (let resolved = resolveCallerWorkspaces qo db userId claim;
              request = request_for (primary_cell policy) environment None
          in if rp_anyOf policy \<noteq> None
             then bind_ok (anyOfContext authorize policy resolved environment) (\<lambda>context. Inr (Some context))
             else bind_ok (workspacesAllowing authorize resolved request) (\<lambda>workspaceIds.
               if workspaceIds = [] then Inl (Refused (refusalReason request))
               else Inr (Some ((context_of policy)\<lparr>gc_workspaceIds := Some workspaceIds,
                      gc_environment := environment\<rparr>))))
       else bind_ok (workspaceFor w db req policy) (\<lambda>whr. case whr of
           Defer \<Rightarrow> Inr None
         | NoWorkspace \<Rightarrow> Inl NoSuchWorkspace
         | InWorkspace workspaceId \<Rightarrow>
             if rp_environmentFrom policy = Some EnvTargets then
               bind_ok (targetsFor req policy) (\<lambda>targets.
               bind_ok (decideOverTargets authorize qo db policy userId claim workspaceId targets) (\<lambda>context.
                 Inr (Some context)))
             else bind_ok (decideInOneWorkspace authorize qo db req policy userId claim workspaceId environment)
               (\<lambda>context. Inr (Some context)))))"

definition isRoutedAdminPath :: "admin_request \<Rightarrow> bool" where
  "isRoutedAdminPath req =
    (if ar_matched req = [] then js_startsWith (ar_path req) ''/admin/''
     else list_ex (\<lambda>p. case p of None \<Rightarrow> False | Some path \<Rightarrow> \<not> js_endsWith path ''*'') (ar_matched req))"

definition grantCheck ::
  "authorizer \<Rightarrow> query_order \<Rightarrow> (jsval \<Rightarrow> issue list) \<Rightarrow> control_db \<Rightarrow> string list \<Rightarrow> admin_request \<Rightarrow>
     gate_error + grant_context option" where
  "grantCheck authorize qo w db served req = (case ar_principal req of
     None \<Rightarrow> Inl NoPrincipal
   | Some (userId, role) \<Rightarrow>
       if ar_method req @ '' '' @ ar_path req \<in> set GRANT_EXEMPT_ROUTES then Inr None
       else (case policyForRequest (ar_method req) (ar_path req) of
           None \<Rightarrow> if \<not> isRoutedAdminPath req then Inr None
                   else Inl (UndecidedRoute (ar_method req) (ar_path req))
         | Some policy \<Rightarrow>
             decideRequest authorize qo w db served req policy userId (holdsInstallationClaim role)))"

section \<open>What a handler narrows its reads to\<close>

definition workspaceFilterFor :: "grant_context option \<Rightarrow> string list option" where
  "workspaceFilterFor grant = Option.bind grant gc_workspaceIds"

definition workspaceFilterNarrowedTo :: "grant_context option \<Rightarrow> string option \<Rightarrow> string list option" where
  "workspaceFilterNarrowedTo grant workspaceId =
    (let held = workspaceFilterFor grant
     in (case workspaceId of
          None \<Rightarrow> held
        | Some i \<Rightarrow> (case held of
            None \<Rightarrow> Some [i]
          | Some hs \<Rightarrow> if i \<in> set hs then Some [i] else Some [])))"

end
