(* ===== verification/GateFacts.thy ===== *)
theory GateFacts
  imports GrantCheck
begin

text \<open>
  What passing the gate of \<^verbatim>\<open>features/membership/middleware.ts\<close> means: a declarative
  reading of the tables (\<^verbatim>\<open>holds\<close>), the acts a row requires, and the proof that a request
  that gets through with a context has every one of them covered by a grant the caller
  holds there.
\<close>

section \<open>What the tables say a caller holds\<close>

definition in_team :: "control_db \<Rightarrow> string \<Rightarrow> team_row \<Rightarrow> bool" where
  "in_team db userId t \<longleftrightarrow> t \<in> set (db_teams db) \<and>
     (\<exists>tmm \<in> set (db_teamMembers db). tmm_teamId tmm = tm_id t \<and> tmm_userId tmm = userId)"

definition holds :: "control_db \<Rightarrow> string \<Rightarrow> bool \<Rightarrow> string \<Rightarrow> held_grant \<Rightarrow> bool" where
  "holds db userId claim workspaceId g \<longleftrightarrow>
     (\<exists>m \<in> set (db_members db). mb_userId m = userId \<and> mb_organizationId m = workspaceId \<and>
        g = member_grant (mb_role m)) \<or>
     (\<exists>t. in_team db userId t \<and> tm_organizationId t = workspaceId \<and> g = team_grant t) \<or>
     claim \<and> g = CLAIM_GRANT"

lemma team_grants_iff: "t \<in> set (team_grants db userId) \<longleftrightarrow> in_team db userId t"
  by (auto simp: team_grants_def in_team_def)

abbreviation held_of :: "resolved_membership \<Rightarrow> held_grant list" where
  "held_of m \<equiv> held_grants (rm_memberRole m) (rm_grants m)"

lemma held_grants_cases:
  "g \<in> set (held_grants r gs) \<longleftrightarrow> (\<exists>role. r = Some role \<and> g = member_grant role) \<or> g \<in> set gs"
  by (auto simp: held_grants_def split: option.splits)

lemma resolveGrants_holds:
  assumes "query_laws qo" "g \<in> set (held_of (resolveGrants qo db userId workspaceId claim))"
  shows "holds db userId claim workspaceId g"
proof -
  let ?ms = "filter (\<lambda>m. mb_userId m = userId \<and> mb_organizationId m = workspaceId) (db_members db)"
  from assms(1) have order: "set (qo_teams qo ts) = set ts" for ts
    by (simp add: query_laws_def ordering_set)
  from assms(2) consider role where "(case ?ms of [] \<Rightarrow> None | m # _ \<Rightarrow> Some (mb_role m)) = Some role"
      "g = member_grant role"
    | t where "in_team db userId t" "tm_organizationId t = workspaceId" "g = team_grant t"
    | "claim" "g = CLAIM_GRANT"
    by (auto simp: resolveGrants_def resolveMembership_def Let_def held_grants_cases order team_grants_iff
      split: if_splits)
  then show ?thesis
  proof cases
    case 1
    then obtain m ms where "?ms = m # ms" "mb_role m = role" by (auto split: list.splits)
    then have "m \<in> set ?ms" by simp
    with 1 \<open>mb_role m = role\<close> show ?thesis by (auto simp: holds_def)
  qed (auto simp: holds_def)
qed

text \<open>The slots of a caller's workspaces only ever hold what the tables say.\<close>

definition slots_hold :: "control_db \<Rightarrow> string \<Rightarrow> slots \<Rightarrow> bool" where
  "slots_hold db userId byWorkspace \<longleftrightarrow> (\<forall>w h. map_of byWorkspace w = Some h \<longrightarrow>
     (\<forall>g \<in> set (held_grants (fst h) (snd h)). holds db userId False w g))"

lemma slot_of_holds:
  assumes "slots_hold db userId m" "g \<in> set (held_grants (fst (slot_of m w)) (snd (slot_of m w)))"
  shows "holds db userId False w g"
  using assms by (cases "map_of m w") (auto simp: slots_hold_def slot_of_def held_grants_def)

lemma slots_hold_update:
  assumes "slots_hold db userId m" "\<And>g. g \<in> set (held_grants (fst h) (snd h)) \<Longrightarrow> holds db userId False w g"
  shows "slots_hold db userId (AList.update w h m)"
  using assms unfolding slots_hold_def map_of_update by (metis fun_upd_apply option.inject)

lemma slot_steps:
  assumes "slots_hold db userId m"
  shows "r \<in> set (db_members db) \<Longrightarrow> mb_userId r = userId \<Longrightarrow> slots_hold db userId (slot_member m r)"
    and "in_team db userId t \<Longrightarrow> slots_hold db userId (slot_grant m t)"
    and "slots_hold db userId (slot_workspace m w)"
proof -
  note held = slot_of_holds [OF assms, unfolded held_grants_cases]
  show "slots_hold db userId (slot_member m r)" if "r \<in> set (db_members db)" "mb_userId r = userId"
    unfolding slot_member_def
  proof (rule slots_hold_update [OF assms])
    fix g assume "g \<in> set (held_grants (fst (Some (mb_role r), snd (slot_of m (mb_organizationId r))))
      (snd (Some (mb_role r), snd (slot_of m (mb_organizationId r)))))"
    then show "holds db userId False (mb_organizationId r) g"
      using that held [where g = g and w = "mb_organizationId r"] by (auto simp: held_grants_cases holds_def)
  qed
  show "slots_hold db userId (slot_grant m t)" if "in_team db userId t"
    unfolding slot_grant_def Let_def
  proof (rule slots_hold_update [OF assms])
    fix g assume "g \<in> set (held_grants (fst (fst (slot_of m (tm_organizationId t)), snd (slot_of m (tm_organizationId t)) @ [team_grant t]))
      (snd (fst (slot_of m (tm_organizationId t)), snd (slot_of m (tm_organizationId t)) @ [team_grant t])))"
    then show "holds db userId False (tm_organizationId t) g"
      using that held [where g = g and w = "tm_organizationId t"] by (auto simp: held_grants_cases holds_def)
  qed
  show "slots_hold db userId (slot_workspace m w)"
    unfolding slot_workspace_def by (rule slots_hold_update [OF assms]) (rule slot_of_holds [OF assms])
qed

lemma resolveCallerWorkspaces_holds:
  assumes "query_laws qo" "m \<in> set (resolveCallerWorkspaces qo db userId claim)"
    "g \<in> set (held_of m)"
  shows "holds db userId claim (rm_workspaceId m) g"
proof -
  from assms(1) have order: "set (qo_teams qo ts) = set ts" "set (qo_members qo ms) = set ms" for ts ms
    by (simp_all add: query_laws_def ordering_set)
  define rows where "rows = foldl slot_grant
    (foldl slot_member [] (listMemberWorkspacesForUser (qo_members qo) db userId))
    (listGrantsForUser (qo_teams qo) db userId)"
  define all_rows where "all_rows =
    (if claim then foldl slot_workspace rows (qo_workspaces qo (db_workspaces db)) else rows)"
  have "slots_hold db userId []" by (simp add: slots_hold_def)
  then have "slots_hold db userId (foldl slot_member [] (listMemberWorkspacesForUser (qo_members qo) db userId))"
    by (rule foldl_invariant) (auto intro: slot_steps simp: listMemberWorkspacesForUser_def order)
  then have "slots_hold db userId rows" unfolding rows_def
    by (rule foldl_invariant) (auto intro: slot_steps simp: listGrantsForUser_def order team_grants_iff)
  then have slots: "slots_hold db userId all_rows" unfolding all_rows_def
    by (simp add: foldl_invariant slot_steps)
  have keys: "distinct (map fst (foldl slot_member ms rs))" if "distinct (map fst ms)" for ms rs
    using that by (rule foldl_invariant) (simp add: slot_member_def distinct_update)
  have keys2: "distinct (map fst (foldl slot_grant ms rs))" if "distinct (map fst ms)" for ms rs
    using that by (rule foldl_invariant) (simp add: slot_grant_def Let_def distinct_update)
  have keys3: "distinct (map fst (foldl slot_workspace ms rs))" if "distinct (map fst ms)" for ms rs
    using that by (rule foldl_invariant) (simp add: slot_workspace_def distinct_update)
  have "distinct (map fst all_rows)" unfolding all_rows_def rows_def by (simp add: keys keys2 keys3)
  moreover from assms(2) obtain w h where m: "(w, h) \<in> set all_rows" "rm_workspaceId m = w"
      "rm_memberRole m = fst h" "rm_grants m = snd h @ (if claim then [CLAIM_GRANT] else [])"
    unfolding resolveCallerWorkspaces_def Let_def rows_def [symmetric] all_rows_def [symmetric] by auto
  ultimately have "map_of all_rows w = Some h" by simp
  with slots have h: "holds db userId False w g" if "g \<in> set (held_grants (fst h) (snd h))" for g
    using that unfolding slots_hold_def by blast
  from assms(3) m have "g \<in> set (held_grants (fst h) (snd h)) \<or> claim \<and> g = CLAIM_GRANT"
    by (auto simp: held_grants_cases split: if_splits)
  with h m(2) show ?thesis by (auto simp: holds_def)
qed

section \<open>What passing means\<close>

definition act_covered :: "control_db \<Rightarrow> string \<Rightarrow> bool \<Rightarrow> string \<Rightarrow> access_request \<Rightarrow> bool" where
  "act_covered db userId claim workspaceId request \<longleftrightarrow>
     (\<exists>g. holds db userId claim workspaceId g \<and> covers g request)"

lemma asks_Inr [throw_simps]: "asks m = Inr x \<longleftrightarrow> m = Inr x"
  by (cases m) (auto simp: asks_def)

lemma decide_in_allowed:
  assumes "authorize_law authorize" "decide_in authorize m request = Inr d" "allowed d"
  shows "\<exists>g \<in> set (held_of m). covers g request"
proof -
  from assms(2) have "decideAccess authorize (rm_memberRole m) (rm_grants m) request = Inr d"
    by (simp add: decide_in_def throw_simps)
  from decideAccess_allowed [OF assms(1) this assms(3)] show ?thesis by blast
qed

lemma require_cell_Inr:
  "require_cell authorize m request = Inr d \<longleftrightarrow> decide_in authorize m request = Inr d \<and> allowed d"
  by (auto simp: require_cell_def throw_simps split: if_splits)

lemma require_cell_covered:
  assumes "authorize_law authorize" "query_laws qo"
    "require_cell authorize (resolveGrants qo db userId workspaceId claim) request = Inr d"
  shows "act_covered db userId claim workspaceId request"
  using decide_in_allowed [OF assms(1), of "resolveGrants qo db userId workspaceId claim" request d]
    resolveGrants_holds [OF assms(2)] assms(3) unfolding act_covered_def require_cell_Inr by blast

text \<open>The acts a row requires of a caller in the workspace the request is about.\<close>

definition target_cells :: "route_policy \<Rightarrow> cell list" where
  "target_cells row = (if isEnvironmentScoped (rp_resource row) (rp_action row) then [primary_cell row] else []) @
     (case rp_also row of None \<Rightarrow> [] | Some cell \<Rightarrow> [cell])"

definition required_acts :: "route_policy \<Rightarrow> admin_request \<Rightarrow> grant_context \<Rightarrow> access_request set" where
  "required_acts row req ctx =
    (if rp_environmentFrom row = Some EnvTargets then
       (if isEnvironmentScoped (rp_resource row) (rp_action row) then {}
        else {request_for (primary_cell row) None None}) \<union>
       {request_for cell (Some e) None | cell e.
          cell \<in> set (target_cells row) \<and> e \<in> set (opt_default [] (gc_environments ctx))}
     else {request_for cell (gc_environment ctx)
             (if rp_namesForm row then segment (rp_path row) (ar_path req) ''id'' else None) | cell.
          cell \<in> set (row_cells row)})"

lemma decideOverTargets_covered:
  assumes "authorize_law authorize" "query_laws qo"
    "decideOverTargets authorize qo db row userId claim workspaceId targets = Inr ctx"
  shows "gc_policy ctx = row" "gc_workspaceId ctx = Some workspaceId" "gc_environments ctx = Some targets"
    and "rp_environmentFrom row = Some EnvTargets \<Longrightarrow> request \<in> required_acts row req ctx \<Longrightarrow>
      act_covered db userId claim workspaceId request"
proof -
  note cov = require_cell_covered [OF assms(1,2)]
  show ctx: "gc_policy ctx = row" "gc_workspaceId ctx = Some workspaceId" "gc_environments ctx = Some targets"
    using assms(3) by (auto simp: decideOverTargets_def Let_def throw_simps context_of_def)
  assume from_targets: "rp_environmentFrom row = Some EnvTargets" and request: "request \<in> required_acts row req ctx"
  from assms(3) have each: "\<forall>e \<in> set targets. \<forall>cell \<in> set (target_cells row). \<exists>d.
      require_cell authorize (resolveGrants qo db userId workspaceId claim) (request_for cell (Some e) None) = Inr d"
    unfolding decideOverTargets_def Let_def throw_simps target_cells_def by blast
  from assms(3) have prim: "isEnvironmentScoped (rp_resource row) (rp_action row) \<or> (\<exists>d.
      require_cell authorize (resolveGrants qo db userId workspaceId claim)
        (request_for (primary_cell row) None None) = Inr d)"
    by (auto simp: decideOverTargets_def Let_def throw_simps split: if_splits)
  from request from_targets ctx(3) consider
      "\<not> isEnvironmentScoped (rp_resource row) (rp_action row)" "request = request_for (primary_cell row) None None"
    | cell e where "cell \<in> set (target_cells row)" "e \<in> set targets" "request = request_for cell (Some e) None"
    by (simp only: required_acts_def opt_default_simps if_True) (auto split: if_splits)
  then show "act_covered db userId claim workspaceId request"
    by cases (use prim each cov in blast)+
qed

lemma decideInOneWorkspace_covered:
  assumes "authorize_law authorize" "query_laws qo"
    "decideInOneWorkspace authorize qo db req row userId claim workspaceId environment = Inr ctx"
  shows "gc_policy ctx = row" "gc_workspaceId ctx = Some workspaceId" "gc_environment ctx = environment"
    and "rp_environmentFrom row \<noteq> Some EnvTargets \<Longrightarrow> request \<in> required_acts row req ctx \<Longrightarrow>
      act_covered db userId claim workspaceId request"
proof -
  note cov = require_cell_covered [OF assms(1,2)]
  show ctx: "gc_policy ctx = row" "gc_workspaceId ctx = Some workspaceId" "gc_environment ctx = environment"
    using assms(3) by (auto simp: decideInOneWorkspace_def Let_def throw_simps context_of_def)
  define formId where "formId = (if rp_namesForm row then segment (rp_path row) (ar_path req) ''id'' else None)"
  assume "rp_environmentFrom row \<noteq> Some EnvTargets" and request: "request \<in> required_acts row req ctx"
  from assms(3) have "\<forall>cell \<in> set (row_cells row). \<exists>d. require_cell authorize
      (resolveGrants qo db userId workspaceId claim) (request_for cell environment formId) = Inr d"
    unfolding decideInOneWorkspace_def Let_def throw_simps row_cells_def formId_def [symmetric]
    by (auto simp: primary_cell_def throw_simps split: option.splits)
  moreover obtain cell where "cell \<in> set (row_cells row)" "request = request_for cell environment formId"
    using request ctx(3) \<open>rp_environmentFrom row \<noteq> Some EnvTargets\<close>
    unfolding required_acts_def formId_def [symmetric] by auto
  ultimately show "act_covered db userId claim workspaceId request" using cov by blast
qed

lemma holdsStatement_True:
  assumes "authorize_law authorize" "holdsStatement authorize memberRole grants r a = Inr True"
  shows "\<exists>g \<in> set (held_grants memberRole grants). role_may (hg_role g) r a"
proof -
  let ?names = "(case memberRole of None \<Rightarrow> [] | Some role \<Rightarrow> [role]) @ map hg_role grants"
  from any_ok_True [OF assms(2) [unfolded holdsStatement_def]] obtain n
    where n: "n \<in> set ?names" "role_holds authorize r a n = Inr True" by blast
  have "set ?names = hg_role ` set (held_grants memberRole grants)"
    by (cases memberRole) (simp_all add: held_grants_def member_grant_def)
  moreover have "role_may n r a"
    using n(2) assms(1) by (auto simp: role_holds_def declared_role_def role_may_def authorize_law_def
      split: option.splits if_splits)
  ultimately show ?thesis using n(1) by auto
qed

lemma anyOfContext_holds:
  assumes "authorize_law authorize" "anyOfContext authorize row resolved environment = Inr ctx"
  obtains ms where "gc_policy ctx = row" "gc_workspaceIds ctx = Some (map rm_workspaceId ms)" "gc_workspaceId ctx = None"
    "\<And>m. m \<in> set ms \<Longrightarrow> m \<in> set resolved \<and>
      (\<exists>cell \<in> set (opt_default [] (rp_anyOf row)). \<exists>g \<in> set (held_of m). role_may (hg_role g) (fst cell) (snd cell))"
proof -
  let ?p = "\<lambda>m. any_ok (\<lambda>cell. asks (holdsStatement authorize (rm_memberRole m) (rm_grants m) (fst cell) (snd cell)))
    (opt_default [] (rp_anyOf row))"
  from assms(2) obtain ms where ms: "filter_ok ?p resolved = Inr ms"
    and ctx: "ctx = (context_of row)\<lparr>gc_workspaceIds := Some (map rm_workspaceId ms),
       gc_memberships := Some ms, gc_environment := environment\<rparr>"
    by (auto simp: anyOfContext_def Let_def throw_simps split: if_splits)
  have "m \<in> set resolved \<and>
      (\<exists>cell \<in> set (opt_default [] (rp_anyOf row)). \<exists>g \<in> set (held_of m). role_may (hg_role g) (fst cell) (snd cell))"
    if "m \<in> set ms" for m
  proof -
    from ms that have "m \<in> set resolved" "?p m = Inr True" by (auto simp: filter_ok_Inr)
    from any_ok_True [OF this(2)] obtain cell where "cell \<in> set (opt_default [] (rp_anyOf row))"
      "holdsStatement authorize (rm_memberRole m) (rm_grants m) (fst cell) (snd cell) = Inr True"
      by (auto simp: throw_simps)
    with holdsStatement_True [OF assms(1)] \<open>m \<in> set resolved\<close> show ?thesis by blast
  qed
  then show thesis using that [of ms] ctx by (simp add: context_of_def)
qed

lemma workspacesAllowing_covered:
  assumes "authorize_law authorize" "workspacesAllowing authorize resolved request = Inr ids" "i \<in> set ids"
  shows "\<exists>m \<in> set resolved. rm_workspaceId m = i \<and> (\<exists>g \<in> set (held_of m). covers g request)"
proof -
  let ?p = "\<lambda>m. bind_ok (decide_in authorize m request) (\<lambda>d. Inr (allowed d))"
  from assms(2) obtain ms where "filter_ok ?p resolved = Inr ms" "ids = map rm_workspaceId ms"
    by (auto simp: workspacesAllowing_def throw_simps)
  with assms(3) obtain m where "m \<in> set resolved" "rm_workspaceId m = i" "?p m = Inr True"
    by (auto simp: filter_ok_Inr)
  moreover from this(3) obtain d where "decide_in authorize m request = Inr d" "allowed d"
    by (auto simp: throw_simps)
  ultimately show ?thesis using decide_in_allowed [OF assms(1)] by blast
qed

text \<open>The four ways through the gate with a context.\<close>

inductive passed ::
  "query_order \<Rightarrow> (jsval \<Rightarrow> issue list) \<Rightarrow> control_db \<Rightarrow> string list \<Rightarrow> admin_request \<Rightarrow> route_policy \<Rightarrow> string \<Rightarrow>
     bool \<Rightarrow> grant_context \<Rightarrow> bool"
  for qo w db served req row userId claim ctx where
  by_claim: "rp_installationOnly row \<Longrightarrow> claim \<Longrightarrow> passed qo w db served req row userId claim ctx"
| filtered: "\<not> rp_installationOnly row \<Longrightarrow> rp_workspace row = FromCaller \<Longrightarrow> rp_anyOf row = None \<Longrightarrow>
    gc_workspaceId ctx = None \<Longrightarrow> gc_workspaceIds ctx = Some ids \<Longrightarrow> ids \<noteq> [] \<Longrightarrow>
    environmentFor served req row = Inr (gc_environment ctx) \<Longrightarrow>
    (\<And>i. i \<in> set ids \<Longrightarrow>
      act_covered db userId claim i (request_for (primary_cell row) (gc_environment ctx) None)) \<Longrightarrow>
    passed qo w db served req row userId claim ctx"
| by_union: "\<not> rp_installationOnly row \<Longrightarrow> rp_workspace row = FromCaller \<Longrightarrow> rp_anyOf row = Some cells \<Longrightarrow>
    gc_workspaceId ctx = None \<Longrightarrow> gc_workspaceIds ctx = Some ids \<Longrightarrow>
    (\<And>i. i \<in> set ids \<Longrightarrow> \<exists>cell \<in> set cells. \<exists>g. holds db userId claim i g \<and>
      role_may (hg_role g) (fst cell) (snd cell)) \<Longrightarrow>
    passed qo w db served req row userId claim ctx"
| in_workspace: "\<not> rp_installationOnly row \<Longrightarrow> rp_workspace row \<noteq> FromCaller \<Longrightarrow>
    workspaceFor w db req row = Inr (InWorkspace i) \<Longrightarrow> gc_workspaceId ctx = Some i \<Longrightarrow>
    (if rp_environmentFrom row = Some EnvTargets
     then targetsFor req row = Inr (opt_default [] (gc_environments ctx))
     else environmentFor served req row = Inr (gc_environment ctx)) \<Longrightarrow>
    (\<And>request. request \<in> required_acts row req ctx \<Longrightarrow> act_covered db userId claim i request) \<Longrightarrow>
    passed qo w db served req row userId claim ctx"

lemma decideRequest_passed:
  assumes "authorize_law authorize" "query_laws qo"
    "decideRequest authorize qo w db served req row userId claim = Inr (Some ctx)"
  shows "passed qo w db served req row userId claim ctx" "gc_policy ctx = row"
proof -
  note caller = resolveCallerWorkspaces_holds [OF assms(2)]
  have "passed qo w db served req row userId claim ctx \<and> gc_policy ctx = row"
  proof (cases "rp_installationOnly row")
    case True
    with assms(3) show ?thesis
      by (auto simp: decideRequest_def claimContext_def Let_def throw_simps context_of_def
        intro: by_claim split: if_splits)
  next
    case False
    with assms(3) obtain environment where env: "environmentFor served req row = Inr environment"
      by (auto simp: decideRequest_def throw_simps)
    show ?thesis
    proof (cases "rp_workspace row = FromCaller")
      case True
      show ?thesis
      proof (cases "rp_anyOf row")
        case None
        with False True env assms(3) obtain ids where ids: "workspacesAllowing authorize
            (resolveCallerWorkspaces qo db userId claim) (request_for (primary_cell row) environment None) = Inr ids"
          "ids \<noteq> []" and ctx: "ctx = (context_of row)\<lparr>gc_workspaceIds := Some ids, gc_environment := environment\<rparr>"
          by (auto simp: decideRequest_def Let_def throw_simps split: if_splits)
        have "act_covered db userId claim i (request_for (primary_cell row) environment None)" if "i \<in> set ids" for i
          using workspacesAllowing_covered [OF assms(1) ids(1) that] caller unfolding act_covered_def by blast
        with False True None env ids(2) show ?thesis by (auto simp: ctx context_of_def intro: filtered)
      next
        case (Some cells)
        with False True env assms(3) have "anyOfContext authorize row (resolveCallerWorkspaces qo db userId claim)
            environment = Inr ctx"
          by (auto simp: decideRequest_def Let_def throw_simps split: if_splits)
        from anyOfContext_holds [OF assms(1) this] obtain ms where ms: "gc_policy ctx = row"
          "gc_workspaceIds ctx = Some (map rm_workspaceId ms)" "gc_workspaceId ctx = None"
          "\<And>m. m \<in> set ms \<Longrightarrow> m \<in> set (resolveCallerWorkspaces qo db userId claim) \<and>
            (\<exists>cell \<in> set (opt_default [] (rp_anyOf row)). \<exists>g \<in> set (held_of m). role_may (hg_role g) (fst cell) (snd cell))"
          by blast
        have "\<exists>cell \<in> set cells. \<exists>g. holds db userId claim i g \<and> role_may (hg_role g) (fst cell) (snd cell)"
          if "i \<in> set (map rm_workspaceId ms)" for i
          using that ms(4) caller Some by fastforce
        with by_union [OF False True Some ms(3,2)] ms(1) show ?thesis by blast
      qed
    next
      case caller_no: False
      with False env assms(3) obtain whr where w: "workspaceFor w db req row = Inr whr"
        by (auto simp: decideRequest_def throw_simps)
      then obtain i where i: "whr = InWorkspace i"
        using False caller_no env assms(3) by (cases whr) (auto simp: decideRequest_def)
      show ?thesis
      proof (cases "rp_environmentFrom row = Some EnvTargets")
        case True
        with False caller_no env w i assms(3) obtain targets where t: "targetsFor req row = Inr targets"
          "decideOverTargets authorize qo db row userId claim i targets = Inr ctx"
          by (auto simp: decideRequest_def throw_simps)
        from decideOverTargets_covered [OF assms(1,2) t(2)] t(1) True
        show ?thesis using in_workspace [OF False caller_no w [unfolded i]] by simp
      next
        case no_targets: False
        with False caller_no env w i assms(3)
        have "decideInOneWorkspace authorize qo db req row userId claim i environment = Inr ctx"
          by (auto simp: decideRequest_def throw_simps)
        from decideInOneWorkspace_covered [OF assms(1,2) this] env no_targets
        show ?thesis using in_workspace [OF False caller_no w [unfolded i]] by simp
      qed
    qed
  qed
  then show "passed qo w db served req row userId claim ctx" "gc_policy ctx = row" by simp_all
qed

lemma grantCheck_context:
  assumes "grantCheck authorize qo w db served req = Inr (Some ctx)"
  obtains userId role row where "ar_principal req = Some (userId, role)"
    "policyForRequest (ar_method req) (ar_path req) = Some row"
    "decideRequest authorize qo w db served req row userId (holdsInstallationClaim role) = Inr (Some ctx)"
  using assms by (auto simp: grantCheck_def split: option.splits if_splits prod.splits)

section \<open>Production and response data\<close>

definition destinations :: "grant_context \<Rightarrow> string list" where
  "destinations ctx = (case gc_environment ctx of None \<Rightarrow> [] | Some e \<Rightarrow> [e]) @ opt_default [] (gc_environments ctx)"

text \<open>Two readings of the table: where acts of the environment dimension live, and the response rows.\<close>

definition environment_row :: "route_policy \<Rightarrow> bool" where
  "environment_row row \<longleftrightarrow> \<not> rp_installationOnly row \<and> rp_workspace row \<noteq> FromCaller"

definition response_row :: "route_policy \<Rightarrow> bool" where
  "response_row row \<longleftrightarrow> rp_workspace row = FromForm \<and> rp_environmentFrom row = Some EnvSwitcher \<and>
     rp_namesForm row \<and> isFormScoped (rp_resource row) (rp_action row)"

lemma rows_by_dimension:
  "list_all (\<lambda>row. (list_ex (\<lambda>(r, a). r \<noteq> RsResponse \<and> isEnvironmentScoped r a) (row_cells row) \<longrightarrow> environment_row row) \<and>
     (rp_resource row = RsResponse \<and> \<not> rp_installationOnly row \<longrightarrow> response_row row)) ROUTE_POLICIES"
  by code_simp

lemma policy_in_table: "policyForRequest method path = Some row \<Longrightarrow> row \<in> set ROUTE_POLICIES"
  using policyForRequest_Some(1) by (auto simp: candidate_def)

lemma environment_act_row:
  assumes "row \<in> set ROUTE_POLICIES" "cell \<in> set (row_cells row)" "cell \<in> environment_acts"
  shows "\<not> rp_installationOnly row" "rp_workspace row \<noteq> FromCaller"
proof -
  have "list_ex (\<lambda>(r, a). r \<noteq> RsResponse \<and> isEnvironmentScoped r a) (row_cells row)"
    using assms(2,3) unfolding list_ex_iff
    by (intro bexI [of _ cell]) (auto simp: isEnvironmentScoped_iff environment_acts_def)
  with rows_by_dimension assms(1) have "environment_row row" by (simp add: list_all_iff)
  then show "\<not> rp_installationOnly row" "rp_workspace row \<noteq> FromCaller" by (simp_all add: environment_row_def)
qed

lemma decided_contexts:
  "decideOverTargets authorize qo db row userId claim i targets = Inr ctx \<Longrightarrow> gc_environment ctx = None"
  "decideInOneWorkspace authorize qo db req row userId claim i environment = Inr ctx \<Longrightarrow> gc_environments ctx = None"
  by (auto simp: decideOverTargets_def decideInOneWorkspace_def Let_def throw_simps context_of_def)

lemma workspace_context:
  assumes "decideRequest authorize qo w db served req row userId claim = Inr (Some ctx)"
    "\<not> rp_installationOnly row" "rp_workspace row \<noteq> FromCaller"
  shows "rp_environmentFrom row = Some EnvTargets \<Longrightarrow> gc_environment ctx = None"
    "rp_environmentFrom row \<noteq> Some EnvTargets \<Longrightarrow> gc_environments ctx = None"
proof -
  from assms obtain e whr where "environmentFor served req row = Inr e" "workspaceFor w db req row = Inr whr"
    by (auto simp: decideRequest_def throw_simps)
  with assms obtain i where "workspaceFor w db req row = Inr (InWorkspace i)"
    by (cases whr) (auto simp: decideRequest_def)
  with assms \<open>environmentFor served req row = Inr e\<close>
  show "rp_environmentFrom row = Some EnvTargets \<Longrightarrow> gc_environment ctx = None"
    "rp_environmentFrom row \<noteq> Some EnvTargets \<Longrightarrow> gc_environments ctx = None"
    by (auto simp: decideRequest_def throw_simps dest: decided_contexts)
qed

lemma destination_covered:
  assumes "authorize_law authorize" "query_laws qo"
    "decideRequest authorize qo w db served req row userId claim = Inr (Some ctx)" "row \<in> set ROUTE_POLICIES"
    "cell \<in> set (row_cells row)" "cell \<in> environment_acts" "e \<in> set (destinations ctx)"
  obtains i f where "gc_workspaceId ctx = Some i" "act_covered db userId claim i (request_for cell (Some e) f)"
proof -
  note row = environment_act_row [OF assms(4-6)]
  note ctx = workspace_context [OF assms(3) row]
  have passed: "passed qo w db served req row userId claim ctx" by (rule decideRequest_passed [OF assms(1-3)])
  obtain i where i: "gc_workspaceId ctx = Some i"
      "\<And>request. request \<in> required_acts row req ctx \<Longrightarrow> act_covered db userId claim i request"
    using passed row by cases auto
  have "\<exists>f. request_for cell (Some e) f \<in> required_acts row req ctx"
  proof (cases "rp_environmentFrom row = Some EnvTargets")
    case True
    have "cell \<in> set (target_cells row)" using assms(5,6)
      by (auto simp: row_cells_def target_cells_def primary_cell_def isEnvironmentScoped_iff split: option.splits if_splits)
    moreover have "e \<in> set (opt_default [] (gc_environments ctx))"
      using ctx(1) [OF True] assms(7) by (simp add: destinations_def)
    ultimately have "request_for cell (Some e) None \<in> required_acts row req ctx"
      unfolding required_acts_def if_P [OF True] by blast
    then show ?thesis by blast
  next
    case False
    with ctx(2) assms(7) have "gc_environment ctx = Some e" by (auto simp: destinations_def split: option.splits)
    then show ?thesis unfolding required_acts_def if_not_P [OF False] \<open>gc_environment ctx = Some e\<close>
      using assms(5) by blast
  qed
  with i that show thesis by blast
qed

lemma covers_response:
  assumes "covers g (request_for (RsResponse, a) (Some e) (Some f))" "(RsResponse, a) \<in> response_acts"
  shows "in_scope (hg_environments g) e" "in_scope (hg_forms g) f"
    "hg_role g = (if a \<in> {''read'', ''export''} then ''responses.viewer'' else ''responses.eraser'')"
proof -
  from assms have "role_may (hg_role g) RsResponse a" and scope: "in_scope (hg_environments g) e \<and> in_scope (hg_forms g) f"
    unfolding covers_def request_for_def by simp_all
  then show "hg_role g = (if a \<in> {''read'', ''export''} then ''responses.viewer'' else ''responses.eraser'')"
    unfolding role_may_response by auto
  show "in_scope (hg_environments g) e" "in_scope (hg_forms g) f" using scope by simp_all
qed

lemma response_context:
  assumes "authorize_law authorize" "query_laws qo"
    "decideRequest authorize qo w db served req row userId claim = Inr (Some ctx)" "row \<in> set ROUTE_POLICIES"
    "rp_resource row = RsResponse" "\<not> rp_installationOnly row"
  obtains e f form g where "gc_environment ctx = Some e" "segment (rp_path row) (ar_path req) ''id'' = Some f"
    "getForm db f = Some form" "gc_workspaceId ctx = Some (ow_workspaceId form)"
    "holds db userId claim (ow_workspaceId form) g" "covers g (request_for (primary_cell row) (Some e) (Some f))"
    "(rp_resource row, rp_action row) \<in> response_acts"
proof -
  from rows_by_dimension assms(4-6) have "response_row row" by (auto simp: list_all_iff)
  then have row: "rp_workspace row = FromForm" "rp_environmentFrom row = Some EnvSwitcher" "rp_namesForm row"
    and act: "(rp_resource row, rp_action row) \<in> response_acts"
    by (simp_all add: response_row_def isFormScoped_iff)
  have "passed qo w db served req row userId claim ctx" by (rule decideRequest_passed [OF assms(1-3)])
  then obtain i where i: "workspaceFor w db req row = Inr (InWorkspace i)" "gc_workspaceId ctx = Some i"
      "\<And>request. request \<in> required_acts row req ctx \<Longrightarrow> act_covered db userId claim i request"
    using row assms(6) by cases auto
  let ?f = "segment (rp_path row) (ar_path req) ''id''"
  have "request_for (primary_cell row) (gc_environment ctx) ?f \<in> required_acts row req ctx"
    using row by (auto simp: required_acts_def row_cells_def primary_cell_def)
  from i(3) [OF this] obtain g where g: "holds db userId claim i g"
    "covers g (request_for (primary_cell row) (gc_environment ctx) ?f)" by (auto simp: act_covered_def)
  from g(2) act obtain e f where ef: "gc_environment ctx = Some e" "?f = Some f"
    by (auto simp: covers_def request_for_def primary_cell_def)
  with i(1) row obtain form where "getForm db f = Some form" "i = ow_workspaceId form"
    by (auto simp: workspaceFor_def parseFormId_def parseWithCode_Inr_iff pattern_schema_Inr_iff
      split: sum.splits option.splits)
  with that [of e f form g] i(2) g ef act show thesis by simp
qed

text \<open>A path whose id segment is not a well-formed id goes on to the handler with nothing decided.\<close>

lemma malformed_id_defers:
  assumes "\<not> rp_installationOnly row" "rp_workspace row = FromForm" "environmentFor served req row = Inr e"
    "\<not> FormId (opt_default [] (segment (rp_path row) (ar_path req) ''id''))"
  shows "decideRequest authorize qo w db served req row userId claim = Inr None"
proof -
  obtain e where "parseFormId w (JStr (opt_default [] (segment (rp_path row) (ar_path req) ''id''))) = Inl e"
    using assms(4) by (cases "parseFormId w (JStr (opt_default [] (segment (rp_path row) (ar_path req) ''id'')))")
      (auto simp: parseFormId_def parseWithCode_Inr_iff pattern_schema_Inr_iff)
  with assms(1-3) show ?thesis by (simp add: decideRequest_def workspaceFor_def)
qed

section \<open>A small installation\<close>

text \<open>
  A small installation for the concrete runs of the gate: one workspace with one form, an
  editor scoped to the test environment, an approver scoped to production, a reader of the
  responses of that form, and a caller who holds nothing.
\<close>

definition listed :: authorizer where
  "listed st r a = (case map_of st r of None \<Rightarrow> False | Some acts \<Rightarrow> a \<in> set acts)"

lemma listed_law: "authorize_law listed"
  by (auto simp: authorize_law_def listed_def split: option.splits)

definition sample_orders :: query_order where
  "sample_orders = \<lparr>qo_teams = rev, qo_members = (\<lambda>rows. rows), qo_workspaces = (\<lambda>rows. rows)\<rparr>"

lemma sample_orders_laws: "query_laws sample_orders"
  by (simp add: query_laws_def sample_orders_def ordering_law_def)

definition sample_control :: control_db where
  "sample_control = \<lparr>
     db_members = [\<lparr>mb_userId = ''ada'', mb_organizationId = ''w1'', mb_role = ''member''\<rparr>],
     db_teams =
      [\<lparr>tm_id = ''t1'', tm_organizationId = ''w1'', tm_name = ''test.forms.editor'', tm_role = ''forms.editor'',
         tm_environments = [''test''], tm_forms = [''all'']\<rparr>,
       \<lparr>tm_id = ''t2'', tm_organizationId = ''w1'', tm_name = ''prod.forms.approver'', tm_role = ''forms.approver'',
         tm_environments = [''prod''], tm_forms = [''all'']\<rparr>,
       \<lparr>tm_id = ''t3'', tm_organizationId = ''w1'', tm_name = ''all.responses.viewer'', tm_role = ''responses.viewer'',
         tm_environments = [''all''], tm_forms = [''frm_a'']\<rparr>],
     db_teamMembers =
      [\<lparr>tmm_teamId = ''t1'', tmm_userId = ''ada''\<rparr>, \<lparr>tmm_teamId = ''t2'', tmm_userId = ''bea''\<rparr>,
       \<lparr>tmm_teamId = ''t3'', tmm_userId = ''cid''\<rparr>],
     db_workspaces = [\<lparr>ws_id = ''w1'', ws_archived = False\<rparr>],
     db_forms = [\<lparr>ow_id = ''frm_a'', ow_workspaceId = ''w1''\<rparr>],
     db_questions = []\<rparr>"

definition ask :: "string \<Rightarrow> string \<Rightarrow> string \<Rightarrow> jsval \<Rightarrow> admin_request" where
  "ask userId verb path b = \<lparr>ar_method = verb, ar_path = path, ar_query = [],
     ar_principal = Some (userId, None), ar_switcher = Some ''prod'',
     ar_contentType = Some ''application/json'', ar_body = Some b, ar_matched = [Some path]\<rparr>"

definition names_environment :: "string \<Rightarrow> jsval" where
  "names_environment e = JObj [(''environment'', JStr e)]"

abbreviation sample_gate :: "admin_request \<Rightarrow> gate_error + grant_context option" where
  "sample_gate \<equiv> grantCheck listed sample_orders (\<lambda>_. []) sample_control [''prod'', ''test'']"

text \<open>The approver releases to production, the editor does not; the reader reads, the others do not.\<close>

lemma approver_releases:
  "\<exists>ctx. sample_gate (ask ''bea'' ''POST'' ''/admin/forms/frm_a/releases'' (names_environment ''prod'')) = Inr (Some ctx) \<and>
     destinations ctx = [''prod''] \<and> row_cells (gc_policy ctx) = [(RsRelease, ''create'')]"
proof -
  have "(case sample_gate (ask ''bea'' ''POST'' ''/admin/forms/frm_a/releases'' (names_environment ''prod'')) of
      Inr (Some ctx) \<Rightarrow> destinations ctx = [''prod''] \<and> row_cells (gc_policy ctx) = [(RsRelease, ''create'')] | _ \<Rightarrow> False)"
    by code_simp
  then show ?thesis by (auto split: sum.splits option.splits)
qed

lemma editor_refused_in_production:
  "(case sample_gate (ask ''ada'' ''POST'' ''/admin/forms/frm_a/releases'' (names_environment ''prod'')) of
     Inl (Refused _) \<Rightarrow> True | _ \<Rightarrow> False)"
  by code_simp

lemma editor_releases_to_test:
  "(case sample_gate (ask ''ada'' ''POST'' ''/admin/forms/frm_a/releases'' (names_environment ''test'')) of
     Inr (Some ctx) \<Rightarrow> gc_role ctx = Some ''forms.editor'' | _ \<Rightarrow> False)"
  by code_simp

lemma reader_reads:
  "\<exists>ctx. sample_gate (ask ''cid'' ''GET'' ''/admin/forms/frm_a/responses'' JNull) = Inr (Some ctx) \<and>
     rp_resource (gc_policy ctx) = RsResponse \<and> \<not> rp_installationOnly (gc_policy ctx)"
proof -
  have "(case sample_gate (ask ''cid'' ''GET'' ''/admin/forms/frm_a/responses'' JNull) of
      Inr (Some ctx) \<Rightarrow> rp_resource (gc_policy ctx) = RsResponse \<and> \<not> rp_installationOnly (gc_policy ctx) | _ \<Rightarrow> False)"
    by code_simp
  then show ?thesis by (auto split: sum.splits option.splits)
qed

lemma editor_reads_no_response:
  "(case sample_gate (ask ''ada'' ''GET'' ''/admin/forms/frm_a/responses'' JNull) of
     Inl (Refused _) \<Rightarrow> True | _ \<Rightarrow> False)"
  by code_simp

end
