(* ===== verification/AnswerLedger.thy ===== *)
theory AnswerLedger
  imports ServerPrelude Ids Answers
begin

text \<open>
  \<^verbatim>\<open>packages/db/src/queries/answers.ts\<close>: the append-only ledger of answers and retractions.
  A row has the timestamp of the transaction that wrote it and a random id; the current
  answer of a cell, a question in an instance, is in its row that is latest by the pair of
  the two. The database draws the ids, so they are a stream read from a position, as numbers
  in the order of the database.
\<close>

section \<open>The table\<close>

record answer_row =
  ar_id :: nat
  ar_sessionId :: string
  ar_questionId :: question_id
  ar_instanceId :: "instance_id option"
  ar_value :: "answer_value option"
  ar_retracted :: bool
  ar_answeredAt :: int

type_synonym uuid_source = "nat \<Rightarrow> nat"

record answer_table =
  at_rows :: "answer_row list"
  at_draws :: nat

definition isRetraction :: "answer_row \<Rightarrow> bool" where
  "isRetraction row = ar_retracted row"

definition appendAnswer ::
  "uuid_source \<Rightarrow> answer_table \<Rightarrow> string \<Rightarrow> question_id \<Rightarrow> instance_id option \<Rightarrow> answer_value \<Rightarrow> int \<Rightarrow> answer_table" where
  "appendAnswer uuid t sessionId q inst value now = t\<lparr>at_rows := at_rows t @
     [\<lparr>ar_id = uuid (at_draws t), ar_sessionId = sessionId, ar_questionId = q, ar_instanceId = inst,
       ar_value = Some value, ar_retracted = False, ar_answeredAt = now\<rparr>], at_draws := at_draws t + 1\<rparr>"

definition retractAnswer ::
  "uuid_source \<Rightarrow> answer_table \<Rightarrow> string \<Rightarrow> question_id \<Rightarrow> instance_id option \<Rightarrow> int \<Rightarrow> answer_table" where
  "retractAnswer uuid t sessionId q inst now = t\<lparr>at_rows := at_rows t @
     [\<lparr>ar_id = uuid (at_draws t), ar_sessionId = sessionId, ar_questionId = q, ar_instanceId = inst,
       ar_value = None, ar_retracted = True, ar_answeredAt = now\<rparr>], at_draws := at_draws t + 1\<rparr>"

section \<open>The reads\<close>

text \<open>
  \<^verbatim>\<open>distinct on\<close> keeps the first row of each cell in the order of the query, which sorts the
  rows of a cell from the latest to the earliest and otherwise follows a collation.
\<close>

function distinct_on :: "('r \<Rightarrow> 'k) \<Rightarrow> 'r list \<Rightarrow> 'r list" where
  "distinct_on f [] = []"
| "distinct_on f (x # xs) = x # distinct_on f (filter (\<lambda>y. f y \<noteq> f x) xs)"
  by pat_completeness auto
termination by (relation "measure (length \<circ> snd)") (auto simp: le_imp_less_Suc)

definition row_cell :: "answer_row \<Rightarrow> question_id \<times> instance_id option" where
  "row_cell r = (ar_questionId r, ar_instanceId r)"

definition later_row :: "answer_row \<Rightarrow> answer_row \<Rightarrow> bool" where
  "later_row r r' \<longleftrightarrow> ar_answeredAt r' < ar_answeredAt r \<or> (ar_answeredAt r' = ar_answeredAt r \<and> ar_id r' \<le> ar_id r)"

record answer_orders =
  ao_latest :: "answer_row list \<Rightarrow> answer_row list"
  ao_ledger :: "answer_row list \<Rightarrow> answer_row list"

definition answer_order_laws :: "answer_orders \<Rightarrow> bool" where
  "answer_order_laws ao \<longleftrightarrow> ordering_law (ao_latest ao) \<and> ordering_law (ao_ledger ao) \<and>
     (\<forall>rows c. sorted_wrt later_row (filter (\<lambda>r. row_cell r = c) (ao_latest ao rows))) \<and>
     (\<forall>rows. sorted_wrt (\<lambda>r r'. later_row r' r) (ao_ledger ao rows))"

definition rows_of_session :: "answer_row list \<Rightarrow> string \<Rightarrow> answer_row list" where
  "rows_of_session rows sessionId = filter (\<lambda>r. ar_sessionId r = sessionId) rows"

definition note_latest :: "(answer_key \<times> answer_value) list \<Rightarrow> answer_row \<Rightarrow> (answer_key \<times> answer_value) list" where
  "note_latest current row =
    (if ar_retracted row then current
     else case ar_value row of
         None \<Rightarrow> current
       | Some v \<Rightarrow> AList.update (answerKey (ar_questionId row) (ar_instanceId row)) v current)"

definition latestAnswers :: "answer_orders \<Rightarrow> answer_row list \<Rightarrow> string \<Rightarrow> (answer_key \<times> answer_value) list" where
  "latestAnswers ao rows sessionId =
     foldl note_latest [] (distinct_on row_cell (ao_latest ao (rows_of_session rows sessionId)))"

definition answerLedger :: "answer_orders \<Rightarrow> answer_row list \<Rightarrow> string \<Rightarrow> answer_row list" where
  "answerLedger ao rows sessionId = ao_ledger ao (rows_of_session rows sessionId)"

section \<open>The current answer of a cell\<close>

text \<open>What a row says of its cell, and the row a cell is read from.\<close>

definition row_says :: "answer_row \<Rightarrow> answer_value option" where
  "row_says r = (if ar_retracted r then None else ar_value r)"

definition newest :: "answer_row list \<Rightarrow> answer_row \<Rightarrow> bool" where
  "newest rows r \<longleftrightarrow> r \<in> set rows \<and> (\<forall>r' \<in> set rows. row_cell r' = row_cell r \<longrightarrow> later_row r r')"

lemma distinct_on_set:
  "r \<in> set (distinct_on f rows) \<longleftrightarrow> (\<exists>rest. filter (\<lambda>y. f y = f r) rows = r # rest)"
proof (induction f rows rule: distinct_on.induct)
  case (2 f x xs)
  show ?case
  proof (cases "f x = f r")
    case True
    have "r \<notin> set (distinct_on f (filter (\<lambda>y. f y \<noteq> f x) xs))"
      using 2 True by auto
    with True show ?thesis by auto
  next
    case False
    then have "filter (\<lambda>y. f y = f r) (filter (\<lambda>y. f y \<noteq> f x) xs) = filter (\<lambda>y. f y = f r) xs"
      by (auto intro: filter_cong)
    with False 2 show ?thesis by auto
  qed
qed simp

lemma distinct_on_apart: "distinct (map f (distinct_on f rows))"
proof (induction f rows rule: distinct_on.induct)
  case (2 f x xs)
  have "f x \<notin> f ` set (distinct_on f (filter (\<lambda>y. f y \<noteq> f x) xs))"
  proof
    assume "f x \<in> f ` set (distinct_on f (filter (\<lambda>y. f y \<noteq> f x) xs))"
    then obtain r where "f r = f x" "r \<in> set (distinct_on f (filter (\<lambda>y. f y \<noteq> f x) xs))" by auto
    then obtain rest where "filter (\<lambda>y. f y = f x) (filter (\<lambda>y. f y \<noteq> f x) xs) = r # rest"
      by (auto simp: distinct_on_set)
    then show False by simp
  qed
  with 2 show ?case by simp
qed simp

lemma later_row_antisym:
  "later_row r r' \<Longrightarrow> later_row r' r \<Longrightarrow> ar_id r = ar_id r'"
  by (auto simp: later_row_def)

lemma newest_unique:
  assumes "newest rows r" "newest rows r'" "row_cell r = row_cell r'" "distinct (map ar_id rows)"
  shows "r = r'"
proof -
  have "later_row r r'" "later_row r' r" using assms(1-3) by (auto simp: newest_def)
  then have "ar_id r = ar_id r'" by (rule later_row_antisym)
  with assms show ?thesis by (auto simp: newest_def distinct_map inj_on_def)
qed

lemma latest_rows:
  assumes "answer_order_laws ao"
  shows "r \<in> set (distinct_on row_cell (ao_latest ao rows)) \<Longrightarrow> newest rows r"
    "r \<in> set rows \<Longrightarrow> \<exists>r' \<in> set (distinct_on row_cell (ao_latest ao rows)). row_cell r' = row_cell r"
proof -
  have same: "set (ao_latest ao rows) = set rows"
    using assms by (simp add: answer_order_laws_def ordering_set)
  assume "r \<in> set (distinct_on row_cell (ao_latest ao rows))"
  then obtain rest where rest: "filter (\<lambda>y. row_cell y = row_cell r) (ao_latest ao rows) = r # rest"
    by (auto simp: distinct_on_set)
  have sorted: "sorted_wrt later_row (r # rest)"
    using assms unfolding answer_order_laws_def rest [symmetric] by blast
  have members: "set (r # rest) = {y \<in> set rows. row_cell y = row_cell r}"
    using arg_cong [OF rest, of set] same by simp
  have "later_row r r" by (simp add: later_row_def)
  with sorted members show "newest rows r" unfolding newest_def by fastforce
next
  assume "r \<in> set rows"
  then have "r \<in> set (filter (\<lambda>y. row_cell y = row_cell r) (ao_latest ao rows))"
    using assms by (simp add: answer_order_laws_def ordering_set)
  then obtain r' rest where rest: "filter (\<lambda>y. row_cell y = row_cell r) (ao_latest ao rows) = r' # rest"
    by (cases "filter (\<lambda>y. row_cell y = row_cell r) (ao_latest ao rows)") auto
  then have "row_cell r' = row_cell r" by (metis (mono_tags, lifting) filter_eq_Cons_iff)
  with rest show "\<exists>r' \<in> set (distinct_on row_cell (ao_latest ao rows)). row_cell r' = row_cell r"
    by (auto simp: distinct_on_set)
qed

text \<open>
  The ids of the rows are apart, as the primary key keeps them, and the ids of the cells are
  well formed, so that an answer key names one cell.
\<close>

definition answer_cell_key :: "answer_row \<Rightarrow> answer_key" where
  "answer_cell_key r = answerKey (ar_questionId r) (ar_instanceId r)"

definition cell_valid :: "answer_row \<Rightarrow> bool" where
  "cell_valid r \<longleftrightarrow> valid_key_parts (ar_instanceId r, ar_questionId r)"

definition ledger_sound :: "answer_row list \<Rightarrow> bool" where
  "ledger_sound rows \<longleftrightarrow> distinct (map ar_id rows) \<and> list_all cell_valid rows"

lemma answer_cell_key_cell: "cell_valid r \<Longrightarrow> cell_valid r' \<Longrightarrow> answer_cell_key r = answer_cell_key r' \<longleftrightarrow> row_cell r = row_cell r'"
  using ak.enc_eq_iff [of "(ar_instanceId r, ar_questionId r)" "(ar_instanceId r', ar_questionId r')"]
  by (auto simp: answer_cell_key_def row_cell_def cell_valid_def)

lemma note_latest_map:
  "map_of (note_latest m r) = (case row_says r of None \<Rightarrow> map_of m | Some v \<Rightarrow> (map_of m)(answer_cell_key r \<mapsto> v))"
  by (simp add: note_latest_def row_says_def answer_cell_key_def split: option.splits)

lemma note_latest_fold:
  assumes "distinct (map answer_cell_key rs)"
  shows "map_of (foldl note_latest m rs) k = Some v \<longleftrightarrow>
    (\<exists>r \<in> set rs. answer_cell_key r = k \<and> row_says r = Some v) \<or>
    ((\<forall>r \<in> set rs. answer_cell_key r = k \<longrightarrow> row_says r = None) \<and> map_of m k = Some v)"
  using assms
proof (induction rs arbitrary: m)
  case (Cons r rs)
  show ?case
  proof (cases "answer_cell_key r = k")
    case True
    with Cons.prems have "\<forall>r' \<in> set rs. answer_cell_key r' \<noteq> k" by (force simp: image_iff)
    with Cons True show ?thesis by (simp add: note_latest_map split: option.splits)
  next
    case False
    with Cons show ?thesis by (auto simp: note_latest_map split: option.splits)
  qed
qed simp

lemma latestAnswers_iff:
  assumes "answer_order_laws ao" "ledger_sound (rows_of_session rows s)"
  shows "map_of (latestAnswers ao rows s) k = Some v \<longleftrightarrow>
    (\<exists>r. newest (rows_of_session rows s) r \<and> answer_cell_key r = k \<and> row_says r = Some v)"
proof -
  let ?rows = "rows_of_session rows s" and ?firsts = "distinct_on row_cell (ao_latest ao (rows_of_session rows s))"
  note new = latest_rows(1) [OF assms(1), of _ ?rows]
  have valid: "cell_valid r" if "r \<in> set ?rows" for r using that assms(2) by (simp add: ledger_sound_def list_all_iff)
  have "inj_on answer_cell_key (set ?firsts)"
    using distinct_on_apart [of row_cell "ao_latest ao ?rows"] answer_cell_key_cell valid new
    by (auto simp: inj_on_def distinct_map newest_def)
  then have "distinct (map answer_cell_key ?firsts)"
    using distinct_on_apart [of row_cell "ao_latest ao ?rows"] by (simp add: distinct_map)
  from note_latest_fold [OF this, of "[]"]
  have "map_of (latestAnswers ao rows s) k = Some v \<longleftrightarrow> (\<exists>r \<in> set ?firsts. answer_cell_key r = k \<and> row_says r = Some v)"
    by (simp add: latestAnswers_def)
  moreover have "r \<in> set ?firsts" if r: "newest ?rows r" for r
  proof -
    obtain r' where "r' \<in> set ?firsts" "row_cell r' = row_cell r"
      using latest_rows(2) [OF assms(1), of r ?rows] r by (auto simp: newest_def)
    moreover then have "r' = r" using newest_unique [OF new r] assms(2) by (simp add: ledger_sound_def)
    ultimately show ?thesis by simp
  qed
  ultimately show ?thesis using new by blast
qed

lemma rows_of_session_append: "rows_of_session (t @ u) s = rows_of_session t s @ rows_of_session u s"
  by (simp add: rows_of_session_def)

text \<open>A row later than all of its cell takes the cell over; an earlier one changes nothing.\<close>

lemma newest_append_later:
  assumes "\<forall>r' \<in> set rows. row_cell r' = row_cell r \<longrightarrow> later_row r r' \<and> \<not> later_row r' r"
  shows "newest (rows @ [r]) x \<longleftrightarrow> x = r \<or> (newest rows x \<and> row_cell x \<noteq> row_cell r)"
  using assms by (auto simp: newest_def later_row_def)

lemma newest_append_earlier:
  assumes "r' \<in> set rows" "row_cell r' = row_cell r" "later_row r' r" "\<not> later_row r r'"
  shows "newest (rows @ [r]) x \<longleftrightarrow> newest rows x"
proof -
  have "later_row x r" if "newest rows x" "row_cell r = row_cell x"
    using that assms by (auto simp: newest_def later_row_def)
  moreover have "x \<noteq> r" if "newest (rows @ [r]) x"
    using that assms by (auto simp: newest_def)
  ultimately show ?thesis by (auto simp: newest_def)
qed

lemma latest_after_later:
  assumes "answer_order_laws ao" "ledger_sound (rows_of_session (rows @ [r]) s)" "ar_sessionId r = s"
    "\<forall>r' \<in> set (rows_of_session rows s). row_cell r' = row_cell r \<longrightarrow> later_row r r' \<and> \<not> later_row r' r"
  shows "map_of (latestAnswers ao (rows @ [r]) s) = (map_of (latestAnswers ao rows s))(answer_cell_key r := row_says r)"
proof
  fix k
  have rows: "rows_of_session (rows @ [r]) s = rows_of_session rows s @ [r]"
    using assms(3) by (simp add: rows_of_session_def)
  have old: "ledger_sound (rows_of_session rows s)" and valid: "\<forall>x \<in> set (rows_of_session rows s). cell_valid x" "cell_valid r"
    using assms(2) by (simp_all add: rows ledger_sound_def list_all_iff)
  have same: "newest (rows_of_session rows s) x \<Longrightarrow> row_cell x = row_cell r \<longleftrightarrow> answer_cell_key x = answer_cell_key r" for x
    using answer_cell_key_cell valid by (auto simp: newest_def)
  note iff = latestAnswers_iff [OF assms(1,2), unfolded rows newest_append_later [OF assms(4)]]
    latestAnswers_iff [OF assms(1) old]
  show "map_of (latestAnswers ao (rows @ [r]) s) k = ((map_of (latestAnswers ao rows s))(answer_cell_key r := row_says r)) k"
  proof (cases "k = answer_cell_key r")
    case True
    then have "map_of (latestAnswers ao (rows @ [r]) s) k = Some v \<longleftrightarrow> row_says r = Some v" for v
      using same by (auto simp: iff)
    then show ?thesis using True by (metis fun_upd_same not_None_eq)
  next
    case False
    then have "map_of (latestAnswers ao (rows @ [r]) s) k = Some v \<longleftrightarrow> map_of (latestAnswers ao rows s) k = Some v" for v
      using same by (auto simp: iff)
    then show ?thesis using False by (metis fun_upd_other not_None_eq)
  qed
qed

lemma latest_after_earlier:
  assumes "answer_order_laws ao" "ledger_sound (rows_of_session (rows @ [r]) s)" "ar_sessionId r = s"
    "r' \<in> set (rows_of_session rows s)" "row_cell r' = row_cell r" "later_row r' r" "\<not> later_row r r'"
  shows "map_of (latestAnswers ao (rows @ [r]) s) = map_of (latestAnswers ao rows s)"
proof
  fix k
  have rows: "rows_of_session (rows @ [r]) s = rows_of_session rows s @ [r]"
    using assms(3) by (simp add: rows_of_session_def)
  have old: "ledger_sound (rows_of_session rows s)" using assms(2) by (simp add: rows ledger_sound_def)
  have "map_of (latestAnswers ao (rows @ [r]) s) k = Some v \<longleftrightarrow> map_of (latestAnswers ao rows s) k = Some v" for v
    by (simp add: latestAnswers_iff [OF assms(1,2)] latestAnswers_iff [OF assms(1) old] rows
      newest_append_earlier [OF assms(4-7)])
  then show "map_of (latestAnswers ao (rows @ [r]) s) k = map_of (latestAnswers ao rows s) k"
    by (metis not_None_eq)
qed

lemma latest_other_session:
  "ar_sessionId r \<noteq> s \<Longrightarrow> latestAnswers ao (rows @ [r]) s = latestAnswers ao rows s"
  by (simp add: latestAnswers_def rows_of_session_def)

end
