(* ===== verification/ReleaseStore.thy ===== *)
theory ReleaseStore
  imports AnswerLedger
begin

text \<open>
  The release tables of the control schema and their queries under
  \<^verbatim>\<open>packages/db/src/queries\<close>: \<^verbatim>\<open>releases.ts\<close>, \<^verbatim>\<open>release-workflow.ts\<close> and
  \<^verbatim>\<open>release-batches.ts\<close>. A row's sequence is read from the rows its statement sees;
  \<^verbatim>\<open>landed\<close> are the rows other transactions commit meanwhile, which only the unique keys
  meet.
\<close>

datatype db_fault = UniqueViolation | OtherViolation

section \<open>Releases\<close>

record release_row =
  rl_formId :: string
  rl_environment :: string
  rl_version :: int
  rl_sequence :: int
  rl_fromEnvironment :: "string option"
  rl_releasedBy :: string
  rl_approvedBy :: "string option"
  rl_closed :: bool
  rl_releasedAt :: int

record release_input =
  ri_formId :: string
  ri_environment :: string
  ri_version :: int
  ri_releasedBy :: string
  ri_fromEnvironment :: "string option"
  ri_approvedBy :: "string option"
  ri_closed :: bool

text \<open>What the foreign keys of a row refer to.\<close>

record release_keys =
  rk_version :: "string \<Rightarrow> int \<Rightarrow> bool"
  rk_environment :: "string \<Rightarrow> bool"

definition of_pair :: "string \<Rightarrow> string \<Rightarrow> release_row \<Rightarrow> bool" where
  "of_pair fid env r \<longleftrightarrow> rl_formId r = fid \<and> rl_environment r = env"

definition next_sequence :: "release_row list \<Rightarrow> string \<Rightarrow> string \<Rightarrow> int" where
  "next_sequence rows fid env = (case map rl_sequence (filter (of_pair fid env) rows) of
     [] \<Rightarrow> 1 | s # ss \<Rightarrow> foldl max s ss + 1)"

definition release_allowed :: "release_keys \<Rightarrow> release_row \<Rightarrow> bool" where
  "release_allowed K r \<longleftrightarrow> rk_version K (rl_formId r) (rl_version r) \<and> rk_environment K (rl_environment r) \<and>
     (case rl_fromEnvironment r of None \<Rightarrow> True | Some e \<Rightarrow> rk_environment K e \<and> e \<noteq> rl_environment r) \<and>
     0 < rl_version r \<and> 0 < rl_sequence r"

definition sequence_taken :: "release_row list \<Rightarrow> release_row \<Rightarrow> bool" where
  "sequence_taken rows r \<longleftrightarrow>
     list_ex (\<lambda>x. of_pair (rl_formId r) (rl_environment r) x \<and> rl_sequence x = rl_sequence r) rows"

definition release_of :: "release_row list \<Rightarrow> release_input \<Rightarrow> int \<Rightarrow> release_row" where
  "release_of rows i now = \<lparr>rl_formId = ri_formId i, rl_environment = ri_environment i, rl_version = ri_version i,
     rl_sequence = next_sequence rows (ri_formId i) (ri_environment i), rl_fromEnvironment = ri_fromEnvironment i,
     rl_releasedBy = ri_releasedBy i, rl_approvedBy = ri_approvedBy i, rl_closed = ri_closed i, rl_releasedAt = now\<rparr>"

definition insertFormRelease ::
  "release_keys \<Rightarrow> release_row list \<Rightarrow> release_row list \<Rightarrow> release_input \<Rightarrow> int \<Rightarrow> db_fault + release_row list \<times> release_row" where
  "insertFormRelease K landed rows i now =
    (let row = release_of rows i now
     in if \<not> release_allowed K row then Inl OtherViolation
        else if sequence_taken (rows @ landed) row then Inl UniqueViolation
        else Inr (rows @ [row], row))"

definition later_release :: "release_row option \<Rightarrow> release_row \<Rightarrow> release_row option" where
  "later_release best r = (case best of None \<Rightarrow> Some r | Some b \<Rightarrow> if rl_sequence b < rl_sequence r then Some r else Some b)"

definition getReleasedVersion :: "release_row list \<Rightarrow> string \<Rightarrow> string \<Rightarrow> release_row option" where
  "getReleasedVersion rows fid env = foldl later_release None (filter (of_pair fid env) rows)"

record FormEnvironmentState =
  fe_version :: int
  fe_closed :: bool
  fe_releasedAt :: int

definition getFormEnvironmentState :: "release_row list \<Rightarrow> string \<Rightarrow> string \<Rightarrow> FormEnvironmentState option" where
  "getFormEnvironmentState rows fid env = map_option
     (\<lambda>r. \<lparr>fe_version = rl_version r, fe_closed = rl_closed r, fe_releasedAt = rl_releasedAt r\<rparr>)
     (getReleasedVersion rows fid env)"

text \<open>\<^verbatim>\<open>arrange\<close> orders by the form and then from the latest sequence to the first.\<close>

definition environmentStatesByForm ::
  "(release_row list \<Rightarrow> release_row list) \<Rightarrow> release_row list \<Rightarrow> string \<Rightarrow> string list option \<Rightarrow>
     (string \<times> FormEnvironmentState) list" where
  "environmentStatesByForm arrange rows env formIds =
    (if formIds = Some [] then []
     else map (\<lambda>r. (rl_formId r, \<lparr>fe_version = rl_version r, fe_closed = rl_closed r, fe_releasedAt = rl_releasedAt r\<rparr>))
       (distinct_on rl_formId (arrange (filter (\<lambda>r. rl_environment r = env \<and>
          (case formIds of None \<Rightarrow> True | Some ids \<Rightarrow> rl_formId r \<in> set ids)) rows))))"

definition lastReleaseAtByForm :: "release_row list \<Rightarrow> string \<Rightarrow> string list \<Rightarrow> (string \<times> int) list" where
  "lastReleaseAtByForm rows env formIds =
    (if formIds = [] then []
     else let found_rows = filter (\<lambda>r. rl_environment r = env \<and> rl_formId r \<in> set formIds) rows
          in map (\<lambda>f. (f, Max (rl_releasedAt ` set (filter (\<lambda>r. rl_formId r = f) found_rows))))
               (remdups (map rl_formId found_rows)))"

definition setClosedInEnvironment ::
  "release_keys \<Rightarrow> release_row list \<Rightarrow> release_row list \<Rightarrow> string \<Rightarrow> string \<Rightarrow> string \<Rightarrow> bool \<Rightarrow> int \<Rightarrow>
     db_fault + release_row list \<times> release_row option" where
  "setClosedInEnvironment K landed rows fid env actor isClosed now =
    (case getReleasedVersion rows fid env of
       None \<Rightarrow> Inr (rows, None)
     | Some current \<Rightarrow>
         bind_ok (insertFormRelease K landed rows \<lparr>ri_formId = fid, ri_environment = env, ri_version = rl_version current,
           ri_releasedBy = actor, ri_fromEnvironment = None, ri_approvedBy = None, ri_closed = isClosed\<rparr> now)
         (\<lambda>(rows', row). Inr (rows', Some row)))"

definition closeFormInEnvironment ::
  "release_keys \<Rightarrow> release_row list \<Rightarrow> release_row list \<Rightarrow> string \<Rightarrow> string \<Rightarrow> string \<Rightarrow> int \<Rightarrow>
     db_fault + release_row list \<times> release_row option" where
  "closeFormInEnvironment K landed rows fid env closedBy now = setClosedInEnvironment K landed rows fid env closedBy True now"

definition reopenFormInEnvironment ::
  "release_keys \<Rightarrow> release_row list \<Rightarrow> release_row list \<Rightarrow> string \<Rightarrow> string \<Rightarrow> string \<Rightarrow> int \<Rightarrow>
     db_fault + release_row list \<times> release_row option" where
  "reopenFormInEnvironment K landed rows fid env reopenedBy now = setClosedInEnvironment K landed rows fid env reopenedBy False now"

text \<open>The history: \<^verbatim>\<open>lag\<close> is the row before in the same environment, by sequence.\<close>

record history_row =
  hr_row :: release_row
  hr_replacedVersion :: "int option"
  hr_rollback :: bool

definition replaced_version :: "release_row list \<Rightarrow> release_row \<Rightarrow> int option" where
  "replaced_version rows r = map_option rl_version (foldl later_release None
     (filter (\<lambda>x. rl_environment x = rl_environment r \<and> rl_sequence x < rl_sequence r) rows))"

definition history_of :: "release_row list \<Rightarrow> release_row \<Rightarrow> history_row" where
  "history_of rows r = (let replaced = replaced_version rows r
     in \<lparr>hr_row = r, hr_replacedVersion = replaced,
         hr_rollback = (case replaced of None \<Rightarrow> False | Some v \<Rightarrow> rl_version r < v)\<rparr>)"

text \<open>\<^verbatim>\<open>order by released_at desc, sequence desc\<close>.\<close>

definition newer_row :: "release_row \<Rightarrow> release_row \<Rightarrow> bool" where
  "newer_row r r' \<longleftrightarrow> rl_releasedAt r' < rl_releasedAt r \<or>
     (rl_releasedAt r' = rl_releasedAt r \<and> rl_sequence r' \<le> rl_sequence r)"

definition history_order :: "(release_row list \<Rightarrow> release_row list) \<Rightarrow> bool" where
  "history_order arrange \<longleftrightarrow> ordering_law arrange \<and> (\<forall>rows. sorted_wrt newer_row (arrange rows))"

definition listFormReleases ::
  "(release_row list \<Rightarrow> release_row list) \<Rightarrow> release_row list \<Rightarrow> string \<Rightarrow> string option \<Rightarrow> history_row list" where
  "listFormReleases arrange rows fid env =
    (let scoped = filter (\<lambda>r. rl_formId r = fid \<and> (case env of None \<Rightarrow> True | Some e \<Rightarrow> rl_environment r = e)) rows
     in map (history_of scoped) (arrange scoped))"

definition listReleasedVersions :: "release_row list \<Rightarrow> string \<Rightarrow> int list" where
  "listReleasedVersions rows fid = rev (sort (remdups (map rl_version (filter (\<lambda>r. rl_formId r = fid) rows))))"

section \<open>The workflow's revisions\<close>

record workflow_rule =
  wk_environment :: string
  wk_requiresPriorReleaseIn :: "string list"
  wk_allowsDraftPublish :: bool
  wk_allowsInBatch :: bool

record workflow_revision_row =
  wv_revision :: int
  wv_createdAt :: int
  wv_createdBy :: string
  wv_note :: "string option"

record workflow_tables =
  wt_revisions :: "workflow_revision_row list"
  wt_rules :: "(int \<times> workflow_rule) list"

definition latest_revision :: "workflow_revision_row list \<Rightarrow> workflow_revision_row option" where
  "latest_revision rows = foldl (\<lambda>best r. case best of None \<Rightarrow> Some r
     | Some b \<Rightarrow> if wv_revision b < wv_revision r then Some r else Some b) None rows"

definition latestReleaseWorkflowRevision :: "workflow_tables \<Rightarrow> int option" where
  "latestReleaseWorkflowRevision t = map_option wv_revision (latest_revision (wt_revisions t))"

record ReleaseWorkflowRevision =
  rw_revision :: int
  rw_createdAt :: int
  rw_createdBy :: string
  rw_note :: "string option"
  rw_rules :: "workflow_rule list"

definition revision_with :: "workflow_revision_row \<Rightarrow> workflow_rule list \<Rightarrow> ReleaseWorkflowRevision" where
  "revision_with head rules = \<lparr>rw_revision = wv_revision head, rw_createdAt = wv_createdAt head,
     rw_createdBy = wv_createdBy head, rw_note = wv_note head, rw_rules = rules\<rparr>"

definition effectiveReleaseWorkflow ::
  "(workflow_rule list \<Rightarrow> workflow_rule list) \<Rightarrow> workflow_tables \<Rightarrow> ReleaseWorkflowRevision option" where
  "effectiveReleaseWorkflow arrange t = map_option
     (\<lambda>head. revision_with head (arrange (map snd (filter (\<lambda>(v, _). v = wv_revision head) (wt_rules t)))))
     (latest_revision (wt_revisions t))"

definition rules_allowed :: "(string \<Rightarrow> bool) \<Rightarrow> workflow_rule list \<Rightarrow> bool" where
  "rules_allowed environment_exists rules \<longleftrightarrow> list_all (\<lambda>r. environment_exists (wk_environment r)) rules"

definition insertReleaseWorkflowRevision ::
  "(string \<Rightarrow> bool) \<Rightarrow> int list \<Rightarrow> workflow_tables \<Rightarrow> int option \<Rightarrow> string \<Rightarrow> string option \<Rightarrow> workflow_rule list \<Rightarrow> int \<Rightarrow>
     db_fault + workflow_tables \<times> ReleaseWorkflowRevision" where
  "insertReleaseWorkflowRevision environment_exists landed t expected createdBy note rules now =
    (let v = opt_default 0 expected + 1;
         head = \<lparr>wv_revision = v, wv_createdAt = now, wv_createdBy = createdBy, wv_note = note\<rparr>
     in if v \<in> wv_revision ` set (wt_revisions t) \<or> v \<in> set landed then Inl UniqueViolation
        else if v \<le> 0 then Inl OtherViolation
        else if \<not> distinct (map wk_environment rules) then Inl UniqueViolation
        else if \<not> rules_allowed environment_exists rules then Inl OtherViolation
        else Inr (\<lparr>wt_revisions = wt_revisions t @ [head], wt_rules = wt_rules t @ map (Pair v) rules\<rparr>,
                  revision_with head rules))"

section \<open>Stored confirmations\<close>

definition RELEASE_BATCH_RETENTION_MS :: int where
  "RELEASE_BATCH_RETENTION_MS = 7 * 24 * 60 * 60 * 1000"

record 'r release_batch_row =
  rb_principalId :: string
  rb_formId :: string
  rb_idempotencyKey :: string
  rb_intentHash :: string
  rb_result :: 'r
  rb_createdAt :: int

definition batch_key :: "'r release_batch_row \<Rightarrow> string \<times> string \<times> string" where
  "batch_key r = (rb_principalId r, rb_formId r, rb_idempotencyKey r)"

definition getReleaseBatch ::
  "'r release_batch_row list \<Rightarrow> string \<Rightarrow> string \<Rightarrow> string \<Rightarrow> 'r release_batch_row option" where
  "getReleaseBatch rows principalId fid key = List.find (\<lambda>r. batch_key r = (principalId, fid, key)) rows"

definition insertReleaseBatch ::
  "(string \<times> string \<times> string) list \<Rightarrow> 'r release_batch_row list \<Rightarrow> 'r release_batch_row \<Rightarrow>
     db_fault + 'r release_batch_row list" where
  "insertReleaseBatch landed rows r =
    (if batch_key r \<in> batch_key ` set rows \<or> batch_key r \<in> set landed then Inl UniqueViolation else Inr (rows @ [r]))"

definition purgeExpiredReleaseBatches ::
  "'r release_batch_row list \<Rightarrow> int \<Rightarrow> 'r release_batch_row list \<times> nat" where
  "purgeExpiredReleaseBatches rows olderThan =
    (filter (\<lambda>r. \<not> rb_createdAt r < olderThan) rows, length (filter (\<lambda>r. rb_createdAt r < olderThan) rows))"

section \<open>Facts\<close>

definition releases_keyed :: "release_row list \<Rightarrow> bool" where
  "releases_keyed rows \<longleftrightarrow> distinct (map (\<lambda>r. (rl_formId r, rl_environment r, rl_sequence r)) rows)"

lemma of_pair_iff [simp]: "of_pair fid env r \<longleftrightarrow> rl_formId r = fid \<and> rl_environment r = env"
  by (simp add: of_pair_def)

lemma later_release_simps [simp]:
  "later_release None r = Some r"
  "later_release (Some b) r = (if rl_sequence b < rl_sequence r then Some r else Some b)"
  by (simp_all add: later_release_def)

lemma later_release_fold:
  "foldl later_release (Some b) rows = Some r \<Longrightarrow>
     r \<in> set (b # rows) \<and> (\<forall>x \<in> set (b # rows). rl_sequence x \<le> rl_sequence r)"
proof (induction rows arbitrary: b)
  case (Cons a rows)
  show ?case
  proof (cases "rl_sequence b < rl_sequence a")
    case True
    with Cons.prems have "foldl later_release (Some a) rows = Some r" by simp
    from Cons.IH [OF this] True show ?thesis by fastforce
  next
    case False
    with Cons.prems have "foldl later_release (Some b) rows = Some r" by simp
    from Cons.IH [OF this] False show ?thesis by fastforce
  qed
qed simp

lemma later_release_total: "\<exists>r. foldl later_release (Some b) rows = Some r"
  by (induction rows arbitrary: b) auto

lemma latest_release:
  "foldl later_release None rows = Some r \<Longrightarrow> r \<in> set rows \<and> (\<forall>x \<in> set rows. rl_sequence x \<le> rl_sequence r)"
  by (cases rows) (use later_release_fold in auto)

lemma latest_release_None: "foldl later_release None rows = None \<longleftrightarrow> rows = []"
  by (cases rows) (use later_release_total in auto)

lemma getReleasedVersion_Some:
  "getReleasedVersion rows fid env = Some r \<Longrightarrow> r \<in> set rows \<and> rl_formId r = fid \<and> rl_environment r = env \<and>
     (\<forall>x \<in> set rows. rl_formId x = fid \<and> rl_environment x = env \<longrightarrow> rl_sequence x \<le> rl_sequence r)"
  unfolding getReleasedVersion_def by (drule latest_release) auto

lemma getReleasedVersion_None:
  "getReleasedVersion rows fid env = None \<longleftrightarrow> (\<forall>x \<in> set rows. \<not> (rl_formId x = fid \<and> rl_environment x = env))"
  by (simp add: getReleasedVersion_def latest_release_None filter_empty_conv)

lemma getReleasedVersion_append:
  "getReleasedVersion (rows @ [r]) fid env =
    (if of_pair fid env r then later_release (getReleasedVersion rows fid env) r else getReleasedVersion rows fid env)"
  by (simp add: getReleasedVersion_def)

lemma foldl_max_upper: "s \<le> foldl max s ss \<and> (\<forall>x \<in> set ss. (x :: int) \<le> foldl max s ss)"
proof (induction ss arbitrary: s)
  case (Cons a ss)
  from Cons [of "max s a"] show ?case by auto
qed simp

lemma next_sequence_above:
  "x \<in> set rows \<Longrightarrow> of_pair fid env x \<Longrightarrow> rl_sequence x < next_sequence rows fid env"
proof -
  assume x: "x \<in> set rows" "of_pair fid env x"
  then have mem: "rl_sequence x \<in> set (map rl_sequence (filter (of_pair fid env) rows))" by simp
  show ?thesis
  proof (cases "map rl_sequence (filter (of_pair fid env) rows)")
    case Nil
    with mem show ?thesis by simp
  next
    case (Cons s ss)
    with mem foldl_max_upper [of s ss] have "rl_sequence x \<le> foldl max s ss" by auto
    with Cons show ?thesis by (simp add: next_sequence_def)
  qed
qed

text \<open>A release becomes what the environment serves, and leaves every other pair alone.\<close>

lemma insertFormRelease_effect:
  assumes "insertFormRelease K landed rows i now = Inr (rows', row)"
  shows "rows' = rows @ [row]" "row = release_of rows i now" "\<not> sequence_taken (rows @ landed) row" "release_allowed K row"
    "getReleasedVersion rows' (ri_formId i) (ri_environment i) = Some row"
    "(fid, env) \<noteq> (ri_formId i, ri_environment i) \<Longrightarrow> getReleasedVersion rows' fid env = getReleasedVersion rows fid env"
proof -
  show rows: "rows' = rows @ [row]" and row: "row = release_of rows i now" and
    "\<not> sequence_taken (rows @ landed) row" "release_allowed K row"
    using assms by (auto simp: insertFormRelease_def Let_def split: if_splits)
  have "later_release (getReleasedVersion rows (ri_formId i) (ri_environment i)) row = Some row"
  proof (cases "getReleasedVersion rows (ri_formId i) (ri_environment i)")
    case (Some b)
    then have "b \<in> set rows" "of_pair (ri_formId i) (ri_environment i) b" using getReleasedVersion_Some by auto
    from next_sequence_above [OF this] Some show ?thesis by (simp add: row release_of_def)
  qed simp
  then show "getReleasedVersion rows' (ri_formId i) (ri_environment i) = Some row"
    by (simp add: rows getReleasedVersion_append row release_of_def)
  show "(fid, env) \<noteq> (ri_formId i, ri_environment i) \<Longrightarrow> getReleasedVersion rows' fid env = getReleasedVersion rows fid env"
    by (auto simp: rows getReleasedVersion_append row release_of_def)
qed

lemma insertFormRelease_keyed:
  "insertFormRelease K landed rows i now = Inr (rows', row) \<Longrightarrow> releases_keyed rows \<Longrightarrow> releases_keyed rows'"
  using insertFormRelease_effect(1,3) [of K landed rows i now rows' row]
  by (auto simp: releases_keyed_def sequence_taken_def list_ex_iff)

lemma listFormReleases_rows:
  "ordering_law arrange \<Longrightarrow> hr_row ` set (listFormReleases arrange rows fid None) = {r \<in> set rows. rl_formId r = fid}"
  by (auto simp: listFormReleases_def Let_def history_of_def image_image ordering_set)

lemma getReleaseBatch_append:
  "getReleaseBatch (rows @ [r]) p f k = (case getReleaseBatch rows p f k of Some x \<Rightarrow> Some x
     | None \<Rightarrow> if batch_key r = (p, f, k) then Some r else None)"
  by (induction rows) (auto simp: getReleaseBatch_def)

end
