(* ===== verification/A2uiNode.thy ===== *)
theory A2uiNode
  imports Answers
begin

text \<open>
  The structural nodes of a compiled document, \<^verbatim>\<open>packages/a2ui-compiler/src/types.ts\<close>, as the
  renderer walks them (\<^verbatim>\<open>packages/ui/src/repeat/repeat-walk.ts\<close>): a type, props in insertion
  order, and children that are absent, a text, one node or a list of nodes.
\<close>

datatype 'n kids = NoKids | TextKid string | OneKid 'n | Kids "'n list"

datatype a2_node =
  A2Node (nd_type: string) (nd_props: "(string \<times> jsval) list option") (nd_kids: "a2_node kids")

text \<open>The template of a repeating group; the compiler and the renderer spell the type alike.\<close>

definition REPEAT_GROUP_NODE_TYPE :: string where "REPEAT_GROUP_NODE_TYPE = ''RepeatGroup''"

type_synonym props = "(string \<times> jsval) list"

fun childArray :: "'n kids \<Rightarrow> 'n list" where
  "childArray (OneKid n) = [n]"
| "childArray (Kids ns) = ns"
| "childArray _ = []"

definition mapChildren :: "('n \<Rightarrow> 'm) \<Rightarrow> 'n kids \<Rightarrow> 'm kids" where
  "mapChildren f children = map_kids f children"

definition node_prop :: "a2_node \<Rightarrow> string \<Rightarrow> jsval option" where
  "node_prop node key = Option.bind (nd_props node) (\<lambda>props. map_of props key)"

definition stringProp :: "a2_node \<Rightarrow> string \<Rightarrow> string option" where
  "stringProp node key = (case node_prop node key of Some (JStr s) \<Rightarrow> Some s | _ \<Rightarrow> None)"

definition numberProp :: "a2_node \<Rightarrow> string \<Rightarrow> jsnum option" where
  "numberProp node key = (case node_prop node key of Some (JNum n) \<Rightarrow> Some n | _ \<Rightarrow> None)"

text \<open>\<^verbatim>\<open>{ ...props, key: value }\<close>\<close>

definition with_prop :: "string \<Rightarrow> jsval \<Rightarrow> a2_node \<Rightarrow> a2_node" where
  "with_prop key value node =
     A2Node (nd_type node) (Some (AList.update key value (opt_default [] (nd_props node)))) (nd_kids node)"

text \<open>Every field name of a tree, in document order.\<close>

definition own_name :: "a2_node \<Rightarrow> string list" where
  "own_name node = (case stringProp node ''name'' of None \<Rightarrow> [] | Some s \<Rightarrow> [s])"

primrec field_names :: "a2_node \<Rightarrow> string list" where
  "field_names (A2Node t props children) =
     own_name (A2Node t props NoKids) @ concat (childArray (map_kids field_names children))"

text \<open>Texts with placeholders.\<close>

function replace_all :: "string \<Rightarrow> string \<Rightarrow> string \<Rightarrow> string" where
  "replace_all pat new s =
     (if pat = [] \<or> s = [] then s
      else if take (length pat) s = pat then new @ replace_all pat new (drop (length pat) s)
      else hd s # replace_all pat new (tl s))"
  by pat_completeness auto
termination
  by (relation "measure (\<lambda>(pat, new, s). length s)") (auto simp: neq_Nil_conv)

declare replace_all.simps [simp del]

text \<open>\<^verbatim>\<open>replaceAll(/\s+/gu, " ").trim()\<close>: what is left of a template without its placeholder.\<close>

function collapse_spaces :: "string \<Rightarrow> string" where
  "collapse_spaces s =
     (if s = [] then []
      else if is_js_space (hd s) then CHR '' '' # collapse_spaces (dropWhile is_js_space s)
      else hd s # collapse_spaces (tl s))"
  by pat_completeness auto
termination
proof (relation "measure length", goal_cases)
  case (2 s)
  then obtain c cs where s: "s = c # cs" by (cases s) auto
  have "length (dropWhile is_js_space cs) \<le> length cs" by (rule length_dropWhile_le)
  with 2 s show ?case by simp
qed auto

declare collapse_spaces.simps [simp del]

definition template_noun :: "string \<Rightarrow> string \<Rightarrow> string" where
  "template_noun placeholder template = js_trim (collapse_spaces (replace_all placeholder '' '' template))"

section \<open>Facts\<close>

lemma childArray_map_kids [simp]: "childArray (map_kids f ks) = map f (childArray ks)"
  by (cases ks) simp_all

lemma set_kids_childArray: "set_kids ks = set (childArray ks)"
  by (cases ks) simp_all

lemma field_names_node:
  "field_names n = own_name n @ concat (map field_names (childArray (nd_kids n)))"
  by (cases n) (simp add: own_name_def stringProp_def node_prop_def)

lemma node_prop_with [simp]:
  "node_prop (with_prop k v n) k' = (if k' = k then Some v else node_prop n k')"
  "nd_type (with_prop k v n) = nd_type n" "nd_kids (with_prop k v n) = nd_kids n"
  by (cases "nd_props n"; simp add: with_prop_def node_prop_def opt_default_def)+

end
