(* ===== verification/SafePattern.thy ===== *)
theory SafePattern
  imports Answers "HOL-Library.Extended_Nat"
begin

text \<open>
  \<^verbatim>\<open>packages/core/src/safe-pattern.ts\<close>: the scanner that accepts only patterns without the
  constructs it takes to backtrack catastrophically, the respelling of character classes for
  the \<^verbatim>\<open>v\<close> flag and the search for the class-set operators.

  Whether a pattern compiles is the host's regular expression engine; the code only asks, so
  the answers for the two flags are the arguments \<open>compiles_u\<close> and \<open>compiles_v\<close>. Each
  of the three \<^verbatim>\<open>while\<close> loops is a step function on the loop's variables and a loop function
  that runs it while the index is below the length.
\<close>

definition SAFE_PATTERN_MAX_LENGTH :: nat where "SAFE_PATTERN_MAX_LENGTH = 256"
definition SAFE_PATTERN_MAX_BOUND :: nat where "SAFE_PATTERN_MAX_BOUND = 1000"
definition SAFE_PATTERN_MAX_COMPOSITE_BOUND :: nat where "SAFE_PATTERN_MAX_COMPOSITE_BOUND = 32"

datatype safe_pattern_code = PATTERN_INVALID | PATTERN_UNSUPPORTED

record safe_pattern_issue =
  sp_code :: safe_pattern_code
  sp_message :: string

definition unsupported :: "string \<Rightarrow> safe_pattern_issue" where
  "unsupported message = \<lparr>sp_code = PATTERN_UNSUPPORTED, sp_message = message\<rparr>"

definition invalid :: "string \<Rightarrow> safe_pattern_issue" where
  "invalid message = \<lparr>sp_code = PATTERN_INVALID, sp_message = message\<rparr>"

section \<open>Reading a pattern by index\<close>

definition char_at :: "string \<Rightarrow> nat \<Rightarrow> char option" where
  "char_at p i = (if i < length p then Some (p ! i) else None)"

text \<open>\<^verbatim>\<open>indexOf(c, from)\<close>, with nothing for the \<open>-1\<close> of the language.\<close>

definition index_of :: "string \<Rightarrow> char \<Rightarrow> nat \<Rightarrow> nat option" where
  "index_of p c from =
     (if from \<le> length p \<and> c \<in> set (drop from p)
      then Some (from + length (takeWhile (\<lambda>d. d \<noteq> c) (drop from p))) else None)"

lemma index_of_bounds: "index_of p c from = Some i \<Longrightarrow> from \<le> i \<and> i < length p \<and> p ! i = c"
proof -
  assume *: "index_of p c from = Some i"
  let ?t = "takeWhile (\<lambda>d. d \<noteq> c) (drop from p)"
  from * have c: "c \<in> set (drop from p)" "from \<le> length p" and i: "i = from + length ?t"
    by (auto simp: index_of_def split: if_splits)
  then have lt: "length ?t < length (drop from p)"
    by (metis (mono_tags, lifting) length_takeWhile_le nat_less_le set_takeWhileD takeWhile_eq_take take_all)
  then have "\<not> drop from p ! length ?t \<noteq> c"
    using nth_length_takeWhile by blast
  with lt i c(2) show ?thesis by simp
qed

section \<open>The scanner\<close>

definition brace_body :: "string \<Rightarrow> enat option" where
  "brace_body body =
     (let ds = takeWhile is_digit body; rest = dropWhile is_digit body in
      if ds = [] then None
      else if rest = [] then Some (enat (digits_val ds))
      else if hd rest \<noteq> CHR '','' \<or> \<not> list_all is_digit (tl rest) then None
      else if tl rest = [] then Some \<infinity>
      else Some (enat (digits_val (tl rest))))"

definition parseBraceQuantifier :: "string \<Rightarrow> nat \<Rightarrow> (nat \<times> enat) option" where
  "parseBraceQuantifier pattern start =
     (case index_of pattern CHR ''}'' start of
        None \<Rightarrow> None
      | Some close \<Rightarrow>
          map_option (\<lambda>bound. (close + 1, bound)) (brace_body (js_slice (start + 1) close pattern)))"

text \<open>
  The variables of the loop. The stack of group frames is its list of \<^verbatim>\<open>composite\<close> flags, the
  innermost first. A stop is a reported issue or the exception of the frame guard.
\<close>

record scan =
  frames :: "bool list"
  closedGroupComposite :: "bool option"
  scan_i :: nat

datatype scan_stop = Report safe_pattern_issue | Throw

definition applyQuantifier :: "enat \<Rightarrow> scan \<Rightarrow> scan_stop + scan" where
  "applyQuantifier bound s =
     (if bound \<noteq> \<infinity> \<and> enat SAFE_PATTERN_MAX_BOUND < bound
      then Inl (Report (unsupported ''Quantifier bound exceeds 1000''))
      else if closedGroupComposite s = Some True \<and> bound = \<infinity>
      then Inl (Report (unsupported
        ''Unbounded repetition of a group containing '|' or another quantifier is not supported''))
      else if closedGroupComposite s = Some True \<and> enat SAFE_PATTERN_MAX_COMPOSITE_BOUND < bound
      then Inl (Report (unsupported
        ''Repetition of a group containing '|' or another quantifier is capped at {..32}''))
      else (case frames s of
              [] \<Rightarrow> Inl Throw
            | _ # fs \<Rightarrow> Inr (s\<lparr>frames := True # fs, closedGroupComposite := None\<rparr>)))"

text \<open>The inner loop over a character class, from the first element to its closing bracket.\<close>

function class_end :: "string \<Rightarrow> nat \<Rightarrow> nat" where
  "class_end p i =
     (if i < length p \<and> p ! i \<noteq> CHR '']''
      then class_end p (i + (if p ! i = CHR 0x5C then 2 else 1)) else i)"
  by pat_completeness auto
termination
  by (relation "measure (\<lambda>(p, i). length p - i)") auto

declare class_end.simps [simp del]

lemma class_end_ge: "i \<le> class_end p i"
proof (induction p i rule: class_end.induct)
  case (1 p i)
  then show ?case by (subst class_end.simps) (auto dest: order_trans [rotated])
qed

text \<open>\<open>opt ? 2 : 1\<close>, the width of a quantifier mark with an optional lazy mark after it.\<close>

definition lazy_width :: "string \<Rightarrow> nat \<Rightarrow> nat" where
  "lazy_width p i = (if char_at p (i + 1) = Some (CHR ''?'') then 2 else 1)"

definition then_at :: "nat \<Rightarrow> scan_stop + scan \<Rightarrow> scan_stop + scan" where
  "then_at i r = map_sum id (\<lambda>s. s\<lparr>scan_i := i\<rparr>) r"

definition scan_escape :: "string \<Rightarrow> scan \<Rightarrow> scan_stop + scan" where
  "scan_escape p s =
     (let i = scan_i s in
      case char_at p (i + 1) of
        None \<Rightarrow> Inl (Report (invalid ''Pattern ends with a dangling backslash''))
      | Some nxt \<Rightarrow>
          if 49 \<le> (of_char nxt :: nat) \<and> (of_char nxt :: nat) \<le> 57
          then Inl (Report (unsupported ''Backreferences are not supported''))
          else if nxt = CHR ''k''
          then Inl (Report (unsupported ''Named backreferences are not supported''))
          else if nxt \<in> {CHR ''p'', CHR ''P'', CHR ''u''} \<and> char_at p (i + 2) = Some (CHR ''{'')
          then (case index_of p (CHR ''}'') (i + 2) of
                  None \<Rightarrow> Inl (Report (invalid ''Unterminated brace escape''))
                | Some close \<Rightarrow> Inr (s\<lparr>scan_i := close + 1, closedGroupComposite := None\<rparr>))
          else Inr (s\<lparr>scan_i := i + 2, closedGroupComposite := None\<rparr>))"

definition scan_class :: "string \<Rightarrow> scan \<Rightarrow> scan_stop + scan" where
  "scan_class p s =
     (let i = scan_i s;
          first = i + (if char_at p (i + 1) = Some (CHR ''^'') then 2 else 1);
          close = class_end p first in
      if length p \<le> close then Inl (Report (invalid ''Unterminated character class''))
      else Inr (s\<lparr>scan_i := close + 1, closedGroupComposite := None\<rparr>))"

definition scan_open :: "string \<Rightarrow> scan \<Rightarrow> scan_stop + scan" where
  "scan_open p s =
     (let i = scan_i s in
      if char_at p (i + 1) = Some (CHR ''?'') then
        (let third = char_at p (i + 2); fourth = char_at p (i + 3) in
         if third \<in> {Some (CHR ''=''), Some (CHR ''!'')}
         then Inl (Report (unsupported ''Lookahead assertions are not supported''))
         else if third = Some (CHR ''<'') \<and> fourth \<in> {Some (CHR ''=''), Some (CHR ''!'')}
         then Inl (Report (unsupported ''Lookbehind assertions are not supported''))
         else Inr (s\<lparr>scan_i := i + 3, frames := False # frames s, closedGroupComposite := None\<rparr>))
      else Inr (s\<lparr>scan_i := i + 1, frames := False # frames s, closedGroupComposite := None\<rparr>))"

definition scan_close :: "scan \<Rightarrow> scan_stop + scan" where
  "scan_close s =
     (case frames s of
        inner # outer # fs \<Rightarrow>
          Inr (s\<lparr>scan_i := scan_i s + 1, frames := (outer \<or> inner) # fs,
                closedGroupComposite := Some inner\<rparr>)
      | _ \<Rightarrow> Inl (Report (invalid ''Unbalanced group'')))"

definition scan_bar :: "scan \<Rightarrow> scan_stop + scan" where
  "scan_bar s =
     (case frames s of
        [] \<Rightarrow> Inl Throw
      | _ # fs \<Rightarrow> Inr (s\<lparr>scan_i := scan_i s + 1, frames := True # fs, closedGroupComposite := None\<rparr>))"

definition scan_brace :: "string \<Rightarrow> scan \<Rightarrow> scan_stop + scan" where
  "scan_brace p s =
     (case parseBraceQuantifier p (scan_i s) of
        None \<Rightarrow> Inl (Report (invalid ''Malformed bounded quantifier''))
      | Some (end_at, bound) \<Rightarrow>
          then_at (end_at + (if char_at p end_at = Some (CHR ''?'') then 1 else 0))
            (applyQuantifier bound s))"

definition scan_step :: "string \<Rightarrow> scan \<Rightarrow> scan_stop + scan" where
  "scan_step p s =
     (let i = scan_i s; ch = p ! i in
      if ch = CHR 0x5C then scan_escape p s
      else if ch = CHR ''['' then scan_class p s
      else if ch = CHR ''('' then scan_open p s
      else if ch = CHR '')'' then scan_close s
      else if ch = CHR ''|'' then scan_bar s
      else if ch = CHR ''*'' \<or> ch = CHR ''+''
      then then_at (i + lazy_width p i) (applyQuantifier \<infinity> s)
      else if ch = CHR ''?'' then then_at (i + lazy_width p i) (applyQuantifier 1 s)
      else if ch = CHR ''{'' then scan_brace p s
      else Inr (s\<lparr>scan_i := i + 1, closedGroupComposite := None\<rparr>))"

lemma applyQuantifier_i: "applyQuantifier m s = Inr s' \<Longrightarrow> scan_i s' = scan_i s"
  by (auto simp: applyQuantifier_def split: if_splits list.splits)

lemma then_at_Inr_iff: "then_at i r = Inr s' \<longleftrightarrow> (\<exists>s. r = Inr s \<and> s' = s\<lparr>scan_i := i\<rparr>)"
  by (cases r) (auto simp: then_at_def)

lemma then_at_Inl_iff: "then_at i r = Inl e \<longleftrightarrow> r = Inl e"
  by (cases r) (auto simp: then_at_def)

lemma lazy_width_pos: "0 < lazy_width p i"
  by (simp add: lazy_width_def)

lemma parseBraceQuantifier_end: "parseBraceQuantifier p i = Some (j, m) \<Longrightarrow> i < j"
  by (auto simp: parseBraceQuantifier_def split: option.splits dest: index_of_bounds)

lemma if_mem: "x \<in> A \<Longrightarrow> y \<in> A \<Longrightarrow> (if b then x else y) \<in> A"
  by simp

text \<open>The step is one of its branches; the facts below are one line per branch.\<close>

lemma scan_step_cases:
  "scan_step p s \<in>
     {scan_escape p s, scan_class p s, scan_open p s, scan_close s, scan_bar s, scan_brace p s,
      then_at (scan_i s + lazy_width p (scan_i s)) (applyQuantifier \<infinity> s),
      then_at (scan_i s + lazy_width p (scan_i s)) (applyQuantifier 1 s),
      Inr (s\<lparr>scan_i := scan_i s + 1, closedGroupComposite := None\<rparr>)}"
  unfolding scan_step_def Let_def by (intro if_mem) (simp_all only: insert_iff simp_thms)

lemma scan_escape_progress: "scan_escape p s = Inr s' \<Longrightarrow> scan_i s < scan_i s'"
  by (auto simp: scan_escape_def Let_def split: if_splits option.splits dest: index_of_bounds)

lemma scan_class_progress: "scan_class p s = Inr s' \<Longrightarrow> scan_i s < scan_i s'"
proof -
  assume *: "scan_class p s = Inr s'"
  let ?first = "scan_i s + (if char_at p (scan_i s + 1) = Some (CHR ''^'') then 2 else 1)"
  from * have "scan_i s' = class_end p ?first + 1"
    by (auto simp: scan_class_def Let_def split: if_splits)
  moreover have "scan_i s < ?first" by simp
  ultimately show ?thesis using class_end_ge [of ?first p] by linarith
qed

lemma scan_open_progress: "scan_open p s = Inr s' \<Longrightarrow> scan_i s < scan_i s'"
  by (auto simp: scan_open_def Let_def split: if_splits)

lemma scan_close_progress: "scan_close s = Inr s' \<Longrightarrow> scan_i s < scan_i s'"
  by (auto simp: scan_close_def split: list.splits)

lemma scan_bar_progress: "scan_bar s = Inr s' \<Longrightarrow> scan_i s < scan_i s'"
  by (auto simp: scan_bar_def split: list.splits)

lemma scan_brace_progress: "scan_brace p s = Inr s' \<Longrightarrow> scan_i s < scan_i s'"
  by (auto simp: scan_brace_def then_at_Inr_iff split: option.splits dest!: parseBraceQuantifier_end)

lemma scan_step_progress: "scan_step p s = Inr s' \<Longrightarrow> scan_i s < scan_i s'"
  using scan_step_cases [of p s]
  by (auto simp: then_at_Inr_iff lazy_width_pos eq_commute [of "Inr s'"]
      dest: scan_escape_progress scan_class_progress scan_open_progress scan_close_progress
        scan_bar_progress scan_brace_progress applyQuantifier_i)

function scan_loop :: "string \<Rightarrow> scan \<Rightarrow> scan_stop + scan" where
  "scan_loop p s =
     (if scan_i s < length p then
        (case scan_step p s of Inl e \<Rightarrow> Inl e | Inr s' \<Rightarrow> scan_loop p s')
      else Inr s)"
  by pat_completeness auto
termination
  by (relation "measure (\<lambda>(p, s). length p - scan_i s)") (auto dest: scan_step_progress)

declare scan_loop.simps [simp del]

definition scan_init :: scan where
  "scan_init = \<lparr>frames = [False], closedGroupComposite = None, scan_i = 0\<rparr>"

datatype pattern_verdict = Accepted | Refused safe_pattern_issue | Thrown

definition checkSafePattern :: "(string \<Rightarrow> bool) \<Rightarrow> string \<Rightarrow> pattern_verdict" where
  "checkSafePattern compiles_u pattern =
     (if SAFE_PATTERN_MAX_LENGTH < length pattern
      then Refused (unsupported ''Pattern exceeds 256 characters'')
      else if \<not> compiles_u pattern
      then Refused (invalid ''Pattern does not compile as a regular expression (unicode mode)'')
      else (case scan_loop pattern scan_init of
              Inl (Report issue) \<Rightarrow> Refused issue
            | Inl Throw \<Rightarrow> Thrown
            | Inr _ \<Rightarrow> Accepted))"

definition isSafePattern :: "(string \<Rightarrow> bool) \<Rightarrow> string \<Rightarrow> bool" where
  "isSafePattern compiles_u pattern \<longleftrightarrow> checkSafePattern compiles_u pattern = Accepted"

interpretation sp: scanner "scan_step p" scan_i "length p" "scan_loop p" for p
  by unfold_locales (simp add: scan_step_progress, subst scan_loop.simps, simp)

text \<open>The frame guard is unreachable: every step keeps a frame on the stack.\<close>

definition keeps_frame :: "scan_stop + scan \<Rightarrow> bool" where
  "keeps_frame r = (case r of Inl e \<Rightarrow> e \<noteq> Throw | Inr s \<Rightarrow> frames s \<noteq> [])"

lemma keeps_frame_parts:
  assumes "frames s \<noteq> []"
  shows "keeps_frame (scan_escape p s)" "keeps_frame (scan_class p s)" "keeps_frame (scan_open p s)"
    "keeps_frame (scan_close s)" "keeps_frame (scan_bar s)"
    "keeps_frame (then_at i (applyQuantifier m s))"
  using assms
  by (auto simp: keeps_frame_def scan_escape_def scan_class_def scan_open_def scan_close_def
      scan_bar_def then_at_def applyQuantifier_def Let_def split: option.splits list.splits)

lemma keeps_frame_step: "frames s \<noteq> [] \<Longrightarrow> keeps_frame (scan_step p s)"
proof -
  assume fs: "frames s \<noteq> []"
  have "keeps_frame (scan_brace p s)"
    using keeps_frame_parts(6) [OF fs]
    by (auto simp: scan_brace_def split: option.splits) (simp add: keeps_frame_def)
  then show ?thesis
    using scan_step_cases [of p s] keeps_frame_parts [OF fs] fs
    by (auto simp: keeps_frame_def [of "Inr _"])
qed

lemma scan_loop_no_throw: "scan_loop p scan_init \<noteq> Inl Throw"
  using sp.loop_outcome [where P = "\<lambda>s. frames s \<noteq> []" and Q = "\<lambda>r. r \<noteq> Throw" and s = scan_init
      and p = p] keeps_frame_step [of _ p]
  by (fastforce simp: scan_init_def keeps_frame_def)

section \<open>The spelling for the v flag\<close>

definition compilesUnderV :: "(string \<Rightarrow> bool) \<Rightarrow> string \<Rightarrow> bool" where
  "compilesUnderV compiles_v pattern = compiles_v pattern"

definition V_RESERVED_IN_CLASS :: "char set" where
  "V_RESERVED_IN_CLASS = set ''()[{}/|''"

definition V_RESERVED_WHEN_DOUBLED :: "char set" where
  "V_RESERVED_WHEN_DOUBLED = set ''&!#$%*+,.:;<=>?@^`~''"

definition BACKSLASH :: char where
  "BACKSLASH = CHR 0x5C"

definition respellClassElement :: "char \<Rightarrow> char option \<Rightarrow> bool \<Rightarrow> string \<times> nat" where
  "respellClassElement ch nxt firstElement =
     (if ch = CHR ''-''
      then (if firstElement \<or> nxt = Some (CHR '']'') then [BACKSLASH, CHR ''-''] else ''-'', 1)
      else if ch \<in> V_RESERVED_IN_CLASS then ([BACKSLASH, ch], 1)
      else if ch \<in> V_RESERVED_WHEN_DOUBLED \<and> nxt = Some ch
      then ([BACKSLASH, ch, BACKSLASH, ch], 2)
      else ([ch], 1))"

record respell =
  rs_out :: string
  inClass :: bool
  firstElement :: bool
  rs_i :: nat

definition respell_step :: "string \<Rightarrow> respell \<Rightarrow> string + respell" where
  "respell_step p s =
     (let i = rs_i s; ch = p ! i in
      if ch = BACKSLASH
      then Inr (s\<lparr>rs_out := rs_out s @ js_slice i (i + 2) p, rs_i := i + 2, firstElement := False\<rparr>)
      else if \<not> inClass s
      then (let negated = (ch = CHR ''['' \<and> char_at p (i + 1) = Some (CHR ''^'')) in
            Inr (s\<lparr>rs_out := rs_out s @ (if negated then ''[^'' else [ch]),
                   rs_i := i + (if negated then 2 else 1),
                   inClass := (ch = CHR ''[''), firstElement := (ch = CHR ''['')\<rparr>))
      else if ch = CHR '']''
      then Inr (s\<lparr>inClass := False, rs_out := rs_out s @ [ch], rs_i := i + 1\<rparr>)
      else (let (spelled, width) = respellClassElement ch (char_at p (i + 1)) (firstElement s) in
            Inr (s\<lparr>rs_out := rs_out s @ spelled, rs_i := i + width, firstElement := False\<rparr>)))"

lemma respellClassElement_width: "0 < snd (respellClassElement ch nxt fe)"
  by (simp add: respellClassElement_def)

lemma respell_step_progress: "respell_step p s = Inr s' \<Longrightarrow> rs_i s < rs_i s'"
  using respellClassElement_width [of "p ! rs_i s" "char_at p (rs_i s + 1)" "firstElement s"]
  by (auto simp: respell_step_def Let_def split: if_splits prod.splits)

function respell_loop :: "string \<Rightarrow> respell \<Rightarrow> string + respell" where
  "respell_loop p s =
     (if rs_i s < length p then
        (case respell_step p s of Inl e \<Rightarrow> Inl e | Inr s' \<Rightarrow> respell_loop p s')
      else Inr s)"
  by pat_completeness auto
termination
  by (relation "measure (\<lambda>(p, s). length p - rs_i s)") (auto dest: respell_step_progress)

declare respell_loop.simps [simp del]

definition respell_init :: respell where
  "respell_init = \<lparr>rs_out = [], inClass = False, firstElement = False, rs_i = 0\<rparr>"

definition respellClasses :: "string \<Rightarrow> string" where
  "respellClasses pattern = (case respell_loop pattern respell_init of Inl e \<Rightarrow> e | Inr s \<Rightarrow> rs_out s)"

definition toVSafePattern :: "(string \<Rightarrow> bool) \<Rightarrow> string \<Rightarrow> string option" where
  "toVSafePattern compiles_v pattern =
     (if compilesUnderV compiles_v pattern then Some pattern
      else (let respelled = respellClasses pattern in
            if respelled \<noteq> pattern \<and> compilesUnderV compiles_v respelled
            then Some respelled else None))"

interpretation rs: scanner "respell_step p" rs_i "length p" "respell_loop p" for p
  by unfold_locales (simp add: respell_step_progress, subst respell_loop.simps, simp)

section \<open>Class-set operators\<close>

datatype class_set_operator = AMP_AMP | DASH_DASH

record ambiguity =
  am_inClass :: bool
  am_i :: nat

definition ambiguity_step :: "string \<Rightarrow> ambiguity \<Rightarrow> class_set_operator + ambiguity" where
  "ambiguity_step p s =
     (let i = am_i s; ch = p ! i in
      if ch = BACKSLASH then Inr (s\<lparr>am_i := i + 2\<rparr>)
      else if \<not> am_inClass s
      then (let entered = (ch = CHR ''['') in
            Inr \<lparr>am_inClass = entered,
                 am_i = i + (if entered \<and> char_at p (i + 1) = Some (CHR ''^'') then 2 else 1)\<rparr>)
      else if ch = CHR '']'' then Inr \<lparr>am_inClass = False, am_i = i + 1\<rparr>
      else if (ch = CHR ''&'' \<or> ch = CHR ''-'') \<and> char_at p (i + 1) = Some ch
      then Inl (if ch = CHR ''&'' then AMP_AMP else DASH_DASH)
      else Inr (s\<lparr>am_i := i + 1\<rparr>))"

lemma ambiguity_step_progress: "ambiguity_step p s = Inr s' \<Longrightarrow> am_i s < am_i s'"
  by (auto simp: ambiguity_step_def Let_def split: if_splits)

function ambiguity_loop :: "string \<Rightarrow> ambiguity \<Rightarrow> class_set_operator + ambiguity" where
  "ambiguity_loop p s =
     (if am_i s < length p then
        (case ambiguity_step p s of Inl e \<Rightarrow> Inl e | Inr s' \<Rightarrow> ambiguity_loop p s')
      else Inr s)"
  by pat_completeness auto
termination
  by (relation "measure (\<lambda>(p, s). length p - am_i s)") (auto dest: ambiguity_step_progress)

declare ambiguity_loop.simps [simp del]

definition classSetAmbiguity ::
  "(string \<Rightarrow> bool) \<Rightarrow> (string \<Rightarrow> bool) \<Rightarrow> string \<Rightarrow> class_set_operator option" where
  "classSetAmbiguity compiles_u compiles_v pattern =
     (if \<not> (compiles_u pattern \<and> compiles_v pattern) then None
      else (case ambiguity_loop pattern \<lparr>am_inClass = False, am_i = 0\<rparr> of
              Inl operator \<Rightarrow> Some operator | Inr _ \<Rightarrow> None))"

interpretation am: scanner "ambiguity_step p" am_i "length p" "ambiguity_loop p" for p
  by unfold_locales (simp add: ambiguity_step_progress, subst ambiguity_loop.simps, simp)

section \<open>Facts on the two class walks\<close>

lemma char_at_Some_iff: "char_at p i = Some c \<longleftrightarrow> i < length p \<and> p ! i = c"
  by (auto simp: char_at_def)

lemma drop_eq_Cons: "i < length p \<Longrightarrow> drop i p = p ! i # drop (Suc i) p"
  by (simp add: Cons_nth_drop_Suc)

text \<open>
  What has been written plus what is left to read, without their backslashes: the respelling
  keeps it, so it inserts backslashes and does nothing else.
\<close>

abbreviation strip :: "string \<Rightarrow> string" where
  "strip \<equiv> filter (\<lambda>c. c \<noteq> BACKSLASH)"

lemma strip_element:
  assumes "respellClassElement ch nxt fe = (spelled, width)" "ch \<noteq> BACKSLASH"
  shows "(width = 1 \<and> strip spelled = [ch]) \<or> (width = 2 \<and> strip spelled = [ch, ch] \<and> nxt = Some ch)"
  using assms by (auto simp: respellClassElement_def BACKSLASH_def split: if_splits)

lemma take_2_drop: "i < length p \<Longrightarrow> take 2 (drop i p) @ drop (i + 2) p = drop i p"
  by (metis append_take_drop_id drop_drop add.commute)

lemma respell_step_strip:
  assumes "rs_i s < length p" "respell_step p s = Inr s'"
  shows "strip (rs_out s' @ drop (rs_i s') p) = strip (rs_out s @ drop (rs_i s) p)"
proof -
  let ?i = "rs_i s"
  consider (esc) "p ! ?i = BACKSLASH"
    | (outside) "p ! ?i \<noteq> BACKSLASH" "\<not> inClass s"
    | (closing) "p ! ?i \<noteq> BACKSLASH" "inClass s" "p ! ?i = CHR '']''"
    | (element) "p ! ?i \<noteq> BACKSLASH" "inClass s" "p ! ?i \<noteq> CHR '']''" by blast
  then show ?thesis
  proof cases
    case esc
    with assms have "rs_out s' = rs_out s @ take 2 (drop ?i p)" "rs_i s' = ?i + 2"
      by (auto simp: respell_step_def Let_def js_slice_def)
    with take_2_drop [OF assms(1)] show ?thesis
      by (metis append.assoc filter_append)
  next
    case outside
    with assms have "rs_out s' @ drop (rs_i s') p = rs_out s @ drop ?i p"
      by (auto simp: respell_step_def Let_def char_at_Some_iff drop_eq_Cons)
    then show ?thesis by simp
  next
    case closing
    with assms have "rs_out s' @ drop (rs_i s') p = rs_out s @ drop ?i p"
      by (auto simp: respell_step_def Let_def drop_eq_Cons BACKSLASH_def)
    then show ?thesis by simp
  next
    case element
    obtain spelled width where tw:
      "respellClassElement (p ! ?i) (char_at p (?i + 1)) (firstElement s) = (spelled, width)"
      by fastforce
    with element assms(2) have s': "rs_out s' = rs_out s @ spelled" "rs_i s' = ?i + width"
      by (auto simp: respell_step_def Let_def)
    show ?thesis
      using strip_element [OF tw element(1)] s' assms(1) element(1)
      by (auto simp: char_at_Some_iff drop_eq_Cons)
  qed
qed

lemma respell_step_total: "respell_step p s \<noteq> Inl e"
  by (auto simp: respell_step_def Let_def split: prod.splits)

lemma respellClasses_strip: "strip (respellClasses p) = strip p"
proof -
  let ?P = "\<lambda>s. strip (rs_out s @ drop (rs_i s) p) = strip p"
  have init: "?P respell_init" by (simp add: respell_init_def)
  have keep: "\<And>s s'. ?P s \<Longrightarrow> rs_i s < length p \<Longrightarrow> respell_step p s = Inr s' \<Longrightarrow> ?P s'"
    using respell_step_strip by metis
  show ?thesis
    by (rule rs.loop_total [where P = ?P, OF init keep respell_step_total]) (auto simp: respellClasses_def)
qed

text \<open>Outside a class nothing is rewritten.\<close>

lemma respellClasses_no_class:
  assumes "CHR ''['' \<notin> set p"
  shows "respellClasses p = p"
proof -
  let ?P = "\<lambda>s. rs_out s @ drop (rs_i s) p = p \<and> \<not> inClass s"
  have "?P s'" if "?P s" "rs_i s < length p" "respell_step p s = Inr s'" for s s'
  proof (cases "p ! rs_i s = BACKSLASH")
    case True
    with that have "rs_out s' = rs_out s @ take 2 (drop (rs_i s) p)" "rs_i s' = rs_i s + 2"
      "inClass s' = inClass s"
      by (auto simp: respell_step_def Let_def js_slice_def)
    with take_2_drop [OF that(2)] that(1) show ?thesis by simp
  next
    case False
    from that(2) assms have "p ! rs_i s \<noteq> CHR ''[''" by (metis nth_mem)
    with False that(1,3)
    have s': "rs_out s' = rs_out s @ [p ! rs_i s]" "rs_i s' = Suc (rs_i s)" "\<not> inClass s'"
      by (auto simp: respell_step_def Let_def)
    with that(1) show ?thesis by (simp add: Cons_nth_drop_Suc [OF that(2)])
  qed
  note keep = this
  have init: "?P respell_init" by (simp add: respell_init_def)
  show ?thesis
    by (rule rs.loop_total [where P = ?P, OF init keep respell_step_total]) (auto simp: respellClasses_def)
qed

definition operator_char :: "class_set_operator \<Rightarrow> char" where
  "operator_char op = (case op of AMP_AMP \<Rightarrow> CHR ''&'' | DASH_DASH \<Rightarrow> CHR ''-'')"

lemma ambiguity_step_Inl:
  "ambiguity_step p s = Inl op \<Longrightarrow>
     am_inClass s \<and> p ! am_i s = operator_char op \<and> char_at p (am_i s + 1) = Some (operator_char op)"
  by (auto simp: ambiguity_step_def Let_def operator_char_def split: if_splits)

text \<open>A class is entered only behind an opening bracket.\<close>

lemma ambiguity_loop_Inl:
  assumes "ambiguity_loop p \<lparr>am_inClass = False, am_i = 0\<rparr> = Inl op"
  shows "\<exists>j i. j < i \<and> i + 1 < length p \<and> p ! j = CHR ''['' \<and>
           p ! i = operator_char op \<and> p ! (i + 1) = operator_char op"
proof -
  let ?P = "\<lambda>s. am_inClass s \<longrightarrow> (\<exists>j < am_i s. p ! j = CHR ''['')"
  let ?Q = "\<lambda>op. \<exists>j i. j < i \<and> i + 1 < length p \<and> p ! j = CHR ''['' \<and>
           p ! i = operator_char op \<and> p ! (i + 1) = operator_char op"
  have keep: "?P s'" if "?P s" "am_i s < length p" "ambiguity_step p s = Inr s'" for s s'
    using that ambiguity_step_progress [OF that(3)]
    by (auto simp: ambiguity_step_def Let_def split: if_splits intro: less_trans)
  have stop: "?Q r" if "?P s" "am_i s < length p" "ambiguity_step p s = Inl r" for s r
    using that ambiguity_step_Inl [OF that(3)] by (auto simp: char_at_Some_iff)
  show ?thesis
    using am.loop_outcome [where P = ?P and Q = ?Q and p = p
        and s = "\<lparr>am_inClass = False, am_i = 0\<rparr>"] keep stop assms by auto
qed

text \<open>
  The scanner accepts a bounded repetition of two alternatives that match the same text, whose
  matching costs a backtracking engine a power of the bound.
\<close>

lemma ambiguous_repetition_accepted: "isSafePattern (\<lambda>_. True) ''(a|a){0,32}b''"
  by code_simp

end
