(* ===== verification/Questions.thy ===== *)
theory Questions
  imports SafePattern
begin

text \<open>
  \<^verbatim>\<open>packages/core/src/question-definition.ts\<close> and \<^verbatim>\<open>validation-message.ts\<close>: the question
  definition, its cross-field refinements (every violated one is reported), the option ids
  and the message keys a question carries.

  The structural half of a schema (which JSON value decodes to which typed value) is the
  schema library's and an argument of the parse functions; what the repository writes, the
  field patterns and the refinements, is modelled on the typed value.
\<close>

section \<open>Message keys\<close>

datatype validation_message_key =
    MRequired | MMinLength | MMaxLength | MPattern | MMin | MMax | MInteger
  | MMinSelected | MMaxSelected

definition VALIDATION_MESSAGE_KEYS :: "validation_message_key list" where
  "VALIDATION_MESSAGE_KEYS =
     [MRequired, MMinLength, MMaxLength, MPattern, MMin, MMax, MInteger, MMinSelected, MMaxSelected]"

type_synonym validation_messages = "(validation_message_key \<times> localized_text) list"

text \<open>The canonical key order, as a linear order on the keys.\<close>

fun key_index :: "validation_message_key \<Rightarrow> nat" where
  "key_index MRequired = 0" | "key_index MMinLength = 1" | "key_index MMaxLength = 2"
| "key_index MPattern = 3" | "key_index MMin = 4" | "key_index MMax = 5"
| "key_index MInteger = 6" | "key_index MMinSelected = 7" | "key_index MMaxSelected = 8"

lemma key_index_inj: "key_index a = key_index b \<Longrightarrow> a = b"
  by (cases a; cases b) auto

instantiation validation_message_key :: linorder
begin

definition less_eq_validation_message_key where
  "less_eq_validation_message_key a b \<longleftrightarrow> key_index a \<le> key_index b"

definition less_validation_message_key where
  "less_validation_message_key a b \<longleftrightarrow> key_index a < key_index b"

instance
  by standard (auto simp: less_eq_validation_message_key_def less_validation_message_key_def
      intro: key_index_inj)

end

lemma sorted_message_keys: "sorted_wrt (<) VALIDATION_MESSAGE_KEYS"
  by (simp add: VALIDATION_MESSAGE_KEYS_def less_validation_message_key_def)

lemma set_message_keys [simp]: "k \<in> set VALIDATION_MESSAGE_KEYS"
  by (cases k) (simp_all add: VALIDATION_MESSAGE_KEYS_def)

section \<open>Question definitions\<close>

record choice_option =
  optionId :: option_id
  opt_label :: localized_text

text \<open>The variant part of a question: its type tag with the constraints or options of the type.\<close>

datatype question_body =
    ShortText "int option" "int option" "string option"      \<comment> \<open>minLength, maxLength, pattern\<close>
  | LongText "int option"                                    \<comment> \<open>maxLength\<close>
  | NumberQ "jsnum option" "jsnum option" bool               \<comment> \<open>min, max, integer\<close>
  | DateQ "string option" "string option"                    \<comment> \<open>min, max\<close>
  | BooleanQ "localized_text option" "localized_text option" \<comment> \<open>yesLabel, noLabel\<close>
  | SingleChoice "choice_option list"                        \<comment> \<open>options\<close>
  | MultiChoice "choice_option list" "int option" "int option" \<comment> \<open>options, minSelected, maxSelected\<close>

record question_definition =
  questionId :: question_id
  q_label :: localized_text
  q_help :: "localized_text option"
  required :: bool
  messages :: "validation_messages option"
  body :: question_body

datatype question_type = TShortText | TLongText | TNumber | TDate | TBoolean | TSingleChoice | TMultiChoice

fun body_type :: "question_body \<Rightarrow> question_type" where
  "body_type (ShortText _ _ _) = TShortText"
| "body_type (LongText _) = TLongText"
| "body_type (NumberQ _ _ _) = TNumber"
| "body_type (DateQ _ _) = TDate"
| "body_type (BooleanQ _ _) = TBoolean"
| "body_type (SingleChoice _) = TSingleChoice"
| "body_type (MultiChoice _ _ _) = TMultiChoice"

definition q_type :: "question_definition \<Rightarrow> question_type" where
  "q_type q = body_type (body q)"

fun type_name :: "question_type \<Rightarrow> string" where
  "type_name TShortText = ''shortText''" | "type_name TLongText = ''longText''"
| "type_name TNumber = ''number''" | "type_name TDate = ''date''"
| "type_name TBoolean = ''boolean''" | "type_name TSingleChoice = ''singleChoice''"
| "type_name TMultiChoice = ''multiChoice''"

definition QUESTION_TYPES :: "question_type list" where
  "QUESTION_TYPES = [TShortText, TLongText, TNumber, TDate, TBoolean, TSingleChoice, TMultiChoice]"

definition optionIdsOf :: "question_definition \<Rightarrow> option_id list" where
  "optionIdsOf definition =
     (case body definition of
        SingleChoice options \<Rightarrow> map optionId options
      | MultiChoice options _ _ \<Rightarrow> map optionId options
      | _ \<Rightarrow> [])"

section \<open>Refinements\<close>

definition option_refinement :: "nat \<Rightarrow> choice_option \<Rightarrow> issue list" where
  "option_refinement index opt =
     (if length (opt_label opt) = 0
      then addCodedIssue ''OPTION_LABEL_EMPTY'' ''Option label needs at least one locale entry''
             [Key ''options'', Index index, Key ''label''] []
      else [])"

fun checkUniqueOptionIds :: "nat \<Rightarrow> option_id list \<Rightarrow> choice_option list \<Rightarrow> issue list" where
  "checkUniqueOptionIds index seen [] = []"
| "checkUniqueOptionIds index seen (opt # options) =
     (if optionId opt \<in> set seen
      then addCodedIssue ''DUPLICATE_OPTION_ID''
             (''Duplicate optionId at options['' @ nat_digits index @ '']'')
             [Key ''options'', Index index, Key ''optionId''] []
           @ checkUniqueOptionIds (Suc index) seen options
      else checkUniqueOptionIds (Suc index) (optionId opt # seen) options)"

text \<open>\<^verbatim>\<open>exceeds\<close> compares numbers as numbers and anything else as strings; each caller has one kind.\<close>

definition checkMinMax ::
  "('a \<Rightarrow> 'a \<Rightarrow> bool) \<Rightarrow> 'a option \<Rightarrow> 'a option \<Rightarrow> string \<Rightarrow> string \<Rightarrow> string \<Rightarrow> issue list" where
  "checkMinMax exceeds mn mx code minField maxField =
     (case (mn, mx) of
        (Some a, Some b) \<Rightarrow>
          if exceeds a b
          then addCodedIssue code
                 (''constraints.'' @ minField @ '' must not exceed constraints.'' @ maxField)
                 [Key ''constraints'', Key minField] []
          else []
      | _ \<Rightarrow> [])"

definition exceeds_int :: "int \<Rightarrow> int \<Rightarrow> bool" where "exceeds_int a b \<longleftrightarrow> b < a"
definition exceeds_num :: "jsnum \<Rightarrow> jsnum \<Rightarrow> bool" where "exceeds_num a b \<longleftrightarrow> num_lt b a"
definition exceeds_str :: "string \<Rightarrow> string \<Rightarrow> bool" where "exceeds_str a b \<longleftrightarrow> str_lt b a"

fun safe_code :: "safe_pattern_code \<Rightarrow> string" where
  "safe_code PATTERN_INVALID = ''PATTERN_INVALID''"
| "safe_code PATTERN_UNSUPPORTED = ''PATTERN_UNSUPPORTED''"

definition shortText_refinement ::
  "(string \<Rightarrow> bool) \<Rightarrow> int option \<Rightarrow> int option \<Rightarrow> string option \<Rightarrow> issue list" where
  "shortText_refinement compiles_u minLength maxLength pattern =
     checkMinMax exceeds_int minLength maxLength ''MIN_LENGTH_ABOVE_MAX_LENGTH'' ''minLength'' ''maxLength''
     @ (case pattern of
          None \<Rightarrow> []
        | Some p \<Rightarrow>
            (case checkSafePattern compiles_u p of
               Refused issue \<Rightarrow>
                 addCodedIssue (safe_code (sp_code issue)) (sp_message issue)
                   [Key ''constraints'', Key ''pattern''] []
             | _ \<Rightarrow> []))"

definition multiChoice_refinement ::
  "choice_option list \<Rightarrow> int option \<Rightarrow> int option \<Rightarrow> issue list" where
  "multiChoice_refinement options minSelected maxSelected =
     (let optionCount = int (length options) in
      checkUniqueOptionIds 0 [] options
      @ checkMinMax exceeds_int minSelected maxSelected
          ''MIN_SELECTED_ABOVE_MAX_SELECTED'' ''minSelected'' ''maxSelected''
      @ (case maxSelected of
           Some m \<Rightarrow>
             if optionCount < m
             then addCodedIssue ''MAX_SELECTED_ABOVE_OPTION_COUNT''
                    ''constraints.maxSelected must not exceed the number of options''
                    [Key ''constraints'', Key ''maxSelected''] []
             else []
         | None \<Rightarrow> [])
      @ (case minSelected of
           Some m \<Rightarrow>
             if optionCount < m
             then addCodedIssue ''MIN_SELECTED_ABOVE_OPTION_COUNT''
                    ''constraints.minSelected must not exceed the number of options''
                    [Key ''constraints'', Key ''minSelected''] []
             else []
         | None \<Rightarrow> []))"

fun option_refinements :: "nat \<Rightarrow> choice_option list \<Rightarrow> issue list" where
  "option_refinements index [] = []"
| "option_refinements index (opt # options) =
     option_refinement index opt @ option_refinements (Suc index) options"

text \<open>
  The refinements of the matched variant. A refinement of the question object runs on an
  options array whose own refinements passed or not: both kinds report.
\<close>

definition question_refinements :: "(string \<Rightarrow> bool) \<Rightarrow> question_definition \<Rightarrow> issue list" where
  "question_refinements compiles_u question =
     (case body question of
        ShortText mn mx pattern \<Rightarrow> shortText_refinement compiles_u mn mx pattern
      | LongText _ \<Rightarrow> []
      | NumberQ mn mx _ \<Rightarrow> checkMinMax exceeds_num mn mx ''MIN_ABOVE_MAX'' ''min'' ''max''
      | DateQ mn mx \<Rightarrow> checkMinMax exceeds_str mn mx ''MIN_ABOVE_MAX'' ''min'' ''max''
      | BooleanQ _ _ \<Rightarrow> []
      | SingleChoice options \<Rightarrow> option_refinements 0 options @ checkUniqueOptionIds 0 [] options
      | MultiChoice options mn mx \<Rightarrow> option_refinements 0 options @ multiChoice_refinement options mn mx)"

section \<open>Shape and parse\<close>

text \<open>The patterns and minimum sizes the schema states on each field.\<close>

definition messages_shape :: "validation_messages \<Rightarrow> bool" where
  "messages_shape ms \<longleftrightarrow> distinct (map fst ms) \<and> list_all (\<lambda>(_, t). LocalizedText t) ms"

definition options_shape :: "choice_option list \<Rightarrow> bool" where
  "options_shape options \<longleftrightarrow>
     options \<noteq> [] \<and> list_all (\<lambda>opt. OptionId (optionId opt) \<and> LocalizedText (opt_label opt)) options"

fun body_shape :: "question_body \<Rightarrow> bool" where
  "body_shape (ShortText _ _ _) = True"
| "body_shape (LongText _) = True"
| "body_shape (NumberQ mn mx _) = (pred_option num_isFinite mn \<and> pred_option num_isFinite mx)"
| "body_shape (DateQ mn mx) = (pred_option DateAnswerValue mn \<and> pred_option DateAnswerValue mx)"
| "body_shape (BooleanQ y n) = (pred_option LocalizedText y \<and> pred_option LocalizedText n)"
| "body_shape (SingleChoice options) = options_shape options"
| "body_shape (MultiChoice options _ _) = options_shape options"

definition question_shape :: "question_definition \<Rightarrow> bool" where
  "question_shape q \<longleftrightarrow>
     QuestionId (questionId q) \<and> LocalizedText (q_label q) \<and> pred_option LocalizedText (q_help q) \<and>
     pred_option messages_shape (messages q) \<and> body_shape (body q)"

text \<open>\<^verbatim>\<open>decode\<close> is the structural half of the schema: a typed question or the structural issues.\<close>

definition QuestionDefinition ::
  "(string \<Rightarrow> bool) \<Rightarrow> (jsval \<Rightarrow> issue list + question_definition) \<Rightarrow> question_definition schema" where
  "QuestionDefinition compiles_u decode v =
     (case decode v of
        Inl issues \<Rightarrow> Inl issues
      | Inr q \<Rightarrow>
          (case question_refinements compiles_u q of [] \<Rightarrow> Inr q | issues \<Rightarrow> Inl issues))"

record question_version_record =
  rec_questionId :: question_id
  rec_version :: int
  rec_definition :: question_definition

definition question_error_codes :: "string list" where
  "question_error_codes =
     [''INVALID_QUESTION_DEFINITION'', ''INVALID_QUESTION_VERSION_RECORD'', ''PATTERN_INVALID'',
      ''PATTERN_UNSUPPORTED'', ''MIN_LENGTH_ABOVE_MAX_LENGTH'', ''MIN_ABOVE_MAX'',
      ''MIN_SELECTED_ABOVE_MAX_SELECTED'', ''MIN_SELECTED_ABOVE_OPTION_COUNT'',
      ''MAX_SELECTED_ABOVE_OPTION_COUNT'', ''DUPLICATE_OPTION_ID'', ''OPTION_LABEL_EMPTY'']"

definition toDefinitionErrors :: "issue list \<Rightarrow> string \<Rightarrow> coded_error list" where
  "toDefinitionErrors issues fallback = toCodedErrors question_error_codes issues fallback"

definition parseQuestionDefinition ::
  "(string \<Rightarrow> bool) \<Rightarrow> (jsval \<Rightarrow> issue list + question_definition) \<Rightarrow> jsval \<Rightarrow>
     (coded_error list, question_definition) result" where
  "parseQuestionDefinition compiles_u decode value =
     (case QuestionDefinition compiles_u decode value of
        Inr q \<Rightarrow> ok q
      | Inl issues \<Rightarrow> err (toDefinitionErrors issues ''INVALID_QUESTION_DEFINITION''))"

definition isQuestionDefinition ::
  "(string \<Rightarrow> bool) \<Rightarrow> (jsval \<Rightarrow> issue list + question_definition) \<Rightarrow> jsval \<Rightarrow> bool" where
  "isQuestionDefinition compiles_u decode value = schema_accepts (QuestionDefinition compiles_u decode) value"

text \<open>A version record nests the question, so its issues come under the key \<^verbatim>\<open>definition\<close>.\<close>

definition QuestionVersionRecord ::
  "(string \<Rightarrow> bool) \<Rightarrow> (jsval \<Rightarrow> issue list + question_version_record) \<Rightarrow> question_version_record schema" where
  "QuestionVersionRecord compiles_u decode v =
     (case decode v of
        Inl issues \<Rightarrow> Inl issues
      | Inr record \<Rightarrow>
          (case map (prefix_issue [Key ''definition'']) (question_refinements compiles_u (rec_definition record)) of
             [] \<Rightarrow> Inr record
           | issues \<Rightarrow> Inl issues))"

definition parseQuestionVersionRecord ::
  "(string \<Rightarrow> bool) \<Rightarrow> (jsval \<Rightarrow> issue list + question_version_record) \<Rightarrow> jsval \<Rightarrow>
     (coded_error list, question_version_record) result" where
  "parseQuestionVersionRecord compiles_u decode value =
     (case QuestionVersionRecord compiles_u decode value of
        Inr record \<Rightarrow> ok record
      | Inl issues \<Rightarrow> err (toDefinitionErrors issues ''INVALID_QUESTION_VERSION_RECORD''))"

definition isQuestionVersionRecord ::
  "(string \<Rightarrow> bool) \<Rightarrow> (jsval \<Rightarrow> issue list + question_version_record) \<Rightarrow> jsval \<Rightarrow> bool" where
  "isQuestionVersionRecord compiles_u decode value = schema_accepts (QuestionVersionRecord compiles_u decode) value"

section \<open>Authored message keys\<close>

text \<open>A constraint value as far as the filter looks at it: absent, false or anything else.\<close>

fun constraintBag :: "question_body \<Rightarrow> validation_message_key \<Rightarrow> bool option" where
  "constraintBag (ShortText mn mx p) k =
     (case k of MMinLength \<Rightarrow> map_option (\<lambda>_. True) mn
      | MMaxLength \<Rightarrow> map_option (\<lambda>_. True) mx
      | MPattern \<Rightarrow> map_option (\<lambda>_. True) p | _ \<Rightarrow> None)"
| "constraintBag (LongText mx) k =
     (case k of MMaxLength \<Rightarrow> map_option (\<lambda>_. True) mx | _ \<Rightarrow> None)"
| "constraintBag (NumberQ mn mx i) k =
     (case k of MMin \<Rightarrow> map_option (\<lambda>_. True) mn | MMax \<Rightarrow> map_option (\<lambda>_. True) mx
      | MInteger \<Rightarrow> Some i | _ \<Rightarrow> None)"
| "constraintBag (DateQ mn mx) k =
     (case k of MMin \<Rightarrow> map_option (\<lambda>_. True) mn | MMax \<Rightarrow> map_option (\<lambda>_. True) mx | _ \<Rightarrow> None)"
| "constraintBag (BooleanQ _ _) k = None"
| "constraintBag (SingleChoice _) k = None"
| "constraintBag (MultiChoice _ mn mx) k =
     (case k of MMinSelected \<Rightarrow> map_option (\<lambda>_. True) mn
      | MMaxSelected \<Rightarrow> map_option (\<lambda>_. True) mx | _ \<Rightarrow> None)"

definition active_constraint :: "question_definition \<Rightarrow> validation_message_key \<Rightarrow> bool option" where
  "active_constraint definition k =
     (if k = MRequired then Some (required definition) else constraintBag (body definition) k)"

definition authoredMessageKeys :: "question_definition \<Rightarrow> validation_message_key list" where
  "authoredMessageKeys definition =
     filter (\<lambda>k. active_constraint definition k \<noteq> None \<and> active_constraint definition k \<noteq> Some False)
       VALIDATION_MESSAGE_KEYS"

section \<open>Facts\<close>

lemma authoredMessageKeys_sorted: "sorted_wrt (<) (authoredMessageKeys q)"
  unfolding authoredMessageKeys_def by (rule sorted_wrt_filter [OF sorted_message_keys])

lemma required_key_iff: "MRequired \<in> set (authoredMessageKeys q) \<longleftrightarrow> required q"
  by (simp add: authoredMessageKeys_def active_constraint_def)

lemma checkUniqueOptionIds_Nil_iff:
  "checkUniqueOptionIds n seen options = [] \<longleftrightarrow>
     distinct (map optionId options) \<and> set (map optionId options) \<inter> set seen = {}"
  by (induction n seen options rule: checkUniqueOptionIds.induct) (auto simp: addCodedIssue_def)

lemma option_refinements_Nil_iff:
  "option_refinements n options = [] \<longleftrightarrow> (\<forall>opt \<in> set options. opt_label opt \<noteq> [])"
  by (induction options arbitrary: n) (auto simp: option_refinement_def addCodedIssue_def)

lemma checkMinMax_Nil_iff:
  "checkMinMax ex mn mx c f g = [] \<longleftrightarrow> (\<forall>a b. mn = Some a \<longrightarrow> mx = Some b \<longrightarrow> \<not> ex a b)"
  by (auto simp: checkMinMax_def addCodedIssue_def split: option.splits)

text \<open>What an accepted question satisfies: its constraints can be met and its options are distinct.\<close>

definition satisfiable_constraints :: "(string \<Rightarrow> bool) \<Rightarrow> question_definition \<Rightarrow> bool" where
  "satisfiable_constraints compiles_u q =
     (case body q of
        ShortText mn mx p \<Rightarrow>
          (\<forall>a b. mn = Some a \<longrightarrow> mx = Some b \<longrightarrow> a \<le> b) \<and>
          (\<forall>s. p = Some s \<longrightarrow> isSafePattern compiles_u s)
      | NumberQ mn mx _ \<Rightarrow> (\<forall>a b. mn = Some a \<longrightarrow> mx = Some b \<longrightarrow> \<not> num_lt b a)
      | DateQ mn mx \<Rightarrow> (\<forall>a b. mn = Some a \<longrightarrow> mx = Some b \<longrightarrow> \<not> str_lt b a)
      | SingleChoice options \<Rightarrow>
          distinct (map optionId options) \<and> (\<forall>opt \<in> set options. opt_label opt \<noteq> [])
      | MultiChoice options mn mx \<Rightarrow>
          distinct (map optionId options) \<and> (\<forall>opt \<in> set options. opt_label opt \<noteq> []) \<and>
          (\<forall>a b. mn = Some a \<longrightarrow> mx = Some b \<longrightarrow> a \<le> b) \<and>
          (\<forall>a. mn = Some a \<longrightarrow> a \<le> int (length options)) \<and>
          (\<forall>b. mx = Some b \<longrightarrow> b \<le> int (length options))
      | _ \<Rightarrow> True)"

lemma checkSafePattern_not_Thrown: "checkSafePattern compiles_u p \<noteq> Thrown"
  using scan_loop_no_throw [of p]
  by (auto simp: checkSafePattern_def split: sum.splits scan_stop.splits)

lemma shortText_refinement_Nil_iff:
  "shortText_refinement compiles_u mn mx p = [] \<longleftrightarrow>
     (\<forall>a b. mn = Some a \<longrightarrow> mx = Some b \<longrightarrow> a \<le> b) \<and>
     (\<forall>s. p = Some s \<longrightarrow> isSafePattern compiles_u s)"
  using checkSafePattern_not_Thrown [of compiles_u]
  by (auto simp: shortText_refinement_def checkMinMax_Nil_iff exceeds_int_def isSafePattern_def
      addCodedIssue_def not_less split: option.splits pattern_verdict.splits)

lemma multiChoice_refinement_Nil_iff:
  "multiChoice_refinement options mn mx = [] \<longleftrightarrow>
     distinct (map optionId options) \<and>
     (\<forall>a b. mn = Some a \<longrightarrow> mx = Some b \<longrightarrow> a \<le> b) \<and>
     (\<forall>a. mn = Some a \<longrightarrow> a \<le> int (length options)) \<and>
     (\<forall>b. mx = Some b \<longrightarrow> b \<le> int (length options))"
  by (auto simp: multiChoice_refinement_def Let_def checkUniqueOptionIds_Nil_iff checkMinMax_Nil_iff
      exceeds_int_def addCodedIssue_def not_less split: option.splits)

lemma question_refinements_Nil_iff:
  "question_refinements compiles_u q = [] \<longleftrightarrow> satisfiable_constraints compiles_u q"
  by (cases "body q")
     (auto simp: question_refinements_def satisfiable_constraints_def shortText_refinement_Nil_iff
        multiChoice_refinement_Nil_iff checkMinMax_Nil_iff exceeds_num_def exceeds_str_def
        checkUniqueOptionIds_Nil_iff option_refinements_Nil_iff)

lemma toCodedErrors_nonempty: "issues \<noteq> [] \<Longrightarrow> toCodedErrors codes issues f \<noteq> []"
  using expandUnionIssue_nonempty by (cases issues) (auto simp: toCodedErrors_def)

end
