(* ===== verification/Steps.thy ===== *)
theory Steps
  imports Questions
begin

text \<open>
  \<^verbatim>\<open>packages/core/src/step.ts\<close>: steps, pinned questions and repeating groups. A step item
  is a pin or a group. A parsed pin has no \<^verbatim>\<open>groupId\<close>; \<open>ref_groupId\<close> is the stray key a
  definition built without the parser can carry on a member of a group, which the publish
  check looks for.
\<close>

record question_ref =
  ref_questionId :: question_id
  ref_version :: int
  ref_groupId :: "group_id option"

datatype repeat_count =
    Fixed int                              \<comment> \<open>count\<close>
  | FromAnswer question_id int "int option" \<comment> \<open>questionId, min, max\<close>
  | OpenCount int "int option"              \<comment> \<open>min, max\<close>

datatype repeat_presentation = Stacked | PerInstanceStep | Table

record repeat_group =
  groupId :: group_id
  g_label :: localized_text
  instanceLabel :: localized_text
  g_items :: "question_ref list"
  g_count :: repeat_count
  presentation :: repeat_presentation

datatype step_item = QuestionItem question_ref | GroupItem repeat_group

record step =
  stepId :: step_id
  s_title :: localized_text
  s_items :: "step_item list"

text \<open>The patterns and minimum sizes the schemas state.\<close>

definition QuestionRef_shape :: "question_ref \<Rightarrow> bool" where
  "QuestionRef_shape r \<longleftrightarrow> QuestionId (ref_questionId r) \<and> 0 < ref_version r \<and> ref_groupId r = None"

fun RepeatCount_shape :: "repeat_count \<Rightarrow> bool" where
  "RepeatCount_shape (Fixed n) = (1 \<le> n)"
| "RepeatCount_shape (FromAnswer q mn mx) = (QuestionId q \<and> 0 \<le> mn \<and> pred_option (\<lambda>m. 1 \<le> m) mx)"
| "RepeatCount_shape (OpenCount mn mx) = (0 \<le> mn \<and> pred_option (\<lambda>m. 1 \<le> m) mx)"

definition RepeatGroup_shape :: "repeat_group \<Rightarrow> bool" where
  "RepeatGroup_shape g \<longleftrightarrow>
     GroupId (groupId g) \<and> LocalizedText (g_label g) \<and> LocalizedText (instanceLabel g) \<and>
     g_items g \<noteq> [] \<and> list_all QuestionRef_shape (g_items g) \<and> RepeatCount_shape (g_count g)"

fun StepItem_shape :: "step_item \<Rightarrow> bool" where
  "StepItem_shape (QuestionItem r) = QuestionRef_shape r"
| "StepItem_shape (GroupItem g) = RepeatGroup_shape g"

definition Step_shape :: "step \<Rightarrow> bool" where
  "Step_shape s \<longleftrightarrow>
     StepId (stepId s) \<and> LocalizedText (s_title s) \<and> s_items s \<noteq> [] \<and> list_all StepItem_shape (s_items s)"

definition REPEAT_EVALUATION_BUDGET :: int where
  "REPEAT_EVALUATION_BUDGET = 10000"

definition TABLE_COLUMN_TYPES :: "string list" where
  "TABLE_COLUMN_TYPES = [''shortText'', ''number'', ''date'', ''boolean'', ''singleChoice'']"

definition isTableColumnType :: "string \<Rightarrow> bool" where
  "isTableColumnType type \<longleftrightarrow> type \<in> set TABLE_COLUMN_TYPES"

definition INSTANCE_LABEL_PLACEHOLDER :: string where
  "INSTANCE_LABEL_PLACEHOLDER = ''n''"

text \<open>
  The matches of \<^verbatim>\<open>/\{([^{}]*)\}/g\<close>, left to right: from an opening brace the run of
  characters that are no brace, when a closing brace ends it.
\<close>

definition no_brace :: "char \<Rightarrow> bool" where
  "no_brace c \<longleftrightarrow> c \<noteq> CHR ''{'' \<and> c \<noteq> CHR ''}''"

function labelPlaceholders :: "string \<Rightarrow> string list" where
  "labelPlaceholders [] = []"
| "labelPlaceholders (c # cs) =
     (if c = CHR ''{'' then
        (case dropWhile no_brace cs of
           d # rest \<Rightarrow>
             if d = CHR ''}'' then takeWhile no_brace cs # labelPlaceholders rest
             else labelPlaceholders cs
         | [] \<Rightarrow> labelPlaceholders cs)
      else labelPlaceholders cs)"
  by pat_completeness auto
termination
proof (relation "measure length", goal_cases)
  case 3
  then show ?case by (metis in_measure length_dropWhile_le length_Cons lessI less_SucI less_le_trans)
qed simp_all

declare labelPlaceholders.simps(2) [simp del]

fun isRepeatGroup :: "step_item \<Rightarrow> bool" where
  "isRepeatGroup (GroupItem _) = True"
| "isRepeatGroup (QuestionItem _) = False"

fun item_refs :: "step_item \<Rightarrow> question_ref list" where
  "item_refs (GroupItem g) = g_items g"
| "item_refs (QuestionItem r) = [r]"

definition stepQuestionRefs :: "step \<Rightarrow> question_ref list" where
  "stepQuestionRefs step = concat (map item_refs (s_items step))"

fun item_groups :: "step_item \<Rightarrow> repeat_group list" where
  "item_groups (GroupItem g) = [g]"
| "item_groups (QuestionItem _) = []"

definition repeatGroups :: "step list \<Rightarrow> repeat_group list" where
  "repeatGroups steps = concat (map (\<lambda>step. concat (map item_groups (s_items step))) steps)"

definition note_group ::
  "group_id \<Rightarrow> (question_id \<times> group_id) list \<Rightarrow> question_ref \<Rightarrow> (question_id \<times> group_id) list" where
  "note_group g byQuestion item =
     (if map_of byQuestion (ref_questionId item) = None
      then byQuestion @ [(ref_questionId item, g)] else byQuestion)"

definition questionGroups :: "step list \<Rightarrow> (question_id \<times> group_id) list" where
  "questionGroups steps =
     foldl (\<lambda>byQuestion g. foldl (note_group (groupId g)) byQuestion (g_items g)) [] (repeatGroups steps)"

fun countBounds :: "repeat_count \<Rightarrow> int \<times> int option" where
  "countBounds (Fixed n) = (n, Some n)"
| "countBounds (FromAnswer _ mn mx) = (mn, mx)"
| "countBounds (OpenCount mn mx) = (mn, mx)"

section \<open>Facts\<close>

lemma set_repeatGroups:
  "g \<in> set (repeatGroups steps) \<longleftrightarrow> (\<exists>s \<in> set steps. GroupItem g \<in> set (s_items s))"
proof -
  have "g \<in> set (item_groups i) \<longleftrightarrow> i = GroupItem g" for i
    by (cases i) auto
  then show ?thesis by (auto simp: repeatGroups_def)
qed

lemma set_stepQuestionRefs:
  "r \<in> set (stepQuestionRefs s) \<longleftrightarrow>
     QuestionItem r \<in> set (s_items s) \<or> (\<exists>g. GroupItem g \<in> set (s_items s) \<and> r \<in> set (g_items g))"
proof -
  have "r \<in> set (item_refs i) \<longleftrightarrow> i = QuestionItem r \<or> (\<exists>g. i = GroupItem g \<and> r \<in> set (g_items g))" for i
    by (cases i) auto
  then show ?thesis by (auto simp: stepQuestionRefs_def)
qed

lemma map_of_note_group:
  "map_of (note_group g m item) q =
     (if map_of m q = None \<and> q = ref_questionId item then Some g else map_of m q)"
  by (cases "map_of m (ref_questionId item)") (auto simp: note_group_def map_add_def split: option.splits)

lemma map_of_note_members:
  "map_of (foldl (note_group g) m items) q =
     (if map_of m q = None \<and> q \<in> ref_questionId ` set items then Some g else map_of m q)"
  by (induction items arbitrary: m) (auto simp: map_of_note_group)

text \<open>The group of a question is the first group, in document order, that has it as a member.\<close>

lemma map_of_note_groups:
  "map_of (foldl (\<lambda>m g. foldl (note_group (groupId g)) m (g_items g)) m gs) q =
     (case map_of m q of
        Some g \<Rightarrow> Some g
      | None \<Rightarrow> map_option groupId (List.find (\<lambda>g. q \<in> ref_questionId ` set (g_items g)) gs))"
  by (induction gs arbitrary: m) (auto simp: map_of_note_members split: option.splits)

lemma questionGroups_find:
  "map_of (questionGroups steps) q =
     map_option groupId (List.find (\<lambda>g. q \<in> ref_questionId ` set (g_items g)) (repeatGroups steps))"
  by (simp add: questionGroups_def map_of_note_groups)

lemma questionGroups_None_iff:
  "map_of (questionGroups steps) q = None \<longleftrightarrow>
     (\<forall>g \<in> set (repeatGroups steps). q \<notin> ref_questionId ` set (g_items g))"
  by (auto simp: questionGroups_find find_None_iff)

lemma questionGroups_Some:
  assumes "map_of (questionGroups steps) q = Some gid"
  obtains g where "g \<in> set (repeatGroups steps)" "groupId g = gid" "q \<in> ref_questionId ` set (g_items g)"
  using assms by (auto simp: questionGroups_find dest!: find_Some_iff_mem)

text \<open>The placeholders of a template are brace-free; one inside braces is found.\<close>

lemma labelPlaceholders_skip: "c \<noteq> CHR ''{'' \<Longrightarrow> labelPlaceholders (c # cs) = labelPlaceholders cs"
  by (simp add: labelPlaceholders.simps)

lemma labelPlaceholders_open:
  "labelPlaceholders (CHR ''{'' # cs) =
     (case dropWhile no_brace cs of
        d # rest \<Rightarrow>
          if d = CHR ''}'' then takeWhile no_brace cs # labelPlaceholders rest else labelPlaceholders cs
      | [] \<Rightarrow> labelPlaceholders cs)"
  by (simp add: labelPlaceholders.simps)

lemma labelPlaceholders_no_brace: "p \<in> set (labelPlaceholders t) \<Longrightarrow> list_all no_brace p"
proof (induction t rule: labelPlaceholders.induct)
  case (2 c cs)
  show ?case
  proof (cases "c = CHR ''{''")
    case False
    with 2 show ?thesis by (simp add: labelPlaceholders_skip)
  next
    case True
    have "list_all no_brace (takeWhile no_brace cs)"
      by (simp add: list_all_iff set_takeWhileD [THEN conjunct2] Ball_def)
    with 2 True show ?thesis by (auto simp: labelPlaceholders_open split: list.splits if_splits)
  qed
qed simp

lemma labelPlaceholders_plain: "CHR ''{'' \<notin> set t \<Longrightarrow> labelPlaceholders t = []"
  by (induction t) (auto simp: labelPlaceholders_skip)

lemma dropWhile_no_brace_append:
  "list_all no_brace p \<Longrightarrow> dropWhile no_brace (p @ CHR ''}'' # rest) = CHR ''}'' # rest"
  "list_all no_brace p \<Longrightarrow> takeWhile no_brace (p @ CHR ''}'' # rest) = p"
  by (induction p) (auto simp: no_brace_def)

lemma labelPlaceholders_pair:
  assumes "list_all no_brace p" "CHR ''{'' \<notin> set pre"
  shows "labelPlaceholders (pre @ CHR ''{'' # p @ CHR ''}'' # rest) = p # labelPlaceholders rest"
  using assms(2)
  by (induction pre)
     (auto simp: labelPlaceholders_open labelPlaceholders_skip dropWhile_no_brace_append [OF assms(1)])

end
