(* ===== verification/Conditions.thy ===== *)
theory Conditions
  imports Steps
begin

text \<open>
  \<^verbatim>\<open>packages/core/src/visibility-rule.ts\<close>: the condition tree with its closed set of
  operators, the depth measure and its cap, and visibility rules.
\<close>

datatype count_comparison = CmpEquals | CmpGt | CmpGte | CmpLt | CmpLte

datatype condition =
    CEquals question_id answer_value
  | CNotEquals question_id answer_value
  | CIn question_id "answer_value list"
  | CGt question_id answer_value
  | CGte question_id answer_value
  | CLt question_id answer_value
  | CLte question_id answer_value
  | CAnswered question_id
  | CContains question_id option_id
  | CContainsAny question_id "option_id list"
  | CAnd "condition list"
  | COr "condition list"
  | CNot condition
  | CAnyInstance group_id condition
  | CEveryInstance group_id condition
  | CInstanceCount group_id count_comparison int

definition CONDITION_MAX_DEPTH :: int where
  "CONDITION_MAX_DEPTH = 8"

text \<open>
  \<^verbatim>\<open>Math.max\<close> over numbers of which each is an integer or \<^verbatim>\<open>-Infinity\<close>, the maximum of no
  number; \<^const>\<open>None\<close> is \<^verbatim>\<open>-Infinity\<close>.
\<close>

fun max_ninf :: "int option \<Rightarrow> int option \<Rightarrow> int option" where
  "max_ninf None b = b"
| "max_ninf a None = a"
| "max_ninf (Some a) (Some b) = Some (max a b)"

definition math_max :: "int option list \<Rightarrow> int option" where
  "math_max xs = foldr max_ninf xs None"

definition plus_one :: "int option \<Rightarrow> int option" where
  "plus_one d = map_option (\<lambda>n. 1 + n) d"

fun conditionDepth :: "condition \<Rightarrow> int option" where
  "conditionDepth (CAnd cs) = plus_one (math_max (map conditionDepth cs))"
| "conditionDepth (COr cs) = plus_one (math_max (map conditionDepth cs))"
| "conditionDepth (CNot c) = plus_one (conditionDepth c)"
| "conditionDepth (CAnyInstance _ c) = plus_one (conditionDepth c)"
| "conditionDepth (CEveryInstance _ c) = plus_one (conditionDepth c)"
| "conditionDepth _ = Some 1"

definition depth_exceeded :: "condition \<Rightarrow> bool" where
  "depth_exceeded c = (case conditionDepth c of None \<Rightarrow> False | Some d \<Rightarrow> CONDITION_MAX_DEPTH < d)"

text \<open>The patterns, minimum sizes and canonical values the schema of a node states.\<close>

definition comparable_value :: "answer_value \<Rightarrow> bool" where
  "comparable_value v =
     (case v of ANum n \<Rightarrow> num_isFinite n | AText s \<Rightarrow> DateAnswerValue s | _ \<Rightarrow> False)"

fun ConditionNode_shape :: "normalizer \<Rightarrow> condition \<Rightarrow> bool" where
  "ConditionNode_shape nfc (CEquals q v) = (QuestionId q \<and> canonical_value nfc v)"
| "ConditionNode_shape nfc (CNotEquals q v) = (QuestionId q \<and> canonical_value nfc v)"
| "ConditionNode_shape nfc (CIn q vs) = (QuestionId q \<and> vs \<noteq> [] \<and> list_all (canonical_value nfc) vs)"
| "ConditionNode_shape nfc (CGt q v) = (QuestionId q \<and> comparable_value v)"
| "ConditionNode_shape nfc (CGte q v) = (QuestionId q \<and> comparable_value v)"
| "ConditionNode_shape nfc (CLt q v) = (QuestionId q \<and> comparable_value v)"
| "ConditionNode_shape nfc (CLte q v) = (QuestionId q \<and> comparable_value v)"
| "ConditionNode_shape nfc (CAnswered q) = QuestionId q"
| "ConditionNode_shape nfc (CContains q opt) = (QuestionId q \<and> OptionId opt)"
| "ConditionNode_shape nfc (CContainsAny q opts) = (QuestionId q \<and> opts \<noteq> [] \<and> list_all OptionId opts)"
| "ConditionNode_shape nfc (CAnd cs) = (cs \<noteq> [] \<and> (\<forall>c \<in> set cs. ConditionNode_shape nfc c))"
| "ConditionNode_shape nfc (COr cs) = (cs \<noteq> [] \<and> (\<forall>c \<in> set cs. ConditionNode_shape nfc c))"
| "ConditionNode_shape nfc (CNot c) = ConditionNode_shape nfc c"
| "ConditionNode_shape nfc (CAnyInstance g c) = (GroupId g \<and> ConditionNode_shape nfc c)"
| "ConditionNode_shape nfc (CEveryInstance g c) = (GroupId g \<and> ConditionNode_shape nfc c)"
| "ConditionNode_shape nfc (CInstanceCount g _ n) = (GroupId g \<and> 0 \<le> n)"

definition depth_text :: "int option \<Rightarrow> string" where
  "depth_text d = (case d of None \<Rightarrow> ''-Infinity'' | Some n \<Rightarrow> nat_digits (nat n))"

text \<open>The root refinement: the depth cap, checked once for the whole tree.\<close>

definition condition_refinement :: "condition \<Rightarrow> issue list" where
  "condition_refinement condition =
     (let depth = conditionDepth condition in
      if (case depth of None \<Rightarrow> False | Some d \<Rightarrow> CONDITION_MAX_DEPTH < d)
      then addCodedIssue ''RULE_DEPTH_EXCEEDED''
             (''Condition nesting depth '' @ depth_text depth @ '' exceeds the cap of ''
               @ nat_digits (nat CONDITION_MAX_DEPTH)) [] []
      else [])"

definition Condition ::
  "(jsval \<Rightarrow> issue list + condition) \<Rightarrow> condition schema" where
  "Condition decode v =
     (case decode v of
        Inl issues \<Rightarrow> Inl issues
      | Inr c \<Rightarrow> (case condition_refinement c of [] \<Rightarrow> Inr c | issues \<Rightarrow> Inl issues))"

record visibility_rule =
  ruleId :: rule_id
  rule_when :: condition
  rule_show :: "string list"  \<comment> \<open>question ids and step ids\<close>

definition VisibilityRule_shape :: "normalizer \<Rightarrow> visibility_rule \<Rightarrow> bool" where
  "VisibilityRule_shape nfc r \<longleftrightarrow>
     RuleId (ruleId r) \<and> ConditionNode_shape nfc (rule_when r) \<and> rule_show r \<noteq> [] \<and>
     list_all (\<lambda>t. QuestionId t \<or> StepId t) (rule_show r)"

definition rule_refinement :: "visibility_rule \<Rightarrow> issue list" where
  "rule_refinement r = map (prefix_issue [Key ''when'']) (condition_refinement (rule_when r))"

definition VisibilityRule ::
  "(jsval \<Rightarrow> issue list + visibility_rule) \<Rightarrow> visibility_rule schema" where
  "VisibilityRule decode v =
     (case decode v of
        Inl issues \<Rightarrow> Inl issues
      | Inr r \<Rightarrow> (case rule_refinement r of [] \<Rightarrow> Inr r | issues \<Rightarrow> Inl issues))"

definition VisibilityRuleErrorCode :: "string list" where
  "VisibilityRuleErrorCode =
     [''INVALID_CONDITION'', ''INVALID_VISIBILITY_RULE'', ''RULE_DEPTH_EXCEEDED'']"

definition parseCondition ::
  "(jsval \<Rightarrow> issue list + condition) \<Rightarrow> jsval \<Rightarrow> (coded_error list, condition) result" where
  "parseCondition decode value =
     (case Condition decode value of
        Inr c \<Rightarrow> ok c
      | Inl issues \<Rightarrow> err (toCodedErrors VisibilityRuleErrorCode issues ''INVALID_CONDITION''))"

definition isCondition :: "(jsval \<Rightarrow> issue list + condition) \<Rightarrow> jsval \<Rightarrow> bool" where
  "isCondition decode value = schema_accepts (Condition decode) value"

definition parseVisibilityRule ::
  "(jsval \<Rightarrow> issue list + visibility_rule) \<Rightarrow> jsval \<Rightarrow> (coded_error list, visibility_rule) result" where
  "parseVisibilityRule decode value =
     (case VisibilityRule decode value of
        Inr r \<Rightarrow> ok r
      | Inl issues \<Rightarrow> err (toCodedErrors VisibilityRuleErrorCode issues ''INVALID_VISIBILITY_RULE''))"

definition isVisibilityRule :: "(jsval \<Rightarrow> issue list + visibility_rule) \<Rightarrow> jsval \<Rightarrow> bool" where
  "isVisibilityRule decode value = schema_accepts (VisibilityRule decode) value"

section \<open>Depth\<close>

text \<open>
  The tree of the condition as the domain document counts its nesting: \<open>deeper n c\<close> says that
  some path of the tree passes more than \<open>n\<close> operators.
\<close>

fun deeper :: "nat \<Rightarrow> condition \<Rightarrow> bool" where
  "deeper 0 _ = True"
| "deeper (Suc n) (CAnd cs) = (\<exists>c \<in> set cs. deeper n c)"
| "deeper (Suc n) (COr cs) = (\<exists>c \<in> set cs. deeper n c)"
| "deeper (Suc n) (CNot c) = deeper n c"
| "deeper (Suc n) (CAnyInstance _ c) = deeper n c"
| "deeper (Suc n) (CEveryInstance _ c) = deeper n c"
| "deeper (Suc n) _ = False"

text \<open>A condition with no empty \<^verbatim>\<open>and\<close> or \<^verbatim>\<open>or\<close>, which is what the schema asks for.\<close>

fun nonempty_lists :: "condition \<Rightarrow> bool" where
  "nonempty_lists (CAnd cs) = (cs \<noteq> [] \<and> (\<forall>c \<in> set cs. nonempty_lists c))"
| "nonempty_lists (COr cs) = (cs \<noteq> [] \<and> (\<forall>c \<in> set cs. nonempty_lists c))"
| "nonempty_lists (CNot c) = nonempty_lists c"
| "nonempty_lists (CAnyInstance _ c) = nonempty_lists c"
| "nonempty_lists (CEveryInstance _ c) = nonempty_lists c"
| "nonempty_lists _ = True"

lemma ConditionNode_shape_nonempty: "ConditionNode_shape nfc c \<Longrightarrow> nonempty_lists c"
  by (induction c) auto

definition exceeds_opt :: "int \<Rightarrow> int option \<Rightarrow> bool" where
  "exceeds_opt n d = (\<exists>k. d = Some k \<and> n < k)"

lemma exceeds_opt_simps [simp]:
  "exceeds_opt n None \<longleftrightarrow> False"
  "exceeds_opt n (Some k) \<longleftrightarrow> n < k"
  "exceeds_opt n (plus_one d) \<longleftrightarrow> exceeds_opt (n - 1) d"
  by (cases d; force simp: exceeds_opt_def plus_one_def)+

lemma exceeds_max_ninf [simp]: "exceeds_opt n (max_ninf a b) \<longleftrightarrow> exceeds_opt n a \<or> exceeds_opt n b"
  by (cases a; cases b) auto

lemma exceeds_math_max [simp]: "exceeds_opt n (math_max ds) \<longleftrightarrow> (\<exists>d \<in> set ds. exceeds_opt n d)"
  by (induction ds) (auto simp: math_max_def)

lemma depth_exceeded_exceeds: "depth_exceeded c \<longleftrightarrow> exceeds_opt CONDITION_MAX_DEPTH (conditionDepth c)"
  by (auto simp: depth_exceeded_def exceeds_opt_def split: option.splits)

lemma conditionDepth_pos: "nonempty_lists c \<Longrightarrow> exceeds_opt 0 (conditionDepth c)"
proof -
  have step: "exceeds_opt (- 1) d" if "exceeds_opt 0 d" for d
    using that by (auto simp: exceeds_opt_def)
  show "nonempty_lists c \<Longrightarrow> exceeds_opt 0 (conditionDepth c)"
    by (induction c) (auto simp: neq_Nil_conv intro!: step)
qed

text \<open>The measured depth is the length of the longest path: above \<open>n\<close> iff some path is.\<close>

lemma conditionDepth_deeper:
  "nonempty_lists c \<Longrightarrow> exceeds_opt (int n) (conditionDepth c) \<longleftrightarrow> deeper n c"
proof (induction n arbitrary: c)
  case 0
  then show ?case by (simp add: conditionDepth_pos)
next
  case (Suc n)
  then show ?case by (cases c) auto
qed

end
