(* ===== verification/Forms.thy ===== *)
theory Forms
  imports Conditions
begin

text \<open>
  \<^verbatim>\<open>packages/core/src/form-definition.ts\<close>: the form aggregate and its refinement, one walk
  over the steps that reports every step, group or question id seen before.
\<close>

record form_definition =
  formId :: form_id
  defaultLocale :: locale_code
  f_title :: localized_text
  f_steps :: "step list"
  f_rules :: "visibility_rule list"

definition FormDefinition_shape :: "normalizer \<Rightarrow> form_definition \<Rightarrow> bool" where
  "FormDefinition_shape nfc f \<longleftrightarrow>
     FormId (formId f) \<and> LocaleCode (defaultLocale f) \<and> LocalizedText (f_title f) \<and>
     f_steps f \<noteq> [] \<and> list_all Step_shape (f_steps f) \<and> list_all (VisibilityRule_shape nfc) (f_rules f)"

text \<open>The three sets the walk fills and the issues it adds.\<close>

record seen_ids =
  seenSteps :: "step_id list"
  seenQuestions :: "question_id list"
  seenGroups :: "group_id list"
  noted :: "issue list"

definition quoted :: "string \<Rightarrow> string" where
  "quoted s = CHR 0x22 # s @ [CHR 0x22]"

definition pin :: "question_id \<Rightarrow> string \<Rightarrow> path_seg list \<Rightarrow> seen_ids \<Rightarrow> seen_ids" where
  "pin qid site path st =
     (if qid \<in> set (seenQuestions st)
      then st\<lparr>noted := addCodedIssue ''DUPLICATE_QUESTION_IN_FORM''
                (''Question '' @ quoted qid @ '' is pinned more than once (again at '' @ site @ '')'')
                (path @ [Key ''questionId'']) (noted st)\<rparr>
      else st\<lparr>seenQuestions := qid # seenQuestions st\<rparr>)"

fun pin_members :: "string \<Rightarrow> path_seg list \<Rightarrow> nat \<Rightarrow> question_ref list \<Rightarrow> seen_ids \<Rightarrow> seen_ids" where
  "pin_members site loc memberIndex [] st = st"
| "pin_members site loc memberIndex (member # members) st =
     pin_members site loc (Suc memberIndex) members
       (pin (ref_questionId member) (site @ ''.items['' @ nat_digits memberIndex @ '']'')
         (loc @ [Key ''items'', Index memberIndex]) st)"

definition note_step :: "nat \<Rightarrow> step_id \<Rightarrow> seen_ids \<Rightarrow> seen_ids" where
  "note_step stepIndex sid st =
     (if sid \<in> set (seenSteps st)
      then st\<lparr>noted := addCodedIssue ''DUPLICATE_STEP_ID''
                (''Duplicate stepId '' @ quoted sid @ '' at steps['' @ nat_digits stepIndex @ '']'')
                [Key ''steps'', Index stepIndex, Key ''stepId''] (noted st)\<rparr>
      else st\<lparr>seenSteps := sid # seenSteps st\<rparr>)"

definition note_groupId :: "string \<Rightarrow> path_seg list \<Rightarrow> group_id \<Rightarrow> seen_ids \<Rightarrow> seen_ids" where
  "note_groupId site loc gid st =
     (if gid \<in> set (seenGroups st)
      then st\<lparr>noted := addCodedIssue ''DUPLICATE_GROUP_ID''
                (''Duplicate groupId '' @ quoted gid @ '' at '' @ site) (loc @ [Key ''groupId'']) (noted st)\<rparr>
      else st\<lparr>seenGroups := gid # seenGroups st\<rparr>)"

fun visit_item :: "nat \<Rightarrow> nat \<Rightarrow> step_item \<Rightarrow> seen_ids \<Rightarrow> seen_ids" where
  "visit_item stepIndex itemIndex item st =
     (let loc = [Key ''steps'', Index stepIndex, Key ''items'', Index itemIndex];
          site = ''steps['' @ nat_digits stepIndex @ ''].items['' @ nat_digits itemIndex @ '']'' in
      case item of
        QuestionItem r \<Rightarrow> pin (ref_questionId r) site loc st
      | GroupItem g \<Rightarrow> pin_members site loc 0 (g_items g) (note_groupId site loc (groupId g) st))"

fun visit_items :: "nat \<Rightarrow> nat \<Rightarrow> step_item list \<Rightarrow> seen_ids \<Rightarrow> seen_ids" where
  "visit_items stepIndex itemIndex [] st = st"
| "visit_items stepIndex itemIndex (item # items) st =
     visit_items stepIndex (Suc itemIndex) items (visit_item stepIndex itemIndex item st)"

fun visit_steps :: "nat \<Rightarrow> step list \<Rightarrow> seen_ids \<Rightarrow> seen_ids" where
  "visit_steps stepIndex [] st = st"
| "visit_steps stepIndex (step # steps) st =
     visit_steps (Suc stepIndex) steps
       (visit_items stepIndex 0 (s_items step) (note_step stepIndex (stepId step) st))"

definition nothing_seen :: seen_ids where
  "nothing_seen = \<lparr>seenSteps = [], seenQuestions = [], seenGroups = [], noted = []\<rparr>"

fun rule_issues :: "nat \<Rightarrow> visibility_rule list \<Rightarrow> issue list" where
  "rule_issues index [] = []"
| "rule_issues index (rule # rules) =
     map (prefix_issue [Key ''rules'', Index index]) (rule_refinement rule) @ rule_issues (Suc index) rules"

text \<open>A nested refinement reports before the one of the object around it; neither stops the other.\<close>

definition form_refinement :: "form_definition \<Rightarrow> issue list" where
  "form_refinement form =
     rule_issues 0 (f_rules form) @ noted (visit_steps 0 (f_steps form) nothing_seen)"

definition FormDefinition ::
  "(jsval \<Rightarrow> issue list + form_definition) \<Rightarrow> form_definition schema" where
  "FormDefinition decode v =
     (case decode v of
        Inl issues \<Rightarrow> Inl issues
      | Inr f \<Rightarrow> (case form_refinement f of [] \<Rightarrow> Inr f | issues \<Rightarrow> Inl issues))"

definition FormDefinitionErrorCode :: "string list" where
  "FormDefinitionErrorCode =
     [''INVALID_FORM_DEFINITION'', ''DUPLICATE_STEP_ID'', ''DUPLICATE_QUESTION_IN_FORM'',
      ''DUPLICATE_GROUP_ID'', ''RULE_DEPTH_EXCEEDED'']"

definition parseFormDefinition ::
  "(jsval \<Rightarrow> issue list + form_definition) \<Rightarrow> jsval \<Rightarrow> (coded_error list, form_definition) result" where
  "parseFormDefinition decode value =
     (case FormDefinition decode value of
        Inr f \<Rightarrow> ok f
      | Inl issues \<Rightarrow> err (toCodedErrors FormDefinitionErrorCode issues ''INVALID_FORM_DEFINITION''))"

definition isFormDefinition :: "(jsval \<Rightarrow> issue list + form_definition) \<Rightarrow> jsval \<Rightarrow> bool" where
  "isFormDefinition decode value = schema_accepts (FormDefinition decode) value"

section \<open>Facts\<close>

definition form_pins :: "form_definition \<Rightarrow> question_id list" where
  "form_pins f = concat (map (\<lambda>s. map ref_questionId (stepQuestionRefs s)) (f_steps f))"

definition form_groups :: "form_definition \<Rightarrow> group_id list" where
  "form_groups f = map groupId (repeatGroups (f_steps f))"

text \<open>The form is unambiguous: every id names one thing. What the walk establishes.\<close>

definition unambiguous :: "form_definition \<Rightarrow> bool" where
  "unambiguous f \<longleftrightarrow>
     distinct (map stepId (f_steps f)) \<and> distinct (form_pins f) \<and> distinct (form_groups f)"

text \<open>
  What one stretch of the walk does: it sees the steps \<open>ss\<close>, the questions \<open>qs\<close> and the
  groups \<open>gs\<close>, and notes nothing iff none repeats.
\<close>

definition fresh :: "'a list \<Rightarrow> 'a list \<Rightarrow> bool" where
  "fresh xs seen \<longleftrightarrow> distinct xs \<and> set xs \<inter> set seen = {}"

lemma fresh_Nil [simp]: "fresh [] seen"
  by (simp add: fresh_def)

lemma fresh_append: "set seen1 = set xs \<union> set seen \<Longrightarrow> fresh (xs @ ys) seen \<longleftrightarrow> fresh xs seen \<and> fresh ys seen1"
  by (auto simp: fresh_def)

lemma fresh_nothing [simp]: "fresh xs [] \<longleftrightarrow> distinct xs"
  by (simp add: fresh_def)

definition sees ::
  "step_id list \<Rightarrow> question_id list \<Rightarrow> group_id list \<Rightarrow> seen_ids \<Rightarrow> seen_ids \<Rightarrow> bool" where
  "sees ss qs gs st st' \<longleftrightarrow>
     set (seenSteps st') = set ss \<union> set (seenSteps st) \<and>
     set (seenQuestions st') = set qs \<union> set (seenQuestions st) \<and>
     set (seenGroups st') = set gs \<union> set (seenGroups st) \<and>
     (noted st' = [] \<longleftrightarrow> noted st = [] \<and>
        fresh ss (seenSteps st) \<and> fresh qs (seenQuestions st) \<and> fresh gs (seenGroups st))"

lemma sees_refl: "sees [] [] [] st st"
  by (simp add: sees_def)

lemma sees_trans:
  assumes "sees ss qs gs st st1" "sees ss' qs' gs' st1 st2"
  shows "sees (ss @ ss') (qs @ qs') (gs @ gs') st st2"
proof -
  note * = assms [unfolded sees_def]
  from * have "fresh (ss @ ss') (seenSteps st) \<longleftrightarrow> fresh ss (seenSteps st) \<and> fresh ss' (seenSteps st1)"
    "fresh (qs @ qs') (seenQuestions st) \<longleftrightarrow> fresh qs (seenQuestions st) \<and> fresh qs' (seenQuestions st1)"
    "fresh (gs @ gs') (seenGroups st) \<longleftrightarrow> fresh gs (seenGroups st) \<and> fresh gs' (seenGroups st1)"
    by (simp_all add: fresh_append)
  with * show ?thesis unfolding sees_def by (simp add: Un_ac conj_ac)
qed

lemma sees_pin: "sees [] [q] [] st (pin q w p st)"
  by (auto simp: sees_def fresh_def pin_def addCodedIssue_def)

lemma sees_note_step: "sees [s] [] [] st (note_step i s st)"
  by (auto simp: sees_def fresh_def note_step_def addCodedIssue_def)

lemma sees_note_groupId: "sees [] [] [g] st (note_groupId w p g st)"
  by (auto simp: sees_def fresh_def note_groupId_def addCodedIssue_def)

lemma sees_pin_members: "sees [] (map ref_questionId ms) [] st (pin_members w p i ms st)"
proof (induction ms arbitrary: i st)
  case (Cons m ms)
  from sees_trans [OF sees_pin Cons.IH] show ?case by simp
qed (simp add: sees_refl)

lemma sees_visit_item:
  "sees [] (map ref_questionId (item_refs item)) (map groupId (item_groups item)) st (visit_item i j item st)"
proof (cases item)
  case (QuestionItem r)
  then show ?thesis by (simp add: sees_pin)
next
  case (GroupItem g)
  with sees_trans [OF sees_note_groupId sees_pin_members] show ?thesis by (simp add: Let_def)
qed

lemma sees_visit_items:
  "sees [] (map ref_questionId (concat (map item_refs items))) (map groupId (concat (map item_groups items)))
     st (visit_items i j items st)"
proof (induction items arbitrary: j st)
  case (Cons m ms)
  from sees_trans [OF sees_visit_item Cons.IH] show ?case by (simp del: visit_item.simps)
qed (simp add: sees_refl)

lemma sees_visit_steps:
  "sees (map stepId steps) (concat (map (\<lambda>s. map ref_questionId (stepQuestionRefs s)) steps))
     (map groupId (repeatGroups steps)) st (visit_steps i steps st)"
proof (induction steps arbitrary: i st)
  case (Cons s ss)
  from sees_trans [OF sees_trans [OF sees_note_step sees_visit_items] Cons.IH]
  show ?case by (simp add: stepQuestionRefs_def repeatGroups_def)
qed (simp add: sees_refl repeatGroups_def)

lemma walk_Nil_iff: "noted (visit_steps 0 (f_steps f) nothing_seen) = [] \<longleftrightarrow> unambiguous f"
  using sees_visit_steps [of "f_steps f" nothing_seen 0]
  by (simp add: sees_def unambiguous_def form_pins_def form_groups_def nothing_seen_def)

lemma condition_refinement_Nil_iff: "condition_refinement c = [] \<longleftrightarrow> \<not> depth_exceeded c"
  by (auto simp: condition_refinement_def depth_exceeded_def addCodedIssue_def split: option.splits)

lemma rule_issues_Nil_iff:
  "rule_issues n rules = [] \<longleftrightarrow> (\<forall>r \<in> set rules. \<not> depth_exceeded (rule_when r))"
  by (induction rules arbitrary: n) (auto simp: rule_refinement_def condition_refinement_Nil_iff)

lemma form_refinement_Nil_iff:
  "form_refinement f = [] \<longleftrightarrow>
     unambiguous f \<and> (\<forall>r \<in> set (f_rules f). \<not> depth_exceeded (rule_when r))"
  by (auto simp: form_refinement_def walk_Nil_iff rule_issues_Nil_iff)

lemma FormDefinition_Inr_iff:
  "FormDefinition decode v = Inr f \<longleftrightarrow>
     decode v = Inr f \<and> unambiguous f \<and> (\<forall>r \<in> set (f_rules f). \<not> depth_exceeded (rule_when r))"
  by (auto simp: FormDefinition_def form_refinement_Nil_iff [symmetric] split: sum.splits list.splits)

end
