(* ===== verification/PublishErrors.thy ===== *)
theory PublishErrors
  imports Forms
begin

text \<open>
  \<^verbatim>\<open>packages/core/src/publish-error.ts\<close> and \<^verbatim>\<open>publish-warning.ts\<close>: the errors and warnings of
  a publish, the snapshot it freezes, and the location texts. A constructor is the error's
  code and its arguments are its path; the message, prose built from the path, is left out.
\<close>

text \<open>The optional keys of a text location; none of them set is the form title.\<close>

record text_path =
  tp_step :: "step_id option"
  tp_group :: "group_id option"
  tp_question :: "question_id option"
  tp_option :: "option_id option"

datatype publish_error =
    DANGLING_QUESTION_REF question_id "step_id option" "rule_id option"
  | DANGLING_OPTION_REF rule_id question_id option_id
  | DANGLING_STEP_REF rule_id step_id
  | UNPUBLISHED_QUESTION_PIN step_id question_id int
  | LOCALE_INCOMPLETE locale_code text_path
  | BLANK_LOCALIZED_TEXT locale_code text_path
  | RULE_BACKWARD_TARGET rule_id string
  | RULE_CYCLE "rule_id list"
  | RULE_DEPTH_EXCEEDED rule_id
  | RULE_TYPE_MISMATCH rule_id question_id
  | DUPLICATE_QUESTION_IN_FORM step_id question_id
  | DUPLICATE_STEP_ID step_id
  | ORPHAN_MESSAGE_KEY question_id validation_message_key
  | DUPLICATE_GROUP_ID group_id step_id
  | REPEAT_NESTING_NOT_ALLOWED group_id step_id
  | REPEAT_MAX_MISSING group_id step_id
  | REPEAT_MIN_ABOVE_MAX group_id step_id
  | REPEAT_COUNT_BACKWARD_REF group_id question_id
  | REPEAT_COUNT_NOT_A_NUMBER group_id question_id
  | INSTANCE_LABEL_PLACEHOLDER_UNKNOWN group_id locale_code string
  | RULE_TARGETS_SPAN_SCOPES rule_id "string list"
  | REPEAT_EVALUATION_BUDGET_EXCEEDED rule_id group_id group_id  \<comment> \<open>targetGroup, readGroup\<close>
  | DANGLING_GROUP_REF rule_id group_id
  | REPEAT_OPERATOR_NESTING_NOT_ALLOWED rule_id group_id group_id \<comment> \<open>outerGroup, innerGroup\<close>
  | RULE_READS_GROUP_WITHOUT_OPERATOR rule_id question_id group_id
  | REPEAT_COUNT_INSIDE_GROUP group_id question_id
  | TABLE_COLUMN_TYPE_NOT_ALLOWED group_id question_id step_id string

datatype publish_warning =
    MULTICHOICE_SAME_STEP_TARGET rule_id question_id question_id step_id \<comment> \<open>question, target, step\<close>
  | PATTERN_CLASS_SET_AMBIGUOUS question_id

record frozen_snapshot =
  snap_definition :: form_definition
  snap_questions :: "question_version_record list"
  semanticsVersion :: int
  schemaVersion :: int

record publish_outcome =
  out_snapshot :: frozen_snapshot
  out_warnings :: "publish_warning list"

type_synonym publish_result = "(publish_error list, publish_outcome) result"

section \<open>Locations\<close>

fun key_name :: "validation_message_key \<Rightarrow> string" where
  "key_name MRequired = ''required''" | "key_name MMinLength = ''minLength''"
| "key_name MMaxLength = ''maxLength''" | "key_name MPattern = ''pattern''"
| "key_name MMin = ''min''" | "key_name MMax = ''max''" | "key_name MInteger = ''integer''"
| "key_name MMinSelected = ''minSelected''" | "key_name MMaxSelected = ''maxSelected''"

definition textSite :: "text_path \<Rightarrow> string" where
  "textSite path =
     (case (tp_option path, tp_question path) of
        (Some opt, Some q) \<Rightarrow> ''option '' @ quoted opt @ '' of question '' @ quoted q
      | (None, Some q) \<Rightarrow> ''question '' @ quoted q
      | (_, None) \<Rightarrow>
          (case tp_group path of
             Some g \<Rightarrow> ''group '' @ quoted g
           | None \<Rightarrow>
               (case tp_step path of Some s \<Rightarrow> ''step '' @ quoted s | None \<Rightarrow> ''form title'')))"

definition scope_name :: "string \<Rightarrow> string" where
  "scope_name scope = (if scope = ''form'' then ''the form'' else ''group '' @ quoted scope)"

fun publishErrorLocation :: "publish_error \<Rightarrow> string" where
  "publishErrorLocation (DANGLING_QUESTION_REF question step rule) =
     ''question '' @ quoted question @
       (case step of
          Some s \<Rightarrow> '' in step '' @ quoted s
        | None \<Rightarrow> (case rule of Some r \<Rightarrow> '' in rule '' @ quoted r | None \<Rightarrow> []))"
| "publishErrorLocation (DANGLING_OPTION_REF rule question opt) =
     ''option '' @ quoted opt @ '' of question '' @ quoted question @ '' in rule '' @ quoted rule"
| "publishErrorLocation (DANGLING_STEP_REF rule step) = ''step '' @ quoted step @ '' in rule '' @ quoted rule"
| "publishErrorLocation (UNPUBLISHED_QUESTION_PIN step question version) =
     ''question '' @ quoted question @ ''@'' @ nat_digits (nat version) @ '' in step '' @ quoted step"
| "publishErrorLocation (LOCALE_INCOMPLETE loc path) = ''locale '' @ quoted loc @ '' missing on '' @ textSite path"
| "publishErrorLocation (BLANK_LOCALIZED_TEXT loc path) = ''locale '' @ quoted loc @ '' blank on '' @ textSite path"
| "publishErrorLocation (RULE_BACKWARD_TARGET rule target) =
     ''target '' @ quoted target @ '' of rule '' @ quoted rule"
| "publishErrorLocation (RULE_CYCLE rules) = ''rules '' @ js_join '' -> '' (map quoted rules)"
| "publishErrorLocation (RULE_DEPTH_EXCEEDED rule) = ''rule '' @ quoted rule"
| "publishErrorLocation (RULE_TYPE_MISMATCH rule question) =
     ''question '' @ quoted question @ '' in rule '' @ quoted rule"
| "publishErrorLocation (DUPLICATE_QUESTION_IN_FORM step question) =
     ''question '' @ quoted question @ '' in step '' @ quoted step"
| "publishErrorLocation (DUPLICATE_STEP_ID step) = ''step '' @ quoted step"
| "publishErrorLocation (ORPHAN_MESSAGE_KEY question constraint) =
     ''validation message '' @ quoted (key_name constraint) @ '' of question '' @ quoted question"
| "publishErrorLocation (DUPLICATE_GROUP_ID grp step) = ''group '' @ quoted grp @ '' in step '' @ quoted step"
| "publishErrorLocation (REPEAT_NESTING_NOT_ALLOWED grp step) = ''group '' @ quoted grp @ '' in step '' @ quoted step"
| "publishErrorLocation (REPEAT_MAX_MISSING grp step) = ''group '' @ quoted grp @ '' in step '' @ quoted step"
| "publishErrorLocation (REPEAT_MIN_ABOVE_MAX grp step) = ''group '' @ quoted grp @ '' in step '' @ quoted step"
| "publishErrorLocation (REPEAT_COUNT_BACKWARD_REF grp question) =
     ''count question '' @ quoted question @ '' of group '' @ quoted grp"
| "publishErrorLocation (REPEAT_COUNT_NOT_A_NUMBER grp question) =
     ''count question '' @ quoted question @ '' of group '' @ quoted grp"
| "publishErrorLocation (REPEAT_COUNT_INSIDE_GROUP grp question) =
     ''count question '' @ quoted question @ '' of group '' @ quoted grp"
| "publishErrorLocation (INSTANCE_LABEL_PLACEHOLDER_UNKNOWN grp loc placeholder) =
     ''placeholder '' @ quoted (''{'' @ placeholder @ ''}'') @ '' in locale '' @ quoted loc
       @ '' of group '' @ quoted grp"
| "publishErrorLocation (RULE_TARGETS_SPAN_SCOPES rule scopes) =
     ''rule '' @ quoted rule @ '' across '' @ js_join '' and '' (map scope_name scopes)"
| "publishErrorLocation (REPEAT_EVALUATION_BUDGET_EXCEEDED rule targetGroup readGroup) =
     ''rule '' @ quoted rule @ '' from group '' @ quoted targetGroup @ '' over group '' @ quoted readGroup"
| "publishErrorLocation (DANGLING_GROUP_REF rule grp) = ''group '' @ quoted grp @ '' in rule '' @ quoted rule"
| "publishErrorLocation (REPEAT_OPERATOR_NESTING_NOT_ALLOWED rule outerGroup innerGroup) =
     ''group '' @ quoted innerGroup @ '' inside group '' @ quoted outerGroup @ '' in rule '' @ quoted rule"
| "publishErrorLocation (RULE_READS_GROUP_WITHOUT_OPERATOR rule question grp) =
     ''question '' @ quoted question @ '' of group '' @ quoted grp @ '' in rule '' @ quoted rule"
| "publishErrorLocation (TABLE_COLUMN_TYPE_NOT_ALLOWED grp question step type) =
     ''column '' @ quoted question @ '' of group '' @ quoted grp @ '' in step '' @ quoted step"

fun publishWarningLocation :: "publish_warning \<Rightarrow> string" where
  "publishWarningLocation (MULTICHOICE_SAME_STEP_TARGET rule question target step) =
     ''rule '' @ quoted rule @ '' reading question '' @ quoted question
       @ '' and showing question '' @ quoted target @ '' in step '' @ quoted step"
| "publishWarningLocation (PATTERN_CLASS_SET_AMBIGUOUS question) =
     ''pattern of question '' @ quoted question"

end
