(* ===== verification/RuleGraph.thy ===== *)
theory RuleGraph
  imports PublishErrors
begin

text \<open>
  \<^verbatim>\<open>packages/core/src/rule-graph.ts\<close>, the graph half: document order, the reads and the
  targets of a rule, the structural checks on rules and repeat counts, and the search for
  cycles. An edge holds the index of its rule in the form, which stands for the identity of
  the rule object.
\<close>

section \<open>Document order\<close>

record doc_position =
  dp_step :: step_id
  dp_question :: question_id
  dp_group :: "group_id option"

fun item_positions :: "step_id \<Rightarrow> step_item \<Rightarrow> doc_position list" where
  "item_positions sid (GroupItem g) =
     map (\<lambda>member. \<lparr>dp_step = sid, dp_question = ref_questionId member, dp_group = Some (groupId g)\<rparr>)
       (g_items g)"
| "item_positions sid (QuestionItem r) =
     [\<lparr>dp_step = sid, dp_question = ref_questionId r, dp_group = None\<rparr>]"

definition documentOrder :: "form_definition \<Rightarrow> doc_position list" where
  "documentOrder form =
     concat (map (\<lambda>step. concat (map (item_positions (stepId step)) (s_items step))) (f_steps form))"

section \<open>What a rule reads and shows\<close>

type_synonym references = "question_id list \<times> group_id list"

definition push_question :: "question_id \<Rightarrow> references \<Rightarrow> references" where
  "push_question q out = (fst out @ [q], snd out)"

definition push_group :: "group_id \<Rightarrow> references \<Rightarrow> references" where
  "push_group g out = (fst out, snd out @ [g])"

fun collectReferences :: "condition \<Rightarrow> references \<Rightarrow> references" where
  "collectReferences (CAnd cs) out = foldl (\<lambda>out child. collectReferences child out) out cs"
| "collectReferences (COr cs) out = foldl (\<lambda>out child. collectReferences child out) out cs"
| "collectReferences (CNot c) out = collectReferences c out"
| "collectReferences (CAnyInstance g c) out = collectReferences c (push_group g out)"
| "collectReferences (CEveryInstance g c) out = collectReferences c (push_group g out)"
| "collectReferences (CInstanceCount g _ _) out = push_group g out"
| "collectReferences (CEquals q _) out = push_question q out"
| "collectReferences (CNotEquals q _) out = push_question q out"
| "collectReferences (CIn q _) out = push_question q out"
| "collectReferences (CGt q _) out = push_question q out"
| "collectReferences (CGte q _) out = push_question q out"
| "collectReferences (CLt q _) out = push_question q out"
| "collectReferences (CLte q _) out = push_question q out"
| "collectReferences (CAnswered q) out = push_question q out"
| "collectReferences (CContains q _) out = push_question q out"
| "collectReferences (CContainsAny q _) out = push_question q out"

definition ruleReferences :: "visibility_rule \<Rightarrow> question_id list" where
  "ruleReferences rule = dedup (fst (collectReferences (rule_when rule) ([], [])))"

definition ruleGroupReferences :: "visibility_rule \<Rightarrow> group_id list" where
  "ruleGroupReferences rule = dedup (snd (collectReferences (rule_when rule) ([], [])))"

type_synonym by_step = "(step_id \<times> question_id list) list"

definition questionsByStep :: "form_definition \<Rightarrow> by_step" where
  "questionsByStep form =
     foldl (\<lambda>m step. if map_of m (stepId step) = None then AList.update (stepId step) [] m else m)
       (foldl (\<lambda>m e. AList.update (dp_step e)
                        (opt_default [] (map_of m (dp_step e)) @ [dp_question e]) m)
          [] (documentOrder form))
       (f_steps form)"

definition expand_target :: "by_step \<Rightarrow> string \<Rightarrow> question_id list" where
  "expand_target byStep target =
     (if isStepId target then opt_default [] (map_of byStep target) else [target])"

definition ruleTargets :: "form_definition \<Rightarrow> visibility_rule \<Rightarrow> question_id list" where
  "ruleTargets form rule =
     (let byStep = questionsByStep form in
      dedup (foldl (\<lambda>expanded target. expanded @ expand_target byStep target) [] (rule_show rule)))"

record group_span =
  span_group :: repeat_group
  span_from :: nat
  span_to :: nat

definition group_indices :: "doc_position list \<Rightarrow> group_id \<Rightarrow> nat list" where
  "group_indices order gid = filter (\<lambda>i. dp_group (order ! i) = Some gid) [0..<length order]"

type_synonym spans = "(group_id \<times> group_span) list"

definition note_span :: "doc_position list \<Rightarrow> spans \<Rightarrow> repeat_group \<Rightarrow> spans" where
  "note_span order spans g =
     (let indices = group_indices order (groupId g) in
      if indices = [] then spans
      else AList.update (groupId g)
             \<lparr>span_group = g, span_from = Min (set indices), span_to = Max (set indices)\<rparr> spans)"

definition groupSpans :: "form_definition \<Rightarrow> spans" where
  "groupSpans form = foldl (note_span (documentOrder form)) [] (repeatGroups (f_steps form))"

type_synonym positions = "(question_id \<times> nat) list"

definition positions_of :: "doc_position list \<Rightarrow> positions" where
  "positions_of order =
     foldl (\<lambda>m (i, e). AList.update (dp_question e) i m) [] (List.enumerate 0 order)"

section \<open>The structural checks\<close>

type_synonym group_map = "(question_id \<times> group_id) list"

definition checkRepeatCountOrder ::
  "form_definition \<Rightarrow> positions \<Rightarrow> spans \<Rightarrow> group_map \<Rightarrow> publish_error list" where
  "checkRepeatCountOrder form position spans groupOf =
     concat (map (\<lambda>g.
       case g_count g of
         FromAnswer q _ _ \<Rightarrow>
           (case (map_of position q, map_of spans (groupId g)) of
              (Some countAt, Some sp) \<Rightarrow>
                (case map_of groupOf q of
                   Some _ \<Rightarrow> [REPEAT_COUNT_INSIDE_GROUP (groupId g) q]
                 | None \<Rightarrow> [])
                @ (if span_from sp \<le> countAt then [REPEAT_COUNT_BACKWARD_REF (groupId g) q] else [])
            | _ \<Rightarrow> [])
       | _ \<Rightarrow> []) (repeatGroups (f_steps form)))"

definition target_scope_name :: "group_map \<Rightarrow> string \<Rightarrow> string" where
  "target_scope_name groupOf target =
     (if isStepId target then ''form'' else opt_default ''form'' (map_of groupOf target))"

definition checkTargetScopes :: "form_definition \<Rightarrow> group_map \<Rightarrow> publish_error list" where
  "checkTargetScopes form groupOf =
     concat (map (\<lambda>rule.
       let scopes = dedup (map (target_scope_name groupOf) (rule_show rule)) in
       if 1 < length scopes then [RULE_TARGETS_SPAN_SCOPES (ruleId rule) scopes] else [])
       (f_rules form))"

definition nested_in :: "rule_id \<Rightarrow> group_id option \<Rightarrow> group_id \<Rightarrow> publish_error list" where
  "nested_in rule outer_group g =
     (case outer_group of
        Some out \<Rightarrow> [REPEAT_OPERATOR_NESTING_NOT_ALLOWED rule out g]
      | None \<Rightarrow> [])"

fun nesting_walk :: "rule_id \<Rightarrow> condition \<Rightarrow> group_id option \<Rightarrow> publish_error list" where
  "nesting_walk rule (CAnd cs) outer_group = concat (map (\<lambda>child. nesting_walk rule child outer_group) cs)"
| "nesting_walk rule (COr cs) outer_group = concat (map (\<lambda>child. nesting_walk rule child outer_group) cs)"
| "nesting_walk rule (CNot c) outer_group = nesting_walk rule c outer_group"
| "nesting_walk rule (CAnyInstance g c) outer_group =
     nested_in rule outer_group g @ nesting_walk rule c (Some g)"
| "nesting_walk rule (CEveryInstance g c) outer_group =
     nested_in rule outer_group g @ nesting_walk rule c (Some g)"
| "nesting_walk rule (CInstanceCount g _ _) outer_group = nested_in rule outer_group g"
| "nesting_walk rule _ outer_group = []"

definition checkOperatorNesting :: "form_definition \<Rightarrow> publish_error list" where
  "checkOperatorNesting form =
     concat (map (\<lambda>rule. nesting_walk (ruleId rule) (rule_when rule) None) (f_rules form))"

definition leaf_scope :: "group_map \<Rightarrow> rule_id \<Rightarrow> question_id \<Rightarrow> group_id list \<Rightarrow> publish_error list" where
  "leaf_scope groupOf rule q inScope =
     (case map_of groupOf q of
        None \<Rightarrow> []
      | Some g \<Rightarrow> if g \<in> set inScope then [] else [RULE_READS_GROUP_WITHOUT_OPERATOR rule q g])"

fun scope_walk :: "group_map \<Rightarrow> rule_id \<Rightarrow> condition \<Rightarrow> group_id list \<Rightarrow> publish_error list" where
  "scope_walk gm rule (CAnd cs) inScope = concat (map (\<lambda>child. scope_walk gm rule child inScope) cs)"
| "scope_walk gm rule (COr cs) inScope = concat (map (\<lambda>child. scope_walk gm rule child inScope) cs)"
| "scope_walk gm rule (CNot c) inScope = scope_walk gm rule c inScope"
| "scope_walk gm rule (CAnyInstance g c) inScope = scope_walk gm rule c (inScope @ [g])"
| "scope_walk gm rule (CEveryInstance g c) inScope = scope_walk gm rule c (inScope @ [g])"
| "scope_walk gm rule (CInstanceCount _ _ _) inScope = []"
| "scope_walk gm rule (CEquals q _) inScope = leaf_scope gm rule q inScope"
| "scope_walk gm rule (CNotEquals q _) inScope = leaf_scope gm rule q inScope"
| "scope_walk gm rule (CIn q _) inScope = leaf_scope gm rule q inScope"
| "scope_walk gm rule (CGt q _) inScope = leaf_scope gm rule q inScope"
| "scope_walk gm rule (CGte q _) inScope = leaf_scope gm rule q inScope"
| "scope_walk gm rule (CLt q _) inScope = leaf_scope gm rule q inScope"
| "scope_walk gm rule (CLte q _) inScope = leaf_scope gm rule q inScope"
| "scope_walk gm rule (CAnswered q) inScope = leaf_scope gm rule q inScope"
| "scope_walk gm rule (CContains q _) inScope = leaf_scope gm rule q inScope"
| "scope_walk gm rule (CContainsAny q _) inScope = leaf_scope gm rule q inScope"

definition target_groups :: "group_map \<Rightarrow> visibility_rule \<Rightarrow> group_id option list" where
  "target_groups groupOf rule =
     dedup (map (\<lambda>target. if isStepId target then None else map_of groupOf target) (rule_show rule))"

definition checkScopedReferences :: "form_definition \<Rightarrow> group_map \<Rightarrow> publish_error list" where
  "checkScopedReferences form groupOf =
     concat (map (\<lambda>rule.
       case target_groups groupOf rule of
         [scope] \<Rightarrow>
           scope_walk groupOf (ruleId rule) (rule_when rule)
             (case scope of None \<Rightarrow> [] | Some g \<Rightarrow> [g])
       | _ \<Rightarrow> []) (f_rules form))"

definition max_of :: "spans \<Rightarrow> group_id \<Rightarrow> int option" where
  "max_of spans gid =
     (case map_of spans gid of None \<Rightarrow> None | Some sp \<Rightarrow> snd (countBounds (g_count (span_group sp))))"

definition budget_findings :: "spans \<Rightarrow> visibility_rule \<Rightarrow> group_id option \<Rightarrow> publish_error list" where
  "budget_findings spans rule target =
     (case target of
        None \<Rightarrow> []
      | Some targetGroup \<Rightarrow>
          (case max_of spans targetGroup of
             None \<Rightarrow> []
           | Some targetMax \<Rightarrow>
               concat (map (\<lambda>readGroup.
                 case (if readGroup = targetGroup then None else max_of spans readGroup) of
                   None \<Rightarrow> []
                 | Some readMax \<Rightarrow>
                     if REPEAT_EVALUATION_BUDGET < targetMax * readMax
                     then [REPEAT_EVALUATION_BUDGET_EXCEEDED (ruleId rule) targetGroup readGroup]
                     else []) (ruleGroupReferences rule))))"

definition checkCrossGroupBudget :: "form_definition \<Rightarrow> group_map \<Rightarrow> spans \<Rightarrow> publish_error list" where
  "checkCrossGroupBudget form groupOf spans =
     concat (map (\<lambda>rule. concat (map (budget_findings spans rule) (target_groups groupOf rule)))
       (f_rules form))"

section \<open>The forward-only check\<close>

definition reference_positions :: "positions \<Rightarrow> spans \<Rightarrow> visibility_rule \<Rightarrow> nat list" where
  "reference_positions position spans rule =
     List.map_filter (map_of position) (ruleReferences rule)
     @ List.map_filter (\<lambda>g. map_option span_to (map_of spans g)) (ruleGroupReferences rule)"

definition backward_targets ::
  "positions \<Rightarrow> by_step \<Rightarrow> spans \<Rightarrow> visibility_rule \<Rightarrow> publish_error list" where
  "backward_targets position byStep spans rule =
     (let referencePositions = reference_positions position spans rule in
      if referencePositions = [] then []
      else
        let lastReference = Max (set referencePositions) in
        concat (map (\<lambda>target.
          let targetPositions = List.map_filter (map_of position) (expand_target byStep target) in
          if targetPositions = [] then []
          else if Min (set targetPositions) \<le> lastReference
          then [RULE_BACKWARD_TARGET (ruleId rule) target]
          else []) (rule_show rule)))"

section \<open>The reads-to-shows graph\<close>

record edge =
  edge_to :: question_id
  edge_rule :: nat

type_synonym adjacency = "(question_id \<times> edge list) list"

definition rule_reads :: "positions \<Rightarrow> spans \<Rightarrow> visibility_rule \<Rightarrow> question_id list" where
  "rule_reads position spans rule =
     (let groupReads = concat (map (\<lambda>g.
            case map_of spans g of
              None \<Rightarrow> []
            | Some sp \<Rightarrow> map ref_questionId (g_items (span_group sp))) (ruleGroupReferences rule)) in
      filter (\<lambda>q. map_of position q \<noteq> None) (dedup (ruleReferences rule @ groupReads)))"

definition rule_shows :: "form_definition \<Rightarrow> positions \<Rightarrow> visibility_rule \<Rightarrow> question_id list" where
  "rule_shows form position rule = filter (\<lambda>q. map_of position q \<noteq> None) (ruleTargets form rule)"

definition add_edges :: "nat \<Rightarrow> question_id list \<Rightarrow> adjacency \<Rightarrow> question_id \<Rightarrow> adjacency" where
  "add_edges ruleIndex shows adj src =
     AList.update src
       (opt_default [] (map_of adj src) @ map (\<lambda>q. \<lparr>edge_to = q, edge_rule = ruleIndex\<rparr>) shows) adj"

definition build_adjacency :: "form_definition \<Rightarrow> positions \<Rightarrow> spans \<Rightarrow> adjacency" where
  "build_adjacency form position spans =
     foldl (\<lambda>adj (i, rule).
         foldl (add_edges i (rule_shows form position rule)) adj (rule_reads position spans rule))
       [] (List.enumerate 0 (f_rules form))"

end
