(* ===== verification/GraphSearch.thy ===== *)
theory GraphSearch
  imports RuleGraph
begin

text \<open>
  \<^verbatim>\<open>cyclicComponents\<close> of \<^verbatim>\<open>packages/core/src/rule-graph.ts\<close>: Tarjan's search, with its
  recursion bounded by a fuel. The number of nodes is enough fuel (\<open>search_total\<close> below), so
  the search always ends with a result.
\<close>

record search =
  s_index :: "(question_id \<times> nat) list"
  lowLink :: "(question_id \<times> nat) list"
  onStack :: "question_id list"
  stack :: "question_id list"      \<comment> \<open>the top first\<close>
  found :: "question_id list list"
  counter :: nat

definition edges_of :: "adjacency \<Rightarrow> question_id \<Rightarrow> edge list" where
  "edges_of adj node = opt_default [] (map_of adj node)"

definition visited :: "search \<Rightarrow> question_id \<Rightarrow> bool" where
  "visited st node \<longleftrightarrow> map_of (s_index st) node \<noteq> None"

definition low_of :: "search \<Rightarrow> question_id \<Rightarrow> nat" where
  "low_of st node = opt_default 0 (map_of (lowLink st) node)"

definition idx_of :: "search \<Rightarrow> question_id \<Rightarrow> nat" where
  "idx_of st node = opt_default 0 (map_of (s_index st) node)"

definition enter :: "question_id \<Rightarrow> search \<Rightarrow> search" where
  "enter node st =
     st\<lparr>s_index := AList.update node (counter st) (s_index st),
        lowLink := AList.update node (counter st) (lowLink st),
        counter := counter st + 1,
        stack := node # stack st,
        onStack := List.insert node (onStack st)\<rparr>"

definition lower :: "question_id \<Rightarrow> nat \<Rightarrow> search \<Rightarrow> search" where
  "lower node n st = st\<lparr>lowLink := AList.update node (min (low_of st node) n) (lowLink st)\<rparr>"

text \<open>The pop loop: the members popped, in order, and the stack left.\<close>

fun pop_component :: "question_id \<Rightarrow> question_id list \<Rightarrow> question_id list \<times> question_id list" where
  "pop_component node [] = ([], [])"
| "pop_component node (member # rest) =
     (if member = node then ([member], rest)
      else (let (component, left) = pop_component node rest in (member # component, left)))"

definition self_loop :: "adjacency \<Rightarrow> question_id \<Rightarrow> bool" where
  "self_loop adj node \<longleftrightarrow> list_ex (\<lambda>e. edge_to e = node) (edges_of adj node)"

definition leave :: "adjacency \<Rightarrow> question_id \<Rightarrow> search \<Rightarrow> search" where
  "leave adj node st =
     (if map_of (lowLink st) node = map_of (s_index st) node then
        let (component, left) = pop_component node (stack st) in
        st\<lparr>stack := left,
           onStack := filter (\<lambda>q. q \<notin> set component) (onStack st),
           found := found st
             @ (if 1 < length component \<or> self_loop adj node then [component] else [])\<rparr>
      else st)"

function (sequential)
  strongConnect :: "adjacency \<Rightarrow> nat \<Rightarrow> question_id \<Rightarrow> search \<Rightarrow> search option" and
  visit_edges :: "adjacency \<Rightarrow> nat \<Rightarrow> question_id \<Rightarrow> edge list \<Rightarrow> search \<Rightarrow> search option" where
  "strongConnect adj 0 node st = None"
| "strongConnect adj (Suc fuel) node st =
     map_option (leave adj node) (visit_edges adj fuel node (edges_of adj node) (enter node st))"
| "visit_edges adj fuel node [] st = Some st"
| "visit_edges adj fuel node (e # es) st =
     (if \<not> visited st (edge_to e) then
        (case strongConnect adj fuel (edge_to e) st of
           None \<Rightarrow> None
         | Some st1 \<Rightarrow> visit_edges adj fuel node es (lower node (low_of st1 (edge_to e)) st1))
      else if edge_to e \<in> set (onStack st) then
        visit_edges adj fuel node es (lower node (idx_of st (edge_to e)) st)
      else visit_edges adj fuel node es st)"
  by pat_completeness auto
termination
  by (relation "measures
        [case_sum (\<lambda>(_, fuel, _). fuel) (\<lambda>(_, fuel, _). fuel),
         case_sum (\<lambda>_. 0) (\<lambda>(_, _, _, es, _). Suc (length es))]") auto

definition graph_nodes :: "adjacency \<Rightarrow> question_id list" where
  "graph_nodes adj = dedup (concat (map (\<lambda>(src, es). src # map edge_to es) adj))"

definition search_start :: search where
  "search_start = \<lparr>s_index = [], lowLink = [], onStack = [], stack = [], found = [], counter = 0\<rparr>"

fun search_nodes :: "adjacency \<Rightarrow> nat \<Rightarrow> question_id list \<Rightarrow> search \<Rightarrow> search option" where
  "search_nodes adj fuel [] st = Some st"
| "search_nodes adj fuel (node # nodes) st =
     (if \<not> visited st node then
        (case strongConnect adj fuel node st of
           None \<Rightarrow> None
         | Some st1 \<Rightarrow> search_nodes adj fuel nodes st1)
      else search_nodes adj fuel nodes st)"

definition cyclicComponents :: "adjacency \<Rightarrow> question_id list list option" where
  "cyclicComponents adj =
     map_option found (search_nodes adj (length (graph_nodes adj)) (graph_nodes adj) search_start)"

section \<open>Enough fuel\<close>

definition closed_nodes :: "adjacency \<Rightarrow> question_id set \<Rightarrow> bool" where
  "closed_nodes adj N \<longleftrightarrow> finite N \<and> (\<forall>n \<in> N. \<forall>e \<in> set (edges_of adj n). edge_to e \<in> N)"

lemma edges_of_mem: "e \<in> set (edges_of adj n) \<Longrightarrow> \<exists>es. (n, es) \<in> set adj \<and> e \<in> set es"
  by (cases "map_of adj n") (auto simp: edges_of_def dest: map_of_SomeD)

lemma set_graph_nodes:
  "q \<in> set (graph_nodes adj) \<longleftrightarrow> (\<exists>src es. (src, es) \<in> set adj \<and> (q = src \<or> q \<in> edge_to ` set es))"
  by (auto simp: graph_nodes_def)

lemma closed_graph_nodes: "closed_nodes adj (set (graph_nodes adj))"
  unfolding closed_nodes_def by (auto simp: set_graph_nodes dest!: edges_of_mem)

definition todo :: "question_id set \<Rightarrow> search \<Rightarrow> nat" where
  "todo N st = card {n \<in> N. \<not> visited st n}"

lemma visited_enter [simp]: "visited (enter node st) n \<longleftrightarrow> n = node \<or> visited st n"
  by (simp add: visited_def enter_def)

lemma visited_lower [simp]: "visited (lower node k st) n \<longleftrightarrow> visited st n"
  by (simp add: visited_def lower_def)

lemma visited_leave [simp]: "visited (leave adj node st) n \<longleftrightarrow> visited st n"
  by (simp add: visited_def leave_def split: prod.split)

lemma todo_enter:
  assumes "finite N" "node \<in> N" "\<not> visited st node"
  shows "todo N st = Suc (todo N (enter node st))"
proof -
  have "{n \<in> N. \<not> visited st n} = insert node {n \<in> N. \<not> visited (enter node st) n}"
    using assms by auto
  with assms show ?thesis by (simp add: todo_def)
qed

lemma todo_mono:
  assumes "finite N" "\<And>n. visited st n \<Longrightarrow> visited st' n"
  shows "todo N st' \<le> todo N st"
  unfolding todo_def by (rule card_mono) (use assms in auto)

lemma search_total:
  "closed_nodes adj N \<Longrightarrow> node \<in> N \<Longrightarrow> \<not> visited st node \<Longrightarrow> todo N st \<le> fuel \<Longrightarrow>
     \<exists>st'. strongConnect adj fuel node st = Some st' \<and> visited st' node \<and>
       (\<forall>n. visited st n \<longrightarrow> visited st' n)"
  "closed_nodes adj N \<Longrightarrow> (\<forall>e \<in> set es. edge_to e \<in> N) \<Longrightarrow> todo N st \<le> fuel \<Longrightarrow>
     \<exists>st'. visit_edges adj fuel node es st = Some st' \<and> (\<forall>n. visited st n \<longrightarrow> visited st' n)"
proof (induction adj fuel node st and adj fuel node es st rule: strongConnect_visit_edges.induct)
  case (1 adj node st)
  then have "finite N" "node \<in> {n \<in> N. \<not> visited st n}" by (auto simp: closed_nodes_def)
  then have "todo N st \<noteq> 0" by (auto simp: todo_def card_eq_0_iff)
  with 1 show ?case by simp
next
  case (2 adj fuel node st)
  then have "todo N (enter node st) \<le> fuel"
    using todo_enter [of N node st] by (simp add: closed_nodes_def)
  with 2 obtain st' where
    "visit_edges adj fuel node (edges_of adj node) (enter node st) = Some st'"
    "\<forall>n. visited (enter node st) n \<longrightarrow> visited st' n"
    by (auto simp: closed_nodes_def)
  then show ?case by simp
next
  case (3 adj fuel node st)
  then show ?case by simp
next
  case (4 adj fuel node e es st)
  then have fin: "finite N" by (simp add: closed_nodes_def)
  show ?case
  proof (cases "visited st (edge_to e)")
    case True
    with 4 show ?thesis by (auto simp: todo_def)
  next
    case False
    with 4 obtain st1 where st1: "strongConnect adj fuel (edge_to e) st = Some st1"
      "\<forall>n. visited st n \<longrightarrow> visited st1 n"
      by auto
    let ?st2 = "lower node (low_of st1 (edge_to e)) st1"
    from st1 fin have "todo N ?st2 \<le> todo N st" by (intro todo_mono) auto
    with 4 False st1 obtain st' where
      "visit_edges adj fuel node es ?st2 = Some st'" "\<forall>n. visited ?st2 n \<longrightarrow> visited st' n"
      by fastforce
    with st1 False show ?thesis by auto
  qed
qed

lemma search_nodes_total:
  assumes "closed_nodes adj N" "set nodes \<subseteq> N" "todo N st \<le> fuel"
  shows "\<exists>st'. search_nodes adj fuel nodes st = Some st'"
  using assms(2,3)
proof (induction nodes arbitrary: st)
  case (Cons node nodes)
  show ?case
  proof (cases "visited st node")
    case True
    with Cons show ?thesis by simp
  next
    case False
    with Cons.prems search_total(1) [OF assms(1), of node st fuel] obtain st' where
      st': "strongConnect adj fuel node st = Some st'" "\<forall>n. visited st n \<longrightarrow> visited st' n"
      by auto
    have "todo N st' \<le> todo N st"
      using assms(1) st' by (intro todo_mono) (auto simp: closed_nodes_def)
    with Cons False st' show ?thesis by simp
  qed
qed simp

lemma cyclicComponents_total: "\<exists>cs. cyclicComponents adj = Some cs"
proof -
  have "todo (set (graph_nodes adj)) search_start \<le> length (graph_nodes adj)"
    unfolding todo_def by (rule order.trans [OF card_mono card_length]) auto
  from search_nodes_total [OF closed_graph_nodes order.refl this] show ?thesis
    by (auto simp: cyclicComponents_def)
qed

section \<open>What the search decides\<close>

text \<open>
  The search reports no component iff the graph has no cycle. One half follows how the search
  runs on a graph without cycles: every call leaves the stack as it found it. The other half
  is an invariant of the runs that have reported nothing so far: what has left the stack only
  leads to what has left the stack.
\<close>

definition edge_rel :: "adjacency \<Rightarrow> (question_id \<times> question_id) set" where
  "edge_rel adj = {(q, edge_to e) | q e. e \<in> set (edges_of adj q)}"

lemma edge_relI: "e \<in> set (edges_of adj q) \<Longrightarrow> (q, edge_to e) \<in> edge_rel adj"
  by (auto simp: edge_rel_def)

lemma edge_relE:
  assumes "(q, r) \<in> edge_rel adj"
  obtains e where "e \<in> set (edges_of adj q)" "r = edge_to e"
  using assms by (auto simp: edge_rel_def)

lemma self_loop_iff: "self_loop adj q \<longleftrightarrow> (q, q) \<in> edge_rel adj"
  by (auto simp: self_loop_def edge_rel_def list_ex_iff)

lemma enter_simps [simp]:
  "map_of (s_index (enter n st)) = (map_of (s_index st))(n \<mapsto> counter st)"
  "map_of (lowLink (enter n st)) = (map_of (lowLink st))(n \<mapsto> counter st)"
  "counter (enter n st) = Suc (counter st)"
  "stack (enter n st) = n # stack st"
  "set (onStack (enter n st)) = insert n (set (onStack st))"
  "found (enter n st) = found st"
  by (simp_all add: enter_def)

lemma lower_simps [simp]:
  "s_index (lower n k st) = s_index st"
  "map_of (lowLink (lower n k st)) = (map_of (lowLink st))(n \<mapsto> min (low_of st n) k)"
  "counter (lower n k st) = counter st"
  "stack (lower n k st) = stack st"
  "onStack (lower n k st) = onStack st"
  "found (lower n k st) = found st"
  by (simp_all add: lower_def)

lemma pop_component_split:
  "node \<notin> set hi \<Longrightarrow> pop_component node (hi @ node # lo) = (hi @ [node], lo)"
  by (induction hi) auto

lemma leave_pops:
  assumes "stack st = hi @ node # lo" "node \<notin> set hi"
    and "map_of (lowLink st) node = map_of (s_index st) node"
  shows "leave adj node st =
    st\<lparr>stack := lo, onStack := filter (\<lambda>q. q \<notin> set (hi @ [node])) (onStack st),
       found := found st @ (if hi \<noteq> [] \<or> self_loop adj node then [hi @ [node]] else [])\<rparr>"
  using assms by (simp add: leave_def pop_component_split)

subsection \<open>No cycle: nothing is reported\<close>

definition undisturbed :: "search \<Rightarrow> search \<Rightarrow> bool" where
  "undisturbed st st' \<longleftrightarrow>
     stack st' = stack st \<and> set (onStack st') = set (onStack st) \<and> found st' = found st \<and>
     counter st \<le> counter st' \<and>
     (\<forall>q. visited st q \<longrightarrow> map_of (s_index st') q = map_of (s_index st) q \<and>
        map_of (lowLink st') q = map_of (lowLink st) q)"

lemma undisturbed_refl: "undisturbed st st"
  by (simp add: undisturbed_def)

lemma undisturbed_visited: "undisturbed st st' \<Longrightarrow> visited st q \<Longrightarrow> visited st' q"
  by (simp add: undisturbed_def visited_def)

lemma undisturbed_trans: "undisturbed st st1 \<Longrightarrow> undisturbed st1 st2 \<Longrightarrow> undisturbed st st2"
  using undisturbed_visited [of st st1] by (simp add: undisturbed_def)

definition stack_ok :: "search \<Rightarrow> bool" where
  "stack_ok st \<longleftrightarrow>
     set (onStack st) = set (stack st) \<and> (\<forall>q \<in> set (stack st). visited st q) \<and>
     (\<forall>q k. map_of (s_index st) q = Some k \<longrightarrow> k < counter st)"

text \<open>Where a call stands: the stack is a path of ancestors of the node.\<close>

definition leads_to :: "adjacency \<Rightarrow> search \<Rightarrow> question_id \<Rightarrow> bool" where
  "leads_to adj st node \<longleftrightarrow> (\<forall>q \<in> set (stack st). (q, node) \<in> (edge_rel adj)\<^sup>*)"

lemma undisturbed_stack_ok: "stack_ok st \<Longrightarrow> undisturbed st st' \<Longrightarrow>
    (\<And>q k. map_of (s_index st') q = Some k \<Longrightarrow> k < counter st') \<Longrightarrow> stack_ok st'"
  using undisturbed_visited [of st st'] by (auto simp: stack_ok_def undisturbed_def)

lemma acyclic_search:
  "strongConnect adj fuel node st = Some st' \<Longrightarrow> acyclic (edge_rel adj) \<Longrightarrow> \<not> visited st node \<Longrightarrow>
     stack_ok st \<Longrightarrow> leads_to adj st node \<Longrightarrow>
     undisturbed st st' \<and> stack_ok st' \<and> map_of (s_index st') node = Some (counter st) \<and>
     map_of (lowLink st') node = Some (counter st)"
  "visit_edges adj fuel node es st = Some st' \<Longrightarrow> acyclic (edge_rel adj) \<Longrightarrow>
     set es \<subseteq> set (edges_of adj node) \<Longrightarrow> stack_ok st \<Longrightarrow> leads_to adj st node \<Longrightarrow>
     visited st node \<Longrightarrow> map_of (lowLink st) node = map_of (s_index st) node \<Longrightarrow>
     undisturbed st st' \<and> stack_ok st'"
proof (induction adj fuel node st and adj fuel node es st arbitrary: st' and st'
    rule: strongConnect_visit_edges.induct)
  case (1 adj node st)
  then show ?case by simp
next
  case (2 adj fuel node st)
  then obtain st1 where
    st1: "visit_edges adj fuel node (edges_of adj node) (enter node st) = Some st1"
      "st' = leave adj node st1"
    by auto
  have "stack_ok (enter node st)" "leads_to adj (enter node st) node"
    using "2.prems" by (auto simp: stack_ok_def leads_to_def less_Suc_eq)
  with 2 st1 have u: "undisturbed (enter node st) st1" and ok: "stack_ok st1" by auto
  then have low: "map_of (lowLink st1) node = Some (counter st)"
    "map_of (s_index st1) node = Some (counter st)" "stack st1 = [] @ node # stack st"
    by (auto simp: undisturbed_def)
  have no_loop: "\<not> self_loop adj node"
    using "2.prems"(2) by (auto simp: self_loop_iff acyclic_def)
  have "st' = st1\<lparr>stack := stack st, onStack := filter (\<lambda>q. q \<notin> set [node]) (onStack st1),
      found := found st1\<rparr>"
    using leave_pops [OF low(3)] low(1,2) no_loop st1(2) by simp
  moreover have "node \<notin> set (stack st)" using "2.prems" by (auto simp: stack_ok_def)
  ultimately show ?case
    using u ok low "2.prems"(3,4) by (auto simp: undisturbed_def stack_ok_def visited_def)
next
  case (3 adj fuel node st)
  then show ?case by (simp add: undisturbed_refl)
next
  case (4 adj fuel node e es st)
  have edge: "(node, edge_to e) \<in> edge_rel adj" using "4.prems"(3) by (auto simp: edge_rel_def)
  show ?case
  proof (cases "visited st (edge_to e)")
    case True
    have "edge_to e \<notin> set (stack st)"
    proof
      assume "edge_to e \<in> set (stack st)"
      with "4.prems"(5) edge have "(node, node) \<in> (edge_rel adj)\<^sup>+"
        by (auto simp: leads_to_def intro: rtrancl_into_trancl2)
      with "4.prems"(2) show False by (auto simp: acyclic_def)
    qed
    then have "edge_to e \<notin> set (onStack st)" using "4.prems"(4) by (auto simp: stack_ok_def)
    with True 4 show ?thesis by auto
  next
    case False
    with "4.prems"(1) obtain st1 where st1: "strongConnect adj fuel (edge_to e) st = Some st1"
      "visit_edges adj fuel node es (lower node (low_of st1 (edge_to e)) st1) = Some st'"
      by (auto split: option.splits)
    have "leads_to adj st (edge_to e)"
      using "4.prems"(5) edge by (auto simp: leads_to_def intro: rtrancl.rtrancl_into_rtrancl)
    with "4.IH"(1) [OF False st1(1)] "4.prems" False have u: "undisturbed st st1" "stack_ok st1"
      "map_of (lowLink st1) (edge_to e) = Some (counter st)" by auto
    from "4.prems"(4,6) obtain k where k: "map_of (s_index st) node = Some k" "k < counter st"
      by (auto simp: visited_def stack_ok_def)
    let ?st2 = "lower node (low_of st1 (edge_to e)) st1"
    have low1: "map_of (lowLink st1) node = Some k" "map_of (s_index st1) node = Some k"
      using u k "4.prems"(6,7) by (auto simp: undisturbed_def)
    then have same: "map_of (lowLink ?st2) = map_of (lowLink st1)"
      using u(3) k(2) by (auto simp: low_of_def fun_eq_iff)
    then have "undisturbed st ?st2" "stack_ok ?st2"
      using u by (auto simp: undisturbed_def stack_ok_def)
    moreover have "leads_to adj ?st2 node" using "4.prems"(5) u by (simp add: leads_to_def undisturbed_def)
    moreover have "visited ?st2 node" "map_of (lowLink ?st2) node = map_of (s_index ?st2) node"
      using same low1 by (auto simp: visited_def)
    ultimately have "undisturbed ?st2 st' \<and> stack_ok st'"
      using "4.IH"(2) [OF False st1] "4.prems"(2,3) by simp
    with \<open>undisturbed st ?st2\<close> undisturbed_trans show ?thesis by blast
  qed
qed

lemma acyclic_search_nodes:
  assumes "acyclic (edge_rel adj)" "search_nodes adj fuel nodes st = Some st'" "stack_ok st"
    "stack st = []"
  shows "found st' = found st"
  using assms(2-4)
proof (induction nodes arbitrary: st)
  case (Cons node nodes)
  show ?case
  proof (cases "visited st node")
    case False
    with Cons.prems obtain st1 where
      st1: "strongConnect adj fuel node st = Some st1" "search_nodes adj fuel nodes st1 = Some st'"
      by (auto split: option.splits)
    have "leads_to adj st node" using Cons.prems by (simp add: leads_to_def)
    with acyclic_search(1) [OF st1(1) assms(1) False] Cons.prems
    have "undisturbed st st1" "stack_ok st1" by auto
    with Cons.IH [OF st1(2)] Cons.prems show ?thesis by (simp add: undisturbed_def)
  qed (use Cons in simp)
qed simp

subsection \<open>Nothing reported: no cycle\<close>

definition wf_search :: "search \<Rightarrow> bool" where
  "wf_search st \<longleftrightarrow>
     set (onStack st) = set (stack st) \<and> (\<forall>q \<in> set (stack st). visited st q) \<and>
     sorted_wrt (\<lambda>a b. idx_of st b < idx_of st a) (stack st) \<and>
     (\<forall>q k. map_of (s_index st) q = Some k \<longrightarrow>
        k < counter st \<and> (\<exists>l. map_of (lowLink st) q = Some l \<and> l \<le> k))"

definition advances :: "search \<Rightarrow> search \<Rightarrow> bool" where
  "advances st st' \<longleftrightarrow>
     (\<exists>new. stack st' = new @ stack st \<and> (\<forall>q \<in> set new. \<not> visited st q)) \<and>
     (\<exists>fs. found st' = found st @ fs) \<and>
     (\<forall>q. visited st q \<longrightarrow> map_of (s_index st') q = map_of (s_index st) q)"

lemma advances_refl: "advances st st"
  by (simp add: advances_def)

lemma advances_visited: "advances st st' \<Longrightarrow> visited st q \<Longrightarrow> visited st' q"
  by (simp add: advances_def visited_def)

lemma advances_trans:
  assumes "advances st st1" "advances st1 st2"
  shows "advances st st2"
proof -
  from assms obtain new new' fs fs' where
    "stack st1 = new @ stack st" "\<forall>q \<in> set new. \<not> visited st q" "found st1 = found st @ fs"
    "stack st2 = new' @ stack st1" "\<forall>q \<in> set new'. \<not> visited st1 q" "found st2 = found st1 @ fs'"
    by (auto simp: advances_def)
  with assms advances_visited [OF assms(1)] show ?thesis
    unfolding advances_def by auto
qed

lemma advances_lower: "advances st st1 \<Longrightarrow> advances st (lower n k st1)"
  by (simp add: advances_def)

lemma idx_of_lower [simp]: "idx_of (lower n k st) q = idx_of st q"
  by (simp add: idx_of_def)

lemma low_of_lower [simp]:
  "low_of (lower n k st) q = (if q = n then min (low_of st n) k else low_of st q)"
  by (simp add: low_of_def)

lemma wf_lower: "wf_search st \<Longrightarrow> visited st n \<Longrightarrow> wf_search (lower n k st)"
  by (fastforce simp: wf_search_def low_of_def visited_def)

lemma wf_enter:
  assumes "wf_search st" "\<not> visited st node"
  shows "wf_search (enter node st)"
proof -
  have "idx_of (enter node st) q = idx_of st q" if "q \<in> set (stack st)" for q
    using assms that by (auto simp: wf_search_def idx_of_def)
  moreover have "idx_of st q < counter st" if "q \<in> set (stack st)" for q
    using assms(1) that by (fastforce simp: wf_search_def idx_of_def visited_def)
  moreover have "idx_of (enter node st) node = counter st" by (simp add: idx_of_def)
  moreover have "sorted_wrt (\<lambda>a b. idx_of (enter node st) b < idx_of (enter node st) a) (stack st)"
    using assms(1) calculation(1)
    by (auto simp: wf_search_def intro: sorted_wrt_mono_rel [rotated])
  ultimately show ?thesis
    using assms by (auto simp: wf_search_def less_Suc_eq)
qed

lemma advances_enter: "\<not> visited st node \<Longrightarrow> advances st (enter node st)"
  by (auto simp: advances_def visited_def)

lemma leave_cases:
  assumes "advances (enter node st) st1"
  obtains (stay) "leave adj node st1 = st1" "map_of (lowLink st1) node \<noteq> map_of (s_index st1) node"
  | (pop) new where "map_of (lowLink st1) node = map_of (s_index st1) node"
    "stack st1 = new @ node # stack st" "node \<notin> set new" "\<forall>q \<in> set new. \<not> visited st q"
    "leave adj node st1 =
      st1\<lparr>stack := stack st, onStack := filter (\<lambda>q. q \<notin> set (new @ [node])) (onStack st1),
         found := found st1 @ (if new \<noteq> [] \<or> self_loop adj node then [new @ [node]] else [])\<rparr>"
proof (cases "map_of (lowLink st1) node = map_of (s_index st1) node")
  case True
  from assms obtain new where new: "stack st1 = new @ node # stack st"
    "\<forall>q \<in> set new. \<not> visited (enter node st) q" by (auto simp: advances_def)
  then have "node \<notin> set new" by auto
  from pop [OF True new(1) this _ leave_pops [OF new(1) this True]] new(2) show thesis by auto
next
  case False
  then show thesis by (intro stay) (simp_all add: leave_def)
qed

lemma distinct_decreasing: "sorted_wrt (\<lambda>a b. (f b :: nat) < f a) xs \<Longrightarrow> distinct xs"
  by (induction xs) auto

lemma wf_leave:
  assumes "wf_search st1" "advances (enter node st) st1" "\<not> visited st node"
  shows "wf_search (leave adj node st1) \<and> advances st (leave adj node st1)"
  using assms(2)
proof (cases rule: leave_cases [where adj = adj])
  case stay
  with assms advances_trans [OF advances_enter [OF assms(3)] assms(2)] show ?thesis by simp
next
  case (pop new)
  have "distinct (stack st1)"
    using assms(1) by (auto simp: wf_search_def intro: distinct_decreasing)
  with pop assms(1) have "wf_search (leave adj node st1)"
    by (auto simp: wf_search_def visited_def idx_of_def sorted_wrt_append)
  moreover have "advances st (leave adj node st1)"
    using pop(5) advances_trans [OF advances_enter [OF assms(3)] assms(2)]
    by (auto simp: advances_def)
  ultimately show ?thesis by simp
qed

lemma search_wf:
  "strongConnect adj fuel node st = Some st' \<Longrightarrow> wf_search st \<Longrightarrow> \<not> visited st node \<Longrightarrow>
     wf_search st' \<and> advances st st' \<and> visited st' node \<and>
     (\<forall>q. visited st q \<longrightarrow> low_of st' q = low_of st q)"
  "visit_edges adj fuel node es st = Some st' \<Longrightarrow> wf_search st \<Longrightarrow> visited st node \<Longrightarrow>
     wf_search st' \<and> advances st st' \<and> low_of st' node \<le> low_of st node \<and>
     (\<forall>q. visited st q \<and> q \<noteq> node \<longrightarrow> low_of st' q = low_of st q)"
proof (induction adj fuel node st and adj fuel node es st arbitrary: st' and st'
    rule: strongConnect_visit_edges.induct)
  case (1 adj node st)
  then show ?case by simp
next
  case (2 adj fuel node st)
  then obtain st1 where
    st1: "visit_edges adj fuel node (edges_of adj node) (enter node st) = Some st1"
      "st' = leave adj node st1"
    by auto
  from "2.IH" [OF st1(1)] wf_enter [OF "2.prems"(2,3)]
  have *: "wf_search st1" "advances (enter node st) st1"
    "\<forall>q. visited (enter node st) q \<and> q \<noteq> node \<longrightarrow> low_of st1 q = low_of (enter node st) q"
    by auto
  have low: "low_of (leave adj node st1) = low_of st1"
    by (auto simp: leave_def low_of_def fun_eq_iff split: prod.splits)
  have "visited st' node" using st1(2) advances_visited [OF *(2), of node] by simp
  with wf_leave [OF *(1,2) "2.prems"(3)] *(3) low st1(2) "2.prems"(3) show ?case
    by (auto simp: low_of_def)
next
  case (3 adj fuel node st)
  then show ?case by (simp add: advances_refl)
next
  case (4 adj fuel node e es st)
  show ?case
  proof (cases "visited st (edge_to e)")
    case True
    then have nn: "\<not> \<not> visited st (edge_to e)" by simp
    show ?thesis
    proof (cases "edge_to e \<in> set (onStack st)")
      case True2: True
      let ?st2 = "lower node (idx_of st (edge_to e)) st"
      from "4.prems"(1) True True2 have v: "visit_edges adj fuel node es ?st2 = Some st'" by simp
      have vn: "visited ?st2 node" using "4.prems"(3) by simp
      note "4.IH"(3) [OF nn True2 v wf_lower [OF "4.prems"(2,3)] vn]
      then show ?thesis by (auto simp: advances_def)
    next
      case False
      from "4.prems"(1) True False have v: "visit_edges adj fuel node es st = Some st'" by simp
      show ?thesis by (rule "4.IH"(4) [OF nn False v "4.prems"(2,3)])
    qed
  next
    case False
    with "4.prems"(1) obtain st1 where st1: "strongConnect adj fuel (edge_to e) st = Some st1"
      "visit_edges adj fuel node es (lower node (low_of st1 (edge_to e)) st1) = Some st'"
      by (auto split: option.splits)
    let ?st2 = "lower node (low_of st1 (edge_to e)) st1"
    from "4.IH"(1) [OF False st1(1)] "4.prems" False have u: "wf_search st1" "advances st st1"
      "\<forall>q. visited st q \<longrightarrow> low_of st1 q = low_of st q" by auto
    have "visited st1 node" by (rule advances_visited [OF u(2) "4.prems"(3)])
    with "4.IH"(2) [OF False st1] wf_lower [OF u(1)]
    have v: "wf_search st'" "advances ?st2 st'" "low_of st' node \<le> low_of ?st2 node"
      "\<forall>q. visited ?st2 q \<and> q \<noteq> node \<longrightarrow> low_of st' q = low_of ?st2 q" by auto
    from advances_trans [OF advances_lower [OF u(2)] v(2)] have "advances st st'" .
    with u v "4.prems"(3) advances_visited [OF u(2)] show ?thesis by auto
  qed
qed

text \<open>What has left the stack, and the invariant on it.\<close>

definition gone :: "search \<Rightarrow> question_id \<Rightarrow> bool" where
  "gone st q \<longleftrightarrow> visited st q \<and> q \<notin> set (stack st)"

definition clean :: "adjacency \<Rightarrow> search \<Rightarrow> bool" where
  "clean adj st \<longleftrightarrow>
     (\<forall>q. gone st q \<longrightarrow> (q, q) \<notin> (edge_rel adj)\<^sup>+ \<and> (\<forall>r. (q, r) \<in> edge_rel adj \<longrightarrow> gone st r))"

lemma gone_lower [simp]: "gone (lower n k st) = gone st"
  by (simp add: gone_def fun_eq_iff)

lemma gone_enter: "\<not> visited st node \<Longrightarrow> gone (enter node st) = gone st"
  by (auto simp: gone_def fun_eq_iff)

lemma gone_advances: "advances st st' \<Longrightarrow> gone st q \<Longrightarrow> gone st' q"
  using advances_visited [of st st' q] by (auto simp: gone_def advances_def)

lemma clean_cong: "gone st' = gone st \<Longrightarrow> clean adj st \<Longrightarrow> clean adj st'"
  by (simp add: clean_def)

lemma clean_rtrancl: "(q, r) \<in> (edge_rel adj)\<^sup>* \<Longrightarrow> clean adj st \<Longrightarrow> gone st q \<Longrightarrow> gone st r"
  by (induction rule: rtrancl_induct) (auto simp: clean_def)

lemma clean_add:
  assumes "clean adj st" "\<And>q. gone st' q \<longleftrightarrow> gone st q \<or> q = node" "\<not> gone st node"
    "\<And>r. (node, r) \<in> edge_rel adj \<Longrightarrow> gone st r"
  shows "clean adj st'"
proof -
  have "(node, node) \<notin> (edge_rel adj)\<^sup>+"
  proof
    assume "(node, node) \<in> (edge_rel adj)\<^sup>+"
    then obtain z where "(node, z) \<in> edge_rel adj" "(z, node) \<in> (edge_rel adj)\<^sup>*"
      by (auto dest: tranclD)
    with assms(1,3,4) clean_rtrancl show False by blast
  qed
  with assms show ?thesis unfolding clean_def by metis
qed

definition edge_settled :: "search \<Rightarrow> question_id \<Rightarrow> question_id \<Rightarrow> bool" where
  "edge_settled st node r \<longleftrightarrow> gone st r \<or> r \<in> set (stack st) \<and> low_of st node \<le> idx_of st r"

lemma edge_settled_advances:
  assumes "edge_settled st node r" "advances st st'" "low_of st' node \<le> low_of st node" "wf_search st"
  shows "edge_settled st' node r"
proof (cases "gone st r")
  case True
  with assms gone_advances show ?thesis by (auto simp: edge_settled_def)
next
  case False
  with assms(1) have r: "r \<in> set (stack st)" "low_of st node \<le> idx_of st r" by (auto simp: edge_settled_def)
  with assms(4) have "visited st r" by (simp add: wf_search_def)
  with assms(2) r have "idx_of st' r = idx_of st r" "r \<in> set (stack st')"
    by (auto simp: advances_def idx_of_def)
  with r assms(3) show ?thesis by (simp add: edge_settled_def)
qed

lemma wf_low_le: "wf_search st \<Longrightarrow> visited st q \<Longrightarrow> low_of st q \<le> idx_of st q"
  by (fastforce simp: wf_search_def visited_def low_of_def idx_of_def)

lemma search_clean:
  "strongConnect adj fuel node st = Some st' \<Longrightarrow> wf_search st \<Longrightarrow> \<not> visited st node \<Longrightarrow>
     clean adj st \<Longrightarrow> found st' = [] \<Longrightarrow> clean adj st'"
  "visit_edges adj fuel node es st = Some st' \<Longrightarrow> wf_search st \<Longrightarrow> visited st node \<Longrightarrow>
     clean adj st \<Longrightarrow> found st' = [] \<Longrightarrow>
     clean adj st' \<and> (\<forall>e \<in> set es. edge_settled st' node (edge_to e))"
proof (induction adj fuel node st and adj fuel node es st arbitrary: st' and st'
    rule: strongConnect_visit_edges.induct)
  case (1 adj node st)
  then show ?case by simp
next
  case (2 adj fuel node st)
  then obtain st1 where
    st1: "visit_edges adj fuel node (edges_of adj node) (enter node st) = Some st1"
      "st' = leave adj node st1"
    by auto
  have vn: "visited (enter node st) node" by simp
  note w = search_wf(2) [OF st1(1) wf_enter [OF "2.prems"(2,3)] vn]
  have f1: "found st1 = []"
    using "2.prems"(5) st1(2) by (auto simp: leave_def split: if_splits prod.splits)
  have "clean adj (enter node st)"
    by (rule clean_cong [OF gone_enter [OF "2.prems"(3)] "2.prems"(4)])
  from "2.IH" [OF st1(1) wf_enter [OF "2.prems"(2,3)] vn this f1]
  have c: "clean adj st1" "\<And>r. (node, r) \<in> edge_rel adj \<Longrightarrow> edge_settled st1 node r"
    by (auto elim: edge_relE)
  from w have adv: "advances (enter node st) st1" by simp
  then show ?case
  proof (cases rule: leave_cases [where adj = adj])
    case stay
    with c st1 show ?thesis by simp
  next
    case (pop new)
    with "2.prems"(5) st1(2) have new: "new = []" "\<not> self_loop adj node" by (auto split: if_splits)
    have node: "visited st1 node" using advances_visited [OF adv vn] .
    from pop(1) have low: "low_of st1 node = idx_of st1 node" by (simp add: low_of_def idx_of_def)
    have sorted: "\<forall>r \<in> set (stack st). idx_of st1 r < idx_of st1 node"
      using w pop(2) new(1) by (simp add: wf_search_def)
    have "gone st1 r" if "(node, r) \<in> edge_rel adj" for r
      using c(2) [OF that] low sorted pop(2) new that
      by (fastforce simp: edge_settled_def self_loop_iff)
    moreover have "node \<notin> set (stack st)" using "2.prems"(2,3) by (auto simp: wf_search_def)
    then have "gone st' q \<longleftrightarrow> gone st1 q \<or> q = node" for q
      using pop(2,5) new node st1(2) by (auto simp: gone_def visited_def)
    moreover have "\<not> gone st1 node" using pop(2) by (simp add: gone_def)
    ultimately show ?thesis using clean_add [OF c(1)] by blast
  qed
next
  case (3 adj fuel node st)
  then show ?case by simp
next
  case (4 adj fuel node e es st)
  show ?case
  proof (cases "visited st (edge_to e)")
    case True
    then have nn: "\<not> \<not> visited st (edge_to e)" by simp
    show ?thesis
    proof (cases "edge_to e \<in> set (onStack st)")
      case True2: True
      let ?st2 = "lower node (idx_of st (edge_to e)) st"
      from "4.prems"(1) True True2 have v: "visit_edges adj fuel node es ?st2 = Some st'" by simp
      have vn: "visited ?st2 node" using "4.prems"(3) by simp
      have cl: "clean adj ?st2" by (rule clean_cong [OF gone_lower "4.prems"(4)])
      note w2 = wf_lower [OF "4.prems"(2,3)]
      note ih = "4.IH"(3) [OF nn True2 v w2 vn cl "4.prems"(5)]
      note w = search_wf(2) [OF v w2 vn]
      have "edge_to e \<in> set (stack st)" using True2 "4.prems"(2) by (simp add: wf_search_def)
      then have "edge_settled ?st2 node (edge_to e)" by (simp add: edge_settled_def)
      from edge_settled_advances [OF this _ _ w2] w ih show ?thesis by auto
    next
      case False
      from "4.prems"(1) True False have v: "visit_edges adj fuel node es st = Some st'" by simp
      note ih = "4.IH"(4) [OF nn False v "4.prems"(2,3,4,5)]
      note w = search_wf(2) [OF v "4.prems"(2,3)]
      have "gone st (edge_to e)" using True False "4.prems"(2) by (simp add: gone_def wf_search_def)
      with ih w gone_advances show ?thesis by (auto simp: edge_settled_def)
    qed
  next
    case False
    with "4.prems"(1) obtain st1 where st1: "strongConnect adj fuel (edge_to e) st = Some st1"
      "visit_edges adj fuel node es (lower node (low_of st1 (edge_to e)) st1) = Some st'"
      by (auto split: option.splits)
    let ?st2 = "lower node (low_of st1 (edge_to e)) st1"
    note w1 = search_wf(1) [OF st1(1) "4.prems"(2) False]
    then have vn1: "visited st1 node" using advances_visited "4.prems"(3) by blast
    then have vn: "visited ?st2 node" by simp
    from w1 wf_lower vn1 have w2: "wf_search ?st2" by blast
    note w = search_wf(2) [OF st1(2) w2 vn]
    have f1: "found st1 = []" using w "4.prems"(5) by (auto simp: advances_def)
    have "clean adj st1" by (rule "4.IH"(1) [OF False st1(1) "4.prems"(2) False "4.prems"(4) f1])
    then have cl: "clean adj ?st2" by (rule clean_cong [OF gone_lower])
    note ih = "4.IH"(2) [OF False st1 w2 vn cl "4.prems"(5)]
    have "low_of st1 (edge_to e) \<le> idx_of st1 (edge_to e)" using w1 wf_low_le by blast
    then have "edge_settled ?st2 node (edge_to e)" using w1 by (auto simp: edge_settled_def gone_def)
    from edge_settled_advances [OF this _ _ w2] w ih show ?thesis by auto
  qed
qed

text \<open>A call from an empty stack ends with an empty stack.\<close>

definition since :: "nat \<Rightarrow> search \<Rightarrow> bool" where
  "since k st \<longleftrightarrow>
     k \<le> counter st \<and> (\<forall>q \<in> set (stack st). k \<le> idx_of st q) \<and>
     (\<forall>q. visited st q \<and> k \<le> idx_of st q \<longrightarrow> k \<le> low_of st q)"

lemma since_enter:
  "since k st \<Longrightarrow> wf_search st \<Longrightarrow> \<not> visited st node \<Longrightarrow> since k (enter node st)"
  by (auto simp: since_def wf_search_def idx_of_def low_of_def)

lemma since_lower: "since k st \<Longrightarrow> k \<le> n \<Longrightarrow> since k (lower node n st)"
  by (auto simp: since_def visited_def low_of_def idx_of_def split: option.splits)

lemma leave_keeps [simp]:
  "s_index (leave adj node st) = s_index st" "lowLink (leave adj node st) = lowLink st"
  "counter (leave adj node st) = counter st"
  by (auto simp: leave_def split: prod.splits)

lemma idx_low_leave [simp]:
  "idx_of (leave adj node st) q = idx_of st q" "low_of (leave adj node st) q = low_of st q"
  by (simp_all add: idx_of_def low_of_def)

lemma leave_stack_subset:
  "advances (enter node st0) st \<Longrightarrow> set (stack (leave adj node st)) \<subseteq> set (stack st)"
  by (erule leave_cases [where adj = adj]) auto

lemma since_leave: "since k st \<Longrightarrow> advances (enter node st0) st \<Longrightarrow> since k (leave adj node st)"
  using leave_stack_subset [of node st0 st adj] by (auto simp: since_def)

lemma search_since:
  "strongConnect adj fuel node st = Some st' \<Longrightarrow> wf_search st \<Longrightarrow> \<not> visited st node \<Longrightarrow>
     since k st \<Longrightarrow> since k st' \<and> k \<le> idx_of st' node"
  "visit_edges adj fuel node es st = Some st' \<Longrightarrow> wf_search st \<Longrightarrow> visited st node \<Longrightarrow>
     since k st \<Longrightarrow> since k st'"
proof (induction adj fuel node st and adj fuel node es st arbitrary: st' and st'
    rule: strongConnect_visit_edges.induct)
  case (1 adj node st)
  then show ?case by simp
next
  case (2 adj fuel node st)
  then obtain st1 where
    st1: "visit_edges adj fuel node (edges_of adj node) (enter node st) = Some st1"
      "st' = leave adj node st1"
    by auto
  have vn: "visited (enter node st) node" by simp
  note w = search_wf(2) [OF st1(1) wf_enter [OF "2.prems"(2,3)] vn]
  note s1 = "2.IH" [OF st1(1) wf_enter [OF "2.prems"(2,3)] vn since_enter [OF "2.prems"(4,2,3)]]
  from w have "idx_of st1 node = counter st" by (simp add: advances_def idx_of_def)
  moreover have "since k (leave adj node st1)" using w by (intro since_leave [OF s1]) blast
  moreover have "k \<le> counter st" using "2.prems"(4) by (simp add: since_def)
  ultimately show ?case by (simp add: st1(2))
next
  case (3 adj fuel node st)
  then show ?case by simp
next
  case (4 adj fuel node e es st)
  show ?case
  proof (cases "visited st (edge_to e)")
    case True
    then have nn: "\<not> \<not> visited st (edge_to e)" by simp
    show ?thesis
    proof (cases "edge_to e \<in> set (onStack st)")
      case True2: True
      let ?st2 = "lower node (idx_of st (edge_to e)) st"
      from "4.prems"(1) True True2 have v: "visit_edges adj fuel node es ?st2 = Some st'" by simp
      have vn: "visited ?st2 node" using "4.prems"(3) by simp
      have "k \<le> idx_of st (edge_to e)" using True2 "4.prems"(2,4) by (auto simp: wf_search_def since_def)
      from "4.IH"(3) [OF nn True2 v wf_lower [OF "4.prems"(2,3)] vn since_lower [OF "4.prems"(4) this]]
      show ?thesis .
    next
      case False
      from "4.prems"(1) True False have v: "visit_edges adj fuel node es st = Some st'" by simp
      show ?thesis by (rule "4.IH"(4) [OF nn False v "4.prems"(2,3,4)])
    qed
  next
    case False
    with "4.prems"(1) obtain st1 where st1: "strongConnect adj fuel (edge_to e) st = Some st1"
      "visit_edges adj fuel node es (lower node (low_of st1 (edge_to e)) st1) = Some st'"
      by (auto split: option.splits)
    let ?st2 = "lower node (low_of st1 (edge_to e)) st1"
    note w1 = search_wf(1) [OF st1(1) "4.prems"(2) False]
    then have vn1: "visited st1 node" using advances_visited "4.prems"(3) by blast
    then have vn: "visited ?st2 node" by simp
    from w1 wf_lower vn1 have w2: "wf_search ?st2" by blast
    note s1 = "4.IH"(1) [OF False st1(1) "4.prems"(2) False "4.prems"(4)]
    then have "k \<le> low_of st1 (edge_to e)" using w1 by (auto simp: since_def)
    with s1 since_lower have "since k ?st2" by blast
    from "4.IH"(2) [OF False st1 w2 vn this] show ?thesis .
  qed
qed

lemma search_empties_stack:
  assumes "strongConnect adj fuel node st = Some st'" "wf_search st" "\<not> visited st node" "stack st = []"
  shows "stack st' = []"
proof -
  from assms(1) obtain f where f: "fuel = Suc f" by (cases fuel) auto
  with assms(1) obtain st1 where
    st1: "visit_edges adj f node (edges_of adj node) (enter node st) = Some st1" "st' = leave adj node st1"
    by auto
  have vn: "visited (enter node st) node" by simp
  note w = search_wf(2) [OF st1(1) wf_enter [OF assms(2,3)] vn]
  have "idx_of st q < counter st" if "visited st q" for q
    using assms(2) that by (fastforce simp: wf_search_def visited_def idx_of_def)
  then have "since (counter st) (enter node st)"
    using assms(4) by (fastforce simp: since_def idx_of_def low_of_def)
  note s = search_since(2) [OF st1(1) wf_enter [OF assms(2,3)] vn this]
  from w have idx: "map_of (s_index st1) node = Some (counter st)" by (simp add: advances_def)
  from w have "wf_search st1" by simp
  with idx obtain l where l: "map_of (lowLink st1) node = Some l" "l \<le> counter st"
    unfolding wf_search_def by blast
  then have at: "visited st1 node" "idx_of st1 node = counter st" "low_of st1 node = l"
    using idx by (simp_all add: visited_def idx_of_def low_of_def)
  from s have "visited st1 node \<and> counter st \<le> idx_of st1 node \<longrightarrow> counter st \<le> low_of st1 node"
    by (simp add: since_def)
  with at have "counter st \<le> l" by simp
  with l idx have eq: "map_of (lowLink st1) node = map_of (s_index st1) node" by simp
  from w have "advances (enter node st) st1" by simp
  then show ?thesis
    by (cases rule: leave_cases [where adj = adj]) (use eq st1(2) assms(4) in auto)
qed

lemma search_nodes_found:
  "search_nodes adj fuel nodes st = Some st' \<Longrightarrow> wf_search st \<Longrightarrow> \<exists>fs. found st' = found st @ fs"
proof (induction nodes arbitrary: st)
  case (Cons node nodes)
  show ?case
  proof (cases "visited st node")
    case False
    with Cons.prems obtain st1 where
      st1: "strongConnect adj fuel node st = Some st1" "search_nodes adj fuel nodes st1 = Some st'"
      by (auto split: option.splits)
    from search_wf(1) [OF st1(1) Cons.prems(2) False] Cons.IH [OF st1(2)] show ?thesis
      by (auto simp: advances_def)
  qed (use Cons in simp)
qed simp

lemma search_nodes_clean:
  assumes "search_nodes adj fuel nodes st = Some st'" "wf_search st" "clean adj st" "stack st = []"
    "found st' = []"
  shows "clean adj st' \<and> stack st' = [] \<and> (\<forall>q. q \<in> set nodes \<or> visited st q \<longrightarrow> visited st' q)"
  using assms
proof (induction nodes arbitrary: st)
  case (Cons node nodes)
  show ?case
  proof (cases "visited st node")
    case False
    with Cons.prems obtain st1 where
      st1: "strongConnect adj fuel node st = Some st1" "search_nodes adj fuel nodes st1 = Some st'"
      by (auto split: option.splits)
    note w = search_wf(1) [OF st1(1) Cons.prems(2) False]
    then have f1: "found st1 = []" using search_nodes_found [OF st1(2)] Cons.prems(5) by auto
    note c = search_clean(1) [OF st1(1) Cons.prems(2) False Cons.prems(3) f1]
    note e = search_empties_stack [OF st1(1) Cons.prems(2) False Cons.prems(4)]
    from Cons.IH [OF st1(2) _ c e Cons.prems(5)] w advances_visited show ?thesis by auto
  qed (use Cons in auto)
qed simp

lemma search_start_ok: "stack_ok search_start" "wf_search search_start" "clean adj search_start"
    "stack search_start = []" "found search_start = []" "\<not> visited search_start q"
  by (auto simp: stack_ok_def wf_search_def clean_def gone_def visited_def search_start_def)

lemma cyclicComponents_Nil_iff: "cyclicComponents adj = Some [] \<longleftrightarrow> acyclic (edge_rel adj)"
proof
  assume "acyclic (edge_rel adj)"
  moreover obtain cs where cs: "cyclicComponents adj = Some cs" using cyclicComponents_total by blast
  ultimately show "cyclicComponents adj = Some []"
    using acyclic_search_nodes search_start_ok by (fastforce simp: cyclicComponents_def)
next
  assume "cyclicComponents adj = Some []"
  then obtain st' where
    st': "search_nodes adj (length (graph_nodes adj)) (graph_nodes adj) search_start = Some st'"
      "found st' = []"
    by (auto simp: cyclicComponents_def)
  from search_nodes_clean [OF st'(1) search_start_ok(2,3,4) st'(2)]
  have c: "clean adj st'" "\<And>q. q \<in> set (graph_nodes adj) \<Longrightarrow> gone st' q" by (auto simp: gone_def)
  have "(q, q) \<notin> (edge_rel adj)\<^sup>+" for q
  proof
    assume "(q, q) \<in> (edge_rel adj)\<^sup>+"
    then obtain r where "(q, r) \<in> edge_rel adj" by (auto dest: tranclD)
    then have "q \<in> set (graph_nodes adj)"
      by (auto simp: set_graph_nodes elim!: edge_relE dest!: edges_of_mem)
    with c \<open>(q, q) \<in> (edge_rel adj)\<^sup>+\<close> show False by (auto simp: clean_def)
  qed
  then show "acyclic (edge_rel adj)" by (simp add: acyclic_def)
qed

end
