(* ===== verification/RuleAnalysis.thy ===== *)
theory RuleAnalysis
  imports GraphSearch
begin

text \<open>
  \<^verbatim>\<open>analyzeRuleGraph\<close> of \<^verbatim>\<open>packages/core/src/rule-graph.ts\<close>: every finding of the graph
  checks, and what the absence of findings means: every read comes strictly before every
  target, so the reads-to-shows graph has no cycle.
\<close>

definition on_cycle :: "form_definition \<Rightarrow> adjacency \<Rightarrow> question_id list \<Rightarrow> rule_id list" where
  "on_cycle form adj component =
     map (\<lambda>(i, rule). ruleId rule)
       (filter (\<lambda>(i, rule).
           list_ex (\<lambda>(src, edges). src \<in> set component \<and>
             list_ex (\<lambda>e. edge_rule e = i \<and> edge_to e \<in> set component) edges) adj)
         (List.enumerate 0 (f_rules form)))"

definition cycle_findings :: "form_definition \<Rightarrow> adjacency \<Rightarrow> publish_error list" where
  "cycle_findings form adj =
     (case cyclicComponents adj of
        None \<Rightarrow> []
      | Some components \<Rightarrow> map (\<lambda>component. RULE_CYCLE (on_cycle form adj component)) components)"

definition form_positions :: "form_definition \<Rightarrow> positions" where
  "form_positions form = positions_of (documentOrder form)"

definition form_adjacency :: "form_definition \<Rightarrow> adjacency" where
  "form_adjacency form = build_adjacency form (form_positions form) (groupSpans form)"

definition analyzeRuleGraph :: "form_definition \<Rightarrow> publish_error list" where
  "analyzeRuleGraph form =
     (let position = form_positions form;
          byStep = questionsByStep form;
          spans = groupSpans form;
          groupOf = questionGroups (f_steps form) in
      checkRepeatCountOrder form position spans groupOf
      @ checkTargetScopes form groupOf
      @ checkOperatorNesting form
      @ checkScopedReferences form groupOf
      @ checkCrossGroupBudget form groupOf spans
      @ concat (map (backward_targets position byStep spans) (f_rules form))
      @ cycle_findings form (form_adjacency form))"

section \<open>Document order and positions\<close>

lemma documentOrder_questions: "map dp_question (documentOrder f) = form_pins f"
proof -
  have item: "map dp_question (item_positions sid i) = map ref_questionId (item_refs i)" for sid i
    by (cases i) auto
  have "map dp_question (concat (map (item_positions sid) items)) = map ref_questionId (concat (map item_refs items))"
    for sid items
    by (induction items) (simp_all add: item)
  then show ?thesis
    by (simp add: documentOrder_def form_pins_def stepQuestionRefs_def map_concat o_def)
qed

lemma set_item_positions:
  "e \<in> set (item_positions sid i) \<longleftrightarrow>
     dp_step e = sid \<and>
     ((\<exists>r. i = QuestionItem r \<and> dp_question e = ref_questionId r \<and> dp_group e = None) \<or>
      (\<exists>g m. i = GroupItem g \<and> m \<in> set (g_items g) \<and> dp_question e = ref_questionId m \<and>
         dp_group e = Some (groupId g)))"
  by (cases i; cases e) auto

lemma set_documentOrder:
  "e \<in> set (documentOrder f) \<longleftrightarrow>
     (\<exists>s \<in> set (f_steps f). \<exists>i \<in> set (s_items s). e \<in> set (item_positions (stepId s) i))"
  by (simp add: documentOrder_def)

lemma foldl_positions:
  "map_of (foldl (\<lambda>m (i, e). AList.update (dp_question e) i m) m (List.enumerate n es)) q = Some i \<Longrightarrow>
     (n \<le> i \<and> i < n + length es \<and> dp_question (es ! (i - n)) = q) \<or> map_of m q = Some i"
proof (induction es arbitrary: n m)
  case (Cons e es)
  from Cons.IH [of "AList.update (dp_question e) n m" "Suc n"] Cons.prems
  have "(Suc n \<le> i \<and> i < Suc n + length es \<and> dp_question (es ! (i - Suc n)) = q) \<or>
      map_of (AList.update (dp_question e) n m) q = Some i" by simp
  then show ?case
  proof
    assume *: "Suc n \<le> i \<and> i < Suc n + length es \<and> dp_question (es ! (i - Suc n)) = q"
    then have "i - n = Suc (i - Suc n)" by arith
    with * show ?thesis by simp
  next
    assume "map_of (AList.update (dp_question e) n m) q = Some i"
    then show ?thesis by (auto split: if_splits)
  qed
qed simp

lemma foldl_positions_dom:
  "map_of (foldl (\<lambda>m (i, e). AList.update (dp_question e) i m) m (List.enumerate n es)) q = None \<longleftrightarrow>
     map_of m q = None \<and> q \<notin> dp_question ` set es"
  by (induction es arbitrary: n m) auto

lemma positions_Some:
  "map_of (positions_of es) q = Some i \<Longrightarrow> i < length es \<and> dp_question (es ! i) = q"
  using foldl_positions [of "[]" 0 es q i] by (simp add: positions_of_def)

lemma positions_None_iff: "map_of (positions_of es) q = None \<longleftrightarrow> q \<notin> dp_question ` set es"
  by (simp add: positions_of_def foldl_positions_dom)

lemma positions_distinct:
  assumes "distinct (map dp_question es)" "i < length es"
  shows "map_of (positions_of es) (dp_question (es ! i)) = Some i"
proof -
  have "map_of (positions_of es) (dp_question (es ! i)) \<noteq> None"
    using assms(2) by (simp add: positions_None_iff)
  then obtain j where j: "map_of (positions_of es) (dp_question (es ! i)) = Some j" by auto
  from positions_Some [OF j] assms nth_eq_iff_index_eq [OF assms(1), of i j] have "i = j" by simp
  with j show ?thesis by simp
qed

lemma form_position_defined: "map_of (form_positions f) q \<noteq> None \<longleftrightarrow> q \<in> set (form_pins f)"
  by (simp add: form_positions_def positions_None_iff flip: documentOrder_questions)

section \<open>Spans\<close>

definition span_of :: "doc_position list \<Rightarrow> repeat_group \<Rightarrow> group_span \<Rightarrow> bool" where
  "span_of order g sp \<longleftrightarrow>
     span_group sp = g \<and> group_indices order (groupId g) \<noteq> [] \<and>
     span_from sp = Min (set (group_indices order (groupId g))) \<and>
     span_to sp = Max (set (group_indices order (groupId g)))"

lemma map_of_note_span:
  "map_of (note_span order m g) gid = Some sp \<Longrightarrow>
     map_of m gid = Some sp \<or> groupId g = gid \<and> span_of order g sp"
  by (auto simp: note_span_def span_of_def Let_def split: if_splits)

lemma map_of_spans_fold:
  "map_of (foldl (note_span order) m gs) gid = Some sp \<Longrightarrow>
     map_of m gid = Some sp \<or> (\<exists>g \<in> set gs. groupId g = gid \<and> span_of order g sp)"
proof (induction gs arbitrary: m)
  case (Cons g gs)
  from Cons.IH [of "note_span order m g"] Cons.prems
  have "map_of (note_span order m g) gid = Some sp \<or> (\<exists>g \<in> set gs. groupId g = gid \<and> span_of order g sp)"
    by simp
  with map_of_note_span show ?case by fastforce
qed simp

lemma groupSpans_Some:
  "map_of (groupSpans f) gid = Some sp \<Longrightarrow>
     span_group sp \<in> set (repeatGroups (f_steps f)) \<and> groupId (span_group sp) = gid \<and>
     span_from sp = Min (set (group_indices (documentOrder f) gid)) \<and>
     span_to sp = Max (set (group_indices (documentOrder f) gid))"
  using map_of_spans_fold [of "documentOrder f" "[]" "repeatGroups (f_steps f)" gid sp]
  by (auto simp: groupSpans_def span_of_def)

text \<open>Every member of a group lies within the group's span.\<close>

lemma member_in_span:
  assumes "unambiguous f" "g \<in> set (repeatGroups (f_steps f))" "map_of (groupSpans f) (groupId g) = Some sp"
    "m \<in> set (g_items g)" "map_of (form_positions f) (ref_questionId m) = Some i"
  shows "span_from sp \<le> i \<and> i \<le> span_to sp"
proof -
  from assms(2,4) obtain s where "s \<in> set (f_steps f)" "GroupItem g \<in> set (s_items s)"
    by (auto simp: set_repeatGroups)
  with assms(4) have "\<lparr>dp_step = stepId s, dp_question = ref_questionId m, dp_group = Some (groupId g)\<rparr>
      \<in> set (documentOrder f)"
    by (auto simp: set_documentOrder intro!: bexI [of _ s] bexI [of _ "GroupItem g"])
  then obtain j where j: "j < length (documentOrder f)" "dp_question (documentOrder f ! j) = ref_questionId m"
    "dp_group (documentOrder f ! j) = Some (groupId g)"
    by (metis doc_position.select_convs(2,3) in_set_conv_nth)
  have "distinct (map dp_question (documentOrder f))"
    using assms(1) by (simp add: documentOrder_questions unambiguous_def)
  from positions_distinct [OF this j(1)] assms(5) j(2) have "i = j" by (simp add: form_positions_def)
  with j have "i \<in> set (group_indices (documentOrder f) (groupId g))" by (simp add: group_indices_def)
  with groupSpans_Some [OF assms(3)] show ?thesis by simp
qed

section \<open>Targets\<close>

lemma map_of_byStep_fold:
  "map_of (foldl (\<lambda>m e. AList.update (dp_step e) (opt_default [] (map_of m (dp_step e)) @ [dp_question e]) m)
     m es) sid =
     (if sid \<in> dp_step ` set es
      then Some (opt_default [] (map_of m sid) @ map dp_question (filter (\<lambda>e. dp_step e = sid) es))
      else map_of m sid)"
proof (induction es arbitrary: m)
  case (Cons e es)
  show ?case by (simp add: Cons.IH) (metis (mono_tags, lifting) filter_False image_eqI)
qed simp

lemma map_of_byStep_steps:
  "map_of (foldl (\<lambda>m step. if map_of m (stepId step) = None then AList.update (stepId step) [] m else m)
     m steps) sid =
     (case map_of m sid of
        Some qs \<Rightarrow> Some qs
      | None \<Rightarrow> if sid \<in> stepId ` set steps then Some [] else None)"
  by (induction steps arbitrary: m) (auto split: option.splits)

lemma questionsByStep_default:
  "opt_default [] (map_of (questionsByStep f) sid) =
     map dp_question (filter (\<lambda>e. dp_step e = sid) (documentOrder f))"
proof (cases "sid \<in> dp_step ` set (documentOrder f)")
  case True
  then show ?thesis by (simp add: questionsByStep_def map_of_byStep_steps map_of_byStep_fold)
next
  case False
  then have "filter (\<lambda>e. dp_step e = sid) (documentOrder f) = []" by (auto simp: filter_empty_conv)
  with False show ?thesis by (simp add: questionsByStep_def map_of_byStep_steps map_of_byStep_fold)
qed

text \<open>The questions a target stands for: itself, or every question of the step.\<close>

definition target_questions :: "form_definition \<Rightarrow> string \<Rightarrow> question_id list" where
  "target_questions f target =
     (if isStepId target then map dp_question (filter (\<lambda>e. dp_step e = target) (documentOrder f))
      else [target])"

lemma expand_target_byStep [simp]: "expand_target (questionsByStep f) = target_questions f"
  by (simp add: fun_eq_iff expand_target_def target_questions_def questionsByStep_default)

lemma foldl_append_concat: "foldl (\<lambda>acc x. acc @ f x) acc xs = acc @ concat (map f xs)"
  by (induction xs arbitrary: acc) auto

lemma ruleTargets_alt: "ruleTargets f rule = dedup (concat (map (target_questions f) (rule_show rule)))"
  by (simp add: ruleTargets_def Let_def foldl_append_concat)

lemma set_rule_shows:
  "t \<in> set (rule_shows f (form_positions f) rule) \<longleftrightarrow>
     (\<exists>target \<in> set (rule_show rule). t \<in> set (target_questions f target)) \<and> t \<in> set (form_pins f)"
  by (auto simp: rule_shows_def ruleTargets_alt form_position_defined simp del: not_None_eq)

section \<open>Every read strictly before every target\<close>

text \<open>
  The forward-only rule (ADR-16) on a rule: a question it reads, itself or as a member of a
  group it reads as a whole, comes before every question it shows.
\<close>

definition forward_rule :: "form_definition \<Rightarrow> visibility_rule \<Rightarrow> bool" where
  "forward_rule f rule \<longleftrightarrow>
     (\<forall>q \<in> set (rule_reads (form_positions f) (groupSpans f) rule).
      \<forall>t \<in> set (rule_shows f (form_positions f) rule).
        the (map_of (form_positions f) q) < the (map_of (form_positions f) t))"

lemma set_rule_reads:
  "q \<in> set (rule_reads position spans rule) \<longleftrightarrow>
     map_of position q \<noteq> None \<and>
     (q \<in> set (ruleReferences rule) \<or>
      (\<exists>g \<in> set (ruleGroupReferences rule). \<exists>sp. map_of spans g = Some sp \<and>
         q \<in> ref_questionId ` set (g_items (span_group sp))))"
proof -
  have "q \<in> set (case map_of spans g of None \<Rightarrow> []
           | Some sp \<Rightarrow> map ref_questionId (g_items (span_group sp))) \<longleftrightarrow>
       (\<exists>sp. map_of spans g = Some sp \<and> q \<in> ref_questionId ` set (g_items (span_group sp)))" for g
    by (cases "map_of spans g") auto
  then show ?thesis by (auto simp: rule_reads_def Let_def)
qed

lemma set_map_filter: "y \<in> set (List.map_filter f xs) \<longleftrightarrow> (\<exists>x \<in> set xs. f x = Some y)"
  by (force simp: List.map_filter_def)

lemma read_before_last:
  assumes "unambiguous f" "q \<in> set (rule_reads (form_positions f) (groupSpans f) rule)"
  shows "\<exists>p \<in> set (reference_positions (form_positions f) (groupSpans f) rule).
           the (map_of (form_positions f) q) \<le> p"
proof -
  from assms(2) obtain i where i: "map_of (form_positions f) q = Some i"
    by (auto simp: set_rule_reads)
  from assms(2) consider "q \<in> set (ruleReferences rule)"
    | g sp where "g \<in> set (ruleGroupReferences rule)" "map_of (groupSpans f) g = Some sp"
        "q \<in> ref_questionId ` set (g_items (span_group sp))"
    by (auto simp: set_rule_reads)
  then show ?thesis
  proof cases
    case 1
    with i show ?thesis
      by (auto simp: reference_positions_def set_map_filter intro!: bexI [of _ i])
  next
    case 2
    from 2(3) obtain m where m: "m \<in> set (g_items (span_group sp))" "q = ref_questionId m" by auto
    from groupSpans_Some [OF 2(2)] have g: "span_group sp \<in> set (repeatGroups (f_steps f))"
      "groupId (span_group sp) = g" by auto
    from member_in_span [OF assms(1) g(1) _ m(1)] 2(2) g(2) m(2) i have "i \<le> span_to sp" by simp
    moreover have "span_to sp \<in> set (reference_positions (form_positions f) (groupSpans f) rule)"
      using 2(1,2) by (force simp: reference_positions_def set_map_filter)
    ultimately show ?thesis using i by auto
  qed
qed

lemma backward_targets_Nil:
  assumes "unambiguous f"
    "backward_targets (form_positions f) (questionsByStep f) (groupSpans f) rule = []"
  shows "forward_rule f rule"
  unfolding forward_rule_def
proof (intro ballI)
  fix q t
  let ?refs = "reference_positions (form_positions f) (groupSpans f) rule"
  assume q: "q \<in> set (rule_reads (form_positions f) (groupSpans f) rule)"
    and t: "t \<in> set (rule_shows f (form_positions f) rule)"
  from read_before_last [OF assms(1) q] obtain p where
    p: "p \<in> set ?refs" "the (map_of (form_positions f) q) \<le> p" by auto
  from t obtain target i where target: "target \<in> set (rule_show rule)"
    "t \<in> set (target_questions f target)" "map_of (form_positions f) t = Some i"
    by (auto simp: set_rule_shows form_position_defined [symmetric])
  let ?ts = "List.map_filter (map_of (form_positions f)) (target_questions f target)"
  have i: "i \<in> set ?ts" using target by (auto simp: set_map_filter)
  with assms(2) p(1) target(1) have "\<not> Min (set ?ts) \<le> Max (set ?refs)"
    by (fastforce simp: backward_targets_def Let_def split: if_splits)
  moreover have "Min (set ?ts) \<le> i" "p \<le> Max (set ?refs)" using i p(1) by simp_all
  ultimately show "the (map_of (form_positions f) q) < the (map_of (form_positions f) t)"
    using p(2) target(3) by simp
qed

text \<open>The converse: a backward target names a rule that is not forward.\<close>

lemma backward_targets_iff:
  "RULE_BACKWARD_TARGET r t \<in> set (backward_targets position byStep spans rule) \<longleftrightarrow>
     r = ruleId rule \<and> t \<in> set (rule_show rule) \<and> reference_positions position spans rule \<noteq> [] \<and>
     (let ts = List.map_filter (map_of position) (expand_target byStep t) in
        ts \<noteq> [] \<and> Min (set ts) \<le> Max (set (reference_positions position spans rule)))"
  by (auto simp: backward_targets_def Let_def)

section \<open>Cycles\<close>

lemma edges_add_edges:
  "e \<in> set (edges_of (foldl (add_edges i shows') adj reads) q) \<longleftrightarrow>
     e \<in> set (edges_of adj q) \<or> (q \<in> set reads \<and> edge_rule e = i \<and> edge_to e \<in> set shows')"
proof (induction reads arbitrary: adj)
  case (Cons r reads)
  have "e \<in> set (edges_of (add_edges i shows' adj r) q) \<longleftrightarrow>
     e \<in> set (edges_of adj q) \<or> (q = r \<and> edge_rule e = i \<and> edge_to e \<in> set shows')"
    by (cases e) (auto simp: add_edges_def edges_of_def)
  with Cons.IH show ?case by auto
qed simp

lemma edges_build:
  "e \<in> set (edges_of (foldl (\<lambda>adj (i, rule). foldl (add_edges i (rule_shows f pos rule)) adj
         (rule_reads pos spans rule)) adj (List.enumerate n rules)) q) \<longleftrightarrow>
     e \<in> set (edges_of adj q) \<or>
     (\<exists>i rule. (i, rule) \<in> set (List.enumerate n rules) \<and> q \<in> set (rule_reads pos spans rule) \<and>
        edge_rule e = i \<and> edge_to e \<in> set (rule_shows f pos rule))"
  by (induction rules arbitrary: n adj) (auto simp: edges_add_edges)

lemma ex_enumerate: "(\<exists>i. (i, x) \<in> set (List.enumerate n xs)) \<longleftrightarrow> x \<in> set xs"
  by (induction xs arbitrary: n) (simp_all add: ex_disj_distrib)

lemma edge_rel_form:
  "(q, t) \<in> edge_rel (form_adjacency f) \<longleftrightarrow>
     (\<exists>rule \<in> set (f_rules f). q \<in> set (rule_reads (form_positions f) (groupSpans f) rule) \<and>
        t \<in> set (rule_shows f (form_positions f) rule))"
proof -
  have "(q, t) \<in> edge_rel (form_adjacency f) \<longleftrightarrow>
     (\<exists>i rule. (i, rule) \<in> set (List.enumerate 0 (f_rules f)) \<and>
        q \<in> set (rule_reads (form_positions f) (groupSpans f) rule) \<and>
        t \<in> set (rule_shows f (form_positions f) rule))"
    unfolding edge_rel_def form_adjacency_def build_adjacency_def edges_build
    by (auto simp: edges_of_def) (metis edge.select_convs)
  also have "\<dots> \<longleftrightarrow> (\<exists>rule \<in> set (f_rules f).
        q \<in> set (rule_reads (form_positions f) (groupSpans f) rule) \<and>
        t \<in> set (rule_shows f (form_positions f) rule))"
    using ex_enumerate [of _ 0 "f_rules f"] by blast
  finally show ?thesis .
qed

lemma forward_acyclic:
  assumes "\<forall>rule \<in> set (f_rules f). forward_rule f rule"
  shows "acyclic (edge_rel (form_adjacency f))"
proof (rule acyclic_subset)
  let ?pos = "\<lambda>q. the (map_of (form_positions f) q)"
  show "edge_rel (form_adjacency f) \<subseteq> measure ?pos"
    using assms by (auto simp: edge_rel_form forward_rule_def)
  show "acyclic (measure ?pos)" by (rule wf_acyclic [OF wf_measure])
qed

lemma cycle_findings_Nil_iff: "cycle_findings f adj = [] \<longleftrightarrow> acyclic (edge_rel adj)"
  using cyclicComponents_total [of adj]
  by (auto simp: cycle_findings_def cyclicComponents_Nil_iff [symmetric] split: option.splits)

section \<open>The structural checks\<close>

text \<open>No whole-group operator inside another.\<close>

fun operator_free :: "condition \<Rightarrow> bool" where
  "operator_free (CAnd cs) = (\<forall>c \<in> set cs. operator_free c)"
| "operator_free (COr cs) = (\<forall>c \<in> set cs. operator_free c)"
| "operator_free (CNot c) = operator_free c"
| "operator_free (CAnyInstance _ _) = False"
| "operator_free (CEveryInstance _ _) = False"
| "operator_free (CInstanceCount _ _ _) = False"
| "operator_free _ = True"

fun flat_operators :: "condition \<Rightarrow> bool" where
  "flat_operators (CAnd cs) = (\<forall>c \<in> set cs. flat_operators c)"
| "flat_operators (COr cs) = (\<forall>c \<in> set cs. flat_operators c)"
| "flat_operators (CNot c) = flat_operators c"
| "flat_operators (CAnyInstance _ c) = operator_free c"
| "flat_operators (CEveryInstance _ c) = operator_free c"
| "flat_operators _ = True"

lemma nested_in_simps [simp]: "nested_in r None g = []" "nested_in r (Some out) g \<noteq> []"
  by (simp_all add: nested_in_def)

lemma nesting_walk_inner: "nesting_walk r c (Some out) = [] \<longleftrightarrow> operator_free c"
  by (induction r c "Some out" arbitrary: out rule: nesting_walk.induct) auto

lemma nesting_walk_outer: "nesting_walk r c None = [] \<longleftrightarrow> flat_operators c"
  by (induction c) (auto simp: nesting_walk_inner)

lemma checkOperatorNesting_Nil_iff [check_simps]:
  "checkOperatorNesting f = [] \<longleftrightarrow> (\<forall>r \<in> set (f_rules f). flat_operators (rule_when r))"
  by (simp add: checkOperatorNesting_def nesting_walk_outer)

text \<open>
  A leaf on a repeated question is read where an instance of its group is in scope: inside an
  operator over the group, or in a rule targeting the group.
\<close>

fun scoped :: "group_map \<Rightarrow> group_id set \<Rightarrow> condition \<Rightarrow> bool" where
  "scoped gm G (CAnd cs) = (\<forall>c \<in> set cs. scoped gm G c)"
| "scoped gm G (COr cs) = (\<forall>c \<in> set cs. scoped gm G c)"
| "scoped gm G (CNot c) = scoped gm G c"
| "scoped gm G (CAnyInstance g c) = scoped gm (insert g G) c"
| "scoped gm G (CEveryInstance g c) = scoped gm (insert g G) c"
| "scoped gm G (CInstanceCount _ _ _) = True"
| "scoped gm G (CEquals q _) = (\<forall>g. map_of gm q = Some g \<longrightarrow> g \<in> G)"
| "scoped gm G (CNotEquals q _) = (\<forall>g. map_of gm q = Some g \<longrightarrow> g \<in> G)"
| "scoped gm G (CIn q _) = (\<forall>g. map_of gm q = Some g \<longrightarrow> g \<in> G)"
| "scoped gm G (CGt q _) = (\<forall>g. map_of gm q = Some g \<longrightarrow> g \<in> G)"
| "scoped gm G (CGte q _) = (\<forall>g. map_of gm q = Some g \<longrightarrow> g \<in> G)"
| "scoped gm G (CLt q _) = (\<forall>g. map_of gm q = Some g \<longrightarrow> g \<in> G)"
| "scoped gm G (CLte q _) = (\<forall>g. map_of gm q = Some g \<longrightarrow> g \<in> G)"
| "scoped gm G (CAnswered q) = (\<forall>g. map_of gm q = Some g \<longrightarrow> g \<in> G)"
| "scoped gm G (CContains q _) = (\<forall>g. map_of gm q = Some g \<longrightarrow> g \<in> G)"
| "scoped gm G (CContainsAny q _) = (\<forall>g. map_of gm q = Some g \<longrightarrow> g \<in> G)"

lemma leaf_scope_Nil: "leaf_scope gm r q inScope = [] \<longleftrightarrow> (\<forall>g. map_of gm q = Some g \<longrightarrow> g \<in> set inScope)"
  by (auto simp: leaf_scope_def split: option.splits)

lemma scope_walk_Nil: "scope_walk gm r c inScope = [] \<longleftrightarrow> scoped gm (set inScope) c"
  by (induction gm r c inScope rule: scope_walk.induct) (auto simp: leaf_scope_Nil)

definition rule_scope :: "group_map \<Rightarrow> visibility_rule \<Rightarrow> group_id set" where
  "rule_scope gm rule = {g. Some g \<in> set (target_groups gm rule)}"

lemma checkScopedReferences_Nil_iff [check_simps]:
  "checkScopedReferences f gm = [] \<longleftrightarrow>
     (\<forall>r \<in> set (f_rules f). length (target_groups gm r) = 1 \<longrightarrow> scoped gm (rule_scope gm r) (rule_when r))"
proof -
  have "(case target_groups gm r of
         [scope] \<Rightarrow> scope_walk gm (ruleId r) (rule_when r) (case scope of None \<Rightarrow> [] | Some g \<Rightarrow> [g])
       | _ \<Rightarrow> []) = [] \<longleftrightarrow>
     (length (target_groups gm r) = 1 \<longrightarrow> scoped gm (rule_scope gm r) (rule_when r))" for r
    by (auto simp: scope_walk_Nil rule_scope_def split: list.splits option.splits)
  then show ?thesis unfolding checkScopedReferences_def concat_map_Nil_iff by simp
qed

lemma checkRepeatCountOrder_Nil_iff [check_simps]:
  "checkRepeatCountOrder f position spans gm = [] \<longleftrightarrow>
     (\<forall>g \<in> set (repeatGroups (f_steps f)). \<forall>q mn mx i sp.
        g_count g = FromAnswer q mn mx \<longrightarrow> map_of position q = Some i \<longrightarrow>
        map_of spans (groupId g) = Some sp \<longrightarrow> map_of gm q = None \<and> i < span_from sp)"
  unfolding checkRepeatCountOrder_def concat_map_Nil_iff
  by (rule ball_cong [OF refl]) (auto simp: not_le split: repeat_count.splits option.splits)

text \<open>No group is called \<^verbatim>\<open>form\<close>, so the scope names are as many as the scopes.\<close>

lemma target_scopes_card:
  assumes "\<And>q g. map_of gm q = Some g \<Longrightarrow> g \<noteq> ''form''"
  shows "length (dedup (map (target_scope_name gm) (rule_show r))) = length (target_groups gm r)"
proof -
  let ?tg = "\<lambda>t. if isStepId t then None else map_of gm t"
  have name: "target_scope_name gm = opt_default ''form'' \<circ> ?tg"
    by (simp add: target_scope_name_def fun_eq_iff)
  have range: "x \<noteq> Some ''form''" if "x \<in> ?tg ` set (rule_show r)" for x
    using that by (auto split: if_splits dest!: sym [of "Some _"] dest: assms)
  have "inj_on (opt_default ''form'') (?tg ` set (rule_show r))"
  proof (rule inj_onI)
    fix x y
    assume "x \<in> ?tg ` set (rule_show r)" "y \<in> ?tg ` set (rule_show r)"
      and eq: "opt_default ''form'' x = opt_default ''form'' y"
    then have "x \<noteq> Some ''form''" "y \<noteq> Some ''form''" using range by blast+
    with eq show "x = y" by (cases x; cases y) simp_all
  qed
  then have "card (opt_default ''form'' ` ?tg ` set (rule_show r)) = card (?tg ` set (rule_show r))"
    by (rule card_image)
  then show ?thesis
    by (simp add: length_dedup_card target_groups_def name image_comp [symmetric] del: o_apply)
qed

lemma checkTargetScopes_Nil_iff [check_simps]:
  "checkTargetScopes f gm = [] \<longleftrightarrow>
     (\<forall>r \<in> set (f_rules f). length (dedup (map (target_scope_name gm) (rule_show r))) \<le> 1)"
  unfolding checkTargetScopes_def concat_map_Nil_iff by (auto simp: Let_def not_less)

lemma set_target_groups:
  "Some g \<in> set (target_groups gm r) \<longleftrightarrow> (\<exists>t \<in> set (rule_show r). \<not> isStepId t \<and> map_of gm t = Some g)"
  by (force simp: target_groups_def split: if_splits)

lemma checkCrossGroupBudget_Nil [check_simps]:
  assumes "checkCrossGroupBudget f gm spans = []" "r \<in> set (f_rules f)" "Some t \<in> set (target_groups gm r)"
    "g \<in> set (ruleGroupReferences r)" "g \<noteq> t" "max_of spans t = Some m" "max_of spans g = Some n"
  shows "m * n \<le> REPEAT_EVALUATION_BUDGET"
proof -
  from assms(1-3) have "budget_findings spans r (Some t) = []" by (simp add: checkCrossGroupBudget_def)
  with assms(4-7) show ?thesis by (auto simp: budget_findings_def not_less split: if_splits)
qed

end
