(* ===== verification/ValidateAnswer.thy ===== *)
theory ValidateAnswer
  imports Questions
begin

text \<open>
  \<^verbatim>\<open>packages/core/src/validate-answer.ts\<close>: the check of one submitted value against a
  question, returning the canonical value or every failed constraint. A validation error is
  its code and its constraint; the built-in fallback wording, which only quotes the
  constraint's bound, is left out.

  The host's regular expression engine is the argument \<open>regex\<close>: what
  \<^verbatim>\<open>new RegExp(pattern, "u")\<close> tests, or nothing where the constructor throws.
\<close>

type_synonym regex_engine = "string \<Rightarrow> (string \<Rightarrow> bool) option"

datatype validation_constraint =
    Encoding | MinLength | MaxLength | Pattern | MinBound | MaxBound | IntegerC | Options
  | MinSelected | MaxSelected

datatype validation_code =
    EMPTY_ANSWER_NOT_ALLOWED
  | INVALID_TEXT_ANSWER | INVALID_NUMBER_ANSWER | INVALID_DATE_ANSWER | INVALID_BOOLEAN_ANSWER
  | INVALID_SINGLE_CHOICE_ANSWER | INVALID_MULTI_CHOICE_ANSWER
  | LENGTH_BELOW_MIN | LENGTH_ABOVE_MAX | PATTERN_MISMATCH
  | VALUE_BELOW_MIN | VALUE_ABOVE_MAX | NOT_AN_INTEGER | UNKNOWN_OPTION
  | TOO_FEW_SELECTED | TOO_MANY_SELECTED

record validation_error =
  ve_code :: validation_code
  ve_constraint :: validation_constraint

definition failure :: "validation_code \<Rightarrow> validation_constraint \<Rightarrow> validation_error" where
  "failure code constraint = \<lparr>ve_code = code, ve_constraint = constraint\<rparr>"

fun encodingError :: "question_type \<Rightarrow> validation_error" where
  "encodingError TShortText = failure INVALID_TEXT_ANSWER Encoding"
| "encodingError TLongText = failure INVALID_TEXT_ANSWER Encoding"
| "encodingError TNumber = failure INVALID_NUMBER_ANSWER Encoding"
| "encodingError TDate = failure INVALID_DATE_ANSWER Encoding"
| "encodingError TBoolean = failure INVALID_BOOLEAN_ANSWER Encoding"
| "encodingError TSingleChoice = failure INVALID_SINGLE_CHOICE_ANSWER Encoding"
| "encodingError TMultiChoice = failure INVALID_MULTI_CHOICE_ANSWER Encoding"

definition emptyAnswerError :: validation_error where
  "emptyAnswerError = failure EMPTY_ANSWER_NOT_ALLOWED Encoding"

definition matchesPattern :: "regex_engine \<Rightarrow> string \<Rightarrow> string \<Rightarrow> bool" where
  "matchesPattern regex value pattern =
     (case regex pattern of None \<Rightarrow> False | Some test \<Rightarrow> test value)"

definition when_some :: "'a option \<Rightarrow> ('a \<Rightarrow> bool) \<Rightarrow> 'b \<Rightarrow> 'b list" where
  "when_some bound fails e = (case bound of None \<Rightarrow> [] | Some b \<Rightarrow> if fails b then [e] else [])"

definition checkTextConstraints ::
  "regex_engine \<Rightarrow> string \<Rightarrow> int option \<Rightarrow> int option \<Rightarrow> string option \<Rightarrow> validation_error list" where
  "checkTextConstraints regex value minLength maxLength pattern =
     when_some minLength (\<lambda>m. int (length value) < m) (failure LENGTH_BELOW_MIN MinLength)
     @ when_some maxLength (\<lambda>m. m < int (length value)) (failure LENGTH_ABOVE_MAX MaxLength)
     @ when_some pattern (\<lambda>p. \<not> matchesPattern regex value p) (failure PATTERN_MISMATCH Pattern)"

definition checkBounds ::
  "('a \<Rightarrow> 'a \<Rightarrow> bool) \<Rightarrow> 'a \<Rightarrow> 'a option \<Rightarrow> 'a option \<Rightarrow> validation_error list" where
  "checkBounds lt value mn mx =
     when_some mn (\<lambda>m. lt value m) (failure VALUE_BELOW_MIN MinBound)
     @ when_some mx (\<lambda>m. lt m value) (failure VALUE_ABOVE_MAX MaxBound)"

definition verdict ::
  "validation_error list \<Rightarrow> answer_value \<Rightarrow> (validation_error list, answer_value) result" where
  "verdict errors v = (if errors \<noteq> [] then err errors else ok v)"

definition validate_text ::
  "normalizer \<Rightarrow> regex_engine \<Rightarrow> question_type \<Rightarrow> int option \<Rightarrow> int option \<Rightarrow> string option \<Rightarrow> jsval \<Rightarrow>
     (validation_error list, answer_value) result" where
  "validate_text nfc regex ty mn mx pattern value =
     (case TextAnswerValue nfc value of
        None \<Rightarrow> err [encodingError ty]
      | Some s \<Rightarrow>
          if s = [] then err [emptyAnswerError]
          else verdict (checkTextConstraints regex s mn mx pattern) (AText s))"

definition validateAnswer ::
  "normalizer \<Rightarrow> regex_engine \<Rightarrow> question_definition \<Rightarrow> jsval \<Rightarrow>
     (validation_error list, answer_value) result" where
  "validateAnswer nfc regex question value =
     (case body question of
        ShortText mn mx pattern \<Rightarrow> validate_text nfc regex TShortText mn mx pattern value
      | LongText mx \<Rightarrow> validate_text nfc regex TLongText None mx None value
      | NumberQ mn mx integer \<Rightarrow>
          (case NumberAnswerValue value of
             None \<Rightarrow> err [encodingError TNumber]
           | Some n \<Rightarrow>
               verdict (checkBounds num_lt n mn mx
                 @ (if integer \<and> \<not> num_isInteger n then [failure NOT_AN_INTEGER IntegerC] else []))
                 (ANum n))
      | DateQ mn mx \<Rightarrow>
          (case DateAnswerValue_js value of
             None \<Rightarrow> err [encodingError TDate]
           | Some d \<Rightarrow> verdict (checkBounds str_lt d mn mx) (AText d))
      | BooleanQ _ _ \<Rightarrow>
          (case BooleanAnswerValue value of
             None \<Rightarrow> err [encodingError TBoolean]
           | Some b \<Rightarrow> ok (ABool b))
      | SingleChoice _ \<Rightarrow>
          (case SingleChoiceAnswerValue value of
             None \<Rightarrow> err [encodingError TSingleChoice]
           | Some opt \<Rightarrow>
               if opt \<notin> set (optionIdsOf question) then err [failure UNKNOWN_OPTION Options]
               else ok (AText opt))
      | MultiChoice _ mn mx \<Rightarrow>
          (case MultiChoiceAnswerValue value of
             None \<Rightarrow> err [encodingError TMultiChoice]
           | Some ids \<Rightarrow>
               if ids = [] then err [emptyAnswerError]
               else
                 verdict
                   ((if list_ex (\<lambda>i. i \<notin> set (optionIdsOf question)) ids
                     then [failure UNKNOWN_OPTION Options] else [])
                    @ when_some mn (\<lambda>m. int (length ids) < m) (failure TOO_FEW_SELECTED MinSelected)
                    @ when_some mx (\<lambda>m. m < int (length ids)) (failure TOO_MANY_SELECTED MaxSelected))
                   (AMulti ids)))"

section \<open>The specification\<close>

text \<open>
  The typing of answers by question type, and what a valid answer is: the abstract contract
  the routine above implements.
\<close>

definition answer_typed :: "question_type \<Rightarrow> answer_value \<Rightarrow> bool" where
  "answer_typed ty v =
     (case ty of
        TShortText \<Rightarrow> (\<exists>s. v = AText s)
      | TLongText \<Rightarrow> (\<exists>s. v = AText s)
      | TNumber \<Rightarrow> (\<exists>n. v = ANum n \<and> num_isFinite n)
      | TDate \<Rightarrow> (\<exists>s. v = AText s \<and> DateAnswerValue s)
      | TBoolean \<Rightarrow> (\<exists>b. v = ABool b)
      | TSingleChoice \<Rightarrow> (\<exists>s. v = AText s \<and> OptionId s)
      | TMultiChoice \<Rightarrow> (\<exists>ids. v = AMulti ids))"

text \<open>The canonical encoding of an untyped value under a question type, when it has one.\<close>

definition encode_as :: "normalizer \<Rightarrow> question_type \<Rightarrow> jsval \<Rightarrow> answer_value option" where
  "encode_as nfc ty value =
     (case ty of
        TShortText \<Rightarrow> map_option AText (TextAnswerValue nfc value)
      | TLongText \<Rightarrow> map_option AText (TextAnswerValue nfc value)
      | TNumber \<Rightarrow> map_option ANum (NumberAnswerValue value)
      | TDate \<Rightarrow> map_option AText (DateAnswerValue_js value)
      | TBoolean \<Rightarrow> map_option ABool (BooleanAnswerValue value)
      | TSingleChoice \<Rightarrow> map_option AText (SingleChoiceAnswerValue value)
      | TMultiChoice \<Rightarrow> map_option AMulti (MultiChoiceAnswerValue value))"

text \<open>The constraints a canonical value violates, as a set of codes.\<close>

definition violates ::
  "regex_engine \<Rightarrow> question_definition \<Rightarrow> answer_value \<Rightarrow> validation_code \<Rightarrow> bool" where
  "violates regex q v code =
     (case (body q, v) of
        (ShortText mn mx p, AText s) \<Rightarrow>
          if s = [] then code = EMPTY_ANSWER_NOT_ALLOWED
          else (code = LENGTH_BELOW_MIN \<and> (\<exists>m. mn = Some m \<and> int (length s) < m)) \<or>
               (code = LENGTH_ABOVE_MAX \<and> (\<exists>m. mx = Some m \<and> m < int (length s))) \<or>
               (code = PATTERN_MISMATCH \<and> (\<exists>r. p = Some r \<and> \<not> matchesPattern regex s r))
      | (LongText mx, AText s) \<Rightarrow>
          if s = [] then code = EMPTY_ANSWER_NOT_ALLOWED
          else code = LENGTH_ABOVE_MAX \<and> (\<exists>m. mx = Some m \<and> m < int (length s))
      | (NumberQ mn mx i, ANum n) \<Rightarrow>
          (code = VALUE_BELOW_MIN \<and> (\<exists>m. mn = Some m \<and> num_lt n m)) \<or>
          (code = VALUE_ABOVE_MAX \<and> (\<exists>m. mx = Some m \<and> num_lt m n)) \<or>
          (code = NOT_AN_INTEGER \<and> i \<and> \<not> num_isInteger n)
      | (DateQ mn mx, AText d) \<Rightarrow>
          (code = VALUE_BELOW_MIN \<and> (\<exists>m. mn = Some m \<and> str_lt d m)) \<or>
          (code = VALUE_ABOVE_MAX \<and> (\<exists>m. mx = Some m \<and> str_lt m d))
      | (SingleChoice _, AText s) \<Rightarrow> code = UNKNOWN_OPTION \<and> s \<notin> set (optionIdsOf q)
      | (MultiChoice _ mn mx, AMulti ids) \<Rightarrow>
          if ids = [] then code = EMPTY_ANSWER_NOT_ALLOWED
          else (code = UNKNOWN_OPTION \<and> \<not> set ids \<subseteq> set (optionIdsOf q)) \<or>
               (code = TOO_FEW_SELECTED \<and> (\<exists>m. mn = Some m \<and> int (length ids) < m)) \<or>
               (code = TOO_MANY_SELECTED \<and> (\<exists>m. mx = Some m \<and> m < int (length ids)))
      | _ \<Rightarrow> False)"

section \<open>Facts\<close>

lemma set_when_some [simp]:
  "x \<in> set (when_some b f e) \<longleftrightarrow> x = e \<and> (\<exists>v. b = Some v \<and> f v)"
  by (auto simp: when_some_def split: option.splits)

lemma when_some_Nil [simp]: "when_some b f e = [] \<longleftrightarrow> (\<forall>v. b = Some v \<longrightarrow> \<not> f v)"
  by (auto simp: when_some_def split: option.splits)

lemma verdict_Inr_iff [simp]: "verdict es v = Inr w \<longleftrightarrow> es = [] \<and> w = v"
  by (auto simp: verdict_def ok_def err_def)

lemma verdict_Inl_iff [simp]: "verdict es v = Inl fs \<longleftrightarrow> es \<noteq> [] \<and> fs = es"
  by (auto simp: verdict_def ok_def err_def)

lemma ve_code_failure [simp]: "ve_code (failure c k) = c"
  by (simp add: failure_def)

lemmas validate_unfold = validateAnswer_def validate_text_def encode_as_def q_type_def violates_def

text \<open>The routine in terms of the contract: encode, then report exactly the violated constraints.\<close>

lemma validateAnswer_Inr_iff:
  "validateAnswer nfc regex q value = Inr v \<longleftrightarrow>
     encode_as nfc (q_type q) value = Some v \<and> (\<forall>code. \<not> violates regex q v code)"
proof (cases "body q")
  case (ShortText mn mx p)
  then show ?thesis
    by (auto simp: validate_unfold ok_def err_def checkTextConstraints_def split: option.splits)
next
  case (LongText mx)
  then show ?thesis
    by (auto simp: validate_unfold ok_def err_def checkTextConstraints_def split: option.splits)
next
  case (NumberQ mn mx i)
  then show ?thesis
    by (auto simp: validate_unfold ok_def err_def checkBounds_def split: option.splits)
next
  case (DateQ mn mx)
  then show ?thesis
    by (auto simp: validate_unfold ok_def err_def checkBounds_def split: option.splits)
next
  case (BooleanQ y n)
  then show ?thesis by (auto simp: validate_unfold ok_def err_def split: option.splits)
next
  case (SingleChoice os)
  then show ?thesis
    by (auto simp: validate_unfold ok_def err_def optionIdsOf_def split: option.splits)
next
  case (MultiChoice os mn mx)
  then show ?thesis
    by (auto simp: validate_unfold ok_def err_def list_ex_iff subset_iff ex_disj_distrib
        split: option.splits)
qed

lemma validateAnswer_Inl_encoding:
  "encode_as nfc (q_type q) value = None \<Longrightarrow>
     validateAnswer nfc regex q value = Inl [encodingError (q_type q)]"
  by (cases "body q") (auto simp: validate_unfold ok_def err_def split: option.splits)

lemma codes_when_some:
  "ve_code ` set (when_some b f e) = {code. code = ve_code e \<and> (\<exists>v. b = Some v \<and> f v)}"
  by auto

lemma codes_if: "ve_code ` set (if c then [e] else []) = {code. code = ve_code e \<and> c}"
  by auto

lemma validateAnswer_Inl_codes:
  assumes "encode_as nfc (q_type q) value = Some v" "validateAnswer nfc regex q value = Inl es"
  shows "ve_code ` set es = {code. violates regex q v code}"
proof (cases "body q")
  case (ShortText mn mx p)
  with assms show ?thesis
    by (auto simp del: set_when_some simp: validate_unfold ok_def err_def checkTextConstraints_def emptyAnswerError_def
        image_Un codes_when_some codes_if split: option.splits if_splits)
next
  case (LongText mx)
  with assms show ?thesis
    by (auto simp del: set_when_some simp: validate_unfold ok_def err_def checkTextConstraints_def emptyAnswerError_def
        image_Un codes_when_some codes_if split: option.splits if_splits)
next
  case (NumberQ mn mx i)
  with assms show ?thesis
    by (auto simp del: set_when_some simp: validate_unfold ok_def err_def checkBounds_def image_Un codes_when_some codes_if split: option.splits if_splits)
next
  case (DateQ mn mx)
  with assms show ?thesis
    by (auto simp del: set_when_some simp: validate_unfold ok_def err_def checkBounds_def image_Un codes_when_some codes_if split: option.splits)
next
  case (BooleanQ y n)
  with assms show ?thesis by (auto simp del: set_when_some simp: validate_unfold ok_def err_def split: option.splits)
next
  case (SingleChoice os)
  with assms show ?thesis
    by (auto simp del: set_when_some simp: validate_unfold ok_def err_def split: option.splits if_splits)
next
  case (MultiChoice os mn mx)
  with assms show ?thesis
    by (auto simp del: set_when_some simp: validate_unfold ok_def err_def list_ex_iff emptyAnswerError_def image_Un codes_when_some codes_if
        split: option.splits if_splits)
qed

lemma validateAnswer_errors_nonempty: "validateAnswer nfc regex q value = Inl es \<Longrightarrow> es \<noteq> []"
  by (auto simp: validateAnswer_def validate_text_def ok_def err_def
      split: question_body.splits option.splits if_splits)

lemma encode_as_typed: "encode_as nfc ty value = Some v \<Longrightarrow> answer_typed ty v"
  by (cases ty) (auto simp: encode_as_def answer_typed_def SingleChoiceAnswerValue_def
      DateAnswerValue_js_def elim: NumberAnswerValue.elims split: if_splits)

lemma OptionId_Some: "str_with OptionId v = Some s \<Longrightarrow> v = JStr s \<and> OptionId s"
  by simp

text \<open>Encoding is idempotent: the canonical value of a type encodes to itself.\<close>

lemma MultiChoice_canonical:
  "MultiChoiceAnswerValue v = Some ids \<Longrightarrow> MultiChoiceAnswerValue (JArr (map JStr ids)) = Some ids"
  by (auto simp: MultiChoiceAnswerValue_iff list_all_iff intro!: exI [of _ ids])

lemma encode_as_idem:
  assumes "encode_as nfc ty value = Some v" and nfc: "\<And>s. nfc (nfc s) = nfc s"
  shows "encode_as nfc ty (av_to_js v) = Some v"
proof (cases "ty = TMultiChoice")
  case True
  with assms(1) obtain ids where "MultiChoiceAnswerValue value = Some ids" "v = AMulti ids"
    by (auto simp: encode_as_def)
  with True show ?thesis
    by (simp add: encode_as_def MultiChoice_canonical del: MultiChoiceAnswerValue.simps)
next
  case False
  with assms(1) show ?thesis
    by (cases ty)
       (auto simp: encode_as_def nfc SingleChoiceAnswerValue_def DateAnswerValue_js_def
          elim!: TextAnswerValue.elims NumberAnswerValue.elims BooleanAnswerValue.elims
          split: if_splits)
qed

lemma validateAnswer_idem:
  assumes "validateAnswer nfc regex q value = Inr v" and "\<And>s. nfc (nfc s) = nfc s"
  shows "validateAnswer nfc regex q (av_to_js v) = Inr v"
  using assms(1) encode_as_idem [OF _ assms(2)] by (auto simp: validateAnswer_Inr_iff)

end
