(* ===== verification/EvaluateRules.thy ===== *)
theory EvaluateRules
  imports RuleAnalysis ValidateAnswer
begin

text \<open>
  \<^verbatim>\<open>packages/core/src/evaluate-rules.ts\<close>: the evaluation of a form's visibility rules against
  the current answers. The maps handed in (answers, rosters) are only read, so they are
  functions to options; \<open>nfc\<close> is the host's Unicode normalization and \<open>decode\<close> the
  structural half of the form schema.
\<close>

definition SEMANTICS_VERSION :: int where
  "SEMANTICS_VERSION = 1"

type_synonym answer_map = "answer_key \<Rightarrow> jsval option"
type_synonym roster_map = "group_id \<Rightarrow> instance_id list option"
type_synonym resolve_question = "question_id \<Rightarrow> question_definition option"

text \<open>The code of an error with its path; \<open>op\<close> is the operator a type mismatch names.\<close>

datatype eval_error =
    INVALID_FORM_DEFINITION
  | UNSUPPORTED_SEMANTICS_VERSION
  | UNRESOLVED_QUESTION_PIN "question_id list"
  | MALFORMED_ANSWER_VALUE "question_id list"
  | CONDITION_TYPE_MISMATCH rule_id string question_id

record visible_entry =
  v_step :: step_id
  v_question :: question_id
  v_instance :: "instance_id option"

type_synonym step_view = "step_id \<times> instance_id option"
type_synonym required_entry = "question_id \<times> instance_id option"

record flow_state =
  visible :: "visible_entry list"
  visibleSteps :: "step_id list"
  currentStep :: "step_id option"
  answeredRequired :: "question_id list"
  missingRequired :: "question_id list"
  complete :: bool
  visibleStepViews :: "step_view list option"
  missingRequiredInstances :: "required_entry list option"
  answeredRequiredInstances :: "required_entry list option"
  rosters :: "(group_id \<times> instance_id list) list option"

definition typeMismatch :: "visibility_rule \<Rightarrow> string \<Rightarrow> question_id \<Rightarrow> eval_error" where
  "typeMismatch rule operator q = CONDITION_TYPE_MISMATCH (ruleId rule) operator q"

definition js_field :: "string \<Rightarrow> jsval \<Rightarrow> jsval option" where
  "js_field k v = (case v of JObj props \<Rightarrow> map_of props k | _ \<Rightarrow> None)"

definition unwrapDefinition ::
  "(jsval \<Rightarrow> issue list + form_definition) \<Rightarrow> jsval \<Rightarrow> (eval_error, form_definition) result" where
  "unwrapDefinition decode snapshot =
     (let parse = (\<lambda>raw. case FormDefinition decode raw of
                      Inl _ \<Rightarrow> err INVALID_FORM_DEFINITION
                    | Inr form \<Rightarrow> ok form) in
      case (js_field ''definition'' snapshot, js_field ''semanticsVersion'' snapshot) of
        (Some definition, Some version) \<Rightarrow>
          if version \<noteq> JNum (Fin (of_int SEMANTICS_VERSION)) then err UNSUPPORTED_SEMANTICS_VERSION
          else parse definition
      | _ \<Rightarrow> parse snapshot)"

section \<open>Conditions\<close>

text \<open>
  What a condition is evaluated in: the closures of the code over the form, the rosters, the
  canonical answers. The settled keys grow along the walk, so they are an argument.
\<close>

record eval_env =
  e_nfc :: normalizer
  e_groupOf :: group_map
  e_rosterOf :: "group_id \<Rightarrow> instance_id list"
  e_canonical :: "(answer_key \<times> answer_value) list"

type_synonym instance_scope = "(group_id \<times> instance_id) list"

definition withInstance :: "instance_scope \<Rightarrow> group_id \<Rightarrow> instance_id \<Rightarrow> instance_scope" where
  "withInstance scope g i = AList.update g i scope"

definition keyOf :: "eval_env \<Rightarrow> question_id \<Rightarrow> instance_scope \<Rightarrow> answer_key option" where
  "keyOf env q scope =
     (case map_of (e_groupOf env) q of
        None \<Rightarrow> Some q
      | Some g \<Rightarrow>
          (case map_of scope g of None \<Rightarrow> None | Some i \<Rightarrow> Some (answerKey q (Some i))))"

definition effective ::
  "eval_env \<Rightarrow> answer_key list \<Rightarrow> question_id \<Rightarrow> instance_scope \<Rightarrow> answer_value option" where
  "effective env settled q scope =
     (case keyOf env q scope of
        None \<Rightarrow> None
      | Some key \<Rightarrow> if key \<in> set settled then map_of (e_canonical env) key else None)"

fun compareCount :: "count_comparison \<Rightarrow> int \<Rightarrow> int \<Rightarrow> bool" where
  "compareCount CmpEquals count value = (count = value)"
| "compareCount CmpGt count value = (value < count)"
| "compareCount CmpGte count value = (value \<le> count)"
| "compareCount CmpLt count value = (count < value)"
| "compareCount CmpLte count value = (count \<le> value)"

definition compare_answer ::
  "visibility_rule \<Rightarrow> string \<Rightarrow> (ordering \<Rightarrow> bool) \<Rightarrow> question_id \<Rightarrow> answer_value option \<Rightarrow>
     answer_value \<Rightarrow> (eval_error, bool) result" where
  "compare_answer rule operator test q answer value =
     (case answer of
        None \<Rightarrow> ok False
      | Some a \<Rightarrow>
          (case compareValues a value of
             Inl _ \<Rightarrow> err (typeMismatch rule operator q)
           | Inr ord \<Rightarrow> ok (test ord)))"

definition contains_option ::
  "visibility_rule \<Rightarrow> string \<Rightarrow> question_id \<Rightarrow> answer_value option \<Rightarrow> option_id list \<Rightarrow>
     (eval_error, bool) result" where
  "contains_option rule operator q answer options =
     (case answer of
        None \<Rightarrow> ok False
      | Some (AMulti ids) \<Rightarrow> ok (list_ex (\<lambda>opt. opt \<in> set ids) options)
      | Some _ \<Rightarrow> err (typeMismatch rule operator q))"

fun evalCondition ::
  "eval_env \<Rightarrow> answer_key list \<Rightarrow> visibility_rule \<Rightarrow> condition \<Rightarrow> instance_scope \<Rightarrow>
     (eval_error, bool) result" where
  "evalCondition env settled rule (CAnd cs) scope =
     all_ok (\<lambda>child. evalCondition env settled rule child scope) cs"
| "evalCondition env settled rule (COr cs) scope =
     any_ok (\<lambda>child. evalCondition env settled rule child scope) cs"
| "evalCondition env settled rule (CNot c) scope =
     (case evalCondition env settled rule c scope of Inl e \<Rightarrow> Inl e | Inr b \<Rightarrow> ok (\<not> b))"
| "evalCondition env settled rule (CAnyInstance g c) scope =
     any_ok (\<lambda>i. evalCondition env settled rule c (withInstance scope g i)) (e_rosterOf env g)"
| "evalCondition env settled rule (CEveryInstance g c) scope =
     (let live = e_rosterOf env g in
      if length live = 0 then ok False
      else all_ok (\<lambda>i. evalCondition env settled rule c (withInstance scope g i)) live)"
| "evalCondition env settled rule (CInstanceCount g compare value) scope =
     ok (compareCount compare (int (length (e_rosterOf env g))) value)"
| "evalCondition env settled rule (CAnswered q) scope = ok (effective env settled q scope \<noteq> None)"
| "evalCondition env settled rule (CEquals q v) scope =
     (case effective env settled q scope of
        None \<Rightarrow> ok False | Some a \<Rightarrow> ok (valuesEqual (e_nfc env) a v))"
| "evalCondition env settled rule (CNotEquals q v) scope =
     (case effective env settled q scope of
        None \<Rightarrow> ok False | Some a \<Rightarrow> ok (\<not> valuesEqual (e_nfc env) a v))"
| "evalCondition env settled rule (CIn q vs) scope =
     (case effective env settled q scope of
        None \<Rightarrow> ok False | Some a \<Rightarrow> ok (list_ex (\<lambda>v. valuesEqual (e_nfc env) a v) vs))"
| "evalCondition env settled rule (CGt q v) scope =
     compare_answer rule ''gt'' (\<lambda>ord. Same < ord) q (effective env settled q scope) v"
| "evalCondition env settled rule (CGte q v) scope =
     compare_answer rule ''gte'' (\<lambda>ord. Same \<le> ord) q (effective env settled q scope) v"
| "evalCondition env settled rule (CLt q v) scope =
     compare_answer rule ''lt'' (\<lambda>ord. ord < Same) q (effective env settled q scope) v"
| "evalCondition env settled rule (CLte q v) scope =
     compare_answer rule ''lte'' (\<lambda>ord. ord \<le> Same) q (effective env settled q scope) v"
| "evalCondition env settled rule (CContains q opt) scope =
     contains_option rule ''contains'' q (effective env settled q scope) [opt]"
| "evalCondition env settled rule (CContainsAny q opts) scope =
     contains_option rule ''containsAny'' q (effective env settled q scope) opts"

definition anyRuleTrue ::
  "eval_env \<Rightarrow> answer_key list \<Rightarrow> visibility_rule list \<Rightarrow> instance_scope \<Rightarrow> (eval_error, bool) result" where
  "anyRuleTrue env settled rules scope =
     any_ok (\<lambda>rule. evalCondition env settled rule (rule_when rule) scope) rules"

section \<open>Preparation\<close>

definition answer_keys ::
  "doc_position list \<Rightarrow> (group_id \<Rightarrow> instance_id list) \<Rightarrow> (answer_key \<times> question_id) list" where
  "answer_keys order rosterOf =
     concat (map (\<lambda>entry.
       case dp_group entry of
         None \<Rightarrow> [(dp_question entry, dp_question entry)]
       | Some g \<Rightarrow>
           map (\<lambda>i. (answerKey (dp_question entry) (Some i), dp_question entry)) (rosterOf g)) order)"

record canonical_state =
  canonical :: "(answer_key \<times> answer_value) list"
  malformed :: "question_id list"

definition note_answer ::
  "normalizer \<Rightarrow> answer_map \<Rightarrow> canonical_state \<Rightarrow> answer_key \<times> question_id \<Rightarrow> canonical_state" where
  "note_answer nfc answers st entry =
     (case answers (fst entry) of
        None \<Rightarrow> st
      | Some raw \<Rightarrow>
          (case AnswerValue nfc raw of
             None \<Rightarrow> st\<lparr>malformed := malformed st @ [snd entry]\<rparr>
           | Some v \<Rightarrow>
               if \<not> isBlankAnswerValue v
               then st\<lparr>canonical := AList.update (fst entry) v (canonical st)\<rparr>
               else st))"

definition canonical_answers ::
  "normalizer \<Rightarrow> answer_map \<Rightarrow> (answer_key \<times> question_id) list \<Rightarrow> canonical_state" where
  "canonical_answers nfc answers keys =
     foldl (note_answer nfc answers) \<lparr>canonical = [], malformed = []\<rparr> keys"

type_synonym rule_map = "(string \<times> visibility_rule list) list"

definition note_target ::
  "visibility_rule \<Rightarrow> rule_map \<times> rule_map \<Rightarrow> string \<Rightarrow> rule_map \<times> rule_map" where
  "note_target rule maps target =
     (let (stepRules, questionRules) = maps in
      if isStepId target
      then (AList.update target (opt_default [] (map_of stepRules target) @ [rule]) stepRules, questionRules)
      else (stepRules,
            AList.update target (opt_default [] (map_of questionRules target) @ [rule]) questionRules))"

definition targeting_rules :: "form_definition \<Rightarrow> rule_map \<times> rule_map" where
  "targeting_rules form =
     foldl (\<lambda>maps rule. foldl (note_target rule) maps (dedup (rule_show rule))) ([], []) (f_rules form)"

section \<open>The walk\<close>

record walk_state =
  settled :: "answer_key list"
  w_visible :: "visible_entry list"
  groupBearingShown :: "step_id list"

definition walkQuestion ::
  "eval_env \<Rightarrow> rule_map \<Rightarrow> step_id \<Rightarrow> question_id \<Rightarrow> instance_id option \<Rightarrow> instance_scope \<Rightarrow>
     walk_state \<Rightarrow> (eval_error, walk_state) result" where
  "walkQuestion env questionRules sid q inst scope st =
     (let show_it = ok (st\<lparr>settled := answerKey q inst # settled st,
                            w_visible := w_visible st @ [\<lparr>v_step = sid, v_question = q, v_instance = inst\<rparr>]\<rparr>) in
      case map_of questionRules q of
        None \<Rightarrow> show_it
      | Some targeting \<Rightarrow>
          (case anyRuleTrue env (settled st) targeting scope of
             Inl e \<Rightarrow> err e
           | Inr shown \<Rightarrow> if shown then show_it else ok st))"

definition walk_item ::
  "eval_env \<Rightarrow> rule_map \<Rightarrow> step_id \<Rightarrow> step_item \<Rightarrow> walk_state \<Rightarrow> (eval_error, walk_state) result" where
  "walk_item env questionRules sid item st =
     (case item of
        QuestionItem r \<Rightarrow> walkQuestion env questionRules sid (ref_questionId r) None [] st
      | GroupItem g \<Rightarrow>
          fold_ok (\<lambda>member.
              fold_ok (\<lambda>i. walkQuestion env questionRules sid (ref_questionId member) (Some i)
                               (withInstance [] (groupId g) i))
                (e_rosterOf env (groupId g)))
            (g_items g) st)"

definition walk_step ::
  "eval_env \<Rightarrow> rule_map \<Rightarrow> rule_map \<Rightarrow> step \<Rightarrow> walk_state \<Rightarrow> (eval_error, walk_state) result" where
  "walk_step env stepRules questionRules step st =
     (let inside = (\<lambda>st. fold_ok (walk_item env questionRules (stepId step)) (s_items step)
            (if list_ex isRepeatGroup (s_items step)
             then st\<lparr>groupBearingShown := List.insert (stepId step) (groupBearingShown st)\<rparr> else st)) in
      case map_of stepRules (stepId step) of
        None \<Rightarrow> inside st
      | Some targetingStep \<Rightarrow>
          (case anyRuleTrue env (settled st) targetingStep [] of
             Inl e \<Rightarrow> err e
           | Inr shown \<Rightarrow> if shown then inside st else ok st))"

definition walk_start :: walk_state where
  "walk_start = \<lparr>settled = [], w_visible = [], groupBearingShown = []\<rparr>"

definition walk_form ::
  "eval_env \<Rightarrow> form_definition \<Rightarrow> (eval_error, walk_state) result" where
  "walk_form env form =
     (let (stepRules, questionRules) = targeting_rules form in
      fold_ok (walk_step env stepRules questionRules) (f_steps form) walk_start)"

section \<open>The account\<close>

record account =
  requiredOrder :: "question_id list"
  requiredMissing :: "question_id list"
  answeredEntries :: "required_entry list"
  missingEntries :: "required_entry list"
  firstMissingRequiredStep :: "step_id option"
  unansweredSteps :: "step_id list"

definition no_account :: account where
  "no_account =
     \<lparr>requiredOrder = [], requiredMissing = [], answeredEntries = [], missingEntries = [],
      firstMissingRequiredStep = None, unansweredSteps = []\<rparr>"

definition entry_answered :: "(answer_key \<times> answer_value) list \<Rightarrow> visible_entry \<Rightarrow> bool" where
  "entry_answered can entry = (map_of can (answerKey (v_question entry) (v_instance entry)) \<noteq> None)"

definition account_entry ::
  "(question_id \<times> question_definition) list \<Rightarrow> (answer_key \<times> answer_value) list \<Rightarrow> account \<Rightarrow>
     visible_entry \<Rightarrow> account" where
  "account_entry definitions can acc entry =
     (case map_of definitions (v_question entry) of
        None \<Rightarrow> acc
      | Some definition \<Rightarrow>
          (let answered = entry_answered can entry;
               q = v_question entry;
               acc1 = (if \<not> answered
                       then acc\<lparr>unansweredSteps := List.insert (v_step entry) (unansweredSteps acc)\<rparr>
                       else acc) in
           if \<not> required definition then acc1
           else
             let acc2 = (if q \<notin> set (requiredOrder acc1)
                         then acc1\<lparr>requiredOrder := requiredOrder acc1 @ [q]\<rparr> else acc1) in
             if answered
             then acc2\<lparr>answeredEntries := answeredEntries acc2 @ [(q, v_instance entry)]\<rparr>
             else
               acc2\<lparr>missingEntries := missingEntries acc2 @ [(q, v_instance entry)],
                    requiredMissing := List.insert q (requiredMissing acc2),
                    firstMissingRequiredStep :=
                      (case firstMissingRequiredStep acc2 of
                         None \<Rightarrow> Some (v_step entry) | Some s \<Rightarrow> Some s)\<rparr>))"

definition paginates :: "step_item \<Rightarrow> bool" where
  "paginates item = (case item of GroupItem g \<Rightarrow> presentation g = PerInstanceStep | _ \<Rightarrow> False)"

definition stepViews ::
  "form_definition \<Rightarrow> step_id list \<Rightarrow> (group_id \<Rightarrow> instance_id list) \<Rightarrow> step_view list" where
  "stepViews form shown rosterOf =
     concat (map (\<lambda>step.
       if stepId step \<notin> set shown then []
       else
         let live = (case List.find paginates (s_items step) of
                       Some (GroupItem g) \<Rightarrow> rosterOf (groupId g) | _ \<Rightarrow> []) in
         if length live = 0 then [(stepId step, None)]
         else map (\<lambda>i. (stepId step, Some i)) live) (f_steps form))"

definition flow_of ::
  "form_definition \<Rightarrow> (group_id \<Rightarrow> instance_id list) \<Rightarrow> (question_id \<times> question_definition) list \<Rightarrow>
     (answer_key \<times> answer_value) list \<Rightarrow> walk_state \<Rightarrow> flow_state" where
  "flow_of form rosterOf definitions can st =
     (let withVisibleQuestion = map v_step (w_visible st);
          steps = filter (\<lambda>sid. sid \<in> set withVisibleQuestion \<or> sid \<in> set (groupBearingShown st))
                    (map stepId (f_steps form));
          acc = foldl (account_entry definitions can) no_account (w_visible st);
          missing = filter (\<lambda>q. q \<in> set (requiredMissing acc)) (requiredOrder acc);
          firstIncompleteStep = List.find (\<lambda>sid. sid \<in> set (unansweredSteps acc) \<or>
              (sid \<notin> set withVisibleQuestion \<and> sid \<in> set (groupBearingShown st))) steps;
          groups = repeatGroups (f_steps form) in
      \<lparr>visible = w_visible st,
       visibleSteps = steps,
       currentStep = (case firstMissingRequiredStep acc of None \<Rightarrow> firstIncompleteStep | Some s \<Rightarrow> Some s),
       answeredRequired = filter (\<lambda>q. q \<notin> set (requiredMissing acc)) (requiredOrder acc),
       missingRequired = missing,
       complete = (length missing = 0),
       visibleStepViews = (if length groups > 0 then Some (stepViews form steps rosterOf) else None),
       missingRequiredInstances = (if length groups > 0 then Some (missingEntries acc) else None),
       answeredRequiredInstances = (if length groups > 0 then Some (answeredEntries acc) else None),
       rosters =
         (if length groups > 0 then Some (map (\<lambda>g. (groupId g, rosterOf (groupId g))) groups) else None)\<rparr>)"

definition rosterOf :: "roster_map \<Rightarrow> group_id \<Rightarrow> instance_id list" where
  "rosterOf rs g = opt_default [] (rs g)"

definition evaluate_form ::
  "normalizer \<Rightarrow> form_definition \<Rightarrow> answer_map \<Rightarrow> resolve_question \<Rightarrow> roster_map \<Rightarrow>
     (eval_error, flow_state) result" where
  "evaluate_form nfc form answers resolveQuestion rs =
     (let order = documentOrder form;
          unresolved = filter (\<lambda>q. resolveQuestion q = None) (map dp_question order);
          definitions = foldl (\<lambda>m q. case resolveQuestion q of
                                  None \<Rightarrow> m | Some d \<Rightarrow> AList.update q d m) [] (map dp_question order) in
      if length unresolved > 0 then err (UNRESOLVED_QUESTION_PIN unresolved)
      else
        let prepared = canonical_answers nfc answers (answer_keys order (rosterOf rs)) in
        if length (malformed prepared) > 0
        then err (MALFORMED_ANSWER_VALUE (dedup (malformed prepared)))
        else
          let env = \<lparr>e_nfc = nfc, e_groupOf = questionGroups (f_steps form), e_rosterOf = rosterOf rs,
                     e_canonical = canonical prepared\<rparr> in
          (case walk_form env form of
             Inl e \<Rightarrow> Inl e
           | Inr st \<Rightarrow> ok (flow_of form (rosterOf rs) definitions (canonical prepared) st)))"

definition evaluateRules ::
  "normalizer \<Rightarrow> (jsval \<Rightarrow> issue list + form_definition) \<Rightarrow> jsval \<Rightarrow> answer_map \<Rightarrow> resolve_question \<Rightarrow>
     roster_map \<Rightarrow> (eval_error, flow_state) result" where
  "evaluateRules nfc decode snapshot answers resolveQuestion rs =
     (case unwrapDefinition decode snapshot of
        Inl e \<Rightarrow> Inl e
      | Inr form \<Rightarrow> evaluate_form nfc form answers resolveQuestion rs)"

end
