(* ===== verification/Evaluation.thy ===== *)
theory Evaluation
  imports EvaluateRules
begin

text \<open>
  What the evaluator computes. The walk is restated over the document order, the settled keys
  are the keys of the visible entries, and a run is unchanged by anything outside them.
\<close>

section \<open>What a condition reads\<close>

fun cond_questions :: "condition \<Rightarrow> question_id set" where
  "cond_questions (CAnd cs) = (\<Union>c \<in> set cs. cond_questions c)"
| "cond_questions (COr cs) = (\<Union>c \<in> set cs. cond_questions c)"
| "cond_questions (CNot c) = cond_questions c"
| "cond_questions (CAnyInstance _ c) = cond_questions c"
| "cond_questions (CEveryInstance _ c) = cond_questions c"
| "cond_questions (CInstanceCount _ _ _) = {}"
| "cond_questions (CEquals q _) = {q}"
| "cond_questions (CNotEquals q _) = {q}"
| "cond_questions (CIn q _) = {q}"
| "cond_questions (CGt q _) = {q}"
| "cond_questions (CGte q _) = {q}"
| "cond_questions (CLt q _) = {q}"
| "cond_questions (CLte q _) = {q}"
| "cond_questions (CAnswered q) = {q}"
| "cond_questions (CContains q _) = {q}"
| "cond_questions (CContainsAny q _) = {q}"

lemma fst_push [simp]: "fst (push_question q out) = fst out @ [q]" "fst (push_group g out) = fst out"
  by (simp_all add: push_question_def push_group_def)

lemma collectReferences_questions:
  "set (fst (collectReferences c out)) = set (fst out) \<union> cond_questions c"
proof (induction c arbitrary: out)
  case (CAnd cs)
  have "set (fst (foldl (\<lambda>out child. collectReferences child out) out cs)) =
      set (fst out) \<union> (\<Union>c \<in> set cs. cond_questions c)" for out
    using CAnd by (induction cs arbitrary: out) auto
  then show ?case by simp
next
  case (COr cs)
  have "set (fst (foldl (\<lambda>out child. collectReferences child out) out cs)) =
      set (fst out) \<union> (\<Union>c \<in> set cs. cond_questions c)" for out
    using COr by (induction cs arbitrary: out) auto
  then show ?case by simp
qed auto

lemma set_ruleReferences [simp]: "set (ruleReferences r) = cond_questions (rule_when r)"
  by (simp add: ruleReferences_def collectReferences_questions)

text \<open>A scope whose instances are all live, so that keys built from it are well formed.\<close>

definition valid_scope :: "instance_scope \<Rightarrow> bool" where
  "valid_scope scope \<longleftrightarrow> (\<forall>g i. map_of scope g = Some i \<longrightarrow> InstanceId i)"

definition valid_rosters :: "(group_id \<Rightarrow> instance_id list) \<Rightarrow> bool" where
  "valid_rosters ros \<longleftrightarrow> (\<forall>g. list_all InstanceId (ros g))"

lemma valid_scope_Nil [simp]: "valid_scope []"
  by (simp add: valid_scope_def)

lemma valid_scope_with: "valid_scope scope \<Longrightarrow> InstanceId i \<Longrightarrow> valid_scope (withInstance scope g i)"
  by (simp add: valid_scope_def withInstance_def)

text \<open>The verdict of a condition depends only on the effective answers of what it reads.\<close>

lemma eval_agree:
  assumes "e_nfc env' = e_nfc env" "e_groupOf env' = e_groupOf env" "e_rosterOf env' = e_rosterOf env"
    and closed: "\<And>scope g i. P scope \<Longrightarrow> i \<in> set (e_rosterOf env g) \<Longrightarrow> P (withInstance scope g i)"
  shows "P scope \<Longrightarrow>
    (\<And>q scope. q \<in> cond_questions c \<Longrightarrow> P scope \<Longrightarrow>
       effective env' S' q scope = effective env S q scope) \<Longrightarrow>
    evalCondition env' S' rule c scope = evalCondition env S rule c scope"
proof (induction c arbitrary: scope)
  case (CAnd cs)
  have "evalCondition env' S' rule c scope = evalCondition env S rule c scope" if "c \<in> set cs" for c
    by (rule CAnd.IH [OF that CAnd.prems(1)]) (use CAnd.prems(2) that in auto)
  then show ?case by (simp cong: all_ok_cong)
next
  case (COr cs)
  have "evalCondition env' S' rule c scope = evalCondition env S rule c scope" if "c \<in> set cs" for c
    by (rule COr.IH [OF that COr.prems(1)]) (use COr.prems(2) that in auto)
  then show ?case by (simp cong: any_ok_cong)
next
  case (CAnyInstance g c)
  have "evalCondition env' S' rule c (withInstance scope g i) = evalCondition env S rule c (withInstance scope g i)"
    if "i \<in> set (e_rosterOf env g)" for i
    using CAnyInstance closed that by simp
  then show ?case using assms(3) by (auto intro!: any_ok_cong)
next
  case (CEveryInstance g c)
  have "evalCondition env' S' rule c (withInstance scope g i) = evalCondition env S rule c (withInstance scope g i)"
    if "i \<in> set (e_rosterOf env g)" for i
    using CEveryInstance closed that by simp
  then show ?case using assms(3) by (auto simp: Let_def intro!: all_ok_cong)
qed (simp_all add: assms(1-3) split: option.split)

lemma eval_agree_valid:
  assumes "e_nfc env' = e_nfc env" "e_groupOf env' = e_groupOf env" "e_rosterOf env' = e_rosterOf env"
    "valid_rosters (e_rosterOf env)" "valid_scope scope"
    "\<And>q scope. q \<in> cond_questions c \<Longrightarrow> valid_scope scope \<Longrightarrow>
       effective env' S' q scope = effective env S q scope"
  shows "evalCondition env' S' rule c scope = evalCondition env S rule c scope"
  by (rule eval_agree [where P = valid_scope, OF assms(1-3) _ assms(5,6)])
     (use assms(4) in \<open>auto simp: valid_rosters_def list_all_iff intro: valid_scope_with\<close>)

lemma any_ok_Inr: "any_ok f xs = Inr b \<Longrightarrow> b \<longleftrightarrow> (\<exists>x \<in> set xs. f x = Inr True)"
  by (induction xs) (auto split: sum.splits if_splits)

section \<open>The rules that target an item\<close>

definition targeting :: "form_definition \<Rightarrow> string \<Rightarrow> visibility_rule list" where
  "targeting f target = filter (\<lambda>r. target \<in> set (rule_show r)) (f_rules f)"

definition nonempty :: "'a list \<Rightarrow> 'a list option" where
  "nonempty xs = (if xs = [] then None else Some xs)"

definition note_in :: "rule_map \<Rightarrow> string \<Rightarrow> visibility_rule \<Rightarrow> rule_map" where
  "note_in m target r = AList.update target (opt_default [] (map_of m target) @ [r]) m"

lemma note_target_alt:
  "note_target r maps t =
     (if isStepId t then (note_in (fst maps) t r, snd maps) else (fst maps, note_in (snd maps) t r))"
  by (simp add: note_target_def note_in_def split: prod.split)

lemma note_targets:
  "distinct ts \<Longrightarrow>
   map_of (fst (foldl (note_target r) maps ts)) t =
     (if t \<in> set ts \<and> isStepId t then Some (opt_default [] (map_of (fst maps) t) @ [r])
      else map_of (fst maps) t) \<and>
   map_of (snd (foldl (note_target r) maps ts)) t =
     (if t \<in> set ts \<and> \<not> isStepId t then Some (opt_default [] (map_of (snd maps) t) @ [r])
      else map_of (snd maps) t)"
  by (induction ts arbitrary: maps) (auto simp: note_target_alt note_in_def)

lemma note_rules:
  "map_of (fst (foldl (\<lambda>maps rule. foldl (note_target rule) maps (dedup (rule_show rule))) maps rules)) t =
     (if isStepId t \<and> filter (\<lambda>r. t \<in> set (rule_show r)) rules \<noteq> []
      then Some (opt_default [] (map_of (fst maps) t) @ filter (\<lambda>r. t \<in> set (rule_show r)) rules)
      else map_of (fst maps) t) \<and>
   map_of (snd (foldl (\<lambda>maps rule. foldl (note_target rule) maps (dedup (rule_show rule))) maps rules)) t =
     (if \<not> isStepId t \<and> filter (\<lambda>r. t \<in> set (rule_show r)) rules \<noteq> []
      then Some (opt_default [] (map_of (snd maps) t) @ filter (\<lambda>r. t \<in> set (rule_show r)) rules)
      else map_of (snd maps) t)"
proof (induction rules arbitrary: maps)
  case (Cons r rules)
  note n = note_targets [of "dedup (rule_show r)" r maps t, simplified]
  show ?case by (simp add: Cons.IH n)
qed simp

lemma targeting_rules_step:
  "map_of (fst (targeting_rules f)) t = (if isStepId t then nonempty (targeting f t) else None)"
  using note_rules [of "([], [])" "f_rules f" t]
  by (simp add: targeting_rules_def targeting_def nonempty_def)

lemma targeting_rules_question:
  "map_of (snd (targeting_rules f)) t = (if isStepId t then None else nonempty (targeting f t))"
  using note_rules [of "([], [])" "f_rules f" t]
  by (simp add: targeting_rules_def targeting_def nonempty_def)

section \<open>The canonical answers\<close>

definition present :: "normalizer \<Rightarrow> answer_map \<Rightarrow> answer_key \<Rightarrow> answer_value option" where
  "present nfc answers k =
     (case answers k of
        None \<Rightarrow> None
      | Some raw \<Rightarrow>
          (case AnswerValue nfc raw of
             None \<Rightarrow> None | Some v \<Rightarrow> if isBlankAnswerValue v then None else Some v))"

lemma note_answer_fold:
  "map_of (canonical (foldl (note_answer nfc answers) st keys)) k =
     (if k \<in> fst ` set keys \<and> present nfc answers k \<noteq> None then present nfc answers k
      else map_of (canonical st) k) \<and>
   (malformed (foldl (note_answer nfc answers) st keys) = [] \<longleftrightarrow>
      malformed st = [] \<and>
      (\<forall>key \<in> fst ` set keys. \<forall>raw. answers key = Some raw \<longrightarrow> AnswerValue nfc raw \<noteq> None))"
proof (induction keys arbitrary: st)
  case (Cons e keys)
  have "map_of (canonical (note_answer nfc answers st e)) k =
     (if k = fst e \<and> present nfc answers k \<noteq> None then present nfc answers k else map_of (canonical st) k)"
    by (auto simp: note_answer_def present_def split: option.splits)
  moreover have "malformed (note_answer nfc answers st e) = [] \<longleftrightarrow>
     malformed st = [] \<and> (\<forall>raw. answers (fst e) = Some raw \<longrightarrow> AnswerValue nfc raw \<noteq> None)"
    by (auto simp: note_answer_def split: option.splits)
  ultimately show ?case by (simp add: Cons.IH) auto
qed simp

lemma canonical_answers_map:
  "map_of (canonical (canonical_answers nfc answers keys)) k =
     (if k \<in> fst ` set keys then present nfc answers k else None)"
  using note_answer_fold [of nfc answers "\<lparr>canonical = [], malformed = []\<rparr>" keys k]
  by (auto simp: canonical_answers_def)

lemma canonical_answers_malformed:
  "malformed (canonical_answers nfc answers keys) = [] \<longleftrightarrow>
     (\<forall>key \<in> fst ` set keys. \<forall>raw. answers key = Some raw \<longrightarrow> AnswerValue nfc raw \<noteq> None)"
  using note_answer_fold [of nfc answers "\<lparr>canonical = [], malformed = []\<rparr>" keys]
  by (simp add: canonical_answers_def)

section \<open>The walk over the document order\<close>

definition entry_key :: "visible_entry \<Rightarrow> answer_key" where
  "entry_key e = answerKey (v_question e) (v_instance e)"

text \<open>The instances a position is walked for, each with its scope, and the entries it can give.\<close>

definition pos_instances ::
  "(group_id \<Rightarrow> instance_id list) \<Rightarrow> doc_position \<Rightarrow> (instance_id option \<times> instance_scope) list" where
  "pos_instances ros p =
     (case dp_group p of
        None \<Rightarrow> [(None, [])]
      | Some g \<Rightarrow> map (\<lambda>i. (Some i, withInstance [] g i)) (ros g))"

definition entry_at :: "doc_position \<Rightarrow> instance_id option \<Rightarrow> visible_entry" where
  "entry_at p inst = \<lparr>v_step = dp_step p, v_question = dp_question p, v_instance = inst\<rparr>"

lemma entry_at_simps [simp]:
  "v_step (entry_at p inst) = dp_step p" "v_question (entry_at p inst) = dp_question p"
  "v_instance (entry_at p inst) = inst"
  "entry_key (entry_at p inst) = answerKey (dp_question p) inst"
  by (simp_all add: entry_at_def entry_key_def)

definition walk_position ::
  "eval_env \<Rightarrow> rule_map \<Rightarrow> doc_position \<Rightarrow> walk_state \<Rightarrow> (eval_error, walk_state) result" where
  "walk_position env qr p =
     fold_ok (\<lambda>(inst, scope). walkQuestion env qr (dp_step p) (dp_question p) inst scope)
       (pos_instances (e_rosterOf env) p)"

definition step_positions :: "step \<Rightarrow> doc_position list" where
  "step_positions s = concat (map (item_positions (stepId s)) (s_items s))"

lemma documentOrder_steps: "documentOrder f = concat (map step_positions (f_steps f))"
  by (simp add: documentOrder_def step_positions_def [abs_def])

lemma fold_ok_map: "fold_ok f (map g xs) s = fold_ok (\<lambda>x. f (g x)) xs s"
  by (induction xs arbitrary: s) (auto split: sum.splits)

lemma fold_ok_concat: "fold_ok f (concat xss) s = fold_ok (fold_ok f) xss s"
  by (induction xss arbitrary: s) (auto simp: fold_ok_append split: sum.splits)

lemma fold_ok_single [simp]: "fold_ok f [x] s = f x s"
  by (simp split: sum.splits)

lemma walk_item_positions:
  "walk_item env qr sid item st = fold_ok (walk_position env qr) (item_positions sid item) st"
proof (cases item)
  case (QuestionItem r)
  then show ?thesis by (simp add: walk_item_def walk_position_def pos_instances_def del: fold_ok.simps)
next
  case (GroupItem g)
  then show ?thesis
    by (simp add: walk_item_def fold_ok_map walk_position_def pos_instances_def cong: fold_ok_cong)
qed

lemma walk_items_positions:
  "fold_ok (walk_item env qr (stepId s)) (s_items s) st = fold_ok (walk_position env qr) (step_positions s) st"
  by (simp add: step_positions_def fold_ok_concat fold_ok_map walk_item_positions cong: fold_ok_cong)

definition note_bearing :: "step \<Rightarrow> walk_state \<Rightarrow> walk_state" where
  "note_bearing s st =
     (if list_ex isRepeatGroup (s_items s)
      then st\<lparr>groupBearingShown := List.insert (stepId s) (groupBearingShown st)\<rparr> else st)"

lemma note_bearing_simps [simp]:
  "settled (note_bearing s st) = settled st" "w_visible (note_bearing s st) = w_visible st"
  by (simp_all add: note_bearing_def)

lemma walk_step_positions:
  "walk_step env sr qr s st =
     (case map_of sr (stepId s) of
        None \<Rightarrow> fold_ok (walk_position env qr) (step_positions s) (note_bearing s st)
      | Some rules \<Rightarrow>
          (case anyRuleTrue env (settled st) rules [] of
             Inl e \<Rightarrow> Inl e
           | Inr shown \<Rightarrow>
               if shown then fold_ok (walk_position env qr) (step_positions s) (note_bearing s st)
               else Inr st))"
  by (simp add: walk_step_def walk_items_positions note_bearing_def ok_def err_def
      split: option.splits sum.splits)

text \<open>Every part of the walk only appends entries, and settles exactly their keys.\<close>

definition appends :: "visible_entry list \<Rightarrow> walk_state \<Rightarrow> walk_state \<Rightarrow> bool" where
  "appends es st st' \<longleftrightarrow>
     w_visible st' = w_visible st @ es \<and> set (settled st') = set (settled st) \<union> entry_key ` set es"

lemma appends_Nil [simp]: "appends [] st st"
  by (simp add: appends_def)

lemma appends_trans: "appends es st st1 \<Longrightarrow> appends es' st1 st2 \<Longrightarrow> appends (es @ es') st st2"
  by (auto simp: appends_def)

lemma walkQuestion_appends:
  "walkQuestion env qr (dp_step p) (dp_question p) inst scope st = Inr st' \<Longrightarrow>
     \<exists>es. appends es st st' \<and> set es \<subseteq> {entry_at p inst}"
  by (auto simp: walkQuestion_def appends_def entry_at_def entry_key_def ok_def err_def Let_def
      intro!: exI [of _ "[]"] exI [of _ "[\<lparr>v_step = dp_step p, v_question = dp_question p, v_instance = inst\<rparr>]"]
      split: option.splits sum.splits if_splits)

lemma fold_appends:
  assumes "\<And>x st st'. x \<in> set xs \<Longrightarrow> f x st = Inr st' \<Longrightarrow> \<exists>es. appends es st st' \<and> set es \<subseteq> E x"
    and "fold_ok f xs st = Inr st'"
  shows "\<exists>es. appends es st st' \<and> set es \<subseteq> (\<Union>x \<in> set xs. E x)"
  using assms
proof (induction xs arbitrary: st)
  case (Cons x xs)
  then obtain st1 where st1: "f x st = Inr st1" "fold_ok f xs st1 = Inr st'"
    by (auto split: sum.splits)
  from Cons.prems(1) [OF _ st1(1)] obtain es where es: "appends es st st1" "set es \<subseteq> E x" by auto
  from Cons.IH [OF Cons.prems(1) st1(2)] obtain es' where
    es': "appends es' st1 st'" "set es' \<subseteq> (\<Union>x \<in> set xs. E x)" by auto
  from appends_trans [OF es(1) es'(1)] es(2) es'(2) show ?case by (intro exI [of _ "es @ es'"]) auto
qed (auto intro: exI [of _ "[]"])

definition pos_entries :: "(group_id \<Rightarrow> instance_id list) \<Rightarrow> doc_position \<Rightarrow> visible_entry list" where
  "pos_entries ros p = map (\<lambda>(inst, _). entry_at p inst) (pos_instances ros p)"

lemma walk_position_appends:
  assumes "walk_position env qr p st = Inr st'"
  shows "\<exists>es. appends es st st' \<and> set es \<subseteq> set (pos_entries (e_rosterOf env) p)"
proof -
  have "\<exists>es. appends es st st' \<and> set es \<subseteq> (\<Union>x \<in> set (pos_instances (e_rosterOf env) p). {entry_at p (fst x)})"
    by (rule fold_appends [OF _ assms [unfolded walk_position_def]]) (auto dest: walkQuestion_appends)
  moreover have "(\<Union>x \<in> set (pos_instances (e_rosterOf env) p). {entry_at p (fst x)}) =
      set (pos_entries (e_rosterOf env) p)"
    by (auto simp: pos_entries_def)
  ultimately show ?thesis by simp
qed

lemma walk_positions_appends:
  assumes "fold_ok (walk_position env qr) ps st = Inr st'"
  shows "\<exists>es. appends es st st' \<and> set es \<subseteq> (\<Union>p \<in> set ps. set (pos_entries (e_rosterOf env) p))"
  by (rule fold_appends [OF walk_position_appends assms])

lemma walk_step_appends:
  assumes "walk_step env sr qr s st = Inr st'"
  shows "\<exists>es. appends es st st' \<and> set es \<subseteq> (\<Union>p \<in> set (step_positions s). set (pos_entries (e_rosterOf env) p))"
proof -
  have bearing: "appends es (note_bearing s st) st' \<longleftrightarrow> appends es st st'" for es by (simp add: appends_def)
  from assms show ?thesis
    using walk_positions_appends [of env qr "step_positions s" "note_bearing s st" st']
    by (auto simp: walk_step_positions bearing intro: exI [of _ "[]"]
        split: option.splits sum.splits if_splits)
qed

section \<open>Hidden answers do not matter\<close>

lemma fold_ok_transfer:
  assumes "fold_ok f xs s = Inr s'" "Q s'"
    and step: "\<And>x s s1. x \<in> set xs \<Longrightarrow> f x s = Inr s1 \<Longrightarrow> Q s1 \<Longrightarrow> g x s = Inr s1 \<and> Q s"
  shows "fold_ok g xs s = Inr s' \<and> Q s"
  using assms
proof (induction xs arbitrary: s)
  case (Cons x xs)
  then obtain s1 where s1: "f x s = Inr s1" "fold_ok f xs s1 = Inr s'" by (auto split: sum.splits)
  from Cons.IH [OF s1(2) Cons.prems(2) Cons.prems(3)] have "fold_ok g xs s1 = Inr s'" "Q s1" by auto
  with Cons.prems(3) [OF _ s1(1)] show ?case by simp
qed simp

text \<open>Two environments of one form that agree on the answers of the settled keys.\<close>

definition same_form :: "eval_env \<Rightarrow> eval_env \<Rightarrow> bool" where
  "same_form env env' \<longleftrightarrow>
     e_nfc env' = e_nfc env \<and> e_groupOf env' = e_groupOf env \<and> e_rosterOf env' = e_rosterOf env"

definition agree_on :: "eval_env \<Rightarrow> eval_env \<Rightarrow> walk_state \<Rightarrow> bool" where
  "agree_on env env' st \<longleftrightarrow>
     (\<forall>k \<in> set (settled st). map_of (e_canonical env') k = map_of (e_canonical env) k)"

lemma anyRuleTrue_agree:
  assumes "same_form env env'" "agree_on env env' st"
  shows "anyRuleTrue env' (settled st) rules scope = anyRuleTrue env (settled st) rules scope"
proof -
  have eff: "effective env' (settled st) q sc = effective env (settled st) q sc" for q sc
    using assms
    by (auto simp: effective_def keyOf_def same_form_def agree_on_def split: option.splits)
  have "evalCondition env' (settled st) rule c scope = evalCondition env (settled st) rule c scope" for rule c
    by (rule eval_agree [where P = "\<lambda>_. True"]) (use assms eff in \<open>auto simp: same_form_def\<close>)
  then show ?thesis by (simp add: anyRuleTrue_def)
qed

lemma agree_on_appends: "appends es st st' \<Longrightarrow> agree_on env env' st' \<Longrightarrow> agree_on env env' st"
  by (auto simp: agree_on_def appends_def)

lemma walk_position_agree:
  assumes "same_form env env'" "walk_position env qr p st = Inr st'" "agree_on env env' st'"
  shows "walk_position env' qr p st = Inr st' \<and> agree_on env env' st"
proof -
  have ros: "e_rosterOf env' = e_rosterOf env" using assms(1) by (simp add: same_form_def)
  show ?thesis
    unfolding walk_position_def ros
  proof (rule fold_ok_transfer [where Q = "agree_on env env'", OF assms(2) [unfolded walk_position_def] assms(3)])
    fix x s s1
    assume x: "(case x of (inst, scope) \<Rightarrow> walkQuestion env qr (dp_step p) (dp_question p) inst scope) s = Inr s1"
      and Q: "agree_on env env' s1"
    obtain inst scope where xi: "x = (inst, scope)" by (cases x)
    from x xi have w: "walkQuestion env qr (dp_step p) (dp_question p) inst scope s = Inr s1" by simp
    from walkQuestion_appends [OF w] agree_on_appends Q have agr: "agree_on env env' s" by blast
    have "walkQuestion env' qr (dp_step p) (dp_question p) inst scope s =
        walkQuestion env qr (dp_step p) (dp_question p) inst scope s"
      unfolding walkQuestion_def by (simp only: anyRuleTrue_agree [OF assms(1) agr])
    with w xi agr
    show "(case x of (inst, scope) \<Rightarrow> walkQuestion env' qr (dp_step p) (dp_question p) inst scope) s = Inr s1
        \<and> agree_on env env' s"
      by simp
  qed
qed

lemma walk_step_agree:
  assumes "same_form env env'" "walk_step env sr qr s st = Inr st'" "agree_on env env' st'"
  shows "walk_step env' sr qr s st = Inr st' \<and> agree_on env env' st"
proof -
  from walk_step_appends [OF assms(2)] agree_on_appends assms(3) have st: "agree_on env env' st" by blast
  have "fold_ok (walk_position env' qr) (step_positions s) st0 = Inr st'"
    if "fold_ok (walk_position env qr) (step_positions s) st0 = Inr st'" for st0
    using fold_ok_transfer [where Q = "agree_on env env'" and g = "walk_position env' qr", OF that assms(3)]
      walk_position_agree [OF assms(1)] by blast
  with assms(2) st anyRuleTrue_agree [OF assms(1) st] show ?thesis
    by (auto simp: walk_step_positions split: option.splits sum.splits if_splits)
qed

lemma walk_form_agree:
  assumes "same_form env env'" "walk_form env f = Inr st" "agree_on env env' st"
  shows "walk_form env' f = Inr st"
  using assms fold_ok_transfer [where f = "walk_step env (fst (targeting_rules f)) (snd (targeting_rules f))"
      and g = "walk_step env' (fst (targeting_rules f)) (snd (targeting_rules f))" and xs = "f_steps f"
      and s = walk_start and s' = st and Q = "agree_on env env'"] walk_step_agree [OF assms(1)]
  by (auto simp: walk_form_def split: prod.splits)

lemma walk_form_appends:
  assumes "walk_form env f = Inr st"
  shows "set (settled st) = entry_key ` set (w_visible st) \<and>
     set (w_visible st) \<subseteq> (\<Union>p \<in> set (documentOrder f). set (pos_entries (e_rosterOf env) p))"
proof -
  from assms have "fold_ok (walk_step env (fst (targeting_rules f)) (snd (targeting_rules f)))
      (f_steps f) walk_start = Inr st"
    by (simp add: walk_form_def split: prod.splits)
  then have "\<exists>es. appends es walk_start st \<and>
    set es \<subseteq> (\<Union>s \<in> set (f_steps f). \<Union>p \<in> set (step_positions s). set (pos_entries (e_rosterOf env) p))"
    by (rule fold_appends [rotated]) (rule walk_step_appends)
  then obtain es where "appends es walk_start st"
    "set es \<subseteq> (\<Union>s \<in> set (f_steps f). \<Union>p \<in> set (step_positions s). set (pos_entries (e_rosterOf env) p))"
    by blast
  then show ?thesis by (simp add: appends_def walk_start_def documentOrder_steps)
qed

lemma account_agree:
  assumes "\<And>e. e \<in> set es \<Longrightarrow> map_of can' (entry_key e) = map_of can (entry_key e)"
  shows "foldl (account_entry ds can') acc es = foldl (account_entry ds can) acc es"
proof -
  have "account_entry ds can' acc e = account_entry ds can acc e" if "e \<in> set es" for e acc
  proof -
    have "entry_answered can' e = entry_answered can e"
      using assms [OF that] by (simp add: entry_answered_def entry_key_def)
    then show ?thesis by (simp only: account_entry_def)
  qed
  then show ?thesis by (simp cong: foldl_cong)
qed

lemma flow_agree:
  assumes "\<And>e. e \<in> set (w_visible st) \<Longrightarrow> map_of can' (entry_key e) = map_of can (entry_key e)"
  shows "flow_of f ros ds can' st = flow_of f ros ds can st"
  by (simp add: flow_of_def account_agree [OF assms])

definition form_env :: "normalizer \<Rightarrow> form_definition \<Rightarrow> answer_map \<Rightarrow> roster_map \<Rightarrow> eval_env" where
  "form_env nfc f answers rs =
     \<lparr>e_nfc = nfc, e_groupOf = questionGroups (f_steps f), e_rosterOf = rosterOf rs,
      e_canonical = canonical (canonical_answers nfc answers (answer_keys (documentOrder f) (rosterOf rs)))\<rparr>"

lemma form_env_simps [simp]:
  "e_nfc (form_env nfc f answers rs) = nfc"
  "e_groupOf (form_env nfc f answers rs) = questionGroups (f_steps f)"
  "e_rosterOf (form_env nfc f answers rs) = rosterOf rs"
  by (simp_all add: form_env_def)

lemma same_form_env [simp]: "same_form (form_env nfc f answers rs) (form_env nfc f answers' rs)"
  by (simp add: same_form_def)

definition form_questions :: "form_definition \<Rightarrow> resolve_question \<Rightarrow> (question_id \<times> question_definition) list" where
  "form_questions f resolveQuestion =
     foldl (\<lambda>m q. case resolveQuestion q of None \<Rightarrow> m | Some d \<Rightarrow> AList.update q d m) []
       (map dp_question (documentOrder f))"

lemma evaluate_form_alt:
  "evaluate_form nfc f answers res rs =
     (let prepared = canonical_answers nfc answers (answer_keys (documentOrder f) (rosterOf rs));
          unresolved = filter (\<lambda>q. res q = None) (form_pins f) in
      if unresolved \<noteq> [] then Inl (UNRESOLVED_QUESTION_PIN unresolved)
      else if malformed prepared \<noteq> [] then Inl (MALFORMED_ANSWER_VALUE (dedup (malformed prepared)))
      else
        case walk_form (form_env nfc f answers rs) f of
          Inl e \<Rightarrow> Inl e
        | Inr st \<Rightarrow>
            Inr (flow_of f (rosterOf rs) (form_questions f res) (e_canonical (form_env nfc f answers rs)) st))"
  by (simp add: evaluate_form_def Let_def form_env_def form_questions_def documentOrder_questions
      ok_def err_def split: sum.split)

lemma evaluate_form_Inr_iff:
  "evaluate_form nfc f answers res rs = Inr flow \<longleftrightarrow>
     (\<forall>q \<in> set (form_pins f). res q \<noteq> None) \<and>
     (\<forall>k \<in> fst ` set (answer_keys (documentOrder f) (rosterOf rs)).
        \<forall>raw. answers k = Some raw \<longrightarrow> AnswerValue nfc raw \<noteq> None) \<and>
     (\<exists>st. walk_form (form_env nfc f answers rs) f = Inr st \<and>
        flow = flow_of f (rosterOf rs) (form_questions f res) (e_canonical (form_env nfc f answers rs)) st)"
  unfolding evaluate_form_alt canonical_answers_malformed [symmetric]
  by (auto simp: Let_def filter_empty_conv split: sum.splits)

lemma evaluate_form_visible:
  "evaluate_form nfc f answers res rs = Inr flow \<Longrightarrow>
     \<exists>st. walk_form (form_env nfc f answers rs) f = Inr st \<and> visible flow = w_visible st"
  by (auto simp: evaluate_form_Inr_iff flow_of_def Let_def)

lemma canonical_env:
  "map_of (e_canonical (form_env nfc f answers rs)) k =
     (if k \<in> fst ` set (answer_keys (documentOrder f) (rosterOf rs)) then present nfc answers k else None)"
  by (simp add: form_env_def canonical_answers_map)

lemma hidden_answers_irrelevant:
  assumes "evaluate_form nfc f answers res rs = Inr flow"
    and same: "\<And>e. e \<in> set (visible flow) \<Longrightarrow> answers' (entry_key e) = answers (entry_key e)"
    and wf: "\<And>k raw. answers' k = Some raw \<Longrightarrow> AnswerValue nfc raw \<noteq> None"
  shows "evaluate_form nfc f answers' res rs = Inr flow"
proof -
  let ?env = "form_env nfc f answers rs" and ?env' = "form_env nfc f answers' rs"
  from assms(1) obtain st where st: "walk_form ?env f = Inr st"
    "flow = flow_of f (rosterOf rs) (form_questions f res) (e_canonical ?env) st"
    and ok: "\<forall>q \<in> set (form_pins f). res q \<noteq> None"
    by (auto simp: evaluate_form_Inr_iff)
  have vis: "visible flow = w_visible st" using st(2) by (simp add: flow_of_def Let_def)
  have can: "map_of (e_canonical ?env') (entry_key e) = map_of (e_canonical ?env) (entry_key e)"
    if "e \<in> set (w_visible st)" for e
    using same [unfolded vis, OF that] by (simp add: canonical_env present_def)
  then have "agree_on ?env ?env' st"
    using walk_form_appends [OF st(1)] by (auto simp: agree_on_def)
  from walk_form_agree [OF same_form_env st(1) this] have "walk_form ?env' f = Inr st" .
  moreover have "flow = flow_of f (rosterOf rs) (form_questions f res) (e_canonical ?env') st"
    using st(2) flow_agree [OF can] by simp
  ultimately show ?thesis using ok wf by (auto simp: evaluate_form_Inr_iff)
qed

end
