(* ===== verification/Visibility.thy ===== *)
theory Visibility
  imports Evaluation
begin

text \<open>
  The declarative reading of the visibility rules, and the refinement: on a form that passed
  the publish checks the evaluator's single forward pass computes the one visible set in which
  an entry is visible exactly when its step and its question are shown by the rules read
  against that set.
\<close>

section \<open>The declarative semantics\<close>

text \<open>An item no rule targets is shown; a targeted one is shown when some rule holds (ADR-16).\<close>

definition item_shown ::
  "eval_env \<Rightarrow> answer_key list \<Rightarrow> form_definition \<Rightarrow> string \<Rightarrow> instance_scope \<Rightarrow> bool" where
  "item_shown env S f target scope \<longleftrightarrow>
     targeting f target = [] \<or>
     (\<exists>r \<in> set (targeting f target). evalCondition env S r (rule_when r) scope = Inr True)"

definition question_entries ::
  "eval_env \<Rightarrow> answer_key list \<Rightarrow> form_definition \<Rightarrow> doc_position \<Rightarrow> visible_entry list" where
  "question_entries env S f p =
     map (\<lambda>(inst, scope). entry_at p inst)
       (filter (\<lambda>(inst, scope). item_shown env S f (dp_question p) scope) (pos_instances (e_rosterOf env) p))"

definition shown_entries ::
  "eval_env \<Rightarrow> answer_key list \<Rightarrow> form_definition \<Rightarrow> doc_position list \<Rightarrow> visible_entry list" where
  "shown_entries env S f ps =
     concat (map (\<lambda>p. if item_shown env S f (dp_step p) [] then question_entries env S f p else []) ps)"

lemma shown_entries_append [simp]:
  "shown_entries env S f (ps @ qs) = shown_entries env S f ps @ shown_entries env S f qs"
  by (simp add: shown_entries_def)

text \<open>What the publish checks and the schema guarantee of a published form.\<close>

definition publish_checked :: "normalizer \<Rightarrow> form_definition \<Rightarrow> bool" where
  "publish_checked nfc f \<longleftrightarrow>
     FormDefinition_shape nfc f \<and> unambiguous f \<and> (\<forall>r \<in> set (f_rules f). forward_rule f r)"

section \<open>Keys\<close>

definition same_at :: "question_id \<Rightarrow> answer_key list \<Rightarrow> answer_key list \<Rightarrow> bool" where
  "same_at q S T \<longleftrightarrow>
     (\<forall>inst. pred_option InstanceId inst \<longrightarrow> (answerKey q inst \<in> set S \<longleftrightarrow> answerKey q inst \<in> set T))"

lemma same_at_sym: "same_at q S T \<Longrightarrow> same_at q T S"
  by (simp add: same_at_def)

lemma same_at_trans: "same_at q S T \<Longrightarrow> same_at q T U \<Longrightarrow> same_at q S U"
  by (simp add: same_at_def)

definition entry_valid :: "visible_entry \<Rightarrow> bool" where
  "entry_valid e \<longleftrightarrow> QuestionId (v_question e) \<and> pred_option InstanceId (v_instance e)"

lemma same_at_adds:
  assumes "set T = set S \<union> entry_key ` set es" "QuestionId q" "q \<notin> v_question ` set es"
    "\<forall>e \<in> set es. entry_valid e"
  shows "same_at q S T"
  unfolding same_at_def
proof (intro allI impI)
  fix inst assume inst: "pred_option InstanceId inst"
  have "answerKey q inst \<noteq> entry_key e" if "e \<in> set es" for e
  proof -
    have "v_question e \<noteq> q" using assms(3) that by auto
    moreover have "valid_key_parts (inst, q)" "valid_key_parts (v_instance e, v_question e)"
      using assms(2,4) inst that by (auto simp: valid_key_parts_def entry_valid_def)
    ultimately show ?thesis by (auto simp: entry_key_def answerKey_eq_iff)
  qed
  with assms(1) show "answerKey q inst \<in> set S \<longleftrightarrow> answerKey q inst \<in> set T" by auto
qed

lemma effective_same:
  assumes "same_at q S T" "valid_scope scope"
  shows "effective env S q scope = effective env T q scope"
proof -
  from assms(1) have "q \<in> set S \<longleftrightarrow> q \<in> set T"
    unfolding same_at_def by (metis answerKey_None option.pred_inject(1))
  moreover have "answerKey q (Some i) \<in> set S \<longleftrightarrow> answerKey q (Some i) \<in> set T" if "InstanceId i" for i
    using assms(1) that unfolding same_at_def by simp
  ultimately show ?thesis
    using assms(2) by (auto simp: effective_def keyOf_def valid_scope_def split: option.splits)
qed

lemma item_shown_same:
  assumes "valid_rosters (e_rosterOf env)" "valid_scope scope"
    "\<And>r q. r \<in> set (targeting f t) \<Longrightarrow> q \<in> cond_questions (rule_when r) \<Longrightarrow> same_at q S T"
  shows "item_shown env S f t scope = item_shown env T f t scope"
proof -
  have "evalCondition env S r (rule_when r) scope = evalCondition env T r (rule_when r) scope"
    if "r \<in> set (targeting f t)" for r
    by (rule eval_agree_valid) (use assms effective_same that in auto)
  then show ?thesis by (simp add: item_shown_def)
qed

lemma anyRuleTrue_shown:
  assumes "valid_rosters (e_rosterOf env)" "valid_scope scope" "targeting f t \<noteq> []"
    "\<And>r q. r \<in> set (targeting f t) \<Longrightarrow> q \<in> cond_questions (rule_when r) \<Longrightarrow> same_at q S T"
    "anyRuleTrue env T (targeting f t) scope = Inr b"
  shows "b = item_shown env S f t scope"
proof -
  from any_ok_Inr [OF assms(5) [unfolded anyRuleTrue_def]] assms(3)
  have "b = item_shown env T f t scope" by (simp add: item_shown_def)
  with item_shown_same [OF assms(1,2,4)] show ?thesis by simp
qed

section \<open>Reads precede targets\<close>

abbreviation questions_of :: "doc_position list \<Rightarrow> question_id set" where
  "questions_of ps \<equiv> dp_question ` set ps"

lemma forward_reads:
  assumes "unambiguous f" "forward_rule f r" "documentOrder f = A @ p # C" "t \<in> set (rule_show r)"
    "dp_question p \<in> set (target_questions f t)" "q \<in> cond_questions (rule_when r)"
  shows "q \<notin> questions_of (p # C)"
proof
  assume "q \<in> questions_of (p # C)"
  then obtain k where k: "k < length (p # C)" "dp_question ((p # C) ! k) = q"
    by (metis (no_types, lifting) imageE in_set_conv_nth)
  let ?D = "documentOrder f"
  have dist: "distinct (map dp_question ?D)"
    using assms(1) by (simp add: documentOrder_questions unambiguous_def)
  have at: "length A + k < length ?D" "dp_question (?D ! (length A + k)) = q"
    using k assms(3) by (simp_all add: nth_append)
  have ap: "length A < length ?D" "?D ! length A = p" using assms(3) by simp_all
  have pq: "map_of (form_positions f) q = Some (length A + k)"
    using positions_distinct [OF dist at(1)] at(2) by (simp add: form_positions_def)
  have pp: "map_of (form_positions f) (dp_question p) = Some (length A)"
    using positions_distinct [OF dist ap(1)] ap(2) by (simp add: form_positions_def)
  have "q \<in> set (rule_reads (form_positions f) (groupSpans f) r)"
    using assms(6) pq by (simp add: set_rule_reads)
  moreover have "dp_question p \<in> set (rule_shows f (form_positions f) r)"
    using assms(4,5) pp by (auto simp: set_rule_shows form_position_defined [symmetric])
  ultimately have "the (map_of (form_positions f) q) < the (map_of (form_positions f) (dp_question p))"
    using assms(2) unfolding forward_rule_def by blast
  with pq pp show False by simp
qed

lemma shape_ids:
  assumes "FormDefinition_shape nfc f"
  shows "p \<in> set (documentOrder f) \<Longrightarrow> QuestionId (dp_question p)"
    and "s \<in> set (f_steps f) \<Longrightarrow> StepId (stepId s)"
    and "r \<in> set (f_rules f) \<Longrightarrow> ConditionNode_shape nfc (rule_when r)"
proof -
  assume "p \<in> set (documentOrder f)"
  then obtain s i where si: "s \<in> set (f_steps f)" "i \<in> set (s_items s)" "p \<in> set (item_positions (stepId s) i)"
    by (auto simp: set_documentOrder)
  with assms have "StepItem_shape i" by (auto simp: FormDefinition_shape_def Step_shape_def list_all_iff)
  with si(3) show "QuestionId (dp_question p)"
    by (auto simp: set_item_positions QuestionRef_shape_def RepeatGroup_shape_def list_all_iff)
next
  assume "s \<in> set (f_steps f)"
  with assms show "StepId (stepId s)" by (auto simp: FormDefinition_shape_def Step_shape_def list_all_iff)
next
  assume "r \<in> set (f_rules f)"
  with assms show "ConditionNode_shape nfc (rule_when r)"
    by (auto simp: FormDefinition_shape_def VisibilityRule_shape_def list_all_iff)
qed

lemma cond_questions_shape: "ConditionNode_shape nfc c \<Longrightarrow> q \<in> cond_questions c \<Longrightarrow> QuestionId q"
  by (induction c) auto

lemma pos_entries_valid:
  assumes "valid_rosters ros" "QuestionId (dp_question p)" "e \<in> set (pos_entries ros p)"
  shows "entry_valid e \<and> v_question e = dp_question p \<and> v_step e = dp_step p"
  using assms by (auto simp: pos_entries_def pos_instances_def entry_valid_def valid_rosters_def
      list_all_iff split: option.splits)

lemma pos_scope_valid:
  "valid_rosters ros \<Longrightarrow> (inst, scope) \<in> set (pos_instances ros p) \<Longrightarrow> valid_scope scope"
  by (auto simp: pos_instances_def valid_rosters_def list_all_iff intro: valid_scope_with split: option.splits)

lemma reads_before:
  assumes "publish_checked nfc f" "documentOrder f = A @ p # C"
    "t = dp_question p \<or> t = dp_step p" "r \<in> set (targeting f t)" "q \<in> cond_questions (rule_when r)"
  shows "QuestionId q \<and> q \<notin> questions_of (p # C)"
proof -
  from assms(1) have shape: "FormDefinition_shape nfc f" and un: "unambiguous f"
    and fwd: "\<forall>r \<in> set (f_rules f). forward_rule f r" by (auto simp: publish_checked_def)
  from assms(4) have r: "r \<in> set (f_rules f)" "t \<in> set (rule_show r)" by (auto simp: targeting_def)
  have p: "p \<in> set (documentOrder f)" using assms(2) by simp
  then obtain st where "st \<in> set (f_steps f)" "dp_step p = stepId st"
    by (auto simp: set_documentOrder set_item_positions)
  with shape_ids(2) [OF shape] have "isStepId (dp_step p)" by (simp add: isStepId_def)
  moreover have "\<not> isStepId (dp_question p)"
    using shape_ids(1) [OF shape p] question_not_step by (simp add: isStepId_def)
  ultimately have "dp_question p \<in> set (target_questions f t)"
    using assms(3) p by (auto simp: target_questions_def)
  with forward_reads [OF un _ assms(2) r(2) _ assms(5)] fwd r(1)
    cond_questions_shape [OF shape_ids(3) [OF shape r(1)] assms(5)]
  show ?thesis by blast
qed

section \<open>The pass computes the declarative set\<close>

abbreviation question_rules :: "form_definition \<Rightarrow> rule_map" where
  "question_rules f \<equiv> snd (targeting_rules f)"

lemma walk_instances:
  assumes pc: "publish_checked nfc f" and D: "documentOrder f = A @ p # C"
    and vr: "valid_rosters (e_rosterOf env)"
  shows "fold_ok (\<lambda>(inst, scope). walkQuestion env (question_rules f) (dp_step p) (dp_question p) inst scope)
      xs st = Inr st' \<Longrightarrow>
    set xs \<subseteq> set (pos_instances (e_rosterOf env) p) \<Longrightarrow>
    (\<And>q. QuestionId q \<Longrightarrow> q \<notin> questions_of (p # C) \<Longrightarrow> same_at q S (settled st)) \<Longrightarrow>
    appends (map (\<lambda>(inst, scope). entry_at p inst)
      (filter (\<lambda>(inst, scope). item_shown env S f (dp_question p) scope) xs)) st st'"
proof (induction xs arbitrary: st)
  case (Cons x xs)
  obtain inst scope where x: "x = (inst, scope)" by (cases x)
  let ?q = "dp_question p"
  from Cons.prems(1) x obtain st1 where
    st1: "walkQuestion env (question_rules f) (dp_step p) ?q inst scope st = Inr st1"
    "fold_ok (\<lambda>(inst, scope). walkQuestion env (question_rules f) (dp_step p) ?q inst scope) xs st1 = Inr st'"
    by (auto split: sum.splits)
  have p: "p \<in> set (documentOrder f)" using D by simp
  have shape: "FormDefinition_shape nfc f" using pc by (simp add: publish_checked_def)
  have q: "QuestionId ?q" "\<not> isStepId ?q"
    using shape_ids(1) [OF shape p] question_not_step by (auto simp: isStepId_def)
  have scope: "valid_scope scope" using Cons.prems(2) x vr by (auto intro: pos_scope_valid)
  have inst: "pred_option InstanceId inst"
    using Cons.prems(2) x vr
    by (auto simp: pos_instances_def valid_rosters_def list_all_iff split: option.splits)
  have reads: "same_at r S (settled st)"
    if "rule \<in> set (targeting f ?q)" "r \<in> cond_questions (rule_when rule)" for rule r
    using reads_before [OF pc D _ that] Cons.prems(3) by blast
  have one: "appends (if item_shown env S f ?q scope then [entry_at p inst] else []) st st1"
  proof (cases "targeting f ?q = []")
    case True
    with st1(1) q(2) show ?thesis
      by (auto simp: walkQuestion_def targeting_rules_question nonempty_def item_shown_def appends_def
          entry_at_def entry_key_def ok_def)
  next
    case False
    with st1(1) q(2) obtain b where b: "anyRuleTrue env (settled st) (targeting f ?q) scope = Inr b"
      by (auto simp: walkQuestion_def targeting_rules_question nonempty_def ok_def err_def split: sum.splits)
    have "b = item_shown env S f ?q scope" by (rule anyRuleTrue_shown [OF vr scope False reads b])
    with st1(1) q(2) b False show ?thesis
      by (auto simp: walkQuestion_def targeting_rules_question nonempty_def appends_def
          entry_at_def entry_key_def ok_def)
  qed
  have "same_at r (settled st) (settled st1)" if "QuestionId r" "r \<notin> questions_of (p # C)" for r
  proof (rule same_at_adds [OF _ that(1)])
    let ?es = "if item_shown env S f ?q scope then [entry_at p inst] else []"
    show "set (settled st1) = set (settled st) \<union> entry_key ` set ?es" using one by (simp add: appends_def)
    show "r \<notin> v_question ` set ?es" using that by auto
    show "\<forall>e \<in> set ?es. entry_valid e" using q(1) inst by (simp add: entry_valid_def)
  qed
  with Cons.prems(3) same_at_trans have "\<And>r. QuestionId r \<Longrightarrow> r \<notin> questions_of (p # C) \<Longrightarrow> same_at r S (settled st1)"
    by blast
  from appends_trans [OF one Cons.IH [OF st1(2) _ this]] Cons.prems(2) x
  show ?case by (cases "item_shown env S f ?q scope") auto
qed simp

text \<open>What a stretch of the walk adds leaves the keys of every other question alone.\<close>

lemma appends_same_at:
  assumes "appends es st st'" "set es \<subseteq> (\<Union>p \<in> set ps. set (pos_entries ros p))" "valid_rosters ros"
    "\<And>p. p \<in> set ps \<Longrightarrow> QuestionId (dp_question p)" "QuestionId q" "q \<notin> questions_of ps"
  shows "same_at q (settled st) (settled st')"
proof (rule same_at_adds [OF _ assms(5)])
  have valid: "entry_valid e \<and> v_question e \<in> questions_of ps" if "e \<in> set es" for e
  proof -
    from assms(2) that obtain p where "p \<in> set ps" "e \<in> set (pos_entries ros p)" by auto
    with pos_entries_valid [OF assms(3) assms(4)] show ?thesis by auto
  qed
  show "set (settled st') = set (settled st) \<union> entry_key ` set es" using assms(1) by (simp add: appends_def)
  show "q \<notin> v_question ` set es" using valid assms(6) by auto
  show "\<forall>e \<in> set es. entry_valid e" using valid by blast
qed

lemma walk_positions_shown:
  assumes pc: "publish_checked nfc f" and vr: "valid_rosters (e_rosterOf env)"
  shows "fold_ok (walk_position env (question_rules f)) ps st = Inr st' \<Longrightarrow>
    documentOrder f = A @ ps @ C \<Longrightarrow>
    (\<And>q. QuestionId q \<Longrightarrow> q \<notin> questions_of (ps @ C) \<Longrightarrow> same_at q S (settled st)) \<Longrightarrow>
    (\<And>q. q \<in> questions_of ps \<Longrightarrow> same_at q S (settled st')) \<Longrightarrow>
    appends (concat (map (question_entries env S f) ps)) st st'"
proof (induction ps arbitrary: st A)
  case (Cons p ps)
  from Cons.prems(1) obtain st1 where
    st1: "walk_position env (question_rules f) p st = Inr st1"
    "fold_ok (walk_position env (question_rules f)) ps st1 = Inr st'"
    by (auto split: sum.splits)
  have shape: "FormDefinition_shape nfc f" and un: "unambiguous f" using pc by (auto simp: publish_checked_def)
  have D: "documentOrder f = A @ p # (ps @ C)" using Cons.prems(2) by simp
  have ids: "QuestionId (dp_question x)" if "x \<in> set (p # ps @ C)" for x
    using shape_ids(1) [OF shape, of x] D that by auto
  have "distinct (map dp_question (documentOrder f))"
    using un by (simp add: documentOrder_questions unambiguous_def)
  with D have fresh: "dp_question p \<notin> questions_of ps" by auto
  have one: "appends (question_entries env S f p) st st1"
    unfolding question_entries_def
    by (rule walk_instances [OF pc D vr]) (use st1(1) Cons.prems(3) in \<open>auto simp: walk_position_def\<close>)
  have first: "same_at q (settled st) (settled st1)" if "QuestionId q" "q \<noteq> dp_question p" for q
    using walk_position_appends [OF st1(1)] vr that ids
    by (auto intro!: appends_same_at [where ps = "[p]" and ros = "e_rosterOf env"])
  have tail: "same_at q (settled st1) (settled st')" if "QuestionId q" "q \<notin> questions_of ps" for q
    using walk_positions_appends [OF st1(2)] vr that ids
    by (auto intro!: appends_same_at [where ps = ps and ros = "e_rosterOf env"])
  have agree: "same_at q S (settled st1)" if "QuestionId q" "q \<notin> questions_of (ps @ C)" for q
  proof (cases "q = dp_question p")
    case True
    from Cons.prems(4) True have "same_at q S (settled st')" by simp
    moreover have "same_at q (settled st1) (settled st')" using tail that fresh True by blast
    ultimately show ?thesis using same_at_sym same_at_trans by blast
  next
    case False
    with that have "same_at q S (settled st)" using Cons.prems(3) by simp
    from same_at_trans [OF this first [OF that(1) False]] show ?thesis .
  qed
  have "appends (concat (map (question_entries env S f) ps)) st1 st'"
    by (rule Cons.IH [where A = "A @ [p]", OF st1(2)]) (use D agree Cons.prems(4) in auto)
  from appends_trans [OF one this] show ?case by simp
qed simp

lemma step_positions_dp: "p \<in> set (step_positions s) \<Longrightarrow> dp_step p = stepId s"
  by (auto simp: step_positions_def set_item_positions)

lemma shown_entries_sub:
  "set (shown_entries env S f ps) \<subseteq> (\<Union>p \<in> set ps. set (pos_entries (e_rosterOf env) p))"
  by (auto simp: shown_entries_def question_entries_def pos_entries_def split: if_splits)

lemma walk_steps_shown:
  assumes pc: "publish_checked nfc f" and vr: "valid_rosters (e_rosterOf env)"
  shows "fold_ok (walk_step env (fst (targeting_rules f)) (question_rules f)) steps st = Inr st' \<Longrightarrow>
    set steps \<subseteq> set (f_steps f) \<Longrightarrow>
    documentOrder f = A @ concat (map step_positions steps) \<Longrightarrow>
    appends (shown_entries env (settled st') f (concat (map step_positions steps))) st st'"
proof (induction steps arbitrary: st A)
  case (Cons s steps)
  let ?S = "settled st'" and ?C = "concat (map step_positions steps)"
  from Cons.prems(1) obtain st1 where
    st1: "walk_step env (fst (targeting_rules f)) (question_rules f) s st = Inr st1"
    "fold_ok (walk_step env (fst (targeting_rules f)) (question_rules f)) steps st1 = Inr st'"
    by (auto split: sum.splits)
  have shape: "FormDefinition_shape nfc f" and un: "unambiguous f" using pc by (auto simp: publish_checked_def)
  have D: "documentOrder f = A @ step_positions s @ ?C" using Cons.prems(3) by simp
  have ids: "QuestionId (dp_question x)" if "x \<in> set (step_positions s @ ?C)" for x
    using shape_ids(1) [OF shape, of x] D that by auto
  have sid: "isStepId (stepId s)" using shape_ids(2) [OF shape] Cons.prems(2) by (simp add: isStepId_def)
  have rest: "appends (shown_entries env ?S f ?C) st1 st'"
    by (rule Cons.IH [where A = "A @ step_positions s", OF st1(2)]) (use Cons.prems(2) D in auto)
  have tail: "same_at q (settled st1) ?S" if "QuestionId q" "q \<notin> questions_of ?C" for q
    by (rule appends_same_at [OF rest shown_entries_sub vr _ that]) (use ids in auto)
  have head: "same_at q (settled st) (settled st1)" if "QuestionId q" "q \<notin> questions_of (step_positions s)" for q
    using walk_step_appends [OF st1(1)] vr that ids
    by (auto intro!: appends_same_at [where ps = "step_positions s" and ros = "e_rosterOf env"])
  have agree: "same_at q ?S (settled st)" if "QuestionId q" "q \<notin> questions_of (step_positions s @ ?C)" for q
  proof -
    from that have "q \<notin> questions_of (step_positions s)" "q \<notin> questions_of ?C" by auto
    from same_at_trans [OF head tail] that(1) this same_at_sym show ?thesis by blast
  qed
  have "distinct (map dp_question (documentOrder f))"
    using un by (simp add: documentOrder_questions unambiguous_def)
  with D have fresh: "q \<notin> questions_of ?C" if "q \<in> questions_of (step_positions s)" for q
    using that by auto
  have inside: "appends (concat (map (question_entries env ?S f) (step_positions s))) st st1"
    if "fold_ok (walk_position env (question_rules f)) (step_positions s) (note_bearing s st) = Inr st1"
  proof -
    have "appends (concat (map (question_entries env ?S f) (step_positions s))) (note_bearing s st) st1"
      by (rule walk_positions_shown [OF pc vr that D])
         (use agree tail ids fresh in \<open>auto intro: same_at_sym\<close>)
    then show ?thesis by (simp add: appends_def)
  qed
  have gate: "item_shown env ?S f (stepId s) [] \<Longrightarrow> shown_entries env ?S f (step_positions s) =
      concat (map (question_entries env ?S f) (step_positions s))"
    "\<not> item_shown env ?S f (stepId s) [] \<Longrightarrow> shown_entries env ?S f (step_positions s) = []"
    by (auto simp: shown_entries_def step_positions_dp cong: map_cong)
  have "appends (shown_entries env ?S f (step_positions s)) st st1"
  proof (cases "step_positions s = [] \<or> targeting f (stepId s) = []")
    case True
    show ?thesis
    proof (cases "targeting f (stepId s) = []")
      case True
      with st1(1) sid have "fold_ok (walk_position env (question_rules f)) (step_positions s) (note_bearing s st) = Inr st1"
        by (simp add: walk_step_positions targeting_rules_step nonempty_def)
      from inside [OF this] gate(1) True show ?thesis by (simp add: item_shown_def)
    next
      case False
      with True have "step_positions s = []" by simp
      with st1(1) have "appends [] st st1"
        by (auto simp: walk_step_positions appends_def split: option.splits sum.splits if_splits)
      with \<open>step_positions s = []\<close> show ?thesis by (simp add: shown_entries_def)
    qed
  next
    case False
    then obtain p ps where ps: "step_positions s = p # ps" by (cases "step_positions s") auto
    then have dp: "dp_step p = stepId s" using step_positions_dp [of p s] by simp
    let ?gate = "anyRuleTrue env (settled st) (targeting f (stepId s)) []"
    from False sid have rules: "map_of (fst (targeting_rules f)) (stepId s) = Some (targeting f (stepId s))"
      by (simp add: targeting_rules_step nonempty_def)
    from st1(1) have eq: "(case ?gate of
        Inl e \<Rightarrow> Inl e
      | Inr shown \<Rightarrow>
          if shown then fold_ok (walk_position env (question_rules f)) (step_positions s) (note_bearing s st)
          else Inr st) = Inr st1"
      by (simp only: walk_step_positions rules option.case)
    obtain b where b: "?gate = Inr b"
      by (cases ?gate) (use eq in \<open>simp_all only: sum.case, auto\<close>)
    with eq have gated: "(if b
        then fold_ok (walk_position env (question_rules f)) (step_positions s) (note_bearing s st)
        else Inr st) = Inr st1" by (simp only: sum.case)
    have "same_at q ?S (settled st)"
      if "r \<in> set (targeting f (stepId s))" "q \<in> cond_questions (rule_when r)" for r q
      using reads_before [OF pc, of A p "ps @ ?C" "stepId s" r q] that dp D ps agree by auto
    from anyRuleTrue_shown [OF vr valid_scope_Nil _ this b] False
    have bs: "b = item_shown env ?S f (stepId s) []" by simp
    show ?thesis
    proof (cases b)
      case True
      with gated have "fold_ok (walk_position env (question_rules f)) (step_positions s) (note_bearing s st) = Inr st1"
        by (simp only: if_True)
      from inside [OF this] gate(1) bs True show ?thesis by simp
    next
      case False
      with gated have "st1 = st" by simp
      with gate(2) bs False show ?thesis by simp
    qed
  qed
  from appends_trans [OF this rest] show ?case by simp
qed (simp add: shown_entries_def)

lemma walk_form_shown:
  assumes "publish_checked nfc f" "valid_rosters (e_rosterOf env)" "walk_form env f = Inr st"
  shows "w_visible st = shown_entries env (settled st) f (documentOrder f)"
proof -
  from assms(3) have "fold_ok (walk_step env (fst (targeting_rules f)) (question_rules f)) (f_steps f)
      walk_start = Inr st"
    by (simp add: walk_form_def split: prod.splits)
  from walk_steps_shown [OF assms(1,2) this, of "[]"] show ?thesis
    by (simp add: documentOrder_steps appends_def walk_start_def)
qed

section \<open>One fixed point\<close>

lemma effective_set: "set S = set T \<Longrightarrow> effective env S q scope = effective env T q scope"
  by (simp add: effective_def split: option.split)

lemma shown_entries_set:
  assumes "set S = set T"
  shows "shown_entries env S f ps = shown_entries env T f ps"
proof -
  have "evalCondition env S r c scope = evalCondition env T r c scope" for r c scope
    by (rule eval_agree [where P = "\<lambda>_. True"]) (use effective_set [OF assms] in auto)
  then have "item_shown env S f t scope = item_shown env T f t scope" for t scope
    by (simp add: item_shown_def)
  then have "item_shown env S f = item_shown env T f" by (simp add: fun_eq_iff)
  then have "question_entries env S f = question_entries env T f"
    by (simp add: question_entries_def fun_eq_iff)
  with \<open>item_shown env S f = item_shown env T f\<close> show ?thesis
    unfolding shown_entries_def by (simp only:)
qed

definition is_visible_set :: "eval_env \<Rightarrow> form_definition \<Rightarrow> visible_entry list \<Rightarrow> bool" where
  "is_visible_set env f V \<longleftrightarrow> V = shown_entries env (map entry_key V) f (documentOrder f)"

lemma walk_form_fixed_point:
  assumes "publish_checked nfc f" "valid_rosters (e_rosterOf env)" "walk_form env f = Inr st"
  shows "is_visible_set env f (w_visible st)"
proof -
  have "set (settled st) = set (map entry_key (w_visible st))"
    using walk_form_appends [OF assms(3)] by simp
  from walk_form_shown [OF assms] shown_entries_set [OF this] show ?thesis by (simp add: is_visible_set_def)
qed

lemma shown_entries_at:
  assumes "valid_rosters (e_rosterOf env)" "\<And>p. p \<in> set ps \<Longrightarrow> QuestionId (dp_question p)"
    "e \<in> set (shown_entries env S f ps)"
  shows "entry_valid e \<and> v_question e \<in> questions_of ps"
proof -
  from assms(3) obtain p where "p \<in> set ps" "e \<in> set (pos_entries (e_rosterOf env) p)"
    using shown_entries_sub by blast
  with pos_entries_valid [OF assms(1) assms(2)] show ?thesis by auto
qed

text \<open>Keys of a question are settled by its own position only.\<close>

lemma same_at_split:
  assumes "valid_rosters (e_rosterOf env)" "\<And>x. x \<in> set (A @ p # C) \<Longrightarrow> QuestionId (dp_question x)"
    "distinct (map dp_question (A @ p # C))"
    "set S = entry_key ` set (shown_entries env S0 f (A @ p # C))"
    "q \<in> questions_of A"
  shows "same_at q (map entry_key (shown_entries env S0 f A)) S"
proof (rule same_at_adds [where es = "shown_entries env S0 f (p # C)"])
  show "set S = set (map entry_key (shown_entries env S0 f A)) \<union> entry_key ` set (shown_entries env S0 f (p # C))"
    using assms(4) by (simp only: shown_entries_append set_append image_Un set_map)
  show "QuestionId q" using assms(2,5) by auto
  have at: "entry_valid e \<and> v_question e \<in> questions_of (p # C)" if "e \<in> set (shown_entries env S0 f (p # C))" for e
    by (rule shown_entries_at [OF assms(1) _ that]) (use assms(2) in auto)
  show "q \<notin> v_question ` set (shown_entries env S0 f (p # C))" 
  proof
    assume "q \<in> v_question ` set (shown_entries env S0 f (p # C))"
    with at have "q \<in> questions_of (p # C)" by blast
    moreover have "questions_of A \<inter> questions_of (p # C) = {}" using assms(3) by (simp add: Int_commute)
    ultimately show False using assms(5) by blast
  qed
  show "\<forall>e \<in> set (shown_entries env S0 f (p # C)). entry_valid e" using at by blast
qed

lemma fixed_point_unique:
  assumes pc: "publish_checked nfc f" and vr: "valid_rosters (e_rosterOf env)"
    and V: "is_visible_set env f V" and W: "is_visible_set env f W"
  shows "V = W"
proof -
  let ?S = "map entry_key V" and ?T = "map entry_key W"
  have shape: "FormDefinition_shape nfc f" and un: "unambiguous f" using pc by (auto simp: publish_checked_def)
  have dist: "distinct (map dp_question (documentOrder f))"
    using un by (simp add: documentOrder_questions unambiguous_def)
  have keys: "set ?S = entry_key ` set (shown_entries env ?S f (documentOrder f))"
    "set ?T = entry_key ` set (shown_entries env ?T f (documentOrder f))"
    using V W by (simp_all add: is_visible_set_def)
  have step: "shown_entries env ?S f A = shown_entries env ?T f A" if "documentOrder f = A @ C" for A C
    using that
  proof (induction A arbitrary: C rule: rev_induct)
    case (snoc p A)
    then have D: "documentOrder f = A @ p # C" by simp
    from snoc.IH [OF D] have IH: "shown_entries env ?S f A = shown_entries env ?T f A" .
    have ids: "QuestionId (dp_question x)" if "x \<in> set (A @ p # C)" for x
      using shape_ids(1) [OF shape] D that by simp
    have agree: "same_at q ?S ?T" if "QuestionId q" "q \<notin> questions_of (p # C)" for q
    proof (cases "q \<in> questions_of A")
      case True
      have "same_at q (map entry_key (shown_entries env ?S f A)) ?S"
        "same_at q (map entry_key (shown_entries env ?T f A)) ?T"
        by (rule same_at_split [OF vr ids dist [unfolded D] _ True], assumption, simp only: keys D [symmetric])+
      with IH same_at_sym same_at_trans show ?thesis by metis
    next
      case False
      with that D have q: "q \<notin> questions_of (documentOrder f)" by auto
      have none: "same_at q [] X"
        if "set X = entry_key ` set (shown_entries env X f (documentOrder f))" for X
      proof (rule same_at_adds [where es = "shown_entries env X f (documentOrder f)"])
        have at: "entry_valid e \<and> v_question e \<in> questions_of (documentOrder f)"
          if "e \<in> set (shown_entries env X f (documentOrder f))" for e
          by (rule shown_entries_at [OF vr _ that]) (rule shape_ids(1) [OF shape])
        show "set X = set [] \<union> entry_key ` set (shown_entries env X f (documentOrder f))"
          using that by (simp only: set_simps Un_empty_left)
        show "QuestionId q" by fact
        show "q \<notin> v_question ` set (shown_entries env X f (documentOrder f))" using at q by blast
        show "\<forall>e \<in> set (shown_entries env X f (documentOrder f)). entry_valid e" using at by blast
      qed
      show ?thesis using none [OF keys(1)] none [OF keys(2)] same_at_sym same_at_trans by blast
    qed
    have reads: "same_at q ?S ?T"
      if "t = dp_question p \<or> t = dp_step p" "r \<in> set (targeting f t)" "q \<in> cond_questions (rule_when r)" for t r q
      using reads_before [OF pc D that] agree by blast
    have "item_shown env ?S f (dp_step p) [] = item_shown env ?T f (dp_step p) []"
      using item_shown_same [OF vr valid_scope_Nil] reads by blast
    moreover have "item_shown env ?S f (dp_question p) scope = item_shown env ?T f (dp_question p) scope"
      if "(inst, scope) \<in> set (pos_instances (e_rosterOf env) p)" for inst scope
      using item_shown_same [OF vr pos_scope_valid [OF vr that]] reads by blast
    then have "question_entries env ?S f p = question_entries env ?T f p"
      unfolding question_entries_def by (auto intro!: arg_cong [of _ _ "map _"] filter_cong)
    ultimately have "shown_entries env ?S f [p] = shown_entries env ?T f [p]"
      by (simp add: shown_entries_def)
    with IH show ?case by (simp only: shown_entries_append)
  qed (simp add: shown_entries_def)
  from step [of "documentOrder f" "[]"] V W show ?thesis by (simp add: is_visible_set_def)
qed

end
