(* ===== verification/RuleTypes.thy ===== *)
theory RuleTypes
  imports RuleAnalysis ValidateAnswer
begin

text \<open>
  \<^verbatim>\<open>checkRuleTypes\<close> of \<^verbatim>\<open>packages/core/src/rule-graph.ts\<close>: every condition checked against the
  resolved definitions. Findings are kept in a map whose key spells out the finding with its
  message, so a repeated finding is reported once; a message is determined by the rule, the
  question, the operator, the type and which of the four sentences it is.

  The typing judgement \<open>well_typed\<close> is the specification: the check reports nothing exactly
  when every condition is well typed.
\<close>

section \<open>The check\<close>

datatype mismatch =
    ValueMismatch string question_type
  | OrderOnUnordered string question_type
  | OrderCrossType string question_type
  | ContainsOnScalar string question_type

datatype type_key =
    MismatchKey rule_id question_id mismatch
  | OptionKey rule_id question_id option_id

type_synonym type_findings = "(type_key \<times> publish_error) list"

definition addMismatch :: "rule_id \<Rightarrow> question_id \<Rightarrow> mismatch \<Rightarrow> type_findings \<Rightarrow> type_findings" where
  "addMismatch rule q m fs = AList.update (MismatchKey rule q m) (RULE_TYPE_MISMATCH rule q) fs"

definition addDanglingOption :: "rule_id \<Rightarrow> question_id \<Rightarrow> option_id \<Rightarrow> type_findings \<Rightarrow> type_findings" where
  "addDanglingOption rule q opt fs = AList.update (OptionKey rule q opt) (DANGLING_OPTION_REF rule q opt) fs"

definition check_declared ::
  "rule_id \<Rightarrow> question_definition \<Rightarrow> type_findings \<Rightarrow> option_id \<Rightarrow> type_findings" where
  "check_declared rule question fs opt =
     (if opt \<notin> set (optionIdsOf question) then addDanglingOption rule (questionId question) opt fs else fs)"

definition checkValue ::
  "rule_id \<Rightarrow> question_definition \<Rightarrow> answer_value \<Rightarrow> string \<Rightarrow> type_findings \<Rightarrow> type_findings" where
  "checkValue rule question value operator fs =
     (let mismatch = addMismatch rule (questionId question) (ValueMismatch operator (q_type question)) fs in
      case q_type question of
        TShortText \<Rightarrow> (case value of AText _ \<Rightarrow> fs | _ \<Rightarrow> mismatch)
      | TLongText \<Rightarrow> (case value of AText _ \<Rightarrow> fs | _ \<Rightarrow> mismatch)
      | TNumber \<Rightarrow> (case value of ANum _ \<Rightarrow> fs | _ \<Rightarrow> mismatch)
      | TDate \<Rightarrow> if DateAnswerValue_js (av_to_js value) = None then mismatch else fs
      | TBoolean \<Rightarrow> (case value of ABool _ \<Rightarrow> fs | _ \<Rightarrow> mismatch)
      | TSingleChoice \<Rightarrow>
          (case value of
             AText opt \<Rightarrow>
               if \<not> isOptionId (JStr opt) then mismatch else check_declared rule question fs opt
           | _ \<Rightarrow> mismatch)
      | TMultiChoice \<Rightarrow>
          (case value of
             AMulti ids \<Rightarrow>
               if \<not> list_all (\<lambda>i. isOptionId (JStr i)) ids then mismatch
               else foldl (check_declared rule question) fs ids
           | _ \<Rightarrow> mismatch))"

definition check_order ::
  "rule_id \<Rightarrow> question_definition \<Rightarrow> answer_value \<Rightarrow> string \<Rightarrow> type_findings \<Rightarrow> type_findings" where
  "check_order rule question value operator fs =
     (if q_type question \<noteq> TNumber \<and> q_type question \<noteq> TDate
      then addMismatch rule (questionId question) (OrderOnUnordered operator (q_type question)) fs
      else
        let valueMatches =
              (if q_type question = TNumber then (case value of ANum _ \<Rightarrow> True | _ \<Rightarrow> False)
               else DateAnswerValue_js (av_to_js value) \<noteq> None) in
        if \<not> valueMatches
        then addMismatch rule (questionId question) (OrderCrossType operator (q_type question)) fs
        else fs)"

definition check_contains ::
  "rule_id \<Rightarrow> question_definition \<Rightarrow> option_id list \<Rightarrow> string \<Rightarrow> type_findings \<Rightarrow> type_findings" where
  "check_contains rule question options operator fs =
     (if q_type question \<noteq> TMultiChoice
      then addMismatch rule (questionId question) (ContainsOnScalar operator (q_type question)) fs
      else foldl (check_declared rule question) fs options)"

definition with_question ::
  "(question_id \<Rightarrow> question_definition option) \<Rightarrow> question_id \<Rightarrow>
     (question_definition \<Rightarrow> type_findings \<Rightarrow> type_findings) \<Rightarrow> type_findings \<Rightarrow> type_findings" where
  "with_question resolve q check fs = (case resolve q of None \<Rightarrow> fs | Some question \<Rightarrow> check question fs)"

fun checkCondition ::
  "(question_id \<Rightarrow> question_definition option) \<Rightarrow> rule_id \<Rightarrow> condition \<Rightarrow> type_findings \<Rightarrow> type_findings" where
  "checkCondition res rule (CAnd cs) fs = foldl (\<lambda>fs child. checkCondition res rule child fs) fs cs"
| "checkCondition res rule (COr cs) fs = foldl (\<lambda>fs child. checkCondition res rule child fs) fs cs"
| "checkCondition res rule (CNot c) fs = checkCondition res rule c fs"
| "checkCondition res rule (CAnyInstance _ c) fs = checkCondition res rule c fs"
| "checkCondition res rule (CEveryInstance _ c) fs = checkCondition res rule c fs"
| "checkCondition res rule (CInstanceCount _ _ _) fs = fs"
| "checkCondition res rule (CEquals q v) fs =
     with_question res q (\<lambda>d. checkValue rule d v ''equals'') fs"
| "checkCondition res rule (CNotEquals q v) fs =
     with_question res q (\<lambda>d. checkValue rule d v ''notEquals'') fs"
| "checkCondition res rule (CIn q vs) fs =
     with_question res q (\<lambda>d fs. foldl (\<lambda>fs v. checkValue rule d v ''in'' fs) fs vs) fs"
| "checkCondition res rule (CGt q v) fs = with_question res q (\<lambda>d. check_order rule d v ''gt'') fs"
| "checkCondition res rule (CGte q v) fs = with_question res q (\<lambda>d. check_order rule d v ''gte'') fs"
| "checkCondition res rule (CLt q v) fs = with_question res q (\<lambda>d. check_order rule d v ''lt'') fs"
| "checkCondition res rule (CLte q v) fs = with_question res q (\<lambda>d. check_order rule d v ''lte'') fs"
| "checkCondition res rule (CAnswered q) fs = with_question res q (\<lambda>d fs. fs) fs"
| "checkCondition res rule (CContains q opt) fs =
     with_question res q (\<lambda>d. check_contains rule d [opt] ''contains'') fs"
| "checkCondition res rule (CContainsAny q opts) fs =
     with_question res q (\<lambda>d. check_contains rule d opts ''containsAny'') fs"

definition checkRuleTypes ::
  "form_definition \<Rightarrow> (question_id \<Rightarrow> question_definition option) \<Rightarrow> publish_error list" where
  "checkRuleTypes form resolveQuestion =
     map snd (foldl (\<lambda>fs rule. checkCondition resolveQuestion (ruleId rule) (rule_when rule) fs)
       [] (f_rules form))"

section \<open>The typing judgement\<close>

text \<open>
  A value fits a question: it has the type of the question's answers and names only options
  the question declares. Numbers need not be finite here: the schema of a condition already
  refuses the others.
\<close>

definition value_fits :: "question_definition \<Rightarrow> answer_value \<Rightarrow> bool" where
  "value_fits d v =
     (case q_type d of
        TShortText \<Rightarrow> (\<exists>s. v = AText s)
      | TLongText \<Rightarrow> (\<exists>s. v = AText s)
      | TNumber \<Rightarrow> (\<exists>n. v = ANum n)
      | TDate \<Rightarrow> (\<exists>s. v = AText s \<and> DateAnswerValue s)
      | TBoolean \<Rightarrow> (\<exists>b. v = ABool b)
      | TSingleChoice \<Rightarrow> (\<exists>s. v = AText s \<and> OptionId s \<and> s \<in> set (optionIdsOf d))
      | TMultiChoice \<Rightarrow> (\<exists>ids. v = AMulti ids \<and> list_all OptionId ids \<and> set ids \<subseteq> set (optionIdsOf d)))"

definition order_fits :: "question_definition \<Rightarrow> answer_value \<Rightarrow> bool" where
  "order_fits d v \<longleftrightarrow>
     q_type d = TNumber \<and> (\<exists>n. v = ANum n) \<or> q_type d = TDate \<and> (\<exists>s. v = AText s \<and> DateAnswerValue s)"

definition options_fit :: "question_definition \<Rightarrow> option_id list \<Rightarrow> bool" where
  "options_fit d opts \<longleftrightarrow> q_type d = TMultiChoice \<and> set opts \<subseteq> set (optionIdsOf d)"

inductive well_typed :: "(question_id \<Rightarrow> question_definition option) \<Rightarrow> condition \<Rightarrow> bool"
  for res :: "question_id \<Rightarrow> question_definition option" where
  wt_and: "(\<And>c. c \<in> set cs \<Longrightarrow> well_typed res c) \<Longrightarrow> well_typed res (CAnd cs)"
| wt_or: "(\<And>c. c \<in> set cs \<Longrightarrow> well_typed res c) \<Longrightarrow> well_typed res (COr cs)"
| wt_not: "well_typed res c \<Longrightarrow> well_typed res (CNot c)"
| wt_any: "well_typed res c \<Longrightarrow> well_typed res (CAnyInstance g c)"
| wt_every: "well_typed res c \<Longrightarrow> well_typed res (CEveryInstance g c)"
| wt_count: "well_typed res (CInstanceCount g cmp n)"
| wt_answered: "well_typed res (CAnswered q)"
| wt_equals: "(\<And>d. res q = Some d \<Longrightarrow> value_fits d v) \<Longrightarrow> well_typed res (CEquals q v)"
| wt_notEquals: "(\<And>d. res q = Some d \<Longrightarrow> value_fits d v) \<Longrightarrow> well_typed res (CNotEquals q v)"
| wt_in: "(\<And>d v. res q = Some d \<Longrightarrow> v \<in> set vs \<Longrightarrow> value_fits d v) \<Longrightarrow> well_typed res (CIn q vs)"
| wt_gt: "(\<And>d. res q = Some d \<Longrightarrow> order_fits d v) \<Longrightarrow> well_typed res (CGt q v)"
| wt_gte: "(\<And>d. res q = Some d \<Longrightarrow> order_fits d v) \<Longrightarrow> well_typed res (CGte q v)"
| wt_lt: "(\<And>d. res q = Some d \<Longrightarrow> order_fits d v) \<Longrightarrow> well_typed res (CLt q v)"
| wt_lte: "(\<And>d. res q = Some d \<Longrightarrow> order_fits d v) \<Longrightarrow> well_typed res (CLte q v)"
| wt_contains: "(\<And>d. res q = Some d \<Longrightarrow> options_fit d [opt]) \<Longrightarrow> well_typed res (CContains q opt)"
| wt_containsAny: "(\<And>d. res q = Some d \<Longrightarrow> options_fit d opts) \<Longrightarrow> well_typed res (CContainsAny q opts)"

inductive_simps well_typed_simps [simp]:
  "well_typed res (CAnd cs)" "well_typed res (COr cs)" "well_typed res (CNot c)"
  "well_typed res (CAnyInstance g c)" "well_typed res (CEveryInstance g c)"
  "well_typed res (CInstanceCount g cmp n)" "well_typed res (CAnswered q)"
  "well_typed res (CEquals q v)" "well_typed res (CNotEquals q v)" "well_typed res (CIn q vs)"
  "well_typed res (CGt q v)" "well_typed res (CGte q v)" "well_typed res (CLt q v)" "well_typed res (CLte q v)"
  "well_typed res (CContains q opt)" "well_typed res (CContainsAny q opts)"

section \<open>The check implements the judgement\<close>

lemma update_not_Nil [simp]: "AList.update k v m \<noteq> []"
  by (cases m) auto

lemma add_not_Nil [simp]: "addMismatch r q m fs \<noteq> []" "addDanglingOption r q opt fs \<noteq> []"
  by (simp_all add: addMismatch_def addDanglingOption_def)

text \<open>A pass over a list adds nothing iff no element does, when an element keeps what is there.\<close>

lemma foldl_Nil_iff:
  assumes "\<And>x fs. x \<in> set xs \<Longrightarrow> f fs x = [] \<longleftrightarrow> fs = [] \<and> P x"
  shows "foldl f fs xs = [] \<longleftrightarrow> fs = [] \<and> (\<forall>x \<in> set xs. P x)"
  using assms by (induction xs arbitrary: fs) auto

lemma check_declared_Nil: "check_declared r d fs opt = [] \<longleftrightarrow> fs = [] \<and> opt \<in> set (optionIdsOf d)"
  by (simp add: check_declared_def)

lemma isOptionId_JStr [simp]: "isOptionId (JStr s) = OptionId s"
  by (simp add: isOptionId_def)

lemma DateAnswerValue_js_av:
  "DateAnswerValue_js (av_to_js v) = None \<longleftrightarrow> \<not> (\<exists>s. v = AText s \<and> DateAnswerValue s)"
  by (cases v) (auto simp: DateAnswerValue_js_def)

lemma foldl_declared_Nil:
  "foldl (check_declared r d) fs opts = [] \<longleftrightarrow> fs = [] \<and> set opts \<subseteq> set (optionIdsOf d)"
  using foldl_Nil_iff [where P = "\<lambda>opt. opt \<in> set (optionIdsOf d)" and f = "check_declared r d"]
  by (auto simp: check_declared_Nil)

lemma checkValue_Nil: "checkValue r d v operator fs = [] \<longleftrightarrow> fs = [] \<and> value_fits d v"
  by (cases "q_type d"; cases v)
     (auto simp: checkValue_def value_fits_def DateAnswerValue_js_av check_declared_Nil foldl_declared_Nil
        list_all_iff simp del: av_to_js.simps)

lemma check_order_Nil: "check_order r d v operator fs = [] \<longleftrightarrow> fs = [] \<and> order_fits d v"
  by (cases v) (auto simp: check_order_def order_fits_def DateAnswerValue_js_av simp del: av_to_js.simps)

lemma check_contains_Nil: "check_contains r d opts operator fs = [] \<longleftrightarrow> fs = [] \<and> options_fit d opts"
  by (auto simp: check_contains_def options_fit_def foldl_declared_Nil)

lemma with_question_Nil:
  assumes "\<And>d fs. check d fs = [] \<longleftrightarrow> fs = [] \<and> P d"
  shows "with_question res q check fs = [] \<longleftrightarrow> fs = [] \<and> (\<forall>d. res q = Some d \<longrightarrow> P d)"
  by (auto simp: with_question_def assms split: option.splits)

lemmas leaf_checks = with_question_Nil [OF checkValue_Nil] with_question_Nil [OF check_order_Nil]
  with_question_Nil [OF check_contains_Nil]

lemma checkCondition_Nil: "checkCondition res r c fs = [] \<longleftrightarrow> fs = [] \<and> well_typed res c"
proof (induction c arbitrary: fs)
  case (CAnd cs)
  then show ?case by (auto simp: foldl_Nil_iff [where P = "well_typed res"])
next
  case (COr cs)
  then show ?case by (auto simp: foldl_Nil_iff [where P = "well_typed res"])
next
  case (CIn q vs)
  have "foldl (\<lambda>fs v. checkValue r d v ''in'' fs) fs vs = [] \<longleftrightarrow> fs = [] \<and> (\<forall>v \<in> set vs. value_fits d v)" for d fs
    by (rule foldl_Nil_iff) (simp add: checkValue_Nil)
  from with_question_Nil [OF this] show ?case by auto
next
  case (CAnswered q)
  then show ?case by (simp add: with_question_def split: option.split)
qed (auto simp: leaf_checks)

lemma checkRuleTypes_Nil_iff [check_simps]:
  "checkRuleTypes f res = [] \<longleftrightarrow> (\<forall>r \<in> set (f_rules f). well_typed res (rule_when r))"
  using foldl_Nil_iff [where P = "\<lambda>r. well_typed res (rule_when r)"
      and f = "\<lambda>fs rule. checkCondition res (ruleId rule) (rule_when rule) fs" and fs = "[]"]
  by (simp add: checkRuleTypes_def checkCondition_Nil)

end
