(* ===== verification/TypeSafety.thy ===== *)
theory TypeSafety
  imports Visibility RuleTypes
begin

text \<open>
  Type safety of evaluation: a form whose conditions type check against the resolved
  questions, evaluated on answers that were validated, never meets an operand it cannot
  compare, so the evaluator returns a flow state.
\<close>

text \<open>Every answer the evaluator can see has the type of its question.\<close>

definition answers_typed :: "resolve_question \<Rightarrow> eval_env \<Rightarrow> bool" where
  "answers_typed res env \<longleftrightarrow>
     (\<forall>S q scope a. QuestionId q \<longrightarrow> valid_scope scope \<longrightarrow> effective env S q scope = Some a \<longrightarrow>
        (\<exists>d. res q = Some d \<and> answer_typed (q_type d) a))"

lemma compare_fits:
  assumes "order_fits d v" "answer_typed (q_type d) a" "comparable_value v"
  shows "\<exists>ord. compareValues a v = Inr ord"
  using assms
  by (cases "q_type d")
     (auto simp: order_fits_def answer_typed_def comparable_value_def compareValues_def ok_def)

lemma compare_progress:
  assumes "answers_typed res env" "QuestionId q" "valid_scope scope"
    "\<forall>d. res q = Some d \<longrightarrow> order_fits d v" "comparable_value v"
  shows "\<exists>b. compare_answer r operator test q (effective env S q scope) v = Inr b"
proof (cases "effective env S q scope")
  case None
  then show ?thesis by (auto simp: compare_answer_def ok_def intro: exI [of _ False])
next
  case (Some a)
  with assms(1-3) obtain d where "res q = Some d" "answer_typed (q_type d) a"
    unfolding answers_typed_def by blast
  with compare_fits [of d v a] assms(4,5) Some show ?thesis by (auto simp: compare_answer_def ok_def)
qed

lemma contains_progress:
  assumes "answers_typed res env" "QuestionId q" "valid_scope scope"
    "\<forall>d. res q = Some d \<longrightarrow> options_fit d opts"
  shows "\<exists>b. contains_option r operator q (effective env S q scope) opts' = Inr b"
proof (cases "effective env S q scope")
  case None
  then show ?thesis by (auto simp: contains_option_def ok_def intro: exI [of _ False])
next
  case (Some a)
  with assms(1-3) obtain d where "res q = Some d" "answer_typed (q_type d) a"
    unfolding answers_typed_def by blast
  with assms(4) Some show ?thesis
    by (auto simp: contains_option_def ok_def options_fit_def answer_typed_def)
qed

lemma evaluation_progress:
  assumes typed: "answers_typed res env" and vr: "valid_rosters (e_rosterOf env)"
  shows "ConditionNode_shape (e_nfc env) c \<Longrightarrow> well_typed res c \<Longrightarrow> valid_scope scope \<Longrightarrow>
    \<exists>b. evalCondition env S r c scope = Inr b"
proof (induction c arbitrary: scope)
  case (CAnd cs)
  have "\<exists>b. all_ok (\<lambda>child. evalCondition env S r child scope) cs' = Inr b" if "set cs' \<subseteq> set cs" for cs'
    using that
  proof (induction cs')
    case (Cons c cs')
    with CAnd have "\<exists>b. evalCondition env S r c scope = Inr b" by auto
    with Cons show ?case by auto
  qed (auto intro: exI [of _ True] exI [of _ False])
  then show ?case by simp
next
  case (COr cs)
  have "\<exists>b. any_ok (\<lambda>child. evalCondition env S r child scope) cs' = Inr b" if "set cs' \<subseteq> set cs" for cs'
    using that
  proof (induction cs')
    case (Cons c cs')
    with COr have "\<exists>b. evalCondition env S r c scope = Inr b" by auto
    with Cons show ?case by auto
  qed (auto intro: exI [of _ True] exI [of _ False])
  then show ?case by simp
next
  case (CNot c)
  then obtain b where "evalCondition env S r c scope = Inr b" by auto
  then show ?case by (simp add: ok_def)
next
  case (CAnyInstance g c)
  have "\<exists>b. any_ok (\<lambda>i. evalCondition env S r c (withInstance scope g i)) is' = Inr b"
    if "set is' \<subseteq> set (e_rosterOf env g)" for is'
    using that
  proof (induction is')
    case (Cons i is')
    with vr have "InstanceId i" by (auto simp: valid_rosters_def list_all_iff)
    with CAnyInstance have "\<exists>b. evalCondition env S r c (withInstance scope g i) = Inr b"
      by (auto intro: valid_scope_with)
    with Cons show ?case by auto
  qed (auto intro: exI [of _ True] exI [of _ False])
  then show ?case by simp
next
  case (CEveryInstance g c)
  have "\<exists>b. all_ok (\<lambda>i. evalCondition env S r c (withInstance scope g i)) is' = Inr b"
    if "set is' \<subseteq> set (e_rosterOf env g)" for is'
    using that
  proof (induction is')
    case (Cons i is')
    with vr have "InstanceId i" by (auto simp: valid_rosters_def list_all_iff)
    with CEveryInstance have "\<exists>b. evalCondition env S r c (withInstance scope g i) = Inr b"
      by (auto intro: valid_scope_with)
    with Cons show ?case by auto
  qed (auto intro: exI [of _ True] exI [of _ False])
  then show ?case by (auto simp: ok_def Let_def)
qed (use typed in \<open>auto simp: ok_def intro: compare_progress contains_progress split: option.splits\<close>)

section \<open>Validated answers are typed\<close>

text \<open>
  What the proofs use of Unicode normalization: it is idempotent and leaves ASCII alone.
\<close>

definition ascii :: "string \<Rightarrow> bool" where
  "ascii s \<longleftrightarrow> list_all (\<lambda>c. (of_char c :: nat) < 128) s"

definition unicode_nfc :: "normalizer \<Rightarrow> bool" where
  "unicode_nfc nfc \<longleftrightarrow> (\<forall>s. nfc (nfc s) = nfc s) \<and> (\<forall>s. ascii s \<longrightarrow> nfc s = s)"

lemma ascii_OptionId: "OptionId s \<Longrightarrow> ascii s"
  by (fastforce simp: OptionId_def idPattern_iff ascii_def list_all_iff id_char_def Let_def)

lemma ascii_date: "DateAnswerValue s \<Longrightarrow> ascii s"
  unfolding DateAnswerValue_def
  by (elim conjE date_shape_split) (fastforce simp: ascii_def list_all_iff is_digit_def)

lemma encode_as_canonical:
  assumes "encode_as nfc ty value = Some v" "unicode_nfc nfc"
  shows "canonical_value nfc v"
  using assms
  by (cases ty)
     (auto simp: encode_as_def canonical_value_def unicode_nfc_def MultiChoiceAnswerValue_iff list_all_iff
        SingleChoiceAnswerValue_def DateAnswerValue_js_def ascii_OptionId ascii_date
        simp del: MultiChoiceAnswerValue.simps
        elim!: TextAnswerValue.elims NumberAnswerValue.elims BooleanAnswerValue.elims split: if_splits)

definition validated_answers ::
  "normalizer \<Rightarrow> regex_engine \<Rightarrow> resolve_question \<Rightarrow> form_definition \<Rightarrow> roster_map \<Rightarrow> answer_map \<Rightarrow> bool" where
  "validated_answers nfc regex res f rs answers \<longleftrightarrow>
     (\<forall>(k, q) \<in> set (answer_keys (documentOrder f) (rosterOf rs)). \<forall>raw. answers k = Some raw \<longrightarrow>
        (\<exists>d x v. res q = Some d \<and> validateAnswer nfc regex d x = Inr v \<and> raw = av_to_js v))"

lemma answer_keys_key:
  assumes "(k, q) \<in> set (answer_keys order ros)" "\<And>p. p \<in> set order \<Longrightarrow> QuestionId (dp_question p)"
    "valid_rosters ros"
  shows "\<exists>inst. k = answerKey q inst \<and> valid_key_parts (inst, q)"
proof -
  have that_key: "\<exists>p. p \<in> set order \<and> q = dp_question p \<and> (k = q \<or> (\<exists>g i. i \<in> set (ros g) \<and> k = answerKey q (Some i)))"
    using assms(1) by (fastforce simp: answer_keys_def split: option.splits)
  then obtain p where p: "p \<in> set order" "q = dp_question p"
    "(k = q) \<or> (\<exists>g i. i \<in> set (ros g) \<and> k = answerKey q (Some i))"
    using that_key by blast
  with assms(2,3) show ?thesis
    by (auto simp: valid_key_parts_def valid_rosters_def list_all_iff
        intro: exI [of _ None] exI [of _ "Some _"])
qed

lemma keyOf_valid:
  assumes "keyOf env q scope = Some k" "QuestionId q" "valid_scope scope"
  shows "\<exists>inst. k = answerKey q inst \<and> valid_key_parts (inst, q)"
  using assms
  by (auto simp: keyOf_def valid_key_parts_def valid_scope_def split: option.splits
      intro: exI [of _ None] exI [of _ "Some _"])

lemma validated_answers_typed:
  assumes "validated_answers nfc regex res f rs answers" "unicode_nfc nfc"
    "FormDefinition_shape nfc f" "valid_rosters (rosterOf rs)"
  shows "answers_typed res (form_env nfc f answers rs)"
  unfolding answers_typed_def
proof (intro allI impI)
  fix S q scope a
  assume q: "QuestionId q" and scope: "valid_scope scope"
    and eff: "effective (form_env nfc f answers rs) S q scope = Some a"
  then obtain k where k: "keyOf (form_env nfc f answers rs) q scope = Some k"
    "map_of (e_canonical (form_env nfc f answers rs)) k = Some a"
    by (auto simp: effective_def split: option.splits if_splits)
  then obtain q' where q': "(k, q') \<in> set (answer_keys (documentOrder f) (rosterOf rs))"
    "present nfc answers k = Some a"
    by (auto simp: canonical_env split: if_splits)
  from answer_keys_key [OF q'(1) shape_ids(1) [OF assms(3)] assms(4)] keyOf_valid [OF k(1) q scope]
  have "q' = q" by (auto simp: answerKey_eq_iff)
  from q'(2) obtain raw where raw: "answers k = Some raw" "AnswerValue nfc raw = Some a"
    by (auto simp: present_def split: option.splits if_splits)
  with assms(1) q'(1) \<open>q' = q\<close> obtain d x v where
    v: "res q = Some d" "validateAnswer nfc regex d x = Inr v" "raw = av_to_js v"
    by (fastforce simp: validated_answers_def)
  then have enc: "encode_as nfc (q_type d) x = Some v" by (simp add: validateAnswer_Inr_iff)
  from encode_as_canonical [OF enc assms(2)] raw(2) v(3) have "a = v"
    by (simp add: canonical_value_fixed)
  with encode_as_typed [OF enc] v(1) show "\<exists>d. res q = Some d \<and> answer_typed (q_type d) a" by blast
qed

section \<open>Evaluation succeeds\<close>

lemma fold_ok_total:
  assumes "\<And>x s. x \<in> set xs \<Longrightarrow> \<exists>s'. f x s = Inr s'"
  shows "\<exists>s'. fold_ok f xs s = Inr s'"
  using assms
proof (induction xs arbitrary: s)
  case (Cons x xs)
  then obtain s1 where "f x s = Inr s1" by (meson list.set_intros(1))
  with Cons show ?case by simp
qed simp

lemma any_ok_total:
  assumes "\<And>x. x \<in> set xs \<Longrightarrow> \<exists>b. f x = Inr b"
  shows "\<exists>b. any_ok f xs = Inr b"
  using assms
proof (induction xs)
  case (Cons x xs)
  then obtain b where "f x = Inr b" by (meson list.set_intros(1))
  with Cons show ?case by (cases b) auto
qed (auto intro: exI [of _ False])

lemma walk_form_total:
  assumes typed: "answers_typed res env" and vr: "valid_rosters (e_rosterOf env)"
    and shape: "FormDefinition_shape (e_nfc env) f"
    and wt: "\<forall>r \<in> set (f_rules f). well_typed res (rule_when r)"
  shows "\<exists>st. walk_form env f = Inr st"
proof -
  have rules: "\<exists>b. anyRuleTrue env S (targeting f t) scope = Inr b" if "valid_scope scope" for S t scope
    unfolding anyRuleTrue_def
    by (rule any_ok_total, rule evaluation_progress [OF typed vr])
       (use shape_ids(3) [OF shape] wt that in \<open>auto simp: targeting_def\<close>)
  have question: "\<exists>st'. walkQuestion env (question_rules f) sid q inst scope st = Inr st'"
    if "valid_scope scope" for sid q inst scope st
  proof (cases "map_of (question_rules f) q")
    case None
    then show ?thesis by (simp add: walkQuestion_def ok_def)
  next
    case (Some ts)
    then have "ts = targeting f q"
      by (auto simp: targeting_rules_question nonempty_def split: if_splits)
    with rules [OF that, of "settled st" q] Some show ?thesis
      by (auto simp: walkQuestion_def ok_def Let_def)
  qed
  have pos: "\<exists>st'. walk_position env (question_rules f) p st = Inr st'" for p st
    unfolding walk_position_def
    by (rule fold_ok_total) (use question pos_scope_valid [OF vr] in auto)
  have "\<exists>st'. walk_step env (fst (targeting_rules f)) (question_rules f) s st = Inr st'" for s st
  proof (cases "map_of (fst (targeting_rules f)) (stepId s)")
    case None
    with fold_ok_total [OF pos] show ?thesis by (simp add: walk_step_positions)
  next
    case (Some ts)
    then have "ts = targeting f (stepId s)"
      by (auto simp: targeting_rules_step nonempty_def split: if_splits)
    with rules [of "[]" "settled st" "stepId s"] obtain b where
      "anyRuleTrue env (settled st) ts [] = Inr b" by auto
    with Some fold_ok_total [OF pos] show ?thesis by (cases b) (simp_all add: walk_step_positions)
  qed
  then show ?thesis
    by (simp add: walk_form_def split_def Let_def fold_ok_total)
qed

lemma evaluate_form_succeeds:
  assumes "FormDefinition_shape nfc f" "checkRuleTypes f res = []"
    "\<forall>q \<in> set (form_pins f). res q \<noteq> None"
    "validated_answers nfc regex res f rs answers" "unicode_nfc nfc" "valid_rosters (rosterOf rs)"
  shows "\<exists>flow. evaluate_form nfc f answers res rs = Inr flow"
proof -
  have "answers_typed res (form_env nfc f answers rs)"
    by (rule validated_answers_typed [OF assms(4,5,1,6)])
  then obtain st where st: "walk_form (form_env nfc f answers rs) f = Inr st"
    using walk_form_total [of res "form_env nfc f answers rs" f] assms(1,2,6)
    by (auto simp: checkRuleTypes_Nil_iff)
  have "AnswerValue nfc raw \<noteq> None"
    if "(k, q) \<in> set (answer_keys (documentOrder f) (rosterOf rs))" "answers k = Some raw" for k q raw
  proof -
    from assms(4) that obtain d x v where "validateAnswer nfc regex d x = Inr v" "raw = av_to_js v"
      by (fastforce simp: validated_answers_def)
    then have "encode_as nfc (q_type d) x = Some v" "raw = av_to_js v" by (simp_all add: validateAnswer_Inr_iff)
    with encode_as_canonical [OF _ assms(5)] show ?thesis by (metis canonical_value_fixed option.discI)
  qed
  with assms(3) st show ?thesis by (auto simp: evaluate_form_Inr_iff)
qed

end
