(* ===== verification/CompileDraft.thy ===== *)
theory CompileDraft
  imports TypeSafety
begin

text \<open>
  \<^verbatim>\<open>packages/core/src/compile-draft.ts\<close>: the atomic publish call. It runs every check on a
  draft, reports every error, and on success freezes the definition with the question version
  each pin resolved to. A snapshot is an immutable value here, so the deep clone and the
  freeze are the identity.
\<close>

definition SNAPSHOT_SCHEMA_VERSION :: int where
  "SNAPSHOT_SCHEMA_VERSION = 2"

record draft_input =
  d_definition :: form_definition
  d_resolveQuestion :: "question_id \<Rightarrow> int \<Rightarrow> question_version_record option"
  publishedQuestionVersions :: "question_id \<Rightarrow> int set option"

type_synonym resolved_pins = "(question_id \<times> question_version_record) list"

section \<open>Structure\<close>

definition checkRepeatBounds :: "repeat_group \<Rightarrow> step_id \<Rightarrow> publish_error list" where
  "checkRepeatBounds g sid =
     (case countBounds (g_count g) of
        (mn, None) \<Rightarrow> [REPEAT_MAX_MISSING (groupId g) sid]
      | (mn, Some mx) \<Rightarrow> if mx < mn then [REPEAT_MIN_ABOVE_MAX (groupId g) sid] else [])"

definition checkInstanceLabel :: "repeat_group \<Rightarrow> publish_error list" where
  "checkInstanceLabel g =
     concat (map (\<lambda>(loc, template).
       concat (map (\<lambda>placeholder.
         if placeholder \<noteq> INSTANCE_LABEL_PLACEHOLDER
         then [INSTANCE_LABEL_PLACEHOLDER_UNKNOWN (groupId g) loc placeholder] else [])
         (labelPlaceholders template))) (instanceLabel g))"

record structure_state =
  st_steps :: "step_id list"
  st_questions :: "question_id list"
  st_groups :: "group_id list"
  st_errors :: "publish_error list"

definition push_errors :: "publish_error list \<Rightarrow> structure_state \<Rightarrow> structure_state" where
  "push_errors es st = st\<lparr>st_errors := st_errors st @ es\<rparr>"

definition structure_pin :: "step_id \<Rightarrow> structure_state \<Rightarrow> question_id \<Rightarrow> structure_state" where
  "structure_pin sid st q =
     (if q \<in> set (st_questions st) then push_errors [DUPLICATE_QUESTION_IN_FORM sid q] st
      else st\<lparr>st_questions := q # st_questions st\<rparr>)"

definition structure_group :: "step_id \<Rightarrow> group_id \<Rightarrow> structure_state \<Rightarrow> structure_state" where
  "structure_group sid g st =
     (if g \<in> set (st_groups st) then push_errors [DUPLICATE_GROUP_ID g sid] st
      else st\<lparr>st_groups := g # st_groups st\<rparr>)"

definition structure_item :: "step_id \<Rightarrow> structure_state \<Rightarrow> step_item \<Rightarrow> structure_state" where
  "structure_item sid st item =
     (case item of
        QuestionItem r \<Rightarrow> structure_pin sid st (ref_questionId r)
      | GroupItem g \<Rightarrow>
          let st1 = structure_group sid (groupId g) st;
              st2 = (if list_ex (\<lambda>member. ref_groupId member \<noteq> None) (g_items g)
                     then push_errors [REPEAT_NESTING_NOT_ALLOWED (groupId g) sid] st1 else st1);
              st3 = foldl (\<lambda>st member. structure_pin sid st (ref_questionId member)) st2 (g_items g) in
          push_errors (checkRepeatBounds g sid @ checkInstanceLabel g) st3)"

definition structure_step :: "structure_state \<Rightarrow> step \<Rightarrow> structure_state" where
  "structure_step st s =
     foldl (structure_item (stepId s))
       (if stepId s \<in> set (st_steps st) then push_errors [DUPLICATE_STEP_ID (stepId s)] st
        else st\<lparr>st_steps := stepId s # st_steps st\<rparr>)
       (s_items s)"

definition checkStructure :: "form_definition \<Rightarrow> publish_error list" where
  "checkStructure definition =
     st_errors (foldl structure_step \<lparr>st_steps = [], st_questions = [], st_groups = [], st_errors = []\<rparr>
       (f_steps definition))
     @ concat (map (\<lambda>rule. if depth_exceeded (rule_when rule) then [RULE_DEPTH_EXCEEDED (ruleId rule)] else [])
         (f_rules definition))"

section \<open>Pins and references\<close>

definition checkRepeatCountTypes :: "form_definition \<Rightarrow> resolved_pins \<Rightarrow> publish_error list" where
  "checkRepeatCountTypes definition resolved =
     concat (map (\<lambda>step. concat (map (\<lambda>item.
       case item of
         GroupItem g \<Rightarrow>
           (case g_count g of
              FromAnswer q _ _ \<Rightarrow>
                (case map_of resolved q of
                   None \<Rightarrow> []
                 | Some record \<Rightarrow>
                     if q_type (rec_definition record) = TNumber then []
                     else [REPEAT_COUNT_NOT_A_NUMBER (groupId g) q])
            | _ \<Rightarrow> [])
       | QuestionItem _ \<Rightarrow> []) (s_items step))) (f_steps definition))"

definition checkTableColumnTypes :: "form_definition \<Rightarrow> resolved_pins \<Rightarrow> publish_error list" where
  "checkTableColumnTypes definition resolved =
     concat (map (\<lambda>step. concat (map (\<lambda>item.
       case item of
         GroupItem g \<Rightarrow>
           if presentation g \<noteq> Table then []
           else concat (map (\<lambda>member.
             case map_of resolved (ref_questionId member) of
               None \<Rightarrow> []
             | Some record \<Rightarrow>
                 if isTableColumnType (type_name (q_type (rec_definition record))) then []
                 else [TABLE_COLUMN_TYPE_NOT_ALLOWED (groupId g) (ref_questionId member) (stepId step)
                         (type_name (q_type (rec_definition record)))]) (g_items g))
       | QuestionItem _ \<Rightarrow> []) (s_items step))) (f_steps definition))"

definition resolve_pin ::
  "draft_input \<Rightarrow> step_id \<Rightarrow> publish_error list \<times> resolved_pins \<Rightarrow> question_ref \<Rightarrow>
     publish_error list \<times> resolved_pins" where
  "resolve_pin draft sid st item =
     (let (errors, resolved) = st; q = ref_questionId item; version = ref_version item in
      case d_resolveQuestion draft q version of
        None \<Rightarrow> (errors @ [DANGLING_QUESTION_REF q (Some sid) None], resolved)
      | Some record \<Rightarrow>
          if rec_questionId record \<noteq> q \<or> rec_version record \<noteq> version
          then (errors @ [DANGLING_QUESTION_REF q (Some sid) None], resolved)
          else
            (errors @
               (if (case publishedQuestionVersions draft q of None \<Rightarrow> False | Some vs \<Rightarrow> version \<in> vs)
                then [] else [UNPUBLISHED_QUESTION_PIN sid q version]),
             if map_of resolved q = None then resolved @ [(q, record)] else resolved))"

definition resolvePins :: "draft_input \<Rightarrow> publish_error list \<times> resolved_pins" where
  "resolvePins draft =
     foldl (\<lambda>st step. foldl (resolve_pin draft (stepId step)) st (stepQuestionRefs step)) ([], [])
       (f_steps (d_definition draft))"

definition rule_resolution ::
  "question_id list \<Rightarrow> step_id list \<Rightarrow> group_id list \<Rightarrow> visibility_rule \<Rightarrow> publish_error list" where
  "rule_resolution pinned steps groups rule =
     concat (map (\<lambda>g. if g \<notin> set groups then [DANGLING_GROUP_REF (ruleId rule) g] else [])
       (ruleGroupReferences rule))
     @ concat (map (\<lambda>q. if q \<notin> set pinned then [DANGLING_QUESTION_REF q None (Some (ruleId rule))] else [])
         (ruleReferences rule))
     @ concat (map (\<lambda>target.
         if isStepId target
         then (if target \<notin> set steps then [DANGLING_STEP_REF (ruleId rule) target] else [])
         else (if target \<notin> set pinned then [DANGLING_QUESTION_REF target None (Some (ruleId rule))] else []))
         (rule_show rule))"

definition count_resolution :: "question_id list \<Rightarrow> step \<Rightarrow> publish_error list" where
  "count_resolution pinned step =
     concat (map (\<lambda>item.
       case item of
         GroupItem g \<Rightarrow>
           (case g_count g of
              FromAnswer q _ _ \<Rightarrow>
                if q \<notin> set pinned then [DANGLING_QUESTION_REF q (Some (stepId step)) None] else []
            | _ \<Rightarrow> [])
       | QuestionItem _ \<Rightarrow> []) (s_items step))"

definition checkRuleResolution :: "form_definition \<Rightarrow> publish_error list" where
  "checkRuleResolution definition =
     (let pinned = map dp_question (documentOrder definition);
          steps = map stepId (f_steps definition);
          groups = map groupId (repeatGroups (f_steps definition)) in
      concat (map (count_resolution pinned) (f_steps definition))
      @ concat (map (rule_resolution pinned steps groups) (f_rules definition)))"

section \<open>Texts\<close>

record text_site =
  ts_text :: localized_text
  ts_path :: text_path

definition no_path :: text_path where
  "no_path = \<lparr>tp_step = None, tp_group = None, tp_question = None, tp_option = None\<rparr>"

definition site_at :: "text_path \<Rightarrow> localized_text option \<Rightarrow> text_site list" where
  "site_at path text = (case text of None \<Rightarrow> [] | Some t \<Rightarrow> [\<lparr>ts_text = t, ts_path = path\<rparr>])"

definition message_of :: "question_definition \<Rightarrow> validation_message_key \<Rightarrow> localized_text option" where
  "message_of q key = (case messages q of None \<Rightarrow> None | Some ms \<Rightarrow> map_of ms key)"

definition option_sites :: "question_id \<Rightarrow> choice_option list \<Rightarrow> text_site list" where
  "option_sites q options =
     map (\<lambda>opt. \<lparr>ts_text = opt_label opt,
                   ts_path = no_path\<lparr>tp_question := Some q, tp_option := Some (optionId opt)\<rparr>\<rparr>) options"

definition questionTextSites :: "question_definition \<Rightarrow> text_site list" where
  "questionTextSites question =
     (let path = no_path\<lparr>tp_question := Some (questionId question)\<rparr> in
      site_at path (Some (q_label question))
      @ site_at path (q_help question)
      @ concat (map (\<lambda>key. site_at path (message_of question key)) VALIDATION_MESSAGE_KEYS)
      @ (case body question of BooleanQ y n \<Rightarrow> site_at path y @ site_at path n | _ \<Rightarrow> [])
      @ (case body question of
           SingleChoice options \<Rightarrow> option_sites (questionId question) options
         | MultiChoice options _ _ \<Rightarrow> option_sites (questionId question) options
         | _ \<Rightarrow> []))"

definition step_sites :: "step \<Rightarrow> text_site list" where
  "step_sites step =
     site_at (no_path\<lparr>tp_step := Some (stepId step)\<rparr>) (Some (s_title step))
     @ concat (map (\<lambda>item.
         case item of
           GroupItem g \<Rightarrow>
             (let path = no_path\<lparr>tp_step := Some (stepId step), tp_group := Some (groupId g)\<rparr> in
              site_at path (Some (g_label g)) @ site_at path (Some (instanceLabel g)))
         | QuestionItem _ \<Rightarrow> []) (s_items step))"

definition textSites :: "form_definition \<Rightarrow> resolved_pins \<Rightarrow> text_site list" where
  "textSites definition resolved =
     site_at no_path (Some (f_title definition))
     @ concat (map step_sites (f_steps definition))
     @ concat (map (\<lambda>(q, record). questionTextSites (rec_definition record)) resolved)"

definition checkLocaleCompleteness :: "form_definition \<Rightarrow> text_site list \<Rightarrow> publish_error list" where
  "checkLocaleCompleteness definition sites =
     concat (map (\<lambda>site.
       if \<not> isCompleteFor (ts_text site) (defaultLocale definition)
       then [LOCALE_INCOMPLETE (defaultLocale definition) (ts_path site)] else []) sites)"

definition checkBlankText :: "text_site list \<Rightarrow> publish_error list" where
  "checkBlankText sites =
     concat (map (\<lambda>site. concat (map (\<lambda>(loc, value).
       if js_trim value = [] then [BLANK_LOCALIZED_TEXT loc (ts_path site)] else []) (ts_text site))) sites)"

definition checkAuthoredMessages :: "resolved_pins \<Rightarrow> publish_error list" where
  "checkAuthoredMessages resolved =
     concat (map (\<lambda>(q, record).
       let question = rec_definition record in
       case messages question of
         None \<Rightarrow> []
       | Some ms \<Rightarrow>
           concat (map (\<lambda>key.
             if map_of ms key \<noteq> None \<and> key \<notin> set (authoredMessageKeys question)
             then [ORPHAN_MESSAGE_KEY (questionId question) key] else []) VALIDATION_MESSAGE_KEYS)) resolved)"

section \<open>Warnings\<close>

definition first_steps :: "doc_position list \<Rightarrow> (question_id \<times> step_id) list" where
  "first_steps order =
     foldl (\<lambda>m e. if map_of m (dp_question e) = None then m @ [(dp_question e, dp_step e)] else m) [] order"

definition checkMultiChoiceSameStepTargets ::
  "form_definition \<Rightarrow> resolved_pins \<Rightarrow> publish_warning list" where
  "checkMultiChoiceSameStepTargets definition resolved =
     (let stepOf = first_steps (documentOrder definition) in
      concat (map (\<lambda>rule. concat (map (\<lambda>q.
        case map_of resolved q of
          None \<Rightarrow> []
        | Some record \<Rightarrow>
            if q_type (rec_definition record) \<noteq> TMultiChoice then []
            else
              (case map_of stepOf q of
                 None \<Rightarrow> []
               | Some step \<Rightarrow>
                   concat (map (\<lambda>target.
                     if isStepId target \<or> map_of stepOf target \<noteq> Some step then []
                     else [MULTICHOICE_SAME_STEP_TARGET (ruleId rule) q target step]) (rule_show rule))))
        (ruleReferences rule))) (f_rules definition)))"

definition checkPatternAmbiguity ::
  "(string \<Rightarrow> bool) \<Rightarrow> (string \<Rightarrow> bool) \<Rightarrow> resolved_pins \<Rightarrow> publish_warning list" where
  "checkPatternAmbiguity compiles_u compiles_v resolved =
     concat (map (\<lambda>(q, record).
       case body (rec_definition record) of
         ShortText _ _ (Some pattern) \<Rightarrow>
           (case classSetAmbiguity compiles_u compiles_v pattern of
              None \<Rightarrow> []
            | Some _ \<Rightarrow> [PATTERN_CLASS_SET_AMBIGUOUS (questionId (rec_definition record))])
       | _ \<Rightarrow> []) resolved)"

section \<open>Publish\<close>

definition pinned_question :: "resolved_pins \<Rightarrow> resolve_question" where
  "pinned_question resolved q = map_option rec_definition (map_of resolved q)"

definition draft_errors :: "draft_input \<Rightarrow> publish_error list" where
  "draft_errors draft =
     (let definition = d_definition draft;
          (pinErrors, resolved) = resolvePins draft;
          sites = textSites definition resolved in
      checkStructure definition
      @ pinErrors
      @ checkRuleResolution definition
      @ analyzeRuleGraph definition
      @ checkRuleTypes definition (pinned_question resolved)
      @ checkRepeatCountTypes definition resolved
      @ checkTableColumnTypes definition resolved
      @ checkLocaleCompleteness definition sites
      @ checkBlankText sites
      @ checkAuthoredMessages resolved)"

definition snapshot_questions :: "doc_position list \<Rightarrow> resolved_pins \<Rightarrow> question_version_record list" where
  "snapshot_questions order resolved =
     snd (foldl (\<lambda>(seen, questions) e.
            case map_of resolved (dp_question e) of
              None \<Rightarrow> (seen, questions)
            | Some record \<Rightarrow>
                if dp_question e \<notin> set seen then (dp_question e # seen, questions @ [record])
                else (seen, questions)) ([], []) order)"

definition compileDraft ::
  "(string \<Rightarrow> bool) \<Rightarrow> (string \<Rightarrow> bool) \<Rightarrow> draft_input \<Rightarrow> publish_result" where
  "compileDraft compiles_u compiles_v draft =
     (let definition = d_definition draft;
          resolved = snd (resolvePins draft);
          errors = draft_errors draft in
      if length errors > 0 then err errors
      else
        ok \<lparr>out_snapshot =
              \<lparr>snap_definition = definition,
               snap_questions = snapshot_questions (documentOrder definition) resolved,
               semanticsVersion = SEMANTICS_VERSION,
               schemaVersion = SNAPSHOT_SCHEMA_VERSION\<rparr>,
            out_warnings =
              checkMultiChoiceSameStepTargets definition resolved
              @ checkPatternAmbiguity compiles_u compiles_v resolved\<rparr>)"

end
