(* ===== verification/CompileChecks.thy ===== *)
theory CompileChecks
  imports CompileDraft
begin

text \<open>
  What \<^verbatim>\<open>compileDraft\<close> guarantees: the structural report is empty exactly on an unambiguous form
  with legal groups and bounded conditions; the snapshot holds exactly the pinned versions, each
  published; and a snapshot evaluates on validated answers.
\<close>

section \<open>The structural report\<close>

definition legal_bounds :: "repeat_group \<Rightarrow> bool" where
  "legal_bounds g \<longleftrightarrow> (\<exists>mx. snd (countBounds (g_count g)) = Some mx \<and> fst (countBounds (g_count g)) \<le> mx)"

definition legal_label :: "repeat_group \<Rightarrow> bool" where
  "legal_label g \<longleftrightarrow>
     (\<forall>(loc, template) \<in> set (instanceLabel g). set (labelPlaceholders template) \<subseteq> {INSTANCE_LABEL_PLACEHOLDER})"

definition legal_group :: "repeat_group \<Rightarrow> bool" where
  "legal_group g \<longleftrightarrow>
     (\<forall>m \<in> set (g_items g). ref_groupId m = None) \<and> legal_bounds g \<and> legal_label g"

lemma checkRepeatBounds_Nil_iff [check_simps]: "checkRepeatBounds g sid = [] \<longleftrightarrow> legal_bounds g"
  by (auto simp: checkRepeatBounds_def legal_bounds_def split: prod.splits option.splits)

lemma checkInstanceLabel_Nil_iff [check_simps]: "checkInstanceLabel g = [] \<longleftrightarrow> legal_label g"
  by (fastforce simp: checkInstanceLabel_def legal_label_def split: if_splits)

definition structure_sees ::
  "step_id list \<Rightarrow> question_id list \<Rightarrow> repeat_group list \<Rightarrow> structure_state \<Rightarrow> structure_state \<Rightarrow> bool" where
  "structure_sees ss qs gs st st' \<longleftrightarrow>
     set (st_steps st') = set ss \<union> set (st_steps st) \<and>
     set (st_questions st') = set qs \<union> set (st_questions st) \<and>
     set (st_groups st') = groupId ` set gs \<union> set (st_groups st) \<and>
     (st_errors st' = [] \<longleftrightarrow> st_errors st = [] \<and> (\<forall>g \<in> set gs. legal_group g) \<and>
        fresh ss (st_steps st) \<and> fresh qs (st_questions st) \<and> fresh (map groupId gs) (st_groups st))"

lemma structure_sees_refl: "structure_sees [] [] [] st st"
  by (simp add: structure_sees_def)

lemma structure_sees_trans:
  assumes "structure_sees ss qs gs st st1" "structure_sees ss' qs' gs' st1 st2"
  shows "structure_sees (ss @ ss') (qs @ qs') (gs @ gs') st st2"
proof -
  note * = assms [unfolded structure_sees_def]
  from * have "fresh (ss @ ss') (st_steps st) \<longleftrightarrow> fresh ss (st_steps st) \<and> fresh ss' (st_steps st1)"
    "fresh (qs @ qs') (st_questions st) \<longleftrightarrow> fresh qs (st_questions st) \<and> fresh qs' (st_questions st1)"
    "fresh (map groupId gs @ map groupId gs') (st_groups st) \<longleftrightarrow>
       fresh (map groupId gs) (st_groups st) \<and> fresh (map groupId gs') (st_groups st1)"
    by (simp_all add: fresh_append)
  with * show ?thesis unfolding structure_sees_def by (simp add: ball_Un image_Un Un_ac conj_ac)
qed

lemma structure_sees_pin: "structure_sees [] [q] [] st (structure_pin sid st q)"
  by (auto simp: structure_sees_def fresh_def structure_pin_def push_errors_def)

lemma structure_sees_pins:
  "structure_sees [] (map ref_questionId ms) []
     st (foldl (\<lambda>st member. structure_pin sid st (ref_questionId member)) st ms)"
proof (induction ms arbitrary: st)
  case (Cons m ms)
  from structure_sees_trans [OF structure_sees_pin Cons.IH] show ?case by simp
qed (simp add: structure_sees_refl)

lemma structure_item_group:
  "structure_item sid st (GroupItem g) =
     push_errors (checkRepeatBounds g sid @ checkInstanceLabel g)
       (foldl (\<lambda>st member. structure_pin sid st (ref_questionId member))
         (push_errors (if list_ex (\<lambda>member. ref_groupId member \<noteq> None) (g_items g)
            then [REPEAT_NESTING_NOT_ALLOWED (groupId g) sid] else []) (structure_group sid (groupId g) st))
         (g_items g))"
  by (simp add: structure_item_def Let_def push_errors_def)

lemma structure_sees_item:
  "structure_sees [] (map ref_questionId (item_refs item)) (item_groups item) st (structure_item sid st item)"
proof (cases item)
  case (QuestionItem r)
  then show ?thesis by (simp add: structure_item_def structure_sees_pin)
next
  case (GroupItem g)
  define st1 where "st1 = push_errors (if list_ex (\<lambda>member. ref_groupId member \<noteq> None) (g_items g)
      then [REPEAT_NESTING_NOT_ALLOWED (groupId g) sid] else []) (structure_group sid (groupId g) st)"
  define st2 where "st2 = foldl (\<lambda>st member. structure_pin sid st (ref_questionId member)) st1 (g_items g)"
  have st1: "st_steps st1 = st_steps st" "st_questions st1 = st_questions st"
    "set (st_groups st1) = insert (groupId g) (set (st_groups st))"
    "st_errors st1 = [] \<longleftrightarrow> st_errors st = [] \<and> groupId g \<notin> set (st_groups st) \<and>
       (\<forall>m \<in> set (g_items g). ref_groupId m = None)"
    by (auto simp: st1_def structure_group_def push_errors_def list_ex_iff)
  have st2: "structure_sees [] (map ref_questionId (g_items g)) [] st1 st2"
    unfolding st2_def by (rule structure_sees_pins)
  have push: "st_errors (push_errors es st') = [] \<longleftrightarrow> st_errors st' = [] \<and> es = []"
    "st_steps (push_errors es st') = st_steps st'" "st_questions (push_errors es st') = st_questions st'"
    "st_groups (push_errors es st') = st_groups st'" for es st'
    by (simp_all add: push_errors_def)
  have fresh1: "fresh [x] seen \<longleftrightarrow> x \<notin> set seen" for x :: string and seen
    by (simp add: fresh_def)
  show ?thesis
    using st2
    unfolding GroupItem structure_item_group st1_def [symmetric] st2_def [symmetric] structure_sees_def
    by (auto simp: push st1 legal_group_def checkRepeatBounds_Nil_iff checkInstanceLabel_Nil_iff fresh1)
qed

lemma structure_sees_items:
  "structure_sees [] (map ref_questionId (concat (map item_refs items))) (concat (map item_groups items))
     st (foldl (structure_item sid) st items)"
proof (induction items arbitrary: st)
  case (Cons m ms)
  from structure_sees_trans [OF structure_sees_item Cons.IH] show ?case by simp
qed (simp add: structure_sees_refl)

lemma structure_sees_steps:
  "structure_sees (map stepId steps) (concat (map (\<lambda>s. map ref_questionId (stepQuestionRefs s)) steps))
     (repeatGroups steps) st (foldl structure_step st steps)"
proof (induction steps arbitrary: st)
  case (Cons s ss)
  let ?st1 = "if stepId s \<in> set (st_steps st) then push_errors [DUPLICATE_STEP_ID (stepId s)] st
        else st\<lparr>st_steps := stepId s # st_steps st\<rparr>"
  have "structure_sees [stepId s] [] [] st ?st1"
    by (auto simp: structure_sees_def fresh_def push_errors_def)
  from structure_sees_trans [OF structure_sees_trans [OF this structure_sees_items [where sid = "stepId s"]] Cons.IH]
  show ?case by (simp add: stepQuestionRefs_def repeatGroups_def structure_step_def)
qed (simp add: structure_sees_refl repeatGroups_def)

lemma checkStructure_Nil_iff [check_simps]:
  "checkStructure f = [] \<longleftrightarrow>
     unambiguous f \<and> (\<forall>g \<in> set (repeatGroups (f_steps f)). legal_group g) \<and>
     (\<forall>r \<in> set (f_rules f). \<not> depth_exceeded (rule_when r))"
  using structure_sees_steps
    [of "f_steps f" "\<lparr>st_steps = [], st_questions = [], st_groups = [], st_errors = []\<rparr>"]
  by (auto simp: checkStructure_def structure_sees_def unambiguous_def form_pins_def form_groups_def)

section \<open>Pins\<close>

text \<open>The version a pin stands for: what the lookup returns, when it is the one asked for.\<close>

definition pin_record :: "draft_input \<Rightarrow> question_ref \<Rightarrow> question_version_record option" where
  "pin_record draft r =
     (case d_resolveQuestion draft (ref_questionId r) (ref_version r) of
        Some record \<Rightarrow>
          if rec_questionId record = ref_questionId r \<and> rec_version record = ref_version r
          then Some record else None
      | None \<Rightarrow> None)"

definition published_pin :: "draft_input \<Rightarrow> question_ref \<Rightarrow> bool" where
  "published_pin draft r \<longleftrightarrow>
     (\<exists>vs. publishedQuestionVersions draft (ref_questionId r) = Some vs \<and> ref_version r \<in> vs)"

definition form_refs :: "form_definition \<Rightarrow> question_ref list" where
  "form_refs f = concat (map stepQuestionRefs (f_steps f))"

lemma form_pins_refs: "form_pins f = map ref_questionId (form_refs f)"
  by (simp add: form_pins_def form_refs_def map_concat comp_def)

lemma pin_record_Some: "pin_record draft r = Some record \<Longrightarrow>
    d_resolveQuestion draft (ref_questionId r) (ref_version r) = Some record \<and>
    rec_questionId record = ref_questionId r \<and> rec_version record = ref_version r"
  by (auto simp: pin_record_def split: option.splits if_splits)

lemma fst_resolve_pin:
  "fst (resolve_pin draft sid st r) = [] \<longleftrightarrow>
     fst st = [] \<and> pin_record draft r \<noteq> None \<and> published_pin draft r"
  by (auto simp: resolve_pin_def pin_record_def published_pin_def split_def Let_def split: option.splits)

lemma snd_resolve_pin:
  "snd (resolve_pin draft sid st r) =
     (case pin_record draft r of
        None \<Rightarrow> snd st
      | Some record \<Rightarrow>
          if map_of (snd st) (ref_questionId r) = None then snd st @ [(ref_questionId r, record)] else snd st)"
  by (auto simp: resolve_pin_def pin_record_def split_def Let_def split: option.splits)

lemma fst_resolve_refs:
  "fst (foldl (resolve_pin draft sid) st rs) = [] \<longleftrightarrow>
     fst st = [] \<and> (\<forall>r \<in> set rs. pin_record draft r \<noteq> None \<and> published_pin draft r)"
  by (induction rs arbitrary: st) (auto simp: fst_resolve_pin)

lemma fst_resolve_steps:
  "fst (foldl (\<lambda>st step. foldl (resolve_pin draft (stepId step)) st (stepQuestionRefs step)) st steps) = [] \<longleftrightarrow>
     fst st = [] \<and> (\<forall>r \<in> set (concat (map stepQuestionRefs steps)). pin_record draft r \<noteq> None \<and> published_pin draft r)"
  by (induction steps arbitrary: st) (auto simp: fst_resolve_refs)

lemma resolvePins_errors_Nil_iff:
  "fst (resolvePins draft) = [] \<longleftrightarrow>
     (\<forall>r \<in> set (form_refs (d_definition draft)). pin_record draft r \<noteq> None \<and> published_pin draft r)"
  by (simp add: resolvePins_def fst_resolve_steps form_refs_def)

definition pinned_records :: "draft_input \<Rightarrow> question_ref list \<Rightarrow> resolved_pins" where
  "pinned_records draft refs =
     List.map_filter (\<lambda>r. map_option (Pair (ref_questionId r)) (pin_record draft r)) refs"

lemma pinned_records_append: "pinned_records draft (rs @ rs') = pinned_records draft rs @ pinned_records draft rs'"
  by (simp add: pinned_records_def List.map_filter_def)

lemma snd_resolve_refs:
  assumes "distinct (map ref_questionId rs)" "ref_questionId ` set rs \<inter> fst ` set (snd st) = {}"
  shows "snd (foldl (resolve_pin draft sid) st rs) = snd st @ pinned_records draft rs"
  using assms
proof (induction rs arbitrary: st)
  case (Cons r rs)
  have "map_of (snd st) (ref_questionId r) = None"
    using Cons.prems(2) by (auto simp: map_of_eq_None_iff)
  then have step: "snd (resolve_pin draft sid st r) = snd st @ pinned_records draft [r]"
    by (auto simp: snd_resolve_pin pinned_records_def List.map_filter_def split: option.splits)
  have "ref_questionId ` set rs \<inter> fst ` set (snd (resolve_pin draft sid st r)) = {}"
    using Cons.prems
    by (auto simp: step pinned_records_def List.map_filter_def rev_image_eqI)
  with Cons show ?case
    by (simp add: step pinned_records_append [of draft "[r]" rs, simplified])
qed (simp add: pinned_records_def List.map_filter_def)

lemma fst_pinned_records: "fst ` set (pinned_records draft rs) \<subseteq> ref_questionId ` set rs"
  by (auto simp: pinned_records_def set_map_filter)

lemma snd_resolve_steps:
  assumes "distinct (map ref_questionId (concat (map stepQuestionRefs steps)))"
    "ref_questionId ` set (concat (map stepQuestionRefs steps)) \<inter> fst ` set (snd st) = {}"
  shows "snd (foldl (\<lambda>st step. foldl (resolve_pin draft (stepId step)) st (stepQuestionRefs step)) st steps) =
    snd st @ pinned_records draft (concat (map stepQuestionRefs steps))"
  using assms
proof (induction steps arbitrary: st)
  case (Cons s ss)
  have step: "snd (foldl (resolve_pin draft (stepId s)) st (stepQuestionRefs s)) =
      snd st @ pinned_records draft (stepQuestionRefs s)"
    by (rule snd_resolve_refs) (use Cons.prems in auto)
  have "ref_questionId ` set (concat (map stepQuestionRefs ss)) \<inter>
      fst ` set (snd (foldl (resolve_pin draft (stepId s)) st (stepQuestionRefs s))) = {}"
  proof -
    let ?S = "ref_questionId ` set (stepQuestionRefs s)" and ?T = "ref_questionId ` set (concat (map stepQuestionRefs ss))"
    have "?S \<inter> ?T = {}" "?T \<inter> fst ` set (snd st) = {}" using Cons.prems by auto
    with fst_pinned_records [of draft "stepQuestionRefs s"] show ?thesis
      unfolding step set_append image_Un by blast
  qed
  with Cons show ?case by (simp add: step pinned_records_append)
qed (simp add: pinned_records_def List.map_filter_def)

lemma resolvePins_resolved:
  "unambiguous (d_definition draft) \<Longrightarrow>
    snd (resolvePins draft) = pinned_records draft (form_refs (d_definition draft))"
  using snd_resolve_steps [of "f_steps (d_definition draft)" "([], [])" draft]
  by (simp add: resolvePins_def unambiguous_def form_pins_refs form_refs_def)

text \<open>With every pin resolved the map holds, for each pin of the form, the version it names.\<close>

lemma pinned_records_all:
  assumes "\<forall>r \<in> set rs. pin_record draft r \<noteq> None"
  shows "pinned_records draft rs = map (\<lambda>r. (ref_questionId r, the (pin_record draft r))) rs"
  using assms by (induction rs) (auto simp: pinned_records_def List.map_filter_def)

lemma map_of_distinct_map:
  "distinct (map f xs) \<Longrightarrow> x \<in> set xs \<Longrightarrow> map_of (map (\<lambda>x. (f x, g x)) xs) (f x) = Some (g x)"
  by (simp add: map_of_eq_Some_iff comp_def)

lemma snapshot_questions_fold:
  assumes "distinct (map dp_question es)" "dp_question ` set es \<inter> set seen = {}"
  shows "snd (foldl (\<lambda>(seen, questions) e.
            case map_of resolved (dp_question e) of
              None \<Rightarrow> (seen, questions)
            | Some record \<Rightarrow>
                if dp_question e \<notin> set seen then (dp_question e # seen, questions @ [record])
                else (seen, questions)) (seen, qs) es) =
    qs @ List.map_filter (\<lambda>e. map_of resolved (dp_question e)) es"
  using assms
proof (induction es arbitrary: seen qs)
  case (Cons e es)
  then show ?case
    by (cases "map_of resolved (dp_question e)") (auto simp: List.map_filter_def)
qed (simp add: List.map_filter_def)

lemma snapshot_questions_resolved:
  assumes "distinct (map dp_question order)"
  shows "snapshot_questions order resolved = List.map_filter (\<lambda>e. map_of resolved (dp_question e)) order"
  using snapshot_questions_fold [OF assms, of "[]" resolved "[]"] by (simp add: snapshot_questions_def)

lemma map_filter_map: "List.map_filter f (map g xs) = List.map_filter (f \<circ> g) xs"
  by (simp add: List.map_filter_def filter_map comp_def)

lemma map_filter_Some: "(\<And>x. x \<in> set xs \<Longrightarrow> f x = Some (g x)) \<Longrightarrow> List.map_filter f xs = map g xs"
  by (induction xs) (auto simp: List.map_filter_def)

lemma snapshot_questions_pinned:
  assumes "unambiguous f" "\<forall>r \<in> set (form_refs f). pin_record draft r \<noteq> None"
  shows "snapshot_questions (documentOrder f) (pinned_records draft (form_refs f)) =
    map (\<lambda>r. the (pin_record draft r)) (form_refs f)"
proof -
  let ?resolved = "pinned_records draft (form_refs f)"
  have dist: "distinct (map ref_questionId (form_refs f))"
    using assms(1) by (simp add: unambiguous_def form_pins_refs)
  have "snapshot_questions (documentOrder f) ?resolved =
      List.map_filter (map_of ?resolved) (map dp_question (documentOrder f))"
    unfolding map_filter_map comp_def
    by (rule snapshot_questions_resolved) (use assms(1) in \<open>simp add: documentOrder_questions unambiguous_def\<close>)
  also have "\<dots> = List.map_filter (\<lambda>r. map_of ?resolved (ref_questionId r)) (form_refs f)"
    by (simp add: documentOrder_questions form_pins_refs map_filter_map comp_def)
  also have "\<dots> = map (\<lambda>r. the (pin_record draft r)) (form_refs f)"
    by (rule map_filter_Some) (simp add: pinned_records_all [OF assms(2)] map_of_distinct_map [OF dist])
  finally show ?thesis .
qed

section \<open>References, types and texts\<close>

text \<open>Every id a rule or a repeat count names exists in the form.\<close>

definition references_resolve :: "form_definition \<Rightarrow> bool" where
  "references_resolve f \<longleftrightarrow>
     (\<forall>g \<in> set (repeatGroups (f_steps f)). \<forall>q mn mx. g_count g = FromAnswer q mn mx \<longrightarrow> q \<in> set (form_pins f)) \<and>
     (\<forall>rule \<in> set (f_rules f).
        set (ruleReferences rule) \<subseteq> set (form_pins f) \<and>
        set (ruleGroupReferences rule) \<subseteq> set (form_groups f) \<and>
        (\<forall>target \<in> set (rule_show rule).
           if isStepId target then target \<in> stepId ` set (f_steps f) else target \<in> set (form_pins f)))"

lemma ball_group_items:
  "(\<forall>s \<in> set steps. \<forall>item \<in> set (s_items s). case item of GroupItem g \<Rightarrow> P g | QuestionItem _ \<Rightarrow> True) \<longleftrightarrow>
     (\<forall>g \<in> set (repeatGroups steps). P g)"
  by (fastforce simp: set_repeatGroups split: step_item.split)

lemma count_resolution_Nil_iff:
  "count_resolution pinned s = [] \<longleftrightarrow>
     (\<forall>item \<in> set (s_items s). case item of
        GroupItem g \<Rightarrow> \<forall>q mn mx. g_count g = FromAnswer q mn mx \<longrightarrow> q \<in> set pinned
      | QuestionItem _ \<Rightarrow> True)"
  unfolding count_resolution_def concat_map_Nil_iff
  by (rule ball_cong [OF refl]) (auto split: step_item.split repeat_count.split)

lemma rule_resolution_Nil_iff:
  "rule_resolution pinned steps groups rule = [] \<longleftrightarrow>
     set (ruleReferences rule) \<subseteq> set pinned \<and> set (ruleGroupReferences rule) \<subseteq> set groups \<and>
     (\<forall>target \<in> set (rule_show rule). if isStepId target then target \<in> set steps else target \<in> set pinned)"
  unfolding rule_resolution_def append_is_Nil_conv concat_map_Nil_iff by auto

lemma checkRuleResolution_Nil_iff [check_simps]: "checkRuleResolution f = [] \<longleftrightarrow> references_resolve f"
  unfolding checkRuleResolution_def Let_def append_is_Nil_conv concat_map_Nil_iff
    count_resolution_Nil_iff rule_resolution_Nil_iff ball_group_items documentOrder_questions
    references_resolve_def form_groups_def set_map by (rule refl)

lemma checkRepeatCountTypes_Nil_iff [check_simps]:
  "checkRepeatCountTypes f resolved = [] \<longleftrightarrow>
     (\<forall>g \<in> set (repeatGroups (f_steps f)). \<forall>q mn mx record. g_count g = FromAnswer q mn mx \<longrightarrow>
        map_of resolved q = Some record \<longrightarrow> q_type (rec_definition record) = TNumber)"
  unfolding checkRepeatCountTypes_def concat_map_Nil_iff ball_group_items [symmetric]
  by (intro ball_cong refl) (auto split: step_item.split repeat_count.split option.split)

lemma checkTableColumnTypes_Nil_iff [check_simps]:
  "checkTableColumnTypes f resolved = [] \<longleftrightarrow>
     (\<forall>g \<in> set (repeatGroups (f_steps f)). presentation g = Table \<longrightarrow>
        (\<forall>m \<in> set (g_items g). \<forall>record. map_of resolved (ref_questionId m) = Some record \<longrightarrow>
           isTableColumnType (type_name (q_type (rec_definition record)))))"
  unfolding checkTableColumnTypes_def concat_map_Nil_iff ball_group_items [symmetric]
  by (intro ball_cong refl) (auto split: step_item.split option.split)

lemma checkLocaleCompleteness_Nil_iff [check_simps]:
  "checkLocaleCompleteness f sites = [] \<longleftrightarrow> (\<forall>site \<in> set sites. isCompleteFor (ts_text site) (defaultLocale f))"
  by (auto simp: checkLocaleCompleteness_def)

lemma checkBlankText_Nil_iff [check_simps]:
  "checkBlankText sites = [] \<longleftrightarrow>
     (\<forall>site \<in> set sites. \<forall>value \<in> snd ` set (ts_text site). \<not> list_all is_js_space value)"
  by (fastforce simp: checkBlankText_def js_trim_empty_iff split: if_splits)

lemma checkAuthoredMessages_Nil_iff [check_simps]:
  "checkAuthoredMessages resolved = [] \<longleftrightarrow>
     (\<forall>record \<in> snd ` set resolved. \<forall>ms. messages (rec_definition record) = Some ms \<longrightarrow>
        dom (map_of ms) \<subseteq> set (authoredMessageKeys (rec_definition record)))"
  unfolding checkAuthoredMessages_def concat_map_Nil_iff
  by (fastforce simp: Let_def split: option.splits if_splits)

text \<open>A draft that may be published: the conjunction of what each stage asks for.\<close>

definition publishable :: "draft_input \<Rightarrow> bool" where
  "publishable draft \<longleftrightarrow>
     (let f = d_definition draft; resolved = snd (resolvePins draft); sites = textSites f resolved in
      unambiguous f \<and>
      (\<forall>g \<in> set (repeatGroups (f_steps f)). legal_group g) \<and>
      (\<forall>r \<in> set (f_rules f). \<not> depth_exceeded (rule_when r)) \<and>
      (\<forall>r \<in> set (form_refs f). pin_record draft r \<noteq> None \<and> published_pin draft r) \<and>
      references_resolve f \<and> analyzeRuleGraph f = [] \<and>
      (\<forall>r \<in> set (f_rules f). well_typed (pinned_question resolved) (rule_when r)) \<and>
      (\<forall>g \<in> set (repeatGroups (f_steps f)). \<forall>q mn mx record. g_count g = FromAnswer q mn mx \<longrightarrow>
         map_of resolved q = Some record \<longrightarrow> q_type (rec_definition record) = TNumber) \<and>
      (\<forall>g \<in> set (repeatGroups (f_steps f)). presentation g = Table \<longrightarrow>
         (\<forall>m \<in> set (g_items g). \<forall>record. map_of resolved (ref_questionId m) = Some record \<longrightarrow>
            isTableColumnType (type_name (q_type (rec_definition record))))) \<and>
      (\<forall>site \<in> set sites. isCompleteFor (ts_text site) (defaultLocale f)) \<and>
      (\<forall>site \<in> set sites. \<forall>value \<in> snd ` set (ts_text site). \<not> list_all is_js_space value) \<and>
      (\<forall>record \<in> snd ` set resolved. \<forall>ms. messages (rec_definition record) = Some ms \<longrightarrow>
         dom (map_of ms) \<subseteq> set (authoredMessageKeys (rec_definition record))))"

lemma draft_errors_Nil_iff: "draft_errors draft = [] \<longleftrightarrow> publishable draft"
  unfolding draft_errors_def Let_def split_def append_is_Nil_conv publishable_def
    checkStructure_Nil_iff resolvePins_errors_Nil_iff checkRuleResolution_Nil_iff checkRuleTypes_Nil_iff
    checkRepeatCountTypes_Nil_iff checkTableColumnTypes_Nil_iff checkLocaleCompleteness_Nil_iff
    checkBlankText_Nil_iff checkAuthoredMessages_Nil_iff by (simp only: conj_assoc)

section \<open>The publish call\<close>

lemma compileDraft_Inr_iff:
  "compileDraft compiles_u compiles_v draft = Inr out \<longleftrightarrow>
     draft_errors draft = [] \<and>
     out = \<lparr>out_snapshot =
              \<lparr>snap_definition = d_definition draft,
               snap_questions =
                 snapshot_questions (documentOrder (d_definition draft)) (snd (resolvePins draft)),
               semanticsVersion = SEMANTICS_VERSION, schemaVersion = SNAPSHOT_SCHEMA_VERSION\<rparr>,
            out_warnings =
              checkMultiChoiceSameStepTargets (d_definition draft) (snd (resolvePins draft))
              @ checkPatternAmbiguity compiles_u compiles_v (snd (resolvePins draft))\<rparr>"
  by (auto simp: compileDraft_def Let_def ok_def err_def)

lemma compileDraft_Inl_iff:
  "compileDraft compiles_u compiles_v draft = Inl errors \<longleftrightarrow> errors = draft_errors draft \<and> errors \<noteq> []"
  by (auto simp: compileDraft_def Let_def ok_def err_def)

text \<open>The stages of a clean draft, one fact each.\<close>

lemma clean_draft:
  assumes "draft_errors draft = []"
  shows "checkStructure (d_definition draft) = []" "fst (resolvePins draft) = []"
    "checkRuleResolution (d_definition draft) = []" "analyzeRuleGraph (d_definition draft) = []"
    "checkRuleTypes (d_definition draft) (pinned_question (snd (resolvePins draft))) = []"
    "checkRepeatCountTypes (d_definition draft) (snd (resolvePins draft)) = []"
    "checkTableColumnTypes (d_definition draft) (snd (resolvePins draft)) = []"
  using assms by (simp_all add: draft_errors_def Let_def split_def)

lemma clean_unambiguous: "draft_errors draft = [] \<Longrightarrow> unambiguous (d_definition draft)"
  by (drule clean_draft(1)) (simp add: checkStructure_Nil_iff)

lemma clean_pins:
  assumes "draft_errors draft = []" "r \<in> set (form_refs (d_definition draft))"
  shows "\<exists>record. pin_record draft r = Some record" "published_pin draft r"
  using clean_draft(2) [OF assms(1)] assms(2) by (auto simp: resolvePins_errors_Nil_iff)

lemma clean_resolved:
  assumes "draft_errors draft = []"
  shows "snd (resolvePins draft) =
    map (\<lambda>r. (ref_questionId r, the (pin_record draft r))) (form_refs (d_definition draft))"
  using clean_pins(1) [OF assms]
  by (simp add: resolvePins_resolved [OF clean_unambiguous [OF assms]] pinned_records_all)

lemma clean_snapshot_questions:
  assumes "draft_errors draft = []"
  shows "snapshot_questions (documentOrder (d_definition draft)) (snd (resolvePins draft)) =
    map (\<lambda>r. the (pin_record draft r)) (form_refs (d_definition draft))"
  using clean_pins(1) [OF assms]
  by (simp add: resolvePins_resolved [OF clean_unambiguous [OF assms]]
      snapshot_questions_pinned [OF clean_unambiguous [OF assms]])

lemma clean_forward:
  assumes "draft_errors draft = []" "rule \<in> set (f_rules (d_definition draft))"
  shows "forward_rule (d_definition draft) rule"
  by (rule backward_targets_Nil [OF clean_unambiguous [OF assms(1)]])
     (use clean_draft(4) [OF assms(1)] assms(2) in \<open>simp add: analyzeRuleGraph_def Let_def\<close>)

lemma clean_publish_checked:
  assumes "draft_errors draft = []" "FormDefinition_shape nfc (d_definition draft)"
  shows "publish_checked nfc (d_definition draft)"
  using assms clean_unambiguous clean_forward by (simp add: publish_checked_def)

lemma clean_pinned_question:
  assumes "draft_errors draft = []" "r \<in> set (form_refs (d_definition draft))"
  shows "pinned_question (snd (resolvePins draft)) (ref_questionId r) =
    Some (rec_definition (the (pin_record draft r)))"
proof -
  have dist: "distinct (map ref_questionId (form_refs (d_definition draft)))"
    using clean_unambiguous [OF assms(1)] by (simp add: unambiguous_def form_pins_refs)
  show ?thesis
    by (simp add: pinned_question_def clean_resolved [OF assms(1)] map_of_distinct_map [OF dist assms(2)])
qed

text \<open>
  The pins as a client looks them up: by question id in the list of a frozen snapshot.
\<close>

definition snapshot_question :: "frozen_snapshot \<Rightarrow> resolve_question" where
  "snapshot_question snap q =
     map_option rec_definition (List.find (\<lambda>record. rec_questionId record = q) (snap_questions snap))"

lemma find_map_pin:
  assumes "\<forall>r \<in> set rs. rec_questionId (g r) = ref_questionId r"
  shows "List.find (\<lambda>record. rec_questionId record = q) (map g rs) =
    map_of (map (\<lambda>r. (ref_questionId r, g r)) rs) q"
  using assms by (induction rs) auto

lemma clean_snapshot_question:
  assumes "draft_errors draft = []"
    "snap_questions snap = snapshot_questions (documentOrder (d_definition draft)) (snd (resolvePins draft))"
  shows "snapshot_question snap = pinned_question (snd (resolvePins draft))"
proof -
  have "\<forall>r \<in> set (form_refs (d_definition draft)). rec_questionId (the (pin_record draft r)) = ref_questionId r"
    using clean_pins(1) [OF assms(1)] by (fastforce dest: pin_record_Some)
  note find_map_pin [OF this]
  then show ?thesis
    unfolding snapshot_question_def pinned_question_def fun_eq_iff assms(2)
      clean_snapshot_questions [OF assms(1)] unfolding clean_resolved [OF assms(1)] by simp
qed

lemma compiled_evaluates:
  assumes compiled: "compileDraft compiles_u compiles_v draft = Inr out"
    and shape: "FormDefinition_shape nfc (d_definition draft)"
    and valid: "validated_answers nfc regex (snapshot_question (out_snapshot out)) (d_definition draft) rs answers"
    and host: "unicode_nfc nfc" and vr: "valid_rosters (rosterOf rs)"
  shows "\<exists>flow. evaluate_form nfc (snap_definition (out_snapshot out)) answers
    (snapshot_question (out_snapshot out)) rs = Inr flow"
proof -
  from compiled have clean: "draft_errors draft = []"
    and snap: "snap_definition (out_snapshot out) = d_definition draft"
      "snap_questions (out_snapshot out) =
         snapshot_questions (documentOrder (d_definition draft)) (snd (resolvePins draft))"
    by (auto simp: compileDraft_Inr_iff)
  note q = clean_snapshot_question [OF clean snap(2)]
  have "pinned_question (snd (resolvePins draft)) q \<noteq> None" if "q \<in> set (form_pins (d_definition draft))" for q
    using that clean_pinned_question [OF clean] by (auto simp: form_pins_refs)
  with evaluate_form_succeeds [OF shape clean_draft(5) [OF clean] _ valid [unfolded q] host vr]
  show ?thesis unfolding q snap(1) by blast
qed

end
