(* ===== verification/A2uiCompile.thy ===== *)
theory A2uiCompile
  imports A2uiNode CompileChecks "HOL-Library.Monad_Syntax"
begin

text \<open>
  \<^verbatim>\<open>packages/a2ui-compiler/src\<close>: the projection of a published snapshot to one interface document
  per step. Its two throws, an unresolved pin and a missing default locale, make a function
  partial: the result is an option, and \<open>None\<close> is the throw.
\<close>

type_synonym text_resolver = "localized_text \<Rightarrow> string option"

section \<open>Props\<close>

definition compact :: "props \<Rightarrow> props" where
  "compact ps = filter (\<lambda>(k, v). v \<noteq> JUndefined) ps"

definition js_opt :: "('a \<Rightarrow> jsval) \<Rightarrow> 'a option \<Rightarrow> jsval" where
  "js_opt f v = (case v of None \<Rightarrow> JUndefined | Some x \<Rightarrow> f x)"

definition js_int :: "int \<Rightarrow> jsval" where
  "js_int n = JNum (Fin (of_int n))"

definition resolve_opt :: "text_resolver \<Rightarrow> localized_text option \<Rightarrow> jsval option" where
  "resolve_opt resolve text =
     (case text of None \<Rightarrow> Some JUndefined | Some t \<Rightarrow> map_option JStr (resolve t))"

definition SINGLE_CHOICE_SELECT_THRESHOLD :: nat where
  "SINGLE_CHOICE_SELECT_THRESHOLD = 7"

definition BOOLEAN_TRUE_VALUE :: string where "BOOLEAN_TRUE_VALUE = ''true''"
definition BOOLEAN_FALSE_VALUE :: string where "BOOLEAN_FALSE_VALUE = ''false''"

definition language_of :: "locale_code \<Rightarrow> string" where
  "language_of loc = takeWhile (\<lambda>c. c \<noteq> CHR ''-'') loc"

definition BOOLEAN_AFFIRMATION :: "(string \<times> string \<times> string) list" where
  "BOOLEAN_AFFIRMATION = [(''en'', ''Yes'', ''No'')]"

definition affirmationFor :: "locale_code \<Rightarrow> string \<times> string" where
  "affirmationFor loc = opt_default (''Yes'', ''No'') (map_of BOOLEAN_AFFIRMATION (language_of loc))"

definition authorMessages :: "question_definition \<Rightarrow> text_resolver \<Rightarrow> jsval option" where
  "authorMessages question resolve =
     (case messages question of
        None \<Rightarrow> Some JUndefined
      | Some ms \<Rightarrow> do {
          resolved \<leftarrow> parse_all (\<lambda>key. map_option (\<lambda>s. (key_name key, JStr s)) (resolve (the (map_of ms key))))
                       (filter (\<lambda>key. map_of ms key \<noteq> None) VALIDATION_MESSAGE_KEYS);
          Some (if resolved = [] then JUndefined else JObj resolved)
        })"

definition baseControlProps :: "question_definition \<Rightarrow> text_resolver \<Rightarrow> props option" where
  "baseControlProps question resolve = do {
     lbl \<leftarrow> resolve (q_label question);
     help \<leftarrow> resolve_opt resolve (q_help question);
     ms \<leftarrow> authorMessages question resolve;
     Some [(''label'', JStr lbl), (''description'', help), (''name'', JStr (questionId question)),
           (''isRequired'', if required question then JBool True else JUndefined), (''messages'', ms)]
   }"

section \<open>Questions\<close>

definition choice_child :: "string \<Rightarrow> string \<Rightarrow> string \<Rightarrow> a2_node" where
  "choice_child ty value lbl = A2Node ty (Some [(''value'', JStr value), (''label'', JStr lbl)]) NoKids"

definition radioChild :: "string \<Rightarrow> string \<Rightarrow> a2_node" where
  "radioChild = choice_child ''Radio''"

definition checkboxChild :: "string \<Rightarrow> string \<Rightarrow> a2_node" where
  "checkboxChild = choice_child ''Checkbox''"

definition option_children ::
  "(string \<Rightarrow> string \<Rightarrow> 'a) \<Rightarrow> text_resolver \<Rightarrow> choice_option list \<Rightarrow> 'a list option" where
  "option_children f resolve options =
     parse_all (\<lambda>opt. map_option (f (optionId opt)) (resolve (opt_label opt))) options"

definition control :: "string \<Rightarrow> props \<Rightarrow> a2_node" where
  "control ty ps = A2Node ty (Some (compact ps)) NoKids"

definition questionToNode ::
  "question_definition \<Rightarrow> text_resolver \<Rightarrow> locale_code \<Rightarrow> a2_node option" where
  "questionToNode question resolve loc = do {
     base \<leftarrow> baseControlProps question resolve;
     (case body question of
        ShortText mn mx p \<Rightarrow>
          Some (control ''TextField'' (base @ [(''minLength'', js_opt js_int mn), (''maxLength'', js_opt js_int mx),
                  (''pattern'', js_opt JStr p)]))
      | LongText mx \<Rightarrow> Some (control ''TextArea'' (base @ [(''maxLength'', js_opt js_int mx)]))
      | NumberQ mn mx i \<Rightarrow>
          Some (control ''NumberField'' (base @ [(''minValue'', js_opt JNum mn), (''maxValue'', js_opt JNum mx),
                  (''step'', if i then JNum (Fin 1) else JUndefined)]))
      | DateQ mn mx \<Rightarrow>
          Some (control ''DatePicker'' (base @ [(''granularity'', JStr ''day''), (''minValue'', js_opt JStr mn),
                  (''maxValue'', js_opt JStr mx)]))
      | BooleanQ y n \<Rightarrow> do {
          yes \<leftarrow> (case y of None \<Rightarrow> Some (fst (affirmationFor loc)) | Some t \<Rightarrow> resolve t);
          no \<leftarrow> (case n of None \<Rightarrow> Some (snd (affirmationFor loc)) | Some t \<Rightarrow> resolve t);
          Some (A2Node ''RadioGroup'' (Some (compact base))
                  (Kids [radioChild BOOLEAN_TRUE_VALUE yes, radioChild BOOLEAN_FALSE_VALUE no]))
        }
      | SingleChoice options \<Rightarrow>
          if SINGLE_CHOICE_SELECT_THRESHOLD < length options
          then do {
            items \<leftarrow> option_children (\<lambda>v l. JObj [(''label'', JStr l), (''value'', JStr v)]) resolve options;
            Some (control ''Select'' (base @ [(''items'', JArr items)]))
          }
          else do {
            children \<leftarrow> option_children radioChild resolve options;
            Some (A2Node ''RadioGroup'' (Some (compact base)) (Kids children))
          }
      | MultiChoice options _ _ \<Rightarrow> do {
          children \<leftarrow> option_children checkboxChild resolve options;
          Some (A2Node ''CheckboxGroup'' (Some (compact (base @ [(''orientation'', JStr ''vertical'')])))
                  (Kids children))
        })
   }"

section \<open>Groups and steps\<close>

definition REPEAT_ACTION_LEXICON :: "(string \<times> string \<times> string) list" where
  "REPEAT_ACTION_LEXICON = [(''en'', ''Add {item}'', ''Remove {label}'')]"

definition actionsFor :: "locale_code \<Rightarrow> string \<times> string" where
  "actionsFor loc = opt_default (''Add {item}'', ''Remove {label}'') (map_of REPEAT_ACTION_LEXICON (language_of loc))"

definition addItemNoun :: "string \<Rightarrow> string" where
  "addItemNoun lbl = template_noun (''{'' @ INSTANCE_LABEL_PLACEHOLDER @ ''}'') lbl"

definition fill :: "string \<Rightarrow> string \<Rightarrow> string \<Rightarrow> string" where
  "fill template placeholder value = replace_all placeholder value template"

fun count_source :: "repeat_count \<Rightarrow> string" where
  "count_source (Fixed _) = ''fixed''"
| "count_source (FromAnswer _ _ _) = ''fromAnswer''"
| "count_source (OpenCount _ _) = ''open''"

fun presentation_text :: "repeat_presentation \<Rightarrow> string" where
  "presentation_text Stacked = ''stacked''"
| "presentation_text PerInstanceStep = ''perInstanceStep''"
| "presentation_text Table = ''table''"

definition repeat_props :: "repeat_group \<Rightarrow> string \<Rightarrow> string \<Rightarrow> locale_code \<Rightarrow> props" where
  "repeat_props g lbl inst loc =
     [(''groupId'', JStr (groupId g)), (''label'', JStr lbl), (''instanceLabel'', JStr inst),
      (''presentation'', JStr (presentation_text (presentation g))),
      (''countSource'', JStr (count_source (g_count g))), (''min'', js_int (fst (countBounds (g_count g))))]
     @ (case snd (countBounds (g_count g)) of None \<Rightarrow> [] | Some mx \<Rightarrow> [(''max'', js_int mx)])
     @ (if count_source (g_count g) = ''open''
        then [(''addLabel'', JStr (fill (fst (actionsFor loc)) ''{item}'' (addItemNoun inst))),
              (''removeLabel'', JStr (snd (actionsFor loc)))]
        else [])"

definition repeatGroupNode ::
  "repeat_group \<Rightarrow> (question_ref \<Rightarrow> question_definition option) \<Rightarrow> text_resolver \<Rightarrow> locale_code \<Rightarrow> a2_node option" where
  "repeatGroupNode g resolveQuestion resolve loc = do {
     inst \<leftarrow> resolve (instanceLabel g);
     lbl \<leftarrow> resolve (g_label g);
     children \<leftarrow> parse_all (\<lambda>item. do {
        question \<leftarrow> resolveQuestion item;
        questionToNode question resolve loc
      }) (g_items g);
     Some (A2Node REPEAT_GROUP_NODE_TYPE (Some (repeat_props g lbl inst loc)) (Kids children))
   }"

definition HONEYPOT_FIELD_NAME :: string where "HONEYPOT_FIELD_NAME = ''website''"
definition HONEYPOT_NODE_TYPE :: string where "HONEYPOT_NODE_TYPE = ''Honeypot''"

definition honeypotNode :: a2_node where
  "honeypotNode =
     A2Node HONEYPOT_NODE_TYPE
       (Some [(''name'', JStr HONEYPOT_FIELD_NAME), (''autoComplete'', JStr ''off''), (''ariaHidden'', JBool True),
              (''tabIndex'', JNum (Fin (- 1)))]) NoKids"

definition heading :: "bool \<Rightarrow> string \<Rightarrow> a2_node" where
  "heading is_title text_value =
     A2Node ''Text''
       (Some (if is_title then [(''as'', JStr ''h1''), (''size'', JStr ''2xl''), (''weight'', JStr ''bold'')]
              else [(''as'', JStr ''h2''), (''size'', JStr ''xl''), (''weight'', JStr ''semibold'')]))
       (TextKid text_value)"

record step_context =
  sc_snapshot :: frozen_snapshot
  sc_locale :: locale_code
  sc_resolveText :: text_resolver
  sc_resolveQuestion :: "question_ref \<Rightarrow> question_definition option"
  isFirstStep :: bool

record a2ui_document =
  doc_stepId :: step_id
  doc_root :: a2_node

definition item_node :: "step_context \<Rightarrow> step_item \<Rightarrow> a2_node option" where
  "item_node context item =
     (case item of
        GroupItem g \<Rightarrow> repeatGroupNode g (sc_resolveQuestion context) (sc_resolveText context) (sc_locale context)
      | QuestionItem r \<Rightarrow> do {
          question \<leftarrow> sc_resolveQuestion context r;
          questionToNode question (sc_resolveText context) (sc_locale context)
        })"

definition staticStepResolver :: "step \<Rightarrow> step_context \<Rightarrow> a2ui_document option" where
  "staticStepResolver step context = do {
     title \<leftarrow> (if isFirstStep context
               then map_option (\<lambda>s. [heading True s])
                      (sc_resolveText context (f_title (snap_definition (sc_snapshot context))))
               else Some []);
     subtitle \<leftarrow> sc_resolveText context (s_title step);
     items \<leftarrow> parse_all (item_node context) (s_items step);
     Some \<lparr>doc_stepId = stepId step,
           doc_root =
             A2Node ''Form'' None
               (Kids [A2Node ''Flex'' (Some [(''direction'', JStr ''column''), (''gap'', JStr ''md'')])
                        (Kids (title @ [heading False subtitle] @ items @ [honeypotNode]))])\<rparr>
   }"

section \<open>Forms\<close>

definition COMPILER_VERSION :: string where "COMPILER_VERSION = ''0.3.0''"
definition A2UI_SPEC_VERSION :: string where "A2UI_SPEC_VERSION = ''1.0.0-preview.7''"

record compiled_form =
  documents :: "a2ui_document list"
  compilerVersion :: string
  a2uiSpecVersion :: string

definition questionResolver :: "frozen_snapshot \<Rightarrow> question_ref \<Rightarrow> question_definition option" where
  "questionResolver snapshot =
     (let byPin = foldl (\<lambda>m record. AList.update (rec_questionId record, rec_version record) (rec_definition record) m)
                    [] (snap_questions snapshot) in
      (\<lambda>r. map_of byPin (ref_questionId r, ref_version r)))"

definition textResolver :: "locale_code \<Rightarrow> locale_code \<Rightarrow> text_resolver" where
  "textResolver loc fallback text_value =
     (case resolveText text_value loc fallback of Inl _ \<Rightarrow> None | Inr s \<Rightarrow> Some s)"

definition compileFormWith ::
  "(step \<Rightarrow> step_context \<Rightarrow> a2ui_document option) \<Rightarrow> frozen_snapshot \<Rightarrow> locale_code option \<Rightarrow> compiled_form option" where
  "compileFormWith resolver snapshot wanted =
     (let definition = snap_definition snapshot;
          fallback = defaultLocale definition;
          loc = opt_default fallback wanted;
          context = (\<lambda>index. \<lparr>sc_snapshot = snapshot, sc_locale = loc, sc_resolveText = textResolver loc fallback,
                              sc_resolveQuestion = questionResolver snapshot, isFirstStep = (index = 0)\<rparr>) in do {
        docs \<leftarrow> parse_all (\<lambda>(index, step). resolver step (context index)) (List.enumerate 0 (f_steps definition));
        Some \<lparr>documents = docs, compilerVersion = COMPILER_VERSION, a2uiSpecVersion = A2UI_SPEC_VERSION\<rparr>
      })"

definition compileForm :: "frozen_snapshot \<Rightarrow> locale_code option \<Rightarrow> compiled_form option" where
  "compileForm = compileFormWith staticStepResolver"

end
