(* ===== verification/Json.thy ===== *)
theory Json
  imports Errors
begin

text \<open>
  JSON as the language prints and reads it, and \<^verbatim>\<open>canonicalJson\<close> of
  \<^verbatim>\<open>packages/core/src/prepare-submission.ts\<close>: keys sorted at every depth, undefined members left
  out. How the host prints a finite number and reads a numeral are arguments, \<open>num_text\<close> and
  \<open>num_of\<close>; a \<^verbatim>\<open>\u\<close> escape beyond the modelled code units does not parse.
\<close>

section \<open>Strings\<close>

definition hex_digit :: "nat \<Rightarrow> char" where
  "hex_digit n = (if n < 10 then char_of (48 + n) else char_of (87 + n))"

definition json_escape :: "char \<Rightarrow> string" where
  "json_escape c =
     (let n = (of_char c :: nat) in
      if n = 34 then [CHR 0x5C, CHR 0x22]
      else if n = 92 then [CHR 0x5C, CHR 0x5C]
      else if n = 8 then [CHR 0x5C, CHR ''b'']
      else if n = 9 then [CHR 0x5C, CHR ''t'']
      else if n = 10 then [CHR 0x5C, CHR ''n'']
      else if n = 12 then [CHR 0x5C, CHR ''f'']
      else if n = 13 then [CHR 0x5C, CHR ''r'']
      else if n < 32 then [CHR 0x5C, CHR ''u'', CHR ''0'', CHR ''0'', hex_digit (n div 16), hex_digit (n mod 16)]
      else [c])"

definition json_string :: "string \<Rightarrow> string" where
  "json_string s = CHR 0x22 # concat (map json_escape s) @ [CHR 0x22]"

definition hex_val :: "char \<Rightarrow> nat option" where
  "hex_val c =
     (let n = (of_char c :: nat) in
      if 48 \<le> n \<and> n \<le> 57 then Some (n - 48)
      else if 97 \<le> n \<and> n \<le> 102 then Some (n - 87)
      else if 65 \<le> n \<and> n \<le> 70 then Some (n - 55) else None)"

definition hex4 :: "char \<Rightarrow> char \<Rightarrow> char \<Rightarrow> char \<Rightarrow> char option" where
  "hex4 a b c d =
     (case (hex_val a, hex_val b, hex_val c, hex_val d) of
        (Some 0, Some 0, Some h, Some l) \<Rightarrow> Some (char_of (16 * h + l))
      | _ \<Rightarrow> None)"

definition simple_escape :: "char \<Rightarrow> char option" where
  "simple_escape c =
     map_of [(CHR 0x22, CHR 0x22), (CHR 0x5C, CHR 0x5C), (CHR ''/'', CHR ''/''), (CHR ''b'', CHR 0x08),
             (CHR ''t'', CHR 0x09), (CHR ''n'', CHR 0x0A), (CHR ''f'', CHR 0x0C), (CHR ''r'', CHR 0x0D)] c"

text \<open>The rest of a string literal behind its opening quote: its value and what follows it.\<close>

fun lex_string :: "string \<Rightarrow> (string \<times> string) option" where
  "lex_string [] = None"
| "lex_string (c # cs) =
     (if c = CHR 0x22 then Some ([], cs)
      else if c = CHR 0x5C then
        (case cs of
           [] \<Rightarrow> None
         | e # es \<Rightarrow>
             if e = CHR ''u'' then
               (case es of
                  h1 # h2 # h3 # h4 # behind \<Rightarrow>
                    (case hex4 h1 h2 h3 h4 of
                       None \<Rightarrow> None
                     | Some x \<Rightarrow> map_option (\<lambda>(s, rest). (x # s, rest)) (lex_string behind))
                | _ \<Rightarrow> None)
             else
               (case simple_escape e of
                  None \<Rightarrow> None
                | Some x \<Rightarrow> map_option (\<lambda>(s, rest). (x # s, rest)) (lex_string es)))
      else if (of_char c :: nat) < 32 then None
      else map_option (\<lambda>(s, rest). (c # s, rest)) (lex_string cs))"

declare lex_string.simps(2) [simp del]

lemma hex4_digits: "n < 32 \<Longrightarrow> hex4 (CHR ''0'') (CHR ''0'') (hex_digit (n div 16)) (hex_digit (n mod 16)) = Some (char_of n)"
proof -
  assume "n < 32"
  have digit: "hex_val (hex_digit k) = Some k" if "k < 16" for k
    using that by (auto simp: hex_val_def hex_digit_def Let_def)
  have "hex_val (CHR ''0'') = Some 0" by (simp add: hex_val_def)
  then show ?thesis using \<open>n < 32\<close> by (simp add: hex4_def digit)
qed

lemma lex_string_plain:
  "c \<noteq> CHR 0x22 \<Longrightarrow> c \<noteq> CHR 0x5C \<Longrightarrow> \<not> (of_char c :: nat) < 32 \<Longrightarrow>
     lex_string (c # cs) = map_option (\<lambda>(s, rest). (c # s, rest)) (lex_string cs)"
  by (simp add: lex_string.simps)

lemma lex_string_simple:
  "simple_escape e = Some x \<Longrightarrow> e \<noteq> CHR ''u'' \<Longrightarrow>
     lex_string (CHR 0x5C # e # cs) = map_option (\<lambda>(s, rest). (x # s, rest)) (lex_string cs)"
  by (simp add: lex_string.simps)

lemma lex_string_hex:
  "hex4 a b c d = Some x \<Longrightarrow>
     lex_string (CHR 0x5C # CHR ''u'' # a # b # c # d # cs) =
       map_option (\<lambda>(s, rest). (x # s, rest)) (lex_string cs)"
  by (simp add: lex_string.simps)

lemma char_eq_code: "c = d \<longleftrightarrow> (of_char c :: nat) = of_char d"
  by (simp add: of_char_eq_iff)

lemma lex_json_escape:
  "lex_string (json_escape c @ cs) = map_option (\<lambda>(s, rest). (c # s, rest)) (lex_string cs)"
proof -
  let ?n = "of_char c :: nat"
  have c: "c = char_of ?n" by simp
  consider "?n \<in> {34, 92, 8, 9, 10, 12, 13}" | "?n \<notin> {34, 92, 8, 9, 10, 12, 13}" "?n < 32"
    | "?n \<notin> {34, 92}" "\<not> ?n < 32" by force
  then show ?thesis
  proof cases
    case 1
    then have "c \<in> {CHR 0x22, CHR 0x5C, CHR 0x08, CHR 0x09, CHR 0x0A, CHR 0x0C, CHR 0x0D}"
      by (auto simp: char_eq_code)
    then show ?thesis
      by (elim insertE emptyE) (simp_all add: json_escape_def simple_escape_def lex_string.simps)
  next
    case 2
    then have "json_escape c =
        [CHR 0x5C, CHR ''u'', CHR ''0'', CHR ''0'', hex_digit (?n div 16), hex_digit (?n mod 16)]"
      by (simp add: json_escape_def Let_def)
    with lex_string_hex [OF hex4_digits [OF 2(2)]] c show ?thesis by simp
  next
    case 3
    then have "json_escape c = [c]" "c \<noteq> CHR 0x22" "c \<noteq> CHR 0x5C"
      by (auto simp: json_escape_def Let_def)
    with lex_string_plain 3(2) show ?thesis by simp
  qed
qed

lemma lex_json_string: "lex_string (concat (map json_escape s) @ CHR 0x22 # rest) = Some (s, rest)"
  by (induction s) (simp_all add: lex_json_escape lex_string.simps)

section \<open>Reading\<close>

definition is_json_ws :: "char \<Rightarrow> bool" where
  "is_json_ws c \<longleftrightarrow> (of_char c :: nat) \<in> {9, 10, 13, 32}"

definition skip_ws :: "string \<Rightarrow> string" where
  "skip_ws = dropWhile is_json_ws"

definition is_dec :: "char \<Rightarrow> bool" where
  "is_dec c \<longleftrightarrow> 48 \<le> (of_char c :: nat) \<and> (of_char c :: nat) \<le> 57"

definition num_char :: "char \<Rightarrow> bool" where
  "num_char c \<longleftrightarrow> is_dec c \<or> c \<in> {CHR ''-'', CHR ''+'', CHR ''.'', CHR ''e'', CHR ''E''}"

text \<open>The numeral grammar: sign, integer part without leading zero, fraction, exponent.\<close>

definition after_sign :: "string \<Rightarrow> string" where
  "after_sign s = (case s of c # cs \<Rightarrow> if c = CHR ''-'' then cs else s | [] \<Rightarrow> s)"

definition after_digits :: "string \<Rightarrow> string option" where
  "after_digits s = (case s of [] \<Rightarrow> None | c # cs \<Rightarrow> if is_dec c then Some (dropWhile is_dec cs) else None)"

definition after_int :: "string \<Rightarrow> string option" where
  "after_int s =
     (case s of [] \<Rightarrow> None | c # cs \<Rightarrow> if c = CHR ''0'' then Some cs else after_digits s)"

definition after_frac :: "string \<Rightarrow> string option" where
  "after_frac s = (case s of c # cs \<Rightarrow> if c = CHR ''.'' then after_digits cs else Some s | [] \<Rightarrow> Some s)"

definition after_exp :: "string \<Rightarrow> string option" where
  "after_exp s =
     (case s of
        c # cs \<Rightarrow>
          if c = CHR ''e'' \<or> c = CHR ''E'' then
            after_digits (case cs of d # ds \<Rightarrow> if d = CHR ''+'' \<or> d = CHR ''-'' then ds else cs | [] \<Rightarrow> cs)
          else Some s
      | [] \<Rightarrow> Some s)"

definition is_numeral :: "string \<Rightarrow> bool" where
  "is_numeral s \<longleftrightarrow>
     Option.bind (Option.bind (after_int (after_sign s)) after_frac) after_exp = Some []"

text \<open>A repeated key keeps its first place and takes the last value.\<close>

definition json_object :: "(string \<times> jsval) list \<Rightarrow> jsval" where
  "json_object members = JObj (foldl (\<lambda>m (k, v). AList.update k v m) [] members)"

fun json_value :: "(string \<Rightarrow> jsnum) \<Rightarrow> nat \<Rightarrow> string \<Rightarrow> (jsval \<times> string) option"
and json_elems :: "(string \<Rightarrow> jsnum) \<Rightarrow> nat \<Rightarrow> string \<Rightarrow> (jsval list \<times> string) option"
and json_members :: "(string \<Rightarrow> jsnum) \<Rightarrow> nat \<Rightarrow> string \<Rightarrow> ((string \<times> jsval) list \<times> string) option" where
  "json_value num_of 0 s = None"
| "json_value num_of (Suc n) s =
     (case skip_ws s of
        [] \<Rightarrow> None
      | c # cs \<Rightarrow>
          if c = CHR ''{'' then
            (case skip_ws cs of
               [] \<Rightarrow> None
             | d # ds \<Rightarrow>
                 if d = CHR ''}'' then Some (JObj [], ds)
                 else map_option (\<lambda>(ps, rest). (json_object ps, rest)) (json_members num_of n cs))
          else if c = CHR ''['' then
            (case skip_ws cs of
               [] \<Rightarrow> None
             | d # ds \<Rightarrow>
                 if d = CHR '']'' then Some (JArr [], ds)
                 else map_option (\<lambda>(vs, rest). (JArr vs, rest)) (json_elems num_of n cs))
          else if c = CHR 0x22 then map_option (\<lambda>(t, rest). (JStr t, rest)) (lex_string cs)
          else if num_char c then
            (let token = takeWhile num_char (c # cs); rest = dropWhile num_char (c # cs) in
             if is_numeral token then Some (JNum (num_of token), rest) else None)
          else if take 4 (c # cs) = ''true'' then Some (JBool True, drop 4 (c # cs))
          else if take 5 (c # cs) = ''false'' then Some (JBool False, drop 5 (c # cs))
          else if take 4 (c # cs) = ''null'' then Some (JNull, drop 4 (c # cs))
          else None)"
| "json_elems num_of 0 s = None"
| "json_elems num_of (Suc n) s =
     (case json_value num_of n s of
        None \<Rightarrow> None
      | Some (v, behind) \<Rightarrow>
          (case skip_ws behind of
             [] \<Rightarrow> None
           | d # ds \<Rightarrow>
               if d = CHR '','' then map_option (\<lambda>(vs, rest). (v # vs, rest)) (json_elems num_of n ds)
               else if d = CHR '']'' then Some ([v], ds) else None))"
| "json_members num_of 0 s = None"
| "json_members num_of (Suc n) s =
     (case skip_ws s of
        [] \<Rightarrow> None
      | c # cs \<Rightarrow>
          if c \<noteq> CHR 0x22 then None
          else
            (case lex_string cs of
               None \<Rightarrow> None
             | Some (k, behind) \<Rightarrow>
                 (case skip_ws behind of
                    [] \<Rightarrow> None
                  | d # ds \<Rightarrow>
                      if d \<noteq> CHR '':'' then None
                      else
                        (case json_value num_of n ds of
                           None \<Rightarrow> None
                         | Some (v, tail) \<Rightarrow>
                             (case skip_ws tail of
                                [] \<Rightarrow> None
                              | e # es \<Rightarrow>
                                  if e = CHR '','' then
                                    map_option (\<lambda>(ps, rest). ((k, v) # ps, rest)) (json_members num_of n es)
                                  else if e = CHR ''}'' then Some ([(k, v)], es) else None)))))"

text \<open>\<^verbatim>\<open>JSON.parse\<close>: one value and nothing but white space behind it. Every call consumes a
  character or descends into a value just opened, so twice the length is enough fuel.\<close>

definition json_parse :: "(string \<Rightarrow> jsnum) \<Rightarrow> string \<Rightarrow> jsval option" where
  "json_parse num_of s =
     (case json_value num_of (2 * length s + 1) s of
        Some (v, rest) \<Rightarrow> if skip_ws rest = [] then Some v else None
      | None \<Rightarrow> None)"

section \<open>Printing\<close>

definition key_cmp :: "string \<times> 'a \<Rightarrow> string \<times> 'a \<Rightarrow> int" where
  "key_cmp a b = (if str_lt (fst a) (fst b) then - 1 else if str_lt (fst b) (fst a) then 1 else 0)"

function canonicalJson :: "(rat \<Rightarrow> string) \<Rightarrow> jsval \<Rightarrow> string" where
  "canonicalJson num_text JUndefined = ''null''"
| "canonicalJson num_text JNull = ''null''"
| "canonicalJson num_text (JBool b) = (if b then ''true'' else ''false'')"
| "canonicalJson num_text (JNum n) = (case n of Fin q \<Rightarrow> num_text q | _ \<Rightarrow> ''null'')"
| "canonicalJson num_text (JStr t) = json_string t"
| "canonicalJson num_text (JArr vs) =
     ''['' @ js_join '','' (map (\<lambda>item. canonicalJson num_text (if item = JUndefined then JNull else item)) vs)
       @ '']''"
| "canonicalJson num_text (JObj props) =
     ''{'' @ js_join '',''
       (map (\<lambda>(k, v). json_string k @ '':'' @ canonicalJson num_text v)
         (filter (\<lambda>(k, v). v \<noteq> JUndefined) (js_sort key_cmp props))) @ ''}''"
  by pat_completeness auto
termination
proof (relation "measure (size \<circ> snd)", goal_cases)
  case (2 num_text vs item)
  then show ?case by (auto dest!: size_list_estimation' [OF _ order.refl, where f = size])
next
  case (3 num_text props x k v)
  then have "(k, v) \<in> set props" by simp
  from size_list_estimation' [OF this, of "size v" "size_prod (\<lambda>_. 0) size"] show ?case by simp
qed simp_all

text \<open>The value a canonical text stands for: no undefined, no key order, only finite numbers.\<close>

function json_norm :: "jsval \<Rightarrow> jsval" where
  "json_norm JUndefined = JNull"
| "json_norm JNull = JNull"
| "json_norm (JBool b) = JBool b"
| "json_norm (JNum n) = (case n of Fin q \<Rightarrow> JNum (Fin q) | _ \<Rightarrow> JNull)"
| "json_norm (JStr t) = JStr t"
| "json_norm (JArr vs) = JArr (map json_norm vs)"
| "json_norm (JObj props) =
     JObj (map (\<lambda>(k, v). (k, json_norm v)) (filter (\<lambda>(k, v). v \<noteq> JUndefined) (js_sort key_cmp props)))"
  by pat_completeness auto
termination
proof (relation "measure size", goal_cases)
  case (2 vs x)
  then show ?case by (auto dest!: size_list_estimation' [OF _ order.refl, where f = size])
next
  case (3 props x k v)
  then have "(k, v) \<in> set props" by simp
  from size_list_estimation' [OF this, of "size v" "size_prod (\<lambda>_. 0) size"] show ?case by simp
qed simp_all

section \<open>Normal values\<close>

text \<open>
  A value whose objects have each key once, which is what every object of the language has,
  and the normal values: what \<^verbatim>\<open>JSON.parse\<close> of a canonical text gives.
\<close>

fun js_wf :: "jsval \<Rightarrow> bool" where
  "js_wf (JArr vs) = (\<forall>v \<in> set vs. js_wf v)"
| "js_wf (JObj props) = (distinct (map fst props) \<and> (\<forall>p \<in> set props. js_wf (snd p)))"
| "js_wf _ = True"

fun js_numbers :: "jsval \<Rightarrow> rat set" where
  "js_numbers (JNum n) = (case n of Fin q \<Rightarrow> {q} | _ \<Rightarrow> {})"
| "js_numbers (JArr vs) = (\<Union>v \<in> set vs. js_numbers v)"
| "js_numbers (JObj props) = (\<Union>p \<in> set props. js_numbers (snd p))"
| "js_numbers _ = {}"

fun json_normal :: "jsval \<Rightarrow> bool" where
  "json_normal JUndefined = False"
| "json_normal (JNum n) = (\<exists>q. n = Fin q)"
| "json_normal (JArr vs) = (\<forall>v \<in> set vs. json_normal v)"
| "json_normal (JObj props) =
     (sorted_wrt str_lt (map fst props) \<and> (\<forall>p \<in> set props. json_normal (snd p)))"
| "json_normal _ = True"

lemma key_cmp_sorted_insort:
  assumes "sorted_wrt str_lt (map fst ps)" "fst p \<notin> fst ` set ps"
  shows "sorted_wrt str_lt (map fst (insort_cmp key_cmp p ps))"
  using assms
proof (induction ps)
  case (Cons q ps)
  then have "fst p \<noteq> fst q" by auto
  then consider "str_lt (fst p) (fst q)" | "str_lt (fst q) (fst p)" "\<not> str_lt (fst p) (fst q)"
    using str_lt_total str_lt_asym by blast
  then show ?case
  proof cases
    case 1
    with Cons.prems show ?thesis by (auto simp: key_cmp_def intro: str_lt_trans)
  next
    case 2
    with Cons show ?thesis by (auto simp: key_cmp_def)
  qed
qed simp

lemma distinct_js_sort: "distinct (map fst ps) \<Longrightarrow> sorted_wrt str_lt (map fst (js_sort key_cmp ps))"
  by (induction ps) (auto intro!: key_cmp_sorted_insort)

lemma sorted_distinct_keys: "sorted_wrt str_lt ks \<Longrightarrow> distinct ks"
  by (induction ks) (auto dest: str_lt_irrefl [THEN notE])

lemma sorted_keys_filter: "sorted_wrt str_lt (map fst ps) \<Longrightarrow> sorted_wrt str_lt (map fst (filter P ps))"
  by (induction ps) auto

lemma map_fst_entries: "map fst (map (\<lambda>(k, v). (k, f v)) ps) = map fst ps"
  by (induction ps) auto

lemma json_norm_normal: "js_wf v \<Longrightarrow> json_normal (json_norm v)"
proof (induction v rule: json_norm.induct)
  case (7 props)
  have "json_normal (json_norm v)" if "(k, v) \<in> set props" "v \<noteq> JUndefined" for k v
    by (rule 7(1) [of "(k, v)"]) (use that 7(2) in force)+
  moreover have "sorted_wrt str_lt (map fst (filter (\<lambda>(k, v). v \<noteq> JUndefined) (js_sort key_cmp props)))"
    using 7(2) by (intro sorted_keys_filter distinct_js_sort) simp
  ultimately show ?case unfolding json_norm.simps json_normal.simps map_fst_entries by auto
qed (auto split: jsnum.split)

lemma js_sort_sorted: "sorted_wrt str_lt (map fst ps) \<Longrightarrow> js_sort key_cmp ps = ps"
proof (induction ps)
  case (Cons p ps)
  then show ?case by (cases ps) (auto simp: key_cmp_def)
qed simp

lemma json_norm_defined: "json_norm v \<noteq> JUndefined"
  by (cases v) (auto split: jsnum.split)

lemma canonicalJson_norm: "js_wf v \<Longrightarrow> canonicalJson num_text (json_norm v) = canonicalJson num_text v"
proof (induction v rule: json_norm.induct)
  case (6 vs)
  then show ?case by (auto simp: json_norm_defined intro!: arg_cong [of _ _ "js_join _"])
next
  case (7 props)
  let ?fs = "filter (\<lambda>(k, v). v \<noteq> JUndefined) (js_sort key_cmp props)"
  let ?gs = "map (\<lambda>(k, v). (k, json_norm v)) ?fs"
  have sorted: "sorted_wrt str_lt (map fst ?gs)"
    unfolding map_fst_entries using 7(2) by (intro sorted_keys_filter distinct_js_sort) simp
  have "filter (\<lambda>(k, v). v \<noteq> JUndefined) ?gs = ?gs" by (auto simp: json_norm_defined)
  moreover have "canonicalJson num_text (json_norm v) = canonicalJson num_text v" if "(k, v) \<in> set ?fs" for k v
    by (rule 7(1) [of "(k, v)"]) (use that 7(2) in force)+
  ultimately show ?case
    unfolding json_norm.simps canonicalJson.simps js_sort_sorted [OF sorted]
    by (auto intro!: arg_cong [of _ _ "js_join _"])
qed (auto split: jsnum.split)

section \<open>Printing and reading back\<close>

text \<open>What the host promises of its numerals, on the numbers \<open>D\<close>: they are numerals of the
  grammar and read back as the number they print.\<close>

definition json_numerals :: "(rat \<Rightarrow> string) \<Rightarrow> (string \<Rightarrow> jsnum) \<Rightarrow> rat set \<Rightarrow> bool" where
  "json_numerals num_text num_of D \<longleftrightarrow>
     (\<forall>q \<in> D. is_numeral (num_text q) \<and> list_all num_char (num_text q) \<and> num_of (num_text q) = Fin q)"

definition value_end :: "string \<Rightarrow> bool" where
  "value_end rest \<longleftrightarrow> rest = [] \<or> hd rest \<in> {CHR '','', CHR '']'', CHR ''}''}"

lemma value_end_simps [simp]:
  "value_end []" "value_end (CHR '','' # cs)" "value_end (CHR '']'' # cs)" "value_end (CHR ''}'' # cs)"
  by (simp_all add: value_end_def)

lemma numeral_token:
  assumes "list_all num_char t" "value_end rest"
  shows "takeWhile num_char (t @ rest) = t" "dropWhile num_char (t @ rest) = rest"
proof -
  have "takeWhile num_char rest = []" "dropWhile num_char rest = rest"
    using assms(2) by (cases rest; auto simp: value_end_def num_char_def is_dec_def)+
  with assms(1) show "takeWhile num_char (t @ rest) = t" "dropWhile num_char (t @ rest) = rest"
    by (simp_all add: takeWhile_append dropWhile_append list_all_iff)
qed

text \<open>A canonical text starts with a character that opens a value.\<close>

definition opens_value :: "char \<Rightarrow> bool" where
  "opens_value c \<longleftrightarrow> \<not> is_json_ws c \<and> c \<notin> {CHR '','', CHR '']'', CHR ''}''}"

lemma numeral_head:
  assumes "is_numeral t" "list_all num_char t"
  obtains c cs where "t = c # cs" "num_char c" "opens_value c"
proof (cases t)
  case Nil
  with assms(1) show ?thesis by (simp add: is_numeral_def after_sign_def after_int_def)
next
  case (Cons c cs)
  with assms(2) have "num_char c" by simp
  then have "opens_value c"
    by (auto simp: opens_value_def num_char_def is_dec_def is_json_ws_def)
  with Cons \<open>num_char c\<close> that show ?thesis by blast
qed

lemma canonicalJson_head:
  assumes "json_normal v" "js_numbers v \<subseteq> D" "json_numerals num_text num_of D"
  obtains c cs where "canonicalJson num_text v = c # cs" "opens_value c"
proof (cases v)
  case (JNum n)
  with assms(1) obtain q where "n = Fin q" by auto
  with JNum assms(2,3) have "is_numeral (num_text q)" "list_all num_char (num_text q)"
    by (auto simp: json_numerals_def)
  from numeral_head [OF this] that JNum \<open>n = Fin q\<close> show ?thesis by simp metis
next
  case (JBool b)
  with that show ?thesis by (cases b) (simp_all add: opens_value_def is_json_ws_def)
qed (use assms(1) that in \<open>auto simp: opens_value_def is_json_ws_def json_string_def\<close>)

lemma skip_ws_opens: "opens_value c \<Longrightarrow> skip_ws (c # cs) = c # cs"
  by (simp add: skip_ws_def opens_value_def)

lemma skip_ws_end [simp]:
  "skip_ws (CHR '','' # cs) = CHR '','' # cs" "skip_ws (CHR '']'' # cs) = CHR '']'' # cs"
  "skip_ws (CHR ''}'' # cs) = CHR ''}'' # cs" "skip_ws (CHR '':'' # cs) = CHR '':'' # cs"
  "skip_ws (CHR 0x22 # cs) = CHR 0x22 # cs" "skip_ws [] = []"
  by (simp_all add: skip_ws_def is_json_ws_def)

lemma update_fresh: "k \<notin> fst ` set m \<Longrightarrow> AList.update k v m = m @ [(k, v)]"
  by (induction m) auto

lemma json_object_distinct: "distinct (map fst ps) \<Longrightarrow> json_object ps = JObj ps"
proof -
  have "foldl (\<lambda>m (k, v). AList.update k v m) m ps = m @ ps" if "distinct (map fst (m @ ps))" for m
    using that
  proof (induction ps arbitrary: m)
    case (Cons p ps)
    obtain k v where p: "p = (k, v)" by (cases p)
    have "AList.update k v m = m @ [(k, v)]" using Cons.prems p by (intro update_fresh) auto
    moreover have "distinct (map fst ((m @ [(k, v)]) @ ps))" using Cons.prems p by simp
    ultimately show ?case using Cons.IH [of "m @ [(k, v)]"] p by simp
  qed simp
  from this [of "[]"] show "distinct (map fst ps) \<Longrightarrow> json_object ps = JObj ps"
    by (simp add: json_object_def)
qed

lemma js_join_Cons: "xs \<noteq> [] \<Longrightarrow> js_join sep (x # xs) = x @ sep @ js_join sep xs"
  by (cases xs) auto

lemma json_elems_print:
  assumes "\<And>v n rest. v \<in> set vs \<Longrightarrow> value_end rest \<Longrightarrow> 2 * length (p v) \<le> n \<Longrightarrow>
      json_value num_of n (p v @ rest) = Some (v, rest)"
    and "vs \<noteq> []" "2 * length (js_join '','' (map p vs)) + 2 \<le> n"
  shows "json_elems num_of n (js_join '','' (map p vs) @ CHR '']'' # rest) = Some (vs, rest)"
  using assms
proof (induction vs arbitrary: n)
  case (Cons v vs)
  from Cons.prems(3) obtain m where n: "n = Suc m" by (cases n) auto
  show ?case
  proof (cases vs)
    case Nil
    with Cons.prems n show ?thesis by simp
  next
    case (Cons w ws)
    then have join: "js_join '','' (map p (v # vs)) = p v @ '','' @ js_join '','' (map p vs)"
      by (simp add: js_join_Cons)
    have "json_value num_of m (p v @ '','' @ js_join '','' (map p vs) @ CHR '']'' # rest) =
        Some (v, CHR '','' # js_join '','' (map p vs) @ CHR '']'' # rest)"
      using Cons.prems(1) [of v "CHR '','' # js_join '','' (map p vs) @ CHR '']'' # rest" m] Cons.prems(3) n
      unfolding join by simp
    moreover have "json_elems num_of m (js_join '','' (map p vs) @ CHR '']'' # rest) = Some (vs, rest)"
      using Cons.prems n Cons unfolding join by (intro Cons.IH) auto
    ultimately show ?thesis unfolding join n by simp
  qed
qed simp

definition print_entry :: "(jsval \<Rightarrow> string) \<Rightarrow> string \<times> jsval \<Rightarrow> string" where
  "print_entry p e = json_string (fst e) @ '':'' @ p (snd e)"

lemma json_members_print:
  assumes "\<And>e n rest. e \<in> set ps \<Longrightarrow> value_end rest \<Longrightarrow> 2 * length (p (snd e)) \<le> n \<Longrightarrow>
      json_value num_of n (p (snd e) @ rest) = Some (snd e, rest)"
    and "ps \<noteq> []" "2 * length (js_join '','' (map (print_entry p) ps)) + 2 \<le> n"
  shows "json_members num_of n (js_join '','' (map (print_entry p) ps) @ CHR ''}'' # rest) = Some (ps, rest)"
  using assms
proof (induction ps arbitrary: n)
  case (Cons e ps)
  obtain k v where e: "e = (k, v)" by (cases e)
  from Cons.prems(3) obtain m where n: "n = Suc m" by (cases n) auto
  have entry: "print_entry p (k, v) @ tail = CHR 0x22 # concat (map json_escape k) @ CHR 0x22 # CHR '':'' # p v @ tail" for tail
    by (simp add: print_entry_def json_string_def)
  show ?case
  proof (cases ps)
    case Nil
    have "json_value num_of m (p v @ CHR ''}'' # rest) = Some (v, CHR ''}'' # rest)"
      using Cons.prems(1) [of e "CHR ''}'' # rest" m] Cons.prems(3) n Nil e by (simp add: print_entry_def)
    with Nil n e show ?thesis by (simp add: entry lex_json_string)
  next
    case (Cons w ws)
    then have join: "js_join '','' (map (print_entry p) (e # ps)) =
        print_entry p e @ '','' @ js_join '','' (map (print_entry p) ps)"
      by (simp add: js_join_Cons)
    have "json_value num_of m (p v @ CHR '','' # js_join '','' (map (print_entry p) ps) @ CHR ''}'' # rest) =
        Some (v, CHR '','' # js_join '','' (map (print_entry p) ps) @ CHR ''}'' # rest)"
      using Cons.prems(1) [of e "CHR '','' # js_join '','' (map (print_entry p) ps) @ CHR ''}'' # rest" m]
        Cons.prems(3) n e
      unfolding join by (simp add: print_entry_def)
    moreover have "json_members num_of m (js_join '','' (map (print_entry p) ps) @ CHR ''}'' # rest) = Some (ps, rest)"
      using Cons.prems n Cons unfolding join by (intro Cons.IH) auto
    ultimately show ?thesis unfolding join n by (simp add: entry lex_json_string e)
  qed
qed simp

lemma json_value_print:
  assumes host: "json_numerals num_text num_of D"
  shows "json_normal v \<Longrightarrow> js_numbers v \<subseteq> D \<Longrightarrow> value_end rest \<Longrightarrow>
    2 * length (canonicalJson num_text v) \<le> n \<Longrightarrow>
    json_value num_of n (canonicalJson num_text v @ rest) = Some (v, rest)"
proof (induction v arbitrary: n rest)
  case (JNum x)
  then obtain q where q: "x = Fin q" "q \<in> D" by auto
  then have t: "is_numeral (num_text q)" "list_all num_char (num_text q)" "num_of (num_text q) = Fin q"
    using host by (auto simp: json_numerals_def)
  from numeral_head [OF t(1,2)] obtain c cs where c: "num_text q = c # cs" "num_char c" "opens_value c" .
  from JNum.prems(4) q c obtain m where n: "n = Suc m" by (cases n) auto
  have "c \<notin> {CHR ''{'', CHR ''['', CHR 0x22}" using c(2) by (auto simp: num_char_def is_dec_def)
  with numeral_token [OF t(2) JNum.prems(3)] c q n t show ?case
    by (simp add: skip_ws_opens Let_def)
next
  case (JArr vs)
  let ?p = "canonicalJson num_text"
  have defd: "map (\<lambda>item. ?p (if item = JUndefined then JNull else item)) vs = map ?p vs"
    using JArr.prems(1) by auto
  from JArr.prems(4) obtain m where n: "n = Suc m" by (cases n) auto
  show ?case
  proof (cases vs)
    case Nil
    then show ?thesis using n by (simp add: skip_ws_opens opens_value_def is_json_ws_def)
  next
    case (Cons w ws)
    have "json_elems num_of m (js_join '','' (map ?p vs) @ CHR '']'' # rest) = Some (vs, rest)"
    proof (rule json_elems_print)
      show "json_value num_of k (?p v @ rest') = Some (v, rest')"
        if "v \<in> set vs" "value_end rest'" "2 * length (?p v) \<le> k" for v k rest'
        using JArr.IH [OF that(1) _ _ that(2,3)] JArr.prems(1,2) that(1) by auto
    next
      show "2 * length (js_join '','' (map ?p vs)) + 2 \<le> m"
        using JArr.prems(4) unfolding canonicalJson.simps defd n by simp
    qed (use Cons in simp)
    moreover obtain c cs where c: "?p w = c # cs" "opens_value c"
      using canonicalJson_head [of w D num_text num_of] JArr.prems(1,2) Cons host by auto
    then obtain ds where "js_join '','' (map ?p vs) @ CHR '']'' # rest = c # ds"
      using Cons by (cases ws) auto
    ultimately show ?thesis
      using n c(2) unfolding canonicalJson.simps defd
      by (simp add: skip_ws_opens) (auto simp: opens_value_def skip_ws_opens is_json_ws_def skip_ws_def)
  qed
next
  case (JObj props)
  let ?p = "canonicalJson num_text"
  have sorted: "sorted_wrt str_lt (map fst props)" using JObj.prems(1) by simp
  have "filter (\<lambda>(k, v). v \<noteq> JUndefined) props = props" using JObj.prems(1) by (force intro!: filter_True)
  then have printed: "?p (JObj props) = ''{'' @ js_join '','' (map (print_entry ?p) props) @ ''}''"
    unfolding canonicalJson.simps js_sort_sorted [OF sorted] by (simp add: print_entry_def [abs_def] split_def)
  from JObj.prems(4) printed obtain m where n: "n = Suc m" by (cases n) auto
  show ?case
  proof (cases props)
    case Nil
    then show ?thesis using n by (simp add: skip_ws_opens opens_value_def is_json_ws_def)
  next
    case (Cons e es)
    have "json_members num_of m (js_join '','' (map (print_entry ?p) props) @ CHR ''}'' # rest) = Some (props, rest)"
    proof (rule json_members_print)
      show "json_value num_of k (?p (snd e) @ rest') = Some (snd e, rest')"
        if "e \<in> set props" "value_end rest'" "2 * length (?p (snd e)) \<le> k" for e k rest'
        using JObj.IH [OF that(1) _ _ _ that(2,3)] JObj.prems(1,2) that(1) by (cases e) fastforce
    next
      show "2 * length (js_join '','' (map (print_entry ?p) props)) + 2 \<le> m"
        using JObj.prems(4) unfolding printed n by simp
    qed (use Cons in simp)
    moreover obtain ds where "js_join '','' (map (print_entry ?p) props) @ CHR ''}'' # rest = CHR 0x22 # ds"
      using Cons by (cases es) (auto simp: print_entry_def json_string_def)
    ultimately show ?thesis
      using n json_object_distinct [OF sorted_distinct_keys [OF sorted]] unfolding printed
      by (simp add: skip_ws_opens opens_value_def is_json_ws_def)
  qed
next
  case (JStr t)
  then obtain m where "n = Suc m" by (cases n) (auto simp: json_string_def)
  then show ?case by (simp add: json_string_def lex_json_string)
next
  case (JBool b)
  then obtain m where "n = Suc m" by (cases n) (auto split: if_splits)
  then show ?case by (cases b) (simp_all add: skip_ws_def is_json_ws_def num_char_def is_dec_def)
next
  case JNull
  then obtain m where "n = Suc m" by (cases n) auto
  then show ?case by (simp add: skip_ws_def is_json_ws_def num_char_def is_dec_def)
qed simp

lemma json_parse_print:
  assumes "json_numerals num_text num_of D" "json_normal v" "js_numbers v \<subseteq> D"
  shows "json_parse num_of (canonicalJson num_text v) = Some v"
  using json_value_print [OF assms(1-3), of "[]" "2 * length (canonicalJson num_text v) + 1"]
  by (simp add: json_parse_def)

section \<open>What a canonical text identifies\<close>

lemma js_numbers_norm: "js_numbers (json_norm v) \<subseteq> js_numbers v"
proof (induction v rule: json_norm.induct)
  case (7 props)
  have "js_numbers (json_norm v) \<subseteq> js_numbers v" if "(k, v) \<in> set props" "v \<noteq> JUndefined" for k v
    by (rule 7 [of "(k, v)"]) (use that in auto)
  note member = this
  show ?case
  proof
    fix q assume "q \<in> js_numbers (json_norm (JObj props))"
    then obtain k v where "(k, v) \<in> set props" "v \<noteq> JUndefined" "q \<in> js_numbers (json_norm v)" by auto
    with member have "q \<in> js_numbers v" by blast
    with \<open>(k, v) \<in> set props\<close> show "q \<in> js_numbers (JObj props)" by force
  qed
qed (auto split: jsnum.split)

lemma json_parse_canonical:
  assumes "json_numerals num_text num_of D" "js_wf v" "js_numbers v \<subseteq> D"
  shows "json_parse num_of (canonicalJson num_text v) = Some (json_norm v)"
proof -
  have "js_numbers (json_norm v) \<subseteq> D" using js_numbers_norm assms(3) by blast
  from json_parse_print [OF assms(1) json_norm_normal [OF assms(2)] this]
  show ?thesis by (simp add: canonicalJson_norm [OF assms(2)])
qed

lemma canonicalJson_eq_iff:
  assumes "json_numerals num_text num_of D" "js_wf v" "js_numbers v \<subseteq> D" "js_wf w" "js_numbers w \<subseteq> D"
  shows "canonicalJson num_text v = canonicalJson num_text w \<longleftrightarrow> json_norm v = json_norm w"
  using json_parse_canonical [OF assms(1-3)] json_parse_canonical [OF assms(1,4,5)]
    canonicalJson_norm [OF assms(2), of num_text] canonicalJson_norm [OF assms(4), of num_text] by force

text \<open>The order of the members of an object does not matter.\<close>

lemma sorted_keys_unique:
  assumes "sorted_wrt str_lt (map fst ps)" "sorted_wrt str_lt (map fst qs)" "set ps = set qs"
  shows "ps = qs"
  using assms
proof (induction ps arbitrary: qs)
  case (Cons p ps)
  then obtain q qs' where qs: "qs = q # qs'" by (cases qs) auto
  have "p = q"
  proof (rule ccontr)
    assume "p \<noteq> q"
    with Cons.prems(3) qs have "p \<in> set qs'" "q \<in> set ps" by auto
    with Cons.prems(1,2) qs have "str_lt (fst q) (fst p)" "str_lt (fst p) (fst q)" by auto
    with str_lt_asym show False by blast
  qed
  moreover have "p \<notin> set ps" "q \<notin> set qs'"
    using Cons.prems(1,2) qs by (auto dest: str_lt_irrefl [THEN notE])
  ultimately have "set ps = set qs'" using Cons.prems(3) qs by auto
  with Cons.IH [of qs'] Cons.prems(1,2) qs \<open>p = q\<close> show ?case by simp
qed simp

lemma canonicalJson_key_order:
  assumes "distinct (map fst props)" "distinct (map fst props')" "set props = set props'"
  shows "canonicalJson num_text (JObj props) = canonicalJson num_text (JObj props')"
proof -
  have "js_sort key_cmp props = js_sort key_cmp props'"
    by (rule sorted_keys_unique) (use assms in \<open>simp_all add: distinct_js_sort\<close>)
  then show ?thesis by simp
qed

text \<open>The members of a normalized object.\<close>

definition norm_members :: "(string \<times> jsval) list \<Rightarrow> (string \<times> jsval) list" where
  "norm_members props =
     map (\<lambda>(k, v). (k, json_norm v)) (filter (\<lambda>(k, v). v \<noteq> JUndefined) (js_sort key_cmp props))"

lemma json_norm_object: "json_norm (JObj props) = JObj (norm_members props)"
  by (simp add: norm_members_def)

lemma set_norm_members: "set (norm_members props) = {(k, json_norm v) |k v. (k, v) \<in> set props \<and> v \<noteq> JUndefined}"
  by (auto simp: norm_members_def)

lemma sorted_norm_members: "distinct (map fst props) \<Longrightarrow> sorted_wrt str_lt (map fst (norm_members props))"
  unfolding norm_members_def map_fst_entries by (intro sorted_keys_filter distinct_js_sort)

lemma distinct_norm_members: "distinct (map fst props) \<Longrightarrow> distinct (map fst (norm_members props))"
  by (rule sorted_distinct_keys) (rule sorted_norm_members)

lemma option_eqI: "(\<And>w. a = Some w \<longleftrightarrow> b = Some w) \<Longrightarrow> a = b"
  by (cases a; cases b) auto

lemma map_of_norm_members:
  assumes "distinct (map fst props)"
  shows "map_of (norm_members props) k =
    (case map_of props k of None \<Rightarrow> None | Some v \<Rightarrow> if v = JUndefined then None else Some (json_norm v))"
proof -
  have "map_of (norm_members props) k = Some w \<longleftrightarrow>
      (\<exists>v. map_of props k = Some v \<and> v \<noteq> JUndefined \<and> w = json_norm v)" for w
    using assms by (auto simp: map_of_eq_Some_iff distinct_norm_members set_norm_members)
  then have "map_of (norm_members props) k =
      Option.bind (map_of props k) (\<lambda>v. if v = JUndefined then None else Some (json_norm v))"
    by (intro option_eqI) (auto simp: bind_eq_Some_conv)
  then show ?thesis by (simp split: option.split)
qed

lemma canonicalJson_members:
  assumes "js_wf (JObj props)" "distinct (map fst members)" "set members = set (norm_members props)"
  shows "canonicalJson num_text (JObj members) = canonicalJson num_text (JObj props)"
proof -
  have "canonicalJson num_text (JObj members) = canonicalJson num_text (JObj (norm_members props))"
    using assms by (intro canonicalJson_key_order) (simp_all add: distinct_norm_members)
  with canonicalJson_norm [OF assms(1), of num_text] show ?thesis by (simp add: json_norm_object del: json_norm.simps)
qed

end
