(* ===== verification/Base64.thy ===== *)
theory Base64
  imports Json "HOL-Library.Word"
begin

text \<open>
  Bytes and their texts as \<^verbatim>\<open>packages/core/src/compact-token.ts\<close> uses them: \<^verbatim>\<open>btoa\<close> and \<^verbatim>\<open>atob\<close> of
  the host, the URL-safe variant without padding, and UTF-8 of the modelled code units.
\<close>

type_synonym byte = "8 word"

definition byte_char :: "byte \<Rightarrow> char" where
  "byte_char b = char_of (unat b)"

definition char_byte :: "char \<Rightarrow> byte" where
  "char_byte c = word_of_nat (of_char c)"

lemma char_byte_char [simp]: "char_byte (byte_char b) = b"
proof -
  have "unat b < 256" using unsigned_less [of b] by simp
  then show ?thesis by (simp add: char_byte_def byte_char_def)
qed

lemma map_char_byte_char [simp]: "map char_byte (map byte_char bs) = bs"
  by (simp add: comp_def)

text \<open>\<^verbatim>\<open>TextEncoder\<close>: one byte below 128, two up to 255.\<close>

definition utf8 :: "string \<Rightarrow> byte list" where
  "utf8 s = concat (map (\<lambda>c.
     let n = (of_char c :: nat) in
     if n < 128 then [word_of_nat n] else [word_of_nat (192 + n div 64), word_of_nat (128 + n mod 64)]) s)"

lemma utf8_Nil_iff [simp]: "utf8 s = [] \<longleftrightarrow> s = []"
  by (cases s) (auto simp: utf8_def Let_def)

section \<open>Base64\<close>

definition b64_char :: "nat \<Rightarrow> char" where
  "b64_char n =
     (if n < 26 then char_of (65 + n) else if n < 52 then char_of (71 + n)
      else if n < 62 then char_of (n - 4) else if n = 62 then CHR ''+'' else CHR ''/'')"

definition b64_val :: "char \<Rightarrow> nat option" where
  "b64_val c =
     (let n = (of_char c :: nat) in
      if 65 \<le> n \<and> n \<le> 90 then Some (n - 65)
      else if 97 \<le> n \<and> n \<le> 122 then Some (n - 71)
      else if 48 \<le> n \<and> n \<le> 57 then Some (n + 4)
      else if n = 43 then Some 62 else if n = 47 then Some 63 else None)"

fun btoa :: "string \<Rightarrow> string" where
  "btoa [] = []"
| "btoa [a] =
     (let x = (of_char a :: nat) in
      [b64_char (x div 4), b64_char (x mod 4 * 16), CHR ''='', CHR ''=''])"
| "btoa [a, b] =
     (let x = (of_char a :: nat); y = of_char b in
      [b64_char (x div 4), b64_char (x mod 4 * 16 + y div 16), b64_char (y mod 16 * 4), CHR ''=''])"
| "btoa (a # b # c # rest) =
     (let x = (of_char a :: nat); y = of_char b; z = of_char c in
      b64_char (x div 4) # b64_char (x mod 4 * 16 + y div 16) # b64_char (y mod 16 * 4 + z div 64)
      # b64_char (z mod 64) # btoa rest)"

text \<open>
  \<^verbatim>\<open>atob\<close>, the forgiving decoder: white space is dropped, then at most two padding characters of a
  text whose length is a multiple of four; a rest of one digit, or any other character, fails.
  The bits that do not fill a byte are dropped.
\<close>

definition is_ascii_ws :: "char \<Rightarrow> bool" where
  "is_ascii_ws c \<longleftrightarrow> (of_char c :: nat) \<in> {9, 10, 12, 13, 32}"

definition unpad :: "string \<Rightarrow> string" where
  "unpad s =
     (if length s mod 4 = 0 \<and> s \<noteq> [] \<and> last s = CHR ''=''
      then (let t = butlast s in if t \<noteq> [] \<and> last t = CHR ''='' then butlast t else t)
      else s)"

fun b64_bytes :: "nat list \<Rightarrow> string option" where
  "b64_bytes [] = Some []"
| "b64_bytes [p] = None"
| "b64_bytes [p, q] = Some [char_of (p * 4 + q div 16)]"
| "b64_bytes [p, q, r] = Some [char_of (p * 4 + q div 16), char_of (q mod 16 * 16 + r div 4)]"
| "b64_bytes (p # q # r # s # rest) =
     map_option (\<lambda>bs. char_of (p * 4 + q div 16) # char_of (q mod 16 * 16 + r div 4)
       # char_of (r mod 4 * 64 + s) # bs) (b64_bytes rest)"

fun b64_vals :: "string \<Rightarrow> nat list option" where
  "b64_vals [] = Some []"
| "b64_vals (c # cs) =
     (case (b64_val c, b64_vals cs) of (Some n, Some ns) \<Rightarrow> Some (n # ns) | _ \<Rightarrow> None)"

definition atob :: "string \<Rightarrow> string option" where
  "atob s =
     (case b64_vals (unpad (filter (\<lambda>c. \<not> is_ascii_ws c) s)) of
        None \<Rightarrow> None | Some ns \<Rightarrow> b64_bytes ns)"

section \<open>The URL-safe variant\<close>

definition url_char :: "char \<Rightarrow> char" where
  "url_char c = (if c = CHR ''+'' then CHR ''-'' else if c = CHR ''/'' then CHR ''_'' else c)"

definition unurl_char :: "char \<Rightarrow> char" where
  "unurl_char c = (if c = CHR ''-'' then CHR ''+'' else if c = CHR ''_'' then CHR ''/'' else c)"

definition strip_padding :: "string \<Rightarrow> string" where
  "strip_padding s = rev (dropWhile (\<lambda>c. c = CHR ''='') (rev s))"

definition toBase64Url :: "byte list \<Rightarrow> string" where
  "toBase64Url bytes = strip_padding (map url_char (btoa (map byte_char bytes)))"

definition base64url_char :: "char \<Rightarrow> bool" where
  "base64url_char c \<longleftrightarrow>
     (let n = (of_char c :: nat) in
      (65 \<le> n \<and> n \<le> 90) \<or> (97 \<le> n \<and> n \<le> 122) \<or> (48 \<le> n \<and> n \<le> 57) \<or> n = 95 \<or> n = 45)"

definition BASE64URL_PATTERN :: "string \<Rightarrow> bool" where
  "BASE64URL_PATTERN s \<longleftrightarrow> s \<noteq> [] \<and> list_all base64url_char s"

definition fromBase64Url :: "string \<Rightarrow> byte list option" where
  "fromBase64Url segment =
     (if \<not> BASE64URL_PATTERN segment then None
      else
        (let base64 = map unurl_char segment;
             padded = base64 @ replicate ((4 - length base64 mod 4) mod 4) (CHR ''='') in
         map_option (map char_byte) (atob padded)))"

section \<open>The round trip\<close>

text \<open>The digits of a binary text, six bits each.\<close>

fun b64_digits :: "string \<Rightarrow> nat list" where
  "b64_digits [] = []"
| "b64_digits [a] = (let x = (of_char a :: nat) in [x div 4, x mod 4 * 16])"
| "b64_digits [a, b] =
     (let x = (of_char a :: nat); y = of_char b in [x div 4, x mod 4 * 16 + y div 16, y mod 16 * 4])"
| "b64_digits (a # b # c # rest) =
     (let x = (of_char a :: nat); y = of_char b; z = of_char c in
      x div 4 # (x mod 4 * 16 + y div 16) # (y mod 16 * 4 + z div 64) # (z mod 64) # b64_digits rest)"

lemma char_code_bound: "(of_char c :: nat) < 256"
  by (rule nat_of_char_less_256)

lemma code_bounds: "(of_char c :: nat) div 4 < 64" "(of_char c :: nat) div 16 < 16" "(of_char c :: nat) div 64 < 4"
  using char_code_bound [of c] by (simp_all add: div_less_iff_less_mult)

text \<open>Two digits in base \<open>m\<close> come apart again.\<close>

lemma two_digits: "d < m \<Longrightarrow> (a * m + d) div m = a" "d < m \<Longrightarrow> (a * m + d) mod m = (d :: nat)"
  by simp_all

lemma two_digits_bound: "a < k \<Longrightarrow> d < m \<Longrightarrow> a * m + d < k * (m :: nat)"
proof -
  assume "a < k" "d < m"
  then have "Suc a \<le> k" by simp
  then have "Suc a * m \<le> k * m" by (rule mult_le_mono1)
  with \<open>d < m\<close> show ?thesis by simp
qed

lemma digit_bounds:
  "(of_char a :: nat) mod 4 * 16 + of_char b div 16 < 64" "(of_char a :: nat) mod 16 * 4 + of_char b div 64 < 64"
  using two_digits_bound [of "of_char a mod 4" 4 "of_char b div 16" 16]
    two_digits_bound [of "of_char a mod 16" 16 "of_char b div 64" 4] code_bounds [of b] by simp_all

lemma b64_digits_bound: "n \<in> set (b64_digits s) \<Longrightarrow> n < 64"
proof (induction s rule: b64_digits.induct)
  case (2 a)
  have "(of_char a :: nat) mod 4 * 16 < 64" by simp
  with 2 code_bounds [of a] show ?case by (auto simp: Let_def)
next
  case (3 a b)
  have "(of_char b :: nat) mod 16 * 4 < 64" by simp
  with 3 code_bounds [of a] digit_bounds(1) [of a b] show ?case by (auto simp: Let_def)
next
  case (4 a b c rest)
  with code_bounds [of a] digit_bounds(1) [of a b] digit_bounds(2) [of b c] show ?case by (auto simp: Let_def)
qed simp

lemma b64_bytes_digits: "b64_bytes (b64_digits s) = Some s"
proof (induction s rule: b64_digits.induct)
  case (2 a)
  then show ?case by (simp add: Let_def)
next
  case (3 a b)
  then show ?case by (simp add: Let_def two_digits code_bounds)
next
  case (4 a b c rest)
  then show ?case by (simp add: Let_def two_digits code_bounds)
qed simp

definition padding :: "string \<Rightarrow> string" where
  "padding s = replicate ((3 - length s mod 3) mod 3) (CHR ''='')"

lemma btoa_digits: "btoa s = map b64_char (b64_digits s) @ padding s"
proof (induction s rule: b64_digits.induct)
  case (4 a b c rest)
  have "length (a # b # c # rest) mod 3 = length rest mod 3" by simp
  with 4 show ?case by (simp add: Let_def padding_def)
qed (simp_all add: Let_def padding_def numeral_2_eq_2)

lemma length_digits: "length (map b64_char (b64_digits s)) mod 4 = (4 - length (padding s)) mod 4"
proof (induction s rule: b64_digits.induct)
  case (4 a b c rest)
  have "padding (a # b # c # rest) = padding rest" by (simp add: padding_def)
  with 4 show ?case by (simp add: Let_def)
qed (simp_all add: Let_def padding_def)

definition digit_ok :: "nat \<Rightarrow> bool" where
  "digit_ok n \<longleftrightarrow>
     b64_val (b64_char n) = Some n \<and> unurl_char (url_char (b64_char n)) = b64_char n \<and>
     base64url_char (url_char (b64_char n)) \<and> url_char (b64_char n) \<noteq> CHR ''='' \<and>
     \<not> is_ascii_ws (b64_char n) \<and> b64_char n \<noteq> CHR ''=''"

lemmas digit_facts = digit_ok_def b64_val_def url_char_def unurl_char_def base64url_char_def is_ascii_ws_def
  Let_def char_eq_code

lemma digits_ok: "n < 64 \<Longrightarrow> digit_ok n"
proof -
  assume n: "n < 64"
  consider (upper) "n < 26" | (lower) "26 \<le> n" "n < 52" | (digit) "52 \<le> n" "n < 62" | "n = 62" | "n = 63"
    using n by linarith
  then show ?thesis
  proof cases
    case upper
    then have "b64_char n = char_of (65 + n)" "(of_char (b64_char n) :: nat) = 65 + n" by (simp_all add: b64_char_def)
    then show ?thesis using upper by (simp add: digit_facts)
  next
    case lower
    then have "b64_char n = char_of (71 + n)" "(of_char (b64_char n) :: nat) = 71 + n" by (simp_all add: b64_char_def)
    then show ?thesis using lower by (simp add: digit_facts)
  next
    case digit
    then have "b64_char n = char_of (n - 4)" "(of_char (b64_char n) :: nat) = n - 4" by (simp_all add: b64_char_def)
    then show ?thesis using digit by (auto simp: digit_facts)
  qed (simp_all add: digit_facts b64_char_def)
qed

lemma map_digits:
  assumes "\<And>n. n \<in> set ns \<Longrightarrow> n < 64"
  shows "b64_vals (map b64_char ns) = Some ns" "map unurl_char (map url_char (map b64_char ns)) = map b64_char ns"
    "list_all base64url_char (map url_char (map b64_char ns))"
    "strip_padding (map url_char (map b64_char ns @ replicate k (CHR ''=''))) = map url_char (map b64_char ns)"
    "filter (\<lambda>c. \<not> is_ascii_ws c) (map b64_char ns) = map b64_char ns"
    "\<And>t. t \<in> set (map b64_char ns) \<Longrightarrow> t \<noteq> CHR ''=''"
proof -
  have ok: "digit_ok n" if "n \<in> set ns" for n using assms digits_ok that by blast
  show "b64_vals (map b64_char ns) = Some ns" using ok by (induction ns) (auto simp: digit_ok_def)
  show "map unurl_char (map url_char (map b64_char ns)) = map b64_char ns"
    "list_all base64url_char (map url_char (map b64_char ns))"
    "filter (\<lambda>c. \<not> is_ascii_ws c) (map b64_char ns) = map b64_char ns"
    "\<And>t. t \<in> set (map b64_char ns) \<Longrightarrow> t \<noteq> CHR ''=''"
    using ok by (auto simp: digit_ok_def list_all_iff filter_id_conv)
  have "url_char (CHR ''='') = CHR ''=''" by (simp add: url_char_def)
  moreover have "dropWhile (\<lambda>c. c = CHR ''='') (replicate k (CHR ''='') @ xs) = dropWhile (\<lambda>c. c = CHR ''='') xs" for xs
    by (induction k) auto
  moreover have "dropWhile (\<lambda>c. c = CHR ''='') (rev (map url_char (map b64_char ns))) =
      rev (map url_char (map b64_char ns))"
  proof (cases ns rule: rev_exhaust)
    case (snoc ms m)
    with ok [of m] show ?thesis by (simp add: digit_ok_def)
  qed simp
  ultimately show "strip_padding (map url_char (map b64_char ns @ replicate k (CHR ''=''))) =
      map url_char (map b64_char ns)"
    by (simp add: strip_padding_def)
qed

lemma unpad_replicate:
  assumes "\<And>t. t \<in> set s \<Longrightarrow> t \<noteq> CHR ''=''" "k \<le> 2" "(length s + k) mod 4 = 0"
  shows "unpad (s @ replicate k (CHR ''='')) = s"
proof -
  have last: "s \<noteq> [] \<Longrightarrow> last s \<noteq> CHR ''=''" using assms(1) by simp
  consider "k = 0" | "k = 1" | "k = 2" using assms(2) by linarith
  then show ?thesis
  proof cases
    case 1
    then show ?thesis using last by (auto simp: unpad_def)
  next
    case 2
    with assms(3) have "s \<noteq> []" "length (s @ [CHR ''='']) mod 4 = 0" by auto
    with 2 last show ?thesis by (simp add: unpad_def Let_def butlast_append)
  next
    case 3
    then have two: "s @ replicate k (CHR ''='') = (s @ [CHR ''='']) @ [CHR ''='']" by (simp add: numeral_2_eq_2)
    have "length ((s @ [CHR ''='']) @ [CHR ''='']) mod 4 = 0" using assms(3) 3 by simp
    then show ?thesis unfolding two unpad_def Let_def by (simp only: last_snoc butlast_snoc append_is_Nil_conv
          not_Cons_self2 simp_thms if_True list.simps)
  qed
qed

lemma padding_arith: "l mod 4 = (4 - k) mod 4 \<Longrightarrow> k \<le> 2 \<Longrightarrow> (4 - l mod 4) mod 4 = k \<and> (l + k) mod 4 = (0 :: nat)"
proof -
  assume l: "l mod 4 = (4 - k) mod 4" and "k \<le> 2"
  have sum: "(l + k) mod 4 = (l mod 4 + k) mod 4" by (simp add: mod_add_left_eq)
  from \<open>k \<le> 2\<close> consider "k = 0" | "k = 1" | "k = 2" by linarith
  then show ?thesis using l sum by cases simp_all
qed

lemma atob_btoa: "atob (btoa s) = Some s"
  and padding_length: "(4 - length (map b64_char (b64_digits s)) mod 4) mod 4 = length (padding s)"
proof -
  let ?ns = "b64_digits s" and ?k = "(3 - length s mod 3) mod 3"
  note md = map_digits [of ?ns, OF b64_digits_bound]
  have len: "length (map b64_char ?ns) mod 4 = (4 - ?k) mod 4"
    using length_digits [of s] by (simp add: padding_def)
  have k: "?k \<le> 2" using mod_less_divisor [of 3 "3 - length s mod 3"] by linarith
  note padding_arith [OF len k]
  then have pad: "(4 - length (map b64_char ?ns) mod 4) mod 4 = ?k"
    and "(length (map b64_char ?ns) + ?k) mod 4 = 0" by blast+
  then have "unpad (map b64_char ?ns @ replicate ?k (CHR ''='')) = map b64_char ?ns"
    by (intro unpad_replicate md(6) k)
  moreover have "\<not> is_ascii_ws (CHR ''='')" by code_simp
  then have "filter (\<lambda>c. \<not> is_ascii_ws c) (map b64_char ?ns @ replicate ?k (CHR ''='')) =
      map b64_char ?ns @ replicate ?k (CHR ''='')"
    using md(5) by (simp add: filter_id_conv)
  ultimately show "atob (btoa s) = Some s"
    unfolding atob_def btoa_digits padding_def by (simp only: md(1) option.case b64_bytes_digits)
  show "(4 - length (map b64_char ?ns) mod 4) mod 4 = length (padding s)"
    using pad by (simp add: padding_def)
qed

lemma fromBase64Url_toBase64Url:
  assumes "bs \<noteq> []"
  shows "fromBase64Url (toBase64Url bs) = Some bs"
proof -
  let ?s = "map byte_char bs"
  let ?ns = "b64_digits ?s"
  note md = map_digits [of ?ns, OF b64_digits_bound]
  have url: "toBase64Url bs = map url_char (map b64_char ?ns)"
    unfolding toBase64Url_def btoa_digits padding_def by (rule md(4))
  have "?ns \<noteq> []" using assms by (cases ?s rule: b64_digits.cases) (auto simp: Let_def)
  then have pattern: "BASE64URL_PATTERN (toBase64Url bs)"
    using md(3) unfolding url BASE64URL_PATTERN_def by simp
  have padded: "replicate ((4 - length (map b64_char ?ns) mod 4) mod 4) (CHR ''='') = padding ?s"
    unfolding padding_length by (simp add: padding_def)
  have digits: "map unurl_char (toBase64Url bs) = map b64_char ?ns" unfolding url by (rule md(2))
  have "fromBase64Url (toBase64Url bs) = map_option (map char_byte) (atob (btoa ?s))"
    unfolding fromBase64Url_def Let_def digits padded btoa_digits by (simp only: pattern not_True_eq_False if_False)
  then show ?thesis by (simp only: atob_btoa option.map map_char_byte_char)
qed

interpretation b64: codec toBase64Url fromBase64Url "\<lambda>bs. bs \<noteq> []"
  by unfold_locales (rule fromBase64Url_toBase64Url)

text \<open>The decoder of the texts \<^term>\<open>utf8\<close> writes; other bytes become a question mark.\<close>

fun utf8_text :: "byte list \<Rightarrow> string" where
  "utf8_text [] = []"
| "utf8_text [b] = [if unat b < 128 then byte_char b else CHR ''?'']"
| "utf8_text (a # b # bs) =
     (if unat a < 128 then byte_char a # utf8_text (b # bs)
      else if unat a \<in> {194, 195} \<and> unat b div 64 = 2
      then char_of ((unat a - 192) * 64 + unat b mod 64) # utf8_text bs
      else CHR ''?'' # utf8_text (b # bs))"

lemma unat_byte: "n < 256 \<Longrightarrow> unat (word_of_nat n :: byte) = n"
  by (simp add: unsigned_of_nat take_bit_nat_eq_self)

lemma tail_byte: "r < 64 \<Longrightarrow> (128 + r) div 64 = 2 \<and> (128 + r) mod 64 = (r :: nat)"
  using two_digits [of r 64 2] by simp

lemma utf8_text_low: "unat a < 128 \<Longrightarrow> utf8_text (a # bs) = byte_char a # utf8_text bs"
  by (cases bs) simp_all

lemma utf8_text_pair:
  assumes "a = 194 \<or> a = 195" "r < 64"
  shows "utf8_text (word_of_nat a # word_of_nat (128 + r) # bs) = char_of ((a - 192) * 64 + r) # utf8_text bs"
proof -
  have "unat (word_of_nat a :: byte) = a" "unat (word_of_nat (128 + r) :: byte) = 128 + r"
    using assms by (auto intro!: unat_byte simp del: of_nat_add of_nat_numeral)
  with assms tail_byte [OF assms(2)] show ?thesis by (auto simp del: of_nat_add of_nat_numeral)
qed

lemma utf8_Cons:
  "utf8 (c # s) = (if (of_char c :: nat) < 128 then word_of_nat (of_char c) # utf8 s
    else word_of_nat (192 + of_char c div 64) # word_of_nat (128 + of_char c mod 64) # utf8 s)"
  by (simp add: utf8_def Let_def)

lemma utf8_text_utf8 [simp]: "utf8_text (utf8 s) = s"
proof (induction s)
  case (Cons c s)
  show ?case
  proof (cases "(of_char c :: nat) < 128")
    case True
    then have "utf8_text (word_of_nat (of_char c) # utf8 s) = c # utf8_text (utf8 s)"
      by (subst utf8_text_low) (simp_all add: unat_byte byte_char_def)
    with True Cons show ?thesis by (simp add: utf8_Cons)
  next
    case False
    have "192 + of_char c div 64 = (194 :: nat) \<or> 192 + of_char c div 64 = (195 :: nat)"
      using False code_bounds(3) [of c] by auto
    from utf8_text_pair [OF this, of "of_char c mod 64"] False Cons show ?thesis
      by (simp only: utf8_Cons if_False mod_less_divisor zero_less_numeral diff_add_inverse div_mult_mod_eq
          char_of_char simp_thms)
  qed
qed (simp add: utf8_def)

end
