(* ===== verification/FlowAccount.thy ===== *)
theory FlowAccount
  imports Evaluation
begin

text \<open>
  What the flow state says of the required questions: the account over the visible entries,
  field by field, and the current step.
\<close>

definition required_in :: "(question_id \<times> question_definition) list \<Rightarrow> visible_entry \<Rightarrow> bool" where
  "required_in defs e = (case map_of defs (v_question e) of None \<Rightarrow> False | Some d \<Rightarrow> required d)"

text \<open>The three cases of one entry: unknown or optional, required and answered, required and not.\<close>

lemma account_entry_optional:
  assumes "\<not> required_in defs e"
  shows "requiredOrder (account_entry defs can acc e) = requiredOrder acc"
    "requiredMissing (account_entry defs can acc e) = requiredMissing acc"
    "missingEntries (account_entry defs can acc e) = missingEntries acc"
    "answeredEntries (account_entry defs can acc e) = answeredEntries acc"
    "firstMissingRequiredStep (account_entry defs can acc e) = firstMissingRequiredStep acc"
  using assms by (auto simp: account_entry_def required_in_def Let_def split: option.splits)

lemma account_entry_required:
  assumes "required_in defs e"
  shows "requiredOrder (account_entry defs can acc e) =
      (if v_question e \<in> set (requiredOrder acc) then requiredOrder acc else requiredOrder acc @ [v_question e])"
    "requiredMissing (account_entry defs can acc e) =
      (if entry_answered can e then requiredMissing acc else List.insert (v_question e) (requiredMissing acc))"
    "missingEntries (account_entry defs can acc e) =
      missingEntries acc @ (if entry_answered can e then [] else [(v_question e, v_instance e)])"
    "answeredEntries (account_entry defs can acc e) =
      answeredEntries acc @ (if entry_answered can e then [(v_question e, v_instance e)] else [])"
    "firstMissingRequiredStep (account_entry defs can acc e) =
      (case firstMissingRequiredStep acc of
         None \<Rightarrow> if entry_answered can e then None else Some (v_step e) | Some s \<Rightarrow> Some s)"
  using assms by (auto simp: account_entry_def required_in_def Let_def split: option.splits)

lemma account_entry_unanswered:
  "set (unansweredSteps (account_entry defs can acc e)) =
     set (unansweredSteps acc) \<union>
       (if map_of defs (v_question e) \<noteq> None \<and> \<not> entry_answered can e then {v_step e} else {})"
  by (auto simp: account_entry_def Let_def split: option.splits)

abbreviation run_account where
  "run_account defs can es acc \<equiv> foldl (account_entry defs can) acc es"

lemma account_required:
  "set (requiredOrder (run_account defs can es acc)) =
     set (requiredOrder acc) \<union> v_question ` {e \<in> set es. required_in defs e}"
  "set (requiredMissing (run_account defs can es acc)) =
     set (requiredMissing acc) \<union> v_question ` {e \<in> set es. required_in defs e \<and> \<not> entry_answered can e}"
  "distinct (requiredOrder acc) \<Longrightarrow> distinct (requiredOrder (run_account defs can es acc))"
proof (induction es arbitrary: acc)
  case (Cons e es)
  { case 1 show ?case using Cons.IH(1)
      by (cases "required_in defs e") (auto simp: account_entry_optional account_entry_required) }
  { case 2 show ?case using Cons.IH(2)
      by (cases "required_in defs e") (auto simp: account_entry_optional account_entry_required) }
  { case 3 then show ?case using Cons.IH(3)
      by (cases "required_in defs e") (auto simp: account_entry_optional account_entry_required) }
qed auto

definition as_required :: "visible_entry \<Rightarrow> required_entry" where
  "as_required e = (v_question e, v_instance e)"

lemma account_entries:
  "missingEntries (run_account defs can es acc) =
     missingEntries acc @ map as_required (filter (\<lambda>e. required_in defs e \<and> \<not> entry_answered can e) es)"
  "answeredEntries (run_account defs can es acc) =
     answeredEntries acc @ map as_required (filter (\<lambda>e. required_in defs e \<and> entry_answered can e) es)"
  "firstMissingRequiredStep (run_account defs can es acc) =
     (case firstMissingRequiredStep acc of
        None \<Rightarrow> map_option v_step (List.find (\<lambda>e. required_in defs e \<and> \<not> entry_answered can e) es)
      | Some s \<Rightarrow> Some s)"
proof (induction es arbitrary: acc)
  case Nil
  { case 1 show ?case by simp }
  { case 2 show ?case by simp }
  { case 3 show ?case by (simp split: option.split) }
next
  case (Cons e es)
  { case 1 show ?case using Cons.IH(1)
      by (cases "required_in defs e") (auto simp: account_entry_optional account_entry_required as_required_def) }
  { case 2 show ?case using Cons.IH(2)
      by (cases "required_in defs e") (auto simp: account_entry_optional account_entry_required as_required_def) }
  { case 3 show ?case using Cons.IH(3)
      by (cases "required_in defs e")
         (auto simp: account_entry_optional account_entry_required split: option.split) }
qed

lemma account_unanswered:
  "set (unansweredSteps (run_account defs can es acc)) =
     set (unansweredSteps acc) \<union>
       v_step ` {e \<in> set es. map_of defs (v_question e) \<noteq> None \<and> \<not> entry_answered can e}"
  by (induction es arbitrary: acc) (auto simp: account_entry_unanswered)

section \<open>The account of an evaluation\<close>

definition required_q :: "resolve_question \<Rightarrow> visible_entry \<Rightarrow> bool" where
  "required_q res e \<longleftrightarrow> (\<exists>d. res (v_question e) = Some d \<and> required d)"

definition answered :: "normalizer \<Rightarrow> answer_map \<Rightarrow> visible_entry \<Rightarrow> bool" where
  "answered nfc answers e \<longleftrightarrow> present nfc answers (entry_key e) \<noteq> None"

lemma map_of_form_questions:
  "map_of (form_questions f res) q = (if q \<in> set (form_pins f) then res q else None)"
proof -
  have "map_of (foldl (\<lambda>m q. case res q of None \<Rightarrow> m | Some d \<Rightarrow> AList.update q d m) m qs) q =
      (if q \<in> set qs \<and> res q \<noteq> None then res q else map_of m q)" for m qs
    by (induction qs arbitrary: m) (auto split: option.splits)
  then show ?thesis by (auto simp: form_questions_def documentOrder_questions)
qed

lemma pos_entries_key:
  assumes "p \<in> set (documentOrder f)" "e \<in> set (pos_entries ros p)"
  shows "entry_key e \<in> fst ` set (answer_keys (documentOrder f) ros)" "v_question e \<in> set (form_pins f)"
    "v_step e \<in> stepId ` set (f_steps f)"
proof -
  from assms(2) obtain inst where "(inst \<in> Some ` set (case dp_group p of None \<Rightarrow> [] | Some g \<Rightarrow> ros g)) \<or>
      (dp_group p = None \<and> inst = None)" and e: "e = entry_at p inst"
    by (auto simp: pos_entries_def pos_instances_def split: option.splits)
  then have "entry_key e \<in> fst ` set (case dp_group p of
         None \<Rightarrow> [(dp_question p, dp_question p)]
       | Some g \<Rightarrow> map (\<lambda>i. (answerKey (dp_question p) (Some i), dp_question p)) (ros g))"
    by (force simp: entry_key_def split: option.splits)
  with assms(1) show "entry_key e \<in> fst ` set (answer_keys (documentOrder f) ros)"
    by (fastforce simp: answer_keys_def)
  have "v_question e \<in> dp_question ` set (documentOrder f)" using assms(1) e by simp
  then show "v_question e \<in> set (form_pins f)" by (simp add: documentOrder_questions [symmetric])
  have "dp_step p \<in> stepId ` set (f_steps f)"
    using assms(1) by (auto simp: set_documentOrder set_item_positions)
  then show "v_step e \<in> stepId ` set (f_steps f)" using e by simp
qed

lemma flow_entries:
  assumes "evaluate_form nfc f answers res rs = Inr flow" "e \<in> set (visible flow)"
  shows "required_in (form_questions f res) e \<longleftrightarrow> required_q res e"
    "entry_answered (e_canonical (form_env nfc f answers rs)) e \<longleftrightarrow> answered nfc answers e"
    "map_of (form_questions f res) (v_question e) \<noteq> None" "v_step e \<in> stepId ` set (f_steps f)"
proof -
  from evaluate_form_visible [OF assms(1)] obtain st where
    st: "walk_form (form_env nfc f answers rs) f = Inr st" "visible flow = w_visible st" by blast
  with walk_form_appends [OF st(1)] assms(2) obtain p where
    p: "p \<in> set (documentOrder f)" "e \<in> set (pos_entries (rosterOf rs) p)" by auto
  note key = pos_entries_key [OF p]
  show "required_in (form_questions f res) e \<longleftrightarrow> required_q res e"
    using key(2) by (auto simp: required_in_def required_q_def map_of_form_questions split: option.splits)
  show "entry_answered (e_canonical (form_env nfc f answers rs)) e \<longleftrightarrow> answered nfc answers e"
    using key(1) by (auto simp: entry_answered_def answered_def canonical_env entry_key_def [symmetric])
  show "map_of (form_questions f res) (v_question e) \<noteq> None"
    using key(2) assms(1) by (auto simp: map_of_form_questions evaluate_form_Inr_iff)
  show "v_step e \<in> stepId ` set (f_steps f)" by (rule key(3))
qed

lemma flow_account:
  assumes "evaluate_form nfc f answers res rs = Inr flow"
  shows "set (missingRequired flow) =
      v_question ` {e \<in> set (visible flow). required_q res e \<and> \<not> answered nfc answers e}"
    "set (answeredRequired flow) =
      v_question ` {e \<in> set (visible flow). required_q res e} - set (missingRequired flow)"
    "distinct (missingRequired flow)" "distinct (answeredRequired flow)"
    "complete flow \<longleftrightarrow> missingRequired flow = []"
proof -
  let ?defs = "form_questions f res" and ?can = "e_canonical (form_env nfc f answers rs)"
  from assms obtain st where flow: "flow = flow_of f (rosterOf rs) ?defs ?can st"
    by (auto simp: evaluate_form_Inr_iff)
  let ?acc = "run_account ?defs ?can (visible flow) no_account"
  have missing: "missingRequired flow = filter (\<lambda>q. q \<in> set (requiredMissing ?acc)) (requiredOrder ?acc)"
    and answered: "answeredRequired flow = filter (\<lambda>q. q \<notin> set (requiredMissing ?acc)) (requiredOrder ?acc)"
    by (simp_all add: flow flow_of_def Let_def)
  have "{e \<in> set (visible flow). required_in ?defs e} = {e \<in> set (visible flow). required_q res e}"
    "{e \<in> set (visible flow). required_in ?defs e \<and> \<not> entry_answered ?can e} =
     {e \<in> set (visible flow). required_q res e \<and> \<not> FlowAccount.answered nfc answers e}"
    using flow_entries [OF assms] by auto
  note sets = account_required(1,2) [of ?defs ?can no_account "visible flow", unfolded this]
  show "set (missingRequired flow) =
      v_question ` {e \<in> set (visible flow). required_q res e \<and> \<not> FlowAccount.answered nfc answers e}"
    unfolding missing set_filter sets by (auto simp: no_account_def)
  show "set (answeredRequired flow) =
      v_question ` {e \<in> set (visible flow). required_q res e} - set (missingRequired flow)"
    unfolding missing answered set_filter sets by (auto simp: no_account_def)
  have "distinct (requiredOrder ?acc)" by (rule account_required(3)) (simp add: no_account_def)
  then show "distinct (missingRequired flow)" "distinct (answeredRequired flow)"
    by (simp_all add: missing answered)
  show "complete flow \<longleftrightarrow> missingRequired flow = []" by (simp add: flow flow_of_def Let_def)
qed

section \<open>The current step\<close>

lemma flow_current_missing:
  assumes "evaluate_form nfc f answers res rs = Inr flow"
    and first: "List.find (\<lambda>e. required_q res e \<and> \<not> answered nfc answers e) (visible flow) = Some e"
  shows "currentStep flow = Some (v_step e)"
proof -
  let ?defs = "form_questions f res" and ?can = "e_canonical (form_env nfc f answers rs)"
  from assms(1) obtain st where flow: "flow = flow_of f (rosterOf rs) ?defs ?can st"
    by (auto simp: evaluate_form_Inr_iff)
  have "List.find (\<lambda>e. required_in ?defs e \<and> \<not> entry_answered ?can e) (visible flow) = Some e"
    using flow_entries [OF assms(1)] first by (metis (mono_tags, lifting) find_cong)
  then have "firstMissingRequiredStep (run_account ?defs ?can (visible flow) no_account) = Some (v_step e)"
    by (simp add: account_entries no_account_def)
  then show ?thesis by (simp add: flow flow_of_def Let_def)
qed

lemma flow_no_current_step:
  assumes "evaluate_form nfc f answers res rs = Inr flow" "currentStep flow = None" "e \<in> set (visible flow)"
  shows "answered nfc answers e"
proof (rule ccontr)
  let ?defs = "form_questions f res" and ?can = "e_canonical (form_env nfc f answers rs)"
  from assms(1) obtain st where flow: "flow = flow_of f (rosterOf rs) ?defs ?can st"
    by (auto simp: evaluate_form_Inr_iff)
  assume "\<not> answered nfc answers e"
  with flow_entries [OF assms(1,3)] assms(3)
  have "v_step e \<in> set (unansweredSteps (run_account ?defs ?can (visible flow) no_account))"
    by (auto simp: account_unanswered)
  moreover have "v_step e \<in> set (visibleSteps flow)"
    using assms(3) flow_entries(4) [OF assms(1,3)] by (auto simp: flow flow_of_def Let_def)
  moreover have "sid \<notin> set (unansweredSteps (run_account ?defs ?can (visible flow) no_account))"
    if "sid \<in> set (visibleSteps flow)" for sid
    using assms(2) that by (simp add: flow flow_of_def Let_def find_None_iff split: option.splits) blast
  ultimately show False by blast
qed

end
