(* ===== verification/PrepareSubmission.thy ===== *)
theory PrepareSubmission
  imports Base64 CompileChecks FlowAccount
begin

text \<open>
  \<^verbatim>\<open>packages/core/src/prepare-submission.ts\<close>: the sweep that validates and locks a submission
  against a published snapshot, and the hash over what it locked. The snapshot comes twice, as
  the record and as the untyped object the evaluator parses; the answers are the entries of a
  map in insertion order. The regular expressions, the locale-aware string comparison, the
  spelling of numbers and SHA-256 are the host's.
\<close>

section \<open>Errors and results\<close>

datatype submission_error =
    MISSING_REQUIRED question_id "instance_id option"
  | INVALID_ANSWER question_id "instance_id option" "validation_error list"
  | UNKNOWN_QUESTION question_id "instance_id option"
  | REPEAT_COUNT_OUT_OF_RANGE group_id nat
  | FLOW_EVALUATION_FAILED eval_error

record locked_answer =
  la_question :: question_id
  la_instance :: "instance_id option"
  la_value :: answer_value

record locked_submission =
  lk_answers :: "locked_answer list"
  lk_flowState :: flow_state
  lk_contentHash :: string

record submission_host =
  s_nfc :: normalizer
  s_regex :: regex_engine
  s_decode :: "jsval \<Rightarrow> issue list + form_definition"
  s_compare :: "string \<Rightarrow> string \<Rightarrow> int"
  s_num_text :: "rat \<Rightarrow> string"
  s_sha256 :: "byte list \<Rightarrow> byte list"

section \<open>The content hash\<close>

definition byte_hex :: "byte \<Rightarrow> string" where
  "byte_hex b = [hex_digit (unat b div 16), hex_digit (unat b mod 16)]"

definition computeContentHash :: "submission_host \<Rightarrow> jsval \<Rightarrow> string" where
  "computeContentHash H content =
     concat (map byte_hex (s_sha256 H (utf8 (canonicalJson (s_num_text H) content))))"

text \<open>The objects the hash is taken over. An absent instance is an absent member.\<close>

definition optional_member :: "string \<Rightarrow> jsval option \<Rightarrow> (string \<times> jsval) list" where
  "optional_member k v = (case v of None \<Rightarrow> [] | Some x \<Rightarrow> [(k, x)])"

definition nullable :: "string option \<Rightarrow> jsval" where
  "nullable v = (case v of None \<Rightarrow> JNull | Some s \<Rightarrow> JStr s)"

definition locked_js :: "locked_answer \<Rightarrow> jsval" where
  "locked_js a =
     JObj ([(''questionId'', JStr (la_question a))]
       @ optional_member ''instanceId'' (map_option JStr (la_instance a))
       @ [(''value'', av_to_js (la_value a))])"

definition entry_js :: "visible_entry \<Rightarrow> jsval" where
  "entry_js e =
     JObj ([(''stepId'', JStr (v_step e)), (''questionId'', JStr (v_question e))]
       @ optional_member ''instanceId'' (map_option JStr (v_instance e)))"

definition strings_js :: "string list \<Rightarrow> jsval" where
  "strings_js ss = JArr (map JStr ss)"

definition pair_js :: "string \<Rightarrow> string \<times> string option \<Rightarrow> jsval" where
  "pair_js k p = JObj [(k, JStr (fst p)), (''instanceId'', nullable (snd p))]"

definition roster_js :: "group_id \<times> instance_id list \<Rightarrow> jsval" where
  "roster_js p = JObj [(''groupId'', JStr (fst p)), (''instances'', strings_js (snd p))]"

definition flow_js :: "flow_state \<Rightarrow> jsval" where
  "flow_js flow =
     JObj ([(''visible'', JArr (map entry_js (visible flow))),
            (''visibleSteps'', strings_js (visibleSteps flow)),
            (''currentStep'', nullable (currentStep flow)),
            (''answeredRequired'', strings_js (answeredRequired flow)),
            (''missingRequired'', strings_js (missingRequired flow)),
            (''complete'', JBool (complete flow))]
       @ optional_member ''visibleStepViews''
           (map_option (\<lambda>vs. JArr (map (pair_js ''stepId'') vs)) (visibleStepViews flow))
       @ optional_member ''missingRequiredInstances''
           (map_option (\<lambda>vs. JArr (map (pair_js ''questionId'') vs)) (missingRequiredInstances flow))
       @ optional_member ''answeredRequiredInstances''
           (map_option (\<lambda>vs. JArr (map (pair_js ''questionId'') vs)) (answeredRequiredInstances flow))
       @ optional_member ''rosters'' (map_option (\<lambda>rs. JArr (map roster_js rs)) (rosters flow)))"

definition content_js :: "locked_answer list \<Rightarrow> flow_state \<Rightarrow> jsval" where
  "content_js locked flow =
     JObj [(''answers'', JArr (map locked_js locked)), (''flowState'', flow_js flow)]"

section \<open>The sweep\<close>

definition snapshot_definitions :: "frozen_snapshot \<Rightarrow> (question_id \<times> question_definition) list" where
  "snapshot_definitions snap =
     foldl (\<lambda>m record. AList.update (rec_questionId record) (rec_definition record) m) [] (snap_questions snap)"

text \<open>\<^verbatim>\<open>isBlankAnswerValue\<close> on the raw value of the map.\<close>

definition blank_raw :: "jsval \<Rightarrow> bool" where
  "blank_raw v = (case v of JStr s \<Rightarrow> js_trim s = [] | _ \<Rightarrow> False)"

record sweep_state =
  sw_errors :: "submission_error list"
  sw_locked :: "locked_answer list"

definition sweep_entry ::
  "submission_host \<Rightarrow> (question_id \<times> question_definition) list \<Rightarrow> (answer_key \<times> jsval) list \<Rightarrow>
     sweep_state \<Rightarrow> visible_entry \<Rightarrow> sweep_state" where
  "sweep_entry H definitions answers st e =
     (case map_of definitions (v_question e) of
        None \<Rightarrow> st
      | Some definition \<Rightarrow>
          (case map_of answers (answerKey (v_question e) (v_instance e)) of
             Some answer \<Rightarrow>
               if blank_raw answer then
                 (if required definition
                  then st\<lparr>sw_errors := sw_errors st @ [MISSING_REQUIRED (v_question e) (v_instance e)]\<rparr> else st)
               else
                 (case validateAnswer (s_nfc H) (s_regex H) definition answer of
                    Inr value \<Rightarrow>
                      st\<lparr>sw_locked := sw_locked st @
                        [\<lparr>la_question = v_question e, la_instance = v_instance e, la_value = value\<rparr>]\<rparr>
                  | Inl es \<Rightarrow>
                      st\<lparr>sw_errors := sw_errors st @ [INVALID_ANSWER (v_question e) (v_instance e) es]\<rparr>)
           | None \<Rightarrow>
               if required definition
               then st\<lparr>sw_errors := sw_errors st @ [MISSING_REQUIRED (v_question e) (v_instance e)]\<rparr> else st))"

definition count_error :: "roster_map \<Rightarrow> repeat_group \<Rightarrow> submission_error list" where
  "count_error rs g =
     (let count = length (rosterOf rs (groupId g)); bounds = countBounds (g_count g) in
      if int count < fst bounds \<or> (case snd bounds of None \<Rightarrow> False | Some mx \<Rightarrow> mx < int count)
      then [REPEAT_COUNT_OUT_OF_RANGE (groupId g) count] else [])"

definition checkRepeatCounts :: "frozen_snapshot \<Rightarrow> roster_map \<Rightarrow> submission_error list" where
  "checkRepeatCounts snapshot rs =
     concat (map (count_error rs) (repeatGroups (f_steps (snap_definition snapshot))))"

definition unknownQuestionError :: "instance_id option \<times> question_id \<Rightarrow> submission_error" where
  "unknownQuestionError parts = UNKNOWN_QUESTION (snd parts) (fst parts)"

definition unknown_parts ::
  "submission_host \<Rightarrow> frozen_snapshot \<Rightarrow> (answer_key \<times> jsval) list \<Rightarrow> (instance_id option \<times> question_id) list" where
  "unknown_parts H snapshot answers =
     (let pinned = map dp_question (documentOrder (snap_definition snapshot)) in
      js_sort (\<lambda>left right. s_compare H (snd left) (snd right))
        (filter (\<lambda>parts. snd parts \<notin> set pinned) (map (answerKeyParts \<circ> fst) answers)))"

definition prepareSubmission ::
  "submission_host \<Rightarrow> jsval \<Rightarrow> frozen_snapshot \<Rightarrow> (answer_key \<times> jsval) list \<Rightarrow> roster_map \<Rightarrow>
     (submission_error list, locked_submission) result" where
  "prepareSubmission H raw snapshot answers rs =
     (let definitions = snapshot_definitions snapshot;
          unknown = unknown_parts H snapshot answers in
      case evaluateRules (s_nfc H) (s_decode H) raw (map_of answers) (map_of definitions) rs of
        Inl cause \<Rightarrow> err (FLOW_EVALUATION_FAILED cause # map unknownQuestionError unknown)
      | Inr flowState \<Rightarrow>
          let swept = foldl (sweep_entry H definitions answers) \<lparr>sw_errors = [], sw_locked = []\<rparr> (visible flowState);
              errors = sw_errors swept @ checkRepeatCounts snapshot rs @ map unknownQuestionError unknown in
          if length errors > 0 then err errors
          else ok \<lparr>lk_answers = sw_locked swept, lk_flowState = flowState,
                  lk_contentHash = computeContentHash H (content_js (sw_locked swept) flowState)\<rparr>)"

section \<open>What the sweep finds\<close>

definition given :: "(answer_key \<times> jsval) list \<Rightarrow> visible_entry \<Rightarrow> jsval option" where
  "given answers e =
     (case map_of answers (entry_key e) of None \<Rightarrow> None | Some a \<Rightarrow> if blank_raw a then None else Some a)"

definition entry_errors ::
  "submission_host \<Rightarrow> resolve_question \<Rightarrow> (answer_key \<times> jsval) list \<Rightarrow> visible_entry \<Rightarrow> submission_error list" where
  "entry_errors H res answers e =
     (case (res (v_question e), given answers e) of
        (None, _) \<Rightarrow> []
      | (Some d, None) \<Rightarrow> if required d then [MISSING_REQUIRED (v_question e) (v_instance e)] else []
      | (Some d, Some a) \<Rightarrow>
          (case validateAnswer (s_nfc H) (s_regex H) d a of
             Inl es \<Rightarrow> [INVALID_ANSWER (v_question e) (v_instance e) es] | Inr _ \<Rightarrow> []))"

definition entry_locked ::
  "submission_host \<Rightarrow> resolve_question \<Rightarrow> (answer_key \<times> jsval) list \<Rightarrow> visible_entry \<Rightarrow> locked_answer option" where
  "entry_locked H res answers e =
     (case (res (v_question e), given answers e) of
        (Some d, Some a) \<Rightarrow>
          (case validateAnswer (s_nfc H) (s_regex H) d a of
             Inr v \<Rightarrow> Some \<lparr>la_question = v_question e, la_instance = v_instance e, la_value = v\<rparr>
           | Inl _ \<Rightarrow> None)
      | _ \<Rightarrow> None)"

lemma sweep_entry_contributes:
  "sweep_entry H defs answers st e =
     \<lparr>sw_errors = sw_errors st @ entry_errors H (map_of defs) answers e,
      sw_locked = sw_locked st @ (case entry_locked H (map_of defs) answers e of None \<Rightarrow> [] | Some a \<Rightarrow> [a])\<rparr>"
  by (cases st) (auto simp: sweep_entry_def entry_errors_def entry_locked_def given_def entry_key_def
      split: option.split sum.split)

lemma sweep_all:
  "foldl (sweep_entry H defs answers) st es =
     \<lparr>sw_errors = sw_errors st @ concat (map (entry_errors H (map_of defs) answers) es),
      sw_locked = sw_locked st @ List.map_filter (entry_locked H (map_of defs) answers) es\<rparr>"
proof (induction es arbitrary: st)
  case (Cons e es)
  then show ?case
    by (simp add: sweep_entry_contributes List.map_filter_simps split: option.split)
qed (simp add: List.map_filter_simps)

definition count_legal :: "roster_map \<Rightarrow> repeat_group \<Rightarrow> bool" where
  "count_legal rs g \<longleftrightarrow>
     fst (countBounds (g_count g)) \<le> int (length (rosterOf rs (groupId g))) \<and>
     (\<forall>mx. snd (countBounds (g_count g)) = Some mx \<longrightarrow> int (length (rosterOf rs (groupId g))) \<le> mx)"

lemma count_error_alt:
  "count_error rs g =
     (if count_legal rs g then [] else [REPEAT_COUNT_OUT_OF_RANGE (groupId g) (length (rosterOf rs (groupId g)))])"
  by (cases "snd (countBounds (g_count g))") (auto simp: count_error_def count_legal_def Let_def)

lemma count_error_Nil_iff: "count_error rs g = [] \<longleftrightarrow> count_legal rs g"
  by (simp add: count_error_alt)

lemma checkRepeatCounts_Nil_iff [check_simps]:
  "checkRepeatCounts snap rs = [] \<longleftrightarrow> (\<forall>g \<in> set (repeatGroups (f_steps (snap_definition snap))). count_legal rs g)"
  by (simp add: checkRepeatCounts_def count_error_Nil_iff)

lemma set_unknown_parts:
  "set (unknown_parts H snap answers) =
     {answerKeyParts k |k. k \<in> fst ` set answers \<and> snd (answerKeyParts k) \<notin> set (form_pins (snap_definition snap))}"
  by (auto simp: unknown_parts_def Let_def documentOrder_questions)

lemma unknown_parts_Nil_iff [check_simps]:
  "unknown_parts H snap answers = [] \<longleftrightarrow>
     (\<forall>k \<in> fst ` set answers. snd (answerKeyParts k) \<in> set (form_pins (snap_definition snap)))"
  unfolding set_empty [symmetric] set_unknown_parts by blast

lemma prepareSubmission_flow:
  assumes "evaluateRules (s_nfc H) (s_decode H) raw (map_of answers) (map_of (snapshot_definitions snap)) rs = Inr flow"
  defines "errors \<equiv> concat (map (entry_errors H (map_of (snapshot_definitions snap)) answers) (visible flow))
    @ checkRepeatCounts snap rs @ map unknownQuestionError (unknown_parts H snap answers)"
    and "locked \<equiv> List.map_filter (entry_locked H (map_of (snapshot_definitions snap)) answers) (visible flow)"
  shows "prepareSubmission H raw snap answers rs =
    (if errors \<noteq> [] then err errors
     else ok \<lparr>lk_answers = locked, lk_flowState = flow, lk_contentHash = computeContentHash H (content_js locked flow)\<rparr>)"
  using assms by (simp add: prepareSubmission_def Let_def sweep_all)

section \<open>What may be submitted\<close>

text \<open>
  The specification: every visible entry whose question is known is answered by a valid answer
  or is optional and left open, every group has a legal number of instances, and every answer
  belongs to a question of the form.
\<close>

definition entry_fine ::
  "submission_host \<Rightarrow> resolve_question \<Rightarrow> (answer_key \<times> jsval) list \<Rightarrow> visible_entry \<Rightarrow> bool" where
  "entry_fine H res answers e \<longleftrightarrow>
     (\<forall>d. res (v_question e) = Some d \<longrightarrow>
        (case given answers e of
           None \<Rightarrow> \<not> required d
         | Some a \<Rightarrow> \<exists>v. validateAnswer (s_nfc H) (s_regex H) d a = Inr v))"

definition submittable ::
  "submission_host \<Rightarrow> frozen_snapshot \<Rightarrow> (answer_key \<times> jsval) list \<Rightarrow> roster_map \<Rightarrow> flow_state \<Rightarrow> bool" where
  "submittable H snap answers rs flow \<longleftrightarrow>
     (\<forall>e \<in> set (visible flow). entry_fine H (map_of (snapshot_definitions snap)) answers e) \<and>
     (\<forall>g \<in> set (repeatGroups (f_steps (snap_definition snap))). count_legal rs g) \<and>
     (\<forall>k \<in> fst ` set answers. snd (answerKeyParts k) \<in> set (form_pins (snap_definition snap)))"

definition locked_of ::
  "submission_host \<Rightarrow> frozen_snapshot \<Rightarrow> (answer_key \<times> jsval) list \<Rightarrow> flow_state \<Rightarrow> locked_answer list" where
  "locked_of H snap answers flow =
     List.map_filter (entry_locked H (map_of (snapshot_definitions snap)) answers) (visible flow)"

lemma entry_errors_Nil_iff [check_simps]: "entry_errors H res answers e = [] \<longleftrightarrow> entry_fine H res answers e"
  by (auto simp: entry_errors_def entry_fine_def split: option.splits sum.splits)

lemma entry_errors_iff:
  "x \<in> set (entry_errors H res answers e) \<longleftrightarrow>
     (\<exists>d. res (v_question e) = Some d \<and>
        ((given answers e = None \<and> required d \<and> x = MISSING_REQUIRED (v_question e) (v_instance e)) \<or>
         (\<exists>a es. given answers e = Some a \<and> validateAnswer (s_nfc H) (s_regex H) d a = Inl es \<and>
            x = INVALID_ANSWER (v_question e) (v_instance e) es)))"
proof (cases "res (v_question e)")
  case (Some d)
  then show ?thesis
    by (cases "given answers e")
       (auto simp: entry_errors_def split: sum.splits)
qed (simp add: entry_errors_def)

lemma prepareSubmission_Inr_iff:
  "prepareSubmission H raw snap answers rs = Inr locked \<longleftrightarrow>
     (\<exists>flow. evaluateRules (s_nfc H) (s_decode H) raw (map_of answers) (map_of (snapshot_definitions snap)) rs
          = Inr flow \<and>
        submittable H snap answers rs flow \<and>
        locked = \<lparr>lk_answers = locked_of H snap answers flow, lk_flowState = flow,
                  lk_contentHash = computeContentHash H (content_js (locked_of H snap answers flow) flow)\<rparr>)"
proof (cases "evaluateRules (s_nfc H) (s_decode H) raw (map_of answers) (map_of (snapshot_definitions snap)) rs")
  case (Inl cause)
  then show ?thesis by (simp add: prepareSubmission_def Let_def err_def)
next
  case (Inr flow)
  show ?thesis
    unfolding prepareSubmission_flow [OF Inr] Inr
    by (auto simp: submittable_def locked_of_def check_simps ok_def err_def)
qed

lemma set_map_filter_iff: "x \<in> set (List.map_filter f xs) \<longleftrightarrow> (\<exists>y \<in> set xs. f y = Some x)"
  by (induction xs) (auto simp: List.map_filter_simps split: option.splits)

lemma entry_locked_Some_iff:
  "entry_locked H res answers e = Some a \<longleftrightarrow>
     la_question a = v_question e \<and> la_instance a = v_instance e \<and>
     (\<exists>d x. res (v_question e) = Some d \<and> given answers e = Some x \<and>
        validateAnswer (s_nfc H) (s_regex H) d x = Inr (la_value a))"
  by (cases a) (auto simp: entry_locked_def split: option.splits sum.splits)

lemma locked_of_iff:
  "a \<in> set (locked_of H snap answers flow) \<longleftrightarrow>
     (\<exists>e \<in> set (visible flow). la_question a = v_question e \<and> la_instance a = v_instance e \<and>
        (\<exists>d x. map_of (snapshot_definitions snap) (v_question e) = Some d \<and> given answers e = Some x \<and>
           validateAnswer (s_nfc H) (s_regex H) d x = Inr (la_value a)))"
  by (auto simp: locked_of_def set_map_filter_iff entry_locked_Some_iff)

text \<open>A refused submission, when the flow could be evaluated: every reason is in the report.\<close>

lemma prepareSubmission_errors:
  assumes "evaluateRules (s_nfc H) (s_decode H) raw (map_of answers) (map_of (snapshot_definitions snap)) rs = Inr flow"
    "prepareSubmission H raw snap answers rs = Inl errors"
  shows "set errors =
      (\<Union>e \<in> set (visible flow). set (entry_errors H (map_of (snapshot_definitions snap)) answers e)) \<union>
      {REPEAT_COUNT_OUT_OF_RANGE (groupId g) (length (rosterOf rs (groupId g))) |g.
         g \<in> set (repeatGroups (f_steps (snap_definition snap))) \<and> \<not> count_legal rs g} \<union>
      {UNKNOWN_QUESTION (snd (answerKeyParts k)) (fst (answerKeyParts k)) |k.
         k \<in> fst ` set answers \<and> snd (answerKeyParts k) \<notin> set (form_pins (snap_definition snap))}"
proof -
  let ?entry = "entry_errors H (map_of (snapshot_definitions snap)) answers"
  have errors: "errors = concat (map ?entry (visible flow)) @ checkRepeatCounts snap rs
      @ map unknownQuestionError (unknown_parts H snap answers)"
    using assms(2) unfolding prepareSubmission_flow [OF assms(1)] by (auto simp: ok_def err_def split: if_splits)
  have "set (checkRepeatCounts snap rs) = {REPEAT_COUNT_OUT_OF_RANGE (groupId g) (length (rosterOf rs (groupId g))) |g.
         g \<in> set (repeatGroups (f_steps (snap_definition snap))) \<and> \<not> count_legal rs g}"
    by (auto simp: checkRepeatCounts_def count_error_alt split: if_splits)
  moreover have "set (map unknownQuestionError (unknown_parts H snap answers)) =
      {UNKNOWN_QUESTION (snd (answerKeyParts k)) (fst (answerKeyParts k)) |k.
         k \<in> fst ` set answers \<and> snd (answerKeyParts k) \<notin> set (form_pins (snap_definition snap))}"
    unfolding set_map set_unknown_parts unknownQuestionError_def by blast
  ultimately show ?thesis unfolding errors by (simp add: Un_assoc)
qed

text \<open>A submission is locked only when its flow state is complete.\<close>

definition blank_stable :: "normalizer \<Rightarrow> bool" where
  "blank_stable nfc \<longleftrightarrow> (\<forall>s. js_trim (nfc s) = [] \<longleftrightarrow> js_trim s = [])"

lemma AnswerValue_no_text: "TextAnswerValue nfc a = None \<Longrightarrow> AnswerValue nfc a \<noteq> Some (AText s)"
  by (cases "NumberAnswerValue a"; cases "BooleanAnswerValue a") (auto simp: AnswerValue.simps)

lemma blank_agrees:
  assumes "AnswerValue nfc a = Some v" "blank_stable nfc"
  shows "isBlankAnswerValue v \<longleftrightarrow> blank_raw a"
proof (cases "\<exists>s. a = JStr s")
  case True
  with assms show ?thesis by (auto simp: AnswerValue.simps isBlankAnswerValue_def blank_raw_def blank_stable_def)
next
  case False
  then have "TextAnswerValue nfc a = None" "\<not> blank_raw a" by (cases a; simp add: blank_raw_def)+
  with assms(1) AnswerValue_no_text [of nfc a] show ?thesis by (cases v) (auto simp: isBlankAnswerValue_def)
qed

lemma answered_given:
  assumes "blank_stable nfc" "\<And>a. map_of answers (entry_key e) = Some a \<Longrightarrow> AnswerValue nfc a \<noteq> None"
  shows "answered nfc (map_of answers) e \<longleftrightarrow> given answers e \<noteq> None"
proof (cases "map_of answers (entry_key e)")
  case (Some a)
  with assms(2) obtain v where "AnswerValue nfc a = Some v" by fastforce
  with Some blank_agrees [OF this assms(1)] show ?thesis by (simp add: answered_def present_def given_def)
qed (simp add: answered_def present_def given_def)

lemma evaluateRules_form:
  assumes "evaluateRules nfc decode raw answers res rs = Inr flow"
  obtains f where "unwrapDefinition decode raw = Inr f" "evaluate_form nfc f answers res rs = Inr flow"
  using assms by (auto simp: evaluateRules_def split: sum.splits)

lemma submittable_complete:
  assumes "evaluate_form (s_nfc H) f (map_of answers) (map_of (snapshot_definitions snap)) rs = Inr flow"
    "submittable H snap answers rs flow" "blank_stable (s_nfc H)"
  shows "complete flow"
proof -
  have False if "e \<in> set (visible flow)" and required: "required_q (map_of (snapshot_definitions snap)) e"
    and open_entry: "\<not> answered (s_nfc H) (map_of answers) e" for e
  proof -
    have "entry_key e \<in> fst ` set (answer_keys (documentOrder f) (rosterOf rs))"
      using evaluate_form_visible [OF assms(1)] walk_form_appends pos_entries_key(1) that(1) by fastforce
    with assms(1) have "AnswerValue (s_nfc H) a \<noteq> None" if "map_of answers (entry_key e) = Some a" for a
      using that by (auto simp: evaluate_form_Inr_iff)
    with answered_given [OF assms(3)] open_entry have "given answers e = None" by blast
    with assms(2) that(1) required show False
      by (auto simp: submittable_def entry_fine_def required_q_def)
  qed
  then show ?thesis
    using flow_account(1,5) [OF assms(1)] by (auto simp flip: set_empty)
qed

section \<open>What the hashed text identifies\<close>

text \<open>The member of an object at a key, up to normalization.\<close>

definition norm_at :: "(string \<times> jsval) list \<Rightarrow> string \<Rightarrow> jsval option" where
  "norm_at ps k = (case map_of ps k of None \<Rightarrow> None | Some v \<Rightarrow> if v = JUndefined then None else Some (json_norm v))"

lemma norm_at_eq:
  assumes "json_norm (JObj ps) = json_norm (JObj qs)" "distinct (map fst ps)" "distinct (map fst qs)"
  shows "norm_at ps k = norm_at qs k"
proof -
  from assms(1) have "norm_members ps = norm_members qs" by (simp add: json_norm_object del: json_norm.simps)
  with map_of_norm_members [OF assms(2), of k] map_of_norm_members [OF assms(3), of k]
  show ?thesis by (simp add: norm_at_def)
qed

lemma norm_at_simps [simp]:
  "norm_at [] k = None"
  "norm_at ((k', v) # ps) k = (if k = k' then if v = JUndefined then None else Some (json_norm v) else norm_at ps k)"
  by (simp_all add: norm_at_def)

lemma norm_at_optional [simp]:
  "norm_at (optional_member k' v) k =
     (if k = k' \<and> v \<noteq> None then if the v = JUndefined then None else Some (json_norm (the v)) else None)"
  "norm_at (optional_member k' v @ ps) k =
     (if k = k' \<and> v \<noteq> None then if the v = JUndefined then None else Some (json_norm (the v)) else norm_at ps k)"
  by (cases v; simp add: optional_member_def)+

lemma fst_optional_member [simp]:
  "distinct (map fst (optional_member k v))"
  "fst ` set (optional_member k v) = (if v = None then {} else {k})"
  "p \<in> set (optional_member k v) \<longleftrightarrow> (\<exists>x. v = Some x \<and> p = (k, x))"
  by (auto simp: optional_member_def split: option.splits)

definition value_in :: "rat set \<Rightarrow> answer_value \<Rightarrow> bool" where
  "value_in D v \<longleftrightarrow> (\<forall>n. v = ANum n \<longrightarrow> (\<exists>q \<in> D. n = Fin q))"

lemma norm_value_inj:
  assumes "json_norm (av_to_js v) = json_norm (av_to_js w)" "value_in D v" "value_in D w"
  shows "v = w"
proof -
  have "inj (json_norm \<circ> JStr)" by (auto simp: inj_def)
  then have "map (json_norm \<circ> JStr) xs = map (json_norm \<circ> JStr) ys \<longleftrightarrow> xs = ys" for xs ys
    by (rule inj_map_eq_map)
  with assms show ?thesis by (cases v; cases w) (auto simp: value_in_def)
qed

lemma js_defined [simp]: "av_to_js v \<noteq> JUndefined" "nullable s \<noteq> JUndefined" "strings_js ss \<noteq> JUndefined"
  by (cases v; simp) (auto simp: nullable_def strings_js_def split: option.split)

lemma locked_js_distinct: "distinct (map fst ([(''questionId'', a)] @ optional_member ''instanceId'' b @ [(''value'', c)]))"
  by (cases b) (simp_all add: optional_member_def)

lemma locked_js_inj:
  assumes "json_norm (locked_js a) = json_norm (locked_js b)" "value_in D (la_value a)" "value_in D (la_value b)"
  shows "a = b"
proof -
  note same = norm_at_eq [OF assms(1) [unfolded locked_js_def] locked_js_distinct locked_js_distinct]
  have "la_question a = la_question b" using same [of "''questionId''"] by simp
  moreover have "la_instance a = la_instance b"
    using same [of "''instanceId''"] by (cases "la_instance a"; cases "la_instance b") simp_all
  moreover have "json_norm (av_to_js (la_value a)) = json_norm (av_to_js (la_value b))"
    using same [of "''value''"] by simp
  then have "la_value a = la_value b" by (rule norm_value_inj [OF _ assms(2,3)])
  ultimately show ?thesis by (cases a; cases b) simp
qed

lemma nullable_inj: "json_norm (nullable s) = json_norm (nullable t) \<Longrightarrow> s = t"
  by (cases s; cases t) (simp_all add: nullable_def)

lemma strings_js_inj: "json_norm (strings_js ss) = json_norm (strings_js ts) \<Longrightarrow> ss = ts"
proof -
  have "inj (json_norm \<circ> JStr)" by (auto simp: inj_def)
  then show "json_norm (strings_js ss) = json_norm (strings_js ts) \<Longrightarrow> ss = ts"
    by (simp add: strings_js_def inj_map_eq_map)
qed

lemma entry_js_distinct: "distinct (map fst ([(''stepId'', x), (''questionId'', y)] @ optional_member ''instanceId'' z))"
  by (cases z) (simp_all add: optional_member_def)

lemma entry_js_inj: "inj (json_norm \<circ> entry_js)"
proof (rule injI, unfold o_apply)
  fix a b assume "json_norm (entry_js a) = json_norm (entry_js b)"
  note same = norm_at_eq [OF this [unfolded entry_js_def] entry_js_distinct entry_js_distinct]
  have "v_step a = v_step b" using same [of "''stepId''"] by simp
  moreover have "v_question a = v_question b" using same [of "''questionId''"] by simp
  moreover have "v_instance a = v_instance b"
    using same [of "''instanceId''"] by (cases "v_instance a"; cases "v_instance b") simp_all
  ultimately show "a = b" by (cases a; cases b) simp
qed

lemma pair_js_inj: "k \<noteq> ''instanceId'' \<Longrightarrow> inj (json_norm \<circ> pair_js k)"
proof (rule injI, unfold o_apply)
  fix a b :: "string \<times> string option"
  assume k: "k \<noteq> ''instanceId''" and "json_norm (pair_js k a) = json_norm (pair_js k b)"
  note same = norm_at_eq [OF this(2) [unfolded pair_js_def]]
  have "fst a = fst b" using same [of k] k by simp
  moreover have "json_norm (nullable (snd a)) = json_norm (nullable (snd b))"
    using same [of "''instanceId''"] k by simp
  then have "snd a = snd b" by (rule nullable_inj)
  ultimately show "a = b" by (rule prod_eqI)
qed

lemma roster_js_inj: "inj (json_norm \<circ> roster_js)"
proof (rule injI, unfold o_apply)
  fix a b :: "group_id \<times> instance_id list" assume "json_norm (roster_js a) = json_norm (roster_js b)"
  note same = norm_at_eq [OF this [unfolded roster_js_def]]
  have "fst a = fst b" using same [of "''groupId''"] by simp
  moreover have "json_norm (strings_js (snd a)) = json_norm (strings_js (snd b))"
    using same [of "''instances''"] by simp
  then have "snd a = snd b" by (rule strings_js_inj)
  ultimately show "a = b" by (rule prod_eqI)
qed

lemma array_js_inj:
  assumes "inj (json_norm \<circ> f)"
  shows "json_norm (JArr (map f xs)) = json_norm (JArr (map f ys)) \<longleftrightarrow> xs = ys"
  using inj_map_eq_map [OF assms, of xs ys] by simp

definition flow_members :: "flow_state \<Rightarrow> (string \<times> jsval) list" where
  "flow_members flow = (case flow_js flow of JObj ps \<Rightarrow> ps | _ \<Rightarrow> [])"

lemma flow_members_distinct: "distinct (map fst (flow_members flow))"
  by (simp add: flow_members_def flow_js_def split: option.split)

lemma flow_member_at:
  "norm_at (flow_members flow) ''visible'' = Some (json_norm (JArr (map entry_js (visible flow))))"
  "norm_at (flow_members flow) ''visibleSteps'' = Some (json_norm (strings_js (visibleSteps flow)))"
  "norm_at (flow_members flow) ''currentStep'' = Some (json_norm (nullable (currentStep flow)))"
  "norm_at (flow_members flow) ''answeredRequired'' = Some (json_norm (strings_js (answeredRequired flow)))"
  "norm_at (flow_members flow) ''missingRequired'' = Some (json_norm (strings_js (missingRequired flow)))"
  "norm_at (flow_members flow) ''complete'' = Some (JBool (complete flow))"
  "norm_at (flow_members flow) ''visibleStepViews'' =
     map_option (\<lambda>vs. json_norm (JArr (map (pair_js ''stepId'') vs))) (visibleStepViews flow)"
  "norm_at (flow_members flow) ''missingRequiredInstances'' =
     map_option (\<lambda>vs. json_norm (JArr (map (pair_js ''questionId'') vs))) (missingRequiredInstances flow)"
  "norm_at (flow_members flow) ''answeredRequiredInstances'' =
     map_option (\<lambda>vs. json_norm (JArr (map (pair_js ''questionId'') vs))) (answeredRequiredInstances flow)"
  "norm_at (flow_members flow) ''rosters'' =
     map_option (\<lambda>rs. json_norm (JArr (map roster_js rs))) (rosters flow)"
  by (simp_all add: flow_members_def flow_js_def del: json_norm.simps split: option.split)
     (auto split: option.split)

lemma flow_js_members: "flow_js flow = JObj (flow_members flow)"
  by (simp add: flow_members_def flow_js_def)

lemma map_option_array_inj:
  assumes "inj (json_norm \<circ> f)"
    "map_option (\<lambda>vs. json_norm (JArr (map f vs))) a = map_option (\<lambda>vs. json_norm (JArr (map f vs))) b"
  shows "a = b"
  using assms(2) array_js_inj [OF assms(1)] by (cases a; cases b) (simp_all del: json_norm.simps)

lemma flow_js_inj:
  assumes "json_norm (flow_js a) = json_norm (flow_js b)"
  shows "a = b"
proof -
  note same = norm_at_eq [OF assms [unfolded flow_js_members] flow_members_distinct flow_members_distinct]
  note at_key = same [of "''visible''"] same [of "''visibleSteps''"] same [of "''currentStep''"]
    same [of "''answeredRequired''"] same [of "''missingRequired''"] same [of "''complete''"]
    same [of "''visibleStepViews''"] same [of "''missingRequiredInstances''"]
    same [of "''answeredRequiredInstances''"] same [of "''rosters''"]
  note eqs = at_key [unfolded flow_member_at option.inject jsval.inject]
  have pairs: "inj (json_norm \<circ> pair_js ''stepId'')" "inj (json_norm \<circ> pair_js ''questionId'')"
    by (simp_all add: pair_js_inj)
  show ?thesis
    using eqs(1) [unfolded array_js_inj [OF entry_js_inj]] strings_js_inj [OF eqs(2)] nullable_inj [OF eqs(3)]
      strings_js_inj [OF eqs(4)] strings_js_inj [OF eqs(5)] eqs(6)
      map_option_array_inj [OF pairs(1) eqs(7)] map_option_array_inj [OF pairs(2) eqs(8)]
      map_option_array_inj [OF pairs(2) eqs(9)] map_option_array_inj [OF roster_js_inj eqs(10)]
    by (cases a; cases b) (simp only: flow_state.simps)
qed

definition locked_in :: "rat set \<Rightarrow> locked_answer list \<Rightarrow> bool" where
  "locked_in D locked \<longleftrightarrow> (\<forall>a \<in> set locked. value_in D (la_value a))"

lemma content_js_inj:
  assumes "json_norm (content_js l f) = json_norm (content_js l' f')" "locked_in D l" "locked_in D l'"
  shows "l = l' \<and> f = f'"
proof -
  have d: "distinct (map fst [(''answers'', x), (''flowState'', y)])" for x y :: jsval by simp
  note same = norm_at_eq [OF assms(1) [unfolded content_js_def] d d]
  have "json_norm (JArr (map locked_js l)) = json_norm (JArr (map locked_js l'))"
    using same [of "''answers''"] by (simp del: json_norm.simps)
  then have "map (json_norm \<circ> locked_js) l = map (json_norm \<circ> locked_js) l'" by simp
  then have "l = l'"
    by (rule map_inj_on) (use assms(2,3) in \<open>auto simp: inj_on_def locked_in_def intro: locked_js_inj\<close>)
  moreover have "json_norm (flow_js f) = json_norm (flow_js f')"
    using same [of "''flowState''"] by (simp del: json_norm.simps add: flow_js_members)
  then have "f = f'" by (rule flow_js_inj)
  ultimately show ?thesis by simp
qed

lemma numbers_value: "value_in D v \<Longrightarrow> js_numbers (av_to_js v) \<subseteq> D"
  by (cases v) (auto simp: value_in_def)

lemma numbers_locked: "locked_in D l \<Longrightarrow> js_numbers (JArr (map locked_js l)) \<subseteq> D"
  using numbers_value by (fastforce simp: locked_in_def locked_js_def)

lemma numbers_texts [simp]:
  "js_numbers (strings_js ss) = {}" "js_numbers (nullable s) = {}" "js_numbers (entry_js e) = {}"
  "js_numbers (pair_js k p) = {}" "js_numbers (roster_js r) = {}"
  by (auto simp: strings_js_def nullable_def entry_js_def pair_js_def roster_js_def split: option.split)

lemma numbers_flow [simp]: "js_numbers (flow_js flow) = {}"
  by (simp add: flow_js_def) auto

lemma js_wf_value [simp]: "js_wf (av_to_js v)" "js_wf (strings_js ss)" "js_wf (nullable s)"
  by (cases v; simp) (simp_all add: strings_js_def nullable_def split: option.split)

lemma wf_optional: "(\<forall>p \<in> set (optional_member k v). js_wf (snd p)) \<longleftrightarrow> (\<forall>x. v = Some x \<longrightarrow> js_wf x)"
  by (cases v) (simp_all add: optional_member_def)

lemma js_wf_flow: "js_wf (flow_js flow)"
proof -
  have "js_wf (entry_js e)" for e by (cases "v_instance e") (simp_all add: entry_js_def optional_member_def)
  moreover have "js_wf (roster_js r)" for r by (simp add: roster_js_def)
  moreover have "k \<noteq> ''instanceId'' \<Longrightarrow> js_wf (pair_js k p)" for k p by (simp add: pair_js_def)
  ultimately have "\<forall>p \<in> set (flow_members flow). js_wf (snd p)"
    by (simp add: flow_members_def flow_js_def ball_Un wf_optional) auto
  with flow_members_distinct show ?thesis by (simp add: flow_js_members)
qed

lemma js_wf_content: "js_wf (content_js l flow)"
proof -
  have "js_wf (locked_js a)" for a
    using locked_js_distinct by (auto simp: locked_js_def)
  with js_wf_flow show ?thesis by (simp add: content_js_def)
qed

lemma canonical_content_iff:
  assumes "json_numerals num_text num_of D" "locked_in D l" "locked_in D l'"
  shows "canonicalJson num_text (content_js l f) = canonicalJson num_text (content_js l' f') \<longleftrightarrow> l = l' \<and> f = f'"
proof -
  have numbers: "js_numbers (content_js l f) \<subseteq> D" "js_numbers (content_js l' f') \<subseteq> D"
    using numbers_locked [OF assms(2)] numbers_locked [OF assms(3)] by (simp_all add: content_js_def)
  have "canonicalJson num_text (content_js l f) = canonicalJson num_text (content_js l' f') \<longleftrightarrow>
      json_norm (content_js l f) = json_norm (content_js l' f')"
    by (rule canonicalJson_eq_iff [OF assms(1) js_wf_content numbers(1) js_wf_content numbers(2)])
  with content_js_inj [OF _ assms(2,3)] show ?thesis by blast
qed

text \<open>The hexadecimal spelling loses nothing either.\<close>

lemma hex_digit_inj:
  assumes "m < 16" "n < 16" "hex_digit m = hex_digit n"
  shows "m = n"
proof -
  have "(of_char (hex_digit k) :: nat) = (if k < 10 then 48 + k else 87 + k)" if "k < 16" for k
    using that by (simp add: hex_digit_def)
  from this [OF assms(1)] this [OF assms(2)] assms(3)
  have "(if m < 10 then 48 + m else 87 + m) = (if n < 10 then 48 + n else 87 + n)" by simp
  with assms(1,2) show ?thesis by (cases "m < 10"; cases "n < 10") simp_all
qed

lemma byte_hex_inj: "byte_hex a = byte_hex b \<Longrightarrow> a = b"
proof -
  assume "byte_hex a = byte_hex b"
  moreover have "unat c < 256" for c :: byte using unsigned_less [of c] by simp
  then have "unat c div 16 < 16" for c :: byte by (simp add: div_less_iff_less_mult)
  ultimately have "unat a div 16 = unat b div 16" "unat a mod 16 = unat b mod 16"
    by (simp_all add: byte_hex_def hex_digit_inj)
  then have "unat a = unat b" by (metis div_mult_mod_eq)
  then show "a = b" by (rule word_unat_eq_iff [THEN iffD2])
qed

lemma hex_inj: "concat (map byte_hex xs) = concat (map byte_hex ys) \<Longrightarrow> xs = ys"
proof (induction xs arbitrary: ys)
  case Nil
  then show ?case by (cases ys) (auto simp: byte_hex_def)
next
  case (Cons x xs)
  then obtain y ys' where "ys = y # ys'" by (cases ys) (auto simp: byte_hex_def)
  with Cons byte_hex_inj [of x y] show ?case by (auto simp: byte_hex_def)
qed

section \<open>Hidden answers\<close>

lemma map_filter_eq: "(\<And>x. x \<in> set xs \<Longrightarrow> f x = g x) \<Longrightarrow> List.map_filter f xs = List.map_filter g xs"
  by (induction xs) (auto simp: List.map_filter_simps split: option.split)

lemma submission_hidden:
  assumes "prepareSubmission H raw snap answers rs = Inr locked"
    "\<And>e. e \<in> set (visible (lk_flowState locked)) \<Longrightarrow> map_of answers' (entry_key e) = map_of answers (entry_key e)"
    "\<And>k a. map_of answers' k = Some a \<Longrightarrow> AnswerValue (s_nfc H) a \<noteq> None"
    "\<And>k. k \<in> fst ` set answers' \<Longrightarrow> snd (answerKeyParts k) \<in> set (form_pins (snap_definition snap))"
  shows "prepareSubmission H raw snap answers' rs = Inr locked"
proof -
  let ?res = "map_of (snapshot_definitions snap)"
  from assms(1) obtain flow where
    flow: "evaluateRules (s_nfc H) (s_decode H) raw (map_of answers) ?res rs = Inr flow"
    and sub: "submittable H snap answers rs flow"
    and locked: "locked = \<lparr>lk_answers = locked_of H snap answers flow, lk_flowState = flow,
                  lk_contentHash = computeContentHash H (content_js (locked_of H snap answers flow) flow)\<rparr>"
    unfolding prepareSubmission_Inr_iff by blast
  have agree: "given answers' e = given answers e" if "e \<in> set (visible flow)" for e
    using assms(2) that by (simp add: given_def locked)
  from flow obtain f where f: "unwrapDefinition (s_decode H) raw = Inr f"
    "evaluate_form (s_nfc H) f (map_of answers) ?res rs = Inr flow" by (rule evaluateRules_form)
  have "evaluate_form (s_nfc H) f (map_of answers') ?res rs = Inr flow"
    by (rule hidden_answers_irrelevant [OF f(2)]) (use assms(2,3) locked in simp_all)
  then have "evaluateRules (s_nfc H) (s_decode H) raw (map_of answers') ?res rs = Inr flow"
    using f(1) by (simp add: evaluateRules_def)
  moreover have "submittable H snap answers' rs flow"
    using sub assms(4) agree by (simp add: submittable_def entry_fine_def)
  moreover have "locked_of H snap answers' flow = locked_of H snap answers flow"
    unfolding locked_of_def by (rule map_filter_eq) (use agree in \<open>simp add: entry_locked_def\<close>)
  ultimately show ?thesis
    unfolding prepareSubmission_Inr_iff locked by (intro exI [of _ flow] conjI) simp_all
qed

end
