(* ===== verification/SessionStore.thy ===== *)
theory SessionStore
  imports AnswerLedger PrepareSubmission
begin

text \<open>
  The respondent's tables under \<^verbatim>\<open>packages/db/src/queries\<close>: \<^verbatim>\<open>sessions.ts\<close>,
  \<^verbatim>\<open>submissions.ts\<close>, \<^verbatim>\<open>secure-links.ts\<close>, the life of a session in \<^verbatim>\<open>retention.ts\<close>, and the
  flag of a submission in \<^verbatim>\<open>reporting.ts\<close>. A table is the list of its rows, an insert that
  breaks a constraint is \<^term>\<open>None\<close>, and an update of a row answers the row.
\<close>

section \<open>Sessions\<close>

datatype access_mode = Anonymous | SecureLink
datatype session_status = Created | InProgress | Submitted | Expired

record session_row =
  sn_sessionId :: string
  sn_formId :: string
  sn_formVersion :: int
  sn_accessMode :: access_mode
  sn_linkId :: "string option"
  sn_environment :: string
  sn_status :: session_status
  sn_expiresAt :: int
  sn_createdAt :: int

record secure_link_row =
  sl_linkId :: string
  sl_formId :: string
  sl_expiresAt :: int
  sl_oneTime :: bool
  sl_consumedAt :: "int option"
  sl_revokedAt :: "int option"
  sl_createdAt :: int
  sl_environment :: string

text \<open>
  The constraints of the table: the primary key, the environment the schema is of, the
  version of the form, and the composite key that makes a link's row name the same
  environment.
\<close>

definition session_allowed ::
  "string \<Rightarrow> (string \<Rightarrow> int \<Rightarrow> bool) \<Rightarrow> secure_link_row list \<Rightarrow> session_row list \<Rightarrow> session_row \<Rightarrow> bool" where
  "session_allowed schemaEnv version_exists links rows row \<longleftrightarrow>
     sn_sessionId row \<notin> sn_sessionId ` set rows \<and>
     sn_environment row = schemaEnv \<and>
     version_exists (sn_formId row) (sn_formVersion row) \<and>
     (case sn_linkId row of None \<Rightarrow> True
      | Some l \<Rightarrow> list_ex (\<lambda>k. sl_linkId k = l \<and> sl_environment k = sn_environment row) links)"

definition createSession ::
  "string \<Rightarrow> (string \<Rightarrow> int \<Rightarrow> bool) \<Rightarrow> secure_link_row list \<Rightarrow> session_row list \<Rightarrow> session_row \<Rightarrow> session_row list option" where
  "createSession schemaEnv version_exists links rows row =
    (if session_allowed schemaEnv version_exists links rows row then Some (rows @ [row]) else None)"

definition getSessionInForm :: "session_row list \<Rightarrow> string \<Rightarrow> string \<Rightarrow> session_row option" where
  "getSessionInForm rows fid sessionId =
     List.find (\<lambda>r. sn_sessionId r = sessionId \<and> sn_formId r = fid) rows"

definition getSession :: "session_row list \<Rightarrow> string \<Rightarrow> session_row option" where
  "getSession rows sessionId = List.find (\<lambda>r. sn_sessionId r = sessionId) rows"

definition set_status :: "string \<Rightarrow> session_status \<Rightarrow> session_row list \<Rightarrow> session_row list" where
  "set_status sessionId status rows =
     map (\<lambda>r. if sn_sessionId r = sessionId then r\<lparr>sn_status := status\<rparr> else r) rows"

definition markInProgress :: "session_row list \<Rightarrow> string \<Rightarrow> session_row list" where
  "markInProgress rows sessionId = set_status sessionId InProgress rows"

definition markSubmitted :: "session_row list \<Rightarrow> string \<Rightarrow> session_row list" where
  "markSubmitted rows sessionId = set_status sessionId Submitted rows"

definition expirable :: "int \<Rightarrow> session_row \<Rightarrow> bool" where
  "expirable now r \<longleftrightarrow> sn_status r \<in> {Created, InProgress} \<and> sn_expiresAt r \<le> now"

definition expireSessions :: "session_row list \<Rightarrow> int \<Rightarrow> session_row list" where
  "expireSessions rows now = map (\<lambda>r. if expirable now r then r\<lparr>sn_status := Expired\<rparr> else r) rows"

section \<open>The life of a session\<close>

definition DEFAULT_ANONYMOUS_SESSION_TTL_MS :: int where
  "DEFAULT_ANONYMOUS_SESSION_TTL_MS = 24 * 60 * 60 * 1000"

text \<open>\<^term>\<open>None\<close> is the throw on a secure link without its expiry.\<close>

definition sessionExpiresAt :: "access_mode \<Rightarrow> int \<Rightarrow> int option \<Rightarrow> int \<Rightarrow> int option" where
  "sessionExpiresAt mode now linkExpiresAt ttlMs =
    (let ttlExpiry = now + ttlMs
     in case mode of
         SecureLink \<Rightarrow> (case linkExpiresAt of
            None \<Rightarrow> None
          | Some l \<Rightarrow> Some (if l < ttlExpiry then l else ttlExpiry))
       | Anonymous \<Rightarrow> Some ttlExpiry)"

definition sweepExpiredSessions :: "session_row list \<Rightarrow> int \<Rightarrow> session_row list \<times> nat" where
  "sweepExpiredSessions rows now = (expireSessions rows now, length (filter (expirable now) rows))"

section \<open>Submissions\<close>

record submission_row =
  sb_sessionId :: string
  sb_contentHash :: string
  sb_lockedAnswers :: locked_submission
  sb_submittedAt :: int
  sb_flaggedReason :: "string option"

definition insertSubmission :: "submission_row list \<Rightarrow> submission_row \<Rightarrow> submission_row list option" where
  "insertSubmission rows row =
    (if sb_sessionId row \<in> sb_sessionId ` set rows then None else Some (rows @ [row]))"

definition getSubmission :: "submission_row list \<Rightarrow> string \<Rightarrow> submission_row option" where
  "getSubmission rows sessionId = List.find (\<lambda>r. sb_sessionId r = sessionId) rows"

definition flagged_here :: "string \<Rightarrow> submission_row \<Rightarrow> bool" where
  "flagged_here sessionId r \<longleftrightarrow> sb_sessionId r = sessionId \<and> sb_flaggedReason r \<noteq> None"

definition clearSubmissionFlag :: "submission_row list \<Rightarrow> string \<Rightarrow> submission_row list \<times> bool" where
  "clearSubmissionFlag rows sessionId =
    (map (\<lambda>r. if flagged_here sessionId r then r\<lparr>sb_flaggedReason := None\<rparr> else r) rows,
     list_ex (flagged_here sessionId) rows)"

section \<open>Secure links\<close>

definition insertSecureLink ::
  "secure_link_row list \<Rightarrow> string \<Rightarrow> string \<Rightarrow> int \<Rightarrow> string \<Rightarrow> bool option \<Rightarrow> int \<Rightarrow> secure_link_row list option" where
  "insertSecureLink rows linkId fid expiresAt env oneTime now =
    (if linkId \<in> sl_linkId ` set rows then None
     else Some (rows @ [\<lparr>sl_linkId = linkId, sl_formId = fid, sl_expiresAt = expiresAt,
       sl_oneTime = opt_default False oneTime, sl_consumedAt = None, sl_revokedAt = None, sl_createdAt = now,
       sl_environment = env\<rparr>]))"

definition getSecureLink :: "secure_link_row list \<Rightarrow> string \<Rightarrow> secure_link_row option" where
  "getSecureLink rows linkId = List.find (\<lambda>r. sl_linkId r = linkId) rows"

definition listSecureLinks ::
  "(secure_link_row list \<Rightarrow> secure_link_row list) \<Rightarrow> secure_link_row list \<Rightarrow> string \<Rightarrow> string \<Rightarrow> secure_link_row list" where
  "listSecureLinks arrange rows fid env =
     arrange (filter (\<lambda>r. sl_formId r = fid \<and> sl_environment r = env) rows)"

text \<open>
  An update with a \<^verbatim>\<open>where\<close> that names one row by its key: the rows it leaves and the row it
  answers. The compare-and-set of a one-time link is one.
\<close>

definition update_row :: "('r \<Rightarrow> bool) \<Rightarrow> ('r \<Rightarrow> 'r) \<Rightarrow> 'r list \<Rightarrow> 'r list \<times> 'r option" where
  "update_row p f rows = (map (\<lambda>r. if p r then f r else r) rows, map_option f (List.find p rows))"

definition consumable :: "string \<Rightarrow> secure_link_row \<Rightarrow> bool" where
  "consumable linkId r \<longleftrightarrow> sl_linkId r = linkId \<and> sl_consumedAt r = None \<and> sl_revokedAt r = None"

definition consumeSecureLink ::
  "secure_link_row list \<Rightarrow> string \<Rightarrow> int \<Rightarrow> secure_link_row list \<times> secure_link_row option" where
  "consumeSecureLink rows linkId now = update_row (consumable linkId) (\<lambda>r. r\<lparr>sl_consumedAt := Some now\<rparr>) rows"

definition revocable :: "string \<Rightarrow> string \<Rightarrow> string \<Rightarrow> secure_link_row \<Rightarrow> bool" where
  "revocable linkId fid env r \<longleftrightarrow> sl_linkId r = linkId \<and> sl_formId r = fid \<and> sl_environment r = env \<and>
     sl_revokedAt r = None"

definition revokeSecureLink ::
  "secure_link_row list \<Rightarrow> string \<Rightarrow> string \<Rightarrow> string \<Rightarrow> int \<Rightarrow> secure_link_row list \<times> secure_link_row option" where
  "revokeSecureLink rows linkId fid env now =
     update_row (revocable linkId fid env) (\<lambda>r. r\<lparr>sl_revokedAt := Some now\<rparr>) rows"

section \<open>Rows by their key\<close>

lemma getSession_Some: "getSession rows s = Some r \<Longrightarrow> r \<in> set rows \<and> sn_sessionId r = s"
  by (auto simp: getSession_def dest: find_Some_iff_mem)

lemma getSession_set_status:
  "getSession (set_status s status rows) s' =
     map_option (\<lambda>r. if s' = s then r\<lparr>sn_status := status\<rparr> else r) (getSession rows s')"
  by (induction rows) (auto simp: getSession_def set_status_def)

lemma set_status_ids: "map sn_sessionId (set_status s status rows) = map sn_sessionId rows"
  by (auto simp: set_status_def)

lemma getSession_mem:
  "distinct (map sn_sessionId rows) \<Longrightarrow> r \<in> set rows \<Longrightarrow> getSession rows (sn_sessionId r) = Some r"
  by (induction rows) (auto simp: getSession_def)

lemma getSubmission_append:
  "getSubmission (rows @ [r]) s = (case getSubmission rows s of Some x \<Rightarrow> Some x
     | None \<Rightarrow> if sb_sessionId r = s then Some r else None)"
  by (induction rows) (auto simp: getSubmission_def)

lemma getSubmission_None: "getSubmission rows s = None \<longleftrightarrow> s \<notin> sb_sessionId ` set rows"
  by (induction rows) (auto simp: getSubmission_def)

lemma sessionExpiresAt_bound:
  "sessionExpiresAt mode now linkExpiresAt ttl = Some t \<Longrightarrow>
     t \<le> now + ttl \<and> (mode = SecureLink \<longrightarrow> (\<exists>l. linkExpiresAt = Some l \<and> t \<le> l))"
  by (auto simp: sessionExpiresAt_def Let_def split: access_mode.splits option.splits)

text \<open>A one-time link is spent once.\<close>

lemma consume_twice:
  assumes "consumeSecureLink rows linkId now = (rows', Some r)"
  shows "snd (consumeSecureLink rows' linkId later) = None"
proof -
  have "rows' = map (\<lambda>r. if consumable linkId r then r\<lparr>sl_consumedAt := Some now\<rparr> else r) rows"
    using assms by (simp add: consumeSecureLink_def update_row_def)
  moreover have "\<not> consumable linkId (if consumable linkId x then x\<lparr>sl_consumedAt := Some now\<rparr> else x)" for x
    by (simp add: consumable_def)
  ultimately have "List.find (consumable linkId) rows' = None" by (simp only: find_None_iff set_map) blast
  then show ?thesis by (simp add: consumeSecureLink_def update_row_def)
qed

end
