(* ===== verification/Outbox.thy ===== *)
theory Outbox
  imports SessionStore
begin

text \<open>
  \<^verbatim>\<open>packages/db/src/queries/outbox.ts\<close>: the transactional outbox, its backoff, the claims of
  the deliverer, redelivery, and the removal of answers from aged payloads. A payload is an
  object; a transaction runs at \<^verbatim>\<open>now\<close>, and \<^verbatim>\<open>locked\<close> are the rows other transactions hold,
  which a claim skips.
\<close>

section \<open>The table\<close>

record outbox_row =
  ob_id :: nat
  ob_eventType :: string
  ob_payload :: jsval
  ob_createdAt :: int
  ob_deliveredAt :: "int option"
  ob_attempts :: int
  ob_nextAttemptAt :: int
  ob_deadLetteredAt :: "int option"
  ob_lastError :: "string option"
  ob_payloadRedactedAt :: "int option"

record outbox_table =
  ot_rows :: "outbox_row list"
  ot_draws :: nat

section \<open>Backoff\<close>

definition OUTBOX_BACKOFF_BASE_MS :: int where "OUTBOX_BACKOFF_BASE_MS = 60000"

definition OUTBOX_BACKOFF_FACTOR :: int where "OUTBOX_BACKOFF_FACTOR = 5"

definition OUTBOX_BACKOFF_CAP_MS :: int where "OUTBOX_BACKOFF_CAP_MS = 6 * 60 * 60 * 1000"

definition OUTBOX_MAX_ATTEMPTS :: int where "OUTBOX_MAX_ATTEMPTS = 10"

text \<open>For \<^verbatim>\<open>attempts >= 1\<close>, as its callers have it.\<close>

definition backoffDelayMs :: "int \<Rightarrow> int" where
  "backoffDelayMs attempts =
     min (OUTBOX_BACKOFF_BASE_MS * OUTBOX_BACKOFF_FACTOR ^ nat (attempts - 1)) OUTBOX_BACKOFF_CAP_MS"

definition computeBackoff :: "int \<Rightarrow> int \<Rightarrow> int \<times> int option" where
  "computeBackoff attempts from_ms =
     (from_ms + backoffDelayMs attempts, if OUTBOX_MAX_ATTEMPTS \<le> attempts then Some from_ms else None)"

section \<open>Enqueue, claim and settle\<close>

definition enqueue :: "uuid_source \<Rightarrow> outbox_table \<Rightarrow> string \<Rightarrow> jsval \<Rightarrow> int \<Rightarrow> outbox_table" where
  "enqueue uuid t eventType payload now = t\<lparr>ot_rows := ot_rows t @
     [\<lparr>ob_id = uuid (ot_draws t), ob_eventType = eventType, ob_payload = payload, ob_createdAt = now,
       ob_deliveredAt = None, ob_attempts = 0, ob_nextAttemptAt = now, ob_deadLetteredAt = None,
       ob_lastError = None, ob_payloadRedactedAt = None\<rparr>], ot_draws := ot_draws t + 1\<rparr>"

definition event_due :: "int \<Rightarrow> outbox_row \<Rightarrow> bool" where
  "event_due now r \<longleftrightarrow> ob_deliveredAt r = None \<and> ob_deadLetteredAt r = None \<and> ob_payloadRedactedAt r = None \<and>
     ob_nextAttemptAt r \<le> now"

definition claimDue ::
  "(outbox_row list \<Rightarrow> outbox_row list) \<Rightarrow> nat list \<Rightarrow> outbox_row list \<Rightarrow> nat \<Rightarrow> int \<Rightarrow> outbox_row list" where
  "claimDue arrange locked rows limit now =
     take limit (filter (\<lambda>r. ob_id r \<notin> set locked) (arrange (filter (event_due now) rows)))"

definition markDelivered :: "outbox_row list \<Rightarrow> nat \<Rightarrow> int \<Rightarrow> outbox_row list \<times> outbox_row option" where
  "markDelivered rows i now = update_row (\<lambda>r. ob_id r = i) (\<lambda>r. r\<lparr>ob_deliveredAt := Some now\<rparr>) rows"

definition event_failed :: "string \<Rightarrow> int \<Rightarrow> outbox_row \<Rightarrow> outbox_row" where
  "event_failed error now r =
    (let attempts = ob_attempts r + 1; (nextAttemptAt, deadLetteredAt) = computeBackoff attempts now
     in r\<lparr>ob_attempts := attempts, ob_lastError := Some error, ob_nextAttemptAt := nextAttemptAt,
          ob_deadLetteredAt := deadLetteredAt\<rparr>)"

definition recordFailure :: "outbox_row list \<Rightarrow> nat \<Rightarrow> string \<Rightarrow> int \<Rightarrow> outbox_row list \<times> outbox_row option" where
  "recordFailure rows i error now = update_row (\<lambda>r. ob_id r = i) (event_failed error now) rows"

definition listDeadLetters ::
  "(outbox_row list \<Rightarrow> outbox_row list) \<Rightarrow> outbox_row list \<Rightarrow> nat option \<Rightarrow> outbox_row list" where
  "listDeadLetters arrange rows limit =
    (let base = arrange (filter (\<lambda>r. ob_deadLetteredAt r \<noteq> None) rows)
     in case limit of None \<Rightarrow> base | Some n \<Rightarrow> take n base)"

datatype OutboxRedeliveryRefusal = EventPayloadRedacted

definition outboxRedeliveryRefusalFor :: "outbox_row list \<Rightarrow> nat \<Rightarrow> OutboxRedeliveryRefusal option" where
  "outboxRedeliveryRefusalFor rows i = (case List.find (\<lambda>r. ob_id r = i) rows of
     None \<Rightarrow> None
   | Some r \<Rightarrow> if ob_payloadRedactedAt r \<noteq> None then Some EventPayloadRedacted else None)"

definition event_reset :: "int \<Rightarrow> outbox_row \<Rightarrow> outbox_row" where
  "event_reset now r = r\<lparr>ob_deadLetteredAt := None, ob_deliveredAt := None, ob_attempts := 0, ob_nextAttemptAt := now,
     ob_lastError := None\<rparr>"

definition resetForRedelivery :: "outbox_row list \<Rightarrow> nat \<Rightarrow> int \<Rightarrow> outbox_row list \<times> outbox_row option" where
  "resetForRedelivery rows i now =
     update_row (\<lambda>r. ob_id r = i \<and> ob_payloadRedactedAt r = None) (event_reset now) rows"

section \<open>Removing answers from payloads\<close>

definition DEFAULT_OUTBOX_PAYLOAD_RETENTION_MS :: int where
  "DEFAULT_OUTBOX_PAYLOAD_RETENTION_MS = 30 * 24 * 60 * 60 * 1000"

text \<open>
  The column is written from objects only, so what the operators of the database do with an
  array or a bare text does not arise.
\<close>

fun without_member :: "string \<Rightarrow> jsval \<Rightarrow> jsval" where
  "without_member name (JObj members) = JObj (filter (\<lambda>(k, _). k \<noteq> name) members)"
| "without_member name v = v"

fun has_member :: "string \<Rightarrow> jsval \<Rightarrow> bool" where
  "has_member name (JObj members) = (name \<in> fst ` set members)"
| "has_member name v = False"

text \<open>The two columns redaction writes.\<close>

definition outboxPayloadRedactionColumns :: "int \<Rightarrow> outbox_row \<Rightarrow> outbox_row" where
  "outboxPayloadRedactionColumns now r =
     r\<lparr>ob_payload := without_member ''answers'' (ob_payload r), ob_payloadRedactedAt := Some now\<rparr>"

text \<open>\<^verbatim>\<open>greatest\<close> ignores the nulls, and is null only when every argument is.\<close>

definition settledAt :: "int option list \<Rightarrow> int option" where
  "settledAt columns = (case List.map_filter id columns of [] \<Rightarrow> None | t # ts \<Rightarrow> Some (foldl max t ts))"

definition eligibleForPayloadRedaction :: "int \<Rightarrow> outbox_row \<Rightarrow> bool" where
  "eligibleForPayloadRedaction olderThan r \<longleftrightarrow>
     ob_payloadRedactedAt r = None \<and> has_member ''answers'' (ob_payload r) \<and>
     (case settledAt [ob_deliveredAt r, ob_deadLetteredAt r] of None \<Rightarrow> False | Some t \<Rightarrow> t < olderThan)"

definition ANTI_JOIN_CANDIDATE_BUDGET :: nat where "ANTI_JOIN_CANDIDATE_BUDGET = 10000"

text \<open>
  \<^verbatim>\<open>still\<close> says whether an event has a delivery that is still moving, or settled too late;
  the theory of the deliveries gives it. The candidates come in whatever order the database
  finds them. The probe for the
  candidates and the update after it see the same rows here.
\<close>

definition redact_where :: "(outbox_row \<Rightarrow> bool) \<Rightarrow> int \<Rightarrow> outbox_row list \<Rightarrow> outbox_row list \<times> nat" where
  "redact_where p now rows =
     (map (\<lambda>r. if p r then outboxPayloadRedactionColumns now r else r) rows, length (filter p rows))"

definition redact_aged ::
  "(outbox_row list \<Rightarrow> outbox_row list) \<Rightarrow> nat \<Rightarrow> (nat \<Rightarrow> bool) \<Rightarrow> int \<Rightarrow> int \<Rightarrow> outbox_row list \<Rightarrow> outbox_row list \<times> nat" where
  "redact_aged arrange budget still olderThan now rows =
    (let candidates = take (budget + 1) (arrange (filter (eligibleForPayloadRedaction olderThan) rows))
     in if candidates = [] then (rows, 0)
        else let withinBudget = (length candidates \<le> budget)
             in redact_where (\<lambda>r. (withinBudget \<longrightarrow> ob_id r \<in> ob_id ` set candidates) \<and>
                  eligibleForPayloadRedaction olderThan r \<and> \<not> still (ob_id r)) now rows)"

section \<open>Facts\<close>

lemma backoff_bounds:
  assumes "1 \<le> n"
  shows "OUTBOX_BACKOFF_BASE_MS \<le> backoffDelayMs n" "backoffDelayMs n \<le> OUTBOX_BACKOFF_CAP_MS"
proof -
  have "(1 :: int) \<le> 5 ^ k" for k by simp
  then show "OUTBOX_BACKOFF_BASE_MS \<le> backoffDelayMs n"
    by (simp add: backoffDelayMs_def OUTBOX_BACKOFF_BASE_MS_def OUTBOX_BACKOFF_FACTOR_def OUTBOX_BACKOFF_CAP_MS_def)
  show "backoffDelayMs n \<le> OUTBOX_BACKOFF_CAP_MS" by (simp add: backoffDelayMs_def)
qed

lemma backoff_mono: "m \<le> n \<Longrightarrow> backoffDelayMs m \<le> backoffDelayMs n"
proof -
  assume "m \<le> n"
  then have "(5 :: int) ^ nat (m - 1) \<le> 5 ^ nat (n - 1)" by (intro power_increasing) auto
  then have "OUTBOX_BACKOFF_BASE_MS * OUTBOX_BACKOFF_FACTOR ^ nat (m - 1) \<le>
      OUTBOX_BACKOFF_BASE_MS * OUTBOX_BACKOFF_FACTOR ^ nat (n - 1)"
    by (simp add: OUTBOX_BACKOFF_BASE_MS_def OUTBOX_BACKOFF_FACTOR_def)
  then show ?thesis unfolding backoffDelayMs_def by (rule min.mono) simp
qed

lemma without_member_gone: "\<not> has_member name (without_member name v)"
  by (cases v) auto

lemma has_member_prop: "v = JObj ms \<Longrightarrow> has_member name v \<longleftrightarrow> map_of ms name \<noteq> None"
  by (auto simp: map_of_eq_None_iff)

lemma js_prop_without: "name \<noteq> other \<Longrightarrow> js_prop name (without_member other v) = js_prop name v"
proof (cases v)
  case (JObj ms)
  assume "name \<noteq> other"
  then have "map_of (filter (\<lambda>(k, _). k \<noteq> other) ms) name = map_of ms name" by (induction ms) auto
  with JObj show ?thesis by simp
qed simp_all

text \<open>
  The budget of the sweep never changes which payloads it redacts: below it the candidates
  are all the eligible rows, and above it the candidates are not consulted.
\<close>

lemma redact_aged_exact:
  assumes "ordering_law arrange"
  shows "redact_aged arrange budget still olderThan now rows =
    redact_where (\<lambda>r. eligibleForPayloadRedaction olderThan r \<and> \<not> still (ob_id r)) now rows"
proof -
  let ?eligible = "filter (eligibleForPayloadRedaction olderThan) rows"
  let ?candidates = "take (budget + 1) (arrange ?eligible)"
  have rows: "set (arrange ?eligible) = set ?eligible" using assms by (rule ordering_set)
  show ?thesis
  proof (cases "?candidates = []")
    case True
    then have "arrange ?eligible = []" by simp
    then have "?eligible = []" using rows by (metis set_empty)
    then have none: "\<forall>r \<in> set rows. \<not> eligibleForPayloadRedaction olderThan r" by (simp add: filter_empty_conv)
    then have "map (\<lambda>r. if eligibleForPayloadRedaction olderThan r \<and> \<not> still (ob_id r)
        then outboxPayloadRedactionColumns now r else r) rows = rows" by (intro map_idI) simp
    with True none show ?thesis by (auto simp: redact_aged_def redact_where_def filter_empty_conv)
  next
    case False
    have "length ?candidates \<le> budget \<Longrightarrow> ?candidates = arrange ?eligible" by simp
    then have "(length ?candidates \<le> budget \<longrightarrow> ob_id r \<in> ob_id ` set ?candidates) \<and>
        eligibleForPayloadRedaction olderThan r \<and> \<not> still (ob_id r) \<longleftrightarrow>
      eligibleForPayloadRedaction olderThan r \<and> \<not> still (ob_id r)" if "r \<in> set rows" for r
      using that rows by auto
    with False show ?thesis
      by (auto simp: redact_aged_def redact_where_def Let_def intro!: map_cong arg_cong [where f = length] filter_cong)
  qed
qed

end
