(* ===== verification/RegistryStore.thy ===== *)
theory RegistryStore
  imports ReleaseStore A2uiCompile CompileDraft Outbox
begin

text \<open>
  The registry of the control schema: \<^verbatim>\<open>packages/db/src/queries/forms.ts\<close> and
  \<^verbatim>\<open>questions.ts\<close> with the constraints of their tables, beside the releases. A draft is the
  JSON it is stored as, because it is parsed again before it is published; a version's
  definition is used as it was stored. \<^verbatim>\<open>landed\<close> are the keys other transactions take
  meanwhile.
\<close>

section \<open>The tables\<close>

record form_identity =
  fo_formId :: form_id
  fo_slug :: string
  fo_workspaceId :: string
  fo_defaultLocale :: locale_code
  fo_challengeRequired :: bool
  fo_minSubmitMs :: "int option"

record version_row =
  fv_formId :: form_id
  fv_version :: int
  fv_definition :: form_definition
  fv_compiled :: compiled_form
  fv_semanticsVersion :: string
  fv_publishedAt :: int
  fv_publishedBy :: "string option"

record draft_row =
  fd_formId :: form_id
  fd_definition :: jsval
  fd_agentAssisted :: bool
  fd_revision :: int
  fd_updatedAt :: int

record question_row =
  qn_questionId :: question_id
  qn_slug :: string
  qn_workspaceId :: string
  qn_createdAt :: int

datatype question_status = QuestionDraft | QuestionPublished | QuestionDeprecated

record question_version_row =
  qv_questionId :: question_id
  qv_version :: int
  qv_definition :: question_definition
  qv_status :: question_status
  qv_publishedAt :: "int option"

record release_workspace =
  rws_id :: string
  rws_archived :: bool
  rws_requireSecondApprover :: bool
  rws_isShared :: bool

text \<open>An update of the rows that satisfy a condition, and the first of them as it is afterwards.\<close>

definition update_rows :: "('r \<Rightarrow> bool) \<Rightarrow> ('r \<Rightarrow> 'r) \<Rightarrow> 'r list \<Rightarrow> 'r list" where
  "update_rows p f rows = map (\<lambda>r. if p r then f r else r) rows"

section \<open>Forms\<close>

definition getFormBySlug :: "form_identity list \<Rightarrow> string \<Rightarrow> form_identity option" where
  "getFormBySlug forms slug = List.find (\<lambda>r. fo_slug r = slug) forms"

definition form_by_id :: "form_identity list \<Rightarrow> form_id \<Rightarrow> form_identity option" where
  "form_by_id forms fid = List.find (\<lambda>r. fo_formId r = fid) forms"

text \<open>\<^verbatim>\<open>arrange\<close> orders by the form id; no list of workspaces is the whole installation.\<close>

definition listForms ::
  "(form_identity list \<Rightarrow> form_identity list) \<Rightarrow> form_identity list \<Rightarrow> string list option \<Rightarrow> form_identity list" where
  "listForms arrange forms workspaceIds = (case workspaceIds of
     None \<Rightarrow> arrange forms
   | Some [] \<Rightarrow> []
   | Some ws \<Rightarrow> arrange (filter (\<lambda>r. fo_workspaceId r \<in> set ws) forms))"

datatype form_fault = FormIdViolation | SlugViolation | OtherFormViolation

definition createForm ::
  "(string \<Rightarrow> bool) \<Rightarrow> form_identity list \<Rightarrow> form_identity list \<Rightarrow> form_id \<Rightarrow> string \<Rightarrow> string \<Rightarrow> locale_code \<Rightarrow>
     form_fault + form_identity list" where
  "createForm workspace_exists landed forms fid slug workspaceId locale =
    (if \<not> workspace_exists workspaceId then Inl OtherFormViolation
     else if fid \<in> fo_formId ` set (forms @ landed) then Inl FormIdViolation
     else if slug \<in> fo_slug ` set (forms @ landed) then Inl SlugViolation
     else Inr (forms @ [\<lparr>fo_formId = fid, fo_slug = slug, fo_workspaceId = workspaceId, fo_defaultLocale = locale,
       fo_challengeRequired = False, fo_minSubmitMs = None\<rparr>]))"

definition moveFormToWorkspace :: "form_identity list \<Rightarrow> form_id \<Rightarrow> string \<Rightarrow> form_identity list" where
  "moveFormToWorkspace forms fid workspaceId =
     update_rows (\<lambda>r. fo_formId r = fid) (\<lambda>r. r\<lparr>fo_workspaceId := workspaceId\<rparr>) forms"

text \<open>An absent setting is left alone; an absent floor is \<^term>\<open>None\<close>, a cleared one \<^term>\<open>Some None\<close>.\<close>

record form_settings =
  fs_challengeRequired :: "bool option"
  fs_minSubmitMs :: "int option option"

definition updateFormSettings ::
  "form_identity list \<Rightarrow> form_id \<Rightarrow> form_settings \<Rightarrow> form_identity list \<times> form_identity option" where
  "updateFormSettings forms fid settings =
    (let rows = update_rows (\<lambda>r. fo_formId r = fid)
           (\<lambda>r. r\<lparr>fo_challengeRequired := opt_default (fo_challengeRequired r) (fs_challengeRequired settings),
                  fo_minSubmitMs := opt_default (fo_minSubmitMs r) (fs_minSubmitMs settings)\<rparr>) forms
     in (rows, form_by_id rows fid))"

section \<open>Drafts\<close>

definition draft_of :: "draft_row list \<Rightarrow> form_id \<Rightarrow> draft_row option" where
  "draft_of drafts fid = List.find (\<lambda>r. fd_formId r = fid) drafts"

definition upsertDraft :: "draft_row list \<Rightarrow> form_id \<Rightarrow> jsval \<Rightarrow> bool \<Rightarrow> int \<Rightarrow> draft_row list" where
  "upsertDraft drafts fid value agentAssisted now = (case draft_of drafts fid of
     None \<Rightarrow> drafts @ [\<lparr>fd_formId = fid, fd_definition = value, fd_agentAssisted = agentAssisted, fd_revision = 1, fd_updatedAt = now\<rparr>]
   | Some _ \<Rightarrow> update_rows (\<lambda>r. fd_formId r = fid)
       (\<lambda>r. r\<lparr>fd_definition := value, fd_agentAssisted := fd_agentAssisted r \<or> agentAssisted,
              fd_revision := fd_revision r + 1, fd_updatedAt := now\<rparr>) drafts)"

definition deleteDraft :: "draft_row list \<Rightarrow> form_id \<Rightarrow> draft_row list" where
  "deleteDraft drafts fid = filter (\<lambda>r. fd_formId r \<noteq> fid) drafts"

section \<open>Versions\<close>

definition versions_of :: "version_row list \<Rightarrow> form_id \<Rightarrow> version_row list" where
  "versions_of versions fid = filter (\<lambda>r. fv_formId r = fid) versions"

definition later_version :: "version_row option \<Rightarrow> version_row \<Rightarrow> version_row option" where
  "later_version best r = (case best of None \<Rightarrow> Some r | Some b \<Rightarrow> if fv_version b < fv_version r then Some r else Some b)"

definition latest_published :: "version_row list \<Rightarrow> form_id \<Rightarrow> version_row option" where
  "latest_published versions fid = foldl later_version None (versions_of versions fid)"

definition version_at :: "version_row list \<Rightarrow> form_id \<Rightarrow> int \<Rightarrow> version_row option" where
  "version_at versions fid v = List.find (\<lambda>r. fv_formId r = fid \<and> fv_version r = v) versions"

definition next_version :: "version_row list \<Rightarrow> form_id \<Rightarrow> int" where
  "next_version versions fid = opt_default 0 (map_option fv_version (latest_published versions fid)) + 1"

text \<open>The number of the row given is the one the statement computes.\<close>

definition insertFormVersion ::
  "form_identity list \<Rightarrow> (form_id \<times> int) list \<Rightarrow> version_row list \<Rightarrow> version_row \<Rightarrow> db_fault + version_row list \<times> version_row" where
  "insertFormVersion forms landed versions i =
    (let row = i\<lparr>fv_version := next_version versions (fv_formId i)\<rparr>
     in if form_by_id forms (fv_formId i) = None \<or> fv_version row \<le> 0 then Inl OtherViolation
        else if (fv_formId row, fv_version row) \<in> set landed then Inl UniqueViolation
        else Inr (versions @ [row], row))"

text \<open>\<^verbatim>\<open>arrange\<close> orders from the latest version to the first.\<close>

definition listFormVersions ::
  "(version_row list \<Rightarrow> version_row list) \<Rightarrow> version_row list \<Rightarrow> form_id \<Rightarrow> version_row list" where
  "listFormVersions arrange versions fid = arrange (versions_of versions fid)"

definition publishedTitlesByForm :: "version_row list \<Rightarrow> form_id list \<Rightarrow> (form_id \<times> localized_text) list" where
  "publishedTitlesByForm versions formIds = concat (map (\<lambda>fid. case latest_published versions fid of
     None \<Rightarrow> [] | Some r \<Rightarrow> [(fid, f_title (fv_definition r))]) (remdups formIds))"

definition latestVersionsByForm :: "version_row list \<Rightarrow> form_id list \<Rightarrow> (form_id \<times> int) list" where
  "latestVersionsByForm versions formIds = concat (map (\<lambda>fid. case latest_published versions fid of
     None \<Rightarrow> [] | Some r \<Rightarrow> [(fid, fv_version r)]) (remdups formIds))"

section \<open>Questions\<close>

definition question_by_id :: "question_row list \<Rightarrow> question_id \<Rightarrow> question_row option" where
  "question_by_id questions q = List.find (\<lambda>r. qn_questionId r = q) questions"

definition isQuestionIdTaken :: "question_row list \<Rightarrow> question_id \<Rightarrow> bool" where
  "isQuestionIdTaken questions q \<longleftrightarrow> list_ex (\<lambda>r. qn_questionId r = q) questions"

definition createQuestion ::
  "(string \<Rightarrow> bool) \<Rightarrow> question_row list \<Rightarrow> question_row list \<Rightarrow> question_row \<Rightarrow> db_fault + question_row list" where
  "createQuestion workspace_exists landed questions row =
    (if \<not> workspace_exists (qn_workspaceId row) then Inl OtherViolation
     else if qn_questionId row \<in> qn_questionId ` set (questions @ landed) \<or> qn_slug row \<in> qn_slug ` set (questions @ landed)
     then Inl UniqueViolation else Inr (questions @ [row]))"

definition moveQuestionToWorkspace :: "question_row list \<Rightarrow> question_id \<Rightarrow> string \<Rightarrow> question_row list" where
  "moveQuestionToWorkspace questions q workspaceId =
     update_rows (\<lambda>r. qn_questionId r = q) (\<lambda>r. r\<lparr>qn_workspaceId := workspaceId\<rparr>) questions"

definition question_versions_of :: "question_version_row list \<Rightarrow> question_id \<Rightarrow> question_version_row list" where
  "question_versions_of rows q = filter (\<lambda>r. qv_questionId r = q) rows"

text \<open>\<^verbatim>\<open>arrange\<close> orders from the first version to the latest.\<close>

definition listQuestionVersions ::
  "(question_version_row list \<Rightarrow> question_version_row list) \<Rightarrow> question_version_row list \<Rightarrow> question_id \<Rightarrow> question_version_row list" where
  "listQuestionVersions arrange rows q = arrange (question_versions_of rows q)"

definition getQuestionVersion :: "question_version_row list \<Rightarrow> question_id \<Rightarrow> int \<Rightarrow> question_version_row option" where
  "getQuestionVersion rows q v = List.find (\<lambda>r. qv_questionId r = q \<and> qv_version r = v) rows"

definition next_question_version :: "question_version_row list \<Rightarrow> question_id \<Rightarrow> int" where
  "next_question_version rows q = (case map qv_version (question_versions_of rows q) of [] \<Rightarrow> 1 | v # vs \<Rightarrow> foldl max v vs + 1)"

definition createQuestionVersion ::
  "question_row list \<Rightarrow> (question_id \<times> int) list \<Rightarrow> question_version_row list \<Rightarrow> question_id \<Rightarrow> question_definition \<Rightarrow>
     db_fault + question_version_row list \<times> question_version_row" where
  "createQuestionVersion questions landed rows q definition =
    (let row = \<lparr>qv_questionId = q, qv_version = next_question_version rows q, qv_definition = definition,
           qv_status = QuestionDraft, qv_publishedAt = None\<rparr>
     in if question_by_id questions q = None \<or> qv_version row \<le> 0 then Inl OtherViolation
        else if (q, qv_version row) \<in> set landed then Inl UniqueViolation
        else Inr (rows @ [row], row))"

definition publishQuestionVersion :: "question_version_row list \<Rightarrow> question_id \<Rightarrow> int \<Rightarrow> int \<Rightarrow> question_version_row list" where
  "publishQuestionVersion rows q v now = update_rows (\<lambda>r. qv_questionId r = q \<and> qv_version r = v)
     (\<lambda>r. r\<lparr>qv_status := QuestionPublished, qv_publishedAt := Some now\<rparr>) rows"

definition deprecateQuestionVersion :: "question_version_row list \<Rightarrow> question_id \<Rightarrow> int \<Rightarrow> question_version_row list" where
  "deprecateQuestionVersion rows q v = update_rows (\<lambda>r. qv_questionId r = q \<and> qv_version r = v)
     (\<lambda>r. r\<lparr>qv_status := QuestionDeprecated\<rparr>) rows"

definition updateDraftDefinition ::
  "question_version_row list \<Rightarrow> question_id \<Rightarrow> int \<Rightarrow> question_definition \<Rightarrow> question_version_row list" where
  "updateDraftDefinition rows q v definition =
     update_rows (\<lambda>r. qv_questionId r = q \<and> qv_version r = v \<and> qv_status r = QuestionDraft)
       (\<lambda>r. r\<lparr>qv_definition := definition\<rparr>) rows"

record QuestionOwnership =
  qo_questionId :: question_id
  qo_workspaceId :: string
  qo_workspaceIsShared :: bool

definition workspace_by_id :: "release_workspace list \<Rightarrow> string \<Rightarrow> release_workspace option" where
  "workspace_by_id workspaces w = List.find (\<lambda>r. rws_id r = w) workspaces"

definition ownership_of :: "release_workspace list \<Rightarrow> question_row \<Rightarrow> QuestionOwnership list" where
  "ownership_of workspaces r = (case workspace_by_id workspaces (qn_workspaceId r) of
     None \<Rightarrow> []
   | Some w \<Rightarrow> [\<lparr>qo_questionId = qn_questionId r, qo_workspaceId = qn_workspaceId r, qo_workspaceIsShared = rws_isShared w\<rparr>])"

definition listQuestionOwnership ::
  "question_row list \<Rightarrow> release_workspace list \<Rightarrow> question_id list \<Rightarrow> QuestionOwnership list" where
  "listQuestionOwnership questions workspaces ids =
     concat (map (ownership_of workspaces) (filter (\<lambda>r. qn_questionId r \<in> set ids) questions))"

text \<open>The summary of a question is its latest version; a question with none is left out.\<close>

definition later_question_version :: "question_version_row option \<Rightarrow> question_version_row \<Rightarrow> question_version_row option" where
  "later_question_version best r = (case best of None \<Rightarrow> Some r | Some b \<Rightarrow> if qv_version b < qv_version r then Some r else Some b)"

definition latest_question_version :: "question_version_row list \<Rightarrow> question_id \<Rightarrow> question_version_row option" where
  "latest_question_version rows q = foldl later_question_version None (question_versions_of rows q)"

definition listQuestions ::
  "(question_row list \<Rightarrow> question_row list) \<Rightarrow> question_row list \<Rightarrow> question_version_row list \<Rightarrow> string list option \<Rightarrow>
     (question_row \<times> question_version_row) list" where
  "listQuestions arrange questions rows workspaceIds =
     concat (map (\<lambda>r. case latest_question_version rows (qn_questionId r) of None \<Rightarrow> [] | Some v \<Rightarrow> [(r, v)])
       (arrange (filter (\<lambda>r. case workspaceIds of None \<Rightarrow> True | Some ws \<Rightarrow> qn_workspaceId r \<in> set ws) questions)))"

end
