(* ===== verification/ReleaseWorkflow.thy ===== *)
theory ReleaseWorkflow
  imports RegistryStore AccessPolicy
begin

text \<open>
  The release workflow: \<^verbatim>\<open>apps/api/src/features/releases/workflow.ts\<close>, the validation of its
  rules in \<^verbatim>\<open>releases/handler.ts\<close> with the search for a cycle, and the two-person rule in
  \<^verbatim>\<open>membership/two-person.ts\<close>. An API error is its code with what it names; its message is
  left out.
\<close>

section \<open>Refusals\<close>

datatype rule_fault = NotServed | NamedTwice | RequiresItself | RequiresUnserved string | OnACycle

datatype release_refusal =
    FormNotFound
  | VersionNotFound
  | DraftNotFound
  | InvalidFormId
  | UnknownEnvironment string
  | AlreadyReleased int string
  | ReleaseRaced
  | InvalidSource
  | StaleReview string "string option"
  | KeyReused
  | DuplicateTarget string
  | TestReleaseRequired
  | PriorReleaseRequired string "string list"
  | DraftPublishNotAllowed string
  | BatchNotAllowed string
  | ApproverIsAuthor int
  | ApproverUnknownAuthor int
  | WorkflowRevisionStale
  | WorkflowRuleInvalid string rule_fault
  | BatchNotFound
  | InternalFault

section \<open>The rules in force\<close>

datatype workflow_source = DefaultSource | ConfiguredSource

record EffectiveWorkflow =
  ew_revision :: "int option"
  ew_source :: workflow_source
  ew_rules :: "workflow_rule list"

definition usesTestWorkflow :: "string list \<Rightarrow> bool" where
  "usesTestWorkflow environments \<longleftrightarrow> ''test'' \<in> set environments \<and> ''prod'' \<in> set environments"

text \<open>\<^verbatim>\<open>new Set\<close> keeps the first of each.\<close>

definition productionVersions :: "(string \<times> int) list \<Rightarrow> int list" where
  "productionVersions releases =
     dedup (map snd (filter (\<lambda>(e, _). e = ''test'' \<or> e = ''prod'') releases))"

definition default_rule :: "bool \<Rightarrow> string \<Rightarrow> workflow_rule" where
  "default_rule gated environment =
    (let protectedTarget = gated \<and> environment = PRODUCTION_ENVIRONMENT
     in \<lparr>wk_environment = environment, wk_requiresPriorReleaseIn = (if protectedTarget then [''test''] else []),
         wk_allowsDraftPublish = (\<not> protectedTarget), wk_allowsInBatch = True\<rparr>)"

definition defaultWorkflowRules :: "string list \<Rightarrow> workflow_rule list" where
  "defaultWorkflowRules served = map (default_rule (usesTestWorkflow served)) served"

definition unconstrained :: "string \<Rightarrow> workflow_rule" where
  "unconstrained environment = \<lparr>wk_environment = environment, wk_requiresPriorReleaseIn = [],
     wk_allowsDraftPublish = True, wk_allowsInBatch = True\<rparr>"

text \<open>A map built from a list keeps the last entry of a key; the query's rules have one of each.\<close>

definition configured_rule :: "workflow_rule list \<Rightarrow> string \<Rightarrow> workflow_rule" where
  "configured_rule rules environment = (case map_of (map (\<lambda>r. (wk_environment r, r)) (rev rules)) environment of
     None \<Rightarrow> unconstrained environment | Some r \<Rightarrow> r)"

definition readWorkflow ::
  "(workflow_rule list \<Rightarrow> workflow_rule list) \<Rightarrow> workflow_tables \<Rightarrow> string list \<Rightarrow> EffectiveWorkflow" where
  "readWorkflow arrange t served = (case effectiveReleaseWorkflow arrange t of
     None \<Rightarrow> \<lparr>ew_revision = None, ew_source = DefaultSource, ew_rules = defaultWorkflowRules served\<rparr>
   | Some configured \<Rightarrow> \<lparr>ew_revision = Some (rw_revision configured), ew_source = ConfiguredSource,
       ew_rules = map (configured_rule (rw_rules configured)) served\<rparr>)"

definition ruleFor :: "EffectiveWorkflow \<Rightarrow> string \<Rightarrow> workflow_rule" where
  "ruleFor workflow environment =
     opt_default (unconstrained environment) (List.find (\<lambda>r. wk_environment r = environment) (ew_rules workflow))"

definition prerequisiteCode :: "EffectiveWorkflow \<Rightarrow> string" where
  "prerequisiteCode workflow =
    (if ew_source workflow = DefaultSource then ''TEST_RELEASE_REQUIRED'' else ''PRIOR_RELEASE_REQUIRED'')"

abbreviation hr_environment :: "history_row \<Rightarrow> string" where
  "hr_environment h \<equiv> rl_environment (hr_row h)"

abbreviation hr_version :: "history_row \<Rightarrow> int" where
  "hr_version h \<equiv> rl_version (hr_row h)"

definition isRollback :: "history_row list \<Rightarrow> string \<Rightarrow> int \<Rightarrow> bool" where
  "isRollback releases environment version \<longleftrightarrow>
     list_ex (\<lambda>h. hr_environment h = environment \<and> hr_version h = version) releases"

definition evidenceFor :: "history_row list \<Rightarrow> int \<Rightarrow> string \<Rightarrow> workflow_rule \<Rightarrow> history_row list" where
  "evidenceFor releases version environment rule =
    (let sources = (if isRollback releases environment version
       then insert environment (set (wk_requiresPriorReleaseIn rule)) else set (wk_requiresPriorReleaseIn rule))
     in filter (\<lambda>h. hr_version h = version \<and> hr_environment h \<in> sources) releases)"

definition requireDraftEligible :: "EffectiveWorkflow \<Rightarrow> string \<Rightarrow> release_refusal + unit" where
  "requireDraftEligible workflow environment =
    (let rule = ruleFor workflow environment
     in if wk_allowsDraftPublish rule \<and> wk_requiresPriorReleaseIn rule = [] then Inr ()
        else if ew_source workflow = DefaultSource then Inl TestReleaseRequired
        else if \<not> wk_allowsDraftPublish rule then Inl (DraftPublishNotAllowed environment)
        else Inl (PriorReleaseRequired environment (wk_requiresPriorReleaseIn rule)))"

definition requirePrerequisite ::
  "EffectiveWorkflow \<Rightarrow> history_row list \<Rightarrow> string \<Rightarrow> int \<Rightarrow> release_refusal + unit" where
  "requirePrerequisite workflow releases environment version =
    (let rule = ruleFor workflow environment
     in if wk_requiresPriorReleaseIn rule = [] then Inr ()
        else if isRollback releases environment version then Inr ()
        else if evidenceFor releases version environment rule \<noteq> [] then Inr ()
        else Inl (if ew_source workflow = DefaultSource then TestReleaseRequired
                  else PriorReleaseRequired environment (wk_requiresPriorReleaseIn rule)))"

definition requireReleaseCandidate ::
  "(workflow_rule list \<Rightarrow> workflow_rule list) \<Rightarrow> (release_row list \<Rightarrow> release_row list) \<Rightarrow> workflow_tables \<Rightarrow>
     release_row list \<Rightarrow> string list \<Rightarrow> string \<Rightarrow> string \<Rightarrow> int \<Rightarrow> release_refusal + unit" where
  "requireReleaseCandidate rule_order arrange t rows served environment fid version =
     requirePrerequisite (readWorkflow rule_order t served) (listFormReleases arrange rows fid None) environment version"

section \<open>The two-person rule\<close>

definition twoPersonRuleApplies :: "release_workspace list \<Rightarrow> string option \<Rightarrow> string option \<Rightarrow> bool" where
  "twoPersonRuleApplies workspaces workspaceId environment =
    (if environment \<noteq> Some PRODUCTION_ENVIRONMENT then False
     else case workspaceId of
         None \<Rightarrow> True
       | Some w \<Rightarrow> (case workspace_by_id workspaces w of
           None \<Rightarrow> True | Some r \<Rightarrow> rws_requireSecondApprover r))"

definition approvalForRelease ::
  "release_workspace list \<Rightarrow> string option \<Rightarrow> string \<Rightarrow> int \<Rightarrow> string option \<Rightarrow> string \<Rightarrow>
     release_refusal + string option" where
  "approvalForRelease workspaces workspaceId environment version author releasedBy =
    (if \<not> twoPersonRuleApplies workspaces workspaceId (Some environment) then Inr None
     else case author of
         None \<Rightarrow> Inl (ApproverUnknownAuthor version)
       | Some a \<Rightarrow> if a = releasedBy then Inl (ApproverIsAuthor version) else Inr (Some releasedBy))"

section \<open>Validating the rules\<close>

datatype mark = MarkOpen | MarkDone

type_synonym marks = "(string \<times> mark) list"

text \<open>
  \<^verbatim>\<open>walk\<close> of \<^verbatim>\<open>findCycle\<close>, with its recursion bounded by a fuel: \<^term>\<open>None\<close> is no answer for
  want of fuel, otherwise the node found, if any, and the marks. One more than the number of
  nodes is enough (\<open>walk_total\<close> below).
\<close>

function (sequential)
  walk :: "(string \<Rightarrow> string list) \<Rightarrow> nat \<Rightarrow> string \<Rightarrow> marks \<Rightarrow> (string option \<times> marks) option" and
  walk_each :: "(string \<Rightarrow> string list) \<Rightarrow> nat \<Rightarrow> string list \<Rightarrow> marks \<Rightarrow> (string option \<times> marks) option" where
  "walk edges 0 node state = None"
| "walk edges (Suc fuel) node state = (case map_of state node of
     Some MarkDone \<Rightarrow> Some (None, state)
   | Some MarkOpen \<Rightarrow> Some (Some node, state)
   | None \<Rightarrow> (case walk_each edges fuel (edges node) ((node, MarkOpen) # state) of
       None \<Rightarrow> None
     | Some (Some cyclic, state') \<Rightarrow> Some (Some cyclic, state')
     | Some (None, state') \<Rightarrow> Some (None, AList.update node MarkDone state')))"
| "walk_each edges fuel [] state = Some (None, state)"
| "walk_each edges fuel (node # nodes) state = (case walk edges fuel node state of
     None \<Rightarrow> None
   | Some (Some cyclic, state') \<Rightarrow> Some (Some cyclic, state')
   | Some (None, state') \<Rightarrow> walk_each edges fuel nodes state')"
  by pat_completeness auto
termination
  by (relation "measures [\<lambda>x. case x of Inl (_, fuel, _, _) \<Rightarrow> fuel | Inr (_, fuel, _, _) \<Rightarrow> fuel,
    \<lambda>x. case x of Inl _ \<Rightarrow> 0 | Inr (_, _, nodes, _) \<Rightarrow> Suc (length nodes)]") auto

definition rule_edges :: "workflow_rule list \<Rightarrow> string \<Rightarrow> string list" where
  "rule_edges rules node =
     opt_default [] (map_of (map (\<lambda>r. (wk_environment r, wk_requiresPriorReleaseIn r)) (rev rules)) node)"

definition rule_nodes :: "workflow_rule list \<Rightarrow> string list" where
  "rule_nodes rules = concat (map (\<lambda>r. wk_environment r # wk_requiresPriorReleaseIn r) rules)"

definition findCycle :: "workflow_rule list \<Rightarrow> string option option" where
  "findCycle rules = map_option fst
     (walk_each (rule_edges rules) (Suc (length (rule_nodes rules))) (map wk_environment rules) [])"

definition check_required :: "string list \<Rightarrow> string \<Rightarrow> string \<Rightarrow> release_refusal + unit" where
  "check_required served environment needed =
    (if needed = environment then Inl (WorkflowRuleInvalid environment RequiresItself)
     else if needed \<notin> set served then Inl (WorkflowRuleInvalid environment (RequiresUnserved needed))
     else Inr ())"

fun check_rules :: "string list \<Rightarrow> string list \<Rightarrow> workflow_rule list \<Rightarrow> release_refusal + unit" where
  "check_rules served seen [] = Inr ()"
| "check_rules served seen (rule # rules) =
    (if wk_environment rule \<notin> set served then Inl (WorkflowRuleInvalid (wk_environment rule) NotServed)
     else if wk_environment rule \<in> set seen then Inl (WorkflowRuleInvalid (wk_environment rule) NamedTwice)
     else bind_ok (each_ok (check_required served (wk_environment rule)) (wk_requiresPriorReleaseIn rule))
       (\<lambda>_. check_rules served (wk_environment rule # seen) rules))"

text \<open>The outer \<^term>\<open>None\<close> of the search does not occur; it is an internal fault here.\<close>

definition validateWorkflowRules :: "workflow_rule list \<Rightarrow> string list \<Rightarrow> release_refusal + unit" where
  "validateWorkflowRules rules served =
     bind_ok (check_rules served [] rules) (\<lambda>_. case findCycle rules of
       None \<Rightarrow> Inl InternalFault
     | Some None \<Rightarrow> Inr ()
     | Some (Some cyclic) \<Rightarrow> Inl (WorkflowRuleInvalid cyclic OnACycle))"

end
