(* ===== verification/ReleaseConfirm.thy ===== *)
theory ReleaseConfirm
  imports ReleaseWorkflow
begin

text \<open>
  Releasing: \<^verbatim>\<open>apps/api/src/features/releases/release.ts\<close>, \<^verbatim>\<open>batch.ts\<close> and the handlers of
  \<^verbatim>\<open>handler.ts\<close>. A transaction answers the database it leaves, or the refusal it is rolled
  back with. What freezes a draft is an argument, as it is of the code; so are the rows that
  other transactions land meanwhile, and what happens between a handler's reads and its
  transaction. The two clocks are one.
\<close>

section \<open>The database\<close>

record verified_proposal =
  vp_proposalId :: string
  vp_stepIndex :: nat
  vp_stepCount :: nat
  vp_kind :: string
  vp_screen :: string
  vp_environment :: string
  vp_proposedAt :: int
  vp_formId :: "string option"

record AgentStepSite =
  as_proposal :: verified_proposal
  as_actor :: string
  as_workspaceId :: string

record agent_action_row =
  aa_site :: AgentStepSite
  aa_detail :: "string option"
  aa_confirmedAt :: int

record audit_row =
  xa_actor :: string
  xa_workspaceId :: string
  xa_environment :: "string option"
  xa_formId :: "string option"
  xa_kind :: string
  xa_detail :: string
  xa_occurredAt :: int

text \<open>\<^verbatim>\<open>BatchResult\<close>: a release's body is its row, what it replaced and whether it rolled back.\<close>

record BatchResult =
  br_version :: int
  br_releases :: "history_row list"
  br_replayed :: bool
  br_froze :: bool

record registry =
  rd_forms :: "form_identity list"
  rd_versions :: "version_row list"
  rd_drafts :: "draft_row list"
  rd_questions :: "question_row list"
  rd_questionVersions :: "question_version_row list"
  rd_releases :: "release_row list"
  rd_workflow :: workflow_tables
  rd_batches :: "BatchResult release_batch_row list"
  rd_workspaces :: "release_workspace list"
  rd_outboxes :: "string \<Rightarrow> outbox_table"
  rd_agentActions :: "agent_action_row list"
  rd_accessAudit :: "audit_row list"

record release_host =
  rh_served :: "string list"
  rh_environment :: "string \<Rightarrow> bool"
  rh_rule_order :: "workflow_rule list \<Rightarrow> workflow_rule list"
  rh_history_order :: "release_row list \<Rightarrow> release_row list"
  rh_uuid :: "string \<Rightarrow> uuid_source"
  rh_iso :: "int \<Rightarrow> string"
  rh_int_text :: "int \<Rightarrow> string"

abbreviation find_form :: "registry \<Rightarrow> string \<Rightarrow> form_identity option" where
  "find_form db fid \<equiv> form_by_id (rd_forms db) fid"

abbreviation find_version :: "registry \<Rightarrow> string \<Rightarrow> int \<Rightarrow> version_row option" where
  "find_version db fid v \<equiv> version_at (rd_versions db) fid v"

abbreviation find_draft :: "registry \<Rightarrow> string \<Rightarrow> draft_row option" where
  "find_draft db fid \<equiv> draft_of (rd_drafts db) fid"

definition release_keys_of :: "release_host \<Rightarrow> registry \<Rightarrow> release_keys" where
  "release_keys_of H db = \<lparr>rk_version = (\<lambda>f v. find_version db f v \<noteq> None), rk_environment = rh_environment H\<rparr>"

text \<open>A violated unique key is a race, and any other fault is not expected.\<close>

definition raced :: "db_fault + 'a \<Rightarrow> release_refusal + 'a" where
  "raced m = (case m of Inl UniqueViolation \<Rightarrow> Inl ReleaseRaced | Inl OtherViolation \<Rightarrow> Inl InternalFault | Inr x \<Rightarrow> Inr x)"

definition writeAgentStep :: "registry \<Rightarrow> AgentStepSite option \<Rightarrow> string option \<Rightarrow> int \<Rightarrow> registry" where
  "writeAgentStep db site detail confirmedAt = (case site of
     None \<Rightarrow> db
   | Some s \<Rightarrow> db\<lparr>rd_agentActions := rd_agentActions db @
       [\<lparr>aa_site = s, aa_detail = detail, aa_confirmedAt = confirmedAt\<rparr>]\<rparr>)"

section \<open>One release\<close>

definition FORM_RELEASED :: string where "FORM_RELEASED = ''form.released''"

definition null_or_text :: "string option \<Rightarrow> jsval" where
  "null_or_text s = (case s of None \<Rightarrow> JNull | Some x \<Rightarrow> JStr x)"

definition released_payload :: "release_host \<Rightarrow> release_row \<Rightarrow> jsval" where
  "released_payload H r = JObj
     [(''formId'', JStr (rl_formId r)), (''version'', JNum (Fin (of_int (rl_version r)))),
      (''environment'', JStr (rl_environment r)), (''fromEnvironment'', null_or_text (rl_fromEnvironment r)),
      (''releasedBy'', JStr (rl_releasedBy r)), (''releasedAt'', JStr (rh_iso H (rl_releasedAt r))),
      (''approvedBy'', null_or_text (rl_approvedBy r)), (''closed'', JBool (rl_closed r))]"

definition enqueueInEnvironment :: "release_host \<Rightarrow> registry \<Rightarrow> string \<Rightarrow> string \<Rightarrow> jsval \<Rightarrow> int \<Rightarrow> registry" where
  "enqueueInEnvironment H db env eventType payload now =
     db\<lparr>rd_outboxes := (rd_outboxes db)(env := enqueue (rh_uuid H env) (rd_outboxes db env) eventType payload now)\<rparr>"

definition recordRelease ::
  "release_host \<Rightarrow> release_row list \<Rightarrow> registry \<Rightarrow> release_input \<Rightarrow> int \<Rightarrow> db_fault + registry \<times> release_row" where
  "recordRelease H landed db i now =
     bind_ok (insertFormRelease (release_keys_of H db) landed (rd_releases db) i now) (\<lambda>(rows, row).
       Inr (enqueueInEnvironment H (db\<lparr>rd_releases := rows\<rparr>) (rl_environment row) FORM_RELEASED (released_payload H row) now, row))"

section \<open>One confirmation\<close>

record BatchTarget =
  bt_environment :: string
  bt_expectedSequence :: "int option"
  bt_fromEnvironment :: "string option"

datatype BatchSource = VersionSource int "string option" | DraftSource int

record CommitInput =
  ci_formId :: string
  ci_workspaceId :: string
  ci_principalId :: string
  ci_idempotencyKey :: string
  ci_intentHash :: string
  ci_expectedWorkflowRevision :: "int option"
  ci_source :: BatchSource
  ci_targets :: "BatchTarget list"
  ci_agent :: "AgentStepSite option"

definition source_version :: "BatchSource \<Rightarrow> int option" where
  "source_version s = (case s of VersionSource v _ \<Rightarrow> Some v | DraftSource _ \<Rightarrow> None)"

definition newestIn :: "history_row list \<Rightarrow> string \<Rightarrow> history_row option" where
  "newestIn releases environment = List.find (\<lambda>h. hr_environment h = environment) releases"

fun first_duplicate :: "string list \<Rightarrow> string list \<Rightarrow> string option" where
  "first_duplicate seen [] = None"
| "first_duplicate seen (e # es) = (if e \<in> set seen then Some e else first_duplicate (e # seen) es)"

definition replay :: "BatchResult release_batch_row \<Rightarrow> string \<Rightarrow> release_refusal + BatchResult" where
  "replay stored intentHash =
    (if rb_intentHash stored \<noteq> intentHash then Inl KeyReused else Inr ((rb_result stored)\<lparr>br_replayed := True\<rparr>))"

definition storedResult :: "registry \<Rightarrow> string \<Rightarrow> string \<Rightarrow> string \<Rightarrow> string \<Rightarrow> release_refusal + BatchResult option" where
  "storedResult db principalId fid key intentHash = (case getReleaseBatch (rd_batches db) principalId fid key of
     None \<Rightarrow> Inr None
   | Some stored \<Rightarrow> bind_ok (replay stored intentHash) (\<lambda>r. Inr (Some r)))"

text \<open>The expectations of one destination, in the order they are checked, and its approval.\<close>

definition recheck_target ::
  "registry \<Rightarrow> CommitInput \<Rightarrow> EffectiveWorkflow \<Rightarrow> history_row list \<Rightarrow> BatchTarget \<Rightarrow> release_refusal + string option" where
  "recheck_target db input workflow releases target =
    (let environment = bt_environment target; rule = ruleFor workflow environment;
         current = newestIn releases environment; version = source_version (ci_source input);
         author = (case ci_source input of VersionSource _ p \<Rightarrow> p | DraftSource _ \<Rightarrow> Some (ci_principalId input));
         candidate = opt_default (next_version (rd_versions db) (ci_formId input)) version
     in bind_ok (throw_if (1 < length (ci_targets input) \<and> \<not> wk_allowsInBatch rule) (BatchNotAllowed environment)) (\<lambda>_.
        bind_ok (throw_if (map_option (\<lambda>h. rl_sequence (hr_row h)) current \<noteq> bt_expectedSequence target)
                  (StaleReview ''sequence'' (Some environment))) (\<lambda>_.
        bind_ok (case version of
             None \<Rightarrow> requireDraftEligible workflow environment
           | Some v \<Rightarrow> bind_ok (throw_if (map_option hr_version current = Some v) (AlreadyReleased v environment))
               (\<lambda>_. requirePrerequisite workflow releases environment v)) (\<lambda>_.
        approvalForRelease (rd_workspaces db) (Some (ci_workspaceId input)) environment candidate author (ci_principalId input)))))"

fun recheckTargets ::
  "registry \<Rightarrow> CommitInput \<Rightarrow> EffectiveWorkflow \<Rightarrow> history_row list \<Rightarrow> BatchTarget list \<Rightarrow>
     release_refusal + (string \<times> string option) list" where
  "recheckTargets db input workflow releases [] = Inr []"
| "recheckTargets db input workflow releases (target # targets) =
     bind_ok (recheck_target db input workflow releases target) (\<lambda>approval.
     bind_ok (recheckTargets db input workflow releases targets) (\<lambda>approvals.
     Inr ((bt_environment target, approval) # approvals)))"

text \<open>The row written for one destination, and its body in the result.\<close>

definition target_release ::
  "registry \<Rightarrow> CommitInput \<Rightarrow> (string \<times> string option) list \<Rightarrow> int \<Rightarrow> BatchTarget \<Rightarrow> release_input" where
  "target_release db input approvals version target =
     \<lparr>ri_formId = ci_formId input, ri_environment = bt_environment target, ri_version = version,
      ri_releasedBy = ci_principalId input, ri_fromEnvironment = bt_fromEnvironment target,
      ri_approvedBy = opt_default None (map_of approvals (bt_environment target)),
      ri_closed = (case getFormEnvironmentState (rd_releases db) (ci_formId input) (bt_environment target) of
         None \<Rightarrow> False | Some st \<Rightarrow> fe_closed st)\<rparr>"

definition release_body :: "history_row option \<Rightarrow> release_row \<Rightarrow> history_row" where
  "release_body current row = \<lparr>hr_row = row, hr_replacedVersion = map_option hr_version current,
     hr_rollback = (case current of None \<Rightarrow> False | Some h \<Rightarrow> rl_version row < hr_version h)\<rparr>"

fun writeReleases ::
  "release_host \<Rightarrow> release_row list \<Rightarrow> CommitInput \<Rightarrow> history_row list \<Rightarrow> (string \<times> string option) list \<Rightarrow> int \<Rightarrow> int \<Rightarrow>
     BatchTarget list \<Rightarrow> registry \<Rightarrow> release_refusal + registry \<times> history_row list" where
  "writeReleases H landed input releases approvals version now [] db = Inr (db, [])"
| "writeReleases H landed input releases approvals version now (target # targets) db =
     bind_ok (raced (recordRelease H landed db (target_release db input approvals version target) now)) (\<lambda>(db', row).
     bind_ok (writeReleases H landed input releases approvals version now targets db') (\<lambda>(db'', written).
     Inr (db'', release_body (newestIn releases (bt_environment target)) row # written)))"

text \<open>What freezing a draft answers: the version it numbered and the database after it.\<close>

type_synonym freezer = "registry \<Rightarrow> release_refusal + registry \<times> int"

text \<open>The transaction of a confirmation that is not a replay.\<close>

definition commit_new ::
  "release_host \<Rightarrow> freezer \<Rightarrow> release_row list \<Rightarrow> registry \<Rightarrow> CommitInput \<Rightarrow> int \<Rightarrow> release_refusal + BatchResult \<times> registry" where
  "commit_new H freeze landed db input now =
    (let workflow = readWorkflow (rh_rule_order H) (rd_workflow db) (rh_served H);
         releases = listFormReleases (rh_history_order H) (rd_releases db) (ci_formId input) None
     in bind_ok (throw_if (ew_revision workflow \<noteq> ci_expectedWorkflowRevision input) (StaleReview ''workflowRevision'' None)) (\<lambda>_.
        bind_ok (case ci_source input of
             DraftSource v \<Rightarrow> throw_if (map_option fd_revision (find_draft db (ci_formId input)) \<noteq> Some v) (StaleReview ''draftRevision'' None)
           | VersionSource _ _ \<Rightarrow> Inr ()) (\<lambda>_.
        bind_ok (recheckTargets db input workflow releases (ci_targets input)) (\<lambda>approvals.
        bind_ok (case ci_source input of DraftSource _ \<Rightarrow> freeze db | VersionSource v _ \<Rightarrow> Inr (db, v)) (\<lambda>(db1, version).
        bind_ok (writeReleases H landed input releases approvals version now (ci_targets input) db1) (\<lambda>(db2, written).
          let result = \<lparr>br_version = version, br_releases = written, br_replayed = False,
                 br_froze = (case ci_source input of DraftSource _ \<Rightarrow> True | _ \<Rightarrow> False)\<rparr>;
              db3 = writeAgentStep db2 (ci_agent input) (Some (rh_int_text H version)) now
          in bind_ok (raced (insertReleaseBatch [] (rd_batches db3)
               \<lparr>rb_principalId = ci_principalId input, rb_formId = ci_formId input, rb_idempotencyKey = ci_idempotencyKey input,
                rb_intentHash = ci_intentHash input, rb_result = result, rb_createdAt = now\<rparr>)) (\<lambda>batches.
             Inr (result, db3\<lparr>rd_batches := batches\<rparr>))))))))"

definition commitReleaseBatch ::
  "release_host \<Rightarrow> freezer \<Rightarrow> release_row list \<Rightarrow> registry \<Rightarrow> CommitInput \<Rightarrow> int \<Rightarrow> release_refusal + BatchResult \<times> registry" where
  "commitReleaseBatch H freeze landed db input now =
    (case first_duplicate [] (map bt_environment (ci_targets input)) of
       Some e \<Rightarrow> Inl (DuplicateTarget e)
     | None \<Rightarrow> (case find_form db (ci_formId input) of
         None \<Rightarrow> Inl FormNotFound
       | Some _ \<Rightarrow> (case getReleaseBatch (rd_batches db) (ci_principalId input) (ci_formId input) (ci_idempotencyKey input) of
           Some stored \<Rightarrow> bind_ok (replay stored (ci_intentHash input)) (\<lambda>r. Inr (r, db))
         | None \<Rightarrow> commit_new H freeze landed db input now)))"

section \<open>The handlers\<close>

definition requireEnvironment :: "release_host \<Rightarrow> string \<Rightarrow> release_refusal + unit" where
  "requireEnvironment H name = throw_if (name \<notin> set (rh_served H)) (UnknownEnvironment name)"

definition requireFormId :: "string \<Rightarrow> release_refusal + unit" where
  "requireFormId i = throw_if (\<not> FormId i) InvalidFormId"

record release_request =
  rr_form :: string
  rr_environment :: string
  rr_version :: int
  rr_fromEnvironment :: "string option"
  rr_principal :: string
  rr_workspace :: "string option"
  rr_agent :: "AgentStepSite option"

text \<open>One version into one environment. The approval and the rule are checked before the transaction.\<close>

definition release_version_checks ::
  "release_host \<Rightarrow> registry \<Rightarrow> release_request \<Rightarrow> release_refusal + string option" where
  "release_version_checks H db q =
     bind_ok (requireFormId (rr_form q)) (\<lambda>_.
     bind_ok (requireEnvironment H (rr_environment q)) (\<lambda>_.
     bind_ok (case rr_fromEnvironment q of None \<Rightarrow> Inr () | Some e \<Rightarrow> requireEnvironment H e) (\<lambda>_.
     bind_ok (throw_if (rr_fromEnvironment q = Some (rr_environment q)) InvalidSource) (\<lambda>_.
     case find_form db (rr_form q) of
       None \<Rightarrow> Inl FormNotFound
     | Some form \<Rightarrow> (case find_version db (rr_form q) (rr_version q) of
         None \<Rightarrow> Inl VersionNotFound
       | Some version \<Rightarrow>
           bind_ok (approvalForRelease (rd_workspaces db) (Some (opt_default (fo_workspaceId form) (rr_workspace q)))
             (rr_environment q) (rr_version q) (fv_publishedBy version) (rr_principal q)) (\<lambda>approvedBy.
           bind_ok (requireReleaseCandidate (rh_rule_order H) (rh_history_order H) (rd_workflow db) (rd_releases db)
             (rh_served H) (rr_environment q) (rr_form q) (rr_version q)) (\<lambda>_. Inr approvedBy)))))))"

definition release_version_tx ::
  "release_host \<Rightarrow> release_row list \<Rightarrow> registry \<Rightarrow> release_request \<Rightarrow> string option \<Rightarrow> int \<Rightarrow>
     release_refusal + history_row \<times> registry" where
  "release_version_tx H landed db q approvedBy now =
    (let current = getReleasedVersion (rd_releases db) (rr_form q) (rr_environment q)
     in bind_ok (throw_if (map_option rl_version current = Some (rr_version q)) (AlreadyReleased (rr_version q) (rr_environment q))) (\<lambda>_.
        bind_ok (raced (recordRelease H landed (writeAgentStep db (rr_agent q) (Some (rh_int_text H (rr_version q))) now)
            \<lparr>ri_formId = rr_form q, ri_environment = rr_environment q, ri_version = rr_version q, ri_releasedBy = rr_principal q,
             ri_fromEnvironment = rr_fromEnvironment q, ri_approvedBy = approvedBy,
             ri_closed = (case current of None \<Rightarrow> False | Some r \<Rightarrow> rl_closed r)\<rparr> now)) (\<lambda>(db', row).
        Inr (\<lparr>hr_row = row, hr_replacedVersion = map_option rl_version current,
              hr_rollback = (case current of None \<Rightarrow> False | Some r \<Rightarrow> rl_version row < rl_version r)\<rparr>, db'))))"

definition releaseVersion ::
  "release_host \<Rightarrow> (registry \<Rightarrow> registry) \<Rightarrow> release_row list \<Rightarrow> registry \<Rightarrow> release_request \<Rightarrow> int \<Rightarrow>
     release_refusal + history_row \<times> registry" where
  "releaseVersion H between landed db q now =
     bind_ok (release_version_checks H db q) (\<lambda>approvedBy. release_version_tx H landed (between db) q approvedBy now)"

end
