(* ===== verification/ReleaseReview.thy ===== *)
theory ReleaseReview
  imports ReleaseConfirm GrantCheck
begin

text \<open>
  The other handlers of \<^verbatim>\<open>apps/api/src/features/releases/handler.ts\<close>: the review of a source
  over its targets, the environments a caller is shown, the reading and the writing of the
  workflow, the confirmation of several destinations and the lookup of its result. The
  account a session is for is an argument; the gate before these routes has refused a
  request without one.
\<close>

section \<open>One target of a review\<close>

record blocker =
  bl_code :: string
  bl_requiresAnyOf :: "string list"

record review_evidence =
  ve_environment :: string
  ve_version :: int
  ve_sequence :: int
  ve_releasedAt :: int

record review_target =
  vt_environment :: string
  vt_currentVersion :: "int option"
  vt_currentSequence :: "int option"
  vt_closed :: bool
  vt_evidence :: "review_evidence list"
  vt_blockers :: "blocker list"
  vt_applies :: bool
  vt_refusedAsAuthor :: bool
  vt_protected :: bool

record blocker_input =
  bi_prerequisite :: "string list"
  bi_prerequisiteCode :: string
  bi_allowsDraftPublish :: bool
  bi_rollback :: bool
  bi_isDraft :: bool
  bi_hasEvidence :: bool
  bi_alreadyReleased :: bool
  bi_twoPersonApplies :: bool
  bi_authorKnown :: bool
  bi_refusedAsAuthor :: bool

definition plain_blocker :: "string \<Rightarrow> blocker" where
  "plain_blocker code = \<lparr>bl_code = code, bl_requiresAnyOf = []\<rparr>"

definition blockersFor :: "blocker_input \<Rightarrow> blocker list" where
  "blockersFor i =
    (if bi_isDraft i \<and> \<not> bi_allowsDraftPublish i
     then [\<lparr>bl_code = ''DRAFT_PUBLISH_NOT_ALLOWED'', bl_requiresAnyOf = bi_prerequisite i\<rparr>]
     else if bi_prerequisite i \<noteq> [] \<and> \<not> bi_rollback i
     then (if bi_isDraft i \<or> \<not> bi_hasEvidence i
           then [\<lparr>bl_code = bi_prerequisiteCode i, bl_requiresAnyOf = bi_prerequisite i\<rparr>] else [])
     else []) @
    (if bi_alreadyReleased i then [plain_blocker ''ALREADY_RELEASED''] else []) @
    (if bi_twoPersonApplies i
     then (if bi_refusedAsAuthor i then [plain_blocker ''APPROVER_IS_AUTHOR'']
           else if \<not> bi_isDraft i \<and> \<not> bi_authorKnown i then [plain_blocker ''APPROVER_UNKNOWN_AUTHOR''] else [])
     else [])"

text \<open>A version, or none for a draft, with its author.\<close>

definition reviewTarget ::
  "string \<Rightarrow> history_row list \<Rightarrow> EffectiveWorkflow \<Rightarrow> bool \<Rightarrow> bool \<Rightarrow> int option \<Rightarrow> string option \<Rightarrow> string \<Rightarrow> review_target" where
  "reviewTarget environment releases workflow requiresSecond isDraft version author caller =
    (let current = newestIn releases environment;
         rule = ruleFor workflow environment;
         rollback = (case version of None \<Rightarrow> False | Some v \<Rightarrow> isRollback releases environment v);
         evidence = (case version of None \<Rightarrow> [] | Some v \<Rightarrow> evidenceFor releases v environment rule);
         applies = (environment = PRODUCTION_ENVIRONMENT \<and> requiresSecond);
         refusedAsAuthor = (applies \<and> (isDraft \<or> author = Some caller))
     in \<lparr>vt_environment = environment,
         vt_currentVersion = map_option hr_version current,
         vt_currentSequence = map_option (\<lambda>h. rl_sequence (hr_row h)) current,
         vt_closed = (case current of None \<Rightarrow> False | Some h \<Rightarrow> rl_closed (hr_row h)),
         vt_evidence = map (\<lambda>h. \<lparr>ve_environment = hr_environment h, ve_version = hr_version h,
           ve_sequence = rl_sequence (hr_row h), ve_releasedAt = rl_releasedAt (hr_row h)\<rparr>) evidence,
         vt_blockers = blockersFor \<lparr>bi_prerequisite = wk_requiresPriorReleaseIn rule,
           bi_prerequisiteCode = prerequisiteCode workflow, bi_allowsDraftPublish = wk_allowsDraftPublish rule,
           bi_rollback = rollback, bi_isDraft = isDraft, bi_hasEvidence = (evidence \<noteq> []),
           bi_alreadyReleased = (version \<noteq> None \<and> map_option hr_version current = version),
           bi_twoPersonApplies = applies, bi_authorKnown = (author \<noteq> None), bi_refusedAsAuthor = refusedAsAuthor\<rparr>,
         vt_applies = applies, vt_refusedAsAuthor = refusedAsAuthor,
         vt_protected = (environment = PRODUCTION_ENVIRONMENT)\<rparr>)"

section \<open>The review\<close>

datatype review_source = ReviewVersion int | ReviewDraft

datatype reviewed_source = ReviewedVersion int "string option" | ReviewedDraft int

record release_review =
  rv_source :: reviewed_source
  rv_workflowRevision :: "int option"
  rv_workflowSource :: workflow_source
  rv_targets :: "review_target list"

text \<open>Who asks: the account, its installation role and the workspace the gate resolved.\<close>

record release_caller =
  rc_userId :: string
  rc_role :: "string option"
  rc_workspaceId :: "string option"

definition review_source_of :: "registry \<Rightarrow> string \<Rightarrow> review_source \<Rightarrow> release_refusal + reviewed_source" where
  "review_source_of db fid source = (case source of
     ReviewVersion v \<Rightarrow> (case find_version db fid v of
        None \<Rightarrow> Inl VersionNotFound | Some row \<Rightarrow> Inr (ReviewedVersion v (fv_publishedBy row)))
   | ReviewDraft \<Rightarrow> (case find_draft db fid of
        None \<Rightarrow> Inl DraftNotFound | Some row \<Rightarrow> Inr (ReviewedDraft (fd_revision row))))"

definition may_release ::
  "authorizer \<Rightarrow> resolved_membership \<Rightarrow> string \<Rightarrow> string \<Rightarrow> release_refusal + bool" where
  "may_release authorize membership fid environment =
    (case decideAccess authorize (rm_memberRole membership) (rm_grants membership)
        \<lparr>rq_resource = RsRelease, rq_action = ''create'', rq_environment = Some environment, rq_formId = Some fid\<rparr> of
       Inl _ \<Rightarrow> Inl InternalFault | Inr d \<Rightarrow> Inr (allowed d))"

definition second_required :: "registry \<Rightarrow> string \<Rightarrow> bool" where
  "second_required db workspaceId = (case workspace_by_id (rd_workspaces db) workspaceId of
     None \<Rightarrow> False | Some r \<Rightarrow> rws_requireSecondApprover r)"

definition served_of :: "release_host \<Rightarrow> string list \<Rightarrow> string list" where
  "served_of H listed = filter (\<lambda>name. name \<in> set (rh_served H)) listed"

definition releaseReview ::
  "release_host \<Rightarrow> authorizer \<Rightarrow> query_order \<Rightarrow> control_db \<Rightarrow> string list \<Rightarrow> registry \<Rightarrow> release_caller \<Rightarrow> string \<Rightarrow>
     review_source \<Rightarrow> release_refusal + release_review" where
  "releaseReview H authorize qo G listed db caller fid source = bind_ok (requireFormId fid) (\<lambda>_. case find_form db fid of
     None \<Rightarrow> Inl FormNotFound
   | Some form \<Rightarrow> bind_ok (review_source_of db fid source) (\<lambda>reviewed.
       let workspaceId = opt_default (fo_workspaceId form) (rc_workspaceId caller);
           membership = resolveGrants qo G (rc_userId caller) workspaceId (holdsInstallationClaim (rc_role caller));
           releases = listFormReleases (rh_history_order H) (rd_releases db) fid None;
           served = served_of H listed;
           workflow = readWorkflow (rh_rule_order H) (rd_workflow db) served
       in bind_ok (filter_ok (may_release authorize membership fid) served) (\<lambda>permitted.
          Inr \<lparr>rv_source = reviewed, rv_workflowRevision = ew_revision workflow, rv_workflowSource = ew_source workflow,
            rv_targets = map (\<lambda>environment. case reviewed of
                ReviewedVersion v author \<Rightarrow> reviewTarget environment releases workflow (second_required db workspaceId)
                  False (Some v) author (rc_userId caller)
              | ReviewedDraft _ \<Rightarrow> reviewTarget environment releases workflow (second_required db workspaceId)
                  True None None (rc_userId caller)) permitted\<rparr>)))"

section \<open>The environments a caller is shown\<close>

definition isScopeAll :: "string list \<Rightarrow> bool" where
  "isScopeAll scope \<longleftrightarrow> length scope = 1 \<and> scope ! 0 = SCOPE_ALL"

definition heldEnvironments :: "query_order \<Rightarrow> control_db \<Rightarrow> string list \<Rightarrow> string option \<Rightarrow> string set" where
  "heldEnvironments qo G live userId = (case userId of
     None \<Rightarrow> {}
   | Some u \<Rightarrow> (\<Union>grant \<in> set (listGrantsForUser (qo_teams qo) G u).
       if isScopeAll (tm_environments grant) then set live else set (tm_environments grant)))"

definition environmentSet ::
  "release_host \<Rightarrow> query_order \<Rightarrow> control_db \<Rightarrow> string list \<Rightarrow> string option \<Rightarrow> string option \<Rightarrow> string list" where
  "environmentSet H qo G listed userId role =
     filter (\<lambda>name. holdsInstallationClaim role \<or> name \<in> heldEnvironments qo G listed userId) (served_of H listed)"

section \<open>The workflow\<close>

record workflow_environment =
  we_name :: string
  we_protected :: bool
  we_requiresPriorReleaseIn :: "string list"
  we_allowsDraftPublish :: bool
  we_allowsInBatch :: bool

record workflow_body =
  wb_revision :: "int option"
  wb_source :: workflow_source
  wb_environments :: "workflow_environment list"

definition workflowBody :: "EffectiveWorkflow \<Rightarrow> string list \<Rightarrow> workflow_body" where
  "workflowBody workflow names = \<lparr>wb_revision = ew_revision workflow, wb_source = ew_source workflow,
     wb_environments = map (\<lambda>name. let rule = ruleFor workflow name
       in \<lparr>we_name = name, we_protected = (name = PRODUCTION_ENVIRONMENT),
           we_requiresPriorReleaseIn = wk_requiresPriorReleaseIn rule, we_allowsDraftPublish = wk_allowsDraftPublish rule,
           we_allowsInBatch = wk_allowsInBatch rule\<rparr>) names\<rparr>"

definition releaseWorkflowRead :: "release_host \<Rightarrow> string list \<Rightarrow> registry \<Rightarrow> workflow_body" where
  "releaseWorkflowRead H listed db =
     workflowBody (readWorkflow (rh_rule_order H) (rd_workflow db) (served_of H listed)) (served_of H listed)"

definition bool_text :: "bool \<Rightarrow> string" where
  "bool_text b = (if b then ''true'' else ''false'')"

definition one_summary :: "workflow_rule \<Rightarrow> string" where
  "one_summary rule = wk_environment rule @ '':after='' @
     (if wk_requiresPriorReleaseIn rule = [] then ''-'' else js_join ''+'' (wk_requiresPriorReleaseIn rule)) @
     '',draft='' @ bool_text (wk_allowsDraftPublish rule) @ '',batch='' @ bool_text (wk_allowsInBatch rule)"

definition ruleSummary :: "workflow_rule list \<Rightarrow> string" where
  "ruleSummary rules = (if rules = [] then ''rules=none'' else js_join '' '' (map one_summary rules))"

record workflow_write =
  ww_expectedRevision :: "int option"
  ww_note :: "string option"
  ww_rules :: "workflow_rule list"

text \<open>The audit row of each workspace that is not archived; \<^verbatim>\<open>landed\<close> are racing revisions.\<close>

definition workflow_audit :: "release_host \<Rightarrow> string \<Rightarrow> int \<Rightarrow> workflow_rule list \<Rightarrow> int \<Rightarrow> release_workspace \<Rightarrow> audit_row" where
  "workflow_audit H actor revision rules now workspace =
     \<lparr>xa_actor = actor, xa_workspaceId = rws_id workspace, xa_environment = None, xa_formId = None, xa_kind = ''setting'',
      xa_detail = ''setting=releaseWorkflow value=revision '' @ rh_int_text H revision @ ''; '' @ ruleSummary rules,
      xa_occurredAt = now\<rparr>"

definition workflow_write_tx ::
  "release_host \<Rightarrow> int list \<Rightarrow> registry \<Rightarrow> string \<Rightarrow> workflow_write \<Rightarrow> int \<Rightarrow> release_refusal + registry" where
  "workflow_write_tx H landed db actor change now =
     bind_ok (throw_if (latestReleaseWorkflowRevision (rd_workflow db) \<noteq> ww_expectedRevision change) WorkflowRevisionStale) (\<lambda>_.
     case insertReleaseWorkflowRevision (rh_environment H) landed (rd_workflow db) (ww_expectedRevision change) actor
         (ww_note change) (ww_rules change) now of
       Inl UniqueViolation \<Rightarrow> Inl WorkflowRevisionStale
     | Inl OtherViolation \<Rightarrow> Inl InternalFault
     | Inr (workflow, revision) \<Rightarrow> Inr (db\<lparr>rd_workflow := workflow,
         rd_accessAudit := rd_accessAudit db @ map (workflow_audit H actor (rw_revision revision) (ww_rules change) now)
           (filter (\<lambda>w. \<not> rws_archived w) (rd_workspaces db))\<rparr>))"

definition releaseWorkflowWrite ::
  "release_host \<Rightarrow> string list \<Rightarrow> int list \<Rightarrow> registry \<Rightarrow> string \<Rightarrow> workflow_write \<Rightarrow> int \<Rightarrow>
     release_refusal + workflow_body \<times> registry" where
  "releaseWorkflowWrite H listed landed db actor change now =
     bind_ok (validateWorkflowRules (ww_rules change) (served_of H listed)) (\<lambda>_.
     bind_ok (workflow_write_tx H landed db actor change now) (\<lambda>db'. Inr (releaseWorkflowRead H listed db', db')))"

section \<open>The confirmation of several destinations\<close>

record batch_request =
  bq_form :: string
  bq_version :: int
  bq_targets :: "BatchTarget list"
  bq_idempotencyKey :: string
  bq_expectedWorkflowRevision :: "int option"
  bq_intentHash :: string

definition requireTarget :: "release_host \<Rightarrow> BatchTarget \<Rightarrow> release_refusal + unit" where
  "requireTarget H target = bind_ok (requireEnvironment H (bt_environment target)) (\<lambda>_.
     case bt_fromEnvironment target of
       None \<Rightarrow> Inr ()
     | Some e \<Rightarrow> bind_ok (requireEnvironment H e) (\<lambda>_. throw_if (e = bt_environment target) InvalidSource))"

definition batch_input :: "release_caller \<Rightarrow> batch_request \<Rightarrow> form_identity \<Rightarrow> version_row \<Rightarrow> CommitInput" where
  "batch_input caller q form version = \<lparr>ci_formId = bq_form q,
     ci_workspaceId = opt_default (fo_workspaceId form) (rc_workspaceId caller), ci_principalId = rc_userId caller,
     ci_idempotencyKey = bq_idempotencyKey q, ci_intentHash = bq_intentHash q,
     ci_expectedWorkflowRevision = bq_expectedWorkflowRevision q,
     ci_source = VersionSource (bq_version q) (fv_publishedBy version), ci_targets = bq_targets q, ci_agent = None\<rparr>"

definition releaseBatch ::
  "release_host \<Rightarrow> (registry \<Rightarrow> registry) \<Rightarrow> release_row list \<Rightarrow> registry \<Rightarrow> release_caller \<Rightarrow> batch_request \<Rightarrow> int \<Rightarrow>
     release_refusal + BatchResult \<times> registry" where
  "releaseBatch H between landed db caller q now =
     bind_ok (requireFormId (bq_form q)) (\<lambda>_. bind_ok (each_ok (requireTarget H) (bq_targets q)) (\<lambda>_. case find_form db (bq_form q) of
       None \<Rightarrow> Inl FormNotFound
     | Some form \<Rightarrow> (case find_version db (bq_form q) (bq_version q) of
         None \<Rightarrow> Inl VersionNotFound
       | Some version \<Rightarrow> commitReleaseBatch H (\<lambda>_. Inl InternalFault) landed (between db) (batch_input caller q form version) now)))"

definition uuid_digit :: "char \<Rightarrow> bool" where
  "uuid_digit c \<longleftrightarrow> c \<in> set ''0123456789abcdefABCDEF''"

definition UUID_KEY :: "string \<Rightarrow> bool" where
  "UUID_KEY key \<longleftrightarrow> length key = 36 \<and>
     list_all (\<lambda>i. if i \<in> {8, 13, 18, 23} then key ! i = CHR ''-'' else uuid_digit (key ! i)) [0..<36]"

definition releaseBatchLookup :: "registry \<Rightarrow> release_caller \<Rightarrow> string \<Rightarrow> string \<Rightarrow> release_refusal + BatchResult" where
  "releaseBatchLookup db caller fid key =
     bind_ok (requireFormId fid) (\<lambda>_. bind_ok (throw_if (\<not> UUID_KEY key) BatchNotFound) (\<lambda>_. case find_form db fid of
       None \<Rightarrow> Inl FormNotFound
     | Some _ \<Rightarrow> (case getReleaseBatch (rd_batches db) (rc_userId caller) fid key of
         None \<Rightarrow> Inl BatchNotFound | Some stored \<Rightarrow> Inr (rb_result stored))))"

definition releaseHistory :: "release_host \<Rightarrow> registry \<Rightarrow> string \<Rightarrow> string option \<Rightarrow> release_refusal + history_row list" where
  "releaseHistory H db fid environment =
     bind_ok (requireFormId fid) (\<lambda>_.
     bind_ok (case environment of None \<Rightarrow> Inr () | Some e \<Rightarrow> requireEnvironment H e) (\<lambda>_. case find_form db fid of
       None \<Rightarrow> Inl FormNotFound
     | Some _ \<Rightarrow> Inr (listFormReleases (rh_history_order H) (rd_releases db) fid environment)))"

end
