(* ===== verification/ReleaseFacts.thy ===== *)
theory ReleaseFacts
  imports ReleaseReview
begin

text \<open>
  What a release writes. One record and one event for each destination, in the order of the
  destinations, and nothing else of either table; the checks that every row written has
  passed; the replay of a confirmation; the agreement of a review with the confirmation it
  is made for; and the invariants of the registry over every operation that writes to it.
\<close>

section \<open>One record and its event\<close>

lemma raced_Inr [throw_simps]: "raced m = Inr x \<longleftrightarrow> m = Inr x"
  by (auto simp: raced_def split: sum.splits db_fault.splits)

definition event_pair :: "outbox_row \<Rightarrow> string \<times> jsval" where
  "event_pair r = (ob_eventType r, ob_payload r)"

definition events_in :: "registry \<Rightarrow> string \<Rightarrow> (string \<times> jsval) list" where
  "events_in db env = map event_pair (ot_rows (rd_outboxes db env))"

definition release_event :: "release_host \<Rightarrow> release_row \<Rightarrow> string \<times> jsval" where
  "release_event H row = (FORM_RELEASED, released_payload H row)"

lemma enqueueInEnvironment_effect [simp]:
  "events_in (enqueueInEnvironment H db env ty payload now) e = events_in db e @ (if e = env then [(ty, payload)] else [])"
  "rd_releases (enqueueInEnvironment H db env ty payload now) = rd_releases db"
  "rd_versions (enqueueInEnvironment H db env ty payload now) = rd_versions db"
  "rd_forms (enqueueInEnvironment H db env ty payload now) = rd_forms db"
  "rd_drafts (enqueueInEnvironment H db env ty payload now) = rd_drafts db"
  "rd_batches (enqueueInEnvironment H db env ty payload now) = rd_batches db"
  "rd_workflow (enqueueInEnvironment H db env ty payload now) = rd_workflow db"
  "rd_workspaces (enqueueInEnvironment H db env ty payload now) = rd_workspaces db"
  "rd_agentActions (enqueueInEnvironment H db env ty payload now) = rd_agentActions db"
  "rd_accessAudit (enqueueInEnvironment H db env ty payload now) = rd_accessAudit db"
  by (simp_all add: enqueueInEnvironment_def events_in_def enqueue_def event_pair_def)

lemma events_in_simps [simp]:
  "events_in (db\<lparr>rd_releases := rows\<rparr>) e = events_in db e"
  "events_in (db\<lparr>rd_batches := batches\<rparr>) e = events_in db e"
  "events_in (db\<lparr>rd_agentActions := actions\<rparr>) e = events_in db e"
  by (simp_all add: events_in_def)

lemma writeAgentStep_effect [simp]:
  "events_in (writeAgentStep db site detail now) e = events_in db e"
  "rd_releases (writeAgentStep db site detail now) = rd_releases db"
  "rd_versions (writeAgentStep db site detail now) = rd_versions db"
  "rd_forms (writeAgentStep db site detail now) = rd_forms db"
  "rd_drafts (writeAgentStep db site detail now) = rd_drafts db"
  "rd_batches (writeAgentStep db site detail now) = rd_batches db"
  "rd_workflow (writeAgentStep db site detail now) = rd_workflow db"
  "rd_workspaces (writeAgentStep db site detail now) = rd_workspaces db"
  by (simp_all add: writeAgentStep_def split: option.splits)

text \<open>The tables a release leaves alone.\<close>

definition same_registry :: "registry \<Rightarrow> registry \<Rightarrow> bool" where
  "same_registry db db' \<longleftrightarrow> rd_versions db' = rd_versions db \<and> rd_forms db' = rd_forms db \<and> rd_drafts db' = rd_drafts db \<and>
     rd_batches db' = rd_batches db \<and> rd_workflow db' = rd_workflow db \<and> rd_workspaces db' = rd_workspaces db"

lemma same_registry_refl [simp]: "same_registry db db"
  by (simp add: same_registry_def)

lemma same_registry_trans: "same_registry a b \<Longrightarrow> same_registry b c \<Longrightarrow> same_registry a c"
  by (simp add: same_registry_def)

lemma recordRelease_effect:
  assumes "recordRelease H landed db i now = Inr (db', row)"
  shows "row = release_of (rd_releases db) i now" "rd_releases db' = rd_releases db @ [row]"
    "insertFormRelease (release_keys_of H db) landed (rd_releases db) i now = Inr (rd_releases db', row)"
    "events_in db' e = events_in db e @ (if e = ri_environment i then [release_event H row] else [])"
    "same_registry db db'"
proof -
  from assms obtain rows where ins: "insertFormRelease (release_keys_of H db) landed (rd_releases db) i now = Inr (rows, row)"
    and db': "db' = enqueueInEnvironment H (db\<lparr>rd_releases := rows\<rparr>) (rl_environment row) FORM_RELEASED (released_payload H row) now"
    by (auto simp: recordRelease_def throw_simps)
  show row: "row = release_of (rd_releases db) i now" and "rd_releases db' = rd_releases db @ [row]"
    using insertFormRelease_effect(1,2) [OF ins] by (auto simp: db')
  show "insertFormRelease (release_keys_of H db) landed (rd_releases db) i now = Inr (rd_releases db', row)"
    using ins by (simp add: db')
  show "events_in db' e = events_in db e @ (if e = ri_environment i then [release_event H row] else [])"
    by (simp add: db' release_event_def row release_of_def)
  show "same_registry db db'" by (simp add: same_registry_def db')
qed

section \<open>The records of one confirmation\<close>

lemma release_of_simps [simp]:
  "rl_formId (release_of rows i now) = ri_formId i"
  "rl_environment (release_of rows i now) = ri_environment i"
  "rl_version (release_of rows i now) = ri_version i"
  "rl_releasedBy (release_of rows i now) = ri_releasedBy i"
  "rl_approvedBy (release_of rows i now) = ri_approvedBy i"
  "rl_fromEnvironment (release_of rows i now) = ri_fromEnvironment i"
  "rl_closed (release_of rows i now) = ri_closed i"
  "rl_sequence (release_of rows i now) = next_sequence rows (ri_formId i) (ri_environment i)"
  by (simp_all add: release_of_def)

lemma target_release_simps [simp]:
  "ri_formId (target_release db input approvals version target) = ci_formId input"
  "ri_environment (target_release db input approvals version target) = bt_environment target"
  "ri_version (target_release db input approvals version target) = version"
  "ri_releasedBy (target_release db input approvals version target) = ci_principalId input"
  "ri_fromEnvironment (target_release db input approvals version target) = bt_fromEnvironment target"
  "ri_approvedBy (target_release db input approvals version target) = opt_default None (map_of approvals (bt_environment target))"
  by (simp_all add: target_release_def)

lemma release_body_row [simp]: "hr_row (release_body current row) = row"
  by (simp add: release_body_def)

lemma writeReleases_effect:
  assumes "writeReleases H landed input releases approvals version now targets db = Inr (db', written)"
  shows "rd_releases db' = rd_releases db @ map hr_row written \<and> same_registry db db' \<and>
    map hr_environment written = map bt_environment targets \<and>
    (\<forall>h \<in> set written. rl_formId (hr_row h) = ci_formId input \<and> hr_version h = version \<and>
       rl_releasedBy (hr_row h) = ci_principalId input \<and>
       rl_approvedBy (hr_row h) = opt_default None (map_of approvals (hr_environment h))) \<and>
    (\<forall>e. events_in db' e = events_in db e @ map (release_event H \<circ> hr_row) (filter (\<lambda>h. hr_environment h = e) written))"
  using assms
proof (induction targets arbitrary: db written)
  case (Cons target targets)
  then obtain db1 row rest where one: "recordRelease H landed db (target_release db input approvals version target) now = Inr (db1, row)"
    and more: "writeReleases H landed input releases approvals version now targets db1 = Inr (db', rest)"
    and written: "written = release_body (newestIn releases (bt_environment target)) row # rest"
    by (auto simp: throw_simps)
  note effect = recordRelease_effect [OF one]
  from Cons.IH [OF more] effect(2-5) show ?case
    by (auto simp: written effect(1) same_registry_trans)
qed simp

text \<open>Each destination serves the version afterwards, and stays closed if it was.\<close>

definition closed_in :: "release_row list \<Rightarrow> string \<Rightarrow> string \<Rightarrow> bool" where
  "closed_in rows fid env = (case getReleasedVersion rows fid env of None \<Rightarrow> False | Some r \<Rightarrow> rl_closed r)"

lemma target_release_closed:
  "ri_closed (target_release db input approvals version target) = closed_in (rd_releases db) (ci_formId input) (bt_environment target)"
  by (simp add: target_release_def closed_in_def getFormEnvironmentState_def split: option.splits)

lemma writeReleases_serves:
  assumes "writeReleases H landed input releases approvals version now targets db = Inr (db', written)"
    "distinct (map bt_environment targets)"
  shows "(\<forall>h \<in> set written. getReleasedVersion (rd_releases db') (ci_formId input) (hr_environment h) = Some (hr_row h) \<and>
      rl_closed (hr_row h) = closed_in (rd_releases db) (ci_formId input) (hr_environment h)) \<and>
    (\<forall>fid env. fid \<noteq> ci_formId input \<or> env \<notin> bt_environment ` set targets \<longrightarrow>
      getReleasedVersion (rd_releases db') fid env = getReleasedVersion (rd_releases db) fid env)"
  using assms
proof (induction targets arbitrary: db written)
  case (Cons target targets)
  then obtain db1 row rest where one: "recordRelease H landed db (target_release db input approvals version target) now = Inr (db1, row)"
    and more: "writeReleases H landed input releases approvals version now targets db1 = Inr (db', rest)"
    and written: "written = release_body (newestIn releases (bt_environment target)) row # rest"
    by (auto simp: throw_simps)
  have row: "rl_environment row = bt_environment target" "rl_closed row = closed_in (rd_releases db) (ci_formId input) (bt_environment target)"
    by (simp_all add: recordRelease_effect(1) [OF one] target_release_closed)
  note ins = insertFormRelease_effect(5,6) [OF recordRelease_effect(3) [OF one]]
  have here: "getReleasedVersion (rd_releases db1) (ci_formId input) (bt_environment target) = Some row" using ins(1) by simp
  have away: "getReleasedVersion (rd_releases db1) fid env = getReleasedVersion (rd_releases db) fid env"
    if "(fid, env) \<noteq> (ci_formId input, bt_environment target)" for fid env using ins(2) that by simp
  have new: "bt_environment target \<notin> bt_environment ` set targets" using Cons.prems(2) by simp
  from Cons.IH [OF more] Cons.prems(2)
  have ih: "\<forall>h \<in> set rest. getReleasedVersion (rd_releases db') (ci_formId input) (hr_environment h) = Some (hr_row h) \<and>
      rl_closed (hr_row h) = closed_in (rd_releases db1) (ci_formId input) (hr_environment h)"
    "\<forall>fid env. fid \<noteq> ci_formId input \<or> env \<notin> bt_environment ` set targets \<longrightarrow>
      getReleasedVersion (rd_releases db') fid env = getReleasedVersion (rd_releases db1) fid env" by simp_all
  have envs: "hr_environment h \<in> bt_environment ` set targets" if "h \<in> set rest" for h
    using writeReleases_effect [OF more] that by (metis image_eqI image_set)
  show ?case
  proof (intro conjI ballI allI impI)
    fix h assume "h \<in> set written"
    then show "getReleasedVersion (rd_releases db') (ci_formId input) (hr_environment h) = Some (hr_row h)"
      using ih here new by (auto simp: written row)
  next
    fix h assume h: "h \<in> set written"
    show "rl_closed (hr_row h) = closed_in (rd_releases db) (ci_formId input) (hr_environment h)"
    proof (cases "h \<in> set rest")
      case True
      with envs new have "hr_environment h \<noteq> bt_environment target" by metis
      with away ih(1) True show ?thesis by (simp add: closed_in_def)
    next
      case False
      with h show ?thesis by (simp add: written row)
    qed
  next
    fix fid env assume "fid \<noteq> ci_formId input \<or> env \<notin> bt_environment ` set (target # targets)"
    with ih(2) away show "getReleasedVersion (rd_releases db') fid env = getReleasedVersion (rd_releases db) fid env" by auto
  qed
qed simp

end
