(* ===== verification/FormPublish.thy ===== *)
theory FormPublish
  imports ReleaseReview Forms
begin

text \<open>
  Authoring and publishing forms: \<^verbatim>\<open>apps/api/src/features/forms/handler.ts\<close>, with the pin rule
  of \<^verbatim>\<open>workspaces/rules.ts\<close>. A handler reads the registry, and then runs one transaction on
  the registry as it is by then: \<^verbatim>\<open>between\<close> is what other requests did to it meanwhile. The
  structural half of parsing a stored draft, its JSON and the regular expressions of patterns
  are arguments, as they are of the kernel. Prose is left out.
\<close>

section \<open>What is refused\<close>

datatype publish_issue =
    KernelIssue publish_error
  | DeprecatedPin step_id question_id int
  | ForeignWorkspacePin step_id question_id int

datatype form_refusal =
    ReleaseRefusal release_refusal
  | WorkspaceRefusal gate_error
  | InvalidDefaultLocale
  | InvalidDefinition "coded_error list"
  | FormIdMismatch
  | FormIdTaken
  | FormSlugTaken string
  | NoDraft
  | DraftMoved
  | PublishRejected "publish_issue list"
  | NotReleasedHere string
  | AlreadyInState string bool
  | FormFault

definition as_form :: "release_refusal + 'a \<Rightarrow> form_refusal + 'a" where
  "as_form m = (case m of Inl e \<Rightarrow> Inl (ReleaseRefusal e) | Inr x \<Rightarrow> Inr x)"

text \<open>A constraint no handler expects: the request fails.\<close>

definition uncaught :: "db_fault + 'a \<Rightarrow> form_refusal + 'a" where
  "uncaught m = (case m of Inl _ \<Rightarrow> Inl FormFault | Inr x \<Rightarrow> Inr x)"

record authoring_host =
  ah_release :: release_host
  ah_decode :: "jsval \<Rightarrow> issue list + form_definition"
  ah_encode :: "form_definition \<Rightarrow> jsval"
  ah_compiles_u :: "string \<Rightarrow> bool"
  ah_compiles_v :: "string \<Rightarrow> bool"
  ah_version_order :: "question_version_row list \<Rightarrow> question_version_row list"

definition requireDefinition :: "authoring_host \<Rightarrow> jsval \<Rightarrow> form_refusal + form_definition" where
  "requireDefinition A v = (case parseFormDefinition (ah_decode A) v of
     Inl issues \<Rightarrow> Inl (InvalidDefinition issues) | Inr d \<Rightarrow> Inr d)"

section \<open>What a draft pins\<close>

text \<open>The keys of the maps are the pairs and triples their strings are joined from.\<close>

type_synonym pin_key = "question_id \<times> int"
type_synonym placement = "step_id \<times> question_id \<times> int"

definition placements :: "form_definition \<Rightarrow> placement list" where
  "placements d = concat (map (\<lambda>s. map (\<lambda>r. (stepId s, ref_questionId r, ref_version r)) (stepQuestionRefs s)) (f_steps d))"

definition pinnedQuestionIds :: "form_definition \<Rightarrow> question_id list" where
  "pinnedQuestionIds d = dedup (map (\<lambda>(s, q, v). q) (placements d))"

record PendingQuestionVersion =
  pv_questionId :: question_id
  pv_version :: int
  pv_definition :: question_definition

record question_lookups =
  lk_records :: "pin_key \<Rightarrow> question_version_record option"
  lk_status :: "pin_key \<Rightarrow> question_status option"
  lk_published :: "question_id \<Rightarrow> int set option"

definition note_version :: "question_lookups \<Rightarrow> question_version_row \<Rightarrow> question_lookups" where
  "note_version L r = L\<lparr>lk_records := (lk_records L)((qv_questionId r, qv_version r) \<mapsto>
       \<lparr>rec_questionId = qv_questionId r, rec_version = qv_version r, rec_definition = qv_definition r\<rparr>),
     lk_status := (lk_status L)((qv_questionId r, qv_version r) \<mapsto> qv_status r)\<rparr>"

definition note_question ::
  "(question_version_row list \<Rightarrow> question_version_row list) \<Rightarrow> question_version_row list \<Rightarrow> question_lookups \<Rightarrow> question_id \<Rightarrow>
     question_lookups" where
  "note_question order rows L q =
    (let vs = listQuestionVersions order rows q
     in (foldl note_version L vs)\<lparr>lk_published := (lk_published L)(q \<mapsto> set (map qv_version (filter (\<lambda>r. qv_status r = QuestionPublished) vs)))\<rparr>)"

definition note_pending :: "question_lookups \<Rightarrow> PendingQuestionVersion \<Rightarrow> question_lookups" where
  "note_pending L p = L\<lparr>lk_records := (lk_records L)((pv_questionId p, pv_version p) \<mapsto>
       \<lparr>rec_questionId = pv_questionId p, rec_version = pv_version p, rec_definition = pv_definition p\<rparr>),
     lk_status := (lk_status L)((pv_questionId p, pv_version p) \<mapsto> QuestionDraft)\<rparr>"

definition loadQuestionLookups ::
  "(question_version_row list \<Rightarrow> question_version_row list) \<Rightarrow> question_version_row list \<Rightarrow> form_definition \<Rightarrow>
     PendingQuestionVersion list \<Rightarrow> question_lookups" where
  "loadQuestionLookups order rows d pending =
     foldl note_pending (foldl (note_question order rows)
       \<lparr>lk_records = Map.empty, lk_status = Map.empty, lk_published = Map.empty\<rparr> (pinnedQuestionIds d)) pending"

section \<open>The gates on pins\<close>

definition carriedPlacements :: "form_definition option \<Rightarrow> placement set" where
  "carriedPlacements previous = (case previous of None \<Rightarrow> {} | Some d \<Rightarrow> set (placements d))"

definition gate_deprecated ::
  "placement set \<Rightarrow> (pin_key \<Rightarrow> question_status option) \<Rightarrow> publish_issue list \<times> (question_id \<Rightarrow> int set option) \<Rightarrow> placement \<Rightarrow>
     publish_issue list \<times> (question_id \<Rightarrow> int set option)" where
  "gate_deprecated carried status st p = (case (st, p) of ((issues, published), (s, q, v)) \<Rightarrow>
     if status (q, v) \<noteq> Some QuestionDeprecated then (issues, published)
     else (issues @ (if (s, q, v) \<in> carried then [] else [DeprecatedPin s q v]),
           published(q := map_option (insert v) (published q))))"

definition deprecatedPinGate ::
  "form_definition \<Rightarrow> form_definition option \<Rightarrow> (pin_key \<Rightarrow> question_status option) \<Rightarrow> (question_id \<Rightarrow> int set option) \<Rightarrow>
     publish_issue list \<times> (question_id \<Rightarrow> int set option)" where
  "deprecatedPinGate d previous status published =
     foldl (gate_deprecated (carriedPlacements previous) status) ([], published) (placements d)"

definition mayPinQuestion :: "string \<Rightarrow> QuestionOwnership \<Rightarrow> bool" where
  "mayPinQuestion formWorkspaceId question \<longleftrightarrow> qo_workspaceId question = formWorkspaceId \<or> qo_workspaceIsShared question"

definition workspacePinGate ::
  "form_definition \<Rightarrow> string \<Rightarrow> (question_id \<Rightarrow> QuestionOwnership option) \<Rightarrow> placement set \<Rightarrow> publish_issue list" where
  "workspacePinGate d formWorkspaceId ownership carried = concat (map (\<lambda>(s, q, v). case ownership q of
       None \<Rightarrow> []
     | Some question \<Rightarrow> if mayPinQuestion formWorkspaceId question \<or> (s, q, v) \<in> carried then []
         else [ForeignWorkspacePin s q v]) (placements d))"

record draft_verdict =
  dv_issues :: "publish_issue list"
  dv_warnings :: "publish_warning list"
  dv_snapshot :: "frozen_snapshot option"

definition validateDraft :: "authoring_host \<Rightarrow> registry \<Rightarrow> form_definition \<Rightarrow> PendingQuestionVersion list \<Rightarrow> draft_verdict" where
  "validateDraft A db d pending =
    (let L = loadQuestionLookups (ah_version_order A) (rd_questionVersions db) d pending;
         previous = map_option fv_definition (latest_published (rd_versions db) (formId d));
         (deprecated, published) = deprecatedPinGate d previous (lk_status L) (lk_published L);
         ownership = listQuestionOwnership (rd_questions db) (rd_workspaces db) (pinnedQuestionIds d);
         foreign = (case form_by_id (rd_forms db) (formId d) of
            None \<Rightarrow> []
          | Some form \<Rightarrow> workspacePinGate d (fo_workspaceId form)
              (map_of (rev (map (\<lambda>r. (qo_questionId r, r)) ownership))) (carriedPlacements previous));
         result = compileDraft (ah_compiles_u A) (ah_compiles_v A)
           \<lparr>d_definition = d, d_resolveQuestion = (\<lambda>q v. lk_records L (q, v)), publishedQuestionVersions = published\<rparr>
     in \<lparr>dv_issues = deprecated @ foreign @ (case result of Inl errors \<Rightarrow> map KernelIssue errors | Inr _ \<Rightarrow> []),
         dv_warnings = (case result of Inl _ \<Rightarrow> [] | Inr out \<Rightarrow> out_warnings out),
         dv_snapshot = (case result of Inl _ \<Rightarrow> None | Inr out \<Rightarrow> Some (out_snapshot out))\<rparr>)"

section \<open>Drafts\<close>

definition set_drafts :: "draft_row list \<Rightarrow> registry \<Rightarrow> registry" where
  "set_drafts drafts db = db\<lparr>rd_drafts := drafts\<rparr>"

definition storeDraftDefinition ::
  "authoring_host \<Rightarrow> registry \<Rightarrow> form_id \<Rightarrow> form_definition \<Rightarrow> bool \<Rightarrow> int \<Rightarrow> form_refusal + registry" where
  "storeDraftDefinition A db fid d agentAssisted now =
    (if formId d \<noteq> fid then Inl FormIdMismatch
     else case form_by_id (rd_forms db) fid of
       None \<Rightarrow> Inl (ReleaseRefusal FormNotFound)
     | Some _ \<Rightarrow> Inr (set_drafts (upsertDraft (rd_drafts db) fid (ah_encode A d) agentAssisted now) db))"

definition empty_form :: "form_id \<Rightarrow> locale_code \<Rightarrow> form_definition" where
  "empty_form fid loc = \<lparr>formId = fid, defaultLocale = loc, f_title = [], f_steps = [], f_rules = []\<rparr>"

record create_form =
  cf_formId :: string
  cf_slug :: string
  cf_defaultLocale :: string
  cf_workspaceId :: "string option"

definition workspace_known :: "registry \<Rightarrow> string \<Rightarrow> bool" where
  "workspace_known db w \<longleftrightarrow> workspace_by_id (rd_workspaces db) w \<noteq> None"

definition createFormHandler ::
  "authoring_host \<Rightarrow> control_db \<Rightarrow> form_identity list \<Rightarrow> registry \<Rightarrow> create_form \<Rightarrow> AgentStepSite option \<Rightarrow> int \<Rightarrow>
     form_refusal + registry" where
  "createFormHandler A G landed db q site now =
     bind_ok (throw_if (\<not> FormId (cf_formId q)) (ReleaseRefusal InvalidFormId)) (\<lambda>_.
     bind_ok (throw_if (\<not> LocaleCode (cf_defaultLocale q)) InvalidDefaultLocale) (\<lambda>_.
     case resolveWorkspaceForNewObject G (cf_workspaceId q) of
       Inl e \<Rightarrow> Inl (WorkspaceRefusal e)
     | Inr workspaceId \<Rightarrow>
         (case createForm (workspace_known db) landed (rd_forms db) (cf_formId q) (cf_slug q) workspaceId (cf_defaultLocale q) of
            Inl FormIdViolation \<Rightarrow> Inl FormIdTaken
          | Inl SlugViolation \<Rightarrow> Inl (FormSlugTaken (cf_slug q))
          | Inl OtherFormViolation \<Rightarrow> Inl FormFault
          | Inr forms \<Rightarrow> Inr (writeAgentStep (set_drafts (upsertDraft (rd_drafts db) (cf_formId q)
                (ah_encode A (empty_form (cf_formId q) (cf_defaultLocale q))) False now) (db\<lparr>rd_forms := forms\<rparr>))
              site (Some (cf_formId q)) now))))"

definition putDraft ::
  "authoring_host \<Rightarrow> registry \<Rightarrow> form_id \<Rightarrow> jsval \<Rightarrow> bool \<Rightarrow> AgentStepSite option \<Rightarrow> int \<Rightarrow>
     form_refusal + draft_verdict \<times> registry" where
  "putDraft A db fid value agentAssisted site now =
     bind_ok (throw_if (\<not> FormId fid) (ReleaseRefusal InvalidFormId)) (\<lambda>_.
     bind_ok (requireDefinition A value) (\<lambda>d.
     bind_ok (storeDraftDefinition A db fid d agentAssisted now) (\<lambda>db'.
       let db'' = writeAgentStep db' site (Some fid) now in Inr (validateDraft A db'' d [], db''))))"

definition validateDraftHandler :: "authoring_host \<Rightarrow> registry \<Rightarrow> form_id \<Rightarrow> jsval \<Rightarrow> form_refusal + bool \<times> draft_verdict" where
  "validateDraftHandler A db fid value =
     bind_ok (throw_if (\<not> FormId fid) (ReleaseRefusal InvalidFormId)) (\<lambda>_.
     bind_ok (requireDefinition A value) (\<lambda>d.
     bind_ok (throw_if (formId d \<noteq> fid) FormIdMismatch) (\<lambda>_. case form_by_id (rd_forms db) fid of
       None \<Rightarrow> Inl (ReleaseRefusal FormNotFound)
     | Some _ \<Rightarrow> let verdict = validateDraft A db d [] in Inr (dv_issues verdict = [], verdict))))"

definition updateSettings ::
  "registry \<Rightarrow> form_id \<Rightarrow> form_settings \<Rightarrow> AgentStepSite option \<Rightarrow> int \<Rightarrow> form_refusal + form_identity \<times> registry" where
  "updateSettings db fid settings site now =
     bind_ok (throw_if (\<not> FormId fid) (ReleaseRefusal InvalidFormId)) (\<lambda>_.
     case updateFormSettings (rd_forms db) fid settings of
       (_, None) \<Rightarrow> Inl (ReleaseRefusal FormNotFound)
     | (forms, Some row) \<Rightarrow> Inr (row, writeAgentStep (db\<lparr>rd_forms := forms\<rparr>) site (Some (bool_text (fo_challengeRequired row))) now))"

section \<open>Publishing\<close>

record frozen_draft =
  fz_snapshot :: frozen_snapshot
  fz_compiled :: compiled_form
  fz_draftRevision :: int

definition freezeDraft :: "authoring_host \<Rightarrow> registry \<Rightarrow> form_id \<Rightarrow> form_refusal + frozen_draft" where
  "freezeDraft A db fid = (case form_by_id (rd_forms db) fid of
     None \<Rightarrow> Inl (ReleaseRefusal FormNotFound)
   | Some _ \<Rightarrow> (case draft_of (rd_drafts db) fid of
       None \<Rightarrow> Inl NoDraft
     | Some draft \<Rightarrow>
         bind_ok (requireDefinition A (fd_definition draft)) (\<lambda>d.
         bind_ok (throw_if (formId d \<noteq> fid) FormIdMismatch) (\<lambda>_.
           let verdict = validateDraft A db d []
           in if dv_issues verdict \<noteq> [] then Inl (PublishRejected (dv_issues verdict))
              else case dv_snapshot verdict of
                None \<Rightarrow> Inl (PublishRejected (dv_issues verdict))
              | Some snapshot \<Rightarrow> (case compileForm snapshot None of
                  None \<Rightarrow> Inl FormFault
                | Some compiled \<Rightarrow> Inr \<lparr>fz_snapshot = snapshot, fz_compiled = compiled, fz_draftRevision = fd_revision draft\<rparr>)))))"

definition version_input :: "release_host \<Rightarrow> form_id \<Rightarrow> frozen_draft \<Rightarrow> int \<Rightarrow> string \<Rightarrow> version_row" where
  "version_input H fid frozen publishedAt publishedBy =
     \<lparr>fv_formId = fid, fv_version = 0, fv_definition = snap_definition (fz_snapshot frozen), fv_compiled = fz_compiled frozen,
      fv_semanticsVersion = rh_int_text H (semanticsVersion (fz_snapshot frozen)), fv_publishedAt = publishedAt,
      fv_publishedBy = Some publishedBy\<rparr>"

definition writeVersion ::
  "release_host \<Rightarrow> (form_id \<times> int) list \<Rightarrow> form_id \<Rightarrow> frozen_draft \<Rightarrow> int \<Rightarrow> string \<Rightarrow> registry \<Rightarrow> db_fault + registry \<times> version_row" where
  "writeVersion H landed fid frozen publishedAt publishedBy db =
     bind_ok (insertFormVersion (rd_forms db) landed (rd_versions db) (version_input H fid frozen publishedAt publishedBy))
       (\<lambda>(versions, row). Inr (set_drafts (deleteDraft (rd_drafts db) fid) (db\<lparr>rd_versions := versions\<rparr>), row))"

definition publishForm ::
  "authoring_host \<Rightarrow> (registry \<Rightarrow> registry) \<Rightarrow> (form_id \<times> int) list \<Rightarrow> registry \<Rightarrow> form_id \<Rightarrow> string \<Rightarrow> int \<Rightarrow>
     form_refusal + registry \<times> version_row" where
  "publishForm A between landed db fid account now =
     bind_ok (throw_if (\<not> FormId fid) (ReleaseRefusal InvalidFormId)) (\<lambda>_.
     bind_ok (freezeDraft A db fid) (\<lambda>frozen.
     uncaught (writeVersion (ah_release A) landed fid frozen now account (between db))))"

text \<open>Publishing and releasing into one environment, in one transaction.\<close>

definition publish_release_tx ::
  "release_host \<Rightarrow> (form_id \<times> int) list \<Rightarrow> release_row list \<Rightarrow> form_id \<Rightarrow> string \<Rightarrow> string \<Rightarrow> string option \<Rightarrow> frozen_draft \<Rightarrow> int \<Rightarrow>
     registry \<Rightarrow> db_fault + registry \<times> version_row \<times> release_row" where
  "publish_release_tx H landed racing fid environment account approvedBy frozen now db =
     bind_ok (writeVersion H landed fid frozen now account db) (\<lambda>(db1, version).
     bind_ok (recordRelease H racing db1
         \<lparr>ri_formId = fid, ri_environment = environment, ri_version = fv_version version, ri_releasedBy = account,
          ri_fromEnvironment = None, ri_approvedBy = approvedBy,
          ri_closed = (case getFormEnvironmentState (rd_releases db1) fid environment of None \<Rightarrow> False | Some st \<Rightarrow> fe_closed st)\<rparr> now)
       (\<lambda>(db2, release). Inr (db2, version, release)))"

definition publishAndRelease ::
  "authoring_host \<Rightarrow> (registry \<Rightarrow> registry) \<Rightarrow> (form_id \<times> int) list \<Rightarrow> release_row list \<Rightarrow> registry \<Rightarrow> release_caller \<Rightarrow> form_id \<Rightarrow>
     string \<Rightarrow> int \<Rightarrow> form_refusal + registry \<times> version_row \<times> release_row" where
  "publishAndRelease A between landed racing db caller fid environment now =
    (let H = ah_release A in
     bind_ok (throw_if (\<not> FormId fid) (ReleaseRefusal InvalidFormId)) (\<lambda>_.
     bind_ok (as_form (requireEnvironment H environment)) (\<lambda>_. case form_by_id (rd_forms db) fid of
       None \<Rightarrow> Inl (ReleaseRefusal FormNotFound)
     | Some form \<Rightarrow>
         bind_ok (as_form (approvalForRelease (rd_workspaces db) (Some (opt_default (fo_workspaceId form) (rc_workspaceId caller)))
           environment (next_version (rd_versions db) fid) (Some (rc_userId caller)) (rc_userId caller))) (\<lambda>approvedBy.
         bind_ok (as_form (requireDraftEligible (readWorkflow (rh_rule_order H) (rd_workflow db) (rh_served H)) environment)) (\<lambda>_.
         bind_ok (freezeDraft A db fid) (\<lambda>frozen.
         uncaught (publish_release_tx H landed racing fid environment (rc_userId caller) approvedBy frozen now (between db))))))))"

text \<open>Freezing the draft inside the transaction of a confirmation.\<close>

definition draft_freezer ::
  "release_host \<Rightarrow> (form_id \<times> int) list \<Rightarrow> form_id \<Rightarrow> frozen_draft \<Rightarrow> int \<Rightarrow> string \<Rightarrow> freezer" where
  "draft_freezer H landed fid frozen now account db =
     bind_ok (raced (writeVersion H landed fid frozen now account db)) (\<lambda>(db', row). Inr (db', fv_version row))"

record publish_batch =
  pb_form :: form_id
  pb_draftRevision :: int
  pb_targets :: "BatchTarget list"
  pb_idempotencyKey :: string
  pb_expectedWorkflowRevision :: "int option"
  pb_intentHash :: string

definition require_served :: "release_host \<Rightarrow> BatchTarget \<Rightarrow> release_refusal + unit" where
  "require_served H target = bind_ok (requireEnvironment H (bt_environment target)) (\<lambda>_.
     case bt_fromEnvironment target of None \<Rightarrow> Inr () | Some e \<Rightarrow> requireEnvironment H e)"

definition publish_input :: "release_caller \<Rightarrow> publish_batch \<Rightarrow> form_identity \<Rightarrow> AgentStepSite option \<Rightarrow> CommitInput" where
  "publish_input caller q form site = \<lparr>ci_formId = pb_form q,
     ci_workspaceId = opt_default (fo_workspaceId form) (rc_workspaceId caller), ci_principalId = rc_userId caller,
     ci_idempotencyKey = pb_idempotencyKey q, ci_intentHash = pb_intentHash q,
     ci_expectedWorkflowRevision = pb_expectedWorkflowRevision q, ci_source = DraftSource (pb_draftRevision q),
     ci_targets = pb_targets q, ci_agent = site\<rparr>"

definition publishBatch ::
  "authoring_host \<Rightarrow> (registry \<Rightarrow> registry) \<Rightarrow> (form_id \<times> int) list \<Rightarrow> release_row list \<Rightarrow> registry \<Rightarrow> release_caller \<Rightarrow>
     publish_batch \<Rightarrow> AgentStepSite option \<Rightarrow> int \<Rightarrow> form_refusal + BatchResult \<times> registry" where
  "publishBatch A between landed racing db caller q site now =
    (let H = ah_release A in
     bind_ok (throw_if (\<not> FormId (pb_form q)) (ReleaseRefusal InvalidFormId)) (\<lambda>_.
     bind_ok (as_form (each_ok (require_served H) (pb_targets q))) (\<lambda>_. case form_by_id (rd_forms db) (pb_form q) of
       None \<Rightarrow> Inl (ReleaseRefusal FormNotFound)
     | Some form \<Rightarrow>
         bind_ok (as_form (storedResult db (rc_userId caller) (pb_form q) (pb_idempotencyKey q) (pb_intentHash q))) (\<lambda>stored.
         case stored of
           Some result \<Rightarrow> Inr (result, db)
         | None \<Rightarrow>
             bind_ok (freezeDraft A db (pb_form q)) (\<lambda>frozen.
             bind_ok (throw_if (fz_draftRevision frozen \<noteq> pb_draftRevision q) DraftMoved) (\<lambda>_.
             as_form (commitReleaseBatch H (draft_freezer H landed (pb_form q) frozen now (rc_userId caller)) racing (between db)
               (publish_input caller q form site) now)))))))"

section \<open>Intake\<close>

definition setIntake ::
  "release_host \<Rightarrow> release_row list \<Rightarrow> registry \<Rightarrow> string \<Rightarrow> form_id \<Rightarrow> string \<Rightarrow> bool \<Rightarrow> AgentStepSite option \<Rightarrow> int \<Rightarrow>
     form_refusal + release_row \<times> registry" where
  "setIntake H landed db account fid environment isClosed site now =
     bind_ok (throw_if (\<not> FormId fid) (ReleaseRefusal InvalidFormId)) (\<lambda>_.
     bind_ok (as_form (requireEnvironment H environment)) (\<lambda>_. case form_by_id (rd_forms db) fid of
       None \<Rightarrow> Inl (ReleaseRefusal FormNotFound)
     | Some _ \<Rightarrow> (case getFormEnvironmentState (rd_releases db) fid environment of
         None \<Rightarrow> Inl (NotReleasedHere environment)
       | Some current \<Rightarrow>
           bind_ok (throw_if (fe_closed current = isClosed) (AlreadyInState environment isClosed)) (\<lambda>_.
           bind_ok (uncaught (if isClosed
               then closeFormInEnvironment (release_keys_of H db) landed (rd_releases db) fid environment account now
               else reopenFormInEnvironment (release_keys_of H db) landed (rd_releases db) fid environment account now))
             (\<lambda>(rows, written). case written of
                None \<Rightarrow> Inl (NotReleasedHere environment)
              | Some row \<Rightarrow> Inr (row, writeAgentStep (db\<lparr>rd_releases := rows\<rparr>) site (Some environment) now))))))"

end
