(* ===== verification/QuestionHandlers.thy ===== *)
theory QuestionHandlers
  imports FormPublish
begin

text \<open>
  The question library: \<^verbatim>\<open>apps/api/src/features/questions/handler.ts\<close> and \<^verbatim>\<open>create.ts\<close>. A
  version is a draft until it is published, and published until it is deprecated; only a
  draft can be edited. What parses a definition, which expressions a browser compiles and
  the lower case of a string are arguments.
\<close>

section \<open>What is refused\<close>

datatype definition_refusal =
    ParseRefusal coded_error
  | PatternNotBrowserSafe "string option"

datatype question_refusal =
    InvalidQuestionId
  | InvalidQuestionDefinition "definition_refusal list"
  | QuestionIdMismatch
  | QuestionNotFound
  | QuestionVersionNotFound
  | VersionImmutable
  | InvalidVersionState question_status string
  | QuestionIdReused
  | QuestionSlugTaken
  | QuestionWorkspace gate_error
  | QuestionFault

record library_host =
  lh_release :: release_host
  lh_decode :: "jsval \<Rightarrow> issue list + question_definition"
  lh_compiles_u :: "string \<Rightarrow> bool"
  lh_compiles_v :: "string \<Rightarrow> bool"
  lh_number :: "string \<Rightarrow> jsnum"
  lh_lower :: "string \<Rightarrow> string"
  lh_version_order :: "question_version_row list \<Rightarrow> question_version_row list"
  lh_question_order :: "question_row list \<Rightarrow> question_row list"

definition question_fault :: "db_fault + 'a \<Rightarrow> question_refusal + 'a" where
  "question_fault m = (case m of Inl _ \<Rightarrow> Inl QuestionFault | Inr x \<Rightarrow> Inr x)"

section \<open>Definitions at the boundary\<close>

definition browserSafePatternIssues :: "library_host \<Rightarrow> question_definition \<Rightarrow> definition_refusal list" where
  "browserSafePatternIssues L d = (case body d of
     ShortText _ _ (Some pattern) \<Rightarrow>
       if compilesUnderV (lh_compiles_v L) pattern then []
       else [PatternNotBrowserSafe (toVSafePattern (lh_compiles_v L) pattern)]
   | _ \<Rightarrow> [])"

definition checkQuestionDefinition :: "library_host \<Rightarrow> jsval \<Rightarrow> definition_refusal list + question_definition" where
  "checkQuestionDefinition L v = (case parseQuestionDefinition (lh_compiles_u L) (lh_decode L) v of
     Inl issues \<Rightarrow> Inl (map ParseRefusal issues)
   | Inr d \<Rightarrow> if browserSafePatternIssues L d \<noteq> [] then Inl (browserSafePatternIssues L d) else Inr d)"

definition requireQuestionDefinition :: "library_host \<Rightarrow> jsval \<Rightarrow> question_refusal + question_definition" where
  "requireQuestionDefinition L v = (case checkQuestionDefinition L v of
     Inl issues \<Rightarrow> Inl (InvalidQuestionDefinition issues) | Inr d \<Rightarrow> Inr d)"

definition MAX_VERSION :: int where "MAX_VERSION = 2147483647"

definition requireVersion :: "library_host \<Rightarrow> string \<Rightarrow> question_refusal + int" where
  "requireVersion L v = (case lh_number L v of
     Fin x \<Rightarrow> if x = of_int (floor x) \<and> 1 \<le> x \<and> floor x \<le> MAX_VERSION then Inr (floor x) else Inl QuestionVersionNotFound
   | _ \<Rightarrow> Inl QuestionVersionNotFound)"

definition requireQuestionId :: "string \<Rightarrow> question_refusal + question_id" where
  "requireQuestionId s = (if QuestionId s then Inr s else Inl InvalidQuestionId)"

section \<open>Creating\<close>

text \<open>The ledger of each environment, asked on its own.\<close>

definition isQuestionIdInAnswerLedger :: "answer_row list \<Rightarrow> question_id \<Rightarrow> bool" where
  "isQuestionIdInAnswerLedger answers q \<longleftrightarrow> list_ex (\<lambda>r. ar_questionId r = q) answers"

definition requireUnusedQuestionId :: "string list \<Rightarrow> (string \<Rightarrow> answer_row list) \<Rightarrow> question_id \<Rightarrow> question_refusal + unit" where
  "requireUnusedQuestionId served ledgers q =
     each_ok (\<lambda>environment. throw_if (isQuestionIdInAnswerLedger (ledgers environment) q) QuestionIdReused) served"

definition createQuestionWithFirstDraft ::
  "question_row list \<Rightarrow> (question_id \<times> int) list \<Rightarrow> registry \<Rightarrow> question_definition \<Rightarrow> string \<Rightarrow> string \<Rightarrow> int \<Rightarrow>
     question_refusal + registry \<times> question_version_row" where
  "createQuestionWithFirstDraft landed racing db d slug workspaceId now =
    (if isQuestionIdTaken (rd_questions db) (questionId d) then Inl QuestionIdReused
     else case createQuestion (workspace_known db) landed (rd_questions db)
         \<lparr>qn_questionId = questionId d, qn_slug = slug, qn_workspaceId = workspaceId, qn_createdAt = now\<rparr> of
       Inl UniqueViolation \<Rightarrow> Inl QuestionSlugTaken
     | Inl OtherViolation \<Rightarrow> Inl QuestionFault
     | Inr questions \<Rightarrow>
         bind_ok (question_fault (createQuestionVersion questions racing (rd_questionVersions db) (questionId d) d)) (\<lambda>(rows, row).
         Inr (db\<lparr>rd_questions := questions, rd_questionVersions := rows\<rparr>, row)))"

definition createQuestionHandler ::
  "library_host \<Rightarrow> control_db \<Rightarrow> (string \<Rightarrow> answer_row list) \<Rightarrow> question_row list \<Rightarrow> (question_id \<times> int) list \<Rightarrow> registry \<Rightarrow>
     jsval \<Rightarrow> string \<Rightarrow> string option \<Rightarrow> AgentStepSite option \<Rightarrow> int \<Rightarrow> question_refusal + registry \<times> question_version_row" where
  "createQuestionHandler L G ledgers landed racing db value slug workspaceId site now =
     bind_ok (requireQuestionDefinition L value) (\<lambda>d.
     bind_ok (requireUnusedQuestionId (rh_served (lh_release L)) ledgers (questionId d)) (\<lambda>_.
     case resolveWorkspaceForNewObject G workspaceId of
       Inl e \<Rightarrow> Inl (QuestionWorkspace e)
     | Inr w \<Rightarrow> bind_ok (createQuestionWithFirstDraft landed racing db d slug w now) (\<lambda>(db', row).
         Inr (writeAgentStep db' site (Some (questionId d)) now, row))))"

section \<open>The life of a version\<close>

definition set_question_versions :: "question_version_row list \<Rightarrow> registry \<Rightarrow> registry" where
  "set_question_versions rows db = db\<lparr>rd_questionVersions := rows\<rparr>"

text \<open>The next draft starts from the latest version; no version means no such question.\<close>

definition createVersion ::
  "library_host \<Rightarrow> (question_id \<times> int) list \<Rightarrow> registry \<Rightarrow> string \<Rightarrow> AgentStepSite option \<Rightarrow> int \<Rightarrow>
     question_refusal + registry \<times> question_version_row" where
  "createVersion L racing db i site now =
     bind_ok (requireQuestionId i) (\<lambda>q.
     case listQuestionVersions (lh_version_order L) (rd_questionVersions db) q of
       [] \<Rightarrow> Inl QuestionNotFound
     | v # vs \<Rightarrow> bind_ok (question_fault (createQuestionVersion (rd_questions db) racing (rd_questionVersions db) q
           (qv_definition (last (v # vs))))) (\<lambda>(rows, row).
         Inr (writeAgentStep (set_question_versions rows db) site (Some (rh_int_text (lh_release L) (qv_version row))) now, row)))"

text \<open>A transaction on the version named, which must be there and in one state.\<close>

definition version_act ::
  "library_host \<Rightarrow> registry \<Rightarrow> question_id \<Rightarrow> int \<Rightarrow> (question_status \<Rightarrow> question_refusal option) \<Rightarrow>
     (question_version_row list \<Rightarrow> question_version_row list) \<Rightarrow> AgentStepSite option \<Rightarrow> int \<Rightarrow>
     question_refusal + registry \<times> question_version_row" where
  "version_act L db q v refusal change site now = (case getQuestionVersion (rd_questionVersions db) q v of
     None \<Rightarrow> Inl QuestionVersionNotFound
   | Some current \<Rightarrow> (case refusal (qv_status current) of
       Some e \<Rightarrow> Inl e
     | None \<Rightarrow> let rows = change (rd_questionVersions db)
         in case getQuestionVersion rows q v of
              None \<Rightarrow> Inl QuestionVersionNotFound
            | Some row \<Rightarrow> Inr (writeAgentStep (set_question_versions rows db) site (Some (rh_int_text (lh_release L) v)) now, row)))"

definition editVersion ::
  "library_host \<Rightarrow> registry \<Rightarrow> string \<Rightarrow> string \<Rightarrow> jsval \<Rightarrow> AgentStepSite option \<Rightarrow> int \<Rightarrow>
     question_refusal + registry \<times> question_version_row" where
  "editVersion L db i vtext value site now =
     bind_ok (requireQuestionId i) (\<lambda>q. bind_ok (requireVersion L vtext) (\<lambda>v.
     bind_ok (requireQuestionDefinition L value) (\<lambda>d.
     bind_ok (throw_if (questionId d \<noteq> q) QuestionIdMismatch) (\<lambda>_.
     version_act L db q v (\<lambda>st. if st \<noteq> QuestionDraft then Some VersionImmutable else None)
       (\<lambda>rows. updateDraftDefinition rows q v d) site now))))"

definition publishVersion ::
  "library_host \<Rightarrow> registry \<Rightarrow> string \<Rightarrow> string \<Rightarrow> AgentStepSite option \<Rightarrow> int \<Rightarrow> question_refusal + registry \<times> question_version_row" where
  "publishVersion L db i vtext site now =
     bind_ok (requireQuestionId i) (\<lambda>q. bind_ok (requireVersion L vtext) (\<lambda>v.
     version_act L db q v (\<lambda>st. if st \<noteq> QuestionDraft then Some (InvalidVersionState st ''publish'') else None)
       (\<lambda>rows. publishQuestionVersion rows q v now) site now))"

definition deprecateVersion ::
  "library_host \<Rightarrow> registry \<Rightarrow> string \<Rightarrow> string \<Rightarrow> AgentStepSite option \<Rightarrow> int \<Rightarrow> question_refusal + registry \<times> question_version_row" where
  "deprecateVersion L db i vtext site now =
     bind_ok (requireQuestionId i) (\<lambda>q. bind_ok (requireVersion L vtext) (\<lambda>v.
     version_act L db q v (\<lambda>st. if st \<noteq> QuestionPublished then Some (InvalidVersionState st ''deprecate'') else None)
       (\<lambda>rows. deprecateQuestionVersion rows q v) site now))"

section \<open>Reading\<close>

definition getSharedWorkspace :: "release_workspace list \<Rightarrow> release_workspace option" where
  "getSharedWorkspace workspaces = List.find rws_isShared workspaces"

text \<open>The shared library is added to what the caller holds, unless one workspace is named.\<close>

definition readableWorkspaces ::
  "registry \<Rightarrow> grant_context option \<Rightarrow> string option \<Rightarrow> bool \<Rightarrow> string list option" where
  "readableWorkspaces db grant workspaceId shared = (case workspaceFilterNarrowedTo grant workspaceId of
     None \<Rightarrow> None
   | Some held \<Rightarrow>
       if \<not> (workspaceId = None \<or> shared) \<or> held = [] then Some held
       else case getSharedWorkspace (rd_workspaces db) of
         None \<Rightarrow> Some held
       | Some library \<Rightarrow> if rws_id library \<in> set held then Some held else Some (held @ [rws_id library]))"

record question_query =
  qq_status :: "question_status option"
  qq_type :: "question_type option"
  qq_search :: "string option"

definition labelMatches :: "library_host \<Rightarrow> localized_text \<Rightarrow> string \<Rightarrow> bool" where
  "labelMatches L label needle \<longleftrightarrow> list_ex (\<lambda>(_, t). js_includes (lh_lower L t) needle) label"

definition listed_question :: "library_host \<Rightarrow> question_query \<Rightarrow> question_row \<times> question_version_row \<Rightarrow> bool" where
  "listed_question L q entry \<longleftrightarrow> (case entry of (row, latest) \<Rightarrow>
     (case qq_status q of None \<Rightarrow> True | Some st \<Rightarrow> qv_status latest = st) \<and>
     (case qq_type q of None \<Rightarrow> True | Some ty \<Rightarrow> q_type (qv_definition latest) = ty) \<and>
     (case map_option (\<lambda>s. lh_lower L (js_trim s)) (qq_search q) of
        None \<Rightarrow> True
      | Some needle \<Rightarrow> needle = [] \<or> js_includes (lh_lower L (qn_slug row)) needle \<or>
          labelMatches L (q_label (qv_definition latest)) needle))"

definition listQuestionsHandler ::
  "library_host \<Rightarrow> registry \<Rightarrow> grant_context option \<Rightarrow> string option \<Rightarrow> bool \<Rightarrow> question_query \<Rightarrow>
     (question_row \<times> question_version_row) list" where
  "listQuestionsHandler L db grant workspaceId shared q =
     filter (listed_question L q) (listQuestions (lh_question_order L) (rd_questions db) (rd_questionVersions db)
       (readableWorkspaces db grant workspaceId shared))"

definition getQuestionHandler ::
  "library_host \<Rightarrow> registry \<Rightarrow> string \<Rightarrow> question_refusal + question_row \<times> question_version_row list" where
  "getQuestionHandler L db i = bind_ok (requireQuestionId i) (\<lambda>q. case question_by_id (rd_questions db) q of
     None \<Rightarrow> Inl QuestionNotFound
   | Some row \<Rightarrow> Inr (row, listQuestionVersions (lh_version_order L) (rd_questionVersions db) q))"

section \<open>The preview\<close>

definition PREVIEW_STEP_ID :: string where "PREVIEW_STEP_ID = ''stp_preview''"

definition previewLocale :: "string option \<Rightarrow> locale_code" where
  "previewLocale raw = (case raw of None \<Rightarrow> ''en'' | Some s \<Rightarrow> if LocaleCode s then s else ''en'')"

definition previewTextResolver :: "locale_code \<Rightarrow> text_resolver" where
  "previewTextResolver loc texts = Some (case map_of texts loc of
     Some s \<Rightarrow> s | None \<Rightarrow> (case texts of [] \<Rightarrow> [] | (_, s) # _ \<Rightarrow> s))"

definition preview_page :: "a2_node \<Rightarrow> a2_node" where
  "preview_page n = A2Node ''Form'' None (Kids [A2Node ''Flex''
     (Some [(''direction'', JStr ''column''), (''gap'', JStr ''md'')]) (Kids [n])])"

definition previewQuestionVersion ::
  "library_host \<Rightarrow> registry \<Rightarrow> string \<Rightarrow> string \<Rightarrow> string option \<Rightarrow> question_refusal + a2_node" where
  "previewQuestionVersion L db i vtext raw =
     bind_ok (requireQuestionId i) (\<lambda>q. bind_ok (requireVersion L vtext) (\<lambda>v.
     case question_by_id (rd_questions db) q of
       None \<Rightarrow> Inl QuestionNotFound
     | Some _ \<Rightarrow> (case getQuestionVersion (rd_questionVersions db) q v of
         None \<Rightarrow> Inl QuestionVersionNotFound
       | Some row \<Rightarrow> (case questionToNode (qv_definition row) (previewTextResolver (previewLocale raw)) (previewLocale raw) of
           None \<Rightarrow> Inl QuestionFault
         | Some n \<Rightarrow> Inr (preview_page n)))))"

end
