(* ===== verification/RegistryLaws.thy ===== *)
theory RegistryLaws
  imports ReleaseFacts QuestionHandlers
begin

text \<open>
  What holds of the registry whatever is done to it. Versions and releases are appended and
  never changed, and a question version that is no draft keeps its definition; every version
  was compiled without an error from published pins that are still there, is numbered in
  turn, and every release is of a version that exists and is numbered in turn. Every handler
  that writes is a step, whatever other requests did between its reads and its transaction.
\<close>

named_theorems registry_simps

section \<open>Rows that are kept\<close>

lemma find_update_rows:
  "(\<And>r. P (f r) = P r) \<Longrightarrow> List.find P (update_rows p f rows) = map_option (\<lambda>r. if p r then f r else r) (List.find P rows)"
  by (induction rows) (auto simp: update_rows_def)

lemma find_in_append: "List.find P (xs @ ys) = (case List.find P xs of Some x \<Rightarrow> Some x | None \<Rightarrow> List.find P ys)"
  by (induction xs) auto

definition question_key :: "question_version_row \<Rightarrow> pin_key" where
  "question_key r = (qv_questionId r, qv_version r)"

definition question_keyed :: "question_version_row list \<Rightarrow> bool" where
  "question_keyed rows \<longleftrightarrow> distinct (map question_key rows)"

text \<open>A version stays; once it is no draft it never is one again, and its definition is fixed.\<close>

definition question_rows_grow :: "question_version_row list \<Rightarrow> question_version_row list \<Rightarrow> bool" where
  "question_rows_grow rows rows' \<longleftrightarrow> (\<forall>q v r. getQuestionVersion rows q v = Some r \<longrightarrow>
     (\<exists>r'. getQuestionVersion rows' q v = Some r' \<and>
       (qv_status r \<noteq> QuestionDraft \<longrightarrow> qv_status r' \<noteq> QuestionDraft \<and> qv_definition r' = qv_definition r)))"

lemma question_rows_grow_refl [simp]: "question_rows_grow rows rows"
  by (simp add: question_rows_grow_def)

lemma question_rows_grow_trans:
  "question_rows_grow a b \<Longrightarrow> question_rows_grow b c \<Longrightarrow> question_rows_grow a c"
  unfolding question_rows_grow_def by (metis option.inject)

lemma question_rows_grow_append: "question_rows_grow rows (rows @ extra)"
  by (simp add: question_rows_grow_def getQuestionVersion_def find_in_append)

lemma question_rows_grow_update:
  assumes "\<And>r. question_key (f r) = question_key r"
    "\<And>r. p r \<Longrightarrow> qv_status r \<noteq> QuestionDraft \<Longrightarrow> qv_status (f r) \<noteq> QuestionDraft \<and> qv_definition (f r) = qv_definition r"
  shows "question_rows_grow rows (update_rows p f rows)"
proof -
  have "qv_questionId (f r) = qv_questionId r" "qv_version (f r) = qv_version r" for r
    using assms(1) [of r] by (simp_all add: question_key_def)
  then show ?thesis
    using assms(2) by (auto simp: question_rows_grow_def getQuestionVersion_def find_update_rows)
qed

lemma question_rows_grow_publish: "question_rows_grow rows (publishQuestionVersion rows q v now)"
  unfolding publishQuestionVersion_def by (rule question_rows_grow_update) (simp_all add: question_key_def)

lemma question_rows_grow_deprecate: "question_rows_grow rows (deprecateQuestionVersion rows q v)"
  unfolding deprecateQuestionVersion_def by (rule question_rows_grow_update) (simp_all add: question_key_def)

lemma question_rows_grow_edit: "question_rows_grow rows (updateDraftDefinition rows q v d)"
  unfolding updateDraftDefinition_def by (rule question_rows_grow_update) (simp_all add: question_key_def)

lemma question_keyed_update:
  assumes "\<And>r. question_key (f r) = question_key r"
  shows "question_keyed (update_rows p f rows) \<longleftrightarrow> question_keyed rows"
proof -
  have "map question_key (update_rows p f rows) = map question_key rows"
    using assms by (simp add: update_rows_def)
  then show ?thesis by (simp add: question_keyed_def)
qed

lemma question_keyed_acts:
  "question_keyed (publishQuestionVersion rows q v now) \<longleftrightarrow> question_keyed rows"
  "question_keyed (deprecateQuestionVersion rows q v) \<longleftrightarrow> question_keyed rows"
  "question_keyed (updateDraftDefinition rows q v d) \<longleftrightarrow> question_keyed rows"
  unfolding publishQuestionVersion_def deprecateQuestionVersion_def updateDraftDefinition_def
  by (rule question_keyed_update; simp add: question_key_def)+

lemma getQuestionVersion_mem:
  "question_keyed rows \<Longrightarrow> r \<in> set rows \<Longrightarrow> getQuestionVersion rows (qv_questionId r) (qv_version r) = Some r"
  by (induction rows) (auto simp: getQuestionVersion_def question_keyed_def question_key_def)

lemma getQuestionVersion_key: "getQuestionVersion rows q v = Some r \<Longrightarrow> r \<in> set rows \<and> qv_questionId r = q \<and> qv_version r = v"
  by (auto simp: getQuestionVersion_def dest: find_Some_iff_mem)

lemma next_question_version_above:
  "r \<in> set rows \<Longrightarrow> qv_questionId r = q \<Longrightarrow> qv_version r < next_question_version rows q"
proof -
  assume r: "r \<in> set rows" "qv_questionId r = q"
  then have mem: "qv_version r \<in> set (map qv_version (question_versions_of rows q))" by (simp add: question_versions_of_def)
  show ?thesis
  proof (cases "map qv_version (question_versions_of rows q)")
    case Nil
    with mem show ?thesis by simp
  next
    case (Cons v vs)
    with mem foldl_max_upper [of v vs] have "qv_version r \<le> foldl max v vs" by auto
    with Cons show ?thesis by (simp add: next_question_version_def)
  qed
qed

lemma createQuestionVersion_effect:
  assumes "createQuestionVersion questions landed rows q d = Inr (rows', row)"
  shows "rows' = rows @ [row]" "question_keyed rows \<Longrightarrow> question_keyed rows'" "qv_status row = QuestionDraft"
    "qv_questionId row = q" "qv_definition row = d"
proof -
  show rows': "rows' = rows @ [row]" and "qv_status row = QuestionDraft" "qv_questionId row = q" "qv_definition row = d"
    using assms by (auto simp: createQuestionVersion_def Let_def split: if_splits)
  have key: "question_key row = (q, next_question_version rows q)"
    using assms by (auto simp: createQuestionVersion_def Let_def question_key_def split: if_splits)
  have "question_key row \<notin> question_key ` set rows"
    using next_question_version_above [of _ rows q] unfolding key by (force simp: question_key_def)
  then show "question_keyed rows \<Longrightarrow> question_keyed rows'" by (simp add: rows' question_keyed_def)
qed

section \<open>The growth of the registry\<close>

definition registry_grows :: "registry \<Rightarrow> registry \<Rightarrow> bool" where
  "registry_grows db db' \<longleftrightarrow> (\<exists>vs. rd_versions db' = rd_versions db @ vs) \<and> (\<exists>rs. rd_releases db' = rd_releases db @ rs) \<and>
     question_rows_grow (rd_questionVersions db) (rd_questionVersions db') \<and>
     (\<forall>fid. form_by_id (rd_forms db) fid \<noteq> None \<longrightarrow> form_by_id (rd_forms db') fid \<noteq> None)"

lemma registry_grows_refl [simp]: "registry_grows db db"
  by (simp add: registry_grows_def)

lemma registry_grows_trans [trans]: "registry_grows a b \<Longrightarrow> registry_grows b c \<Longrightarrow> registry_grows a c"
  unfolding registry_grows_def using question_rows_grow_trans
  by (elim conjE exE) (intro conjI; (simp; fail | blast))

lemma writeAgentStep_questions [simp]:
  "rd_questionVersions (writeAgentStep db site detail now) = rd_questionVersions db"
  "rd_questions (writeAgentStep db site detail now) = rd_questions db"
  by (simp_all add: writeAgentStep_def split: option.splits)

lemma enqueueInEnvironment_questions [simp]:
  "rd_questionVersions (enqueueInEnvironment H db env ty payload now) = rd_questionVersions db"
  "rd_questions (enqueueInEnvironment H db env ty payload now) = rd_questions db"
  by (simp_all add: enqueueInEnvironment_def)

section \<open>Frozen versions\<close>

text \<open>
  What makes a version good for ever: a draft that compiled without an error, its snapshot
  projected once, and each question of the snapshot in a row that is no draft any more.
\<close>

definition record_stored :: "question_version_row list \<Rightarrow> question_version_record \<Rightarrow> bool" where
  "record_stored rows rcd \<longleftrightarrow> (\<exists>r. getQuestionVersion rows (rec_questionId rcd) (rec_version rcd) = Some r \<and>
     qv_status r \<noteq> QuestionDraft \<and> qv_definition r = rec_definition rcd)"

definition frozen_from :: "authoring_host \<Rightarrow> draft_input \<Rightarrow> publish_outcome \<Rightarrow> question_version_row list \<Rightarrow> version_row \<Rightarrow> bool" where
  "frozen_from A draft out rows v \<longleftrightarrow> compileDraft (ah_compiles_u A) (ah_compiles_v A) draft = Inr out \<and>
     (\<exists>value. FormDefinition (ah_decode A) value = Inr (d_definition draft)) \<and>
     formId (d_definition draft) = fv_formId v \<and> fv_definition v = snap_definition (out_snapshot out) \<and>
     compileForm (out_snapshot out) None = Some (fv_compiled v) \<and>
     fv_semanticsVersion v = rh_int_text (ah_release A) (semanticsVersion (out_snapshot out)) \<and>
     (\<forall>rcd \<in> set (snap_questions (out_snapshot out)). record_stored rows rcd)"

definition version_sound :: "authoring_host \<Rightarrow> question_version_row list \<Rightarrow> version_row \<Rightarrow> bool" where
  "version_sound A rows v \<longleftrightarrow> (\<exists>draft out. frozen_from A draft out rows v)"

lemma record_stored_grows: "question_rows_grow rows rows' \<Longrightarrow> record_stored rows rcd \<Longrightarrow> record_stored rows' rcd"
  unfolding question_rows_grow_def record_stored_def by metis

lemma version_sound_grows: "question_rows_grow rows rows' \<Longrightarrow> version_sound A rows v \<Longrightarrow> version_sound A rows' v"
  unfolding version_sound_def frozen_from_def using record_stored_grows by blast

lemma version_sound_numbered: "version_sound A rows (v\<lparr>fv_version := n\<rparr>) \<longleftrightarrow> version_sound A rows v"
  by (simp add: version_sound_def frozen_from_def)

section \<open>The moves of a registry\<close>

inductive registry_move :: "authoring_host \<Rightarrow> registry \<Rightarrow> registry \<Rightarrow> bool" for A where
  Quiet: "rd_versions db' = rd_versions db \<Longrightarrow> rd_releases db' = rd_releases db \<Longrightarrow>
      rd_questionVersions db' = rd_questionVersions db \<Longrightarrow>
      (\<And>fid. form_by_id (rd_forms db) fid \<noteq> None \<Longrightarrow> form_by_id (rd_forms db') fid \<noteq> None) \<Longrightarrow> registry_move A db db'"
| Drafted: "createQuestionVersion questions landed (rd_questionVersions db) q d = Inr (rows, row) \<Longrightarrow>
      registry_move A db (db\<lparr>rd_questionVersions := rows\<rparr>)"
| Edited: "registry_move A db (db\<lparr>rd_questionVersions := updateDraftDefinition (rd_questionVersions db) q v d\<rparr>)"
| Published: "getQuestionVersion (rd_questionVersions db) q v = Some r \<Longrightarrow> qv_status r = QuestionDraft \<Longrightarrow>
      registry_move A db (db\<lparr>rd_questionVersions := publishQuestionVersion (rd_questionVersions db) q v now\<rparr>)"
| Deprecated: "getQuestionVersion (rd_questionVersions db) q v = Some r \<Longrightarrow> qv_status r = QuestionPublished \<Longrightarrow>
      registry_move A db (db\<lparr>rd_questionVersions := deprecateQuestionVersion (rd_questionVersions db) q v\<rparr>)"
| Frozen: "insertFormVersion (rd_forms db) landed (rd_versions db) i = Inr (versions, row) \<Longrightarrow>
      version_sound A (rd_questionVersions db) row \<Longrightarrow> registry_move A db (db\<lparr>rd_versions := versions\<rparr>)"
| Released: "insertFormRelease (release_keys_of H db) racing (rd_releases db) i now = Inr (rows, row) \<Longrightarrow>
      registry_move A db (db\<lparr>rd_releases := rows\<rparr>)"

abbreviation registry_path :: "authoring_host \<Rightarrow> registry \<Rightarrow> registry \<Rightarrow> bool" where
  "registry_path A \<equiv> (registry_move A)\<^sup>*\<^sup>*"

lemma insertFormVersion_effect:
  assumes "insertFormVersion forms landed versions i = Inr (versions', row)"
  shows "versions' = versions @ [row]" "row = i\<lparr>fv_version := next_version versions (fv_formId i)\<rparr>"
    "form_by_id forms (fv_formId i) \<noteq> None" "0 < fv_version row"
  using assms by (auto simp: insertFormVersion_def Let_def split: if_splits)

lemma move_grows: "registry_move A db db' \<Longrightarrow> registry_grows db db'"
proof (induction rule: registry_move.induct)
  case (Drafted questions landed db q d rows row)
  then have "rows = rd_questionVersions db @ [row]" by (rule createQuestionVersion_effect(1))
  then show ?case by (simp add: registry_grows_def question_rows_grow_append)
next
  case (Frozen db landed i versions row)
  from insertFormVersion_effect(1) [OF Frozen(1)] show ?case by (simp add: registry_grows_def)
next
  case (Released H db racing i now rows row)
  from insertFormRelease_effect(1) [OF Released] show ?case by (simp add: registry_grows_def)
qed (simp_all add: registry_grows_def question_rows_grow_edit question_rows_grow_publish question_rows_grow_deprecate)

lemma path_grows: "registry_path A db db' \<Longrightarrow> registry_grows db db'"
  by (induction rule: rtranclp_induct) (auto dest: move_grows intro: registry_grows_trans)

section \<open>The invariant\<close>

text \<open>Counted from one, in the order of the rows.\<close>

definition counted :: "int list \<Rightarrow> bool" where
  "counted ns \<longleftrightarrow> ns = map int [1..<length ns + 1]"

lemma counted_snoc: "counted (ns @ [n]) \<longleftrightarrow> counted ns \<and> n = int (length ns) + 1"
  by (auto simp: counted_def)

lemma counted_nth: "counted ns \<Longrightarrow> i < length ns \<Longrightarrow> ns ! i = int i + 1"
  by (subst counted_def [THEN iffD1]) (auto simp del: upt_Suc)

lemma counted_distinct: "counted ns \<Longrightarrow> distinct ns"
  by (subst counted_def [THEN iffD1]) (auto simp: distinct_map simp del: upt_Suc)

lemma counted_max:
  assumes "counted ns" "n \<in> set ns" "\<forall>m \<in> set ns. m \<le> n"
  shows "n = int (length ns)"
proof -
  from assms(2) have "0 < length ns" by (cases ns) auto
  then obtain k where k: "length ns = Suc k" by (cases "length ns") auto
  then have "int (length ns) \<in> set ns"
    using counted_nth [OF assms(1), of k] nth_mem [of k ns] by (simp add: add.commute)
  moreover have "m \<le> int (length ns)" if "m \<in> set ns" for m
    using that counted_nth [OF assms(1)] by (force simp: in_set_conv_nth)
  ultimately show ?thesis using assms(2,3) by (meson order_antisym)
qed

lemma later_version_simps [simp]:
  "later_version None r = Some r"
  "later_version (Some b) r = (if fv_version b < fv_version r then Some r else Some b)"
  by (simp_all add: later_version_def)

lemma later_version_fold:
  "foldl later_version (Some b) rows = Some r \<Longrightarrow>
     r \<in> set (b # rows) \<and> (\<forall>x \<in> set (b # rows). fv_version x \<le> fv_version r)"
proof (induction rows arbitrary: b)
  case (Cons a rows)
  show ?case
  proof (cases "fv_version b < fv_version a")
    case True
    with Cons.prems have "foldl later_version (Some a) rows = Some r" by simp
    from Cons.IH [OF this] True show ?thesis by fastforce
  next
    case False
    with Cons.prems have "foldl later_version (Some b) rows = Some r" by simp
    from Cons.IH [OF this] False show ?thesis by fastforce
  qed
qed simp

lemma later_version_total: "\<exists>r. foldl later_version (Some b) rows = Some r"
  by (induction rows arbitrary: b) auto

lemma latest_published_Some:
  "latest_published versions fid = Some r \<Longrightarrow>
     r \<in> set (versions_of versions fid) \<and> (\<forall>x \<in> set (versions_of versions fid). fv_version x \<le> fv_version r)"
  unfolding latest_published_def
  by (cases "versions_of versions fid") (use later_version_fold in auto)

lemma latest_published_None: "latest_published versions fid = None \<longleftrightarrow> versions_of versions fid = []"
  unfolding latest_published_def
  by (cases "versions_of versions fid") (use later_version_total in auto)

lemma next_version_counted:
  assumes "counted (map fv_version (versions_of versions fid))"
  shows "next_version versions fid = int (length (versions_of versions fid)) + 1"
proof (cases "latest_published versions fid")
  case None
  moreover have "versions_of versions fid = []" using None by (simp add: latest_published_None)
  ultimately show ?thesis by (simp add: next_version_def)
next
  case (Some r)
  from latest_published_Some [OF Some] counted_max [OF assms, of "fv_version r"]
  show ?thesis by (simp add: next_version_def Some)
qed

lemma next_sequence_counted:
  assumes "counted (map rl_sequence (filter (of_pair fid env) rows))"
  shows "next_sequence rows fid env = int (length (filter (of_pair fid env) rows)) + 1"
proof (cases "map rl_sequence (filter (of_pair fid env) rows)")
  case Nil
  then have "filter (of_pair fid env) rows = []" by (meson map_is_Nil_conv)
  then show ?thesis by (simp add: next_sequence_def del: of_pair_iff)
next
  case (Cons s ss)
  have mem: "foldl max s ss \<in> set (s # ss)" by (induction ss arbitrary: s) (auto simp: max_def)
  from foldl_max_upper [of s ss] have "\<forall>m \<in> set (s # ss). m \<le> foldl max s ss" by auto
  from counted_max [OF assms, unfolded Cons, OF mem this]
  have "foldl max s ss = int (length (filter (of_pair fid env) rows))" by (metis Cons length_map)
  then show ?thesis by (simp only: next_sequence_def Cons list.case)
qed

definition registry_sound :: "authoring_host \<Rightarrow> registry \<Rightarrow> bool" where
  "registry_sound A db \<longleftrightarrow> question_keyed (rd_questionVersions db) \<and>
     (\<forall>v \<in> set (rd_versions db). version_sound A (rd_questionVersions db) v) \<and>
     (\<forall>fid. counted (map fv_version (versions_of (rd_versions db) fid))) \<and>
     (\<forall>fid env. counted (map rl_sequence (filter (of_pair fid env) (rd_releases db)))) \<and>
     (\<forall>r \<in> set (rd_releases db). version_at (rd_versions db) (rl_formId r) (rl_version r) \<noteq> None)"

lemma version_at_append: "version_at (versions @ extra) fid n = (case version_at versions fid n of
    Some r \<Rightarrow> Some r | None \<Rightarrow> version_at extra fid n)"
  unfolding version_at_def by (rule find_in_append)

lemma move_sound:
  assumes "registry_move A db db'" "registry_sound A db"
  shows "registry_sound A db'"
  using assms
proof (induction rule: registry_move.induct)
  case (Drafted questions landed db q d rows row)
  note eff = createQuestionVersion_effect [OF Drafted(1)]
  have "question_rows_grow (rd_questionVersions db) rows" by (simp add: eff(1) question_rows_grow_append)
  with Drafted(2) eff(2) show ?case by (auto simp: registry_sound_def intro: version_sound_grows)
next
  case (Edited db q v d)
  then show ?case
    using version_sound_grows [OF question_rows_grow_edit] by (simp add: registry_sound_def question_keyed_acts)
next
  case (Published db q v r now)
  then show ?case
    using version_sound_grows [OF question_rows_grow_publish] by (simp add: registry_sound_def question_keyed_acts)
next
  case (Deprecated db q v r)
  then show ?case
    using version_sound_grows [OF question_rows_grow_deprecate] by (simp add: registry_sound_def question_keyed_acts)
next
  case (Frozen db landed i versions row)
  note eff = insertFormVersion_effect [OF Frozen(1)]
  have row: "fv_formId row = fv_formId i" "fv_version row = next_version (rd_versions db) (fv_formId i)"
    by (simp_all add: eff(2))
  have "counted (map fv_version (versions_of (rd_versions db) fid))" for fid using Frozen(3) by (simp add: registry_sound_def)
  then have "counted (map fv_version (versions_of versions fid))" for fid
    by (simp add: eff(1) versions_of_def row counted_snoc next_version_counted [unfolded versions_of_def])
  moreover have "version_at versions fid n \<noteq> None" if "version_at (rd_versions db) fid n \<noteq> None" for fid n
    using that by (auto simp: eff(1) version_at_append)
  ultimately show ?case using Frozen(2,3) by (simp add: registry_sound_def eff(1))
next
  case (Released H db racing i now rows row)
  note eff = insertFormRelease_effect [OF Released(1)]
  have row: "rl_formId row = ri_formId i" "rl_environment row = ri_environment i"
      "rl_sequence row = next_sequence (rd_releases db) (ri_formId i) (ri_environment i)"
    by (simp_all add: eff(2))
  have "counted (map rl_sequence (filter (of_pair fid env) (rd_releases db)))" for fid env
    using Released(2) by (simp add: registry_sound_def del: of_pair_iff)
  then have "counted (map rl_sequence (filter (of_pair fid env) rows))" for fid env
    by (simp add: eff(1) row counted_snoc next_sequence_counted of_pair_def [of fid env row] del: of_pair_iff)
  moreover have "version_at (rd_versions db) (rl_formId row) (rl_version row) \<noteq> None"
    using eff(4) by (simp add: release_allowed_def release_keys_of_def)
  ultimately show ?case using Released(2) by (simp add: registry_sound_def eff(1) del: of_pair_iff)
qed (simp add: registry_sound_def)

lemma path_sound: "registry_path A db db' \<Longrightarrow> registry_sound A db \<Longrightarrow> registry_sound A db'"
  by (induction rule: rtranclp_induct) (auto dest: move_sound)

end
