(* ===== verification/FreezeFacts.thy ===== *)
theory FreezeFacts
  imports RegistryLaws
begin

text \<open>
  What freezing a draft has checked. The lookups hold rows of the registry and nothing else,
  so a snapshot's questions are stored ones that are no drafts, and each of its pins is
  published, or deprecated and carried over, and of a workspace the form may pin from, or
  carried over.
\<close>

section \<open>The lookups\<close>

definition record_of :: "question_version_row \<Rightarrow> question_version_record" where
  "record_of r = \<lparr>rec_questionId = qv_questionId r, rec_version = qv_version r, rec_definition = qv_definition r\<rparr>"

lemma record_of_simps [simp]:
  "rec_questionId (record_of r) = qv_questionId r" "rec_version (record_of r) = qv_version r"
  "rec_definition (record_of r) = qv_definition r"
  by (simp_all add: record_of_def)

definition lookups_sound :: "question_version_row list \<Rightarrow> question_lookups \<Rightarrow> bool" where
  "lookups_sound rows L \<longleftrightarrow>
     (\<forall>k rcd. lk_records L k = Some rcd \<longrightarrow> (\<exists>r \<in> set rows. question_key r = k \<and> rcd = record_of r)) \<and>
     (\<forall>k st. lk_status L k = Some st \<longrightarrow> (\<exists>r \<in> set rows. question_key r = k \<and> qv_status r = st)) \<and>
     (\<forall>q vs v. lk_published L q = Some vs \<longrightarrow> v \<in> vs \<longrightarrow>
        (\<exists>r \<in> set rows. question_key r = (q, v) \<and> qv_status r = QuestionPublished))"

lemma lk_published_versions [simp]: "lk_published (foldl note_version L rs) = lk_published L"
  by (induction rs arbitrary: L) (auto simp: note_version_def)

lemma lookups_sound_version: "lookups_sound rows L \<Longrightarrow> r \<in> set rows \<Longrightarrow> lookups_sound rows (note_version L r)"
  by (auto simp: lookups_sound_def note_version_def question_key_def record_of_def)

lemma lookups_sound_versions: "lookups_sound rows L \<Longrightarrow> set rs \<subseteq> set rows \<Longrightarrow> lookups_sound rows (foldl note_version L rs)"
  by (induction rs arbitrary: L) (auto simp: lookups_sound_version)

lemma lookups_sound_question:
  assumes "ordering_law order" "lookups_sound rows L"
  shows "lookups_sound rows (note_question order rows L q)"
proof -
  have vs: "set (listQuestionVersions order rows q) = {r \<in> set rows. qv_questionId r = q}"
    using assms(1) by (auto simp: listQuestionVersions_def question_versions_of_def ordering_set)
  then have "lookups_sound rows (foldl note_version L (listQuestionVersions order rows q))"
    by (intro lookups_sound_versions [OF assms(2)]) auto
  then show ?thesis
    using vs assms(2) by (auto simp: note_question_def Let_def lookups_sound_def question_key_def)
qed

lemma lookups_sound_questions:
  "ordering_law order \<Longrightarrow> lookups_sound rows L \<Longrightarrow> lookups_sound rows (foldl (note_question order rows) L qs)"
  by (induction qs arbitrary: L) (auto simp: lookups_sound_question)

lemma loadQuestionLookups_sound:
  "ordering_law order \<Longrightarrow> lookups_sound rows (loadQuestionLookups order rows d [])"
  unfolding loadQuestionLookups_def foldl.simps by (rule lookups_sound_questions) (auto simp: lookups_sound_def)

section \<open>The gates\<close>

lemma gate_deprecated_simp: "gate_deprecated carried status (issues, published) (s, q, v) =
   (if status (q, v) \<noteq> Some QuestionDeprecated then (issues, published)
    else (issues @ (if (s, q, v) \<in> carried then [] else [DeprecatedPin s q v]), published(q := map_option (insert v) (published q))))"
  by (simp add: gate_deprecated_def)

lemma gate_deprecated_fold:
  assumes "foldl (gate_deprecated carried status) (issues, published) ps = (issues', published')"
  shows "issues' = issues @ concat (map (\<lambda>(s, q, v). if status (q, v) = Some QuestionDeprecated \<and> (s, q, v) \<notin> carried
           then [DeprecatedPin s q v] else []) ps)"
    "published' q = Some vs' \<Longrightarrow> v \<in> vs' \<Longrightarrow> (\<exists>vs. published q = Some vs \<and> v \<in> vs) \<or> status (q, v) = Some QuestionDeprecated"
  using assms
proof (induction ps arbitrary: issues published)
  case (Cons p ps)
  obtain s q' v' where p: "p = (s, q', v')" by (cases p)
  { case 1
    obtain es pub where st: "gate_deprecated carried status (issues, published) p = (es, pub)" by (meson surj_pair)
    with 1 have "foldl (gate_deprecated carried status) (es, pub) ps = (issues', published')" by simp
    from Cons(1) [OF this] st show ?case by (auto simp: p gate_deprecated_simp split: if_splits) }
  { case 2
    obtain es pub where st: "gate_deprecated carried status (issues, published) p = (es, pub)" by (meson surj_pair)
    with 2(3) have "foldl (gate_deprecated carried status) (es, pub) ps = (issues', published')" by simp
    from Cons(2) [OF 2(1,2) this] st show ?case by (auto simp: p gate_deprecated_simp split: if_splits) }
qed simp_all

lemma deprecatedPinGate_issues:
  "fst (deprecatedPinGate d previous status published) = [] \<longleftrightarrow>
     (\<forall>(s, q, v) \<in> set (placements d). status (q, v) = Some QuestionDeprecated \<longrightarrow> (s, q, v) \<in> carriedPlacements previous)"
  using gate_deprecated_fold(1) [OF surjective_pairing, of "carriedPlacements previous" status "[]" published "placements d"]
  by (force simp: deprecatedPinGate_def split: if_splits)

lemma deprecatedPinGate_published:
  "snd (deprecatedPinGate d previous status published) q = Some vs' \<Longrightarrow> v \<in> vs' \<Longrightarrow>
     (\<exists>vs. published q = Some vs \<and> v \<in> vs) \<or> status (q, v) = Some QuestionDeprecated"
  unfolding deprecatedPinGate_def using gate_deprecated_fold(2) [OF surjective_pairing] by blast

lemma workspacePinGate_Nil:
  "workspacePinGate d w ownership carried = [] \<longleftrightarrow>
     (\<forall>(s, q, v) \<in> set (placements d). \<forall>own \<in> set_option (ownership q). mayPinQuestion w own \<or> (s, q, v) \<in> carried)"
  by (auto simp: workspacePinGate_def split: option.splits if_splits)

lemma placements_refs: "(\<exists>s. (s, q, v) \<in> set (placements d)) \<longleftrightarrow> (\<exists>r \<in> set (form_refs d). ref_questionId r = q \<and> ref_version r = v)"
  by (auto simp: placements_def form_refs_def)

section \<open>The snapshot of a validated draft\<close>

text \<open>The draft \<^verbatim>\<open>compileDraft\<close> is given.\<close>

definition gated_draft :: "authoring_host \<Rightarrow> registry \<Rightarrow> form_definition \<Rightarrow> draft_input" where
  "gated_draft A db d = (let L = loadQuestionLookups (ah_version_order A) (rd_questionVersions db) d [] in
     \<lparr>d_definition = d, d_resolveQuestion = (\<lambda>q v. lk_records L (q, v)),
      publishedQuestionVersions = snd (deprecatedPinGate d (map_option fv_definition (latest_published (rd_versions db) (formId d)))
        (lk_status L) (lk_published L))\<rparr>)"

lemma validateDraft_snapshot:
  "dv_snapshot (validateDraft A db d []) = Some snap \<longleftrightarrow>
     (\<exists>out. compileDraft (ah_compiles_u A) (ah_compiles_v A) (gated_draft A db d) = Inr out \<and> out_snapshot out = snap)"
  by (auto simp: validateDraft_def gated_draft_def Let_def split_def split: sum.splits)

lemma d_definition_gated [simp]: "d_definition (gated_draft A db d) = d"
  by (simp add: gated_draft_def Let_def)

text \<open>A pin the kernel accepts names a stored version that is published or deprecated.\<close>

lemma gated_pin:
  assumes "ordering_law (ah_version_order A)" "question_keyed (rd_questionVersions db)"
    "pin_record (gated_draft A db d) r = Some rcd" "published_pin (gated_draft A db d) r"
  shows "\<exists>row. getQuestionVersion (rd_questionVersions db) (ref_questionId r) (ref_version r) = Some row \<and>
    rcd = record_of row \<and> (qv_status row = QuestionPublished \<or> (qv_status row = QuestionDeprecated \<and>
      lk_status (loadQuestionLookups (ah_version_order A) (rd_questionVersions db) d []) (ref_questionId r, ref_version r) = Some QuestionDeprecated))"
proof -
  let ?rows = "rd_questionVersions db" and ?L = "loadQuestionLookups (ah_version_order A) (rd_questionVersions db) d []"
  let ?k = "(ref_questionId r, ref_version r)"
  have sound: "lookups_sound ?rows ?L" by (rule loadQuestionLookups_sound [OF assms(1)])
  have at: "getQuestionVersion ?rows (ref_questionId r) (ref_version r) = Some row" if "row \<in> set ?rows" "question_key row = ?k" for row
    using getQuestionVersion_mem [OF assms(2) that(1)] that(2) by (simp add: question_key_def)
  have "lk_records ?L ?k = Some rcd"
    using pin_record_Some [OF assms(3)] by (simp add: gated_draft_def Let_def)
  with sound obtain row where row: "row \<in> set ?rows" "question_key row = ?k" "rcd = record_of row"
    unfolding lookups_sound_def by blast
  from assms(4) obtain vs where vs: "publishedQuestionVersions (gated_draft A db d) (ref_questionId r) = Some vs" "ref_version r \<in> vs"
    by (auto simp: published_pin_def)
  then have "(\<exists>vs. lk_published ?L (ref_questionId r) = Some vs \<and> ref_version r \<in> vs) \<or> lk_status ?L ?k = Some QuestionDeprecated"
    unfolding gated_draft_def Let_def draft_input.simps by (rule deprecatedPinGate_published)
  then have "qv_status row = QuestionPublished \<or> (qv_status row = QuestionDeprecated \<and> lk_status ?L ?k = Some QuestionDeprecated)"
    using sound at row(1,2) unfolding lookups_sound_def by (metis option.inject)
  with at row show ?thesis by blast
qed

lemma validateDraft_records:
  assumes "ordering_law (ah_version_order A)" "question_keyed (rd_questionVersions db)"
    "compileDraft (ah_compiles_u A) (ah_compiles_v A) (gated_draft A db d) = Inr out"
  shows "\<forall>rcd \<in> set (snap_questions (out_snapshot out)). record_stored (rd_questionVersions db) rcd"
proof
  from assms(3) have clean: "draft_errors (gated_draft A db d) = []" by (simp add: compileDraft_Inr_iff)
  fix rcd assume "rcd \<in> set (snap_questions (out_snapshot out))"
  then obtain r where r: "r \<in> set (form_refs d)" "rcd = the (pin_record (gated_draft A db d) r)"
    using assms(3) clean_snapshot_questions [OF clean] by (auto simp: compileDraft_Inr_iff)
  with clean_pins [OF clean] have "pin_record (gated_draft A db d) r = Some rcd" "published_pin (gated_draft A db d) r" by auto
  from gated_pin [OF assms(1,2) this] obtain row
    where row: "getQuestionVersion (rd_questionVersions db) (ref_questionId r) (ref_version r) = Some row" "rcd = record_of row"
      "qv_status row \<noteq> QuestionDraft" by fastforce
  with getQuestionVersion_key [OF row(1)] show "record_stored (rd_questionVersions db) rcd" by (simp add: record_stored_def)
qed

end
