(* ===== verification/ConfirmFacts.thy ===== *)
theory ConfirmFacts
  imports ReleaseFacts FormPublish
begin

text \<open>
  What one confirmation does, whatever its source. Freezing a draft and naming a version are
  two ways to get the version it releases; the contract of both is the locale of this theory,
  and the effect of a confirmation is proved in it once.
\<close>

section \<open>What the recheck has checked\<close>

definition checked_target ::
  "registry \<Rightarrow> CommitInput \<Rightarrow> EffectiveWorkflow \<Rightarrow> history_row list \<Rightarrow> BatchTarget \<Rightarrow> string option \<Rightarrow> bool" where
  "checked_target db input workflow releases target approval \<longleftrightarrow>
     map_option (\<lambda>h. rl_sequence (hr_row h)) (newestIn releases (bt_environment target)) = bt_expectedSequence target \<and>
     (1 < length (ci_targets input) \<longrightarrow> wk_allowsInBatch (ruleFor workflow (bt_environment target))) \<and>
     (case ci_source input of
        DraftSource _ \<Rightarrow> requireDraftEligible workflow (bt_environment target) = Inr ()
      | VersionSource v _ \<Rightarrow> map_option hr_version (newestIn releases (bt_environment target)) \<noteq> Some v \<and>
          requirePrerequisite workflow releases (bt_environment target) v = Inr ()) \<and>
     (if twoPersonRuleApplies (rd_workspaces db) (Some (ci_workspaceId input)) (Some (bt_environment target))
      then (\<exists>author. (case ci_source input of VersionSource _ p \<Rightarrow> p | DraftSource _ \<Rightarrow> Some (ci_principalId input)) = Some author \<and>
         author \<noteq> ci_principalId input) \<and> approval = Some (ci_principalId input)
      else approval = None)"

lemma approvalForRelease_Inr:
  "approvalForRelease workspaces w env v author by = Inr approval \<longleftrightarrow>
     (if twoPersonRuleApplies workspaces w (Some env) then (\<exists>a. author = Some a \<and> a \<noteq> by) \<and> approval = Some by
      else approval = None)"
  by (auto simp: approvalForRelease_def split: option.splits)

lemma recheck_target_Inr:
  "recheck_target db input workflow releases target = Inr approval \<longleftrightarrow> checked_target db input workflow releases target approval"
  by (cases "ci_source input")
     (auto simp: recheck_target_def checked_target_def Let_def source_version_def throw_simps approvalForRelease_Inr opt_default_def)

lemma recheckTargets_Inr:
  "recheckTargets db input workflow releases targets = Inr approvals \<longleftrightarrow>
     map fst approvals = map bt_environment targets \<and>
     list_all2 (\<lambda>target (env, approval). checked_target db input workflow releases target approval) targets approvals"
proof (induction targets arbitrary: approvals)
  case (Cons target targets)
  then show ?case
    by (cases approvals) (auto simp: throw_simps recheck_target_Inr)
qed auto

lemma first_duplicate_None:
  "first_duplicate seen es = None \<longleftrightarrow> distinct es \<and> set es \<inter> set seen = {}"
  by (induction seen es rule: first_duplicate.induct) auto

text \<open>Each target's approval is the one looked up for its environment.\<close>

lemma recheck_each:
  assumes "recheckTargets db input workflow releases targets = Inr approvals" "distinct (map bt_environment targets)"
    "target \<in> set targets"
  shows "checked_target db input workflow releases target (opt_default None (map_of approvals (bt_environment target)))"
proof -
  from assms(1) have keys: "map fst approvals = map bt_environment targets"
    and each: "list_all2 (\<lambda>target (env, approval). checked_target db input workflow releases target approval) targets approvals"
    by (simp_all add: recheckTargets_Inr)
  from assms(3) obtain i where i: "i < length targets" "target = targets ! i" by (auto simp: in_set_conv_nth)
  then have len: "i < length approvals" using each by (simp add: list_all2_lengthD)
  have "fst (approvals ! i) = bt_environment target"
    using keys i len by (metis nth_map)
  moreover have "distinct (map fst approvals)" using assms(2) keys by simp
  ultimately have "map_of approvals (bt_environment target) = Some (snd (approvals ! i))"
    using len by (metis map_of_eq_Some_iff nth_mem prod.collapse)
  moreover have "checked_target db input workflow releases target (snd (approvals ! i))"
    using list_all2_nthD [OF each i(1)] i(2) by (simp add: case_prod_beta)
  ultimately show ?thesis by (simp add: opt_default_def)
qed

section \<open>The contract of a source\<close>

text \<open>What a freezer leaves alone: releases, confirmations, events, workflow and workspaces.\<close>

definition freezer_keeps :: "registry \<Rightarrow> registry \<Rightarrow> bool" where
  "freezer_keeps db db' \<longleftrightarrow> rd_releases db' = rd_releases db \<and> rd_batches db' = rd_batches db \<and>
     rd_outboxes db' = rd_outboxes db \<and> rd_workflow db' = rd_workflow db \<and> rd_workspaces db' = rd_workspaces db \<and>
     rd_forms db' = rd_forms db \<and> rd_agentActions db' = rd_agentActions db"

locale freezing =
  fixes freeze :: freezer
  assumes freeze_keeps: "freeze db = Inr (db', v) \<Longrightarrow> freezer_keeps db db'"

definition batch_row :: "CommitInput \<Rightarrow> BatchResult \<Rightarrow> int \<Rightarrow> BatchResult release_batch_row" where
  "batch_row input result now = \<lparr>rb_principalId = ci_principalId input, rb_formId = ci_formId input,
     rb_idempotencyKey = ci_idempotencyKey input, rb_intentHash = ci_intentHash input, rb_result = result, rb_createdAt = now\<rparr>"

definition source_ready :: "registry \<Rightarrow> CommitInput \<Rightarrow> bool" where
  "source_ready db input \<longleftrightarrow> (case ci_source input of
     DraftSource v \<Rightarrow> map_option fd_revision (find_draft db (ci_formId input)) = Some v
   | VersionSource _ _ \<Rightarrow> True)"

text \<open>The parts of a confirmation that committed and was no replay.\<close>

lemma commit_new_parts:
  assumes "commit_new H freeze racing db input now = Inr (result, db')"
  obtains approvals db1 version db2 written batches where
    "ew_revision (readWorkflow (rh_rule_order H) (rd_workflow db) (rh_served H)) = ci_expectedWorkflowRevision input"
    "source_ready db input"
    "recheckTargets db input (readWorkflow (rh_rule_order H) (rd_workflow db) (rh_served H))
      (listFormReleases (rh_history_order H) (rd_releases db) (ci_formId input) None) (ci_targets input) = Inr approvals"
    "case ci_source input of DraftSource _ \<Rightarrow> freeze db = Inr (db1, version) | VersionSource v _ \<Rightarrow> db1 = db \<and> version = v"
    "writeReleases H racing input (listFormReleases (rh_history_order H) (rd_releases db) (ci_formId input) None)
      approvals version now (ci_targets input) db1 = Inr (db2, written)"
    "result = \<lparr>br_version = version, br_releases = written, br_replayed = False,
       br_froze = (case ci_source input of DraftSource _ \<Rightarrow> True | _ \<Rightarrow> False)\<rparr>"
    "insertReleaseBatch [] (rd_batches db2) (batch_row input result now) = Inr batches"
    "db' = (writeAgentStep db2 (ci_agent input) (Some (rh_int_text H version)) now)\<lparr>rd_batches := batches\<rparr>"
  using assms unfolding commit_new_def Let_def source_ready_def batch_row_def
  by (cases "ci_source input") (fastforce simp: throw_simps)+

lemma insertReleaseBatch_effect:
  assumes "insertReleaseBatch landed rows r = Inr rows'"
  shows "rows' = rows @ [r]" "getReleaseBatch rows' (rb_principalId r) (rb_formId r) (rb_idempotencyKey r) = Some r"
proof -
  show rows': "rows' = rows @ [r]" using assms by (auto simp: insertReleaseBatch_def split: if_splits)
  have "batch_key r \<notin> batch_key ` set rows" using assms by (auto simp: insertReleaseBatch_def split: if_splits)
  then have "getReleaseBatch rows (rb_principalId r) (rb_formId r) (rb_idempotencyKey r) = None"
    unfolding getReleaseBatch_def find_None_iff by (metis batch_key_def image_eqI)
  then show "getReleaseBatch rows' (rb_principalId r) (rb_formId r) (rb_idempotencyKey r) = Some r"
    by (simp add: rows' getReleaseBatch_append batch_key_def)
qed

context freezing begin

lemma source_keeps:
  "(case ci_source input of DraftSource _ \<Rightarrow> freeze db = Inr (db1, version) | VersionSource v _ \<Rightarrow> db1 = db \<and> version = v) \<Longrightarrow>
     freezer_keeps db db1"
  by (cases "ci_source input") (auto simp: freezer_keeps_def dest: freeze_keeps)

lemma commit_effect:
  assumes "commit_new H freeze racing db input now = Inr (result, db')" "distinct (map bt_environment (ci_targets input))"
  shows "rd_releases db' = rd_releases db @ map hr_row (br_releases result)"
    "map hr_environment (br_releases result) = map bt_environment (ci_targets input)"
    "\<forall>h \<in> set (br_releases result). getReleasedVersion (rd_releases db') (ci_formId input) (hr_environment h) = Some (hr_row h) \<and>
       hr_version h = br_version result \<and> rl_releasedBy (hr_row h) = ci_principalId input \<and>
       rl_closed (hr_row h) = closed_in (rd_releases db) (ci_formId input) (hr_environment h)"
    "\<forall>fid env. fid \<noteq> ci_formId input \<or> env \<notin> bt_environment ` set (ci_targets input) \<longrightarrow>
       getReleasedVersion (rd_releases db') fid env = getReleasedVersion (rd_releases db) fid env"
    "\<forall>e. events_in db' e = events_in db e @ map (release_event H \<circ> hr_row) (filter (\<lambda>h. hr_environment h = e) (br_releases result))"
    "getReleaseBatch (rd_batches db') (ci_principalId input) (ci_formId input) (ci_idempotencyKey input) = Some (batch_row input result now)"
    "\<not> br_replayed result"
    "\<forall>v p. ci_source input = VersionSource v p \<longrightarrow> br_version result = v"
proof -
  obtain approvals db1 version db2 written batches where
    "ew_revision (readWorkflow (rh_rule_order H) (rd_workflow db) (rh_served H)) = ci_expectedWorkflowRevision input"
    "source_ready db input"
    and rc: "recheckTargets db input (readWorkflow (rh_rule_order H) (rd_workflow db) (rh_served H))
      (listFormReleases (rh_history_order H) (rd_releases db) (ci_formId input) None) (ci_targets input) = Inr approvals"
    and src: "case ci_source input of DraftSource _ \<Rightarrow> freeze db = Inr (db1, version) | VersionSource v _ \<Rightarrow> db1 = db \<and> version = v"
    and wr: "writeReleases H racing input (listFormReleases (rh_history_order H) (rd_releases db) (ci_formId input) None)
      approvals version now (ci_targets input) db1 = Inr (db2, written)"
    and result: "result = \<lparr>br_version = version, br_releases = written, br_replayed = False,
       br_froze = (case ci_source input of DraftSource _ \<Rightarrow> True | _ \<Rightarrow> False)\<rparr>"
    and ins: "insertReleaseBatch [] (rd_batches db2) (batch_row input result now) = Inr batches"
    and db': "db' = (writeAgentStep db2 (ci_agent input) (Some (rh_int_text H version)) now)\<lparr>rd_batches := batches\<rparr>"
    by (rule commit_new_parts [OF assms(1)])
  have keeps: "rd_releases db1 = rd_releases db" "events_in db1 e = events_in db e" for e
    using source_keeps [OF src] by (simp_all add: freezer_keeps_def events_in_def)
  note eff = writeReleases_effect [OF wr] and serves = writeReleases_serves [OF wr assms(2)]
  have rel: "rd_releases db' = rd_releases db2" and ev: "events_in db' e = events_in db2 e" for e by (simp_all add: db')
  show "rd_releases db' = rd_releases db @ map hr_row (br_releases result)" using eff keeps by (simp add: result rel)
  show "map hr_environment (br_releases result) = map bt_environment (ci_targets input)" using eff by (simp add: result)
  show "\<forall>h \<in> set (br_releases result). getReleasedVersion (rd_releases db') (ci_formId input) (hr_environment h) = Some (hr_row h) \<and>
       hr_version h = br_version result \<and> rl_releasedBy (hr_row h) = ci_principalId input \<and>
       rl_closed (hr_row h) = closed_in (rd_releases db) (ci_formId input) (hr_environment h)"
    unfolding result BatchResult.simps rel using eff serves [unfolded keeps(1)] by blast
  show "\<forall>fid env. fid \<noteq> ci_formId input \<or> env \<notin> bt_environment ` set (ci_targets input) \<longrightarrow>
       getReleasedVersion (rd_releases db') fid env = getReleasedVersion (rd_releases db) fid env"
    unfolding rel using serves [unfolded keeps(1)] by blast
  show "\<forall>e. events_in db' e = events_in db e @ map (release_event H \<circ> hr_row) (filter (\<lambda>h. hr_environment h = e) (br_releases result))"
    using eff keeps by (simp add: result ev)
  show "getReleaseBatch (rd_batches db') (ci_principalId input) (ci_formId input) (ci_idempotencyKey input) = Some (batch_row input result now)"
    using insertReleaseBatch_effect(2) [OF ins] by (simp add: db' batch_row_def)
  show "\<not> br_replayed result" by (simp add: result)
  show "\<forall>v p. ci_source input = VersionSource v p \<longrightarrow> br_version result = v" using src by (auto simp: result)
qed

text \<open>What was checked of every destination, on the database the transaction began with.\<close>

lemma commit_checked:
  assumes "commit_new H freeze racing db input now = Inr (result, db')" "distinct (map bt_environment (ci_targets input))"
    "h \<in> set (br_releases result)"
  shows "\<exists>target \<in> set (ci_targets input). bt_environment target = hr_environment h \<and>
    checked_target db input (readWorkflow (rh_rule_order H) (rd_workflow db) (rh_served H))
      (listFormReleases (rh_history_order H) (rd_releases db) (ci_formId input) None) target (rl_approvedBy (hr_row h))"
proof -
  obtain approvals db1 version db2 written batches where
    "ew_revision (readWorkflow (rh_rule_order H) (rd_workflow db) (rh_served H)) = ci_expectedWorkflowRevision input"
    "source_ready db input"
    and rc: "recheckTargets db input (readWorkflow (rh_rule_order H) (rd_workflow db) (rh_served H))
      (listFormReleases (rh_history_order H) (rd_releases db) (ci_formId input) None) (ci_targets input) = Inr approvals"
    and src: "case ci_source input of DraftSource _ \<Rightarrow> freeze db = Inr (db1, version) | VersionSource v _ \<Rightarrow> db1 = db \<and> version = v"
    and wr: "writeReleases H racing input (listFormReleases (rh_history_order H) (rd_releases db) (ci_formId input) None)
      approvals version now (ci_targets input) db1 = Inr (db2, written)"
    and res: "result = \<lparr>br_version = version, br_releases = written, br_replayed = False,
       br_froze = (case ci_source input of DraftSource _ \<Rightarrow> True | _ \<Rightarrow> False)\<rparr>"
    and "insertReleaseBatch [] (rd_batches db2) (batch_row input result now) = Inr batches"
    "db' = (writeAgentStep db2 (ci_agent input) (Some (rh_int_text H version)) now)\<lparr>rd_batches := batches\<rparr>"
    by (rule commit_new_parts [OF assms(1)])
  have result: "br_releases result = written" by (simp add: res)
  note eff = writeReleases_effect [OF wr]
  with assms(3) have "hr_environment h \<in> bt_environment ` set (ci_targets input)" by (metis image_eqI image_set result)
  then obtain target where target: "target \<in> set (ci_targets input)" "bt_environment target = hr_environment h" by auto
  have "rl_approvedBy (hr_row h) = opt_default None (map_of approvals (bt_environment target))"
    using eff assms(3) target(2) by (simp add: result)
  with recheck_each [OF rc assms(2) target(1)] target show ?thesis by auto
qed

text \<open>The whole call: a replay, or a new confirmation of distinct destinations.\<close>

lemma commit_cases:
  assumes "commitReleaseBatch H freeze racing db input now = Inr (result, db')"
  obtains (Replay) stored where "getReleaseBatch (rd_batches db) (ci_principalId input) (ci_formId input) (ci_idempotencyKey input) = Some stored"
      "rb_intentHash stored = ci_intentHash input" "result = (rb_result stored)\<lparr>br_replayed := True\<rparr>" "db' = db"
    | (New) "getReleaseBatch (rd_batches db) (ci_principalId input) (ci_formId input) (ci_idempotencyKey input) = None"
      "commit_new H freeze racing db input now = Inr (result, db')" "distinct (map bt_environment (ci_targets input))"
  using assms by (auto simp: commitReleaseBatch_def replay_def throw_simps first_duplicate_None split: option.splits if_splits)

text \<open>Sent again, a confirmation answers what it answered and writes nothing.\<close>

lemma commit_again:
  assumes "commitReleaseBatch H freeze racing db input now = Inr (result, db')"
    "getReleaseBatch (rd_batches db'') (ci_principalId input) (ci_formId input) (ci_idempotencyKey input) =
     getReleaseBatch (rd_batches db') (ci_principalId input) (ci_formId input) (ci_idempotencyKey input)"
    "form_by_id (rd_forms db'') (ci_formId input) \<noteq> None"
  shows "commitReleaseBatch H' freeze' racing' db'' input later = Inr (result\<lparr>br_replayed := True\<rparr>, db'')"
proof -
  from assms(1) have "distinct (map bt_environment (ci_targets input))"
    by (auto simp: commitReleaseBatch_def first_duplicate_None split: option.splits)
  moreover obtain stored where "getReleaseBatch (rd_batches db') (ci_principalId input) (ci_formId input) (ci_idempotencyKey input) = Some stored"
      "rb_intentHash stored = ci_intentHash input" "(rb_result stored)\<lparr>br_replayed := True\<rparr> = result\<lparr>br_replayed := True\<rparr>"
    using assms(1)
  proof (cases rule: commit_cases)
    case New
    from commit_effect(6) [OF New(2,3)] show ?thesis by (rule that) (simp_all add: batch_row_def)
  qed (use that in auto)
  ultimately show ?thesis
    using assms(2,3) by (auto simp: commitReleaseBatch_def replay_def first_duplicate_None [THEN iffD2])
qed

end

text \<open>Both sources keep the contract: a draft frozen in the transaction, and no draft at all.\<close>

lemma writeVersion_keeps:
  "writeVersion H landed fid frozen at_time account db = Inr (db', row) \<Longrightarrow> freezer_keeps db db'"
  by (auto simp: writeVersion_def throw_simps freezer_keeps_def set_drafts_def)

interpretation drafts: freezing "draft_freezer H landed fid frozen now account" for H landed fid frozen now account
  by unfold_locales (auto simp: draft_freezer_def throw_simps writeVersion_keeps)

interpretation versions: freezing "\<lambda>_. Inl InternalFault"
  by unfold_locales simp

end
