(* ===== verification/AdminSteps.thy ===== *)
theory AdminSteps
  imports FreezeFacts ConfirmFacts
begin

text \<open>
  Every handler that writes the registry, as one step on it, and the registries such steps
  reach. A step is a path of the abstract moves of \<^verbatim>\<open>RegistryLaws\<close>, so what the moves keep the
  handlers keep, whatever other requests did between the reads of a handler and its
  transaction.
\<close>

section \<open>Freezing and writing a version\<close>

lemma requireDefinition_decodes: "requireDefinition A value = Inr d \<Longrightarrow> FormDefinition (ah_decode A) value = Inr d"
  by (auto simp: requireDefinition_def parseFormDefinition_def ok_def err_def split: sum.splits)

lemma freezeDraft_parts:
  assumes "freezeDraft A db fid = Inr frozen"
  obtains form draft d where "form_by_id (rd_forms db) fid = Some form" "draft_of (rd_drafts db) fid = Some draft"
    "requireDefinition A (fd_definition draft) = Inr d" "formId d = fid" "dv_issues (validateDraft A db d []) = []"
    "dv_snapshot (validateDraft A db d []) = Some (fz_snapshot frozen)"
    "compileForm (fz_snapshot frozen) None = Some (fz_compiled frozen)" "fz_draftRevision frozen = fd_revision draft"
proof -
  from assms obtain form draft where at: "form_by_id (rd_forms db) fid = Some form" "draft_of (rd_drafts db) fid = Some draft"
    by (auto simp: freezeDraft_def split: option.splits)
  with assms obtain d where d: "requireDefinition A (fd_definition draft) = Inr d" "formId d = fid"
    by (auto simp: freezeDraft_def throw_simps)
  with assms at have verdict: "dv_issues (validateDraft A db d []) = []"
    by (auto simp: freezeDraft_def throw_simps Let_def split: if_splits)
  with assms at d obtain snap where snap: "dv_snapshot (validateDraft A db d []) = Some snap"
    by (auto simp: freezeDraft_def throw_simps Let_def split: option.splits)
  with assms at d verdict obtain compiled where "compileForm snap None = Some compiled"
      "frozen = \<lparr>fz_snapshot = snap, fz_compiled = compiled, fz_draftRevision = fd_revision draft\<rparr>"
    by (auto simp: freezeDraft_def throw_simps Let_def split: option.splits)
  with at d verdict snap show ?thesis by (intro that) auto
qed

lemma freezeDraft_sound:
  assumes "ordering_law (ah_version_order A)" "question_keyed (rd_questionVersions db)" "freezeDraft A db fid = Inr frozen"
  shows "version_sound A (rd_questionVersions db) (version_input (ah_release A) fid frozen published by)"
proof -
  obtain form draft d where "form_by_id (rd_forms db) fid = Some form" "draft_of (rd_drafts db) fid = Some draft"
    and d: "requireDefinition A (fd_definition draft) = Inr d" "formId d = fid"
    and "dv_issues (validateDraft A db d []) = []"
    and snap: "dv_snapshot (validateDraft A db d []) = Some (fz_snapshot frozen)"
      "compileForm (fz_snapshot frozen) None = Some (fz_compiled frozen)"
    and "fz_draftRevision frozen = fd_revision draft"
    by (rule freezeDraft_parts [OF assms(3)])
  from snap(1) obtain out where out: "compileDraft (ah_compiles_u A) (ah_compiles_v A) (gated_draft A db d) = Inr out"
      "out_snapshot out = fz_snapshot frozen" by (auto simp: validateDraft_snapshot)
  have "frozen_from A (gated_draft A db d) out (rd_questionVersions db) (version_input (ah_release A) fid frozen published by)"
    using out d snap requireDefinition_decodes [OF d(1)] validateDraft_records [OF assms(1,2) out(1)]
    by (auto simp: frozen_from_def version_input_def)
  then show ?thesis unfolding version_sound_def by blast
qed

lemma quiet_move:
  "rd_versions db' = rd_versions db \<Longrightarrow> rd_releases db' = rd_releases db \<Longrightarrow> rd_questionVersions db' = rd_questionVersions db \<Longrightarrow>
     rd_forms db' = rd_forms db \<Longrightarrow> registry_path A db db'"
  by (rule r_into_rtranclp, rule Quiet) auto

lemma writeVersion_path:
  assumes "writeVersion H landed fid frozen published by db = Inr (db', row)"
    "version_sound A (rd_questionVersions db) (version_input H fid frozen published by)"
  shows "registry_path A db db'" "rd_questionVersions db' = rd_questionVersions db"
    "version_at (rd_versions db') fid (fv_version row) \<noteq> None"
proof -
  from assms(1) obtain versions where
    ins: "insertFormVersion (rd_forms db) landed (rd_versions db) (version_input H fid frozen published by) = Inr (versions, row)"
    and db': "db' = set_drafts (deleteDraft (rd_drafts db) fid) (db\<lparr>rd_versions := versions\<rparr>)"
    by (auto simp: writeVersion_def throw_simps)
  note eff = insertFormVersion_effect [OF ins]
  have "registry_move A db (db\<lparr>rd_versions := versions\<rparr>)"
    by (rule Frozen [OF ins]) (use assms(2) in \<open>simp add: eff(2) version_sound_numbered\<close>)
  moreover have "registry_path A (db\<lparr>rd_versions := versions\<rparr>) db'" by (rule quiet_move) (simp_all add: db' set_drafts_def)
  ultimately show "registry_path A db db'" by (rule converse_rtranclp_into_rtranclp)
  show "rd_questionVersions db' = rd_questionVersions db" by (simp add: db' set_drafts_def)
  have "fv_formId row = fid" by (simp add: eff(2) version_input_def)
  then have "version_at [row] fid (fv_version row) = Some row" by (simp add: version_at_def)
  then show "version_at (rd_versions db') fid (fv_version row) \<noteq> None"
    by (auto simp: db' set_drafts_def eff(1) version_at_append split: option.splits)
qed

section \<open>Releasing\<close>

lemma enqueueInEnvironment_path: "registry_path A db (enqueueInEnvironment H db env ty payload now)"
  by (rule quiet_move) simp_all

lemma writeAgentStep_path: "registry_path A db (writeAgentStep db site detail now)"
  by (rule quiet_move) simp_all

lemma recordRelease_path:
  assumes "recordRelease H racing db i now = Inr (db', row)"
  shows "registry_path A db db'"
proof -
  from assms obtain rows where ins: "insertFormRelease (release_keys_of H db) racing (rd_releases db) i now = Inr (rows, row)"
    and db': "db' = enqueueInEnvironment H (db\<lparr>rd_releases := rows\<rparr>) (rl_environment row) FORM_RELEASED (released_payload H row) now"
    by (auto simp: recordRelease_def throw_simps)
  from Released [OF ins] enqueueInEnvironment_path show ?thesis unfolding db' by (rule converse_rtranclp_into_rtranclp)
qed

lemma writeReleases_path:
  "writeReleases H racing input releases approvals version now targets db = Inr (db', written) \<Longrightarrow> registry_path A db db'"
proof (induction targets arbitrary: db written)
  case (Cons target targets)
  then obtain db1 row rest where
    "recordRelease H racing db (target_release db input approvals version target) now = Inr (db1, row)"
    "writeReleases H racing input releases approvals version now targets db1 = Inr (db', rest)"
    by (auto simp: throw_simps)
  with recordRelease_path Cons.IH show ?case by (meson rtranclp_trans)
qed simp

lemma commit_path:
  assumes "commitReleaseBatch H freeze racing db input now = Inr (result, db')"
    "\<And>db1 v. freeze db = Inr (db1, v) \<Longrightarrow> registry_path A db db1" "freezing freeze"
  shows "registry_path A db db'"
proof (rule freezing.commit_cases [OF assms(3,1)])
  assume new: "commit_new H freeze racing db input now = Inr (result, db')"
  obtain approvals db1 version db2 written batches where
    "ew_revision (readWorkflow (rh_rule_order H) (rd_workflow db) (rh_served H)) = ci_expectedWorkflowRevision input"
    "source_ready db input"
    "recheckTargets db input (readWorkflow (rh_rule_order H) (rd_workflow db) (rh_served H))
      (listFormReleases (rh_history_order H) (rd_releases db) (ci_formId input) None) (ci_targets input) = Inr approvals"
    and src: "case ci_source input of DraftSource _ \<Rightarrow> freeze db = Inr (db1, version) | VersionSource v _ \<Rightarrow> db1 = db \<and> version = v"
    and wr: "writeReleases H racing input (listFormReleases (rh_history_order H) (rd_releases db) (ci_formId input) None)
      approvals version now (ci_targets input) db1 = Inr (db2, written)"
    and "result = \<lparr>br_version = version, br_releases = written, br_replayed = False,
       br_froze = (case ci_source input of DraftSource _ \<Rightarrow> True | _ \<Rightarrow> False)\<rparr>"
    "insertReleaseBatch [] (rd_batches db2) (batch_row input result now) = Inr batches"
    and db': "db' = (writeAgentStep db2 (ci_agent input) (Some (rh_int_text H version)) now)\<lparr>rd_batches := batches\<rparr>"
    by (rule commit_new_parts [OF new])
  have "registry_path A db db1" using src assms(2) by (cases "ci_source input") auto
  also have "registry_path A db1 db2" by (rule writeReleases_path [OF wr])
  also have "registry_path A db2 db'" by (rule quiet_move) (simp_all add: db')
  finally show ?thesis .
qed simp

section \<open>The requests\<close>

record admin_env =
  ae_control :: control_db
  ae_ledgers :: "string \<Rightarrow> answer_row list"
  ae_between :: "registry \<Rightarrow> registry"
  ae_forms :: "form_identity list"
  ae_versions :: "(form_id \<times> int) list"
  ae_releases :: "release_row list"
  ae_questions :: "question_row list"
  ae_questionVersions :: "(question_id \<times> int) list"
  ae_revisions :: "int list"
  ae_caller :: release_caller
  ae_site :: "AgentStepSite option"
  ae_now :: int

datatype admin_call =
    CreateForm create_form
  | PutDraft form_id jsval bool
  | UpdateSettings form_id form_settings
  | MoveForm form_id string
  | PublishForm form_id
  | PublishAndRelease form_id string
  | PublishBatch publish_batch
  | SetIntake form_id string bool
  | ReleaseVersion release_request
  | ReleaseBatch batch_request
  | WriteWorkflow workflow_write
  | CreateQuestion jsval string "string option"
  | MoveQuestion question_id string
  | CreateVersion string
  | EditVersion string string jsval
  | PublishVersion string string
  | DeprecateVersion string string

definition committed :: "('a \<Rightarrow> registry) \<Rightarrow> 'e + 'a \<Rightarrow> registry option" where
  "committed f m = (case m of Inl _ \<Rightarrow> None | Inr x \<Rightarrow> Some (f x))"

lemma committed_Some [throw_simps]: "committed f m = Some db \<longleftrightarrow> (\<exists>x. m = Inr x \<and> db = f x)"
  by (auto simp: committed_def split: sum.splits)

text \<open>The registry a request leaves, or none when it is refused.\<close>

fun admin_step ::
  "authoring_host \<Rightarrow> library_host \<Rightarrow> string list \<Rightarrow> admin_env \<Rightarrow> registry \<Rightarrow> admin_call \<Rightarrow> registry option" where
  "admin_step A L listed E db (CreateForm q) =
     committed id (createFormHandler A (ae_control E) (ae_forms E) db q (ae_site E) (ae_now E))"
| "admin_step A L listed E db (PutDraft fid value assisted) =
     committed snd (putDraft A db fid value assisted (ae_site E) (ae_now E))"
| "admin_step A L listed E db (UpdateSettings fid settings) =
     committed snd (updateSettings db fid settings (ae_site E) (ae_now E))"
| "admin_step A L listed E db (MoveForm fid w) = Some (db\<lparr>rd_forms := moveFormToWorkspace (rd_forms db) fid w\<rparr>)"
| "admin_step A L listed E db (PublishForm fid) =
     committed fst (publishForm A (ae_between E) (ae_versions E) db fid (rc_userId (ae_caller E)) (ae_now E))"
| "admin_step A L listed E db (PublishAndRelease fid env) =
     committed fst (publishAndRelease A (ae_between E) (ae_versions E) (ae_releases E) db (ae_caller E) fid env (ae_now E))"
| "admin_step A L listed E db (PublishBatch q) =
     committed snd (publishBatch A (ae_between E) (ae_versions E) (ae_releases E) db (ae_caller E) q (ae_site E) (ae_now E))"
| "admin_step A L listed E db (SetIntake fid env shut) =
     committed snd (setIntake (ah_release A) (ae_releases E) db (rc_userId (ae_caller E)) fid env shut (ae_site E) (ae_now E))"
| "admin_step A L listed E db (ReleaseVersion q) =
     committed snd (releaseVersion (ah_release A) (ae_between E) (ae_releases E) db q (ae_now E))"
| "admin_step A L listed E db (ReleaseBatch q) =
     committed snd (releaseBatch (ah_release A) (ae_between E) (ae_releases E) db (ae_caller E) q (ae_now E))"
| "admin_step A L listed E db (WriteWorkflow change) =
     committed snd (releaseWorkflowWrite (ah_release A) listed (ae_revisions E) db (rc_userId (ae_caller E)) change (ae_now E))"
| "admin_step A L listed E db (CreateQuestion value slug w) =
     committed fst (createQuestionHandler L (ae_control E) (ae_ledgers E) (ae_questions E) (ae_questionVersions E) db value slug w
       (ae_site E) (ae_now E))"
| "admin_step A L listed E db (MoveQuestion q w) = Some (db\<lparr>rd_questions := moveQuestionToWorkspace (rd_questions db) q w\<rparr>)"
| "admin_step A L listed E db (CreateVersion i) =
     committed fst (createVersion L (ae_questionVersions E) db i (ae_site E) (ae_now E))"
| "admin_step A L listed E db (EditVersion i v value) = committed fst (editVersion L db i v value (ae_site E) (ae_now E))"
| "admin_step A L listed E db (PublishVersion i v) = committed fst (publishVersion L db i v (ae_site E) (ae_now E))"
| "admin_step A L listed E db (DeprecateVersion i v) = committed fst (deprecateVersion L db i v (ae_site E) (ae_now E))"

section \<open>Each request is a path\<close>

lemma uncaught_Inr [throw_simps]: "uncaught m = Inr x \<longleftrightarrow> m = Inr x"
  by (auto simp: uncaught_def split: sum.splits)

lemma as_form_Inr [throw_simps]: "as_form m = Inr x \<longleftrightarrow> m = Inr x"
  by (auto simp: as_form_def split: sum.splits)

lemma question_fault_Inr [throw_simps]: "question_fault m = Inr x \<longleftrightarrow> m = Inr x"
  by (auto simp: question_fault_def split: sum.splits)

lemma forms_kept_update:
  "(\<And>r. fo_formId (f r) = fo_formId r) \<Longrightarrow> form_by_id forms fid = Some y \<Longrightarrow> \<exists>y. form_by_id (update_rows p f forms) fid = Some y"
  by (simp add: form_by_id_def find_update_rows)

lemma forms_kept_append: "form_by_id forms fid = Some y \<Longrightarrow> \<exists>y. form_by_id (forms @ extra) fid = Some y"
  by (auto simp: form_by_id_def find_in_append)

lemma createForm_forms: "createForm known landed forms fid slug w loc = Inr forms' \<Longrightarrow> \<exists>row. forms' = forms @ [row]"
  by (auto simp: createForm_def split: if_splits)

lemma createForm_path:
  "createFormHandler A G landed db q site now = Inr db' \<Longrightarrow> registry_path B db db'"
  by (rule r_into_rtranclp, rule Quiet)
     (auto simp: createFormHandler_def throw_simps set_drafts_def forms_kept_append dest!: createForm_forms
        split: sum.splits form_fault.splits)

lemma putDraft_path: "putDraft A db fid value assisted site now = Inr (answer, db') \<Longrightarrow> registry_path B db db'"
  by (rule quiet_move) (auto simp: putDraft_def throw_simps storeDraftDefinition_def set_drafts_def Let_def split: if_splits option.splits)

lemma updateSettings_path: "updateSettings db fid settings site now = Inr (row, db') \<Longrightarrow> registry_path B db db'"
  by (rule r_into_rtranclp, rule Quiet)
     (auto simp: updateSettings_def throw_simps updateFormSettings_def Let_def forms_kept_update split: option.splits)

lemma moveForm_path: "registry_path B db (db\<lparr>rd_forms := moveFormToWorkspace (rd_forms db) fid w\<rparr>)"
  by (rule r_into_rtranclp, rule Quiet) (auto simp: moveFormToWorkspace_def forms_kept_update)

text \<open>What was frozen from one registry is good in every later one.\<close>

lemma frozen_later:
  assumes "ordering_law (ah_version_order A)" "registry_sound A db" "registry_path A db db1" "freezeDraft A db fid = Inr frozen"
  shows "version_sound A (rd_questionVersions db1) (version_input (ah_release A) fid frozen published by)"
proof -
  have "version_sound A (rd_questionVersions db) (version_input (ah_release A) fid frozen published by)"
    by (rule freezeDraft_sound [OF assms(1) _ assms(4)]) (use assms(2) in \<open>simp add: registry_sound_def\<close>)
  moreover have "question_rows_grow (rd_questionVersions db) (rd_questionVersions db1)"
    using path_grows [OF assms(3)] by (simp add: registry_grows_def)
  ultimately show ?thesis by (rule version_sound_grows [rotated])
qed

lemma publishForm_path:
  assumes order: "ordering_law (ah_version_order A)" and sound: "registry_sound A db" and later: "registry_path A db (between db)"
    and step: "publishForm A between landed db fid account now = Inr (db', row)"
  shows "registry_path A db db'"
proof -
  from step obtain frozen where fz: "freezeDraft A db fid = Inr frozen"
    and wr: "writeVersion (ah_release A) landed fid frozen now account (between db) = Inr (db', row)"
    by (auto simp: publishForm_def throw_simps)
  from later writeVersion_path(1) [OF wr frozen_later [OF order sound later fz]] show ?thesis by (rule rtranclp_trans)
qed

lemma publishAndRelease_path:
  assumes order: "ordering_law (ah_version_order A)" and sound: "registry_sound A db" and later: "registry_path A db (between db)"
    and step: "publishAndRelease A between landed racing db caller fid env now = Inr (db', version, release)"
  shows "registry_path A db db'"
proof -
  from step obtain frozen approvedBy where fz: "freezeDraft A db fid = Inr frozen"
    and tx: "publish_release_tx (ah_release A) landed racing fid env (rc_userId caller) approvedBy frozen now (between db) =
      Inr (db', version, release)"
    by (auto simp: publishAndRelease_def Let_def throw_simps split: option.splits)
  from tx obtain db1 i where wr: "writeVersion (ah_release A) landed fid frozen now (rc_userId caller) (between db) = Inr (db1, version)"
    and rec: "recordRelease (ah_release A) racing db1 i now = Inr (db', release)"
    by (auto simp: publish_release_tx_def throw_simps)
  note later
  also note writeVersion_path(1) [OF wr frozen_later [OF order sound later fz]]
  also note recordRelease_path [OF rec]
  finally show ?thesis .
qed

lemma publishBatch_path:
  assumes order: "ordering_law (ah_version_order A)" and sound: "registry_sound A db" and later: "registry_path A db (between db)"
    and step: "publishBatch A between landed racing db caller q site now = Inr (result, db')"
  shows "registry_path A db db'"
proof -
  from step consider "db' = db" | frozen input where "freezeDraft A db (pb_form q) = Inr frozen"
      "commitReleaseBatch (ah_release A) (draft_freezer (ah_release A) landed (pb_form q) frozen now (rc_userId caller)) racing
        (between db) input now = Inr (result, db')"
    by (auto simp: publishBatch_def Let_def throw_simps split: option.splits)
  then show ?thesis
  proof cases
    case (2 frozen input)
    have "registry_path A (between db) db'"
    proof (rule commit_path [OF 2(2) _ drafts.freezing_axioms])
      fix db1 v assume "draft_freezer (ah_release A) landed (pb_form q) frozen now (rc_userId caller) (between db) = Inr (db1, v)"
      then obtain row where "writeVersion (ah_release A) landed (pb_form q) frozen now (rc_userId caller) (between db) = Inr (db1, row)"
        by (auto simp: draft_freezer_def throw_simps)
      then show "registry_path A (between db) db1" by (rule writeVersion_path(1) [OF _ frozen_later [OF order sound later 2(1)]])
    qed
    with later show ?thesis by (rule rtranclp_trans)
  qed simp
qed

lemma releaseVersion_path:
  assumes later: "registry_path A db (between db)"
    and step: "releaseVersion H between racing db q now = Inr (answer, db')"
  shows "registry_path A db db'"
proof -
  from step obtain i db1 row where "db1 = writeAgentStep (between db) (rr_agent q) (Some (rh_int_text H (rr_version q))) now"
    and rec: "recordRelease H racing db1 i now = Inr (db', row)"
    by (auto simp: releaseVersion_def release_version_tx_def Let_def throw_simps)
  then have "registry_path A (between db) db1" by (simp add: writeAgentStep_path)
  with later have "registry_path A db db1" by (rule rtranclp_trans)
  with recordRelease_path [OF rec] show ?thesis by (rule rtranclp_trans [rotated])
qed

lemma releaseBatch_path:
  assumes later: "registry_path A db (between db)"
    and step: "releaseBatch H between racing db caller q now = Inr (result, db')"
  shows "registry_path A db db'"
proof -
  from step obtain input where commit: "commitReleaseBatch H (\<lambda>_. Inl InternalFault) racing (between db) input now = Inr (result, db')"
    by (auto simp: releaseBatch_def throw_simps split: option.splits)
  have "registry_path A (between db) db'" by (rule commit_path [OF commit _ versions.freezing_axioms]) simp
  with later show ?thesis by (rule rtranclp_trans)
qed

lemma setClosed_release:
  "setClosedInEnvironment K racing rows fid env by shut now = Inr (rows', Some row) \<Longrightarrow>
     \<exists>i. insertFormRelease K racing rows i now = Inr (rows', row)"
  by (auto simp: setClosedInEnvironment_def throw_simps Let_def split: option.splits)

lemma setIntake_path:
  assumes "setIntake H racing db account fid env shut site now = Inr (row, db')"
  shows "registry_path A db db'"
proof -
  from assms obtain rows where "setClosedInEnvironment (release_keys_of H db) racing (rd_releases db) fid env account shut now = Inr (rows, Some row)"
    and db': "db' = writeAgentStep (db\<lparr>rd_releases := rows\<rparr>) site (Some env) now"
    by (auto simp: setIntake_def throw_simps closeFormInEnvironment_def reopenFormInEnvironment_def split: option.splits if_splits)
  then obtain i where "insertFormRelease (release_keys_of H db) racing (rd_releases db) i now = Inr (rows, row)"
    by (auto dest: setClosed_release)
  then have "registry_move A db (db\<lparr>rd_releases := rows\<rparr>)" by (rule Released)
  with writeAgentStep_path show ?thesis unfolding db' by (rule converse_rtranclp_into_rtranclp [rotated])
qed

lemma workflowWrite_path:
  "releaseWorkflowWrite H listed landed db actor change now = Inr (answer, db') \<Longrightarrow> registry_path A db db'"
  by (rule quiet_move) (auto simp: releaseWorkflowWrite_def workflow_write_tx_def throw_simps split: sum.splits db_fault.splits)

lemma moveQuestion_path: "registry_path A db (db\<lparr>rd_questions := questions\<rparr>)"
  by (rule quiet_move) simp_all

lemma drafted_path:
  assumes "createQuestionVersion questions racing (rd_questionVersions db) q d = Inr (rows, row)"
  shows "registry_path A db (db\<lparr>rd_questions := questions', rd_questionVersions := rows\<rparr>)"
proof -
  have "registry_move A db (db\<lparr>rd_questionVersions := rows\<rparr>)" by (rule Drafted [OF assms])
  moreover have "registry_path A (db\<lparr>rd_questionVersions := rows\<rparr>) (db\<lparr>rd_questions := questions', rd_questionVersions := rows\<rparr>)"
    by (rule quiet_move) simp_all
  ultimately show ?thesis by (rule converse_rtranclp_into_rtranclp)
qed

lemma createQuestion_path:
  assumes "createQuestionHandler L G ledgers landed racing db value slug w site now = Inr (db', row)"
  shows "registry_path A db db'"
proof -
  from assms obtain d w' db1 where "createQuestionWithFirstDraft landed racing db d slug w' now = Inr (db1, row)"
    and db': "db' = writeAgentStep db1 site (Some (questionId d)) now"
    by (cases "resolveWorkspaceForNewObject G w") (auto simp: createQuestionHandler_def throw_simps)
  then obtain questions rows where "createQuestionVersion questions racing (rd_questionVersions db) (questionId d) d = Inr (rows, row)"
    and db1: "db1 = db\<lparr>rd_questions := questions, rd_questionVersions := rows\<rparr>"
    by (auto simp: createQuestionWithFirstDraft_def throw_simps split: if_splits sum.splits db_fault.splits)
  then have "registry_path A db db1" by (simp add: drafted_path)
  then show ?thesis unfolding db' by (rule rtranclp_trans [OF _ writeAgentStep_path])
qed

lemma createVersion_path:
  assumes "createVersion L racing db i site now = Inr (db', row)"
  shows "registry_path A db db'"
proof -
  from assms obtain v where v: "requireQuestionId i = Inr v" by (auto simp: createVersion_def throw_simps)
  with assms obtain d rows where "createQuestionVersion (rd_questions db) racing (rd_questionVersions db) v d = Inr (rows, row)"
    and db': "db' = writeAgentStep (set_question_versions rows db) site (Some (rh_int_text (lh_release L) (qv_version row))) now"
    by (cases "listQuestionVersions (lh_version_order L) (rd_questionVersions db) v") (auto simp: createVersion_def throw_simps)
  from Drafted [OF this(1)] have "registry_move A db (set_question_versions rows db)" by (simp add: set_question_versions_def)
  with writeAgentStep_path show ?thesis unfolding db' by (rule converse_rtranclp_into_rtranclp [rotated])
qed

lemma version_act_path:
  assumes "version_act L db q v refusal change site now = Inr (db', row)"
    "\<And>current. getQuestionVersion (rd_questionVersions db) q v = Some current \<Longrightarrow> refusal (qv_status current) = None \<Longrightarrow>
       registry_move A db (set_question_versions (change (rd_questionVersions db)) db)"
  shows "registry_path A db db'"
proof -
  from assms(1) obtain current where "getQuestionVersion (rd_questionVersions db) q v = Some current" "refusal (qv_status current) = None"
    and db': "db' = writeAgentStep (set_question_versions (change (rd_questionVersions db)) db) site (Some (rh_int_text (lh_release L) v)) now"
    by (auto simp: version_act_def Let_def split: option.splits)
  from assms(2) [OF this(1,2)] writeAgentStep_path show ?thesis unfolding db' by (rule converse_rtranclp_into_rtranclp)
qed

lemma editVersion_path: "editVersion L db i t value site now = Inr (db', row) \<Longrightarrow> registry_path A db db'"
  by (auto simp: editVersion_def throw_simps elim!: version_act_path) (simp add: set_question_versions_def Edited)

lemma publishVersion_path: "publishVersion L db i t site now = Inr (db', row) \<Longrightarrow> registry_path A db db'"
  by (auto simp: publishVersion_def throw_simps elim!: version_act_path) (auto simp: set_question_versions_def intro!: Published split: if_splits)

lemma deprecateVersion_path: "deprecateVersion L db i t site now = Inr (db', row) \<Longrightarrow> registry_path A db db'"
  by (auto simp: deprecateVersion_def throw_simps elim!: version_act_path) (auto simp: set_question_versions_def intro!: Deprecated split: if_splits)

section \<open>Steps and runs\<close>

lemma admin_step_path:
  assumes "ordering_law (ah_version_order A)" "registry_sound A db" "registry_path A db (ae_between E db)"
    "admin_step A L listed E db q = Some db'"
  shows "registry_path A db db'"
proof (cases q)
  case (PublishForm fid)
  with assms(4) show ?thesis by (auto simp: throw_simps intro: publishForm_path [OF assms(1,2), where between = "ae_between E", OF assms(3)])
next
  case (PublishAndRelease fid env)
  with assms(4) show ?thesis by (auto simp: throw_simps intro: publishAndRelease_path [OF assms(1,2), where between = "ae_between E", OF assms(3)])
next
  case (PublishBatch q')
  with assms(4) show ?thesis by (auto simp: throw_simps intro: publishBatch_path [OF assms(1,2), where between = "ae_between E", OF assms(3)])
next
  case (ReleaseVersion q')
  with assms(4) show ?thesis by (auto simp: throw_simps intro: releaseVersion_path [where between = "ae_between E", OF assms(3)])
next
  case (ReleaseBatch q')
  with assms(4) show ?thesis by (auto simp: throw_simps intro: releaseBatch_path [where between = "ae_between E", OF assms(3)])
qed (use assms(4) in \<open>auto simp: throw_simps moveForm_path moveQuestion_path
  intro: createForm_path putDraft_path updateSettings_path setIntake_path workflowWrite_path createQuestion_path
    createVersion_path editVersion_path publishVersion_path deprecateVersion_path\<close>)

text \<open>A run: requests one after another, each with a run of others between its reads and its transaction.\<close>

inductive admin_run :: "authoring_host \<Rightarrow> library_host \<Rightarrow> string list \<Rightarrow> registry \<Rightarrow> registry \<Rightarrow> bool" for A L listed where
  Start: "admin_run A L listed db db"
| Step: "admin_run A L listed db0 db \<Longrightarrow> admin_run A L listed db (ae_between E db) \<Longrightarrow>
    admin_step A L listed E db q = Some db' \<Longrightarrow> admin_run A L listed db0 db'"

lemma admin_run_path:
  assumes "ordering_law (ah_version_order A)"
  shows "admin_run A L listed db0 db \<Longrightarrow> registry_sound A db0 \<Longrightarrow> registry_path A db0 db"
proof (induction rule: admin_run.induct)
  case (Step db0 db E q db')
  then have path: "registry_path A db0 db" and "registry_sound A db" using path_sound by blast+
  with Step.IH(2) have "registry_path A db (ae_between E db)" by blast
  from admin_step_path [OF assms \<open>registry_sound A db\<close> this Step(3)] path show ?case by (rule rtranclp_trans [rotated])
qed simp

lemma admin_run_sound:
  "ordering_law (ah_version_order A) \<Longrightarrow> admin_run A L listed db0 db \<Longrightarrow> registry_sound A db0 \<Longrightarrow> registry_sound A db"
  using admin_run_path path_sound by blast

definition empty_registry :: "registry \<Rightarrow> bool" where
  "empty_registry db \<longleftrightarrow> rd_versions db = [] \<and> rd_releases db = [] \<and> rd_questionVersions db = []"

lemma empty_sound: "empty_registry db \<Longrightarrow> registry_sound A db"
  by (simp add: empty_registry_def registry_sound_def question_keyed_def counted_def versions_of_def)

end
