(* ===== verification/Deliveries.thy ===== *)
theory Deliveries
  imports Outbox
begin

text \<open>
  \<^verbatim>\<open>packages/db/src/queries/deliveries.ts\<close> and \<^verbatim>\<open>webhooks.ts\<close>: the endpoints of a form, and one
  row for each event and endpoint with its own retry, dead-letter and cancellation state.
\<close>

section \<open>Endpoints\<close>

record webhook_row =
  wh_webhookId :: string
  wh_formId :: string
  wh_url :: string
  wh_secretEncrypted :: string
  wh_active :: bool
  wh_createdAt :: int
  wh_updatedAt :: int
  wh_deactivatedAt :: "int option"

definition insertWebhook ::
  "webhook_row list \<Rightarrow> string \<Rightarrow> string \<Rightarrow> string \<Rightarrow> string \<Rightarrow> bool option \<Rightarrow> int \<Rightarrow> webhook_row list option" where
  "insertWebhook rows webhookId fid url secret active now =
    (if webhookId \<in> wh_webhookId ` set rows then None
     else Some (rows @ [\<lparr>wh_webhookId = webhookId, wh_formId = fid, wh_url = url, wh_secretEncrypted = secret,
       wh_active = opt_default True active, wh_createdAt = now, wh_updatedAt = now, wh_deactivatedAt = None\<rparr>]))"

definition listWebhooks :: "(webhook_row list \<Rightarrow> webhook_row list) \<Rightarrow> webhook_row list \<Rightarrow> string \<Rightarrow> webhook_row list" where
  "listWebhooks arrange rows fid = arrange (filter (\<lambda>r. wh_formId r = fid) rows)"

definition in_form :: "string \<Rightarrow> string \<Rightarrow> webhook_row \<Rightarrow> bool" where
  "in_form fid webhookId r \<longleftrightarrow> wh_webhookId r = webhookId \<and> wh_formId r = fid"

definition getWebhook :: "webhook_row list \<Rightarrow> string \<Rightarrow> string \<Rightarrow> webhook_row option" where
  "getWebhook rows fid webhookId = List.find (in_form fid webhookId) rows"

record webhook_patch =
  wp_url :: "string option"
  wp_secretEncrypted :: "string option"
  wp_active :: "bool option"
  wp_deactivatedAt :: "int option option"
  wp_now :: int

definition patched :: "webhook_patch \<Rightarrow> webhook_row \<Rightarrow> webhook_row" where
  "patched p r = r\<lparr>wh_url := opt_default (wh_url r) (wp_url p),
     wh_secretEncrypted := opt_default (wh_secretEncrypted r) (wp_secretEncrypted p),
     wh_active := opt_default (wh_active r) (wp_active p),
     wh_deactivatedAt := opt_default (wh_deactivatedAt r) (wp_deactivatedAt p), wh_updatedAt := wp_now p\<rparr>"

definition updateWebhook ::
  "webhook_row list \<Rightarrow> string \<Rightarrow> string \<Rightarrow> webhook_patch \<Rightarrow> webhook_row list \<times> webhook_row option" where
  "updateWebhook rows fid webhookId p = update_row (in_form fid webhookId) (patched p) rows"

definition deactivateWebhook ::
  "webhook_row list \<Rightarrow> string \<Rightarrow> string \<Rightarrow> int \<Rightarrow> webhook_row list \<times> webhook_row option" where
  "deactivateWebhook rows fid webhookId now = update_row (in_form fid webhookId)
     (\<lambda>r. r\<lparr>wh_active := False, wh_deactivatedAt := Some now, wh_updatedAt := now\<rparr>) rows"

section \<open>Deliveries\<close>

record delivery_attempt =
  da_at :: int
  da_status :: "int option"
  da_latencyMs :: int
  da_requestHeaders :: "(string \<times> string) list option"
  da_responseSnippet :: "string option"

record delivery_row =
  dv_id :: nat
  dv_outboxId :: nat
  dv_webhookId :: string
  dv_attempts :: int
  dv_nextAttemptAt :: int
  dv_deliveredAt :: "int option"
  dv_deadLetteredAt :: "int option"
  dv_lastError :: "string option"
  dv_lastAttemptAt :: "int option"
  dv_lastStatus :: "int option"
  dv_lastLatencyMs :: "int option"
  dv_lastRequestHeaders :: "(string \<times> string) list option"
  dv_lastResponseSnippet :: "string option"
  dv_snippetRedactedAt :: "int option"
  dv_createdAt :: int
  dv_cancelledAt :: "int option"
  dv_cancelledReason :: "string option"

record delivery_table =
  dt_rows :: "delivery_row list"
  dt_draws :: nat

definition DELIVERY_CANCELLED_SESSION_ERASED :: string where
  "DELIVERY_CANCELLED_SESSION_ERASED = ''session_erased''"

definition DEFAULT_RESPONSE_SNIPPET_RETENTION_MS :: int where
  "DEFAULT_RESPONSE_SNIPPET_RETENTION_MS = 7 * 24 * 60 * 60 * 1000"

definition responseSnippetRedactionColumns :: "int \<Rightarrow> delivery_row \<Rightarrow> delivery_row" where
  "responseSnippetRedactionColumns now r = r\<lparr>dv_lastResponseSnippet := None, dv_snippetRedactedAt := Some now\<rparr>"

definition snippet_aged :: "int \<Rightarrow> delivery_row \<Rightarrow> bool" where
  "snippet_aged olderThan r \<longleftrightarrow> dv_lastResponseSnippet r \<noteq> None \<and>
     (case dv_lastAttemptAt r of None \<Rightarrow> False | Some t \<Rightarrow> t < olderThan)"

definition redactAgedResponseSnippets :: "int \<Rightarrow> int \<Rightarrow> delivery_row list \<Rightarrow> delivery_row list \<times> nat" where
  "redactAgedResponseSnippets olderThan now rows =
    (map (\<lambda>r. if snippet_aged olderThan r then responseSnippetRedactionColumns now r else r) rows,
     length (filter (snippet_aged olderThan) rows))"

definition new_delivery :: "nat \<Rightarrow> nat \<Rightarrow> string \<Rightarrow> int \<Rightarrow> int \<Rightarrow> delivery_row" where
  "new_delivery i outboxId webhookId nextAttemptAt now =
     \<lparr>dv_id = i, dv_outboxId = outboxId, dv_webhookId = webhookId, dv_attempts = 0, dv_nextAttemptAt = nextAttemptAt,
      dv_deliveredAt = None, dv_deadLetteredAt = None, dv_lastError = None, dv_lastAttemptAt = None,
      dv_lastStatus = None, dv_lastLatencyMs = None, dv_lastRequestHeaders = None, dv_lastResponseSnippet = None,
      dv_snippetRedactedAt = None, dv_createdAt = now, dv_cancelledAt = None, dv_cancelledReason = None\<rparr>"

text \<open>\<^verbatim>\<open>on conflict do nothing\<close>; a conflicting insert draws its id all the same.\<close>

definition insertDelivery ::
  "uuid_source \<Rightarrow> delivery_table \<Rightarrow> nat \<Rightarrow> string \<Rightarrow> int \<Rightarrow> int \<Rightarrow> delivery_table" where
  "insertDelivery uuid t outboxId webhookId at_ms now =
    (if list_ex (\<lambda>r. dv_outboxId r = outboxId \<and> dv_webhookId r = webhookId) (dt_rows t)
     then t\<lparr>dt_draws := dt_draws t + 1\<rparr>
     else t\<lparr>dt_rows := dt_rows t @ [new_delivery (uuid (dt_draws t)) outboxId webhookId at_ms now],
            dt_draws := dt_draws t + 1\<rparr>)"

section \<open>The claim\<close>

record due_delivery =
  du_deliveryId :: nat
  du_attempts :: int
  du_outboxId :: nat
  du_eventType :: string
  du_payload :: jsval
  du_webhookId :: string
  du_url :: string
  du_secretEncrypted :: string

text \<open>The inner joins: a delivery whose event or endpoint is missing has no row.\<close>

definition event_of :: "outbox_row list \<Rightarrow> delivery_row \<Rightarrow> outbox_row option" where
  "event_of events r = List.find (\<lambda>e. ob_id e = dv_outboxId r) events"

definition hook_of :: "webhook_row list \<Rightarrow> delivery_row \<Rightarrow> webhook_row option" where
  "hook_of hooks r = List.find (\<lambda>w. wh_webhookId w = dv_webhookId r) hooks"

definition delivery_open :: "delivery_row \<Rightarrow> bool" where
  "delivery_open r \<longleftrightarrow> dv_deliveredAt r = None \<and> dv_deadLetteredAt r = None \<and> dv_cancelledAt r = None"

definition claimable :: "outbox_row list \<Rightarrow> webhook_row list \<Rightarrow> int \<Rightarrow> delivery_row \<Rightarrow> bool" where
  "claimable events hooks now r \<longleftrightarrow> delivery_open r \<and> dv_nextAttemptAt r \<le> now \<and> hook_of hooks r \<noteq> None \<and>
     (case event_of events r of None \<Rightarrow> False | Some e \<Rightarrow> ob_payloadRedactedAt e = None)"

definition due_of :: "outbox_row list \<Rightarrow> webhook_row list \<Rightarrow> delivery_row \<Rightarrow> due_delivery option" where
  "due_of events hooks r = (case (event_of events r, hook_of hooks r) of
     (Some e, Some w) \<Rightarrow> Some \<lparr>du_deliveryId = dv_id r, du_attempts = dv_attempts r, du_outboxId = ob_id e,
        du_eventType = ob_eventType e, du_payload = ob_payload e, du_webhookId = wh_webhookId w, du_url = wh_url w,
        du_secretEncrypted = wh_secretEncrypted w\<rparr>
   | _ \<Rightarrow> None)"

definition claimDueDeliveries ::
  "(delivery_row list \<Rightarrow> delivery_row list) \<Rightarrow> nat list \<Rightarrow> outbox_row list \<Rightarrow> webhook_row list \<Rightarrow> delivery_row list \<Rightarrow>
     nat \<Rightarrow> int \<Rightarrow> due_delivery list" where
  "claimDueDeliveries arrange locked events hooks rows limit now =
     List.map_filter (due_of events hooks)
       (take limit (filter (\<lambda>r. dv_id r \<notin> set locked) (arrange (filter (claimable events hooks now) rows))))"

section \<open>Outcomes\<close>

definition attemptColumns :: "delivery_attempt option \<Rightarrow> delivery_row \<Rightarrow> delivery_row" where
  "attemptColumns attempt r = (case attempt of None \<Rightarrow> r
     | Some a \<Rightarrow> r\<lparr>dv_lastAttemptAt := Some (da_at a), dv_lastStatus := da_status a,
         dv_lastLatencyMs := Some (da_latencyMs a), dv_lastRequestHeaders := da_requestHeaders a,
         dv_lastResponseSnippet := da_responseSnippet a\<rparr>)"

definition delivery_done :: "int \<Rightarrow> delivery_attempt option \<Rightarrow> delivery_row \<Rightarrow> delivery_row" where
  "delivery_done now attempt r = attemptColumns attempt (r\<lparr>dv_deliveredAt := Some now\<rparr>)"

definition markDeliveryDelivered ::
  "delivery_row list \<Rightarrow> nat \<Rightarrow> int \<Rightarrow> delivery_attempt option \<Rightarrow> delivery_row list \<times> delivery_row option" where
  "markDeliveryDelivered rows i now attempt = update_row (\<lambda>r. dv_id r = i) (delivery_done now attempt) rows"

definition delivery_failed :: "string \<Rightarrow> int \<Rightarrow> delivery_attempt option \<Rightarrow> delivery_row \<Rightarrow> delivery_row" where
  "delivery_failed error now attempt r =
    (let attempts = dv_attempts r + 1; (nextAttemptAt, deadLetteredAt) = computeBackoff attempts now
     in attemptColumns attempt (r\<lparr>dv_attempts := attempts, dv_lastError := Some error,
          dv_nextAttemptAt := nextAttemptAt, dv_deadLetteredAt := deadLetteredAt\<rparr>))"

definition recordDeliveryFailure ::
  "delivery_row list \<Rightarrow> nat \<Rightarrow> string \<Rightarrow> int \<Rightarrow> delivery_attempt option \<Rightarrow> delivery_row list \<times> delivery_row option" where
  "recordDeliveryFailure rows i error now attempt =
     update_row (\<lambda>r. dv_id r = i) (delivery_failed error now attempt) rows"

section \<open>Views and redelivery\<close>

definition dead_letter_listed :: "outbox_row list \<Rightarrow> webhook_row list \<Rightarrow> delivery_row \<Rightarrow> bool" where
  "dead_letter_listed events hooks r \<longleftrightarrow> dv_deadLetteredAt r \<noteq> None \<and> dv_cancelledAt r = None \<and>
     hook_of hooks r \<noteq> None \<and> (case event_of events r of None \<Rightarrow> False | Some e \<Rightarrow> ob_payloadRedactedAt e = None)"

definition listDeadLetterDeliveries ::
  "(delivery_row list \<Rightarrow> delivery_row list) \<Rightarrow> outbox_row list \<Rightarrow> webhook_row list \<Rightarrow> delivery_row list \<Rightarrow>
     nat option \<Rightarrow> delivery_row list" where
  "listDeadLetterDeliveries arrange events hooks rows limit =
    (let base = arrange (filter (dead_letter_listed events hooks) rows)
     in case limit of None \<Rightarrow> base | Some n \<Rightarrow> take n base)"

definition inFormScope :: "webhook_row list \<Rightarrow> string \<Rightarrow> delivery_row \<Rightarrow> bool" where
  "inFormScope hooks fid r \<longleftrightarrow> list_ex (\<lambda>w. wh_formId w = fid \<and> wh_webhookId w = dv_webhookId r) hooks"

definition delivery_reset :: "int \<Rightarrow> delivery_row \<Rightarrow> delivery_row" where
  "delivery_reset now r = r\<lparr>dv_deadLetteredAt := None, dv_deliveredAt := None, dv_attempts := 0,
     dv_nextAttemptAt := now, dv_lastError := None, dv_lastAttemptAt := None, dv_lastStatus := None,
     dv_lastLatencyMs := None, dv_lastRequestHeaders := None, dv_lastResponseSnippet := None,
     dv_snippetRedactedAt := None\<rparr>"

definition resetDeliveryForRedelivery ::
  "webhook_row list \<Rightarrow> delivery_row list \<Rightarrow> string \<Rightarrow> nat \<Rightarrow> int \<Rightarrow> delivery_row list \<times> delivery_row option" where
  "resetDeliveryForRedelivery hooks rows fid i now =
     update_row (\<lambda>r. dv_id r = i \<and> inFormScope hooks fid r) (delivery_reset now) rows"

datatype RedeliveryRefusal = Cancelled | PayloadRedacted

definition redeliveryRefusalFor ::
  "outbox_row list \<Rightarrow> webhook_row list \<Rightarrow> delivery_row list \<Rightarrow> string \<Rightarrow> nat \<Rightarrow> RedeliveryRefusal option" where
  "redeliveryRefusalFor events hooks rows fid i =
    (case List.find (\<lambda>r. dv_id r = i \<and> inFormScope hooks fid r \<and> event_of events r \<noteq> None) rows of
       None \<Rightarrow> None
     | Some r \<Rightarrow> (case event_of events r of
         None \<Rightarrow> None
       | Some e \<Rightarrow> if dv_cancelledAt r \<noteq> None then Some Cancelled
           else if ob_payloadRedactedAt e \<noteq> None then Some PayloadRedacted else None))"

definition listRecentDeliveries ::
  "(delivery_row list \<Rightarrow> delivery_row list) \<Rightarrow> outbox_row list \<Rightarrow> webhook_row list \<Rightarrow> delivery_row list \<Rightarrow>
     string \<Rightarrow> nat \<Rightarrow> delivery_row list" where
  "listRecentDeliveries arrange events hooks rows fid limit =
     take limit (arrange (filter (\<lambda>r. event_of events r \<noteq> None \<and>
       (case hook_of hooks r of None \<Rightarrow> False | Some w \<Rightarrow> wh_formId w = fid)) rows))"

section \<open>The sweep of payloads\<close>

text \<open>\<^verbatim>\<open>noDeliveryStillMoving\<close>: no delivery of the event is unsettled or settled at the horizon or later.\<close>

definition delivery_moving :: "int \<Rightarrow> delivery_row \<Rightarrow> bool" where
  "delivery_moving olderThan r =
    (case settledAt [dv_deliveredAt r, dv_deadLetteredAt r, dv_cancelledAt r] of
       None \<Rightarrow> True | Some t \<Rightarrow> olderThan \<le> t)"

definition still_moving :: "delivery_row list \<Rightarrow> int \<Rightarrow> nat \<Rightarrow> bool" where
  "still_moving rows olderThan i \<longleftrightarrow> list_ex (\<lambda>r. dv_outboxId r = i \<and> delivery_moving olderThan r) rows"

definition redactAgedOutboxPayloads ::
  "(outbox_row list \<Rightarrow> outbox_row list) \<Rightarrow> delivery_row list \<Rightarrow> int \<Rightarrow> int \<Rightarrow> outbox_row list \<Rightarrow> outbox_row list \<times> nat" where
  "redactAgedOutboxPayloads arrange deliveries olderThan now rows =
     redact_aged arrange ANTI_JOIN_CANDIDATE_BUDGET (still_moving deliveries olderThan) olderThan now rows"

section \<open>Facts\<close>

lemma attemptColumns_frame [simp]:
  "dv_id (attemptColumns a r) = dv_id r" "dv_outboxId (attemptColumns a r) = dv_outboxId r"
  "dv_webhookId (attemptColumns a r) = dv_webhookId r" "dv_attempts (attemptColumns a r) = dv_attempts r"
  "dv_nextAttemptAt (attemptColumns a r) = dv_nextAttemptAt r"
  "dv_deliveredAt (attemptColumns a r) = dv_deliveredAt r"
  "dv_deadLetteredAt (attemptColumns a r) = dv_deadLetteredAt r"
  "dv_cancelledAt (attemptColumns a r) = dv_cancelledAt r"
  "dv_lastError (attemptColumns a r) = dv_lastError r"
  by (simp_all add: attemptColumns_def split: option.splits)

lemma delivery_done_simps [simp]:
  "dv_id (delivery_done now a r) = dv_id r" "dv_outboxId (delivery_done now a r) = dv_outboxId r"
  "dv_webhookId (delivery_done now a r) = dv_webhookId r" "dv_deliveredAt (delivery_done now a r) = Some now"
  "dv_deadLetteredAt (delivery_done now a r) = dv_deadLetteredAt r" "dv_cancelledAt (delivery_done now a r) = dv_cancelledAt r"
  "dv_attempts (delivery_done now a r) = dv_attempts r"
  by (simp_all add: delivery_done_def)

lemma delivery_failed_simps [simp]:
  "dv_id (delivery_failed e now a r) = dv_id r" "dv_outboxId (delivery_failed e now a r) = dv_outboxId r"
  "dv_webhookId (delivery_failed e now a r) = dv_webhookId r"
  "dv_deliveredAt (delivery_failed e now a r) = dv_deliveredAt r"
  "dv_cancelledAt (delivery_failed e now a r) = dv_cancelledAt r"
  "dv_attempts (delivery_failed e now a r) = dv_attempts r + 1"
  "dv_nextAttemptAt (delivery_failed e now a r) = now + backoffDelayMs (dv_attempts r + 1)"
  "dv_deadLetteredAt (delivery_failed e now a r) = (if OUTBOX_MAX_ATTEMPTS \<le> dv_attempts r + 1 then Some now else None)"
  by (simp_all add: delivery_failed_def computeBackoff_def Let_def)

lemma event_of_cong: "dv_outboxId r = dv_outboxId r' \<Longrightarrow> event_of es r = event_of es r'"
  by (simp add: event_of_def)

lemma hook_of_cong: "dv_webhookId r = dv_webhookId r' \<Longrightarrow> hook_of ws r = hook_of ws r'"
  by (simp add: hook_of_def)

lemma claimable_due: "claimable events hooks now r \<Longrightarrow> due_of events hooks r \<noteq> None"
  by (auto simp: claimable_def due_of_def split: option.splits)

end
