(* ===== verification/RosterLedger.thy ===== *)
theory RosterLedger
  imports ServerPrelude Ids
begin

text \<open>
  \<^verbatim>\<open>packages/db/src/queries/rosters.ts\<close>: the append-only ledger of the instances of
  repeating groups, and the two reads that fold it into what was minted and what is
  present. The table is a list of rows; a query with an order reads it through an argument
  that arranges rows by their time. A text column holds no NUL, so the key the code joins
  with one is the pair of its parts.
\<close>

section \<open>The table\<close>

datatype roster_event = Added | Removed

record roster_row =
  rr_sessionId :: string
  rr_groupId :: group_id
  rr_instanceId :: instance_id
  rr_event :: roster_event
  rr_opToken :: "string option"
  rr_occurredAt :: int

record group_roster =
  gr_minted :: "instance_id list"
  gr_present :: "instance_id list"

definition EMPTY_ROSTER :: group_roster where
  "EMPTY_ROSTER = \<lparr>gr_minted = [], gr_present = []\<rparr>"

text \<open>
  The statements run at \<^verbatim>\<open>now\<close>, the timestamp of their transaction. \<^term>\<open>None\<close> is the throw
  on a batch that repeats an id.
\<close>

definition roster_row_of ::
  "string \<Rightarrow> group_id \<Rightarrow> roster_event \<Rightarrow> string option \<Rightarrow> int \<Rightarrow> instance_id \<Rightarrow> roster_row" where
  "roster_row_of sessionId g event opToken now i =
     \<lparr>rr_sessionId = sessionId, rr_groupId = g, rr_instanceId = i, rr_event = event,
      rr_opToken = opToken, rr_occurredAt = now\<rparr>"

definition addInstances ::
  "roster_row list \<Rightarrow> string \<Rightarrow> group_id \<Rightarrow> instance_id list \<Rightarrow> string option \<Rightarrow> int \<Rightarrow> roster_row list option" where
  "addInstances table sessionId g instanceIds opToken now =
    (if instanceIds = [] then Some table
     else if length (dedup instanceIds) \<noteq> length instanceIds then None
     else Some (table @ map (roster_row_of sessionId g Added opToken now) instanceIds))"

definition removeInstance ::
  "roster_row list \<Rightarrow> string \<Rightarrow> group_id \<Rightarrow> instance_id \<Rightarrow> string option \<Rightarrow> int \<Rightarrow> roster_row list" where
  "removeInstance table sessionId g i opToken now =
     table @ [roster_row_of sessionId g Removed opToken now i]"

section \<open>The reads\<close>

record roster_orders =
  ro_ledger :: "roster_row list \<Rightarrow> roster_row list"
  ro_byGroup :: "roster_row list \<Rightarrow> roster_row list"
  ro_byTime :: "roster_row list \<Rightarrow> roster_row list"

definition in_time :: "roster_row list \<Rightarrow> bool" where
  "in_time rows \<longleftrightarrow> sorted (map rr_occurredAt rows)"

definition of_group :: "group_id \<Rightarrow> roster_row list \<Rightarrow> roster_row list" where
  "of_group g rows = filter (\<lambda>r. rr_groupId r = g) rows"

definition roster_order_laws :: "roster_orders \<Rightarrow> bool" where
  "roster_order_laws ro \<longleftrightarrow>
     ordering_law (ro_ledger ro) \<and> ordering_law (ro_byGroup ro) \<and> ordering_law (ro_byTime ro) \<and>
     (\<forall>rows. in_time (ro_ledger ro rows) \<and> in_time (ro_byTime ro rows) \<and>
        (\<forall>g. in_time (of_group g (ro_byGroup ro rows))))"

definition of_session :: "string \<Rightarrow> roster_row list \<Rightarrow> roster_row list" where
  "of_session sessionId table = filter (\<lambda>r. rr_sessionId r = sessionId) table"

definition rosterLedger :: "roster_orders \<Rightarrow> roster_row list \<Rightarrow> string \<Rightarrow> roster_row list" where
  "rosterLedger ro table sessionId = ro_ledger ro (of_session sessionId table)"

text \<open>The loop of \<^verbatim>\<open>readRoster\<close>: the ids in the order first added, and the latest event of each.\<close>

type_synonym roster_scan = "instance_id list \<times> (instance_id \<times> roster_event) list"

definition scan_row :: "roster_scan \<Rightarrow> roster_row \<Rightarrow> roster_scan" where
  "scan_row st row =
    (let (minted, latest) = st;
         minted' = (if rr_event row = Added \<and> map_of latest (rr_instanceId row) = None
                    then minted @ [rr_instanceId row] else minted)
     in (minted', AList.update (rr_instanceId row) (rr_event row) latest))"

definition roster_of_scan :: "roster_scan \<Rightarrow> group_roster" where
  "roster_of_scan st = \<lparr>gr_minted = fst st,
     gr_present = filter (\<lambda>i. map_of (snd st) i = Some Added) (fst st)\<rparr>"

definition readRoster :: "roster_orders \<Rightarrow> roster_row list \<Rightarrow> string \<Rightarrow> group_id \<Rightarrow> group_roster" where
  "readRoster ro table sessionId g =
    (let st = foldl scan_row ([], []) (ro_byTime ro (of_group g (of_session sessionId table)))
     in if fst st = [] then EMPTY_ROSTER else roster_of_scan st)"

text \<open>The loop of \<^verbatim>\<open>readRosters\<close>, over two maps keyed by group and by group and instance.\<close>

type_synonym rosters_scan = "(group_id \<times> instance_id list) list \<times> ((group_id \<times> instance_id) \<times> roster_event) list"

definition scan_rows :: "rosters_scan \<Rightarrow> roster_row \<Rightarrow> rosters_scan" where
  "scan_rows st row =
    (let (minted, latest) = st; g = rr_groupId row; i = rr_instanceId row;
         minted' = (if rr_event row = Added \<and> map_of latest (g, i) = None
                    then AList.update g (opt_default [] (map_of minted g) @ [i]) minted else minted)
     in (minted', AList.update (g, i) (rr_event row) latest))"

definition readRosters :: "roster_orders \<Rightarrow> roster_row list \<Rightarrow> string \<Rightarrow> (group_id \<times> group_roster) list" where
  "readRosters ro table sessionId =
    (let (minted, latest) = foldl scan_rows ([], []) (ro_byGroup ro (of_session sessionId table))
     in map (\<lambda>(g, instances). (g, \<lparr>gr_minted = instances,
          gr_present = filter (\<lambda>i. map_of latest (g, i) = Some Added) instances\<rparr>)) minted)"

definition rosterOpApplied :: "roster_row list \<Rightarrow> string \<Rightarrow> string \<Rightarrow> bool" where
  "rosterOpApplied table sessionId opToken =
     list_ex (\<lambda>r. rr_sessionId r = sessionId \<and> rr_opToken r = Some opToken) table"

section \<open>What any fold of the ledger is\<close>

text \<open>
  The scan of all groups, seen through one group, is the scan of that group: the two reads
  are one fold.
\<close>

fun views :: "group_id \<Rightarrow> rosters_scan \<Rightarrow> roster_scan \<Rightarrow> bool" where
  "views g (minted, latest) (ms, ls) \<longleftrightarrow>
     opt_default [] (map_of minted g) = ms \<and> (map_of minted g = None \<longleftrightarrow> ms = []) \<and>
     (\<forall>i. map_of latest (g, i) = map_of ls i)"

lemma views_step:
  assumes "views g st s"
  shows "views g (scan_rows st row) (if rr_groupId row = g then scan_row s row else s)"
proof -
  obtain minted latest ms ls where st: "st = (minted, latest)" "s = (ms, ls)" by (cases st; cases s)
  show ?thesis using assms by (auto simp: st scan_rows_def scan_row_def Let_def)
qed

lemma views_scan:
  assumes "views g st s"
  shows "views g (foldl scan_rows st rows) (foldl scan_row s (of_group g rows))"
  using assms
proof (induction rows arbitrary: st s)
  case (Cons row rows)
  from Cons.IH [OF views_step [OF Cons.prems, of row]] show ?case
    by (cases "rr_groupId row = g") (simp_all add: of_group_def)
qed (simp add: of_group_def)

lemma map_of_map_values:
  "map_of (map (\<lambda>(k, v). (k, F k v)) m) k = map_option (F k) (map_of m k)"
  by (induction m) auto

lemma readRosters_group:
  "opt_default EMPTY_ROSTER (map_of (readRosters ro table sessionId) g) =
     roster_of_scan (foldl scan_row ([], []) (of_group g (ro_byGroup ro (of_session sessionId table))))"
proof -
  obtain minted latest where st: "foldl scan_rows ([], []) (ro_byGroup ro (of_session sessionId table)) = (minted, latest)"
    by fastforce
  obtain ms ls where s: "foldl scan_row ([], []) (of_group g (ro_byGroup ro (of_session sessionId table))) = (ms, ls)"
    by fastforce
  have "views g ([], []) ([], [])" by simp
  from views_scan [OF this, of "ro_byGroup ro (of_session sessionId table)"]
  have v: "views g (minted, latest) (ms, ls)" by (simp add: st s)
  have "map_of (readRosters ro table sessionId) g = map_option (\<lambda>instances. \<lparr>gr_minted = instances,
      gr_present = filter (\<lambda>i. map_of latest (g, i) = Some Added) instances\<rparr>) (map_of minted g)"
    by (simp add: readRosters_def st Let_def map_of_map_values)
  with v show ?thesis
    by (cases "map_of minted g") (auto simp: s roster_of_scan_def EMPTY_ROSTER_def)
qed

lemma readRoster_scan:
  "readRoster ro table sessionId g =
     roster_of_scan (foldl scan_row ([], []) (ro_byTime ro (of_group g (of_session sessionId table))))"
  by (auto simp: readRoster_def Let_def roster_of_scan_def EMPTY_ROSTER_def)

text \<open>The fold keeps the ids apart, and knows every id it has seen.\<close>

definition scan_sound :: "roster_row list \<Rightarrow> roster_scan \<Rightarrow> bool" where
  "scan_sound seen st \<longleftrightarrow> distinct (fst st) \<and> set (fst st) \<subseteq> dom (map_of (snd st)) \<and>
     dom (map_of (snd st)) = rr_instanceId ` set seen"

lemma scan_row_sound: "scan_sound seen st \<Longrightarrow> scan_sound (seen @ [row]) (scan_row st row)"
  by (cases st) (auto simp: scan_sound_def scan_row_def Let_def domIff)

lemma fold_scan_sound: "scan_sound rows (foldl scan_row ([], []) rows)"
proof (induction rows rule: rev_induct)
  case (snoc row rows)
  from scan_row_sound [OF this, of row] show ?case by simp
qed (simp add: scan_sound_def)

section \<open>A ledger in causal order\<close>

text \<open>
  An instance is added once, and removed only after it was added. Of such a ledger both
  reads give the ids ever added and, of these, the ids never removed, whatever else the
  order of the query is.
\<close>

definition added_ids :: "roster_row list \<Rightarrow> instance_id set" where
  "added_ids rows = {i. \<exists>r \<in> set rows. rr_event r = Added \<and> rr_instanceId r = i}"

definition removed_ids :: "roster_row list \<Rightarrow> instance_id set" where
  "removed_ids rows = {i. \<exists>r \<in> set rows. rr_event r = Removed \<and> rr_instanceId r = i}"

definition ledger_ok :: "roster_row list \<Rightarrow> bool" where
  "ledger_ok rows \<longleftrightarrow>
     (\<forall>r \<in> set rows. rr_event r = Removed \<longrightarrow> (\<exists>a \<in> set rows. rr_event a = Added \<and>
        rr_instanceId a = rr_instanceId r \<and> rr_occurredAt a < rr_occurredAt r)) \<and>
     distinct (map rr_instanceId (filter (\<lambda>r. rr_event r = Added) rows))"

fun causal :: "roster_row list \<Rightarrow> roster_row list \<Rightarrow> bool" where
  "causal seen [] = True"
| "causal seen (r # rows) =
     ((case rr_event r of
         Added \<Rightarrow> rr_instanceId r \<notin> rr_instanceId ` set seen
       | Removed \<Rightarrow> rr_instanceId r \<in> added_ids seen) \<and> causal (r # seen) rows)"

definition scan_exact :: "roster_row list \<Rightarrow> roster_scan \<Rightarrow> bool" where
  "scan_exact seen st \<longleftrightarrow> set (fst st) = added_ids seen \<and>
     (\<forall>i. map_of (snd st) i = Some Added \<longleftrightarrow> i \<in> added_ids seen - removed_ids seen) \<and>
     dom (map_of (snd st)) = rr_instanceId ` set seen"

lemma added_ids_Cons: "added_ids (r # rows) = (if rr_event r = Added then insert (rr_instanceId r) (added_ids rows) else added_ids rows)"
  by (auto simp: added_ids_def)

lemma removed_ids_Cons: "removed_ids (r # rows) = (if rr_event r = Removed then insert (rr_instanceId r) (removed_ids rows) else removed_ids rows)"
  by (auto simp: removed_ids_def)

lemma scan_row_exact:
  assumes "scan_exact seen st" "causal seen [r]"
  shows "scan_exact (r # seen) (scan_row st r)"
proof -
  obtain minted latest where st: "st = (minted, latest)" by (cases st)
  have no_row: "i \<notin> rr_instanceId ` set seen \<Longrightarrow> map_of latest i = None \<and> i \<notin> removed_ids seen" for i
    using assms(1) by (auto simp: scan_exact_def st removed_ids_def)
  show ?thesis
  proof (cases "rr_event r")
    case Added
    with assms(2) no_row [of "rr_instanceId r"] assms(1) show ?thesis
      by (auto simp: scan_exact_def st scan_row_def Let_def added_ids_Cons removed_ids_Cons)
  next
    case Removed
    with assms show ?thesis
      by (auto simp: scan_exact_def st scan_row_def Let_def added_ids_Cons removed_ids_Cons)
  qed
qed

lemma scan_causal:
  assumes "causal seen rows" "scan_exact seen st"
  shows "scan_exact (rev rows @ seen) (foldl scan_row st rows)"
  using assms
proof (induction rows arbitrary: seen st)
  case (Cons r rows)
  then have "scan_exact (r # seen) (scan_row st r)" by (intro scan_row_exact) auto
  with Cons.IH [of "r # seen"] Cons.prems(1) show ?case by simp
qed simp

lemma in_time_causal:
  assumes "sorted (map rr_occurredAt (rev seen @ rows))"
    "distinct (map rr_instanceId (filter (\<lambda>r. rr_event r = Added) (rev seen @ rows)))"
    "\<And>r. r \<in> set rows \<Longrightarrow> rr_event r = Removed \<Longrightarrow> \<exists>a \<in> set (rev seen @ rows). rr_event a = Added \<and>
       rr_instanceId a = rr_instanceId r \<and> rr_occurredAt a < rr_occurredAt r"
    "removed_ids seen \<subseteq> added_ids seen"
  shows "causal seen rows"
  using assms
proof (induction rows arbitrary: seen)
  case (Cons r rows)
  have later: "rr_occurredAt r \<le> rr_occurredAt a" if "a \<in> set rows" for a
    using Cons.prems(1) that by (auto simp: sorted_append)
  have here: "case rr_event r of Added \<Rightarrow> rr_instanceId r \<notin> rr_instanceId ` set seen
      | Removed \<Rightarrow> rr_instanceId r \<in> added_ids seen"
  proof (cases "rr_event r")
    case Added
    then have "rr_instanceId r \<notin> added_ids seen"
      using Cons.prems(2) by (auto simp: added_ids_def) (metis (mono_tags, lifting) image_eqI mem_Collect_eq)
    with Cons.prems(4) have "rr_instanceId r \<notin> removed_ids seen" by blast
    then have "rr_instanceId r \<notin> rr_instanceId ` set seen"
      using \<open>rr_instanceId r \<notin> added_ids seen\<close> roster_event.exhaust
      by (auto simp: added_ids_def removed_ids_def) metis
    with Added show ?thesis by simp
  next
    case Removed
    with Cons.prems(3) [of r] obtain a where a: "a \<in> set (rev seen @ r # rows)" "rr_event a = Added"
      "rr_instanceId a = rr_instanceId r" "rr_occurredAt a < rr_occurredAt r" by auto
    with later have "a \<in> set seen" by fastforce
    with a Removed show ?thesis by (auto simp: added_ids_def)
  qed
  have "causal (r # seen) rows"
  proof (rule Cons.IH)
    show "removed_ids (r # seen) \<subseteq> added_ids (r # seen)"
      using Cons.prems(4) here by (auto simp: removed_ids_Cons added_ids_Cons)
  qed (use Cons.prems in auto)
  with here show ?case by simp
qed simp

lemma ledger_reads:
  assumes "ledger_ok rows" "mset arranged = mset rows" "in_time arranged"
  shows "set (gr_minted (roster_of_scan (foldl scan_row ([], []) arranged))) = added_ids rows"
    "set (gr_present (roster_of_scan (foldl scan_row ([], []) arranged))) = added_ids rows - removed_ids rows"
    "distinct (gr_minted (roster_of_scan (foldl scan_row ([], []) arranged)))"
    "distinct (gr_present (roster_of_scan (foldl scan_row ([], []) arranged)))"
proof -
  have rows: "set arranged = set rows" using assms(2) by (metis set_mset_mset)
  have "mset (map rr_instanceId (filter (\<lambda>r. rr_event r = Added) arranged)) =
      mset (map rr_instanceId (filter (\<lambda>r. rr_event r = Added) rows))"
    using assms(2) by simp
  then have "distinct (map rr_instanceId (filter (\<lambda>r. rr_event r = Added) arranged))"
    using assms(1) unfolding ledger_ok_def by (metis mset_eq_imp_distinct_iff)
  then have "causal [] arranged" using assms(1,3) unfolding ledger_ok_def in_time_def rows [symmetric]
    by (intro in_time_causal) (auto simp: removed_ids_def)
  from scan_causal [OF this, of "([], [])"]
  have exact: "scan_exact (rev arranged) (foldl scan_row ([], []) arranged)"
    by (simp add: scan_exact_def added_ids_def removed_ids_def)
  have ids: "added_ids (rev arranged) = added_ids rows" "removed_ids (rev arranged) = removed_ids rows"
    by (simp_all add: added_ids_def removed_ids_def rows)
  from exact show "set (gr_minted (roster_of_scan (foldl scan_row ([], []) arranged))) = added_ids rows"
    "set (gr_present (roster_of_scan (foldl scan_row ([], []) arranged))) = added_ids rows - removed_ids rows"
    by (auto simp: scan_exact_def roster_of_scan_def ids)
  from fold_scan_sound [of arranged]
  show "distinct (gr_minted (roster_of_scan (foldl scan_row ([], []) arranged)))"
    "distinct (gr_present (roster_of_scan (foldl scan_row ([], []) arranged)))"
    by (simp_all add: scan_sound_def roster_of_scan_def)
qed

text \<open>What both reads say of one group of one session.\<close>

definition group_rows :: "roster_row list \<Rightarrow> string \<Rightarrow> group_id \<Rightarrow> roster_row list" where
  "group_rows table sessionId g = of_group g (of_session sessionId table)"

definition roster_exact :: "roster_row list \<Rightarrow> group_roster \<Rightarrow> bool" where
  "roster_exact rows r \<longleftrightarrow> distinct (gr_minted r) \<and> distinct (gr_present r) \<and>
     set (gr_minted r) = added_ids rows \<and> set (gr_present r) = added_ids rows - removed_ids rows"

lemma readRoster_exact:
  assumes "roster_order_laws ro" "ledger_ok (group_rows table sessionId g)"
  shows "roster_exact (group_rows table sessionId g) (readRoster ro table sessionId g)"
  using ledger_reads [OF assms(2), of "ro_byTime ro (group_rows table sessionId g)"] assms(1)
  by (simp add: roster_exact_def readRoster_scan group_rows_def roster_order_laws_def ordering_law_def)

lemma readRosters_exact:
  assumes "roster_order_laws ro" "ledger_ok (group_rows table sessionId g)"
  shows "roster_exact (group_rows table sessionId g)
    (opt_default EMPTY_ROSTER (map_of (readRosters ro table sessionId) g))"
proof -
  let ?all = "ro_byGroup ro (of_session sessionId table)"
  have "mset (of_group g ?all) = mset (group_rows table sessionId g)"
    using assms(1) by (simp add: of_group_def group_rows_def roster_order_laws_def ordering_law_def)
  from ledger_reads [OF assms(2) this] assms(1) show ?thesis
    by (simp add: roster_exact_def readRosters_group roster_order_laws_def)
qed

end
