(* ===== verification/Rosters.thy ===== *)
theory Rosters
  imports RosterLedger EvaluateRules
begin

text \<open>
  \<^verbatim>\<open>apps/api/src/features/responses/roster.ts\<close>: which instances of a repeating group are
  live, when new ones are minted, and the two operations a respondent has on an open grp.
  The random source is a stream of sixteen-byte draws read from a position; a loop over it
  may not end, so what mints answers an option, \<^term>\<open>None\<close> being a call that throws or
  does not return. \<^verbatim>\<open>now\<close> is the timestamp of the transaction.
\<close>

section \<open>Fresh ids\<close>

type_synonym random_source = "nat \<Rightarrow> nat list"

definition id_hex_digit :: "nat \<Rightarrow> char" where
  "id_hex_digit n = (''0123456789abcdef'') ! (n mod 16)"

definition hex_byte :: "nat \<Rightarrow> string" where
  "hex_byte b = [id_hex_digit (b div 16), id_hex_digit b]"

definition newInstanceId :: "nat list \<Rightarrow> instance_id" where
  "newInstanceId bytes = ''ins_'' @ concat (map hex_byte bytes)"

partial_function (option) mint_loop ::
  "random_source \<Rightarrow> int \<Rightarrow> nat \<Rightarrow> instance_id list \<Rightarrow> instance_id list \<Rightarrow> (instance_id list \<times> nat) option" where
  "mint_loop rand wanted pos seen drawn =
    (if int (length drawn) < wanted then
       (let candidate = newInstanceId (rand pos)
        in if candidate \<in> set seen then mint_loop rand wanted (pos + 1) seen drawn
           else mint_loop rand wanted (pos + 1) (seen @ [candidate]) (drawn @ [candidate]))
     else Some (drawn, pos))"

definition mintDistinct ::
  "random_source \<Rightarrow> nat \<Rightarrow> int \<Rightarrow> instance_id list \<Rightarrow> (instance_id list \<times> nat) option" where
  "mintDistinct rand pos wanted taken = mint_loop rand wanted pos (dedup taken) []"

section \<open>Which instances are live\<close>

definition countAnswerOf :: "repeat_count \<Rightarrow> answer_map \<Rightarrow> int option" where
  "countAnswerOf c answers = (case c of
     FromAnswer q _ _ \<Rightarrow> (case answers q of Some (JNum (Fin x)) \<Rightarrow> Some (floor x) | _ \<Rightarrow> None)
   | _ \<Rightarrow> None)"

definition clamp :: "int \<Rightarrow> int \<Rightarrow> int option \<Rightarrow> int" where
  "clamp value mn mx = (let floored = max value mn in case mx of None \<Rightarrow> floored | Some m \<Rightarrow> min floored m)"

definition liveInstanceLimit :: "repeat_count \<Rightarrow> answer_map \<Rightarrow> int option" where
  "liveInstanceLimit c answers = (case c of
     OpenCount _ _ \<Rightarrow> None
   | Fixed n \<Rightarrow> Some n
   | FromAnswer _ _ _ \<Rightarrow> (case countAnswerOf c answers of
       None \<Rightarrow> Some 0
     | Some answered \<Rightarrow> Some (clamp answered (fst (countBounds c)) (snd (countBounds c)))))"

definition mintTarget :: "repeat_count \<Rightarrow> answer_map \<Rightarrow> int" where
  "mintTarget c answers = (case c of
     Fixed n \<Rightarrow> n
   | OpenCount mn _ \<Rightarrow> max mn 1
   | FromAnswer _ _ _ \<Rightarrow> opt_default 0 (liveInstanceLimit c answers))"

text \<open>\<^verbatim>\<open>xs.slice(0, limit)\<close>: a negative limit counts from the end.\<close>

definition slice_to :: "int \<Rightarrow> 'a list \<Rightarrow> 'a list" where
  "slice_to limit xs = (if limit < 0 then take (nat (int (length xs) + limit)) xs else take (nat limit) xs)"

definition liveInstances :: "repeat_count \<Rightarrow> group_roster option \<Rightarrow> answer_map \<Rightarrow> instance_id list" where
  "liveInstances c roster answers =
    (let present = dedup (case roster of None \<Rightarrow> [] | Some r \<Rightarrow> gr_present r)
     in case liveInstanceLimit c answers of None \<Rightarrow> present | Some limit \<Rightarrow> slice_to limit present)"

definition deriveRosters :: "step list \<Rightarrow> (group_id \<times> group_roster) list \<Rightarrow> answer_map \<Rightarrow> roster_map" where
  "deriveRosters steps stored answers =
     map_of (foldl (\<lambda>live g. AList.update (groupId g)
       (liveInstances (g_count g) (map_of stored (groupId g)) answers) live) [] (repeatGroups steps))"

definition loadRosters ::
  "roster_orders \<Rightarrow> roster_row list \<Rightarrow> string \<Rightarrow> step list \<Rightarrow> answer_map \<Rightarrow> roster_map" where
  "loadRosters ro table sessionId steps answers = deriveRosters steps (readRosters ro table sessionId) answers"

section \<open>Writes\<close>

record roster_state =
  rs_table :: "roster_row list"
  rs_draws :: nat

definition minted_of :: "group_roster option \<Rightarrow> instance_id list" where
  "minted_of roster = (case roster of None \<Rightarrow> [] | Some r \<Rightarrow> gr_minted r)"

text \<open>Draw as many fresh ids as are wanted and append their rows: the mint.\<close>

definition mint_into ::
  "random_source \<Rightarrow> roster_state \<Rightarrow> string \<Rightarrow> group_id \<Rightarrow> int \<Rightarrow> instance_id list \<Rightarrow> string option \<Rightarrow> int \<Rightarrow>
     (instance_id list \<times> roster_state) option" where
  "mint_into rand s sessionId g wanted taken opToken now =
     Option.bind (mintDistinct rand (rs_draws s) wanted taken) (\<lambda>(drawn, pos).
       Option.bind (addInstances (rs_table s) sessionId g drawn opToken now) (\<lambda>table.
         Some (drawn, s\<lparr>rs_table := table, rs_draws := pos\<rparr>)))"

definition mintForServedGroup ::
  "roster_orders \<Rightarrow> random_source \<Rightarrow> roster_state \<Rightarrow> string \<Rightarrow> repeat_group \<Rightarrow> group_roster option \<Rightarrow> answer_map \<Rightarrow>
     int \<Rightarrow> (instance_id list \<times> roster_state) option" where
  "mintForServedGroup ro rand s sessionId grp roster answers now =
    (let minted = minted_of roster;
         shortfall = mintTarget (g_count grp) answers - int (length minted)
     in if shortfall \<le> 0 then Some (liveInstances (g_count grp) roster answers, s)
        else Option.bind (mint_into rand s sessionId (groupId grp) shortfall minted None now) (\<lambda>(_, s').
          Some (liveInstances (g_count grp) (Some (readRoster ro (rs_table s') sessionId (groupId grp))) answers, s')))"

datatype RosterRefusalCode = REPEAT_NOT_ADDABLE | UNKNOWN_INSTANCE | REPEAT_MAX_REACHED

text \<open>Whether an open group may take one more instance, and the id it gets.\<close>

definition at_maximum :: "repeat_group \<Rightarrow> group_roster option \<Rightarrow> answer_map \<Rightarrow> bool" where
  "at_maximum grp roster answers = (case snd (countBounds (g_count grp)) of
     None \<Rightarrow> False
   | Some mx \<Rightarrow> mx \<le> int (length (liveInstances (g_count grp) roster answers)))"

fun is_open :: "repeat_count \<Rightarrow> bool" where
  "is_open (OpenCount _ _) = True"
| "is_open _ = False"

definition addRosterInstance ::
  "random_source \<Rightarrow> roster_state \<Rightarrow> string \<Rightarrow> repeat_group \<Rightarrow> group_roster option \<Rightarrow> answer_map \<Rightarrow> int \<Rightarrow>
     ((RosterRefusalCode + instance_id list) \<times> roster_state) option" where
  "addRosterInstance rand s sessionId grp roster answers now =
    (if \<not> is_open (g_count grp) then Some (Inl REPEAT_NOT_ADDABLE, s)
     else if at_maximum grp roster answers then Some (Inl REPEAT_MAX_REACHED, s)
     else Option.bind (mint_into rand s sessionId (groupId grp) 1 (minted_of roster) None now)
       (\<lambda>(drawn, s'). Some (Inr drawn, s')))"

definition removeRosterInstance ::
  "roster_state \<Rightarrow> string \<Rightarrow> group_id \<Rightarrow> instance_id \<Rightarrow> int \<Rightarrow> roster_state" where
  "removeRosterInstance s sessionId g i now = s\<lparr>rs_table := removeInstance (rs_table s) sessionId g i None now\<rparr>"

definition groupsOwedAMint ::
  "roster_orders \<Rightarrow> roster_row list \<Rightarrow> string \<Rightarrow> step list \<Rightarrow> answer_map \<Rightarrow> group_id list" where
  "groupsOwedAMint ro table sessionId steps answers =
    (let rows = readRosters ro table sessionId
     in dedup (map groupId (filter (\<lambda>grp.
          let target = mintTarget (g_count grp) answers
          in 0 < target \<and> 0 < target - int (length (minted_of (map_of rows (groupId grp)))))
          (repeatGroups steps))))"

definition is_from_answer :: "repeat_count \<Rightarrow> bool" where
  "is_from_answer c = (case c of FromAnswer _ _ _ \<Rightarrow> True | _ \<Rightarrow> False)"

definition groups_on :: "step list \<Rightarrow> step_id option \<Rightarrow> group_id list" where
  "groups_on steps renderStep = map groupId (repeatGroups (filter (\<lambda>s. Some (stepId s) = renderStep) steps))"

text \<open>The loop over the groups of the form; the rosters are the ones read before it.\<close>

fun mint_due ::
  "random_source \<Rightarrow> string \<Rightarrow> (group_id \<times> group_roster) list \<Rightarrow> group_id list \<Rightarrow> answer_map \<Rightarrow> int \<Rightarrow>
     repeat_group list \<Rightarrow> roster_state \<Rightarrow> bool \<Rightarrow> (roster_state \<times> bool) option" where
  "mint_due rand sessionId rows onRenderStep answers now [] s minted = Some (s, minted)"
| "mint_due rand sessionId rows onRenderStep answers now (grp # groups) s minted =
    (if \<not> (is_from_answer (g_count grp) \<or> groupId grp \<in> set onRenderStep)
     then mint_due rand sessionId rows onRenderStep answers now groups s minted
     else let taken = minted_of (map_of rows (groupId grp));
              shortfall = mintTarget (g_count grp) answers - int (length taken)
          in if shortfall \<le> 0 then mint_due rand sessionId rows onRenderStep answers now groups s minted
             else Option.bind (mint_into rand s sessionId (groupId grp) shortfall taken None now)
               (\<lambda>(_, s'). mint_due rand sessionId rows onRenderStep answers now groups s' True))"

definition mintDueAndLoadRosters ::
  "roster_orders \<Rightarrow> random_source \<Rightarrow> roster_state \<Rightarrow> string \<Rightarrow> step list \<Rightarrow> step_id option \<Rightarrow> answer_map \<Rightarrow> int \<Rightarrow>
     (roster_map \<times> roster_state) option" where
  "mintDueAndLoadRosters ro rand s sessionId steps renderStep answers now =
    (let rows = readRosters ro (rs_table s) sessionId
     in Option.bind (mint_due rand sessionId rows (groups_on steps renderStep) answers now (repeatGroups steps) s False)
       (\<lambda>(s', minted). Some (deriveRosters steps
          (if minted then readRosters ro (rs_table s') sessionId else rows) answers, s')))"

datatype roster_op = OpAdd | OpRemove instance_id

record roster_op_ok =
  op_replayed :: bool
  op_minted :: "instance_id list"

definition applyRosterOp ::
  "random_source \<Rightarrow> roster_state \<Rightarrow> string \<Rightarrow> repeat_group \<Rightarrow> group_roster option \<Rightarrow> answer_map \<Rightarrow> string \<Rightarrow>
     roster_op \<Rightarrow> int \<Rightarrow> ((RosterRefusalCode + roster_op_ok) \<times> roster_state) option" where
  "applyRosterOp rand s sessionId grp roster answers opToken op now =
    (if rosterOpApplied (rs_table s) sessionId opToken
     then Some (Inr \<lparr>op_replayed = True, op_minted = []\<rparr>, s)
     else if \<not> is_open (g_count grp) then Some (Inl REPEAT_NOT_ADDABLE, s)
     else case op of
         OpRemove i \<Rightarrow>
           if i \<notin> set (minted_of roster) then Some (Inl UNKNOWN_INSTANCE, s)
           else Some (Inr \<lparr>op_replayed = False, op_minted = []\<rparr>,
                  s\<lparr>rs_table := removeInstance (rs_table s) sessionId (groupId grp) i (Some opToken) now\<rparr>)
       | OpAdd \<Rightarrow>
           if at_maximum grp roster answers then Some (Inl REPEAT_MAX_REACHED, s)
           else Option.bind (mint_into rand s sessionId (groupId grp) 1 (minted_of roster) (Some opToken) now)
             (\<lambda>(drawn, s'). Some (Inr \<lparr>op_replayed = False, op_minted = drawn\<rparr>, s')))"

end
