(* ===== verification/RosterFacts.thy ===== *)
theory RosterFacts
  imports Rosters Evaluation
begin

text \<open>
  What the roster operations keep: fresh ids that are distinct, new and well formed,
  whatever the random source draws, as long as it does not run dry; a ledger in which an
  instance is added once and removed only afterwards; and rosters the evaluator may trust.
\<close>

section \<open>Drawing ids\<close>

text \<open>
  The source gives sixteen bytes a draw. It is fair when, of the \<^verbatim>\<open>2^128\<close> ids there are, no
  set of fewer keeps every later draw inside it.
\<close>

definition ID_SPACE :: nat where
  "ID_SPACE = 2 ^ 128"

definition draw_law :: "random_source \<Rightarrow> bool" where
  "draw_law rand \<longleftrightarrow> (\<forall>n. length (rand n) = 16 \<and> (\<forall>b \<in> set (rand n). b < 256))"

definition fair_source :: "random_source \<Rightarrow> bool" where
  "fair_source rand \<longleftrightarrow> (\<forall>S pos. finite S \<and> card S < ID_SPACE \<longrightarrow> (\<exists>n \<ge> pos. newInstanceId (rand n) \<notin> S))"

lemma id_hex_digit_id: "id_char (id_hex_digit n)"
proof -
  have "list_all id_char ''0123456789abcdef''" by (simp add: id_char_def Let_def)
  moreover have "id_hex_digit n \<in> set ''0123456789abcdef''" unfolding id_hex_digit_def by (rule nth_mem) simp
  ultimately show ?thesis by (simp only: list_all_iff)
qed

lemma newInstanceId_valid:
  assumes "bytes \<noteq> []"
  shows "InstanceId (newInstanceId bytes)"
proof -
  have "list_all id_char (concat (map hex_byte bytes))"
    by (induction bytes) (simp_all add: hex_byte_def id_hex_digit_id)
  moreover have "concat (map hex_byte bytes) \<noteq> []" using assms by (cases bytes) (simp_all add: hex_byte_def)
  ultimately show ?thesis
    by (simp add: InstanceId_def idPattern_def newInstanceId_def)
qed

lemma drawn_id_valid:
  assumes "draw_law rand"
  shows "InstanceId (newInstanceId (rand n))"
proof (rule newInstanceId_valid)
  have "length (rand n) = 16" using assms by (simp add: draw_law_def)
  then show "rand n \<noteq> []" by auto
qed

lemma mint_loop_skip:
  assumes "int (length drawn) < wanted"
  shows "(\<And>m. pos \<le> m \<Longrightarrow> m < n \<Longrightarrow> newInstanceId (rand m) \<in> set seen) \<Longrightarrow> pos \<le> n \<Longrightarrow>
   mint_loop rand wanted pos seen drawn = mint_loop rand wanted n seen drawn"
proof (induction "n - pos" arbitrary: pos)
  case (Suc d)
  have "newInstanceId (rand pos) \<in> set seen" using Suc by simp
  with assms have "mint_loop rand wanted pos seen drawn = mint_loop rand wanted (pos + 1) seen drawn"
    by (simp add: mint_loop.simps [of rand wanted pos])
  also have "\<dots> = mint_loop rand wanted n seen drawn" using Suc by (intro Suc.hyps(1)) simp_all
  finally show ?case .
qed simp

lemma mint_loop_facts:
  assumes "mint_loop rand wanted pos seen drawn = Some (ids, pos')" "draw_law rand"
  shows "\<exists>new. ids = drawn @ new \<and> length new = nat (wanted - int (length drawn)) \<and> distinct new \<and>
    set new \<inter> set seen = {} \<and> list_all InstanceId new"
proof -
  let ?P = "\<lambda>rand wanted (pos :: nat) seen drawn (r :: instance_id list \<times> nat). draw_law rand \<longrightarrow>
    (\<exists>new. fst r = drawn @ new \<and> length new = nat (wanted - int (length drawn)) \<and> distinct new \<and>
      set new \<inter> set seen = {} \<and> list_all InstanceId new)"
  have "?P rand wanted pos seen drawn (ids, pos')"
  proof (rule mint_loop.raw_induct [where P = ?P, OF _ assms(1)], rule impI)
    fix loop and rand :: random_source and wanted pos seen drawn r
    assume IH: "\<And>rand wanted pos seen drawn y. loop rand wanted pos seen drawn = Some y \<Longrightarrow> ?P rand wanted pos seen drawn y"
      and step: "(if int (length drawn) < wanted
        then let candidate = newInstanceId (rand pos)
          in if candidate \<in> set seen then loop rand wanted (pos + 1) seen drawn
             else loop rand wanted (pos + 1) (seen @ [candidate]) (drawn @ [candidate])
        else Some (drawn, pos)) = Some r"
      and law: "draw_law rand"
    let ?c = "newInstanceId (rand pos)"
    show "\<exists>new. fst r = drawn @ new \<and> length new = nat (wanted - int (length drawn)) \<and> distinct new \<and>
        set new \<inter> set seen = {} \<and> list_all InstanceId new"
    proof (cases "int (length drawn) < wanted")
      case False
      with step show ?thesis by auto
    next
      case more: True
      show ?thesis
      proof (cases "?c \<in> set seen")
        case True
        with step more have "loop rand wanted (pos + 1) seen drawn = Some r" by (simp add: Let_def)
        from IH [OF this] law show ?thesis by blast
      next
        case False
        with step more have "loop rand wanted (pos + 1) (seen @ [?c]) (drawn @ [?c]) = Some r"
          by (simp add: Let_def)
        from IH [OF this] law obtain new where "fst r = (drawn @ [?c]) @ new"
          "length new = nat (wanted - int (length (drawn @ [?c])))" "distinct new" "set new \<inter> set (seen @ [?c]) = {}"
          "list_all InstanceId new" by blast
        with more False drawn_id_valid [OF law, of pos] show ?thesis by (intro exI [of _ "?c # new"]) auto
      qed
    qed
  qed
  with assms(2) show ?thesis by simp
qed

lemma mint_loop_total:
  assumes "fair_source rand"
  shows "card (set seen) + nat (wanted - int (length drawn)) \<le> ID_SPACE \<Longrightarrow>
    mint_loop rand wanted pos seen drawn \<noteq> None"
proof (induction "nat (wanted - int (length drawn))" arbitrary: pos seen drawn)
  case 0
  then show ?case by (simp add: mint_loop.simps [of rand wanted pos])
next
  case (Suc k)
  then have more: "int (length drawn) < wanted" by simp
  let ?free = "\<lambda>n. pos \<le> n \<and> newInstanceId (rand n) \<notin> set seen"
  have "card (set seen) < ID_SPACE" using Suc.hyps(2) Suc.prems by simp
  then have "\<exists>n. ?free n" using assms by (simp add: fair_source_def)
  then have n: "?free (LEAST n. ?free n)" by (rule LeastI_ex)
  define n where "n = (LEAST n. ?free n)"
  let ?c = "newInstanceId (rand n)"
  have "mint_loop rand wanted pos seen drawn = mint_loop rand wanted n seen drawn"
    using n not_less_Least [of _ ?free] unfolding n_def by (intro mint_loop_skip [OF more]) blast+
  also have "\<dots> = mint_loop rand wanted (n + 1) (seen @ [?c]) (drawn @ [?c])"
    using more n by (subst mint_loop.simps) (simp add: n_def Let_def)
  also have "\<dots> \<noteq> None"
  proof (rule Suc.hyps(1))
    show "k = nat (wanted - int (length (drawn @ [?c])))" using Suc.hyps(2) by simp
    have "card (set (seen @ [?c])) \<le> Suc (card (set seen))" by (simp add: card_insert_le_m1 card_insert_if)
    then show "card (set (seen @ [?c])) + nat (wanted - int (length (drawn @ [?c]))) \<le> ID_SPACE"
      using Suc.prems Suc.hyps(2) more by simp
  qed
  finally show ?case .
qed

lemma mintDistinct_facts:
  assumes "mintDistinct rand pos wanted taken = Some (ids, pos')" "draw_law rand"
  shows "length ids = nat wanted" "distinct ids" "set ids \<inter> set taken = {}" "list_all InstanceId ids"
  using mint_loop_facts [OF assms(1) [unfolded mintDistinct_def] assms(2)] by simp_all

lemma mintDistinct_total:
  assumes "fair_source rand" "card (set taken) + nat wanted \<le> ID_SPACE"
  shows "mintDistinct rand pos wanted taken \<noteq> None"
  unfolding mintDistinct_def using assms(2) by (intro mint_loop_total [OF assms(1)]) simp

section \<open>The ledger of a session\<close>

definition session_ok :: "string \<Rightarrow> roster_row list \<Rightarrow> bool" where
  "session_ok sessionId table \<longleftrightarrow> (\<forall>g. ledger_ok (group_rows table sessionId g)) \<and>
     (\<forall>r \<in> set (of_session sessionId table). InstanceId (rr_instanceId r))"

definition later_than :: "string \<Rightarrow> roster_row list \<Rightarrow> int \<Rightarrow> bool" where
  "later_than sessionId table now \<longleftrightarrow> (\<forall>r \<in> set (of_session sessionId table). rr_occurredAt r < now)"

lemma group_rows_append: "group_rows (t @ u) s g = group_rows t s g @ group_rows u s g"
  by (simp add: group_rows_def of_group_def of_session_def)

lemma group_rows_of:
  "group_rows (map (roster_row_of s g e tok now) ids) s' g' =
     (if s = s' \<and> g = g' then map (roster_row_of s g e tok now) ids else [])"
  by (induction ids) (simp_all add: group_rows_def of_group_def of_session_def roster_row_of_def)

lemma added_append: "added_ids (t @ u) = added_ids t \<union> added_ids u"
  by (auto simp: added_ids_def)

lemma removed_append: "removed_ids (t @ u) = removed_ids t \<union> removed_ids u"
  by (auto simp: removed_ids_def)

lemma ids_of_rows [simp]:
  "added_ids (map (roster_row_of s g Added tok now) ids) = set ids"
  "removed_ids (map (roster_row_of s g Added tok now) ids) = {}"
  "added_ids [roster_row_of s g Removed tok now i] = {}"
  "removed_ids [roster_row_of s g Removed tok now i] = {i}"
  by (auto simp: added_ids_def removed_ids_def roster_row_of_def)

lemma added_ids_image: "added_ids rows = rr_instanceId ` set (filter (\<lambda>r. rr_event r = Added) rows)"
  by (auto simp: added_ids_def)

lemma ledger_ok_add:
  assumes "ledger_ok rows" "distinct ids" "set ids \<inter> added_ids rows = {}"
  shows "ledger_ok (rows @ map (roster_row_of s g Added tok now) ids)"
proof -
  have "map rr_instanceId (filter (\<lambda>r. rr_event r = Added) (map (roster_row_of s g Added tok now) ids)) = ids"
    by (induction ids) (simp_all add: roster_row_of_def)
  with assms show ?thesis
    by (fastforce simp: ledger_ok_def added_ids_image roster_row_of_def)
qed

lemma ledger_ok_remove:
  assumes "ledger_ok rows" "i \<in> added_ids rows" "\<forall>r \<in> set rows. rr_occurredAt r < now"
  shows "ledger_ok (rows @ [roster_row_of s g Removed tok now i])"
  using assms by (fastforce simp: ledger_ok_def added_ids_def roster_row_of_def)

text \<open>A mint of new ids for one group: what it appends and what it leaves alone.\<close>

lemma group_rows_ids: "r \<in> set (of_session s t) \<longleftrightarrow> r \<in> set (group_rows t s (rr_groupId r))"
  by (simp add: group_rows_def of_group_def)

lemma session_ok_append:
  assumes "\<And>g. ledger_ok (group_rows (t @ u) s g)" "session_ok s t" "\<forall>r \<in> set u. InstanceId (rr_instanceId r)"
  shows "session_ok s (t @ u)"
  using assms by (auto simp: session_ok_def of_session_def)

definition rows_minted :: "string \<Rightarrow> group_id \<Rightarrow> string option \<Rightarrow> int \<Rightarrow> instance_id list \<Rightarrow> roster_row list" where
  "rows_minted s g tok now ids = map (roster_row_of s g Added tok now) ids"

lemma addInstances_distinct:
  "distinct ids \<Longrightarrow> addInstances t s g ids tok now = Some (t @ rows_minted s g tok now ids)"
  by (simp add: addInstances_def rows_minted_def)

lemma session_ok_mint:
  assumes "session_ok s t" "distinct ids" "set ids \<inter> added_ids (group_rows t s g) = {}" "list_all InstanceId ids"
  shows "session_ok s (t @ rows_minted s g tok now ids)"
proof (rule session_ok_append [OF _ assms(1)])
  fix g'
  have "ledger_ok (group_rows t s g')" for g' using assms(1) by (simp add: session_ok_def)
  then show "ledger_ok (group_rows (t @ rows_minted s g tok now ids) s g')"
    using ledger_ok_add [OF _ assms(2,3)]
    by (cases "g' = g") (simp_all add: group_rows_append group_rows_of rows_minted_def)
next
  show "\<forall>r \<in> set (rows_minted s g tok now ids). InstanceId (rr_instanceId r)"
    using assms(4) by (auto simp: rows_minted_def roster_row_of_def list_all_iff)
qed

lemma session_ok_remove:
  assumes "session_ok s t" "i \<in> added_ids (group_rows t s g)" "later_than s t now"
  shows "session_ok s (removeInstance t s g i tok now)"
  unfolding removeInstance_def
proof (rule session_ok_append [OF _ assms(1)])
  fix g'
  have "ledger_ok (group_rows t s g')" using assms(1) by (simp add: session_ok_def)
  moreover have "\<forall>r \<in> set (group_rows t s g). rr_occurredAt r < now"
    using assms(3) by (auto simp: later_than_def group_rows_def of_group_def)
  moreover have "group_rows [roster_row_of s g Removed tok now i] s g' =
      (if g' = g then [roster_row_of s g Removed tok now i] else [])"
    using group_rows_of [of s g Removed tok now "[i]" s g'] by auto
  ultimately show "ledger_ok (group_rows (t @ [roster_row_of s g Removed tok now i]) s g')"
    using assms(2) ledger_ok_remove by (cases "g' = g") (simp_all add: group_rows_append)
next
  from assms(2) obtain r where "r \<in> set (group_rows t s g)" "rr_instanceId r = i" by (auto simp: added_ids_def)
  then have "InstanceId i" using assms(1) by (auto simp: session_ok_def group_rows_def of_group_def)
  then show "\<forall>r \<in> set [roster_row_of s g Removed tok now i]. InstanceId (rr_instanceId r)"
    by (simp add: roster_row_of_def)
qed

lemma mint_into_facts:
  assumes "mint_into rand st s g wanted taken tok now = Some (ids, st')" "draw_law rand"
    "session_ok s (rs_table st)" "set taken = added_ids (group_rows (rs_table st) s g)"
  shows "\<exists>pos. st' = st\<lparr>rs_table := rs_table st @ rows_minted s g tok now ids, rs_draws := pos\<rparr>"
    "length ids = nat wanted" "distinct ids" "set ids \<inter> added_ids (group_rows (rs_table st) s g) = {}"
    "session_ok s (rs_table st @ rows_minted s g tok now ids)"
proof -
  obtain pos table where pos: "mintDistinct rand (rs_draws st) wanted taken = Some (ids, pos)"
    and st': "addInstances (rs_table st) s g ids tok now = Some table" "st' = st\<lparr>rs_table := table, rs_draws := pos\<rparr>"
    using assms(1) by (auto simp: mint_into_def split: Option.bind_splits)
  note ids = mintDistinct_facts [OF pos assms(2)]
  show "length ids = nat wanted" "distinct ids" by (rule ids)+
  show new: "set ids \<inter> added_ids (group_rows (rs_table st) s g) = {}" using ids(3) assms(4) by simp
  from st' addInstances_distinct [OF ids(2)]
  show "\<exists>pos. st' = st\<lparr>rs_table := rs_table st @ rows_minted s g tok now ids, rs_draws := pos\<rparr>" by auto
  show "session_ok s (rs_table st @ rows_minted s g tok now ids)"
    by (rule session_ok_mint [OF assms(3) ids(2) new ids(4)])
qed

lemma mint_into_total:
  assumes "fair_source rand" "draw_law rand" "card (set taken) + nat wanted \<le> ID_SPACE"
  shows "mint_into rand st s g wanted taken tok now \<noteq> None"
proof -
  obtain ids pos where ids: "mintDistinct rand (rs_draws st) wanted taken = Some (ids, pos)"
    using mintDistinct_total [OF assms(1,3), of "rs_draws st"] by auto
  then show ?thesis using addInstances_distinct [OF mintDistinct_facts(2) [OF ids assms(2)]]
    by (simp add: mint_into_def)
qed

section \<open>What the reads say in a sound session\<close>

abbreviation stored_roster :: "roster_orders \<Rightarrow> roster_row list \<Rightarrow> string \<Rightarrow> group_id \<Rightarrow> group_roster" where
  "stored_roster ro t s g \<equiv> opt_default EMPTY_ROSTER (map_of (readRosters ro t s) g)"

lemma stored_exact:
  assumes "roster_order_laws ro" "session_ok s t"
  shows "roster_exact (group_rows t s g) (stored_roster ro t s g)" "roster_exact (group_rows t s g) (readRoster ro t s g)"
  using readRosters_exact [OF assms(1)] readRoster_exact [OF assms(1)] assms(2) by (simp_all add: session_ok_def)

lemma minted_of_stored: "minted_of (map_of (readRosters ro t s) g) = gr_minted (stored_roster ro t s g)"
  by (cases "map_of (readRosters ro t s) g") (simp_all add: minted_of_def EMPTY_ROSTER_def)

lemma liveInstances_stored:
  "liveInstances c (map_of (readRosters ro t s) g) answers = liveInstances c (Some (stored_roster ro t s g)) answers"
  by (cases "map_of (readRosters ro t s) g") (simp_all add: liveInstances_def EMPTY_ROSTER_def)

lemma slice_to_take: "\<exists>n. slice_to limit xs = take n xs"
  by (auto simp: slice_to_def)

lemma liveInstances_sub:
  "distinct (liveInstances c (Some r) answers) \<and> set (liveInstances c (Some r) answers) \<subseteq> set (gr_present r)"
proof (cases "liveInstanceLimit c answers")
  case (Some limit)
  obtain n where "slice_to limit (dedup (gr_present r)) = take n (dedup (gr_present r))" using slice_to_take by blast
  with Some show ?thesis using set_take_subset by (fastforce simp: liveInstances_def)
qed (simp add: liveInstances_def)

lemma liveInstances_open:
  "distinct (gr_present r) \<Longrightarrow> liveInstances (OpenCount mn mx) (Some r) answers = gr_present r"
  by (simp add: liveInstances_def liveInstanceLimit_def)

lemma added_valid: "session_ok s t \<Longrightarrow> i \<in> added_ids (group_rows t s g) \<Longrightarrow> InstanceId i"
  by (auto simp: session_ok_def added_ids_def group_rows_def of_group_def)

lemma map_of_fold_update:
  "map_of (foldl (\<lambda>live g. AList.update (k g) (F g) live) m gs) x = Some v \<Longrightarrow>
   map_of m x = Some v \<or> (\<exists>g \<in> set gs. k g = x \<and> v = F g)"
  by (induction gs arbitrary: m) (fastforce split: if_splits)+

text \<open>The rosters handed to the evaluator are distinct lists of well-formed ids.\<close>

lemma loaded_rosters_valid:
  assumes "roster_order_laws ro" "session_ok s t"
  shows "valid_rosters (rosterOf (loadRosters ro t s steps answers))"
    "distinct (rosterOf (loadRosters ro t s steps answers) g)"
proof -
  have live: "distinct is \<and> (\<forall>i \<in> set is. InstanceId i)"
    if "loadRosters ro t s steps answers g = Some is" for g "is"
  proof -
    from map_of_fold_update [OF that [unfolded loadRosters_def deriveRosters_def]] obtain c where
      "is = liveInstances c (Some (stored_roster ro t s g)) answers"
      by (auto simp: liveInstances_stored)
    with liveInstances_sub [of c "stored_roster ro t s g" answers] stored_exact(1) [OF assms, of g]
      added_valid [OF assms(2)] show ?thesis unfolding roster_exact_def by blast
  qed
  then show "valid_rosters (rosterOf (loadRosters ro t s steps answers))"
    unfolding valid_rosters_def rosterOf_def list_all_iff
    by (metis empty_iff list.set(1) opt_default_simps not_None_eq)
  show "distinct (rosterOf (loadRosters ro t s steps answers) g)"
    using live by (cases "loadRosters ro t s steps answers g") (simp_all add: rosterOf_def)
qed

section \<open>Serving a step\<close>

definition due :: "group_id list \<Rightarrow> repeat_group \<Rightarrow> bool" where
  "due on grp \<longleftrightarrow> is_from_answer (g_count grp) \<or> groupId grp \<in> set on"

definition target_met :: "answer_map \<Rightarrow> repeat_group \<Rightarrow> roster_row list \<Rightarrow> bool" where
  "target_met answers grp rows \<longleftrightarrow> mintTarget (g_count grp) answers \<le> int (card (added_ids rows))"

definition only_mints :: "string \<Rightarrow> int \<Rightarrow> group_id set \<Rightarrow> roster_row list \<Rightarrow> bool" where
  "only_mints s now gs u \<longleftrightarrow> (\<forall>r \<in> set u. rr_sessionId r = s \<and> rr_groupId r \<in> gs \<and> rr_event r = Added \<and>
     rr_occurredAt r = now \<and> rr_opToken r = None)"

lemma only_mints_other: "only_mints s now gs u \<Longrightarrow> g \<notin> gs \<Longrightarrow> group_rows u s g = []"
  by (auto simp: only_mints_def group_rows_def of_group_def of_session_def filter_empty_conv)

lemma only_mints_minted: "g \<in> gs \<Longrightarrow> only_mints s now gs (rows_minted s g None now ids)"
  by (auto simp: only_mints_def rows_minted_def roster_row_of_def)

lemma only_mints_mono: "only_mints s now gs u \<Longrightarrow> gs \<subseteq> hs \<Longrightarrow> only_mints s now hs u"
  by (auto simp: only_mints_def)

lemma only_mints_append: "only_mints s now gs (u @ v) \<longleftrightarrow> only_mints s now gs u \<and> only_mints s now gs v"
  by (auto simp: only_mints_def)

lemma taken_exact:
  assumes "roster_order_laws ro" "session_ok s t"
  shows "set (minted_of (map_of (readRosters ro t s) g)) = added_ids (group_rows t s g)"
    "length (minted_of (map_of (readRosters ro t s) g)) = card (added_ids (group_rows t s g))"
proof -
  from stored_exact(1) [OF assms, of g]
  have "distinct (gr_minted (stored_roster ro t s g))" and
    ids: "set (gr_minted (stored_roster ro t s g)) = added_ids (group_rows t s g)"
    by (simp_all add: roster_exact_def)
  from distinct_card [OF this(1)] ids
  show "set (minted_of (map_of (readRosters ro t s) g)) = added_ids (group_rows t s g)"
    "length (minted_of (map_of (readRosters ro t s) g)) = card (added_ids (group_rows t s g))"
    by (simp_all add: minted_of_stored)
qed

lemma mint_due_nothing:
  assumes "\<And>grp. grp \<in> set gs \<Longrightarrow> due on grp \<Longrightarrow>
    mintTarget (g_count grp) answers \<le> int (length (minted_of (map_of rows (groupId grp))))"
  shows "mint_due rand s rows on answers now gs st b = Some (st, b)"
  using assms by (induction gs) (simp_all add: due_def Let_def)

lemma mint_due_facts:
  assumes "draw_law rand" "roster_order_laws ro" "session_ok s t" "rows = readRosters ro t s"
  shows "mint_due rand s rows on answers now gs st b = Some (st', b') \<Longrightarrow>
    distinct (map groupId gs) \<Longrightarrow> session_ok s (rs_table st) \<Longrightarrow>
    \<forall>grp \<in> set gs. group_rows (rs_table st) s (groupId grp) = group_rows t s (groupId grp) \<Longrightarrow>
    \<exists>u. rs_table st' = rs_table st @ u \<and>
      session_ok s (rs_table st') \<and> only_mints s now (groupId ` set gs) u \<and> (b' \<longleftrightarrow> b \<or> u \<noteq> []) \<and>
      (\<forall>grp \<in> set gs. due on grp \<longrightarrow> target_met answers grp (group_rows (rs_table st') s (groupId grp)))"
proof (induction gs arbitrary: st b)
  case Nil
  then show ?case by (intro exI [of _ "[]"]) (simp add: only_mints_def)
next
  case (Cons grp gs)
  let ?g = "groupId grp" and ?n = "mintTarget (g_count grp) answers"
  have same: "group_rows (rs_table st) s ?g = group_rows t s ?g" using Cons.prems(4) by simp
  have taken: "set (minted_of (map_of rows ?g)) = added_ids (group_rows (rs_table st) s ?g)"
    "length (minted_of (map_of rows ?g)) = card (added_ids (group_rows (rs_table st) s ?g))"
    using taken_exact [OF assms(2,3)] assms(4) same by simp_all
  note distinct = Cons.prems(2)
  show ?case
  proof (cases "due on grp \<and> int (card (added_ids (group_rows (rs_table st) s ?g))) < ?n")
    case False
    then have "mint_due rand s rows on answers now gs st b = Some (st', b')"
      using Cons.prems(1) taken(2) by (auto simp: due_def Let_def split: if_splits)
    from Cons.IH [OF this] Cons.prems obtain u where IH:
      "rs_table st' = rs_table st @ u" "session_ok s (rs_table st')" "only_mints s now (groupId ` set gs) u"
      "b' \<longleftrightarrow> b \<or> u \<noteq> []"
      "\<forall>grp \<in> set gs. due on grp \<longrightarrow> target_met answers grp (group_rows (rs_table st') s (groupId grp))"
      by auto
    have "group_rows (rs_table st') s ?g = group_rows (rs_table st) s ?g"
      using only_mints_other [OF IH(3), of ?g] distinct by (simp add: IH(1) group_rows_append)
    then have "due on grp \<longrightarrow> target_met answers grp (group_rows (rs_table st') s ?g)"
      using False by (auto simp: target_met_def)
    with IH only_mints_mono [OF IH(3), of "groupId ` set (grp # gs)"] show ?thesis
      by (intro exI [of _ u]) auto
  next
    case True
    let ?m = "?n - int (card (added_ids (group_rows (rs_table st) s ?g)))"
    obtain ids st1 where into: "mint_into rand st s ?g ?m (minted_of (map_of rows ?g)) None now = Some (ids, st1)"
      and rest: "mint_due rand s rows on answers now gs st1 True = Some (st', b')"
      using True taken(2) Cons.prems(1) by (auto simp: due_def Let_def bind_eq_Some_conv split: if_splits)
    note ids = mint_into_facts [OF into assms(1) Cons.prems(3) taken(1)]
    have st1: "rs_table st1 = rs_table st @ rows_minted s ?g None now ids" using ids(1) by auto
    have others: "\<forall>g' \<in> set gs. group_rows (rs_table st1) s (groupId g') = group_rows t s (groupId g')"
      using Cons.prems(4) distinct by (auto simp: st1 group_rows_append group_rows_of rows_minted_def)
    obtain u where IH: "rs_table st' = rs_table st1 @ u" "session_ok s (rs_table st')"
      "only_mints s now (groupId ` set gs) u" "b'"
      "\<forall>grp \<in> set gs. due on grp \<longrightarrow> target_met answers grp (group_rows (rs_table st') s (groupId grp))"
      using Cons.IH [OF rest] distinct ids(5) others by (auto simp: st1)
    have "group_rows (rs_table st') s ?g = group_rows (rs_table st) s ?g @ rows_minted s ?g None now ids"
      using only_mints_other [OF IH(3), of ?g] distinct
      by (simp add: IH(1) st1 group_rows_append group_rows_of rows_minted_def)
    then have "added_ids (group_rows (rs_table st') s ?g) = added_ids (group_rows (rs_table st) s ?g) \<union> set ids"
      by (simp add: added_append rows_minted_def)
    moreover have "finite (added_ids (group_rows (rs_table st) s ?g))" unfolding added_ids_image by simp
    ultimately have "card (added_ids (group_rows (rs_table st') s ?g)) =
        card (added_ids (group_rows (rs_table st) s ?g)) + nat ?m"
      using ids(2-4) by (simp add: card_Un_disjoint distinct_card Int_commute)
    then have met: "target_met answers grp (group_rows (rs_table st') s ?g)" using True by (simp add: target_met_def)
    have "ids \<noteq> []" using ids(2) True by auto
    then have new: "rows_minted s ?g None now ids @ u \<noteq> []" by (simp add: rows_minted_def)
    have "only_mints s now (groupId ` set (grp # gs)) (rows_minted s ?g None now ids @ u)"
      using only_mints_minted [of ?g "groupId ` set (grp # gs)"] only_mints_mono [OF IH(3), of "groupId ` set (grp # gs)"]
      by (auto simp: only_mints_append)
    with IH met new st1 show ?thesis
      by (intro exI [of _ "rows_minted s ?g None now ids @ u"]) auto
  qed
qed

lemma mint_due_total:
  assumes "fair_source rand" "draw_law rand" "roster_order_laws ro" "session_ok s t" "rows = readRosters ro t s"
  shows "\<forall>grp \<in> set gs. mintTarget (g_count grp) answers \<le> int ID_SPACE \<Longrightarrow>
    mint_due rand s rows on answers now gs st b \<noteq> None"
proof (induction gs arbitrary: st b)
  case (Cons grp gs)
  let ?taken = "minted_of (map_of rows (groupId grp))" and ?n = "mintTarget (g_count grp) answers"
  have "card (set ?taken) = length ?taken" using taken_exact [OF assms(3,4)] assms(5) by simp
  moreover have "?n \<le> int ID_SPACE" using Cons.prems by simp
  ultimately have room: "card (set ?taken) + nat (?n - int (length ?taken)) \<le> ID_SPACE"
    if "0 < ?n - int (length ?taken)" using that by linarith
  show ?case
  proof (cases "due on grp \<and> 0 < ?n - int (length ?taken)")
    case True
    then obtain ids st1 where "mint_into rand st s (groupId grp) (?n - int (length ?taken)) ?taken None now = Some (ids, st1)"
      using mint_into_total [OF assms(1,2) room, of st s "groupId grp" None now] by force
    with True Cons show ?thesis by (auto simp: due_def Let_def)
  qed (use Cons in \<open>auto simp: due_def Let_def\<close>)
qed simp

text \<open>Serving a step mints what is owed, and answers the rosters of the table it leaves.\<close>

lemma mintDue_facts:
  assumes "draw_law rand" "roster_order_laws ro" "session_ok s (rs_table st)" "distinct (map groupId (repeatGroups steps))"
    "mintDueAndLoadRosters ro rand st s steps renderStep answers now = Some (live, st')"
  obtains u where "live = loadRosters ro (rs_table st') s steps answers"
    "rs_table st' = rs_table st @ u" "session_ok s (rs_table st')"
    "only_mints s now (groupId ` set (repeatGroups steps)) u"
    "\<And>grp. grp \<in> set (repeatGroups steps) \<Longrightarrow> due (groups_on steps renderStep) grp \<Longrightarrow>
      target_met answers grp (group_rows (rs_table st') s (groupId grp))"
proof -
  obtain b' where run: "mint_due rand s (readRosters ro (rs_table st) s) (groups_on steps renderStep) answers now
      (repeatGroups steps) st False = Some (st', b')"
    and live: "live = deriveRosters steps (if b' then readRosters ro (rs_table st') s else readRosters ro (rs_table st) s) answers"
    using assms(5) by (auto simp: mintDueAndLoadRosters_def Let_def bind_eq_Some_conv)
  obtain u where r: "rs_table st' = rs_table st @ u" "session_ok s (rs_table st')"
    "only_mints s now (groupId ` set (repeatGroups steps)) u" "b' \<longleftrightarrow> u \<noteq> []"
    "\<forall>grp \<in> set (repeatGroups steps). due (groups_on steps renderStep) grp \<longrightarrow>
      target_met answers grp (group_rows (rs_table st') s (groupId grp))"
    using mint_due_facts [OF assms(1-3) refl run assms(4,3)] by auto
  have "(if b' then readRosters ro (rs_table st') s else readRosters ro (rs_table st) s) = readRosters ro (rs_table st') s"
    using r(1,4) by auto
  with r that [of u] show thesis by (simp add: live loadRosters_def)
qed

lemma mintDue_total:
  assumes "fair_source rand" "draw_law rand" "roster_order_laws ro" "session_ok s (rs_table st)"
    "\<forall>grp \<in> set (repeatGroups steps). mintTarget (g_count grp) answers \<le> int ID_SPACE"
  shows "mintDueAndLoadRosters ro rand st s steps renderStep answers now \<noteq> None"
  using mint_due_total [OF assms(1-4) refl assms(5), of "groups_on steps renderStep" now st False]
  by (auto simp: mintDueAndLoadRosters_def Let_def)

lemma mintDue_again:
  assumes "roster_order_laws ro" "session_ok s (rs_table st)"
    "\<And>grp. grp \<in> set (repeatGroups steps) \<Longrightarrow> due (groups_on steps renderStep) grp \<Longrightarrow>
      target_met answers grp (group_rows (rs_table st) s (groupId grp))"
  shows "mintDueAndLoadRosters ro rand st s steps renderStep answers now =
    Some (loadRosters ro (rs_table st) s steps answers, st)"
proof -
  have "mint_due rand s (readRosters ro (rs_table st) s) (groups_on steps renderStep) answers now
      (repeatGroups steps) st False = Some (st, False)"
    using assms(3) taken_exact(2) [OF assms(1,2)] by (intro mint_due_nothing) (simp add: target_met_def)
  then show ?thesis by (simp add: mintDueAndLoadRosters_def Let_def loadRosters_def)
qed

section \<open>Operations of a respondent\<close>

lemma rosterOpApplied_append:
  "rosterOpApplied (t @ u) s tok \<longleftrightarrow> rosterOpApplied t s tok \<or> rosterOpApplied u s tok"
  by (simp add: rosterOpApplied_def)

lemma op_add:
  assumes "draw_law rand" "roster_order_laws ro" "session_ok s (rs_table st)"
    "applyRosterOp rand st s grp (Some (readRoster ro (rs_table st) s (groupId grp))) answers tok OpAdd now = Some (outcome, st')"
    "is_open (g_count grp)" "\<not> rosterOpApplied (rs_table st) s tok"
    "\<not> at_maximum grp (Some (readRoster ro (rs_table st) s (groupId grp))) answers"
  obtains i where "outcome = Inr \<lparr>op_replayed = False, op_minted = [i]\<rparr>"
    "rs_table st' = rs_table st @ rows_minted s (groupId grp) (Some tok) now [i]"
    "i \<notin> added_ids (group_rows (rs_table st) s (groupId grp))" "session_ok s (rs_table st')"
proof -
  let ?r = "readRoster ro (rs_table st) s (groupId grp)"
  have taken: "set (minted_of (Some ?r)) = added_ids (group_rows (rs_table st) s (groupId grp))"
    using stored_exact(2) [OF assms(2,3)] by (simp add: minted_of_def roster_exact_def)
  obtain ids where into: "mint_into rand st s (groupId grp) 1 (minted_of (Some ?r)) (Some tok) now = Some (ids, st')"
    and outcome: "outcome = Inr \<lparr>op_replayed = False, op_minted = ids\<rparr>"
    using assms(4-7) by (auto simp: applyRosterOp_def bind_eq_Some_conv)
  note ids = mint_into_facts [OF into assms(1,3) taken]
  from ids(2) obtain i where "ids = [i]" by (auto simp: length_Suc_conv)
  with ids outcome that [of i] show thesis by auto
qed

lemma applyRosterOp_keeps:
  assumes "draw_law rand" "roster_order_laws ro" "session_ok s (rs_table st)" "later_than s (rs_table st) now"
    "applyRosterOp rand st s grp (Some (readRoster ro (rs_table st) s (groupId grp))) answers tok op now = Some (outcome, st')"
  shows "session_ok s (rs_table st')" "\<exists>u. rs_table st' = rs_table st @ u"
    "outcome = Inr ok' \<Longrightarrow> rosterOpApplied (rs_table st') s tok"
proof -
  have "session_ok s (rs_table st') \<and> (\<exists>u. rs_table st' = rs_table st @ u) \<and>
    ((\<exists>ok'. outcome = Inr ok') \<longrightarrow> rosterOpApplied (rs_table st') s tok)"
  proof (cases "rosterOpApplied (rs_table st) s tok \<or> \<not> is_open (g_count grp)")
    case True
    with assms(3,5) show ?thesis by (auto simp: applyRosterOp_def split: if_splits)
  next
    case False
    show ?thesis
    proof (cases op)
      case (OpRemove i)
      show ?thesis
      proof (cases "i \<in> set (minted_of (Some (readRoster ro (rs_table st) s (groupId grp))))")
        case True
        then have "i \<in> added_ids (group_rows (rs_table st) s (groupId grp))"
          using stored_exact(2) [OF assms(2,3)] by (simp add: minted_of_def roster_exact_def)
        from session_ok_remove [OF assms(3) this assms(4), of "Some tok"] True False OpRemove assms(5) show ?thesis
          by (auto simp: applyRosterOp_def removeInstance_def rosterOpApplied_def roster_row_of_def)
      qed (use False OpRemove assms(3,5) in \<open>auto simp: applyRosterOp_def\<close>)
    next
      case OpAdd
      show ?thesis
      proof (cases "at_maximum grp (Some (readRoster ro (rs_table st) s (groupId grp))) answers")
        case below: False
        have grp: "is_open (g_count grp)" "\<not> rosterOpApplied (rs_table st) s tok" using False by simp_all
        obtain i where "outcome = Inr \<lparr>op_replayed = False, op_minted = [i]\<rparr>"
          "rs_table st' = rs_table st @ rows_minted s (groupId grp) (Some tok) now [i]" "session_ok s (rs_table st')"
          by (rule op_add [OF assms(1-3) assms(5) [unfolded OpAdd] grp below])
        moreover have "rosterOpApplied (rs_table st @ rows_minted s (groupId grp) (Some tok) now [i]) s tok" for i
          by (simp add: rosterOpApplied_def rows_minted_def roster_row_of_def)
        ultimately show ?thesis by auto
      qed (use False OpAdd assms(3,5) in \<open>auto simp: applyRosterOp_def\<close>)
    qed
  qed
  then show "session_ok s (rs_table st')" "\<exists>u. rs_table st' = rs_table st @ u"
    "outcome = Inr ok' \<Longrightarrow> rosterOpApplied (rs_table st') s tok" by auto
qed

section \<open>The sessions that can come about\<close>

text \<open>
  What the handlers do to the ledger of one session under its lock: serve a step of some
  form with some answers, apply an operation at a time later than every row there is, and
  meanwhile the rows other sessions write.
\<close>

inductive roster_step ::
  "roster_orders \<Rightarrow> random_source \<Rightarrow> string \<Rightarrow> roster_state \<Rightarrow> roster_state \<Rightarrow> bool"
  for ro rand s where
  serve: "distinct (map groupId (repeatGroups steps)) \<Longrightarrow>
    mintDueAndLoadRosters ro rand st s steps renderStep answers now = Some (live, st') \<Longrightarrow>
    roster_step ro rand s st st'"
| operate: "later_than s (rs_table st) now \<Longrightarrow>
    applyRosterOp rand st s grp (Some (readRoster ro (rs_table st) s (groupId grp))) answers tok op now =
      Some (outcome, st') \<Longrightarrow>
    roster_step ro rand s st st'"
| elsewhere: "of_session s u = [] \<Longrightarrow>
    roster_step ro rand s st (st\<lparr>rs_table := rs_table st @ u, rs_draws := n\<rparr>)"

inductive roster_run :: "roster_orders \<Rightarrow> random_source \<Rightarrow> string \<Rightarrow> roster_state \<Rightarrow> roster_state \<Rightarrow> bool"
  for ro rand s where
  stay: "roster_run ro rand s st st"
| more: "roster_run ro rand s st st' \<Longrightarrow> roster_step ro rand s st' st'' \<Longrightarrow> roster_run ro rand s st st''"

definition roster_reachable :: "roster_orders \<Rightarrow> random_source \<Rightarrow> string \<Rightarrow> roster_state \<Rightarrow> bool" where
  "roster_reachable ro rand s st \<longleftrightarrow> (\<exists>st0. of_session s (rs_table st0) = [] \<and> roster_run ro rand s st0 st)"

lemma session_ok_elsewhere: "of_session s u = [] \<Longrightarrow> session_ok s (t @ u) = session_ok s t"
  by (auto simp: session_ok_def group_rows_def of_group_def of_session_def)

lemma roster_step_keeps:
  assumes "draw_law rand" "roster_order_laws ro" "session_ok s (rs_table st)" "roster_step ro rand s st st'"
  shows "session_ok s (rs_table st')" "\<exists>u. rs_table st' = rs_table st @ u"
proof -
  have "session_ok s (rs_table st') \<and> (\<exists>u. rs_table st' = rs_table st @ u)"
    using assms(4)
  proof cases
    case (serve steps renderStep answers now live)
    obtain u where "rs_table st' = rs_table st @ u" "session_ok s (rs_table st')"
      by (rule mintDue_facts [OF assms(1-3) serve])
    then show ?thesis by blast
  next
    case (operate now grp answers tok op outcome)
    from applyRosterOp_keeps [OF assms(1-3) operate] show ?thesis by blast
  next
    case (elsewhere u n)
    then have "rs_table st' = rs_table st @ u" by simp
    with assms(3) session_ok_elsewhere [OF elsewhere(2)] show ?thesis by simp
  qed
  then show "session_ok s (rs_table st')" "\<exists>u. rs_table st' = rs_table st @ u" by blast+
qed

lemma roster_run_keeps:
  assumes "draw_law rand" "roster_order_laws ro" "roster_run ro rand s st st'" "session_ok s (rs_table st)"
  shows "session_ok s (rs_table st') \<and> (\<exists>u. rs_table st' = rs_table st @ u)"
  using assms(3,4)
proof induction
  case (more st st' st'')
  then have mid: "session_ok s (rs_table st')" "\<exists>u. rs_table st' = rs_table st @ u" by auto
  from roster_step_keeps [OF assms(1,2) mid(1) more.hyps(2)] mid(2) show ?case by auto
qed simp

lemma roster_reachable_ok:
  assumes "draw_law rand" "roster_order_laws ro" "roster_reachable ro rand s st"
  shows "session_ok s (rs_table st)"
proof -
  obtain st0 where st0: "of_session s (rs_table st0) = []" "roster_run ro rand s st0 st"
    using assms(3) by (auto simp: roster_reachable_def)
  have "session_ok s []"
    by (simp add: session_ok_def group_rows_def of_group_def of_session_def ledger_ok_def)
  with session_ok_elsewhere [OF st0(1), of "[]"] have "session_ok s (rs_table st0)" by simp
  with roster_run_keeps [OF assms(1,2) st0(2)] show ?thesis by blast
qed

text \<open>A token, once spent, stays spent.\<close>

lemma token_stays:
  assumes "draw_law rand" "roster_order_laws ro" "roster_run ro rand s st st'" "session_ok s (rs_table st)"
    "rosterOpApplied (rs_table st) s tok"
  shows "applyRosterOp rand st' s grp roster answers tok op now =
    Some (Inr \<lparr>op_replayed = True, op_minted = []\<rparr>, st')"
  using roster_run_keeps [OF assms(1-4)] assms(5) by (auto simp: applyRosterOp_def rosterOpApplied_append)

text \<open>What an operation does to the roster of its group.\<close>

lemma present_after_add:
  assumes "roster_order_laws ro" "session_ok s t" "session_ok s (t @ rows_minted s g tok now [i])"
    "i \<notin> added_ids (group_rows t s g)"
  shows "set (gr_present (readRoster ro (t @ rows_minted s g tok now [i]) s g)) =
      insert i (set (gr_present (readRoster ro t s g)))"
    "length (gr_present (readRoster ro (t @ rows_minted s g tok now [i]) s g)) =
      length (gr_present (readRoster ro t s g)) + 1"
proof -
  have rows: "group_rows (t @ rows_minted s g tok now [i]) s g = group_rows t s g @ rows_minted s g tok now [i]"
    using group_rows_of [of s g Added tok now "[i]" s g] by (simp add: group_rows_append rows_minted_def)
  have ids: "added_ids (rows_minted s g tok now [i]) = {i}" "removed_ids (rows_minted s g tok now [i]) = {}"
    by (auto simp: rows_minted_def added_ids_def removed_ids_def roster_row_of_def)
  have removed: "i \<notin> removed_ids (group_rows t s g)"
    using assms(2,4) by (auto simp: session_ok_def ledger_ok_def added_ids_def removed_ids_def) metis
  note old = stored_exact(2) [OF assms(1,2), of g, unfolded roster_exact_def]
  note new = stored_exact(2) [OF assms(1,3), of g, unfolded roster_exact_def rows added_append removed_append ids]
  show set: "set (gr_present (readRoster ro (t @ rows_minted s g tok now [i]) s g)) =
      insert i (set (gr_present (readRoster ro t s g)))"
    using old new removed by auto
  have "i \<notin> set (gr_present (readRoster ro t s g))" using old assms(4) by auto
  with set old new show "length (gr_present (readRoster ro (t @ rows_minted s g tok now [i]) s g)) =
      length (gr_present (readRoster ro t s g)) + 1"
    by (metis Suc_eq_plus1 card_insert_disjoint distinct_card finite_set)
qed

lemma present_after_remove:
  assumes "roster_order_laws ro" "session_ok s t" "session_ok s (removeInstance t s g i tok now)"
  shows "set (gr_present (readRoster ro (removeInstance t s g i tok now) s g)) =
      set (gr_present (readRoster ro t s g)) - {i}"
    "set (gr_minted (readRoster ro (removeInstance t s g i tok now) s g)) = set (gr_minted (readRoster ro t s g))"
proof -
  have rows: "group_rows (removeInstance t s g i tok now) s g = group_rows t s g @ [roster_row_of s g Removed tok now i]"
    using group_rows_of [of s g Removed tok now "[i]" s g] by (simp add: group_rows_append removeInstance_def)
  note old = stored_exact(2) [OF assms(1,2), of g, unfolded roster_exact_def]
  note new = stored_exact(2) [OF assms(1,3), of g, unfolded roster_exact_def rows added_append removed_append ids_of_rows]
  show "set (gr_present (readRoster ro (removeInstance t s g i tok now) s g)) =
      set (gr_present (readRoster ro t s g)) - {i}"
    "set (gr_minted (readRoster ro (removeInstance t s g i tok now) s g)) = set (gr_minted (readRoster ro t s g))"
    using old new by auto
qed

end
