(* ===== verification/DataStore.thy ===== *)
theory DataStore
  imports Deliveries RosterFacts
begin

text \<open>
  The schema of one environment as one record of tables, and the two operations of
  \<^verbatim>\<open>packages/db/src/queries\<close> that cut across it: \<^verbatim>\<open>erasure.ts\<close>, the erasure of a session, and
  the purge in \<^verbatim>\<open>retention.ts\<close>.
\<close>

section \<open>The tables\<close>

record tombstone_row =
  ts_sessionId :: string
  ts_formId :: string
  ts_formVersion :: int
  ts_erasedAt :: int
  ts_reason :: string

record data_db =
  dd_sessions :: "session_row list"
  dd_answers :: answer_table
  dd_rosters :: roster_state
  dd_submissions :: "submission_row list"
  dd_outbox :: outbox_table
  dd_deliveries :: delivery_table
  dd_webhooks :: "webhook_row list"
  dd_tombstones :: "tombstone_row list"

abbreviation events_of :: "data_db \<Rightarrow> outbox_row list" where
  "events_of db \<equiv> ot_rows (dd_outbox db)"

abbreviation deliveries_of :: "data_db \<Rightarrow> delivery_row list" where
  "deliveries_of db \<equiv> dt_rows (dd_deliveries db)"

definition set_events :: "outbox_row list \<Rightarrow> data_db \<Rightarrow> data_db" where
  "set_events rows db = db\<lparr>dd_outbox := (dd_outbox db)\<lparr>ot_rows := rows\<rparr>\<rparr>"

definition set_deliveries :: "delivery_row list \<Rightarrow> data_db \<Rightarrow> data_db" where
  "set_deliveries rows db = db\<lparr>dd_deliveries := (dd_deliveries db)\<lparr>dt_rows := rows\<rparr>\<rparr>"

section \<open>Erasure\<close>

record erase_outcome =
  eo_sessionId :: string
  eo_formId :: string
  eo_formVersion :: int
  eo_erasedAt :: int
  eo_reason :: string
  eo_alreadyErased :: bool

text \<open>\<^verbatim>\<open>outboxRowsForSession\<close>: the session an event names in its payload.\<close>

definition event_of_session :: "string \<Rightarrow> outbox_row \<Rightarrow> bool" where
  "event_of_session sessionId e \<longleftrightarrow> js_prop ''sessionId'' (ob_payload e) = JStr sessionId"

definition delivery_of_session :: "outbox_row list \<Rightarrow> string \<Rightarrow> delivery_row \<Rightarrow> bool" where
  "delivery_of_session events sessionId r \<longleftrightarrow>
     list_ex (\<lambda>e. event_of_session sessionId e \<and> ob_id e = dv_outboxId r) events"

definition redactOutboxPayloads :: "string \<Rightarrow> int \<Rightarrow> outbox_row list \<Rightarrow> outbox_row list" where
  "redactOutboxPayloads sessionId now events =
     map (\<lambda>e. if event_of_session sessionId e \<and> ob_payloadRedactedAt e = None
              then outboxPayloadRedactionColumns now e else e) events"

definition redactDeliveryResponseSnippets ::
  "outbox_row list \<Rightarrow> string \<Rightarrow> int \<Rightarrow> delivery_row list \<Rightarrow> delivery_row list" where
  "redactDeliveryResponseSnippets events sessionId now rows =
     map (\<lambda>r. if dv_lastResponseSnippet r \<noteq> None \<and> delivery_of_session events sessionId r
              then responseSnippetRedactionColumns now r else r) rows"

definition cancelUndeliveredDeliveries ::
  "outbox_row list \<Rightarrow> string \<Rightarrow> int \<Rightarrow> delivery_row list \<Rightarrow> delivery_row list" where
  "cancelUndeliveredDeliveries events sessionId now rows =
     map (\<lambda>r. if dv_deliveredAt r = None \<and> dv_cancelledAt r = None \<and> delivery_of_session events sessionId r
              then r\<lparr>dv_cancelledAt := Some now, dv_cancelledReason := Some DELIVERY_CANCELLED_SESSION_ERASED\<rparr>
              else r) rows"

text \<open>What the erasure removes and redacts, once it has found the session.\<close>

definition erase_rows :: "string \<Rightarrow> int \<Rightarrow> data_db \<Rightarrow> data_db" where
  "erase_rows sessionId now db =
    (let events = events_of db
     in set_events (redactOutboxPayloads sessionId now events)
         (set_deliveries (redactDeliveryResponseSnippets events sessionId now
            (cancelUndeliveredDeliveries events sessionId now (deliveries_of db)))
         (db\<lparr>dd_answers := (dd_answers db)\<lparr>at_rows := filter (\<lambda>r. ar_sessionId r \<noteq> sessionId) (at_rows (dd_answers db))\<rparr>,
             dd_rosters := (dd_rosters db)\<lparr>rs_table := filter (\<lambda>r. rr_sessionId r \<noteq> sessionId) (rs_table (dd_rosters db))\<rparr>,
             dd_submissions := filter (\<lambda>r. sb_sessionId r \<noteq> sessionId) (dd_submissions db)\<rparr>)))"

text \<open>
  \<^term>\<open>None\<close> is a throw: \<^verbatim>\<open>SessionNotFoundError\<close>, or the tombstone of another form under the
  same key.
\<close>

definition eraseSession ::
  "data_db \<Rightarrow> string \<Rightarrow> string \<Rightarrow> string \<Rightarrow> int \<Rightarrow> (erase_outcome \<times> data_db) option" where
  "eraseSession db fid sessionId reason now =
    (case List.find (\<lambda>t. ts_sessionId t = sessionId \<and> ts_formId t = fid) (dd_tombstones db) of
       Some t \<Rightarrow> Some (\<lparr>eo_sessionId = ts_sessionId t, eo_formId = ts_formId t, eo_formVersion = ts_formVersion t,
          eo_erasedAt = ts_erasedAt t, eo_reason = ts_reason t, eo_alreadyErased = True\<rparr>, db)
     | None \<Rightarrow> (case getSessionInForm (dd_sessions db) fid sessionId of
         None \<Rightarrow> None
       | Some s \<Rightarrow>
           if list_ex (\<lambda>t. ts_sessionId t = sessionId) (dd_tombstones db) then None
           else Some (\<lparr>eo_sessionId = sessionId, eo_formId = sn_formId s, eo_formVersion = sn_formVersion s,
              eo_erasedAt = now, eo_reason = reason, eo_alreadyErased = False\<rparr>,
            (erase_rows sessionId now db)\<lparr>dd_tombstones := dd_tombstones db @
              [\<lparr>ts_sessionId = sessionId, ts_formId = sn_formId s, ts_formVersion = sn_formVersion s,
                ts_erasedAt = now, ts_reason = reason\<rparr>]\<rparr>)))"

record subject_presence =
  sp_hasSession :: bool
  sp_alreadyErased :: bool

definition findSubjectPresence :: "data_db \<Rightarrow> string \<Rightarrow> string \<Rightarrow> subject_presence" where
  "findSubjectPresence db fid sessionId =
     \<lparr>sp_hasSession = (getSessionInForm (dd_sessions db) fid sessionId \<noteq> None),
      sp_alreadyErased = list_ex (\<lambda>t. ts_sessionId t = sessionId \<and> ts_formId t = fid) (dd_tombstones db)\<rparr>"

section \<open>The purge\<close>

text \<open>The sessions that expired before the horizon and were never submitted, and what goes with them.\<close>

definition purge_victim :: "data_db \<Rightarrow> int \<Rightarrow> session_row \<Rightarrow> bool" where
  "purge_victim db olderThan s \<longleftrightarrow> sn_status s = Expired \<and> sn_expiresAt s < olderThan \<and>
     getSubmission (dd_submissions db) (sn_sessionId s) = None"

definition purgeExpired :: "data_db \<Rightarrow> int \<Rightarrow> string list \<times> data_db" where
  "purgeExpired db olderThan =
    (let ids = map sn_sessionId (filter (purge_victim db olderThan) (dd_sessions db))
     in if ids = [] then ([], db)
        else (ids, db\<lparr>dd_answers := (dd_answers db)\<lparr>at_rows := filter (\<lambda>r. ar_sessionId r \<notin> set ids) (at_rows (dd_answers db))\<rparr>,
               dd_rosters := (dd_rosters db)\<lparr>rs_table := filter (\<lambda>r. rr_sessionId r \<notin> set ids) (rs_table (dd_rosters db))\<rparr>,
               dd_sessions := filter (\<lambda>s. sn_sessionId s \<notin> set ids) (dd_sessions db)\<rparr>))"

end
