(* ===== verification/RateLimit.thy ===== *)
theory RateLimit
  imports ServerPrelude
begin

text \<open>
  \<^verbatim>\<open>apps/api/src/rate-limit.ts\<close>, \<^verbatim>\<open>client-address.ts\<close> and
  \<^verbatim>\<open>features/responses/rate-limits.ts\<close>: the in-memory store of fixed-window counters, which
  is bounded by evicting the coldest key, the middleware that refuses a request over its
  budget, and the allowance a batch of answers spends. A \<^verbatim>\<open>Map\<close> is its list of entries in
  insertion order; every reading of the clock is an argument, in milliseconds.
\<close>

section \<open>The store\<close>

record rate_limit_result =
  rl_count :: nat
  rl_resetAt :: int

type_synonym buckets = "(string \<times> rate_limit_result) list"

definition DEFAULT_MAX_KEYS :: nat where
  "DEFAULT_MAX_KEYS = 100000"

definition SWEEP_SCAN :: nat where
  "SWEEP_SCAN = 8"

text \<open>The constructor throws on a capacity that is not a positive integer.\<close>

definition store_capacity :: "jsnum \<Rightarrow> nat option" where
  "store_capacity maxKeys = (if \<not> num_isInteger maxKeys \<or> num_lt maxKeys (Fin 1) then None
     else (case maxKeys of Fin q \<Rightarrow> Some (nat (floor q)) | _ \<Rightarrow> None))"

fun sweep :: "int \<Rightarrow> nat \<Rightarrow> buckets \<Rightarrow> buckets" where
  "sweep now scanned [] = []"
| "sweep now scanned ((key, bucket) # rest) =
     (if SWEEP_SCAN \<le> scanned then (key, bucket) # rest
      else if rl_resetAt bucket \<le> now then sweep now (scanned + 1) rest
      else (key, bucket) # sweep now (scanned + 1) rest)"

fun evict_coldest :: "nat \<Rightarrow> buckets \<Rightarrow> buckets" where
  "evict_coldest maxKeys [] = []"
| "evict_coldest maxKeys (coldest # rest) =
     (if maxKeys \<le> length (coldest # rest) then evict_coldest maxKeys rest else coldest # rest)"

definition makeRoom :: "nat \<Rightarrow> int \<Rightarrow> buckets \<Rightarrow> buckets" where
  "makeRoom maxKeys now buckets = evict_coldest maxKeys (sweep now 0 buckets)"

definition store_hit :: "nat \<Rightarrow> int \<Rightarrow> string \<Rightarrow> int \<Rightarrow> buckets \<Rightarrow> rate_limit_result \<times> buckets" where
  "store_hit maxKeys now key windowMs buckets =
    (let fresh = \<lparr>rl_count = 1, rl_resetAt = now + windowMs\<rparr>;
         new_window = (fresh, makeRoom maxKeys now (AList.delete key buckets) @ [(key, fresh)])
     in case map_of buckets key of
          None \<Rightarrow> new_window
        | Some existing \<Rightarrow>
            if now < rl_resetAt existing then
              (let counted = existing\<lparr>rl_count := rl_count existing + 1\<rparr>
               in (counted, AList.delete key buckets @ [(key, counted)]))
            else new_window)"

definition store_reset :: "string \<Rightarrow> buckets \<Rightarrow> buckets" where
  "store_reset key buckets = AList.delete key buckets"

section \<open>The middleware\<close>

definition CLIENT_ADDRESS_HEADER :: string where
  "CLIENT_ADDRESS_HEADER = ''x-qcms-client-address''"

definition UNKNOWN_CLIENT_ADDRESS :: string where
  "UNKNOWN_CLIENT_ADDRESS = ''unknown-ip''"

definition MAX_ADDRESS_LENGTH :: nat where
  "MAX_ADDRESS_LENGTH = 64"

definition clientAddress :: "string option \<Rightarrow> string" where
  "clientAddress header = (case map_option js_trim header of
     None \<Rightarrow> UNKNOWN_CLIENT_ADDRESS
   | Some raw \<Rightarrow> if raw = [] \<or> MAX_ADDRESS_LENGTH < length raw then UNKNOWN_CLIENT_ADDRESS else raw)"

text \<open>\<^verbatim>\<open>Math.ceil(ms / 1000)\<close>.\<close>

definition whole_seconds :: "int \<Rightarrow> int" where
  "whole_seconds ms = - ((- ms) div 1000)"

record limit_headers =
  lh_limit :: int
  lh_remaining :: int
  lh_reset :: int
  lh_retryAfter :: "int option"

text \<open>The headers of the answer and whether the request goes on, from what the store answered.\<close>

definition rateLimit :: "int \<Rightarrow> int \<Rightarrow> rate_limit_result \<Rightarrow> limit_headers \<times> bool" where
  "rateLimit limit nowMs result =
    (let headers = \<lparr>lh_limit = limit, lh_remaining = max 0 (limit - int (rl_count result)),
            lh_reset = whole_seconds (rl_resetAt result), lh_retryAfter = None\<rparr>
     in if limit < int (rl_count result)
        then (headers\<lparr>lh_retryAfter := Some (max 1 (whole_seconds (rl_resetAt result - nowMs)))\<rparr>, False)
        else (headers, True))"

definition sessionCreateKey :: "string \<Rightarrow> string" where
  "sessionCreateKey ip = ''rl:session-create:'' @ ip"
definition answersSessionKey :: "string \<Rightarrow> string" where
  "answersSessionKey sessionId = ''rl:answers-session:'' @ sessionId"
definition answersIpKey :: "string \<Rightarrow> string" where
  "answersIpKey ip = ''rl:answers-ip:'' @ ip"
definition submitSessionKey :: "string \<Rightarrow> string" where
  "submitSessionKey sessionId = ''rl:submit-session:'' @ sessionId"
definition rosterSessionKey :: "string \<Rightarrow> string" where
  "rosterSessionKey sessionId = ''rl:roster-session:'' @ sessionId"
definition rosterIpKey :: "string \<Rightarrow> string" where
  "rosterIpKey ip = ''rl:roster-ip:'' @ ip"

section \<open>Spending an allowance\<close>

text \<open>
  The loop of \<^verbatim>\<open>spendAnswerAllowance\<close> over any store: \<^verbatim>\<open>clock i\<close> is what the clock reads at the
  \<^verbatim>\<open>i\<close>-th hit. The answer is the count of the last hit, zero when there is none.
\<close>

type_synonym 's hitter = "int \<Rightarrow> string \<Rightarrow> int \<Rightarrow> 's \<Rightarrow> rate_limit_result \<times> 's"

fun spend_hits :: "'s hitter \<Rightarrow> (nat \<Rightarrow> int) \<Rightarrow> string \<Rightarrow> int \<Rightarrow> nat \<Rightarrow> nat \<Rightarrow> 's \<Rightarrow> nat \<times> 's" where
  "spend_hits hit clock key windowMs 0 counted s = (counted, s)"
| "spend_hits hit clock key windowMs (Suc entries) counted s =
     (let (last, s') = spend_hits hit clock key windowMs entries counted s;
          (result, s'') = hit (clock entries) key windowMs s'
      in (rl_count result, s''))"

definition spendAnswerAllowance ::
  "'s hitter \<Rightarrow> (nat \<Rightarrow> int) \<Rightarrow> int \<Rightarrow> nat \<Rightarrow> string \<Rightarrow> nat \<Rightarrow> nat \<Rightarrow> 's \<Rightarrow> bool \<times> 's" where
  "spendAnswerAllowance hit clock windowMs limit sessionId entries stepBound s =
    (let ceiling = max limit stepBound
     in if stepBound < entries then (False, s)
        else (let (counted, s') = spend_hits hit clock (answersSessionKey sessionId) windowMs entries 0 s
              in (counted \<le> ceiling, s')))"

section \<open>The window counter\<close>

text \<open>
  What one key sees, with no other key about: inside a window the count goes up by one,
  and the first hit at or after its end opens a new one.
\<close>

definition window_hit :: "int \<Rightarrow> int \<Rightarrow> rate_limit_result option \<Rightarrow> rate_limit_result" where
  "window_hit now windowMs held = (case held of
     Some r \<Rightarrow> if now < rl_resetAt r then r\<lparr>rl_count := rl_count r + 1\<rparr>
              else \<lparr>rl_count = 1, rl_resetAt = now + windowMs\<rparr>
   | None \<Rightarrow> \<lparr>rl_count = 1, rl_resetAt = now + windowMs\<rparr>)"

text \<open>
  The contract of a store, whichever an adopter brings: a hit answers what the window
  counter of its key says, remembers it, and never touches another key except to forget it.
\<close>

locale counter_store =
  fixes hit :: "'s hitter"
    and counter :: "'s \<Rightarrow> string \<Rightarrow> rate_limit_result option"
    and sound :: "'s \<Rightarrow> bool"
  assumes sound_hit: "sound s \<Longrightarrow> sound (snd (hit now key windowMs s))"
    and hit_result: "sound s \<Longrightarrow> fst (hit now key windowMs s) = window_hit now windowMs (counter s key)"
    and hit_own: "sound s \<Longrightarrow> counter (snd (hit now key windowMs s)) key = Some (fst (hit now key windowMs s))"
    and hit_others: "sound s \<Longrightarrow> other \<noteq> key \<Longrightarrow>
      counter (snd (hit now key windowMs s)) other \<in> {counter s other, None}"
begin

lemma sound_spend: "sound s \<Longrightarrow> sound (snd (spend_hits hit clock key windowMs n c s))"
  by (induction n) (simp_all add: case_prod_unfold Let_def sound_hit)

text \<open>Hits of one key inside an open window add up; they open one window at most when they are quick.\<close>

lemma spend_counts:
  assumes "sound s" "\<And>i. i < n \<Longrightarrow> clock i < reset"
    and "(case counter s key of Some r \<Rightarrow> clock 0 < rl_resetAt r \<and> rl_resetAt r = reset \<and> base = rl_count r
          | None \<Rightarrow> clock 0 + windowMs = reset \<and> base = 0)"
  shows "0 < n \<Longrightarrow> fst (spend_hits hit clock key windowMs n c s) = base + n \<and>
    counter (snd (spend_hits hit clock key windowMs n c s)) key = Some \<lparr>rl_count = base + n, rl_resetAt = reset\<rparr>"
  using assms(2)
proof (induction n)
  case (Suc n)
  show ?case
  proof (cases "n = 0")
    case True
    have "window_hit (clock 0) windowMs (counter s key) = \<lparr>rl_count = base + 1, rl_resetAt = reset\<rparr>"
      using assms(3) by (auto simp: window_hit_def split: option.splits)
    with True assms(1) show ?thesis
      by (simp add: case_prod_unfold Let_def hit_own hit_result)
  next
    case False
    with Suc have IH: "counter (snd (spend_hits hit clock key windowMs n c s)) key =
        Some \<lparr>rl_count = base + n, rl_resetAt = reset\<rparr>" and before: "clock n < reset"
      by simp_all
    from sound_spend [OF assms(1)] IH before show ?thesis
      by (simp add: case_prod_unfold Let_def hit_own hit_result window_hit_def)
  qed
qed simp

end

section \<open>The in-memory store\<close>

text \<open>One entry per key, and never more than the capacity.\<close>

definition store_sound :: "nat \<Rightarrow> buckets \<Rightarrow> bool" where
  "store_sound maxKeys buckets \<longleftrightarrow> 0 < maxKeys \<and> distinct (map fst buckets) \<and> length buckets \<le> maxKeys"

lemma sweep_subset: "set (sweep now n bs) \<subseteq> set bs"
  by (induction now n bs rule: sweep.induct) auto

lemma distinct_sweep: "distinct (map fst bs) \<Longrightarrow> distinct (map fst (sweep now n bs))"
  by (induction now n bs rule: sweep.induct) (use sweep_subset in \<open>auto simp: image_iff subset_iff\<close>)

lemma evict_suffix: "\<exists>n. evict_coldest m bs = drop n bs"
proof (induction bs)
  case (Cons b bs)
  then show ?case by (metis drop0 drop_Suc_Cons evict_coldest.simps(2))
qed simp

lemma length_evict: "0 < m \<Longrightarrow> length (evict_coldest m bs) < m"
  by (induction bs) auto

lemma makeRoom_facts:
  assumes "distinct (map fst bs)" "0 < m"
  shows "distinct (map fst (makeRoom m now bs))" "set (makeRoom m now bs) \<subseteq> set bs"
    "length (makeRoom m now bs) < m"
proof -
  obtain n where n: "makeRoom m now bs = drop n (sweep now 0 bs)"
    using evict_suffix unfolding makeRoom_def by metis
  show "distinct (map fst (makeRoom m now bs))"
    unfolding n using distinct_sweep [OF assms(1)] by (simp add: drop_map [symmetric])
  show "set (makeRoom m now bs) \<subseteq> set bs"
    unfolding n using set_drop_subset sweep_subset by (metis subset_trans)
  show "length (makeRoom m now bs) < m" unfolding makeRoom_def by (rule length_evict [OF assms(2)])
qed

lemma map_of_subset:
  "distinct (map fst bs) \<Longrightarrow> distinct (map fst cs) \<Longrightarrow> set cs \<subseteq> set bs \<Longrightarrow> map_of cs k \<in> {map_of bs k, None}"
  by (cases "map_of cs k") (auto dest!: map_of_SomeD)

lemma map_of_append_own: "k \<notin> fst ` set bs \<Longrightarrow> map_of (bs @ [(k, v)]) k = Some v"
  by (subst map_of_append_fresh) simp_all

lemma store_hit_cases:
  assumes "store_sound m bs"
  obtains kept where "store_hit m now key w bs =
      (window_hit now w (map_of bs key), kept @ [(key, window_hit now w (map_of bs key))])"
    "distinct (map fst kept)" "set kept \<subseteq> set (AList.delete key bs)" "length kept < m"
proof -
  have d: "distinct (map fst (AList.delete key bs))" using assms by (simp add: store_sound_def distinct_delete)
  note room = makeRoom_facts [OF d, of m now]
  show thesis
  proof (cases "\<exists>r. map_of bs key = Some r \<and> now < rl_resetAt r")
    case True
    then obtain r where r: "map_of bs key = Some r" "now < rl_resetAt r" by blast
    then have "(key, r) \<in> set bs" by (simp add: map_of_SomeD)
    then have "length (AList.delete key bs) < length bs" unfolding AList.delete_eq
      by (intro length_filter_less) auto
    then have "length (AList.delete key bs) < m" using assms by (simp add: store_sound_def)
    with that [of "AList.delete key bs"] d r show thesis
      by (simp add: store_hit_def window_hit_def Let_def)
  next
    case False
    then show thesis using that [of "makeRoom m now (AList.delete key bs)"] room assms
      by (auto simp: store_hit_def window_hit_def Let_def store_sound_def split: option.splits)
  qed
qed

lemma delete_keys: "fst ` set (AList.delete key bs) = fst ` set bs - {key}"
  by (auto simp: AList.delete_eq image_iff)

interpretation memory: counter_store "store_hit m" "map_of" "store_sound m"
proof
  fix s :: buckets and now key w other
  assume s: "store_sound m s"
  obtain kept where hit: "store_hit m now key w s =
      (window_hit now w (map_of s key), kept @ [(key, window_hit now w (map_of s key))])"
    and kept: "distinct (map fst kept)" "set kept \<subseteq> set (AList.delete key s)" "length kept < m"
    by (rule store_hit_cases [OF s])
  have key: "key \<notin> fst ` set kept" using kept(2) delete_keys [of key s] by blast
  show "store_sound m (snd (store_hit m now key w s))"
    using kept key s by (simp add: hit store_sound_def)
  show "fst (store_hit m now key w s) = window_hit now w (map_of s key)" by (simp add: hit)
  show "map_of (snd (store_hit m now key w s)) key = Some (fst (store_hit m now key w s))"
    by (simp only: hit fst_conv snd_conv map_of_append_own [OF key])
  assume "other \<noteq> key"
  moreover have "map_of kept other \<in> {map_of (AList.delete key s) other, None}"
    using s kept by (intro map_of_subset) (simp_all add: store_sound_def distinct_delete)
  ultimately show "map_of (snd (store_hit m now key w s)) other \<in> {map_of s other, None}"
    by (simp add: hit map_of_append_fresh [OF key] delete_conv' del: map_of_append)
qed

section \<open>Within the capacity nothing is forgiven\<close>

text \<open>A run of hits against the store, and against one window counter per key.\<close>

type_synonym hit_call = "int \<times> string \<times> int"

fun store_run :: "nat \<Rightarrow> hit_call list \<Rightarrow> buckets \<Rightarrow> rate_limit_result list \<times> buckets" where
  "store_run m [] bs = ([], bs)"
| "store_run m ((now, key, w) # calls) bs =
     (let (r, bs') = store_hit m now key w bs; (rs, bs'') = store_run m calls bs' in (r # rs, bs''))"

fun counter_run :: "hit_call list \<Rightarrow> (string \<Rightarrow> rate_limit_result option) \<Rightarrow> rate_limit_result list" where
  "counter_run [] f = []"
| "counter_run ((now, key, w) # calls) f =
     (let r = window_hit now w (f key) in r # counter_run calls (f(key \<mapsto> r)))"

lemma evict_nothing: "length bs < m \<Longrightarrow> evict_coldest m bs = bs"
  by (cases bs) auto

lemma length_sweep: "length (sweep now n bs) \<le> length bs"
  by (induction now n bs rule: sweep.induct) auto

lemma sweep_keeps_live:
  "(k, r) \<in> set bs \<Longrightarrow> now < rl_resetAt r \<Longrightarrow> (k, r) \<in> set (sweep now n bs)"
  by (induction now n bs rule: sweep.induct) auto

definition tracks :: "string set \<Rightarrow> int \<Rightarrow> buckets \<Rightarrow> (string \<Rightarrow> rate_limit_result option) \<Rightarrow> bool" where
  "tracks K now bs f \<longleftrightarrow> fst ` set bs \<subseteq> K \<and> (\<forall>k r. map_of bs k = Some r \<longrightarrow> f k = Some r) \<and>
     (\<forall>k r. f k = Some r \<longrightarrow> now < rl_resetAt r \<longrightarrow> map_of bs k = Some r)"

lemma tracks_later: "tracks K now bs f \<Longrightarrow> now \<le> now' \<Longrightarrow> tracks K now' bs f"
  unfolding tracks_def by (meson order_le_less_trans)

lemma tracks_back: "tracks K now bs f \<Longrightarrow> map_of bs k = Some r \<Longrightarrow> f k = Some r"
  unfolding tracks_def by blast

lemma tracks_live: "tracks K now bs f \<Longrightarrow> f k = Some r \<Longrightarrow> now < rl_resetAt r \<Longrightarrow> map_of bs k = Some r"
  unfolding tracks_def by blast

lemma tracks_result: "tracks K now bs f \<Longrightarrow> window_hit now w (map_of bs key) = window_hit now w (f key)"
proof -
  assume tr: "tracks K now bs f"
  show ?thesis
  proof (cases "map_of bs key")
    case (Some r)
    with tracks_back [OF tr this] show ?thesis by simp
  next
    case None
    then have "f key = Some r \<Longrightarrow> \<not> now < rl_resetAt r" for r using tracks_live [OF tr, of key r] by auto
    with None show ?thesis by (cases "f key") (simp_all add: window_hit_def)
  qed
qed

lemma live_kept:
  assumes "store_sound m bs" "finite K" "card K \<le> m" "fst ` set bs \<subseteq> K" "key \<in> K"
    "map_of bs k = Some r" "now < rl_resetAt r" "k \<noteq> key"
  shows "map_of (snd (store_hit m now key w bs)) k = Some r"
proof -
  have d: "distinct (map fst (AList.delete key bs))" using assms(1) by (simp add: store_sound_def distinct_delete)
  have key: "key \<notin> fst ` set (AList.delete key bs)" by (simp add: delete_keys)
  have live: "(k, r) \<in> set (AList.delete key bs)"
    using map_of_SomeD [OF assms(6)] assms(8) by (simp add: AList.delete_eq)
  have "card (fst ` set (AList.delete key bs)) < card K"
    using assms(2,4,5) by (intro psubset_card_mono) (auto simp: delete_keys)
  then have "length (AList.delete key bs) < m"
    using assms(3) d by (metis distinct_card length_map list.set_map order_less_le_trans)
  then have "makeRoom m now (AList.delete key bs) = sweep now 0 (AList.delete key bs)"
    unfolding makeRoom_def using length_sweep order_le_less_trans by (intro evict_nothing) blast
  then have room: "(k, r) \<in> set (makeRoom m now (AList.delete key bs))"
    "distinct (map fst (makeRoom m now (AList.delete key bs)))"
    "key \<notin> fst ` set (makeRoom m now (AList.delete key bs))"
    using sweep_keeps_live [OF live assms(7), of 0] distinct_sweep [OF d, of now 0] key
      sweep_subset [of now 0 "AList.delete key bs"] by auto
  from live key d have old: "map_of (AList.delete key bs @ [(key, v)]) k = Some r" for v
    using assms(8) by (simp add: map_of_append_fresh del: map_of_append)
  from room have new: "map_of (makeRoom m now (AList.delete key bs) @ [(key, v)]) k = Some r" for v
    using assms(8) by (simp add: map_of_append_fresh del: map_of_append)
  show ?thesis by (simp add: store_hit_def Let_def old new del: map_of_append split: option.split)
qed

lemma tracks_hit:
  assumes "store_sound m bs" "finite K" "card K \<le> m" "key \<in> K" "tracks K now bs f"
  shows "tracks K now (snd (store_hit m now key w bs)) (f(key \<mapsto> window_hit now w (f key)))"
proof -
  let ?s = "snd (store_hit m now key w bs)"
  have own: "map_of ?s key = Some (window_hit now w (f key))"
    using memory.hit_own [OF assms(1)] memory.hit_result [OF assms(1)] tracks_result [OF assms(5)] by simp
  have others: "map_of ?s k \<in> {map_of bs k, None}" if "k \<noteq> key" for k
    by (rule memory.hit_others [OF assms(1) that])
  have keys: "fst ` set bs \<subseteq> K" using assms(5) by (simp add: tracks_def)
  have "fst ` set ?s \<subseteq> K"
  proof
    fix k assume "k \<in> fst ` set ?s"
    then have "map_of ?s k \<noteq> None" by (metis map_of_eq_None_iff)
    with others [of k] have "k = key \<or> map_of bs k \<noteq> None" by (cases "k = key") auto
    then show "k \<in> K" using assms(4) keys by (metis map_of_eq_None_iff subsetD)
  qed
  moreover have "(f(key \<mapsto> window_hit now w (f key))) k = Some r" if "map_of ?s k = Some r" for k r
  proof (cases "k = key")
    case False
    with that others [of k] have "map_of bs k = Some r" by simp
    with tracks_back [OF assms(5) this] False show ?thesis by simp
  qed (use that own in simp)
  moreover have "map_of ?s k = Some r"
    if "(f(key \<mapsto> window_hit now w (f key))) k = Some r" "now < rl_resetAt r" for k r
  proof (cases "k = key")
    case False
    with that have "map_of bs k = Some r" by (intro tracks_live [OF assms(5)]) simp_all
    from live_kept [OF assms(1-3) keys assms(4) this that(2) False] show ?thesis .
  qed (use that own in simp)
  ultimately show ?thesis unfolding tracks_def by blast
qed

lemma store_run_counts:
  assumes "store_sound m bs" "finite K" "card K \<le> m" "tracks K now bs f"
    "sorted (now # map fst calls)" "(fst \<circ> snd) ` set calls \<subseteq> K"
  shows "fst (store_run m calls bs) = counter_run calls f"
  using assms(1,4-)
proof (induction calls arbitrary: bs f now)
  case (Cons call calls)
  obtain t key w where call: "call = (t, key, w)" by (cases call)
  from Cons.prems call have t: "now \<le> t" "key \<in> K" by auto
  note tr = tracks_later [OF Cons.prems(2) t(1)]
  have r: "fst (store_hit m t key w bs) = window_hit t w (f key)"
    using memory.hit_result [OF Cons.prems(1)] tracks_result [OF tr] by simp
  have "fst (store_run m calls (snd (store_hit m t key w bs))) = counter_run calls (f(key \<mapsto> window_hit t w (f key)))"
  proof (rule Cons.IH)
    show "store_sound m (snd (store_hit m t key w bs))" by (rule memory.sound_hit [OF Cons.prems(1)])
    show "tracks K t (snd (store_hit m t key w bs)) (f(key \<mapsto> window_hit t w (f key)))"
      by (rule tracks_hit [OF Cons.prems(1) assms(2,3) t(2) tr])
  qed (use Cons.prems(3,4) in \<open>simp_all add: call\<close>)
  with r show ?case by (simp add: call case_prod_unfold Let_def)
qed simp

lemma store_run_sound: "store_sound m bs \<Longrightarrow> store_sound m (snd (store_run m calls bs))"
proof (induction calls arbitrary: bs)
  case (Cons call calls)
  obtain t key w where call: "call = (t, key, w)" by (cases call)
  from Cons.IH [OF memory.sound_hit [OF Cons.prems, of t key w]] show ?case
    by (simp add: call case_prod_unfold Let_def)
qed simp

text \<open>
  What a window sees: the hits of one key that report one end of window are counted
  \<^verbatim>\<open>1, 2, 3\<close> and so on, so the ones the middleware lets through are the first \<^verbatim>\<open>max\<close> of them.
\<close>

definition window_counts :: "string \<Rightarrow> int \<Rightarrow> (hit_call \<times> rate_limit_result) list \<Rightarrow> nat list" where
  "window_counts key reset entries = map (\<lambda>(call, r). rl_count r)
     (filter (\<lambda>(call, r). fst (snd call) = key \<and> rl_resetAt r = reset) entries)"

lemma window_counts_simps [simp]:
  "window_counts key reset [] = []"
  "window_counts key reset (((now, k, w), r) # entries) =
     (if k = key \<and> rl_resetAt r = reset then rl_count r # window_counts key reset entries
      else window_counts key reset entries)"
  by (simp_all add: window_counts_def)

lemma window_hit_open: "0 < w \<Longrightarrow> now < rl_resetAt (window_hit now w held)"
  by (auto simp: window_hit_def split: option.splits)

lemma past_window_empty:
  assumes "sorted (now # map fst calls)" "\<forall>(t, k, w) \<in> set calls. 0 < w" "reset \<le> now"
  shows "window_counts key reset (zip calls (counter_run calls f)) = []"
  using assms
proof (induction calls arbitrary: f now)
  case (Cons call calls)
  obtain t k w where call: "call = (t, k, w)" by (cases call)
  from Cons.prems call have "reset < rl_resetAt (window_hit t w (f k))"
    using window_hit_open [of w t "f k"] by auto
  with Cons.prems Cons.IH [of t] show ?case by (auto simp: call Let_def)
qed simp

lemma window_counts_run:
  assumes "sorted (map fst calls)" "\<forall>(t, k, w) \<in> set calls. 0 < w"
    and "b = (case f key of Some r \<Rightarrow> if rl_resetAt r = reset then rl_count r else 0 | None \<Rightarrow> 0)"
  shows "\<exists>n. window_counts key reset (zip calls (counter_run calls f)) = [b + 1 ..< b + n + 1]"
  using assms
proof (induction calls arbitrary: f b)
  case (Cons call calls)
  obtain t k w where call: "call = (t, k, w)" by (cases call)
  let ?r = "window_hit t w (f k)" and ?f = "f(k \<mapsto> window_hit t w (f k))"
  let ?rest = "window_counts key reset (zip calls (counter_run calls ?f))"
  from Cons.prems call have later: "sorted (map fst calls)" "sorted (t # map fst calls)"
    "\<forall>(t, k, w) \<in> set calls. 0 < w" "0 < w" by auto
  note IH = Cons.IH [where f = ?f, OF later(1,3)]
  have goal: "window_counts key reset (zip (call # calls) (counter_run (call # calls) f)) =
      (if k = key \<and> rl_resetAt ?r = reset then rl_count ?r # ?rest else ?rest)"
    by (simp add: call Let_def)
  show ?case
  proof (cases "k = key")
    case False
    then have rest: "window_counts key reset (zip (call # calls) (counter_run (call # calls) f)) = ?rest"
      and b: "b = (case ?f key of Some r \<Rightarrow> if rl_resetAt r = reset then rl_count r else 0 | None \<Rightarrow> 0)"
      using goal Cons.prems(3) by simp_all
    show ?thesis unfolding rest by (rule IH [OF b])
  next
    case True
    consider (expired) "reset \<le> t" "rl_resetAt ?r \<noteq> reset"
      | (counted) "rl_resetAt ?r = reset" "rl_count ?r = b + 1"
      | (other) "rl_resetAt ?r \<noteq> reset" "b = 0"
      using Cons.prems(3) True later(4) window_hit_open [OF later(4), of t "f k"]
      by (cases "f k") (force simp: window_hit_def split: if_splits)+
    then show ?thesis
    proof cases
      case expired
      then have "?rest = []" using later by (intro past_window_empty [of t])
      with expired goal have "window_counts key reset (zip (call # calls) (counter_run (call # calls) f)) = [b + 1 ..< b + 0 + 1]"
        by simp
      then show ?thesis by blast
    next
      case counted
      then have "b + 1 = (case ?f key of Some r \<Rightarrow> if rl_resetAt r = reset then rl_count r else 0 | None \<Rightarrow> 0)"
        using True by simp
      from IH [OF this] obtain n where "?rest = [b + 1 + 1 ..< b + 1 + n + 1]" by blast
      moreover have "[b + 1 ..< b + Suc n + 1] = (b + 1) # [b + 1 + 1 ..< b + 1 + n + 1]"
        by (subst upt_conv_Cons) simp_all
      ultimately have "window_counts key reset (zip (call # calls) (counter_run (call # calls) f)) =
          [b + 1 ..< b + Suc n + 1]"
        unfolding goal using counted True by (simp del: upt_Suc)
      then show ?thesis by blast
    next
      case other
      then have rest: "window_counts key reset (zip (call # calls) (counter_run (call # calls) f)) = ?rest"
        and b: "b = (case ?f key of Some r \<Rightarrow> if rl_resetAt r = reset then rl_count r else 0 | None \<Rightarrow> 0)"
        using goal True by simp_all
      show ?thesis unfolding rest by (rule IH [OF b])
    qed
  qed
qed (auto intro: exI [of _ 0])

lemma counts_below: "length (filter (\<lambda>c. int c \<le> limit) [1 ..< n + 1]) = nat (min limit (int n))" if "0 \<le> limit"
  using that by (induction n) auto

lemma budget_of_counts:
  assumes "window_counts key reset entries = [1 ..< n + 1]" "0 \<le> limit"
  shows "int (length (filter (\<lambda>(call, r). fst (snd call) = key \<and> rl_resetAt r = reset \<and> snd (rateLimit limit nowMs r)) entries)) =
    min limit (int (length (filter (\<lambda>(call, r). fst (snd call) = key \<and> rl_resetAt r = reset) entries)))"
proof -
  let ?in = "\<lambda>(call :: hit_call, r). fst (snd call) = key \<and> rl_resetAt r = reset"
  have "length (filter ?in entries) = length (window_counts key reset entries)" by (simp add: window_counts_def)
  then have n: "length (filter ?in entries) = n" by (simp add: assms(1))
  have ok: "snd (rateLimit limit nowMs r) \<longleftrightarrow> int (rl_count r) \<le> limit" for r by (simp add: rateLimit_def Let_def)
  have "filter (\<lambda>(call, r). fst (snd call) = key \<and> rl_resetAt r = reset \<and> snd (rateLimit limit nowMs r)) entries =
      filter (\<lambda>(call, r). int (rl_count r) \<le> limit) (filter ?in entries)"
    by (simp add: ok case_prod_unfold conj_ac)
  then have "length (filter (\<lambda>(call, r). fst (snd call) = key \<and> rl_resetAt r = reset \<and> snd (rateLimit limit nowMs r)) entries) =
      length (filter (\<lambda>c. int c \<le> limit) (window_counts key reset entries))"
    by (simp add: window_counts_def filter_map comp_def case_prod_unfold)
  also have "\<dots> = nat (min limit (int n))" unfolding assms(1) by (rule counts_below [OF assms(2)])
  finally show ?thesis using n assms(2) by simp
qed

lemmas memory_spend_counts = memory.spend_counts

end
