(* ===== verification/StepServing.thy ===== *)
theory StepServing
  imports RegistryStore DataStore PrepareSubmission RateLimit CompileChecks
begin

text \<open>
  What a respondent is served: the reading half of
  \<^verbatim>\<open>apps/api/src/features/responses/serve-step/handler.ts\<close>. The pinned snapshot is read back
  from the registry, the rules are evaluated on the current answers and the live rosters, and
  the page a cursor names is projected to the client. A throw that is not an answer of the
  API is a fault. The object the evaluator parses again is the encoding of the snapshot,
  which is an argument.
\<close>

section \<open>Refusals\<close>

datatype respond_refusal =
    SessionNotFound
  | SessionSubmitted
  | SessionExpired
  | Unauthorized
  | UnknownQuestion
  | QuestionNotVisible
  | UnknownGroup
  | RosterRefused RosterRefusalCode
  | InvalidInstanceId
  | InvalidAnswer question_id "instance_id option" "validation_error list"
  | TooManyAnswers
  | UnsupportedSemantics
  | NothingToSubmit
  | SubmissionInvalid "submission_error list"
  | RespondFault

record respond_host =
  ph_submit :: submission_host
  ph_encode :: "frozen_snapshot \<Rightarrow> jsval"
  ph_answers :: answer_orders
  ph_rosters :: roster_orders
  ph_random :: random_source
  ph_uuid :: uuid_source
  ph_outbox :: uuid_source
  ph_iso :: "int \<Rightarrow> string"

section \<open>The pinned snapshot\<close>

definition decimal :: "string \<Rightarrow> int" where
  "decimal s = foldl (\<lambda>n c. n * 10 + int (of_char c - 48)) 0 s"

text \<open>A stamp is digits and nothing else; its number is exact here.\<close>

definition parseSemanticsVersion :: "string \<Rightarrow> respond_refusal + int" where
  "parseSemanticsVersion stored =
    (if stored \<noteq> [] \<and> list_all is_dec stored then Inr (decimal stored) else Inl UnsupportedSemantics)"

record loaded_snapshot =
  ls_frozen :: frozen_snapshot
  ls_compiled :: compiled_form
  ls_questions :: "(question_id \<times> question_definition) list"

fun read_pins :: "question_version_row list \<Rightarrow> question_ref list \<Rightarrow> respond_refusal + question_version_record list" where
  "read_pins rows [] = Inr []"
| "read_pins rows (r # refs) = (case getQuestionVersion rows (ref_questionId r) (ref_version r) of
     None \<Rightarrow> Inl RespondFault
   | Some row \<Rightarrow> bind_ok (read_pins rows refs) (\<lambda>records.
       Inr (\<lparr>rec_questionId = ref_questionId r, rec_version = ref_version r, rec_definition = qv_definition row\<rparr> # records)))"

definition loadFrozenSnapshot ::
  "version_row list \<Rightarrow> question_version_row list \<Rightarrow> session_row \<Rightarrow> respond_refusal + frozen_snapshot \<times> version_row" where
  "loadFrozenSnapshot versions questions session = (case version_at versions (sn_formId session) (sn_formVersion session) of
     None \<Rightarrow> Inl RespondFault
   | Some version \<Rightarrow>
       bind_ok (read_pins questions (form_refs (fv_definition version))) (\<lambda>records.
       bind_ok (parseSemanticsVersion (fv_semanticsVersion version)) (\<lambda>stamp.
       Inr (\<lparr>snap_definition = fv_definition version, snap_questions = records, semanticsVersion = stamp,
             schemaVersion = SNAPSHOT_SCHEMA_VERSION\<rparr>, version))))"

text \<open>A map built by setting keys in turn keeps the last value of each.\<close>

definition loadSnapshot ::
  "version_row list \<Rightarrow> question_version_row list \<Rightarrow> session_row \<Rightarrow> respond_refusal + loaded_snapshot" where
  "loadSnapshot versions questions session =
     bind_ok (loadFrozenSnapshot versions questions session) (\<lambda>(frozen, version).
     Inr \<lparr>ls_frozen = frozen, ls_compiled = fv_compiled version, ls_questions = snapshot_definitions frozen\<rparr>)"

definition ls_steps :: "loaded_snapshot \<Rightarrow> step list" where
  "ls_steps L = f_steps (snap_definition (ls_frozen L))"

type_synonym held_answers = "(answer_key \<times> answer_value) list"

definition answer_js :: "held_answers \<Rightarrow> (answer_key \<times> jsval) list" where
  "answer_js held = map (\<lambda>(k, v). (k, av_to_js v)) held"

abbreviation answer_lookup :: "held_answers \<Rightarrow> answer_map" where
  "answer_lookup held \<equiv> map_of (answer_js held)"

definition evaluateOrThrow ::
  "respond_host \<Rightarrow> loaded_snapshot \<Rightarrow> held_answers \<Rightarrow> roster_map \<Rightarrow> respond_refusal + flow_state" where
  "evaluateOrThrow P L held rs =
    (case evaluateRules (s_nfc (ph_submit P)) (s_decode (ph_submit P)) (ph_encode P (ls_frozen L)) (answer_lookup held)
        (map_of (ls_questions L)) rs of
       Inl UNSUPPORTED_SEMANTICS_VERSION \<Rightarrow> Inl UnsupportedSemantics
     | Inl _ \<Rightarrow> Inl RespondFault
     | Inr flow \<Rightarrow> Inr flow)"

definition liveRosters :: "respond_host \<Rightarrow> roster_row list \<Rightarrow> string \<Rightarrow> loaded_snapshot \<Rightarrow> held_answers \<Rightarrow> roster_map" where
  "liveRosters P table sessionId L held = loadRosters (ph_rosters P) table sessionId (ls_steps L) (answer_lookup held)"

section \<open>Which page\<close>

definition stepViewsOf :: "flow_state \<Rightarrow> step_view list" where
  "stepViewsOf flow = (case visibleStepViews flow of
     Some vs \<Rightarrow> vs | None \<Rightarrow> map (\<lambda>s. (s, None)) (visibleSteps flow))"

record UnopenedGroups =
  uo_groupIds :: "group_id list"
  uo_stepOf :: "(group_id \<times> step_id) list"

fun find_index :: "('a \<Rightarrow> bool) \<Rightarrow> nat \<Rightarrow> 'a list \<Rightarrow> nat option" where
  "find_index p i [] = None"
| "find_index p i (x # xs) = (if p x then Some i else find_index p (Suc i) xs)"

definition firstUnopenedView :: "step_view list \<Rightarrow> UnopenedGroups option \<Rightarrow> (step_view \<times> nat) option" where
  "firstUnopenedView vs unopened = (case unopened of
     None \<Rightarrow> None
   | Some u \<Rightarrow> if uo_groupIds u = [] then None
       else (let steps = List.map_filter (map_of (uo_stepOf u)) (uo_groupIds u)
             in map_option (\<lambda>i. (vs ! i, i)) (find_index (\<lambda>w. fst w \<in> set steps) 0 vs)))"

definition views_on :: "step_id \<Rightarrow> step_view list \<Rightarrow> nat list" where
  "views_on s vs = filter (\<lambda>i. fst (vs ! i) = s) [0..<length vs]"

definition incomplete_instances :: "flow_state \<Rightarrow> instance_id list" where
  "incomplete_instances flow = List.map_filter snd (opt_default [] (missingRequiredInstances flow))"

definition currentStepView :: "flow_state \<Rightarrow> step_view list \<Rightarrow> step_view option \<times> nat" where
  "currentStepView flow vs = (case currentStep flow of
     None \<Rightarrow> (None, length vs)
   | Some s \<Rightarrow> (case views_on s vs of
       [] \<Rightarrow> (None, length vs)
     | i # is \<Rightarrow> (let chosen = opt_default (last (i # is))
           (List.find (\<lambda>j. case snd (vs ! j) of None \<Rightarrow> False | Some x \<Rightarrow> x \<in> set (incomplete_instances flow)) (i # is))
         in (Some (vs ! chosen), chosen))))"

definition servedView :: "flow_state \<Rightarrow> step_view list \<Rightarrow> UnopenedGroups option \<Rightarrow> step_view option \<times> nat" where
  "servedView flow vs unopened =
    (let owed = firstUnopenedView vs unopened; byFlow = currentStepView flow vs
     in case owed of
          Some (w, i) \<Rightarrow> if fst byFlow = None \<or> i < snd byFlow then (Some w, i) else byFlow
        | None \<Rightarrow> byFlow)"

definition renderTarget ::
  "flow_state \<Rightarrow> nat option \<Rightarrow> UnopenedGroups option \<Rightarrow> step_view option \<times> nat" where
  "renderTarget flow requestedIndex unopened =
    (let vs = stepViewsOf flow
     in case requestedIndex of
          None \<Rightarrow> servedView flow vs unopened
        | Some i \<Rightarrow> if vs = [] then (None, 0)
            else (let clamped = min i (length vs - 1) in (Some (vs ! clamped), clamped)))"

section \<open>The projection\<close>

definition paginatingGroup :: "loaded_snapshot \<Rightarrow> step_id \<Rightarrow> repeat_group option" where
  "paginatingGroup L s = (case List.find (\<lambda>candidate. stepId candidate = s) (ls_steps L) of
     None \<Rightarrow> None
   | Some found_step \<Rightarrow> List.find (\<lambda>g. presentation g = PerInstanceStep) (concat (map item_groups (s_items found_step))))"

definition drawn_here :: "step_view \<Rightarrow> instance_id list \<Rightarrow> visible_entry \<Rightarrow> bool" where
  "drawn_here view paginated e \<longleftrightarrow> v_step e = fst view \<and>
     \<not> (case v_instance e of None \<Rightarrow> False | Some i \<Rightarrow> i \<in> set paginated \<and> snd view \<noteq> Some i)"

definition rendered_keys :: "flow_state \<Rightarrow> step_view \<Rightarrow> instance_id list \<Rightarrow> answer_key list" where
  "rendered_keys flow view paginated =
     map (\<lambda>e. answerKey (v_question e) (v_instance e)) (filter (drawn_here view paginated) (visible flow))"

definition rendered_values :: "held_answers \<Rightarrow> answer_key list \<Rightarrow> held_answers" where
  "rendered_values held keys =
     foldl (\<lambda>m k. case map_of held k of None \<Rightarrow> m | Some v \<Rightarrow> AList.update k v m) [] keys"

definition missingRequiredKeys :: "flow_state \<Rightarrow> string list" where
  "missingRequiredKeys flow = (case missingRequiredInstances flow of
     None \<Rightarrow> missingRequired flow | Some entries \<Rightarrow> map (\<lambda>(q, i). answerKey q i) entries)"

definition rosterProjection :: "loaded_snapshot \<Rightarrow> roster_map \<Rightarrow> (group_id \<times> instance_id list) list" where
  "rosterProjection L rs = map (\<lambda>g. (groupId g, opt_default [] (rs (groupId g)))) (repeatGroups (ls_steps L))"

record StepResponse =
  sr_step :: "a2ui_document option"
  sr_values :: held_answers
  sr_a2uiSpecVersion :: string
  sr_currentStep :: "step_id option"
  sr_visibleQuestions :: "answer_key list"
  sr_missingRequired :: "string list"
  sr_readyToSubmit :: bool
  sr_rosters :: "(group_id \<times> instance_id list) list"
  sr_viewGroup :: "group_id option"
  sr_viewInstance :: "instance_id option"
  sr_stepIndex :: nat
  sr_totalVisibleSteps :: nat

definition projection_of ::
  "loaded_snapshot \<Rightarrow> flow_state \<Rightarrow> roster_map \<Rightarrow> nat \<Rightarrow> a2ui_document option \<Rightarrow> answer_key list \<Rightarrow> held_answers \<Rightarrow>
     group_id option \<Rightarrow> instance_id option \<Rightarrow> StepResponse" where
  "projection_of L flow rs index document keys vals g i = \<lparr>sr_step = document, sr_values = vals,
     sr_a2uiSpecVersion = a2uiSpecVersion (ls_compiled L), sr_currentStep = currentStep flow,
     sr_visibleQuestions = keys, sr_missingRequired = missingRequiredKeys flow, sr_readyToSubmit = complete flow,
     sr_rosters = rosterProjection L rs, sr_viewGroup = g, sr_viewInstance = i,
     sr_stepIndex = index, sr_totalVisibleSteps = length (stepViewsOf flow)\<rparr>"

definition project ::
  "loaded_snapshot \<Rightarrow> flow_state \<Rightarrow> held_answers \<Rightarrow> roster_map \<Rightarrow> nat option \<Rightarrow> UnopenedGroups option \<Rightarrow>
     respond_refusal + StepResponse" where
  "project L flow held rs requestedIndex unopened = (case renderTarget flow requestedIndex unopened of
     (None, index) \<Rightarrow> Inr (projection_of L flow rs index None [] [] None None)
   | (Some view, index) \<Rightarrow> (case List.find (\<lambda>doc. doc_stepId doc = fst view) (documents (ls_compiled L)) of
       None \<Rightarrow> Inl RespondFault
     | Some document \<Rightarrow>
         let grp = paginatingGroup L (fst view);
             paginated = (case grp of None \<Rightarrow> [] | Some g \<Rightarrow> opt_default [] (rs (groupId g)));
             keys = rendered_keys flow view paginated
         in Inr (projection_of L flow rs index (Some document) keys (rendered_values held keys)
              (if snd view = None then None else map_option groupId grp) (snd view))))"

section \<open>Serving\<close>

definition groupStepIndex :: "step list \<Rightarrow> (group_id \<times> step_id) list" where
  "groupStepIndex steps = foldl (\<lambda>m s. foldl (\<lambda>m g. AList.update (groupId g) (stepId s) m) m (repeatGroups [s])) [] steps"

text \<open>
  Two evaluations: the page depends on the rosters and what to mint on the page. The time is
  that of the transaction.
\<close>

definition projectWithRosters ::
  "respond_host \<Rightarrow> loaded_snapshot \<Rightarrow> string \<Rightarrow> held_answers \<Rightarrow> nat option \<Rightarrow> int \<Rightarrow> roster_state \<Rightarrow>
     respond_refusal + StepResponse \<times> roster_state" where
  "projectWithRosters P L sessionId held requestedIndex stamp st =
     bind_ok (evaluateOrThrow P L held (liveRosters P (rs_table st) sessionId L held)) (\<lambda>first.
       let unopened = \<lparr>uo_groupIds = groupsOwedAMint (ph_rosters P) (rs_table st) sessionId (ls_steps L) (answer_lookup held),
                       uo_stepOf = groupStepIndex (ls_steps L)\<rparr>;
           renderStep = map_option fst (fst (renderTarget first requestedIndex (Some unopened)))
       in case mintDueAndLoadRosters (ph_rosters P) (ph_random P) st sessionId (ls_steps L) renderStep (answer_lookup held) stamp of
            None \<Rightarrow> Inl RespondFault
          | Some (rs, st') \<Rightarrow>
              bind_ok (evaluateOrThrow P L held rs) (\<lambda>flow.
              bind_ok (project L flow held rs requestedIndex (Some unopened)) (\<lambda>response.
              Inr (response, st'))))"

definition loadActiveSession :: "session_row list \<Rightarrow> string \<Rightarrow> int \<Rightarrow> respond_refusal + session_row" where
  "loadActiveSession sessions sessionId now = (case getSession sessions sessionId of
     None \<Rightarrow> Inl SessionNotFound
   | Some session \<Rightarrow>
       if sn_status session = Submitted then Inl SessionSubmitted
       else if sn_status session = Expired \<or> sn_expiresAt session \<le> now then Inl SessionExpired
       else Inr session)"

definition held_by :: "respond_host \<Rightarrow> data_db \<Rightarrow> string \<Rightarrow> held_answers" where
  "held_by P db sessionId = latestAnswers (ph_answers P) (at_rows (dd_answers db)) sessionId"

text \<open>The tables of the registry the environment reads.\<close>

record pinned_tables =
  pt_forms :: "form_identity list"
  pt_versions :: "version_row list"
  pt_questions :: "question_version_row list"
  pt_releases :: "release_row list"

definition getStep ::
  "respond_host \<Rightarrow> pinned_tables \<Rightarrow> (data_db \<Rightarrow> data_db) \<Rightarrow> data_db \<Rightarrow> string \<Rightarrow> nat option \<Rightarrow> int \<Rightarrow> int \<Rightarrow>
     respond_refusal + StepResponse \<times> data_db" where
  "getStep P R between db sessionId requestedIndex now stamp =
     bind_ok (loadActiveSession (dd_sessions db) sessionId now) (\<lambda>session.
     bind_ok (loadSnapshot (pt_versions R) (pt_questions R) session) (\<lambda>L.
       let db1 = between db
       in bind_ok (projectWithRosters P L sessionId (held_by P db1 sessionId) requestedIndex stamp (dd_rosters db1))
         (\<lambda>(response, st). Inr (response, db1\<lparr>dd_rosters := st\<rparr>))))"

end
