(* ===== verification/WebhookTarget.thy ===== *)
theory WebhookTarget
  imports ServerPrelude Base64 "HOL-Library.Word"
begin

text \<open>
  What protects and what signs a webhook, under \<^verbatim>\<open>apps/api/src/features/webhooks\<close>:
  \<^verbatim>\<open>ssrf.ts\<close>, \<^verbatim>\<open>mask.ts\<close>, \<^verbatim>\<open>signing.ts\<close> and \<^verbatim>\<open>crypto.ts\<close>. The URL parser of the platform, its
  conversion of text to a number, the cipher, the digest and the decoder are arguments.
\<close>

section \<open>Targets\<close>

datatype WebhookUrlRejection = NotAUrl | UnsupportedScheme | HttpsRequired | PrivateHost

record parsed_url =
  pu_protocol :: string
  pu_hostname :: string
  pu_href :: string

definition unbracket :: "string \<Rightarrow> string" where
  "unbracket host = (if js_startsWith host ''['' \<and> js_endsWith host '']'' then butlast (tl host) else host)"

definition ascii_lower :: "char \<Rightarrow> char" where
  "ascii_lower c = (let n = (of_char c :: nat) in if 65 \<le> n \<and> n \<le> 90 then char_of (n + 32) else c)"

text \<open>\<^verbatim>\<open>toLowerCase\<close>, on the host names the parser answers, which are ASCII.\<close>

definition to_lower :: "string \<Rightarrow> string" where
  "to_lower = map ascii_lower"

definition isLocalhostName :: "string \<Rightarrow> bool" where
  "isLocalhostName host = (let h = to_lower host in h = ''localhost'' \<or> js_endsWith h ''.localhost'')"

fun octet_of :: "jsnum \<Rightarrow> int option" where
  "octet_of (Fin q) = (if of_int (floor q) = q \<and> 0 \<le> q \<and> q \<le> 255 then Some (floor q) else None)"
| "octet_of _ = None"

definition private_octets :: "int \<Rightarrow> int \<Rightarrow> bool" where
  "private_octets a b = (
     if a = 10 then True
     else if a = 127 then True
     else if a = 0 then True
     else if a = 169 \<and> b = 254 then True
     else if a = 172 \<and> 16 \<le> b \<and> b \<le> 31 then True
     else if a = 192 \<and> b = 168 then True
     else if a = 100 \<and> 64 \<le> b \<and> b \<le> 127 then True
     else if 224 \<le> a then True
     else False)"

definition isPrivateIpv4 :: "(string \<Rightarrow> jsnum) \<Rightarrow> string \<Rightarrow> bool" where
  "isPrivateIpv4 number host =
    (let parts = js_split (CHR ''.'') host
     in if length parts \<noteq> 4 then False
        else (case map (\<lambda>p. octet_of (number p)) parts of
            [Some a, Some b, Some _, Some _] \<Rightarrow> private_octets a b
          | _ \<Rightarrow> False))"

text \<open>\<^verbatim>\<open>/^::ffff:(\d{1,3}\.\d{1,3}\.\d{1,3}\.\d{1,3})$/\<close>.\<close>

definition dotted_digits :: "string \<Rightarrow> bool" where
  "dotted_digits s = (let parts = js_split (CHR ''.'') s in length parts = 4 \<and>
     list_all (\<lambda>p. 1 \<le> length p \<and> length p \<le> 3 \<and> list_all (\<lambda>c. 48 \<le> (of_char c :: nat) \<and> (of_char c :: nat) \<le> 57) p) parts)"

definition ipv4_mapped :: "string \<Rightarrow> string option" where
  "ipv4_mapped h = (if js_startsWith h ''::ffff:'' \<and> dotted_digits (drop 7 h) then Some (drop 7 h) else None)"

definition isPrivateIpv6 :: "(string \<Rightarrow> jsnum) \<Rightarrow> string \<Rightarrow> bool" where
  "isPrivateIpv6 number host =
    (let h = to_lower host
     in if h = ''::1'' then True
        else if h = ''::'' then True
        else if js_startsWith h ''fc'' \<or> js_startsWith h ''fd'' then True
        else if js_startsWith h ''fe8'' \<or> js_startsWith h ''fe9'' \<or> js_startsWith h ''fea'' \<or> js_startsWith h ''feb'' then True
        else (case ipv4_mapped h of Some v4 \<Rightarrow> isPrivateIpv4 number v4 | None \<Rightarrow> False))"

definition checkWebhookUrl ::
  "(string \<Rightarrow> parsed_url option) \<Rightarrow> (string \<Rightarrow> jsnum) \<Rightarrow> string \<Rightarrow> bool \<Rightarrow> WebhookUrlRejection + string" where
  "checkWebhookUrl parse number raw allowPrivate =
    (case parse raw of
       None \<Rightarrow> Inl NotAUrl
     | Some url \<Rightarrow>
         let scheme = pu_protocol url
         in if scheme \<noteq> ''https:'' \<and> scheme \<noteq> ''http:'' then Inl UnsupportedScheme
            else if scheme = ''http:'' \<and> \<not> allowPrivate then Inl HttpsRequired
            else let host = unbracket (pu_hostname url)
                 in if \<not> allowPrivate \<and> (isLocalhostName host \<or> isPrivateIpv4 number host \<or> isPrivateIpv6 number host)
                    then Inl PrivateHost else Inr (pu_href url))"

section \<open>Masking\<close>

definition MASKED_QUERY :: string where "MASKED_QUERY = ''(hidden)''"

definition maskEndpointUrl :: "string \<Rightarrow> string" where
  "maskEndpointUrl url =
    (if CHR ''?'' \<notin> set url then url else takeWhile (\<lambda>c. c \<noteq> CHR ''?'') url @ ''?'' @ MASKED_QUERY)"

definition endpointUrlFor :: "string \<Rightarrow> string option \<Rightarrow> string" where
  "endpointUrlFor url visibility = (if visibility = Some ''whole'' then url else maskEndpointUrl url)"

section \<open>Signing\<close>

definition hex_text :: "byte list \<Rightarrow> string" where
  "hex_text bytes = concat (map (\<lambda>b. let d = (\<lambda>n. (''0123456789abcdef'') ! n)
     in [d (unat b div 16), d (unat b mod 16)]) bytes)"

definition signWebhookBody :: "(byte list \<Rightarrow> byte list \<Rightarrow> byte list) \<Rightarrow> string \<Rightarrow> string \<Rightarrow> string \<Rightarrow> string" where
  "signWebhookBody hmac secret timestamp body =
     ''v1='' @ hex_text (hmac (utf8 secret) (utf8 (timestamp @ ''.'' @ body)))"

section \<open>The stored secret\<close>

record secret_host =
  sh_digest :: "byte list \<Rightarrow> byte list"
  sh_seal :: "byte list \<Rightarrow> byte list \<Rightarrow> byte list \<Rightarrow> byte list"
  sh_unseal :: "byte list \<Rightarrow> byte list \<Rightarrow> byte list \<Rightarrow> byte list option"
  sh_text_decode :: "byte list \<Rightarrow> string"

definition IV_BYTES :: nat where "IV_BYTES = 12"

definition SCHEME_PREFIX :: string where "SCHEME_PREFIX = ''v1.''"

definition deriveKey :: "secret_host \<Rightarrow> string \<Rightarrow> byte list" where
  "deriveKey H appKey = sh_digest H (utf8 appKey)"

definition secret_to_base64 :: "byte list \<Rightarrow> string" where
  "secret_to_base64 bytes = btoa (map byte_char bytes)"

definition secret_from_base64 :: "string \<Rightarrow> byte list option" where
  "secret_from_base64 s = map_option (map char_byte) (atob s)"

definition encryptWebhookSecret :: "secret_host \<Rightarrow> byte list \<Rightarrow> string \<Rightarrow> string \<Rightarrow> string" where
  "encryptWebhookSecret H iv plaintext appKey =
     SCHEME_PREFIX @ secret_to_base64 (iv @ sh_seal H (deriveKey H appKey) iv (utf8 plaintext))"

datatype secret_error = UnrecognizedEnvelope | NotBase64 | TooShort | FailedDecryption

definition decryptWebhookSecret :: "secret_host \<Rightarrow> string \<Rightarrow> string \<Rightarrow> secret_error + string" where
  "decryptWebhookSecret H stored appKey =
    (if \<not> js_startsWith stored SCHEME_PREFIX then Inl UnrecognizedEnvelope
     else case secret_from_base64 (drop (length SCHEME_PREFIX) stored) of
         None \<Rightarrow> Inl NotBase64
       | Some packed \<Rightarrow>
           if length packed \<le> IV_BYTES then Inl TooShort
           else (case sh_unseal H (deriveKey H appKey) (take IV_BYTES packed) (drop IV_BYTES packed) of
               None \<Rightarrow> Inl FailedDecryption
             | Some plaintext \<Rightarrow> Inr (sh_text_decode H plaintext)))"

definition generateWebhookSecret :: "byte list \<Rightarrow> string" where
  "generateWebhookSecret bytes = ''whsec_'' @ toBase64Url bytes"

section \<open>Addresses\<close>

text \<open>
  A dotted address as the number it is, and the reserved blocks the check means to refuse,
  each a network and the length of its prefix.
\<close>

definition ipv4_word :: "8 word \<Rightarrow> 8 word \<Rightarrow> 8 word \<Rightarrow> 8 word \<Rightarrow> 32 word" where
  "ipv4_word a b c d = word_of_int (((uint a * 256 + uint b) * 256 + uint c) * 256 + uint d)"

definition in_block :: "32 word \<Rightarrow> 32 word \<times> nat \<Rightarrow> bool" where
  "in_block w block \<longleftrightarrow> drop_bit (32 - snd block) w = drop_bit (32 - snd block) (fst block)"

definition RESERVED_BLOCKS :: "(32 word \<times> nat) list" where
  "RESERVED_BLOCKS =
     [(ipv4_word 10 0 0 0, 8), (ipv4_word 127 0 0 0, 8), (ipv4_word 0 0 0 0, 8), (ipv4_word 169 254 0 0, 16),
      (ipv4_word 172 16 0 0, 12), (ipv4_word 192 168 0 0, 16), (ipv4_word 100 64 0 0, 10),
      (ipv4_word 224 0 0 0, 4), (ipv4_word 240 0 0 0, 4)]"

lemma uint_ipv4: "uint (ipv4_word a b c d) = ((uint a * 256 + uint b) * 256 + uint c) * 256 + uint d"
proof -
  have range: "0 \<le> uint x \<and> uint x < 256" for x :: "8 word" using uint_lt2p [of x] by simp
  have "0 \<le> ((uint a * 256 + uint b) * 256 + uint c) * 256 + uint d"
    "((uint a * 256 + uint b) * 256 + uint c) * 256 + uint d < 2 ^ 32"
    using range [of a] range [of b] range [of c] range [of d] by simp_all
  then show ?thesis unfolding ipv4_word_def by (intro word_of_int_inverse [OF refl]) simp_all
qed

lemma in_block_div: "in_block w (n, k) \<longleftrightarrow> uint w div 2 ^ (32 - k) = uint n div 2 ^ (32 - k)"
proof -
  have "uint (drop_bit (32 - k) w) = uint w div 2 ^ (32 - k)" for w :: "32 word"
    using uint_lt2p [of w] unfolding unsigned_drop_bit_eq by (simp add: drop_bit_eq_div take_bit_int_eq_self)
  then show ?thesis by (simp only: in_block_def word_uint_eq_iff fst_conv snd_conv)
qed

lemma block_8: "uint (ipv4_word a b c d) div 16777216 = uint a"
  and block_16: "uint (ipv4_word a b c d) div 65536 = uint a * 256 + uint b"
proof -
  have range: "0 \<le> uint x \<and> uint x < 256" for x :: "8 word" using uint_lt2p [of x] by simp
  show "uint (ipv4_word a b c d) div 16777216 = uint a"
    using range [of b] range [of c] range [of d] unfolding uint_ipv4
    by (intro int_div_pos_eq [where r = "(uint b * 256 + uint c) * 256 + uint d"]) auto
  show "uint (ipv4_word a b c d) div 65536 = uint a * 256 + uint b"
    using range [of c] range [of d] unfolding uint_ipv4
    by (intro int_div_pos_eq [where r = "uint c * 256 + uint d"]) auto
qed

lemma block_12: "uint (ipv4_word a b c d) div 1048576 = (uint a * 256 + uint b) div 16"
  and block_10: "uint (ipv4_word a b c d) div 4194304 = (uint a * 256 + uint b) div 64"
  and block_4: "uint (ipv4_word a b c d) div 268435456 = uint a div 16"
proof -
  have finer: "x div 1048576 = (x div 65536) div 16" "x div 4194304 = (x div 65536) div 64"
    "x div 268435456 = (x div 16777216) div 16" for x :: int
    by (simp_all add: zdiv_zmult2_eq [symmetric])
  show "uint (ipv4_word a b c d) div 1048576 = (uint a * 256 + uint b) div 16"
    "uint (ipv4_word a b c d) div 4194304 = (uint a * 256 + uint b) div 64"
    "uint (ipv4_word a b c d) div 268435456 = uint a div 16"
    unfolding finer block_8 block_16 by (rule refl)+
qed

lemma octet_pair:
  assumes "0 \<le> y" "y < 256" "0 \<le> p" "q < (256 :: int)"
  shows "c * 256 + p \<le> x * 256 + y \<and> x * 256 + y \<le> c * 256 + q \<longleftrightarrow> x = c \<and> p \<le> y \<and> y \<le> q"
proof
  assume between: "c * 256 + p \<le> x * 256 + y \<and> x * 256 + y \<le> c * 256 + q"
  have "x \<le> c" "c \<le> x" using between assms by linarith+
  with between show "x = c \<and> p \<le> y \<and> y \<le> q" by auto
qed auto

lemma reserved_iff:
  "list_ex (in_block (ipv4_word a b c d)) RESERVED_BLOCKS \<longleftrightarrow> private_octets (uint a) (uint b)"
proof -
  have range: "0 \<le> uint a" "uint a < 256" "0 \<le> uint b" "uint b < 256"
    using uint_lt2p [of a] uint_lt2p [of b] by simp_all
  let ?n = "uint a * 256 + uint b"
  have "?n = 43518 \<longleftrightarrow> uint a = 169 \<and> uint b = 254" "?n = 49320 \<longleftrightarrow> uint a = 192 \<and> uint b = 168"
    using octet_pair [of "uint b" 254 254 169 "uint a"] octet_pair [of "uint b" 168 168 192 "uint a"] range by auto
  moreover have "?n div 16 = 2753 \<longleftrightarrow> uint a = 172 \<and> 16 \<le> uint b \<and> uint b \<le> 31"
    "?n div 64 = 401 \<longleftrightarrow> uint a = 100 \<and> 64 \<le> uint b \<and> uint b \<le> 127"
  proof -
    have "n div 16 = 2753 \<longleftrightarrow> 44048 \<le> n \<and> n \<le> 44063" "n div 64 = 401 \<longleftrightarrow> 25664 \<le> n \<and> n \<le> 25727"
      for n :: int by presburger+
    then show "?n div 16 = 2753 \<longleftrightarrow> uint a = 172 \<and> 16 \<le> uint b \<and> uint b \<le> 31"
      "?n div 64 = 401 \<longleftrightarrow> uint a = 100 \<and> 64 \<le> uint b \<and> uint b \<le> 127"
      using octet_pair [of "uint b" 16 31 172 "uint a"] octet_pair [of "uint b" 64 127 100 "uint a"] range by simp_all
  qed
  moreover have "uint a div 16 = 14 \<or> uint a div 16 = 15 \<longleftrightarrow> 224 \<le> uint a"
    using range(2) by presburger
  ultimately have reserved: "uint a = 10 \<or> uint a = 127 \<or> uint a = 0 \<or> ?n = 43518 \<or> ?n div 16 = 2753 \<or> ?n = 49320 \<or>
      ?n div 64 = 401 \<or> uint a div 16 = 14 \<or> uint a div 16 = 15 \<longleftrightarrow> private_octets (uint a) (uint b)"
    by (auto simp: private_octets_def)
  let ?w = "ipv4_word a b c d"
  have "list_ex (in_block ?w) RESERVED_BLOCKS \<longleftrightarrow>
      uint a = 10 \<or> uint a = 127 \<or> uint a = 0 \<or> uint a * 256 + uint b = 43518 \<or>
      (uint a * 256 + uint b) div 16 = 2753 \<or> uint a * 256 + uint b = 49320 \<or>
      (uint a * 256 + uint b) div 64 = 401 \<or> uint a div 16 = 14 \<or> uint a div 16 = 15"
    unfolding RESERVED_BLOCKS_def list_ex_Cons_iff list_ex_Nil_iff in_block_div
    by (simp add: block_8 block_16 block_12 block_10 block_4)
  also have "\<dots> \<longleftrightarrow> private_octets (uint a) (uint b)"
    by (rule reserved)
  finally show ?thesis .
qed

text \<open>What the code relies on of the platform's number: the numerals of octets.\<close>

definition reads_octets :: "(string \<Rightarrow> jsnum) \<Rightarrow> (8 word \<Rightarrow> string) \<Rightarrow> bool" where
  "reads_octets number numeral_of \<longleftrightarrow> (\<forall>b. number (numeral_of b) = Fin (of_int (uint b)) \<and>
     CHR ''.'' \<notin> set (numeral_of b))"

definition dotted :: "(8 word \<Rightarrow> string) \<Rightarrow> 8 word \<Rightarrow> 8 word \<Rightarrow> 8 word \<Rightarrow> 8 word \<Rightarrow> string" where
  "dotted numeral_of a b c d = js_join ''.'' [numeral_of a, numeral_of b, numeral_of c, numeral_of d]"

lemma isPrivateIpv4_dotted:
  assumes "reads_octets number numeral_of"
  shows "isPrivateIpv4 number (dotted numeral_of a b c d) \<longleftrightarrow> list_ex (in_block (ipv4_word a b c d)) RESERVED_BLOCKS"
proof -
  have parts: "js_split (CHR ''.'') (dotted numeral_of a b c d) = [numeral_of a, numeral_of b, numeral_of c, numeral_of d]"
    unfolding dotted_def by (rule js_split_join) (use assms in \<open>auto simp: reads_octets_def\<close>)
  have "octet_of (Fin (of_int n)) = Some n" if "0 \<le> n" "n \<le> 255" for n using that by simp
  moreover have "0 \<le> uint x" "uint x \<le> 255" for x :: "8 word" using uint_lt2p [of x] by simp_all
  ultimately have octet: "octet_of (number (numeral_of x)) = Some (uint x)" for x
    using assms unfolding reads_octets_def by metis
  show ?thesis by (simp add: isPrivateIpv4_def parts octet reserved_iff)
qed

section \<open>Facts on masking and secrets\<close>

lemma masked_hides_query:
  "maskEndpointUrl (base @ ''?'' @ q) = maskEndpointUrl (base @ ''?'' @ q')"
proof (cases "CHR ''?'' \<in> set base")
  case True
  then show ?thesis by (simp add: maskEndpointUrl_def takeWhile_append1)
next
  case False
  then have "takeWhile (\<lambda>c. c \<noteq> CHR ''?'') (base @ CHR ''?'' # t) = base" for t by (induction base) auto
  then show ?thesis by (simp add: maskEndpointUrl_def)
qed

definition secret_laws :: "secret_host \<Rightarrow> bool" where
  "secret_laws H \<longleftrightarrow> (\<forall>key iv text. sh_seal H key iv text \<noteq> [] \<and>
      sh_unseal H key iv (sh_seal H key iv text) = Some text) \<and>
     (\<forall>s. sh_text_decode H (utf8 s) = s)"

lemma decrypt_encrypt:
  assumes "secret_laws H" "length iv = IV_BYTES"
  shows "decryptWebhookSecret H (encryptWebhookSecret H iv plaintext appKey) appKey = Inr plaintext"
proof -
  let ?packed = "iv @ sh_seal H (deriveKey H appKey) iv (utf8 plaintext)"
  have "secret_from_base64 (secret_to_base64 ?packed) = Some ?packed"
    unfolding secret_from_base64_def secret_to_base64_def atob_btoa option.map map_char_byte_char ..
  then have "secret_from_base64 (drop (length SCHEME_PREFIX) (encryptWebhookSecret H iv plaintext appKey)) = Some ?packed"
    by (simp add: encryptWebhookSecret_def)
  moreover have "js_startsWith (encryptWebhookSecret H iv plaintext appKey) SCHEME_PREFIX"
    by (simp add: encryptWebhookSecret_def js_startsWith_def)
  ultimately show ?thesis using assms by (simp add: decryptWebhookSecret_def secret_laws_def)
qed

end
