(* ===== verification/DeliveryPass.thy ===== *)
theory DeliveryPass
  imports DataStore WebhookTarget ReleaseStore
begin

text \<open>
  \<^verbatim>\<open>apps/api/src/schedulers/outbox-delivery.ts\<close> and \<^verbatim>\<open>retention-sweep.ts\<close>: a pass of the
  deliverer fans events out into deliveries and then sends what is due_row, each in a transaction
  of its own, and a pass of the sweep. The network is an argument: what it answers to the
  \<^verbatim>\<open>n\<close>-th request. The requests made are kept as a list beside the tables, since a rollback
  does not take them back. The order in which a query finds rows, and the rows locked by
  other transactions, are arguments too. A pass reads the clock once here; the code reads it
  again for the fan-out, the claims and each request, within one pass.
\<close>

section \<open>The host\<close>

record web_request =
  wr_url :: string
  wr_headers :: "(string \<times> string) list"
  wr_body :: string

datatype fetch_outcome = Responded int string | AbortError | OtherError

record delivery_host =
  dh_parse :: "string \<Rightarrow> parsed_url option"
  dh_number :: "string \<Rightarrow> jsnum"
  dh_secret :: secret_host
  dh_hmac :: "byte list \<Rightarrow> byte list \<Rightarrow> byte list"
  dh_stringify :: "jsval \<Rightarrow> string"
  dh_iso :: "int \<Rightarrow> string"
  dh_int_text :: "int \<Rightarrow> string"
  dh_delivery_uuid :: "nat \<Rightarrow> string"
  dh_fetch :: "nat \<Rightarrow> web_request \<Rightarrow> fetch_outcome"
  dh_latency :: "nat \<Rightarrow> int"
  dh_uuid :: uuid_source
  dh_events :: "outbox_row list \<Rightarrow> outbox_row list"
  dh_hooks :: "webhook_row list \<Rightarrow> webhook_row list"
  dh_deliveries :: "delivery_row list \<Rightarrow> delivery_row list"

record delivery_config =
  dc_allowPrivateTargets :: bool
  dc_deliveryBatchSize :: nat
  dc_appKey :: string

definition RESPONSE_SUBMITTED :: string where "RESPONSE_SUBMITTED = ''response.submitted''"

definition SIGNATURE_MASK :: string where "SIGNATURE_MASK = ''v1=<masked>''"

definition RESPONSE_SNIPPET_MAX :: nat where "RESPONSE_SNIPPET_MAX = 500"

section \<open>Fanning out\<close>

definition resolveFormId :: "jsval \<Rightarrow> string option" where
  "resolveFormId payload = (case js_prop ''formId'' payload of
     JStr raw \<Rightarrow> if FormId raw then Some raw else None
   | _ \<Rightarrow> None)"

definition fan_out_one :: "delivery_host \<Rightarrow> outbox_row \<Rightarrow> int \<Rightarrow> data_db \<times> nat \<Rightarrow> webhook_row \<Rightarrow> data_db \<times> nat" where
  "fan_out_one H event now st hook =
    (if \<not> wh_active hook then st
     else ((fst st)\<lparr>dd_deliveries := insertDelivery (dh_uuid H) (dd_deliveries (fst st)) (ob_id event) (wh_webhookId hook) now now\<rparr>,
           snd st + 1))"

definition fanOutEvent :: "delivery_host \<Rightarrow> data_db \<Rightarrow> outbox_row \<Rightarrow> int \<Rightarrow> data_db \<times> nat" where
  "fanOutEvent H db event now =
    (if ob_eventType event \<noteq> RESPONSE_SUBMITTED then (db, 0)
     else case resolveFormId (ob_payload event) of
         None \<Rightarrow> (db, 0)
       | Some fid \<Rightarrow>
           foldl (fan_out_one H event now) (db, 0) (listWebhooks (dh_hooks H) (dd_webhooks db) fid))"

definition materialize_one :: "delivery_host \<Rightarrow> int \<Rightarrow> data_db \<times> nat \<Rightarrow> outbox_row \<Rightarrow> data_db \<times> nat" where
  "materialize_one H now st event =
    (let r = fanOutEvent H (fst st) event now
     in (set_events (fst (markDelivered (events_of (fst r)) (ob_id event) now)) (fst r), snd st + snd r))"

definition materialize :: "delivery_host \<Rightarrow> delivery_config \<Rightarrow> nat list \<Rightarrow> data_db \<Rightarrow> int \<Rightarrow> data_db \<times> nat" where
  "materialize H C locked db now =
     foldl (materialize_one H now) (db, 0)
       (claimDue (dh_events H) locked (events_of db) (dc_deliveryBatchSize C) now)"

section \<open>One delivery\<close>

datatype delivery_result = Delivered delivery_attempt | NotDelivered string "delivery_attempt option"

fun url_rejection_text :: "WebhookUrlRejection \<Rightarrow> string" where
  "url_rejection_text NotAUrl = ''not-a-url''"
| "url_rejection_text UnsupportedScheme = ''unsupported-scheme''"
| "url_rejection_text HttpsRequired = ''https-required''"
| "url_rejection_text PrivateHost = ''private-host''"

definition delivery_body :: "delivery_host \<Rightarrow> due_delivery \<Rightarrow> string \<Rightarrow> int \<Rightarrow> string" where
  "delivery_body H due_row eventId now = dh_stringify H (JObj
     [(''eventId'', JStr eventId), (''eventType'', JStr (du_eventType due_row)),
      (''deliveredAt'', JStr (dh_iso H now)), (''payload'', du_payload due_row)])"

definition delivery_headers :: "due_delivery \<Rightarrow> string \<Rightarrow> string \<Rightarrow> string \<Rightarrow> (string \<times> string) list" where
  "delivery_headers due_row deliveryUuid timestamp signature =
     [(''content-type'', ''application/json''), (''x-qcms-event'', du_eventType due_row),
      (''x-qcms-delivery'', deliveryUuid), (''x-qcms-timestamp'', timestamp), (''x-qcms-signature'', signature)]"

definition attempt_of ::
  "delivery_host \<Rightarrow> nat \<Rightarrow> int \<Rightarrow> (string \<times> string) list \<Rightarrow> int option \<Rightarrow> string option \<Rightarrow> delivery_attempt" where
  "attempt_of H n now storedHeaders status snippet =
     \<lparr>da_at = now, da_status = status, da_latencyMs = dh_latency H n, da_requestHeaders = Some storedHeaders,
      da_responseSnippet = snippet\<rparr>"

text \<open>The request as built, once the target and the secret are good; the event's id as text is an argument.\<close>

definition request_of ::
  "delivery_host \<Rightarrow> due_delivery \<Rightarrow> string \<Rightarrow> nat \<Rightarrow> string \<Rightarrow> string \<Rightarrow> int \<Rightarrow> web_request" where
  "request_of H due_row eventId n url secret now =
    (let sent_body = delivery_body H due_row eventId now;
         timestamp = dh_int_text H (now div 1000)
     in \<lparr>wr_url = url, wr_headers = delivery_headers due_row (dh_delivery_uuid H n) timestamp
           (signWebhookBody (dh_hmac H) secret timestamp sent_body), wr_body = sent_body\<rparr>)"

definition stored_headers :: "web_request \<Rightarrow> (string \<times> string) list" where
  "stored_headers r = AList.update ''x-qcms-signature'' SIGNATURE_MASK (wr_headers r)"

definition fetch_result :: "delivery_host \<Rightarrow> nat \<Rightarrow> int \<Rightarrow> web_request \<Rightarrow> delivery_result" where
  "fetch_result H n now request =
    (let headers = stored_headers request
     in case dh_fetch H n request of
         Responded status response_body \<Rightarrow>
           let attempt = attempt_of H n now headers (Some status) (Some (take RESPONSE_SNIPPET_MAX response_body))
           in if 200 \<le> status \<and> status < 300 then Delivered attempt
              else NotDelivered (''http_'' @ dh_int_text H status) (Some attempt)
       | AbortError \<Rightarrow> NotDelivered ''timeout'' (Some (attempt_of H n now headers None None))
       | OtherError \<Rightarrow> NotDelivered ''network_error'' (Some (attempt_of H n now headers None None)))"

definition deliverOne ::
  "delivery_host \<Rightarrow> delivery_config \<Rightarrow> due_delivery \<Rightarrow> string \<Rightarrow> nat \<Rightarrow> int \<Rightarrow> delivery_result \<times> web_request option" where
  "deliverOne H C due_row eventId n now =
    (case checkWebhookUrl (dh_parse H) (dh_number H) (du_url due_row) (dc_allowPrivateTargets C) of
       Inl reason \<Rightarrow> (NotDelivered (''ssrf_rejected:'' @ url_rejection_text reason) None, None)
     | Inr url \<Rightarrow>
         (case decryptWebhookSecret (dh_secret H) (du_secretEncrypted due_row) (dc_appKey C) of
            Inl _ \<Rightarrow> (NotDelivered ''secret_decrypt_failed'' None, None)
          | Inr secret \<Rightarrow>
              let request = request_of H due_row eventId n url secret now
              in (fetch_result H n now request, Some request)))"

section \<open>The pass\<close>

record pass_state =
  ps_db :: data_db
  ps_sends :: "(due_delivery \<times> web_request) list"

datatype step_outcome = OutDelivered | OutFailed | OutDeadLettered

record delivery_metrics =
  dm_materialized :: nat
  dm_claimed :: nat
  dm_delivered :: nat
  dm_failed :: nat
  dm_deadLettered :: nat

text \<open>One transaction: \<^term>\<open>None\<close> when nothing is due_row.\<close>

definition settle :: "delivery_result \<Rightarrow> nat \<Rightarrow> int \<Rightarrow> delivery_row list \<Rightarrow> delivery_row list \<times> step_outcome" where
  "settle result i now rows = (case result of
     Delivered attempt \<Rightarrow> (fst (markDeliveryDelivered rows i now (Some attempt)), OutDelivered)
   | NotDelivered error attempt \<Rightarrow>
       (let (rows', row) = recordDeliveryFailure rows i error now attempt
        in (rows', case row of Some r \<Rightarrow> if dv_deadLetteredAt r \<noteq> None then OutDeadLettered else OutFailed
                     | None \<Rightarrow> OutFailed)))"

definition deliver_next ::
  "delivery_host \<Rightarrow> delivery_config \<Rightarrow> (nat \<Rightarrow> string) \<Rightarrow> nat list \<Rightarrow> int \<Rightarrow> pass_state \<Rightarrow> (pass_state \<times> step_outcome) option" where
  "deliver_next H C id_text locked now s =
    (case claimDueDeliveries (dh_deliveries H) locked (events_of (ps_db s)) (dd_webhooks (ps_db s))
        (deliveries_of (ps_db s)) 1 now of
       [] \<Rightarrow> None
     | due_row # _ \<Rightarrow>
         let (result, request) = deliverOne H C due_row (id_text (du_outboxId due_row)) (length (ps_sends s)) now;
             (rows, outcome) = settle result (du_deliveryId due_row) now (deliveries_of (ps_db s))
         in Some (s\<lparr>ps_db := set_deliveries rows (ps_db s),
                    ps_sends := ps_sends s @ (case request of None \<Rightarrow> [] | Some r \<Rightarrow> [(due_row, r)])\<rparr>, outcome))"

text \<open>The same transaction rolled back after its send: the tables are as they were, the request is out.\<close>

definition deliver_crashed ::
  "delivery_host \<Rightarrow> delivery_config \<Rightarrow> (nat \<Rightarrow> string) \<Rightarrow> nat list \<Rightarrow> int \<Rightarrow> pass_state \<Rightarrow> pass_state option" where
  "deliver_crashed H C id_text locked now s =
     map_option (\<lambda>(s', _). s'\<lparr>ps_db := ps_db s\<rparr>) (deliver_next H C id_text locked now s)"

definition count_outcome :: "step_outcome \<Rightarrow> delivery_metrics \<Rightarrow> delivery_metrics" where
  "count_outcome outcome m = (let m' = m\<lparr>dm_claimed := dm_claimed m + 1\<rparr> in case outcome of
     OutDelivered \<Rightarrow> m'\<lparr>dm_delivered := dm_delivered m' + 1\<rparr>
   | OutDeadLettered \<Rightarrow> m'\<lparr>dm_deadLettered := dm_deadLettered m' + 1\<rparr>
   | OutFailed \<Rightarrow> m'\<lparr>dm_failed := dm_failed m' + 1\<rparr>)"

fun deliverDue ::
  "delivery_host \<Rightarrow> delivery_config \<Rightarrow> (nat \<Rightarrow> string) \<Rightarrow> nat list \<Rightarrow> int \<Rightarrow> nat \<Rightarrow> pass_state \<Rightarrow> delivery_metrics \<Rightarrow>
     pass_state \<times> delivery_metrics" where
  "deliverDue H C id_text locked now 0 s m = (s, m)"
| "deliverDue H C id_text locked now (Suc i) s m =
     (case deliver_next H C id_text locked now s of
        None \<Rightarrow> (s, m)
      | Some (s', outcome) \<Rightarrow> deliverDue H C id_text locked now i s' (count_outcome outcome m))"

definition runDeliveryPass ::
  "delivery_host \<Rightarrow> delivery_config \<Rightarrow> (nat \<Rightarrow> string) \<Rightarrow> nat list \<Rightarrow> nat list \<Rightarrow> int \<Rightarrow> pass_state \<Rightarrow>
     pass_state \<times> delivery_metrics" where
  "runDeliveryPass H C id_text lockedEvents locked now s =
    (let (db, n) = materialize H C lockedEvents (ps_db s) now
     in deliverDue H C id_text locked now (dc_deliveryBatchSize C) (s\<lparr>ps_db := db\<rparr>)
          \<lparr>dm_materialized = n, dm_claimed = 0, dm_delivered = 0, dm_failed = 0, dm_deadLettered = 0\<rparr>)"

text \<open>Every environment in turn; one that cannot be reached is stepped over.\<close>

definition runDeliveryPassForEveryEnvironment ::
  "(string \<Rightarrow> pass_state \<Rightarrow> pass_state option) \<Rightarrow> string list \<Rightarrow> (string \<Rightarrow> pass_state) \<Rightarrow> string \<Rightarrow> pass_state" where
  "runDeliveryPassForEveryEnvironment pass names envs =
     foldl (\<lambda>envs name. case pass name (envs name) of None \<Rightarrow> envs | Some s \<Rightarrow> envs(name := s)) envs names"

section \<open>The retention sweep\<close>

record retention_windows =
  rw_deliveryResponseSnippetMs :: int
  rw_outboxPayloadMs :: int

record environment_retention =
  er_name :: string
  er_deliverySnippetTtlMs :: "int option"
  er_outboxPayloadTtlMs :: "int option"

definition windowsForEveryEnvironment ::
  "retention_windows \<Rightarrow> environment_retention list \<Rightarrow> (string \<times> retention_windows) list" where
  "windowsForEveryEnvironment ttl rows = foldl (\<lambda>m row. AList.update (er_name row)
     \<lparr>rw_deliveryResponseSnippetMs = opt_default (rw_deliveryResponseSnippetMs ttl) (er_deliverySnippetTtlMs row),
      rw_outboxPayloadMs = opt_default (rw_outboxPayloadMs ttl) (er_outboxPayloadTtlMs row)\<rparr> m) [] rows"

definition sweepEnvironment ::
  "(outbox_row list \<Rightarrow> outbox_row list) \<Rightarrow> retention_windows \<Rightarrow> int \<Rightarrow> data_db \<Rightarrow> data_db" where
  "sweepEnvironment arrange window now db =
    (let db1 = db\<lparr>dd_sessions := fst (sweepExpiredSessions (dd_sessions db) now)\<rparr>;
         db2 = set_deliveries (fst (redactAgedResponseSnippets (now - rw_deliveryResponseSnippetMs window) now
                 (deliveries_of db1))) db1
     in set_events (fst (redactAgedOutboxPayloads arrange (deliveries_of db2) (now - rw_outboxPayloadMs window) now
                 (events_of db2))) db2)"

text \<open>The stored confirmations are of the control schema, so one step sweeps them for all environments.\<close>

definition sweepControlPlane :: "int \<Rightarrow> 'r release_batch_row list \<Rightarrow> 'r release_batch_row list" where
  "sweepControlPlane now batches = fst (purgeExpiredReleaseBatches batches (now - RELEASE_BATCH_RETENTION_MS))"

definition sweepEveryEnvironment ::
  "(outbox_row list \<Rightarrow> outbox_row list) \<Rightarrow> retention_windows \<Rightarrow> environment_retention list \<Rightarrow> int \<Rightarrow> string list \<Rightarrow>
     'r release_batch_row list \<times> (string \<Rightarrow> data_db) \<Rightarrow> 'r release_batch_row list \<times> (string \<Rightarrow> data_db)" where
  "sweepEveryEnvironment arrange ttl rows now names st =
    (let windows = windowsForEveryEnvironment ttl rows
     in (sweepControlPlane now (fst st),
         foldl (\<lambda>envs name. envs(name := sweepEnvironment arrange (opt_default ttl (map_of windows name)) now (envs name)))
           (snd st) names))"

end
