(* ===== verification/CompactToken.thy ===== *)
theory CompactToken
  imports Base64
begin

text \<open>
  \<^verbatim>\<open>packages/core/src/compact-token.ts\<close>: signed compact tokens, a canonical JSON payload and its
  HMAC, each in URL-safe Base64, joined by a dot. The cryptography, the text decoder, the
  spelling of numbers and the reading of dates are the host's and come as one record.
\<close>

section \<open>The host\<close>

record 'k token_host =
  h_num_text :: "rat \<Rightarrow> string"
  h_num_of :: "string \<Rightarrow> jsnum"
  h_text_decode :: "byte list \<Rightarrow> string"
  h_sign :: "'k \<Rightarrow> byte list \<Rightarrow> byte list"
  h_verify :: "'k \<Rightarrow> byte list \<Rightarrow> byte list \<Rightarrow> bool"
  h_iso_datetime :: "string \<Rightarrow> bool"
  h_date_ms :: "string \<Rightarrow> jsnum"

text \<open>
  What the code relies on: numbers (those of \<open>D\<close>) read back from their numerals, the decoder
  inverts the encoder, a signature is not empty and verifies under its own key.
\<close>

definition host_laws :: "'k token_host \<Rightarrow> rat set \<Rightarrow> bool" where
  "host_laws H D \<longleftrightarrow>
     json_numerals (h_num_text H) (h_num_of H) D \<and>
     (\<forall>s. h_text_decode H (utf8 s) = s) \<and>
     (\<forall>k m. h_sign H k m \<noteq> [] \<and> h_verify H k (h_sign H k m) m)"

text \<open>A message authentication code is a function: what verifies is the signature itself.\<close>

definition exact_mac :: "'k token_host \<Rightarrow> bool" where
  "exact_mac H \<longleftrightarrow> (\<forall>k s m. h_verify H k s m \<longrightarrow> s = h_sign H k m)"

section \<open>Purposes, claims and errors\<close>

datatype token_purpose = LinkPurpose | SessionPurpose

fun purpose_text :: "token_purpose \<Rightarrow> string" where
  "purpose_text LinkPurpose = ''link''"
| "purpose_text SessionPurpose = ''session''"

definition TOKEN_PURPOSES :: "token_purpose list" where
  "TOKEN_PURPOSES = [LinkPurpose, SessionPurpose]"

definition TokenPurpose :: "jsval \<Rightarrow> token_purpose option" where
  "TokenPurpose v = find (\<lambda>p. v = JStr (purpose_text p)) TOKEN_PURPOSES"

datatype compact_token_error = MALFORMED | BAD_SIGNATURE | WRONG_PURPOSE | EXPIRED

datatype type_error = ReservedClaim | WeakKey nat | InvalidLinkClaims

type_synonym token_claims = "(string \<times> jsval) list"

text \<open>
  The loose payload schema: the two declared members first, the others in their order. Only an
  absent or undefined expiry, or a date-time text, is accepted.
\<close>

definition undeclared :: "token_claims \<Rightarrow> token_claims" where
  "undeclared props = filter (\<lambda>(k, v). k \<noteq> ''purpose'' \<and> k \<noteq> ''expiresAt'') props"

definition expiry_claim :: "(string \<Rightarrow> bool) \<Rightarrow> token_claims \<Rightarrow> token_claims option" where
  "expiry_claim dt props =
     (case map_of props ''expiresAt'' of
        None \<Rightarrow> Some []
      | Some JUndefined \<Rightarrow> Some [(''expiresAt'', JUndefined)]
      | Some (JStr e) \<Rightarrow> if dt e then Some [(''expiresAt'', JStr e)] else None
      | Some _ \<Rightarrow> None)"

fun CompactTokenPayload :: "(string \<Rightarrow> bool) \<Rightarrow> jsval \<Rightarrow> (token_purpose \<times> token_claims) option" where
  "CompactTokenPayload dt (JObj props) =
     (case (Option.bind (map_of props ''purpose'') TokenPurpose, expiry_claim dt props) of
        (Some p, Some e) \<Rightarrow> Some (p, e @ undeclared props)
      | _ \<Rightarrow> None)"
| "CompactTokenPayload dt _ = None"

section \<open>Keys\<close>

definition COMPACT_TOKEN_MIN_KEY_BYTES :: nat where
  "COMPACT_TOKEN_MIN_KEY_BYTES = 32"

definition importCompactTokenKey :: "(byte list \<Rightarrow> 'k) \<Rightarrow> byte list \<Rightarrow> (type_error, 'k) result" where
  "importCompactTokenKey importKey rawKey =
     (if length rawKey < COMPACT_TOKEN_MIN_KEY_BYTES then err (WeakKey (length rawKey))
      else ok (importKey rawKey))"

section \<open>Signing and verifying\<close>

definition signCompactToken ::
  "'k token_host \<Rightarrow> token_purpose \<Rightarrow> token_claims \<Rightarrow> 'k \<Rightarrow> (type_error, string) result" where
  "signCompactToken H purpose claims key =
     (if ''purpose'' \<in> fst ` set claims then err ReservedClaim
      else
        let payload = JObj (claims @ [(''purpose'', JStr (purpose_text purpose))]);
            payloadSegment = toBase64Url (utf8 (canonicalJson (h_num_text H) payload));
            signature = h_sign H key (utf8 payloadSegment) in
        ok (payloadSegment @ ''.'' @ toBase64Url signature))"

definition num_ge :: "jsnum \<Rightarrow> jsnum \<Rightarrow> bool" where
  "num_ge a b \<longleftrightarrow> num_lt b a \<or> num_eq a b"

definition claims_expired :: "'k token_host \<Rightarrow> token_claims \<Rightarrow> jsnum \<Rightarrow> bool" where
  "claims_expired H claims now =
     (case map_of claims ''expiresAt'' of Some (JStr e) \<Rightarrow> num_ge now (h_date_ms H e) | _ \<Rightarrow> False)"

definition open_payload ::
  "'k token_host \<Rightarrow> token_purpose \<Rightarrow> byte list \<Rightarrow> jsnum \<Rightarrow> (compact_token_error, token_claims) result" where
  "open_payload H purpose payloadBytes now =
     (case json_parse (h_num_of H) (h_text_decode H payloadBytes) of
        None \<Rightarrow> err MALFORMED
      | Some decoded \<Rightarrow>
          (case CompactTokenPayload (h_iso_datetime H) decoded of
             None \<Rightarrow> err MALFORMED
           | Some (tokenPurpose, claims) \<Rightarrow>
               if tokenPurpose \<noteq> purpose then err WRONG_PURPOSE
               else if claims_expired H claims now then err EXPIRED
               else ok claims))"

definition verifyCompactToken ::
  "'k token_host \<Rightarrow> token_purpose \<Rightarrow> string \<Rightarrow> 'k list \<Rightarrow> jsnum \<Rightarrow>
     (compact_token_error, token_claims) result" where
  "verifyCompactToken H purpose token keys now =
     (case js_split (CHR ''.'') token of
        [payloadSegment, signatureSegment] \<Rightarrow>
          (case (fromBase64Url payloadSegment, fromBase64Url signatureSegment) of
             (Some payloadBytes, Some signatureBytes) \<Rightarrow>
               if list_ex (\<lambda>key. h_verify H key signatureBytes (utf8 payloadSegment)) keys
               then open_payload H purpose payloadBytes now
               else err BAD_SIGNATURE
           | _ \<Rightarrow> err MALFORMED)
      | _ \<Rightarrow> err MALFORMED)"

section \<open>Splitting a token\<close>

lemma base64url_no_dot: "list_all base64url_char s \<Longrightarrow> CHR ''.'' \<notin> set s"
  by (auto simp: list_all_iff base64url_char_def)

lemma js_split_segments:
  "list_all base64url_char s \<Longrightarrow> list_all base64url_char t \<Longrightarrow> js_split (CHR ''.'') (s @ ''.'' @ t) = [s, t]"
  by (simp add: js_split_sep js_split_plain base64url_no_dot)

text \<open>Every outcome of the verifier, with what it takes to get it.\<close>

lemma verify_cases:
  assumes "js_split (CHR ''.'') token = [ps, ss]" "fromBase64Url ps = Some pb" "fromBase64Url ss = Some sb"
  shows "verifyCompactToken H p token keys now =
    (if \<exists>key \<in> set keys. h_verify H key sb (utf8 ps) then open_payload H p pb now else err BAD_SIGNATURE)"
  using assms by (simp add: verifyCompactToken_def list_ex_iff)

lemma verify_ok_iff:
  "verifyCompactToken H p token keys now = Inr claims \<longleftrightarrow>
     (\<exists>ps ss pb sb. js_split (CHR ''.'') token = [ps, ss] \<and> fromBase64Url ps = Some pb \<and>
        fromBase64Url ss = Some sb \<and> (\<exists>key \<in> set keys. h_verify H key sb (utf8 ps)) \<and>
        open_payload H p pb now = Inr claims)"
  by (auto simp: verifyCompactToken_def list_ex_iff err_def split: list.splits option.splits if_splits)

section \<open>A token that was signed\<close>

text \<open>Claims the signer may be given: an object without a purpose whose expiry, if any, is a date-time.\<close>

definition signable :: "'k token_host \<Rightarrow> rat set \<Rightarrow> token_claims \<Rightarrow> bool" where
  "signable H D claims \<longleftrightarrow>
     ''purpose'' \<notin> fst ` set claims \<and> js_wf (JObj claims) \<and> js_numbers (JObj claims) \<subseteq> D \<and>
     (case map_of claims ''expiresAt'' of
        None \<Rightarrow> True | Some v \<Rightarrow> v = JUndefined \<or> (\<exists>e. v = JStr e \<and> h_iso_datetime H e))"

text \<open>What the verifier hands back of them.\<close>

definition returned :: "token_claims \<Rightarrow> token_claims" where
  "returned claims =
     (case map_of claims ''expiresAt'' of Some (JStr e) \<Rightarrow> [(''expiresAt'', JStr e)] | _ \<Rightarrow> []) @
     undeclared (norm_members claims)"

lemma TokenPurpose_text [simp]: "TokenPurpose (JStr (purpose_text p)) = Some p"
  by (cases p) (simp_all add: TokenPurpose_def TOKEN_PURPOSES_def)

lemma sign_iff:
  "signCompactToken H p claims key = Inr token \<longleftrightarrow> ''purpose'' \<notin> fst ` set claims \<and>
    token = toBase64Url (utf8 (canonicalJson (h_num_text H) (JObj (claims @ [(''purpose'', JStr (purpose_text p))]))))
      @ ''.'' @ toBase64Url (h_sign H key
        (utf8 (toBase64Url (utf8 (canonicalJson (h_num_text H) (JObj (claims @ [(''purpose'', JStr (purpose_text p))])))))))"
  by (auto simp: signCompactToken_def ok_def err_def Let_def)

lemma signable_expiry:
  assumes "signable H D claims"
  obtains "map_of claims ''expiresAt'' = None" | "map_of claims ''expiresAt'' = Some JUndefined"
    | e where "map_of claims ''expiresAt'' = Some (JStr e)" "h_iso_datetime H e"
  using assms by (auto simp: signable_def simp del: map_of_eq_None_iff split: option.splits)

lemma payload_facts:
  fixes p :: token_purpose
  assumes "signable H D claims"
  defines "props \<equiv> claims @ [(''purpose'', JStr (purpose_text p))]"
  shows "js_wf (JObj props)" "js_numbers (JObj props) \<subseteq> D" "distinct (map fst props)"
    "CompactTokenPayload (h_iso_datetime H) (json_norm (JObj props)) = Some (p, returned claims)"
proof -
  show wf: "js_wf (JObj props)" and "js_numbers (JObj props) \<subseteq> D" and d: "distinct (map fst props)"
    using assms by (auto simp: signable_def)
  note member = map_of_norm_members [OF d]
  have "map_of props ''purpose'' = Some (JStr (purpose_text p))"
    using assms(1) by (simp add: props_def signable_def map_add_def map_of_eq_None_iff [THEN iffD2])
  then have purpose: "map_of (norm_members props) ''purpose'' = Some (JStr (purpose_text p))"
    by (simp add: member)
  have "map_of props ''expiresAt'' = map_of claims ''expiresAt''"
    by (simp add: props_def map_add_def split: option.split)
  with assms(1) have expiry: "expiry_claim (h_iso_datetime H) (norm_members props) =
      Some (case map_of claims ''expiresAt'' of Some (JStr e) \<Rightarrow> [(''expiresAt'', JStr e)] | _ \<Rightarrow> [])"
    by (cases rule: signable_expiry) (simp_all add: expiry_claim_def member)
  have "undeclared (norm_members props) = undeclared (norm_members claims)"
  proof (rule sorted_keys_unique)
    show "sorted_wrt str_lt (map fst (undeclared (norm_members props)))"
      "sorted_wrt str_lt (map fst (undeclared (norm_members claims)))"
      unfolding undeclared_def using d by (intro sorted_keys_filter sorted_norm_members; simp add: props_def)+
    show "set (undeclared (norm_members props)) = set (undeclared (norm_members claims))"
      by (auto simp: undeclared_def set_norm_members props_def)
  qed
  with purpose expiry show "CompactTokenPayload (h_iso_datetime H) (json_norm (JObj props)) = Some (p, returned claims)"
    by (simp add: json_norm_object returned_def del: json_norm.simps)
qed

lemma open_signed:
  assumes "host_laws H D" "signable H D claims"
  shows "open_payload H q (utf8 (canonicalJson (h_num_text H) (JObj (claims @ [(''purpose'', JStr (purpose_text p))])))) now =
    (if p \<noteq> q then err WRONG_PURPOSE
     else if claims_expired H claims now then err EXPIRED else ok (returned claims))"
proof -
  note facts = payload_facts [OF assms(2), of p]
  have "json_parse (h_num_of H) (h_text_decode H (utf8 (canonicalJson (h_num_text H)
      (JObj (claims @ [(''purpose'', JStr (purpose_text p))]))))) =
      Some (json_norm (JObj (claims @ [(''purpose'', JStr (purpose_text p))])))"
    using assms(1) json_parse_canonical [OF _ facts(1,2)] by (simp add: host_laws_def del: json_norm.simps)
  moreover have "map_of (undeclared ms) ''expiresAt'' = None" for ms
    by (auto simp: undeclared_def map_of_eq_None_iff)
  then have "claims_expired H (returned claims) now = claims_expired H claims now"
    by (auto simp: claims_expired_def returned_def map_add_def split: option.split jsval.split)
  ultimately show ?thesis by (simp add: open_payload_def facts(4) del: json_norm.simps)
qed

lemma canonicalJson_nonempty: "canonicalJson num_text (JObj props) \<noteq> []"
  by simp

lemma base64url_shape: "bs \<noteq> [] \<Longrightarrow> list_all base64url_char (toBase64Url bs)"
  using fromBase64Url_toBase64Url [of bs] by (auto simp: fromBase64Url_def BASE64URL_PATTERN_def split: if_splits)

theorem verify_signed:
  assumes "host_laws H D" "signable H D claims" "signCompactToken H p claims key = Inr token"
  shows "verifyCompactToken H q token keys now =
    (if \<exists>k \<in> set keys. h_verify H k
         (h_sign H key (utf8 (hd (js_split (CHR ''.'') token)))) (utf8 (hd (js_split (CHR ''.'') token)))
     then (if p \<noteq> q then err WRONG_PURPOSE
           else if claims_expired H claims now then err EXPIRED else ok (returned claims))
     else err BAD_SIGNATURE)"
proof -
  let ?payload = "canonicalJson (h_num_text H) (JObj (claims @ [(''purpose'', JStr (purpose_text p))]))"
  let ?seg = "toBase64Url (utf8 ?payload)"
  let ?mac = "h_sign H key (utf8 ?seg)"
  have token: "token = ?seg @ ''.'' @ toBase64Url ?mac" using assms(3) unfolding sign_iff by blast
  have bytes: "utf8 ?payload \<noteq> []" "?mac \<noteq> []"
    using assms(1) canonicalJson_nonempty by (simp_all add: host_laws_def del: canonicalJson.simps)
  then have parts: "js_split (CHR ''.'') token = [?seg, toBase64Url ?mac]"
    unfolding token by (intro js_split_segments base64url_shape)
  show ?thesis
    unfolding verify_cases [OF parts fromBase64Url_toBase64Url [OF bytes(1)] fromBase64Url_toBase64Url [OF bytes(2)]]
      open_signed [OF assms(1,2)] parts list.sel by (rule refl)
qed

lemma verify_signed_trusted:
  assumes "host_laws H D" "signable H D claims" "signCompactToken H p claims key = Inr token" "key \<in> set keys"
  shows "verifyCompactToken H q token keys now =
    (if p \<noteq> q then err WRONG_PURPOSE
     else if claims_expired H claims now then err EXPIRED else ok (returned claims))"
proof -
  have "\<exists>k \<in> set keys. h_verify H k (h_sign H key m) m" for m
    using assms(1,4) by (auto simp: host_laws_def)
  then show ?thesis unfolding verify_signed [OF assms(1-3)] by simp
qed

lemma returned_content:
  assumes "signable H D claims"
  shows "canonicalJson num_text (JObj (returned claims)) = canonicalJson num_text (JObj claims)"
proof (rule canonicalJson_members)
  have d: "distinct (map fst claims)" and none: "''purpose'' \<notin> fst ` set claims"
    using assms by (auto simp: signable_def)
  show "js_wf (JObj claims)" using assms by (simp add: signable_def)
  have "distinct (map fst (undeclared (norm_members claims)))"
    unfolding undeclared_def by (rule sorted_distinct_keys) (intro sorted_keys_filter sorted_norm_members d)
  then show "distinct (map fst (returned claims))"
    by (auto simp: returned_def undeclared_def split: option.split jsval.split)
  have "(''expiresAt'', w) \<in> set (norm_members claims) \<longleftrightarrow>
      (\<exists>e. w = JStr e \<and> map_of claims ''expiresAt'' = Some (JStr e))" for w
    using assms by (cases rule: signable_expiry)
      (simp_all add: set_norm_members map_of_eq_Some_iff [OF d, symmetric] ex_simps(1) [symmetric])
  then have "set (case map_of claims ''expiresAt'' of Some (JStr e) \<Rightarrow> [(''expiresAt'', JStr e)] | _ \<Rightarrow> []) =
      {x \<in> set (norm_members claims). fst x = ''expiresAt''}"
    by (auto split: option.split jsval.split)
  moreover have "(''purpose'', w) \<notin> set (norm_members claims)" for w
    using none by (force simp: set_norm_members)
  then have "set (undeclared (norm_members claims)) = {x \<in> set (norm_members claims). fst x \<noteq> ''expiresAt''}"
    by (auto simp: undeclared_def)
  ultimately show "set (returned claims) = set (norm_members claims)" by (auto simp: returned_def)
qed

end
