(* ===== verification/SecureLink.thy ===== *)
theory SecureLink
  imports CompactToken Ids
begin

text \<open>
  \<^verbatim>\<open>packages/core/src/secure-link.ts\<close>: the link tokens, compact tokens of the purpose \<open>link\<close>
  whose claims name a form, a link and an expiry.
\<close>

record link_claims =
  lc_formId :: form_id
  lc_linkId :: string
  lc_expiresAt :: string
  lc_oneTime :: "bool option"

fun optional_bool :: "jsval option \<Rightarrow> bool option option" where
  "optional_bool None = Some None"
| "optional_bool (Some JUndefined) = Some None"
| "optional_bool (Some (JBool b)) = Some (Some b)"
| "optional_bool (Some _) = None"

text \<open>The schema keeps the four members it declares and drops the others.\<close>

fun LinkClaims :: "(string \<Rightarrow> bool) \<Rightarrow> jsval \<Rightarrow> link_claims option" where
  "LinkClaims dt (JObj props) =
     (case (Option.bind (map_of props ''formId'') (str_with FormId),
            Option.bind (map_of props ''linkId'') (str_with LinkId),
            Option.bind (map_of props ''expiresAt'') (str_with dt),
            optional_bool (map_of props ''oneTime'')) of
        (Some f, Some l, Some e, Some b) \<Rightarrow>
          Some \<lparr>lc_formId = f, lc_linkId = l, lc_expiresAt = e, lc_oneTime = b\<rparr>
      | _ \<Rightarrow> None)"
| "LinkClaims dt _ = None"

definition link_entries :: "link_claims \<Rightarrow> token_claims" where
  "link_entries c =
     [(''formId'', JStr (lc_formId c)), (''linkId'', JStr (lc_linkId c)), (''expiresAt'', JStr (lc_expiresAt c))]
     @ (case lc_oneTime c of None \<Rightarrow> [] | Some b \<Rightarrow> [(''oneTime'', JBool b)])"

datatype link_error = TokenError compact_token_error | WRONG_FORM

definition mintSecureLink :: "'k token_host \<Rightarrow> jsval \<Rightarrow> 'k \<Rightarrow> (type_error, string) result" where
  "mintSecureLink H payload key =
     (case LinkClaims (h_iso_datetime H) payload of
        None \<Rightarrow> err InvalidLinkClaims
      | Some claims \<Rightarrow> signCompactToken H LinkPurpose (link_entries claims) key)"

definition verifySecureLink ::
  "'k token_host \<Rightarrow> string \<Rightarrow> 'k list \<Rightarrow> jsnum \<Rightarrow> form_id option \<Rightarrow> (link_error, link_claims) result" where
  "verifySecureLink H token keys now expectedFormId =
     (case verifyCompactToken H LinkPurpose token keys now of
        Inl e \<Rightarrow> err (TokenError e)
      | Inr value \<Rightarrow>
          (case LinkClaims (h_iso_datetime H) (JObj value) of
             None \<Rightarrow> err (TokenError MALFORMED)
           | Some claims \<Rightarrow>
               if \<exists>f \<in> set_option expectedFormId. lc_formId claims \<noteq> f then err WRONG_FORM else ok claims))"

section \<open>What the claims of a link are\<close>

definition link_shape :: "(string \<Rightarrow> bool) \<Rightarrow> link_claims \<Rightarrow> bool" where
  "link_shape dt c \<longleftrightarrow> FormId (lc_formId c) \<and> LinkId (lc_linkId c) \<and> dt (lc_expiresAt c)"

lemma LinkClaims_shape: "LinkClaims dt v = Some c \<Longrightarrow> link_shape dt c"
  by (cases v) (auto simp: link_shape_def bind_eq_Some_conv split: option.splits)

lemma map_of_link_entries:
  "map_of (link_entries c) ''formId'' = Some (JStr (lc_formId c))"
  "map_of (link_entries c) ''linkId'' = Some (JStr (lc_linkId c))"
  "map_of (link_entries c) ''expiresAt'' = Some (JStr (lc_expiresAt c))"
  "map_of (link_entries c) ''oneTime'' = map_option JBool (lc_oneTime c)"
  by (simp_all add: link_entries_def split: option.split)

lemma signable_link: "link_shape (h_iso_datetime H) c \<Longrightarrow> signable H {} (link_entries c)"
  unfolding signable_def map_of_link_entries
  by (auto simp: link_entries_def link_shape_def split: option.splits)

lemma map_of_returned:
  assumes "signable H D claims" "k \<noteq> ''purpose''"
  shows "map_of (returned claims) k =
    (case map_of claims k of None \<Rightarrow> None | Some v \<Rightarrow> if v = JUndefined then None else Some (json_norm v))"
proof -
  have d: "distinct (map fst claims)" using assms(1) by (auto simp: signable_def)
  have "map_of (undeclared ms) k = (if k = ''expiresAt'' then None else map_of ms k)" for ms
    using assms(2) by (induction ms) (auto simp: undeclared_def)
  note this [simp] map_of_norm_members [OF d, simp]
  show ?thesis
    using assms(1) by (cases rule: signable_expiry) (auto simp: returned_def map_add_def split: option.split)
qed

lemma LinkClaims_returned:
  fixes H :: "'k token_host"
  assumes "link_shape (h_iso_datetime H) c"
  shows "LinkClaims (h_iso_datetime H) (JObj (returned (link_entries c))) = Some c"
proof -
  note member = map_of_returned [OF signable_link [OF assms]]
  have "optional_bool (case map_option JBool b of None \<Rightarrow> None
      | Some v \<Rightarrow> if v = JUndefined then None else Some (json_norm v)) = Some b" for b
    by (cases b) simp_all
  then show ?thesis using assms by (simp add: member map_of_link_entries link_shape_def)
qed

lemma mint_iff:
  "mintSecureLink H payload key = Inr token \<longleftrightarrow>
     (\<exists>c. LinkClaims (h_iso_datetime H) payload = Some c \<and>
        signCompactToken H LinkPurpose (link_entries c) key = Inr token)"
  by (auto simp: mintSecureLink_def err_def split: option.split)

lemma link_expired: "claims_expired H (link_entries c) now = num_ge now (h_date_ms H (lc_expiresAt c))"
  by (simp add: claims_expired_def map_of_link_entries)

section \<open>A host and two tokens of it\<close>

text \<open>A host whose signature is the key followed by the message, and whose dates are as late as
  their texts are long.\<close>

definition sample_host :: "byte token_host" where
  "sample_host =
     \<lparr>h_num_text = (\<lambda>_. ''0''), h_num_of = (\<lambda>_. Fin 0), h_text_decode = utf8_text,
      h_sign = (\<lambda>key message. key # message), h_verify = (\<lambda>key signature message. signature = key # message),
      h_iso_datetime = (\<lambda>s. s \<noteq> []), h_date_ms = (\<lambda>s. Fin (of_nat (length s)))\<rparr>"

lemma sample_host_laws: "host_laws sample_host {}" "exact_mac sample_host"
  by (simp_all add: host_laws_def exact_mac_def sample_host_def json_numerals_def)

definition sample_claims :: token_claims where
  "sample_claims = [(''sessionId'', JStr ''ses_1''), (''expiresAt'', JStr ''noon'')]"

lemma sample_claims_signable: "signable sample_host {} sample_claims"
  by (simp add: signable_def sample_claims_def sample_host_def)

lemma sample_expired: "claims_expired sample_host sample_claims (Fin t) \<longleftrightarrow> 4 \<le> t"
  by (auto simp: claims_expired_def sample_claims_def sample_host_def num_ge_def)

lemma sample_signed: "\<exists>token. signCompactToken sample_host p sample_claims key = Inr token"
  by (simp add: signCompactToken_def sample_claims_def ok_def Let_def)

definition sample_link :: link_claims where
  "sample_link = \<lparr>lc_formId = ''frm_a'', lc_linkId = ''lnk_b'', lc_expiresAt = ''noon'', lc_oneTime = Some True\<rparr>"

lemma sample_link_parses: "LinkClaims (h_iso_datetime sample_host) (JObj (link_entries sample_link)) = Some sample_link"
  by code_simp

lemma sample_minted: "\<exists>token. mintSecureLink sample_host (JObj (link_entries sample_link)) key = Inr token"
  unfolding mintSecureLink_def sample_link_parses
  by (simp add: signCompactToken_def sample_link_def link_entries_def ok_def Let_def)

section \<open>What a verified link says\<close>

lemma verifySecureLink_ok:
  assumes "verifySecureLink H token keys now expected = Inr c"
  obtains claims where "verifyCompactToken H LinkPurpose token keys now = Inr claims"
    "LinkClaims (h_iso_datetime H) (JObj claims) = Some c" "\<forall>f. expected = Some f \<longrightarrow> lc_formId c = f"
  using assms that unfolding verifySecureLink_def
  by (auto simp: err_def ok_def split: sum.splits option.splits if_splits)

lemma open_payload_unexpired: "open_payload H p pb now = Inr claims \<Longrightarrow> \<not> claims_expired H claims now"
  by (auto simp: open_payload_def err_def ok_def split: option.splits if_splits)

lemma claims_expired_link:
  assumes "LinkClaims dt (JObj claims) = Some c"
  shows "claims_expired H claims now = num_ge now (h_date_ms H (lc_expiresAt c))"
  using assms by (auto simp: claims_expired_def bind_eq_Some_conv simp del: map_of_eq_None_iff split: option.splits)

lemma link_of_verified:
  fixes H :: "'k token_host"
  assumes "link_shape (h_iso_datetime H) c"
    "verifyCompactToken H LinkPurpose token keys now =
      (if claims_expired H (link_entries c) now then err EXPIRED else ok (returned (link_entries c)))"
  shows "verifySecureLink H token keys now expected =
    (if num_ge now (h_date_ms H (lc_expiresAt c)) then err (TokenError EXPIRED)
     else if \<exists>f \<in> set_option expected. lc_formId c \<noteq> f then err WRONG_FORM else ok c)"
  unfolding verifySecureLink_def assms(2) link_expired
  by (simp add: LinkClaims_returned [OF assms(1)] err_def ok_def del: LinkClaims.simps)

end
