(* ===== verification/RespondHandlers.thy ===== *)
theory RespondHandlers
  imports StepServing DeliveryPass SecureLink
begin

text \<open>
  What a respondent writes: the answer, batch and roster handlers of
  \<^verbatim>\<open>apps/api/src/features/responses/serve-step/handler.ts\<close>, \<^verbatim>\<open>submit/handler.ts\<close>,
  \<^verbatim>\<open>start-session/handler.ts\<close> and \<^verbatim>\<open>session-token.ts\<close>. A handler checks the session and reads the
  snapshot, and then runs one transaction, under the lock of the session, on the database as
  it is by then: \<^verbatim>\<open>between\<close> is what other requests did to it meanwhile. The clock of the
  process is \<^verbatim>\<open>now\<close>, the time of the transaction \<^verbatim>\<open>stamp\<close>.
\<close>

section \<open>One answer\<close>

record answer_body =
  ab_questionId :: string
  ab_instanceId :: "string option"
  ab_value :: jsval

record answer_target =
  tg_questionId :: question_id
  tg_instanceId :: "instance_id option"
  tg_definition :: question_definition
  tg_value :: jsval

definition tg_key :: "answer_target \<Rightarrow> answer_key" where
  "tg_key t = answerKey (tg_questionId t) (tg_instanceId t)"

definition answerTarget :: "loaded_snapshot \<Rightarrow> answer_body \<Rightarrow> respond_refusal + answer_target" where
  "answerTarget L b =
    (if \<not> QuestionId (ab_questionId b) then Inl UnknownQuestion
     else case map_of (ls_questions L) (ab_questionId b) of
       None \<Rightarrow> Inl UnknownQuestion
     | Some definition \<Rightarrow> bind_ok (throw_if (case ab_instanceId b of None \<Rightarrow> False | Some i \<Rightarrow> \<not> InstanceId i) InvalidInstanceId) (\<lambda>_.
         Inr \<lparr>tg_questionId = ab_questionId b, tg_instanceId = ab_instanceId b, tg_definition = definition, tg_value = ab_value b\<rparr>))"

definition isCellVisible :: "flow_state \<Rightarrow> answer_target \<Rightarrow> bool" where
  "isCellVisible flow t \<longleftrightarrow> list_ex (\<lambda>e. v_question e = tg_questionId t \<and> v_instance e = tg_instanceId t) (visible flow)"

definition set_answers :: "answer_table \<Rightarrow> string \<Rightarrow> data_db \<Rightarrow> data_db" where
  "set_answers table sessionId db = db\<lparr>dd_answers := table, dd_sessions := markInProgress (dd_sessions db) sessionId\<rparr>"

text \<open>The refusal, if any, and the database, unchanged when there is one.\<close>

definition applyOneAnswer ::
  "respond_host \<Rightarrow> string \<Rightarrow> held_answers \<Rightarrow> answer_target \<Rightarrow> int \<Rightarrow> data_db \<Rightarrow> respond_refusal option \<times> data_db" where
  "applyOneAnswer P sessionId held t stamp db =
    (if tg_value t = JNull
     then (None, if map_of held (tg_key t) = None then db
            else set_answers (retractAnswer (ph_uuid P) (dd_answers db) sessionId (tg_questionId t) (tg_instanceId t) stamp) sessionId db)
     else case validateAnswer (s_nfc (ph_submit P)) (s_regex (ph_submit P)) (tg_definition t) (tg_value t) of
         Inl es \<Rightarrow> (Some (InvalidAnswer (tg_questionId t) (tg_instanceId t) es), db)
       | Inr v \<Rightarrow> (None, set_answers (appendAnswer (ph_uuid P) (dd_answers db) sessionId (tg_questionId t) (tg_instanceId t) v stamp) sessionId db))"

text \<open>The page after a write, in the same transaction.\<close>

definition serve_after ::
  "respond_host \<Rightarrow> loaded_snapshot \<Rightarrow> string \<Rightarrow> nat option \<Rightarrow> int \<Rightarrow> data_db \<Rightarrow> respond_refusal + StepResponse \<times> data_db" where
  "serve_after P L sessionId requestedIndex stamp db =
     bind_ok (projectWithRosters P L sessionId (held_by P db sessionId) requestedIndex stamp (dd_rosters db))
       (\<lambda>(response, st). Inr (response, db\<lparr>dd_rosters := st\<rparr>))"

definition flow_now :: "respond_host \<Rightarrow> loaded_snapshot \<Rightarrow> string \<Rightarrow> data_db \<Rightarrow> respond_refusal + flow_state" where
  "flow_now P L sessionId db = evaluateOrThrow P L (held_by P db sessionId)
     (liveRosters P (rs_table (dd_rosters db)) sessionId L (held_by P db sessionId))"

definition answer_tx ::
  "respond_host \<Rightarrow> loaded_snapshot \<Rightarrow> string \<Rightarrow> answer_target \<Rightarrow> nat option \<Rightarrow> int \<Rightarrow> data_db \<Rightarrow>
     respond_refusal + StepResponse \<times> data_db" where
  "answer_tx P L sessionId t requestedIndex stamp db =
     bind_ok (flow_now P L sessionId db) (\<lambda>flow.
     bind_ok (throw_if (\<not> isCellVisible flow t) QuestionNotVisible) (\<lambda>_.
     case applyOneAnswer P sessionId (held_by P db sessionId) t stamp db of
       (Some e, _) \<Rightarrow> Inl e
     | (None, db') \<Rightarrow> serve_after P L sessionId requestedIndex stamp db'))"

definition submitAnswer ::
  "respond_host \<Rightarrow> pinned_tables \<Rightarrow> (data_db \<Rightarrow> data_db) \<Rightarrow> data_db \<Rightarrow> string \<Rightarrow> answer_body \<Rightarrow> nat option \<Rightarrow> int \<Rightarrow> int \<Rightarrow>
     respond_refusal + StepResponse \<times> data_db" where
  "submitAnswer P R between db sessionId b requestedIndex now stamp =
     bind_ok (loadActiveSession (dd_sessions db) sessionId now) (\<lambda>session.
     bind_ok (loadSnapshot (pt_versions R) (pt_questions R) session) (\<lambda>L.
     bind_ok (answerTarget L b) (\<lambda>t. answer_tx P L sessionId t requestedIndex stamp (between db))))"

section \<open>A batch of answers\<close>

text \<open>The largest step; a group without a largest size counts once.\<close>

definition item_bound :: "step_item \<Rightarrow> int" where
  "item_bound item = (case item of
     QuestionItem _ \<Rightarrow> 1
   | GroupItem g \<Rightarrow> int (length (g_items g)) * opt_default 1 (snd (countBounds (g_count g))))"

definition stepAnswerBound :: "loaded_snapshot \<Rightarrow> int" where
  "stepAnswerBound L = foldl max 1 (map (\<lambda>s. sum_list (map item_bound (s_items s))) (ls_steps L))"

fun answer_targets :: "loaded_snapshot \<Rightarrow> answer_body list \<Rightarrow> respond_refusal + answer_target list" where
  "answer_targets L [] = Inr []"
| "answer_targets L (b # bs) = bind_ok (answerTarget L b) (\<lambda>t. bind_ok (answer_targets L bs) (\<lambda>ts. Inr (t # ts)))"

fun batch_entries ::
  "respond_host \<Rightarrow> flow_state \<Rightarrow> string \<Rightarrow> int \<Rightarrow> answer_target list \<Rightarrow> held_answers \<Rightarrow> data_db \<Rightarrow>
     (answer_target \<times> respond_refusal) list \<times> data_db" where
  "batch_entries P flow sessionId stamp [] held db = ([], db)"
| "batch_entries P flow sessionId stamp (t # ts) held db =
    (if \<not> isCellVisible flow t
     then (let (rejected, db') = batch_entries P flow sessionId stamp ts held db in ((t, QuestionNotVisible) # rejected, db'))
     else case applyOneAnswer P sessionId held t stamp db of
         (Some e, _) \<Rightarrow> (let (rejected, db') = batch_entries P flow sessionId stamp ts held db in ((t, e) # rejected, db'))
       | (None, db1) \<Rightarrow> batch_entries P flow sessionId stamp ts (held_by P db1 sessionId) db1)"

definition batch_tx ::
  "respond_host \<Rightarrow> loaded_snapshot \<Rightarrow> string \<Rightarrow> answer_target list \<Rightarrow> nat option \<Rightarrow> int \<Rightarrow> data_db \<Rightarrow>
     respond_refusal + StepResponse \<times> (answer_target \<times> respond_refusal) list \<times> data_db" where
  "batch_tx P L sessionId ts requestedIndex stamp db =
     bind_ok (flow_now P L sessionId db) (\<lambda>flow.
       let (rejected, db') = batch_entries P flow sessionId stamp ts (held_by P db sessionId) db
       in bind_ok (serve_after P L sessionId requestedIndex stamp db') (\<lambda>(response, db''). Inr (response, rejected, db'')))"

text \<open>Whether the allowance covers so many entries, given the largest step, is an argument.\<close>

definition batchAnswers ::
  "respond_host \<Rightarrow> pinned_tables \<Rightarrow> (string \<Rightarrow> nat \<Rightarrow> int \<Rightarrow> bool) \<Rightarrow> (data_db \<Rightarrow> data_db) \<Rightarrow> data_db \<Rightarrow> string \<Rightarrow>
     answer_body list \<Rightarrow> nat option \<Rightarrow> int \<Rightarrow> int \<Rightarrow>
     respond_refusal + StepResponse \<times> (answer_target \<times> respond_refusal) list \<times> data_db" where
  "batchAnswers P R allowance between db sessionId bs requestedIndex now stamp =
     bind_ok (loadActiveSession (dd_sessions db) sessionId now) (\<lambda>session.
     bind_ok (loadSnapshot (pt_versions R) (pt_questions R) session) (\<lambda>L.
     bind_ok (answer_targets L bs) (\<lambda>ts.
     bind_ok (throw_if (\<not> allowance sessionId (length ts) (stepAnswerBound L)) TooManyAnswers) (\<lambda>_.
     batch_tx P L sessionId ts requestedIndex stamp (between db)))))"

section \<open>The operations on a roster\<close>

datatype roster_request = AddRequest | RemoveRequest "string option"

definition groupById :: "loaded_snapshot \<Rightarrow> string \<Rightarrow> repeat_group option" where
  "groupById L g = List.find (\<lambda>grp. groupId grp = g) (repeatGroups (ls_steps L))"

definition roster_request_op :: "roster_request \<Rightarrow> respond_refusal + roster_op" where
  "roster_request_op r = (case r of
     AddRequest \<Rightarrow> Inr OpAdd
   | RemoveRequest None \<Rightarrow> Inl InvalidInstanceId
   | RemoveRequest (Some i) \<Rightarrow> if InstanceId i then Inr (OpRemove i) else Inl InvalidInstanceId)"

definition roster_tx ::
  "respond_host \<Rightarrow> loaded_snapshot \<Rightarrow> string \<Rightarrow> repeat_group \<Rightarrow> string \<Rightarrow> roster_op \<Rightarrow> nat option \<Rightarrow> int \<Rightarrow> data_db \<Rightarrow>
     respond_refusal + StepResponse \<times> roster_op_ok \<times> data_db" where
  "roster_tx P L sessionId grp opToken op requestedIndex stamp db =
    (case applyRosterOp (ph_random P) (dd_rosters db) sessionId grp
        (Some (readRoster (ph_rosters P) (rs_table (dd_rosters db)) sessionId (groupId grp)))
        (answer_lookup (held_by P db sessionId)) opToken op stamp of
       None \<Rightarrow> Inl RespondFault
     | Some (Inl code, _) \<Rightarrow> Inl (RosterRefused code)
     | Some (Inr outcome, st) \<Rightarrow>
         bind_ok (projectWithRosters P L sessionId (held_by P db sessionId) requestedIndex stamp st) (\<lambda>(response, st').
         Inr (response, outcome, db\<lparr>dd_rosters := st'\<rparr>)))"

definition rosterOp ::
  "respond_host \<Rightarrow> pinned_tables \<Rightarrow> (data_db \<Rightarrow> data_db) \<Rightarrow> data_db \<Rightarrow> string \<Rightarrow> string \<Rightarrow> string \<Rightarrow> roster_request \<Rightarrow>
     nat option \<Rightarrow> int \<Rightarrow> int \<Rightarrow> respond_refusal + StepResponse \<times> roster_op_ok \<times> data_db" where
  "rosterOp P R between db sessionId g opToken r requestedIndex now stamp =
     bind_ok (loadActiveSession (dd_sessions db) sessionId now) (\<lambda>session.
     bind_ok (loadSnapshot (pt_versions R) (pt_questions R) session) (\<lambda>L. case groupById L g of
       None \<Rightarrow> Inl UnknownGroup
     | Some grp \<Rightarrow> bind_ok (roster_request_op r) (\<lambda>op.
         roster_tx P L sessionId grp opToken op requestedIndex stamp (between db))))"

section \<open>Submitting\<close>

record receipt =
  rcp_submittedAt :: int
  rcp_contentHash :: string

definition receiptFrom :: "submission_row \<Rightarrow> receipt" where
  "receiptFrom row = \<lparr>rcp_submittedAt = sb_submittedAt row, rcp_contentHash = sb_contentHash row\<rparr>"

definition stored_receipt :: "data_db \<Rightarrow> string \<Rightarrow> respond_refusal + receipt" where
  "stored_receipt db sessionId = (case getSubmission (dd_submissions db) sessionId of
     None \<Rightarrow> Inl RespondFault | Some row \<Rightarrow> Inr (receiptFrom row))"

definition honeypot_filled :: "string \<Rightarrow> jsval \<Rightarrow> bool" where
  "honeypot_filled name b = (case js_prop name b of
     JStr s \<Rightarrow> js_trim s \<noteq> [] | JUndefined \<Rightarrow> False | JNull \<Rightarrow> False | _ \<Rightarrow> True)"

definition detectAbuse :: "string \<Rightarrow> session_row \<Rightarrow> jsval \<Rightarrow> int \<Rightarrow> int \<Rightarrow> string option" where
  "detectAbuse honeypotField session b minTimeFloorMs now =
    (if honeypot_filled honeypotField b then Some ''HONEYPOT''
     else if 0 < minTimeFloorMs \<and> now - sn_createdAt session < minTimeFloorMs then Some ''MIN_TIME''
     else None)"

definition submitted_payload :: "respond_host \<Rightarrow> session_row \<Rightarrow> locked_submission \<Rightarrow> int \<Rightarrow> jsval" where
  "submitted_payload P session locked now = JObj
     [(''sessionId'', JStr (sn_sessionId session)), (''formId'', JStr (sn_formId session)),
      (''formVersion'', JNum (Fin (of_int (sn_formVersion session)))), (''submittedAt'', JStr (ph_iso P now)),
      (''contentHash'', JStr (lk_contentHash locked)), (''answers'', JArr (map locked_js (lk_answers locked)))]"

definition submit_tx ::
  "respond_host \<Rightarrow> frozen_snapshot \<Rightarrow> session_row \<Rightarrow> string option \<Rightarrow> int \<Rightarrow> int \<Rightarrow> data_db \<Rightarrow> respond_refusal + receipt \<times> data_db" where
  "submit_tx P frozen session flagged now stamp db =
    (let sessionId = sn_sessionId session
     in if (case getSession (dd_sessions db) sessionId of None \<Rightarrow> False | Some r \<Rightarrow> sn_status r = Submitted)
        then bind_ok (stored_receipt db sessionId) (\<lambda>r. Inr (r, db))
        else let held = held_by P db sessionId;
                 rs = loadRosters (ph_rosters P) (rs_table (dd_rosters db)) sessionId (f_steps (snap_definition frozen)) (answer_lookup held)
             in case prepareSubmission (ph_submit P) (ph_encode P frozen) frozen (answer_js held) rs of
                  Inl errors \<Rightarrow> Inl (SubmissionInvalid errors)
                | Inr locked \<Rightarrow>
                    let row = \<lparr>sb_sessionId = sessionId, sb_contentHash = lk_contentHash locked, sb_lockedAnswers = locked,
                               sb_submittedAt = now, sb_flaggedReason = flagged\<rparr>
                    in case insertSubmission (dd_submissions db) row of
                         None \<Rightarrow> Inl RespondFault
                       | Some submissions \<Rightarrow> Inr (receiptFrom row,
                           db\<lparr>dd_submissions := submissions, dd_sessions := markSubmitted (dd_sessions db) sessionId,
                              dd_outbox := (if flagged = None
                                then enqueue (ph_outbox P) (dd_outbox db) RESPONSE_SUBMITTED (submitted_payload P session locked now) stamp
                                else dd_outbox db)\<rparr>))"

record abuse_config =
  ac_honeypotField :: string
  ac_minSubmitMs :: int

definition time_floor :: "abuse_config \<Rightarrow> form_identity list \<Rightarrow> form_id \<Rightarrow> int" where
  "time_floor conf forms fid = (case form_by_id forms fid of
     None \<Rightarrow> ac_minSubmitMs conf | Some form \<Rightarrow> opt_default (ac_minSubmitMs conf) (fo_minSubmitMs form))"

definition submitHandler ::
  "respond_host \<Rightarrow> pinned_tables \<Rightarrow> abuse_config \<Rightarrow> (data_db \<Rightarrow> data_db) \<Rightarrow> data_db \<Rightarrow> string \<Rightarrow> jsval \<Rightarrow> int \<Rightarrow> int \<Rightarrow>
     respond_refusal + receipt \<times> data_db" where
  "submitHandler P R conf between db sessionId b now stamp = (case getSession (dd_sessions db) sessionId of
     None \<Rightarrow> Inl SessionNotFound
   | Some session \<Rightarrow>
       if sn_status session = Submitted then bind_ok (stored_receipt db sessionId) (\<lambda>r. Inr (r, db))
       else if sn_status session = Expired \<or> sn_expiresAt session \<le> now then Inl SessionExpired
       else if sn_status session = Created then Inl NothingToSubmit
       else bind_ok (loadFrozenSnapshot (pt_versions R) (pt_questions R) session) (\<lambda>(frozen, _).
         submit_tx P frozen session
           (detectAbuse (ac_honeypotField conf) session b (time_floor conf (pt_forms R) (sn_formId session)) now) now stamp (between db)))"

end
