(* ===== verification/RepeatNode.thy ===== *)
theory RepeatNode
  imports A2uiNode
begin

text \<open>
  The vocabulary of a repeating group on a page, \<^verbatim>\<open>packages/ui/src/repeat/repeat-node.ts\<close> and
  \<^verbatim>\<open>repeat-table-node.ts\<close>: the node types, the value a roster button posts, the qualified
  field name, and the labels filled per instance.
\<close>

section \<open>Node types\<close>

definition REPEAT_INSTANCE_NODE_TYPE :: string where "REPEAT_INSTANCE_NODE_TYPE = ''RepeatInstance''"
definition REPEAT_TABLE_NODE_TYPE :: string where "REPEAT_TABLE_NODE_TYPE = ''RepeatTable''"
definition REPEAT_ROW_NODE_TYPE :: string where "REPEAT_ROW_NODE_TYPE = ''RepeatRow''"
definition REPEAT_CELL_NODE_TYPE :: string where "REPEAT_CELL_NODE_TYPE = ''RepeatCell''"
definition NUMBER_CONTROL_NODE_TYPE :: string where "NUMBER_CONTROL_NODE_TYPE = ''NumberField''"

lemmas node_types =
  REPEAT_GROUP_NODE_TYPE_def REPEAT_INSTANCE_NODE_TYPE_def REPEAT_TABLE_NODE_TYPE_def
  REPEAT_ROW_NODE_TYPE_def REPEAT_CELL_NODE_TYPE_def

section \<open>Roster operations\<close>

datatype roster_op_request =
    AddOp string string \<comment> \<open>group, token\<close>
  | RemoveOp string string string \<comment> \<open>group, instance, token\<close>

fun rosterOpValue :: "roster_op_request \<Rightarrow> string" where
  "rosterOpValue (AddOp g token) = js_join '':'' [''add'', g, token]"
| "rosterOpValue (RemoveOp g i token) = js_join '':'' [''remove'', g, i, token]"

definition parseRosterOpValue :: "string \<Rightarrow> roster_op_request option" where
  "parseRosterOpValue raw =
     (let parts = js_split (CHR '':'') raw; op = hd parts in
      if op \<noteq> ''add'' \<and> op \<noteq> ''remove'' then None
      else if length parts \<noteq> (if op = ''remove'' then 4 else 3) then None
      else if list_ex (\<lambda>part. part = []) parts then None
      else if op = ''remove'' then Some (RemoveOp (parts ! 1) (parts ! 2) (parts ! 3))
      else Some (AddOp (parts ! 1) (parts ! 2)))"

fun op_parts :: "roster_op_request \<Rightarrow> string list" where
  "op_parts (AddOp g token) = [g, token]"
| "op_parts (RemoveOp g i token) = [g, i, token]"

definition op_wf :: "roster_op_request \<Rightarrow> bool" where
  "op_wf r \<longleftrightarrow> list_all (\<lambda>part. part \<noteq> [] \<and> CHR '':'' \<notin> set part) (op_parts r)"

lemma parse_roster_op_value: "op_wf r \<Longrightarrow> parseRosterOpValue (rosterOpValue r) = Some r"
  by (cases r) (auto simp: op_wf_def parseRosterOpValue_def js_split_join [of _ "CHR '':''", simplified] Let_def
      simp del: js_join.simps)

lemma split_no_sep: "\<forall>p \<in> set (js_split sep s). sep \<notin> set p"
proof (induction s)
  case (Cons c cs)
  then show ?case by (cases "js_split sep cs") auto
qed simp

lemma length_3_4:
  "length xs = 3 \<Longrightarrow> xs = [xs ! 0, xs ! 1, xs ! 2]"
  "length xs = 4 \<Longrightarrow> xs = [xs ! 0, xs ! 1, xs ! 2, xs ! 3]"
  by (auto simp: numeral_3_eq_3 numeral_eq_Suc length_Suc_conv)

lemma roster_op_value_of_parse:
  assumes "parseRosterOpValue raw = Some r"
  shows "op_wf r \<and> rosterOpValue r = raw"
proof -
  let ?ps = "js_split (CHR '':'') raw"
  have sep: "CHR '':'' \<notin> set p" if "p \<in> set ?ps" for p using that split_no_sep by blast
  have join: "js_join '':'' ?ps = raw" by (rule js_join_split)
  have full: "\<forall>p \<in> set ?ps. p \<noteq> []" using assms by (auto simp: parseRosterOpValue_def Let_def list_ex_iff split: if_splits)
  consider "length ?ps = 4" "hd ?ps = ''remove''" "r = RemoveOp (?ps ! 1) (?ps ! 2) (?ps ! 3)"
    | "length ?ps = 3" "hd ?ps = ''add''" "r = AddOp (?ps ! 1) (?ps ! 2)"
    using assms by (auto simp: parseRosterOpValue_def Let_def split: if_splits)
  then show ?thesis
  proof cases
    case 1
    then have "?ps = [''remove'', ?ps ! 1, ?ps ! 2, ?ps ! 3]"
      using length_3_4(2) [of ?ps] by (metis list.sel(1))
    then obtain g i tok where "?ps = [''remove'', g, i, tok]" by blast
    with 1(3) join sep full show ?thesis by (simp add: op_wf_def)
  next
    case 2
    then have "?ps = [''add'', ?ps ! 1, ?ps ! 2]"
      using length_3_4(1) [of ?ps] by (metis list.sel(1))
    then obtain g tok where "?ps = [''add'', g, tok]" by blast
    with 2(3) join sep full show ?thesis by (simp add: op_wf_def)
  qed
qed

interpretation roster_op: canonical_codec rosterOpValue parseRosterOpValue op_wf
  by unfold_locales (simp_all add: parse_roster_op_value roster_op_value_of_parse)

section \<open>Names and labels\<close>

definition qualifiedFieldName :: "instance_id \<Rightarrow> question_id \<Rightarrow> string" where
  "qualifiedFieldName instanceId questionId = instanceId @ ''/'' @ questionId"

lemma qualifiedFieldName_answerKey: "qualifiedFieldName i q = answerKey q (Some i)"
  by (simp add: qualifiedFieldName_def answerKey_def ANSWER_KEY_SEPARATOR_def)

definition INSTANCE_ORDINAL_PLACEHOLDER :: string where "INSTANCE_ORDINAL_PLACEHOLDER = ''{n}''"
definition REMOVE_LABEL_PLACEHOLDER :: string where "REMOVE_LABEL_PLACEHOLDER = ''{label}''"

definition instanceLabelFor :: "string \<Rightarrow> nat \<Rightarrow> string" where
  "instanceLabelFor template ordinal = replace_all INSTANCE_ORDINAL_PLACEHOLDER (nat_digits ordinal) template"

definition removeLabelFor :: "string \<Rightarrow> string \<Rightarrow> string" where
  "removeLabelFor template lbl = replace_all REMOVE_LABEL_PLACEHOLDER lbl template"

definition addButtonId :: "string \<Rightarrow> string" where
  "addButtonId gid = ''qcms-repeat-add-'' @ gid"

definition cellLabelFor :: "string \<Rightarrow> string \<Rightarrow> string" where
  "cellLabelFor rowLabel columnLabel =
     (if rowLabel = '''' then columnLabel
      else if columnLabel = '''' then rowLabel
      else rowLabel @ '', '' @ columnLabel)"

definition instanceNoun :: "string \<Rightarrow> string" where
  "instanceNoun = template_noun ''{n}''"

definition actionColumnLabel :: "string \<Rightarrow> string" where
  "actionColumnLabel = template_noun ''{label}''"

definition REPEAT_TABLE_LEXICON :: "(string \<times> string) list" where
  "REPEAT_TABLE_LEXICON = [(''en'', ''Total'')]"

definition totalLabelFor :: "string \<Rightarrow> string" where
  "totalLabelFor loc =
     opt_default ''Total'' (map_of REPEAT_TABLE_LEXICON (takeWhile (\<lambda>c. c \<noteq> CHR ''-'') loc))"

end
