(* ===== verification/RepeatExpand.thy ===== *)
theory RepeatExpand
  imports RepeatNode
begin

text \<open>
  The expansion of a step's repeating groups on a page, \<^verbatim>\<open>packages/ui/src/repeat/repeat-expand.ts\<close>,
  \<^verbatim>\<open>repeat-table-expand.ts\<close>, \<^verbatim>\<open>repeat-walk.ts\<close>, and the projection to the visible questions,
  \<^verbatim>\<open>packages/ui/src/visible.ts\<close>. A set of names is the list of its members.
\<close>

section \<open>Walking a control\<close>

primrec qualifyNames :: "instance_id \<Rightarrow> a2_node \<Rightarrow> a2_node" where
  "qualifyNames i (A2Node t ps children) =
     (let mapped = map_kids (qualifyNames i) children;
          node = A2Node t ps mapped in
      case stringProp node ''name'' of
        None \<Rightarrow> node
      | Some name \<Rightarrow> with_prop ''name'' (JStr (qualifiedFieldName i name)) node)"

definition keepControl :: "a2_node \<Rightarrow> instance_id \<Rightarrow> string list option \<Rightarrow> bool" where
  "keepControl node i visible =
     (case visible of
        None \<Rightarrow> True
      | Some vs \<Rightarrow>
          (case stringProp node ''name'' of
             None \<Rightarrow> True
           | Some name \<Rightarrow> qualifiedFieldName i name \<in> set vs))"

section \<open>Tables\<close>

record repeat_table_input =
  in_groupId :: string
  in_label :: string
  instanceLabelTemplate :: string
  removeLabelTemplate :: "string option"
  removable :: bool
  in_instances :: "instance_id list"
  in_template :: "a2_node list"
  in_visible :: "string list option"
  in_opToken :: "string option"

definition opt_prop :: "string \<Rightarrow> ('a \<Rightarrow> jsval) \<Rightarrow> 'a option \<Rightarrow> props" where
  "opt_prop key f v = (case v of None \<Rightarrow> [] | Some x \<Rightarrow> [(key, f x)])"

definition js_nat :: "nat \<Rightarrow> jsval" where
  "js_nat n = JNum (Fin (of_nat n))"

definition relabelCell :: "a2_node \<Rightarrow> string \<Rightarrow> a2_node" where
  "relabelCell node rowLabel =
     (case stringProp node ''label'' of
        None \<Rightarrow> node
      | Some lbl \<Rightarrow> with_prop ''label'' (JStr (cellLabelFor rowLabel lbl)) node)"

definition name_or_empty :: "a2_node \<Rightarrow> string" where
  "name_or_empty node = opt_default '''' (stringProp node ''name'')"

definition columnsOf :: "repeat_table_input \<Rightarrow> jsval list" where
  "columnsOf inp =
     map (\<lambda>control.
       let questionId = name_or_empty control;
           numeric = (nd_type control = NUMBER_CONTROL_NODE_TYPE);
           totalFields = map (\<lambda>i. JStr (qualifiedFieldName i questionId))
                           (filter (\<lambda>i. keepControl control i (in_visible inp)) (in_instances inp)) in
       JObj ([(''questionId'', JStr questionId), (''label'', JStr (opt_default '''' (stringProp control ''label'')))]
             @ opt_prop ''description'' JStr (stringProp control ''description'')
             @ (if numeric then [(''numeric'', JBool True), (''totalFields'', JArr totalFields)] else [])))
     (in_template inp)"

definition instance_props :: "repeat_table_input \<Rightarrow> instance_id \<Rightarrow> nat \<Rightarrow> props" where
  "instance_props inp i index =
     (let resolved = instanceLabelFor (instanceLabelTemplate inp) (index + 1) in
      [(''groupId'', JStr (in_groupId inp)), (''instanceId'', JStr i), (''label'', JStr resolved),
       (''ordinal'', js_nat (index + 1))])"

definition removal_props :: "repeat_table_input \<Rightarrow> string \<Rightarrow> props" where
  "removal_props inp resolved =
     (if removable inp
      then opt_prop ''removeLabel'' (\<lambda>tm. JStr (removeLabelFor tm resolved)) (removeLabelTemplate inp)
           @ opt_prop ''opToken'' JStr (in_opToken inp)
      else [])"

definition cellNode :: "repeat_table_input \<Rightarrow> instance_id \<Rightarrow> string \<Rightarrow> a2_node \<Rightarrow> a2_node" where
  "cellNode inp i resolved control =
     A2Node REPEAT_CELL_NODE_TYPE
       (Some ((''questionId'', JStr (name_or_empty control))
              # (if nd_type control = NUMBER_CONTROL_NODE_TYPE then [(''numeric'', JBool True)] else [])))
       (if keepControl control i (in_visible inp)
        then Kids [relabelCell (qualifyNames i control) resolved] else NoKids)"

definition rowNode :: "repeat_table_input \<Rightarrow> instance_id \<Rightarrow> nat \<Rightarrow> a2_node" where
  "rowNode inp i index =
     (let resolved = instanceLabelFor (instanceLabelTemplate inp) (index + 1) in
      A2Node REPEAT_ROW_NODE_TYPE (Some (instance_props inp i index @ removal_props inp resolved))
        (Kids (map (cellNode inp i resolved) (in_template inp))))"

definition repeatTableNode :: "repeat_table_input \<Rightarrow> a2_node" where
  "repeatTableNode inp =
     (let actionsLabel = (if removable inp then map_option actionColumnLabel (removeLabelTemplate inp) else None) in
      A2Node REPEAT_TABLE_NODE_TYPE
        (Some ([(''groupId'', JStr (in_groupId inp)), (''caption'', JStr (in_label inp)),
                (''rowHeader'', JStr (instanceNoun (instanceLabelTemplate inp))),
                (''columns'', JArr (columnsOf inp))]
               @ (if actionsLabel = Some '''' then [] else opt_prop ''actionsLabel'' JStr actionsLabel)))
        (Kids (map (\<lambda>(index, i). rowNode inp i index) (List.enumerate 0 (in_instances inp)))))"

section \<open>Groups\<close>

record repeat_expansion =
  ex_rosters :: "(string \<times> instance_id list) list"
  ex_visible :: "string list option"
  ex_opToken :: "string option"
  ex_view :: "(string \<times> instance_id) option"

definition groupHeading :: "string \<Rightarrow> string \<Rightarrow> a2_node" where
  "groupHeading lbl level =
     A2Node ''Text'' (Some [(''as'', JStr level), (''size'', JStr ''lg''), (''weight'', JStr ''semibold'')])
       (TextKid lbl)"

definition instanceNode :: "repeat_table_input \<Rightarrow> instance_id \<Rightarrow> nat \<Rightarrow> a2_node" where
  "instanceNode inp i index =
     (let resolved = instanceLabelFor (instanceLabelTemplate inp) (index + 1) in
      A2Node REPEAT_INSTANCE_NODE_TYPE
        (Some (instance_props inp i index @ [(''headingAs'', JStr ''h4'')] @ removal_props inp resolved))
        (Kids (map (qualifyNames i) (filter (\<lambda>control. keepControl control i (in_visible inp)) (in_template inp)))))"

definition stackedChildren :: "repeat_table_input \<Rightarrow> instance_id option \<Rightarrow> a2_node list" where
  "stackedChildren inp drawnOnly =
     (if in_label inp \<noteq> '''' then [groupHeading (in_label inp) ''h3''] else [])
     @ map (\<lambda>(index, i). instanceNode inp i index)
         (filter (\<lambda>(index, i). drawnOnly = None \<or> drawnOnly = Some i) (List.enumerate 0 (in_instances inp)))"

definition group_instances :: "repeat_expansion \<Rightarrow> a2_node \<Rightarrow> instance_id list" where
  "group_instances e node =
     (case stringProp node ''groupId'' of
        None \<Rightarrow> []
      | Some g \<Rightarrow> opt_default [] (map_of (ex_rosters e) g))"

definition table_input :: "repeat_expansion \<Rightarrow> a2_node \<Rightarrow> repeat_table_input" where
  "table_input e node =
     \<lparr>in_groupId = opt_default '''' (stringProp node ''groupId''),
      in_label = opt_default '''' (stringProp node ''label''),
      instanceLabelTemplate = opt_default INSTANCE_ORDINAL_PLACEHOLDER (stringProp node ''instanceLabel''),
      removeLabelTemplate = stringProp node ''removeLabel'',
      removable = (stringProp node ''countSource'' = Some ''open''),
      in_instances = group_instances e node,
      in_template = childArray (nd_kids node),
      in_visible = ex_visible e,
      in_opToken = ex_opToken e\<rparr>"

definition drawn_only :: "repeat_expansion \<Rightarrow> a2_node \<Rightarrow> instance_id option" where
  "drawn_only e node =
     (case (stringProp node ''groupId'', ex_view e) of
        (Some g, Some (vg, vi)) \<Rightarrow> if vg = g then Some vi else None
      | _ \<Rightarrow> None)"

definition last_instance :: "instance_id list \<Rightarrow> instance_id option" where
  "last_instance xs = (if xs = [] then None else Some (last xs))"

definition group_props :: "repeat_expansion \<Rightarrow> a2_node \<Rightarrow> props" where
  "group_props e node =
     (let countSource = stringProp node ''countSource'';
          mx = numberProp node ''max'';
          instances = group_instances e node;
          drawnOnly = drawn_only e node;
          onLastView = (drawnOnly = None \<or> drawnOnly = last_instance instances);
          canAdd = (countSource = Some ''open'' \<and>
                    (case mx of None \<Rightarrow> True | Some m \<Rightarrow> num_lt (Fin (of_nat (length instances))) m)) in
      [(''groupId'', JStr (opt_default '''' (stringProp node ''groupId''))),
       (''label'', JStr (opt_default '''' (stringProp node ''label''))),
       (''instanceLabel'', JStr (opt_default INSTANCE_ORDINAL_PLACEHOLDER (stringProp node ''instanceLabel''))),
       (''presentation'', JStr (opt_default ''stacked'' (stringProp node ''presentation''))),
       (''countSource'', JStr (opt_default ''open'' countSource)),
       (''min'', JNum (opt_default (Fin 0) (numberProp node ''min''))),
       (''instanceCount'', js_nat (length instances)), (''canAdd'', JBool canAdd)]
      @ opt_prop ''max'' JNum mx
      @ (if onLastView then opt_prop ''addLabel'' JStr (stringProp node ''addLabel'') else [])
      @ opt_prop ''removeLabel'' JStr (stringProp node ''removeLabel'')
      @ opt_prop ''opToken'' JStr (ex_opToken e))"

definition expandGroup :: "repeat_expansion \<Rightarrow> a2_node \<Rightarrow> a2_node" where
  "expandGroup e node =
     (let inp = table_input e node in
      A2Node REPEAT_GROUP_NODE_TYPE (Some (group_props e node))
        (Kids (if opt_default ''stacked'' (stringProp node ''presentation'') = ''table''
               then [repeatTableNode inp] else stackedChildren inp (drawn_only e node))))"

definition isExpanded :: "a2_node \<Rightarrow> bool" where
  "isExpanded node \<longleftrightarrow>
     list_ex (\<lambda>child. nd_type child = REPEAT_INSTANCE_NODE_TYPE \<or> nd_type child = REPEAT_TABLE_NODE_TYPE)
       (childArray (nd_kids node))"

definition kept_name :: "string list \<Rightarrow> a2_node \<Rightarrow> bool" where
  "kept_name visible control =
     (case stringProp control ''name'' of None \<Rightarrow> True | Some name \<Rightarrow> name \<in> set visible)"

definition prunes :: "string list \<Rightarrow> a2_node \<Rightarrow> bool" where
  "prunes visible child \<longleftrightarrow>
     nd_type child = REPEAT_INSTANCE_NODE_TYPE \<and>
     length (filter (kept_name visible) (childArray (nd_kids child))) \<noteq> length (childArray (nd_kids child))"

definition pruneInstance :: "string list \<Rightarrow> a2_node \<Rightarrow> a2_node" where
  "pruneInstance visible child =
     (if prunes visible child
      then A2Node (nd_type child) (nd_props child) (Kids (filter (kept_name visible) (childArray (nd_kids child))))
      else child)"

definition pruneExpanded :: "string list \<Rightarrow> a2_node \<Rightarrow> a2_node" where
  "pruneExpanded visible node =
     (let children = childArray (nd_kids node) in
      if list_ex (prunes visible) children
      then A2Node (nd_type node) (nd_props node) (Kids (map (pruneInstance visible) children)) else node)"

primrec expandRepeatGroups :: "repeat_expansion \<Rightarrow> a2_node \<Rightarrow> a2_node" where
  "expandRepeatGroups e (A2Node t ps children) =
     (let node = A2Node t ps children in
      if t = REPEAT_GROUP_NODE_TYPE then
        if \<not> isExpanded node then expandGroup e node
        else (case ex_visible e of None \<Rightarrow> node | Some vs \<Rightarrow> pruneExpanded vs node)
      else A2Node t ps (map_kids (expandRepeatGroups e) children))"

primrec hasRepeatGroup :: "a2_node \<Rightarrow> bool" where
  "hasRepeatGroup (A2Node t ps children) \<longleftrightarrow>
     t = REPEAT_GROUP_NODE_TYPE \<or> list_ex id (childArray (map_kids hasRepeatGroup children))"

section \<open>The visible questions\<close>

primrec pruneNode :: "string list \<Rightarrow> a2_node \<Rightarrow> a2_node option" where
  "pruneNode visible (A2Node t ps children) =
     (let node = A2Node t ps children in
      if t = REPEAT_GROUP_NODE_TYPE then Some node
      else if \<not> kept_name visible node then None
      else Some (A2Node t ps
        (case map_kids (pruneNode visible) children of
           NoKids \<Rightarrow> NoKids
         | TextKid s \<Rightarrow> TextKid s
         | Kids ns \<Rightarrow> Kids (List.map_filter id ns)
         | OneKid n \<Rightarrow> (case n of None \<Rightarrow> NoKids | Some m \<Rightarrow> OneKid m))))"

definition documentForVisible :: "a2_node \<Rightarrow> string list \<Rightarrow> a2_node" where
  "documentForVisible document visibleQuestions =
     opt_default (A2Node ''Form'' None (Kids [])) (pruneNode visibleQuestions document)"

end
