(* ===== verification/RepeatFacts.thy ===== *)
theory RepeatFacts
  imports RepeatExpand
begin

text \<open>
  The fields of an expanded page. A group's page carries, per drawn instance, the qualified
  names of the member controls that are visible there, whichever way the group is drawn.
\<close>

section \<open>Names of a control\<close>

lemma stringProp_with [simp]:
  "stringProp (with_prop k v n) k' = (if k' = k then (case v of JStr s \<Rightarrow> Some s | _ \<Rightarrow> None) else stringProp n k')"
  by (simp add: stringProp_def split: jsval.split)

lemma own_name_with [simp]:
  "own_name (with_prop ''name'' (JStr s) n) = [s]" "k \<noteq> ''name'' \<Longrightarrow> own_name (with_prop k v n) = own_name n"
  by (simp_all add: own_name_def)

lemma own_name_kids [simp]: "NO_MATCH NoKids ks \<Longrightarrow> own_name (A2Node t ps ks) = own_name (A2Node t ps NoKids)"
  by (simp add: own_name_def stringProp_def node_prop_def)

lemma stringProp_kids [simp]: "NO_MATCH NoKids ks \<Longrightarrow> stringProp (A2Node t ps ks) k = stringProp (A2Node t ps NoKids) k"
  by (simp add: stringProp_def node_prop_def)

lemma field_names_with:
  "k \<noteq> ''name'' \<Longrightarrow> field_names (with_prop k v n) = field_names n"
  by (simp add: field_names_node)

lemma field_names_kids:
  "field_names (A2Node t ps ks) = own_name (A2Node t ps NoKids) @ concat (map field_names (childArray ks))"
  by (simp add: field_names_node)

lemma field_names_qualify: "field_names (qualifyNames i n) = map (qualifiedFieldName i) (field_names n)"
proof (induction n)
  case (A2Node t ps children)
  let ?n = "A2Node t ps NoKids"
  have kids: "concat (map field_names (childArray (map_kids (qualifyNames i) children))) =
      map (qualifiedFieldName i) (concat (map field_names (childArray children)))"
    using A2Node.IH by (simp add: set_kids_childArray map_concat cong: map_cong)
  show ?case
  proof (cases "stringProp ?n ''name''")
    case None
    with kids show ?thesis by (simp add: Let_def own_name_def field_names_kids del: field_names.simps)
  next
    case (Some s)
    with kids show ?thesis
      by (simp add: Let_def field_names_node [of "with_prop _ _ _"] field_names_kids own_name_def del: field_names.simps)
  qed
qed

lemma field_names_relabel [simp]: "field_names (relabelCell n r) = field_names n"
  by (simp add: relabelCell_def field_names_with split: option.split)

section \<open>Question controls\<close>

text \<open>A control with the one name of its question and no group inside: what the compiler emits.\<close>

definition question_control :: "question_id \<Rightarrow> a2_node \<Rightarrow> bool" where
  "question_control q n \<longleftrightarrow> field_names n = [q] \<and> stringProp n ''name'' = Some q \<and> \<not> hasRepeatGroup n"

definition seen :: "string list option \<Rightarrow> string \<Rightarrow> bool" where
  "seen visible k \<longleftrightarrow> (case visible of None \<Rightarrow> True | Some vs \<Rightarrow> k \<in> set vs)"

lemma keepControl_question [simp]:
  "question_control q n \<Longrightarrow> keepControl n i visible = seen visible (qualifiedFieldName i q)"
  by (simp add: question_control_def keepControl_def seen_def split: option.split)

lemma list_all2_filter_map:
  assumes "list_all2 R qs ns" "\<And>q n. R q n \<Longrightarrow> p n = P q" "\<And>q n. R q n \<Longrightarrow> g n = [f q]"
  shows "concat (map g (filter p ns)) = map f (filter P qs)"
  using assms(1) by (induction rule: list_all2_induct) (simp_all add: assms(2,3))

definition instance_names :: "string list option \<Rightarrow> question_id list \<Rightarrow> instance_id \<Rightarrow> string list" where
  "instance_names visible qs i = filter (seen visible) (map (qualifiedFieldName i) qs)"

lemma no_own_name:
  "''name'' \<notin> fst ` set ps \<Longrightarrow> own_name (A2Node t (Some ps) ks) = []"
  by (simp add: own_name_def stringProp_def node_prop_def flip: map_of_eq_None_iff)

lemma fst_opt_prop: "fst ` set (opt_prop k f v) \<subseteq> {k}"
  by (auto simp: opt_prop_def split: option.splits)

lemma not_opt_prop [simp]: "k' \<noteq> k \<Longrightarrow> k' \<notin> fst ` set (opt_prop k f v)"
  using fst_opt_prop by fastforce

lemma instance_props_names: "''name'' \<notin> fst ` set (instance_props inp i n)" "''name'' \<notin> fst ` set (removal_props inp l)"
  using fst_opt_prop by (fastforce simp: instance_props_def Let_def removal_props_def)+

lemma kept_names:
  assumes "list_all2 question_control qs (in_template inp)"
  shows "concat (map field_names (map (qualifyNames i) (filter (\<lambda>n. keepControl n i (in_visible inp)) (in_template inp)))) =
    instance_names (in_visible inp) qs i"
  using list_all2_filter_map [OF assms, of "\<lambda>n. keepControl n i (in_visible inp)"
      "\<lambda>q. seen (in_visible inp) (qualifiedFieldName i q)" "\<lambda>n. field_names (qualifyNames i n)" "qualifiedFieldName i"]
  by (simp add: field_names_qualify question_control_def instance_names_def filter_map comp_def)

lemma instanceNode_names:
  assumes "list_all2 question_control qs (in_template inp)"
  shows "field_names (instanceNode inp i n) = instance_names (in_visible inp) qs i"
  using kept_names [OF assms, of i] instance_props_names
  by (simp add: instanceNode_def Let_def field_names_kids no_own_name image_Un del: field_names.simps)

lemma cellNode_names:
  "field_names (cellNode inp i l n) =
     (if keepControl n i (in_visible inp) then map (qualifiedFieldName i) (field_names n) else [])"
  by (simp add: cellNode_def field_names_kids no_own_name field_names_qualify del: field_names.simps)

lemma rowNode_names:
  assumes "list_all2 question_control qs (in_template inp)"
  shows "field_names (rowNode inp i n) = instance_names (in_visible inp) qs i"
proof -
  have "concat (map field_names (map (cellNode inp i l) ns)) =
      concat (map field_names (map (qualifyNames i) (filter (\<lambda>n. keepControl n i (in_visible inp)) ns)))" for l ns
    by (induction ns) (simp_all add: cellNode_names field_names_qualify)
  with kept_names [OF assms, of i] instance_props_names show ?thesis
    by (simp add: rowNode_def Let_def field_names_kids no_own_name image_Un del: field_names.simps)
qed

lemma map_enumerate: "map (\<lambda>(n, x). f x) (List.enumerate k xs) = map f xs"
  by (induction xs arbitrary: k) simp_all

lemma filter_enumerate:
  "map (\<lambda>(n, x). f x) (filter (\<lambda>(n, x). P x) (List.enumerate k xs)) = map f (filter P xs)"
  by (induction xs arbitrary: k) simp_all

lemma repeatTableNode_names:
  assumes "list_all2 question_control qs (in_template inp)"
  shows "field_names (repeatTableNode inp) = concat (map (instance_names (in_visible inp) qs) (in_instances inp))"
proof -
  have "field_names \<circ> (\<lambda>(n, i). rowNode inp i n) = (\<lambda>(n, i). instance_names (in_visible inp) qs i)"
    by (auto simp: rowNode_names [OF assms])
  moreover have "''name'' \<notin> fst ` set (if al = Some '''' then [] else opt_prop ''actionsLabel'' JStr al)" for al
    by simp
  ultimately show ?thesis
    by (simp add: repeatTableNode_def Let_def field_names_kids no_own_name image_Un map_enumerate del: field_names.simps)
qed

lemma stackedChildren_names:
  assumes "list_all2 question_control qs (in_template inp)"
  shows "concat (map field_names (stackedChildren inp drawnOnly)) =
    concat (map (instance_names (in_visible inp) qs)
      (filter (\<lambda>i. drawnOnly = None \<or> drawnOnly = Some i) (in_instances inp)))"
proof -
  have names: "field_names \<circ> (\<lambda>(n, i). instanceNode inp i n) = (\<lambda>(n, i). instance_names (in_visible inp) qs i)"
    by (auto simp: instanceNode_names [OF assms])
  have "field_names (groupHeading l lev) = []" for l lev
    by (simp add: groupHeading_def field_names_kids no_own_name del: field_names.simps)
  then show ?thesis
    by (simp only: stackedChildren_def map_append concat_append map_map names filter_enumerate) simp
qed

section \<open>Groups and pages\<close>

definition group_drawn :: "repeat_expansion \<Rightarrow> a2_node \<Rightarrow> instance_id list" where
  "group_drawn e node =
     (if stringProp node ''presentation'' = Some ''table'' then group_instances e node
      else filter (\<lambda>i. drawn_only e node = None \<or> drawn_only e node = Some i) (group_instances e node))"

lemma not_fst_if [simp]: "x \<notin> fst ` set (if b then xs else ys) \<longleftrightarrow> (if b then x \<notin> fst ` set xs else x \<notin> fst ` set ys)"
  by simp

lemma group_props_names: "''name'' \<notin> fst ` set (group_props e node)"
  unfolding group_props_def Let_def set_append image_Un Un_iff de_Morgan_disj not_fst_if by simp

lemma expandGroup_names:
  assumes "list_all2 question_control qs (childArray (nd_kids node))"
  shows "field_names (expandGroup e node) = concat (map (instance_names (ex_visible e) qs) (group_drawn e node))"
proof -
  have t: "list_all2 question_control qs (in_template (table_input e node))"
    using assms by (simp add: table_input_def)
  have [simp]: "in_visible (table_input e node) = ex_visible e" "in_instances (table_input e node) = group_instances e node"
    by (simp_all add: table_input_def)
  have "opt_default ''stacked'' p = ''table'' \<longleftrightarrow> p = Some ''table''" for p by (cases p) simp_all
  then show ?thesis
    by (simp add: expandGroup_def Let_def field_names_kids no_own_name group_props_names group_drawn_def
        repeatTableNode_names [OF t] stackedChildren_names [OF t] del: field_names.simps)
qed

lemma expand_no_group: "\<not> hasRepeatGroup n \<Longrightarrow> expandRepeatGroups e n = n"
proof (induction n)
  case (A2Node t ps children)
  then have "map_kids (expandRepeatGroups e) children = children"
    by (intro kids.map_ident_strong) (auto simp: set_kids_childArray list_ex_iff)
  with A2Node.prems show ?case by simp
qed

lemma hasRepeatGroup_controls:
  "list_all2 question_control qs ns \<Longrightarrow> \<not> list_ex (\<lambda>c. nd_type c = REPEAT_GROUP_NODE_TYPE) ns"
proof (induction rule: list_all2_induct)
  case (Cons q qs n ns)
  then show ?case by (cases n) (auto simp: question_control_def)
qed simp

lemma pruneNode_keeps: "set (field_names n) \<subseteq> set vs \<Longrightarrow> pruneNode vs n = Some n"
proof (induction n)
  case (A2Node t ps children)
  let ?n = "A2Node t ps children"
  have sub: "set (field_names c) \<subseteq> set vs" if "c \<in> set_kids children" for c
    using that A2Node.prems by (auto simp: set_kids_childArray)
  have "map_kids (pruneNode vs) children = map_kids Some children"
    by (intro kids.map_cong0) (use A2Node.IH sub in simp)
  moreover have "kept_name vs ?n"
    using A2Node.prems by (auto simp: kept_name_def own_name_def stringProp_def node_prop_def split: option.splits)
  moreover have "List.map_filter id (map Some ns) = ns" for ns :: "a2_node list"
    by (induction ns) (simp_all add: List.map_filter_simps)
  ultimately show ?case by (cases children) (simp_all only: pruneNode.simps Let_def, simp_all)
qed

lemma pruneNode_question:
  assumes "question_control q n"
  shows "pruneNode vs n = (if q \<in> set vs then Some n else None)"
proof (cases "q \<in> set vs")
  case True
  with assms pruneNode_keeps show ?thesis by (simp add: question_control_def)
next
  case False
  obtain t ps ks where n: "n = A2Node t ps ks" by (cases n)
  with False assms show ?thesis by (simp add: question_control_def kept_name_def Let_def)
qed

end
