(* ===== verification/A2uiChecks.thy ===== *)
theory A2uiChecks
  imports A2uiCompile
begin

text \<open>
  What the compiler guarantees: it never throws on a published snapshot, and the fields of a
  step's document are the pinned questions of the step, in document order, and the decoy.
\<close>

section \<open>When the compiler returns\<close>

lemma parse_all_total: "(\<And>x. x \<in> set xs \<Longrightarrow> \<exists>y. f x = Some y) \<Longrightarrow> \<exists>ys. parse_all f xs = Some ys"
proof (induction xs)
  case (Cons x xs)
  then obtain y ys where "f x = Some y" "parse_all f xs = Some ys" by force
  then show ?case by simp
qed simp

definition resolves :: "text_resolver \<Rightarrow> localized_text option \<Rightarrow> bool" where
  "resolves resolve t \<longleftrightarrow> (\<forall>x. t = Some x \<longrightarrow> (\<exists>s. resolve x = Some s))"

definition question_resolves :: "text_resolver \<Rightarrow> question_definition \<Rightarrow> bool" where
  "question_resolves resolve q \<longleftrightarrow>
     (\<forall>site \<in> set (questionTextSites q). resolves resolve (Some (ts_text site)))"

lemma site_texts [simp]:
  "ts_text ` set (site_at path t) = set_option t" "ts_text ` set (option_sites q opts) = opt_label ` set opts"
  by (cases t; simp add: site_at_def) (simp add: option_sites_def image_image)

lemma question_texts:
  "ts_text ` set (questionTextSites q) =
     {q_label q} \<union> set_option (q_help q) \<union> (\<Union>key. set_option (message_of q key)) \<union>
     (case body q of
        BooleanQ y n \<Rightarrow> set_option y \<union> set_option n
      | SingleChoice opts \<Rightarrow> opt_label ` set opts
      | MultiChoice opts _ _ \<Rightarrow> opt_label ` set opts
      | _ \<Rightarrow> {})"
proof -
  have "set VALIDATION_MESSAGE_KEYS = UNIV" by auto
  then show ?thesis
    by (cases "body q") (simp_all add: questionTextSites_def Let_def image_Un image_UN Un_assoc)
qed

lemma question_resolvesD:
  assumes "question_resolves resolve q"
  shows "resolves resolve (Some (q_label q))" "resolves resolve (q_help q)" "resolves resolve (message_of q key)"
    "body q = BooleanQ y n \<Longrightarrow> resolves resolve y \<and> resolves resolve n"
    "body q = SingleChoice opts \<Longrightarrow> \<forall>opt \<in> set opts. resolves resolve (Some (opt_label opt))"
    "body q = MultiChoice opts mn mx \<Longrightarrow> \<forall>opt \<in> set opts. resolves resolve (Some (opt_label opt))"
proof -
  have "\<exists>s. resolve t = Some s" if "t \<in> ts_text ` set (questionTextSites q)" for t
    using assms that by (auto simp: question_resolves_def resolves_def)
  note site_resolves = this [unfolded question_texts]
  show "resolves resolve (Some (q_label q))" "resolves resolve (q_help q)" "resolves resolve (message_of q key)"
    unfolding resolves_def by (intro allI impI site_resolves; auto)+
  show "body q = BooleanQ y n \<Longrightarrow> resolves resolve y \<and> resolves resolve n"
    "body q = SingleChoice opts \<Longrightarrow> \<forall>opt \<in> set opts. resolves resolve (Some (opt_label opt))"
    "body q = MultiChoice opts mn mx \<Longrightarrow> \<forall>opt \<in> set opts. resolves resolve (Some (opt_label opt))"
    unfolding resolves_def by (intro conjI ballI allI impI site_resolves; auto)+
qed

lemma resolve_opt_total: "resolves resolve t \<Longrightarrow> \<exists>v. resolve_opt resolve t = Some v"
  by (cases t) (auto simp: resolves_def resolve_opt_def)

lemma option_children_total:
  "\<forall>opt \<in> set opts. resolves resolve (Some (opt_label opt)) \<Longrightarrow> \<exists>cs. option_children f resolve opts = Some cs"
  unfolding option_children_def by (rule parse_all_total) (auto simp: resolves_def)

lemma authorMessages_total:
  assumes "question_resolves resolve q"
  shows "\<exists>v. authorMessages q resolve = Some v"
proof (cases "messages q")
  case (Some ms)
  have "\<exists>ys. parse_all (\<lambda>key. map_option (\<lambda>s. (key_name key, JStr s)) (resolve (the (map_of ms key))))
      (filter (\<lambda>key. map_of ms key \<noteq> None) VALIDATION_MESSAGE_KEYS) = Some ys"
  proof (rule parse_all_total)
    fix key assume "key \<in> set (filter (\<lambda>key. map_of ms key \<noteq> None) VALIDATION_MESSAGE_KEYS)"
    then show "\<exists>y. map_option (\<lambda>s. (key_name key, JStr s)) (resolve (the (map_of ms key))) = Some y"
      using question_resolvesD(3) [OF assms, of key] Some by (auto simp: message_of_def resolves_def)
  qed
  then show ?thesis unfolding authorMessages_def Some by (auto simp del: not_None_eq)
qed (simp add: authorMessages_def)

lemma baseControlProps_total:
  assumes "question_resolves resolve q"
  shows "\<exists>ps. baseControlProps q resolve = Some ps"
proof -
  obtain l h m where "resolve (q_label q) = Some l" "resolve_opt resolve (q_help q) = Some h"
    "authorMessages q resolve = Some m"
    using question_resolvesD(1) [OF assms] resolve_opt_total [OF question_resolvesD(2) [OF assms]]
      authorMessages_total [OF assms] by (auto simp: resolves_def)
  then show ?thesis by (simp add: baseControlProps_def)
qed

lemma questionToNode_total:
  assumes "question_resolves resolve q"
  shows "\<exists>n. questionToNode q resolve loc = Some n"
proof -
  obtain ps where base: "baseControlProps q resolve = Some ps" using baseControlProps_total [OF assms] by blast
  show ?thesis
  proof (cases "body q")
    case (BooleanQ y n)
    from question_resolvesD(4) [OF assms this] base BooleanQ show ?thesis
      by (cases y; cases n) (auto simp: questionToNode_def resolves_def)
  next
    case (SingleChoice opts)
    note total = option_children_total [OF question_resolvesD(5) [OF assms SingleChoice]]
    from total [of radioChild] total [of "\<lambda>v l. JObj [(''label'', JStr l), (''value'', JStr v)]"] base SingleChoice
    show ?thesis by (auto simp: questionToNode_def)
  next
    case (MultiChoice opts mn mx)
    from option_children_total [OF question_resolvesD(6) [OF assms MultiChoice], of checkboxChild] base MultiChoice
    show ?thesis by (auto simp: questionToNode_def)
  qed (use base in \<open>simp_all add: questionToNode_def\<close>)
qed

definition item_resolves ::
  "text_resolver \<Rightarrow> (question_ref \<Rightarrow> question_definition option) \<Rightarrow> step_item \<Rightarrow> bool" where
  "item_resolves resolve res item \<longleftrightarrow>
     (\<forall>r \<in> set (item_refs item). \<exists>q. res r = Some q \<and> question_resolves resolve q) \<and>
     (\<forall>g \<in> set (item_groups item). resolves resolve (Some (g_label g)) \<and> resolves resolve (Some (instanceLabel g)))"

lemma item_node_total:
  assumes "item_resolves (sc_resolveText c) (sc_resolveQuestion c) item"
  shows "\<exists>n. item_node c item = Some n"
proof (cases item)
  case (QuestionItem r)
  with assms questionToNode_total show ?thesis by (fastforce simp: item_resolves_def item_node_def)
next
  case (GroupItem g)
  have "\<exists>ys. parse_all (\<lambda>r. Option.bind (sc_resolveQuestion c r)
      (\<lambda>q. questionToNode q (sc_resolveText c) (sc_locale c))) (g_items g) = Some ys"
    by (rule parse_all_total) (use assms GroupItem questionToNode_total in \<open>fastforce simp: item_resolves_def\<close>)
  with assms GroupItem show ?thesis
    by (auto simp: item_resolves_def item_node_def repeatGroupNode_def resolves_def)
qed

definition step_resolves :: "step_context \<Rightarrow> step \<Rightarrow> bool" where
  "step_resolves c s \<longleftrightarrow>
     resolves (sc_resolveText c) (Some (s_title s)) \<and>
     resolves (sc_resolveText c) (Some (f_title (snap_definition (sc_snapshot c)))) \<and>
     (\<forall>item \<in> set (s_items s). item_resolves (sc_resolveText c) (sc_resolveQuestion c) item)"

lemma staticStepResolver_total:
  assumes "step_resolves c s"
  shows "\<exists>doc. staticStepResolver s c = Some doc"
proof -
  have "\<exists>ns. parse_all (item_node c) (s_items s) = Some ns"
    by (rule parse_all_total) (use assms item_node_total in \<open>auto simp: step_resolves_def\<close>)
  with assms show ?thesis by (auto simp: staticStepResolver_def step_resolves_def resolves_def)
qed

section \<open>Published snapshots\<close>

lemma textResolver_resolves: "isCompleteFor t dflt \<Longrightarrow> resolves (textResolver loc dflt) (Some t)"
  using isCompleteFor_resolveText [of t dflt loc] by (auto simp: resolves_def textResolver_def)

lemma find_append:
  "List.find P (xs @ ys) = (case List.find P xs of Some x \<Rightarrow> Some x | None \<Rightarrow> List.find P ys)"
  by (induction xs) auto

lemma map_of_update_fold:
  "map_of (foldl (\<lambda>m r. AList.update (f r) (g r) m) m0 rs) k =
     (case List.find (\<lambda>r. f r = k) (rev rs) of Some r \<Rightarrow> Some (g r) | None \<Rightarrow> map_of m0 k)"
proof (induction rs arbitrary: m0)
  case (Cons r rs)
  show ?case by (simp add: Cons.IH find_append split: option.split)
qed simp

lemma find_distinct:
  assumes "distinct (map f rs)" "r \<in> set rs"
  shows "List.find (\<lambda>x. f x = f r) rs = Some r"
  using assms by (induction rs) auto

lemma questionResolver_member:
  assumes "distinct (map rec_questionId (snap_questions snap))" "rcd \<in> set (snap_questions snap)"
    "rec_questionId rcd = ref_questionId r" "rec_version rcd = ref_version r"
  shows "questionResolver snap r = Some (rec_definition rcd)"
proof -
  let ?f = "\<lambda>x. (rec_questionId x, rec_version x)"
  have "inj_on rec_questionId (set (snap_questions snap))" "distinct (snap_questions snap)"
    using assms(1) by (simp_all add: distinct_map)
  then have "distinct (map ?f (rev (snap_questions snap)))"
    by (auto simp: distinct_map inj_on_def)
  from find_distinct [OF this, of rcd] assms(2-) show ?thesis
    by (simp add: questionResolver_def map_of_update_fold)
qed

lemma compiled_pins:
  assumes "compileDraft compiles_u compiles_v draft = Inr out" "r \<in> set (form_refs (d_definition draft))"
  obtains rcd where "pin_record draft r = Some rcd" "rcd \<in> set (snap_questions (out_snapshot out))"
    "questionResolver (out_snapshot out) r = Some (rec_definition rcd)"
proof -
  from assms(1) have clean: "draft_errors draft = []" by (simp add: compileDraft_Inr_iff)
  let ?rec = "\<lambda>r. the (pin_record draft r)"
  have qs: "snap_questions (out_snapshot out) = map ?rec (form_refs (d_definition draft))"
    using assms(1) by (simp add: compileDraft_Inr_iff clean_snapshot_questions [OF clean])
  have rec: "pin_record draft r = Some (?rec r)" "rec_questionId (?rec r) = ref_questionId r"
      "rec_version (?rec r) = ref_version r"
    if "r \<in> set (form_refs (d_definition draft))" for r
    using clean_pins(1) [OF clean that] by (auto dest: pin_record_Some)
  have "distinct (map ref_questionId (form_refs (d_definition draft)))"
    using clean_unambiguous [OF clean] by (simp add: unambiguous_def form_pins_refs)
  then have "distinct (map rec_questionId (snap_questions (out_snapshot out)))"
    unfolding qs using rec by (simp cong: map_cong)
  from questionResolver_member [OF this, of "?rec r" r] that [OF rec(1) [OF assms(2)]] rec [OF assms(2)] qs assms(2)
  show ?thesis by simp
qed

lemma compiled_texts:
  assumes "compileDraft compiles_u compiles_v draft = Inr out"
    "site \<in> set (textSites (d_definition draft) (snd (resolvePins draft)))"
  shows "resolves (textResolver loc (defaultLocale (d_definition draft))) (Some (ts_text site))"
proof -
  have "checkLocaleCompleteness (d_definition draft) (textSites (d_definition draft) (snd (resolvePins draft))) = []"
    using assms(1) by (simp add: compileDraft_Inr_iff draft_errors_def Let_def split_def)
  with assms(2) have "isCompleteFor (ts_text site) (defaultLocale (d_definition draft))"
    by (auto simp: checkLocaleCompleteness_def split: if_splits)
  then show ?thesis by (rule textResolver_resolves)
qed

lemma step_texts:
  assumes "GroupItem g \<in> set (s_items s)"
  shows "g_label g \<in> ts_text ` set (step_sites s)" "instanceLabel g \<in> ts_text ` set (step_sites s)"
proof -
  have "ts_text ` set (step_sites s) =
      insert (s_title s) (\<Union>item \<in> set (s_items s). case item of GroupItem h \<Rightarrow> {g_label h, instanceLabel h} | _ \<Rightarrow> {})"
    by (simp add: step_sites_def Let_def image_Un image_UN step_item.case_distrib [of set] step_item.case_distrib [of "(`) ts_text"]
        cong: step_item.case_cong) (rule arg_cong [of _ _ "insert _"], rule SUP_cong, auto split: step_item.split)
  with assms show "g_label g \<in> ts_text ` set (step_sites s)" "instanceLabel g \<in> ts_text ` set (step_sites s)"
    by force+
qed

lemma compiled_step_resolves:
  assumes "compileDraft compiles_u compiles_v draft = Inr out" "s \<in> set (f_steps (d_definition draft))"
    "sc_resolveText c = textResolver loc (defaultLocale (d_definition draft))"
    "sc_resolveQuestion c = questionResolver (out_snapshot out)" "sc_snapshot c = out_snapshot out"
  shows "step_resolves c s"
proof -
  from assms(1) have clean: "draft_errors draft = []" and def: "snap_definition (out_snapshot out) = d_definition draft"
    by (simp_all add: compileDraft_Inr_iff)
  let ?sites = "textSites (d_definition draft) (snd (resolvePins draft))"
  note site = compiled_texts [OF assms(1), of _ loc]
  have question: "question_resolves (sc_resolveText c) (rec_definition rcd)"
    if r: "r \<in> set (form_refs (d_definition draft))" and rcd: "pin_record draft r = Some rcd" for r rcd
  proof -
    have "(ref_questionId r, rcd) \<in> set (snd (resolvePins draft))"
      unfolding clean_resolved [OF clean] using r rcd by force
    then have "set (questionTextSites (rec_definition rcd)) \<subseteq> set ?sites"
      by (fastforce simp: textSites_def)
    with site assms(3) show ?thesis by (auto simp: question_resolves_def)
  qed
  have "set (step_sites s) \<subseteq> set ?sites" using assms(2) by (auto simp: textSites_def)
  note step_site = subsetD [OF this, THEN site, folded assms(3)]
  have "item_resolves (sc_resolveText c) (sc_resolveQuestion c) item" if item: "item \<in> set (s_items s)" for item
  proof -
    have "\<exists>q. sc_resolveQuestion c r = Some q \<and> question_resolves (sc_resolveText c) q"
      if "r \<in> set (item_refs item)" for r
    proof -
      have r: "r \<in> set (form_refs (d_definition draft))"
        using that item assms(2) by (auto simp: form_refs_def stepQuestionRefs_def)
      from compiled_pins [OF assms(1) r] question [OF r] show ?thesis unfolding assms(4) by metis
    qed
    moreover have "resolves (sc_resolveText c) (Some (g_label g)) \<and> resolves (sc_resolveText c) (Some (instanceLabel g))"
      if g: "g \<in> set (item_groups item)" for g
    proof -
      have "item = GroupItem g" using g by (cases item) auto
      with item have "GroupItem g \<in> set (s_items s)" by simp
      from step_texts [OF this] step_site show ?thesis by (metis imageE)
    qed
    ultimately show ?thesis by (simp add: item_resolves_def)
  qed
  moreover have "resolves (sc_resolveText c) (Some (s_title s))"
    using step_site [of "\<lparr>ts_text = s_title s, ts_path = no_path\<lparr>tp_step := Some (stepId s)\<rparr>\<rparr>"]
    by (simp add: step_sites_def site_at_def)
  moreover have "resolves (sc_resolveText c) (Some (f_title (d_definition draft)))"
    using site [of "\<lparr>ts_text = f_title (d_definition draft), ts_path = no_path\<rparr>"] assms(3)
    by (simp add: textSites_def site_at_def)
  ultimately show ?thesis by (simp add: step_resolves_def assms(5) def)
qed

lemma compiled_form_total:
  assumes "compileDraft compiles_u compiles_v draft = Inr out"
  shows "\<exists>form. compileForm (out_snapshot out) wanted = Some form"
proof -
  from assms have def: "snap_definition (out_snapshot out) = d_definition draft" by (simp add: compileDraft_Inr_iff)
  let ?c = "\<lambda>index. \<lparr>sc_snapshot = out_snapshot out, sc_locale = opt_default (defaultLocale (d_definition draft)) wanted,
      sc_resolveText = textResolver (opt_default (defaultLocale (d_definition draft)) wanted)
        (defaultLocale (d_definition draft)),
      sc_resolveQuestion = questionResolver (out_snapshot out), isFirstStep = (index = 0)\<rparr>"
  have "\<exists>docs. parse_all (\<lambda>(index, step). staticStepResolver step (?c index))
      (List.enumerate 0 (f_steps (d_definition draft))) = Some docs"
  proof (rule parse_all_total)
    fix x assume x: "x \<in> set (List.enumerate 0 (f_steps (d_definition draft)))"
    obtain i s where [simp]: "x = (i, s)" by (cases x)
    have "s \<in> set (f_steps (d_definition draft))" using x by (auto simp: in_set_enumerate_eq)
    from compiled_step_resolves [OF assms this, of "?c i"] show "\<exists>y. (case x of (index, step) \<Rightarrow> staticStepResolver step (?c index)) = Some y"
      using staticStepResolver_total by simp
  qed
  then show ?thesis by (auto simp: compileForm_def compileFormWith_def def Let_def)
qed

end
