(* ===== verification/PageFields.thy ===== *)
theory PageFields
  imports RepeatFacts A2uiChecks FlowAccount Visibility
begin

text \<open>
  The compiler and the renderer together: the fields of a respondent's page are the visible
  entries of the step, and every other name of the compiled document is dropped.
\<close>

section \<open>Compiled controls\<close>

definition control_types :: "string list" where
  "control_types =
     [''TextField'', ''TextArea'', ''NumberField'', ''DatePicker'', ''RadioGroup'', ''Select'', ''CheckboxGroup'']"

lemma base_name:
  assumes "baseControlProps q resolve = Some ps"
  shows "map_of (compact (ps @ rest)) ''name'' = Some (JStr (questionId q))"
  using assms by (auto simp: baseControlProps_def compact_def split: Option.bind_splits)

lemma named_control:
  assumes "baseControlProps q resolve = Some ps" "t \<noteq> REPEAT_GROUP_NODE_TYPE"
    "\<forall>c \<in> set (childArray ks). field_names c = [] \<and> \<not> hasRepeatGroup c"
  shows "question_control (questionId q) (A2Node t (Some (compact (ps @ rest))) ks)"
proof -
  have name: "stringProp (A2Node t (Some (compact (ps @ rest))) ks') ''name'' = Some (questionId q)" for ks'
    using base_name [OF assms(1), of rest] by (simp add: stringProp_def node_prop_def)
  have "concat (map field_names (childArray ks)) = []" "\<not> list_ex id (map hasRepeatGroup (childArray ks))"
    using assms(3) by (auto simp: list_ex_iff)
  with name assms(2) show ?thesis by (simp add: question_control_def own_name_def)
qed

lemma list_all2_right: "list_all2 R xs ys \<Longrightarrow> y \<in> set ys \<Longrightarrow> \<exists>x \<in> set xs. R x y"
  by (induction rule: list_all2_induct) auto

lemma choice_children:
  assumes "option_children (choice_child t) resolve opts = Some cs" "t \<noteq> REPEAT_GROUP_NODE_TYPE"
  shows "\<forall>c \<in> set cs. field_names c = [] \<and> \<not> hasRepeatGroup c"
proof -
  have "field_names (choice_child t v l) = [] \<and> \<not> hasRepeatGroup (choice_child t v l)" for v l
    using assms(2) by (simp add: choice_child_def no_own_name)
  moreover have "\<exists>v l. c = choice_child t v l" if "c \<in> set cs" for c
    using assms(1) that by (fastforce simp: option_children_def parse_all_Some_iff dest: list_all2_right)
  ultimately show ?thesis by metis
qed

lemma questionToNode_control:
  assumes "questionToNode q resolve loc = Some n"
  shows "question_control (questionId q) n" "nd_type n \<in> set control_types"
proof -
  from assms obtain ps where ps: "baseControlProps q resolve = Some ps"
    by (auto simp: questionToNode_def split: Option.bind_splits)
  note named = named_control [OF ps] named_control [OF ps, where rest = "[]", simplified]
  have choice: "\<forall>c \<in> {radioChild v l, radioChild v' l'}. field_names c = [] \<and> \<not> hasRepeatGroup c" for v l v' l'
    by (simp add: radioChild_def choice_child_def no_own_name REPEAT_GROUP_NODE_TYPE_def)
  have "question_control (questionId q) n \<and> nd_type n \<in> set control_types"
  proof (cases "body q")
    case (BooleanQ y no)
    with assms ps choice show ?thesis
      by (auto simp: questionToNode_def control_types_def REPEAT_GROUP_NODE_TYPE_def intro!: named
          split: Option.bind_splits)
  next
    case (SingleChoice opts)
    with assms ps show ?thesis
      by (auto simp: questionToNode_def control_types_def control_def REPEAT_GROUP_NODE_TYPE_def radioChild_def
          intro!: named dest!: choice_children split: Option.bind_splits if_splits)
  next
    case (MultiChoice opts mn mx)
    with assms ps show ?thesis
      by (auto simp: questionToNode_def control_types_def REPEAT_GROUP_NODE_TYPE_def checkboxChild_def
          intro!: named dest!: choice_children split: Option.bind_splits)
  qed (use assms ps in \<open>auto simp: questionToNode_def control_types_def control_def REPEAT_GROUP_NODE_TYPE_def intro!: named\<close>)
  then show "question_control (questionId q) n" "nd_type n \<in> set control_types" by simp_all
qed

section \<open>Compiled items\<close>

text \<open>What a page asks of an item's node, and that the compiler gives it.\<close>

definition group_node :: "repeat_group \<Rightarrow> a2_node \<Rightarrow> bool" where
  "group_node g n \<longleftrightarrow>
     nd_type n = REPEAT_GROUP_NODE_TYPE \<and> \<not> isExpanded n \<and>
     stringProp n ''groupId'' = Some (groupId g) \<and>
     stringProp n ''presentation'' = Some (presentation_text (presentation g)) \<and>
     list_all2 question_control (map ref_questionId (g_items g)) (childArray (nd_kids n))"

fun item_drawn_as :: "step_item \<Rightarrow> a2_node \<Rightarrow> bool" where
  "item_drawn_as (QuestionItem r) n = question_control (ref_questionId r) n"
| "item_drawn_as (GroupItem g) n = group_node g n"

definition resolver_sound :: "step_context \<Rightarrow> bool" where
  "resolver_sound c \<longleftrightarrow> (\<forall>r q. sc_resolveQuestion c r = Some q \<longrightarrow> questionId q = ref_questionId r)"

lemma group_node_compiled:
  assumes "resolver_sound c" "item_node c (GroupItem g) = Some n"
  shows "group_node g n"
proof -
  from assms(2) obtain inst lbl children where
    n: "n = A2Node REPEAT_GROUP_NODE_TYPE (Some (repeat_props g lbl inst (sc_locale c))) (Kids children)" and
    children: "list_all2 (\<lambda>r m. \<exists>q. sc_resolveQuestion c r = Some q \<and>
        questionToNode q (sc_resolveText c) (sc_locale c) = Some m) (g_items g) children"
    by (auto simp: item_node_def repeatGroupNode_def parse_all_Some_iff bind_eq_Some_conv split: Option.bind_splits)
  have controls: "list_all2 question_control (map ref_questionId (g_items g)) children"
    using children assms(1) by (auto simp: list_all2_map1 resolver_sound_def elim!: list_all2_mono dest: questionToNode_control)
  have "\<forall>m \<in> set children. nd_type m \<in> set control_types"
    using children by (fastforce dest: list_all2_right questionToNode_control(2))
  then have "\<not> isExpanded n"
    by (fastforce simp: n isExpanded_def list_ex_iff control_types_def node_types)
  with controls show ?thesis
    by (simp add: group_node_def n stringProp_def node_prop_def repeat_props_def)
qed

lemma item_compiled:
  assumes "resolver_sound c" "item_node c item = Some n"
  shows "item_drawn_as item n"
proof (cases item)
  case (QuestionItem r)
  with assms show ?thesis
    by (auto simp: item_node_def resolver_sound_def dest!: questionToNode_control(1) split: Option.bind_splits)
next
  case (GroupItem g)
  with group_node_compiled [OF assms(1)] assms(2) show ?thesis by simp
qed

lemma step_compiled:
  assumes "resolver_sound c" "staticStepResolver s c = Some doc"
  obtains heads ns ps where
    "doc_root doc = A2Node ''Form'' None (Kids [A2Node ''Flex'' (Some ps) (Kids (heads @ ns @ [honeypotNode]))])"
    "doc_stepId doc = stepId s" "''name'' \<notin> fst ` set ps"
    "\<forall>h \<in> set heads. field_names h = [] \<and> \<not> hasRepeatGroup h" "list_all2 item_drawn_as (s_items s) ns"
proof -
  have heading: "field_names (heading b t) = [] \<and> \<not> hasRepeatGroup (heading b t)" for b t
    by (simp add: heading_def no_own_name REPEAT_GROUP_NODE_TYPE_def)
  from assms(2) obtain heads sub ns where
    heads: "(if isFirstStep c then map_option (\<lambda>t. [heading True t]) (sc_resolveText c (f_title (snap_definition (sc_snapshot c))))
        else Some []) = Some heads" and
    ns: "list_all2 (\<lambda>item n. item_node c item = Some n) (s_items s) ns" and
    doc: "doc_stepId doc = stepId s"
      "doc_root doc = A2Node ''Form'' None (Kids [A2Node ''Flex'' (Some [(''direction'', JStr ''column''), (''gap'', JStr ''md'')])
        (Kids (heads @ heading False sub # ns @ [honeypotNode]))])"
    by (auto simp: staticStepResolver_def parse_all_Some_iff bind_eq_Some_conv)
  have items: "list_all2 item_drawn_as (s_items s) ns"
    using ns item_compiled [OF assms(1)] by (auto elim!: list_all2_mono)
  show thesis
    by (rule that [of "[(''direction'', JStr ''column''), (''gap'', JStr ''md'')]" "heads @ [heading False sub]" ns])
       (use doc items heads heading in \<open>auto split: if_splits\<close>)
qed

section \<open>The page\<close>

text \<open>
  The names an item of a step puts on a page, in the order of the page: a question its id, a
  group its members per drawn instance; each when the host's list of visible names has it.
\<close>

definition drawn :: "repeat_expansion \<Rightarrow> repeat_group \<Rightarrow> instance_id list" where
  "drawn e g =
     (let live = opt_default [] (map_of (ex_rosters e) (groupId g)) in
      case ex_view e of
        None \<Rightarrow> live
      | Some (vg, vi) \<Rightarrow> if vg = groupId g \<and> presentation g \<noteq> Table then filter (\<lambda>i. vi = i) live else live)"

fun page_item :: "repeat_expansion \<Rightarrow> string list \<Rightarrow> step_item \<Rightarrow> string list" where
  "page_item e vs (QuestionItem r) = filter (\<lambda>k. k \<in> set vs) [answerKey (ref_questionId r) None]"
| "page_item e vs (GroupItem g) =
     filter (\<lambda>k. k \<in> set vs)
       (concat (map (\<lambda>i. map (\<lambda>r. answerKey (ref_questionId r) (Some i)) (g_items g)) (drawn e g)))"

definition page_of :: "repeat_expansion \<Rightarrow> string list \<Rightarrow> a2ui_document \<Rightarrow> a2_node" where
  "page_of e vs doc = expandRepeatGroups (e\<lparr>ex_visible := Some vs\<rparr>) (documentForVisible (doc_root doc) vs)"

lemma presentation_text_table [simp]: "presentation_text p = ''table'' \<longleftrightarrow> p = Table"
  by (cases p) simp_all

lemma seen_Some: "seen (Some vs) = (\<lambda>k. k \<in> set vs)"
  by (simp add: seen_def fun_eq_iff)

lemma group_page:
  assumes "group_node g n"
  shows "field_names (expandRepeatGroups (e\<lparr>ex_visible := Some vs\<rparr>) n) = page_item e vs (GroupItem g)"
proof -
  let ?e = "e\<lparr>ex_visible := Some vs\<rparr>"
  have "expandRepeatGroups ?e n = expandGroup ?e n"
    using assms by (cases n) (simp add: group_node_def)
  moreover have "group_drawn ?e n = drawn e g"
    using assms by (auto simp: group_drawn_def drawn_def group_node_def group_instances_def drawn_only_def Let_def
        split: option.split)
  ultimately show ?thesis
    using expandGroup_names [of "map ref_questionId (g_items g)" n ?e] assms
    by (simp add: group_node_def instance_names_def [abs_def] seen_Some qualifiedFieldName_answerKey comp_def filter_concat)
qed

lemma item_page:
  assumes "item_drawn_as item n"
  shows "(case pruneNode vs n of None \<Rightarrow> [] | Some m \<Rightarrow> field_names (expandRepeatGroups (e\<lparr>ex_visible := Some vs\<rparr>) m)) =
    page_item e vs item"
proof (cases item)
  case (QuestionItem r)
  with assms have "question_control (ref_questionId r) n" by simp
  moreover from this have "field_names n = [ref_questionId r]" "\<not> hasRepeatGroup n"
    by (simp_all add: question_control_def)
  ultimately show ?thesis using QuestionItem by (simp add: pruneNode_question expand_no_group)
next
  case (GroupItem g)
  with assms have "group_node g n" by simp
  moreover from this have "pruneNode vs n = Some n" by (cases n) (simp add: group_node_def)
  ultimately show ?thesis using GroupItem group_page by simp
qed

lemma items_page:
  assumes "list_all2 item_drawn_as items ns"
  shows "concat (map (\<lambda>n. field_names (expandRepeatGroups (e\<lparr>ex_visible := Some vs\<rparr>) n)) (List.map_filter (pruneNode vs) ns)) =
    concat (map (page_item e vs) items)"
  using assms
proof (induction rule: list_all2_induct)
  case (Cons item items n ns)
  from item_page [OF Cons(1), where vs = vs and e = e] Cons(3) show ?case
    by (cases "pruneNode vs n") (simp_all add: List.map_filter_simps)
qed (simp add: List.map_filter_simps)

lemma map_filter_same: "(\<And>x. x \<in> set xs \<Longrightarrow> f x = Some x) \<Longrightarrow> List.map_filter f xs = xs"
  by (induction xs) (simp_all add: List.map_filter_simps)

lemma map_filter_append: "List.map_filter f (xs @ ys) = List.map_filter f xs @ List.map_filter f ys"
  by (induction xs) (simp_all add: List.map_filter_simps split: option.split)

lemma honeypot_pruned:
  "HONEYPOT_FIELD_NAME \<notin> set vs \<Longrightarrow> pruneNode vs honeypotNode = None"
  by (simp add: honeypotNode_def kept_name_def stringProp_def node_prop_def HONEYPOT_NODE_TYPE_def
      REPEAT_GROUP_NODE_TYPE_def Let_def)

lemma map_filter_id_map:
  "List.map_filter id (map f xs) = List.map_filter f xs"
  by (simp add: List.map_filter_def comp_def filter_map)

lemma no_name: "''name'' \<notin> fst ` set ps \<Longrightarrow> stringProp (A2Node t (Some ps) ks) ''name'' = None"
  "stringProp (A2Node t None ks) ''name'' = None"
  by (simp_all add: stringProp_def node_prop_def flip: map_of_eq_None_iff)

lemma field_names_parent:
  "''name'' \<notin> fst ` set ps \<Longrightarrow> field_names (A2Node t (Some ps) (Kids ns)) = concat (map field_names ns)"
  "field_names (A2Node t None (Kids ns)) = concat (map field_names ns)"
  by (simp_all add: field_names_kids own_name_def no_name del: field_names.simps)

text \<open>The decoy stands outside every template: it is drawn once when its name is asked for, and never cloned.\<close>

definition decoy_fields :: "string list \<Rightarrow> string list" where
  "decoy_fields vs = (if HONEYPOT_FIELD_NAME \<in> set vs then [HONEYPOT_FIELD_NAME] else [])"

lemma decoy_page:
  "concat (map (\<lambda>n. field_names (expandRepeatGroups e n)) (List.map_filter (pruneNode vs) [honeypotNode])) = decoy_fields vs"
proof (cases "HONEYPOT_FIELD_NAME \<in> set vs")
  case True
  then have "pruneNode vs honeypotNode = Some honeypotNode"
    by (simp add: honeypotNode_def kept_name_def stringProp_def node_prop_def HONEYPOT_NODE_TYPE_def
      REPEAT_GROUP_NODE_TYPE_def Let_def)
  moreover have "expandRepeatGroups e honeypotNode = honeypotNode" "field_names honeypotNode = [HONEYPOT_FIELD_NAME]"
    by (simp_all add: honeypotNode_def HONEYPOT_NODE_TYPE_def REPEAT_GROUP_NODE_TYPE_def own_name_def stringProp_def node_prop_def)
  ultimately show ?thesis using True by (simp add: decoy_fields_def List.map_filter_simps)
qed (simp add: decoy_fields_def honeypot_pruned List.map_filter_simps)

lemma page_fields:
  assumes "resolver_sound c" "staticStepResolver s c = Some doc"
  shows "field_names (page_of e vs doc) = concat (map (page_item e vs) (s_items s)) @ decoy_fields vs"
proof -
  obtain heads ns ps where doc:
      "doc_root doc = A2Node ''Form'' None (Kids [A2Node ''Flex'' (Some ps) (Kids (heads @ ns @ [honeypotNode]))])" and
    ps: "''name'' \<notin> fst ` set ps" and heads: "\<forall>h \<in> set heads. field_names h = [] \<and> \<not> hasRepeatGroup h" and
    items: "list_all2 item_drawn_as (s_items s) ns"
    using step_compiled [OF assms(1,2)] by metis
  let ?kept = "List.map_filter (pruneNode vs) ns"
  let ?decoy = "List.map_filter (pruneNode vs) [honeypotNode]"
  have kept: "List.map_filter (pruneNode vs) (heads @ ns @ [honeypotNode]) = heads @ ?kept @ ?decoy"
    using heads by (simp add: map_filter_append map_filter_same pruneNode_keeps del: List.map_filter_simps)
  have unnamed: "kept_name vs (A2Node t None ks)" "kept_name vs (A2Node t (Some ps) ks)" for t ks
    using ps by (simp_all add: kept_name_def no_name)
  have visible: "documentForVisible (doc_root doc) vs =
      A2Node ''Form'' None (Kids [A2Node ''Flex'' (Some ps) (Kids (heads @ ?kept @ ?decoy))])"
    unfolding doc documentForVisible_def
    by (simp add: Let_def unnamed REPEAT_GROUP_NODE_TYPE_def map_filter_id_map kept List.map_filter_simps
        del: map_append)
  have "concat (map (\<lambda>n. field_names (expandRepeatGroups (e\<lparr>ex_visible := Some vs\<rparr>) n)) heads) = []"
    using heads by (simp add: expand_no_group)
  with items_page [OF items, where e = e and vs = vs] decoy_page [of "e\<lparr>ex_visible := Some vs\<rparr>" vs] ps show ?thesis
    unfolding page_of_def visible
    by (simp add: Let_def REPEAT_GROUP_NODE_TYPE_def field_names_parent comp_def del: field_names.simps)
qed

section \<open>Published forms\<close>

text \<open>
  Nothing at publish compares the id inside a stored definition with the id of its record: that
  they agree is an invariant of the store the versions come from.
\<close>

definition stored_under_own_id :: "draft_input \<Rightarrow> bool" where
  "stored_under_own_id draft \<longleftrightarrow>
     (\<forall>q v rcd. d_resolveQuestion draft q v = Some rcd \<longrightarrow> questionId (rec_definition rcd) = rec_questionId rcd)"

lemma questionResolver_Some:
  assumes "questionResolver snap r = Some q"
  shows "\<exists>rcd \<in> set (snap_questions snap). rec_definition rcd = q \<and> rec_questionId rcd = ref_questionId r"
proof -
  from assms obtain rcd where rcd: "List.find (\<lambda>x. (rec_questionId x, rec_version x) = (ref_questionId r, ref_version r))
      (rev (snap_questions snap)) = Some rcd" "q = rec_definition rcd"
    by (auto simp: questionResolver_def map_of_update_fold split: option.splits)
  from find_Some_iff_mem [OF rcd(1)] rcd(2) show ?thesis by auto
qed

lemma published_resolver_sound:
  assumes "compileDraft compiles_u compiles_v draft = Inr out" "stored_under_own_id draft"
    "sc_resolveQuestion c = questionResolver (out_snapshot out)"
  shows "resolver_sound c"
proof -
  from assms(1) have clean: "draft_errors draft = []" by (simp add: compileDraft_Inr_iff)
  have "questionId (rec_definition rcd) = rec_questionId rcd" if "rcd \<in> set (snap_questions (out_snapshot out))" for rcd
  proof -
    from that obtain r where r: "r \<in> set (form_refs (d_definition draft))" "rcd = the (pin_record draft r)"
      using assms(1) by (auto simp: compileDraft_Inr_iff clean_snapshot_questions [OF clean])
    from clean_pins(1) [OF clean r(1)] r(2) have "pin_record draft r = Some rcd" by auto
    with assms(2) show ?thesis by (auto simp: stored_under_own_id_def dest: pin_record_Some)
  qed
  then show ?thesis
    by (auto simp: resolver_sound_def assms(3) dest!: questionResolver_Some)
qed

definition form_context :: "frozen_snapshot \<Rightarrow> locale_code option \<Rightarrow> nat \<Rightarrow> step_context" where
  "form_context snap wanted index =
     (let fallback = defaultLocale (snap_definition snap); loc = opt_default fallback wanted in
      \<lparr>sc_snapshot = snap, sc_locale = loc, sc_resolveText = textResolver loc fallback,
       sc_resolveQuestion = questionResolver snap, isFirstStep = (index = 0)\<rparr>)"

lemma compileForm_documents:
  assumes "compileForm snap wanted = Some form" "i < length (f_steps (snap_definition snap))"
  shows "i < length (documents form)"
    "staticStepResolver (f_steps (snap_definition snap) ! i) (form_context snap wanted i) = Some (documents form ! i)"
proof -
  have docs: "list_all2 (\<lambda>(i, s) d. staticStepResolver s (form_context snap wanted i) = Some d)
      (List.enumerate 0 (f_steps (snap_definition snap))) (documents form)"
    using assms(1) by (auto simp: compileForm_def compileFormWith_def Let_def form_context_def parse_all_Some_iff
        bind_eq_Some_conv split_def)
  from list_all2_lengthD [OF docs] assms(2) show "i < length (documents form)" by simp
  from list_all2_nthD [OF docs, of i] assms(2)
  show "staticStepResolver (f_steps (snap_definition snap) ! i) (form_context snap wanted i) = Some (documents form ! i)"
    by (simp add: nth_enumerate_eq)
qed

lemma compileForm_steps:
  assumes "compileForm snap wanted = Some form"
  shows "map doc_stepId (documents form) = map stepId (f_steps (snap_definition snap))"
proof -
  have docs: "list_all2 (\<lambda>(i, s) d. staticStepResolver s (form_context snap wanted i) = Some d)
      (List.enumerate 0 (f_steps (snap_definition snap))) (documents form)"
    using assms by (auto simp: compileForm_def compileFormWith_def Let_def form_context_def parse_all_Some_iff
        bind_eq_Some_conv split_def)
  have "staticStepResolver s c = Some d \<Longrightarrow> doc_stepId d = stepId s" for s c d
    by (auto simp: staticStepResolver_def bind_eq_Some_conv)
  then have "list_all2 (\<lambda>(i, s) d. doc_stepId d = stepId s) (List.enumerate 0 (f_steps (snap_definition snap))) (documents form)"
    using docs by (auto elim!: list_all2_mono)
  then have "map doc_stepId (documents form) = map (stepId \<circ> snd) (List.enumerate 0 (f_steps (snap_definition snap)))"
    by (induction rule: list_all2_induct) auto
  then show ?thesis by (simp flip: map_map)
qed

lemma published_page:
  assumes "compileDraft compiles_u compiles_v draft = Inr out" "stored_under_own_id draft"
    "compileForm (out_snapshot out) wanted = Some form" "i < length (f_steps (d_definition draft))"
  shows "field_names (page_of e vs (documents form ! i)) =
    concat (map (page_item e vs) (s_items (f_steps (d_definition draft) ! i))) @ decoy_fields vs"
proof -
  from assms(1) have def: "snap_definition (out_snapshot out) = d_definition draft" by (simp add: compileDraft_Inr_iff)
  let ?c = "form_context (out_snapshot out) wanted i"
  have "resolver_sound ?c"
    by (rule published_resolver_sound [OF assms(1,2)]) (simp add: form_context_def Let_def)
  from page_fields [OF this compileForm_documents(2) [OF assms(3)]] assms(4) show ?thesis
    by (simp add: def)
qed

section \<open>The visible entries of a step\<close>

definition flow_expansion :: "flow_state \<Rightarrow> string option \<Rightarrow> repeat_expansion" where
  "flow_expansion flow token =
     \<lparr>ex_rosters = opt_default [] (rosters flow), ex_visible = None, ex_opToken = token, ex_view = None\<rparr>"

lemma flow_rosters:
  assumes "evaluate_form nfc f answers res rs = Inr flow" "g \<in> set (repeatGroups (f_steps f))"
  shows "drawn (flow_expansion flow token) g = rosterOf rs (groupId g)"
proof -
  have "map_of (map (\<lambda>g. (groupId g, h (groupId g))) gs) (groupId g) = Some (h (groupId g))" if "g \<in> set gs" for h gs
    using that by (induction gs) auto
  note found = this [OF assms(2), of "rosterOf rs"]
  from assms(2) have "length (repeatGroups (f_steps f)) > 0" by (rule length_pos_if_in_set)
  with assms(1) have "rosters flow = Some (map (\<lambda>g. (groupId g, rosterOf rs (groupId g))) (repeatGroups (f_steps f)))"
    by (auto simp: evaluate_form_Inr_iff flow_of_def Let_def)
  with found show ?thesis by (simp add: drawn_def flow_expansion_def)
qed

lemma page_item_entries:
  assumes "\<And>g. item = GroupItem g \<Longrightarrow> drawn e g = ros (groupId g)"
  shows "set (page_item e vs item) =
    set vs \<inter> entry_key ` (\<Union>p \<in> set (item_positions sid item). set (pos_entries ros p))"
proof (cases item)
  case (QuestionItem r)
  then show ?thesis by (auto simp: pos_entries_def pos_instances_def entry_key_def)
next
  case (GroupItem g)
  have "set (page_item e vs item) =
      set vs \<inter> (\<Union>i \<in> set (ros (groupId g)). \<Union>r \<in> set (g_items g). {answerKey (ref_questionId r) (Some i)})"
    using GroupItem assms [OF GroupItem] by auto
  also have "\<dots> = set vs \<inter> (\<Union>r \<in> set (g_items g). \<Union>i \<in> set (ros (groupId g)). {answerKey (ref_questionId r) (Some i)})"
    by blast
  also have "(\<Union>r \<in> set (g_items g). \<Union>i \<in> set (ros (groupId g)). {answerKey (ref_questionId r) (Some i)}) =
      entry_key ` (\<Union>p \<in> set (item_positions sid item). set (pos_entries ros p))"
    by (simp add: GroupItem pos_entries_def pos_instances_def image_UN image_image UNION_singleton_eq_range)
  finally show ?thesis .
qed

text \<open>The questions of a form stand at one position each, so a key of the page names one entry.\<close>

lemma position_unique:
  assumes "unambiguous f" "p \<in> set (documentOrder f)" "p' \<in> set (documentOrder f)" "dp_question p = dp_question p'"
  shows "p = p'"
proof -
  have "distinct (map dp_question (documentOrder f))"
    using assms(1) by (simp add: documentOrder_questions unambiguous_def)
  with assms(2-) show ?thesis by (auto simp: distinct_map dest: inj_onD)
qed

lemma entry_of_key:
  assumes "publish_checked nfc f" "valid_rosters ros" "p \<in> set (documentOrder f)" "e \<in> set (pos_entries ros p)"
    "p' \<in> set (documentOrder f)" "v \<in> set (pos_entries ros p')" "entry_key e = entry_key v"
  shows "v_step v = dp_step p"
proof -
  have q: "QuestionId (dp_question p)" "QuestionId (dp_question p')"
    using assms(1,3,5) shape_ids(1) by (auto simp: publish_checked_def)
  note e = pos_entries_valid [OF assms(2) q(1) assms(4)] and v = pos_entries_valid [OF assms(2) q(2) assms(6)]
  then have "valid_key_parts (v_instance e, v_question e)" "valid_key_parts (v_instance v, v_question v)"
    using q by (simp_all add: entry_valid_def valid_key_parts_def option.pred_set)
  from answerKey_eq_iff [OF this] assms(7) have "v_question e = v_question v" by (simp add: entry_key_def)
  with e v have "dp_question p = dp_question p'" by metis
  moreover have "unambiguous f" using assms(1) by (simp add: publish_checked_def)
  ultimately have "p = p'" by (intro position_unique [OF _ assms(3,5)])
  with v show ?thesis by metis
qed

lemma entry_key_not_decoy:
  assumes "entry_valid e"
  shows "entry_key e \<noteq> HONEYPOT_FIELD_NAME"
proof (cases "v_instance e")
  case None
  then have "QuestionId (entry_key e)" using assms by (simp add: entry_valid_def entry_key_def)
  moreover have "\<not> QuestionId HONEYPOT_FIELD_NAME" by code_simp
  ultimately show ?thesis by metis
next
  case (Some i)
  then have "CHR ''/'' \<in> set (entry_key e)" by (simp add: entry_key_def answerKey_def ANSWER_KEY_SEPARATOR_def)
  moreover have "CHR ''/'' \<notin> set HONEYPOT_FIELD_NAME" by code_simp
  ultimately show ?thesis by metis
qed

lemma visible_not_decoy:
  assumes "publish_checked nfc f" "valid_rosters (rosterOf rs)" "evaluate_form nfc f answers res rs = Inr flow"
  shows "HONEYPOT_FIELD_NAME \<notin> set (map entry_key (visible flow))"
proof -
  from evaluate_form_visible [OF assms(3)] obtain st where
    st: "walk_form (form_env nfc f answers rs) f = Inr st" "visible flow = w_visible st" by blast
  have "entry_valid v" if v: "v \<in> set (visible flow)" for v
  proof -
    from walk_form_appends [OF st(1)] st(2) v obtain p where
      p: "p \<in> set (documentOrder f)" "v \<in> set (pos_entries (rosterOf rs) p)" by auto
    from pos_entries_valid [OF assms(2) _ p(2)] shape_ids(1) [OF _ p(1)] assms(1) show ?thesis
      by (auto simp: publish_checked_def)
  qed
  with entry_key_not_decoy show ?thesis by fastforce
qed

lemma image_meet:
  assumes "\<And>e. e \<in> E \<Longrightarrow> k e \<in> k ` V \<Longrightarrow> k e \<in> k ` {v \<in> V. P v}" "\<And>v. v \<in> V \<Longrightarrow> P v \<Longrightarrow> v \<in> E"
  shows "k ` V \<inter> k ` E = k ` {v \<in> V. P v}"
proof (intro equalityI subsetI)
  fix x assume "x \<in> k ` V \<inter> k ` E"
  then obtain e where e: "e \<in> E" "x = k e" by (meson IntD2 imageE)
  with \<open>x \<in> k ` V \<inter> k ` E\<close> assms(1) [OF e(1)] show "x \<in> k ` {v \<in> V. P v}" by (simp del: image_iff)
next
  fix x assume "x \<in> k ` {v \<in> V. P v}"
  with assms(2) show "x \<in> k ` V \<inter> k ` E" by auto
qed

lemma page_is_visible:
  assumes "publish_checked nfc f" "valid_rosters (rosterOf rs)" "evaluate_form nfc f answers res rs = Inr flow"
    "s \<in> set (f_steps f)" "set vs - {HONEYPOT_FIELD_NAME} = entry_key ` set (visible flow)"
  shows "(\<Union>item \<in> set (s_items s). set (page_item (flow_expansion flow token) vs item)) =
    entry_key ` {v \<in> set (visible flow). v_step v = stepId s}"
proof -
  let ?ros = "rosterOf rs"
  let ?E = "\<Union>p \<in> set (step_positions s). set (pos_entries ?ros p)"
  from evaluate_form_visible [OF assms(3)] obtain st where
    st: "walk_form (form_env nfc f answers rs) f = Inr st" "visible flow = w_visible st" by blast
  have order: "set (step_positions s) \<subseteq> set (documentOrder f)" using assms(4) by (auto simp: documentOrder_steps)
  have entry: "\<exists>p \<in> set (documentOrder f). v \<in> set (pos_entries ?ros p)" if "v \<in> set (visible flow)" for v
    using that walk_form_appends [OF st(1)] st(2) by auto
  have live: "drawn (flow_expansion flow token) g = ?ros (groupId g)" if "item \<in> set (s_items s)" "item = GroupItem g" for item g
    by (rule flow_rosters [OF assms(3)]) (use that assms(4) in \<open>force simp: repeatGroups_def\<close>)
  have "set (page_item (flow_expansion flow token) vs item) =
      set vs \<inter> entry_key ` (\<Union>p \<in> set (item_positions (stepId s) item). set (pos_entries ?ros p))"
    if "item \<in> set (s_items s)" for vs item
    by (rule page_item_entries) (use live that in blast)
  then have page: "(\<Union>item \<in> set (s_items s). set (page_item (flow_expansion flow token) vs item)) =
      set vs \<inter> entry_key ` ?E" for vs
    by (auto simp: step_positions_def)
  have "entry_key e \<in> entry_key ` {v \<in> set (visible flow). v_step v = stepId s}"
    if e: "e \<in> ?E" "entry_key e \<in> entry_key ` set (visible flow)" for e
  proof -
    from e obtain p v p' where pv:"p \<in> set (step_positions s)" "e \<in> set (pos_entries ?ros p)"
        "v \<in> set (visible flow)" "entry_key e = entry_key v" "p' \<in> set (documentOrder f)" "v \<in> set (pos_entries ?ros p')"
      using entry by (metis (no_types, lifting) UN_E imageE)
    from pv(1) order have "p \<in> set (documentOrder f)" by blast
    from entry_of_key [OF assms(1,2) this pv(2,5,6,4)] step_positions_dp [OF pv(1)] have "v_step v = stepId s" by simp
    with pv(3,4) show ?thesis by simp
  qed
  moreover have "v \<in> ?E" if v: "v \<in> set (visible flow)" "v_step v = stepId s" for v
  proof -
    from entry [OF v(1)] obtain p where p: "p \<in> set (documentOrder f)" "v \<in> set (pos_entries ?ros p)" by blast
    then obtain s' where s': "s' \<in> set (f_steps f)" "p \<in> set (step_positions s')" by (auto simp: documentOrder_steps)
    have "v_step v = dp_step p"
      using pos_entries_valid [OF assms(2) _ p(2)] shape_ids(1) [OF _ p(1)] assms(1) by (auto simp: publish_checked_def)
    with v s' step_positions_dp have "stepId s' = stepId s" by simp
    with s' assms(1,4) have "s' = s" by (auto simp: publish_checked_def unambiguous_def distinct_map dest: inj_onD)
    with s' p show ?thesis by auto
  qed
  ultimately have meet: "entry_key ` set (visible flow) \<inter> entry_key ` ?E = entry_key ` {v \<in> set (visible flow). v_step v = stepId s}"
    by (intro image_meet) simp_all
  have "entry_key e \<noteq> HONEYPOT_FIELD_NAME" if e: "e \<in> ?E" for e
  proof -
    from e order obtain p where p: "p \<in> set (documentOrder f)" "e \<in> set (pos_entries ?ros p)" by blast
    from pos_entries_valid [OF assms(2) _ p(2)] shape_ids(1) [OF _ p(1)] assms(1) have "entry_valid e"
      by (auto simp: publish_checked_def)
    then show ?thesis by (rule entry_key_not_decoy)
  qed
  then have "set vs \<inter> entry_key ` ?E = (set vs - {HONEYPOT_FIELD_NAME}) \<inter> entry_key ` ?E" by auto
  then show ?thesis unfolding page assms(5) meet .
qed

lemma page_item_no_decoy:
  assumes "publish_checked nfc f" "valid_rosters (rosterOf rs)" "evaluate_form nfc f answers res rs = Inr flow"
    "s \<in> set (f_steps f)" "set vs - {HONEYPOT_FIELD_NAME} = entry_key ` set (visible flow)"
  shows "HONEYPOT_FIELD_NAME \<notin> set (concat (map (page_item (flow_expansion flow token) vs) (s_items s)))"
proof -
  have "HONEYPOT_FIELD_NAME \<notin> entry_key ` set (visible flow)" using assms(5) by blast
  with page_is_visible [OF assms, of token] show ?thesis by auto
qed

end
