(* ===== verification/ServedSnapshot.thy ===== *)
theory ServedSnapshot
  imports AdminSteps RespondHandlers PageFields RosterFacts
begin

text \<open>
  A published version as a respondent is served it. The snapshot read back from the registry
  is the one the version was compiled to, in the registry it was published in and in every
  later one; the rules evaluate on it, and every page a step names is there to be drawn.
\<close>

section \<open>Reading a version back\<close>

text \<open>How a number is printed: its decimal digits, as \<^verbatim>\<open>String\<close> prints a natural number.\<close>

definition int_text_law :: "release_host \<Rightarrow> bool" where
  "int_text_law H \<longleftrightarrow> (\<forall>n \<ge> 0. rh_int_text H n \<noteq> [] \<and> list_all is_dec (rh_int_text H n) \<and> decimal (rh_int_text H n) = n)"

lemma read_pins_records:
  assumes "\<forall>r \<in> set refs. record_stored rows (f r) \<and> rec_questionId (f r) = ref_questionId r \<and> rec_version (f r) = ref_version r"
  shows "read_pins rows refs = Inr (map f refs)"
  using assms
proof (induction refs)
  case (Cons r refs)
  then obtain row where "getQuestionVersion rows (ref_questionId r) (ref_version r) = Some row" "qv_definition row = rec_definition (f r)"
    by (auto simp: record_stored_def)
  with Cons show ?case by (cases "f r") (simp add: throw_simps)
qed simp

text \<open>The draft a version was frozen from pins what its snapshot holds, in the order of the form.\<close>

lemma frozen_parts:
  assumes "frozen_from A draft out rows v"
  shows "draft_errors draft = []" "snap_definition (out_snapshot out) = d_definition draft"
    "snap_questions (out_snapshot out) = map (\<lambda>r. the (pin_record draft r)) (form_refs (d_definition draft))"
    "semanticsVersion (out_snapshot out) = SEMANTICS_VERSION" "schemaVersion (out_snapshot out) = SNAPSHOT_SCHEMA_VERSION"
proof -
  from assms have compiled: "compileDraft (ah_compiles_u A) (ah_compiles_v A) draft = Inr out" by (simp add: frozen_from_def)
  then show clean: "draft_errors draft = []" by (simp add: compileDraft_Inr_iff)
  from compiled clean_snapshot_questions [OF clean]
  show "snap_definition (out_snapshot out) = d_definition draft"
    "snap_questions (out_snapshot out) = map (\<lambda>r. the (pin_record draft r)) (form_refs (d_definition draft))"
    "semanticsVersion (out_snapshot out) = SEMANTICS_VERSION" "schemaVersion (out_snapshot out) = SNAPSHOT_SCHEMA_VERSION"
    by (auto simp: compileDraft_Inr_iff)
qed

lemma frozen_loads:
  assumes "frozen_from A draft out rows v" "int_text_law (ah_release A)"
    "version_at versions (sn_formId session) (sn_formVersion session) = Some v"
  shows "loadFrozenSnapshot versions rows session = Inr (out_snapshot out, v)"
proof -
  note parts = frozen_parts [OF assms(1)]
  let ?f = "\<lambda>r. the (pin_record draft r)"
  have def: "fv_definition v = d_definition draft" and stamp: "fv_semanticsVersion v = rh_int_text (ah_release A) SEMANTICS_VERSION"
    using assms(1) parts by (simp_all add: frozen_from_def)
  have "record_stored rows (?f r) \<and> rec_questionId (?f r) = ref_questionId r \<and> rec_version (?f r) = ref_version r"
    if "r \<in> set (form_refs (d_definition draft))" for r
  proof -
    from clean_pins(1) [OF parts(1) that] obtain rcd where rcd: "pin_record draft r = Some rcd" by blast
    with assms(1) parts(3) that have "record_stored rows rcd" by (force simp: frozen_from_def)
    with rcd pin_record_Some [OF rcd] show ?thesis by simp
  qed
  then have pins: "read_pins rows (form_refs (fv_definition v)) = Inr (snap_questions (out_snapshot out))"
    unfolding def parts(3) by (intro read_pins_records) blast
  have "parseSemanticsVersion (fv_semanticsVersion v) = Inr SEMANTICS_VERSION"
    using assms(2) by (simp add: parseSemanticsVersion_def stamp int_text_law_def SEMANTICS_VERSION_def)
  then show ?thesis
    using assms(3) pins parts def by (cases "out_snapshot out") (simp add: loadFrozenSnapshot_def throw_simps)
qed

lemma version_at_grows: "registry_grows db db' \<Longrightarrow> version_at (rd_versions db) fid n = Some v \<Longrightarrow> version_at (rd_versions db') fid n = Some v"
  by (auto simp: registry_grows_def version_at_append)

lemma version_at_mem: "version_at versions fid n = Some v \<Longrightarrow> v \<in> set versions \<and> fv_formId v = fid \<and> fv_version v = n"
  by (auto simp: version_at_def dest: find_Some_iff_mem)

lemma frozen_grows: "question_rows_grow rows rows' \<Longrightarrow> frozen_from A draft out rows v \<Longrightarrow> frozen_from A draft out rows' v"
  unfolding frozen_from_def using record_stored_grows by blast

text \<open>Served the same for ever: from any sound registry on, whatever is done to it.\<close>

lemma sound_serves:
  assumes "registry_sound A db" "registry_path A db db'" "int_text_law (ah_release A)"
    "version_at (rd_versions db) (sn_formId session) (sn_formVersion session) = Some v"
  obtains draft out where "frozen_from A draft out (rd_questionVersions db) v"
    "loadFrozenSnapshot (rd_versions db) (rd_questionVersions db) session = Inr (out_snapshot out, v)"
    "loadFrozenSnapshot (rd_versions db') (rd_questionVersions db') session = Inr (out_snapshot out, v)"
proof -
  from version_at_mem [OF assms(4)] assms(1) obtain draft out where frozen: "frozen_from A draft out (rd_questionVersions db) v"
    unfolding registry_sound_def version_sound_def by blast
  have grows: "registry_grows db db'" by (rule path_grows [OF assms(2)])
  then have later: "frozen_from A draft out (rd_questionVersions db') v"
    using frozen_grows [OF _ frozen] by (simp add: registry_grows_def)
  show ?thesis
    using that [OF frozen frozen_loads [OF frozen assms(3,4)] frozen_loads [OF later assms(3) version_at_grows [OF grows assms(4)]]] .
qed

section \<open>The questions of a snapshot\<close>

lemma map_of_fold_records:
  "map_of (foldl (\<lambda>m r. AList.update (rec_questionId r) (rec_definition r) m) m rs) q =
     (case List.find (\<lambda>r. rec_questionId r = q) (rev rs) of Some r \<Rightarrow> Some (rec_definition r) | None \<Rightarrow> map_of m q)"
  by (induction rs arbitrary: m) (auto simp: find_in_append update_conv' split: option.splits)

lemma find_rev_distinct: "distinct (map f rs) \<Longrightarrow> List.find (\<lambda>r. f r = q) (rev rs) = List.find (\<lambda>r. f r = q) rs"
proof (induction rs)
  case (Cons r rs)
  have "q \<noteq> f x" if "x \<in> set rs" "f r = q" for x using Cons.prems that by (metis distinct.simps(2) image_eqI list.map(2) set_map)
  then have "List.find (\<lambda>r. f r = q) rs = None" if "f r = q" using that unfolding find_None_iff by blast
  with Cons show ?case by (simp add: find_in_append split: option.splits)
qed simp

lemma frozen_questions:
  assumes "frozen_from A draft out rows v"
  shows "map_of (snapshot_definitions (out_snapshot out)) = snapshot_question (out_snapshot out)"
proof -
  note parts = frozen_parts [OF assms]
  have ids: "rec_questionId (the (pin_record draft r)) = ref_questionId r" if "r \<in> set (form_refs (d_definition draft))" for r
    using clean_pins(1) [OF parts(1) that] by (auto dest: pin_record_Some)
  have "map rec_questionId (snap_questions (out_snapshot out)) = map ref_questionId (form_refs (d_definition draft))"
    using ids by (simp add: parts(3))
  then have "distinct (map rec_questionId (snap_questions (out_snapshot out)))"
    using clean_unambiguous [OF parts(1)] by (simp add: unambiguous_def form_pins_refs)
  then show ?thesis
    by (auto simp: fun_eq_iff snapshot_definitions_def snapshot_question_def map_of_fold_records find_rev_distinct split: option.splits)
qed

end
