(* ===== verification/SessionServed.thy ===== *)
theory SessionServed
  imports ServedSnapshot
begin

text \<open>
  A live session of a published form is always served. What the handlers write keeps the
  ledger of a session lawful: every answer in it was validated against the definition its
  version pins, and the ids of its instances are minted ones. On a lawful ledger the rules
  evaluate, the mints of a page succeed and the page is there, so no request of a respondent
  ends in a fault, whatever was answered before it.
\<close>

section \<open>The hypotheses\<close>

text \<open>
  What the library code and the database promise: the decoder accepts what it encoded and
  gives the shape of the schema; the rows of a query come in its order; draws are 16 bytes and
  never run out of new ids.
\<close>

definition encode_law :: "respond_host \<Rightarrow> bool" where
  "encode_law P \<longleftrightarrow> (\<forall>snap value. semanticsVersion snap = SEMANTICS_VERSION \<longrightarrow>
     FormDefinition (s_decode (ph_submit P)) value = Inr (snap_definition snap) \<longrightarrow>
     unwrapDefinition (s_decode (ph_submit P)) (ph_encode P snap) = Inr (snap_definition snap))"

definition decode_law :: "respond_host \<Rightarrow> bool" where
  "decode_law P \<longleftrightarrow> (\<forall>value d. s_decode (ph_submit P) value = Inr d \<longrightarrow> FormDefinition_shape (s_nfc (ph_submit P)) d)"

definition respond_laws :: "authoring_host \<Rightarrow> respond_host \<Rightarrow> bool" where
  "respond_laws A P \<longleftrightarrow> s_decode (ph_submit P) = ah_decode A \<and> encode_law P \<and> decode_law P \<and>
     unicode_nfc (s_nfc (ph_submit P)) \<and> answer_order_laws (ph_answers P) \<and> roster_order_laws (ph_rosters P) \<and>
     draw_law (ph_random P) \<and> fair_source (ph_random P)"

text \<open>A repeat has no more instances than there are ids.\<close>

definition groups_fit :: "step list \<Rightarrow> bool" where
  "groups_fit steps \<longleftrightarrow> (\<forall>g \<in> set (repeatGroups steps). \<forall>mx \<in> set_option (snd (countBounds (g_count g))). mx \<le> int ID_SPACE)"

text \<open>What \<^verbatim>\<open>loadSnapshot\<close> gives for a version of a sound registry.\<close>

definition loaded_from :: "authoring_host \<Rightarrow> loaded_snapshot \<Rightarrow> bool" where
  "loaded_from A L \<longleftrightarrow> groups_fit (ls_steps L) \<and> (\<exists>draft out rows v. frozen_from A draft out rows v \<and>
     L = \<lparr>ls_frozen = out_snapshot out, ls_compiled = fv_compiled v, ls_questions = snapshot_definitions (out_snapshot out)\<rparr>)"

section \<open>A lawful session\<close>

definition lawful_answer :: "respond_host \<Rightarrow> loaded_snapshot \<Rightarrow> answer_row \<Rightarrow> bool" where
  "lawful_answer P L r \<longleftrightarrow> cell_valid r \<and> (\<forall>v \<in> set_option (ar_value r). \<exists>d x.
     map_of (ls_questions L) (ar_questionId r) = Some d \<and>
     validateAnswer (s_nfc (ph_submit P)) (s_regex (ph_submit P)) d x = Inr v)"

definition session_lawful :: "respond_host \<Rightarrow> loaded_snapshot \<Rightarrow> string \<Rightarrow> data_db \<Rightarrow> bool" where
  "session_lawful P L s db \<longleftrightarrow> session_ok s (rs_table (dd_rosters db)) \<and>
     (\<forall>r \<in> set (rows_of_session (at_rows (dd_answers db)) s). lawful_answer P L r)"

lemma distinct_on_subset: "set (distinct_on f rows) \<subseteq> set rows"
proof (induction f rows rule: distinct_on.induct)
  case (2 f x xs)
  then show ?case by auto
qed simp

lemma fold_note_says:
  "map_of (foldl note_latest m rs) k = Some v \<Longrightarrow>
     map_of m k = Some v \<or> (\<exists>r \<in> set rs. answer_cell_key r = k \<and> row_says r = Some v)"
proof (induction rs arbitrary: m)
  case (Cons r rs)
  from Cons.IH [of "note_latest m r"] Cons.prems show ?case
    by (auto simp: note_latest_map split: option.splits if_splits)
qed simp

lemma latest_says:
  assumes "answer_order_laws ao" "map_of (latestAnswers ao rows s) k = Some v"
  obtains r where "r \<in> set (rows_of_session rows s)" "answer_cell_key r = k" "row_says r = Some v"
proof -
  have "set (distinct_on row_cell (ao_latest ao (rows_of_session rows s))) \<subseteq> set (rows_of_session rows s)"
    using distinct_on_subset assms(1) by (fastforce simp: answer_order_laws_def ordering_set)
  with fold_note_says [OF assms(2) [unfolded latestAnswers_def]] that show ?thesis by auto
qed

lemma answer_lookup_Some: "answer_lookup held k = Some raw \<longleftrightarrow> (\<exists>v. map_of held k = Some v \<and> raw = av_to_js v)"
  by (auto simp: answer_js_def map_of_map)

lemma lawful_validated:
  assumes ao: "answer_order_laws (ph_answers P)" and lawful: "session_lawful P L s db"
    and shape: "FormDefinition_shape nfc f" and vr: "valid_rosters (rosterOf rs)"
  shows "validated_answers (s_nfc (ph_submit P)) (s_regex (ph_submit P)) (map_of (ls_questions L)) f rs (answer_lookup (held_by P db s))"
  unfolding validated_answers_def
proof clarify
  fix k q raw
  assume key: "(k, q) \<in> set (answer_keys (documentOrder f) (rosterOf rs))" and "answer_lookup (held_by P db s) k = Some raw"
  then obtain v where v: "map_of (held_by P db s) k = Some v" "raw = av_to_js v" by (auto simp: answer_lookup_Some)
  from latest_says [OF ao v(1) [unfolded held_by_def]] obtain r
    where r: "r \<in> set (rows_of_session (at_rows (dd_answers db)) s)" "answer_cell_key r = k" "row_says r = Some v" .
  with lawful have law: "lawful_answer P L r" by (simp add: session_lawful_def)
  from answer_keys_key [OF key shape_ids(1) [OF shape] vr] r(2) law have "ar_questionId r = q"
    by (auto simp: answer_cell_key_def lawful_answer_def cell_valid_def answerKey_eq_iff)
  with law r(3) v(2) show "\<exists>d x v. map_of (ls_questions L) q = Some d \<and>
      validateAnswer (s_nfc (ph_submit P)) (s_regex (ph_submit P)) d x = Inr v \<and> raw = av_to_js v"
    by (fastforce simp: lawful_answer_def row_says_def split: if_splits)
qed

section \<open>The rules evaluate\<close>

lemma loaded_parts:
  assumes "loaded_from A L" "respond_laws A P"
  obtains draft out where "compileDraft (ah_compiles_u A) (ah_compiles_v A) draft = Inr out" "draft_errors draft = []"
    "ls_frozen L = out_snapshot out" "snap_definition (out_snapshot out) = d_definition draft"
    "ls_steps L = f_steps (d_definition draft)" "FormDefinition_shape (s_nfc (ph_submit P)) (d_definition draft)"
    "map_of (ls_questions L) = snapshot_question (out_snapshot out)"
    "unwrapDefinition (s_decode (ph_submit P)) (ph_encode P (ls_frozen L)) = Inr (d_definition draft)"
    "map doc_stepId (documents (ls_compiled L)) = map stepId (ls_steps L)"
proof -
  from assms(1) obtain draft out rows v where fr: "frozen_from A draft out rows v"
    and L: "L = \<lparr>ls_frozen = out_snapshot out, ls_compiled = fv_compiled v, ls_questions = snapshot_definitions (out_snapshot out)\<rparr>"
    by (auto simp: loaded_from_def)
  note parts = frozen_parts [OF fr]
  from fr obtain raw where dec: "FormDefinition (s_decode (ph_submit P)) raw = Inr (d_definition draft)"
    using assms(2) by (auto simp: frozen_from_def respond_laws_def)
  then have decoded: "s_decode (ph_submit P) raw = Inr (d_definition draft)"
    by (auto simp: FormDefinition_def split: sum.splits list.splits)
  have "FormDefinition_shape (s_nfc (ph_submit P)) (d_definition draft)"
    using decoded assms(2) by (auto simp: respond_laws_def decode_law_def)
  moreover have "unwrapDefinition (s_decode (ph_submit P)) (ph_encode P (out_snapshot out)) = Inr (d_definition draft)"
    using dec assms(2) parts unfolding respond_laws_def encode_law_def by metis
  moreover have "map doc_stepId (documents (fv_compiled v)) = map stepId (f_steps (d_definition draft))"
    using compileForm_steps [of "out_snapshot out" None "fv_compiled v"] fr parts by (simp add: frozen_from_def)
  ultimately show ?thesis
    using that [of draft out] fr parts frozen_questions [OF fr] by (simp add: L ls_steps_def frozen_from_def)
qed

lemma evaluate_total:
  assumes "loaded_from A L" "respond_laws A P" "session_lawful P L s db" "valid_rosters (rosterOf rs)"
  obtains flow st where "evaluateOrThrow P L (held_by P db s) rs = Inr flow"
    "flow = flow_of (snap_definition (ls_frozen L)) (rosterOf rs) (form_questions (snap_definition (ls_frozen L)) (map_of (ls_questions L)))
       (e_canonical (form_env (s_nfc (ph_submit P)) (snap_definition (ls_frozen L)) (answer_lookup (held_by P db s)) rs)) st"
proof -
  obtain draft out where out: "compileDraft (ah_compiles_u A) (ah_compiles_v A) draft = Inr out"
    and "draft_errors draft = []" and L: "ls_frozen L = out_snapshot out" "snap_definition (out_snapshot out) = d_definition draft"
    and "ls_steps L = f_steps (d_definition draft)" and shape: "FormDefinition_shape (s_nfc (ph_submit P)) (d_definition draft)"
    and q: "map_of (ls_questions L) = snapshot_question (out_snapshot out)"
    and un: "unwrapDefinition (s_decode (ph_submit P)) (ph_encode P (ls_frozen L)) = Inr (d_definition draft)"
    and "map doc_stepId (documents (ls_compiled L)) = map stepId (ls_steps L)"
    by (rule loaded_parts [OF assms(1,2)])
  have laws: "answer_order_laws (ph_answers P)" "unicode_nfc (s_nfc (ph_submit P))"
    using assms(2) by (simp_all add: respond_laws_def)
  have valid: "validated_answers (s_nfc (ph_submit P)) (s_regex (ph_submit P)) (map_of (ls_questions L)) (d_definition draft) rs
      (answer_lookup (held_by P db s))"
    by (rule lawful_validated [OF laws(1) assms(3) shape assms(4)])
  from compiled_evaluates [OF out shape valid [unfolded q] laws(2) assms(4)] obtain flow where
    flow: "evaluate_form (s_nfc (ph_submit P)) (d_definition draft) (answer_lookup (held_by P db s)) (map_of (ls_questions L)) rs = Inr flow"
    unfolding q L(2) by blast
  then obtain st where "flow = flow_of (d_definition draft) (rosterOf rs) (form_questions (d_definition draft) (map_of (ls_questions L)))
      (e_canonical (form_env (s_nfc (ph_submit P)) (d_definition draft) (answer_lookup (held_by P db s)) rs)) st"
    by (auto simp: evaluate_form_Inr_iff)
  moreover have "evaluateOrThrow P L (held_by P db s) rs = Inr flow"
    using flow un by (simp add: evaluateOrThrow_def evaluateRules_def)
  ultimately show ?thesis using that L by simp
qed

section \<open>The page is there\<close>

lemma mintTarget_fits:
  assumes "legal_bounds g" "\<forall>mx \<in> set_option (snd (countBounds (g_count g))). mx \<le> int ID_SPACE"
  shows "mintTarget (g_count g) answers \<le> int ID_SPACE"
proof -
  from assms obtain mx where "snd (countBounds (g_count g)) = Some mx" "fst (countBounds (g_count g)) \<le> mx" "mx \<le> int ID_SPACE"
    by (auto simp: legal_bounds_def)
  then show ?thesis
    by (cases "g_count g") (auto simp: mintTarget_def liveInstanceLimit_def clamp_def ID_SPACE_def split: option.splits)
qed

lemma find_index_nth: "find_index p i xs = Some k \<Longrightarrow> i \<le> k \<and> k < i + length xs \<and> p (xs ! (k - i))"
proof (induction xs arbitrary: i)
  case (Cons x xs)
  show ?case
  proof (cases "p x")
    case False
    with Cons.prems have "find_index p (Suc i) xs = Some k" by simp
    from Cons.IH [OF this] show ?thesis by (auto simp: nth_Cons' Suc_diff_Suc)
  qed (use Cons.prems in auto)
qed simp

lemma stepViews_steps: "w \<in> set (stepViews f shown ros) \<Longrightarrow> fst w \<in> stepId ` set (f_steps f)"
  by (auto simp: stepViews_def Let_def split: if_splits)

lemma stepViewsOf_steps:
  assumes "flow = flow_of f ros defs can st" "w \<in> set (stepViewsOf flow)"
  shows "fst w \<in> stepId ` set (f_steps f)"
proof -
  have shown: "s \<in> stepId ` set (f_steps f)" if "s \<in> set (visibleSteps flow)" for s
    using that assms(1) by (auto simp: flow_of_def Let_def)
  have "visibleStepViews flow = None \<or> visibleStepViews flow = Some (stepViews f (visibleSteps flow) ros)"
    using assms(1) by (simp add: flow_of_def Let_def)
  then show ?thesis using assms(2) shown stepViews_steps [of w f "visibleSteps flow" ros] by (auto simp: stepViewsOf_def)
qed

lemma firstUnopenedView_nth:
  "firstUnopenedView vs unopened = Some (w, i) \<Longrightarrow> i < length vs \<and> w = vs ! i"
  by (auto simp: firstUnopenedView_def Let_def dest!: find_index_nth split: option.splits if_splits)

lemma found_or_last: "xs \<noteq> [] \<Longrightarrow> opt_default (last xs) (List.find p xs) \<in> set xs"
  by (cases "List.find p xs") (auto dest: find_Some_iff_mem)

lemma currentStepView_nth:
  assumes "currentStepView flow vs = (Some w, i)"
  shows "i < length vs \<and> w = vs ! i"
proof -
  from assms obtain s j js where js: "views_on s vs = j # js" and i: "w = vs ! i" "i = opt_default (last (j # js))
      (List.find (\<lambda>j. case snd (vs ! j) of None \<Rightarrow> False | Some x \<Rightarrow> x \<in> set (incomplete_instances flow)) (j # js))"
    unfolding currentStepView_def by (auto simp: Let_def simp del: last.simps List.find.simps split: option.splits list.splits)
  have "i \<in> set (j # js)" unfolding i(2) by (rule found_or_last) simp
  then have "i \<in> set (views_on s vs)" by (simp only: js)
  with i(1) show ?thesis by (simp add: views_on_def)
qed

lemma renderTarget_nth:
  assumes "renderTarget flow requested unopened = (Some w, i)"
  shows "i < length (stepViewsOf flow) \<and> w = stepViewsOf flow ! i"
proof (cases requested)
  case None
  then have served: "servedView flow (stepViewsOf flow) unopened = (Some w, i)"
    using assms by (simp add: renderTarget_def Let_def)
  then consider "firstUnopenedView (stepViewsOf flow) unopened = Some (w, i)" | "currentStepView flow (stepViewsOf flow) = (Some w, i)"
    by (auto simp: servedView_def Let_def split: option.splits prod.splits if_splits)
  then show ?thesis by cases (auto dest: firstUnopenedView_nth currentStepView_nth)
next
  case (Some n)
  then have "stepViewsOf flow \<noteq> []" "i = min n (length (stepViewsOf flow) - 1)" "w = stepViewsOf flow ! i"
    using assms by (auto simp: renderTarget_def Let_def split: if_splits)
  then show ?thesis by (simp add: min_less_iff_disj)
qed

lemma project_total:
  assumes "flow = flow_of f ros defs can st" "map doc_stepId (documents (ls_compiled L)) = map stepId (f_steps f)"
  obtains response where "project L flow held rs requested unopened = Inr response"
proof (cases "renderTarget flow requested unopened")
  case (Pair view index)
  show ?thesis
  proof (cases view)
    case None
    with Pair that show ?thesis by (simp add: project_def)
  next
    case (Some w)
    with renderTarget_nth Pair have "w \<in> set (stepViewsOf flow)" by (metis nth_mem)
    then have "fst w \<in> set (map doc_stepId (documents (ls_compiled L)))"
      using stepViewsOf_steps [OF assms(1)] by (simp add: assms(2))
    then have "List.find (\<lambda>doc. doc_stepId doc = fst w) (documents (ls_compiled L)) \<noteq> None"
      unfolding find_None_iff by auto
    then obtain doc where "List.find (\<lambda>doc. doc_stepId doc = fst w) (documents (ls_compiled L)) = Some doc" by blast
    with Pair Some that show ?thesis by (simp add: project_def Let_def)
  qed
qed

section \<open>Serving\<close>

lemma loaded_structure:
  assumes "loaded_from A L" "respond_laws A P"
  shows "distinct (map groupId (repeatGroups (ls_steps L)))"
    "\<forall>grp \<in> set (repeatGroups (ls_steps L)). mintTarget (g_count grp) answers \<le> int ID_SPACE"
proof -
  obtain draft out where "compileDraft (ah_compiles_u A) (ah_compiles_v A) draft = Inr out" and clean: "draft_errors draft = []"
    and "ls_frozen L = out_snapshot out" "snap_definition (out_snapshot out) = d_definition draft"
    and steps: "ls_steps L = f_steps (d_definition draft)" and "FormDefinition_shape (s_nfc (ph_submit P)) (d_definition draft)"
    and "map_of (ls_questions L) = snapshot_question (out_snapshot out)"
    and "unwrapDefinition (s_decode (ph_submit P)) (ph_encode P (ls_frozen L)) = Inr (d_definition draft)"
    and "map doc_stepId (documents (ls_compiled L)) = map stepId (ls_steps L)"
    by (rule loaded_parts [OF assms])
  have "unambiguous (d_definition draft)" "\<forall>g \<in> set (repeatGroups (f_steps (d_definition draft))). legal_group g"
    using clean_draft(1) [OF clean] by (simp_all add: checkStructure_Nil_iff)
  with assms(1) show "distinct (map groupId (repeatGroups (ls_steps L)))"
    "\<forall>grp \<in> set (repeatGroups (ls_steps L)). mintTarget (g_count grp) answers \<le> int ID_SPACE"
    by (auto simp: steps unambiguous_def form_groups_def legal_group_def loaded_from_def groups_fit_def intro!: mintTarget_fits)
qed

lemma lawful_rosters:
  "respond_laws A P \<Longrightarrow> session_lawful P L s db \<Longrightarrow> valid_rosters (rosterOf (liveRosters P (rs_table (dd_rosters db)) s L held))"
  unfolding liveRosters_def respond_laws_def session_lawful_def by (rule loaded_rosters_valid(1)) blast+

lemma session_lawful_rosters:
  "session_lawful P L s (db\<lparr>dd_rosters := st\<rparr>) \<longleftrightarrow>
     session_ok s (rs_table st) \<and> (\<forall>r \<in> set (rows_of_session (at_rows (dd_answers db)) s). lawful_answer P L r)"
  by (simp add: session_lawful_def)

lemma held_by_rosters [simp]: "held_by P (db\<lparr>dd_rosters := st\<rparr>) s = held_by P db s"
  by (simp add: held_by_def)

text \<open>A page is served, and the ledger stays lawful; only rows of the roster are appended.\<close>

lemma project_rosters_total:
  assumes L: "loaded_from A L" and laws: "respond_laws A P" and lawful: "session_lawful P L s (db\<lparr>dd_rosters := st\<rparr>)"
  obtains response st' u where "projectWithRosters P L s (held_by P db s) requested stamp st = Inr (response, st')"
    "rs_table st' = rs_table st @ u" "session_lawful P L s (db\<lparr>dd_rosters := st'\<rparr>)"
proof -
  let ?held = "held_by P db s" and ?steps = "ls_steps L"
  obtain draft out where "compileDraft (ah_compiles_u A) (ah_compiles_v A) draft = Inr out" "draft_errors draft = []"
    and Lf: "ls_frozen L = out_snapshot out" "snap_definition (out_snapshot out) = d_definition draft"
    and steps: "ls_steps L = f_steps (d_definition draft)" and "FormDefinition_shape (s_nfc (ph_submit P)) (d_definition draft)"
    and "map_of (ls_questions L) = snapshot_question (out_snapshot out)"
    and "unwrapDefinition (s_decode (ph_submit P)) (ph_encode P (ls_frozen L)) = Inr (d_definition draft)"
    and docs: "map doc_stepId (documents (ls_compiled L)) = map stepId (ls_steps L)"
    by (rule loaded_parts [OF L laws])
  have host: "draw_law (ph_random P)" "roster_order_laws (ph_rosters P)" "fair_source (ph_random P)"
    using laws by (simp_all add: respond_laws_def)
  have ok: "session_ok s (rs_table st)" and answers: "\<forall>r \<in> set (rows_of_session (at_rows (dd_answers db)) s). lawful_answer P L r"
    using lawful by (simp_all add: session_lawful_rosters)
  obtain first st0 where first: "evaluateOrThrow P L ?held (liveRosters P (rs_table st) s L ?held) = Inr first"
    by (rule evaluate_total [OF L laws lawful lawful_rosters [OF laws lawful], of ?held, simplified])
  define renderStep where "renderStep = map_option fst (fst (renderTarget first requested
    (Some \<lparr>uo_groupIds = groupsOwedAMint (ph_rosters P) (rs_table st) s ?steps (answer_lookup ?held), uo_stepOf = groupStepIndex ?steps\<rparr>)))"
  obtain rs st' where mint: "mintDueAndLoadRosters (ph_rosters P) (ph_random P) st s ?steps renderStep (answer_lookup ?held) stamp = Some (rs, st')"
    using mintDue_total [OF host(3,1,2) ok loaded_structure(2) [OF L laws]] by (metis not_Some_eq surj_pair)
  obtain u where rs: "rs = loadRosters (ph_rosters P) (rs_table st') s ?steps (answer_lookup ?held)"
    and u: "rs_table st' = rs_table st @ u" and ok': "session_ok s (rs_table st')"
    by (rule mintDue_facts [OF host(1,2) ok loaded_structure(1) [OF L laws] mint])
  have lawful': "session_lawful P L s (db\<lparr>dd_rosters := st'\<rparr>)" using ok' answers by (simp add: session_lawful_rosters)
  obtain flow w where flow: "evaluateOrThrow P L ?held rs = Inr flow" "flow = flow_of (snap_definition (ls_frozen L)) (rosterOf rs)
      (form_questions (snap_definition (ls_frozen L)) (map_of (ls_questions L)))
      (e_canonical (form_env (s_nfc (ph_submit P)) (snap_definition (ls_frozen L)) (answer_lookup ?held) rs)) w"
    using evaluate_total [OF L laws lawful', of rs] loaded_rosters_valid(1) [OF host(2) ok'] unfolding rs held_by_rosters by metis
  obtain response where response: "project L flow ?held rs requested
      (Some \<lparr>uo_groupIds = groupsOwedAMint (ph_rosters P) (rs_table st) s ?steps (answer_lookup ?held), uo_stepOf = groupStepIndex ?steps\<rparr>) = Inr response"
    by (rule project_total [OF flow(2)]) (use docs in \<open>simp add: steps Lf\<close>)
  have "projectWithRosters P L s ?held requested stamp st = Inr (response, st')"
    using first mint flow(1) response by (simp add: projectWithRosters_def throw_simps Let_def flip: renderStep_def)
  with u lawful' that show ?thesis by blast
qed

end
