(* ===== verification/SessionRun.thy ===== *)
theory SessionRun
  imports SessionServed
begin

text \<open>
  The transactions of a session as steps: a page, an answer, a batch, a roster operation, a
  submission, and whatever leaves the ledger of the session alone or erases it. Each step is
  the transaction of a handler, under the lock of the session, so a run is an interleaving of
  the requests of a respondent with everything else.
\<close>

section \<open>Serving after a write\<close>

lemma serve_after_total:
  assumes "loaded_from A L" "respond_laws A P" "session_lawful P L s db"
  obtains response db' where "serve_after P L s requested stamp db = Inr (response, db')" "session_lawful P L s db'"
    "dd_answers db' = dd_answers db" "dd_sessions db' = dd_sessions db"
proof -
  have "session_lawful P L s (db\<lparr>dd_rosters := dd_rosters db\<rparr>)" using assms(3) by simp
  from project_rosters_total [OF assms(1,2) this] obtain response st' where
    "projectWithRosters P L s (held_by P db s) requested stamp (dd_rosters db) = Inr (response, st')"
    "session_lawful P L s (db\<lparr>dd_rosters := st'\<rparr>)" by metis
  then show ?thesis by (intro that [of response "db\<lparr>dd_rosters := st'\<rparr>"]) (simp_all add: serve_after_def throw_simps)
qed

lemma flow_now_total:
  assumes "loaded_from A L" "respond_laws A P" "session_lawful P L s db"
  obtains flow where "flow_now P L s db = Inr flow"
  using evaluate_total [OF assms lawful_rosters [OF assms(2,3)]] by (metis flow_now_def)

section \<open>What an answer writes\<close>

definition good_target :: "loaded_snapshot \<Rightarrow> answer_target \<Rightarrow> bool" where
  "good_target L t \<longleftrightarrow> valid_key_parts (tg_instanceId t, tg_questionId t) \<and>
     map_of (ls_questions L) (tg_questionId t) = Some (tg_definition t)"

lemma answerTarget_good: "answerTarget L b = Inr t \<Longrightarrow> good_target L t"
  by (auto simp: answerTarget_def good_target_def valid_key_parts_def throw_simps split: if_splits option.splits)

lemma answer_targets_good: "answer_targets L bs = Inr ts \<Longrightarrow> t \<in> set ts \<Longrightarrow> good_target L t"
  by (induction bs arbitrary: ts) (auto simp: throw_simps dest: answerTarget_good)

text \<open>A row of the ledger that says what an accepted answer says of its cell.\<close>

definition row_for :: "respond_host \<Rightarrow> string \<Rightarrow> answer_target \<Rightarrow> answer_row \<Rightarrow> bool" where
  "row_for P s t r \<longleftrightarrow> ar_sessionId r = s \<and> row_cell r = (tg_questionId t, tg_instanceId t) \<and>
     (if tg_value t = JNull then ar_value r = None \<and> ar_retracted r
      else \<exists>v. ar_value r = Some v \<and> \<not> ar_retracted r \<and>
        validateAnswer (s_nfc (ph_submit P)) (s_regex (ph_submit P)) (tg_definition t) (tg_value t) = Inr v)"

lemma applyOneAnswer_effect:
  assumes "applyOneAnswer P s held t stamp db = (None, db')"
  shows "dd_rosters db' = dd_rosters db"
    "(tg_value t = JNull \<and> map_of held (tg_key t) = None \<and> db' = db) \<or>
     (\<exists>r. at_rows (dd_answers db') = at_rows (dd_answers db) @ [r] \<and> row_for P s t r)"
  using assms
  by (auto simp: applyOneAnswer_def set_answers_def retractAnswer_def appendAnswer_def row_for_def row_cell_def
      split: if_splits sum.splits)

lemma row_for_lawful: "good_target L t \<Longrightarrow> row_for P s t r \<Longrightarrow> lawful_answer P L r"
  by (auto simp: row_for_def good_target_def lawful_answer_def cell_valid_def row_cell_def split: if_splits)

lemma applyOneAnswer_lawful:
  assumes "good_target L t" "session_lawful P L s db" "applyOneAnswer P s held t stamp db = (None, db')"
  shows "session_lawful P L s db'"
  using applyOneAnswer_effect [OF assms(3)] assms(2) row_for_lawful [OF assms(1)]
  by (auto simp: session_lawful_def rows_of_session_append rows_of_session_def)

lemma applyOneAnswer_refusal:
  "applyOneAnswer P s held t stamp db = (Some e, db') \<Longrightarrow> \<exists>es. e = InvalidAnswer (tg_questionId t) (tg_instanceId t) es"
  by (auto simp: applyOneAnswer_def split: if_splits sum.splits)

lemma answer_tx_parts:
  assumes "answer_tx P L s t requested stamp db = Inr (response, db')"
  obtains flow db1 where "flow_now P L s db = Inr flow" "isCellVisible flow t"
    "applyOneAnswer P s (held_by P db s) t stamp db = (None, db1)"
    "serve_after P L s requested stamp db1 = Inr (response, db')"
  using assms by (auto simp: answer_tx_def throw_simps split: prod.splits option.splits)

lemma serve_after_answers: "serve_after P L s requested stamp db = Inr (response, db') \<Longrightarrow> dd_answers db' = dd_answers db"
  by (auto simp: serve_after_def throw_simps)

lemma serve_after_lawful:
  assumes "loaded_from A L" "respond_laws A P" "session_lawful P L s db" "serve_after P L s requested stamp db = Inr (response, db')"
  shows "session_lawful P L s db'"
  using serve_after_total [OF assms(1-3), of requested stamp] assms(4) by (metis Pair_inject sum.inject(2))

lemma answer_tx_lawful:
  assumes "loaded_from A L" "respond_laws A P" "session_lawful P L s db" "good_target L t"
    "answer_tx P L s t requested stamp db = Inr (response, db')"
  shows "session_lawful P L s db'"
  using answer_tx_parts [OF assms(5)] serve_after_lawful [OF assms(1,2)] applyOneAnswer_lawful [OF assms(4,3)] by metis

lemma answer_tx_outcome:
  assumes "loaded_from A L" "respond_laws A P" "session_lawful P L s db" "good_target L t"
  shows "(\<exists>response db'. answer_tx P L s t requested stamp db = Inr (response, db')) \<or>
    answer_tx P L s t requested stamp db = Inl QuestionNotVisible \<or>
    (\<exists>es. answer_tx P L s t requested stamp db = Inl (InvalidAnswer (tg_questionId t) (tg_instanceId t) es))"
proof -
  obtain flow where flow: "flow_now P L s db = Inr flow" by (rule flow_now_total [OF assms(1-3)])
  show ?thesis
  proof (cases "isCellVisible flow t")
    case True
    obtain e db1 where step: "applyOneAnswer P s (held_by P db s) t stamp db = (e, db1)" by (meson surj_pair)
    show ?thesis
    proof (cases e)
      case None
      have "session_lawful P L s db1" by (rule applyOneAnswer_lawful [OF assms(4,3) step [unfolded None]])
      then obtain response db' where "serve_after P L s requested stamp db1 = Inr (response, db')"
        by (rule serve_after_total [OF assms(1,2)])
      with flow True step None show ?thesis by (simp add: answer_tx_def throw_simps bind_ok_def throw_if_def)
    next
      case (Some refusal)
      with applyOneAnswer_refusal step flow True show ?thesis by (fastforce simp: answer_tx_def bind_ok_def throw_if_def)
    qed
  qed (use flow in \<open>simp add: answer_tx_def bind_ok_def throw_if_def\<close>)
qed

section \<open>Batches and roster operations\<close>

lemma batch_entries_lawful:
  assumes "\<forall>t \<in> set ts. good_target L t" "session_lawful P L s db"
    "batch_entries P flow s stamp ts held db = (rejected, db')"
  shows "session_lawful P L s db'"
  using assms
proof (induction ts arbitrary: held db rejected)
  case (Cons t ts)
  obtain e db1 where step: "applyOneAnswer P s held t stamp db = (e, db1)" by (meson surj_pair)
  show ?case
  proof (cases "isCellVisible flow t \<and> e = None")
    case True
    with Cons.prems step have "session_lawful P L s db1" by (auto intro: applyOneAnswer_lawful)
    with Cons True step show ?thesis by simp
  next
    case False
    with Cons.prems(3) step obtain rest where "batch_entries P flow s stamp ts held db = (rest, db')"
      by (auto simp: Let_def split: if_splits option.splits prod.splits)
    with Cons show ?thesis by simp
  qed
qed simp

lemma batch_tx_total:
  assumes "loaded_from A L" "respond_laws A P" "session_lawful P L s db" "\<forall>t \<in> set ts. good_target L t"
  obtains response rejected db' where "batch_tx P L s ts requested stamp db = Inr (response, rejected, db')" "session_lawful P L s db'"
proof -
  obtain flow where flow: "flow_now P L s db = Inr flow" by (rule flow_now_total [OF assms(1-3)])
  obtain rejected db1 where entries: "batch_entries P flow s stamp ts (held_by P db s) db = (rejected, db1)" by (meson surj_pair)
  have "session_lawful P L s db1" by (rule batch_entries_lawful [OF assms(4,3) entries])
  then obtain response db' where "serve_after P L s requested stamp db1 = Inr (response, db')" "session_lawful P L s db'"
    by (rule serve_after_total [OF assms(1,2)])
  with flow entries that show ?thesis by (simp add: batch_tx_def bind_ok_def)
qed

lemma roster_tx_lawful:
  assumes "loaded_from A L" "respond_laws A P" "session_lawful P L s db" "later_than s (rs_table (dd_rosters db)) stamp"
    "roster_tx P L s grp opToken op requested stamp db = Inr (response, outcome, db')"
  shows "session_lawful P L s db'"
proof -
  from assms(5) obtain st st' where op: "applyRosterOp (ph_random P) (dd_rosters db) s grp
      (Some (readRoster (ph_rosters P) (rs_table (dd_rosters db)) s (groupId grp))) (answer_lookup (held_by P db s)) opToken op stamp =
      Some (Inr outcome, st)"
    and serve: "projectWithRosters P L s (held_by P db s) requested stamp st = Inr (response, st')" "db' = db\<lparr>dd_rosters := st'\<rparr>"
    by (auto simp: roster_tx_def throw_simps split: option.splits sum.splits prod.splits)
  have laws: "draw_law (ph_random P)" "roster_order_laws (ph_rosters P)" "session_ok s (rs_table (dd_rosters db))"
    using assms(2,3) by (simp_all add: respond_laws_def session_lawful_def)
  have "session_lawful P L s (db\<lparr>dd_rosters := st\<rparr>)"
    using applyRosterOp_keeps(1) [OF laws assms(4) op] assms(3) by (simp add: session_lawful_def)
  from project_rosters_total [OF assms(1,2) this, of requested stamp] serve show ?thesis by (metis Pair_inject sum.inject(2))
qed

section \<open>Runs of a session\<close>

text \<open>The rows a session has in the two ledgers.\<close>

definition session_rows :: "string \<Rightarrow> data_db \<Rightarrow> answer_row list \<times> roster_row list" where
  "session_rows s db = (rows_of_session (at_rows (dd_answers db)) s, of_session s (rs_table (dd_rosters db)))"

inductive session_step :: "respond_host \<Rightarrow> loaded_snapshot \<Rightarrow> string \<Rightarrow> data_db \<Rightarrow> data_db \<Rightarrow> bool" for P L s where
  Page: "serve_after P L s requested stamp db = Inr (response, db') \<Longrightarrow> session_step P L s db db'"
| Answer: "answerTarget L b = Inr t \<Longrightarrow> answer_tx P L s t requested stamp db = Inr (response, db') \<Longrightarrow> session_step P L s db db'"
| Batch: "answer_targets L bs = Inr ts \<Longrightarrow> batch_tx P L s ts requested stamp db = Inr (response, rejected, db') \<Longrightarrow>
    session_step P L s db db'"
| Roster: "later_than s (rs_table (dd_rosters db)) stamp \<Longrightarrow>
    roster_tx P L s grp opToken op requested stamp db = Inr (response, outcome, db') \<Longrightarrow> session_step P L s db db'"
| Submit: "submit_tx P (ls_frozen L) session flagged now stamp db = Inr (r, db') \<Longrightarrow> session_step P L s db db'"
| Elsewhere: "session_rows s db' = session_rows s db \<Longrightarrow> session_step P L s db db'"
| Erased: "session_rows s db' = ([], []) \<Longrightarrow> session_step P L s db db'"

abbreviation session_run :: "respond_host \<Rightarrow> loaded_snapshot \<Rightarrow> string \<Rightarrow> data_db \<Rightarrow> data_db \<Rightarrow> bool" where
  "session_run P L s \<equiv> (session_step P L s)\<^sup>*\<^sup>*"

lemma session_lawful_rows:
  "session_rows s db' = session_rows s db \<Longrightarrow> session_lawful P L s db' \<longleftrightarrow> session_lawful P L s db"
  by (simp add: session_rows_def session_lawful_def session_ok_def group_rows_def)

lemma session_lawful_empty:
  assumes "session_rows s db = ([], [])"
  shows "session_lawful P L s db"
proof -
  have "session_ok s []" by (simp add: session_ok_def group_rows_def of_session_def of_group_def ledger_ok_def)
  with assms show ?thesis by (simp add: session_rows_def session_lawful_def session_ok_def group_rows_def of_session_def)
qed

lemma submit_tx_rows:
  "submit_tx P frozen session flagged now stamp db = Inr (r, db') \<Longrightarrow> dd_answers db' = dd_answers db \<and> dd_rosters db' = dd_rosters db"
  by (auto simp: submit_tx_def Let_def throw_simps split: if_splits sum.splits option.splits)

lemma session_step_lawful:
  assumes "loaded_from A L" "respond_laws A P" "session_step P L s db db'" "session_lawful P L s db"
  shows "session_lawful P L s db'"
  using assms(3,4)
proof cases
  case (Answer b t requested stamp response)
  from answer_tx_lawful [OF assms(1,2,4) answerTarget_good [OF Answer(1)] Answer(2)] show ?thesis .
next
  case (Batch bs ts requested stamp response rejected)
  have "\<forall>t \<in> set ts. good_target L t" using answer_targets_good [OF Batch(1)] by blast
  from batch_tx_total [OF assms(1,2,4) this, of requested stamp] Batch(2) show ?thesis by (metis Pair_inject sum.inject(2))
next
  case (Submit session flagged now stamp r)
  with submit_tx_rows [OF Submit] assms(4) show ?thesis by (simp add: session_lawful_def)
qed (use assms serve_after_lawful roster_tx_lawful session_lawful_rows session_lawful_empty in \<open>metis+\<close>)

lemma session_run_lawful:
  assumes "loaded_from A L" "respond_laws A P"
  shows "session_run P L s db db' \<Longrightarrow> session_lawful P L s db \<Longrightarrow> session_lawful P L s db'"
  by (induction rule: rtranclp_induct) (auto intro: session_step_lawful [OF assms])

section \<open>A published version is served\<close>

text \<open>The tables of the registry the environment reads.\<close>

definition tables_of :: "registry \<Rightarrow> pinned_tables" where
  "tables_of reg = \<lparr>pt_forms = rd_forms reg, pt_versions = rd_versions reg, pt_questions = rd_questionVersions reg,
     pt_releases = rd_releases reg\<rparr>"

lemma tables_of_simps [simp]:
  "pt_forms (tables_of reg) = rd_forms reg" "pt_versions (tables_of reg) = rd_versions reg"
  "pt_questions (tables_of reg) = rd_questionVersions reg" "pt_releases (tables_of reg) = rd_releases reg"
  by (simp_all add: tables_of_def)

lemma session_loads:
  assumes "registry_sound A reg" "registry_path A reg reg'" "int_text_law (ah_release A)"
    "version_at (rd_versions reg) (sn_formId session) (sn_formVersion session) = Some v" "groups_fit (f_steps (fv_definition v))"
  obtains L where "loadSnapshot (rd_versions reg) (rd_questionVersions reg) session = Inr L"
    "loadSnapshot (rd_versions reg') (rd_questionVersions reg') session = Inr L" "loaded_from A L" "ls_steps L = f_steps (fv_definition v)"
proof -
  obtain draft out where frozen: "frozen_from A draft out (rd_questionVersions reg) v"
    and now: "loadFrozenSnapshot (rd_versions reg) (rd_questionVersions reg) session = Inr (out_snapshot out, v)"
    and after: "loadFrozenSnapshot (rd_versions reg') (rd_questionVersions reg') session = Inr (out_snapshot out, v)"
    by (rule sound_serves [OF assms(1-4)])
  let ?L = "\<lparr>ls_frozen = out_snapshot out, ls_compiled = fv_compiled v, ls_questions = snapshot_definitions (out_snapshot out)\<rparr>"
  have steps: "ls_steps ?L = f_steps (fv_definition v)" using frozen by (simp add: ls_steps_def frozen_from_def)
  have "loaded_from A ?L" unfolding loaded_from_def using frozen assms(5) steps by auto
  with steps now after show ?thesis by (intro that [of ?L]) (simp_all add: loadSnapshot_def throw_simps)
qed

lemma getStep_total:
  assumes "loaded_from A L" "respond_laws A P" "session_lawful P L s (between db)"
    "loadActiveSession (dd_sessions db) s now = Inr session" "loadSnapshot (pt_versions R) (pt_questions R) session = Inr L"
  obtains response db' where "getStep P R between db s requested now stamp = Inr (response, db')"
proof -
  obtain response db' where "serve_after P L s requested stamp (between db) = Inr (response, db')"
    by (rule serve_after_total [OF assms(1-3)])
  with assms(4,5) that show ?thesis by (auto simp: getStep_def serve_after_def throw_simps Let_def)
qed

end
