(* ===== verification/SessionStart.thy ===== *)
theory SessionStart
  imports RespondHandlers ReleaseConfirm
begin

text \<open>
  How a session begins and what proves whose it is: \<^verbatim>\<open>start-session/handler.ts\<close>,
  \<^verbatim>\<open>session-token.ts\<close> and \<^verbatim>\<open>challenge.ts\<close> under \<^verbatim>\<open>apps/api/src/features/responses\<close>, and the links
  an author hands out, \<^verbatim>\<open>features/links/handler.ts\<close>. The tables are the links of the control
  schema and those of the environment the request is for; \<^verbatim>\<open>between\<close> is what other requests
  do to both between the checks and the transaction. A link's URL is its token here.
\<close>

section \<open>Refusals\<close>

datatype start_refusal =
    StartFormNotFound
  | FormClosed
  | NoPublishedVersion
  | LinkWrongEnvironment
  | LinkInvalid
  | LinkExpired
  | LinkConsumed
  | LinkRevoked
  | ChallengeFailed
  | LinkNotFound
  | InvalidLinkId
  | LinkExpiryInvalid
  | StartInvalidFormId
  | StartUnknownEnvironment string
  | StartFault

record 'k start_host =
  sh_token :: "'k token_host"
  sh_linkKeys :: "'k list"
  sh_sessionKeys :: "'k list"
  sh_anonymousTtl :: int
  sh_iso :: "int \<Rightarrow> string"
  sh_environment :: string
  sh_served :: "string list"
  sh_bytes :: random_source

text \<open>The rows of the control schema's links and the schema of the environment.\<close>

record start_db =
  sd_links :: "secure_link_row list"
  sd_data :: data_db

definition newSessionId :: "nat list \<Rightarrow> string" where
  "newSessionId bytes = ''ses_'' @ concat (map hex_byte bytes)"

definition newLinkId :: "nat list \<Rightarrow> string" where
  "newLinkId bytes = ''lnk_'' @ concat (map hex_byte bytes)"

section \<open>The challenge\<close>

text \<open>
  The verdict on a challenge: \<^verbatim>\<open>installation\<close> is the one of the deployment's own provider. No
  row for the environment, the provider that is not implemented and an unknown name fail.
\<close>

definition environmentChallenge :: "bool \<Rightarrow> string option option \<Rightarrow> bool" where
  "environmentChallenge installation provider = (case provider of
     None \<Rightarrow> False
   | Some None \<Rightarrow> installation
   | Some (Some name) \<Rightarrow> name = ''none'')"

definition selectChallengeVerifier :: "string \<Rightarrow> bool" where
  "selectChallengeVerifier provider \<longleftrightarrow> provider = ''none''"

definition enforceChallenge :: "bool \<Rightarrow> bool \<Rightarrow> start_refusal + unit" where
  "enforceChallenge challengeRequired passed = throw_if (challengeRequired \<and> \<not> passed) ChallengeFailed"

section \<open>Starting\<close>

record start_result =
  st_sessionId :: string
  st_sessionToken :: string
  st_formVersion :: int
  st_expiresAt :: int

definition requireOpenEnvironment :: "release_row list \<Rightarrow> form_id \<Rightarrow> string \<Rightarrow> start_refusal + FormEnvironmentState" where
  "requireOpenEnvironment releases fid environment = (case getFormEnvironmentState releases fid environment of
     None \<Rightarrow> Inl NoPublishedVersion
   | Some state \<Rightarrow> if fe_closed state then Inl FormClosed else Inr state)"

definition mintSessionToken :: "'k start_host \<Rightarrow> string \<Rightarrow> int \<Rightarrow> 'k \<Rightarrow> start_refusal + string" where
  "mintSessionToken S sessionId expiresAt key =
    (case signCompactToken (sh_token S) SessionPurpose
        [(''sessionId'', JStr sessionId), (''expiresAt'', JStr (sh_iso S expiresAt))] key of
       Inl _ \<Rightarrow> Inl StartFault | Inr token \<Rightarrow> Inr token)"

definition finish :: "'k start_host \<Rightarrow> string \<Rightarrow> int \<Rightarrow> int \<Rightarrow> start_refusal + start_result" where
  "finish S sessionId v expiresAt = (case sh_sessionKeys S of
     [] \<Rightarrow> Inl StartFault
   | key # _ \<Rightarrow> bind_ok (mintSessionToken S sessionId expiresAt key) (\<lambda>token.
       Inr \<lparr>st_sessionId = sessionId, st_sessionToken = token, st_formVersion = v, st_expiresAt = expiresAt\<rparr>))"

definition version_exists :: "pinned_tables \<Rightarrow> form_id \<Rightarrow> int \<Rightarrow> bool" where
  "version_exists R fid v \<longleftrightarrow> version_at (pt_versions R) fid v \<noteq> None"

definition new_session ::
  "string \<Rightarrow> form_id \<Rightarrow> int \<Rightarrow> access_mode \<Rightarrow> string option \<Rightarrow> string \<Rightarrow> int \<Rightarrow> int \<Rightarrow> session_row" where
  "new_session sessionId fid v mode linkId environment expiresAt stamp =
     \<lparr>sn_sessionId = sessionId, sn_formId = fid, sn_formVersion = v, sn_accessMode = mode, sn_linkId = linkId,
      sn_environment = environment, sn_status = Created, sn_expiresAt = expiresAt, sn_createdAt = stamp\<rparr>"

definition insert_session :: "'k start_host \<Rightarrow> pinned_tables \<Rightarrow> start_db \<Rightarrow> session_row \<Rightarrow> start_refusal + start_db" where
  "insert_session S R db row =
    (case createSession (sh_environment S) (version_exists R) (sd_links db) (dd_sessions (sd_data db)) row of
       None \<Rightarrow> Inl StartFault
     | Some sessions \<Rightarrow> Inr (db\<lparr>sd_data := (sd_data db)\<lparr>dd_sessions := sessions\<rparr>\<rparr>))"

definition startAnonymous ::
  "'k start_host \<Rightarrow> pinned_tables \<Rightarrow> (start_db \<Rightarrow> start_db) \<Rightarrow> start_db \<Rightarrow> string \<Rightarrow> bool \<Rightarrow> nat \<Rightarrow> int \<Rightarrow> int \<Rightarrow>
     start_refusal + start_result \<times> start_db" where
  "startAnonymous S R between db slug passed draw now stamp = (case getFormBySlug (pt_forms R) slug of
     None \<Rightarrow> Inl StartFormNotFound
   | Some form \<Rightarrow>
       bind_ok (requireOpenEnvironment (pt_releases R) (fo_formId form) (sh_environment S)) (\<lambda>released.
       bind_ok (enforceChallenge (fo_challengeRequired form) passed) (\<lambda>_.
       case sessionExpiresAt Anonymous now None (sh_anonymousTtl S) of
         None \<Rightarrow> Inl StartFault
       | Some expiresAt \<Rightarrow>
           let sessionId = newSessionId (sh_bytes S draw)
           in bind_ok (insert_session S R (between db) (new_session sessionId (fo_formId form) (fe_version released) Anonymous
                None (sh_environment S) expiresAt stamp)) (\<lambda>db'.
              bind_ok (finish S sessionId (fe_version released) expiresAt) (\<lambda>result. Inr (result, db'))))))"

definition assertLinkUsable :: "secure_link_row \<Rightarrow> int \<Rightarrow> start_refusal + unit" where
  "assertLinkUsable row now =
     bind_ok (throw_if (sl_revokedAt row \<noteq> None) LinkRevoked) (\<lambda>_.
     bind_ok (throw_if (sl_consumedAt row \<noteq> None) LinkConsumed) (\<lambda>_.
     throw_if (sl_expiresAt row \<le> now) LinkExpired))"

text \<open>A number that is no time compares as less than nothing, so the ceiling is taken.\<close>

definition link_expiry :: "'k start_host \<Rightarrow> string \<Rightarrow> int \<Rightarrow> int" where
  "link_expiry S expiresAt now = (case h_date_ms (sh_token S) expiresAt of Fin x \<Rightarrow> floor x | _ \<Rightarrow> now + sh_anonymousTtl S)"

text \<open>What is checked before anything is spent.\<close>

definition link_checks ::
  "'k start_host \<Rightarrow> pinned_tables \<Rightarrow> start_db \<Rightarrow> string \<Rightarrow> bool \<Rightarrow> int \<Rightarrow> start_refusal + link_claims \<times> int" where
  "link_checks S R db token passed now = (case verifySecureLink (sh_token S) token (sh_linkKeys S) (Fin (of_int now)) None of
     Inl (TokenError EXPIRED) \<Rightarrow> Inl LinkExpired
   | Inl _ \<Rightarrow> Inl LinkInvalid
   | Inr claims \<Rightarrow> (case getSecureLink (sd_links db) (lc_linkId claims) of
       None \<Rightarrow> Inl LinkInvalid
     | Some row \<Rightarrow>
         bind_ok (throw_if (sl_environment row \<noteq> sh_environment S) LinkWrongEnvironment) (\<lambda>_.
         bind_ok (assertLinkUsable row now) (\<lambda>_.
         bind_ok (requireOpenEnvironment (pt_releases R) (lc_formId claims) (sh_environment S)) (\<lambda>released.
         bind_ok (enforceChallenge (case form_by_id (pt_forms R) (lc_formId claims) of
             None \<Rightarrow> False | Some form \<Rightarrow> fo_challengeRequired form) passed) (\<lambda>_.
         Inr (claims, fe_version released)))))))"

text \<open>The one-time link is consumed in the transaction of the session.\<close>

definition link_tx ::
  "'k start_host \<Rightarrow> pinned_tables \<Rightarrow> link_claims \<Rightarrow> session_row \<Rightarrow> int \<Rightarrow> start_db \<Rightarrow> start_refusal + start_db" where
  "link_tx S R claims row now db =
    (if lc_oneTime claims = Some True
     then (case consumeSecureLink (sd_links db) (lc_linkId claims) now of
        (_, None) \<Rightarrow> Inl LinkConsumed
      | (links, Some _) \<Rightarrow> insert_session S R (db\<lparr>sd_links := links\<rparr>) row)
     else insert_session S R db row)"

definition startFromSecureLink ::
  "'k start_host \<Rightarrow> pinned_tables \<Rightarrow> (start_db \<Rightarrow> start_db) \<Rightarrow> start_db \<Rightarrow> string \<Rightarrow> bool \<Rightarrow> nat \<Rightarrow> int \<Rightarrow> int \<Rightarrow>
     start_refusal + start_result \<times> start_db" where
  "startFromSecureLink S R between db token passed draw now stamp =
     bind_ok (link_checks S R db token passed now) (\<lambda>(claims, v).
     case sessionExpiresAt SecureLink now (Some (link_expiry S (lc_expiresAt claims) now)) (sh_anonymousTtl S) of
       None \<Rightarrow> Inl StartFault
     | Some expiresAt \<Rightarrow>
         let sessionId = newSessionId (sh_bytes S draw)
         in bind_ok (link_tx S R claims (new_session sessionId (lc_formId claims) v SecureLink (Some (lc_linkId claims))
              (sh_environment S) expiresAt stamp) now (between db)) (\<lambda>db'.
            bind_ok (finish S sessionId v expiresAt) (\<lambda>result. Inr (result, db'))))"

section \<open>Whose session\<close>

definition bearer_of :: "string option \<Rightarrow> string option" where
  "bearer_of header = (case header of
     None \<Rightarrow> None
   | Some h \<Rightarrow> if to_lower (take 7 h) = ''bearer '' \<and> 7 < length h then Some (drop 7 h) else None)"

definition authenticateSession :: "'k start_host \<Rightarrow> string option \<Rightarrow> int \<Rightarrow> respond_refusal + string" where
  "authenticateSession S header now = (case bearer_of header of
     None \<Rightarrow> Inl Unauthorized
   | Some bearer \<Rightarrow> (case verifyCompactToken (sh_token S) SessionPurpose bearer (sh_sessionKeys S) (Fin (of_int now)) of
       Inl _ \<Rightarrow> Inl Unauthorized
     | Inr claims \<Rightarrow> (case map_of claims ''sessionId'' of
         Some (JStr i) \<Rightarrow> if SessionId i then Inr i else Inl Unauthorized
       | _ \<Rightarrow> Inl Unauthorized)))"

definition authorizedSessionId :: "'k start_host \<Rightarrow> string option \<Rightarrow> string \<Rightarrow> int \<Rightarrow> respond_refusal + string" where
  "authorizedSessionId S header i now =
     bind_ok (authenticateSession S header now) (\<lambda>authed. if authed = i \<and> SessionId i then Inr i else Inl Unauthorized)"

definition getSessionHandler :: "'k start_host \<Rightarrow> data_db \<Rightarrow> string option \<Rightarrow> string \<Rightarrow> int \<Rightarrow> respond_refusal + session_row" where
  "getSessionHandler S db header i now =
     bind_ok (authenticateSession S header now) (\<lambda>authed.
     bind_ok (throw_if (authed \<noteq> i) Unauthorized) (\<lambda>_. case getSession (dd_sessions db) authed of
       None \<Rightarrow> Inl SessionNotFound | Some session \<Rightarrow> Inr session))"

section \<open>The links of a form\<close>

datatype link_state = LinkIsActive | LinkIsConsumed | LinkIsExpired | LinkIsRevoked

definition linkState :: "secure_link_row \<Rightarrow> int \<Rightarrow> link_state" where
  "linkState row now =
    (if sl_revokedAt row \<noteq> None then LinkIsRevoked
     else if sl_consumedAt row \<noteq> None then LinkIsConsumed
     else if sl_expiresAt row \<le> now then LinkIsExpired else LinkIsActive)"

record mint_request =
  mq_form :: string
  mq_environment :: string
  mq_expiresAt :: string
  mq_oneTime :: bool
  mq_count :: nat

definition link_claims_js :: "'k start_host \<Rightarrow> mint_request \<Rightarrow> string \<Rightarrow> int \<Rightarrow> jsval" where
  "link_claims_js S q linkId expiry = JObj [(''formId'', JStr (mq_form q)), (''linkId'', JStr linkId),
     (''expiresAt'', JStr (sh_iso S expiry)), (''oneTime'', JBool (mq_oneTime q))]"

fun mint_each ::
  "'k start_host \<Rightarrow> mint_request \<Rightarrow> 'k \<Rightarrow> int \<Rightarrow> int \<Rightarrow> nat \<Rightarrow> nat \<Rightarrow> secure_link_row list \<Rightarrow>
     start_refusal + (string \<times> string) list \<times> secure_link_row list" where
  "mint_each S q key expiry stamp draw 0 links = Inr ([], links)"
| "mint_each S q key expiry stamp draw (Suc n) links =
    (let linkId = newLinkId (sh_bytes S draw)
     in case insertSecureLink links linkId (mq_form q) expiry (mq_environment q) (Some (mq_oneTime q)) stamp of
          None \<Rightarrow> Inl StartFault
        | Some links' \<Rightarrow> (case mintSecureLink (sh_token S) (link_claims_js S q linkId expiry) key of
            Inl _ \<Rightarrow> Inl StartFault
          | Inr token \<Rightarrow> bind_ok (mint_each S q key expiry stamp (draw + 1) n links') (\<lambda>(minted, links'').
              Inr ((linkId, token) # minted, links''))))"

definition mintLinks ::
  "'k start_host \<Rightarrow> registry \<Rightarrow> secure_link_row list \<Rightarrow> mint_request \<Rightarrow> AgentStepSite option \<Rightarrow> (nat \<Rightarrow> string) \<Rightarrow> nat \<Rightarrow> int \<Rightarrow> int \<Rightarrow>
     start_refusal + (string \<times> string) list \<times> secure_link_row list \<times> registry" where
  "mintLinks S reg links q site nat_text draw now stamp =
     bind_ok (throw_if (\<not> FormId (mq_form q)) StartInvalidFormId) (\<lambda>_.
     bind_ok (throw_if (mq_environment q \<notin> set (sh_served S)) (StartUnknownEnvironment (mq_environment q))) (\<lambda>_.
     case form_by_id (rd_forms reg) (mq_form q) of
       None \<Rightarrow> Inl StartFormNotFound
     | Some _ \<Rightarrow> (case h_date_ms (sh_token S) (mq_expiresAt q) of
         Fin x \<Rightarrow>
           bind_ok (throw_if (floor x \<le> now) LinkExpiryInvalid) (\<lambda>_. case sh_linkKeys S of
             [] \<Rightarrow> Inl StartFault
           | key # _ \<Rightarrow> bind_ok (mint_each S q key (floor x) stamp draw (mq_count q) links) (\<lambda>(minted, links').
               Inr (minted, links', writeAgentStep reg site (Some (nat_text (mq_count q))) now)))
       | _ \<Rightarrow> Inl LinkExpiryInvalid)))"

definition listLinks ::
  "'k start_host \<Rightarrow> (secure_link_row list \<Rightarrow> secure_link_row list) \<Rightarrow> registry \<Rightarrow> secure_link_row list \<Rightarrow> string \<Rightarrow> string \<Rightarrow> int \<Rightarrow>
     start_refusal + (secure_link_row \<times> link_state) list" where
  "listLinks S arrange reg links fid environment now =
     bind_ok (throw_if (\<not> FormId fid) StartInvalidFormId) (\<lambda>_.
     bind_ok (throw_if (environment \<notin> set (sh_served S)) (StartUnknownEnvironment environment)) (\<lambda>_.
     case form_by_id (rd_forms reg) fid of
       None \<Rightarrow> Inl StartFormNotFound
     | Some _ \<Rightarrow> Inr (map (\<lambda>row. (row, linkState row now)) (listSecureLinks arrange links fid environment))))"

definition revokeLink ::
  "'k start_host \<Rightarrow> registry \<Rightarrow> secure_link_row list \<Rightarrow> string \<Rightarrow> string \<Rightarrow> string \<Rightarrow> AgentStepSite option \<Rightarrow> int \<Rightarrow>
     start_refusal + secure_link_row \<times> secure_link_row list \<times> registry" where
  "revokeLink S reg links fid linkId environment site now =
     bind_ok (throw_if (\<not> FormId fid) StartInvalidFormId) (\<lambda>_.
     bind_ok (throw_if (\<not> LinkId linkId) InvalidLinkId) (\<lambda>_.
     bind_ok (throw_if (environment \<notin> set (sh_served S)) (StartUnknownEnvironment environment)) (\<lambda>_.
     case revokeSecureLink links linkId fid environment now of
       (_, None) \<Rightarrow> Inl LinkNotFound
     | (links', Some row) \<Rightarrow> Inr (row, links', writeAgentStep reg site (Some (sl_linkId row)) now))))"

end
