(* ===== verification/RespondFacts.thy ===== *)
theory RespondFacts
  imports SessionRun SessionStart
begin

text \<open>
  What one request of a respondent does. A page shows visible cells and the answers of those
  cells, an answer lands in a visible cell, a submission is one row and at most one event
  however often it is sent, a session pins what is released and a one-time link starts one
  session.
\<close>

section \<open>A page\<close>

lemma rendered_values_map:
  "map_of (rendered_values held keys) k = (if k \<in> set keys then map_of held k else None)"
proof -
  have "map_of (foldl (\<lambda>m k. case map_of held k of None \<Rightarrow> m | Some v \<Rightarrow> AList.update k v m) m keys) k =
      (if k \<in> set keys \<and> map_of held k \<noteq> None then map_of held k else map_of m k)" for m
    by (induction keys arbitrary: m) (auto simp: update_conv' split: option.splits)
  then show ?thesis by (auto simp: rendered_values_def)
qed

lemma project_page:
  assumes "project L flow held rs requested unopened = Inr r"
  shows "set (sr_visibleQuestions r) \<subseteq> entry_key ` set (visible flow)"
    "map_of (sr_values r) k = (if k \<in> set (sr_visibleQuestions r) then map_of held k else None)"
    "sr_readyToSubmit r = complete flow"
    "sr_step r = Some doc \<Longrightarrow> sr_stepIndex r < sr_totalVisibleSteps r \<and> doc \<in> set (documents (ls_compiled L)) \<and>
       (\<forall>k \<in> set (sr_visibleQuestions r). \<exists>e \<in> set (visible flow). entry_key e = k \<and> v_step e = doc_stepId doc)"
proof -
  obtain view index where target: "renderTarget flow requested unopened = (view, index)" by (meson surj_pair)
  have "set (sr_visibleQuestions r) \<subseteq> entry_key ` set (visible flow) \<and>
    map_of (sr_values r) k = (if k \<in> set (sr_visibleQuestions r) then map_of held k else None) \<and>
    sr_readyToSubmit r = complete flow \<and>
    (sr_step r = Some doc \<longrightarrow> sr_stepIndex r < sr_totalVisibleSteps r \<and> doc \<in> set (documents (ls_compiled L)) \<and>
       (\<forall>k \<in> set (sr_visibleQuestions r). \<exists>e \<in> set (visible flow). entry_key e = k \<and> v_step e = doc_stepId doc))"
  proof (cases view)
    case None
    with assms target have "r = projection_of L flow rs index None [] [] None None" by (simp add: project_def)
    then show ?thesis by (simp add: projection_of_def)
  next
    case (Some w)
    from renderTarget_nth [OF target [unfolded Some]] have index: "index < length (stepViewsOf flow)" by simp
    from assms target Some obtain document paginated g i where doc': "List.find (\<lambda>doc. doc_stepId doc = fst w) (documents (ls_compiled L)) = Some document"
      and r: "r = projection_of L flow rs index (Some document) (rendered_keys flow w paginated)
        (rendered_values held (rendered_keys flow w paginated)) g i"
      by (auto simp: project_def Let_def split: option.splits)
    have keys: "set (rendered_keys flow w paginated) = {entry_key e | e. e \<in> set (visible flow) \<and> drawn_here w paginated e}"
      by (auto simp: rendered_keys_def entry_key_def)
    from find_Some_iff_mem [OF doc'] have "document \<in> set (documents (ls_compiled L))" "doc_stepId document = fst w" by simp_all
    with index keys show ?thesis by (auto simp: r projection_of_def rendered_values_map drawn_here_def)
  qed
  then show "set (sr_visibleQuestions r) \<subseteq> entry_key ` set (visible flow)"
    "map_of (sr_values r) k = (if k \<in> set (sr_visibleQuestions r) then map_of held k else None)"
    "sr_readyToSubmit r = complete flow"
    "sr_step r = Some doc \<Longrightarrow> sr_stepIndex r < sr_totalVisibleSteps r \<and> doc \<in> set (documents (ls_compiled L)) \<and>
       (\<forall>k \<in> set (sr_visibleQuestions r). \<exists>e \<in> set (visible flow). entry_key e = k \<and> v_step e = doc_stepId doc)"
    by blast+
qed


section \<open>Submitting\<close>

definition has_submitted :: "data_db \<Rightarrow> string \<Rightarrow> bool" where
  "has_submitted db s \<longleftrightarrow> (case getSession (dd_sessions db) s of None \<Rightarrow> False | Some r \<Rightarrow> sn_status r = Submitted)"

definition live_rosters :: "respond_host \<Rightarrow> frozen_snapshot \<Rightarrow> string \<Rightarrow> data_db \<Rightarrow> roster_map" where
  "live_rosters P frozen s db = loadRosters (ph_rosters P) (rs_table (dd_rosters db)) s (f_steps (snap_definition frozen))
     (answer_lookup (held_by P db s))"

definition stored_row :: "string \<Rightarrow> locked_submission \<Rightarrow> int \<Rightarrow> string option \<Rightarrow> submission_row" where
  "stored_row s locked now flagged = \<lparr>sb_sessionId = s, sb_contentHash = lk_contentHash locked, sb_lockedAnswers = locked,
     sb_submittedAt = now, sb_flaggedReason = flagged\<rparr>"

lemma submit_tx_new:
  assumes "submit_tx P frozen session flagged now stamp db = Inr (r, db')" "\<not> has_submitted db (sn_sessionId session)"
  obtains locked where
    "prepareSubmission (ph_submit P) (ph_encode P frozen) frozen (answer_js (held_by P db (sn_sessionId session)))
      (live_rosters P frozen (sn_sessionId session) db) = Inr locked"
    "getSubmission (dd_submissions db) (sn_sessionId session) = None"
    "dd_submissions db' = dd_submissions db @ [stored_row (sn_sessionId session) locked now flagged]"
    "r = receiptFrom (stored_row (sn_sessionId session) locked now flagged)"
    "dd_sessions db' = markSubmitted (dd_sessions db) (sn_sessionId session)"
    "dd_outbox db' = (if flagged = None then enqueue (ph_outbox P) (dd_outbox db) RESPONSE_SUBMITTED (submitted_payload P session locked now) stamp
       else dd_outbox db)"
    "dd_answers db' = dd_answers db" "dd_rosters db' = dd_rosters db"
proof -
  have "(case prepareSubmission (ph_submit P) (ph_encode P frozen) frozen (answer_js (held_by P db (sn_sessionId session)))
      (live_rosters P frozen (sn_sessionId session) db) of Inl errors \<Rightarrow> Inl (SubmissionInvalid errors)
    | Inr locked \<Rightarrow> (case insertSubmission (dd_submissions db) (stored_row (sn_sessionId session) locked now flagged) of
         None \<Rightarrow> Inl RespondFault
       | Some submissions \<Rightarrow> Inr (receiptFrom (stored_row (sn_sessionId session) locked now flagged),
           db\<lparr>dd_submissions := submissions, dd_sessions := markSubmitted (dd_sessions db) (sn_sessionId session),
              dd_outbox := (if flagged = None
                then enqueue (ph_outbox P) (dd_outbox db) RESPONSE_SUBMITTED (submitted_payload P session locked now) stamp
                else dd_outbox db)\<rparr>))) = Inr (r, db')"
    using assms unfolding submit_tx_def Let_def has_submitted_def stored_row_def live_rosters_def by simp
  then obtain locked submissions where
    "prepareSubmission (ph_submit P) (ph_encode P frozen) frozen (answer_js (held_by P db (sn_sessionId session)))
      (live_rosters P frozen (sn_sessionId session) db) = Inr locked"
    and ins: "insertSubmission (dd_submissions db) (stored_row (sn_sessionId session) locked now flagged) = Some submissions"
    and "r = receiptFrom (stored_row (sn_sessionId session) locked now flagged)"
    and "db' = db\<lparr>dd_submissions := submissions, dd_sessions := markSubmitted (dd_sessions db) (sn_sessionId session),
              dd_outbox := (if flagged = None
                then enqueue (ph_outbox P) (dd_outbox db) RESPONSE_SUBMITTED (submitted_payload P session locked now) stamp
                else dd_outbox db)\<rparr>"
    by (auto split: sum.splits option.splits)
  moreover from ins have "submissions = dd_submissions db @ [stored_row (sn_sessionId session) locked now flagged]"
      "getSubmission (dd_submissions db) (sn_sessionId session) = None"
    by (auto simp: insertSubmission_def getSubmission_None stored_row_def split: if_splits)
  ultimately show ?thesis by (intro that) simp_all
qed

lemma submit_again:
  assumes "submit_tx P frozen session flagged now stamp db = Inr (r, db')"
    "getSession (dd_sessions db) (sn_sessionId session) \<noteq> None"
  shows "submit_tx P frozen session flagged' later stamp' db' = Inr (r, db')"
proof (cases "has_submitted db (sn_sessionId session)")
  case True
  with assms have "stored_receipt db (sn_sessionId session) = Inr r \<and> db' = db"
    by (auto simp: submit_tx_def Let_def has_submitted_def throw_simps split: option.splits)
  with True show ?thesis by (simp add: submit_tx_def Let_def has_submitted_def throw_simps)
next
  case False
  obtain locked where rows: "getSubmission (dd_submissions db) (sn_sessionId session) = None"
    "dd_submissions db' = dd_submissions db @ [stored_row (sn_sessionId session) locked now flagged]"
    and r: "r = receiptFrom (stored_row (sn_sessionId session) locked now flagged)"
    and sessions: "dd_sessions db' = markSubmitted (dd_sessions db) (sn_sessionId session)"
    by (rule submit_tx_new [OF assms(1) False])
  have "has_submitted db' (sn_sessionId session)"
    using assms(2) by (auto simp: has_submitted_def sessions markSubmitted_def getSession_set_status)
  moreover have "stored_receipt db' (sn_sessionId session) = Inr r"
    using rows by (simp add: stored_receipt_def getSubmission_append r stored_row_def)
  ultimately show ?thesis by (simp add: submit_tx_def Let_def has_submitted_def throw_simps)
qed

section \<open>Links\<close>

text \<open>What is ever done to the rows of the links.\<close>

inductive links_step :: "secure_link_row list \<Rightarrow> secure_link_row list \<Rightarrow> bool" where
  Insert: "insertSecureLink links l fid expiry env oneTime now = Some links' \<Longrightarrow> links_step links links'"
| Consume: "links_step links (fst (consumeSecureLink links l now))"
| Revoke: "links_step links (fst (revokeSecureLink links l fid env now))"

definition spent :: "string \<Rightarrow> secure_link_row list \<Rightarrow> bool" where
  "spent l links \<longleftrightarrow> l \<in> sl_linkId ` set links \<and> (\<forall>r \<in> set links. \<not> consumable l r)"

lemma spent_map:
  assumes "spent l links" "\<And>r. sl_linkId (f r) = sl_linkId r" "\<And>r. consumable l (f r) \<Longrightarrow> consumable l r"
  shows "spent l (map f links)"
proof -
  have "set (map sl_linkId (map f links)) = set (map sl_linkId links)" by (simp add: assms(2) comp_def)
  then have "sl_linkId ` set (map f links) = sl_linkId ` set links" by (simp only: set_map)
  moreover have "\<not> consumable l r" if "r \<in> set (map f links)" for r
    using that assms(1,3) by (auto simp: spent_def)
  ultimately show ?thesis using assms(1) by (simp add: spent_def)
qed

lemma links_step_spent: "links_step links links' \<Longrightarrow> spent l links \<Longrightarrow> spent l links'"
proof (induction rule: links_step.induct)
  case (Insert links l' fid expiry env oneTime now links')
  then show ?case by (auto simp: insertSecureLink_def spent_def consumable_def split: if_splits)
next
  case (Consume links l' now)
  then show ?case unfolding consumeSecureLink_def update_row_def fst_conv
    by (rule spent_map) (auto simp: consumable_def split: if_splits)
next
  case (Revoke links l' fid env now)
  then show ?case unfolding revokeSecureLink_def update_row_def fst_conv
    by (rule spent_map) (auto simp: consumable_def split: if_splits)
qed

lemma links_run_spent: "links_step\<^sup>*\<^sup>* links links' \<Longrightarrow> spent l links \<Longrightarrow> spent l links'"
  by (induction rule: rtranclp_induct) (auto intro: links_step_spent)

lemma spent_not_consumed: "spent l links \<Longrightarrow> consumeSecureLink links l now = (links', r) \<Longrightarrow> r = None"
  by (auto simp: spent_def consumeSecureLink_def update_row_def find_None_iff)

lemma consumed_spent:
  assumes "consumeSecureLink links l now = (links', Some r)"
  shows "spent l links'"
proof -
  from assms obtain x where x: "List.find (consumable l) links = Some x"
    and links': "links' = map (\<lambda>r. if consumable l r then r\<lparr>sl_consumedAt := Some now\<rparr> else r) links"
    by (auto simp: consumeSecureLink_def update_row_def)
  from find_Some_iff_mem [OF x] have "l \<in> set (map sl_linkId links)" by (force simp: consumable_def)
  moreover have "map sl_linkId links' = map sl_linkId links" by (simp add: links')
  ultimately have "l \<in> sl_linkId ` set links'" by (metis set_map)
  moreover have "\<not> consumable l r" if "r \<in> set links'" for r
  proof -
    from that obtain y where y: "r = (if consumable l y then y\<lparr>sl_consumedAt := Some now\<rparr> else y)"
      unfolding links' set_map by blast
    have "\<not> consumable l (y\<lparr>sl_consumedAt := Some now\<rparr>)" by (simp add: consumable_def)
    then show ?thesis unfolding y by simp
  qed
  ultimately show ?thesis by (simp add: spent_def)
qed

lemma link_tx_spends:
  assumes "link_tx S R claims row now db = Inr db'" "lc_oneTime claims = Some True"
  shows "spent (lc_linkId claims) (sd_links db')"
proof -
  from assms obtain links r where consumed: "consumeSecureLink (sd_links db) (lc_linkId claims) now = (links, Some r)"
    and ins: "insert_session S R (db\<lparr>sd_links := links\<rparr>) row = Inr db'"
    by (auto simp: link_tx_def split: prod.splits option.splits)
  from ins have "sd_links db' = links" by (auto simp: insert_session_def split: option.splits)
  with consumed_spent [OF consumed] show ?thesis by simp
qed

lemma link_tx_spent:
  assumes "spent (lc_linkId claims) (sd_links db)" "lc_oneTime claims = Some True"
  shows "link_tx S R claims row now db = Inl LinkConsumed"
  using assms spent_not_consumed [OF assms(1)]
  by (auto simp: link_tx_def split: prod.splits option.splits)

text \<open>A token says the same whenever it is read, and whichever key it is read with.\<close>

lemma open_payload_same:
  "open_payload H p bytes now = Inr c \<Longrightarrow> open_payload H p bytes later = Inr c' \<Longrightarrow> c = c'"
  by (auto simp: open_payload_def err_def ok_def split: option.splits prod.splits if_splits)

lemma verifySecureLink_same:
  assumes "verifySecureLink H token keys now expected = Inr c" "verifySecureLink H token keys' later expected' = Inr c'"
  shows "c = c'"
proof -
  obtain claims where one: "verifyCompactToken H LinkPurpose token keys now = Inr claims"
      "LinkClaims (h_iso_datetime H) (JObj claims) = Some c"
    using verifySecureLink_ok [OF assms(1)] by metis
  obtain claims' where two: "verifyCompactToken H LinkPurpose token keys' later = Inr claims'"
      "LinkClaims (h_iso_datetime H) (JObj claims') = Some c'"
    using verifySecureLink_ok [OF assms(2)] by metis
  from one(1) two(1) have "claims = claims'" by (auto simp: verify_ok_iff dest: open_payload_same)
  with one(2) two(2) show ?thesis by simp
qed

lemma link_checks_claims:
  "link_checks S R db token passed now = Inr (claims, v) \<Longrightarrow> verifySecureLink (sh_token S) token (sh_linkKeys S) (Fin (of_int now)) None = Inr claims"
  by (auto simp: link_checks_def throw_simps split: sum.splits option.splits link_error.splits compact_token_error.splits)

lemma startFromSecureLink_tx:
  assumes "startFromSecureLink S R between db token passed draw now stamp = Inr (result, db')"
  obtains claims v row where "link_checks S R db token passed now = Inr (claims, v)" "link_tx S R claims row now (between db) = Inr db'"
  using assms by (auto simp: startFromSecureLink_def throw_simps Let_def split: option.splits)

text \<open>What one accepted answer adds to the ledger.\<close>

lemma applyOneAnswer_rows:
  assumes "applyOneAnswer P s held t stamp db = (None, db')"
  shows "if tg_value t = JNull \<and> map_of held (tg_key t) = None then at_rows (dd_answers db') = at_rows (dd_answers db)
    else \<exists>r. at_rows (dd_answers db') = at_rows (dd_answers db) @ [r] \<and> row_for P s t r"
  using assms
  by (auto simp: applyOneAnswer_def set_answers_def retractAnswer_def appendAnswer_def row_for_def row_cell_def
      split: if_splits sum.splits)

end
