(* ===== verification/DeliveryFacts.thy ===== *)
theory DeliveryFacts
  imports DeliveryPass
begin

text \<open>
  What a pass of the deliverer does to the rows: each row is left alone or processed once,
  enough room in the batch leaves none that could be claimed, and a row that may be sent is
  settled after as many passes as there are attempts.
\<close>

section \<open>One row\<close>

lemma backoff_pos: "0 < backoffDelayMs n"
  by (simp add: backoffDelayMs_def OUTBOX_BACKOFF_BASE_MS_def OUTBOX_BACKOFF_FACTOR_def OUTBOX_BACKOFF_CAP_MS_def)

lemma backoff_cap: "backoffDelayMs n \<le> OUTBOX_BACKOFF_CAP_MS"
  by (simp add: backoffDelayMs_def)

text \<open>The row keeps the mask of the signature, never the signature.\<close>

definition headers_masked :: "(string \<times> string) list option \<Rightarrow> bool" where
  "headers_masked hs \<longleftrightarrow> (case hs of None \<Rightarrow> True | Some l \<Rightarrow> map_of l ''x-qcms-signature'' = Some SIGNATURE_MASK)"

definition attempt_masked :: "delivery_attempt option \<Rightarrow> bool" where
  "attempt_masked a \<longleftrightarrow> (case a of None \<Rightarrow> True | Some x \<Rightarrow> headers_masked (da_requestHeaders x))"

definition processed :: "int \<Rightarrow> delivery_row \<Rightarrow> delivery_row \<Rightarrow> bool" where
  "processed now x y \<longleftrightarrow> (\<exists>a. attempt_masked a \<and> (y = delivery_done now a x \<or> (\<exists>e. y = delivery_failed e now a x)))"

lemma processed_frame:
  "processed now x y \<Longrightarrow> dv_id y = dv_id x \<and> dv_outboxId y = dv_outboxId x \<and> dv_webhookId y = dv_webhookId x \<and>
     dv_cancelledAt y = dv_cancelledAt x"
  by (auto simp: processed_def)

lemma processed_outcome:
  "processed now x y \<Longrightarrow> dv_deliveredAt x = None \<Longrightarrow>
     dv_deliveredAt y = Some now \<or>
     (dv_deliveredAt y = None \<and> dv_attempts y = dv_attempts x + 1 \<and> now < dv_nextAttemptAt y \<and>
      dv_nextAttemptAt y \<le> now + OUTBOX_BACKOFF_CAP_MS \<and>
      dv_deadLetteredAt y = (if OUTBOX_MAX_ATTEMPTS \<le> dv_attempts x + 1 then Some now else None))"
  using backoff_pos backoff_cap by (auto simp: processed_def)

lemma processed_unclaimable: "processed now x y \<Longrightarrow> dv_deliveredAt x = None \<Longrightarrow> \<not> claimable events hooks now y"
  by (drule processed_outcome) (auto simp: claimable_def delivery_open_def)

section \<open>One claim\<close>

lemma stored_headers_masked: "headers_masked (Some (stored_headers r))"
  by (simp add: headers_masked_def stored_headers_def update_conv')

lemma fetch_result_masked:
  "fetch_result H n now request = Delivered a \<Longrightarrow> attempt_masked (Some a)"
  "fetch_result H n now request = NotDelivered e a' \<Longrightarrow> attempt_masked a'"
  using stored_headers_masked [of request]
  by (auto simp: fetch_result_def attempt_of_def attempt_masked_def Let_def split: fetch_outcome.splits if_splits)

lemma deliverOne_masked:
  "fst (deliverOne H C d eventId n now) = Delivered a \<Longrightarrow> attempt_masked (Some a)"
  "fst (deliverOne H C d eventId n now) = NotDelivered e a' \<Longrightarrow> attempt_masked a'"
  by (auto simp: deliverOne_def Let_def attempt_masked_def [of None] split: sum.splits dest: fetch_result_masked)

lemma settle_effect:
  assumes "fst (deliverOne H C d eventId n now) = result"
  shows "\<exists>f. (\<forall>x. processed now x (f x)) \<and>
    fst (settle result i now rows) = map (\<lambda>x. if dv_id x = i then f x else x) rows"
proof (cases result)
  case (Delivered a)
  have "\<forall>x. processed now x (delivery_done now (Some a) x)"
    using deliverOne_masked(1) [of H C d eventId n now a] assms Delivered by (auto simp: processed_def)
  then show ?thesis by (intro exI [of _ "delivery_done now (Some a)"]) (simp add: Delivered settle_def markDeliveryDelivered_def update_row_def)
next
  case (NotDelivered e a)
  have "\<forall>x. processed now x (delivery_failed e now a x)"
    using deliverOne_masked(2) [of H C d eventId n now e a] assms NotDelivered by (auto simp: processed_def)
  then show ?thesis by (intro exI [of _ "delivery_failed e now a"]) (simp add: NotDelivered settle_def recordDeliveryFailure_def update_row_def)
qed

lemma claim_one:
  assumes "ordering_law arrange" "claimDueDeliveries arrange locked events hooks rows 1 now = d # ds"
  shows "\<exists>r \<in> set rows. claimable events hooks now r \<and> dv_id r \<notin> set locked \<and> due_of events hooks r = Some d"
proof -
  let ?rows = "filter (\<lambda>r. dv_id r \<notin> set locked) (arrange (filter (claimable events hooks now) rows))"
  have "set ?rows = {r \<in> set rows. claimable events hooks now r \<and> dv_id r \<notin> set locked}"
    using ordering_set [OF assms(1), of "filter (claimable events hooks now) rows"] by auto
  moreover obtain r where "r \<in> set ?rows" "due_of events hooks r = Some d"
    using assms(2) by (cases ?rows) (auto simp: claimDueDeliveries_def List.map_filter_simps split: option.splits)
  ultimately show ?thesis by blast
qed

lemma claim_none:
  assumes "ordering_law arrange" "claimDueDeliveries arrange locked events hooks rows 1 now = []"
    "r \<in> set rows" "dv_id r \<notin> set locked"
  shows "\<not> claimable events hooks now r"
proof
  assume r: "claimable events hooks now r"
  let ?rows = "filter (\<lambda>r. dv_id r \<notin> set locked) (arrange (filter (claimable events hooks now) rows))"
  have rows: "set ?rows = {r \<in> set rows. claimable events hooks now r \<and> dv_id r \<notin> set locked}"
    using ordering_set [OF assms(1), of "filter (claimable events hooks now) rows"] by auto
  then have "r \<in> set ?rows" using r assms(3,4) by blast
  then obtain x xs where x: "?rows = x # xs" by (cases ?rows) auto
  then have "claimable events hooks now x" using rows by auto
  then obtain d where "due_of events hooks x = Some d" using claimable_due by blast
  with x assms(2) show False by (simp add: claimDueDeliveries_def List.map_filter_simps)
qed

lemma deliver_next_effect:
  assumes "ordering_law (dh_deliveries H)" "deliver_next H C id_text locked now s = Some (s', out)"
  shows "\<exists>r d f new. r \<in> set (deliveries_of (ps_db s)) \<and>
    claimable (events_of (ps_db s)) (dd_webhooks (ps_db s)) now r \<and> dv_id r \<notin> set locked \<and>
    due_of (events_of (ps_db s)) (dd_webhooks (ps_db s)) r = Some d \<and> (\<forall>x. processed now x (f x)) \<and>
    ps_db s' = set_deliveries (map (\<lambda>x. if dv_id x = dv_id r then f x else x) (deliveries_of (ps_db s))) (ps_db s) \<and>
    ps_sends s' = ps_sends s @ new \<and> (new = [] \<or> (\<exists>q. new = [(d, q)]))"
proof -
  obtain d ds where claim: "claimDueDeliveries (dh_deliveries H) locked (events_of (ps_db s)) (dd_webhooks (ps_db s))
      (deliveries_of (ps_db s)) 1 now = d # ds"
    using assms(2) by (auto simp: deliver_next_def split: list.splits)
  obtain result request where one: "deliverOne H C d (id_text (du_outboxId d)) (length (ps_sends s)) now = (result, request)"
    by (cases "deliverOne H C d (id_text (du_outboxId d)) (length (ps_sends s)) now")
  obtain r where r: "r \<in> set (deliveries_of (ps_db s))" "claimable (events_of (ps_db s)) (dd_webhooks (ps_db s)) now r"
      "dv_id r \<notin> set locked" "due_of (events_of (ps_db s)) (dd_webhooks (ps_db s)) r = Some d"
    using claim_one [OF assms(1) claim] by blast
  then have i: "du_deliveryId d = dv_id r" by (auto simp: due_of_def split: option.splits)
  obtain f where f: "\<forall>x. processed now x (f x)" "fst (settle result (dv_id r) now (deliveries_of (ps_db s))) =
      map (\<lambda>x. if dv_id x = dv_id r then f x else x) (deliveries_of (ps_db s))"
    using settle_effect [of H C d "id_text (du_outboxId d)" "length (ps_sends s)" now result "dv_id r" "deliveries_of (ps_db s)"]
      one by auto
  have "ps_db s' = set_deliveries (fst (settle result (dv_id r) now (deliveries_of (ps_db s)))) (ps_db s)"
    "ps_sends s' = ps_sends s @ (case request of None \<Rightarrow> [] | Some q \<Rightarrow> [(d, q)])"
    using assms(2) unfolding deliver_next_def claim by (auto simp: one i Let_def split: prod.splits)
  moreover have "(case request of None \<Rightarrow> [] | Some q \<Rightarrow> [(d, q)]) = [] \<or> (\<exists>q. (case request of None \<Rightarrow> [] | Some q \<Rightarrow> [(d, q)]) = [(d, q)])"
    by (cases request) auto
  ultimately show ?thesis using r f by (metis (no_types, lifting))
qed

lemma deliver_next_none:
  assumes "ordering_law (dh_deliveries H)" "deliver_next H C id_text locked now s = None"
    "r \<in> set (deliveries_of (ps_db s))" "dv_id r \<notin> set locked"
  shows "\<not> claimable (events_of (ps_db s)) (dd_webhooks (ps_db s)) now r"
proof -
  have "claimDueDeliveries (dh_deliveries H) locked (events_of (ps_db s)) (dd_webhooks (ps_db s))
      (deliveries_of (ps_db s)) 1 now = []"
    using assms(2) by (auto simp: deliver_next_def Let_def split: list.splits prod.splits)
  from claim_none [OF assms(1) this assms(3,4)] show ?thesis .
qed

section \<open>The batch\<close>

lemma set_deliveries_simps [simp]:
  "deliveries_of (set_deliveries rows db) = rows" "events_of (set_deliveries rows db) = events_of db"
  "dd_webhooks (set_deliveries rows db) = dd_webhooks db"
  "set_deliveries rows' (set_deliveries rows db) = set_deliveries rows' db"
  "set_deliveries (deliveries_of db) db = db"
  by (simp_all add: set_deliveries_def)

text \<open>Each row of the one list is left alone or processed, if it was claimable, in the other.\<close>

definition row_step :: "outbox_row list \<Rightarrow> webhook_row list \<Rightarrow> int \<Rightarrow> delivery_row \<Rightarrow> delivery_row \<Rightarrow> bool" where
  "row_step events hooks now x y \<longleftrightarrow> y = x \<or> (claimable events hooks now x \<and> processed now x y)"

lemma claimable_undelivered: "claimable events hooks now x \<Longrightarrow> dv_deliveredAt x = None"
  by (simp add: claimable_def delivery_open_def)

lemma row_step_trans:
  "row_step events hooks now x y \<Longrightarrow> row_step events hooks now y z \<Longrightarrow> row_step events hooks now x z"
  using processed_unclaimable [OF _ claimable_undelivered] by (auto simp: row_step_def)

lemma row_step_id: "row_step events hooks now x y \<Longrightarrow> dv_id y = dv_id x \<and> dv_outboxId y = dv_outboxId x \<and> dv_webhookId y = dv_webhookId x"
  by (auto simp: row_step_def dest: processed_frame)

lemma row_step_claimable: "row_step events hooks now x y \<Longrightarrow> claimable events hooks now y \<Longrightarrow> claimable events hooks now x"
  using processed_unclaimable [OF _ claimable_undelivered] by (auto simp: row_step_def)

lemma rows_trans:
  "list_all2 (row_step events hooks now) xs ys \<Longrightarrow> list_all2 (row_step events hooks now) ys zs \<Longrightarrow>
     list_all2 (row_step events hooks now) xs zs"
  by (rule list_all2_trans [OF row_step_trans])

lemma rows_ids: "list_all2 (row_step events hooks now) xs ys \<Longrightarrow> map dv_id ys = map dv_id xs"
  by (induction rule: list_all2_induct) (auto dest: row_step_id)

lemma one_row_step:
  assumes "distinct (map dv_id rows)" "r \<in> set rows" "claimable events hooks now r" "\<forall>x. processed now x (f x)"
  shows "list_all2 (row_step events hooks now) rows (map (\<lambda>x. if dv_id x = dv_id r then f x else x) rows)"
proof -
  have "x = r" if "x \<in> set rows" "dv_id x = dv_id r" for x
    using that assms(1,2) by (auto simp: distinct_map inj_on_def)
  with assms(3,4) have "row_step events hooks now x (if dv_id x = dv_id r then f x else x)" if "x \<in> set rows" for x
    using that by (auto simp: row_step_def)
  then show ?thesis by (simp add: list_all2_map2 list.rel_refl_strong)
qed

lemma filter_shrinks:
  assumes "list_all2 R xs ys" "\<And>x y. R x y \<Longrightarrow> P y \<Longrightarrow> P x"
  shows "length (filter P ys) \<le> length (filter P xs)"
    "(\<exists>(x, y) \<in> set (zip xs ys). P x \<and> \<not> P y) \<Longrightarrow> length (filter P ys) < length (filter P xs)"
proof -
  show le: "length (filter P ys) \<le> length (filter P xs)"
    using assms(1) by (induction rule: list_all2_induct) (use assms(2) in auto)
  show "(\<exists>(x, y) \<in> set (zip xs ys). P x \<and> \<not> P y) \<Longrightarrow> length (filter P ys) < length (filter P xs)"
    using assms(1)
  proof (induction rule: list_all2_induct)
    case (Cons x xs y ys)
    have "length (filter P ys) \<le> length (filter P xs)"
      using Cons.hyps(2) by (induction rule: list_all2_induct) (use assms(2) in auto)
    with Cons assms(2) show ?case by auto
  qed simp
qed

lemma deliver_next_rows:
  assumes "ordering_law (dh_deliveries H)" "deliver_next H C id_text locked now s = Some (s', out)"
    "distinct (map dv_id (deliveries_of (ps_db s)))"
  shows "list_all2 (row_step (events_of (ps_db s)) (dd_webhooks (ps_db s)) now) (deliveries_of (ps_db s)) (deliveries_of (ps_db s'))"
    "length (filter (claimable (events_of (ps_db s)) (dd_webhooks (ps_db s)) now) (deliveries_of (ps_db s'))) <
     length (filter (claimable (events_of (ps_db s)) (dd_webhooks (ps_db s)) now) (deliveries_of (ps_db s)))"
    "ps_db s' = set_deliveries (deliveries_of (ps_db s')) (ps_db s)"
proof -
  let ?E = "events_of (ps_db s)" and ?W = "dd_webhooks (ps_db s)" and ?rows = "deliveries_of (ps_db s)"
  obtain r f where r: "r \<in> set ?rows" "claimable ?E ?W now r" and f: "\<forall>x. processed now x (f x)" and
      db: "ps_db s' = set_deliveries (map (\<lambda>x. if dv_id x = dv_id r then f x else x) ?rows) (ps_db s)"
    using deliver_next_effect [OF assms(1,2)] by blast
  have rows: "deliveries_of (ps_db s') = map (\<lambda>x. if dv_id x = dv_id r then f x else x) ?rows"
    by (simp add: db set_deliveries_def)
  show all: "list_all2 (row_step ?E ?W now) ?rows (deliveries_of (ps_db s'))"
    unfolding rows by (rule one_row_step [OF assms(3) r f])
  have "(r, f r) \<in> set (zip ?rows (map (\<lambda>x. if dv_id x = dv_id r then f x else x) ?rows))"
    using r(1) by (force simp: set_zip in_set_conv_nth)
  moreover have "\<not> claimable ?E ?W now (f r)"
    using f processed_unclaimable [OF _ claimable_undelivered [OF r(2)]] by blast
  ultimately have "\<exists>(x, y) \<in> set (zip ?rows (deliveries_of (ps_db s'))). claimable ?E ?W now x \<and> \<not> claimable ?E ?W now y"
    unfolding rows using r(2) by blast
  then show "length (filter (claimable ?E ?W now) (deliveries_of (ps_db s'))) < length (filter (claimable ?E ?W now) ?rows)"
    by (rule filter_shrinks(2) [OF all, rotated]) (rule row_step_claimable)
  show "ps_db s' = set_deliveries (deliveries_of (ps_db s')) (ps_db s)"
    unfolding rows db by simp
qed

lemma deliverDue_rows:
  assumes "ordering_law (dh_deliveries H)" "distinct (map dv_id (deliveries_of (ps_db s)))"
  shows "list_all2 (row_step (events_of (ps_db s)) (dd_webhooks (ps_db s)) now) (deliveries_of (ps_db s))
      (deliveries_of (ps_db (fst (deliverDue H C id_text locked now i s m)))) \<and>
    ps_db (fst (deliverDue H C id_text locked now i s m)) =
      set_deliveries (deliveries_of (ps_db (fst (deliverDue H C id_text locked now i s m)))) (ps_db s)"
  using assms(2)
proof (induction i arbitrary: s m)
  case 0
  show ?case by (simp add: list.rel_refl_strong row_step_def set_deliveries_def)
next
  case (Suc i)
  show ?case
  proof (cases "deliver_next H C id_text locked now s")
    case None
    then show ?thesis by (simp add: list.rel_refl_strong row_step_def set_deliveries_def)
  next
    case (Some p)
    obtain s' out where p: "p = (s', out)" by (cases p)
    note step = deliver_next_rows [OF assms(1) Some [unfolded p] Suc.prems]
    have ids: "distinct (map dv_id (deliveries_of (ps_db s')))" using rows_ids [OF step(1)] Suc.prems by simp
    have same: "events_of (ps_db s') = events_of (ps_db s)" "dd_webhooks (ps_db s') = dd_webhooks (ps_db s)"
      by (subst step(3), simp add: set_deliveries_def)+
    let ?u = "ps_db (fst (deliverDue H C id_text locked now i s' (count_outcome out m)))"
    note IH = Suc.IH [OF ids, of "count_outcome out m", unfolded same]
    have "?u = set_deliveries (deliveries_of ?u) (ps_db s)"
      using IH step(3) set_deliveries_simps(4) by metis
    then show ?thesis using IH rows_trans [OF step(1)] by (simp add: Some p)
  qed
qed

text \<open>A batch with room for every claimable row leaves none of them.\<close>

lemma deliverDue_clears:
  assumes "ordering_law (dh_deliveries H)" "distinct (map dv_id (deliveries_of (ps_db s)))"
    "length (filter (claimable (events_of (ps_db s)) (dd_webhooks (ps_db s)) now) (deliveries_of (ps_db s))) \<le> i"
  shows "\<forall>y \<in> set (deliveries_of (ps_db (fst (deliverDue H C id_text [] now i s m)))).
    \<not> claimable (events_of (ps_db s)) (dd_webhooks (ps_db s)) now y"
  using assms(2,3)
proof (induction i arbitrary: s m)
  case 0
  then show ?case by (auto simp: filter_empty_conv)
next
  case (Suc i)
  show ?case
  proof (cases "deliver_next H C id_text [] now s")
    case None
    from deliver_next_none [OF assms(1) this] show ?thesis by (simp add: None)
  next
    case (Some p)
    obtain s' out where p: "p = (s', out)" by (cases p)
    note step = deliver_next_rows [OF assms(1) Some [unfolded p] Suc.prems(1)]
    have ids: "distinct (map dv_id (deliveries_of (ps_db s')))" using rows_ids [OF step(1)] Suc.prems by simp
    have same: "events_of (ps_db s') = events_of (ps_db s)" "dd_webhooks (ps_db s') = dd_webhooks (ps_db s)"
      by (subst step(3), simp)+
    show ?thesis using Suc.IH [OF ids, of "count_outcome out m", unfolded same] step(2) Suc.prems(2) by (simp add: Some p)
  qed
qed

section \<open>Fanning out\<close>

definition delivery_pair :: "delivery_row \<Rightarrow> nat \<times> string" where
  "delivery_pair r = (dv_outboxId r, dv_webhookId r)"

text \<open>The two unique keys of the table, the first kept by the draws of the database.\<close>

definition deliveries_sound :: "uuid_source \<Rightarrow> delivery_table \<Rightarrow> bool" where
  "deliveries_sound uuid t \<longleftrightarrow> distinct (map dv_id (dt_rows t)) \<and> distinct (map delivery_pair (dt_rows t)) \<and>
     dv_id ` set (dt_rows t) \<subseteq> uuid ` {..<dt_draws t}"

definition new_row :: "delivery_row \<Rightarrow> int \<Rightarrow> bool" where
  "new_row r now \<longleftrightarrow> (\<exists>i o_id w. r = new_delivery i o_id w now now)"

lemma insertDelivery_effect:
  assumes "deliveries_sound uuid t" "inj uuid" "t' = insertDelivery uuid t o_id w now now"
  shows "deliveries_sound uuid t'" "\<exists>new. dt_rows t' = dt_rows t @ new \<and> (\<forall>r \<in> set new. new_row r now)"
    "\<exists>r \<in> set (dt_rows t'). delivery_pair r = (o_id, w)"
proof -
  let ?hit = "list_ex (\<lambda>r. dv_outboxId r = o_id \<and> dv_webhookId r = w) (dt_rows t)"
  let ?new = "new_delivery (uuid (dt_draws t)) o_id w now now"
  have t': "t' = (if ?hit then t\<lparr>dt_draws := dt_draws t + 1\<rparr>
      else t\<lparr>dt_rows := dt_rows t @ [?new], dt_draws := dt_draws t + 1\<rparr>)"
    by (simp add: assms(3) insertDelivery_def)
  have more_draws: "uuid ` {..<dt_draws t} \<subseteq> uuid ` {..<dt_draws t + 1}" by auto
  have unused: "uuid (dt_draws t) \<notin> dv_id ` set (dt_rows t)"
    using assms(1,2) by (fastforce simp: deliveries_sound_def inj_def)
  have no_pair: "\<not> ?hit \<Longrightarrow> (o_id, w) \<notin> delivery_pair ` set (dt_rows t)" by (auto simp: list_ex_iff delivery_pair_def)
  have new: "dv_id ?new = uuid (dt_draws t)" "delivery_pair ?new = (o_id, w)" by (simp_all add: new_delivery_def delivery_pair_def)
  show "deliveries_sound uuid t'"
  proof (cases ?hit)
    case True
    with assms(1) more_draws show ?thesis unfolding t' deliveries_sound_def by auto
  next
    case False
    with assms(1) more_draws unused no_pair new show ?thesis unfolding t' deliveries_sound_def by auto
  qed
  show "\<exists>new. dt_rows t' = dt_rows t @ new \<and> (\<forall>r \<in> set new. new_row r now)"
    by (cases ?hit) (auto simp: t' new_row_def)
  show "\<exists>r \<in> set (dt_rows t'). delivery_pair r = (o_id, w)"
    using new(2) by (cases ?hit) (auto simp: t' list_ex_iff delivery_pair_def)
qed

text \<open>What fanning out leaves: rows are only added, and nothing else changes.\<close>

definition fanned :: "uuid_source \<Rightarrow> int \<Rightarrow> data_db \<Rightarrow> data_db \<Rightarrow> bool" where
  "fanned uuid now db db' \<longleftrightarrow> deliveries_sound uuid (dd_deliveries db') \<and>
     (\<exists>new. deliveries_of db' = deliveries_of db @ new \<and> (\<forall>r \<in> set new. new_row r now)) \<and>
     db' = db\<lparr>dd_deliveries := dd_deliveries db'\<rparr>"

lemma fanned_refl: "deliveries_sound uuid (dd_deliveries db) \<Longrightarrow> fanned uuid now db db"
  by (simp add: fanned_def)

lemma fanned_trans: "fanned uuid now a b \<Longrightarrow> fanned uuid now b c \<Longrightarrow> fanned uuid now a c"
  unfolding fanned_def by (elim conjE exE) (intro conjI, simp_all, metis Un_iff append.assoc set_append, (cases a; cases b; cases c; simp))

lemma fan_out_one_effect:
  assumes "deliveries_sound (dh_uuid H) (dd_deliveries (fst st))" "inj (dh_uuid H)"
  shows "fanned (dh_uuid H) now (fst st) (fst (fan_out_one H event now st hook))"
    "wh_active hook \<Longrightarrow> \<exists>r \<in> set (deliveries_of (fst (fan_out_one H event now st hook))).
       delivery_pair r = (ob_id event, wh_webhookId hook)"
  using insertDelivery_effect [OF assms refl, of "ob_id event" "wh_webhookId hook" now] assms(1)
  by (auto simp: fan_out_one_def fanned_def)

lemma fan_out_all:
  assumes "deliveries_sound (dh_uuid H) (dd_deliveries (fst st))" "inj (dh_uuid H)"
  shows "fanned (dh_uuid H) now (fst st) (fst (foldl (fan_out_one H event now) st hooks)) \<and>
    (\<forall>hook \<in> set hooks. wh_active hook \<longrightarrow>
      (\<exists>r \<in> set (deliveries_of (fst (foldl (fan_out_one H event now) st hooks))).
         delivery_pair r = (ob_id event, wh_webhookId hook)))"
  using assms(1)
proof (induction hooks arbitrary: st)
  case Nil
  then show ?case by (simp add: fanned_refl)
next
  case (Cons hook hooks)
  let ?st = "fan_out_one H event now st hook"
  note one = fan_out_one_effect [OF Cons.prems assms(2), where now = now and event = event and hook = hook]
  have "deliveries_sound (dh_uuid H) (dd_deliveries (fst ?st))" using one(1) by (simp add: fanned_def)
  note IH = Cons.IH [OF this]
  have keeps: "set (deliveries_of (fst ?st)) \<subseteq> set (deliveries_of (fst (foldl (fan_out_one H event now) ?st hooks)))"
    using IH by (auto simp: fanned_def)
  show ?case using IH one(2) keeps fanned_trans [OF one(1)] by (simp, blast)
qed

section \<open>A whole pass\<close>

definition same_event :: "outbox_row \<Rightarrow> outbox_row \<Rightarrow> bool" where
  "same_event e e' \<longleftrightarrow> ob_id e' = ob_id e \<and> ob_eventType e' = ob_eventType e \<and> ob_payload e' = ob_payload e \<and>
     ob_payloadRedactedAt e' = ob_payloadRedactedAt e"

lemma same_event_refl [simp]: "same_event e e"
  by (simp add: same_event_def)

lemma same_events_trans:
  "list_all2 same_event a b \<Longrightarrow> list_all2 same_event b c \<Longrightarrow> list_all2 same_event a c"
  by (erule (1) list_all2_trans [rotated]) (simp add: same_event_def)

lemma event_of_same:
  "list_all2 same_event es es' \<Longrightarrow> rel_option same_event (event_of es r) (event_of es' r)"
  by (induction rule: list_all2_induct) (auto simp: event_of_def same_event_def)

lemma claimable_same: "list_all2 same_event es es' \<Longrightarrow> claimable es' hooks now r \<longleftrightarrow> claimable es hooks now r"
  using event_of_same [of es es' r] by (auto simp: claimable_def same_event_def split: option.splits)

lemma map_same_event:
  "(\<And>e. same_event e (f e)) \<Longrightarrow> list_all2 same_event es (map f es)"
  by (simp add: list_all2_map2 list.rel_refl_strong)

text \<open>What materializing leaves.\<close>

definition spread :: "uuid_source \<Rightarrow> int \<Rightarrow> data_db \<Rightarrow> data_db \<Rightarrow> bool" where
  "spread uuid now db db' \<longleftrightarrow> deliveries_sound uuid (dd_deliveries db') \<and>
     (\<exists>new. deliveries_of db' = deliveries_of db @ new \<and> (\<forall>r \<in> set new. new_row r now)) \<and>
     list_all2 same_event (events_of db) (events_of db') \<and> dd_webhooks db' = dd_webhooks db"

lemma spread_trans: "spread uuid now a b \<Longrightarrow> spread uuid now b c \<Longrightarrow> spread uuid now a c"
  unfolding spread_def by (elim conjE exE) (intro conjI, simp_all, metis Un_iff append.assoc set_append, erule (1) same_events_trans)

lemma fanned_spread: "fanned uuid now a b \<Longrightarrow> spread uuid now a b"
proof -
  assume fan: "fanned uuid now a b"
  then have "events_of b = events_of a" "dd_webhooks b = dd_webhooks a"
    unfolding fanned_def by (cases a; cases b; simp)+
  with fan show ?thesis by (simp add: fanned_def spread_def list.rel_refl_strong)
qed

lemma set_events_simps [simp]:
  "events_of (set_events rows db) = rows" "deliveries_of (set_events rows db) = deliveries_of db"
  "dd_deliveries (set_events rows db) = dd_deliveries db" "dd_webhooks (set_events rows db) = dd_webhooks db"
  by (simp_all add: set_events_def)

lemma fanOutEvent_effect:
  assumes "deliveries_sound (dh_uuid H) (dd_deliveries db)" "inj (dh_uuid H)"
  shows "fanned (dh_uuid H) now db (fst (fanOutEvent H db event now))"
  using fan_out_all [of H "(db, 0)", OF _ assms(2)] assms(1)
  by (simp add: fanOutEvent_def fanned_refl split: option.splits)

lemma fanOutEvent_reaches:
  assumes "deliveries_sound (dh_uuid H) (dd_deliveries db)" "inj (dh_uuid H)" "ordering_law (dh_hooks H)"
    "ob_eventType event = RESPONSE_SUBMITTED" "resolveFormId (ob_payload event) = Some (wh_formId hook)"
    "hook \<in> set (dd_webhooks db)" "wh_active hook"
  shows "\<exists>r \<in> set (deliveries_of (fst (fanOutEvent H db event now))). delivery_pair r = (ob_id event, wh_webhookId hook)"
proof -
  have "hook \<in> set (listWebhooks (dh_hooks H) (dd_webhooks db) (wh_formId hook))"
    using assms(6) by (simp add: listWebhooks_def ordering_set [OF assms(3)])
  with fan_out_all [of H "(db, 0)" now event "listWebhooks (dh_hooks H) (dd_webhooks db) (wh_formId hook)", OF _ assms(2)] assms
  show ?thesis by (simp add: fanOutEvent_def)
qed

lemma materialize_one_effect:
  assumes "deliveries_sound (dh_uuid H) (dd_deliveries (fst st))" "inj (dh_uuid H)"
  shows "spread (dh_uuid H) now (fst st) (fst (materialize_one H now st event))"
proof -
  let ?db = "fst (fanOutEvent H (fst st) event now)"
  have "spread (dh_uuid H) now (fst st) ?db" by (rule fanned_spread [OF fanOutEvent_effect [OF assms]])
  moreover have "spread (dh_uuid H) now ?db (fst (materialize_one H now st event))"
    using calculation by (simp add: materialize_one_def Let_def spread_def markDelivered_def update_row_def)
      (rule map_same_event, simp add: same_event_def)
  ultimately show ?thesis by (rule spread_trans)
qed

lemma materialize_all:
  assumes "deliveries_sound (dh_uuid H) (dd_deliveries (fst st))" "inj (dh_uuid H)"
  shows "spread (dh_uuid H) now (fst st) (fst (foldl (materialize_one H now) st es))"
  using assms(1)
proof (induction es arbitrary: st)
  case Nil
  then show ?case by (simp add: spread_def list.rel_refl_strong)
next
  case (Cons e es)
  note one = materialize_one_effect [OF Cons.prems assms(2), where now = now and event = e]
  then have "deliveries_sound (dh_uuid H) (dd_deliveries (fst (materialize_one H now st e)))" by (simp add: spread_def)
  from spread_trans [OF one Cons.IH [OF this]] show ?case by simp
qed

lemma materialize_reaches:
  assumes "deliveries_sound (dh_uuid H) (dd_deliveries (fst st))" "inj (dh_uuid H)" "ordering_law (dh_hooks H)"
    "e \<in> set es" "ob_eventType e = RESPONSE_SUBMITTED" "resolveFormId (ob_payload e) = Some (wh_formId hook)"
    "hook \<in> set (dd_webhooks (fst st))" "wh_active hook"
  shows "\<exists>r \<in> set (deliveries_of (fst (foldl (materialize_one H now) st es))). delivery_pair r = (ob_id e, wh_webhookId hook)"
  using assms(1,4,7)
proof (induction es arbitrary: st)
  case (Cons x es)
  let ?st = "materialize_one H now st x"
  note one = materialize_one_effect [OF Cons.prems(1) assms(2), where now = now and event = x]
  then have sound: "deliveries_sound (dh_uuid H) (dd_deliveries (fst ?st))" and hooks: "dd_webhooks (fst ?st) = dd_webhooks (fst st)"
    by (simp_all add: spread_def)
  show ?case
  proof (cases "x = e")
    case True
    have "\<exists>r \<in> set (deliveries_of (fst ?st)). delivery_pair r = (ob_id e, wh_webhookId hook)"
      using fanOutEvent_reaches [OF Cons.prems(1) assms(2,3,5,6) Cons.prems(3) assms(8), of now]
      by (simp add: materialize_one_def Let_def True)
    moreover have "set (deliveries_of (fst ?st)) \<subseteq> set (deliveries_of (fst (foldl (materialize_one H now) ?st es)))"
      using materialize_all [OF sound assms(2), of now es] by (auto simp: spread_def)
    ultimately show ?thesis by (simp, blast)
  next
    case False
    with Cons.prems hooks show ?thesis by (simp, intro Cons.IH [OF sound]) auto
  qed
qed simp

lemma claimable_count:
  assumes "distinct (map delivery_pair rows)"
  shows "length (filter (claimable events hooks now) rows) \<le> length events * length hooks"
proof -
  let ?rows = "filter (claimable events hooks now) rows"
  have "delivery_pair r \<in> ob_id ` set events \<times> wh_webhookId ` set hooks" if "claimable events hooks now r" for r
    using that by (auto simp: claimable_def delivery_pair_def event_of_def hook_of_def image_iff
      split: option.splits dest!: find_Some_iff_mem; metis)
  then have sub: "delivery_pair ` set ?rows \<subseteq> ob_id ` set events \<times> wh_webhookId ` set hooks" by (intro image_subsetI) simp
  have "distinct (map delivery_pair ?rows)" using assms by (simp add: distinct_map_filter)
  then have "length ?rows = card (delivery_pair ` set ?rows)" by (metis distinct_card length_map set_map)
  also have "\<dots> \<le> card (ob_id ` set events \<times> wh_webhookId ` set hooks)" by (rule card_mono [OF _ sub]) simp
  also have "\<dots> \<le> length events * length hooks"
    unfolding card_cartesian_product by (intro mult_le_mono order.trans [OF card_image_le card_length]) simp_all
  finally show ?thesis .
qed

text \<open>What the model asks of the database and of the size of a batch.\<close>

definition delivery_laws :: "delivery_host \<Rightarrow> bool" where
  "delivery_laws H \<longleftrightarrow> inj (dh_uuid H) \<and> ordering_law (dh_events H) \<and> ordering_law (dh_hooks H) \<and> ordering_law (dh_deliveries H)"

definition batch_covers :: "delivery_config \<Rightarrow> data_db \<Rightarrow> bool" where
  "batch_covers C db \<longleftrightarrow> length (events_of db) * length (dd_webhooks db) \<le> dc_deliveryBatchSize C"

lemma materialize_effect:
  assumes "delivery_laws H" "deliveries_sound (dh_uuid H) (dd_deliveries db)"
  shows "spread (dh_uuid H) now db (fst (materialize H C locked db now))"
  using materialize_all [of H "(db, 0)"] assms by (simp add: materialize_def delivery_laws_def)

lemma runDeliveryPass_db:
  "ps_db (fst (runDeliveryPass H C id_text le locked now s)) =
     ps_db (fst (deliverDue H C id_text locked now (dc_deliveryBatchSize C) (s\<lparr>ps_db := fst (materialize H C le (ps_db s) now)\<rparr>)
       \<lparr>dm_materialized = snd (materialize H C le (ps_db s) now), dm_claimed = 0, dm_delivered = 0, dm_failed = 0, dm_deadLettered = 0\<rparr>))"
  by (simp add: runDeliveryPass_def split: prod.splits)

lemma pass_effect:
  assumes "delivery_laws H" "deliveries_sound (dh_uuid H) (dd_deliveries (ps_db s))"
    "ps_db (fst (runDeliveryPass H C id_text le locked now s)) = db'"
  shows "deliveries_sound (dh_uuid H) (dd_deliveries db')"
    "list_all2 same_event (events_of (ps_db s)) (events_of db')" "dd_webhooks db' = dd_webhooks (ps_db s)"
    "\<exists>rows. list_all2 (row_step (events_of db') (dd_webhooks db') now) rows (deliveries_of db') \<and>
       rows = deliveries_of (fst (materialize H C le (ps_db s) now))"
    "locked = [] \<Longrightarrow> batch_covers C (ps_db s) \<Longrightarrow>
       \<forall>y \<in> set (deliveries_of db'). \<not> claimable (events_of db') (dd_webhooks db') now y"
proof -
  let ?mid = "fst (materialize H C le (ps_db s) now)"
  let ?s = "s\<lparr>ps_db := ?mid\<rparr>"
  let ?m = "\<lparr>dm_materialized = snd (materialize H C le (ps_db s) now), dm_claimed = 0, dm_delivered = 0, dm_failed = 0, dm_deadLettered = 0\<rparr>"
  have order: "ordering_law (dh_deliveries H)" using assms(1) by (simp add: delivery_laws_def)
  have mid: "spread (dh_uuid H) now (ps_db s) ?mid" by (rule materialize_effect [OF assms(1,2)])
  then have sound: "deliveries_sound (dh_uuid H) (dd_deliveries ?mid)" by (simp add: spread_def)
  then have ids: "distinct (map dv_id (deliveries_of (ps_db ?s)))" by (simp add: deliveries_sound_def)
  have db': "db' = ps_db (fst (deliverDue H C id_text locked now (dc_deliveryBatchSize C) ?s ?m))"
    using assms(3) by (simp add: runDeliveryPass_db)
  have due: "list_all2 (row_step (events_of ?mid) (dd_webhooks ?mid) now) (deliveries_of ?mid) (deliveries_of db')"
      "db' = set_deliveries (deliveries_of db') ?mid"
    using deliverDue_rows [OF order ids, of now C id_text locked "dc_deliveryBatchSize C" ?m] unfolding db' by simp_all
  have same: "events_of db' = events_of ?mid" "dd_webhooks db' = dd_webhooks ?mid" "dt_draws (dd_deliveries db') = dt_draws (dd_deliveries ?mid)"
    by (subst due(2), simp add: set_deliveries_def)+
  have "map dv_id (deliveries_of db') = map dv_id (deliveries_of ?mid)" by (rule rows_ids [OF due(1)])
  moreover have "map delivery_pair (deliveries_of db') = map delivery_pair (deliveries_of ?mid)"
    using due(1) by (induction rule: list_all2_induct) (auto simp: delivery_pair_def dest: row_step_id)
  ultimately show "deliveries_sound (dh_uuid H) (dd_deliveries db')"
    using sound same(3) by (simp add: deliveries_sound_def flip: set_map)
  show "list_all2 same_event (events_of (ps_db s)) (events_of db')" "dd_webhooks db' = dd_webhooks (ps_db s)"
    using mid same by (simp_all add: spread_def)
  show "\<exists>rows. list_all2 (row_step (events_of db') (dd_webhooks db') now) rows (deliveries_of db') \<and> rows = deliveries_of ?mid"
    using due(1) same by simp
  assume "locked = []" and covers: "batch_covers C (ps_db s)"
  have "length (events_of ?mid) = length (events_of (ps_db s))" "dd_webhooks ?mid = dd_webhooks (ps_db s)"
    using mid by (auto simp: spread_def dest: list_all2_lengthD)
  then have "length (filter (claimable (events_of ?mid) (dd_webhooks ?mid) now) (deliveries_of ?mid)) \<le> dc_deliveryBatchSize C"
    using claimable_count [of "deliveries_of ?mid" "events_of ?mid" "dd_webhooks ?mid" now] sound covers
    by (simp add: deliveries_sound_def batch_covers_def)
  then show "\<forall>y \<in> set (deliveries_of db'). \<not> claimable (events_of db') (dd_webhooks db') now y"
    unfolding same using deliverDue_clears [OF order ids, of now "dc_deliveryBatchSize C" C id_text ?m] \<open>locked = []\<close>
    unfolding db' by simp
qed

section \<open>Every delivery settles\<close>

definition run_passes ::
  "delivery_host \<Rightarrow> delivery_config \<Rightarrow> (nat \<Rightarrow> string) \<Rightarrow> int list \<Rightarrow> pass_state \<Rightarrow> pass_state" where
  "run_passes H C id_text ts s = foldl (\<lambda>s now. fst (runDeliveryPass H C id_text [] [] now s)) s ts"

text \<open>Where a delivery stands after \<open>k\<close> passes, the last one at \<open>now\<close>.\<close>

definition delivery_settled :: "delivery_row \<Rightarrow> bool" where
  "delivery_settled r \<longleftrightarrow> dv_deliveredAt r \<noteq> None \<or> dv_deadLetteredAt r \<noteq> None"

definition on_its_way :: "data_db \<Rightarrow> nat \<Rightarrow> int \<Rightarrow> nat \<times> string \<Rightarrow> bool" where
  "on_its_way db k ready pair \<longleftrightarrow> (\<exists>r \<in> set (deliveries_of db). delivery_pair r = pair \<and>
     (delivery_settled r \<or> delivery_open r \<and> int k \<le> dv_attempts r \<and> dv_attempts r < OUTBOX_MAX_ATTEMPTS \<and>
        dv_nextAttemptAt r \<le> ready \<and>
        (\<forall>now. dv_nextAttemptAt r \<le> now \<longrightarrow> claimable (events_of db) (dd_webhooks db) now r)))"

lemma row_advances:
  assumes "row_step events hooks now x y" "\<not> claimable events hooks now y" "dv_nextAttemptAt x \<le> now"
    "delivery_open x" "int k \<le> dv_attempts x" "dv_attempts x < OUTBOX_MAX_ATTEMPTS"
    "\<And>now. dv_nextAttemptAt x \<le> now \<Longrightarrow> claimable events hooks now x"
  shows "delivery_settled y \<or> delivery_open y \<and> int (Suc k) \<le> dv_attempts y \<and> dv_attempts y < OUTBOX_MAX_ATTEMPTS \<and>
    dv_nextAttemptAt y \<le> now + OUTBOX_BACKOFF_CAP_MS \<and> (\<forall>now. dv_nextAttemptAt y \<le> now \<longrightarrow> claimable events hooks now y)"
proof -
  have "claimable events hooks now x" using assms(3,7) by simp
  with assms(1,2) have p: "processed now x y" by (auto simp: row_step_def)
  have x: "dv_deliveredAt x = None" "dv_cancelledAt x = None" "dv_deadLetteredAt x = None" using assms(4) by (simp_all add: delivery_open_def)
  note frame = processed_frame [OF p] and out = processed_outcome [OF p x(1)]
  show ?thesis
  proof (cases "dv_deliveredAt y = None \<and> dv_deadLetteredAt y = None")
    case False
    then show ?thesis by (auto simp: delivery_settled_def)
  next
    case True
    have y: "dv_attempts y = dv_attempts x + 1" "dv_nextAttemptAt y \<le> now + OUTBOX_BACKOFF_CAP_MS"
        "\<not> OUTBOX_MAX_ATTEMPTS \<le> dv_attempts x + 1"
      using out True by (auto split: if_splits)
    have "event_of events y = event_of events x" "hook_of hooks y = hook_of hooks x"
      using frame by (simp_all add: event_of_def hook_of_def)
    then have "claimable events hooks t y" if "dv_nextAttemptAt y \<le> t" for t
      using that True frame x \<open>claimable events hooks now x\<close> by (simp add: claimable_def delivery_open_def)
    with y True x frame assms(5) show ?thesis by (simp add: delivery_open_def)
  qed
qed

lemma pass_advances:
  assumes "delivery_laws H" "deliveries_sound (dh_uuid H) (dd_deliveries (ps_db s))" "batch_covers C (ps_db s)"
    "on_its_way (ps_db s) k ready pair" "ready \<le> now"
  shows "on_its_way (ps_db (fst (runDeliveryPass H C id_text [] [] now s))) (Suc k) (now + OUTBOX_BACKOFF_CAP_MS) pair"
proof -
  let ?db = "ps_db s" and ?db' = "ps_db (fst (runDeliveryPass H C id_text [] [] now s))"
  note pass = pass_effect [OF assms(1,2) refl, where C = C and id_text = id_text and le = "[]" and locked = "[]" and now = now]
  obtain x where x: "x \<in> set (deliveries_of ?db)" "delivery_pair x = pair"
      "delivery_settled x \<or> delivery_open x \<and> int k \<le> dv_attempts x \<and> dv_attempts x < OUTBOX_MAX_ATTEMPTS \<and>
        dv_nextAttemptAt x \<le> ready \<and> (\<forall>now. dv_nextAttemptAt x \<le> now \<longrightarrow> claimable (events_of ?db) (dd_webhooks ?db) now x)"
    using assms(4) by (auto simp: on_its_way_def)
  obtain rows where rows: "list_all2 (row_step (events_of ?db') (dd_webhooks ?db') now) rows (deliveries_of ?db')"
      "rows = deliveries_of (fst (materialize H C [] ?db now))" using pass(4) by blast
  have "x \<in> set rows" using materialize_effect [OF assms(1,2), of now C "[]"] x(1) rows(2) by (auto simp: spread_def)
  then obtain y where y: "y \<in> set (deliveries_of ?db')" "row_step (events_of ?db') (dd_webhooks ?db') now x y"
    using rows(1) by (metis in_set_conv_nth list_all2_conv_all_nth)
  have clear: "\<not> claimable (events_of ?db') (dd_webhooks ?db') now y" using pass(5) assms(3) y(1) by blast
  have same: "claimable (events_of ?db') (dd_webhooks ?db') t x \<longleftrightarrow> claimable (events_of ?db) (dd_webhooks ?db) t x" for t
    using claimable_same [OF pass(2)] pass(3) by simp
  have pair: "delivery_pair y = pair" using row_step_id [OF y(2)] x(2) by (simp add: delivery_pair_def)
  show ?thesis
  proof (cases "delivery_settled x")
    case True
    then have "\<not> claimable (events_of ?db') (dd_webhooks ?db') now x"
      by (auto simp: claimable_def delivery_open_def delivery_settled_def)
    then have "y = x" using y(2) by (simp add: row_step_def)
    with True y(1) pair show ?thesis by (auto simp: on_its_way_def)
  next
    case False
    with x(3) have "delivery_open x" "int k \<le> dv_attempts x" "dv_attempts x < OUTBOX_MAX_ATTEMPTS" "dv_nextAttemptAt x \<le> ready"
      "\<And>t. dv_nextAttemptAt x \<le> t \<Longrightarrow> claimable (events_of ?db') (dd_webhooks ?db') t x" by (auto simp: same)
    with row_advances [OF y(2) clear, of k] assms(5) y(1) pair show ?thesis by (auto simp: on_its_way_def)
  qed
qed

lemma passes_advance:
  assumes "delivery_laws H" "deliveries_sound (dh_uuid H) (dd_deliveries (ps_db s))" "batch_covers C (ps_db s)"
    "on_its_way (ps_db s) k ready pair" "sorted_wrt (\<lambda>t t'. t + OUTBOX_BACKOFF_CAP_MS \<le> t') ts" "\<forall>t \<in> set ts. ready \<le> t"
  shows "\<exists>ready'. on_its_way (ps_db (run_passes H C id_text ts s)) (k + length ts) ready' pair"
  using assms(2-)
proof (induction ts arbitrary: s k ready)
  case Nil
  then show ?case by (auto simp: run_passes_def)
next
  case (Cons t ts)
  let ?s = "fst (runDeliveryPass H C id_text [] [] t s)"
  note pass = pass_effect [OF assms(1) Cons.prems(1) refl, where C = C and id_text = id_text and le = "[]" and locked = "[]" and now = t]
  have "batch_covers C (ps_db ?s)"
    using Cons.prems(2) pass(3) list_all2_lengthD [OF pass(2)] by (simp add: batch_covers_def)
  moreover have "on_its_way (ps_db ?s) (Suc k) (t + OUTBOX_BACKOFF_CAP_MS) pair"
    using pass_advances [OF assms(1) Cons.prems(1-3)] Cons.prems(5) by simp
  ultimately have "\<exists>ready'. on_its_way (ps_db (run_passes H C id_text ts ?s)) (Suc k + length ts) ready' pair"
    using Cons.prems(4) by (intro Cons.IH [OF pass(1)]) auto
  then show ?case by (simp add: run_passes_def)
qed

lemma on_its_way_ends: "on_its_way db k ready pair \<Longrightarrow> OUTBOX_MAX_ATTEMPTS \<le> int k \<Longrightarrow>
  \<exists>r \<in> set (deliveries_of db). delivery_pair r = pair \<and> delivery_settled r"
  by (auto simp: on_its_way_def)

text \<open>A delivery that could be sent at the first of ten passes is delivered or dead-lettered after them.\<close>

lemma delivery_settles:
  assumes "delivery_laws H" "deliveries_sound (dh_uuid H) (dd_deliveries (ps_db s))" "batch_covers C (ps_db s)"
    "r \<in> set (deliveries_of (ps_db s))" "claimable (events_of (ps_db s)) (dd_webhooks (ps_db s)) t r"
    "0 \<le> dv_attempts r" "dv_attempts r < OUTBOX_MAX_ATTEMPTS"
    "sorted_wrt (\<lambda>t t'. t + OUTBOX_BACKOFF_CAP_MS \<le> t') ts" "\<forall>u \<in> set ts. t \<le> u" "OUTBOX_MAX_ATTEMPTS \<le> int (length ts)"
  shows "\<exists>r' \<in> set (deliveries_of (ps_db (run_passes H C id_text ts s))).
    delivery_pair r' = delivery_pair r \<and> delivery_settled r'"
proof -
  have "on_its_way (ps_db s) 0 t (delivery_pair r)"
    using assms(4-7) by (auto simp: on_its_way_def claimable_def intro!: bexI [of _ r])
  from passes_advance [OF assms(1-3) this assms(8,9), of id_text] show ?thesis
    using on_its_way_ends assms(10) by fastforce
qed

lemma find_by_key: "distinct (map key xs) \<Longrightarrow> x \<in> set xs \<Longrightarrow> k = key x \<Longrightarrow> List.find (\<lambda>y. key y = k) xs = Some x"
  by (induction xs) auto

text \<open>
  End to end: an event a pass finds due reaches every active endpoint of its form, or the
  delivery is dead-lettered, within ten passes.
\<close>

lemma event_claimed:
  assumes "delivery_laws H" "e \<in> set (events_of db)" "event_due now e" "length (events_of db) \<le> dc_deliveryBatchSize C"
  shows "e \<in> set (claimDue (dh_events H) [] (events_of db) (dc_deliveryBatchSize C) now)"
proof -
  have law: "ordering_law (dh_events H)" using assms(1) by (simp add: delivery_laws_def)
  let ?due = "dh_events H (filter (event_due now) (events_of db))"
  have "length ?due = length (filter (event_due now) (events_of db))"
    using law unfolding ordering_law_def by (metis size_mset)
  also have "\<dots> \<le> dc_deliveryBatchSize C" using assms(4) length_filter_le order.trans by blast
  finally show ?thesis
    using assms(2,3) ordering_set [OF law, of "filter (event_due now) (events_of db)"] by (simp add: claimDue_def)
qed

lemma event_settles:
  assumes "delivery_laws H" "deliveries_sound (dh_uuid H) (dd_deliveries (ps_db s))" "batch_covers C (ps_db s)"
    "distinct (map ob_id (events_of (ps_db s)))" "distinct (map wh_webhookId (dd_webhooks (ps_db s)))"
    "e \<in> set (events_of (ps_db s))" "event_due t e" "ob_eventType e = RESPONSE_SUBMITTED"
    "resolveFormId (ob_payload e) = Some (wh_formId w)" "w \<in> set (dd_webhooks (ps_db s))" "wh_active w"
    "\<forall>r \<in> set (deliveries_of (ps_db s)). delivery_pair r \<noteq> (ob_id e, wh_webhookId w)"
    "sorted_wrt (\<lambda>t t'. t + OUTBOX_BACKOFF_CAP_MS \<le> t') (t # ts)" "OUTBOX_MAX_ATTEMPTS \<le> int (length (t # ts))"
  shows "\<exists>r \<in> set (deliveries_of (ps_db (run_passes H C id_text (t # ts) s))).
    delivery_pair r = (ob_id e, wh_webhookId w) \<and> delivery_settled r"
proof -
  let ?db = "ps_db s" and ?s = "fst (runDeliveryPass H C id_text [] [] t s)"
  let ?mid = "fst (materialize H C [] ?db t)" and ?pair = "(ob_id e, wh_webhookId w)"
  have laws: "inj (dh_uuid H)" "ordering_law (dh_hooks H)" using assms(1) by (simp_all add: delivery_laws_def)
  have "dd_webhooks ?db \<noteq> []" using assms(10) by auto
  then have "length (events_of ?db) * 1 \<le> length (events_of ?db) * length (dd_webhooks ?db)"
    by (intro mult_le_mono) (auto simp: Suc_le_eq)
  then have "length (events_of ?db) \<le> dc_deliveryBatchSize C"
    using assms(3) unfolding batch_covers_def mult_1_right by (rule order.trans)
  note claimed = event_claimed [OF assms(1,6,7) this]
  obtain x where x: "x \<in> set (deliveries_of ?mid)" "delivery_pair x = ?pair"
    using materialize_reaches [of H "(?db, 0)", OF _ laws claimed assms(8,9)] assms(2,10,11)
    by (auto simp: materialize_def)
  note mid = materialize_effect [OF assms(1,2), of t C "[]"]
  then obtain new where new: "deliveries_of ?mid = deliveries_of ?db @ new" "\<forall>r \<in> set new. new_row r t"
    by (auto simp: spread_def)
  have "x \<in> set new" using x new(1) assms(12) by auto
  then have fresh_row: "delivery_open x" "dv_attempts x = 0" "dv_nextAttemptAt x = t"
    using new(2) by (auto simp: new_row_def new_delivery_def delivery_open_def)
  have "event_of (events_of ?db) x = Some e" "hook_of (dd_webhooks ?db) x = Some w"
    using x(2) assms(4,5,6,10) by (auto simp: event_of_def hook_of_def delivery_pair_def intro!: find_by_key)
  then have may: "claimable (events_of ?db) (dd_webhooks ?db) now x" if "t \<le> now" for now
    using that fresh_row assms(7) by (simp add: claimable_def event_due_def)
  note pass = pass_effect [OF assms(1,2) refl, where C = C and id_text = id_text and le = "[]" and locked = "[]" and now = t]
  obtain y where y: "y \<in> set (deliveries_of (ps_db ?s))" "row_step (events_of (ps_db ?s)) (dd_webhooks (ps_db ?s)) t x y"
    using pass(4) x(1) by (metis in_set_conv_nth list_all2_conv_all_nth)
  have "claimable (events_of (ps_db ?s)) (dd_webhooks (ps_db ?s)) now x" if "t \<le> now" for now
    using may [OF that] claimable_same [OF pass(2)] pass(3) by simp
  with row_advances [OF y(2) _, of 0] fresh_row pass(5) assms(3) y(1)
  have "on_its_way (ps_db ?s) 1 (t + OUTBOX_BACKOFF_CAP_MS) ?pair"
    using row_step_id [OF y(2)] x(2) by (auto simp: on_its_way_def delivery_pair_def OUTBOX_MAX_ATTEMPTS_def intro!: bexI [of _ y])
  moreover have "batch_covers C (ps_db ?s)"
    using assms(3) pass(3) list_all2_lengthD [OF pass(2)] by (simp add: batch_covers_def)
  ultimately have "\<exists>ready. on_its_way (ps_db (run_passes H C id_text ts ?s)) (1 + length ts) ready ?pair"
    using assms(13) by (intro passes_advance [OF assms(1) pass(1)]) auto
  then show ?thesis using on_its_way_ends assms(14) by (fastforce simp: run_passes_def)
qed

end
