(* ===== verification/DeliverySafety.thy ===== *)
theory DeliverySafety
  imports DeliveryFacts
begin

text \<open>
  The tables of one environment under everything that writes to them, interleaved in any
  order: passes of the deliverer and their crashes, sweeps, purges, erasures, redelivery, the
  endpoints, and whatever a respondent does. What holds however they interleave: an event once
  redacted stays so and is never sent again, and the checks of the schema never fail.
\<close>

section \<open>The steps\<close>

definition redacted :: "outbox_row \<Rightarrow> bool" where
  "redacted e \<longleftrightarrow> ob_payloadRedactedAt e \<noteq> None \<and> \<not> has_member ''answers'' (ob_payload e)"

definition set_hooks :: "webhook_row list \<Rightarrow> pass_state \<Rightarrow> pass_state" where
  "set_hooks ws s = s\<lparr>ps_db := (ps_db s)\<lparr>dd_webhooks := ws\<rparr>\<rparr>"

text \<open>An endpoint's row, an event's row or a delivery's row as an operation leaves the table.\<close>

definition with_events :: "outbox_row list \<Rightarrow> pass_state \<Rightarrow> pass_state" where
  "with_events rows s = s\<lparr>ps_db := set_events rows (ps_db s)\<rparr>"

definition with_deliveries :: "delivery_row list \<Rightarrow> pass_state \<Rightarrow> pass_state" where
  "with_deliveries rows s = s\<lparr>ps_db := set_deliveries rows (ps_db s)\<rparr>"

inductive data_step :: "delivery_host \<Rightarrow> delivery_config \<Rightarrow> pass_state \<Rightarrow> pass_state \<Rightarrow> bool" for H C where
  Materialize: "data_step H C s (s\<lparr>ps_db := fst (materialize H C locked (ps_db s) now)\<rparr>)"
| Deliver: "deliver_next H C id_text locked now s = Some (s', out) \<Longrightarrow> data_step H C s s'"
| Crash: "deliver_crashed H C id_text locked now s = Some s' \<Longrightarrow> data_step H C s s'"
| Enqueue: "uuid (ot_draws (dd_outbox (ps_db s))) \<notin> ob_id ` set (events_of (ps_db s)) \<Longrightarrow>
    data_step H C s (s\<lparr>ps_db := (ps_db s)\<lparr>dd_outbox := enqueue uuid (dd_outbox (ps_db s)) eventType payload now\<rparr>\<rparr>)"
| FailEvent: "data_step H C s (with_events (fst (recordFailure (events_of (ps_db s)) i error now)) s)"
| ResetEvent: "data_step H C s (with_events (fst (resetForRedelivery (events_of (ps_db s)) i now)) s)"
| ResetDelivery: "data_step H C s
    (with_deliveries (fst (resetDeliveryForRedelivery (dd_webhooks (ps_db s)) (deliveries_of (ps_db s)) fid i now)) s)"
| Sweep: "data_step H C s (s\<lparr>ps_db := sweepEnvironment arrange window now (ps_db s)\<rparr>)"
| Purge: "data_step H C s (s\<lparr>ps_db := snd (purgeExpired (ps_db s) olderThan)\<rparr>)"
| Erase: "eraseSession (ps_db s) fid sessionId reason now = Some (outcome, db) \<Longrightarrow> data_step H C s (s\<lparr>ps_db := db\<rparr>)"
| AddHook: "insertWebhook (dd_webhooks (ps_db s)) webhookId fid url secret active now = Some ws \<Longrightarrow>
    data_step H C s (set_hooks ws s)"
| EditHook: "data_step H C s (set_hooks (fst (updateWebhook (dd_webhooks (ps_db s)) fid webhookId patch)) s)"
| DropHook: "data_step H C s (set_hooks (fst (deactivateWebhook (dd_webhooks (ps_db s)) fid webhookId now)) s)"
| Respond: "dd_outbox db = dd_outbox (ps_db s) \<Longrightarrow> dd_deliveries db = dd_deliveries (ps_db s) \<Longrightarrow>
    dd_webhooks db = dd_webhooks (ps_db s) \<Longrightarrow> data_step H C s (s\<lparr>ps_db := db\<rparr>)"

inductive_cases data_stepE: "data_step H C s s'"

section \<open>What one step does to events, deliveries and requests\<close>

definition event_kept :: "outbox_row \<Rightarrow> outbox_row \<Rightarrow> bool" where
  "event_kept e e' \<longleftrightarrow> ob_id e' = ob_id e \<and> (redacted e \<longrightarrow> redacted e') \<and>
     (ob_payloadRedactedAt e' \<noteq> None \<longrightarrow> redacted e' \<or>
        ob_payloadRedactedAt e \<noteq> None \<and> ob_payload e' = ob_payload e)"

definition events_kept :: "outbox_row list \<Rightarrow> outbox_row list \<Rightarrow> bool" where
  "events_kept es es' \<longleftrightarrow> (\<exists>old new. es' = old @ new \<and> list_all2 event_kept es old \<and>
     (\<forall>e \<in> set new. ob_id e \<notin> ob_id ` set es \<and> ob_payloadRedactedAt e = None))"

text \<open>The checks of the two tables.\<close>

definition delivery_checked :: "delivery_row \<Rightarrow> bool" where
  "delivery_checked r \<longleftrightarrow> (dv_lastResponseSnippet r \<noteq> None \<longrightarrow> dv_lastAttemptAt r \<noteq> None) \<and>
     headers_masked (dv_lastRequestHeaders r)"

definition checks_hold :: "data_db \<Rightarrow> bool" where
  "checks_hold db \<longleftrightarrow> (\<forall>e \<in> set (events_of db). ob_payloadRedactedAt e \<noteq> None \<longrightarrow> \<not> has_member ''answers'' (ob_payload e)) \<and>
     (\<forall>r \<in> set (deliveries_of db). delivery_checked r)"

lemma event_kept_refl [simp]: "event_kept e e"
  by (simp add: event_kept_def)

lemma events_kept_map: "(\<And>e. event_kept e (f e)) \<Longrightarrow> events_kept es (map f es)"
  unfolding events_kept_def by (intro exI [of _ "map f es"] exI [of _ "[]"]) (simp add: list_all2_map2 list.rel_refl_strong)

lemma events_kept_refl: "events_kept es es"
  using events_kept_map [of id es] by simp

lemma redaction_kept: "event_kept e (outboxPayloadRedactionColumns now e)"
  by (simp add: event_kept_def redacted_def outboxPayloadRedactionColumns_def without_member_gone)

lemma same_event_kept: "same_event e e' \<Longrightarrow> event_kept e e'"
  by (auto simp: event_kept_def same_event_def redacted_def)

lemma same_events_kept: "list_all2 same_event es es' \<Longrightarrow> events_kept es es'"
  unfolding events_kept_def by (intro exI [of _ es'] exI [of _ "[]"]) (auto elim: list_all2_mono intro: same_event_kept)

lemma redact_where_kept: "events_kept es (fst (redact_where p now es))"
  by (simp add: redact_where_def events_kept_map redaction_kept)

lemma redactAged_kept: "events_kept es (fst (redactAgedOutboxPayloads arrange ds olderThan now es))"
  by (simp add: redactAgedOutboxPayloads_def redact_aged_def Let_def events_kept_refl redact_where_kept)

text \<open>Fanning out keeps the events and adds rows that pass the checks, whatever the ids drawn.\<close>

lemma materialize_one_kept:
  "list_all2 same_event (events_of (fst st)) (events_of (fst (materialize_one H now st e)))"
  "dd_webhooks (fst (materialize_one H now st e)) = dd_webhooks (fst st)"
  "\<exists>new. deliveries_of (fst (materialize_one H now st e)) = deliveries_of (fst st) @ new \<and> (\<forall>r \<in> set new. new_row r now)"
proof -
  have one: "\<exists>new. deliveries_of (fst (fan_out_one H e now st hook)) = deliveries_of (fst st) @ new \<and> (\<forall>r \<in> set new. new_row r now)"
    "dd_outbox (fst (fan_out_one H e now st hook)) = dd_outbox (fst st)"
    "dd_webhooks (fst (fan_out_one H e now st hook)) = dd_webhooks (fst st)" for st :: "data_db \<times> nat" and hook
    by (auto simp: fan_out_one_def insertDelivery_def new_row_def)
  have all: "(\<exists>new. deliveries_of (fst (foldl (fan_out_one H e now) st hooks)) = deliveries_of (fst st) @ new \<and> (\<forall>r \<in> set new. new_row r now)) \<and>
    dd_outbox (fst (foldl (fan_out_one H e now) st hooks)) = dd_outbox (fst st) \<and>
    dd_webhooks (fst (foldl (fan_out_one H e now) st hooks)) = dd_webhooks (fst st)" for st :: "data_db \<times> nat" and hooks
  proof (induction hooks arbitrary: st)
    case (Cons hook hooks)
    obtain new where "deliveries_of (fst (fan_out_one H e now st hook)) = deliveries_of (fst st) @ new" "\<forall>r \<in> set new. new_row r now"
      using one(1) by blast
    with Cons [of "fan_out_one H e now st hook"] one(2,3) show ?case by auto
  qed simp
  have fan: "(\<exists>new. deliveries_of (fst (fanOutEvent H (fst st) e now)) = deliveries_of (fst st) @ new \<and> (\<forall>r \<in> set new. new_row r now)) \<and>
    dd_outbox (fst (fanOutEvent H (fst st) e now)) = dd_outbox (fst st) \<and>
    dd_webhooks (fst (fanOutEvent H (fst st) e now)) = dd_webhooks (fst st)"
    using all [of "(fst st, 0)"] by (simp add: fanOutEvent_def split: option.splits)
  then show "list_all2 same_event (events_of (fst st)) (events_of (fst (materialize_one H now st e)))"
    by (simp add: materialize_one_def Let_def markDelivered_def update_row_def)
      (rule map_same_event, simp add: same_event_def)
  show "dd_webhooks (fst (materialize_one H now st e)) = dd_webhooks (fst st)"
    "\<exists>new. deliveries_of (fst (materialize_one H now st e)) = deliveries_of (fst st) @ new \<and> (\<forall>r \<in> set new. new_row r now)"
    using fan by (simp_all add: materialize_one_def Let_def)
qed

lemma materialize_kept:
  "list_all2 same_event (events_of db) (events_of (fst (materialize H C locked db now)))"
  "\<exists>new. deliveries_of (fst (materialize H C locked db now)) = deliveries_of db @ new \<and> (\<forall>r \<in> set new. new_row r now)"
proof -
  have "list_all2 same_event (events_of (fst st)) (events_of (fst (foldl (materialize_one H now) st es))) \<and>
    (\<exists>new. deliveries_of (fst (foldl (materialize_one H now) st es)) = deliveries_of (fst st) @ new \<and> (\<forall>r \<in> set new. new_row r now))"
    for st :: "data_db \<times> nat" and es
  proof (induction es arbitrary: st)
    case (Cons e es)
    obtain new where "deliveries_of (fst (materialize_one H now st e)) = deliveries_of (fst st) @ new" "\<forall>r \<in> set new. new_row r now"
      using materialize_one_kept(3) by blast
    with Cons [of "materialize_one H now st e"] same_events_trans [OF materialize_one_kept(1)] show ?case by fastforce
  qed (simp add: list.rel_refl_strong)
  from this [of "(db, 0)"]
  show "list_all2 same_event (events_of db) (events_of (fst (materialize H C locked db now)))"
    "\<exists>new. deliveries_of (fst (materialize H C locked db now)) = deliveries_of db @ new \<and> (\<forall>r \<in> set new. new_row r now)"
    by (simp_all add: materialize_def)
qed

lemma deliver_next_db:
  assumes "deliver_next H C id_text locked now s = Some (s', out)"
  shows "events_of (ps_db s') = events_of (ps_db s)"
    "\<exists>i f. (\<forall>x. processed now x (f x)) \<and>
       deliveries_of (ps_db s') = map (\<lambda>x. if dv_id x = i then f x else x) (deliveries_of (ps_db s))"
    "\<exists>new. ps_sends s' = ps_sends s @ new \<and> (\<forall>(d, q) \<in> set new.
       (\<exists>eventId n. snd (deliverOne H C d eventId n now) = Some q) \<and>
       d \<in> set (claimDueDeliveries (dh_deliveries H) locked (events_of (ps_db s)) (dd_webhooks (ps_db s)) (deliveries_of (ps_db s)) 1 now))"
proof -
  obtain d ds where claim: "claimDueDeliveries (dh_deliveries H) locked (events_of (ps_db s)) (dd_webhooks (ps_db s))
      (deliveries_of (ps_db s)) 1 now = d # ds"
    using assms by (auto simp: deliver_next_def split: list.splits)
  obtain result request where one: "deliverOne H C d (id_text (du_outboxId d)) (length (ps_sends s)) now = (result, request)"
    by (cases "deliverOne H C d (id_text (du_outboxId d)) (length (ps_sends s)) now")
  have s': "ps_db s' = set_deliveries (fst (settle result (du_deliveryId d) now (deliveries_of (ps_db s)))) (ps_db s)"
    "ps_sends s' = ps_sends s @ (case request of None \<Rightarrow> [] | Some q \<Rightarrow> [(d, q)])"
    using assms unfolding deliver_next_def claim by (auto simp: one Let_def split: prod.splits)
  show "events_of (ps_db s') = events_of (ps_db s)" by (simp add: s')
  obtain f where f: "\<forall>x. processed now x (f x)" "fst (settle result (du_deliveryId d) now (deliveries_of (ps_db s))) =
      map (\<lambda>x. if dv_id x = du_deliveryId d then f x else x) (deliveries_of (ps_db s))"
    using settle_effect [of H C d "id_text (du_outboxId d)" "length (ps_sends s)" now result "du_deliveryId d" "deliveries_of (ps_db s)"]
      one by auto
  show "\<exists>i f. (\<forall>x. processed now x (f x)) \<and>
      deliveries_of (ps_db s') = map (\<lambda>x. if dv_id x = i then f x else x) (deliveries_of (ps_db s))"
    using f by (intro exI [of _ "du_deliveryId d"] exI [of _ f]) (simp add: s')
  show "\<exists>new. ps_sends s' = ps_sends s @ new \<and> (\<forall>(d, q) \<in> set new.
      (\<exists>eventId n. snd (deliverOne H C d eventId n now) = Some q) \<and>
      d \<in> set (claimDueDeliveries (dh_deliveries H) locked (events_of (ps_db s)) (dd_webhooks (ps_db s)) (deliveries_of (ps_db s)) 1 now))"
    unfolding claim using one by (cases request) (auto simp: s'(2) intro!: exI [of _ "id_text (du_outboxId d)"] exI [of _ "length (ps_sends s)"])
qed

lemma crash_db:
  assumes "deliver_crashed H C id_text locked now s = Some s'"
  shows "ps_db s' = ps_db s" "\<exists>t out. deliver_next H C id_text locked now s = Some (t, out) \<and> ps_sends s' = ps_sends t"
  using assms by (auto simp: deliver_crashed_def)

lemma update_row_map: "fst (update_row p f rows) = map (\<lambda>r. if p r then f r else r) rows"
  by (simp add: update_row_def)

lemma step_events: "data_step H C s s' \<Longrightarrow> events_kept (events_of (ps_db s)) (events_of (ps_db s'))"
proof (induction rule: data_step.induct)
  case (Materialize s locked now)
  show ?case using same_events_kept [OF materialize_kept(1)] by simp
next
  case (Deliver id_text locked now s s' out)
  then show ?case by (simp add: deliver_next_db(1) events_kept_refl)
next
  case (Crash id_text locked now s s')
  then show ?case by (simp add: crash_db(1) events_kept_refl)
next
  case (Enqueue uuid s eventType payload now)
  then show ?case unfolding events_kept_def
    by (intro exI [of _ "events_of (ps_db s)"] exI) (auto simp: enqueue_def list.rel_refl_strong)
next
  case (FailEvent s i error now)
  show ?case by (simp add: with_events_def recordFailure_def update_row_map)
    (rule events_kept_map, auto simp: event_kept_def redacted_def event_failed_def Let_def split: prod.splits)
next
  case (ResetEvent s i now)
  show ?case by (simp add: with_events_def resetForRedelivery_def update_row_map)
    (rule events_kept_map, auto simp: event_kept_def redacted_def event_reset_def)
next
  case (Sweep s arrange window now)
  show ?case by (simp add: sweepEnvironment_def Let_def redactAged_kept set_deliveries_def)
next
  case (Purge s olderThan)
  show ?case by (simp add: purgeExpired_def Let_def events_kept_refl)
next
  case (Erase s fid sessionId reason now outcome db)
  have "events_kept es (redactOutboxPayloads sessionId now es)" for es
    unfolding redactOutboxPayloads_def by (rule events_kept_map) (simp add: redaction_kept)
  with Erase show ?case by (auto simp: eraseSession_def erase_rows_def Let_def events_kept_refl split: option.splits if_splits)
qed (simp_all add: set_hooks_def with_deliveries_def events_kept_refl)

lemma processed_checked: "processed now x y \<Longrightarrow> delivery_checked x \<Longrightarrow> delivery_checked y"
  by (auto simp: processed_def delivery_checked_def delivery_done_def delivery_failed_def attemptColumns_def computeBackoff_def
    attempt_masked_def Let_def split: option.splits)

lemma new_row_checked: "new_row r now \<Longrightarrow> delivery_checked r"
  by (auto simp: new_row_def new_delivery_def delivery_checked_def headers_masked_def)

lemma map_checked: "(\<And>r. delivery_checked r \<Longrightarrow> delivery_checked (f r)) \<Longrightarrow> \<forall>r \<in> set rows. delivery_checked r \<Longrightarrow>
   \<forall>r \<in> set (map f rows). delivery_checked r"
  by simp

lemma step_deliveries:
  "data_step H C s s' \<Longrightarrow> \<forall>r \<in> set (deliveries_of (ps_db s)). delivery_checked r \<Longrightarrow>
     \<forall>r \<in> set (deliveries_of (ps_db s')). delivery_checked r"
proof (induction rule: data_step.induct)
  case (Materialize s locked now)
  then show ?case using materialize_kept(2) [of H C locked "ps_db s" now] new_row_checked by fastforce
next
  case (Deliver id_text locked now s s' out)
  obtain i f where f: "\<forall>x. processed now x (f x)"
      "deliveries_of (ps_db s') = map (\<lambda>x. if dv_id x = i then f x else x) (deliveries_of (ps_db s))"
    using deliver_next_db(2) [OF Deliver.hyps] by blast
  show ?case unfolding f(2) using f(1) processed_checked Deliver.prems by (intro map_checked) auto
next
  case (Crash id_text locked now s s')
  then show ?case by (simp add: crash_db(1))
next
  case (ResetDelivery s fid i now)
  have "\<forall>r \<in> set (fst (resetDeliveryForRedelivery ws rows fid i now)). delivery_checked r"
    if "\<forall>r \<in> set rows. delivery_checked r" for ws rows
    unfolding resetDeliveryForRedelivery_def update_row_map
    by (intro map_checked that) (simp add: delivery_reset_def delivery_checked_def headers_masked_def)
  with ResetDelivery show ?case by (simp add: with_deliveries_def)
next
  case (Sweep s arrange window now)
  have "\<forall>r \<in> set (fst (redactAgedResponseSnippets olderThan now rows)). delivery_checked r"
    if "\<forall>r \<in> set rows. delivery_checked r" for olderThan rows
    unfolding redactAgedResponseSnippets_def fst_conv using that
    by (intro map_checked) (auto simp: responseSnippetRedactionColumns_def delivery_checked_def)
  with Sweep show ?case by (simp add: sweepEnvironment_def Let_def)
next
  case (Purge s olderThan)
  then show ?case by (simp add: purgeExpired_def Let_def)
next
  case (Erase s fid sessionId reason now outcome db)
  have "\<forall>r \<in> set (redactDeliveryResponseSnippets es sid now (cancelUndeliveredDeliveries es sid now rows)). delivery_checked r"
    if "\<forall>r \<in> set rows. delivery_checked r" for es sid rows
    unfolding redactDeliveryResponseSnippets_def cancelUndeliveredDeliveries_def
    by (intro map_checked that) (auto simp: responseSnippetRedactionColumns_def delivery_checked_def)
  with Erase show ?case by (auto simp: eraseSession_def erase_rows_def Let_def split: option.splits if_splits)
qed (simp_all add: set_hooks_def with_events_def)

section \<open>Requests\<close>

text \<open>What every request answers to: the target passed the check, and the signature is of the body sent.\<close>

definition request_sound :: "delivery_host \<Rightarrow> delivery_config \<Rightarrow> due_delivery \<times> web_request \<Rightarrow> bool" where
  "request_sound H C p \<longleftrightarrow> (case p of (d, q) \<Rightarrow>
     checkWebhookUrl (dh_parse H) (dh_number H) (du_url d) (dc_allowPrivateTargets C) = Inr (wr_url q) \<and>
     (\<exists>secret timestamp. decryptWebhookSecret (dh_secret H) (du_secretEncrypted d) (dc_appKey C) = Inr secret \<and>
        map_of (wr_headers q) ''x-qcms-timestamp'' = Some timestamp \<and>
        map_of (wr_headers q) ''x-qcms-signature'' = Some (signWebhookBody (dh_hmac H) secret timestamp (wr_body q))))"

lemma deliverOne_sound: "snd (deliverOne H C d eventId n now) = Some q \<Longrightarrow> request_sound H C (d, q)"
  by (auto simp: deliverOne_def request_sound_def request_of_def delivery_headers_def Let_def split: sum.splits)

text \<open>The event a request carries was in the table, unredacted, when it was sent.\<close>

definition carries :: "outbox_row list \<Rightarrow> due_delivery \<Rightarrow> bool" where
  "carries es d \<longleftrightarrow> (\<exists>e \<in> set es. ob_id e = du_outboxId d \<and> ob_payloadRedactedAt e = None \<and> du_payload d = ob_payload e)"

lemma due_carries:
  assumes "claimable events hooks now r" "due_of events hooks r = Some d"
  shows "carries events d"
proof -
  obtain e w where e: "event_of events r = Some e" "hook_of hooks r = Some w" using assms(2) by (auto simp: due_of_def split: option.splits)
  then have "e \<in> set events" "ob_payloadRedactedAt e = None" using assms(1) by (auto simp: claimable_def event_of_def dest: find_Some_iff_mem)
  moreover have "du_outboxId d = ob_id e" "du_payload d = ob_payload e" using assms(2) e by (auto simp: due_of_def)
  ultimately show ?thesis by (auto simp: carries_def)
qed

lemma claim_all:
  assumes "ordering_law arrange" "d \<in> set (claimDueDeliveries arrange locked events hooks rows limit now)"
  shows "\<exists>r \<in> set rows. claimable events hooks now r \<and> dv_id r \<notin> set locked \<and> due_of events hooks r = Some d"
proof -
  let ?rows = "take limit (filter (\<lambda>r. dv_id r \<notin> set locked) (arrange (filter (claimable events hooks now) rows)))"
  obtain r where "r \<in> set ?rows" "due_of events hooks r = Some d"
    using assms(2) by (auto simp: claimDueDeliveries_def List.map_filter_def)
  moreover then have "r \<in> set (filter (\<lambda>r. dv_id r \<notin> set locked) (arrange (filter (claimable events hooks now) rows)))"
    using in_set_takeD by fast
  ultimately show ?thesis using ordering_set [OF assms(1), of "filter (claimable events hooks now) rows"] by auto
qed

lemma deliver_next_sends:
  assumes "ordering_law (dh_deliveries H)" "deliver_next H C id_text locked now s = Some (s', out)"
  shows "\<exists>new. ps_sends s' = ps_sends s @ new \<and> (\<forall>p \<in> set new. carries (events_of (ps_db s)) (fst p) \<and> request_sound H C p)"
proof -
  obtain new where new: "ps_sends s' = ps_sends s @ new" "\<forall>(d, q) \<in> set new.
       (\<exists>eventId n. snd (deliverOne H C d eventId n now) = Some q) \<and>
       d \<in> set (claimDueDeliveries (dh_deliveries H) locked (events_of (ps_db s)) (dd_webhooks (ps_db s)) (deliveries_of (ps_db s)) 1 now)"
    using deliver_next_db(3) [OF assms(2)] by blast
  have "carries (events_of (ps_db s)) (fst p) \<and> request_sound H C p" if "p \<in> set new" for p
  proof -
    obtain d q where p: "p = (d, q)" by (cases p)
    have one: "\<exists>eventId n. snd (deliverOne H C d eventId n now) = Some q"
      "d \<in> set (claimDueDeliveries (dh_deliveries H) locked (events_of (ps_db s)) (dd_webhooks (ps_db s)) (deliveries_of (ps_db s)) 1 now)"
      using new(2) that p by auto
    from claim_all [OF assms(1) one(2)] have "carries (events_of (ps_db s)) d" using due_carries by blast
    with one(1) show ?thesis by (auto simp: p deliverOne_sound)
  qed
  with new(1) show ?thesis by blast
qed

lemma step_sends:
  assumes "ordering_law (dh_deliveries H)"
  shows "data_step H C s s' \<Longrightarrow> \<exists>new. ps_sends s' = ps_sends s @ new \<and>
    (\<forall>p \<in> set new. carries (events_of (ps_db s)) (fst p) \<and> request_sound H C p)"
proof (induction rule: data_step.induct)
  case (Deliver id_text locked now s s' out)
  then show ?case by (rule deliver_next_sends [OF assms])
next
  case (Crash id_text locked now s s')
  from crash_db(2) [OF this] deliver_next_sends [OF assms] show ?case by fastforce
qed (auto simp: set_hooks_def with_events_def with_deliveries_def)

section \<open>Runs\<close>

lemma steps_checks:
  assumes "(data_step H C)\<^sup>*\<^sup>* s s'" "checks_hold (ps_db s)"
  shows "checks_hold (ps_db s')"
  using assms
proof (induction rule: rtranclp_induct)
  case (step s' s'')
  then have IH: "checks_hold (ps_db s')" by simp
  have "\<not> has_member ''answers'' (ob_payload e')" if e': "e' \<in> set (events_of (ps_db s''))" "ob_payloadRedactedAt e' \<noteq> None" for e'
  proof -
    obtain old new where es: "events_of (ps_db s'') = old @ new" "list_all2 event_kept (events_of (ps_db s')) old"
        "\<forall>e \<in> set new. ob_id e \<notin> ob_id ` set (events_of (ps_db s')) \<and> ob_payloadRedactedAt e = None"
      using step_events [OF step.hyps(2)] by (auto simp: events_kept_def)
    have "e' \<in> set old" using e' es by auto
    then obtain e where "e \<in> set (events_of (ps_db s'))" "event_kept e e'"
      using es(2) by (metis in_set_conv_nth list_all2_conv_all_nth)
    moreover then have "ob_payloadRedactedAt e \<noteq> None \<longrightarrow> \<not> has_member ''answers'' (ob_payload e)"
      using IH unfolding checks_hold_def by blast
    ultimately show ?thesis using e'(2) unfolding event_kept_def redacted_def by metis
  qed
  with step_deliveries [OF step.hyps(2)] IH show ?case by (simp add: checks_hold_def)
qed

text \<open>An event sealed: it is in the table, and every row of its id is redacted.\<close>

definition sealed :: "data_db \<Rightarrow> nat \<Rightarrow> bool" where
  "sealed db i \<longleftrightarrow> i \<in> ob_id ` set (events_of db) \<and> (\<forall>e \<in> set (events_of db). ob_id e = i \<longrightarrow> redacted e)"

lemma events_kept_sealed:
  assumes "events_kept (events_of db) (events_of db')" "sealed db i"
  shows "sealed db' i"
proof -
  obtain old new where es: "events_of db' = old @ new" "list_all2 event_kept (events_of db) old"
      "\<forall>e \<in> set new. ob_id e \<notin> ob_id ` set (events_of db) \<and> ob_payloadRedactedAt e = None"
    using assms(1) by (auto simp: events_kept_def)
  have ids: "ob_id ` set old = ob_id ` set (events_of db)"
    using es(2) by (induction rule: list_all2_induct) (auto simp: event_kept_def)
  have "redacted e'" if e': "e' \<in> set old" "ob_id e' = i" for e'
  proof -
    obtain e where "e \<in> set (events_of db)" "event_kept e e'"
      using es(2) e'(1) by (metis in_set_conv_nth list_all2_conv_all_nth)
    with assms(2) e'(2) show ?thesis by (auto simp: sealed_def event_kept_def)
  qed
  with ids assms(2) es show ?thesis by (auto simp: sealed_def)
qed

lemma steps_sealed:
  assumes "ordering_law (dh_deliveries H)" "(data_step H C)\<^sup>*\<^sup>* s s'" "sealed (ps_db s) i"
  shows "sealed (ps_db s') i \<and> (\<exists>new. ps_sends s' = ps_sends s @ new \<and> (\<forall>(d, q) \<in> set new. du_outboxId d \<noteq> i))"
  using assms(2)
proof (induction rule: rtranclp_induct)
  case base
  then show ?case using assms(3) by auto
next
  case (step s' s'')
  obtain new' where new': "ps_sends s'' = ps_sends s' @ new'" "\<forall>p \<in> set new'. carries (events_of (ps_db s')) (fst p) \<and> request_sound H C p"
    using step_sends [OF assms(1) step.hyps(2)] by blast
  have rest: "du_outboxId (fst p) \<noteq> i" if "p \<in> set new'" for p
  proof -
    obtain e where "e \<in> set (events_of (ps_db s'))" "ob_id e = du_outboxId (fst p)" "ob_payloadRedactedAt e = None"
      using new'(2) \<open>p \<in> set new'\<close> unfolding carries_def by blast
    with step.IH show ?thesis unfolding sealed_def redacted_def by metis
  qed
  obtain new where new: "ps_sends s' = ps_sends s @ new" "\<forall>(d, q) \<in> set new. du_outboxId d \<noteq> i" using step.IH by blast
  have "ps_sends s'' = ps_sends s @ (new @ new')" by (simp add: new'(1) new(1))
  moreover have "\<forall>(d, q) \<in> set (new @ new'). du_outboxId d \<noteq> i"
    using rest new(2) unfolding set_append ball_Un by (simp add: case_prod_beta)
  moreover have "sealed (ps_db s'') i" using events_kept_sealed [OF step_events [OF step.hyps(2)]] step.IH by blast
  ultimately show ?case by blast
qed

lemma steps_sends_sound:
  assumes "ordering_law (dh_deliveries H)" "(data_step H C)\<^sup>*\<^sup>* s s'" "\<forall>p \<in> set (ps_sends s). request_sound H C p"
  shows "\<forall>p \<in> set (ps_sends s'). request_sound H C p"
  using assms(2)
proof (induction rule: rtranclp_induct)
  case (step s' s'')
  with step_sends [OF assms(1) step.hyps(2)] show ?case by auto
qed (use assms(3) in simp)

text \<open>A pass is a run of these steps, so what holds of runs holds of passes.\<close>

lemma deliverDue_steps: "(data_step H C)\<^sup>*\<^sup>* s (fst (deliverDue H C id_text locked now i s m))"
proof (induction i arbitrary: s m)
  case (Suc i)
  show ?case
  proof (cases "deliver_next H C id_text locked now s")
    case (Some p)
    obtain s' out where p: "p = (s', out)" by (cases p)
    have "data_step H C s s'" using Some p by (blast intro: data_step.Deliver)
    with Suc [of s' "count_outcome out m"] show ?thesis by (simp add: Some p converse_rtranclp_into_rtranclp)
  qed simp
qed simp

lemma pass_steps: "(data_step H C)\<^sup>*\<^sup>* s (fst (runDeliveryPass H C id_text lockedEvents locked now s))"
proof -
  have "data_step H C s (s\<lparr>ps_db := fst (materialize H C lockedEvents (ps_db s) now)\<rparr>)" by (rule data_step.Materialize)
  from converse_rtranclp_into_rtranclp [OF this deliverDue_steps] show ?thesis
    by (simp add: runDeliveryPass_def split: prod.splits) (metis eq_fst_iff fst_conv)
qed

text \<open>Erasing a session seals every event that names it.\<close>

lemma erase_seals:
  assumes "eraseSession db fid sessionId reason now = Some (outcome, db')" "\<not> eo_alreadyErased outcome" "checks_hold db"
    "distinct (map ob_id (events_of db))" "e \<in> set (events_of db)" "event_of_session sessionId e"
  shows "sealed db' (ob_id e)"
proof -
  have es: "events_of db' = redactOutboxPayloads sessionId now (events_of db)"
    using assms(1,2) by (auto simp: eraseSession_def erase_rows_def Let_def split: option.splits if_splits)
  let ?f = "\<lambda>e. if event_of_session sessionId e \<and> ob_payloadRedactedAt e = None then outboxPayloadRedactionColumns now e else e"
  have only: "x = e" if "x \<in> set (events_of db)" "ob_id x = ob_id e" for x
    using that assms(4,5) by (auto simp: distinct_map inj_on_def)
  have gone: "redacted (?f e)"
    using assms(3,5,6) by (auto simp: checks_hold_def redacted_def outboxPayloadRedactionColumns_def without_member_gone)
  have ids: "ob_id (?f x) = ob_id x" for x by (simp add: outboxPayloadRedactionColumns_def)
  have rows: "set (events_of db') = ?f ` set (events_of db)" by (simp only: es redactOutboxPayloads_def set_map)
  have "ob_id e \<in> ob_id ` set (events_of db')"
    unfolding rows image_image ids by (rule imageI [OF assms(5)])
  moreover have "redacted y" if y: "y \<in> set (events_of db')" "ob_id y = ob_id e" for y
  proof -
    obtain x where x: "y = ?f x" "x \<in> set (events_of db)" using y(1) unfolding rows by (rule imageE)
    have "ob_id x = ob_id e" using y(2) unfolding x(1) ids .
    then have "x = e" by (rule only [OF x(2)])
    show ?thesis unfolding x(1) \<open>x = e\<close> by (rule gone)
  qed
  ultimately show ?thesis by (simp add: sealed_def)
qed

text \<open>Within one pass a delivery is sent at most once.\<close>

lemma due_of_id: "due_of events hooks r = Some d \<Longrightarrow> dv_id r = du_deliveryId d"
  by (auto simp: due_of_def split: option.splits)

text \<open>
  A delivery that may be sent: its row is in the table, open and due, its endpoint is there and
  is where it goes, and its event is there, unredacted, and is what it carries.
\<close>

definition sendable :: "data_db \<Rightarrow> int \<Rightarrow> due_delivery \<Rightarrow> bool" where
  "sendable db now d \<longleftrightarrow> (\<exists>r \<in> set (deliveries_of db). \<exists>e w. dv_id r = du_deliveryId d \<and>
     dv_deliveredAt r = None \<and> dv_deadLetteredAt r = None \<and> dv_cancelledAt r = None \<and> dv_nextAttemptAt r \<le> now \<and>
     event_of (events_of db) r = Some e \<and> ob_payloadRedactedAt e = None \<and> du_outboxId d = ob_id e \<and> du_payload d = ob_payload e \<and>
     hook_of (dd_webhooks db) r = Some w \<and> du_webhookId d = wh_webhookId w \<and> du_url d = wh_url w)"

lemma claimed_sendable:
  assumes "r \<in> set (deliveries_of db)" "claimable (events_of db) (dd_webhooks db) now r"
    "due_of (events_of db) (dd_webhooks db) r = Some d"
  shows "sendable db now d"
proof -
  obtain e w where "event_of (events_of db) r = Some e" "hook_of (dd_webhooks db) r = Some w"
    using assms(3) by (auto simp: due_of_def split: option.splits)
  with assms show ?thesis unfolding sendable_def
    by (intro bexI [of _ r] exI [of _ e] exI [of _ w]) (auto simp: claimable_def due_of_def delivery_open_def)
qed

lemma row_step_claimed: "row_step events hooks now x y \<Longrightarrow> claimable events hooks now y \<Longrightarrow> y = x"
  using processed_unclaimable [OF _ claimable_undelivered] by (auto simp: row_step_def)

lemma deliverDue_once:
  assumes "ordering_law (dh_deliveries H)" "distinct (map dv_id (deliveries_of (ps_db s)))"
  shows "\<exists>new. ps_sends (fst (deliverDue H C id_text locked now i s m)) = ps_sends s @ new \<and>
    distinct (map (\<lambda>p. du_deliveryId (fst p)) new) \<and>
    (\<forall>p \<in> set new. \<exists>r \<in> set (deliveries_of (ps_db s)). claimable (events_of (ps_db s)) (dd_webhooks (ps_db s)) now r \<and>
       due_of (events_of (ps_db s)) (dd_webhooks (ps_db s)) r = Some (fst p))"
  using assms(2)
proof (induction i arbitrary: s m)
  case (Suc i)
  let ?E = "events_of (ps_db s)" and ?W = "dd_webhooks (ps_db s)" and ?rows = "deliveries_of (ps_db s)"
  show ?case
  proof (cases "deliver_next H C id_text locked now s")
    case (Some p)
    obtain s' out where p: "p = (s', out)" by (cases p)
    note step = deliver_next_rows [OF assms(1) Some [unfolded p] Suc.prems]
    obtain r d f new where r: "r \<in> set ?rows" "claimable ?E ?W now r" "due_of ?E ?W r = Some d" "\<forall>x. processed now x (f x)"
        "ps_db s' = set_deliveries (map (\<lambda>x. if dv_id x = dv_id r then f x else x) ?rows) (ps_db s)"
        "ps_sends s' = ps_sends s @ new" "new = [] \<or> (\<exists>q. new = [(d, q)])"
      using deliver_next_effect [OF assms(1) Some [unfolded p]] by blast
    have d: "du_deliveryId d = dv_id r" using due_of_id [OF r(3)] by simp
    have ids: "distinct (map dv_id (deliveries_of (ps_db s')))" using rows_ids [OF step(1)] Suc.prems by simp
    have same: "events_of (ps_db s') = ?E" "dd_webhooks (ps_db s') = ?W" by (subst step(3), simp)+
    obtain rest where rest: "ps_sends (fst (deliverDue H C id_text locked now i s' (count_outcome out m))) = ps_sends s' @ rest"
        "distinct (map (\<lambda>p. du_deliveryId (fst p)) rest)"
        "\<forall>p \<in> set rest. \<exists>y \<in> set (deliveries_of (ps_db s')). claimable ?E ?W now y \<and> due_of ?E ?W y = Some (fst p)"
      using Suc.IH [OF ids, of "count_outcome out m", unfolded same] by blast
    have before: "\<exists>x \<in> set ?rows. claimable ?E ?W now x \<and> due_of ?E ?W x = Some (fst q)" if q: "q \<in> set rest" for q
    proof -
      obtain y where y: "y \<in> set (deliveries_of (ps_db s'))" "claimable ?E ?W now y" "due_of ?E ?W y = Some (fst q)"
        using rest(3) q by blast
      obtain x where "x \<in> set ?rows" "row_step ?E ?W now x y" using step(1) y(1) by (metis in_set_conv_nth list_all2_conv_all_nth)
      with y row_step_claimed show ?thesis by metis
    qed
    have "dv_id r \<noteq> du_deliveryId (fst q)" if q: "q \<in> set rest" for q
    proof
      assume same_id: "dv_id r = du_deliveryId (fst q)"
      obtain y where y: "y \<in> set (deliveries_of (ps_db s'))" "dv_id y = du_deliveryId (fst q)" "claimable ?E ?W now y"
        using rest(3) q due_of_id by blast
      obtain x where x: "x \<in> set ?rows" "y = (if dv_id x = dv_id r then f x else x)" using y(1) by (auto simp: r(5))
      have "dv_id (f x) = dv_id x" using r(4) processed_frame by blast
      with x y(2) same_id have "dv_id x = dv_id r" by (auto split: if_splits)
      with Suc.prems x(1) r(1) have "x = r" by (auto simp: distinct_map inj_on_def)
      with x(2) have "y = f r" by simp
      with y(3) r(2,4) processed_unclaimable claimable_undelivered show False by blast
    qed
    then have "distinct (map (\<lambda>p. du_deliveryId (fst p)) (new @ rest))" using r(7) rest(2) d by auto
    moreover have "\<forall>p \<in> set (new @ rest). \<exists>x \<in> set ?rows. claimable ?E ?W now x \<and> due_of ?E ?W x = Some (fst p)"
      using r(1,2,3,7) before by (metis Un_iff empty_iff empty_set fst_conv list.set_intros(1) set_ConsD set_append)
    moreover have "ps_sends (fst (deliverDue H C id_text locked now (Suc i) s m)) = ps_sends s @ (new @ rest)"
      using rest(1) r(6) by (simp add: Some p)
    ultimately show ?thesis by blast
  qed simp
qed simp

end
