(* ===== verification/Samples.thy ===== *)
theory Samples
  imports CompileChecks FlowAccount
begin

text \<open>
  A small form on which the theorems about whole forms are instantiated: a step with a boolean
  question, a repeating group of one short text, and a number shown by a rule on the boolean.
\<close>

definition sample_text :: localized_text where
  "sample_text = [(''en'', ''Text'')]"

definition sample_pin :: "string \<Rightarrow> question_ref" where
  "sample_pin q = \<lparr>ref_questionId = q, ref_version = 1, ref_groupId = None\<rparr>"

definition sample_group :: repeat_group where
  "sample_group =
     \<lparr>groupId = ''grp_b'', g_label = sample_text, instanceLabel = [(''en'', ''Pet {n}'')],
      g_items = [sample_pin ''q_b''], g_count = OpenCount 0 (Some 3), presentation = Stacked\<rparr>"

definition sample_rule :: visibility_rule where
  "sample_rule =
     \<lparr>ruleId = ''rul_a'', rule_when = CEquals ''q_a'' (ABool True), rule_show = [''q_c'']\<rparr>"

definition sample_form :: form_definition where
  "sample_form =
     \<lparr>formId = ''frm_a'', defaultLocale = ''en'', f_title = sample_text,
      f_steps =
        [\<lparr>stepId = ''stp_a'', s_title = sample_text,
          s_items = [QuestionItem (sample_pin ''q_a''), GroupItem sample_group,
                     QuestionItem (sample_pin ''q_c'')]\<rparr>],
      f_rules = [sample_rule]\<rparr>"

definition sample_question :: "string \<Rightarrow> question_body \<Rightarrow> question_definition" where
  "sample_question q b =
     \<lparr>questionId = q, q_label = sample_text, q_help = None, required = True, messages = None, body = b\<rparr>"

definition sample_bodies :: "(question_id \<times> question_body) list" where
  "sample_bodies =
     [(''q_a'', BooleanQ None None), (''q_b'', ShortText None (Some 10) None),
      (''q_c'', NumberQ (Some (Fin 0)) None True)]"

definition sample_resolve :: resolve_question where
  "sample_resolve q = map_option (sample_question q) (map_of sample_bodies q)"

definition sample_draft :: draft_input where
  "sample_draft =
     \<lparr>d_definition = sample_form,
      d_resolveQuestion = (\<lambda>q v. map_option (\<lambda>d. \<lparr>rec_questionId = q, rec_version = v, rec_definition = d\<rparr>) (sample_resolve q)),
      publishedQuestionVersions = (\<lambda>q. Some {1})\<rparr>"

definition sample_answers :: answer_map where
  "sample_answers = map_of [(''q_a'', JBool True), (''ins_x/q_b'', JStr ''Rex''), (''q_c'', JNum (Fin 4))]"

definition sample_rosters :: roster_map where
  "sample_rosters = map_of [(''grp_b'', [''ins_x''])]"

lemmas shape_defs = FormDefinition_shape_def Step_shape_def RepeatGroup_shape_def QuestionRef_shape_def
  VisibilityRule_shape_def LocalizedText_def LocaleCode_def id_defs idPattern_def canonical_value_def
  id_char_def lower_char_def

lemma sample_shape: "FormDefinition_shape id sample_form"
  by (simp add: shape_defs sample_form_def sample_rule_def sample_group_def sample_pin_def sample_text_def)

lemma sample_unambiguous: "unambiguous sample_form"
  by code_simp

lemma sample_evaluates:
  "case evaluate_form id sample_form sample_answers sample_resolve sample_rosters of
     Inl _ \<Rightarrow> False | Inr flow \<Rightarrow> complete flow \<and> length (visible flow) = 3"
  by code_simp

lemma sample_clean: "draft_errors sample_draft = []"
  by code_simp

lemma sample_publish_checked: "publish_checked id sample_form"
proof -
  have "d_definition sample_draft = sample_form" by (simp add: sample_draft_def)
  with clean_publish_checked [OF sample_clean] sample_shape show ?thesis by simp
qed

lemma sample_rosters_valid: "valid_rosters (rosterOf sample_rosters)"
  by (simp add: valid_rosters_def rosterOf_def sample_rosters_def InstanceId_def idPattern_def id_char_def)

lemma sample_keys:
  "answer_keys (documentOrder sample_form) (rosterOf sample_rosters) =
     [(''q_a'', ''q_a''), (''ins_x/q_b'', ''q_b''), (''q_c'', ''q_c'')]"
  by code_simp

lemma sample_validates:
  "validateAnswer id (\<lambda>_. None) (sample_question ''q_a'' (BooleanQ None None)) (JBool True) = Inr (ABool True)"
  "validateAnswer id (\<lambda>_. None) (sample_question ''q_b'' (ShortText None (Some 10) None)) (JStr ''Rex'') =
     Inr (AText ''Rex'')"
  "validateAnswer id (\<lambda>_. None) (sample_question ''q_c'' (NumberQ (Some (Fin 0)) None True)) (JNum (Fin 4)) =
     Inr (ANum (Fin 4))"
  by code_simp+

lemma sample_validated:
  "validated_answers id (\<lambda>_. None) sample_resolve sample_form sample_rosters sample_answers"
  unfolding validated_answers_def sample_keys using sample_validates
  by (force simp: sample_answers_def sample_resolve_def sample_bodies_def)

lemma sample_flow:
  obtains flow where "evaluate_form id sample_form sample_answers sample_resolve sample_rosters = Inr flow"
    "complete flow" "length (visible flow) = 3"
  using sample_evaluates by (auto split: sum.splits)

lemma unicode_nfc_id: "unicode_nfc id"
  by (simp add: unicode_nfc_def)

lemma sample_pinned:
  "pinned_question (snd (resolvePins sample_draft)) ''q_a'' = sample_resolve ''q_a''"
  "pinned_question (snd (resolvePins sample_draft)) ''q_b'' = sample_resolve ''q_b''"
  "pinned_question (snd (resolvePins sample_draft)) ''q_c'' = sample_resolve ''q_c''"
  by code_simp+

lemma sample_compiled:
  obtains out where "compileDraft (\<lambda>_. True) (\<lambda>_. True) sample_draft = Inr out"
    "snap_definition (out_snapshot out) = sample_form"
    "validated_answers id (\<lambda>_. None) (snapshot_question (out_snapshot out)) sample_form sample_rosters sample_answers"
proof -
  obtain out where out: "compileDraft (\<lambda>_. True) (\<lambda>_. True) sample_draft = Inr out"
    using sample_clean by (auto simp: compileDraft_Inr_iff)
  moreover have form: "d_definition sample_draft = sample_form" by (simp add: sample_draft_def)
  with out have "snap_definition (out_snapshot out) = sample_form" by (auto simp: compileDraft_Inr_iff)
  moreover have "snap_questions (out_snapshot out) =
      snapshot_questions (documentOrder (d_definition sample_draft)) (snd (resolvePins sample_draft))"
    using out by (auto simp: compileDraft_Inr_iff)
  from clean_snapshot_question [OF sample_clean this] sample_validated
  have "validated_answers id (\<lambda>_. None) (snapshot_question (out_snapshot out)) sample_form sample_rosters sample_answers"
    by (simp add: validated_answers_def sample_keys sample_pinned)
  ultimately show ?thesis by (rule that)
qed

text \<open>A form with a rule from one group to another, for the evaluation budget.\<close>

definition budget_group :: "group_id \<Rightarrow> question_id \<Rightarrow> int \<Rightarrow> repeat_group" where
  "budget_group g q mx =
     \<lparr>groupId = g, g_label = sample_text, instanceLabel = sample_text, g_items = [sample_pin q],
      g_count = OpenCount 0 (Some mx), presentation = Stacked\<rparr>"

definition budget_rule :: visibility_rule where
  "budget_rule =
     \<lparr>ruleId = ''rul_b'', rule_when = CAnyInstance ''grp_g'' (CAnswered ''q_g''), rule_show = [''q_t'']\<rparr>"

definition budget_form :: form_definition where
  "budget_form =
     \<lparr>formId = ''frm_b'', defaultLocale = ''en'', f_title = sample_text,
      f_steps =
        [\<lparr>stepId = ''stp_b'', s_title = sample_text,
          s_items = [GroupItem (budget_group ''grp_g'' ''q_g'' 40), GroupItem (budget_group ''grp_t'' ''q_t'' 30)]\<rparr>],
      f_rules = [budget_rule]\<rparr>"

lemma budget_form_clean: "analyzeRuleGraph budget_form = []"
  by code_simp

end
