(* ===== verification/ServerSamples.thy ===== *)
theory ServerSamples
  imports RosterFacts DeliverySafety Samples "HOL-Library.Product_Lexorder"
begin

text \<open>
  A random source that is fair, a counter over the sixteen bytes, and the orders and the
  session the concrete runs of the roster operations use.
\<close>

section \<open>The counter source\<close>

fun low_bytes :: "nat \<Rightarrow> nat \<Rightarrow> nat list" where
  "low_bytes 0 n = []"
| "low_bytes (Suc k) n = (n mod 256) # low_bytes k (n div 256)"

definition counter_source :: random_source where
  "counter_source n = low_bytes 16 n"

lemma low_bytes_shape: "length (low_bytes k n) = k" "\<forall>b \<in> set (low_bytes k n). b < 256"
  by (induction k arbitrary: n) auto

lemma low_bytes_inj: "low_bytes k m = low_bytes k n \<Longrightarrow> m mod 256 ^ k = n mod 256 ^ k"
proof (induction k arbitrary: m n)
  case (Suc k)
  from Suc.prems have "m mod 256 = n mod 256" "low_bytes k (m div 256) = low_bytes k (n div 256)"
    by (simp_all only: low_bytes.simps list.inject)
  with Suc.IH [OF this(2)] show ?case by (simp only: power_Suc mod_mult2_eq)
qed simp

lemma id_hex_digit_inj: "id_hex_digit a = id_hex_digit b \<Longrightarrow> a mod 16 = b mod 16"
proof -
  assume eq: "id_hex_digit a = id_hex_digit b"
  have "distinct ''0123456789abcdef''" by simp
  from nth_eq_iff_index_eq [OF this, of "a mod 16" "b mod 16"] eq show ?thesis
    by (simp add: id_hex_digit_def)
qed

lemma hex_byte_inj: "hex_byte a = hex_byte b \<Longrightarrow> a < 256 \<Longrightarrow> b < 256 \<Longrightarrow> a = b"
proof -
  assume eq: "hex_byte a = hex_byte b" and small: "a < 256" "b < 256"
  from eq have "a div 16 mod 16 = b div 16 mod 16" "a mod 16 = b mod 16"
    by (auto simp: hex_byte_def dest: id_hex_digit_inj)
  moreover have "a div 16 < 16" "b div 16 < 16" using small by auto
  ultimately show "a = b" by (metis div_mult_mod_eq mod_less)
qed

lemma instance_hex_inj:
  "concat (map hex_byte xs) = concat (map hex_byte ys) \<Longrightarrow> length xs = length ys \<Longrightarrow>
   \<forall>b \<in> set xs. b < 256 \<Longrightarrow> \<forall>b \<in> set ys. b < 256 \<Longrightarrow> xs = ys"
proof (induction xs ys rule: list_induct2')
  case (4 x xs y ys)
  have "hex_byte x @ concat (map hex_byte xs) = hex_byte y @ concat (map hex_byte ys)" using 4(2) by simp
  moreover have "length (hex_byte x) = length (hex_byte y)" by (simp add: hex_byte_def)
  ultimately have first: "hex_byte x = hex_byte y"
    and others: "concat (map hex_byte xs) = concat (map hex_byte ys)" by simp_all
  have "x = y" using 4(4,5) by (intro hex_byte_inj [OF first]) simp_all
  moreover have "xs = ys" using 4(3-5) by (intro 4(1) [OF others]) simp_all
  ultimately show ?case by simp
qed auto

lemma counter_inj: "newInstanceId (counter_source m) = newInstanceId (counter_source n) \<Longrightarrow> m mod ID_SPACE = n mod ID_SPACE"
proof -
  assume "newInstanceId (counter_source m) = newInstanceId (counter_source n)"
  then have "counter_source m = counter_source n"
    by (intro instance_hex_inj) (simp_all add: newInstanceId_def counter_source_def low_bytes_shape)
  from low_bytes_inj [OF this [unfolded counter_source_def]] show ?thesis by (simp add: ID_SPACE_def)
qed

lemma counter_draw_law: "draw_law counter_source"
  by (simp add: draw_law_def counter_source_def low_bytes_shape)

lemma same_residue: "(a :: nat) mod N = b mod N \<Longrightarrow> a \<le> b \<Longrightarrow> b < a + N \<Longrightarrow> a = b"
proof -
  assume mod_eq: "a mod N = b mod N" and order: "a \<le> b" "b < a + N"
  obtain s where "b = a + N * s" by (rule mod_eq_nat1E [OF mod_eq [symmetric] order(1)])
  with order(2) show "a = b" by (cases s) auto
qed

lemma counter_fair: "fair_source counter_source"
  unfolding fair_source_def
proof (intro allI impI)
  fix S :: "instance_id set" and pos
  assume S: "finite S \<and> card S < ID_SPACE"
  let ?f = "\<lambda>n. newInstanceId (counter_source n)" and ?w = "{pos..<pos + ID_SPACE}"
  have "inj_on ?f ?w"
  proof (rule inj_onI)
    fix m n assume w: "m \<in> ?w" "n \<in> ?w" and "?f m = ?f n"
    then have "m mod ID_SPACE = n mod ID_SPACE" by (intro counter_inj)
    then show "m = n" using w same_residue [of m ID_SPACE n] same_residue [of n ID_SPACE m]
      by (cases "m \<le> n") auto
  qed
  then have "card (?f ` ?w) = ID_SPACE" by (simp add: card_image)
  with S have "\<not> ?f ` ?w \<subseteq> S" using card_mono by (metis not_le)
  then show "\<exists>n \<ge> pos. ?f n \<notin> S" by auto
qed

section \<open>Orders and a session\<close>

definition time_order :: roster_orders where
  "time_order = \<lparr>ro_ledger = sort_key rr_occurredAt, ro_byGroup = sort_key rr_occurredAt,
     ro_byTime = sort_key rr_occurredAt\<rparr>"

lemma sorted_filter_map: "sorted (map f xs) \<Longrightarrow> sorted (map f (filter p xs))"
  by (induction xs) auto

lemma time_order_laws: "roster_order_laws time_order"
  by (simp add: roster_order_laws_def time_order_def ordering_law_def in_time_def of_group_def sorted_filter_map)

definition open_group :: repeat_group where
  "open_group = sample_group\<lparr>g_count := OpenCount 0 (Some 2)\<rparr>"

definition empty_session :: roster_state where
  "empty_session = \<lparr>rs_table = [], rs_draws = 0\<rparr>"

lemma empty_session_reachable: "roster_reachable time_order counter_source ''ses_a'' empty_session"
  unfolding roster_reachable_def
  by (intro exI [of _ empty_session] conjI stay) (simp add: of_session_def empty_session_def)

definition group_step :: step where
  "group_step = \<lparr>stepId = ''stp_g'', s_title = sample_text, s_items = [GroupItem open_group]\<rparr>"

text \<open>The session after its first operation, an instance added under a token.\<close>

definition added_session :: roster_state where
  "added_session = \<lparr>rs_table = [roster_row_of ''ses_a'' (groupId open_group) Added (Some ''tok_1'') 5
     ''ins_00000000000000000000000000000000''], rs_draws = 1\<rparr>"

lemma first_id: "newInstanceId (counter_source 0) = ''ins_00000000000000000000000000000000''"
proof -
  have "low_bytes k 0 = replicate k 0" for k by (induction k) simp_all
  moreover have "hex_byte 0 = ''00''" by (simp add: hex_byte_def id_hex_digit_def)
  moreover have "replicate 16 (0 :: nat) = [0, 0, 0, 0, 0, 0, 0, 0, 0, 0, 0, 0, 0, 0, 0, 0]" by code_simp
  ultimately show ?thesis by (simp add: newInstanceId_def counter_source_def)
qed

lemma first_mint: "mintDistinct counter_source 0 1 [] = Some ([''ins_00000000000000000000000000000000''], 1)"
  by (simp add: mintDistinct_def mint_loop.simps first_id)

lemma added_session_step:
  "applyRosterOp counter_source empty_session ''ses_a'' open_group
     (Some (readRoster time_order (rs_table empty_session) ''ses_a'' (groupId open_group))) Map.empty ''tok_1'' OpAdd 5 =
   Some (Inr \<lparr>op_replayed = False, op_minted = [''ins_00000000000000000000000000000000'']\<rparr>, added_session)"
proof -
  have empty: "readRoster time_order (rs_table empty_session) ''ses_a'' (groupId open_group) = EMPTY_ROSTER"
    by (simp add: readRoster_def time_order_def of_group_def of_session_def empty_session_def)
  show ?thesis unfolding empty
    by (simp add: applyRosterOp_def empty_session_def rosterOpApplied_def open_group_def at_maximum_def
      liveInstances_def liveInstanceLimit_def EMPTY_ROSTER_def mint_into_def minted_of_def first_mint addInstances_def
      added_session_def)
qed

lemma added_session_reachable: "roster_reachable time_order counter_source ''ses_a'' added_session"
proof -
  have "later_than ''ses_a'' (rs_table empty_session) 5" by (simp add: later_than_def empty_session_def of_session_def)
  from more [OF stay operate [OF this added_session_step]] show ?thesis
    unfolding roster_reachable_def
    by (intro exI [of _ empty_session] conjI) (simp_all add: empty_session_def of_session_def)
qed

text \<open>
  A small environment for concrete runs: one endpoint, one submitted response and one session,
  a cipher that keeps the text, and a consumer that always answers 500.
\<close>

definition plain_secret :: secret_host where
  "plain_secret = \<lparr>sh_digest = (\<lambda>_. []), sh_seal = (\<lambda>key iv text. 0 # text), sh_unseal = (\<lambda>key iv c. Some (tl c)),
     sh_text_decode = utf8_text\<rparr>"

definition failing_host :: delivery_host where
  "failing_host = \<lparr>dh_parse = (\<lambda>s. Some \<lparr>pu_protocol = ''https:'', pu_hostname = ''hooks.example'', pu_href = s\<rparr>),
     dh_number = (\<lambda>_. NaN), dh_secret = plain_secret, dh_hmac = (\<lambda>_ m. m), dh_stringify = (\<lambda>_. ''{}''),
     dh_iso = (\<lambda>_. ''2026-01-01T00:00:00.000Z''), dh_int_text = (\<lambda>_. ''500''), dh_delivery_uuid = (\<lambda>_. ''u''),
     dh_fetch = (\<lambda>_ _. Responded 500 ''no''), dh_latency = (\<lambda>_. 3), dh_uuid = id, dh_events = id, dh_hooks = id,
     dh_deliveries = id\<rparr>"

definition delivery_conf :: delivery_config where
  "delivery_conf = \<lparr>dc_allowPrivateTargets = False, dc_deliveryBatchSize = 20, dc_appKey = ''key''\<rparr>"

definition submitted_event :: outbox_row where
  "submitted_event = \<lparr>ob_id = 7, ob_eventType = RESPONSE_SUBMITTED,
     ob_payload = JObj [(''formId'', JStr ''frm_a''), (''sessionId'', JStr ''ses_a''), (''answers'', JArr [])],
     ob_createdAt = 0, ob_deliveredAt = None, ob_attempts = 0, ob_nextAttemptAt = 0, ob_deadLetteredAt = None,
     ob_lastError = None, ob_payloadRedactedAt = None\<rparr>"

definition sample_hook :: webhook_row where
  "sample_hook = \<lparr>wh_webhookId = ''whk_a'', wh_formId = ''frm_a'', wh_url = ''https://hooks.example/in?token=1'',
     wh_secretEncrypted = encryptWebhookSecret plain_secret (replicate 12 0) ''whsec_x'' ''key'', wh_active = True,
     wh_createdAt = 0, wh_updatedAt = 0, wh_deactivatedAt = None\<rparr>"

definition sample_session :: session_row where
  "sample_session = \<lparr>sn_sessionId = ''ses_a'', sn_formId = ''frm_a'', sn_formVersion = 1, sn_accessMode = Anonymous,
     sn_linkId = None, sn_environment = ''prod'', sn_status = Submitted, sn_expiresAt = 100, sn_createdAt = 0\<rparr>"

definition sample_db :: data_db where
  "sample_db = \<lparr>dd_sessions = [sample_session], dd_answers = \<lparr>at_rows = [], at_draws = 0\<rparr>,
     dd_rosters = \<lparr>rs_table = [], rs_draws = 0\<rparr>, dd_submissions = [],
     dd_outbox = \<lparr>ot_rows = [submitted_event], ot_draws = 8\<rparr>, dd_deliveries = \<lparr>dt_rows = [], dt_draws = 0\<rparr>,
     dd_webhooks = [sample_hook], dd_tombstones = []\<rparr>"

definition sample_state :: pass_state where
  "sample_state = \<lparr>ps_db = sample_db, ps_sends = []\<rparr>"

lemma sample_simps [simp]:
  "events_of sample_db = [submitted_event]" "deliveries_of sample_db = []" "dd_webhooks sample_db = [sample_hook]"
  "ps_db sample_state = sample_db" "ps_sends sample_state = []"
  by (simp_all add: sample_db_def sample_state_def)

lemma failing_laws: "delivery_laws failing_host"
  by (simp add: delivery_laws_def failing_host_def ordering_law_def)

lemma sample_sound: "deliveries_sound (dh_uuid failing_host) (dd_deliveries sample_db)"
  by (simp add: deliveries_sound_def sample_db_def)

lemma sample_covers: "batch_covers delivery_conf sample_db"
  by (simp add: batch_covers_def delivery_conf_def)

lemma sample_checks: "checks_hold sample_db"
  by (simp add: checks_hold_def submitted_event_def)

lemma sample_names_form: "resolveFormId (ob_payload submitted_event) = Some (wh_formId sample_hook)"
  by (simp add: resolveFormId_def submitted_event_def sample_hook_def) code_simp

lemma sample_erasure:
  "\<exists>outcome db. eraseSession sample_db ''frm_a'' ''ses_a'' ''asked'' 50 = Some (outcome, db) \<and> \<not> eo_alreadyErased outcome"
  by (simp add: eraseSession_def sample_db_def getSessionInForm_def sample_session_def)

lemma plain_secret_laws: "secret_laws plain_secret"
  by (simp add: secret_laws_def plain_secret_def)

lemma sample_pass_sends:
  "\<exists>d q. ps_sends (fst (runDeliveryPass failing_host delivery_conf (\<lambda>_. ''7'') [] [] 60 sample_state)) = [(d, q)]"
proof -
  have "length (ps_sends (fst (runDeliveryPass failing_host delivery_conf (\<lambda>_. ''7'') [] [] 60 sample_state))) = 1"
    by code_simp
  then show ?thesis by (auto simp: length_Suc_conv)
qed

section \<open>Numerals and ledgers\<close>

definition unary_numeral :: "8 word \<Rightarrow> string" where
  "unary_numeral b = replicate (unat b) CHR ''1''"

definition unary_number :: "string \<Rightarrow> jsnum" where
  "unary_number s = Fin (of_nat (length s))"

lemma unary_reads_octets: "reads_octets unary_number unary_numeral"
  by (simp add: reads_octets_def unary_number_def unary_numeral_def)

definition latest_first :: answer_orders where
  "latest_first = \<lparr>ao_latest = (\<lambda>rows. rev (sort_key (\<lambda>r. (ar_answeredAt r, ar_id r)) rows)),
     ao_ledger = sort_key (\<lambda>r. (ar_answeredAt r, ar_id r))\<rparr>"

lemma later_row_key: "later_row r r' \<longleftrightarrow> (ar_answeredAt r', ar_id r') \<le> (ar_answeredAt r, ar_id r)"
  by (auto simp: later_row_def less_eq_prod_def)

lemma latest_first_laws: "answer_order_laws latest_first"
proof -
  have up: "sorted_wrt (\<lambda>r r'. later_row r' r) (sort_key (\<lambda>r. (ar_answeredAt r, ar_id r)) rows)" for rows
    using sorted_sort_key [of "\<lambda>r. (ar_answeredAt r, ar_id r)" rows] unfolding later_row_key sorted_wrt_map .
  then have "sorted_wrt later_row (filter p (rev (sort_key (\<lambda>r. (ar_answeredAt r, ar_id r)) rows)))" for p rows
    by (intro sorted_wrt_filter) (simp add: sorted_wrt_rev)
  with up show ?thesis by (simp add: answer_order_laws_def latest_first_def ordering_law_def)
qed

definition ledger_row :: "nat \<Rightarrow> int \<Rightarrow> bool \<Rightarrow> answer_row" where
  "ledger_row i t isRetracted = \<lparr>ar_id = i, ar_sessionId = ''ses_a'', ar_questionId = ''q_a'', ar_instanceId = None,
     ar_value = (if isRetracted then None else Some (ABool True)), ar_retracted = isRetracted, ar_answeredAt = t\<rparr>"

end
