(* ===== verification/HydratedPage.thy ===== *)
theory HydratedPage
  imports PageFields
begin

text \<open>
  The hydrated host of \<^verbatim>\<open>apps/portal/components/step-flow.tsx\<close> expands a step before it knows the
  visible names, and the renderer expands the result again with them. For a group drawn as
  stacked cards that gives the page of the direct expansion; for a table it prunes nothing.
\<close>

section \<open>Expanding an expanded group\<close>

lemma filter_all: "length (filter P xs) = length xs \<Longrightarrow> filter P xs = xs"
  by (metis filter_True length_filter_less less_irrefl)

lemma pruneInstance_names:
  assumes "list_all2 question_control qs (in_template inp)" "in_visible inp = None"
  shows "field_names (pruneInstance vs (instanceNode inp i k)) = instance_names (Some vs) qs i"
proof -
  let ?n = "instanceNode inp i k"
  have controls: "childArray (nd_kids ?n) = map (qualifyNames i) (in_template inp)"
    using assms(2) by (simp add: instanceNode_def Let_def keepControl_def)
  have name: "stringProp (qualifyNames i n) ''name'' = Some (qualifiedFieldName i q)"
    if "question_control q n" for q n
    using that by (cases n) (simp add: question_control_def Let_def)
  have "concat (map field_names (filter (kept_name vs) (map (qualifyNames i) ns))) = instance_names (Some vs) qs' i"
    if "list_all2 question_control qs' ns" for qs' ns
    using that
  proof (induction rule: list_all2_induct)
    case (Cons q qs n ns)
    then show ?case
      by (simp add: kept_name_def name instance_names_def seen_Some field_names_qualify question_control_def)
  qed (simp add: instance_names_def)
  then have kept: "concat (map field_names (filter (kept_name vs) (childArray (nd_kids ?n)))) = instance_names (Some vs) qs i"
    unfolding controls using assms(1) .
  have "own_name ?n = []" by (simp add: instanceNode_def Let_def no_own_name image_Un instance_props_names)
  moreover have "own_name (A2Node (nd_type ?n) (nd_props ?n) ks) = own_name ?n" for ks
    by (simp add: own_name_def stringProp_def node_prop_def)
  ultimately show ?thesis
    using kept filter_all [of "kept_name vs" "childArray (nd_kids ?n)"]
    by (auto simp: pruneInstance_def field_names_node [of ?n] field_names_kids prunes_def instanceNode_def Let_def
        simp del: field_names.simps)
qed

lemma pruneExpanded_names:
  "field_names (pruneExpanded vs n) = own_name n @ concat (map (\<lambda>c. field_names (pruneInstance vs c)) (childArray (nd_kids n)))"
proof (cases "list_ex (prunes vs) (childArray (nd_kids n))")
  case True
  have "own_name (A2Node (nd_type n) (nd_props n) ks) = own_name n" for ks
    by (simp add: own_name_def stringProp_def node_prop_def)
  with True show ?thesis by (simp add: pruneExpanded_def field_names_kids comp_def del: field_names.simps)
next
  case False
  then have "pruneInstance vs c = c" if "c \<in> set (childArray (nd_kids n))" for c
    using that by (auto simp: list_ex_iff pruneInstance_def)
  with False show ?thesis by (simp add: pruneExpanded_def field_names_node [of n] cong: map_cong)
qed

lemma group_props_of_expanded:
  "stringProp (expandGroup e n) ''presentation'' = Some (opt_default ''stacked'' (stringProp n ''presentation''))"
  "stringProp n ''groupId'' = Some g \<Longrightarrow> stringProp (expandGroup e n) ''groupId'' = Some g"
  "nd_type (expandGroup e n) = REPEAT_GROUP_NODE_TYPE"
  by (simp_all add: expandGroup_def Let_def stringProp_def node_prop_def group_props_def)

lemma expandRepeatGroups_group:
  "nd_type n = REPEAT_GROUP_NODE_TYPE \<Longrightarrow> expandRepeatGroups e n =
     (if \<not> isExpanded n then expandGroup e n
      else case ex_visible e of None \<Rightarrow> n | Some vs \<Rightarrow> pruneExpanded vs n)"
  by (cases n) (simp only: expandRepeatGroups.simps Let_def a2_node.sel if_True simp_thms)

text \<open>The two passes of the hydrated host over one compiled group.\<close>

definition expand_twice :: "repeat_expansion \<Rightarrow> string list \<Rightarrow> a2_node \<Rightarrow> a2_node" where
  "expand_twice e vs n =
     expandRepeatGroups (e\<lparr>ex_visible := Some vs\<rparr>) (expandRepeatGroups (e\<lparr>ex_visible := None\<rparr>) n)"

lemma table_twice:
  assumes "group_node g n" "presentation g = Table"
  shows "field_names (expand_twice e vs n) =
    concat (map (\<lambda>i. map (\<lambda>r. answerKey (ref_questionId r) (Some i)) (g_items g)) (drawn e g))"
proof -
  let ?e = "e\<lparr>ex_visible := None\<rparr>"
  let ?m = "expandGroup ?e n"
  have first: "expandRepeatGroups ?e n = ?m"
    using assms(1) by (simp add: group_node_def expandRepeatGroups_group)
  have kids: "childArray (nd_kids ?m) = [repeatTableNode (table_input ?e n)]"
    using assms by (simp add: expandGroup_def Let_def group_node_def)
  have type: "nd_type (repeatTableNode inp) = REPEAT_TABLE_NODE_TYPE" for inp by (simp add: repeatTableNode_def Let_def)
  have "isExpanded ?m" by (simp add: isExpanded_def kids type)
  moreover have "pruneExpanded vs ?m = ?m"
    by (simp add: pruneExpanded_def kids type prunes_def node_types)
  ultimately have "expand_twice e vs n = ?m"
    unfolding expand_twice_def first by (simp add: expandRepeatGroups_group group_props_of_expanded)
  moreover have "group_drawn ?e n = drawn e g"
    using assms by (auto simp: group_drawn_def drawn_def group_node_def group_instances_def drawn_only_def Let_def
        split: option.split)
  ultimately show ?thesis
    using expandGroup_names [of "map ref_questionId (g_items g)" n ?e] assms(1)
    by (simp add: group_node_def instance_names_def [abs_def] seen_def qualifiedFieldName_answerKey comp_def)
qed

lemma stacked_kids:
  assumes "group_node g n" "presentation g \<noteq> Table"
  shows "childArray (nd_kids (expandGroup e n)) = stackedChildren (table_input e n) (drawn_only e n)"
proof -
  have "opt_default ''stacked'' (stringProp n ''presentation'') \<noteq> ''table''"
    using assms by (simp add: group_node_def)
  then show ?thesis by (simp add: expandGroup_def Let_def)
qed

lemma stacked_instances:
  "filter (\<lambda>c. nd_type c = REPEAT_INSTANCE_NODE_TYPE \<or> nd_type c = REPEAT_TABLE_NODE_TYPE) (stackedChildren inp d) =
     map (\<lambda>(k, i). instanceNode inp i k)
       (filter (\<lambda>(k, i). d = None \<or> d = Some i) (List.enumerate 0 (in_instances inp)))"
proof -
  have heading: "nd_type (groupHeading l lev) = ''Text''" for l lev by (simp add: groupHeading_def)
  have inst: "nd_type (instanceNode inp i k) = REPEAT_INSTANCE_NODE_TYPE" for i k by (simp add: instanceNode_def Let_def)
  have "filter (\<lambda>c. nd_type c = REPEAT_INSTANCE_NODE_TYPE \<or> nd_type c = REPEAT_TABLE_NODE_TYPE)
      (map (\<lambda>(k, i). instanceNode inp i k) xs) = map (\<lambda>(k, i). instanceNode inp i k) xs" for xs
    by (induction xs) (auto simp: inst)
  then show ?thesis by (simp add: stackedChildren_def heading node_types)
qed

lemma live_instances:
  "map snd (filter (\<lambda>(k, i). P i) (List.enumerate 0 xs)) = filter P xs"
  using filter_enumerate [of "\<lambda>x. x" P 0 xs] by (simp add: split_def)

lemma heading_names: "field_names (groupHeading l lev) = []"
  by (simp add: groupHeading_def field_names_kids no_own_name del: field_names.simps)

lemma stacked_twice:
  assumes "group_node g n" "presentation g \<noteq> Table"
  shows "field_names (expand_twice e vs n) = page_item e vs (GroupItem g)"
proof -
  let ?e = "e\<lparr>ex_visible := None\<rparr>" and ?e' = "e\<lparr>ex_visible := Some vs\<rparr>" and ?qs = "map ref_questionId (g_items g)"
  let ?m = "expandGroup ?e n" and ?inp = "table_input ?e n" and ?d = "drawn_only ?e n"
  let ?live = "filter (\<lambda>(k, i). ?d = None \<or> ?d = Some i) (List.enumerate 0 (in_instances ?inp))"
  have first: "expandRepeatGroups ?e n = ?m"
    using assms(1) by (simp add: group_node_def expandRepeatGroups_group)
  have tmpl: "list_all2 question_control ?qs (in_template ?inp)" and vis: "in_visible ?inp = None"
    using assms(1) by (simp_all add: group_node_def table_input_def)
  have gid: "stringProp n ''groupId'' = Some (groupId g)" and pres: "stringProp n ''presentation'' \<noteq> Some ''table''"
    using assms by (simp_all add: group_node_def)
  have "map snd ?live = filter (\<lambda>i. ?d = None \<or> ?d = Some i) (group_instances ?e n)"
    by (simp add: live_instances table_input_def)
  also have "\<dots> = drawn e g"
    using gid assms(2) by (auto simp: drawn_def group_instances_def drawn_only_def Let_def split: option.split)
  finally have live: "map snd ?live = drawn e g" .
  have own: "own_name ?m = []" by (simp add: expandGroup_def Let_def no_own_name group_props_names)
  have page: "page_item e vs (GroupItem g) = concat (map (instance_names (Some vs) ?qs) (drawn e g))"
    by (simp add: instance_names_def [abs_def] seen_Some qualifiedFieldName_answerKey comp_def filter_concat)
  have expanded: "isExpanded ?m \<longleftrightarrow> ?live \<noteq> []"
    using arg_cong [OF stacked_instances [of ?inp ?d], of "\<lambda>xs. xs \<noteq> []"]
    by (auto simp: isExpanded_def stacked_kids [OF assms] list_ex_iff filter_empty_conv)
  show ?thesis
  proof (cases "?live = []")
    case True
    have "stringProp ?m ''groupId'' = Some (groupId g)" by (rule group_props_of_expanded(2) [OF gid])
    then have same: "in_instances (table_input ?e' ?m) = in_instances ?inp" "drawn_only ?e' ?m = ?d"
      using gid by (simp_all add: table_input_def group_instances_def drawn_only_def)
    have kids: "childArray (nd_kids (expandGroup ?e' ?m)) = stackedChildren (table_input ?e' ?m) (drawn_only ?e' ?m)"
      using pres by (cases "stringProp n ''presentation''") (simp_all add: expandGroup_def [of ?e'] Let_def group_props_of_expanded)
    have "concat (map field_names (stackedChildren (table_input ?e' ?m) (drawn_only ?e' ?m))) = []"
      unfolding stackedChildren_def same True by (simp add: heading_names)
    moreover have "own_name (expandGroup ?e' ?m) = []" by (simp add: expandGroup_def [of ?e'] Let_def no_own_name group_props_names)
    ultimately have "field_names (expandGroup ?e' ?m) = []" by (simp add: field_names_node [of "expandGroup _ _"] kids)
    moreover have "drawn e g = []" using live True by simp
    moreover have "expandRepeatGroups ?e' ?m = expandGroup ?e' ?m"
      using expanded True by (simp add: expandRepeatGroups_group group_props_of_expanded)
    ultimately show ?thesis unfolding expand_twice_def first page by simp
  next
    case False
    have heading: "field_names (pruneInstance vs (groupHeading l lev)) = []" for l lev
      using heading_names [of l lev]
      by (simp add: pruneInstance_def prunes_def groupHeading_def REPEAT_INSTANCE_NODE_TYPE_def del: field_names.simps)
    have "concat (map (\<lambda>c. field_names (pruneInstance vs c)) (stackedChildren ?inp ?d)) =
        concat (map (\<lambda>(k, i). instance_names (Some vs) ?qs i) ?live)"
      by (simp add: stackedChildren_def heading pruneInstance_names [OF tmpl vis] comp_def split_def)
    also have "map (\<lambda>(k, i). instance_names (Some vs) ?qs i) ?live = map (instance_names (Some vs) ?qs) (map snd ?live)"
      by (simp add: split_def)
    finally have "field_names (pruneExpanded vs ?m) = page_item e vs (GroupItem g)"
      unfolding page live by (simp add: pruneExpanded_names own stacked_kids [OF assms])
    with False expanded show ?thesis
      unfolding expand_twice_def first by (simp add: expandRepeatGroups_group group_props_of_expanded)
  qed
qed

end
