(* ===== verification/FormSamples.thy ===== *)
theory FormSamples
  imports PrepareSubmission HydratedPage Samples
begin

text \<open>
  Submissions of the sample form, and a published form whose rule compares an answer that is not
  of the type of its question.
\<close>

definition sample_submit :: "form_definition \<Rightarrow> submission_host" where
  "sample_submit f =
     \<lparr>s_nfc = id, s_regex = (\<lambda>_. None), s_decode = (\<lambda>_. Inr f), s_compare = (\<lambda>a b. if str_lt a b then - 1 else 1),
      s_num_text = (\<lambda>_. ''4''), s_sha256 = (\<lambda>bytes. take 2 bytes)\<rparr>"

lemma sample_submit_simps [simp]:
  "s_nfc (sample_submit f) = id" "s_regex (sample_submit f) = (\<lambda>_. None)"
  "s_decode (sample_submit f) = (\<lambda>_. Inr f)" "s_num_text (sample_submit f) = (\<lambda>_. ''4'')"
  by (simp_all add: sample_submit_def)

definition snapshot_of :: "draft_input \<Rightarrow> frozen_snapshot" where
  "snapshot_of draft =
     \<lparr>snap_definition = d_definition draft,
      snap_questions = snapshot_questions (documentOrder (d_definition draft)) (snd (resolvePins draft)),
      semanticsVersion = SEMANTICS_VERSION, schemaVersion = SNAPSHOT_SCHEMA_VERSION\<rparr>"

definition sample_entries :: "(answer_key \<times> jsval) list" where
  "sample_entries = [(''q_a'', JBool True), (''ins_x/q_b'', JStr ''Rex''), (''q_c'', JNum (Fin 4))]"

lemma sample_submission:
  "case prepareSubmission (sample_submit sample_form) JNull (snapshot_of sample_draft) sample_entries sample_rosters of
     Inl _ \<Rightarrow> False | Inr locked \<Rightarrow> map la_value (lk_answers locked) = [ABool True, AText ''Rex'', ANum (Fin 4)]"
  by code_simp

lemma sample_refused:
  "prepareSubmission (sample_submit sample_form) JNull (snapshot_of sample_draft)
     [(''q_a'', JBool True), (''q_c'', JNum (Fin (- 1))), (''q_z'', JBool True)] sample_rosters =
   Inl [MISSING_REQUIRED ''q_b'' (Some ''ins_x''),
        INVALID_ANSWER ''q_c'' None [failure VALUE_BELOW_MIN MinBound], UNKNOWN_QUESTION ''q_z'' None]"
  by code_simp

definition compare_form :: form_definition where
  "compare_form =
     \<lparr>formId = ''frm_n'', defaultLocale = ''en'', f_title = sample_text,
      f_steps =
        [\<lparr>stepId = ''stp_n'', s_title = sample_text,
          s_items = [QuestionItem (sample_pin ''q_c''), QuestionItem (sample_pin ''q_b'')]\<rparr>],
      f_rules = [\<lparr>ruleId = ''rul_n'', rule_when = CGt ''q_c'' (ANum (Fin 5)), rule_show = [''q_b'']\<rparr>]\<rparr>"

definition compare_draft :: draft_input where
  "compare_draft = sample_draft\<lparr>d_definition := compare_form\<rparr>"

lemma compare_compiles: "draft_errors compare_draft = []"
  by code_simp

lemma compare_fails:
  "prepareSubmission (sample_submit compare_form) JNull (snapshot_of compare_draft) [(''q_c'', JStr ''six'')] (\<lambda>_. None) =
   Inl [FLOW_EVALUATION_FAILED (CONDITION_TYPE_MISMATCH ''rul_n'' ''gt'' ''q_c'')]"
  by code_simp

text \<open>
  The sample form compiled and drawn: the inputs on which the theorems about pages are
  instantiated.
\<close>

lemma sample_own_ids: "stored_under_own_id sample_draft"
  by (auto simp: stored_under_own_id_def sample_draft_def sample_resolve_def sample_question_def)

lemma sample_compiled_form:
  obtains out form where "compileDraft (\<lambda>_. True) (\<lambda>_. True) sample_draft = Inr out"
    "compileForm (out_snapshot out) None = Some form" "snap_definition (out_snapshot out) = sample_form"
proof -
  obtain out where out: "compileDraft (\<lambda>_. True) (\<lambda>_. True) sample_draft = Inr out"
    "snap_definition (out_snapshot out) = sample_form" by (rule sample_compiled)
  from compiled_form_total [OF out(1), of None] out that show thesis by blast
qed

text \<open>A group drawn as a table, compiled on its own, and a roster of two instances.\<close>

definition table_group :: repeat_group where
  "table_group = sample_group\<lparr>presentation := Table\<rparr>"

definition sample_step_context :: step_context where
  "sample_step_context =
     \<lparr>sc_snapshot = \<lparr>snap_definition = sample_form, snap_questions = [], semanticsVersion = 1, schemaVersion = 2\<rparr>,
      sc_locale = ''en'', sc_resolveText = textResolver ''en'' ''en'',
      sc_resolveQuestion = (\<lambda>r. sample_resolve (ref_questionId r)), isFirstStep = True\<rparr>"

definition table_node :: a2_node where
  "table_node = the (item_node sample_step_context (GroupItem table_group))"

definition card_node :: a2_node where
  "card_node = the (item_node sample_step_context (GroupItem sample_group))"

definition two_instances :: repeat_expansion where
  "two_instances =
     \<lparr>ex_rosters = [(''grp_b'', [''ins_x'', ''ins_y''])], ex_visible = None, ex_opToken = None, ex_view = None\<rparr>"

lemma sample_resolver_sound: "resolver_sound sample_step_context"
  by (auto simp: resolver_sound_def sample_step_context_def sample_resolve_def sample_question_def)

lemma sample_nodes_compiled:
  "\<exists>n. item_node sample_step_context (GroupItem table_group) = Some n"
  "\<exists>n. item_node sample_step_context (GroupItem sample_group) = Some n"
proof -
  have "item_node sample_step_context (GroupItem table_group) \<noteq> None" by code_simp
  then show "\<exists>n. item_node sample_step_context (GroupItem table_group) = Some n" by blast
  have "item_node sample_step_context (GroupItem sample_group) \<noteq> None" by code_simp
  then show "\<exists>n. item_node sample_step_context (GroupItem sample_group) = Some n" by blast
qed

lemma sample_group_nodes: "group_node table_group table_node" "group_node sample_group card_node"
  using sample_nodes_compiled group_node_compiled [OF sample_resolver_sound]
  by (auto simp: table_node_def card_node_def)

lemma two_instances_drawn:
  "drawn two_instances table_group = [''ins_x'', ''ins_y'']" "drawn two_instances sample_group = [''ins_x'', ''ins_y'']"
  by code_simp+

lemma presentations: "presentation table_group = Table" "presentation sample_group \<noteq> Table"
  "map ref_questionId (g_items table_group) = [''q_b'']"
  by code_simp+

end
