(* ===== verification/RegistrySamples.thy ===== *)
theory RegistrySamples
  imports RespondFacts ServerSamples FormSamples
begin

text \<open>
  The sample form in an installation: its questions created and published, the form published,
  and a session of it opened. The theorems on what is published and served are instantiated here.
\<close>

section \<open>The host\<close>

lemma decimal_snoc: "decimal (xs @ [c]) = decimal xs * 10 + int (of_char c - 48)"
  by (simp add: decimal_def)

definition sample_int_text :: "int \<Rightarrow> string" where
  "sample_int_text n = nat_digits (nat n)"

definition sample_release_host :: release_host where
  "sample_release_host = \<lparr>rh_served = [], rh_environment = (\<lambda>_. True), rh_rule_order = id, rh_history_order = id,
     rh_uuid = (\<lambda>_. id), rh_iso = (\<lambda>_. []), rh_int_text = sample_int_text\<rparr>"

definition sample_author :: authoring_host where
  "sample_author = \<lparr>ah_release = sample_release_host, ah_decode = (\<lambda>_. Inr sample_form), ah_encode = (\<lambda>_. JNull),
     ah_compiles_u = (\<lambda>_. True), ah_compiles_v = (\<lambda>_. True), ah_version_order = sort_key qv_version\<rparr>"

definition sample_library :: library_host where
  "sample_library = \<lparr>lh_release = sample_release_host,
     lh_decode = (\<lambda>v. case v of JStr q \<Rightarrow> (case sample_resolve q of Some d \<Rightarrow> Inr d | None \<Rightarrow> Inl []) | _ \<Rightarrow> Inl []),
     lh_compiles_u = (\<lambda>_. True), lh_compiles_v = (\<lambda>_. True), lh_number = (\<lambda>_. Fin 1), lh_lower = id,
     lh_version_order = sort_key qv_version, lh_question_order = id\<rparr>"

definition sample_respond :: respond_host where
  "sample_respond = \<lparr>ph_submit = sample_submit sample_form, ph_encode = (\<lambda>_. JNull), ph_answers = latest_first,
     ph_rosters = time_order, ph_random = counter_source, ph_uuid = id, ph_outbox = id, ph_iso = (\<lambda>_. [])\<rparr>"

section \<open>The requests\<close>

definition library_control :: control_db where
  "library_control = \<lparr>db_members = [], db_teams = [], db_teamMembers = [],
     db_workspaces = [\<lparr>ws_id = ''wsp_a'', ws_archived = False\<rparr>], db_forms = [], db_questions = []\<rparr>"

definition sample_env :: admin_env where
  "sample_env = \<lparr>ae_control = library_control, ae_ledgers = (\<lambda>_. []), ae_between = id, ae_forms = [], ae_versions = [],
     ae_releases = [], ae_questions = [], ae_questionVersions = [], ae_revisions = [],
     ae_caller = \<lparr>rc_userId = ''usr_a'', rc_role = None, rc_workspaceId = None\<rparr>, ae_site = None, ae_now = 1\<rparr>"

definition sample_registry :: registry where
  "sample_registry = \<lparr>rd_forms = [], rd_versions = [], rd_drafts = [], rd_questions = [], rd_questionVersions = [],
     rd_releases = [], rd_workflow = \<lparr>wt_revisions = [], wt_rules = []\<rparr>, rd_batches = [],
     rd_workspaces = [\<lparr>rws_id = ''wsp_a'', rws_archived = False, rws_requireSecondApprover = False, rws_isShared = True\<rparr>],
     rd_outboxes = (\<lambda>_. \<lparr>ot_rows = [], ot_draws = 0\<rparr>), rd_agentActions = [], rd_accessAudit = []\<rparr>"

definition sample_questions :: "admin_call list" where
  "sample_questions = concat (map (\<lambda>q. [CreateQuestion (JStr q) q None, PublishVersion q ''1'']) [''q_a'', ''q_b'', ''q_c''])"

definition sample_calls :: "admin_call list" where
  "sample_calls = sample_questions @
     [CreateForm \<lparr>cf_formId = ''frm_a'', cf_slug = ''pets'', cf_defaultLocale = ''en'', cf_workspaceId = None\<rparr>,
      PutDraft ''frm_a'' JNull False, PublishForm ''frm_a'']"

fun admin_calls :: "registry \<Rightarrow> admin_call list \<Rightarrow> registry option" where
  "admin_calls db [] = Some db"
| "admin_calls db (q # qs) = Option.bind (admin_step sample_author sample_library [] sample_env db q) (\<lambda>db. admin_calls db qs)"

lemma admin_calls_run:
  "admin_calls db qs = Some db' \<Longrightarrow> admin_run sample_author sample_library [] db0 db \<Longrightarrow>
     admin_run sample_author sample_library [] db0 db'"
proof (induction qs arbitrary: db)
  case (Cons q qs)
  then obtain db1 where step: "admin_step sample_author sample_library [] sample_env db q = Some db1" "admin_calls db1 qs = Some db'"
    by (auto simp: bind_eq_Some_conv)
  have "admin_run sample_author sample_library [] db (ae_between sample_env db)" by (simp add: sample_env_def admin_run.Start)
  from admin_run.Step [OF Cons.prems(2) this step(1)] show ?case by (rule Cons.IH [OF step(2)])
qed simp

lemma sample_published:
  "case admin_calls sample_registry sample_calls of None \<Rightarrow> False | Some db \<Rightarrow>
     map (\<lambda>r. (qv_questionId r, qv_status r)) (rd_questionVersions db) =
       [(''q_a'', QuestionPublished), (''q_b'', QuestionPublished), (''q_c'', QuestionPublished)] \<and>
     (case rd_versions db of [v] \<Rightarrow> fv_definition v = sample_form \<and> fv_formId v = ''frm_a'' \<and> fv_version v = 1 | _ \<Rightarrow> False)"
  by code_simp

section \<open>The laws of the host\<close>

lemma nat_digits_dec: "nat_digits n \<noteq> [] \<and> list_all is_dec (nat_digits n)"
proof (induction n rule: nat_digits.induct)
  case (1 n)
  have digit: "is_dec (char_of (48 + m))" if "m < 10" for m :: nat
    using that by (simp add: is_dec_def)
  with 1 show ?case by (subst (1 2) nat_digits.simps) auto
qed

lemma decimal_nat_digits: "decimal (nat_digits n) = int n"
proof (induction n rule: nat_digits.induct)
  case (1 n)
  have digit: "decimal [char_of (48 + m)] = int m" if "m < 10" for m :: nat
    using that by (simp add: decimal_def)
  show ?case
  proof (cases "n < 10")
    case True
    then show ?thesis by (subst nat_digits.simps) (simp add: digit)
  next
    case False
    have "int (of_char (char_of (48 + n mod 10)) - 48) = int (n mod 10)" by simp
    moreover have "int (n div 10) * 10 + int (n mod 10) = int n" by (metis div_mult_mod_eq of_nat_add of_nat_mult of_nat_numeral)
    ultimately show ?thesis using 1 [OF False] False by (subst nat_digits.simps) (simp add: decimal_snoc)
  qed
qed

lemma sample_int_text_law: "int_text_law sample_release_host"
  using nat_digits_dec decimal_nat_digits by (simp add: int_text_law_def sample_release_host_def sample_int_text_def)

lemma sample_order: "ordering_law (ah_version_order sample_author)"
  by (simp add: sample_author_def ordering_law_def)

lemma sample_respond_laws: "respond_laws sample_author sample_respond"
proof -
  have "encode_law sample_respond"
    by (auto simp: encode_law_def unwrapDefinition_def sample_respond_def FormDefinition_def js_field_def ok_def
      split: sum.splits list.splits)
  moreover have "decode_law sample_respond"
    using sample_shape by (simp add: decode_law_def sample_respond_def)
  ultimately show ?thesis
    by (simp add: respond_laws_def sample_respond_def sample_author_def sample_submit_def unicode_nfc_id latest_first_laws
      time_order_laws counter_draw_law counter_fair)
qed

lemma sample_empty: "empty_registry sample_registry"
  by (simp add: empty_registry_def sample_registry_def)

lemma sample_fits: "groups_fit (f_steps sample_form)"
  by (simp add: groups_fit_def sample_form_def repeatGroups_def sample_group_def ID_SPACE_def)

section \<open>The session\<close>

definition open_session :: session_row where
  "open_session = sample_session\<lparr>sn_status := Created\<rparr>"

definition open_db :: data_db where
  "open_db = \<lparr>dd_sessions = [open_session], dd_answers = \<lparr>at_rows = [], at_draws = 0\<rparr>,
     dd_rosters = \<lparr>rs_table = [], rs_draws = 0\<rparr>, dd_submissions = [], dd_outbox = \<lparr>ot_rows = [], ot_draws = 0\<rparr>,
     dd_deliveries = \<lparr>dt_rows = [], dt_draws = 0\<rparr>, dd_webhooks = [], dd_tombstones = []\<rparr>"

lemma sample_run:
  obtains reg v where "admin_calls sample_registry sample_calls = Some reg" "admin_run sample_author sample_library [] sample_registry reg"
    "version_at (rd_versions reg) (sn_formId open_session) (sn_formVersion open_session) = Some v" "fv_definition v = sample_form"
proof -
  obtain reg where reg: "admin_calls sample_registry sample_calls = Some reg" using sample_published by (cases "admin_calls sample_registry sample_calls") auto
  then obtain v where "rd_versions reg = [v]" "fv_definition v = sample_form" "fv_formId v = ''frm_a''" "fv_version v = 1"
    using sample_published by (auto split: list.splits)
  then have "version_at (rd_versions reg) (sn_formId open_session) (sn_formVersion open_session) = Some v" "fv_definition v = sample_form"
    by (simp_all add: version_at_def open_session_def sample_session_def)
  with that reg admin_calls_run [OF reg admin_run.Start] show thesis by blast
qed

lemma admin_calls_append: "admin_calls db (ps @ qs) = Option.bind (admin_calls db ps) (\<lambda>db. admin_calls db qs)"
  by (induction ps arbitrary: db) (auto split: bind_splits)

lemma sample_deprecates:
  "case admin_calls sample_registry sample_calls of None \<Rightarrow> False
   | Some reg \<Rightarrow> admin_step sample_author sample_library [] sample_env reg (DeprecateVersion ''q_a'' ''1'') \<noteq> None"
proof -
  have "case admin_calls sample_registry (sample_calls @ [DeprecateVersion ''q_a'' ''1'']) of None \<Rightarrow> False | Some _ \<Rightarrow> True" by code_simp
  then show ?thesis by (auto simp: admin_calls_append split: option.splits bind_splits)
qed

lemma open_rows: "session_rows ''ses_a'' open_db = ([], [])"
  by (simp add: session_rows_def open_db_def rows_of_session_def of_session_def)

lemma open_active: "loadActiveSession (dd_sessions open_db) ''ses_a'' 5 = Inr open_session"
  by (simp add: loadActiveSession_def open_db_def open_session_def sample_session_def getSession_def)

text \<open>The session with both questions outside the group answered.\<close>

definition answered_db :: data_db where
  "answered_db = open_db\<lparr>dd_answers := \<lparr>at_rows =
     [\<lparr>ar_id = 0, ar_sessionId = ''ses_a'', ar_questionId = ''q_a'', ar_instanceId = None, ar_value = Some (ABool True),
        ar_retracted = False, ar_answeredAt = 1\<rparr>,
      \<lparr>ar_id = 1, ar_sessionId = ''ses_a'', ar_questionId = ''q_c'', ar_instanceId = None, ar_value = Some (ANum (Fin 4)),
        ar_retracted = False, ar_answeredAt = 2\<rparr>], at_draws = 2\<rparr>\<rparr>"

lemma answered_submits:
  "case submit_tx sample_respond (snapshot_of sample_draft) open_session None 5 5 answered_db of
     Inl _ \<Rightarrow> False | Inr (r, db) \<Rightarrow> length (dd_submissions db) = 1 \<and> length (ot_rows (dd_outbox db)) = 1"
  by code_simp

declare mint_loop.simps [code]

lemma sample_step_served:
  "case admin_calls sample_registry sample_calls of None \<Rightarrow> False
   | Some reg \<Rightarrow> (case getStep sample_respond (tables_of reg) id answered_db ''ses_a'' None 5 5 of Inl _ \<Rightarrow> False
       | Inr (response, db) \<Rightarrow> length (sr_visibleQuestions response) = 3 \<and> \<not> sr_readyToSubmit response)"
  by code_simp

lemma sample_answer_lands:
  "case admin_calls sample_registry sample_calls of None \<Rightarrow> False
   | Some reg \<Rightarrow> (case submitAnswer sample_respond (tables_of reg) id answered_db ''ses_a''
         \<lparr>ab_questionId = ''q_a'', ab_instanceId = None, ab_value = JBool False\<rparr> None 5 5 of Inl _ \<Rightarrow> False
       | Inr (response, db) \<Rightarrow> length (sr_visibleQuestions response) = 2 \<and> length (at_rows (dd_answers db)) = 3)"
  by code_simp

section \<open>A link\<close>

definition sample_start :: "byte start_host" where
  "sample_start = \<lparr>sh_token = sample_host, sh_linkKeys = [7], sh_sessionKeys = [8], sh_anonymousTtl = 1000,
     sh_iso = (\<lambda>_. ''later''), sh_environment = ''prod'', sh_served = [''prod''], sh_bytes = (\<lambda>n. [n])\<rparr>"

lemma sample_start_simps [simp]:
  "sh_sessionKeys sample_start = [8]" "sh_environment sample_start = ''prod''"
  by (simp_all add: sample_start_def)

definition released_tables :: pinned_tables where
  "released_tables = \<lparr>pt_forms = [],
     pt_versions = [\<lparr>fv_formId = ''frm_a'', fv_version = 1, fv_definition = sample_form,
        fv_compiled = \<lparr>documents = [], compilerVersion = [], a2uiSpecVersion = []\<rparr>, fv_semanticsVersion = ''1'',
        fv_publishedAt = 0, fv_publishedBy = None\<rparr>],
     pt_questions = [],
     pt_releases = [\<lparr>rl_formId = ''frm_a'', rl_environment = ''prod'', rl_version = 1, rl_sequence = 1,
        rl_fromEnvironment = None, rl_releasedBy = ''usr_a'', rl_approvedBy = None, rl_closed = False, rl_releasedAt = 0\<rparr>]\<rparr>"

definition linked_db :: start_db where
  "linked_db = \<lparr>sd_links = [\<lparr>sl_linkId = ''lnk_b'', sl_formId = ''frm_a'', sl_expiresAt = 4, sl_oneTime = True,
     sl_consumedAt = None, sl_revokedAt = None, sl_createdAt = 0, sl_environment = ''prod''\<rparr>], sd_data = open_db\<rparr>"

lemma sample_token:
  obtains token where "mintSecureLink sample_host (JObj (link_entries sample_link)) 7 = Inr token"
    "verifySecureLink sample_host token [7] (Fin 1) None = Inr sample_link"
proof -
  obtain token where token: "mintSecureLink sample_host (JObj (link_entries sample_link)) 7 = Inr token"
    using sample_minted by blast
  have signed: "signCompactToken sample_host LinkPurpose (link_entries sample_link) 7 = Inr token"
    using token sample_link_parses by (auto simp: mint_iff)
  note shape = LinkClaims_shape [OF sample_link_parses]
  have "7 \<in> set [7 :: byte]" by simp
  from verify_signed_trusted [OF sample_host_laws(1) signable_link [OF shape] signed this, of LinkPurpose "Fin 1"]
  have "verifyCompactToken sample_host LinkPurpose token [7] (Fin 1) =
      (if claims_expired sample_host (link_entries sample_link) (Fin 1) then err EXPIRED else ok (returned (link_entries sample_link)))" by simp
  from link_of_verified [OF shape this, of None] have "verifySecureLink sample_host token [7] (Fin 1) None = Inr sample_link"
    by (simp add: num_ge_def sample_host_def sample_link_def ok_def)
  with token that show thesis by blast
qed

lemma sample_starts:
  assumes "verifySecureLink sample_host token [7] (Fin 1) None = Inr sample_link"
  shows "link_checks sample_start released_tables linked_db token False 1 = Inr (sample_link, 1)"
    "\<exists>result db. startFromSecureLink sample_start released_tables id linked_db token False 9 1 1 = Inr (result, db) \<and>
       length (dd_sessions (sd_data db)) = 2"
proof -
  show checks: "link_checks sample_start released_tables linked_db token False 1 = Inr (sample_link, 1)"
    using assms by (simp add: link_checks_def sample_start_def linked_db_def released_tables_def sample_link_def getSecureLink_def
      assertLinkUsable_def requireOpenEnvironment_def getFormEnvironmentState_def getReleasedVersion_def enforceChallenge_def
      form_by_id_def throw_simps throw_if_def of_pair_def)
  let ?i = "newSessionId (sh_bytes sample_start 9)"
  obtain t where session_token: "mintSessionToken sample_start ?i 4 8 = Inr t"
    by (simp add: mintSessionToken_def signCompactToken_def ok_def Let_def)
  have other: "?i \<noteq> ''ses_a''"
    by (simp add: newSessionId_def sample_start_def hex_byte_def id_hex_digit_def)
  have expiry: "sessionExpiresAt SecureLink 1 (Some (link_expiry sample_start (lc_expiresAt sample_link) 1)) (sh_anonymousTtl sample_start) = Some 4"
    by (simp add: sessionExpiresAt_def link_expiry_def sample_start_def sample_host_def sample_link_def)
  let ?row = "new_session ?i ''frm_a'' 1 SecureLink (Some ''lnk_b'') ''prod'' 4 1"
  have "\<exists>db. link_tx sample_start released_tables sample_link ?row 1 linked_db = Inr db \<and> length (dd_sessions (sd_data db)) = 2"
    using other by (simp add: link_tx_def linked_db_def sample_link_def consumeSecureLink_def update_row_def consumable_def
      insert_session_def createSession_def session_allowed_def new_session_def open_db_def open_session_def sample_session_def
      version_exists_def version_at_def released_tables_def)
  then obtain db where tx: "link_tx sample_start released_tables sample_link ?row 1 linked_db = Inr db" "length (dd_sessions (sd_data db)) = 2" by blast
  have "lc_formId sample_link = ''frm_a''" "lc_linkId sample_link = ''lnk_b''" by (simp_all add: sample_link_def)
  with tx session_token expiry show "\<exists>result db. startFromSecureLink sample_start released_tables id linked_db token False 9 1 1 =
      Inr (result, db) \<and> length (dd_sessions (sd_data db)) = 2"
    by (simp add: startFromSecureLink_def checks finish_def Let_def)
qed


section \<open>A confirmation\<close>

definition two_environments :: release_host where
  "two_environments = sample_release_host\<lparr>rh_served := [''dev'', ''demo'']\<rparr>"

definition two_targets :: CommitInput where
  "two_targets = \<lparr>ci_formId = ''frm_a'', ci_workspaceId = ''wsp_a'', ci_principalId = ''usr_a'', ci_idempotencyKey = ''once'',
     ci_intentHash = ''hash'', ci_expectedWorkflowRevision = None, ci_source = VersionSource 1 (Some ''usr_a''),
     ci_targets = [\<lparr>bt_environment = ''dev'', bt_expectedSequence = None, bt_fromEnvironment = None\<rparr>,
       \<lparr>bt_environment = ''demo'', bt_expectedSequence = None, bt_fromEnvironment = None\<rparr>], ci_agent = None\<rparr>"

definition no_draft :: frozen_draft where
  "no_draft = \<lparr>fz_snapshot = snapshot_of sample_draft, fz_compiled = \<lparr>documents = [], compilerVersion = [], a2uiSpecVersion = []\<rparr>,
     fz_draftRevision = 0\<rparr>"

definition confirm_sample :: "registry \<Rightarrow> release_refusal + BatchResult \<times> registry" where
  "confirm_sample reg = commitReleaseBatch two_environments (draft_freezer two_environments [] ''frm_a'' no_draft 1 ''usr_a'') [] reg two_targets 2"

lemma sample_confirms:
  "case admin_calls sample_registry sample_calls of None \<Rightarrow> False
   | Some reg \<Rightarrow> (case confirm_sample reg of Inl _ \<Rightarrow> False
       | Inr (result, reg') \<Rightarrow> \<not> br_replayed result \<and> form_by_id (rd_forms reg') ''frm_a'' \<noteq> None)"
  by code_simp

end
