(* ===== verification/WorkflowFacts.thy ===== *)
theory WorkflowFacts
  imports ReleaseWorkflow
begin

text \<open>
  The search for a cycle ends, finds only nodes that are on a cycle and, when it finds none,
  leaves an order in which every environment comes after those it requires. So every
  environment of an accepted set of rules can be reached by releases, one after another.
\<close>

section \<open>The search ends\<close>

definition seen_nodes :: "marks \<Rightarrow> string set" where
  "seen_nodes state = fst ` set state"

lemma seen_map_of: "map_of state n = None \<longleftrightarrow> n \<notin> seen_nodes state"
  by (simp add: seen_nodes_def map_of_eq_None_iff)

lemma seen_update [simp]: "seen_nodes (AList.update n m state) = insert n (seen_nodes state)"
  by (simp add: seen_nodes_def dom_update flip: dom_map_of_conv_image_fst)

lemma seen_Cons [simp]: "seen_nodes ((n, m) # state) = insert n (seen_nodes state)"
  by (simp add: seen_nodes_def)

lemma walk_total:
  assumes "finite N"
  shows "\<forall>n \<in> N. set (edges n) \<subseteq> N \<Longrightarrow> node \<in> N \<Longrightarrow> card (N - seen_nodes state) < fuel \<Longrightarrow>
      \<exists>r state'. walk edges fuel node state = Some (r, state') \<and> seen_nodes state \<subseteq> seen_nodes state'"
    "\<forall>n \<in> N. set (edges n) \<subseteq> N \<Longrightarrow> set nodes \<subseteq> N \<Longrightarrow> card (N - seen_nodes state) < fuel \<Longrightarrow>
      \<exists>r state'. walk_each edges fuel nodes state = Some (r, state') \<and> seen_nodes state \<subseteq> seen_nodes state'"
proof (induction edges fuel node state and edges fuel nodes state rule: walk_walk_each.induct)
  case (2 edges fuel node state)
  show ?case
  proof (cases "map_of state node")
    case None
    then have new: "node \<in> N - seen_nodes state" using 2 by (simp add: seen_map_of)
    then have "card (N - insert node (seen_nodes state)) < card (N - seen_nodes state)"
      using assms by (intro psubset_card_mono) auto
    then have "card (N - seen_nodes ((node, MarkOpen) # state)) < fuel" using 2 by simp
    moreover have "set (edges node) \<subseteq> N" using 2 by blast
    ultimately obtain r state' where "walk_each edges fuel (edges node) ((node, MarkOpen) # state) = Some (r, state')"
        "insert node (seen_nodes state) \<subseteq> seen_nodes state'"
      using 2(1) [OF None 2(2)] by auto
    then show ?thesis by (cases r) (auto simp: None)
  next
    case (Some m)
    then show ?thesis by (cases m) auto
  qed
next
  case (4 edges fuel node nodes state)
  obtain r state' where one: "walk edges fuel node state = Some (r, state')" "seen_nodes state \<subseteq> seen_nodes state'"
    using 4(1) 4(3-5) by auto
  show ?case
  proof (cases r)
    case (Some c)
    with one show ?thesis by auto
  next
    case None
    have "card (N - seen_nodes state') \<le> card (N - seen_nodes state)" using one(2) assms by (intro card_mono) auto
    then obtain r' state'' where "walk_each edges fuel nodes state' = Some (r', state'')" "seen_nodes state' \<subseteq> seen_nodes state''"
      using 4(2) [OF one(1) refl None] 4(3-5) by auto
    with one None show ?thesis by auto
  qed
qed auto

section \<open>What it finds is on a cycle\<close>

definition edge_set :: "(string \<Rightarrow> string list) \<Rightarrow> (string \<times> string) set" where
  "edge_set edges = {(a, b). b \<in> set (edges a)}"

lemma walk_marks:
  "walk edges fuel node state = Some (None, state') \<Longrightarrow> (map_of state' n = Some MarkOpen \<longleftrightarrow> map_of state n = Some MarkOpen)"
  "walk_each edges fuel nodes state = Some (None, state') \<Longrightarrow> (map_of state' n = Some MarkOpen \<longleftrightarrow> map_of state n = Some MarkOpen)"
proof (induction edges fuel node state and edges fuel nodes state arbitrary: state' and state' rule: walk_walk_each.induct)
  case (2 edges fuel node state)
  show ?case
  proof (cases "map_of state node")
    case None
    then obtain s where "walk_each edges fuel (edges node) ((node, MarkOpen) # state) = Some (None, s)"
        "state' = AList.update node MarkDone s"
      using 2(2) by (auto split: option.splits prod.splits)
    with 2(1) [OF None this(1)] None show ?thesis by (auto simp: update_conv')
  next
    case (Some m)
    with 2(2) show ?thesis by (cases m) auto
  qed
next
  case (4 edges fuel node nodes state)
  then show ?case by (fastforce split: option.splits prod.splits)
qed auto

lemma walk_cyclic:
  "walk edges fuel node state = Some (Some c, state') \<Longrightarrow>
     (\<forall>a. map_of state a = Some MarkOpen \<longrightarrow> (a, node) \<in> (edge_set edges)\<^sup>+) \<Longrightarrow> (c, c) \<in> (edge_set edges)\<^sup>+"
  "walk_each edges fuel nodes state = Some (Some c, state') \<Longrightarrow>
     (\<forall>a. \<forall>n \<in> set nodes. map_of state a = Some MarkOpen \<longrightarrow> (a, n) \<in> (edge_set edges)\<^sup>+) \<Longrightarrow> (c, c) \<in> (edge_set edges)\<^sup>+"
proof (induction edges fuel node state and edges fuel nodes state arbitrary: state' and state' rule: walk_walk_each.induct)
  case (2 edges fuel node state)
  show ?case
  proof (cases "map_of state node")
    case None
    then obtain s where w: "walk_each edges fuel (edges node) ((node, MarkOpen) # state) = Some (Some c, s)"
      using 2(2) by (auto split: option.splits prod.splits)
    have "(a, n) \<in> (edge_set edges)\<^sup>+" if "n \<in> set (edges node)" "map_of ((node, MarkOpen) # state) a = Some MarkOpen" for a n
    proof -
      have step: "(node, n) \<in> edge_set edges" using that(1) by (simp add: edge_set_def)
      show ?thesis
      proof (cases "a = node")
        case False
        then have "(a, node) \<in> (edge_set edges)\<^sup>+" using 2(3) that(2) by simp
        with step show ?thesis by (rule trancl_into_trancl [rotated])
      qed (use step in auto)
    qed
    with 2(1) [OF None w] show ?thesis by blast
  next
    case (Some m)
    with 2(2,3) show ?thesis by (cases m) auto
  qed
next
  case (4 edges fuel node nodes state)
  obtain r s where one: "walk edges fuel node state = Some (r, s)" using 4(3) by (auto split: option.splits)
  show ?case
  proof (cases r)
    case (Some d)
    with one 4(3) have "walk edges fuel node state = Some (Some c, s)" by simp
    with 4(1) 4(4) show ?thesis by simp
  next
    case None
    with one 4(3) have "walk_each edges fuel nodes s = Some (Some c, state')" by simp
    moreover have "\<forall>a. \<forall>n \<in> set nodes. map_of s a = Some MarkOpen \<longrightarrow> (a, n) \<in> (edge_set edges)\<^sup>+"
      using walk_marks(1) [OF one [unfolded None]] 4(4) by simp
    ultimately show ?thesis using 4(2) [OF one refl None] by blast
  qed
qed auto

section \<open>What it leaves is ordered\<close>

text \<open>The newest first: each node's edges are among the nodes after it.\<close>

fun topo :: "(string \<Rightarrow> string list) \<Rightarrow> string list \<Rightarrow> bool" where
  "topo edges [] \<longleftrightarrow> True"
| "topo edges (x # xs) \<longleftrightarrow> x \<notin> set xs \<and> set (edges x) \<subseteq> set xs \<and> topo edges xs"

definition done_in_order :: "(string \<Rightarrow> string list) \<Rightarrow> marks \<Rightarrow> bool" where
  "done_in_order edges state \<longleftrightarrow> (\<exists>ord. topo edges ord \<and> (\<forall>n. n \<in> set ord \<longleftrightarrow> map_of state n = Some MarkDone))"

lemma walk_ordered:
  "walk edges fuel node state = Some (None, state') \<Longrightarrow> done_in_order edges state \<Longrightarrow>
     done_in_order edges state' \<and> map_of state' node = Some MarkDone \<and>
     (\<forall>n. map_of state n = Some MarkDone \<longrightarrow> map_of state' n = Some MarkDone)"
  "walk_each edges fuel nodes state = Some (None, state') \<Longrightarrow> done_in_order edges state \<Longrightarrow>
     done_in_order edges state' \<and> (\<forall>n \<in> set nodes. map_of state' n = Some MarkDone) \<and>
     (\<forall>n. map_of state n = Some MarkDone \<longrightarrow> map_of state' n = Some MarkDone)"
proof (induction edges fuel node state and edges fuel nodes state arbitrary: state' and state' rule: walk_walk_each.induct)
  case (2 edges fuel node state)
  show ?case
  proof (cases "map_of state node")
    case None
    then obtain s where w: "walk_each edges fuel (edges node) ((node, MarkOpen) # state) = Some (None, s)"
        "state' = AList.update node MarkDone s"
      using 2(2) by (auto split: option.splits prod.splits)
    have "done_in_order edges ((node, MarkOpen) # state)"
      using 2(3) None unfolding done_in_order_def by (metis fun_upd_apply map_of.simps(2) mark.distinct(1) option.distinct(1) option.inject fst_conv snd_conv)
    with 2(1) [OF None w(1)] have s: "done_in_order edges s" "\<forall>n \<in> set (edges node). map_of s n = Some MarkDone"
        "\<forall>n. map_of ((node, MarkOpen) # state) n = Some MarkDone \<longrightarrow> map_of s n = Some MarkDone" by blast+
    obtain ord where ord: "topo edges ord" "\<forall>n. n \<in> set ord \<longleftrightarrow> map_of s n = Some MarkDone"
      using s(1) by (auto simp: done_in_order_def)
    have "map_of s node = Some MarkOpen" using walk_marks(2) [OF w(1), of node] by simp
    then have "node \<notin> set ord" using ord(2) by simp
    then have "topo edges (node # ord)" using ord s(2) by auto
    moreover have "n \<in> set (node # ord) \<longleftrightarrow> map_of state' n = Some MarkDone" for n
      using ord(2) by (simp add: w(2) update_conv')
    ultimately have "done_in_order edges state'" unfolding done_in_order_def by blast
    moreover have "map_of state' node = Some MarkDone" by (simp add: w(2) update_conv')
    moreover have "map_of state' n = Some MarkDone" if "map_of state n = Some MarkDone" for n
      using that s(3) None by (simp add: w(2) update_conv')
    ultimately show ?thesis by blast
  next
    case (Some m)
    with 2(2,3) show ?thesis by (cases m) auto
  qed
next
  case (4 edges fuel node nodes state)
  obtain r s where one: "walk edges fuel node state = Some (r, s)" using 4(3) by (auto split: option.splits)
  have r: "r = None" using 4(3) one by (cases r) auto
  with one 4(3) have rest: "walk_each edges fuel nodes s = Some (None, state')" by simp
  from 4(1) [OF one [unfolded r] 4(4)] 4(2) [OF one refl r rest] show ?case by auto
qed auto

section \<open>The search is exact\<close>

lemma rule_edges_mem:
  assumes "n \<in> set (rule_edges rules node)"
  shows "\<exists>r \<in> set rules. wk_environment r = node \<and> n \<in> set (wk_requiresPriorReleaseIn r)"
proof (cases "map_of (map (\<lambda>r. (wk_environment r, wk_requiresPriorReleaseIn r)) (rev rules)) node")
  case (Some needed)
  from map_of_SomeD [OF this] assms Some show ?thesis by (auto simp: rule_edges_def)
qed (use assms in \<open>simp add: rule_edges_def\<close>)

lemma rule_edges_nodes: "n \<in> set (rule_edges rules node) \<Longrightarrow> n \<in> set (rule_nodes rules) \<and> node \<in> wk_environment ` set rules"
  by (drule rule_edges_mem) (auto simp: rule_nodes_def)

lemma findCycle_walk:
  "\<exists>r state. walk_each (rule_edges rules) (Suc (length (rule_nodes rules))) (map wk_environment rules) [] = Some (r, state) \<and>
     findCycle rules = Some r"
proof -
  let ?N = "set (rule_nodes rules)"
  have "\<forall>n \<in> ?N. set (rule_edges rules n) \<subseteq> ?N" using rule_edges_nodes by blast
  moreover have "set (map wk_environment rules) \<subseteq> ?N" by (auto simp: rule_nodes_def)
  moreover have "card (?N - seen_nodes []) < Suc (length (rule_nodes rules))"
    by (simp add: seen_nodes_def card_length less_Suc_eq_le)
  ultimately obtain r state where "walk_each (rule_edges rules) (Suc (length (rule_nodes rules))) (map wk_environment rules) [] = Some (r, state)"
    using walk_total(2) [of ?N "rule_edges rules"] by blast
  then show ?thesis by (simp add: findCycle_def)
qed

lemma findCycle_total: "\<exists>r. findCycle rules = Some r"
  using findCycle_walk by blast

lemma findCycle_sound: "findCycle rules = Some (Some c) \<Longrightarrow> (c, c) \<in> (edge_set (rule_edges rules))\<^sup>+"
proof -
  assume c: "findCycle rules = Some (Some c)"
  obtain r state where w: "walk_each (rule_edges rules) (Suc (length (rule_nodes rules))) (map wk_environment rules) [] = Some (r, state)"
      "findCycle rules = Some r" using findCycle_walk by blast
  with c have "r = Some c" by simp
  from walk_cyclic(2) [OF w(1) [unfolded this]] show ?thesis by simp
qed

lemma findCycle_ordered:
  assumes "findCycle rules = Some None"
  shows "\<exists>ord. topo (rule_edges rules) ord \<and> wk_environment ` set rules \<subseteq> set ord"
proof -
  obtain state where w: "walk_each (rule_edges rules) (Suc (length (rule_nodes rules))) (map wk_environment rules) [] = Some (None, state)"
    using findCycle_walk [of rules] assms by auto
  have "done_in_order (rule_edges rules) []" unfolding done_in_order_def by (intro exI [of _ "[]"]) simp
  from walk_ordered(2) [OF w this] obtain ord where "topo (rule_edges rules) ord" "\<forall>n. n \<in> set ord \<longleftrightarrow> map_of state n = Some MarkDone"
      "\<forall>n \<in> set (map wk_environment rules). map_of state n = Some MarkDone" by (auto simp: done_in_order_def)
  then show ?thesis by (intro exI [of _ ord]) auto
qed

lemma topo_reach:
  assumes "topo edges xs"
  shows "(a, b) \<in> (edge_set edges)\<^sup>+ \<Longrightarrow> a \<in> set xs \<Longrightarrow> b \<in> set xs"
proof (induction rule: trancl_induct)
  have closed_under: "n \<in> set xs \<Longrightarrow> set (edges n) \<subseteq> set xs" for n using assms by (induction xs) auto
  case (base y)
  then show ?case using closed_under by (auto simp: edge_set_def)
next
  have closed_under: "n \<in> set xs \<Longrightarrow> set (edges n) \<subseteq> set xs" for n using assms by (induction xs) auto
  case (step y z)
  then show ?case using closed_under by (auto simp: edge_set_def)
qed

lemma topo_acyclic: "topo edges xs \<Longrightarrow> a \<in> set xs \<Longrightarrow> (a, a) \<notin> (edge_set edges)\<^sup>+"
proof (induction xs)
  case (Cons x xs)
  show ?case
  proof (cases "a = x")
    case True
    show ?thesis
    proof
      assume "(a, a) \<in> (edge_set edges)\<^sup>+"
      then obtain y where y: "(a, y) \<in> edge_set edges" "(y, a) \<in> (edge_set edges)\<^sup>*" by (auto dest: tranclD)
      then have "y \<in> set xs" using Cons.prems True by (auto simp: edge_set_def)
      with y(2) topo_reach [of edges xs y a] Cons.prems True show False by (auto dest: rtranclD)
    qed
  qed (use Cons in auto)
qed simp

lemma findCycle_exact: "findCycle rules = Some None \<longleftrightarrow> acyclic (edge_set (rule_edges rules))"
proof
  assume "findCycle rules = Some None"
  from findCycle_ordered [OF this] obtain ord where ord: "topo (rule_edges rules) ord" "wk_environment ` set rules \<subseteq> set ord" by blast
  have "(a, a) \<notin> (edge_set (rule_edges rules))\<^sup>+" for a
  proof
    assume loop: "(a, a) \<in> (edge_set (rule_edges rules))\<^sup>+"
    then obtain b where "(a, b) \<in> edge_set (rule_edges rules)" by (auto dest: tranclD)
    then have "a \<in> set ord" using ord(2) rule_edges_nodes by (fastforce simp: edge_set_def)
    from topo_acyclic [OF ord(1) this] loop show False by blast
  qed
  then show "acyclic (edge_set (rule_edges rules))" by (simp add: acyclic_def)
next
  assume "acyclic (edge_set (rule_edges rules))"
  moreover obtain r where "findCycle rules = Some r" using findCycle_total by blast
  ultimately show "findCycle rules = Some None" using findCycle_sound by (cases r) (auto simp: acyclic_def)
qed

section \<open>Accepted rules\<close>

lemma check_rules_ok:
  "check_rules served seen rules = Inr () \<Longrightarrow>
     distinct (map wk_environment rules) \<and> set seen \<inter> wk_environment ` set rules = {} \<and>
     (\<forall>r \<in> set rules. wk_environment r \<in> set served \<and> wk_environment r \<notin> set (wk_requiresPriorReleaseIn r) \<and>
        set (wk_requiresPriorReleaseIn r) \<subseteq> set served)"
proof (induction rules arbitrary: seen)
  case (Cons r rules)
  then have here: "wk_environment r \<in> set served" "wk_environment r \<notin> set seen"
      "each_ok (check_required served (wk_environment r)) (wk_requiresPriorReleaseIn r) = Inr ()"
      "check_rules served (wk_environment r # seen) rules = Inr ()"
    by (auto simp: throw_simps split: if_splits)
  then have "\<forall>x \<in> set (wk_requiresPriorReleaseIn r). x \<noteq> wk_environment r \<and> x \<in> set served"
    by (auto simp: throw_simps check_required_def split: if_splits)
  with here Cons.IH [OF here(4)] show ?case by auto
qed simp

definition each_after_required :: "(string \<Rightarrow> string list) \<Rightarrow> string list \<Rightarrow> bool" where
  "each_after_required edges ord \<longleftrightarrow> (\<forall>before env rest. ord = before @ env # rest \<longrightarrow> set (edges env) \<subseteq> set before)"

lemma each_after_snoc:
  "each_after_required edges (xs @ [x]) \<longleftrightarrow> each_after_required edges xs \<and> set (edges x) \<subseteq> set xs"
proof
  assume all: "each_after_required edges (xs @ [x])"
  then have "set (edges x) \<subseteq> set xs" by (auto simp: each_after_required_def)
  moreover have "set (edges env) \<subseteq> set before" if "xs = before @ env # rest" for before env rest
    using all that unfolding each_after_required_def by (metis append.assoc append_Cons)
  ultimately show "each_after_required edges xs \<and> set (edges x) \<subseteq> set xs" by (auto simp: each_after_required_def)
next
  assume both: "each_after_required edges xs \<and> set (edges x) \<subseteq> set xs"
  have "set (edges env) \<subseteq> set before" if split: "xs @ [x] = before @ env # rest" for before env rest
  proof (cases rest rule: rev_cases)
    case Nil
    with split both show ?thesis by simp
  next
    case (snoc rest' y)
    with split have "xs = before @ env # rest'" by simp
    with both show ?thesis by (auto simp: each_after_required_def)
  qed
  then show "each_after_required edges (xs @ [x])" by (simp add: each_after_required_def)
qed

lemma each_after_Nil: "each_after_required edges []"
  by (simp add: each_after_required_def)

lemma topo_rev: "topo edges xs \<Longrightarrow> each_after_required edges (rev xs)"
  by (induction xs) (simp_all add: each_after_snoc each_after_Nil)

lemma each_after_prepend:
  assumes "each_after_required edges ord" "\<forall>x \<in> set xs. edges x = []"
  shows "each_after_required edges (xs @ ord)"
  using assms(1)
proof (induction ord rule: rev_induct)
  case Nil
  show ?case using assms(2) by (induction xs rule: rev_induct) (auto simp: each_after_snoc each_after_Nil)
next
  case (snoc y ys)
  then have "each_after_required edges ((xs @ ys) @ [y])" unfolding each_after_snoc by auto
  then show ?case by simp
qed

lemma each_after_filter:
  "each_after_required edges xs \<Longrightarrow> \<forall>x. set (edges x) \<subseteq> A \<Longrightarrow> each_after_required edges (filter (\<lambda>x. x \<in> A) xs)"
  by (induction xs rule: rev_induct) (auto simp: each_after_snoc each_after_Nil)

lemma accepted_order:
  assumes "validateWorkflowRules rules served = Inr ()"
  shows "\<exists>ord. set ord = set served \<and> distinct ord \<and> each_after_required (rule_edges rules) ord"
proof -
  have checked: "check_rules served [] rules = Inr ()" and acyclic: "findCycle rules = Some None"
    using assms by (auto simp: validateWorkflowRules_def throw_simps split: option.splits)
  note ok = check_rules_ok [OF checked]
  obtain found_ord where found_ord: "topo (rule_edges rules) found_ord" "wk_environment ` set rules \<subseteq> set found_ord"
    using findCycle_ordered [OF acyclic] by blast
  let ?inner = "filter (\<lambda>x. x \<in> set served) (rev found_ord)"
  let ?outer = "filter (\<lambda>x. x \<notin> set found_ord) (remdups served)"
  have no_edges: "rule_edges rules x = []" if "x \<notin> wk_environment ` set rules" for x
    using that rule_edges_nodes [of _ rules x] by (metis last_in_set)
  have served_edges: "set (rule_edges rules x) \<subseteq> set served" for x
  proof
    fix n assume "n \<in> set (rule_edges rules x)"
    then obtain r where "r \<in> set rules" "n \<in> set (wk_requiresPriorReleaseIn r)"
      using rule_edges_mem by blast
    with ok show "n \<in> set served" by blast
  qed
  have inner: "each_after_required (rule_edges rules) ?inner"
    using each_after_filter [OF topo_rev [OF found_ord(1)]] served_edges by blast
  have "\<forall>x \<in> set ?outer. rule_edges rules x = []" using no_edges found_ord(2) by auto
  from each_after_prepend [OF inner this] have "each_after_required (rule_edges rules) (?outer @ ?inner)" .
  moreover have "distinct found_ord" using found_ord(1) by (induction found_ord) auto
  then have "distinct (?outer @ ?inner)" by auto
  moreover have "set (?outer @ ?inner) = set served" by auto
  ultimately show ?thesis by blast
qed

end
