(* ===== verification/Zip.thy ===== *)
theory Zip
  imports Base64 "HOL-Library.Word"
begin

unbundle bit_operations_syntax

text \<open>
  The CRC-32 of \<^verbatim>\<open>packages/csv/src/zip.ts\<close> on 32-bit words: the table, the update by one chunk and
  the final inversion, and the bitwise division it stands for.
\<close>

type_synonym crc = "32 word"

definition CRC_POLYNOMIAL :: crc where
  "CRC_POLYNOMIAL = 0xedb88320"

definition crc_bit :: "crc \<Rightarrow> crc" where
  "crc_bit v = (if v AND 1 = 1 then CRC_POLYNOMIAL XOR drop_bit 1 v else drop_bit 1 v)"

definition crc_table :: "crc list" where
  "crc_table = map (\<lambda>index. (crc_bit ^^ 8) (word_of_nat index)) [0..<256]"

definition crc_byte :: "crc \<Rightarrow> 8 word \<Rightarrow> crc" where
  "crc_byte v b = (crc_table ! unat ((v XOR ucast b) AND 0xff)) XOR drop_bit 8 v"

definition crcUpdate :: "crc \<Rightarrow> 8 word list \<Rightarrow> crc" where
  "crcUpdate crc chunk = foldl crc_byte crc chunk"

definition crcFinish :: "crc \<Rightarrow> crc" where
  "crcFinish crc = crc XOR 0xffffffff"

definition CRC_INIT :: crc where
  "CRC_INIT = 0xffffffff"

definition crc32 :: "8 word list \<Rightarrow> crc" where
  "crc32 bs = crcFinish (crcUpdate CRC_INIT bs)"

lemma crcUpdate_append: "crcUpdate crc (a @ b) = crcUpdate (crcUpdate crc a) b"
  by (simp add: crcUpdate_def)

lemma crcUpdate_Nil [simp]: "crcUpdate crc [] = crc"
  by (simp add: crcUpdate_def)

section \<open>The table is the bitwise division\<close>

text \<open>The division by the polynomial, one bit of the message at a time.\<close>

definition crc_byte_bitwise :: "crc \<Rightarrow> 8 word \<Rightarrow> crc" where
  "crc_byte_bitwise v b = (crc_bit ^^ 8) (v XOR ucast b)"

lemma xor_swap: "((a :: 'a::len word) XOR b) XOR (c XOR d) = (a XOR c) XOR (b XOR d)"
  by (simp add: ac_simps)

lemma crc_bit_odd: "crc_bit v = (if odd v then CRC_POLYNOMIAL XOR drop_bit 1 v else drop_bit 1 v)"
  by (simp add: crc_bit_def and_one_eq mod_2_eq_odd)

lemma crc_bit_linear: "crc_bit (v XOR w) = crc_bit v XOR crc_bit w"
proof -
  have "odd (v XOR w) \<longleftrightarrow> odd v \<noteq> odd w" by (simp add: even_xor_iff)
  moreover have "drop_bit 1 (v XOR w) = drop_bit 1 v XOR drop_bit 1 w" by (rule drop_bit_xor)
  ultimately show ?thesis by (cases "odd v"; cases "odd w") (simp_all add: crc_bit_odd ac_simps)
qed

lemma crc_bits_linear: "(crc_bit ^^ n) (v XOR w) = (crc_bit ^^ n) v XOR (crc_bit ^^ n) w"
  by (induction n) (simp_all add: crc_bit_linear)

lemma crc_bits_shift: "take_bit n v = 0 \<Longrightarrow> (crc_bit ^^ n) v = drop_bit n v"
proof (induction n arbitrary: v)
  case (Suc n)
  have even: "even v"
    using Suc.prems by (metis even_take_bit_eq even_zero nat.distinct(1))
  then have "crc_bit v = drop_bit 1 v" by (simp add: crc_bit_odd)
  moreover have "take_bit n (drop_bit 1 v) = 0"
    using Suc.prems by (simp add: take_bit_drop_bit)
  ultimately show ?case using Suc.IH [of "drop_bit 1 v"] by (simp add: funpow_Suc_right del: funpow.simps)
qed simp

lemma table_at: "unat v < 256 \<Longrightarrow> crc_table ! unat v = (crc_bit ^^ 8) v"
  by (simp add: crc_table_def)

lemma low_byte: "unat (take_bit 8 (w :: crc)) < 256"
  using take_bit_nat_less_exp [of 8 "unat w"] by (simp add: unsigned_take_bit_eq)

lemma split_low: "(w :: crc) = take_bit 8 w XOR push_bit 8 (drop_bit 8 w)"
proof (rule bit_word_eqI)
  fix n assume "n < LENGTH(32)"
  then show "bit w n = bit (take_bit 8 w XOR push_bit 8 (drop_bit 8 w)) n"
    by (cases "n < 8") (simp_all add: bit_simps)
qed

lemma crc_bits_split: "(crc_bit ^^ 8) w = (crc_bit ^^ 8) (take_bit 8 w) XOR drop_bit 8 w"
proof -
  have "take_bit 8 (push_bit 8 (drop_bit 8 w)) = 0" by (simp add: take_bit_push_bit)
  then have "(crc_bit ^^ 8) (push_bit 8 (drop_bit 8 w)) = drop_bit 8 (push_bit 8 (drop_bit 8 w))"
    by (rule crc_bits_shift)
  also have "\<dots> = drop_bit 8 w" by (rule bit_word_eqI) (auto simp: bit_simps dest: bit_imp_le_length)
  finally show ?thesis
    using crc_bits_linear [of 8 "take_bit 8 w" "push_bit 8 (drop_bit 8 w)"] split_low [of w] by simp
qed

lemma crc_byte_eq: "crc_byte v b = crc_byte_bitwise v b"
proof -
  have mask: "w AND 0xff = take_bit 8 w" for w :: crc by (simp add: take_bit_eq_mask mask_eq_exp_minus_1)
  have "drop_bit 8 (ucast b :: crc) = 0" by (rule bit_word_eqI) (auto simp: bit_simps dest: bit_imp_le_length)
  then have "drop_bit 8 (v XOR ucast b) = drop_bit 8 v" by (simp add: drop_bit_xor)
  then show ?thesis
    unfolding crc_byte_def crc_byte_bitwise_def mask table_at [OF low_byte] crc_bits_split [of "v XOR ucast b"]
    by simp
qed

lemma crcUpdate_bitwise: "crcUpdate crc chunk = foldl crc_byte_bitwise crc chunk"
  by (simp add: crcUpdate_def crc_byte_eq [abs_def])

text \<open>
  \<^verbatim>\<open>packages/csv/src/zip.ts\<close>: the streaming writer of a stored ZIP archive. The stream is a state
  and one step per \<^verbatim>\<open>pull\<close>; an iterable of chunks, synchronous or not, is the list it yields. The
  format itself is the specification: the layout of an archive and a reader of it.
\<close>

section \<open>Records\<close>

definition le16 :: "nat \<Rightarrow> byte list" where
  "le16 v = [word_of_nat v, word_of_nat (v div 256)]"

definition le32 :: "nat \<Rightarrow> byte list" where
  "le32 v = [word_of_nat v, word_of_nat (v div 256), word_of_nat (v div 65536), word_of_nat (v div 16777216)]"

definition LOCAL_HEADER_SIGNATURE :: nat where "LOCAL_HEADER_SIGNATURE = 0x04034b50"
definition DATA_DESCRIPTOR_SIGNATURE :: nat where "DATA_DESCRIPTOR_SIGNATURE = 0x08074b50"
definition CENTRAL_HEADER_SIGNATURE :: nat where "CENTRAL_HEADER_SIGNATURE = 0x02014b50"
definition END_OF_CENTRAL_DIRECTORY_SIGNATURE :: nat where
  "END_OF_CENTRAL_DIRECTORY_SIGNATURE = 0x06054b50"
definition VERSION_NEEDED :: nat where "VERSION_NEEDED = 20"
definition FLAGS :: nat where "FLAGS = 0x0808"
definition METHOD_STORED :: nat where "METHOD_STORED = 0"
definition DOS_TIME :: nat where "DOS_TIME = 0"
definition DOS_DATE :: nat where "DOS_DATE = 0x0021"
definition UINT32_MAX :: nat where "UINT32_MAX = 0xffffffff"
definition UINT16_MAX :: nat where "UINT16_MAX = 0xffff"

record zip_entry =
  ze_name :: string
  ze_content :: "byte list list"

record written_entry =
  we_name :: "byte list"
  we_crc :: crc
  we_size :: nat
  we_offset :: nat

definition localHeader :: "byte list \<Rightarrow> byte list" where
  "localHeader name =
     le32 LOCAL_HEADER_SIGNATURE @ le16 VERSION_NEEDED @ le16 FLAGS @ le16 METHOD_STORED @ le16 DOS_TIME
     @ le16 DOS_DATE @ le32 0 @ le32 0 @ le32 0 @ le16 (length name) @ le16 0 @ name"

definition dataDescriptor :: "crc \<Rightarrow> nat \<Rightarrow> byte list" where
  "dataDescriptor crc bytes =
     le32 DATA_DESCRIPTOR_SIGNATURE @ le32 (unat crc) @ le32 bytes @ le32 bytes"

definition centralHeader :: "written_entry \<Rightarrow> byte list" where
  "centralHeader entry =
     le32 CENTRAL_HEADER_SIGNATURE @ le16 VERSION_NEEDED @ le16 VERSION_NEEDED @ le16 FLAGS
     @ le16 METHOD_STORED @ le16 DOS_TIME @ le16 DOS_DATE @ le32 (unat (we_crc entry))
     @ le32 (we_size entry) @ le32 (we_size entry) @ le16 (length (we_name entry)) @ le16 0 @ le16 0
     @ le16 0 @ le16 0 @ le32 0 @ le32 (we_offset entry) @ we_name entry"

definition endOfCentralDirectory :: "nat \<Rightarrow> nat \<Rightarrow> nat \<Rightarrow> byte list" where
  "endOfCentralDirectory count bytes offset =
     le32 END_OF_CENTRAL_DIRECTORY_SIGNATURE @ le16 0 @ le16 0 @ le16 count @ le16 count @ le32 bytes
     @ le32 offset @ le16 0"

section \<open>The stream\<close>

datatype zip_error = ArchiveTooLarge | EntryTooLarge string | TooManyEntries

record open_entry =
  oe_name :: "byte list"
  oe_label :: string
  oe_offset :: nat
  oe_content :: "byte list list"
  oe_crc :: crc
  oe_size :: nat

record zip_state =
  zs_source :: "zip_entry list"
  zs_written :: "written_entry list"
  zs_offset :: nat
  zs_open :: "open_entry option"
  zs_finished :: bool
  zs_out :: "byte list list"

definition centralDirectory :: "written_entry list \<Rightarrow> nat \<Rightarrow> (zip_error, byte list) result" where
  "centralDirectory written offset =
     (let directory = concat (map centralHeader written) in
      if UINT32_MAX < offset + length directory then err ArchiveTooLarge
      else ok (directory @ endOfCentralDirectory (length written) (length directory) offset))"

definition openNext :: "zip_state \<Rightarrow> (zip_error, zip_state) result" where
  "openNext st =
     (case zs_source st of
        [] \<Rightarrow>
          (case centralDirectory (zs_written st) (zs_offset st) of
             Inl e \<Rightarrow> err e
           | Inr final \<Rightarrow> ok (st\<lparr>zs_out := zs_out st @ [final], zs_finished := True\<rparr>))
      | entry # source \<Rightarrow>
          let name = utf8 (ze_name entry); header = localHeader name in
          ok (st\<lparr>zs_source := source,
                 zs_open := Some \<lparr>oe_name = name, oe_label = ze_name entry, oe_offset = zs_offset st,
                                 oe_content = ze_content entry, oe_crc = CRC_INIT, oe_size = 0\<rparr>,
                 zs_out := zs_out st @ [header], zs_offset := zs_offset st + length header\<rparr>))"

definition closeOpen :: "zip_state \<Rightarrow> open_entry \<Rightarrow> (zip_error, zip_state) result" where
  "closeOpen st entry =
     (let crc = crcFinish (oe_crc entry);
          descriptor = dataDescriptor crc (oe_size entry);
          offset = zs_offset st + length descriptor in
      if UINT32_MAX < offset then err ArchiveTooLarge
      else if UINT16_MAX \<le> length (zs_written st) then err TooManyEntries
      else ok (st\<lparr>zs_out := zs_out st @ [descriptor], zs_offset := offset,
                  zs_written := zs_written st @
                    [\<lparr>we_name = oe_name entry, we_crc = crc, we_size = oe_size entry, we_offset = oe_offset entry\<rparr>],
                  zs_open := None\<rparr>))"

text \<open>The next chunk that is not empty: empty ones are skipped inside one call.\<close>

fun next_chunk :: "byte list list \<Rightarrow> (byte list \<times> byte list list) option" where
  "next_chunk [] = None"
| "next_chunk (c # cs) = (if length c = 0 then next_chunk cs else Some (c, cs))"

definition pull :: "zip_state \<Rightarrow> (zip_error, zip_state) result" where
  "pull st =
     (if zs_finished st then ok st
      else
        (case zs_open st of
           None \<Rightarrow> openNext st
         | Some entry \<Rightarrow>
             (case next_chunk (oe_content entry) of
                None \<Rightarrow> closeOpen st entry
              | Some (chunk, content) \<Rightarrow>
                  let bytes = oe_size entry + length chunk in
                  if UINT32_MAX < bytes then err (EntryTooLarge (oe_label entry))
                  else ok (st\<lparr>zs_open := Some (entry\<lparr>oe_content := content, oe_crc := crcUpdate (oe_crc entry) chunk,
                                                    oe_size := bytes\<rparr>),
                              zs_offset := zs_offset st + length chunk, zs_out := zs_out st @ [chunk]\<rparr>))))"

text \<open>The stream is pulled until it is closed. Every pull uses up an entry, a chunk or the end.\<close>

definition zip_work :: "zip_state \<Rightarrow> nat" where
  "zip_work st =
     (if zs_finished st then 0
      else 1 + sum_list (map (\<lambda>e. 2 + length (ze_content e)) (zs_source st)) +
        (case zs_open st of None \<Rightarrow> 0 | Some e \<Rightarrow> 1 + length (oe_content e)))"

lemma next_chunk_shorter: "next_chunk cs = Some (c, cs') \<Longrightarrow> length cs' < length cs"
  by (induction cs) (auto split: if_splits)

lemma pull_work: "\<not> zs_finished st \<Longrightarrow> pull st = Inr st' \<Longrightarrow> zip_work st' < zip_work st"
  by (auto simp: pull_def openNext_def closeOpen_def zip_work_def ok_def err_def Let_def next_chunk_shorter
      split: option.splits list.splits sum.splits if_splits)

function zip_run :: "zip_state \<Rightarrow> (zip_error, zip_state) result" where
  "zip_run st =
     (if zs_finished st then ok st
      else case pull st of Inl e \<Rightarrow> err e | Inr st' \<Rightarrow> zip_run st')"
  by pat_completeness auto
termination
  by (relation "measure zip_work") (auto dest: pull_work)

declare zip_run.simps [simp del]

definition zip_start :: "zip_entry list \<Rightarrow> zip_state" where
  "zip_start entries =
     \<lparr>zs_source = entries, zs_written = [], zs_offset = 0, zs_open = None, zs_finished = False, zs_out = []\<rparr>"

definition zipStream :: "zip_entry list \<Rightarrow> (zip_error, byte list list) result" where
  "zipStream entries = (case zip_run (zip_start entries) of Inl e \<Rightarrow> err e | Inr st \<Rightarrow> ok (zs_out st))"

section \<open>The layout of an archive\<close>

definition zip_data :: "zip_entry \<Rightarrow> byte list" where
  "zip_data e = concat (ze_content e)"

definition local_record :: "zip_entry \<Rightarrow> byte list" where
  "local_record e =
     localHeader (utf8 (ze_name e)) @ zip_data e @ dataDescriptor (crc32 (zip_data e)) (length (zip_data e))"

definition written_of :: "nat \<Rightarrow> zip_entry \<Rightarrow> written_entry" where
  "written_of offset e =
     \<lparr>we_name = utf8 (ze_name e), we_crc = crc32 (zip_data e), we_size = length (zip_data e), we_offset = offset\<rparr>"

fun directory_of :: "nat \<Rightarrow> zip_entry list \<Rightarrow> written_entry list" where
  "directory_of offset [] = []"
| "directory_of offset (e # es) = written_of offset e # directory_of (offset + length (local_record e)) es"

definition archive_of :: "zip_entry list \<Rightarrow> byte list" where
  "archive_of es =
     (let records = concat (map local_record es); directory = concat (map centralHeader (directory_of 0 es)) in
      records @ directory @ endOfCentralDirectory (length es) (length directory) (length records))"

text \<open>The limits of the format, as the code checks them.\<close>

definition zip_fits :: "zip_entry list \<Rightarrow> bool" where
  "zip_fits es \<longleftrightarrow>
     (\<forall>e \<in> set es. length (zip_data e) \<le> UINT32_MAX) \<and> length es \<le> UINT16_MAX \<and>
     length (concat (map local_record es)) + length (concat (map centralHeader (directory_of 0 es))) \<le> UINT32_MAX"

lemma length_directory_of [simp]: "length (directory_of offset es) = length es"
  by (induction es arbitrary: offset) simp_all

lemma directory_of_append:
  "directory_of offset (es @ fs) =
     directory_of offset es @ directory_of (offset + length (concat (map local_record es))) fs"
  by (induction es arbitrary: offset) (simp_all add: ac_simps)

lemma next_chunk_None: "next_chunk cs = None \<longleftrightarrow> concat cs = []"
  by (induction cs) auto

lemma next_chunk_Some: "next_chunk cs = Some (c, cs') \<Longrightarrow> concat cs = c @ concat cs' \<and> c \<noteq> []"
  by (induction cs) (auto split: if_splits)

text \<open>What the pulls of one open entry amount to.\<close>

lemma run_entry:
  assumes "oe_size e \<le> UINT32_MAX"
  shows "\<not> zs_finished st \<Longrightarrow> zs_open st = Some e \<Longrightarrow>
    \<exists>chunks. concat chunks = concat (oe_content e) \<and>
    zip_run st =
      (if UINT32_MAX < oe_size e + length (concat (oe_content e)) then Inl (EntryTooLarge (oe_label e))
       else case closeOpen (st\<lparr>zs_offset := zs_offset st + length (concat (oe_content e)), zs_out := zs_out st @ chunks\<rparr>)
                  (e\<lparr>oe_content := [], oe_crc := crcUpdate (oe_crc e) (concat (oe_content e)),
                     oe_size := oe_size e + length (concat (oe_content e))\<rparr>) of
              Inl er \<Rightarrow> Inl er | Inr st' \<Rightarrow> zip_run st')"
  using assms
proof (induction "length (oe_content e)" arbitrary: e st rule: less_induct)
  case less
  have run: "zip_run st = (case pull st of Inl er \<Rightarrow> Inl er | Inr st' \<Rightarrow> zip_run st')"
    using less.prems(1) by (subst zip_run.simps) (simp add: err_def split: sum.split)
  show ?case
  proof (cases "next_chunk (oe_content e)")
    case None
    then have empty: "concat (oe_content e) = []" by (simp only: next_chunk_None)
    have "closeOpen st e = closeOpen (st\<lparr>zs_offset := zs_offset st, zs_out := zs_out st @ []\<rparr>)
        (e\<lparr>oe_content := [], oe_crc := oe_crc e, oe_size := oe_size e\<rparr>)"
      by (simp add: closeOpen_def Let_def)
    with None less.prems have "zip_run st = (case closeOpen (st\<lparr>zs_offset := zs_offset st, zs_out := zs_out st @ []\<rparr>)
        (e\<lparr>oe_content := [], oe_crc := oe_crc e, oe_size := oe_size e\<rparr>) of Inl er \<Rightarrow> Inl er | Inr st' \<Rightarrow> zip_run st')"
      by (simp add: run pull_def)
    with less.prems(3) show ?thesis unfolding empty by (intro exI [of _ "[]"]) simp
  next
    case (Some p)
    obtain c cs where p: "p = (c, cs)" by (cases p)
    note nc = Some [unfolded p]
    note data = next_chunk_Some [OF nc]
    show ?thesis
    proof (cases "UINT32_MAX < oe_size e + length c")
      case True
      with nc less.prems have "zip_run st = Inl (EntryTooLarge (oe_label e))"
        by (simp add: run pull_def err_def)
      moreover have "UINT32_MAX < oe_size e + length (concat (oe_content e))" using True data by simp
      ultimately show ?thesis by (intro exI [of _ "oe_content e"]) simp
    next
      case False
      let ?e = "e\<lparr>oe_content := cs, oe_crc := crcUpdate (oe_crc e) c, oe_size := oe_size e + length c\<rparr>"
      let ?st = "st\<lparr>zs_open := Some ?e, zs_offset := zs_offset st + length c, zs_out := zs_out st @ [c]\<rparr>"
      have "zip_run st = zip_run ?st" using False nc less.prems by (simp add: run pull_def ok_def Let_def)
      moreover have "\<exists>chunks. concat chunks = concat (oe_content ?e) \<and> zip_run ?st =
          (if UINT32_MAX < oe_size ?e + length (concat (oe_content ?e)) then Inl (EntryTooLarge (oe_label ?e))
           else case closeOpen (?st\<lparr>zs_offset := zs_offset ?st + length (concat (oe_content ?e)),
                                    zs_out := zs_out ?st @ chunks\<rparr>)
                  (?e\<lparr>oe_content := [], oe_crc := crcUpdate (oe_crc ?e) (concat (oe_content ?e)),
                     oe_size := oe_size ?e + length (concat (oe_content ?e))\<rparr>) of
              Inl er \<Rightarrow> Inl er | Inr st' \<Rightarrow> zip_run st')"
        by (rule less.hyps) (use next_chunk_shorter [OF nc] less.prems False in simp_all)
      then obtain chunks where chunks: "concat chunks = concat cs" and "zip_run ?st =
          (if UINT32_MAX < oe_size e + length c + length (concat cs) then Inl (EntryTooLarge (oe_label e))
           else case closeOpen (?st\<lparr>zs_offset := zs_offset st + length c + length (concat cs),
                                    zs_out := zs_out st @ [c] @ chunks\<rparr>)
                  (?e\<lparr>oe_content := [], oe_crc := crcUpdate (crcUpdate (oe_crc e) c) (concat cs),
                     oe_size := oe_size e + length c + length (concat cs)\<rparr>) of
              Inl er \<Rightarrow> Inl er | Inr st' \<Rightarrow> zip_run st')"
        by auto
      ultimately show ?thesis
        by (intro exI [of _ "c # chunks"]) (simp add: data crcUpdate_append closeOpen_def Let_def add.assoc)
    qed
  qed
qed

definition fits_from :: "nat \<Rightarrow> written_entry list \<Rightarrow> zip_entry list \<Rightarrow> bool" where
  "fits_from offset ws es \<longleftrightarrow>
     (\<forall>e \<in> set es. length (zip_data e) \<le> UINT32_MAX) \<and> length ws + length es \<le> UINT16_MAX \<and>
     offset + length (concat (map local_record es)) +
       length (concat (map centralHeader (ws @ directory_of offset es))) \<le> UINT32_MAX"

definition rest_of :: "nat \<Rightarrow> written_entry list \<Rightarrow> zip_entry list \<Rightarrow> byte list" where
  "rest_of offset ws es =
     (let records = concat (map local_record es);
          directory = concat (map centralHeader (ws @ directory_of offset es)) in
      records @ directory @
        endOfCentralDirectory (length ws + length es) (length directory) (offset + length records))"

lemma rest_of_Cons:
  "rest_of offset ws (e # es) =
     local_record e @ rest_of (offset + length (local_record e)) (ws @ [written_of offset e]) es"
  by (simp add: rest_of_def Let_def add.assoc)

lemma fits_from_Cons:
  "fits_from offset ws (e # es) \<longleftrightarrow>
     length (zip_data e) \<le> UINT32_MAX \<and> offset + length (local_record e) \<le> UINT32_MAX \<and>
     length ws < UINT16_MAX \<and> fits_from (offset + length (local_record e)) (ws @ [written_of offset e]) es"
  by (auto simp: fits_from_def)

lemma length_dataDescriptor [simp]: "length (dataDescriptor crc n) = 16"
  by (simp add: dataDescriptor_def le32_def)

lemma run_entries:
  assumes "\<not> zs_finished st" "zs_open st = None" "length (zs_written st) \<le> UINT16_MAX"
  shows "if fits_from (zs_offset st) (zs_written st) (zs_source st)
    then \<exists>st'. zip_run st = Inr st' \<and>
      concat (zs_out st') = concat (zs_out st) @ rest_of (zs_offset st) (zs_written st) (zs_source st)
    else \<exists>er. zip_run st = Inl er"
  using assms
proof (induction "zs_source st" arbitrary: st)
  case Nil
  have "zip_run st = (case openNext st of Inl er \<Rightarrow> Inl er | Inr st' \<Rightarrow> zip_run st')"
    using Nil.prems by (subst zip_run.simps) (simp add: err_def pull_def split: sum.split)
  moreover have "zip_run (st\<lparr>zs_out := out, zs_finished := True\<rparr>) = Inr (st\<lparr>zs_out := out, zs_finished := True\<rparr>)" for out
    by (subst zip_run.simps) (simp add: ok_def)
  ultimately show ?case
    using Nil.prems Nil.hyps [symmetric]
    by (auto simp: openNext_def centralDirectory_def fits_from_def rest_of_def Let_def ok_def err_def)
next
  case (Cons e es)
  let ?name = "utf8 (ze_name e)" and ?off = "zs_offset st"
  let ?open = "\<lparr>oe_name = ?name, oe_label = ze_name e, oe_offset = ?off, oe_content = ze_content e,
                oe_crc = CRC_INIT, oe_size = 0\<rparr>"
  let ?st = "st\<lparr>zs_source := es, zs_open := Some ?open, zs_out := zs_out st @ [localHeader ?name],
               zs_offset := ?off + length (localHeader ?name)\<rparr>"
  have "zip_run st = zip_run ?st"
    using Cons.prems Cons.hyps(2) [symmetric]
    by (subst zip_run.simps) (simp add: pull_def openNext_def ok_def Let_def)
  moreover obtain chunks where chunks: "concat chunks = zip_data e" and "zip_run ?st =
      (if UINT32_MAX < length (zip_data e) then Inl (EntryTooLarge (ze_name e))
       else case closeOpen (?st\<lparr>zs_offset := zs_offset ?st + length (zip_data e), zs_out := zs_out ?st @ chunks\<rparr>)
                  (?open\<lparr>oe_content := [], oe_crc := crcUpdate CRC_INIT (zip_data e),
                     oe_size := length (zip_data e)\<rparr>) of
              Inl er \<Rightarrow> Inl er | Inr st' \<Rightarrow> zip_run st')"
    using run_entry [of ?open ?st] Cons.prems by (auto simp: zip_data_def)
  ultimately have run: "zip_run st =
      (if UINT32_MAX < length (zip_data e) then Inl (EntryTooLarge (ze_name e))
       else case closeOpen (?st\<lparr>zs_offset := zs_offset ?st + length (zip_data e), zs_out := zs_out ?st @ chunks\<rparr>)
                  (?open\<lparr>oe_content := [], oe_crc := crcUpdate CRC_INIT (zip_data e),
                     oe_size := length (zip_data e)\<rparr>) of
              Inl er \<Rightarrow> Inl er | Inr st' \<Rightarrow> zip_run st')" by simp
  let ?next = "st\<lparr>zs_source := es,
      zs_out := zs_out st @ [localHeader ?name] @ chunks @ [dataDescriptor (crc32 (zip_data e)) (length (zip_data e))],
      zs_offset := ?off + length (local_record e), zs_written := zs_written st @ [written_of ?off e],
      zs_open := None\<rparr>"
  have close: "closeOpen (?st\<lparr>zs_offset := zs_offset ?st + length (zip_data e), zs_out := zs_out ?st @ chunks\<rparr>)
                  (?open\<lparr>oe_content := [], oe_crc := crcUpdate CRC_INIT (zip_data e),
                     oe_size := length (zip_data e)\<rparr>) =
      (if UINT32_MAX < ?off + length (local_record e) then err ArchiveTooLarge
       else if UINT16_MAX \<le> length (zs_written st) then err TooManyEntries else ok ?next)"
    using Cons.prems
    by (simp add: closeOpen_def Let_def written_of_def crc32_def local_record_def add.assoc)
  show ?case
  proof (cases "length (zip_data e) \<le> UINT32_MAX \<and> ?off + length (local_record e) \<le> UINT32_MAX \<and>
      length (zs_written st) < UINT16_MAX")
    case True
    then have "zip_run st = zip_run ?next" unfolding run close by (simp add: ok_def)
    moreover have "if fits_from (zs_offset ?next) (zs_written ?next) (zs_source ?next)
      then \<exists>st'. zip_run ?next = Inr st' \<and>
        concat (zs_out st') = concat (zs_out ?next) @ rest_of (zs_offset ?next) (zs_written ?next) (zs_source ?next)
      else \<exists>er. zip_run ?next = Inl er"
      by (rule Cons.hyps(1)) (use Cons.prems True in simp_all)
    moreover have "concat (zs_out ?next) = concat (zs_out st) @ local_record e"
      using chunks by (simp add: local_record_def)
    ultimately show ?thesis
      using True Cons.hyps(2) [symmetric] by (auto simp: fits_from_Cons rest_of_Cons)
  next
    case False
    then have "\<exists>er. zip_run st = Inl er" unfolding run close by (auto simp: err_def ok_def)
    with False Cons.hyps(2) [symmetric] show ?thesis by (auto simp: fits_from_Cons)
  qed
qed

lemma zipStream_archive:
  "if zip_fits entries then \<exists>chunks. zipStream entries = Inr chunks \<and> concat chunks = archive_of entries
   else \<exists>er. zipStream entries = Inl er"
proof -
  have "fits_from 0 [] entries = zip_fits entries" "rest_of 0 [] entries = archive_of entries"
    by (simp_all add: fits_from_def zip_fits_def rest_of_def archive_of_def Let_def)
  with run_entries [of "zip_start entries"] show ?thesis
    by (auto simp: zip_start_def zipStream_def ok_def err_def split: if_splits)
qed

section \<open>A reader of the format\<close>

text \<open>
  It finds the end record in the last 22 bytes, walks the central directory, and takes the data
  of every entry from behind its local header, whose checksum must be that of the data.
\<close>

definition rd16 :: "nat \<Rightarrow> byte list \<Rightarrow> nat option" where
  "rd16 i bs = (case drop i bs of a # b # _ \<Rightarrow> Some (unat a + 256 * unat b) | _ \<Rightarrow> None)"

definition rd32 :: "nat \<Rightarrow> byte list \<Rightarrow> nat option" where
  "rd32 i bs =
     (case drop i bs of
        a # b # c # d # _ \<Rightarrow> Some (unat a + 256 * unat b + 65536 * unat c + 16777216 * unat d)
      | _ \<Rightarrow> None)"

definition read_central :: "byte list \<Rightarrow> (written_entry \<times> byte list) option" where
  "read_central bs =
     (case (rd32 0 bs, rd32 16 bs, rd32 24 bs, rd16 28 bs, rd16 30 bs, rd16 32 bs, rd32 42 bs) of
        (Some sig, Some crc, Some uncompressed, Some n, Some extra, Some comment, Some offset) \<Rightarrow>
          if sig \<noteq> CENTRAL_HEADER_SIGNATURE then None
          else Some (\<lparr>we_name = take n (drop 46 bs), we_crc = word_of_nat crc, we_size = uncompressed,
                      we_offset = offset\<rparr>, drop (46 + n + extra + comment) bs)
      | _ \<Rightarrow> None)"

fun read_directory :: "nat \<Rightarrow> byte list \<Rightarrow> written_entry list option" where
  "read_directory 0 bs = Some []"
| "read_directory (Suc n) bs =
     (case read_central bs of
        None \<Rightarrow> None | Some (w, rest) \<Rightarrow> map_option ((#) w) (read_directory n rest))"

definition read_data :: "byte list \<Rightarrow> written_entry \<Rightarrow> (byte list \<times> byte list) option" where
  "read_data archive w =
     (let bs = drop (we_offset w) archive in
      case (rd32 0 bs, rd16 26 bs, rd16 28 bs) of
        (Some sig, Some n, Some extra) \<Rightarrow>
          let contents = take (we_size w) (drop (30 + n + extra) bs) in
          if sig \<noteq> LOCAL_HEADER_SIGNATURE \<or> take n (drop 30 bs) \<noteq> we_name w \<or>
             length contents \<noteq> we_size w \<or> crc32 contents \<noteq> we_crc w
          then None else Some (we_name w, contents)
      | _ \<Rightarrow> None)"

fun all_some :: "'a option list \<Rightarrow> 'a list option" where
  "all_some [] = Some []"
| "all_some (x # xs) = (case x of None \<Rightarrow> None | Some y \<Rightarrow> map_option ((#) y) (all_some xs))"

definition unzip :: "byte list \<Rightarrow> (byte list \<times> byte list) list option" where
  "unzip archive =
     (let end_record = drop (length archive - 22) archive in
      case (rd32 0 end_record, rd16 10 end_record, rd32 16 end_record) of
        (Some sig, Some count, Some offset) \<Rightarrow>
          if sig \<noteq> END_OF_CENTRAL_DIRECTORY_SIGNATURE then None
          else
            (case read_directory count (drop offset archive) of
               None \<Rightarrow> None | Some ws \<Rightarrow> all_some (map (read_data archive) ws))
      | _ \<Rightarrow> None)"

lemma unat_byte_mod: "unat (word_of_nat n :: byte) = n mod 256"
  by (simp add: unsigned_of_nat take_bit_eq_mod)

lemma rd16_le16: "v < 65536 \<Longrightarrow> rd16 0 (le16 v @ rest) = Some v"
proof -
  assume "v < 65536"
  then have "v div 256 mod 256 = v div 256" by (simp add: div_less_iff_less_mult)
  then show ?thesis by (simp add: rd16_def le16_def unat_byte_mod)
qed

lemma rd32_le32: "v < 4294967296 \<Longrightarrow> rd32 0 (le32 v @ rest) = Some v"
proof -
  assume v: "v < 4294967296"
  have top: "v div 16777216 mod 256 = v div 16777216" using v by (simp add: div_less_iff_less_mult)
  moreover have "v div 65536 = 256 * (v div 16777216) + v div 65536 mod 256"
    using div_mult_mod_eq [of "v div 65536" 256] by (simp add: div_mult2_eq [symmetric])
  moreover have "v div 256 = 256 * (v div 65536) + v div 256 mod 256"
    using div_mult_mod_eq [of "v div 256" 256] by (simp add: div_mult2_eq [symmetric])
  moreover have "v = 256 * (v div 256) + v mod 256" by simp
  ultimately have "v mod 256 + 256 * (v div 256 mod 256) + 65536 * (v div 65536 mod 256)
      + 16777216 * (v div 16777216 mod 256) = v" by linarith
  then show ?thesis by (simp add: rd32_def le32_def unat_byte_mod top)
qed

text \<open>Fields are read in front or skipped over.\<close>

lemma rd_skip:
  "length xs \<le> i \<Longrightarrow> rd16 i (xs @ ys) = rd16 (i - length xs) ys"
  "length xs \<le> i \<Longrightarrow> rd32 i (xs @ ys) = rd32 (i - length xs) ys"
  by (simp_all add: rd16_def rd32_def)

lemma length_le [simp]: "length (le16 v) = 2" "length (le32 v) = 4"
  by (simp_all add: le16_def le32_def)

lemma read_central_header:
  assumes "length (we_name w) < 65536" "we_size w < 4294967296" "we_offset w < 4294967296"
  shows "read_central (centralHeader w @ rest) = Some (w, rest)"
proof -
  have "unat (we_crc w) < 4294967296" using unsigned_less [of "we_crc w"] by simp
  with assms show ?thesis
    by (simp add: read_central_def centralHeader_def rd_skip rd16_le16 rd32_le32 CENTRAL_HEADER_SIGNATURE_def)
qed

lemma read_directory_headers:
  "(\<And>w. w \<in> set ws \<Longrightarrow> length (we_name w) < 65536 \<and> we_size w < 4294967296 \<and> we_offset w < 4294967296) \<Longrightarrow>
   read_directory (length ws) (concat (map centralHeader ws) @ rest) = Some ws"
  by (induction ws) (simp_all add: read_central_header)

lemma read_data_record:
  assumes "drop offset archive = local_record e @ rest" "length (utf8 (ze_name e)) < 65536"
  shows "read_data archive (written_of offset e) = Some (utf8 (ze_name e), zip_data e)"
proof -
  have bs: "drop offset archive = le32 LOCAL_HEADER_SIGNATURE @ le16 VERSION_NEEDED @ le16 FLAGS @
     le16 METHOD_STORED @ le16 DOS_TIME @ le16 DOS_DATE @ le32 0 @ le32 0 @ le32 0 @
     le16 (length (utf8 (ze_name e))) @ le16 0 @ utf8 (ze_name e) @ zip_data e @
     dataDescriptor (crc32 (zip_data e)) (length (zip_data e)) @ rest"
    using assms(1) by (simp add: local_record_def localHeader_def)
  show ?thesis
    using assms(2)
    by (simp add: read_data_def written_of_def bs rd_skip rd16_le16 rd32_le32 LOCAL_HEADER_SIGNATURE_def)
qed

lemma all_some_map: "(\<And>x. x \<in> set xs \<Longrightarrow> f x = Some (g x)) \<Longrightarrow> all_some (map f xs) = Some (map g xs)"
  by (induction xs) simp_all

lemma directory_of_member:
  "w \<in> set (directory_of offset es) \<Longrightarrow>
     \<exists>pre e suf. es = pre @ e # suf \<and> w = written_of (offset + length (concat (map local_record pre))) e"
proof (induction es arbitrary: offset)
  case (Cons e es)
  then consider "w = written_of offset e" | "w \<in> set (directory_of (offset + length (local_record e)) es)" by auto
  then show ?case
  proof cases
    case 1
    then show ?thesis by (intro exI [of _ "[]"]) simp
  next
    case 2
    from Cons.IH [OF this] obtain pre f suf where "es = pre @ f # suf"
      "w = written_of (offset + length (local_record e) + length (concat (map local_record pre))) f" by blast
    then show ?thesis by (intro exI [of _ "e # pre"]) (simp add: add.assoc)
  qed
qed simp

lemma read_directory_data:
  assumes "\<And>e. e \<in> set es \<Longrightarrow> length (utf8 (ze_name e)) < 65536"
  shows "drop offset archive = concat (map local_record es) @ rest \<Longrightarrow>
    all_some (map (read_data archive) (directory_of offset es)) =
      Some (map (\<lambda>e. (utf8 (ze_name e), zip_data e)) es)"
  using assms
proof (induction es arbitrary: offset)
  case (Cons e es)
  have "drop offset archive = local_record e @ concat (map local_record es) @ rest" using Cons.prems(1) by simp
  then have "read_data archive (written_of offset e) = Some (utf8 (ze_name e), zip_data e)"
    by (rule read_data_record) (use Cons.prems(2) in simp)
  moreover have "drop (offset + length (local_record e)) archive = concat (map local_record es) @ rest"
    using drop_drop [of "length (local_record e)" offset archive] Cons.prems(1) by (simp add: add.commute)
  ultimately show ?case using Cons by simp
qed simp

lemma unzip_archive:
  assumes "zip_fits es" "\<And>e. e \<in> set es \<Longrightarrow> length (utf8 (ze_name e)) < 65536"
  shows "unzip (archive_of es) = Some (map (\<lambda>e. (utf8 (ze_name e), zip_data e)) es)"
proof -
  let ?records = "concat (map local_record es)" and ?dir = "concat (map centralHeader (directory_of 0 es))"
  let ?tail = "endOfCentralDirectory (length es) (length ?dir) (length ?records)"
  have archive: "archive_of es = (?records @ ?dir) @ ?tail" by (simp add: archive_of_def Let_def)
  have "length ?tail = 22" by (simp add: endOfCentralDirectory_def)
  then have tail: "drop (length (archive_of es) - 22) (archive_of es) = ?tail" unfolding archive by simp
  have bounds: "length es < 65536" "length ?records < 4294967296"
    using assms(1) by (simp_all add: zip_fits_def UINT16_MAX_def UINT32_MAX_def)
  have tail_fields: "rd32 0 ?tail = Some END_OF_CENTRAL_DIRECTORY_SIGNATURE" "rd16 10 ?tail = Some (length es)"
    "rd32 16 ?tail = Some (length ?records)"
    using bounds by (simp_all add: endOfCentralDirectory_def rd_skip rd16_le16 rd32_le32
        END_OF_CENTRAL_DIRECTORY_SIGNATURE_def)
  have "length (we_name w) < 65536 \<and> we_size w < 4294967296 \<and> we_offset w < 4294967296"
    if w: "w \<in> set (directory_of 0 es)" for w
  proof -
    from directory_of_member [OF w] obtain pre e suf where
      es: "es = pre @ e # suf" and "w = written_of (length (concat (map local_record pre))) e" by auto
    moreover have "length (zip_data e) < 4294967296"
      using assms(1) es by (simp add: zip_fits_def UINT32_MAX_def)
    moreover have "length (concat (map local_record pre)) < 4294967296" using bounds(2) es by simp
    ultimately show ?thesis using assms(2) [of e] by (simp add: written_of_def)
  qed
  then have "read_directory (length es) (drop (length ?records) (archive_of es)) = Some (directory_of 0 es)"
    using read_directory_headers [of "directory_of 0 es" ?tail] by (simp add: archive)
  moreover have "drop 0 (archive_of es) = ?records @ ?dir @ ?tail" by (simp add: archive)
  from read_directory_data [OF assms(2) this]
  have "all_some (map (read_data (archive_of es)) (directory_of 0 es)) =
      Some (map (\<lambda>e. (utf8 (ze_name e), zip_data e)) es)" .
  ultimately show ?thesis by (simp add: unzip_def tail tail_fields)
qed

text \<open>The two-byte length field is written without a check: a longer name is recorded modulo 65,536.\<close>

lemma name_length_wraps:
  assumes "length name = 65536"
  shows "take 2 (drop 26 (localHeader name)) = le16 0"
  using assms by (simp add: localHeader_def le16_def le32_def)

end
