(* ===== verification/Spec2Isabelle.thy ===== *)
theory Spec2Isabelle
  imports Csv GateFacts RegistrySamples WorkflowFacts Zip
begin

text \<open>
  A verification development of a form engine: authors publish versioned questions and forms and
  release them to environments, respondents answer step by step, a submission is locked under a
  hash, stored once and delivered to the endpoints of its form.

  The parts and how they interact. \<^verbatim>\<open>packages/core\<close> is the kernel: pure functions over parsed
  values. An author's draft passes \<^verbatim>\<open>compileDraft\<close>, which checks structure, pins, rules, types and
  texts and freezes a snapshot. A session evaluates the frozen form on its answers and rosters
  with \<^verbatim>\<open>evaluateRules\<close>, each answer having passed \<^verbatim>\<open>validateAnswer\<close>; \<^verbatim>\<open>prepareSubmission\<close> sweeps
  the answers, locks them and hashes their canonical JSON. Links and sessions travel as compact
  tokens. \<^verbatim>\<open>packages/a2ui-compiler\<close> projects a snapshot to one interface document per step;
  \<^verbatim>\<open>packages/ui\<close> expands a step's repeating groups and prunes it to the visible questions.
  \<^verbatim>\<open>packages/csv\<close> writes the exports. \<^verbatim>\<open>packages/db\<close> holds the tables: one registry of forms,
  questions and releases, and for each environment a schema with its sessions, ledgers of answers
  and rosters, submissions and outbox. \<^verbatim>\<open>apps/api\<close> is the server between them: the gate in front of
  the admin routes, the handlers that author, publish and release, the handlers a respondent
  calls, and the schedulers that deliver and sweep.

  The kernel and the packages around it, in the order of the code.
  \<^item> \<open>QcmsPrelude\<close>: JavaScript values and numbers, loops with an early return, insertion-ordered
    sets and maps, the contracts of scanners and of encodings (locales \<open>scanner\<close>, \<open>codec\<close>,
    \<open>canonical_codec\<close>).
  \<^item> \<open>Errors\<close>, \<open>Ids\<close>, \<open>Answers\<close>: \<^verbatim>\<open>errors.ts\<close>, \<^verbatim>\<open>internal/*.ts\<close>, \<^verbatim>\<open>ids.ts\<close>,
    \<^verbatim>\<open>localized-text.ts\<close>, \<^verbatim>\<open>answer-value.ts\<close>.
  \<^item> \<open>SafePattern\<close>, \<open>Questions\<close>, \<open>ValidateAnswer\<close>: \<^verbatim>\<open>safe-pattern.ts\<close>,
    \<^verbatim>\<open>question-definition.ts\<close>, \<^verbatim>\<open>validation-message.ts\<close>, \<^verbatim>\<open>validate-answer.ts\<close>.
  \<^item> \<open>Steps\<close>, \<open>Conditions\<close>, \<open>Forms\<close>: \<^verbatim>\<open>step.ts\<close>, \<^verbatim>\<open>visibility-rule.ts\<close>,
    \<^verbatim>\<open>form-definition.ts\<close>.
  \<^item> \<open>PublishErrors\<close>, \<open>RuleGraph\<close>, \<open>GraphSearch\<close>, \<open>RuleAnalysis\<close>, \<open>RuleTypes\<close>, \<open>TypeSafety\<close>,
    \<open>CompileDraft\<close>, \<open>CompileChecks\<close>: \<^verbatim>\<open>publish-error.ts\<close>, \<^verbatim>\<open>publish-warning.ts\<close>,
    \<^verbatim>\<open>rule-graph.ts\<close>, \<^verbatim>\<open>compile-draft.ts\<close>, and what a clean report means.
  \<^item> \<open>EvaluateRules\<close>, \<open>Evaluation\<close>, \<open>Visibility\<close>, \<open>FlowAccount\<close>: \<^verbatim>\<open>evaluate-rules.ts\<close>, its
    declarative reading and the account of the required questions.
  \<^item> \<open>Json\<close>, \<open>PrepareSubmission\<close>: JSON text and the submission of \<^verbatim>\<open>prepare-submission.ts\<close>.
  \<^item> \<open>Base64\<close>, \<open>CompactToken\<close>, \<open>SecureLink\<close>: \<^verbatim>\<open>compact-token.ts\<close> and \<^verbatim>\<open>secure-link.ts\<close>.
  \<^item> \<open>Csv\<close>, \<open>Zip\<close>: \<^verbatim>\<open>packages/csv/src\<close>, the CRC with the archive.
  \<^item> \<open>A2uiNode\<close>, \<open>A2uiCompile\<close>, \<open>A2uiChecks\<close>: \<^verbatim>\<open>packages/a2ui-compiler/src\<close>.
  \<^item> \<open>RepeatNode\<close>, \<open>RepeatExpand\<close>, \<open>RepeatFacts\<close>, \<open>PageFields\<close>, \<open>HydratedPage\<close>:
    \<^verbatim>\<open>packages/ui/src/repeat\<close> and \<^verbatim>\<open>visible.ts\<close>, and the page a compiled step becomes.

  The tables and the server.
  \<^item> \<open>ServerPrelude\<close>: handlers that throw, as the error sum; queries with an order.
  \<^item> \<open>AccessPolicy\<close>, \<open>RoutePolicy\<close>, \<open>GrantCheck\<close>, \<open>GateFacts\<close>: \<^verbatim>\<open>features/membership\<close>, the
    authorisation of every admin request, and what passing it means.
  \<^item> \<open>RateLimit\<close>: \<^verbatim>\<open>rate-limit.ts\<close>, \<^verbatim>\<open>client-address.ts\<close>, \<^verbatim>\<open>responses/rate-limits.ts\<close>; the bounded
    store refines a window counter.
  \<^item> \<open>AnswerLedger\<close>, \<open>RosterLedger\<close>, \<open>SessionStore\<close>, \<open>Outbox\<close>, \<open>Deliveries\<close>, \<open>DataStore\<close>: the
    tables of one environment and their queries, with the erasure of a session and the purge.
  \<^item> \<open>RegistryStore\<close>, \<open>ReleaseStore\<close>: the tables of the registry and their queries.
  \<^item> \<open>Rosters\<close>, \<open>RosterFacts\<close>: \<^verbatim>\<open>responses/roster.ts\<close>, the instances of a repeating group.
  \<^item> \<open>ReleaseWorkflow\<close>, \<open>WorkflowFacts\<close>, \<open>ReleaseConfirm\<close>, \<open>ReleaseReview\<close>, \<open>ReleaseFacts\<close>:
    \<^verbatim>\<open>features/releases\<close>, the rules between environments, the transactions and the routes.
  \<^item> \<open>FormPublish\<close>, \<open>QuestionHandlers\<close>: \<^verbatim>\<open>features/forms/handler.ts\<close>, \<^verbatim>\<open>features/questions\<close>.
  \<^item> \<open>StepServing\<close>, \<open>RespondHandlers\<close>, \<open>SessionStart\<close>: \<^verbatim>\<open>features/responses\<close> and
    \<^verbatim>\<open>features/links\<close>, everything a respondent calls.
  \<^item> \<open>WebhookTarget\<close>, \<open>DeliveryPass\<close>, \<open>DeliveryFacts\<close>, \<open>DeliverySafety\<close>: \<^verbatim>\<open>features/webhooks\<close> and
    the schedulers; a delivery settles, an erased session is never sent, whatever interleaves.
  \<^item> \<open>RegistryLaws\<close>, \<open>FreezeFacts\<close>, \<open>ConfirmFacts\<close>, \<open>AdminSteps\<close>: the invariant of the registry, its
    abstract moves, what freezing has checked and what a confirmation does (locale \<open>freezing\<close>, read
    for drafts and for versions), and every handler as a path of the moves.
  \<^item> \<open>ServedSnapshot\<close>, \<open>SessionServed\<close>, \<open>SessionRun\<close>, \<open>RespondFacts\<close>: from a published version to
    the pages of its sessions: it is read back as it was frozen, the ledger of a session stays
    lawful under every transaction, and no live session meets a fault.
  \<^item> \<open>Samples\<close>, \<open>FormSamples\<close>, \<open>ServerSamples\<close>, \<open>RegistrySamples\<close>: the inputs of the witnesses.

  How the model reads the code. An object is a record, a tagged union a datatype, a thrown or
  returned error a value of a sum (\<open>'e + 'a\<close>, the error on the left) or, where only the fact of a
  throw matters, \<open>None\<close>. A string is its list of code units, those below 256; a number is a
  rational or one of the three special doubles; a \<^verbatim>\<open>Set\<close> is a list without repetition and a
  \<^verbatim>\<open>Map\<close> a list of entries, both in insertion order; an iterable of chunks is the list it yields.
  The CRC works on 32-bit words and the archive on bytes. A table is the list of its rows; an
  insert that breaks a constraint is an error value; a query with an \<^verbatim>\<open>order by\<close> takes the
  arrangement as an argument of which only the documented order is assumed. The time of a
  transaction, the rows other transactions have committed meanwhile (\<open>landed\<close>, \<open>racing\<close>) and what
  they did between the reads of a handler and its transaction (\<open>between\<close>) are arguments, so the
  theorems hold for every interleaving of whole transactions. What the host supplies is an
  argument too: Unicode normalization, the regular expression engine, SHA-256, HMAC, AES, random
  draws, the text decoder, the URL parser, the network, the spelling of numbers, the locale-aware
  comparison, \<^verbatim>\<open>Date.parse\<close>, and the structural half of a zod parse. The hypotheses on them are
  named (\<open>unicode_nfc\<close>, \<open>draw_law\<close>, \<open>ordering_law\<close>, \<open>respond_laws\<close> and the like) and each is
  discharged in a witness.

  Bounds and termination. Every loop is a total function: the scanners move an index forward, the
  cycle searches carry as fuel the number of their nodes, which lemmas show to be enough, the
  archive writer is pulled under a measure of the work left, and the mint of an id loops until it
  draws one that is new, which a fair source guarantees. The evaluation of a condition has no
  fuel: it recurs on the condition.

  What the groups of lemmas show. A clean report is equivalent to the legality of the form; the
  one-pass evaluation is the unique solution of its rules; a submission is locked exactly when it
  may be; encodings round trip; the compiler returns on every published snapshot, and the fields of
  a respondent's page are the visible entries of the step, whichever way a group is drawn. On the
  server: a request passes the gate exactly when the caller holds a grant for it; what is published
  and released is never changed afterwards, whoever does what; a published form is served to every
  live session of it; each answer stored was visible and valid; a response is stored once and
  delivered or dead-lettered; what is erased is never sent.

  Not modelled. The human-readable message of an error. The React components, the pages of
  \<^verbatim>\<open>apps/admin\<close> and \<^verbatim>\<open>apps/portal\<close>; in \<^verbatim>\<open>apps/api\<close> the bootstrap, sign-in, the agent over a
  language model, the screens that only list, export or configure, and of \<^verbatim>\<open>forms/handler.ts\<close> the
  listing handlers and the bench on which an author tries a condition. SQL migrations, telemetry
  and scripts. \<^verbatim>\<open>packages/create-qcms-app\<close> repeats the applications as templates.
\<close>

text \<open>C1. The single forward walk of evaluateRules refines the declarative reading of the rules: on a form that passed the publish checks, the visible list it returns is the one list V of entries in document order such that an entry is in V exactly when its step and its question are each untargeted or shown by some targeting rule evaluated against V.\<close>

theorem visible_set_unique:
  assumes "publish_checked nfc f" "valid_rosters (rosterOf rs)"
    "evaluate_form nfc f answers res rs = Inr flow"
  shows "is_visible_set (form_env nfc f answers rs) f V \<longleftrightarrow> V = visible flow"
proof -
  have vr: "valid_rosters (e_rosterOf (form_env nfc f answers rs))" using assms(2) by simp
  from evaluate_form_visible [OF assms(3)] obtain st where
    st: "walk_form (form_env nfc f answers rs) f = Inr st" "visible flow = w_visible st" by blast
  from walk_form_fixed_point [OF assms(1) vr st(1)] fixed_point_unique [OF assms(1) vr] st(2)
  show ?thesis by metis
qed

lemma visible_set_unique_witness:
  "\<exists>flow. evaluate_form id sample_form sample_answers sample_resolve sample_rosters = Inr flow \<and>
     length (visible flow) = 3 \<and>
     is_visible_set (form_env id sample_form sample_answers sample_rosters) sample_form (visible flow)"
proof -
  obtain flow where flow: "evaluate_form id sample_form sample_answers sample_resolve sample_rosters = Inr flow"
    "length (visible flow) = 3" using sample_flow by metis
  with visible_set_unique [OF sample_publish_checked sample_rosters_valid flow(1)] show ?thesis by blast
qed

text \<open>C2. A draft that compileDraft accepts never fails at run time: evaluating the frozen definition on answers that validateAnswer returned for the pinned questions yields a flow state, whatever subset of the questions is answered.\<close>

theorem compiled_form_evaluates:
  assumes "compileDraft compiles_u compiles_v draft = Inr out"
    "FormDefinition_shape nfc (d_definition draft)"
    "validated_answers nfc regex (snapshot_question (out_snapshot out)) (d_definition draft) rs answers"
    "unicode_nfc nfc" "valid_rosters (rosterOf rs)"
  shows "\<exists>flow. evaluate_form nfc (snap_definition (out_snapshot out)) answers
    (snapshot_question (out_snapshot out)) rs = Inr flow"
  by (rule compiled_evaluates [OF assms])

lemma compiled_form_evaluates_witness:
  "\<exists>out flow. compileDraft (\<lambda>_. True) (\<lambda>_. True) sample_draft = Inr out \<and>
     evaluate_form id (snap_definition (out_snapshot out)) sample_answers
       (snapshot_question (out_snapshot out)) sample_rosters = Inr flow"
proof -
  have form: "d_definition sample_draft = sample_form" by (simp add: sample_draft_def)
  obtain out where out: "compileDraft (\<lambda>_. True) (\<lambda>_. True) sample_draft = Inr out"
    "validated_answers id (\<lambda>_. None) (snapshot_question (out_snapshot out)) (d_definition sample_draft)
       sample_rosters sample_answers"
    using sample_compiled form by metis
  have "FormDefinition_shape id (d_definition sample_draft)" using form sample_shape by simp
  from compiled_form_evaluates [OF out(1) this out(2) unicode_nfc_id sample_rosters_valid] out(1)
  show ?thesis by blast
qed

text \<open>C3. Only the answers at visible keys matter (I6): replacing every other answer, or removing it, leaves the whole flow state unchanged.\<close>

theorem hidden_answers_ignored:
  assumes "evaluate_form nfc f answers res rs = Inr flow"
    "\<And>e. e \<in> set (visible flow) \<Longrightarrow> answers' (entry_key e) = answers (entry_key e)"
    "\<And>k raw. answers' k = Some raw \<Longrightarrow> AnswerValue nfc raw \<noteq> None"
  shows "evaluate_form nfc f answers' res rs = Inr flow"
  by (rule hidden_answers_irrelevant [OF assms])

lemma hidden_answers_ignored_witness:
  "\<exists>flow. evaluate_form id sample_form ((\<lambda>_. None)(''q_a'' \<mapsto> JBool False)) sample_resolve sample_rosters = Inr flow \<and>
     evaluate_form id sample_form ((\<lambda>_. None)(''q_a'' \<mapsto> JBool False, ''q_c'' \<mapsto> JNum (Fin 4)))
       sample_resolve sample_rosters = Inr flow"
proof -
  let ?a = "(\<lambda>_. None)(''q_a'' \<mapsto> JBool False) :: answer_map"
  let ?b = "?a(''q_c'' \<mapsto> JNum (Fin 4))"
  have "case evaluate_form id sample_form ?a sample_resolve sample_rosters of Inl _ \<Rightarrow> False
      | Inr flow \<Rightarrow> map entry_key (visible flow) = [''q_a'', ''ins_x/q_b'']"
    by code_simp
  then obtain flow where flow: "evaluate_form id sample_form ?a sample_resolve sample_rosters = Inr flow"
    "map entry_key (visible flow) = [''q_a'', ''ins_x/q_b'']" by (auto split: sum.splits)
  have "?b (entry_key e) = ?a (entry_key e)" if "e \<in> set (visible flow)" for e
  proof -
    have "entry_key e \<in> set (map entry_key (visible flow))" using that by simp
    then show ?thesis unfolding flow(2) by auto
  qed
  moreover have "AnswerValue id raw \<noteq> None" if "?b k = Some raw" for k raw
    using that by (auto split: if_splits)
  ultimately have "evaluate_form id sample_form ?b sample_resolve sample_rosters = Inr flow"
    by (rule hidden_answers_ignored [OF flow(1)])
  with flow(1) show ?thesis by (intro exI [of _ flow] conjI)
qed

text \<open>C4. What compileDraft freezes: the definition it was given and, in document order and without repetition, exactly the version record each pin names, every one resolved under its own id and version and published; stamped with the two version constants.\<close>

theorem snapshot_is_the_pinned_versions:
  assumes "compileDraft compiles_u compiles_v draft = Inr out"
  shows "snap_definition (out_snapshot out) = d_definition draft \<and>
    map (\<lambda>record. (rec_questionId record, rec_version record)) (snap_questions (out_snapshot out)) =
      map (\<lambda>r. (ref_questionId r, ref_version r)) (form_refs (d_definition draft)) \<and>
    distinct (map rec_questionId (snap_questions (out_snapshot out))) \<and>
    (\<forall>record \<in> set (snap_questions (out_snapshot out)).
       d_resolveQuestion draft (rec_questionId record) (rec_version record) = Some record \<and>
       (\<exists>vs. publishedQuestionVersions draft (rec_questionId record) = Some vs \<and> rec_version record \<in> vs)) \<and>
    semanticsVersion (out_snapshot out) = 1 \<and> schemaVersion (out_snapshot out) = 2"
proof -
  let ?refs = "form_refs (d_definition draft)" and ?rec = "\<lambda>r. the (pin_record draft r)"
  from assms have clean: "draft_errors draft = []" by (simp add: compileDraft_Inr_iff)
  have qs: "snap_questions (out_snapshot out) = map ?rec ?refs"
    using assms by (simp add: compileDraft_Inr_iff clean_snapshot_questions [OF clean])
  have rec: "d_resolveQuestion draft (ref_questionId r) (ref_version r) = Some (?rec r) \<and>
      rec_questionId (?rec r) = ref_questionId r \<and> rec_version (?rec r) = ref_version r"
    if "r \<in> set ?refs" for r
    using clean_pins(1) [OF clean that] by (auto dest: pin_record_Some)
  have "distinct (map ref_questionId ?refs)"
    using clean_unambiguous [OF clean] by (simp add: unambiguous_def form_pins_refs)
  then have "distinct (map rec_questionId (map ?rec ?refs))" using rec by (simp cong: map_cong)
  moreover have "\<exists>vs. publishedQuestionVersions draft (ref_questionId r) = Some vs \<and> ref_version r \<in> vs"
    if "r \<in> set ?refs" for r
    using clean_pins(2) [OF clean that] by (simp add: published_pin_def)
  ultimately show ?thesis
    using rec assms unfolding qs
    by (auto simp: compileDraft_Inr_iff SEMANTICS_VERSION_def SNAPSHOT_SCHEMA_VERSION_def)
qed

lemma snapshot_is_the_pinned_versions_witness:
  "\<exists>out. compileDraft (\<lambda>_. True) (\<lambda>_. True) sample_draft = Inr out \<and>
     map rec_questionId (snap_questions (out_snapshot out)) = [''q_a'', ''q_b'', ''q_c'']"
proof -
  obtain out where out: "compileDraft (\<lambda>_. True) (\<lambda>_. True) sample_draft = Inr out"
    using sample_compiled by metis
  have "map (\<lambda>r. (ref_questionId r, ref_version r)) (form_refs (d_definition sample_draft)) =
      [(''q_a'', 1), (''q_b'', 1), (''q_c'', 1)]" by code_simp
  with snapshot_is_the_pinned_versions [OF out]
  have "map (\<lambda>record. (rec_questionId record, rec_version record)) (snap_questions (out_snapshot out)) =
      [(''q_a'', 1), (''q_b'', 1), (''q_c'', 1)]" by simp
  from arg_cong [OF this, of "map fst"]
  have "map rec_questionId (snap_questions (out_snapshot out)) = [''q_a'', ''q_b'', ''q_c'']"
    by (simp only: map_map comp_def fst_conv list.map)
  with out show ?thesis by (intro exI [of _ out] conjI)
qed

text \<open>C5. compileDraft succeeds exactly on the publishable drafts, the conjunction of what its stages ask for: unambiguous ids, legal groups, bounded conditions, every pin resolved and published, every reference resolved, a clean rule graph, well-typed conditions, number counts, admissible table columns, texts complete in the default locale and never blank, and no orphan message; otherwise it returns the report of every stage, which is never empty.\<close>

theorem publish_exact:
  "((\<exists>out. compileDraft compiles_u compiles_v draft = Inr out) \<longleftrightarrow> publishable draft) \<and>
   (compileDraft compiles_u compiles_v draft = Inl errors \<longrightarrow> errors = draft_errors draft \<and> errors \<noteq> [])"
  by (auto simp: compileDraft_Inr_iff compileDraft_Inl_iff simp flip: draft_errors_Nil_iff)

lemma publish_exact_witness:
  "publishable sample_draft"
proof -
  obtain out where "compileDraft (\<lambda>_. True) (\<lambda>_. True) sample_draft = Inr out" using sample_compiled by metis
  with publish_exact [of "\<lambda>_. True" "\<lambda>_. True" sample_draft "[]"] show ?thesis by blast
qed

text \<open>C6. A published form is served to every live session of it, for ever: whatever the admin requests were that led to the version and whatever requests follow it, whatever the respondent has answered, retracted, added or removed in whatever order, the step handler returns a page and never a fault. The transactions of a session run one at a time, as its lock makes them, each operation on a roster later than what the ledger holds; groups are to have no more instances than there are ids.\<close>

theorem live_sessions_are_always_served:
  assumes "ordering_law (ah_version_order A)" "int_text_law (ah_release A)" "respond_laws A P"
    "empty_registry reg0" "admin_run A Lib envs reg0 reg"
    "version_at (rd_versions reg) (sn_formId session) (sn_formVersion session) = Some v" "groups_fit (f_steps (fv_definition v))"
  shows "\<exists>L. loadSnapshot (rd_versions reg) (rd_questionVersions reg) session = Inr L \<and>
    (\<forall>reg' db0 between db s requested now stamp. admin_run A Lib envs reg reg' \<and> session_rows s db0 = ([], []) \<and>
       session_run P L s db0 (between db) \<and> loadActiveSession (dd_sessions db) s now = Inr session \<longrightarrow>
       (\<exists>response db'. getStep P (tables_of reg') between db s requested now stamp = Inr (response, db')))"
proof -
  have sound: "registry_sound A reg" by (rule admin_run_sound [OF assms(1,5) empty_sound [OF assms(4)]])
  obtain L where L: "loadSnapshot (rd_versions reg) (rd_questionVersions reg) session = Inr L" "loaded_from A L"
    by (rule session_loads [OF sound rtranclp.rtrancl_refl assms(2,6,7)])
  have "\<exists>response db'. getStep P (tables_of reg') between db s requested now stamp = Inr (response, db')"
    if "admin_run A Lib envs reg reg'" "session_rows s db0 = ([], [])" "session_run P L s db0 (between db)"
      "loadActiveSession (dd_sessions db) s now = Inr session" for reg' db0 between db s requested now stamp
  proof -
    have "registry_path A reg reg'" by (rule admin_run_path [OF assms(1) that(1) sound])
    with session_loads [OF sound this assms(2,6,7)] L(1) have after: "loadSnapshot (rd_versions reg') (rd_questionVersions reg') session = Inr L"
      by (metis sum.inject(2))
    have "session_lawful P L s (between db)"
      by (rule session_run_lawful [OF L(2) assms(3) that(3) session_lawful_empty [OF that(2)]])
    from getStep_total [where between = between and db = db and R = "tables_of reg'", OF L(2) assms(3) this that(4)] after
    show ?thesis by (metis tables_of_simps(2,3))
  qed
  with L(1) show ?thesis by blast
qed

lemma live_sessions_are_always_served_witness:
  "\<exists>reg response db'. admin_calls sample_registry sample_calls = Some reg \<and>
     getStep sample_respond (tables_of reg) id open_db ''ses_a'' None 5 5 = Inr (response, db')"
proof -
  obtain reg v where reg: "admin_calls sample_registry sample_calls = Some reg" "admin_run sample_author sample_library [] sample_registry reg"
    "version_at (rd_versions reg) (sn_formId open_session) (sn_formVersion open_session) = Some v" "fv_definition v = sample_form"
    by (rule sample_run)
  have "groups_fit (f_steps (fv_definition v))" "int_text_law (ah_release sample_author)"
    using sample_fits sample_int_text_law by (simp_all add: reg(4) sample_author_def)
  from live_sessions_are_always_served [OF sample_order this(2) sample_respond_laws sample_empty reg(2,3) this(1)]
  have "\<exists>response db'. getStep sample_respond (tables_of reg) id open_db ''ses_a'' None 5 5 = Inr (response, db')"
    using open_rows open_active by (metis admin_run.Start id_apply rtranclp.rtrancl_refl)
  with reg(1) show ?thesis by blast
qed

text \<open>C7. What a version was published as is what every respondent is served, whatever is done to the registry afterwards: the snapshot read back in any later registry is the one the kernel compiled the draft to, without an error, its definition is the row of the version, and the pages stored with the version are its compilation.\<close>

theorem published_versions_never_change:
  assumes "ordering_law (ah_version_order A)" "int_text_law (ah_release A)"
    "empty_registry reg0" "admin_run A Lib envs reg0 reg" "admin_run A Lib envs reg reg'"
    "version_at (rd_versions reg) (sn_formId session) (sn_formVersion session) = Some v"
  shows "\<exists>draft out. compileDraft (ah_compiles_u A) (ah_compiles_v A) draft = Inr out \<and>
    formId (d_definition draft) = sn_formId session \<and> fv_definition v = d_definition draft \<and>
    compileForm (out_snapshot out) None = Some (fv_compiled v) \<and>
    loadFrozenSnapshot (rd_versions reg) (rd_questionVersions reg) session = Inr (out_snapshot out, v) \<and>
    loadFrozenSnapshot (rd_versions reg') (rd_questionVersions reg') session = Inr (out_snapshot out, v)"
proof -
  have sound: "registry_sound A reg" by (rule admin_run_sound [OF assms(1,4) empty_sound [OF assms(3)]])
  obtain draft out where served: "frozen_from A draft out (rd_questionVersions reg) v"
    "loadFrozenSnapshot (rd_versions reg) (rd_questionVersions reg) session = Inr (out_snapshot out, v)"
    "loadFrozenSnapshot (rd_versions reg') (rd_questionVersions reg') session = Inr (out_snapshot out, v)"
    by (rule sound_serves [OF sound admin_run_path [OF assms(1,5) sound] assms(2,6)])
  with frozen_parts [OF served(1)] version_at_mem [OF assms(6)] show ?thesis by (auto simp: frozen_from_def)
qed

lemma published_versions_never_change_witness:
  "\<exists>reg reg' frozen v. admin_calls sample_registry sample_calls = Some reg \<and>
     admin_step sample_author sample_library [] sample_env reg (DeprecateVersion ''q_a'' ''1'') = Some reg' \<and>
     loadFrozenSnapshot (rd_versions reg') (rd_questionVersions reg') open_session = Inr (frozen, v) \<and> fv_definition v = sample_form"
proof -
  obtain reg v where reg: "admin_calls sample_registry sample_calls = Some reg" "admin_run sample_author sample_library [] sample_registry reg"
    "version_at (rd_versions reg) (sn_formId open_session) (sn_formVersion open_session) = Some v" "fv_definition v = sample_form"
    by (rule sample_run)
  from sample_deprecates reg(1) obtain reg'
    where step: "admin_step sample_author sample_library [] sample_env reg (DeprecateVersion ''q_a'' ''1'') = Some reg'"
    by (auto split: option.splits)
  have "admin_run sample_author sample_library [] reg reg'"
    by (rule admin_calls_run [OF _ admin_run.Start, of _ "[DeprecateVersion ''q_a'' ''1'']"]) (simp add: step del: admin_step.simps)
  from published_versions_never_change [OF sample_order _ sample_empty reg(2) this reg(3)] sample_int_text_law reg(4) reg(1) step
  show ?thesis by (auto simp: sample_author_def)
qed



text \<open>C9. What the answer handler accepts: the session is live, the question is one the version pins, the cell is visible in the flow evaluated under the lock of the session, and the ledger gains exactly one row, which holds the canonical value of an answer the question accepts, or a retraction; or nothing, when a cell with no answer is cleared.\<close>

theorem answers_land_in_visible_cells:
  assumes "submitAnswer P R between db s b requested now stamp = Inr (response, db')"
  shows "\<exists>session L t flow. loadActiveSession (dd_sessions db) s now = Inr session \<and>
    loadSnapshot (pt_versions R) (pt_questions R) session = Inr L \<and> answerTarget L b = Inr t \<and> good_target L t \<and>
    flow_now P L s (between db) = Inr flow \<and> isCellVisible flow t \<and>
    (if tg_value t = JNull \<and> map_of (held_by P (between db) s) (tg_key t) = None
     then at_rows (dd_answers db') = at_rows (dd_answers (between db))
     else \<exists>r. at_rows (dd_answers db') = at_rows (dd_answers (between db)) @ [r] \<and> row_for P s t r)"
proof -
  from assms obtain session L t where loaded: "loadActiveSession (dd_sessions db) s now = Inr session"
    "loadSnapshot (pt_versions R) (pt_questions R) session = Inr L" "answerTarget L b = Inr t"
    and tx: "answer_tx P L s t requested stamp (between db) = Inr (response, db')"
    by (auto simp: submitAnswer_def throw_simps)
  obtain flow db1 where parts: "flow_now P L s (between db) = Inr flow" "isCellVisible flow t"
    "applyOneAnswer P s (held_by P (between db) s) t stamp (between db) = (None, db1)"
    "serve_after P L s requested stamp db1 = Inr (response, db')"
    by (rule answer_tx_parts [OF tx])
  show ?thesis
    using loaded parts(1,2) answerTarget_good [OF loaded(3)] applyOneAnswer_rows [OF parts(3)] serve_after_answers [OF parts(4)] by auto
qed

lemma answers_land_in_visible_cells_witness:
  "\<exists>reg response db L t flow. admin_calls sample_registry sample_calls = Some reg \<and>
     submitAnswer sample_respond (tables_of reg) id answered_db ''ses_a'' \<lparr>ab_questionId = ''q_a'', ab_instanceId = None, ab_value = JBool False\<rparr>
       None 5 5 = Inr (response, db) \<and> flow_now sample_respond L ''ses_a'' answered_db = Inr flow \<and> isCellVisible flow t \<and>
     (\<exists>r. at_rows (dd_answers db) = at_rows (dd_answers answered_db) @ [r])"
proof -
  obtain reg response db where run: "admin_calls sample_registry sample_calls = Some reg"
    and lands: "submitAnswer sample_respond (tables_of reg) id answered_db ''ses_a''
      \<lparr>ab_questionId = ''q_a'', ab_instanceId = None, ab_value = JBool False\<rparr> None 5 5 = Inr (response, db)" "length (at_rows (dd_answers db)) = 3"
    using sample_answer_lands by (auto split: option.splits sum.splits)
  have "length (at_rows (dd_answers answered_db)) = 2" by (simp add: answered_db_def)
  with answers_land_in_visible_cells [OF lands(1)] lands(2) obtain L t flow where
    "flow_now sample_respond L ''ses_a'' answered_db = Inr flow" "isCellVisible flow t"
    "\<exists>r. at_rows (dd_answers db) = at_rows (dd_answers answered_db) @ [r]"
    by (auto split: if_splits)
  with run lands(1) show ?thesis by blast
qed



text \<open>C11. checkStructure is empty exactly on a form whose step, question and group ids are each unique, whose groups hold no group, have a declared maximum not below their minimum and use no placeholder but n in their labels, and whose conditions stay within the depth cap.\<close>

theorem structure_report_exact:
  "checkStructure f = [] \<longleftrightarrow>
     unambiguous f \<and> (\<forall>g \<in> set (repeatGroups (f_steps f)). legal_group g) \<and>
     (\<forall>r \<in> set (f_rules f). \<not> depth_exceeded (rule_when r))"
  by (rule checkStructure_Nil_iff)

lemma structure_report_exact_witness:
  "unambiguous sample_form \<and> checkStructure sample_form = []"
  using structure_report_exact [of sample_form] sample_unambiguous clean_draft(1) [OF sample_clean]
  by (simp add: sample_draft_def)

text \<open>C12. The forward-only rule (ADR-16): when analyzeRuleGraph finds nothing, every question a rule reads, by itself or as a member of a group it reads, comes strictly before every question the rule shows, so the graph of reads to targets has no cycle.\<close>

theorem no_backward_reads:
  assumes "analyzeRuleGraph f = []" "unambiguous f"
  shows "(\<forall>rule \<in> set (f_rules f). \<forall>q \<in> set (rule_reads (form_positions f) (groupSpans f) rule).
      \<forall>t \<in> set (rule_shows f (form_positions f) rule).
        the (map_of (form_positions f) q) < the (map_of (form_positions f) t)) \<and>
    acyclic (edge_rel (form_adjacency f))"
proof -
  have "forward_rule f rule" if "rule \<in> set (f_rules f)" for rule
    by (rule backward_targets_Nil [OF assms(2)])
       (use assms(1) that in \<open>simp add: analyzeRuleGraph_def Let_def\<close>)
  with forward_acyclic show ?thesis by (auto simp: forward_rule_def)
qed

lemma no_backward_reads_witness:
  "acyclic (edge_rel (form_adjacency sample_form)) \<and>
   the (map_of (form_positions sample_form) ''q_a'') < the (map_of (form_positions sample_form) ''q_c'')"
proof -
  have "analyzeRuleGraph sample_form = []"
    using clean_draft(4) [OF sample_clean] by (simp add: sample_draft_def)
  note facts = no_backward_reads [OF this sample_unambiguous]
  have "sample_rule \<in> set (f_rules sample_form)"
    "''q_a'' \<in> set (rule_reads (form_positions sample_form) (groupSpans sample_form) sample_rule)"
    "''q_c'' \<in> set (rule_shows sample_form (form_positions sample_form) sample_rule)"
    by code_simp+
  with facts show ?thesis by blast
qed

text \<open>C13. checkRuleTypes implements the typing judgement of conditions: it finds nothing exactly when the condition of every rule is well typed against the resolved questions.\<close>

theorem rule_types_exact:
  "checkRuleTypes f res = [] \<longleftrightarrow> (\<forall>r \<in> set (f_rules f). well_typed res (rule_when r))"
  by (rule checkRuleTypes_Nil_iff)

lemma rule_types_exact_witness:
  "checkRuleTypes sample_form sample_resolve = [] \<and>
   checkRuleTypes sample_form (\<lambda>q. sample_resolve ''q_c'') \<noteq> []"
proof -
  have rules: "f_rules sample_form = [sample_rule]" by (simp add: sample_form_def)
  have "well_typed sample_resolve (rule_when sample_rule)"
    "\<not> well_typed (\<lambda>q. sample_resolve ''q_c'') (rule_when sample_rule)"
    by (auto simp: sample_rule_def sample_resolve_def sample_bodies_def sample_question_def value_fits_def q_type_def)
  with rules show ?thesis
    using rule_types_exact [of sample_form sample_resolve]
      rule_types_exact [of sample_form "\<lambda>q. sample_resolve ''q_c''"] by simp
qed

text \<open>C14. The account of the flow state: the missing required questions are exactly the required questions with a visible unanswered entry, the answered ones are the other visible required questions, neither list repeats a question, and the flow is complete when nothing is missing.\<close>

theorem required_account:
  assumes "evaluate_form nfc f answers res rs = Inr flow"
  shows "set (missingRequired flow) =
      v_question ` {e \<in> set (visible flow). required_q res e \<and> \<not> answered nfc answers e} \<and>
    set (answeredRequired flow) =
      v_question ` {e \<in> set (visible flow). required_q res e} - set (missingRequired flow) \<and>
    distinct (missingRequired flow @ answeredRequired flow) \<and>
    (complete flow \<longleftrightarrow>
       (\<forall>e \<in> set (visible flow). required_q res e \<longrightarrow> answered nfc answers e))"
  using flow_account [OF assms] by (auto simp flip: set_empty)

lemma required_account_witness:
  "\<exists>flow. evaluate_form id sample_form sample_answers sample_resolve sample_rosters = Inr flow \<and>
     (\<forall>e \<in> set (visible flow). required_q sample_resolve e \<longrightarrow> answered id sample_answers e)"
proof -
  obtain flow where flow: "evaluate_form id sample_form sample_answers sample_resolve sample_rosters = Inr flow"
    "complete flow" using sample_flow by metis
  with required_account [OF flow(1)] show ?thesis by blast
qed

text \<open>C15. prepareSubmission locks exactly the submissions that may be locked: the flow evaluates, every visible question is answered validly or is optional and open, every group has a legal number of instances and every answer belongs to the form; what is locked is then the canonical answers of the visible questions in order, the flow state, and the hash over both, and the flow state is complete.\<close>

theorem submission_exact:
  assumes "blank_stable (s_nfc H)"
  shows "prepareSubmission H raw snap answers rs = Inr locked \<longleftrightarrow>
    (\<exists>flow. evaluateRules (s_nfc H) (s_decode H) raw (map_of answers) (map_of (snapshot_definitions snap)) rs
         = Inr flow \<and>
       submittable H snap answers rs flow \<and> complete flow \<and>
       locked = \<lparr>lk_answers = locked_of H snap answers flow, lk_flowState = flow,
                 lk_contentHash = computeContentHash H (content_js (locked_of H snap answers flow) flow)\<rparr>)"
proof -
  have "complete flow"
    if "evaluateRules (s_nfc H) (s_decode H) raw (map_of answers) (map_of (snapshot_definitions snap)) rs = Inr flow"
      "submittable H snap answers rs flow" for flow
    using that submittable_complete [OF _ that(2) assms] by (auto elim: evaluateRules_form)
  then show ?thesis unfolding prepareSubmission_Inr_iff by blast
qed

lemma submission_exact_witness:
  "\<exists>locked. prepareSubmission (sample_submit sample_form) JNull (snapshot_of sample_draft) sample_entries sample_rosters
     = Inr locked \<and> complete (lk_flowState locked)"
proof -
  obtain locked where
    locked: "prepareSubmission (sample_submit sample_form) JNull (snapshot_of sample_draft) sample_entries sample_rosters
       = Inr locked"
    using sample_submission by (auto split: sum.splits)
  have "blank_stable (s_nfc (sample_submit sample_form))" by (simp add: blank_stable_def)
  from locked [unfolded submission_exact [OF this]] locked show ?thesis by auto
qed

text \<open>C16. Only answers of visible questions are locked (I6), each under its own question and instance, canonical and valid for that question, and never a blank one.\<close>

theorem locked_answers_are_visible:
  assumes "prepareSubmission H raw snap answers rs = Inr locked"
  shows "a \<in> set (lk_answers locked) \<longleftrightarrow>
    (\<exists>e \<in> set (visible (lk_flowState locked)). la_question a = v_question e \<and> la_instance a = v_instance e \<and>
       (\<exists>d x. map_of (snapshot_definitions snap) (v_question e) = Some d \<and>
          map_of answers (answerKey (v_question e) (v_instance e)) = Some x \<and> \<not> blank_raw x \<and>
          validateAnswer (s_nfc H) (s_regex H) d x = Inr (la_value a)))"
proof -
  from assms obtain flow where l: "lk_answers locked = locked_of H snap answers flow" "lk_flowState locked = flow"
    by (auto simp: prepareSubmission_Inr_iff)
  have "given answers e = Some x \<longleftrightarrow>
      map_of answers (answerKey (v_question e) (v_instance e)) = Some x \<and> \<not> blank_raw x" for e x
    by (auto simp: given_def entry_key_def split: option.splits)
  then show ?thesis unfolding l locked_of_iff by simp
qed

lemma locked_answers_are_visible_witness:
  "\<exists>locked. prepareSubmission (sample_submit sample_form) JNull (snapshot_of sample_draft) sample_entries sample_rosters
     = Inr locked \<and>
   (\<exists>e \<in> set (visible (lk_flowState locked)). v_question e = la_question (hd (lk_answers locked)))"
proof -
  obtain locked where
    locked: "prepareSubmission (sample_submit sample_form) JNull (snapshot_of sample_draft) sample_entries sample_rosters
       = Inr locked" and vals: "map la_value (lk_answers locked) = [ABool True, AText ''Rex'', ANum (Fin 4)]"
    using sample_submission by (auto split: sum.splits)
  from vals have "hd (lk_answers locked) \<in> set (lk_answers locked)" by (cases "lk_answers locked") auto
  with locked_answers_are_visible [OF locked] locked show ?thesis by force
qed

text \<open>C17. A refused submission is told every reason: when the flow evaluates, the report holds exactly the missing and the invalid answers of the visible questions, every group whose count is out of range, and every answer to a question the form does not have.\<close>

theorem submission_report_complete:
  assumes "evaluateRules (s_nfc H) (s_decode H) raw (map_of answers) (map_of (snapshot_definitions snap)) rs = Inr flow"
    "prepareSubmission H raw snap answers rs = Inl errors"
  shows "(MISSING_REQUIRED q inst \<in> set errors \<longleftrightarrow>
      (\<exists>e \<in> set (visible flow). v_question e = q \<and> v_instance e = inst \<and> given answers e = None \<and>
         required_q (map_of (snapshot_definitions snap)) e)) \<and>
    (INVALID_ANSWER q inst es \<in> set errors \<longleftrightarrow>
      (\<exists>e \<in> set (visible flow). v_question e = q \<and> v_instance e = inst \<and>
         (\<exists>d x. map_of (snapshot_definitions snap) q = Some d \<and> given answers e = Some x \<and>
            validateAnswer (s_nfc H) (s_regex H) d x = Inl es))) \<and>
    (REPEAT_COUNT_OUT_OF_RANGE gid n \<in> set errors \<longleftrightarrow>
      (\<exists>g \<in> set (repeatGroups (f_steps (snap_definition snap))). groupId g = gid \<and> \<not> count_legal rs g \<and>
         n = length (rosterOf rs gid))) \<and>
    (UNKNOWN_QUESTION q inst \<in> set errors \<longleftrightarrow>
      q \<notin> set (form_pins (snap_definition snap)) \<and> (\<exists>k \<in> fst ` set answers. answerKeyParts k = (inst, q)))"
proof -
  note errors = prepareSubmission_errors [OF assms]
  have "MISSING_REQUIRED q inst \<in> set errors \<longleftrightarrow>
      (\<exists>e \<in> set (visible flow). v_question e = q \<and> v_instance e = inst \<and> given answers e = None \<and>
         required_q (map_of (snapshot_definitions snap)) e)"
    unfolding errors by (auto simp: entry_errors_iff required_q_def)
  moreover have "INVALID_ANSWER q inst es \<in> set errors \<longleftrightarrow>
      (\<exists>e \<in> set (visible flow). v_question e = q \<and> v_instance e = inst \<and>
         (\<exists>d x. map_of (snapshot_definitions snap) q = Some d \<and> given answers e = Some x \<and>
            validateAnswer (s_nfc H) (s_regex H) d x = Inl es))"
    unfolding errors by (auto simp: entry_errors_iff)
  moreover have "REPEAT_COUNT_OUT_OF_RANGE gid n \<in> set errors \<longleftrightarrow>
      (\<exists>g \<in> set (repeatGroups (f_steps (snap_definition snap))). groupId g = gid \<and> \<not> count_legal rs g \<and>
         n = length (rosterOf rs gid))"
    unfolding errors by (auto simp: entry_errors_iff)
  moreover have "UNKNOWN_QUESTION q inst \<in> set errors \<longleftrightarrow>
      q \<notin> set (form_pins (snap_definition snap)) \<and> (\<exists>k \<in> fst ` set answers. answerKeyParts k = (inst, q))"
    unfolding errors by (force simp: entry_errors_iff)
  ultimately show ?thesis by blast
qed

lemma submission_report_complete_witness:
  "prepareSubmission (sample_submit sample_form) JNull (snapshot_of sample_draft)
     [(''q_a'', JBool True), (''q_c'', JNum (Fin (- 1))), (''q_z'', JBool True)] sample_rosters =
   Inl [MISSING_REQUIRED ''q_b'' (Some ''ins_x''),
        INVALID_ANSWER ''q_c'' None [failure VALUE_BELOW_MIN MinBound], UNKNOWN_QUESTION ''q_z'' None] \<and>
   ''q_z'' \<notin> set (form_pins sample_form)"
proof -
  let ?H = "sample_submit sample_form" and ?snap = "snapshot_of sample_draft"
  let ?answers = "[(''q_a'', JBool True), (''q_c'', JNum (Fin (- 1))), (''q_z'', JBool True)]"
  have form: "snap_definition ?snap = sample_form" by (simp add: snapshot_of_def sample_draft_def)
  have "case evaluateRules (s_nfc ?H) (s_decode ?H) JNull (map_of ?answers) (map_of (snapshot_definitions ?snap))
      sample_rosters of Inl _ \<Rightarrow> False | Inr _ \<Rightarrow> True"
    by code_simp
  then obtain flow where "evaluateRules (s_nfc ?H) (s_decode ?H) JNull (map_of ?answers)
      (map_of (snapshot_definitions ?snap)) sample_rosters = Inr flow"
    by (auto split: sum.splits)
  from submission_report_complete [OF this sample_refused, of "''q_z''" None]
  have "''q_z'' \<notin> set (form_pins (snap_definition ?snap))" by simp
  with sample_refused form show ?thesis by simp
qed

text \<open>C18. The text the content hash is taken over identifies what was locked: two locked submissions have the same canonical JSON exactly when their answers and their flow states are equal, so two different ones can share a hash only by a collision of SHA-256.\<close>

theorem hashed_text_identifies_submission:
  assumes "json_numerals (s_num_text H) num_of D" "locked_in D l" "locked_in D l'"
  shows "(canonicalJson (s_num_text H) (content_js l flow) = canonicalJson (s_num_text H) (content_js l' flow')
      \<longleftrightarrow> l = l' \<and> flow = flow') \<and>
    (computeContentHash H (content_js l flow) = computeContentHash H (content_js l' flow') \<longleftrightarrow>
       s_sha256 H (utf8 (canonicalJson (s_num_text H) (content_js l flow))) =
       s_sha256 H (utf8 (canonicalJson (s_num_text H) (content_js l' flow'))))"
  using canonical_content_iff [OF assms] hex_inj by (auto simp: computeContentHash_def)

lemma hashed_text_identifies_submission_witness:
  "\<forall>flow. canonicalJson (\<lambda>_. ''4'') (content_js [\<lparr>la_question = ''q_a'', la_instance = None, la_value = ANum (Fin 4)\<rparr>] flow) \<noteq>
   canonicalJson (\<lambda>_. ''4'') (content_js [\<lparr>la_question = ''q_a'', la_instance = Some ''ins_x'', la_value = ANum (Fin 4)\<rparr>] flow)"
proof
  fix flow
  have "is_numeral ''4''" "list_all num_char ''4''" by code_simp+
  then have "json_numerals (s_num_text (sample_submit sample_form)) (\<lambda>_. Fin 4) {4}"
    by (simp add: json_numerals_def)
  note * = hashed_text_identifies_submission [OF this,
    of "[\<lparr>la_question = ''q_a'', la_instance = None, la_value = ANum (Fin 4)\<rparr>]"
       "[\<lparr>la_question = ''q_a'', la_instance = Some ''ins_x'', la_value = ANum (Fin 4)\<rparr>]" flow flow,
    unfolded sample_submit_simps]
  have "locked_in {4} [\<lparr>la_question = ''q_a'', la_instance = i, la_value = ANum (Fin 4)\<rparr>]" for i
    by (simp add: locked_in_def value_in_def)
  with * show "canonicalJson (\<lambda>_. ''4'') (content_js [\<lparr>la_question = ''q_a'', la_instance = None, la_value = ANum (Fin 4)\<rparr>] flow) \<noteq>
   canonicalJson (\<lambda>_. ''4'') (content_js [\<lparr>la_question = ''q_a'', la_instance = Some ''ins_x'', la_value = ANum (Fin 4)\<rparr>] flow)"
    by (simp del: canonicalJson.simps)
qed



text \<open>C20. compileForm returns on every published snapshot, in any locale: neither of its throws, an unresolved pin and a text without the default locale, is reached from a draft that compileDraft accepted.\<close>

theorem compile_never_throws:
  assumes "compileDraft compiles_u compiles_v draft = Inr out"
  shows "\<exists>form. compileForm (out_snapshot out) wanted = Some form \<and>
    map doc_stepId (documents form) = map stepId (f_steps (d_definition draft))"
proof -
  from assms have def: "snap_definition (out_snapshot out) = d_definition draft" by (simp add: compileDraft_Inr_iff)
  from compiled_form_total [OF assms] obtain form where form: "compileForm (out_snapshot out) wanted = Some form" by blast
  from compileForm_steps [OF this] form show ?thesis unfolding def by blast
qed

lemma compile_never_throws_witness:
  "\<exists>out form. compileDraft (\<lambda>_. True) (\<lambda>_. True) sample_draft = Inr out \<and>
     compileForm (out_snapshot out) (Some ''de'') = Some form \<and> map doc_stepId (documents form) = [''stp_a'']"
proof -
  obtain out where out: "compileDraft (\<lambda>_. True) (\<lambda>_. True) sample_draft = Inr out" by (rule sample_compiled_form)
  have "map stepId (f_steps (d_definition sample_draft)) = [''stp_a'']" by (simp add: sample_draft_def sample_form_def)
  with compile_never_throws [OF out, of "Some ''de''"] out show ?thesis by metis
qed

text \<open>C21. An archive within the limits the writer checks (how many entries there are, the size of each, and where the records end) is written without an error however the contents are chunked, and over one of those limits the stream errors. The length of a name is not one of them: when every name takes fewer than 65,536 bytes, which is what the format has room for, a reader of the format gets back every name and every content in order; nothing is claimed of what it reads when a name is longer.\<close>

theorem zip_round_trip:
  "if zip_fits entries
   then \<exists>chunks. zipStream entries = Inr chunks \<and>
     ((\<forall>e \<in> set entries. length (utf8 (ze_name e)) < 65536) \<longrightarrow>
        unzip (concat chunks) = Some (map (\<lambda>e. (utf8 (ze_name e), zip_data e)) entries))
   else \<exists>er. zipStream entries = Inl er"
  using zipStream_archive [of entries] unzip_archive [of entries] by (auto split: if_splits)

lemma zip_round_trip_witness:
  "\<exists>chunks. zipStream [\<lparr>ze_name = ''a.csv'', ze_content = [[1, 2], [], [3]]\<rparr>] = Inr chunks \<and>
     unzip (concat chunks) = Some [(utf8 ''a.csv'', [1, 2, 3])]"
proof -
  let ?es = "[\<lparr>ze_name = ''a.csv'', ze_content = [[1, 2], [], [3]]\<rparr>]"
  have name: "length (utf8 ''a.csv'') = 5" by code_simp
  then have "\<forall>e \<in> set ?es. length (utf8 (ze_name e)) < 65536" by simp
  moreover have "zip_fits ?es"
    by (simp add: zip_fits_def zip_data_def UINT32_MAX_def UINT16_MAX_def local_record_def written_of_def name
      localHeader_def centralHeader_def dataDescriptor_def le16_def le32_def)
  ultimately show ?thesis using zip_round_trip [of ?es] by (simp add: zip_data_def)
qed

text \<open>C22. The access decision: when no held role has the name of an inherited object property, decideAccess answers, it allows an act exactly when one single held grant covers it (a grant of the member row has scope all), and a refusal names neither a role nor a grant: its reason is a function of the request alone.\<close>

theorem access_exact:
  assumes "authorize_law authorize" "plain_names memberRole grants"
  shows "\<exists>d. decideAccess authorize memberRole grants request = Inr d \<and>
    (allowed d = (\<exists>g \<in> set (held_grants memberRole grants). covers g request)) \<and>
    (allowed d \<or> dc_role d = None \<and> dc_name d = None \<and> dc_reason d = Some (refusalReason request))"
  unfolding decideAccess_find [OF assms]
  by (auto split: option.split dest: find_Some_iff_mem simp: find_None_iff)

lemma access_exact_witness:
  "\<exists>d. decideAccess listed (Some ''member'')
      [\<lparr>hg_role = ''forms.editor'', hg_environments = [''test''], hg_forms = [''all''], hg_name = None\<rparr>]
      (request_for (RsRelease, ''create'') (Some ''prod'') None) = Inr d \<and> \<not> allowed d"
proof -
  let ?g = "\<lparr>hg_role = ''forms.editor'', hg_environments = [''test''], hg_forms = [''all''], hg_name = None\<rparr>"
  have plain: "plain_names (Some ''member'') [?g]"
    by (simp add: plain_names_def held_grants_def member_grant_def OBJECT_PROTOTYPE_def)
  have no_role: "\<not> role_may ''member'' RsRelease ''create''"
    by (rule empty_roles_grant_nothing) (simp add: EMPTY_ROLE_NAMES_def)
  have "\<not> (\<exists>g \<in> set (held_grants (Some ''member'') [?g]). covers g (request_for (RsRelease, ''create'') (Some ''prod'') None))"
    using no_role by (simp add: held_grants_def member_grant_def covers_def request_for_def environment_acts_def in_scope_def)
  with access_exact [OF listed_law plain, of "request_for (RsRelease, ''create'') (Some ''prod'') None"] show ?thesis by blast
qed

text \<open>C23. The gate of the admin routes: a request let through with a context was matched to a row of the table, and either the row is for the installation claim and the caller has it, or every workspace of the filter has a grant of the caller covering the act, or holding one of the cells of a union row, or every act the row requires in the workspace of the object (the second cell, and each listed destination, included) is covered by a grant the tables give the caller in that workspace, in the environment the row says to take from the request.\<close>

theorem admin_gate_sound:
  assumes "authorize_law authorize" "query_laws qo" "grantCheck authorize qo w db served req = Inr (Some ctx)"
  shows "\<exists>userId role row. ar_principal req = Some (userId, role) \<and> gc_policy ctx = row \<and>
    policyForRequest (ar_method req) (ar_path req) = Some row \<and>
    passed qo w db served req row userId (holdsInstallationClaim role) ctx"
  using grantCheck_context [OF assms(3)] decideRequest_passed [OF assms(1,2)] by metis

lemma admin_gate_sound_witness:
  "\<exists>ctx row. sample_gate (ask ''bea'' ''POST'' ''/admin/forms/frm_a/releases'' (names_environment ''prod'')) = Inr (Some ctx) \<and>
    passed sample_orders (\<lambda>_. []) sample_control [''prod'', ''test'']
      (ask ''bea'' ''POST'' ''/admin/forms/frm_a/releases'' (names_environment ''prod'')) row ''bea'' False ctx"
proof -
  obtain ctx where ctx: "sample_gate (ask ''bea'' ''POST'' ''/admin/forms/frm_a/releases'' (names_environment ''prod'')) = Inr (Some ctx)"
    using approver_releases by blast
  from admin_gate_sound [OF listed_law sample_orders_laws ctx] ctx show ?thesis
    by (auto simp: ask_def holdsInstallationClaim_def)
qed

text \<open>C24. The production split, end to end: when the gate lets a request through whose row carries an act of the environment dimension of the control plane (a release, a closing, a link, a webhook) and one of the environments it was authorised for is prod, then the tables give the caller, in the workspace of the object, a grant of the role forms.approver with prod in its scope; no editor, owner or installation claim is enough.\<close>

theorem production_needs_an_approver:
  assumes "authorize_law authorize" "query_laws qo" "grantCheck authorize qo w db served req = Inr (Some ctx)"
    "cell \<in> set (row_cells (gc_policy ctx))" "cell \<in> environment_acts" "''prod'' \<in> set (destinations ctx)"
  shows "\<exists>userId role workspaceId g. ar_principal req = Some (userId, role) \<and> gc_workspaceId ctx = Some workspaceId \<and>
    holds db userId (holdsInstallationClaim role) workspaceId g \<and> hg_role g = ''forms.approver'' \<and>
    in_scope (hg_environments g) ''prod''"
proof -
  obtain userId role row where req: "ar_principal req = Some (userId, role)"
    "policyForRequest (ar_method req) (ar_path req) = Some row"
    "decideRequest authorize qo w db served req row userId (holdsInstallationClaim role) = Inr (Some ctx)"
    by (rule grantCheck_context [OF assms(3)])
  have row: "gc_policy ctx = row" by (rule decideRequest_passed [OF assms(1,2) req(3)])
  obtain i f where "gc_workspaceId ctx = Some i"
    "act_covered db userId (holdsInstallationClaim role) i (request_for cell (Some ''prod'') f)"
    using destination_covered [OF assms(1,2) req(3) policy_in_table [OF req(2)] assms(4) [unfolded row] assms(5,6)] by blast
  with req(1) assms(5) show ?thesis by (auto simp: act_covered_def covers_def request_for_def)
qed

lemma production_needs_an_approver_witness:
  "\<exists>g. holds sample_control ''bea'' False ''w1'' g \<and> hg_role g = ''forms.approver'' \<and> in_scope (hg_environments g) ''prod''"
proof -
  obtain ctx where ctx: "sample_gate (ask ''bea'' ''POST'' ''/admin/forms/frm_a/releases'' (names_environment ''prod'')) = Inr (Some ctx)"
    "destinations ctx = [''prod'']" "row_cells (gc_policy ctx) = [(RsRelease, ''create'')]"
    using approver_releases by blast
  have "(RsRelease, ''create'') \<in> set (row_cells (gc_policy ctx))" "(RsRelease, ''create'') \<in> environment_acts"
    "''prod'' \<in> set (destinations ctx)" by (simp_all add: ctx environment_acts_def)
  from production_needs_an_approver [OF listed_law sample_orders_laws ctx(1) this] obtain i g where
    g: "holds sample_control ''bea'' False i g" "hg_role g = ''forms.approver''" "in_scope (hg_environments g) ''prod''"
    by (auto simp: ask_def holdsInstallationClaim_def)
  then have "i = ''w1''" by (auto simp: holds_def in_team_def sample_control_def CLAIM_GRANT_def)
  with g show ?thesis by blast
qed

text \<open>C25. The history of publishing and releasing is never rewritten: over every run of admin requests versions and releases are only appended, a question version that has left its draft keeps its definition, the versions of a form and the releases of a form into an environment are numbered in turn from one, and every release is of a version that exists.\<close>

theorem registry_is_append_only:
  assumes "ordering_law (ah_version_order A)" "empty_registry reg0" "admin_run A Lib envs reg0 reg" "admin_run A Lib envs reg reg'"
  shows "(\<exists>vs. rd_versions reg' = rd_versions reg @ vs) \<and> (\<exists>rs. rd_releases reg' = rd_releases reg @ rs) \<and>
    (\<forall>q n row. getQuestionVersion (rd_questionVersions reg) q n = Some row \<and> qv_status row \<noteq> QuestionDraft \<longrightarrow>
       (\<exists>row'. getQuestionVersion (rd_questionVersions reg') q n = Some row' \<and> qv_definition row' = qv_definition row)) \<and>
    (\<forall>fid. map fv_version (versions_of (rd_versions reg') fid) = map int [1..<length (versions_of (rd_versions reg') fid) + 1]) \<and>
    (\<forall>fid env. map rl_sequence (filter (of_pair fid env) (rd_releases reg')) =
       map int [1..<length (filter (of_pair fid env) (rd_releases reg')) + 1]) \<and>
    (\<forall>r \<in> set (rd_releases reg'). version_at (rd_versions reg') (rl_formId r) (rl_version r) \<noteq> None)"
proof -
  have sound: "registry_sound A reg" by (rule admin_run_sound [OF assms(1,3) empty_sound [OF assms(2)]])
  have "registry_grows reg reg'" by (rule path_grows [OF admin_run_path [OF assms(1,4) sound]])
  moreover have "registry_sound A reg'" by (rule admin_run_sound [OF assms(1,4) sound])
  ultimately show ?thesis
    by (fastforce simp: registry_grows_def question_rows_grow_def registry_sound_def counted_def)
qed

lemma registry_is_append_only_witness:
  "\<exists>reg reg' vs. admin_calls sample_registry sample_questions = Some reg \<and> admin_calls sample_registry sample_calls = Some reg' \<and>
     rd_versions reg' = rd_versions reg @ vs \<and> map fv_version (versions_of (rd_versions reg') ''frm_a'') = [1]"
proof -
  obtain reg' where run: "admin_calls sample_registry sample_calls = Some reg'" by (rule sample_run)
  then obtain reg where reg: "admin_calls sample_registry sample_questions = Some reg"
      "admin_calls reg (drop (length sample_questions) sample_calls) = Some reg'"
    unfolding sample_calls_def admin_calls_append by (auto simp: bind_eq_Some_conv)
  from registry_is_append_only [OF sample_order sample_empty admin_calls_run [OF reg(1) admin_run.Start] admin_calls_run [OF reg(2) admin_run.Start]]
  obtain vs where grown: "rd_versions reg' = rd_versions reg @ vs" by blast
  have "map fv_version (versions_of (rd_versions reg') ''frm_a'') = [1]"
    using sample_published run by (auto simp: versions_of_def split: list.splits)
  with reg(1) run grown show ?thesis by (intro exI conjI)
qed



text \<open>C27. A one-time link starts one session: once it has, every later start with the same token is refused, whatever happened to the table of links in between and whatever runs between the reads of the second start and its transaction.\<close>

theorem one_time_link_starts_one_session:
  assumes "startFromSecureLink S R between db token challenged draw now stamp = Inr (result, db')"
    "link_checks S R db token challenged now = Inr (claims, v)" "lc_oneTime claims = Some True"
    "sh_token S' = sh_token S" "links_step\<^sup>*\<^sup>* (sd_links db') (sd_links (between' db''))"
  shows "\<exists>e. startFromSecureLink S' R' between' db'' token challenged' draw' later stamp' = Inl e"
proof (rule ccontr)
  assume "\<not> ?thesis"
  then obtain out where "startFromSecureLink S' R' between' db'' token challenged' draw' later stamp' = Inr out"
    by (cases "startFromSecureLink S' R' between' db'' token challenged' draw' later stamp'") auto
  then obtain result2 db2 where second: "startFromSecureLink S' R' between' db'' token challenged' draw' later stamp' = Inr (result2, db2)"
    by (cases out) simp
  obtain row where tx: "link_tx S R claims row now (between db) = Inr db'"
    using startFromSecureLink_tx [OF assms(1)] assms(2) by (metis Pair_inject sum.inject(2))
  obtain claims2 v2 row2 where checks2: "link_checks S' R' db'' token challenged' later = Inr (claims2, v2)"
    and tx2: "link_tx S' R' claims2 row2 later (between' db'') = Inr db2"
    by (rule startFromSecureLink_tx [OF second])
  from verifySecureLink_same [OF link_checks_claims [OF assms(2)]] link_checks_claims [OF checks2] have same: "claims2 = claims"
    unfolding assms(4) by metis
  have "spent (lc_linkId claims) (sd_links (between' db''))"
    by (rule links_run_spent [OF assms(5) link_tx_spends [OF tx assms(3)]])
  from link_tx_spent [OF this assms(3)] tx2 show False unfolding same by (metis sum.distinct(1))
qed

lemma one_time_link_starts_one_session_witness:
  "\<exists>token result db e. verifySecureLink sample_host token [7] (Fin 1) None = Inr sample_link \<and>
     startFromSecureLink sample_start released_tables id linked_db token False 9 1 1 = Inr (result, db) \<and>
     startFromSecureLink sample_start released_tables id db token False 10 1 1 = Inl e"
proof -
  obtain token where token: "verifySecureLink sample_host token [7] (Fin 1) None = Inr sample_link" using sample_token by metis
  note starts = sample_starts [OF token]
  obtain result db where first: "startFromSecureLink sample_start released_tables id linked_db token False 9 1 1 = Inr (result, db)"
    using starts(2) by blast
  have "lc_oneTime sample_link = Some True" by (simp add: sample_link_def)
  from one_time_link_starts_one_session [where between' = id and db'' = db and S' = sample_start and R' = released_tables and
      challenged' = False and draw' = 10 and later = 1 and stamp' = 1, OF first starts(1) this]
  obtain e where "startFromSecureLink sample_start released_tables id db token False 10 1 1 = Inl e" by auto
  with token first show ?thesis by (intro exI conjI)
qed

text \<open>C28. The rules between environments: the search for a cycle always ends and finds none exactly when the rules have none, and rules that are accepted put the served environments in an order in which each one comes after all it requires, so every one of them can be reached by releasing in that order.\<close>

theorem accepted_workflows_have_an_order:
  "findCycle rules \<noteq> None \<and> (findCycle rules = Some None \<longleftrightarrow> acyclic {(env, needed). needed \<in> set (rule_edges rules env)}) \<and>
   (validateWorkflowRules rules served = Inr () \<longrightarrow>
     (\<exists>ord. set ord = set served \<and> distinct ord \<and>
        (\<forall>before env rest. ord = before @ env # rest \<longrightarrow> set (rule_edges rules env) \<subseteq> set before)))"
  using findCycle_total [of rules] findCycle_exact [of rules] accepted_order [of rules served]
  unfolding each_after_required_def edge_set_def by blast

lemma accepted_workflows_have_an_order_witness:
  "\<exists>ord. set ord = {''test'', ''prod''} \<and> distinct ord \<and>
     (let rules = [\<lparr>wk_environment = ''prod'', wk_requiresPriorReleaseIn = [''test''], wk_allowsDraftPublish = False, wk_allowsInBatch = False\<rparr>]
      in validateWorkflowRules rules [''prod'', ''test''] = Inr () \<and> findCycle rules = Some None)"
proof -
  let ?rules = "[\<lparr>wk_environment = ''prod'', wk_requiresPriorReleaseIn = [''test''], wk_allowsDraftPublish = False, wk_allowsInBatch = False\<rparr>]"
  have ok: "validateWorkflowRules ?rules [''prod'', ''test''] = Inr ()" "findCycle ?rules = Some None" by code_simp+
  from accepted_workflows_have_an_order [of ?rules "[''prod'', ''test'']"] ok(1)
  obtain ord where "set ord = set [''prod'', ''test'']" "distinct ord" by blast
  then have "set ord = {''test'', ''prod''}" "distinct ord" by auto
  with ok show ?thesis by (auto simp: Let_def)
qed

text \<open>C29. The in-memory rate-limit store implements one fixed-window counter per key: for any sequence of hits at times that never go back, on no more distinct keys than the capacity, every hit answers what the counter of its key answers. Sweeping expired buckets and evicting the coldest one are invisible below the capacity.\<close>

theorem store_refines_window_counter:
  assumes "0 < maxKeys" "sorted (map fst calls)" "card ((fst \<circ> snd) ` set calls) \<le> maxKeys"
  shows "fst (store_run maxKeys calls []) = counter_run calls (\<lambda>_. None)"
proof (cases calls)
  case (Cons call rest)
  show ?thesis
    by (rule store_run_counts [where K = "(fst \<circ> snd) ` set calls" and now = "fst call"])
      (use assms Cons in \<open>auto simp: store_sound_def tracks_def\<close>)
qed simp

lemma store_refines_window_counter_witness:
  "fst (store_run 2 [(0, ''a'', 10), (1, ''b'', 10), (5, ''a'', 10), (12, ''a'', 10)] []) =
     [\<lparr>rl_count = 1, rl_resetAt = 10\<rparr>, \<lparr>rl_count = 1, rl_resetAt = 11\<rparr>, \<lparr>rl_count = 2, rl_resetAt = 10\<rparr>,
      \<lparr>rl_count = 1, rl_resetAt = 22\<rparr>]"
  using store_refines_window_counter [of 2 "[(0, ''a'', 10), (1, ''b'', 10), (5, ''a'', 10), (12, ''a'', 10)]"]
  by (simp add: Let_def window_hit_def card_insert_if)

text \<open>C30. Whatever the handlers did to the ledger of a session, serving steps of any forms, applying operations later than every row there is, with other sessions writing in between: the rosters read back from it are distinct lists of well-formed instance ids, present instances are among the minted ones, and they are what the evaluator requires of the rosters it is given.\<close>

theorem reachable_rosters_are_valid:
  assumes "draw_law rand" "roster_order_laws ro" "roster_reachable ro rand s st"
  shows "valid_rosters (rosterOf (loadRosters ro (rs_table st) s steps answers)) \<and>
    distinct (rosterOf (loadRosters ro (rs_table st) s steps answers) g) \<and>
    set (gr_present (readRoster ro (rs_table st) s g)) \<subseteq> set (gr_minted (readRoster ro (rs_table st) s g)) \<and>
    set (gr_minted (readRoster ro (rs_table st) s g)) = added_ids (group_rows (rs_table st) s g)"
proof -
  note ok = roster_reachable_ok [OF assms]
  from loaded_rosters_valid [OF assms(2) ok] stored_exact(2) [OF assms(2) ok, of g] show ?thesis
    by (auto simp: roster_exact_def)
qed

lemma reachable_rosters_are_valid_witness:
  "valid_rosters (rosterOf (loadRosters time_order (rs_table added_session) ''ses_a'' [group_step] Map.empty))"
  using reachable_rosters_are_valid [where g = "groupId open_group" and steps = "[group_step]" and answers = Map.empty,
    OF counter_draw_law time_order_laws added_session_reachable] by (elim conjE)

text \<open>C31. Serving a step ends, whatever the random source draws as long as it is fair, when no group asks for more instances than there are ids; afterwards every group due on that step has as many instances as its count asks for, and serving the same step again with the same answers changes nothing and answers the same rosters.\<close>

theorem serving_mints_once:
  assumes "fair_source rand" "draw_law rand" "roster_order_laws ro" "roster_reachable ro rand s st"
    "distinct (map groupId (repeatGroups steps))"
    "\<forall>grp \<in> set (repeatGroups steps). mintTarget (g_count grp) answers \<le> int ID_SPACE"
  shows "\<exists>live st'. mintDueAndLoadRosters ro rand st s steps renderStep answers now = Some (live, st') \<and>
    (\<forall>grp \<in> set (repeatGroups steps). due (groups_on steps renderStep) grp \<longrightarrow>
      mintTarget (g_count grp) answers \<le> int (length (gr_minted (readRoster ro (rs_table st') s (groupId grp))))) \<and>
    mintDueAndLoadRosters ro rand st' s steps renderStep answers later = Some (live, st')"
proof -
  note ok = roster_reachable_ok [OF assms(2-4)]
  obtain live st' where run: "mintDueAndLoadRosters ro rand st s steps renderStep answers now = Some (live, st')"
    using mintDue_total [OF assms(1-3) ok assms(6), of renderStep now] by auto
  obtain u where after: "live = loadRosters ro (rs_table st') s steps answers" "session_ok s (rs_table st')"
    "\<And>grp. grp \<in> set (repeatGroups steps) \<Longrightarrow> due (groups_on steps renderStep) grp \<Longrightarrow>
      target_met answers grp (group_rows (rs_table st') s (groupId grp))"
    using mintDue_facts [OF assms(2,3) ok assms(5) run] by metis
  have "mintDueAndLoadRosters ro rand st' s steps renderStep answers later = Some (live, st')"
    using mintDue_again [OF assms(3) after(2,3)] after(1) by blast
  moreover have "length (gr_minted (readRoster ro (rs_table st') s g)) = card (added_ids (group_rows (rs_table st') s g))" for g
    using stored_exact(2) [OF assms(3) after(2), of g] by (metis distinct_card roster_exact_def)
  ultimately show ?thesis using run after(3) by (auto simp: target_met_def)
qed

lemma serving_mints_once_witness:
  "\<exists>live st'. mintDueAndLoadRosters time_order counter_source empty_session ''ses_a'' [group_step] (Some ''stp_g'') Map.empty 5 =
     Some (live, st')"
proof -
  have "\<forall>grp \<in> set (repeatGroups [group_step]). mintTarget (g_count grp) Map.empty \<le> int ID_SPACE"
    by (simp add: group_step_def repeatGroups_def open_group_def mintTarget_def ID_SPACE_def)
  from serving_mints_once [where renderStep = "Some ''stp_g''" and now = 5 and later = 6, OF counter_fair counter_draw_law time_order_laws
    empty_session_reachable _ this]
  have "\<exists>live st'. mintDueAndLoadRosters time_order counter_source empty_session ''ses_a'' [group_step] (Some ''stp_g'') Map.empty 5 =
      Some (live, st') \<and> mintDueAndLoadRosters time_order counter_source st' ''ses_a'' [group_step] (Some ''stp_g'') Map.empty 6 =
      Some (live, st')" by (fastforce simp: group_step_def repeatGroups_def)
  then show ?thesis by blast
qed

text \<open>C32. validateAnswer accepts exactly the values that have a canonical encoding under the type of the question and violate none of its constraints, and returns that encoding.\<close>

theorem answer_contract:
  "validateAnswer nfc regex q value = Inr v \<longleftrightarrow>
     encode_as nfc (q_type q) value = Some v \<and> (\<forall>code. \<not> violates regex q v code)"
  by (rule validateAnswer_Inr_iff)

text \<open>C33. checkSafePattern always returns a verdict: the scan ends on every pattern, and the stack of open groups is never popped when empty, so the guard for that is unreachable.\<close>

theorem pattern_scan_total: "checkSafePattern compiles_u pattern \<noteq> Thrown"
  by (rule checkSafePattern_not_Thrown)

text \<open>C34. Signing and verifying: a token verified under a list that holds its key is refused for another purpose, refused from the instant it expires, and otherwise opens to claims with exactly the JSON content that was signed.\<close>

theorem compact_token_round_trip:
  assumes "host_laws H D" "signable H D claims" "signCompactToken H p claims key = Inr token" "key \<in> set keys"
  shows "\<exists>opened. canonicalJson num_text (JObj opened) = canonicalJson num_text (JObj claims) \<and>
    verifyCompactToken H q token keys now =
      (if p \<noteq> q then Inl WRONG_PURPOSE
       else if claims_expired H claims now then Inl EXPIRED else Inr opened)"
  using verify_signed_trusted [OF assms] returned_content [OF assms(2)]
  by (intro exI [of _ "returned claims"] conjI) (simp_all add: ok_def err_def)

lemma compact_token_round_trip_witness:
  "\<exists>token. signCompactToken sample_host SessionPurpose sample_claims 7 = Inr token \<and>
     verifyCompactToken sample_host LinkPurpose token [3, 7] (Fin 0) = Inl WRONG_PURPOSE \<and>
     verifyCompactToken sample_host SessionPurpose token [3, 7] (Fin 4) = Inl EXPIRED"
proof -
  obtain token where token: "signCompactToken sample_host SessionPurpose sample_claims 7 = Inr token"
    using sample_signed by blast
  have key: "7 \<in> set [3, 7 :: byte]" by simp
  note trip = compact_token_round_trip [OF sample_host_laws(1) sample_claims_signable token key]
  have "verifyCompactToken sample_host LinkPurpose token [3, 7] (Fin 0) = Inl WRONG_PURPOSE"
    using trip [of "\<lambda>_. []" LinkPurpose "Fin 0"] by auto
  moreover have "verifyCompactToken sample_host SessionPurpose token [3, 7] (Fin 4) = Inl EXPIRED"
    using trip [of "\<lambda>_. []" SessionPurpose "Fin 4"] by (auto simp: sample_expired)
  ultimately show ?thesis using token by blast
qed

text \<open>C35. Nothing is trusted before the signature: an accepted token is two Base64 segments, the second the authentication code of the first under one of the keys, and the claims handed back are those of the first segment, of the purpose asked for and not expired; and a longer list of keys accepts the token with the same claims.\<close>

theorem accepted_token_was_signed:
  assumes "exact_mac H" "verifyCompactToken H p token keys now = Inr claims"
  shows "\<exists>payload signature bytes. js_split (CHR ''.'') token = [payload, signature] \<and>
      (\<exists>key \<in> set keys. fromBase64Url signature = Some (h_sign H key (utf8 payload))) \<and>
      fromBase64Url payload = Some bytes \<and>
      Option.bind (json_parse (h_num_of H) (h_text_decode H bytes)) (CompactTokenPayload (h_iso_datetime H)) =
        Some (p, claims) \<and>
      \<not> claims_expired H claims now \<and>
      (\<forall>keys'. set keys \<subseteq> set keys' \<longrightarrow> verifyCompactToken H p token keys' now = Inr claims)"
proof -
  from assms(2) obtain ps ss pb sb where parts: "js_split (CHR ''.'') token = [ps, ss]"
      "fromBase64Url ps = Some pb" "fromBase64Url ss = Some sb"
    and mac: "\<exists>key \<in> set keys. h_verify H key sb (utf8 ps)" and opened: "open_payload H p pb now = Inr claims"
    unfolding verify_ok_iff by blast
  have "\<exists>key \<in> set keys. fromBase64Url ss = Some (h_sign H key (utf8 ps))"
    using mac assms(1) parts(3) by (auto simp: exact_mac_def)
  moreover have "Option.bind (json_parse (h_num_of H) (h_text_decode H pb)) (CompactTokenPayload (h_iso_datetime H)) =
      Some (p, claims)"
    using opened by (auto simp: open_payload_def err_def ok_def split: option.splits if_splits)
  moreover have "verifyCompactToken H p token keys' now = Inr claims" if "set keys \<subseteq> set keys'" for keys'
    using parts mac opened that by (auto simp: verify_ok_iff)
  ultimately show ?thesis using parts open_payload_unexpired [OF opened] by blast
qed

lemma accepted_token_was_signed_witness:
  "\<exists>token claims. verifyCompactToken sample_host SessionPurpose token [7] (Fin 3) = Inr claims \<and>
     \<not> claims_expired sample_host claims (Fin 3) \<and>
     verifyCompactToken sample_host SessionPurpose token [3, 7] (Fin 3) = Inr claims"
proof -
  obtain token where token: "signCompactToken sample_host SessionPurpose sample_claims 7 = Inr token"
    using sample_signed by blast
  have ok: "verifyCompactToken sample_host SessionPurpose token [7] (Fin 3) = Inr (returned sample_claims)"
    using verify_signed_trusted [OF sample_host_laws(1) sample_claims_signable token, of "[7]" SessionPurpose "Fin 3"]
    by (simp add: sample_expired ok_def)
  from accepted_token_was_signed [OF sample_host_laws(2) ok] ok
  show ?thesis by (intro exI [of _ token] exI [of _ "returned sample_claims"]) auto
qed

text \<open>C36. Every submitted response reaches every active endpoint of its form, or that delivery is dead-lettered, in at most ten passes, however the endpoints answer: a pass fans the event out and tries the delivery, each later pass that runs a backoff cap after the one before tries it again, and the tenth failure settles it. The batch is to have room for every pair of an event and an endpoint.\<close>

theorem every_submission_is_delivered_or_dead_lettered:
  assumes "delivery_laws H" "deliveries_sound (dh_uuid H) (dd_deliveries (ps_db s))" "batch_covers C (ps_db s)"
    "distinct (map ob_id (events_of (ps_db s)))" "distinct (map wh_webhookId (dd_webhooks (ps_db s)))"
    "e \<in> set (events_of (ps_db s))" "event_due t e" "ob_eventType e = RESPONSE_SUBMITTED"
    "resolveFormId (ob_payload e) = Some (wh_formId w)" "w \<in> set (dd_webhooks (ps_db s))" "wh_active w"
    "\<forall>r \<in> set (deliveries_of (ps_db s)). delivery_pair r \<noteq> (ob_id e, wh_webhookId w)"
    "sorted_wrt (\<lambda>u u'. u + OUTBOX_BACKOFF_CAP_MS \<le> u') (t # ts)" "length (t # ts) = 10"
  shows "\<exists>r \<in> set (deliveries_of (ps_db (run_passes H C id_text (t # ts) s))).
    delivery_pair r = (ob_id e, wh_webhookId w) \<and> (dv_deliveredAt r \<noteq> None \<or> dv_deadLetteredAt r \<noteq> None)"
proof -
  have "OUTBOX_MAX_ATTEMPTS \<le> int (length (t # ts))" using assms(14) by (simp add: OUTBOX_MAX_ATTEMPTS_def)
  from event_settles [OF assms(1-13) this] show ?thesis unfolding delivery_settled_def .
qed

lemma every_submission_is_delivered_or_dead_lettered_witness:
  "\<exists>r \<in> set (deliveries_of (ps_db (run_passes failing_host delivery_conf (\<lambda>_. ''7'')
      (map (\<lambda>i. i * 21600000) [0, 1, 2, 3, 4, 5, 6, 7, 8, 9]) sample_state))).
    delivery_pair r = (7, ''whk_a'') \<and> (dv_deliveredAt r \<noteq> None \<or> dv_deadLetteredAt r \<noteq> None)"
  using every_submission_is_delivered_or_dead_lettered [where H = failing_host and s = sample_state and C = delivery_conf and
      e = submitted_event and w = sample_hook and t = 0 and ts = "map (\<lambda>i. i * 21600000) [1, 2, 3, 4, 5, 6, 7, 8, 9]" and
      id_text = "\<lambda>_. ''7''"] failing_laws sample_sound sample_covers sample_names_form
  by (simp add: event_due_def submitted_event_def sample_hook_def OUTBOX_BACKOFF_CAP_MS_def)

text \<open>C37. Once a session is erased nothing of it is ever sent again: from the erasure on, whatever passes, crashes, sweeps, purges, redeliveries, changes of endpoints and further submissions follow in whatever order, no request carries an event that named the session when it was erased, and the row of the event stays redacted, without its answers.\<close>

theorem erased_answers_never_leave:
  assumes "ordering_law (dh_deliveries H)" "checks_hold (ps_db s)" "distinct (map ob_id (events_of (ps_db s)))"
    "eraseSession (ps_db s) fid sessionId reason now = Some (outcome, db)" "\<not> eo_alreadyErased outcome"
    "e \<in> set (events_of (ps_db s))" "event_of_session sessionId e" "(data_step H C)\<^sup>*\<^sup>* (s\<lparr>ps_db := db\<rparr>) s'"
  shows "(\<exists>new. ps_sends s' = ps_sends s @ new \<and> (\<forall>(d, q) \<in> set new. du_outboxId d \<noteq> ob_id e)) \<and>
    (\<forall>e' \<in> set (events_of (ps_db s')). ob_id e' = ob_id e \<longrightarrow>
       ob_payloadRedactedAt e' \<noteq> None \<and> \<not> has_member ''answers'' (ob_payload e'))"
proof -
  have "sealed (ps_db (s\<lparr>ps_db := db\<rparr>)) (ob_id e)"
    using erase_seals [OF assms(4,5,2,3,6,7)] by simp
  from steps_sealed [OF assms(1,8) this] show ?thesis by (simp add: sealed_def redacted_def)
qed

lemma erased_answers_never_leave_witness:
  "\<exists>outcome db. eraseSession sample_db ''frm_a'' ''ses_a'' ''asked'' 50 = Some (outcome, db) \<and>
    (\<exists>new. ps_sends (fst (runDeliveryPass failing_host delivery_conf (\<lambda>_. ''7'') [] [] 60 (sample_state\<lparr>ps_db := db\<rparr>))) =
       ps_sends sample_state @ new \<and> (\<forall>(d, q) \<in> set new. du_outboxId d \<noteq> 7))"
proof -
  obtain outcome db where erased: "eraseSession sample_db ''frm_a'' ''ses_a'' ''asked'' 50 = Some (outcome, db)" "\<not> eo_alreadyErased outcome"
    using sample_erasure by blast
  have facts: "ordering_law (dh_deliveries failing_host)" "event_of_session ''ses_a'' submitted_event" "ob_id submitted_event = 7"
    by (simp_all add: failing_host_def ordering_law_def event_of_session_def submitted_event_def)
  let ?after = "fst (runDeliveryPass failing_host delivery_conf (\<lambda>_. ''7'') [] [] 60 (sample_state\<lparr>ps_db := db\<rparr>))"
  from erased_answers_never_leave [where s = sample_state and e = submitted_event and s' = ?after and H = failing_host and C = delivery_conf,
      OF facts(1) _ _ _ erased(2) _ facts(2) pass_steps] erased(1) sample_checks facts(3)
  have "\<exists>new. ps_sends ?after = ps_sends sample_state @ new \<and> (\<forall>(d, q) \<in> set new. du_outboxId d \<noteq> 7)" by simp
  with erased(1) show ?thesis by blast
qed



text \<open>C39. Every request the deliverer ever makes, over any run, goes to a target that passed the check of targets at that time, and carries as its signature the HMAC, under the decrypted secret of its endpoint, of its own timestamp and the very body it sends.\<close>

theorem requests_are_checked_and_signed:
  assumes "ordering_law (dh_deliveries H)" "ps_sends s = []" "(data_step H C)\<^sup>*\<^sup>* s s'" "(d, q) \<in> set (ps_sends s')"
  shows "checkWebhookUrl (dh_parse H) (dh_number H) (du_url d) (dc_allowPrivateTargets C) = Inr (wr_url q) \<and>
    (\<exists>secret timestamp. decryptWebhookSecret (dh_secret H) (du_secretEncrypted d) (dc_appKey C) = Inr secret \<and>
       map_of (wr_headers q) ''x-qcms-timestamp'' = Some timestamp \<and>
       map_of (wr_headers q) ''x-qcms-signature'' =
         Some (''v1='' @ hex_text (dh_hmac H (utf8 secret) (utf8 (timestamp @ ''.'' @ wr_body q)))))"
  using steps_sends_sound [OF assms(1,3)] assms(2,4) unfolding request_sound_def signWebhookBody_def by fastforce

lemma requests_are_checked_and_signed_witness:
  "\<exists>d q. ps_sends (fst (runDeliveryPass failing_host delivery_conf (\<lambda>_. ''7'') [] [] 60 sample_state)) = [(d, q)] \<and>
    checkWebhookUrl (dh_parse failing_host) (dh_number failing_host) (du_url d) False = Inr (wr_url q)"
proof -
  obtain d q where sent: "ps_sends (fst (runDeliveryPass failing_host delivery_conf (\<lambda>_. ''7'') [] [] 60 sample_state)) = [(d, q)]"
    using sample_pass_sends by blast
  have "ordering_law (dh_deliveries failing_host)" by (simp add: failing_host_def ordering_law_def)
  moreover from requests_are_checked_and_signed [where s = sample_state and H = failing_host and C = delivery_conf and d = d and q = q and
      s' = "fst (runDeliveryPass failing_host delivery_conf (\<lambda>_. ''7'') [] [] 60 sample_state)", OF this _ pass_steps] sent
  have "checkWebhookUrl (dh_parse failing_host) (dh_number failing_host) (du_url d) (dc_allowPrivateTargets delivery_conf) = Inr (wr_url q)"
    by simp
  ultimately show ?thesis using sent by (auto simp: delivery_conf_def)
qed

text \<open>C40. The current answers of a session after one more row of the ledger: a row later than every row of its cell, answer or retraction, becomes what its cell says and changes no other cell; a row that another row of its cell is later than changes nothing, whichever order they were written in.\<close>

theorem the_last_answer_wins:
  assumes "answer_order_laws ao" "ledger_sound (rows_of_session (rows @ [r]) s)" "ar_sessionId r = s"
  shows "((\<forall>x \<in> set (rows_of_session rows s). row_cell x = row_cell r \<longrightarrow> later_row r x \<and> \<not> later_row x r) \<longrightarrow>
      map_of (latestAnswers ao (rows @ [r]) s) =
        (map_of (latestAnswers ao rows s))(answer_cell_key r := if ar_retracted r then None else ar_value r)) \<and>
    ((\<exists>x \<in> set (rows_of_session rows s). row_cell x = row_cell r \<and> later_row x r \<and> \<not> later_row r x) \<longrightarrow>
      map_of (latestAnswers ao (rows @ [r]) s) = map_of (latestAnswers ao rows s))"
  using latest_after_later [OF assms] latest_after_earlier [OF assms] unfolding row_says_def by blast

lemma the_last_answer_wins_witness:
  "map_of (latestAnswers latest_first ([ledger_row 1 10 False] @ [ledger_row 2 20 True]) ''ses_a'') (answerKey ''q_a'' None) = None"
proof -
  have "ledger_sound (rows_of_session ([ledger_row 1 10 False] @ [ledger_row 2 20 True]) ''ses_a'')"
    by (simp add: ledger_sound_def rows_of_session_def ledger_row_def cell_valid_def) code_simp
  from the_last_answer_wins [OF latest_first_laws this] show ?thesis
    by (simp add: rows_of_session_def ledger_row_def later_row_def row_cell_def answer_cell_key_def)
qed

section \<open>Further facts\<close>

text \<open>The depth-first search for strongly connected components returns on every graph: the recursion of strongConnect enters each node once, so as many calls as there are nodes are enough.\<close>

theorem cycle_search_total: "\<exists>components. cyclicComponents adj = Some components"
  by (rule cyclicComponents_total)

text \<open>Tarjan's search reports no component exactly when the graph has no cycle, self-loops included.\<close>

theorem cycle_search_exact: "cyclicComponents adj = Some [] \<longleftrightarrow> acyclic (edge_rel adj)"
  by (rule cyclicComponents_Nil_iff)

text \<open>currentStep is the step of the first visible required question without an answer when there is one; and when currentStep is null, no visible question is left unanswered.\<close>

theorem current_step_is_the_first_gap:
  assumes "evaluate_form nfc f answers res rs = Inr flow"
  shows "(\<forall>e. List.find (\<lambda>e. required_q res e \<and> \<not> answered nfc answers e) (visible flow) = Some e \<longrightarrow>
       currentStep flow = Some (v_step e)) \<and>
    (currentStep flow = None \<longrightarrow> (\<forall>e \<in> set (visible flow). answered nfc answers e))"
  using flow_current_missing [OF assms] flow_no_current_step [OF assms] by blast

text \<open>An orphaned answer never changes a submission: replacing, adding or removing answers at keys that are not visible, for questions of the form, leaves the locked submission and its hash the same.\<close>

theorem submission_ignores_hidden:
  assumes "prepareSubmission H raw snap answers rs = Inr locked"
    "\<And>e. e \<in> set (visible (lk_flowState locked)) \<Longrightarrow> map_of answers' (entry_key e) = map_of answers (entry_key e)"
    "\<And>k a. map_of answers' k = Some a \<Longrightarrow> AnswerValue (s_nfc H) a \<noteq> None"
    "\<And>k. k \<in> fst ` set answers' \<Longrightarrow> snd (answerKeyParts k) \<in> set (form_pins (snap_definition snap))"
  shows "prepareSubmission H raw snap answers' rs = Inr locked"
  by (rule submission_hidden [OF assms])

text \<open>The order of a page: for any list of visible names, rosters and narrowing to one instance, the fields of a drawn step are its items in order, a question by its id and a group instance by instance with its members inside, each kept when it is in the list; no other name of the document is drawn.\<close>

theorem page_lists_the_step_in_order:
  assumes "compileDraft compiles_u compiles_v draft = Inr out" "stored_under_own_id draft"
    "compileForm (out_snapshot out) wanted = Some form" "i < length (f_steps (d_definition draft))"
    "HONEYPOT_FIELD_NAME \<notin> set vs"
  shows "field_names (page_of e vs (documents form ! i)) =
    concat (map (page_item e vs) (s_items (f_steps (d_definition draft) ! i)))"
  using published_page [OF assms(1-4)] assms(5) by (simp add: decoy_fields_def)

text \<open>The hydrated host draws a group of cards as the server does: expanding without the visible names and then once more with them leaves the fields of the one expansion that knows them.\<close>

theorem cards_prune_after_expansion:
  assumes "group_node g n" "presentation g \<noteq> Table"
  shows "field_names (expandRepeatGroups (e\<lparr>ex_visible := Some vs\<rparr>) (expandRepeatGroups (e\<lparr>ex_visible := None\<rparr>) n)) =
    field_names (expandRepeatGroups (e\<lparr>ex_visible := Some vs\<rparr>) n)"
  using stacked_twice [OF assms, where e = e and vs = vs] group_page [OF assms(1), where e = e and vs = vs] by (simp add: expand_twice_def)

text \<open>What the second expansion does to a table, against its comment: a group drawn as a table that was expanded without the visible names keeps every cell of every instance, whatever the list of visible names it is expanded with again.\<close>

theorem table_keeps_hidden_cells:
  assumes "group_node g n" "presentation g = Table"
  shows "field_names (expandRepeatGroups (e\<lparr>ex_visible := Some vs\<rparr>) (expandRepeatGroups (e\<lparr>ex_visible := None\<rparr>) n)) =
    concat (map (\<lambda>i. map (\<lambda>r. answerKey (ref_questionId r) (Some i)) (g_items g)) (drawn e g))"
  using table_twice [OF assms, where e = e and vs = vs] by (simp add: expand_twice_def)

text \<open>The table-driven CRC-32 of the archive writer is the division by the polynomial one bit at a time, on every running value and every chunk.\<close>

theorem crc_table_is_bitwise:
  "crcUpdate crc chunk = foldl crc_byte_bitwise crc chunk"
  by (rule crcUpdate_bitwise)

text \<open>A row of CSV fields reads back, under RFC 4180, as the guarded texts: a text gains at most one leading apostrophe, and no field that reaches the spreadsheet starts like a formula unless it is a plain negative number.\<close>

theorem csv_row_round_trip:
  assumes "vs \<noteq> []"
  shows "read_row (length vs) (js_join '','' (map csvField vs)) = Some (map guardFormulaLead vs) \<and>
    (\<forall>v \<in> set vs. guardFormulaLead v \<in> {v, CHR 0x27 # v} \<and>
       (FORMULA_LEAD (guardFormulaLead v) \<longrightarrow> guardFormulaLead v = v \<and> NUMERIC_LITERAL v \<and> hd v = CHR ''-''))"
  using read_row_fields [of csvField vs "length vs", OF read_csvField(1)] guard_inert numeric_lead assms by fastforce

text \<open>Response data: a request the gate lets through to a route about the responses of a form comes from a caller with a grant, in the workspace that owns the form of the path, whose scope has the environment served and that form, and whose role is responses.viewer when the act is a read or an export and responses.eraser when it is an erasure or a disposition; no role of the forms family and no installation claim reaches it.\<close>

theorem response_data_needs_its_own_role:
  assumes "authorize_law authorize" "query_laws qo" "grantCheck authorize qo w db served req = Inr (Some ctx)"
    "rp_resource (gc_policy ctx) = RsResponse" "\<not> rp_installationOnly (gc_policy ctx)"
  shows "\<exists>userId role e f form g. ar_principal req = Some (userId, role) \<and> gc_environment ctx = Some e \<and>
    segment (rp_path (gc_policy ctx)) (ar_path req) ''id'' = Some f \<and> getForm db f = Some form \<and>
    holds db userId (holdsInstallationClaim role) (ow_workspaceId form) g \<and>
    in_scope (hg_environments g) e \<and> in_scope (hg_forms g) f \<and>
    hg_role g = (if rp_action (gc_policy ctx) \<in> {''read'', ''export''} then ''responses.viewer'' else ''responses.eraser'')"
proof -
  obtain userId role row where req: "ar_principal req = Some (userId, role)"
    "policyForRequest (ar_method req) (ar_path req) = Some row"
    "decideRequest authorize qo w db served req row userId (holdsInstallationClaim role) = Inr (Some ctx)"
    by (rule grantCheck_context [OF assms(3)])
  have row: "gc_policy ctx = row" by (rule decideRequest_passed [OF assms(1,2) req(3)])
  show ?thesis
  proof (rule response_context [OF assms(1,2) req(3) policy_in_table [OF req(2)] assms(4,5) [unfolded row]])
    fix e f form g
    assume g: "gc_environment ctx = Some e" "segment (rp_path row) (ar_path req) ''id'' = Some f"
      "getForm db f = Some form" "holds db userId (holdsInstallationClaim role) (ow_workspaceId form) g"
      "covers g (request_for (primary_cell row) (Some e) (Some f))" "(rp_resource row, rp_action row) \<in> response_acts"
    then have "covers g (request_for (RsResponse, rp_action row) (Some e) (Some f))" "(RsResponse, rp_action row) \<in> response_acts"
      using assms(4) unfolding row primary_cell_def by simp_all
    from covers_response [OF this]
      g(1-4) req(1) show ?thesis unfolding row by (intro exI conjI) assumption+
  qed
qed

text \<open>Finding the row of a request: policyForRequest answers a row exactly when that row is a candidate (its method is the one of the request and its template matches the path) and every other candidate has fewer literal segments. No two rows of the table tie, so the order of the table never decides who may call a route.\<close>

theorem longest_match_is_the_row:
  "(policyForRequest method path = Some row) = (candidate method path row \<and>
     {r. candidate method path r} \<subseteq> insert row {r. literalSegments (rp_path r) < literalSegments (rp_path row)})"
  unfolding policyForRequest_iff by blast

text \<open>The deferral of the gate: on a route about a form, a path whose id segment, read as it was sent, is not a well-formed form id is passed on to the handler with no grant asked for and no context set, whoever the caller is.\<close>

theorem malformed_id_is_waved_through:
  assumes "ar_principal req = Some (userId, role)" "ar_method req @ '' '' @ ar_path req \<notin> set GRANT_EXEMPT_ROUTES"
    "policyForRequest (ar_method req) (ar_path req) = Some row" "\<not> rp_installationOnly row" "rp_workspace row = FromForm"
    "environmentFor served req row = Inr e" "\<not> FormId (opt_default [] (segment (rp_path row) (ar_path req) ''id''))"
  shows "grantCheck authorize qo w db served req = Inr None"
  using malformed_id_defers [OF assms(4-7)] assms(1-3) by (simp add: grantCheck_def)

text \<open>The budget of a window: over calls whose clock never goes back and whose windows have a positive length, and within the capacity of the store, of the hits of one key that report one end of window, n in number, the middleware lets exactly the smaller of n and the limit through, whatever the other keys do in between.\<close>

theorem window_budget:
  assumes "0 < maxKeys" "sorted (map fst calls)" "\<forall>call \<in> set calls. 0 < snd (snd call)"
    "card ((fst \<circ> snd) ` set calls) \<le> maxKeys" "0 \<le> limit"
  shows "int (length (filter (\<lambda>(call, r). fst (snd call) = key \<and> rl_resetAt r = reset \<and> snd (rateLimit limit nowMs r))
      (zip calls (fst (store_run maxKeys calls []))))) =
    min limit (int (length (filter (\<lambda>(call, r). fst (snd call) = key \<and> rl_resetAt r = reset)
      (zip calls (fst (store_run maxKeys calls []))))))"
proof -
  have run: "fst (store_run maxKeys calls []) = counter_run calls (\<lambda>_. None)"
  proof (cases calls)
    case (Cons call rest)
    show ?thesis
      by (rule store_run_counts [where K = "(fst \<circ> snd) ` set calls" and now = "fst call"])
        (use assms Cons in \<open>auto simp: store_sound_def tracks_def\<close>)
  qed simp
  have "\<forall>(t, k, w) \<in> set calls. 0 < w" using assms(3) by auto
  from window_counts_run [OF assms(2) this, where f = "\<lambda>_. None" and b = 0] obtain n where
    "window_counts key reset (zip calls (counter_run calls (\<lambda>_. None))) = [1 ..< n + 1]" by auto
  from budget_of_counts [OF this assms(5)] show ?thesis unfolding run .
qed

text \<open>The allowance of a batch of answers: when the bucket of the session is not open and every hit of the batch falls before the end of the window the first one opens, a batch of at most the bound of its step is let through however small the configured limit is, and it leaves the bucket where as many single answers would; a batch above that bound is refused with the store untouched.\<close>

theorem batch_spends_single_answers:
  assumes "0 < maxKeys" "distinct (map fst buckets)" "length buckets \<le> maxKeys"
    "map_of buckets (answersSessionKey session) = None" "\<forall>i < entries. clock i < clock 0 + windowMs" "0 < entries"
  shows "spendAnswerAllowance (store_hit maxKeys) clock windowMs limit session entries stepBound buckets =
    (if entries \<le> stepBound
     then (True, snd (spend_hits (store_hit maxKeys) clock (answersSessionKey session) windowMs entries 0 buckets))
     else (False, buckets)) \<and>
    map_of (snd (spend_hits (store_hit maxKeys) clock (answersSessionKey session) windowMs entries 0 buckets))
      (answersSessionKey session) = Some \<lparr>rl_count = entries, rl_resetAt = clock 0 + windowMs\<rparr>"
proof -
  let ?key = "answersSessionKey session"
  have "store_sound maxKeys buckets" using assms(1-3) by (simp add: store_sound_def)
  from memory_spend_counts [OF this, where n = entries and clock = clock and reset = "clock 0 + windowMs" and
    key = ?key and windowMs = windowMs and base = 0 and c = 0] assms(4-6)
  have "fst (spend_hits (store_hit maxKeys) clock ?key windowMs entries 0 buckets) = entries \<and>
    map_of (snd (spend_hits (store_hit maxKeys) clock ?key windowMs entries 0 buckets)) ?key =
      Some \<lparr>rl_count = entries, rl_resetAt = clock 0 + windowMs\<rparr>" by simp
  then show ?thesis by (auto simp: spendAnswerAllowance_def Let_def case_prod_unfold)
qed

text \<open>An operation of a respondent is applied at most once: after one that was accepted under a token, and whatever happens to the session since, any operation under the same token, on any group, answers a replay and leaves the ledger and the random source as they are.\<close>

theorem replayed_operation_is_no_op:
  assumes "draw_law rand" "roster_order_laws ro" "roster_reachable ro rand s st" "later_than s (rs_table st) now"
    "applyRosterOp rand st s grp (Some (readRoster ro (rs_table st) s (groupId grp))) answers tok op now = Some (Inr done, st1)"
    "roster_run ro rand s st1 st2"
  shows "applyRosterOp rand st2 s grp' roster' answers' tok op' now' =
    Some (Inr \<lparr>op_replayed = True, op_minted = []\<rparr>, st2)"
  using applyRosterOp_keeps [OF assms(1,2) roster_reachable_ok [OF assms(1-3)] assms(4,5)]
    token_stays [OF assms(1,2,6)] by blast

text \<open>An added instance respects the maximum of its group: on an open group below its maximum an operation to add ends, under a fair source, with one fresh well-formed id that becomes present beside the others and keeps their number within the maximum; at the maximum it is refused with nothing changed.\<close>

theorem add_within_maximum:
  assumes "fair_source rand" "draw_law rand" "roster_order_laws ro" "roster_reachable ro rand s st"
    "g_count grp = OpenCount mn (Some mx)" "\<not> rosterOpApplied (rs_table st) s tok"
    "length (gr_minted (readRoster ro (rs_table st) s (groupId grp))) < ID_SPACE"
  shows "if int (length (gr_present (readRoster ro (rs_table st) s (groupId grp)))) < mx
    then \<exists>i st'. applyRosterOp rand st s grp (Some (readRoster ro (rs_table st) s (groupId grp))) answers tok OpAdd now =
        Some (Inr \<lparr>op_replayed = False, op_minted = [i]\<rparr>, st') \<and>
      InstanceId i \<and> i \<notin> set (gr_minted (readRoster ro (rs_table st) s (groupId grp))) \<and>
      set (gr_present (readRoster ro (rs_table st') s (groupId grp))) =
        insert i (set (gr_present (readRoster ro (rs_table st) s (groupId grp)))) \<and>
      int (length (gr_present (readRoster ro (rs_table st') s (groupId grp)))) \<le> mx
    else applyRosterOp rand st s grp (Some (readRoster ro (rs_table st) s (groupId grp))) answers tok OpAdd now =
        Some (Inl REPEAT_MAX_REACHED, st)"
proof -
  let ?r = "readRoster ro (rs_table st) s (groupId grp)"
  note ok = roster_reachable_ok [OF assms(2-4)]
  note exact = stored_exact(2) [OF assms(3) ok, of "groupId grp", unfolded roster_exact_def]
  have live: "liveInstances (g_count grp) (Some ?r) answers = gr_present ?r"
    using exact by (simp add: assms(5) liveInstances_open)
  then have full: "at_maximum grp (Some ?r) answers \<longleftrightarrow> mx \<le> int (length (gr_present ?r))"
    by (simp add: at_maximum_def assms(5))
  show ?thesis
  proof (cases "int (length (gr_present ?r)) < mx")
    case True
    have grp: "is_open (g_count grp)" by (simp add: assms(5))
    have "card (set (minted_of (Some ?r))) + nat 1 \<le> ID_SPACE"
      using assms(7) card_length [of "gr_minted ?r"] by (simp add: minted_of_def)
    from mint_into_total [OF assms(1,2) this, of st s "groupId grp" "Some tok" now]
    obtain outcome st' where run: "applyRosterOp rand st s grp (Some ?r) answers tok OpAdd now = Some (outcome, st')"
      using True full grp assms(6) by (auto simp: applyRosterOp_def)
    from op_add [OF assms(2,3) ok run grp assms(6)] full True obtain i where
      i: "outcome = Inr \<lparr>op_replayed = False, op_minted = [i]\<rparr>"
      "rs_table st' = rs_table st @ rows_minted s (groupId grp) (Some tok) now [i]"
      "i \<notin> added_ids (group_rows (rs_table st) s (groupId grp))" "session_ok s (rs_table st')" by auto
    note present = present_after_add [OF assms(3) ok i(4) [unfolded i(2)] i(3)]
    have "InstanceId i" using i(4) by (simp add: i(2) session_ok_def of_session_def rows_minted_def roster_row_of_def)
    with True run i exact present show ?thesis by (auto simp: i(2))
  qed (use full assms(5,6) in \<open>simp add: applyRosterOp_def\<close>)
qed

text \<open>A refused answer is told everything that is wrong: an unencodable one gets the one encoding error of the question type, any other gets exactly the codes of the constraints it violates, and at least one.\<close>

theorem answer_error_codes:
  assumes "validateAnswer nfc regex q x = Inl errors"
  shows "errors \<noteq> [] \<and>
    (case encode_as nfc (q_type q) x of
       None \<Rightarrow> errors = [encodingError (q_type q)]
     | Some v \<Rightarrow> ve_code ` set errors = {code. violates regex q v code})"
  using validateAnswer_errors_nonempty [OF assms] validateAnswer_Inl_encoding [of nfc q x regex] assms
    validateAnswer_Inl_codes [OF _ assms]
  by (auto split: option.split)

text \<open>A validated answer validates to itself: what was stored can be read back and checked again with the same result.\<close>

theorem answer_validation_idempotent:
  assumes "validateAnswer nfc regex q value = Inr v" "\<And>s. nfc (nfc s) = nfc s"
  shows "validateAnswer nfc regex q (av_to_js v) = Inr v"
  by (rule validateAnswer_idem [OF assms])

text \<open>A parsed form is unambiguous: FormDefinition accepts a structurally valid form exactly when no step, question or group id repeats and no condition is deeper than the cap, and then returns it unchanged.\<close>

theorem form_parse_exact:
  "FormDefinition decode v = Inr f \<longleftrightarrow>
     decode v = Inr f \<and> distinct (map stepId (f_steps f)) \<and> distinct (form_pins f) \<and>
     distinct (form_groups f) \<and> (\<forall>r \<in> set (f_rules f). \<not> depth_exceeded (rule_when r))"
  by (simp add: FormDefinition_Inr_iff unambiguous_def conj_assoc)

text \<open>The refinements of QuestionDefinition accept a question exactly when its bounds are consistent, its options are distinct and labelled, its selection bounds fit the number of options, and its pattern is in the safe subset.\<close>

theorem question_parse_exact:
  "question_refinements compiles_u q = [] \<longleftrightarrow> satisfiable_constraints compiles_u q"
  by (rule question_refinements_Nil_iff)

text \<open>Answer keys are an injective encoding: the parts of a key built from valid ids are those ids, and every string the key patterns accept is the key of its parts.\<close>

theorem answer_key_round_trip:
  "(valid_key_parts (i, q) \<longrightarrow>
     (QuestionId (answerKey q i) \<or> InstanceAnswerKey (answerKey q i)) \<and> answerKeyParts (answerKey q i) = (i, q)) \<and>
   (QuestionId k \<or> InstanceAnswerKey k \<longrightarrow>
     valid_key_parts (answerKeyParts k) \<and> answerKey (snd (answerKeyParts k)) (fst (answerKeyParts k)) = k)"
  using ak.dec_enc [of "(i, q)"] ak.enc_dec [of k "answerKeyParts k"]
  by (auto simp: decode_answer_key_def split: if_splits prod.splits)

text \<open>On date answers the string comparison the code uses is the calendar order: compareValues says Less exactly when the year, then the month, then the day is smaller.\<close>

theorem date_order_is_calendar_order:
  assumes "DateAnswerValue s" "DateAnswerValue t"
  shows "compareValues (AText s) (AText t) = Inr Less \<longleftrightarrow>
     date_year s < date_year t \<or> (date_year s = date_year t \<and>
      (date_month s < date_month t \<or> (date_month s = date_month t \<and> date_day s < date_day t)))"
  using assms str_lt_date [of s t]
  by (simp add: compareValues_dates orderingOf_def DateAnswerValue_def)

text \<open>Where compareValues returns, it orders: swapping the operands flips the result, Less is transitive, Same is equality; and it fails exactly off two finite numbers or two dates.\<close>

theorem compare_is_a_linear_order:
  "((\<exists>r. compareValues a b = Inr r) \<longleftrightarrow>
     (case (a, b) of
        (ANum m, ANum n) \<Rightarrow> num_isFinite m \<and> num_isFinite n
      | (AText s, AText t) \<Rightarrow> DateAnswerValue s \<and> DateAnswerValue t
      | _ \<Rightarrow> False)) \<and>
   (compareValues a b = Inr r \<longrightarrow> compareValues b a = Inr (flip_ordering r)) \<and>
   (compareValues a b = Inr Less \<longrightarrow> compareValues b c = Inr Less \<longrightarrow> compareValues a c = Inr Less) \<and>
   (compareValues a b = Inr Same \<longrightarrow> a = b)"
  using compareValues_Inr_iff compareValues_flip compareValues_Less_trans compareValues_Same_eq by blast

text \<open>valuesEqual is symmetric and transitive, is reflexive except at NaN, and reads a multiple choice as a set.\<close>

theorem equality_of_values:
  "valuesEqual nfc a b = valuesEqual nfc b a \<and>
   (valuesEqual nfc a b \<and> valuesEqual nfc b c \<longrightarrow> valuesEqual nfc a c) \<and>
   (valuesEqual nfc a a \<longleftrightarrow> a \<noteq> ANum NaN) \<and>
   (valuesEqual nfc (AMulti xs) (AMulti ys) \<longleftrightarrow> set xs = set ys)"
proof (intro conjI impI)
  show "valuesEqual nfc a b = valuesEqual nfc b a" by (rule valuesEqual_sym)
  show "valuesEqual nfc a c" if "valuesEqual nfc a b \<and> valuesEqual nfc b c"
    using that valuesEqual_trans by blast
  show "valuesEqual nfc a a \<longleftrightarrow> a \<noteq> ANum NaN" by (rule valuesEqual_refl_iff)
  show "valuesEqual nfc (AMulti xs) (AMulti ys) \<longleftrightarrow> set xs = set ys" by simp
qed

text \<open>conditionDepth measures nesting: on a condition with no empty conjunction or disjunction it is above n exactly when some path of the tree passes more than n nodes.\<close>

theorem condition_depth_is_nesting:
  assumes "ConditionNode_shape nfc c"
  shows "exceeds_opt (int n) (conditionDepth c) \<longleftrightarrow> deeper n c"
  by (rule conditionDepth_deeper [OF ConditionNode_shape_nonempty [OF assms]])

text \<open>labelPlaceholders finds the brace-free runs between braces, left to right: text before the first brace is skipped, the run inside a pair of braces is reported, the search goes on behind it, and no reported placeholder holds a brace.\<close>

theorem label_placeholders:
  assumes "list_all no_brace p" "CHR ''{'' \<notin> set pre"
  shows "labelPlaceholders (pre @ CHR ''{'' # p @ CHR ''}'' # rest) = p # labelPlaceholders rest \<and>
    labelPlaceholders pre = [] \<and>
    (\<forall>x \<in> set (labelPlaceholders rest). list_all no_brace x)"
  using labelPlaceholders_pair [OF assms] labelPlaceholders_plain [OF assms(2)] labelPlaceholders_no_brace by blast

text \<open>respellClasses rewrites a pattern by inserting backslashes only: with the escapes taken out the result is the pattern it was given, and a pattern without a class is left alone.\<close>

theorem respelling_only_escapes:
  "strip (respellClasses p) = strip p \<and> (CHR ''['' \<notin> set p \<longrightarrow> respellClasses p = p)"
  using respellClasses_strip respellClasses_no_class by blast

text \<open>Expanding a union issue loses nothing: at least one issue comes out and each lies at or below the path of the issue it came from.\<close>

theorem union_expansion_keeps_issues:
  "expandUnionIssue i \<noteq> [] \<and> (\<forall>j \<in> set (expandUnionIssue i). \<exists>q. iss_path j = iss_path i @ q)"
  using expandUnionIssue_nonempty expandUnionIssue_path by blast

text \<open>The evaluation budget holds: on a form without findings, a rule that shows questions of one group and reads another as a whole costs at most the budget of instance pairs, counted with the declared maxima.\<close>

theorem cross_group_cost_bounded:
  assumes "analyzeRuleGraph f = []" "r \<in> set (f_rules f)"
    "Some t \<in> set (target_groups (questionGroups (f_steps f)) r)" "g \<in> set (ruleGroupReferences r)" "g \<noteq> t"
    "max_of (groupSpans f) t = Some m" "max_of (groupSpans f) g = Some n"
  shows "m * n \<le> 10000"
proof -
  have "checkCrossGroupBudget f (questionGroups (f_steps f)) (groupSpans f) = []"
    using assms(1) by (simp add: analyzeRuleGraph_def Let_def)
  from checkCrossGroupBudget_Nil [OF this assms(2-7)] show ?thesis by (simp add: REPEAT_EVALUATION_BUDGET_def)
qed

text \<open>The decision on everyInstance: over a roster it holds exactly when the condition holds for each live instance and there is at least one, so over an empty roster it is false and is not the dual of anyInstance there.\<close>

theorem every_instance_over_nothing:
  assumes "\<And>i. i \<in> set (e_rosterOf env g) \<Longrightarrow> evalCondition env S r c (withInstance scope g i) = Inr (P i)"
  shows "evalCondition env S r (CEveryInstance g c) scope =
      Inr (e_rosterOf env g \<noteq> [] \<and> (\<forall>i \<in> set (e_rosterOf env g). P i)) \<and>
    evalCondition env S r (CNot (CAnyInstance g (CNot c))) scope = Inr (\<forall>i \<in> set (e_rosterOf env g). P i)"
proof -
  have "all_ok (\<lambda>i. evalCondition env S r c (withInstance scope g i)) is = Inr (\<forall>i \<in> set is. P i)"
    "any_ok (\<lambda>i. evalCondition env S r (CNot c) (withInstance scope g i)) is = Inr (\<exists>i \<in> set is. \<not> P i)"
    if "set is \<subseteq> set (e_rosterOf env g)" for "is"
    using that assms by (induction "is") (auto simp: ok_def)
  note this [OF order.refl]
  then show ?thesis by (simp add: ok_def Let_def)
qed

text \<open>Every text of a published form can be shown in every locale: after compileDraft, resolveText with the default locale of the form as the fallback succeeds on each text site of the definition and of its pinned questions.\<close>

theorem default_locale_resolves:
  assumes "compileDraft compiles_u compiles_v draft = Inr out"
    "site \<in> set (textSites (d_definition draft) (snd (resolvePins draft)))"
  shows "\<exists>s. resolveText (ts_text site) loc (defaultLocale (d_definition draft)) = Inr s"
proof -
  have "checkLocaleCompleteness (d_definition draft) (textSites (d_definition draft) (snd (resolvePins draft))) = []"
    using assms(1) by (simp add: compileDraft_Inr_iff draft_errors_def Let_def split_def)
  with assms(2) have "isCompleteFor (ts_text site) (defaultLocale (d_definition draft))"
    by (auto simp: checkLocaleCompleteness_def split: if_splits)
  then show ?thesis by (rule isCompleteFor_resolveText)
qed

text \<open>A minted link verifies to the claims it was minted with, until the instant it expires, and only for its own form when a form is expected.\<close>

theorem secure_link_round_trip:
  fixes H :: "'k token_host"
  assumes "host_laws H {}" "LinkClaims (h_iso_datetime H) payload = Some c"
    "mintSecureLink H payload key = Inr token" "key \<in> set keys"
  shows "verifySecureLink H token keys now expected =
    (if num_ge now (h_date_ms H (lc_expiresAt c)) then Inl (TokenError EXPIRED)
     else if expected \<noteq> None \<and> expected \<noteq> Some (lc_formId c) then Inl WRONG_FORM else Inr c)"
proof -
  have signed: "signCompactToken H LinkPurpose (link_entries c) key = Inr token"
    using assms(2,3) by (auto simp: mint_iff)
  note shape = LinkClaims_shape [OF assms(2)]
  have "verifyCompactToken H LinkPurpose token keys now =
      (if claims_expired H (link_entries c) now then err EXPIRED else ok (returned (link_entries c)))"
    using verify_signed_trusted [OF assms(1) signable_link [OF shape] signed assms(4), of LinkPurpose now] by simp
  from link_of_verified [OF shape this, of expected] show ?thesis by (auto simp: err_def ok_def)
qed

text \<open>Purposes are separate: whatever the keys, a token signed for a session is never a link; it is refused for its purpose, or already for its signature.\<close>

theorem session_token_opens_no_link:
  assumes "host_laws H D" "signable H D claims" "signCompactToken H SessionPurpose claims key = Inr token"
  shows "verifySecureLink H token keys now expected =
      Inl (TokenError (if verifyCompactToken H SessionPurpose token keys now = Inl BAD_SIGNATURE
                       then BAD_SIGNATURE else WRONG_PURPOSE))"
  unfolding verifySecureLink_def verify_signed [OF assms] by (auto simp: err_def ok_def)

text \<open>The checks of the schema hold in every run, so no write of the server is ever refused by them: an event marked redacted has no answers, a delivery that keeps a response snippet has the time of its attempt, by which the sweep finds it, and the request headers kept in a row have the mask in place of the signature.\<close>

theorem table_checks_always_hold:
  assumes "checks_hold (ps_db s)" "(data_step H C)\<^sup>*\<^sup>* s s'"
  shows "(\<forall>e \<in> set (events_of (ps_db s')). ob_payloadRedactedAt e = None \<or> \<not> has_member ''answers'' (ob_payload e)) \<and>
    (\<forall>r \<in> set (deliveries_of (ps_db s')). (dv_lastResponseSnippet r = None \<or> dv_lastAttemptAt r \<noteq> None) \<and>
       (dv_lastRequestHeaders r = None \<or> map_of (the (dv_lastRequestHeaders r)) ''x-qcms-signature'' = Some SIGNATURE_MASK))"
proof -
  have "h = None \<or> map_of (the h) ''x-qcms-signature'' = Some SIGNATURE_MASK" if "headers_masked h" for h
    using that by (cases h) (simp_all add: headers_masked_def)
  with steps_checks [OF assms(2,1)] show ?thesis unfolding checks_hold_def delivery_checked_def by blast
qed

text \<open>The budget of the payload sweep is only about how the statement is planned: whatever order the database finds candidates in and whatever the budget, the sweep redacts exactly the payloads that are eligible and whose deliveries have all settled before the horizon, and counts them.\<close>

theorem sweep_budget_changes_nothing:
  assumes "ordering_law arrange"
  shows "redact_aged arrange budget (still_moving deliveries olderThan) olderThan now rows =
    (map (\<lambda>r. if eligibleForPayloadRedaction olderThan r \<and> \<not> still_moving deliveries olderThan (ob_id r)
              then outboxPayloadRedactionColumns now r else r) rows,
     length (filter (\<lambda>r. eligibleForPayloadRedaction olderThan r \<and> \<not> still_moving deliveries olderThan (ob_id r)) rows))"
  unfolding redact_aged_exact [OF assms] redact_where_def ..

text \<open>The check of a dotted IPv4 address is membership in the reserved blocks: read as a 32-bit number, the address is refused exactly when its leading bits are those of one of the nine networks the comments of the code name, from 10.0.0.0/8 to 240.0.0.0/4.\<close>

theorem private_addresses_are_the_reserved_blocks:
  assumes "reads_octets number numeral_of"
  shows "isPrivateIpv4 number (dotted numeral_of a b c d) \<longleftrightarrow>
    (\<exists>(network, len) \<in> set RESERVED_BLOCKS. drop_bit (32 - len) (ipv4_word a b c d) = drop_bit (32 - len) network)"
  unfolding isPrivateIpv4_dotted [OF assms] list_ex_iff in_block_def by (simp add: case_prod_beta)

text \<open>A stored webhook secret decrypts to what was encrypted: with a cipher that opens what it sealed, decrypting the envelope under the same key answers the plaintext, for every plaintext, key and initialisation vector of the right length.\<close>

theorem webhook_secret_round_trip:
  assumes "secret_laws H" "length iv = IV_BYTES"
  shows "decryptWebhookSecret H (encryptWebhookSecret H iv plaintext appKey) appKey = Inr plaintext"
  by (rule decrypt_encrypt [OF assms])

end
